(* ===== verification/Prelude.thy ===== *)
theory Prelude
  imports Complex_Main "HOL-Library.AList" "HOL-Library.Multiset"
begin

text \<open>
  The vocabulary every component shares.

  Python exceptions are values of \<open>py_error\<close>; a computation that may raise has type
  \<open>py_error + 'a\<close> and is sequenced with \<open>bindE\<close>, looped with \<open>foldE\<close> and mapped with
  \<open>mapE\<close>. A raised exception discards the partially updated state of the call that raised
  it.

  A Python \<^verbatim>\<open>dict\<close> is an association list with distinct keys in insertion order. The library
  functions \<open>AList.update\<close> and \<open>AList.delete\<close> do exactly what Python does: assigning to a
  key that is present keeps its position, a new key goes to the end. A Python \<^verbatim>\<open>set\<close>
  whose iteration order the code can observe is a list without duplicates. A Python \<^verbatim>\<open>str\<close>
  that reaches the model is the list of its code points, \<open>unicode_text\<close>; request identifiers,
  which the code only compares, are \<open>string\<close>.
\<close>

section \<open>Types and hint collections\<close>

type_synonym rid = string
type_synonym token = int
type_synonym unicode_text = "nat list"
type_synonym ('k, 'v) dict = "('k \<times> 'v) list"

datatype py_error =
    KeyError
  | IndexError
  | AttributeError
  | AssertionError
  | UnicodeDecodeError
  | UnicodeEncodeError
  | NotImplementedError
  | TypeError string
  | ValueError string
  | RuntimeError string
  | FileNotFoundError
  | EngineDeadError
  | EngineGenerateError
  | TimeoutError
  | PlainException string
  | HTTPException nat string

type_synonym 'a res = "py_error + 'a"

named_theorems dict_simps \<open>lookup, membership and distinctness of dictionaries\<close>
named_theorems inv_intros \<open>operations that preserve a component invariant\<close>

section \<open>Computations that may raise\<close>

fun bindE :: "'e + 'a \<Rightarrow> ('a \<Rightarrow> 'e + 'b) \<Rightarrow> 'e + 'b" where
  "bindE (Inl e) f = Inl e"
| "bindE (Inr x) f = f x"

lemma bindE_eq_Inr [simp]: "bindE m f = Inr y \<longleftrightarrow> (\<exists>x. m = Inr x \<and> f x = Inr y)"
  by (cases m) auto

lemma bindE_eq_Inl [simp]:
  "bindE m f = Inl e \<longleftrightarrow> m = Inl e \<or> (\<exists>x. m = Inr x \<and> f x = Inl e)"
  by (cases m) auto

lemma bindE_assoc: "bindE (bindE m f) g = bindE m (\<lambda>x. bindE (f x) g)"
  by (cases m) auto

lemma bindE_cong [fundef_cong]:
  "m = m' \<Longrightarrow> (\<And>x. m' = Inr x \<Longrightarrow> f x = g x) \<Longrightarrow> bindE m f = bindE m' g"
  by (cases m') auto

definition assertE :: "bool \<Rightarrow> 'e \<Rightarrow> 'e + unit" where
  "assertE b e = (if b then Inr () else Inl e)"

lemma assertE_eq_Inr [simp]: "assertE b e = Inr u \<longleftrightarrow> b"
  by (simp add: assertE_def)

fun mapE :: "('a \<Rightarrow> 'e + 'b) \<Rightarrow> 'a list \<Rightarrow> 'e + 'b list" where
  "mapE f [] = Inr []"
| "mapE f (x # xs) = bindE (f x) (\<lambda>y. bindE (mapE f xs) (\<lambda>ys. Inr (y # ys)))"

lemma mapE_length: "mapE f xs = Inr ys \<Longrightarrow> length ys = length xs"
  by (induction xs arbitrary: ys) auto

lemma mapE_nth: "mapE f xs = Inr ys \<Longrightarrow> i < length xs \<Longrightarrow> f (xs ! i) = Inr (ys ! i)"
  by (induction xs arbitrary: ys i) (auto simp: nth_Cons split: nat.splits)

lemma mapE_all_Inr: "(\<And>x. x \<in> set xs \<Longrightarrow> f x = Inr (g x)) \<Longrightarrow> mapE f xs = Inr (map g xs)"
  by (induction xs) auto

fun foldE :: "('s \<Rightarrow> 'a \<Rightarrow> 'e + 's) \<Rightarrow> 's \<Rightarrow> 'a list \<Rightarrow> 'e + 's" where
  "foldE f s [] = Inr s"
| "foldE f s (x # xs) = bindE (f s x) (\<lambda>s'. foldE f s' xs)"

lemma foldE_append: "foldE f s (xs @ ys) = bindE (foldE f s xs) (\<lambda>s'. foldE f s' ys)"
proof (induction xs arbitrary: s)
  case (Cons x xs)
  then show ?case by (cases "f s x") auto
qed simp

text \<open>The loop rule: what every iteration that returns keeps holds when the loop returns.\<close>

lemma foldE_invariant:
  assumes "foldE f s xs = Inr t" and "P s"
    and "\<And>s x s'. x \<in> set xs \<Longrightarrow> P s \<Longrightarrow> f s x = Inr s' \<Longrightarrow> P s'"
  shows "P t"
  using assms by (induction xs arbitrary: s) auto

text \<open>The same with the elements already consumed at hand.\<close>

lemma foldE_prefix:
  assumes "foldE f s xs = Inr t" and "P [] s"
    and "\<And>ys x zs s s'. xs = ys @ x # zs \<Longrightarrow> P ys s \<Longrightarrow> f s x = Inr s' \<Longrightarrow> P (ys @ [x]) s'"
  shows "P xs t"
proof -
  have "foldE f s (ys @ zs) = Inr t \<Longrightarrow> xs = us @ ys @ zs \<Longrightarrow> P us s \<Longrightarrow>
    \<exists>s'. foldE f s' zs = Inr t \<and> P (us @ ys) s'" for ys zs us s
  proof (induction ys arbitrary: us s)
    case (Cons y ys)
    then obtain s1 where s1: "f s y = Inr s1" "foldE f s1 (ys @ zs) = Inr t" by auto
    have "P (us @ [y]) s1" using assms(3) [of us y "ys @ zs"] Cons.prems s1(1) by auto
    from Cons.IH [OF s1(2) _ this] Cons.prems(2) show ?case by auto
  qed auto
  from this [of s xs "[]" "[]"] assms(1,2) show ?thesis by auto
qed

lemma foldE_total:
  assumes "P s" and "\<And>s x. x \<in> set xs \<Longrightarrow> P s \<Longrightarrow> \<exists>s'. f s x = Inr s' \<and> P s'"
  shows "\<exists>t. foldE f s xs = Inr t \<and> P t"
  using assms
proof (induction xs arbitrary: s)
  case (Cons x xs)
  from Cons.prems obtain s' where "f s x = Inr s'" "P s'" by fastforce
  moreover from Cons.IH [OF \<open>P s'\<close>] Cons.prems(2)
  obtain t where "foldE f s' xs = Inr t" "P t" by fastforce
  ultimately show ?case by auto
qed simp

section \<open>Dictionaries\<close>

abbreviation dict_get :: "('k, 'v) dict \<Rightarrow> 'k \<Rightarrow> 'v option" where
  "dict_get \<equiv> map_of"

abbreviation dict_set :: "'k \<Rightarrow> 'v \<Rightarrow> ('k, 'v) dict \<Rightarrow> ('k, 'v) dict" where
  "dict_set \<equiv> AList.update"

abbreviation dict_del :: "'k \<Rightarrow> ('k, 'v) dict \<Rightarrow> ('k, 'v) dict" where
  "dict_del \<equiv> AList.delete"

abbreviation dict_keys :: "('k, 'v) dict \<Rightarrow> 'k list" where
  "dict_keys d \<equiv> map fst d"

definition dict_has :: "('k, 'v) dict \<Rightarrow> 'k \<Rightarrow> bool" where
  "dict_has d k = (k \<in> set (dict_keys d))"

text \<open>\<open>d[k]\<close>, which raises KeyError, and \<open>d.get(k, default)\<close>.\<close>

definition dict_item :: "('k, 'v) dict \<Rightarrow> 'k \<Rightarrow> 'v res" where
  "dict_item d k = (case dict_get d k of None \<Rightarrow> Inl KeyError | Some v \<Rightarrow> Inr v)"

definition dict_get_default :: "('k, 'v) dict \<Rightarrow> 'k \<Rightarrow> 'v \<Rightarrow> 'v" where
  "dict_get_default d k v = (case dict_get d k of None \<Rightarrow> v | Some w \<Rightarrow> w)"

abbreviation dict_ok :: "('k, 'v) dict \<Rightarrow> bool" where
  "dict_ok d \<equiv> distinct (dict_keys d)"

lemma dict_get_set [dict_simps, simp]: "dict_get (dict_set k v d) = (dict_get d)(k \<mapsto> v)"
  by (simp add: update_conv')

lemma dict_get_del [dict_simps, simp]: "dict_get (dict_del k d) = (dict_get d)(k := None)"
  by (simp add: delete_conv')

lemma dict_keys_del [dict_simps]: "set (dict_keys (dict_del k d)) = set (dict_keys d) - {k}"
  by (induction d) auto

lemma dict_keys_set [dict_simps]: "set (dict_keys (dict_set k v d)) = insert k (set (dict_keys d))"
  by (simp add: dom_update)

lemma dict_ok_set [dict_simps, intro]: "dict_ok d \<Longrightarrow> dict_ok (dict_set k v d)"
  by (rule distinct_update)

lemma dict_ok_del [dict_simps, intro]: "dict_ok d \<Longrightarrow> dict_ok (dict_del k d)"
  by (rule distinct_delete)

lemma dict_has_iff [dict_simps]: "dict_has d k \<longleftrightarrow> dict_get d k \<noteq> None"
  by (simp add: dict_has_def map_of_eq_None_iff)

lemma dict_item_eq_Inr [dict_simps, simp]: "dict_item d k = Inr v \<longleftrightarrow> dict_get d k = Some v"
  by (simp add: dict_item_def split: option.splits)

lemma dict_keys_dom [dict_simps]: "set (dict_keys d) = dom (dict_get d)"
  by (induction d) auto

lemma dict_get_None_keys: "dict_get d k = None \<longleftrightarrow> k \<notin> set (dict_keys d)"
  by (simp add: map_of_eq_None_iff)

lemma dict_set_new: "dict_get d k = None \<Longrightarrow> dict_set k v d = d @ [(k, v)]"
  by (induction d) (auto split: if_splits)

lemma dict_set_keys_old: "dict_get d k \<noteq> None \<Longrightarrow> dict_keys (dict_set k v d) = dict_keys d"
  by (induction d) (auto split: if_splits)

lemma dict_get_in: "dict_get d k = Some v \<Longrightarrow> (k, v) \<in> set d"
  by (rule map_of_SomeD)

lemma dict_in_get: "dict_ok d \<Longrightarrow> (k, v) \<in> set d \<Longrightarrow> dict_get d k = Some v"
  by (rule map_of_is_SomeI)

section \<open>Lists\<close>

lemma sorted_hd_least: "sorted xs \<Longrightarrow> x \<in> set xs \<Longrightarrow> hd xs \<le> x"
  by (cases xs) auto

lemma hd_upt_suffix: "a < b \<Longrightarrow> hd [a..<b] = a"
  by (simp add: upt_conv_Cons)

lemma sorted_distinct_upt:
  "sorted xs \<Longrightarrow> distinct xs \<Longrightarrow> set xs = {a..<b::nat} \<Longrightarrow> xs = [a..<b]"
  by (rule sorted_distinct_set_unique) auto

lemma find_append: "find P (xs @ ys) = (case find P xs of None \<Rightarrow> find P ys | Some x \<Rightarrow> Some x)"
  by (induction xs) auto

lemma find_filter: "find P (filter Q xs) = find (\<lambda>x. P x \<and> Q x) xs"
  by (induction xs) auto

lemma find_map_fun: "find P (map f xs) = map_option f (find (P \<circ> f) xs)"
  by (induction xs) auto

lemma find_cong_set: "(\<And>x. x \<in> set xs \<Longrightarrow> P x = Q x) \<Longrightarrow> find P xs = find Q xs"
  by (induction xs) auto

end
