(* ===== verification/Config.thy ===== *)
theory Config
  imports Prelude
begin

text \<open>
  \<^verbatim>\<open>vkwr/config/\<close>: the configuration records.
\<close>

record scheduler_config =
  max_num_batched_tokens :: int
  max_num_seqs :: int
  chunked_prefill_threshold :: int
  max_num_partial_prefills :: int
  max_long_partial_prefills :: int
  scheduling_policy_name :: string
  runner_type :: string
  enable_chunked_prefill :: bool
  sc_eos_token_id :: token
  sc_ignore_eos :: bool
  default_max_tokens :: "int option"
  enable_async_scheduling :: bool
  batch_queue_size :: int

definition scheduler_config_defaults :: scheduler_config where
  "scheduler_config_defaults =
     \<lparr>max_num_batched_tokens = 2048, max_num_seqs = 64, chunked_prefill_threshold = 512,
      max_num_partial_prefills = 2, max_long_partial_prefills = 1,
      scheduling_policy_name = ''fcfs'', runner_type = ''generate'',
      enable_chunked_prefill = True, sc_eos_token_id = 0, sc_ignore_eos = False,
      default_max_tokens = None, enable_async_scheduling = True, batch_queue_size = 2\<rparr>"

end
