(* ===== verification/Request.thy ===== *)
theory Request
  imports Prelude
begin

text \<open>
  \<^verbatim>\<open>vkwr/engine/request.py\<close>: request status, sampling parameters and the engine's request
  object.

  Floats are modelled as reals (NaN and infinities are outside the model). The struct
  validation \<^verbatim>\<open>SamplingParams.__post_init__\<close> is \<open>sampling_post_init\<close>, with its checks in the
  source's order and its messages as the argument of \<open>ValueError\<close>. \<^verbatim>\<open>VkwrRequest\<close> is the
  record \<open>vreq\<close>; its unused field \<^verbatim>\<open>lora_request\<close> is left out, and the attribute
  \<^verbatim>\<open>_max_model_len\<close>, which the scheduler reads with \<^verbatim>\<open>getattr\<close>, is a field.
\<close>

section \<open>Status and output kinds\<close>

datatype request_status = WAITING | RUNNING | FINISHED_STOPPED | FINISHED_ABORTED

fun status_value :: "request_status \<Rightarrow> nat" where
  "status_value WAITING = 0"
| "status_value RUNNING = 1"
| "status_value FINISHED_STOPPED = 2"
| "status_value FINISHED_ABORTED = 3"

lemma status_value_inj: "status_value a = status_value b \<Longrightarrow> a = b"
  by (cases a; cases b) auto

text \<open>An \<^verbatim>\<open>IntEnum\<close> is ordered by its values.\<close>

instantiation request_status :: linorder
begin

definition less_eq_request_status :: "request_status \<Rightarrow> request_status \<Rightarrow> bool" where
  "less_eq_request_status a b \<longleftrightarrow> status_value a \<le> status_value b"

definition less_request_status :: "request_status \<Rightarrow> request_status \<Rightarrow> bool" where
  "less_request_status a b \<longleftrightarrow> status_value a < status_value b"

instance
  by standard (auto simp: less_eq_request_status_def less_request_status_def intro: status_value_inj)

end

definition is_finished_status :: "request_status \<Rightarrow> bool" where
  "is_finished_status s \<longleftrightarrow> FINISHED_STOPPED \<le> s"

lemma is_finished_status_simps [simp]:
  "\<not> is_finished_status WAITING" "\<not> is_finished_status RUNNING"
  "is_finished_status FINISHED_STOPPED" "is_finished_status FINISHED_ABORTED"
  by (simp_all add: is_finished_status_def less_eq_request_status_def)

text \<open>\<^verbatim>\<open>RequestOutputKind\<close> is an \<^verbatim>\<open>IntEnum\<close> stored in an integer field.\<close>

definition CUMULATIVE :: int where "CUMULATIVE = 0"
definition DELTA :: int where "DELTA = 1"
definition FINAL_ONLY :: int where "FINAL_ONLY = 2"

lemmas output_kind_defs = CUMULATIVE_def DELTA_def FINAL_ONLY_def

section \<open>Sampling parameters\<close>

text \<open>\<^verbatim>\<open>stop\<close> may be given as \<^verbatim>\<open>None\<close>, one string or a list of strings.\<close>

datatype stop_arg = StopNone | StopStr unicode_text | StopList "unicode_text list"

record sampling_params =
  sp_n :: int
  sp_temperature :: real
  sp_top_p :: real
  sp_top_k :: int
  sp_min_p :: real
  sp_presence_penalty :: real
  sp_frequency_penalty :: real
  sp_penalty_decay :: real
  sp_max_tokens :: "int option"
  sp_stop :: stop_arg
  sp_stop_token_ids :: "token list option"
  sp_eos_token_id :: "token option"
  sp_ignore_eos :: bool
  sp_seed :: "int option"
  sp_use_beam_search :: bool
  sp_output_kind :: int
  sp_skip_special_tokens :: bool
  sp_spaces_between_special_tokens :: bool
  sp_include_stop_str_in_output :: bool
  sp_min_tokens :: int

definition sampling_defaults :: sampling_params where
  "sampling_defaults =
     \<lparr>sp_n = 1, sp_temperature = 1, sp_top_p = 1, sp_top_k = -1, sp_min_p = 0,
      sp_presence_penalty = 0, sp_frequency_penalty = 0, sp_penalty_decay = 1,
      sp_max_tokens = None, sp_stop = StopNone, sp_stop_token_ids = None, sp_eos_token_id = None,
      sp_ignore_eos = False, sp_seed = None, sp_use_beam_search = False, sp_output_kind = 0,
      sp_skip_special_tokens = True, sp_spaces_between_special_tokens = True,
      sp_include_stop_str_in_output = False, sp_min_tokens = 0\<rparr>"

fun stop_as_list :: "stop_arg \<Rightarrow> unicode_text list" where
  "stop_as_list StopNone = []"
| "stop_as_list (StopStr s) = [s]"
| "stop_as_list (StopList ss) = ss"

definition sampling_eps :: real where "sampling_eps = 1 / 100000"

definition sampling_post_init :: "sampling_params \<Rightarrow> sampling_params res" where
  "sampling_post_init p =
     (if sp_n p < 1 then Inl (ValueError ''n must be >= 1'')
      else if sp_n p > 1 then Inl (ValueError ''n > 1 (parallel sampling) is not supported'')
      else if sp_temperature p < 0 then Inl (ValueError ''temperature must be >= 0'')
      else if \<not> (-2 \<le> sp_presence_penalty p \<and> sp_presence_penalty p \<le> 2)
        then Inl (ValueError ''presence_penalty must be in [-2, 2]'')
      else if \<not> (-2 \<le> sp_frequency_penalty p \<and> sp_frequency_penalty p \<le> 2)
        then Inl (ValueError ''frequency_penalty must be in [-2, 2]'')
      else if \<not> (0 < sp_top_p p \<and> sp_top_p p \<le> 1) then Inl (ValueError ''top_p must be in (0, 1]'')
      else if \<not> (0 \<le> sp_min_p p \<and> sp_min_p p \<le> 1) then Inl (ValueError ''min_p must be in [0, 1]'')
      else if sp_top_k p < -1 then Inl (ValueError ''top_k must be >= -1'')
      else if (case sp_max_tokens p of None \<Rightarrow> False | Some m \<Rightarrow> m < 1)
        then Inl (ValueError ''max_tokens must be at least 1'')
      else
        let p1 = (if sp_seed p = Some (-1) then p\<lparr>sp_seed := None\<rparr> else p);
            p2 = p1\<lparr>sp_stop := StopList (stop_as_list (sp_stop p1))\<rparr>
        in if [] \<in> set (stop_as_list (sp_stop p2))
             then Inl (ValueError ''stop cannot contain an empty string'')
           else if sp_min_tokens p2 < 0 then Inl (ValueError ''min_tokens must be >= 0'')
           else if sp_temperature p2 < sampling_eps
             then Inr (p2\<lparr>sp_top_p := 1, sp_top_k := 0, sp_min_p := 0\<rparr>)
           else Inr p2)"

subsection \<open>What a constructed \<open>SamplingParams\<close> satisfies\<close>

definition sampling_in_range :: "sampling_params \<Rightarrow> bool" where
  "sampling_in_range p \<longleftrightarrow>
     sp_n p = 1 \<and> 0 \<le> sp_temperature p \<and>
     \<bar>sp_presence_penalty p\<bar> \<le> 2 \<and> \<bar>sp_frequency_penalty p\<bar> \<le> 2 \<and>
     0 < sp_top_p p \<and> sp_top_p p \<le> 1 \<and> 0 \<le> sp_min_p p \<and> sp_min_p p \<le> 1 \<and> -1 \<le> sp_top_k p \<and>
     (\<forall>m. sp_max_tokens p = Some m \<longrightarrow> 1 \<le> m) \<and>
     [] \<notin> set (stop_as_list (sp_stop p)) \<and> 0 \<le> sp_min_tokens p"

text \<open>The normal form: the stop list is a list, no seed -1, greedy parameters reset.\<close>

definition sampling_normal :: "sampling_params \<Rightarrow> bool" where
  "sampling_normal p \<longleftrightarrow>
     sampling_in_range p \<and> (\<exists>ss. sp_stop p = StopList ss) \<and> sp_seed p \<noteq> Some (-1) \<and>
     (sp_temperature p < sampling_eps \<longrightarrow> sp_top_p p = 1 \<and> sp_top_k p = 0 \<and> sp_min_p p = 0)"

lemma sampling_post_init_accepts:
  "(\<exists>q. sampling_post_init p = Inr q) \<longleftrightarrow> sampling_in_range p"
  unfolding sampling_post_init_def sampling_in_range_def
  by (auto simp: Let_def abs_le_iff split: option.splits)

lemma sampling_post_init_normal: "sampling_post_init p = Inr q \<Longrightarrow> sampling_normal q"
  unfolding sampling_post_init_def sampling_normal_def sampling_in_range_def
  by (auto simp: Let_def abs_le_iff split: option.splits if_splits)

lemma sampling_post_init_fixed: "sampling_normal q \<Longrightarrow> sampling_post_init q = Inr q"
  unfolding sampling_post_init_def sampling_normal_def sampling_in_range_def
  by (cases q) (auto simp: Let_def abs_le_iff split: option.splits)

text \<open>
  Constructing \<^verbatim>\<open>SamplingParams\<close> succeeds exactly on parameters in range; the result is
  in normal form (stop strings as a list of non-empty strings, no seed -1, neutral
  top-p/top-k/min-p under greedy temperature), and validating it again changes nothing.
\<close>

theorem sampling_params_validated:
  "((\<exists>q. sampling_post_init p = Inr q) \<longleftrightarrow> sampling_in_range p) \<and>
   (\<forall>q. sampling_post_init p = Inr q \<longrightarrow> sampling_normal q \<and> sampling_post_init q = Inr q)"
  using sampling_post_init_accepts sampling_post_init_normal sampling_post_init_fixed by blast

theorem sampling_params_validated_witness:
  "\<exists>q. sampling_post_init (sampling_defaults\<lparr>sp_temperature := 0, sp_seed := Some (-1)\<rparr>) = Inr q \<and>
     sampling_normal q \<and> sp_top_k q = 0 \<and> sp_seed q = None"
proof -
  let ?p = "sampling_defaults\<lparr>sp_temperature := 0, sp_seed := Some (-1)\<rparr>"
  have run: "sampling_post_init ?p = Inr (?p\<lparr>sp_seed := None, sp_stop := StopList [], sp_top_k := 0\<rparr>)"
    by (simp add: sampling_post_init_def sampling_defaults_def sampling_eps_def)
  with sampling_params_validated [of ?p] show ?thesis by fastforce
qed

section \<open>Requests\<close>

datatype prompt_input = PromptText unicode_text | PromptTokens "token list"

record vreq =
  request_id :: rid
  prompt :: prompt_input
  prompt_token_ids :: "token list"
  req_sampling_params :: sampling_params
  arrival_time :: real
  status :: request_status
  priority :: int
  external_req_id :: "rid option"
  num_computed_tokens :: int
  num_output_tokens :: int
  req_max_model_len :: "int option"

text \<open>The constructor with the source's defaults; \<open>now\<close> is \<^verbatim>\<open>time.monotonic()\<close>.\<close>

definition new_vreq ::
  "real \<Rightarrow> rid \<Rightarrow> prompt_input \<Rightarrow> token list \<Rightarrow> sampling_params \<Rightarrow> real \<Rightarrow> int \<Rightarrow> vreq" where
  "new_vreq now r p toks sp arr prio =
     \<lparr>request_id = r, prompt = p, prompt_token_ids = toks, req_sampling_params = sp,
      arrival_time = (if arr = 0 then now else arr), status = WAITING, priority = prio,
      external_req_id = None, num_computed_tokens = 0, num_output_tokens = 0,
      req_max_model_len = None\<rparr>"

definition vreq_key :: "vreq \<Rightarrow> int \<times> real" where
  "vreq_key r = (priority r, arrival_time r)"

definition vreq_lt :: "vreq \<Rightarrow> vreq \<Rightarrow> bool" where
  "vreq_lt a b \<longleftrightarrow> priority a < priority b \<or> (priority a = priority b \<and> arrival_time a < arrival_time b)"

definition is_decode :: "vreq \<Rightarrow> bool" where
  "is_decode r \<longleftrightarrow> num_computed_tokens r \<ge> int (length (prompt_token_ids r))"

text \<open>\<^verbatim>\<open>__lt__\<close> is a strict weak order, as \<^verbatim>\<open>heapq\<close> requires.\<close>

lemma vreq_lt_irrefl: "\<not> vreq_lt a a"
  by (simp add: vreq_lt_def)

lemma vreq_lt_trans: "vreq_lt a b \<Longrightarrow> vreq_lt b c \<Longrightarrow> vreq_lt a c"
  by (auto simp: vreq_lt_def)

lemma vreq_lt_neg_trans: "\<not> vreq_lt a b \<Longrightarrow> \<not> vreq_lt b c \<Longrightarrow> \<not> vreq_lt a c"
  by (auto simp: vreq_lt_def)

lemma vreq_lt_asym: "vreq_lt a b \<Longrightarrow> \<not> vreq_lt b a"
  by (auto simp: vreq_lt_def)

end
