(* ===== verification/Outputs.thy ===== *)
theory Outputs
  imports Request
begin

text \<open>
  \<^verbatim>\<open>vkwr/engine/outputs.py\<close>: what the model runner, the engine core and the engine hand on.

  \<^verbatim>\<open>stop_reason\<close> is a token or a string; finish reasons are the strings the code uses. Time
  stamps (\<^verbatim>\<open>EngineCoreOutputs.timestamp\<close>) and the tensor \<^verbatim>\<open>ModelRunnerOutput.logits\<close> are not
  modelled. \<open>ro_add\<close> is \<^verbatim>\<open>RequestOutput.add\<close>, which the streaming collector uses to merge
  outputs a slow consumer has not fetched yet; the lemmas show that merging loses no text.
\<close>

section \<open>Data\<close>

datatype stop_reason_val = StopTok token | StopText unicode_text

type_synonym logprob_dict = "(token, real) dict"

record completion_output =
  co_index :: nat
  co_token_ids :: "token list"
  co_text :: unicode_text
  co_cumlogprob :: real
  co_logprobs :: "logprob_dict list option"
  co_finish_reason :: "string option"
  co_stop_reason :: "stop_reason_val option"

record request_stats =
  rs_waiting_time :: real
  rs_running_time :: real
  rs_total_tokens :: int
  rs_generated_tokens :: int

record request_output =
  ro_request_id :: rid
  ro_prompt :: unicode_text
  ro_prompt_token_ids :: "token list"
  ro_outputs :: "completion_output list"
  ro_finished :: bool
  ro_finish_reason :: "string option"
  ro_stats :: "request_stats option"

record engine_core_output =
  eco_request_id :: rid
  eco_new_token_ids :: "token list"
  eco_new_logprobs :: "logprob_dict list option"
  eco_finish_reason :: "string option"
  eco_stop_reason :: "stop_reason_val option"

text \<open>
  \<^verbatim>\<open>core_request.py\<close>: the answer to a utility call. The result may be any object; the model
  keeps an opaque name for it.
\<close>

record utility_output =
  ut_call_id :: int
  ut_failure_message :: "string option"
  ut_result :: "string option"

record engine_core_outputs =
  ecos_outputs :: "engine_core_output list"
  ecos_utility_output :: "utility_output option"

record model_runner_output =
  mro_sampled_token_ids :: "(rid, token list) dict"
  mro_sampled_logprobs :: "(rid, logprob_dict list) dict option"

definition outputs_of :: "engine_core_output list \<Rightarrow> engine_core_outputs" where
  "outputs_of os = \<lparr>ecos_outputs = os, ecos_utility_output = None\<rparr>"

definition STREAM_FINISHED :: request_output where
  "STREAM_FINISHED =
     \<lparr>ro_request_id = [], ro_prompt = [], ro_prompt_token_ids = [], ro_outputs = [],
      ro_finished = True, ro_finish_reason = None, ro_stats = None\<rparr>"

section \<open>Merging outputs\<close>

text \<open>\<open>a or b\<close> on optional strings: None and the empty string are falsy.\<close>

fun str_or :: "string option \<Rightarrow> string option \<Rightarrow> string option" where
  "str_or (Some (c # cs)) b = Some (c # cs)"
| "str_or _ b = b"

text \<open>The body of the inner loop at the first completion of the same index.\<close>

definition completion_merge ::
  "bool \<Rightarrow> completion_output \<Rightarrow> completion_output \<Rightarrow> completion_output" where
  "completion_merge aggregate nxt c =
     (if aggregate then
        c\<lparr>co_text := co_text c @ co_text nxt,
          co_token_ids := co_token_ids c @ co_token_ids nxt,
          co_logprobs :=
            (case co_logprobs nxt of
               None \<Rightarrow> co_logprobs c
             | Some [] \<Rightarrow> co_logprobs c
             | Some ls \<Rightarrow> Some ((case co_logprobs c of None \<Rightarrow> [] | Some l0 \<Rightarrow> l0) @ ls)),
          co_cumlogprob := co_cumlogprob nxt,
          co_finish_reason := co_finish_reason nxt,
          co_stop_reason := co_stop_reason nxt\<rparr>
      else nxt)"

text \<open>The inner \<^verbatim>\<open>for ... else\<close>: merge into the first match, append if there is none.\<close>

fun outputs_merge ::
  "bool \<Rightarrow> completion_output \<Rightarrow> completion_output list \<Rightarrow> completion_output list" where
  "outputs_merge aggregate nxt [] = [nxt]"
| "outputs_merge aggregate nxt (c # cs) =
     (if co_index c = co_index nxt then completion_merge aggregate nxt c # cs
      else c # outputs_merge aggregate nxt cs)"

definition ro_add :: "request_output \<Rightarrow> request_output \<Rightarrow> bool \<Rightarrow> request_output" where
  "ro_add self nxt aggregate =
     self\<lparr>ro_finished := ro_finished self \<or> ro_finished nxt,
          ro_finish_reason := str_or (ro_finish_reason nxt) (ro_finish_reason self),
          ro_outputs := fold (outputs_merge aggregate) (ro_outputs nxt) (ro_outputs self)\<rparr>"

subsection \<open>What is emitted for an index\<close>

definition tokens_at :: "nat \<Rightarrow> completion_output list \<Rightarrow> token list" where
  "tokens_at i cs = concat (map co_token_ids (filter (\<lambda>c. co_index c = i) cs))"

definition text_at :: "nat \<Rightarrow> completion_output list \<Rightarrow> unicode_text" where
  "text_at i cs = concat (map co_text (filter (\<lambda>c. co_index c = i) cs))"

definition indices_ok :: "completion_output list \<Rightarrow> bool" where
  "indices_ok cs \<longleftrightarrow> distinct (map co_index cs)"

lemma merge_indices: "map co_index (outputs_merge a n cs) =
    (if co_index n \<in> co_index ` set cs then map co_index cs else map co_index cs @ [co_index n])"
  by (induction cs) (auto simp: completion_merge_def)

lemma merge_indices_ok [inv_intros]: "indices_ok cs \<Longrightarrow> indices_ok (outputs_merge a n cs)"
  by (auto simp: indices_ok_def merge_indices)

lemma absent_filter: "i \<notin> co_index ` set cs \<Longrightarrow> filter (\<lambda>c. co_index c = i) cs = []"
  by (induction cs) auto

lemma merge_text:
  assumes "indices_ok cs"
  shows "text_at i (outputs_merge True n cs) = text_at i cs @ (if co_index n = i then co_text n else [])"
    and "tokens_at i (outputs_merge True n cs) =
           tokens_at i cs @ (if co_index n = i then co_token_ids n else [])"
  using assms
  by (induction cs)
     (auto simp: text_at_def tokens_at_def indices_ok_def completion_merge_def absent_filter)

lemma merge_all_text:
  assumes "indices_ok cs"
  shows "text_at i (fold (outputs_merge True) ns cs) = text_at i cs @ text_at i ns \<and>
         tokens_at i (fold (outputs_merge True) ns cs) = tokens_at i cs @ tokens_at i ns \<and>
         indices_ok (fold (outputs_merge True) ns cs)"
  using assms
proof (induction ns arbitrary: cs)
  case (Cons n ns)
  from Cons.IH [OF merge_indices_ok [OF Cons.prems]] merge_text [OF Cons.prems]
  show ?case by (auto simp: text_at_def tokens_at_def)
qed (simp add: text_at_def tokens_at_def)

lemma ro_add_proj:
  "ro_outputs (ro_add o1 o2 a) = fold (outputs_merge a) (ro_outputs o2) (ro_outputs o1)"
  "ro_finished (ro_add o1 o2 a) \<longleftrightarrow> ro_finished o1 \<or> ro_finished o2"
  "ro_request_id (ro_add o1 o2 a) = ro_request_id o1"
  by (simp_all add: ro_add_def)

text \<open>
  Merging streamed outputs loses nothing. However many outputs in delta mode are merged
  into one, the text and the tokens of each completion are the concatenation of all the
  deltas in order, and the result is finished exactly when one of the outputs was.
\<close>

theorem delta_merge_concatenates:
  assumes "indices_ok (ro_outputs o1)"
  shows "text_at i (ro_outputs (foldl (\<lambda>a b. ro_add a b True) o1 os)) =
           text_at i (ro_outputs o1) @ concat (map (\<lambda>b. text_at i (ro_outputs b)) os) \<and>
         tokens_at i (ro_outputs (foldl (\<lambda>a b. ro_add a b True) o1 os)) =
           tokens_at i (ro_outputs o1) @ concat (map (\<lambda>b. tokens_at i (ro_outputs b)) os) \<and>
         (ro_finished (foldl (\<lambda>a b. ro_add a b True) o1 os) \<longleftrightarrow> (\<exists>b \<in> set (o1 # os). ro_finished b))"
  using assms
proof (induction os arbitrary: o1)
  case (Cons b os)
  have "indices_ok (ro_outputs (ro_add o1 b True))"
    using merge_all_text [OF Cons.prems] by (simp add: ro_add_proj)
  from Cons.IH [OF this] merge_all_text [OF Cons.prems, of i "ro_outputs b"]
  show ?case by (auto simp: ro_add_proj)
qed simp

definition demo_delta :: "unicode_text \<Rightarrow> token list \<Rightarrow> bool \<Rightarrow> request_output" where
  "demo_delta t toks fin =
     \<lparr>ro_request_id = ''r'', ro_prompt = [], ro_prompt_token_ids = [],
      ro_outputs = [\<lparr>co_index = 0, co_token_ids = toks, co_text = t, co_cumlogprob = 0,
        co_logprobs = None, co_finish_reason = None, co_stop_reason = None\<rparr>],
      ro_finished = fin, ro_finish_reason = None, ro_stats = None\<rparr>"

theorem delta_merge_concatenates_witness:
  "text_at 0 (ro_outputs (foldl (\<lambda>a b. ro_add a b True) (demo_delta [72] [5] False)
      [demo_delta [105] [6] False, demo_delta [33] [7] True])) = [72, 105, 33]"
proof -
  have "indices_ok (ro_outputs (demo_delta [72] [5] False))"
    by (simp add: indices_ok_def demo_delta_def)
  from delta_merge_concatenates [OF this, of 0 "[demo_delta [105] [6] False, demo_delta [33] [7] True]"]
  show ?thesis by (simp add: demo_delta_def text_at_def)
qed

end
