(* ===== verification/Heapq.thy ===== *)
theory Heapq
  imports Prelude
begin

text \<open>
  The functions of Python's standard module \<^verbatim>\<open>heapq\<close> that the priority queue uses, with the
  comparison \<^verbatim>\<open>__lt__\<close> as the parameter \<open>lt\<close>. \<open>heap_siftdown\<close> and \<open>heap_siftup\<close> are the
  module's two loops: the first moves a hole towards \<open>start\<close>, the second moves a hole down to
  a leaf, always to the smaller child, and then calls the first.

  The locale \<open>strict_weak_order\<close> is the contract on \<^verbatim>\<open>__lt__\<close>. Its lemmas show that push, pop
  and heapify keep the heap order and the elements, that the root is a least element, and that
  draining a heap yields its elements in order.
\<close>

section \<open>Operations\<close>

definition parent :: "nat \<Rightarrow> nat" where
  "parent i = (i - 1) div 2"

function heap_siftdown :: "('a \<Rightarrow> 'a \<Rightarrow> bool) \<Rightarrow> nat \<Rightarrow> nat \<Rightarrow> 'a \<Rightarrow> 'a list \<Rightarrow> 'a list" where
  "heap_siftdown lt start pos newitem h =
     (if start < pos \<and> lt newitem (h ! parent pos)
      then heap_siftdown lt start (parent pos) newitem (h[pos := h ! parent pos])
      else h[pos := newitem])"
  by pat_completeness auto
termination
  by (relation "measure (\<lambda>(_, _, pos, _). pos)") (auto simp: parent_def)

declare heap_siftdown.simps [simp del]

definition smaller_child :: "('a \<Rightarrow> 'a \<Rightarrow> bool) \<Rightarrow> 'a list \<Rightarrow> nat \<Rightarrow> nat" where
  "smaller_child lt h pos =
     (let c = 2 * pos + 1 in if c + 1 < length h \<and> \<not> lt (h ! c) (h ! (c + 1)) then c + 1 else c)"

function heap_to_leaf :: "('a \<Rightarrow> 'a \<Rightarrow> bool) \<Rightarrow> nat \<Rightarrow> 'a list \<Rightarrow> nat \<times> 'a list" where
  "heap_to_leaf lt pos h =
     (if 2 * pos + 1 < length h
      then heap_to_leaf lt (smaller_child lt h pos) (h[pos := h ! smaller_child lt h pos])
      else (pos, h))"
  by pat_completeness auto
termination
  by (relation "measure (\<lambda>(_, pos, h). length h - pos)") (auto simp: smaller_child_def Let_def)

declare heap_to_leaf.simps [simp del]

definition heap_siftup :: "('a \<Rightarrow> 'a \<Rightarrow> bool) \<Rightarrow> nat \<Rightarrow> 'a list \<Rightarrow> 'a list" where
  "heap_siftup lt pos h =
     (case heap_to_leaf lt pos h of (leaf, h') \<Rightarrow> heap_siftdown lt pos leaf (h ! pos) h')"

definition heappush :: "('a \<Rightarrow> 'a \<Rightarrow> bool) \<Rightarrow> 'a \<Rightarrow> 'a list \<Rightarrow> 'a list" where
  "heappush lt x h = heap_siftdown lt 0 (length h) x (h @ [x])"

definition heappop :: "('a \<Rightarrow> 'a \<Rightarrow> bool) \<Rightarrow> 'a list \<Rightarrow> ('a \<times> 'a list) res" where
  "heappop lt h =
     (if h = [] then Inl IndexError
      else let lastelt = last h; rest = butlast h
           in if rest = [] then Inr (lastelt, [])
              else Inr (rest ! 0, heap_siftup lt 0 (rest[0 := lastelt])))"

fun heapify_from :: "('a \<Rightarrow> 'a \<Rightarrow> bool) \<Rightarrow> nat \<Rightarrow> 'a list \<Rightarrow> 'a list" where
  "heapify_from lt 0 h = h"
| "heapify_from lt (Suc i) h = heapify_from lt i (heap_siftup lt i h)"

definition heapify :: "('a \<Rightarrow> 'a \<Rightarrow> bool) \<Rightarrow> 'a list \<Rightarrow> 'a list" where
  "heapify lt h = heapify_from lt (length h div 2) h"

section \<open>Lengths and elements\<close>

lemma length_siftdown [simp]: "length (heap_siftdown lt s p x h) = length h"
proof (induction lt s p x h rule: heap_siftdown.induct)
  case (1 lt s p x h)
  then show ?case by (simp add: heap_siftdown.simps [of lt s p x h])
qed

lemma mset_swap_hole:
  assumes "i < length h" and "j < length h" and "i \<noteq> j"
  shows "mset (h[i := h ! j, j := x]) = mset (h[i := x])"
proof -
  have "h[i := h ! j, j := x] = (h[i := x])[j := (h[i := x]) ! i, i := (h[i := x]) ! j]"
    using assms by (intro nth_equalityI) (auto simp: nth_list_update)
  also have "mset \<dots> = mset (h[i := x])" using assms by (intro mset_swap) auto
  finally show ?thesis .
qed

lemma parent_less: "0 < i \<Longrightarrow> parent i < i"
  by (auto simp: parent_def)

lemma parent_eq_iff: "0 < c \<Longrightarrow> parent c = p \<longleftrightarrow> c = 2 * p + 1 \<or> c = 2 * p + 2"
  by (auto simp: parent_def)

lemma mset_siftdown: "p < length h \<Longrightarrow> mset (heap_siftdown lt s p x h) = mset (h[p := x])"
proof (induction lt s p x h rule: heap_siftdown.induct)
  case (1 lt s p x h)
  show ?case
  proof (cases "s < p \<and> lt x (h ! parent p)")
    case True
    then have "parent p < p" by (auto intro: parent_less)
    then have "mset (h[p := h ! parent p, parent p := x]) = mset (h[p := x])"
      using "1.prems" by (intro mset_swap_hole) auto
    then show ?thesis
      using 1 True \<open>parent p < p\<close> by (simp add: heap_siftdown.simps [of lt s p x h])
  next
    case False
    then show ?thesis by (auto simp: heap_siftdown.simps [of lt s p x h])
  qed
qed

lemma smaller_child_bounds:
  assumes "2 * p + 1 < length h"
  shows "smaller_child lt h p < length h" and "p < smaller_child lt h p"
    and "parent (smaller_child lt h p) = p"
  using assms by (auto simp: smaller_child_def Let_def parent_def)

lemma to_leaf_spec:
  assumes "heap_to_leaf lt p h = (leaf, h')" and "p < length h"
  shows "length h' = length h" and "leaf < length h" and "p \<le> leaf" and "\<not> 2 * leaf + 1 < length h"
    and "mset (h'[leaf := x]) = mset (h[p := x])"
  using assms
proof (induction lt p h rule: heap_to_leaf.induct)
  case (1 lt p h)
  let ?c = "smaller_child lt h p"
  {
    case 1 show ?case using "1.IH"(1) 1 smaller_child_bounds [of p h lt]
      by (cases "2 * p + 1 < length h") (auto simp: heap_to_leaf.simps [of lt p h])
  next
    case 2 show ?case using "1.IH"(2) 2 smaller_child_bounds [of p h lt]
      by (cases "2 * p + 1 < length h") (auto simp: heap_to_leaf.simps [of lt p h])
  next
    case 3 show ?case using "1.IH"(3) 3 smaller_child_bounds [of p h lt]
      by (cases "2 * p + 1 < length h") (fastforce simp: heap_to_leaf.simps [of lt p h])+
  next
    case 4 show ?case using "1.IH"(4) 4 smaller_child_bounds [of p h lt]
      by (cases "2 * p + 1 < length h") (auto simp: heap_to_leaf.simps [of lt p h])
  next
    case 5
    show ?case
    proof (cases "2 * p + 1 < length h")
      case True
      then have "mset (h'[leaf := x]) = mset (h[p := h ! ?c, ?c := x])"
        using "1.IH"(5) 5 smaller_child_bounds [of p h lt]
        by (simp add: heap_to_leaf.simps [of lt p h])
      also have "\<dots> = mset (h[p := x])"
        using True 5 smaller_child_bounds [of p h lt] by (intro mset_swap_hole) auto
      finally show ?thesis .
    qed (use 5 in \<open>auto simp: heap_to_leaf.simps [of lt p h]\<close>)
  }
qed

lemma length_siftup [simp]: "p < length h \<Longrightarrow> length (heap_siftup lt p h) = length h"
  using to_leaf_spec(1) [of lt p h] by (auto simp: heap_siftup_def split: prod.splits)

lemma mset_siftup: "p < length h \<Longrightarrow> mset (heap_siftup lt p h) = mset h"
proof -
  assume p: "p < length h"
  obtain leaf h' where tl: "heap_to_leaf lt p h = (leaf, h')" by force
  note spec = to_leaf_spec [OF tl p]
  have "mset (heap_siftdown lt p leaf (h ! p) h') = mset (h'[leaf := h ! p])"
    using spec(1,2) by (intro mset_siftdown) simp
  then show ?thesis using spec(5) [of "h ! p"] by (simp add: heap_siftup_def tl)
qed

lemma mset_heappush: "mset (heappush lt x h) = add_mset x (mset h)"
  by (simp add: heappush_def mset_siftdown)

lemma heappop_Inr_iff: "(\<exists>p. heappop lt h = Inr p) \<longleftrightarrow> h \<noteq> []"
  by (auto simp: heappop_def Let_def)

lemma mset_heappop: "heappop lt h = Inr (x, h') \<Longrightarrow> mset h = add_mset x (mset h')"
proof -
  assume pop: "heappop lt h = Inr (x, h')"
  then have ne: "h \<noteq> []" by (auto simp: heappop_def)
  then have h: "h = butlast h @ [last h]" by simp
  show ?thesis
  proof (cases "butlast h")
    case Nil
    with pop ne h show ?thesis by (auto simp: heappop_def Let_def)
  next
    case (Cons a as)
    with pop ne have "x = a" "h' = heap_siftup lt 0 (last h # as)"
      by (auto simp: heappop_def Let_def)
    moreover have "mset h = mset (butlast h) + {#last h#}" by (subst h) simp
    ultimately show ?thesis using Cons by (simp add: mset_siftup)
  qed
qed

lemma mset_heapify_from: "2 * i \<le> length h \<Longrightarrow> mset (heapify_from lt i h) = mset h"
  by (induction lt i h rule: heapify_from.induct) (simp_all add: mset_siftup)

lemma mset_heapify: "mset (heapify lt h) = mset h"
  by (simp add: heapify_def mset_heapify_from)

lemma heap_sizes:
  "length (heappush lt x h) = Suc (length h)"
  "heappop lt h = Inr (x, h') \<Longrightarrow> length h = Suc (length h')"
  using arg_cong [OF mset_heappush, of size] arg_cong [OF mset_heappop, of lt h x h' size] by simp_all

text \<open>Iterating over the queue pops a copy of the heap until it is empty.\<close>

function heap_drain :: "('a \<Rightarrow> 'a \<Rightarrow> bool) \<Rightarrow> 'a list \<Rightarrow> 'a list" where
  "heap_drain lt h = (case heappop lt h of Inl _ \<Rightarrow> [] | Inr (x, h') \<Rightarrow> x # heap_drain lt h')"
  by pat_completeness auto
termination
  by (relation "measure (\<lambda>(_, h). length h)") (auto dest: heap_sizes(2))

declare heap_drain.simps [simp del]

lemma mset_heap_drain: "mset (heap_drain lt h) = mset h"
proof (induction lt h rule: heap_drain.induct)
  case (1 lt h)
  show ?case
  proof (cases "heappop lt h")
    case (Inl e)
    then have "h = []" using heappop_Inr_iff [of lt h] by force
    then show ?thesis by (simp add: heap_drain.simps [of lt "[]"] heappop_def)
  next
    case (Inr p)
    obtain x h' where "p = (x, h')" by force
    with 1 Inr show ?thesis
      using mset_heappop [of lt h x h'] by (simp add: heap_drain.simps [of lt h])
  qed
qed

section \<open>Heap order\<close>

text \<open>\<open>heap_from lt s h\<close>: every edge whose parent is at index \<open>s\<close> or later is ordered.\<close>

definition heap_from :: "('a \<Rightarrow> 'a \<Rightarrow> bool) \<Rightarrow> nat \<Rightarrow> 'a list \<Rightarrow> bool" where
  "heap_from lt s h \<longleftrightarrow>
     (\<forall>i < length h. 0 < i \<longrightarrow> s \<le> parent i \<longrightarrow> \<not> lt (h ! i) (h ! parent i))"

abbreviation is_heap :: "('a \<Rightarrow> 'a \<Rightarrow> bool) \<Rightarrow> 'a list \<Rightarrow> bool" where
  "is_heap lt \<equiv> heap_from lt 0"

text \<open>
  All edges are ordered but those at the hole \<open>p\<close>; the children of the hole are ordered with
  the hole's parent.
\<close>

definition hole_ok :: "('a \<Rightarrow> 'a \<Rightarrow> bool) \<Rightarrow> nat \<Rightarrow> nat \<Rightarrow> 'a list \<Rightarrow> bool" where
  "hole_ok lt s p h \<longleftrightarrow>
     (\<forall>i < length h. 0 < i \<longrightarrow> s \<le> parent i \<longrightarrow> i \<noteq> p \<longrightarrow> parent i \<noteq> p \<longrightarrow> \<not> lt (h ! i) (h ! parent i)) \<and>
     (\<forall>c < length h. 0 < c \<longrightarrow> parent c = p \<longrightarrow> s < p \<longrightarrow> \<not> lt (h ! c) (h ! parent p))"

text \<open>\<open>p\<close> lies below \<open>s\<close> in the tree.\<close>

inductive below :: "nat \<Rightarrow> nat \<Rightarrow> bool" for s :: nat where
  below_refl: "below s s"
| below_child: "below s p \<Longrightarrow> 0 < c \<Longrightarrow> parent c = p \<Longrightarrow> below s c"

lemma below_ge: "below s p \<Longrightarrow> s \<le> p"
  by (induction rule: below.induct) (auto dest: parent_less)

lemma below_parent: "below s p \<Longrightarrow> s < p \<Longrightarrow> below s (parent p) \<and> s \<le> parent p"
  by (erule below.cases) (auto dest: below_ge)

lemma below_zero: "below 0 p"
proof (induction p rule: less_induct)
  case (less p)
  then show ?case
    by (cases "p = 0") (auto intro: below.intros parent_less below_child [OF less(1)])
qed

locale strict_weak_order =
  fixes lt :: "'a \<Rightarrow> 'a \<Rightarrow> bool"
  assumes asym: "lt a b \<Longrightarrow> \<not> lt b a"
    and neg_trans: "\<not> lt a b \<Longrightarrow> \<not> lt b c \<Longrightarrow> \<not> lt a c"
begin

lemma siftdown_heap:
  assumes "hole_ok lt s p h" and "below s p" and "p < length h"
    and "\<forall>c < length h. 0 < c \<longrightarrow> parent c = p \<longrightarrow> \<not> lt (h ! c) x"
  shows "heap_from lt s (heap_siftdown lt s p x h)"
  using assms
proof (induction p arbitrary: h rule: less_induct)
  case (less p)
  note edge = less.prems(1) [unfolded hole_ok_def, THEN conjunct1, rule_format]
  note kids = less.prems(1) [unfolded hole_ok_def, THEN conjunct2, rule_format]
  let ?q = "parent p"
  show ?case
  proof (cases "s < p \<and> lt x (h ! ?q)")
    case True
    have q: "?q < p" "below s ?q" "s \<le> ?q"
      using True less.prems(2) below_parent parent_less by auto
    let ?h = "h[p := h ! ?q]"
    have at: "?h ! i = (if i = p then h ! ?q else h ! i)" if "i < length h" for i
      using that by (simp add: nth_list_update)
    have sib: "\<not> lt (h ! c) (h ! ?q)" if "c < length h" "0 < c" "parent c = ?q" "c \<noteq> p" for c
      using edge [of c] that q by auto
    have "hole_ok lt s ?q ?h"
      unfolding hole_ok_def length_list_update
    proof (intro conjI allI impI)
      fix i assume i: "i < length h" "0 < i" "s \<le> parent i" "i \<noteq> ?q" "parent i \<noteq> ?q"
      have pi: "parent i < i" using i(2) by (rule parent_less)
      show "\<not> lt (?h ! i) (?h ! parent i)"
      proof (cases "parent i = p")
        case True
        then show ?thesis using kids [of i] i pi \<open>s < p \<and> _\<close> by (simp add: at)
      next
        case False
        moreover have "i \<noteq> p" using i(5) by auto
        ultimately show ?thesis using edge [of i] i pi by (simp add: at)
      qed
    next
      fix c assume c: "c < length h" "0 < c" "parent c = ?q" "s < ?q"
      have up: "\<not> lt (h ! ?q) (h ! parent ?q)"
        using edge [of ?q] c(4) q less.prems(3) below_parent [OF q(2) c(4)] parent_less [of ?q] by auto
      have "parent ?q < p" using c(4) q(1) parent_less [of ?q] by linarith
      then show "\<not> lt (?h ! c) (?h ! parent ?q)"
        using up sib [OF c(1-3)] neg_trans less.prems(3) c(1) by (cases "c = p") (auto simp: at)
    qed
    moreover have "\<forall>c < length ?h. 0 < c \<longrightarrow> parent c = ?q \<longrightarrow> \<not> lt (?h ! c) x"
      using sib asym [of x "h ! ?q"] True neg_trans by (auto simp: at)
    ultimately have "heap_from lt s (heap_siftdown lt s ?q x ?h)"
      using less.IH [OF q(1)] q(2) less.prems(3) q(1) by simp
    with True show ?thesis by (simp add: heap_siftdown.simps [of lt s p])
  next
    case False
    have "\<not> lt (h[p := x] ! i) (h[p := x] ! parent i)"
      if i: "i < length h" "0 < i" "s \<le> parent i" for i
    proof -
      have pi: "parent i < i" using i(2) by (rule parent_less)
      consider "i = p" | "parent i = p" "i \<noteq> p" | "i \<noteq> p" "parent i \<noteq> p" by blast
      then show ?thesis
      proof cases
        case 1
        then have "s < p" using i pi by simp
        with False 1 pi i show ?thesis by (simp add: nth_list_update)
      next
        case 2
        with i pi less.prems(4) show ?thesis by (simp add: nth_list_update)
      next
        case 3
        with i pi edge [of i] show ?thesis by (simp add: nth_list_update)
      qed
    qed
    with False show ?thesis by (auto simp: heap_from_def heap_siftdown.simps [of lt s p])
  qed
qed

lemma to_leaf_hole:
  assumes "hole_ok lt s p h" and "below s p" and "p < length h"
    and "heap_to_leaf lt p h = (leaf, h')"
  shows "hole_ok lt s leaf h' \<and> below s leaf"
  using assms
proof (induction "length h - p" arbitrary: p h rule: less_induct)
  case less
  note edge = less.prems(1) [unfolded hole_ok_def, THEN conjunct1, rule_format]
  note kids = less.prems(1) [unfolded hole_ok_def, THEN conjunct2, rule_format]
  show ?case
  proof (cases "2 * p + 1 < length h")
    case True
    let ?c = "smaller_child lt h p" and ?h = "h[p := h ! smaller_child lt h p]"
    note c = smaller_child_bounds [OF True, of lt]
    have at: "?h ! i = (if i = p then h ! ?c else h ! i)" if "i < length h" for i
      using that by (simp add: nth_list_update)
    have best: "\<not> lt (h ! d) (h ! ?c)" if "d < length h" "0 < d" "parent d = p" for d
      using that asym unfolding parent_eq_iff [OF that(2)]
      by (auto simp: smaller_child_def Let_def dest: asym)
    have sp: "s \<le> p" using less.prems(2) by (rule below_ge)
    have "hole_ok lt s ?c ?h"
      unfolding hole_ok_def length_list_update
    proof (intro conjI allI impI)
      fix i assume i: "i < length h" "0 < i" "s \<le> parent i" "i \<noteq> ?c" "parent i \<noteq> ?c"
      have pi: "parent i < i" using i(2) by (rule parent_less)
      consider "i = p" | "parent i = p" "i \<noteq> p" | "i \<noteq> p" "parent i \<noteq> p" by blast
      then show "\<not> lt (?h ! i) (?h ! parent i)"
      proof cases
        case 1
        then show ?thesis using kids [of ?c] c i pi by (simp add: at)
      next
        case 2
        then show ?thesis using best [of i] i pi by (simp add: at)
      next
        case 3
        then show ?thesis using edge [of i] i pi by (simp add: at)
      qed
    next
      fix d assume d: "d < length h" "0 < d" "parent d = ?c" "s < ?c"
      have "parent d < d" using d(2) by (rule parent_less)
      then show "\<not> lt (?h ! d) (?h ! parent ?c)"
        using edge [of d] d c less.prems(3) by (simp add: at)
    qed
    moreover have "below s ?c" using less.prems(2) c by (auto intro: below_child)
    moreover have "length ?h - ?c < length h - p" using c by simp
    moreover have "heap_to_leaf lt ?c ?h = (leaf, h')"
      using less.prems(4) True by (simp add: heap_to_leaf.simps [of lt p h])
    ultimately show ?thesis using less.hyps [of ?h ?c] c(1) by simp
  next
    case False
    then show ?thesis using less.prems by (simp add: heap_to_leaf.simps [of lt p h])
  qed
qed

lemma siftup_heap:
  assumes "heap_from lt (Suc s) h" and "s < length h"
  shows "heap_from lt s (heap_siftup lt s h)"
proof -
  obtain leaf h' where tl: "heap_to_leaf lt s h = (leaf, h')" by force
  have "hole_ok lt s s h"
    using assms(1) by (auto simp: hole_ok_def heap_from_def dest: le_neq_implies_less)
  from to_leaf_hole [OF this below_refl assms(2) tl]
  have hole: "hole_ok lt s leaf h'" "below s leaf" by auto
  note spec = to_leaf_spec [OF tl assms(2)]
  have "\<forall>c < length h'. 0 < c \<longrightarrow> parent c = leaf \<longrightarrow> \<not> lt (h' ! c) (h ! s)"
    using spec(1,4) by (auto simp: parent_def)
  from siftdown_heap [OF hole _ this] spec(1,2) show ?thesis
    by (simp add: heap_siftup_def tl)
qed

lemma heappush_heap:
  assumes "is_heap lt h"
  shows "is_heap lt (heappush lt x h)"
proof -
  have "hole_ok lt 0 (length h) (h @ [x])"
    using assms by (auto simp: hole_ok_def heap_from_def nth_append parent_def)
  then show ?thesis
    unfolding heappush_def by (rule siftdown_heap) (auto simp: below_zero parent_def)
qed

lemma heappop_heap:
  assumes "is_heap lt h" and "heappop lt h = Inr (x, h')"
  shows "is_heap lt h'"
proof (cases "butlast h = []")
  case True
  with assms(2) show ?thesis by (auto simp: heappop_def Let_def heap_from_def split: if_splits)
next
  case False
  let ?r = "(butlast h)[0 := last h]"
  have h': "h' = heap_siftup lt 0 ?r"
    using assms(2) False by (auto simp: heappop_def Let_def split: if_splits)
  have "heap_from lt 1 ?r"
    using assms(1) by (auto simp: heap_from_def nth_list_update nth_butlast parent_def)
  moreover have "0 < length ?r"
    using False by (simp only: length_list_update length_greater_0_conv not_False_eq_True)
  ultimately show ?thesis
    using siftup_heap [of 0 ?r] unfolding h' by simp
qed

lemma heapify_from_heap: "heap_from lt i h \<Longrightarrow> i \<le> length h \<Longrightarrow> is_heap lt (heapify_from lt i h)"
  by (induction i arbitrary: h) (simp_all add: siftup_heap)

lemma heapify_heap: "is_heap lt (heapify lt h)"
proof -
  have "heap_from lt (length h div 2) h" by (auto simp: heap_from_def parent_def)
  then show ?thesis unfolding heapify_def by (rule heapify_from_heap) simp
qed

text \<open>The root is a least element.\<close>

lemma root_least:
  assumes "is_heap lt h" and "i < length h"
  shows "\<not> lt (h ! i) (h ! 0)"
  using assms(2)
proof (induction i rule: less_induct)
  case (less i)
  show ?case
  proof (cases "i = 0")
    case True
    then show ?thesis using asym by blast
  next
    case False
    then have "parent i < i" by (intro parent_less) simp
    with less have "\<not> lt (h ! parent i) (h ! 0)" by simp
    moreover have "\<not> lt (h ! i) (h ! parent i)"
      using assms(1) False less.prems by (simp add: heap_from_def)
    ultimately show ?thesis using neg_trans by blast
  qed
qed

lemma heappop_least:
  assumes "is_heap lt h" and "heappop lt h = Inr (x, h')"
  shows "x = h ! 0" and "\<forall>y \<in> set h. \<not> lt y x"
proof -
  have "h \<noteq> []" using assms(2) by (auto simp: heappop_def)
  then show "x = h ! 0"
    using assms(2) by (cases h) (auto simp: heappop_def Let_def nth_Cons' split: if_splits)
  then show "\<forall>y \<in> set h. \<not> lt y x"
    using root_least [OF assms(1)] by (auto simp: in_set_conv_nth)
qed

text \<open>Popping until empty yields the elements in order.\<close>

lemma heap_drain_sorted:
  "is_heap lt h \<Longrightarrow> sorted_wrt (\<lambda>a b. \<not> lt b a) (heap_drain lt h)"
proof (induction "length h" arbitrary: h rule: less_induct)
  case less
  show ?case
  proof (cases "heappop lt h")
    case (Inl e)
    then have "h = []" using heappop_Inr_iff [of lt h] by force
    then show ?thesis by (simp add: heap_drain.simps [of lt "[]"] heappop_def)
  next
    case (Inr p)
    then obtain x h' where pop: "heappop lt h = Inr (x, h')" by (cases p) auto
    have "set (heap_drain lt h') = set h'"
      using mset_heap_drain [of lt h'] by (metis set_mset_mset)
    moreover have "set h' \<subseteq> set h" using mset_heappop [OF pop] by (metis set_mset_mset mset_subset_eqD
      mset_subset_eq_add_right add_mset_add_single set_mset_mono subsetI union_commute)
    ultimately have "\<forall>y \<in> set (heap_drain lt h'). \<not> lt y x"
      using heappop_least(2) [OF less.prems pop] by blast
    moreover have "sorted_wrt (\<lambda>a b. \<not> lt b a) (heap_drain lt h')"
      using less heap_sizes(2) [OF pop] heappop_heap [OF less.prems pop] by simp
    ultimately show ?thesis by (simp add: heap_drain.simps [of lt h] pop)
  qed
qed

end

end
