(* ===== verification/Request_Queue.thy ===== *)
theory Request_Queue
  imports Request Heapq
begin

text \<open>
  \<^verbatim>\<open>vkwr/scheduler/request_queue.py\<close>: the scheduler's waiting queues.

  \<^verbatim>\<open>FCFSRequestQueue\<close> is a deque (\<open>Fcfs\<close> of the list from left to right),
  \<^verbatim>\<open>PriorityRequestQueue\<close> a binary heap in a list (\<open>Prio\<close>), with the functions of \<open>Heapq\<close>.
  Each operation of the abstract class is one definition that dispatches on the class. The
  empty-queue errors are \<open>IndexError\<close>, removing an absent request is \<open>ValueError\<close>
  (\<^verbatim>\<open>list.remove\<close>, which removes the first request equal in every field).

  The locale \<open>request_queue\<close> is the contract of the abstract class: a queue is a multiset of
  requests, and a pop returns the head that a peek showed. It is interpreted on the model.
\<close>

section \<open>The queues\<close>

datatype scheduling_policy = FCFS | PRIORITY

definition scheduling_policy_of :: "string \<Rightarrow> scheduling_policy res" where
  "scheduling_policy_of s =
     (if s = ''fcfs'' then Inr FCFS else if s = ''priority'' then Inr PRIORITY
      else Inl (ValueError ''not a valid SchedulingPolicy''))"

datatype rqueue = Fcfs "vreq list" | Prio "vreq list"

fun create_request_queue :: "scheduling_policy \<Rightarrow> rqueue" where
  "create_request_queue PRIORITY = Prio []"
| "create_request_queue FCFS = Fcfs []"

fun rq_add_request :: "vreq \<Rightarrow> rqueue \<Rightarrow> rqueue" where
  "rq_add_request r (Fcfs q) = Fcfs (q @ [r])"
| "rq_add_request r (Prio h) = Prio (heappush vreq_lt r h)"

fun rq_pop_request :: "rqueue \<Rightarrow> (vreq \<times> rqueue) res" where
  "rq_pop_request (Fcfs q) = (case q of [] \<Rightarrow> Inl IndexError | r # rest \<Rightarrow> Inr (r, Fcfs rest))"
| "rq_pop_request (Prio h) = bindE (heappop vreq_lt h) (\<lambda>(r, h'). Inr (r, Prio h'))"

fun rq_peek_request :: "rqueue \<Rightarrow> vreq res" where
  "rq_peek_request (Fcfs q) = (case q of [] \<Rightarrow> Inl IndexError | r # _ \<Rightarrow> Inr r)"
| "rq_peek_request (Prio h) = (case h of [] \<Rightarrow> Inl IndexError | r # _ \<Rightarrow> Inr r)"

fun rq_prepend_request :: "vreq \<Rightarrow> rqueue \<Rightarrow> rqueue" where
  "rq_prepend_request r (Fcfs q) = Fcfs (r # q)"
| "rq_prepend_request r (Prio h) = Prio (heappush vreq_lt r h)"

text \<open>Iteration: the deque from left to right, the heap in pop order.\<close>

fun rq_iter :: "rqueue \<Rightarrow> vreq list" where
  "rq_iter (Fcfs q) = q"
| "rq_iter (Prio h) = heap_drain vreq_lt h"

text \<open>\<^verbatim>\<open>extendleft\<close> prepends the elements one after the other, so it reverses them.\<close>

fun rq_prepend_requests :: "rqueue \<Rightarrow> rqueue \<Rightarrow> rqueue" where
  "rq_prepend_requests rs (Fcfs q) = Fcfs (rev (rq_iter rs) @ q)"
| "rq_prepend_requests rs (Prio h) = Prio (fold (heappush vreq_lt) (rq_iter rs) h)"

fun rq_remove_request :: "vreq \<Rightarrow> rqueue \<Rightarrow> rqueue res" where
  "rq_remove_request r (Fcfs q) =
     (if r \<in> set q then Inr (Fcfs (remove1 r q)) else Inl (ValueError ''value not in list''))"
| "rq_remove_request r (Prio h) =
     (if r \<in> set h then Inr (Prio (heapify vreq_lt (remove1 r h)))
      else Inl (ValueError ''value not in list''))"

fun rq_remove_requests :: "vreq list \<Rightarrow> rqueue \<Rightarrow> rqueue" where
  "rq_remove_requests rs (Fcfs q) = Fcfs (filter (\<lambda>r. r \<notin> set rs) q)"
| "rq_remove_requests rs (Prio h) = Prio (heapify vreq_lt (filter (\<lambda>r. r \<notin> set rs) h))"

fun rq_length :: "rqueue \<Rightarrow> nat" where
  "rq_length (Fcfs q) = length q"
| "rq_length (Prio h) = length h"

definition rq_bool :: "rqueue \<Rightarrow> bool" where
  "rq_bool q \<longleftrightarrow> rq_length q > 0"

section \<open>The contract of the abstract class\<close>

locale request_queue =
  fixes add :: "'r \<Rightarrow> 'q \<Rightarrow> 'q"
    and pop :: "'q \<Rightarrow> ('r \<times> 'q) res"
    and peek :: "'q \<Rightarrow> 'r res"
    and prepend :: "'r \<Rightarrow> 'q \<Rightarrow> 'q"
    and prepend_all :: "'q \<Rightarrow> 'q \<Rightarrow> 'q"
    and nonempty :: "'q \<Rightarrow> bool"
    and elems :: "'q \<Rightarrow> 'r multiset"
    and wf :: "'q \<Rightarrow> bool"
  assumes elems_add: "elems (add r q) = add_mset r (elems q)"
    and elems_prepend: "elems (prepend r q) = add_mset r (elems q)"
    and elems_prepend_all: "elems (prepend_all p q) = elems p + elems q"
    and elems_pop: "pop q = Inr (r, q') \<Longrightarrow> elems q = add_mset r (elems q')"
    and nonempty_iff: "nonempty q \<longleftrightarrow> elems q \<noteq> {#}"
    and pop_error: "pop q = Inl e \<Longrightarrow> e = IndexError \<and> elems q = {#}"
    and pop_ok: "nonempty q \<Longrightarrow> \<exists>p. pop q = Inr p"
    and peek_pop: "wf q \<Longrightarrow> pop q = Inr (r, q') \<Longrightarrow> peek q = Inr r"
    and wf_add: "wf q \<Longrightarrow> wf (add r q)"
    and wf_prepend: "wf q \<Longrightarrow> wf (prepend r q)"
    and wf_prepend_all: "wf q \<Longrightarrow> wf (prepend_all p q)"
    and wf_pop: "wf q \<Longrightarrow> pop q = Inr (r, q') \<Longrightarrow> wf q'"
begin

lemmas queue_elems = elems_add elems_prepend elems_prepend_all
lemmas queue_wf = wf_add wf_prepend wf_prepend_all

lemma pop_size: "pop q = Inr (r, q') \<Longrightarrow> size (elems q) = Suc (size (elems q'))"
  by (simp add: elems_pop)

lemma move_elems: "pop q = Inr (r, q') \<Longrightarrow> elems q' + elems (prepend r p) = elems q + elems p"
  by (simp add: elems_pop elems_prepend)

lemma peek_ok: "wf q \<Longrightarrow> nonempty q \<Longrightarrow> \<exists>r q'. pop q = Inr (r, q') \<and> peek q = Inr r"
  using pop_ok peek_pop by (metis surj_pair)

end

definition rq_elems :: "rqueue \<Rightarrow> vreq multiset" where
  "rq_elems q = mset (rq_iter q)"

fun rq_wf :: "rqueue \<Rightarrow> bool" where
  "rq_wf (Fcfs q) = True"
| "rq_wf (Prio h) = is_heap vreq_lt h"

interpretation vreq_order: strict_weak_order vreq_lt
  by unfold_locales (fact vreq_lt_asym vreq_lt_neg_trans)+

lemma rq_elems_simps [simp]:
  "rq_elems (Fcfs q) = mset q" "rq_elems (Prio h) = mset h"
  by (simp_all add: rq_elems_def mset_heap_drain)

lemma mset_push_all: "mset (fold (heappush lt) xs h) = mset xs + mset h"
  by (induction xs arbitrary: h) (auto simp: mset_heappush)

lemma push_all_heap: "is_heap vreq_lt h \<Longrightarrow> is_heap vreq_lt (fold (heappush vreq_lt) xs h)"
  by (induction xs arbitrary: h) (auto simp: vreq_order.heappush_heap)

lemma rq_elems_size: "size (rq_elems q) = rq_length q"
  by (cases q) auto

lemma heappop_error: "heappop lt h = Inl e \<Longrightarrow> e = IndexError \<and> h = []"
  by (auto simp: heappop_def Let_def split: if_splits)

interpretation rq: request_queue rq_add_request rq_pop_request rq_peek_request rq_prepend_request
  rq_prepend_requests rq_bool rq_elems rq_wf
proof unfold_locales
  fix q q' p :: rqueue and r :: vreq and e
  show "rq_elems (rq_add_request r q) = add_mset r (rq_elems q)"
    by (cases q) (auto simp: mset_heappush)
  show "rq_elems (rq_prepend_request r q) = add_mset r (rq_elems q)"
    by (cases q) (auto simp: mset_heappush)
  show "rq_elems (rq_prepend_requests p q) = rq_elems p + rq_elems q"
    by (cases q) (auto simp: mset_push_all rq_elems_def mset_heap_drain)
  show "rq_pop_request q = Inr (r, q') \<Longrightarrow> rq_elems q = add_mset r (rq_elems q')"
    by (cases q) (auto simp: mset_heappop split: list.splits)
  show "rq_bool q \<longleftrightarrow> rq_elems q \<noteq> {#}"
    by (cases q) (auto simp: rq_bool_def)
  show "rq_pop_request q = Inl e \<Longrightarrow> e = IndexError \<and> rq_elems q = {#}"
    by (cases q) (auto split: list.splits dest: heappop_error)
  show "rq_bool q \<Longrightarrow> \<exists>p. rq_pop_request q = Inr p"
    using heappop_Inr_iff [of vreq_lt] by (cases q) (force simp: rq_bool_def split: list.splits)+
  show "rq_wf q \<Longrightarrow> rq_pop_request q = Inr (r, q') \<Longrightarrow> rq_peek_request q = Inr r"
    by (cases q) (auto split: list.splits simp: heappop_def dest: vreq_order.heappop_least(1))
  show "rq_wf q \<Longrightarrow> rq_wf (rq_add_request r q)" "rq_wf q \<Longrightarrow> rq_wf (rq_prepend_request r q)"
    by (cases q; auto simp: vreq_order.heappush_heap)+
  show "rq_wf q \<Longrightarrow> rq_wf (rq_prepend_requests p q)"
    by (cases q) (auto simp: push_all_heap)
  show "rq_wf q \<Longrightarrow> rq_pop_request q = Inr (r, q') \<Longrightarrow> rq_wf q'"
    by (cases q) (auto split: list.splits dest: vreq_order.heappop_heap)
qed

lemma rq_wf_create: "rq_wf (create_request_queue p)"
  by (cases p) (auto simp: heap_from_def)

lemma rq_elems_create [simp]: "rq_elems (create_request_queue p) = {#}"
  by (cases p) auto

lemma rq_pop_length: "rq_pop_request q = Inr (r, q') \<Longrightarrow> rq_length q = Suc (rq_length q')"
  using rq.pop_size [of q r q'] by (simp add: rq_elems_size)

lemma rq_remove_spec:
  assumes "rq_remove_request r q = Inr q'"
  shows "rq_elems q = add_mset r (rq_elems q')" and "rq_wf q \<Longrightarrow> rq_wf q'"
  using assms by (cases q; auto simp: mset_heapify vreq_order.heapify_heap split: if_splits)+

lemma rq_set_iter: "set (rq_iter q) = set_mset (rq_elems q)"
  by (simp add: rq_elems_def)

section \<open>Properties\<close>

text \<open>
  The priority queue serves the most urgent request first. Popping a heap-ordered queue
  returns a request no other request precedes in (priority, arrival time), the one a peek
  shows, removes exactly it, and keeps the heap order.
\<close>

theorem priority_queue_pops_least:
  assumes "is_heap vreq_lt h" and "rq_pop_request (Prio h) = Inr (r, q')"
  shows "rq_peek_request (Prio h) = Inr r \<and> (\<forall>x \<in> set h. \<not> vreq_lt x r) \<and>
     rq_elems (Prio h) = add_mset r (rq_elems q') \<and> rq_wf q'"
proof -
  have wf: "rq_wf (Prio h)" using assms(1) by simp
  obtain h' where "heappop vreq_lt h = Inr (r, h')" using assms(2) by auto
  from vreq_order.heappop_least(2) [OF assms(1) this] show ?thesis
    using rq.peek_pop [OF wf assms(2)] rq.elems_pop [OF assms(2)] rq.wf_pop [OF wf assms(2)] by blast
qed

definition demo_vreq :: "rid \<Rightarrow> token list \<Rightarrow> int \<Rightarrow> vreq" where
  "demo_vreq r toks p = new_vreq 1 r (PromptTokens toks) toks sampling_defaults 0 p"

theorem priority_queue_pops_least_witness:
  "\<exists>q'. rq_pop_request (Prio [demo_vreq ''b'' [5] 1, demo_vreq ''a'' [6] 2]) =
          Inr (demo_vreq ''b'' [5] 1, q') \<and> rq_wf q' \<and>
        \<not> vreq_lt (demo_vreq ''a'' [6] 2) (demo_vreq ''b'' [5] 1)"
proof -
  let ?a = "demo_vreq ''a'' [6] 2" and ?b = "demo_vreq ''b'' [5] 1"
  have heap: "is_heap vreq_lt [?b, ?a]"
    by (auto simp: heap_from_def parent_def vreq_lt_def demo_vreq_def new_vreq_def less_Suc_eq)
  have pop: "rq_pop_request (Prio [?b, ?a]) = Inr (?b, Prio [?a])"
    by (simp add: heappop_def Let_def heap_siftup_def heap_to_leaf.simps heap_siftdown.simps)
  from priority_queue_pops_least [OF heap pop] pop show ?thesis by auto
qed

text \<open>
  Iterating over a priority queue yields all its requests, none preceding an earlier one
  in (priority, arrival time), whatever sequence of pushes, prepends and removals built the
  heap: every operation keeps the heap order.
\<close>

theorem priority_queue_iterates_sorted:
  assumes "rq_wf (Prio h)"
  shows "mset (rq_iter (Prio h)) = mset h \<and>
     sorted_wrt (\<lambda>a b. \<not> vreq_lt b a) (rq_iter (Prio h)) \<and>
     rq_wf (rq_add_request r (Prio h)) \<and> rq_wf (rq_prepend_requests p (Prio h)) \<and>
     rq_wf (rq_remove_requests rs (Prio h))"
  using assms rq.wf_add [OF assms] rq.wf_prepend_all [OF assms]
  by (simp add: mset_heap_drain vreq_order.heap_drain_sorted vreq_order.heapify_heap)

theorem priority_queue_iterates_sorted_witness:
  "mset (rq_iter (Prio [demo_vreq ''b'' [5] 1])) = {#demo_vreq ''b'' [5] 1#} \<and>
   sorted_wrt (\<lambda>a b. \<not> vreq_lt b a) (rq_iter (Prio [demo_vreq ''b'' [5] 1]))"
proof -
  have "rq_wf (Prio [demo_vreq ''b'' [5] 1])" by (simp add: heap_from_def)
  from priority_queue_iterates_sorted [OF this] show ?thesis by simp
qed

text \<open>
  setting requests aside and putting them back keeps first-come order. The scheduler
  prepends each head it skips to a side queue and finally prepends the side queue; for a
  first-come queue this restores the skipped requests, in their order, in front of the rest.
\<close>

theorem fcfs_skip_restores_order:
  "rq_prepend_requests (fold rq_prepend_request skipped (create_request_queue FCFS)) (Fcfs rest) =
   Fcfs (skipped @ rest)"
proof -
  have "fold rq_prepend_request skipped (Fcfs q) = Fcfs (rev skipped @ q)" for q
    by (induction skipped arbitrary: q) auto
  then show ?thesis by simp
qed

end
