(* ===== verification/Slot_Manager.thy ===== *)
theory Slot_Manager
  imports Prelude
begin

text \<open>
  \<^verbatim>\<open>vkwr/state/state_slot_manager.py\<close>: the map between requests and GPU state slots.

  The record has the five fields of \<^verbatim>\<open>StateSlotManager\<close>, one definition per method. The two
  maps are dictionaries, \<open>free_slots\<close> is the sorted list the code keeps, \<open>pad_slots\<close> the
  slots lent to CUDA graph padding. \<open>batch_condense\<close> is split at its loops: the prologue
  that forgets the freed requests, the inner \<^verbatim>\<open>while\<close> (\<open>skip_freed\<close>), the outer
  \<^verbatim>\<open>while\<close> (\<open>condense_loop\<close>, by recursion with a measure) and the epilogue that returns
  the free slots.

  The lemmas show the well-formedness invariant \<open>slot_wf\<close> and the compactness invariant
  \<open>slot_compact\<close> (the occupied slots are an initial segment), that every operation keeps
  them, and that the moves \<open>batch_condense\<close> returns, executed in order on the state buffer,
  carry every surviving request's state to its new slot.
\<close>

section \<open>State\<close>

record slot_manager =
  max_slots :: int
  req_to_slot :: "(rid, nat) dict"
  slot_to_req :: "(nat, rid) dict"
  free_slots :: "nat list"
  pad_slots :: "nat list"

definition slot_manager_init :: "int \<Rightarrow> slot_manager" where
  "slot_manager_init n =
     \<lparr>max_slots = n, req_to_slot = [], slot_to_req = [], free_slots = [0..<nat n], pad_slots = []\<rparr>"

section \<open>Operations\<close>

definition reserve_pad_slots :: "nat \<Rightarrow> slot_manager \<Rightarrow> (nat list \<times> slot_manager) res" where
  "reserve_pad_slots n sm =
     (if n > length (free_slots sm) then Inl (RuntimeError ''not enough free slots for padding'')
      else let pads = take n (free_slots sm)
           in Inr (pads, sm\<lparr>pad_slots := pads, free_slots := drop n (free_slots sm)\<rparr>))"

definition release_pad_slots :: "slot_manager \<Rightarrow> slot_manager" where
  "release_pad_slots sm =
     (if pad_slots sm \<noteq> [] then
        sm\<lparr>free_slots := sort (free_slots sm @ pad_slots sm), pad_slots := []\<rparr>
      else sm)"

definition available_pad_count :: "slot_manager \<Rightarrow> nat" where
  "available_pad_count sm = length (free_slots sm)"

definition allocate :: "rid \<Rightarrow> slot_manager \<Rightarrow> (nat \<times> slot_manager) res" where
  "allocate r sm =
     (case free_slots sm of
        [] \<Rightarrow> Inl (RuntimeError ''No free slots available'')
      | slot # rest \<Rightarrow>
          Inr (slot, sm\<lparr>free_slots := rest,
                        req_to_slot := dict_set r slot (req_to_slot sm),
                        slot_to_req := dict_set slot r (slot_to_req sm)\<rparr>))"

definition free :: "rid \<Rightarrow> slot_manager \<Rightarrow> (nat \<times> slot_manager) res" where
  "free r sm =
     bindE (dict_item (req_to_slot sm) r) (\<lambda>slot.
       Inr (slot, sm\<lparr>req_to_slot := dict_del r (req_to_slot sm),
                     slot_to_req := dict_del slot (slot_to_req sm),
                     free_slots := sort (free_slots sm @ [slot])\<rparr>))"

definition get_indices :: "rid list \<Rightarrow> slot_manager \<Rightarrow> nat list res" where
  "get_indices rs sm = mapE (dict_item (req_to_slot sm)) rs"

definition get_slot :: "rid \<Rightarrow> slot_manager \<Rightarrow> nat res" where
  "get_slot r sm = (case dict_get (req_to_slot sm) r of None \<Rightarrow> Inl KeyError | Some s \<Rightarrow> Inr s)"

subsection \<open>\<open>batch_condense\<close>\<close>

text \<open>Step 1: forget the freed requests and collect their slots.\<close>

fun condense_forget ::
  "(rid \<times> nat) list \<Rightarrow> (rid, nat) dict \<Rightarrow> (nat, rid) dict \<Rightarrow> nat list
     \<Rightarrow> (rid, nat) dict \<times> (nat, rid) dict \<times> nat list" where
  "condense_forget [] r2s s2r freed = (r2s, s2r, freed)"
| "condense_forget ((r, slot) # rest) r2s s2r freed =
     condense_forget rest (dict_del r r2s) (dict_del slot s2r) (List.insert slot freed)"

text \<open>The inner \<^verbatim>\<open>while\<close> of step 2: walk down over slots that are already holes.\<close>

function skip_freed :: "nat \<Rightarrow> nat list \<Rightarrow> int \<Rightarrow> int" where
  "skip_freed first_hole freed last_occupied =
     (if int first_hole \<le> last_occupied \<and> nat last_occupied \<in> set freed
      then skip_freed first_hole freed (last_occupied - 1)
      else last_occupied)"
  by pat_completeness auto
termination
  by (relation "measure (\<lambda>(h, _, l). nat (l + 1 - int h))") auto

declare skip_freed.simps [simp del]

record condense_state =
  cd_r2s :: "(rid, nat) dict"
  cd_s2r :: "(nat, rid) dict"
  cd_freed :: "nat list"
  cd_moves :: "(nat \<times> nat) list"

text \<open>
  One round of the outer \<^verbatim>\<open>while\<close> after the skip: \<open>l\<close> is the slot to empty. \<open>None\<close> is
  the \<^verbatim>\<open>break\<close> when no hole is left below it.
\<close>

definition condense_move :: "nat \<Rightarrow> condense_state \<Rightarrow> condense_state option res" where
  "condense_move l st =
     (let unfilled = filter (\<lambda>s. s < l) (cd_freed st)
      in if unfilled = [] then Inr None
         else let dst = Min (set unfilled)
              in bindE (dict_item (cd_s2r st) l) (\<lambda>r.
                   Inr (Some \<lparr>cd_r2s = dict_set r dst (cd_r2s st),
                              cd_s2r = dict_del l (dict_set dst r (cd_s2r st)),
                              cd_freed = removeAll dst (List.insert l (cd_freed st)),
                              cd_moves = cd_moves st @ [(l, dst)]\<rparr>)))"

lemma skip_freed_le: "skip_freed h F l \<le> l"
proof (induction h F l rule: skip_freed.induct)
  case (1 h F l)
  then show ?case by (subst skip_freed.simps) force
qed

function condense_loop :: "nat \<Rightarrow> int \<Rightarrow> condense_state \<Rightarrow> condense_state res" where
  "condense_loop first_hole last_occupied st =
     (if int first_hole \<le> last_occupied then
        let l = skip_freed first_hole (cd_freed st) last_occupied
        in if l < int first_hole then Inr st
           else bindE (condense_move (nat l) st) (\<lambda>next.
                  case next of None \<Rightarrow> Inr st
                  | Some st' \<Rightarrow> condense_loop first_hole (l - 1) st')
      else Inr st)"
  by pat_completeness auto
termination
proof (relation "measure (\<lambda>(h, l, _). nat (l + 1 - int h))", goal_cases)
  case (2 h l st x xa x2)
  then show ?case using skip_freed_le [of h "cd_freed st" l] by simp
qed simp

declare condense_loop.simps [simp del]

text \<open>The whole method: the moves for the GPU side and the updated manager.\<close>

definition batch_condense ::
  "(rid \<times> nat) list \<Rightarrow> slot_manager \<Rightarrow> ((nat \<times> nat) list \<times> slot_manager) res" where
  "batch_condense freed_slots sm =
     (if freed_slots = [] then Inr ([], sm)
      else case condense_forget freed_slots (req_to_slot sm) (slot_to_req sm) [] of
        (r2s, s2r, freed) \<Rightarrow>
          if freed = [] then Inr ([], sm\<lparr>req_to_slot := r2s, slot_to_req := s2r\<rparr>)
          else let first_hole = Min (set freed);
                   last_occupied = (if s2r \<noteq> [] then int (Max (set (dict_keys s2r)))
                                    else int first_hole - 1)
               in bindE (condense_loop first_hole last_occupied
                           \<lparr>cd_r2s = r2s, cd_s2r = s2r, cd_freed = freed, cd_moves = []\<rparr>) (\<lambda>st.
                    Inr (cd_moves st,
                         sm\<lparr>req_to_slot := cd_r2s st, slot_to_req := cd_s2r st,
                            free_slots := sort (free_slots sm @
                              filter (\<lambda>s. s \<notin> set (free_slots sm)) (sort (cd_freed st)))\<rparr>)))"

section \<open>Invariants\<close>

text \<open>The two maps are each other's inverse.\<close>

definition mirror :: "(rid, nat) dict \<Rightarrow> (nat, rid) dict \<Rightarrow> bool" where
  "mirror r2s s2r \<longleftrightarrow> (\<forall>r s. dict_get r2s r = Some s \<longleftrightarrow> dict_get s2r s = Some r)"

definition occupied :: "slot_manager \<Rightarrow> nat set" where
  "occupied sm = dom (dict_get (slot_to_req sm))"

text \<open>Every slot is occupied, free or lent for padding, and only one of the three.\<close>

definition slot_wf :: "slot_manager \<Rightarrow> bool" where
  "slot_wf sm \<longleftrightarrow>
     dict_ok (req_to_slot sm) \<and> dict_ok (slot_to_req sm) \<and>
     mirror (req_to_slot sm) (slot_to_req sm) \<and>
     sorted (free_slots sm) \<and> distinct (free_slots sm) \<and> distinct (pad_slots sm) \<and>
     set (free_slots sm) \<inter> set (pad_slots sm) = {} \<and>
     occupied sm \<inter> (set (free_slots sm) \<union> set (pad_slots sm)) = {} \<and>
     occupied sm \<union> set (free_slots sm) \<union> set (pad_slots sm) = {..<nat (max_slots sm)}"

text \<open>The occupied slots are \<open>0 \<dots> n - 1\<close> for \<open>n\<close> active requests.\<close>

definition slot_compact :: "slot_manager \<Rightarrow> bool" where
  "slot_compact sm \<longleftrightarrow> occupied sm = {..<length (slot_to_req sm)}"

definition slot_owner_ok :: "(rid \<times> nat) list \<Rightarrow> slot_manager \<Rightarrow> bool" where
  "slot_owner_ok fs sm \<longleftrightarrow> (\<forall>(r, s) \<in> set fs. dict_get (req_to_slot sm) r = Some s)"

lemma mirror_get: "mirror r2s s2r \<Longrightarrow> dict_get r2s r = Some s \<longleftrightarrow> dict_get s2r s = Some r"
  by (simp add: mirror_def)

lemma mirror_inj: "mirror r2s s2r \<Longrightarrow> dict_get r2s r = Some s \<Longrightarrow> dict_get r2s r' = Some s \<Longrightarrow> r = r'"
  by (metis mirror_def option.inject)

lemma mirror_insert:
  "mirror r2s s2r \<Longrightarrow> dict_get r2s r = None \<Longrightarrow> dict_get s2r s = None \<Longrightarrow>
   mirror (dict_set r s r2s) (dict_set s r s2r)"
  by (auto simp: mirror_def) (metis option.distinct(1))

lemma mirror_remove:
  "mirror r2s s2r \<Longrightarrow> dict_get r2s r = Some s \<Longrightarrow> mirror (dict_del r r2s) (dict_del s s2r)"
  unfolding mirror_def by (metis dict_get_del fun_upd_apply option.distinct(1) option.inject)

lemma mirror_move:
  assumes "mirror r2s s2r" and "dict_get s2r l = Some r" and "dict_get s2r d = None"
  shows "mirror (dict_set r d r2s) (dict_del l (dict_set d r s2r))"
  using assms by (auto simp: mirror_def) (metis option.inject)

lemma card_occupied: "dict_ok (slot_to_req sm) \<Longrightarrow> card (occupied sm) = length (slot_to_req sm)"
  by (metis distinct_card length_map dict_keys_dom occupied_def)

lemma slot_init_wf [inv_intros]: "slot_wf (slot_manager_init n)"
  by (auto simp: slot_wf_def slot_manager_init_def occupied_def mirror_def)

lemma slot_init_compact [inv_intros]: "slot_compact (slot_manager_init n)"
  by (simp add: slot_compact_def slot_manager_init_def occupied_def)

section \<open>Allocation, release and padding\<close>

lemma allocate_wf [inv_intros]:
  assumes "slot_wf sm" and "dict_get (req_to_slot sm) r = None"
    and "allocate r sm = Inr (s, sm')"
  shows "slot_wf sm'"
proof -
  from assms(3) obtain rest where fs: "free_slots sm = s # rest"
    and sm': "sm' = sm\<lparr>free_slots := rest, req_to_slot := dict_set r s (req_to_slot sm),
                       slot_to_req := dict_set s r (slot_to_req sm)\<rparr>"
    by (auto simp: allocate_def split: list.splits)
  have "dict_get (slot_to_req sm) s = None"
    using assms(1) fs by (auto simp: slot_wf_def occupied_def)
  then have "mirror (req_to_slot sm') (slot_to_req sm')"
    using assms(1,2) by (simp add: sm' slot_wf_def mirror_insert)
  moreover have "occupied sm' = insert s (occupied sm)"
    by (simp add: sm' occupied_def)
  ultimately show ?thesis
    using assms(1) fs by (auto simp: slot_wf_def sm' dict_simps)
qed

text \<open>Allocation takes the lowest free slot, so it extends the initial segment.\<close>

lemma allocate_compact [inv_intros]:
  assumes "slot_wf sm" and "slot_compact sm" and "pad_slots sm = []"
    and "allocate r sm = Inr (s, sm')"
  shows "s = length (slot_to_req sm)" and "slot_compact sm'"
proof -
  let ?n = "length (slot_to_req sm)"
  from assms(4) obtain rest where fs: "free_slots sm = s # rest"
    and sm': "sm' = sm\<lparr>free_slots := rest, req_to_slot := dict_set r s (req_to_slot sm),
                       slot_to_req := dict_set s r (slot_to_req sm)\<rparr>"
    by (auto simp: allocate_def split: list.splits)
  have occ: "occupied sm = {..<?n}" using assms(2) by (simp add: slot_compact_def)
  have "occupied sm \<inter> set (s # rest) = {}" "occupied sm \<union> set (s # rest) = {..<nat (max_slots sm)}"
    using assms(1,3) fs by (simp_all add: slot_wf_def)
  then have "set (s # rest) = {..<nat (max_slots sm)} - {..<?n}"
    unfolding occ by blast
  then have "set (s # rest) = {?n..<nat (max_slots sm)}" by auto
  moreover have "sorted (s # rest)" "distinct (s # rest)"
    using assms(1) fs by (auto simp: slot_wf_def)
  ultimately have "s # rest = [?n..<nat (max_slots sm)]"
    by (metis sorted_distinct_upt)
  then show s: "s = ?n" by (cases "?n < nat (max_slots sm)") (auto simp: upt_conv_Cons)
  have "dict_get (slot_to_req sm) s = None"
    using assms(1) fs by (auto simp: slot_wf_def occupied_def)
  then have "slot_to_req sm' = slot_to_req sm @ [(s, r)]"
    by (simp add: sm' dict_set_new)
  moreover from this have "occupied sm' = insert s (occupied sm)"
    by (auto simp: sm' occupied_def)
  ultimately show "slot_compact sm'"
    using occ s by (auto simp: slot_compact_def)
qed

lemma allocate_result:
  assumes "allocate r sm = Inr (s, sm')"
  shows "get_slot r sm' = Inr s" and "r' \<noteq> r \<Longrightarrow> get_slot r' sm' = get_slot r' sm"
    and "max_slots sm' = max_slots sm" and "pad_slots sm' = pad_slots sm"
    and "dict_get (req_to_slot sm') = (dict_get (req_to_slot sm))(r \<mapsto> s)"
  using assms by (auto simp: allocate_def get_slot_def split: list.splits)

lemma allocate_Inr_iff: "(\<exists>p. allocate r sm = Inr p) \<longleftrightarrow> free_slots sm \<noteq> []"
  by (auto simp: allocate_def split: list.splits)

lemma free_wf [inv_intros]:
  assumes "slot_wf sm" and "free r sm = Inr (s, sm')"
  shows "slot_wf sm'"
proof -
  from assms(2) have r: "dict_get (req_to_slot sm) r = Some s"
    and sm': "sm' = sm\<lparr>req_to_slot := dict_del r (req_to_slot sm),
                     slot_to_req := dict_del s (slot_to_req sm),
                     free_slots := sort (free_slots sm @ [s])\<rparr>"
    by (auto simp: free_def)
  from r assms(1) have s: "s \<in> occupied sm"
    by (auto simp: slot_wf_def occupied_def mirror_def)
  have occ: "occupied sm' = occupied sm - {s}" by (auto simp: sm' occupied_def)
  have "mirror (req_to_slot sm') (slot_to_req sm')"
    using assms(1) r by (simp add: sm' slot_wf_def mirror_remove)
  then show ?thesis
    using assms(1) s unfolding slot_wf_def occ by (auto simp: sm' dict_simps)
qed

text \<open>Freeing the slot just allocated restores the manager's maps and free list.\<close>

lemma free_after_allocate:
  assumes "slot_wf sm" and "dict_get (req_to_slot sm) r = None"
    and "allocate r sm = Inr (s, sm')"
  shows "free r sm' = Inr (s, sm)"
proof -
  from assms(3) obtain rest where fs: "free_slots sm = s # rest"
    and sm': "sm' = sm\<lparr>free_slots := rest, req_to_slot := dict_set r s (req_to_slot sm),
                       slot_to_req := dict_set s r (slot_to_req sm)\<rparr>"
    by (auto simp: allocate_def split: list.splits)
  have "dict_get (slot_to_req sm) s = None"
    using assms(1) fs by (auto simp: slot_wf_def occupied_def)
  then have "dict_del r (req_to_slot sm') = req_to_slot sm" "dict_del s (slot_to_req sm') = slot_to_req sm"
    using assms(2) by (auto simp: sm' delete_update_same dict_get_None_keys)
  moreover have "sort (rest @ [s]) = s # rest"
    using assms(1) fs by (intro properties_for_sort) (auto simp: slot_wf_def)
  ultimately show ?thesis
    using fs by (simp add: free_def sm')
qed

lemma reserve_release:
  assumes "slot_wf sm" and "pad_slots sm = []" and "reserve_pad_slots n sm = Inr (pads, sm')"
  shows "slot_wf sm'" and "release_pad_slots sm' = sm" and "length pads = n"
    and "set pads \<inter> occupied sm = {}"
proof -
  from assms(3) have n: "n \<le> length (free_slots sm)" and pads: "pads = take n (free_slots sm)"
    and sm': "sm' = sm\<lparr>pad_slots := pads, free_slots := drop n (free_slots sm)\<rparr>"
    by (auto simp: reserve_pad_slots_def Let_def split: if_splits)
  have parts: "set pads \<union> set (drop n (free_slots sm)) = set (free_slots sm)"
    unfolding pads by (metis append_take_drop_id set_append)
  have disj: "set pads \<inter> set (drop n (free_slots sm)) = {}"
    using assms(1) unfolding pads by (simp add: slot_wf_def set_take_disj_set_drop_if_distinct)
  show "slot_wf sm'"
    using assms(1,2) parts disj
    by (auto simp: slot_wf_def sm' pads occupied_def sorted_wrt_drop)
  have "sort (drop n (free_slots sm) @ pads) = free_slots sm"
    using assms(1) parts disj
    by (intro sorted_distinct_set_unique) (auto simp: slot_wf_def pads)
  then show "release_pad_slots sm' = sm"
    using assms(2) by (cases "pads = []") (auto simp: release_pad_slots_def sm' pads)
  show "length pads = n" using n by (simp add: pads)
  show "set pads \<inter> occupied sm = {}"
    using assms(1) parts by (auto simp: slot_wf_def)
qed

section \<open>Condensing\<close>

text \<open>The effect of step 1 on the two maps and the set of holes.\<close>

lemma condense_forget_spec:
  assumes "condense_forget fs r2s s2r F = (r2s', s2r', F')"
  shows "dict_get r2s' = dict_get r2s |` (- fst ` set fs)"
    and "dict_get s2r' = dict_get s2r |` (- snd ` set fs)"
    and "set F' = set F \<union> snd ` set fs"
    and "distinct F \<Longrightarrow> distinct F'"
    and "dict_ok r2s \<Longrightarrow> dict_ok r2s'" and "dict_ok s2r \<Longrightarrow> dict_ok s2r'"
  using assms
  by (induction fs r2s s2r F rule: condense_forget.induct)
     (auto simp: restrict_map_def fun_eq_iff dict_simps distinct_insert)

lemma mirror_forget:
  assumes "mirror r2s s2r" and "condense_forget fs r2s s2r F = (r2s', s2r', F')"
    and "\<forall>(r, s) \<in> set fs. dict_get r2s r = Some s"
  shows "mirror r2s' s2r'"
proof -
  have "r \<in> fst ` set fs \<longleftrightarrow> s \<in> snd ` set fs" if "dict_get r2s r = Some s" for r s
  proof
    assume "r \<in> fst ` set fs"
    then show "s \<in> snd ` set fs" using assms(3) that by force
  next
    assume "s \<in> snd ` set fs"
    then obtain r' where "(r', s) \<in> set fs" by auto
    with assms(3) have "dict_get r2s r' = Some s" by auto
    with that assms(1) have "r' = r" by (auto intro: mirror_inj)
    with \<open>(r', s) \<in> set fs\<close> show "r \<in> fst ` set fs" by force
  qed
  then show ?thesis
    using assms(1) unfolding mirror_def condense_forget_spec(1,2) [OF assms(2)]
    by (auto simp: restrict_map_def)
qed

lemma skip_freed_stop: "int h \<le> skip_freed h F l \<Longrightarrow> nat (skip_freed h F l) \<notin> set F"
proof (induction h F l rule: skip_freed.induct)
  case (1 h F l)
  show ?case
  proof (cases "int h \<le> l \<and> nat l \<in> set F")
    case True
    then show ?thesis using 1 by (simp add: skip_freed.simps [of h F l])
  next
    case False
    then show ?thesis using "1.prems" by (auto simp: skip_freed.simps [of h F l])
  qed
qed

lemma skip_freed_gap:
  "skip_freed h F l < k \<Longrightarrow> k \<le> l \<Longrightarrow> 0 \<le> k \<Longrightarrow> nat k \<in> set F"
proof (induction h F l rule: skip_freed.induct)
  case (1 h F l)
  show ?case
  proof (cases "int h \<le> l \<and> nat l \<in> set F")
    case True
    then show ?thesis using 1 by (cases "k = l") (auto simp: skip_freed.simps [of h F l])
  next
    case False
    then show ?thesis using "1.prems" by (auto simp: skip_freed.simps [of h F l])
  qed
qed

text \<open>
  The loop invariant: holes and occupied slots partition the old initial segment, nothing is
  occupied above \<open>last_occupied\<close>, no hole is below \<open>first_hole\<close>.
\<close>

definition condense_inv :: "nat \<Rightarrow> nat \<Rightarrow> int \<Rightarrow> condense_state \<Rightarrow> bool" where
  "condense_inv n h l st \<longleftrightarrow>
     dict_ok (cd_r2s st) \<and> dict_ok (cd_s2r st) \<and> mirror (cd_r2s st) (cd_s2r st) \<and>
     distinct (cd_freed st) \<and>
     set (cd_freed st) \<inter> dom (dict_get (cd_s2r st)) = {} \<and>
     set (cd_freed st) \<union> dom (dict_get (cd_s2r st)) = {..<n} \<and>
     (\<forall>s \<in> dom (dict_get (cd_s2r st)). int s \<le> l) \<and>
     (\<forall>s \<in> set (cd_freed st). h \<le> s) \<and> l < int n"

definition condense_compact :: "condense_state \<Rightarrow> bool" where
  "condense_compact st \<longleftrightarrow> (\<exists>m. dom (dict_get (cd_s2r st)) = {..<m})"

lemma condense_invD:
  assumes "condense_inv n h l st"
  shows "s < n \<Longrightarrow> s \<notin> set (cd_freed st) \<Longrightarrow> s \<in> dom (dict_get (cd_s2r st))"
    and "s \<in> dom (dict_get (cd_s2r st)) \<Longrightarrow> s < n"
    and "s \<in> set (cd_freed st) \<Longrightarrow> s < n"
    and "s \<in> dom (dict_get (cd_s2r st)) \<Longrightarrow> int s \<le> l"
    and "s \<in> set (cd_freed st) \<Longrightarrow> h \<le> s"
    and "s \<in> set (cd_freed st) \<Longrightarrow> s \<notin> dom (dict_get (cd_s2r st))"
    and "l < int n"
proof -
  let ?F = "set (cd_freed st)" and ?O = "dom (dict_get (cd_s2r st))"
  have part: "?F \<union> ?O = {..<n}" and disj: "?F \<inter> ?O = {}"
    using assms by (simp_all add: condense_inv_def)
  show "s < n \<Longrightarrow> s \<notin> ?F \<Longrightarrow> s \<in> ?O" using part by blast
  show "s \<in> ?O \<Longrightarrow> s < n" "s \<in> ?F \<Longrightarrow> s < n" using part by blast+
  show "s \<in> ?F \<Longrightarrow> s \<notin> ?O" using disj by blast
qed (use assms in \<open>simp_all add: condense_inv_def\<close>)

lemma condense_inv_skip:
  assumes "condense_inv n h l st"
  shows "condense_inv n h (skip_freed h (cd_freed st) l) st"
proof -
  have "int s \<le> skip_freed h (cd_freed st) l" if "s \<in> dom (dict_get (cd_s2r st))" for s
    using condense_invD(4,6) [OF assms, of s] that
      skip_freed_gap [of h "cd_freed st" l "int s"] by fastforce
  moreover have "skip_freed h (cd_freed st) l < int n"
    using assms skip_freed_le [of h "cd_freed st" l] by (auto simp: condense_inv_def)
  ultimately show ?thesis using assms by (simp add: condense_inv_def)
qed

text \<open>When the scan passes the first hole, or no hole is left below it, the slots are compact.\<close>

lemma condense_done_below:
  assumes "condense_inv n h l st" and "l < int h"
  shows "condense_compact st"
proof -
  let ?O = "dom (dict_get (cd_s2r st))"
  note D = condense_invD [OF assms(1)]
  have "s \<in> ?O \<longleftrightarrow> s < min h n" for s
    using D(1) [of s] D(2) [of s] D(4) [of s] D(5) [of s] assms(2) by fastforce
  then have "?O = {..<min h n}" by (intro set_eqI) (simp only: lessThan_iff)
  then show ?thesis unfolding condense_compact_def by blast
qed

lemma condense_done_full:
  assumes "condense_inv n h l st" and "0 \<le> l" and "filter (\<lambda>s. s < nat l) (cd_freed st) = []"
    and "nat l \<notin> set (cd_freed st)"
  shows "condense_compact st"
proof -
  let ?O = "dom (dict_get (cd_s2r st))"
  note D = condense_invD [OF assms(1)]
  have "s \<in> ?O \<longleftrightarrow> s < Suc (nat l)" for s
  proof
    assume "s \<in> ?O"
    then show "s < Suc (nat l)" using D(4) [of s] by simp
  next
    assume s: "s < Suc (nat l)"
    then have "s \<notin> set (cd_freed st)"
      using assms(3,4) by (auto simp: filter_empty_conv less_Suc_eq)
    then show "s \<in> ?O" using s D(1) [of s] D(7) assms(2) by linarith
  qed
  then have "?O = {..<Suc (nat l)}" by (intro set_eqI) (simp only: lessThan_iff)
  then show ?thesis unfolding condense_compact_def by blast
qed

subsection \<open>Moving the state buffer\<close>

text \<open>
  What the executor is told to do with the moves: copy the data of slot \<open>src\<close> to slot
  \<open>dst\<close>, one pair after the other.
\<close>

fun apply_moves :: "(nat \<times> nat) list \<Rightarrow> (nat \<Rightarrow> 'st) \<Rightarrow> nat \<Rightarrow> 'st" where
  "apply_moves [] buf = buf"
| "apply_moves ((src, dst) # ms) buf = apply_moves ms (buf(dst := buf src))"

lemma apply_moves_append: "apply_moves (ms @ ms') buf = apply_moves ms' (apply_moves ms buf)"
  by (induction ms arbitrary: buf) auto

text \<open>Copying is parametric in the data, so it is enough to follow where a slot's data came from.\<close>

lemma apply_moves_source: "apply_moves ms buf s = buf (apply_moves ms id s)"
proof (induction ms arbitrary: s rule: rev_induct)
  case (snoc m ms)
  obtain src dst where m: "m = (src, dst)" by force
  show ?case
    using snoc [of s] snoc [of src] by (simp add: m apply_moves_append)
qed simp

definition carried :: "(nat \<times> nat) list \<Rightarrow> condense_state \<Rightarrow> condense_state \<Rightarrow> bool" where
  "carried ms st st' \<longleftrightarrow>
     dom (dict_get (cd_r2s st')) = dom (dict_get (cd_r2s st)) \<and>
     (\<forall>r s s'. dict_get (cd_r2s st) r = Some s \<longrightarrow> dict_get (cd_r2s st') r = Some s' \<longrightarrow>
        apply_moves ms id s' = s)"

lemma carried_refl: "carried [] st st"
  by (auto simp: carried_def)

lemma carried_trans:
  assumes "carried ms st st'" and "carried ms' st' st''"
  shows "carried (ms @ ms') st st''"
proof -
  have trip: "apply_moves (ms @ ms') id s'' = s"
    if "dict_get (cd_r2s st) r = Some s" "dict_get (cd_r2s st'') r = Some s''" for r s s''
  proof -
    from that(1) assms(1) obtain s' where s': "dict_get (cd_r2s st') r = Some s'"
      by (fastforce simp: carried_def)
    have "apply_moves (ms @ ms') id s'' = apply_moves ms id (apply_moves ms' id s'')"
      unfolding apply_moves_append by (rule apply_moves_source)
    moreover have "apply_moves ms' id s'' = s'" "apply_moves ms id s' = s"
      using that s' assms unfolding carried_def by simp_all
    ultimately show ?thesis by simp
  qed
  have "dom (dict_get (cd_r2s st'')) = dom (dict_get (cd_r2s st))"
    using assms by (simp add: carried_def)
  then show ?thesis using trip by (simp add: carried_def)
qed

lemma condense_move_ok:
  assumes inv: "condense_inv n h l st" and l: "int h \<le> l" "nat l \<notin> set (cd_freed st)"
  obtains (stop) "condense_move (nat l) st = Inr None" "condense_compact st"
  | (move) st' dst where "condense_move (nat l) st = Inr (Some st')"
      "condense_inv n h (l - 1) st'" "carried [(nat l, dst)] st st'"
      "cd_moves st' = cd_moves st @ [(nat l, dst)]" "dst < nat l"
      "card (dom (dict_get (cd_s2r st'))) = card (dom (dict_get (cd_s2r st)))"
      "dst < card (dom (dict_get (cd_s2r st)))" "card (dom (dict_get (cd_s2r st))) \<le> nat l"
proof (cases "filter (\<lambda>s. s < nat l) (cd_freed st) = []")
  case True
  then show ?thesis
    using stop condense_done_full [OF inv _ True l(2)] l(1) by (simp add: condense_move_def)
next
  case False
  let ?F = "set (cd_freed st)" and ?O = "dom (dict_get (cd_s2r st))"
  let ?U = "set (filter (\<lambda>s. s < nat l) (cd_freed st))"
  define d where "d = Min ?U"
  have "d \<in> ?U" unfolding d_def using False by (intro Min_in) (simp_all only: set_empty finite_set not_False_eq_True)
  then have d: "d \<in> ?F" "d < nat l" by auto
  have least: "d \<le> s" if "s \<in> ?F" for s
  proof (cases "s < nat l")
    case True
    then show ?thesis unfolding d_def using that by (intro Min_le) auto
  qed (use d in simp)
  note D = condense_invD [OF inv]
  have l0: "0 \<le> l" using l(1) by linarith
  have "nat l \<in> ?O" using D(1) [of "nat l"] D(7) l(2) l0 by auto
  then obtain r where r: "dict_get (cd_s2r st) (nat l) = Some r" by auto
  have dO: "d \<notin> ?O" using D(6) d(1) by blast
  then have dn: "dict_get (cd_s2r st) d = None" by auto
  have mir: "mirror (cd_r2s st) (cd_s2r st)" using inv by (simp add: condense_inv_def)
  have rl: "dict_get (cd_r2s st) r = Some (nat l)" using r mirror_get [OF mir] by simp
  define st' where "st' = \<lparr>cd_r2s = dict_set r d (cd_r2s st),
      cd_s2r = dict_del (nat l) (dict_set d r (cd_s2r st)),
      cd_freed = removeAll d (List.insert (nat l) (cd_freed st)),
      cd_moves = cd_moves st @ [(nat l, d)]\<rparr>"
  have O': "dom (dict_get (cd_s2r st')) = insert d (?O - {nat l})"
    using d(2) by (auto simp: st'_def)
  have F': "set (cd_freed st') = insert (nat l) (?F - {d})"
    using d(2) by (auto simp: st'_def)
  show ?thesis
  proof (rule move)
    show "condense_move (nat l) st = Inr (Some st')"
      using False r by (simp add: condense_move_def st'_def d_def dict_item_def Let_def)
    have "?F \<union> ?O = {..<n}" "?F \<inter> ?O = {}" using inv by (simp_all add: condense_inv_def)
    then have "set (cd_freed st') \<union> dom (dict_get (cd_s2r st')) = {..<n}"
      and "set (cd_freed st') \<inter> dom (dict_get (cd_s2r st')) = {}"
      using d \<open>nat l \<in> ?O\<close> l(2) unfolding O' F' by blast+
    moreover have "\<forall>s \<in> dom (dict_get (cd_s2r st')). int s \<le> l - 1"
      unfolding O' using D(4) d(2) by fastforce
    moreover have "\<forall>s \<in> set (cd_freed st'). h \<le> s" unfolding F' using D(5) l(1) by auto
    moreover have "mirror (cd_r2s st') (cd_s2r st')"
      unfolding st'_def using mirror_move [OF mir r dn] by simp
    ultimately show "condense_inv n h (l - 1) st'"
      using inv by (auto simp: condense_inv_def st'_def dict_simps distinct_removeAll)
    have ne: "s \<noteq> d" if "dict_get (cd_r2s st) r' = Some s" for r' s
      using that dn mirror_get [OF mir] by force
    show "carried [(nat l, d)] st st'"
      unfolding carried_def using rl ne by (auto simp: st'_def)
    show "cd_moves st' = cd_moves st @ [(nat l, d)]" by (simp add: st'_def)
    have fin: "finite ?O" by (simp add: finite_dom_map_of)
    then show "card (dom (dict_get (cd_s2r st'))) = card ?O"
      unfolding O' using dO card_Suc_Diff1 [OF fin \<open>nat l \<in> ?O\<close>]
      by (metis card_insert_disjoint DiffD1 finite_Diff fin)
    have "insert (nat l) {..<d} \<subseteq> ?O"
    proof
      fix s assume s: "s \<in> insert (nat l) {..<d}"
      show "s \<in> ?O"
      proof (cases "s = nat l")
        case False
        with s have "s < d" by simp
        then show ?thesis using least [of s] D(1) [of s] D(3) [OF d(1)] by fastforce
      qed (use \<open>nat l \<in> ?O\<close> in simp)
    qed
    then have "card (insert (nat l) {..<d}) \<le> card ?O" by (intro card_mono fin)
    then show "d < card ?O" using d(2) by simp
    have "?O \<subseteq> {..nat l} - {d}" using D(4) dO by fastforce
    then have "card ?O \<le> card ({..nat l} - {d})" by (intro card_mono) auto
    then show "card ?O \<le> nat l" using d(2) by (simp add: card_Diff_singleton)
  qed (rule d(2))
qed

definition moves_down :: "(nat \<times> nat) list \<Rightarrow> nat \<Rightarrow> bool" where
  "moves_down ms m \<longleftrightarrow> (\<forall>(src, dst) \<in> set ms. dst < m \<and> m \<le> src)"

text \<open>The loop always returns, compacts the slots, and its moves carry every request along.\<close>

lemma condense_loop_ok:
  assumes "condense_inv n h l st"
  obtains st' ms l' where "condense_loop h l st = Inr st'" and "condense_inv n h l' st'"
    and "condense_compact st'" and "carried ms st st'" and "cd_moves st' = cd_moves st @ ms"
    and "moves_down ms (card (dom (dict_get (cd_s2r st))))"
    and "card (dom (dict_get (cd_s2r st'))) = card (dom (dict_get (cd_s2r st)))"
  using assms
proof (induction h l st arbitrary: thesis rule: condense_loop.induct)
  case (1 h l st)
  let ?l = "skip_freed h (cd_freed st) l"
  have inv: "condense_inv n h ?l st" using condense_inv_skip [OF "1.prems"(2)] .
  have stay: thesis if "condense_loop h l st = Inr st" "condense_compact st"
    using "1.prems"(1) [OF that(1) "1.prems"(2) that(2) carried_refl] by (simp add: moves_down_def)
  consider "l < int h" | "int h \<le> l" "?l < int h" | "int h \<le> l" "int h \<le> ?l" by linarith
  then show ?case
  proof cases
    case 1
    then show ?thesis
      using stay condense_done_below [OF "1.prems"(2)] by (simp add: condense_loop.simps [of h l st])
  next
    case 2
    then show ?thesis
      using stay condense_done_below [OF inv] by (simp add: condense_loop.simps [of h l st])
  next
    case 3
    note free = skip_freed_stop [OF 3(2)]
    show ?thesis
    proof (rule condense_move_ok [OF inv 3(2) free])
      assume "condense_move (nat ?l) st = Inr None" "condense_compact st"
      with 3 show thesis
        using stay by (simp add: condense_loop.simps [of h l st] Let_def)
    next
      fix st1 dst
      assume mv: "condense_move (nat ?l) st = Inr (Some st1)"
        and inv1: "condense_inv n h (?l - 1) st1" and c1: "carried [(nat ?l, dst)] st st1"
        and ms1: "cd_moves st1 = cd_moves st @ [(nat ?l, dst)]" and "dst < nat ?l"
        and card1: "card (dom (dict_get (cd_s2r st1))) = card (dom (dict_get (cd_s2r st)))"
        and lo: "dst < card (dom (dict_get (cd_s2r st)))"
        and hi: "card (dom (dict_get (cd_s2r st))) \<le> nat ?l"
      have unfold: "condense_loop h l st = condense_loop h (?l - 1) st1"
        using 3 mv by (simp add: condense_loop.simps [of h l st] Let_def)
      have "\<not> ?l < int h" using 3 by simp
      from "1.IH" [OF 3(1) refl this mv refl _ inv1]
      obtain st' ms l' where IH: "condense_loop h (?l - 1) st1 = Inr st'" "condense_inv n h l' st'"
        "condense_compact st'" "carried ms st1 st'" "cd_moves st' = cd_moves st1 @ ms"
        "moves_down ms (card (dom (dict_get (cd_s2r st1))))"
        "card (dom (dict_get (cd_s2r st'))) = card (dom (dict_get (cd_s2r st1)))" by blast
      show thesis
      proof (rule "1.prems"(1))
        show "carried ((nat ?l, dst) # ms) st st'" using carried_trans [OF c1 IH(4)] by simp
        show "moves_down ((nat ?l, dst) # ms) (card (dom (dict_get (cd_s2r st))))"
          using IH(6) card1 lo hi by (simp add: moves_down_def)
      qed (use unfold IH ms1 card1 in simp_all)
    qed
  qed
qed

text \<open>The prologue establishes the loop invariant.\<close>

lemma condense_start:
  assumes wf: "slot_wf sm" and cmp: "slot_compact sm" and own: "slot_owner_ok fs sm"
    and fg: "condense_forget fs (req_to_slot sm) (slot_to_req sm) [] = (r2s, s2r, F)"
    and F: "F \<noteq> []"
  shows "condense_inv (length (slot_to_req sm)) (Min (set F))
     (if s2r \<noteq> [] then int (Max (set (dict_keys s2r))) else int (Min (set F)) - 1)
     \<lparr>cd_r2s = r2s, cd_s2r = s2r, cd_freed = F, cd_moves = []\<rparr>" (is "condense_inv ?n ?h ?l ?st")
proof -
  note spec = condense_forget_spec [OF fg]
  have ok: "dict_ok r2s" "dict_ok s2r" "distinct F"
    using wf spec(4,5,6) by (auto simp: slot_wf_def)
  have mir0: "mirror (req_to_slot sm) (slot_to_req sm)" using wf by (simp add: slot_wf_def)
  have acc: "\<forall>(r, s) \<in> set fs. dict_get (req_to_slot sm) r = Some s"
    using own by (simp add: slot_owner_ok_def)
  have mir: "mirror r2s s2r" by (rule mirror_forget [OF mir0 fg acc])
  have F_eq: "set F = snd ` set fs" using spec(3) by simp
  have O_eq: "dom (dict_get s2r) = occupied sm - set F"
    unfolding spec(2) F_eq occupied_def by auto
  have occ: "occupied sm = {..<?n}" using cmp by (simp add: slot_compact_def)
  have "set F \<subseteq> occupied sm"
    using acc mirror_get [OF mir0] unfolding F_eq occupied_def by force
  then have part: "set F \<union> dom (dict_get s2r) = {..<?n}" "set F \<inter> dom (dict_get s2r) = {}"
    unfolding O_eq occ by auto
  have "?h \<in> set F" using F by simp
  then have hn: "?h < ?n" using part(1) by auto
  have fin: "finite (set (dict_keys s2r))" by simp
  have keys: "set (dict_keys s2r) = dom (dict_get s2r)" by (rule dict_keys_dom)
  have top: "?l < int ?n"
  proof (cases "s2r = []")
    case False
    then have "Max (set (dict_keys s2r)) \<in> set (dict_keys s2r)" by (intro Max_in) auto
    then have "Max (set (dict_keys s2r)) < ?n" using part(1) unfolding keys by auto
    then show ?thesis using False by simp
  qed (use hn in simp)
  have above: "\<forall>s \<in> dom (dict_get s2r). int s \<le> ?l"
  proof
    fix s assume "s \<in> dom (dict_get s2r)"
    then have "s \<in> set (dict_keys s2r)" by (simp only: keys)
    then have "s \<le> Max (set (dict_keys s2r))" "s2r \<noteq> []" by (auto intro: Max_ge)
    then show "int s \<le> ?l" by simp
  qed
  show ?thesis
    unfolding condense_inv_def using ok mir part above top by simp
qed

lemma batch_condense_ok:
  assumes wf: "slot_wf sm" and cmp: "slot_compact sm" and own: "slot_owner_ok fs sm"
  obtains ms sm' where "batch_condense fs sm = Inr (ms, sm')" and "slot_wf sm'" and "slot_compact sm'"
    and "dom (dict_get (req_to_slot sm')) = dom (dict_get (req_to_slot sm)) - fst ` set fs"
    and "\<And>r s s'. dict_get (req_to_slot sm) r = Some s \<Longrightarrow> dict_get (req_to_slot sm') r = Some s' \<Longrightarrow>
           apply_moves ms id s' = s"
    and "moves_down ms (length (slot_to_req sm'))"
    and "max_slots sm' = max_slots sm" and "pad_slots sm' = pad_slots sm"
proof (cases "fs = []")
  case True
  then show ?thesis
    using that [of "[]" sm] wf cmp by (simp add: batch_condense_def moves_down_def)
next
  case False
  obtain r2s s2r F where fg: "condense_forget fs (req_to_slot sm) (slot_to_req sm) [] = (r2s, s2r, F)"
    by (metis prod_cases3)
  note spec = condense_forget_spec [OF fg]
  have F: "F \<noteq> []" using spec(3) False by auto
  define h where "h = Min (set F)"
  define l where "l = (if s2r \<noteq> [] then int (Max (set (dict_keys s2r))) else int h - 1)"
  define st where "st = \<lparr>cd_r2s = r2s, cd_s2r = s2r, cd_freed = F, cd_moves = []\<rparr>"
  have inv: "condense_inv (length (slot_to_req sm)) h l st"
    using condense_start [OF wf cmp own fg F] unfolding h_def l_def st_def .
  obtain st' ms l' where loop: "condense_loop h l st = Inr st'"
    and inv': "condense_inv (length (slot_to_req sm)) h l' st'" and cmp': "condense_compact st'"
    and car: "carried ms st st'" and mv: "cd_moves st' = cd_moves st @ ms"
    and down: "moves_down ms (card (dom (dict_get (cd_s2r st))))"
    and card: "card (dom (dict_get (cd_s2r st'))) = card (dom (dict_get (cd_s2r st)))"
    using condense_loop_ok [OF inv] by blast
  define sm' where "sm' = sm\<lparr>req_to_slot := cd_r2s st', slot_to_req := cd_s2r st',
      free_slots := sort (free_slots sm @
        filter (\<lambda>s. s \<notin> set (free_slots sm)) (sort (cd_freed st')))\<rparr>"
  have run: "batch_condense fs sm = Inr (ms, sm')"
    using False F loop mv
    by (cases "s2r = []") (simp_all add: batch_condense_def fg Let_def h_def l_def st_def sm'_def)
  have ok: "dict_ok (cd_r2s st')" "dict_ok (cd_s2r st')" "mirror (cd_r2s st') (cd_s2r st')"
    "distinct (cd_freed st')"
    "set (cd_freed st') \<inter> dom (dict_get (cd_s2r st')) = {}"
    "set (cd_freed st') \<union> dom (dict_get (cd_s2r st')) = {..<length (slot_to_req sm)}"
    using inv' by (simp_all add: condense_inv_def)
  have occ: "occupied sm' = dom (dict_get (cd_s2r st'))" by (simp add: sm'_def occupied_def)
  have occ0: "occupied sm = {..<length (slot_to_req sm)}" using cmp by (simp add: slot_compact_def)
  have fre: "set (free_slots sm') = set (free_slots sm) \<union> set (cd_freed st')"
    by (auto simp: sm'_def)
  have len: "length (slot_to_req sm') = card (occupied sm')"
    using ok(2) by (simp add: card_occupied sm'_def)
  show ?thesis
  proof (rule that [OF run])
    have part: "occupied sm' \<union> set (cd_freed st') = occupied sm" "occupied sm' \<inter> set (cd_freed st') = {}"
      using ok(5,6) unfolding occ occ0 by auto
    have old: "occupied sm \<inter> (set (free_slots sm) \<union> set (pad_slots sm)) = {}"
      "occupied sm \<union> set (free_slots sm) \<union> set (pad_slots sm) = {..<nat (max_slots sm)}"
      "set (free_slots sm) \<inter> set (pad_slots sm) = {}" "distinct (free_slots sm)" "distinct (pad_slots sm)"
      using wf by (simp_all add: slot_wf_def)
    have "set (free_slots sm') \<inter> set (pad_slots sm) = {}"
      "occupied sm' \<inter> (set (free_slots sm') \<union> set (pad_slots sm)) = {}"
      "occupied sm' \<union> set (free_slots sm') \<union> set (pad_slots sm) = {..<nat (max_slots sm)}"
      unfolding fre using part old(1-3) by blast+
    moreover have "distinct (free_slots sm')"
      using old(4) ok(4) by (auto simp: sm'_def)
    ultimately show "slot_wf sm'"
      using ok old(5) by (simp add: slot_wf_def sm'_def)
    obtain m where "occupied sm' = {..<m}" using cmp' unfolding condense_compact_def occ by blast
    then show "slot_compact sm'" by (simp add: slot_compact_def len)
    show "dom (dict_get (req_to_slot sm')) = dom (dict_get (req_to_slot sm)) - fst ` set fs"
      using car unfolding carried_def sm'_def st_def by (auto simp: spec(1))
    show "moves_down ms (length (slot_to_req sm'))"
      using down card unfolding len occ by simp
    fix r s s' assume r: "dict_get (req_to_slot sm) r = Some s" "dict_get (req_to_slot sm') r = Some s'"
    have "r \<in> dom (dict_get r2s)" using car r(2) unfolding carried_def sm'_def st_def by auto
    then have "dict_get (cd_r2s st) r = Some s"
      using r(1) by (simp add: st_def spec(1) restrict_map_def domIff split: if_splits)
    then show "apply_moves ms id s' = s"
      using car r(2) by (simp add: carried_def sm'_def)
  qed (simp_all add: sm'_def)
qed

section \<open>What the manager promises\<close>

text \<open>Three active requests in a manager of five slots.\<close>

definition demo_slots :: slot_manager where
  "demo_slots =
     \<lparr>max_slots = 5, req_to_slot = [(''a'', 0), (''b'', 1), (''c'', 2)],
      slot_to_req = [(0, ''a''), (1, ''b''), (2, ''c'')], free_slots = [3, 4], pad_slots = []\<rparr>"

lemma demo_slots_wf: "slot_wf demo_slots"
  by (auto simp: demo_slots_def slot_wf_def mirror_def occupied_def split: if_splits)

lemma demo_slots_compact: "slot_compact demo_slots"
  by (auto simp: demo_slots_def slot_compact_def occupied_def split: if_splits)

lemma demo_slots_owner: "slot_owner_ok [(''a'', 0)] demo_slots"
  by (simp add: demo_slots_def slot_owner_ok_def)

text \<open>
  Condensing never raises and restores the manager's invariants. When the manager is
  well formed and compact and each freed pair names a request with its slot, \<open>batch_condense\<close>
  returns; afterwards every slot is again occupied, free or lent exactly once, the occupied
  slots are an initial segment, exactly the freed requests are gone, and each move goes from a
  slot at or above the new size down to a hole below it.
\<close>

theorem batch_condense_compacts:
  assumes "slot_wf sm" and "slot_compact sm" and "slot_owner_ok fs sm"
  shows "\<exists>ms sm'. batch_condense fs sm = Inr (ms, sm') \<and> slot_wf sm' \<and> slot_compact sm' \<and>
     dom (dict_get (req_to_slot sm')) = dom (dict_get (req_to_slot sm)) - fst ` set fs \<and>
     moves_down ms (length (slot_to_req sm'))"
  using batch_condense_ok [OF assms] by metis

theorem batch_condense_compacts_witness:
  "\<exists>ms sm'. batch_condense [(''a'', 0)] demo_slots = Inr (ms, sm') \<and> slot_wf sm' \<and> slot_compact sm' \<and>
     dom (dict_get (req_to_slot sm')) = dom (dict_get (req_to_slot demo_slots)) - fst ` set [(''a'', 0 :: nat)] \<and>
     moves_down ms (length (slot_to_req sm'))"
  by (rule batch_condense_compacts [OF demo_slots_wf demo_slots_compact demo_slots_owner])

text \<open>
  C9: the returned moves, executed in order as copies on the state buffer, are exactly what
  the new slot map needs: a request that was in slot \<open>s\<close> and is now in slot \<open>s'\<close> finds in
  \<open>s'\<close> the data that was in \<open>s\<close>.
\<close>

theorem batch_condense_carries_state:
  assumes "slot_wf sm" and "slot_compact sm" and "slot_owner_ok fs sm"
    and "batch_condense fs sm = Inr (ms, sm')"
    and "get_slot r sm = Inr s" and "get_slot r sm' = Inr s'"
  shows "apply_moves ms buf s' = buf s"
proof -
  have "apply_moves ms id s' = s"
    by (rule batch_condense_ok [OF assms(1-3)])
       (use assms(4-6) in \<open>auto simp: get_slot_def split: option.splits\<close>)
  then show ?thesis by (simp add: apply_moves_source [of ms buf])
qed

theorem batch_condense_carries_state_witness:
  "\<exists>ms sm'. batch_condense [(''a'', 0)] demo_slots = Inr (ms, sm') \<and> get_slot ''c'' sm' = Inr 0 \<and>
     apply_moves ms (\<lambda>slot. 10 * slot) 0 = (20 :: nat)"
proof -
  define sm' where "sm' = demo_slots\<lparr>req_to_slot := [(''b'', 1), (''c'', 0)],
    slot_to_req := [(1, ''b''), (0, ''c'')], free_slots := [2, 3, 4]\<rparr>"
  have run: "batch_condense [(''a'', 0)] demo_slots = Inr ([(2, 0)], sm')"
    unfolding sm'_def by code_simp
  have "get_slot ''c'' demo_slots = Inr 2" "get_slot ''c'' sm' = Inr 0"
    by (simp_all add: get_slot_def demo_slots_def sm'_def)
  with batch_condense_carries_state [OF demo_slots_wf demo_slots_compact demo_slots_owner run this,
      of "\<lambda>slot. 10 * slot"]
  have "apply_moves [(2, 0)] (\<lambda>slot. 10 * slot) 0 = (20 :: nat)" by simp
  with run \<open>get_slot ''c'' sm' = Inr 0\<close> show ?thesis by blast
qed

text \<open>
  Allocating and freeing are inverse. In a well-formed manager a new request can be
  given a slot exactly when a slot is free; the slot was not in use, the manager stays well
  formed, and freeing the request gives the manager back unchanged.
\<close>

theorem allocate_free_inverse:
  assumes "slot_wf sm" and "get_slot r sm = Inl KeyError"
  shows "((\<exists>p. allocate r sm = Inr p) \<longleftrightarrow> free_slots sm \<noteq> []) \<and>
     (\<forall>s sm'. allocate r sm = Inr (s, sm') \<longrightarrow>
        s \<notin> occupied sm \<and> slot_wf sm' \<and> get_slot r sm' = Inr s \<and> free r sm' = Inr (s, sm))"
proof -
  have r: "dict_get (req_to_slot sm) r = None"
    using assms(2) by (auto simp: get_slot_def split: option.splits)
  have "s \<notin> occupied sm" if "allocate r sm = Inr (s, sm')" for s sm'
    using that assms(1) by (auto simp: allocate_def slot_wf_def split: list.splits)
  then show ?thesis
    using allocate_Inr_iff allocate_wf [OF assms(1) r] free_after_allocate [OF assms(1) r]
      allocate_result(1) by blast
qed

theorem allocate_free_inverse_witness:
  "\<exists>sm'. allocate ''d'' demo_slots = Inr (3, sm') \<and> slot_wf sm' \<and> free ''d'' sm' = Inr (3, demo_slots)"
proof -
  have "get_slot ''d'' demo_slots = Inl KeyError"
    by (simp add: get_slot_def demo_slots_def)
  from allocate_free_inverse [OF demo_slots_wf this]
  show ?thesis by (auto simp: allocate_def demo_slots_def)
qed

text \<open>
  padding slots are borrowed without disturbing anyone. Reserving \<open>n\<close> pad slots hands
  out \<open>n\<close> slots no request occupies and keeps the manager well formed; releasing them
  restores the manager exactly.
\<close>

theorem pad_slots_round_trip:
  assumes "slot_wf sm" and "pad_slots sm = []" and "reserve_pad_slots n sm = Inr (pads, sm')"
  shows "length pads = n \<and> set pads \<inter> occupied sm = {} \<and> slot_wf sm' \<and> release_pad_slots sm' = sm"
  using reserve_release [OF assms] by blast

theorem pad_slots_round_trip_witness:
  "\<exists>sm'. reserve_pad_slots 2 demo_slots = Inr ([3, 4], sm') \<and> release_pad_slots sm' = demo_slots"
proof -
  let ?sm = "demo_slots\<lparr>pad_slots := [3, 4], free_slots := []\<rparr>"
  have run: "reserve_pad_slots 2 demo_slots = Inr ([3, 4], ?sm)" and "pad_slots demo_slots = []"
    by (simp_all add: reserve_pad_slots_def demo_slots_def Let_def)
  from pad_slots_round_trip [OF demo_slots_wf this(2) run] run show ?thesis by blast
qed

section \<open>The contract the scheduler relies on\<close>

text \<open>
  The scheduler uses a slot provider through two operations only: it asks for a slot and it
  looks slots up. The laws are what its proofs need.
\<close>

locale slot_provider =
  fixes alloc :: "rid \<Rightarrow> 'sm \<Rightarrow> (nat \<times> 'sm) res"
    and look :: "rid \<Rightarrow> 'sm \<Rightarrow> nat res"
    and wf :: "'sm \<Rightarrow> bool"
  assumes alloc_wf: "wf sm \<Longrightarrow> look r sm = Inl KeyError \<Longrightarrow> alloc r sm = Inr (s, sm') \<Longrightarrow> wf sm'"
    and alloc_look: "alloc r sm = Inr (s, sm') \<Longrightarrow> look r sm' = Inr s"
    and alloc_other: "alloc r sm = Inr (s, sm') \<Longrightarrow> r' \<noteq> r \<Longrightarrow> look r' sm' = look r' sm"
    and look_inj: "wf sm \<Longrightarrow> look r sm = Inr s \<Longrightarrow> look r' sm = Inr s \<Longrightarrow> r = r'"
    and look_error: "look r sm = Inl e \<Longrightarrow> e = KeyError"
begin

lemma alloc_keeps: "alloc r sm = Inr (s, sm') \<Longrightarrow> look q sm = Inr t \<Longrightarrow> q \<noteq> r \<Longrightarrow> look q sm' = Inr t"
  by (simp add: alloc_other)

lemma look_all_alloc:
  assumes "alloc r sm = Inr (s, sm')" and "\<forall>q \<in> Q. \<exists>t. look q sm = Inr t"
  shows "\<forall>q \<in> insert r Q. \<exists>t. look q sm' = Inr t"
  using assms alloc_look alloc_other by (metis insert_iff)

lemma look_distinct:
  assumes "wf sm" and "distinct rs" and "mapE (\<lambda>r. look r sm) rs = Inr ss"
  shows "distinct ss"
  unfolding distinct_conv_nth
proof (intro allI impI)
  fix i j assume ij: "i < length ss" "j < length ss" "i \<noteq> j"
  have len: "length ss = length rs" using assms(3) by (rule mapE_length)
  have "look (rs ! i) sm = Inr (ss ! i)" "look (rs ! j) sm = Inr (ss ! j)"
    using mapE_nth [OF assms(3)] ij len by auto
  moreover have "rs ! i \<noteq> rs ! j" using assms(2) ij len by (simp add: nth_eq_iff_index_eq)
  ultimately show "ss ! i \<noteq> ss ! j" using look_inj [OF assms(1)] by metis
qed

end

interpretation slots: slot_provider allocate get_slot slot_wf
proof unfold_locales
  fix sm :: slot_manager and r r' s sm' e
  show "slot_wf sm \<Longrightarrow> get_slot r sm = Inl KeyError \<Longrightarrow> allocate r sm = Inr (s, sm') \<Longrightarrow> slot_wf sm'"
    by (rule allocate_wf) (auto simp: get_slot_def split: option.splits)
  show "allocate r sm = Inr (s, sm') \<Longrightarrow> get_slot r sm' = Inr s" by (rule allocate_result(1))
  show "allocate r sm = Inr (s, sm') \<Longrightarrow> r' \<noteq> r \<Longrightarrow> get_slot r' sm' = get_slot r' sm"
    by (rule allocate_result(2))
  show "slot_wf sm \<Longrightarrow> get_slot r sm = Inr s \<Longrightarrow> get_slot r' sm = Inr s \<Longrightarrow> r = r'"
    by (auto simp: slot_wf_def get_slot_def split: option.splits intro: mirror_inj)
  show "get_slot r sm = Inl e \<Longrightarrow> e = KeyError"
    by (simp add: get_slot_def split: option.splits)
qed

end
