(* ===== verification/Scheduler.thy ===== *)
theory Scheduler
  imports Config Outputs Request_Queue Slot_Manager
begin

text \<open>
  \<^verbatim>\<open>vkwr/scheduler/scheduler.py\<close>, \<^verbatim>\<open>utils.py\<close> and \<^verbatim>\<open>output.py\<close>: continuous batching in
  two phases.

  The state \<open>sched\<close> has the attributes of \<^verbatim>\<open>SimpleScheduler\<close>. The slot manager, which the
  engine core shares with the scheduler, is the field \<open>slot_manager_of\<close>. Python keeps one
  object per request, referenced from \<open>running\<close> and \<open>running_map\<close>; an attribute assignment is
  therefore the update of both (\<open>set_running\<close>), and the invariant \<open>sched_wf\<close> states that both
  hold the same request. \<open>schedule\<close> is split as the source splits it: phase 1 is a fold over the
  running requests in slot order, phase 2 a loop over the two queues whose measure is the
  number of requests in them, then the advance of the computed tokens.
\<close>

section \<open>Data\<close>

record run_data =
  rd_request_id :: rid
  rd_prompt_token_ids :: "token list"
  rd_num_computed_tokens :: int
  rd_num_tokens :: int
  rd_sampling_params :: sampling_params
  rd_input_token_ids :: "token list option"
  rd_is_decode :: bool
  rd_is_last_prefill :: bool
  rd_slot_index :: nat

record sched_output =
  so_scheduled_req_ids :: "rid list"
  so_num_scheduled_tokens :: "(rid, int) dict"
  so_total_num_scheduled_tokens :: int
  so_finished_req_ids :: "rid list"
  so_request_data :: "(rid, run_data) dict"
  so_freed_slots :: "(rid \<times> nat) list"
  so_slot_indices :: "nat list option"

record sched =
  sc_config :: scheduler_config
  sc_max_model_len :: "int option"
  slot_manager_of :: "slot_manager option"
  waiting :: rqueue
  skipped_waiting :: rqueue
  running :: "vreq list"
  running_map :: "(rid, vreq) dict"
  running_output_tokens :: "(rid, token list) dict"

definition scheduler_init ::
  "scheduler_config \<Rightarrow> int option \<Rightarrow> slot_manager option \<Rightarrow> sched res" where
  "scheduler_init cfg mml sm =
     bindE (scheduling_policy_of (scheduling_policy_name cfg)) (\<lambda>policy.
       Inr \<lparr>sc_config = cfg, sc_max_model_len = mml, slot_manager_of = sm,
            waiting = create_request_queue policy, skipped_waiting = create_request_queue policy,
            running = [], running_map = [], running_output_tokens = []\<rparr>)"

section \<open>Adding and counting requests\<close>

definition sched_add_request :: "vreq \<Rightarrow> sched \<Rightarrow> sched" where
  "sched_add_request r s = s\<lparr>waiting := rq_add_request (r\<lparr>status := WAITING\<rparr>) (waiting s)\<rparr>"

definition has_requests :: "sched \<Rightarrow> bool" where
  "has_requests s \<longleftrightarrow> rq_bool (waiting s) \<or> rq_bool (skipped_waiting s) \<or> running s \<noteq> []"

definition get_num_unfinished_requests :: "sched \<Rightarrow> nat" where
  "get_num_unfinished_requests s =
     length (running s) + rq_length (waiting s) + rq_length (skipped_waiting s)"

text \<open>An assignment to attributes of the running request \<open>r\<close>.\<close>

definition set_running :: "rid \<Rightarrow> (vreq \<Rightarrow> vreq) \<Rightarrow> sched \<Rightarrow> sched" where
  "set_running r f s =
     s\<lparr>running := map (\<lambda>q. if request_id q = r then f q else q) (running s),
       running_map := map (\<lambda>(k, q). (k, if k = r then f q else q)) (running_map s)\<rparr>"

section \<open>Helpers of \<open>schedule\<close>\<close>

definition get_input_tokens :: "vreq \<Rightarrow> int \<Rightarrow> bool \<Rightarrow> token list option" where
  "get_input_tokens r num_new dec =
     (if \<not> dec then
        Some (take (nat num_new) (drop (nat (num_computed_tokens r)) (prompt_token_ids r)))
      else None)"

definition should_finish :: "vreq \<Rightarrow> bool \<Rightarrow> token list \<Rightarrow> bool" where
  "should_finish r dec output_tokens =
     (if \<not> dec then False
      else if (case sp_max_tokens (req_sampling_params r) of
                 None \<Rightarrow> False | Some m \<Rightarrow> int (length output_tokens) \<ge> m) then True
      else (case req_max_model_len r of None \<Rightarrow> False
            | Some l \<Rightarrow> int (length (prompt_token_ids r)) + int (length output_tokens) + 1 \<ge> l))"

definition clip_len :: "int option \<Rightarrow> vreq \<Rightarrow> int \<Rightarrow> int" where
  "clip_len mml r n =
     (case mml of None \<Rightarrow> n | Some l \<Rightarrow> min n (l - 1 - num_computed_tokens r))"

definition want_tokens :: "vreq \<Rightarrow> int" where
  "want_tokens r =
     (if is_decode r then 1 else int (length (prompt_token_ids r)) - num_computed_tokens r)"

text \<open>The chunk to compute: clipped to the threshold, the budget left and the model length.\<close>

definition chunk_size :: "sched \<Rightarrow> vreq \<Rightarrow> int \<Rightarrow> int" where
  "chunk_size s r budget =
     clip_len (sc_max_model_len s) r
       (min (min (want_tokens r) (chunked_prefill_threshold (sc_config s))) budget)"

definition slot_of :: "sched \<Rightarrow> rid \<Rightarrow> nat res" where
  "slot_of s r = (case slot_manager_of s of None \<Rightarrow> Inr 0 | Some sm \<Rightarrow> get_slot r sm)"

section \<open>Phase 1: running requests\<close>

record batch =
  b_budget :: int
  b_scheduled :: "rid list"
  b_tokens :: "(rid, int) dict"
  b_data :: "(rid, run_data) dict"
  b_finished :: "rid list"

definition batch_init :: "int \<Rightarrow> batch" where
  "batch_init budget =
     \<lparr>b_budget = budget, b_scheduled = [], b_tokens = [], b_data = [], b_finished = []\<rparr>"

definition batch_finish :: "rid \<Rightarrow> batch \<Rightarrow> batch" where
  "batch_finish r b = b\<lparr>b_finished := List.insert r (b_finished b)\<rparr>"

definition new_run_data :: "vreq \<Rightarrow> int \<Rightarrow> bool \<Rightarrow> nat \<Rightarrow> run_data" where
  "new_run_data r n lastp slot =
     \<lparr>rd_request_id = request_id r, rd_prompt_token_ids = prompt_token_ids r,
      rd_num_computed_tokens = num_computed_tokens r, rd_num_tokens = n,
      rd_sampling_params = req_sampling_params r,
      rd_input_token_ids = get_input_tokens r n (is_decode r),
      rd_is_decode = is_decode r, rd_is_last_prefill = lastp, rd_slot_index = slot\<rparr>"

definition batch_schedule :: "vreq \<Rightarrow> int \<Rightarrow> bool \<Rightarrow> nat \<Rightarrow> batch \<Rightarrow> batch" where
  "batch_schedule r n lastp slot b =
     b\<lparr>b_data := dict_set (request_id r) (new_run_data r n lastp slot) (b_data b),
       b_scheduled := b_scheduled b @ [request_id r],
       b_tokens := dict_set (request_id r) n (b_tokens b),
       b_budget := b_budget b - n\<rparr>"

definition is_last_chunk :: "vreq \<Rightarrow> int \<Rightarrow> bool" where
  "is_last_chunk r n \<longleftrightarrow>
     \<not> is_decode r \<and> num_computed_tokens r + n \<ge> int (length (prompt_token_ids r))"

definition phase1_step :: "sched \<Rightarrow> batch \<Rightarrow> vreq \<Rightarrow> batch res" where
  "phase1_step s b r =
     (if want_tokens r \<le> 0 then Inr b
      else
        let n = chunk_size s r (b_budget b)
        in if n \<le> 0 then Inr (if is_decode r then batch_finish (request_id r) b else b)
           else if should_finish r (is_decode r)
                     (dict_get_default (running_output_tokens s) (request_id r) [])
             then Inr (batch_finish (request_id r) b)
           else if is_last_chunk r n \<and>
                   (case sc_max_model_len s of None \<Rightarrow> False
                    | Some l \<Rightarrow> int (length (prompt_token_ids r)) + 1 \<ge> l)
             then Inr (batch_finish (request_id r) b)
           else bindE (slot_of s (request_id r)) (\<lambda>slot.
                  Inr (batch_schedule r n (is_last_chunk r n) slot b)))"

definition sort_by_slot :: "sched \<Rightarrow> vreq list res" where
  "sort_by_slot s =
     bindE (mapE (\<lambda>r. slot_of s (request_id r)) (running s)) (\<lambda>slots.
       Inr (map snd (sort_key fst (zip slots (running s)))))"

definition drop_finished :: "batch \<Rightarrow> batch" where
  "drop_finished b =
     (if b_finished b \<noteq> [] then
        b\<lparr>b_scheduled := filter (\<lambda>r. r \<notin> set (b_finished b)) (b_scheduled b),
          b_data := filter (\<lambda>(k, v). k \<notin> set (b_finished b)) (b_data b),
          b_tokens := filter (\<lambda>(k, v). k \<notin> set (b_finished b)) (b_tokens b)\<rparr>
      else b)"

definition phase1 :: "sched \<Rightarrow> batch res" where
  "phase1 s =
     bindE (sort_by_slot s) (\<lambda>rs.
       bindE (foldE (phase1_step s) (batch_init (max_num_batched_tokens (sc_config s))) rs) (\<lambda>b.
         Inr (drop_finished b)))"

section \<open>Phase 2: waiting requests\<close>

definition count_partial_prefills :: "sched \<Rightarrow> int" where
  "count_partial_prefills s =
     int (length (filter (\<lambda>r. num_computed_tokens r < int (length (prompt_token_ids r)) \<and>
        int (length (prompt_token_ids r)) - num_computed_tokens r
          > chunked_prefill_threshold (sc_config s)) (running s)))"

record phase2_state =
  p2_sched :: sched
  p2_batch :: batch
  p2_step_skipped :: rqueue
  p2_partial :: int

definition remaining_of :: "vreq \<Rightarrow> int" where
  "remaining_of r =
     (if \<not> is_decode r then int (length (prompt_token_ids r)) - num_computed_tokens r else 0)"

text \<open>A decode, or a prefill whose rest fits in one chunk.\<close>

definition head_short :: "scheduler_config \<Rightarrow> vreq \<Rightarrow> bool" where
  "head_short cfg r \<longleftrightarrow>
     is_decode r \<or> (\<not> is_decode r \<and> remaining_of r \<le> chunked_prefill_threshold cfg)"

definition head_limit :: "scheduler_config \<Rightarrow> vreq \<Rightarrow> int" where
  "head_limit cfg r =
     (if 0 < chunked_prefill_threshold cfg \<and> chunked_prefill_threshold cfg < remaining_of r
      then max_long_partial_prefills cfg else max_num_partial_prefills cfg)"

definition head_admitted :: "scheduler_config \<Rightarrow> int \<Rightarrow> vreq \<Rightarrow> bool" where
  "head_admitted cfg partials r \<longleftrightarrow>
     head_short cfg r \<or> head_limit cfg r \<le> 0 \<or> partials < head_limit cfg r"

definition head_over_limit :: "scheduler_config \<Rightarrow> int \<Rightarrow> vreq \<Rightarrow> bool" where
  "head_over_limit cfg partials r \<longleftrightarrow>
     \<not> head_short cfg r \<and> head_limit cfg r > 0 \<and> partials \<ge> head_limit cfg r"

text \<open>The two queues in the order the code tries them.\<close>

datatype queue_name = SkippedQ | WaitingQ

fun queue_get :: "queue_name \<Rightarrow> sched \<Rightarrow> rqueue" where
  "queue_get SkippedQ s = skipped_waiting s"
| "queue_get WaitingQ s = waiting s"

fun queue_put :: "queue_name \<Rightarrow> rqueue \<Rightarrow> sched \<Rightarrow> sched" where
  "queue_put SkippedQ q s = s\<lparr>skipped_waiting := q\<rparr>"
| "queue_put WaitingQ q s = s\<lparr>waiting := q\<rparr>"

fun select_queue :: "sched \<Rightarrow> int \<Rightarrow> queue_name list \<Rightarrow> queue_name option res" where
  "select_queue s partials [] = Inr None"
| "select_queue s partials (n # ns) =
     (if \<not> rq_bool (queue_get n s) then select_queue s partials ns
      else bindE (rq_peek_request (queue_get n s)) (\<lambda>h.
             if head_admitted (sc_config s) partials h then Inr (Some n)
             else select_queue s partials ns))"

text \<open>No head is admitted: set the heads over their limit aside for this step.\<close>

fun set_heads_aside ::
  "int \<Rightarrow> queue_name list \<Rightarrow> sched \<Rightarrow> rqueue \<Rightarrow> (bool \<times> sched \<times> rqueue) res" where
  "set_heads_aside partials [] s skipped = Inr (False, s, skipped)"
| "set_heads_aside partials (n # ns) s skipped =
     (if \<not> rq_bool (queue_get n s) then set_heads_aside partials ns s skipped
      else bindE (rq_peek_request (queue_get n s)) (\<lambda>h.
             if head_over_limit (sc_config s) partials h then
               bindE (rq_pop_request (queue_get n s)) (\<lambda>(_, q').
                 bindE (set_heads_aside partials ns (queue_put n q' s) (rq_prepend_request h skipped))
                   (\<lambda>(_, s', skipped'). Inr (True, s', skipped')))
             else set_heads_aside partials ns s skipped))"

text \<open>The head \<open>r\<close> has been popped: schedule it or set it aside.\<close>

definition start_running :: "vreq \<Rightarrow> sched \<Rightarrow> sched res" where
  "start_running r s =
     bindE (case slot_manager_of s of
              None \<Rightarrow> Inr None
            | Some sm \<Rightarrow> bindE (allocate (request_id r) sm) (\<lambda>(_, sm'). Inr (Some sm'))) (\<lambda>slots'.
       let r' = r\<lparr>status := RUNNING\<rparr>
       in Inr (s\<lparr>slot_manager_of := slots',
                 running_output_tokens := dict_set (request_id r) [] (running_output_tokens s),
                 running := running s @ [r'],
                 running_map := dict_set (request_id r) r' (running_map s)\<rparr>))"

definition partial_limit :: "scheduler_config \<Rightarrow> vreq \<Rightarrow> int" where
  "partial_limit cfg r =
     (if 0 < chunked_prefill_threshold cfg \<and>
         chunked_prefill_threshold cfg < int (length (prompt_token_ids r)) - num_computed_tokens r
      then max_long_partial_prefills cfg else max_num_partial_prefills cfg)"

definition phase2_admit :: "vreq \<Rightarrow> phase2_state \<Rightarrow> phase2_state res" where
  "phase2_admit r p =
     (let s = p2_sched p; cfg = sc_config s;
          n = chunk_size s r (b_budget (p2_batch p));
          lastp = is_last_chunk r n;
          limit = partial_limit cfg r;
          aside = p\<lparr>p2_step_skipped := rq_prepend_request r (p2_step_skipped p)\<rparr>
      in if n \<le> 0 then Inr aside
         else if \<not> is_decode r \<and> \<not> lastp \<and> limit > 0 \<and> p2_partial p \<ge> limit then Inr aside
         else bindE (start_running r s) (\<lambda>s'.
                bindE (slot_of s' (request_id r)) (\<lambda>slot.
                  Inr (p\<lparr>p2_sched := s',
                         p2_partial := (if \<not> is_decode r \<and> \<not> lastp then p2_partial p + 1
                                        else p2_partial p),
                         p2_batch := batch_schedule (r\<lparr>status := RUNNING\<rparr>) n lastp slot
                                       (p2_batch p)\<rparr>))))"

text \<open>One round of the loop; \<open>None\<close> is the \<^verbatim>\<open>break\<close>.\<close>

definition phase2_round :: "phase2_state \<Rightarrow> phase2_state option res" where
  "phase2_round p =
     (let s = p2_sched p
      in bindE (select_queue s (p2_partial p) [SkippedQ, WaitingQ]) (\<lambda>sel.
           case sel of
             None \<Rightarrow>
               bindE (set_heads_aside (p2_partial p) [SkippedQ, WaitingQ] s (p2_step_skipped p))
                 (\<lambda>(moved, s', skipped').
                   if \<not> moved then Inr None
                   else Inr (Some (p\<lparr>p2_sched := s', p2_step_skipped := skipped'\<rparr>)))
           | Some n \<Rightarrow>
               bindE (rq_pop_request (queue_get n s)) (\<lambda>(r, q').
                 bindE (phase2_admit r (p\<lparr>p2_sched := queue_put n q' s\<rparr>)) (\<lambda>p'. Inr (Some p')))))"

definition phase2_guard :: "phase2_state \<Rightarrow> bool" where
  "phase2_guard p \<longleftrightarrow>
     (rq_bool (waiting (p2_sched p)) \<or> rq_bool (skipped_waiting (p2_sched p))) \<and>
     b_budget (p2_batch p) > 0 \<and>
     int (length (running (p2_sched p))) < max_num_seqs (sc_config (p2_sched p))"

definition queued :: "sched \<Rightarrow> nat" where
  "queued s = rq_length (waiting s) + rq_length (skipped_waiting s)"

lemma queued_put:
  "rq_pop_request (queue_get n s) = Inr (r, q') \<Longrightarrow> queued s = Suc (queued (queue_put n q' s))"
  by (cases n) (auto simp: queued_def dest: rq_pop_length)

lemma set_heads_aside_queued:
  "set_heads_aside pp ns s sk = Inr (moved, s', sk') \<Longrightarrow>
   queued s' \<le> queued s \<and> (moved \<longrightarrow> queued s' < queued s)"
proof (induction ns arbitrary: s sk moved s' sk')
  case (Cons n ns)
  show ?case
  proof (cases "rq_bool (queue_get n s)")
    case True
    with Cons.prems obtain h where h: "rq_peek_request (queue_get n s) = Inr h" by auto
    show ?thesis
    proof (cases "head_over_limit (sc_config s) pp h")
      case True
      then obtain r q' m2 where "rq_pop_request (queue_get n s) = Inr (r, q')"
        and "set_heads_aside pp ns (queue_put n q' s) (rq_prepend_request h sk) = Inr (m2, s', sk')"
        using Cons.prems h \<open>rq_bool (queue_get n s)\<close> by auto
      with Cons.IH [of "queue_put n q' s"] queued_put show ?thesis by fastforce
    next
      case False
      with Cons h \<open>rq_bool (queue_get n s)\<close> show ?thesis by auto
    qed
  qed (use Cons in auto)
qed auto

lemma start_running_queues:
  "start_running r s = Inr s' \<Longrightarrow>
     waiting s' = waiting s \<and> skipped_waiting s' = skipped_waiting s \<and> sc_config s' = sc_config s \<and>
     sc_max_model_len s' = sc_max_model_len s"
  by (auto simp: start_running_def Let_def)

lemma phase2_admit_cases:
  assumes "phase2_admit r p = Inr p'"
  obtains (aside) "p' = p\<lparr>p2_step_skipped := rq_prepend_request r (p2_step_skipped p)\<rparr>"
      "chunk_size (p2_sched p) r (b_budget (p2_batch p)) \<le> 0 \<or>
       (0 < partial_limit (sc_config (p2_sched p)) r \<and>
        partial_limit (sc_config (p2_sched p)) r \<le> p2_partial p)"
  | (run) s' slot where
      "0 < chunk_size (p2_sched p) r (b_budget (p2_batch p))"
      "start_running r (p2_sched p) = Inr s'" "slot_of s' (request_id r) = Inr slot"
      "p2_sched p' = s'" "p2_step_skipped p' = p2_step_skipped p"
      "p2_batch p' =
         (let n = chunk_size (p2_sched p) r (b_budget (p2_batch p))
          in batch_schedule (r\<lparr>status := RUNNING\<rparr>) n (is_last_chunk r n) slot (p2_batch p))"
proof -
  let ?n = "chunk_size (p2_sched p) r (b_budget (p2_batch p))"
  let ?lim = "partial_limit (sc_config (p2_sched p)) r"
  let ?aside = "p\<lparr>p2_step_skipped := rq_prepend_request r (p2_step_skipped p)\<rparr>"
  have eq: "phase2_admit r p =
     (if ?n \<le> 0 then Inr ?aside
      else if \<not> is_decode r \<and> \<not> is_last_chunk r ?n \<and> ?lim > 0 \<and> p2_partial p \<ge> ?lim
      then Inr ?aside
      else bindE (start_running r (p2_sched p)) (\<lambda>s'.
             bindE (slot_of s' (request_id r)) (\<lambda>slot.
               Inr (p\<lparr>p2_sched := s',
                      p2_partial := (if \<not> is_decode r \<and> \<not> is_last_chunk r ?n then p2_partial p + 1
                                     else p2_partial p),
                      p2_batch := batch_schedule (r\<lparr>status := RUNNING\<rparr>) ?n (is_last_chunk r ?n)
                                    slot (p2_batch p)\<rparr>))))"
    by (simp add: phase2_admit_def Let_def)
  show thesis
  proof (cases "?n \<le> 0 \<or> (\<not> is_decode r \<and> \<not> is_last_chunk r ?n \<and> ?lim > 0 \<and> p2_partial p \<ge> ?lim)")
    case True
    then have "phase2_admit r p = Inr ?aside" unfolding eq by (auto simp del: bindE.simps)
    with assms True aside show thesis by (metis Inr_inject)
  next
    case False
    with assms obtain s' slot where "0 < ?n" "start_running r (p2_sched p) = Inr s'"
      "slot_of s' (request_id r) = Inr slot"
      "p' = p\<lparr>p2_sched := s',
              p2_partial := (if \<not> is_decode r \<and> \<not> is_last_chunk r ?n then p2_partial p + 1
                             else p2_partial p),
              p2_batch := batch_schedule (r\<lparr>status := RUNNING\<rparr>) ?n (is_last_chunk r ?n) slot
                            (p2_batch p)\<rparr>"
      unfolding eq by (auto split: if_split_asm)
    then show thesis using run by (simp add: Let_def)
  qed
qed

lemma phase2_admit_queued:
  assumes "phase2_admit r p = Inr p'"
  shows "queued (p2_sched p') = queued (p2_sched p)"
  using assms
proof (cases rule: phase2_admit_cases)
  case (run s' slot)
  then show ?thesis by (simp add: queued_def start_running_queues)
qed simp

lemma phase2_round_cases:
  assumes "phase2_round p = Inr (Some p')"
  obtains (aside) s' sk' where
      "set_heads_aside (p2_partial p) [SkippedQ, WaitingQ] (p2_sched p) (p2_step_skipped p) =
         Inr (True, s', sk')"
      "p' = p\<lparr>p2_sched := s', p2_step_skipped := sk'\<rparr>"
      "select_queue (p2_sched p) (p2_partial p) [SkippedQ, WaitingQ] = Inr None"
  | (admit) n r q' where
      "select_queue (p2_sched p) (p2_partial p) [SkippedQ, WaitingQ] = Inr (Some n)"
      "rq_pop_request (queue_get n (p2_sched p)) = Inr (r, q')"
      "phase2_admit r (p\<lparr>p2_sched := queue_put n q' (p2_sched p)\<rparr>) = Inr p'"
proof -
  from assms obtain sel where
    sel: "select_queue (p2_sched p) (p2_partial p) [SkippedQ, WaitingQ] = Inr sel"
    unfolding phase2_round_def Let_def bindE_eq_Inr by blast
  show thesis
  proof (cases sel)
    case None
    with assms sel obtain m s' sk' where
      "set_heads_aside (p2_partial p) [SkippedQ, WaitingQ] (p2_sched p) (p2_step_skipped p) =
         Inr (m, s', sk')"
      and "(if \<not> m then Inr None else Inr (Some (p\<lparr>p2_sched := s', p2_step_skipped := sk'\<rparr>))) =
           (Inr (Some p') :: phase2_state option res)"
      unfolding phase2_round_def Let_def bindE_eq_Inr by auto
    then show thesis using aside sel None by (cases m) auto
  next
    case (Some n)
    with assms sel obtain r q' where
      "rq_pop_request (queue_get n (p2_sched p)) = Inr (r, q')"
      "phase2_admit r (p\<lparr>p2_sched := queue_put n q' (p2_sched p)\<rparr>) = Inr p'"
      unfolding phase2_round_def Let_def bindE_eq_Inr by auto
    with Some sel show thesis using admit by blast
  qed
qed

lemma phase2_round_break:
  assumes "phase2_round p = Inr None"
  shows "select_queue (p2_sched p) (p2_partial p) [SkippedQ, WaitingQ] = Inr None"
proof -
  from assms obtain sel where
    sel: "select_queue (p2_sched p) (p2_partial p) [SkippedQ, WaitingQ] = Inr sel"
    unfolding phase2_round_def Let_def bindE_eq_Inr by blast
  with assms show ?thesis
    unfolding phase2_round_def Let_def bindE_eq_Inr by (cases sel) auto
qed

lemma phase2_round_decreases:
  assumes "phase2_round p = Inr (Some p')"
  shows "queued (p2_sched p') < queued (p2_sched p)"
  using assms
proof (cases rule: phase2_round_cases)
  case (aside s' sk')
  then show ?thesis using set_heads_aside_queued [OF aside(1)] by simp
next
  case (admit n r q')
  then show ?thesis using queued_put [OF admit(2)] phase2_admit_queued [OF admit(3)] by simp
qed

function phase2_loop :: "phase2_state \<Rightarrow> phase2_state res" where
  "phase2_loop p =
     (if phase2_guard p then
        bindE (phase2_round p) (\<lambda>step. case step of None \<Rightarrow> Inr p | Some p' \<Rightarrow> phase2_loop p')
      else Inr p)"
  by pat_completeness auto
termination
  by (relation "measure (\<lambda>p. queued (p2_sched p))") (auto dest: phase2_round_decreases)

declare phase2_loop.simps [simp del]

section \<open>\<open>schedule\<close>\<close>

definition advance_computed :: "(rid, int) dict \<Rightarrow> rid list \<Rightarrow> sched \<Rightarrow> sched res" where
  "advance_computed toks ids s =
     foldE (\<lambda>s r. bindE (dict_item toks r) (\<lambda>n.
              Inr (if dict_has (running_map s) r
                   then set_running r (\<lambda>q. q\<lparr>num_computed_tokens := num_computed_tokens q + n\<rparr>) s
                   else s))) s ids"

definition schedule :: "sched \<Rightarrow> (sched_output \<times> sched) res" where
  "schedule s =
     bindE (phase1 s) (\<lambda>b.
     bindE (scheduling_policy_of (scheduling_policy_name (sc_config s))) (\<lambda>policy.
     bindE (phase2_loop \<lparr>p2_sched = s, p2_batch = b,
                         p2_step_skipped = create_request_queue policy,
                         p2_partial = count_partial_prefills s\<rparr>) (\<lambda>p.
       let s1 = (if rq_bool (p2_step_skipped p)
                 then (p2_sched p)\<lparr>skipped_waiting :=
                        rq_prepend_requests (p2_step_skipped p) (skipped_waiting (p2_sched p))\<rparr>
                 else p2_sched p);
           b' = p2_batch p
       in bindE (advance_computed (b_tokens b') (b_scheduled b') s1) (\<lambda>s2.
          bindE (mapE (slot_of s2) (b_scheduled b')) (\<lambda>slots.
            Inr (\<lparr>so_scheduled_req_ids = b_scheduled b', so_num_scheduled_tokens = b_tokens b',
                  so_total_num_scheduled_tokens = sum_list (map snd (b_tokens b')),
                  so_finished_req_ids = b_finished b', so_request_data = b_data b',
                  so_freed_slots = [], so_slot_indices = Some slots\<rparr>, s2))))))"

end
