(* ===== verification/Batch_Reorder.thy ===== *)
theory Batch_Reorder
  imports Scheduler
begin

text \<open>
  \<^verbatim>\<open>vkwr/scheduler/batch_reorder.py\<close>: decodes first, prefills last.

  \<^verbatim>\<open>np.argsort(regions, kind="stable")\<close> is the stable sort of the positions by region. The
  function mutates the scheduler output, so the model returns it with the index array.
\<close>

definition region_of :: "int \<Rightarrow> run_data \<Rightarrow> nat" where
  "region_of decode_threshold rd =
     (if \<not> rd_num_computed_tokens rd > 0 then 3
      else if \<not> rd_num_tokens rd \<le> decode_threshold then 2
      else if \<not> rd_num_computed_tokens rd \<ge> int (length (rd_prompt_token_ids rd)) then 1
      else 0)"

definition reorder_batch :: "int \<Rightarrow> sched_output \<Rightarrow> (nat list option \<times> sched_output) res" where
  "reorder_batch decode_threshold out =
     (let ids = so_scheduled_req_ids out; n = length ids
      in if n \<le> 1 then Inr (None, out)
         else bindE (mapE (dict_item (so_request_data out)) ids) (\<lambda>rds.
           let regions = map (region_of decode_threshold) rds;
               sorted_indices = sort_key (\<lambda>i. regions ! i) [0..<n]
           in if sorted_indices = [0..<n] then Inr (None, out)
              else Inr (Some sorted_indices,
                        out\<lparr>so_scheduled_req_ids := map (\<lambda>i. ids ! i) sorted_indices\<rparr>)))"

text \<open>The zone of a request of the batch.\<close>

definition zone :: "int \<Rightarrow> sched_output \<Rightarrow> rid \<Rightarrow> nat" where
  "zone dt out i = (case dict_get (so_request_data out) i of None \<Rightarrow> 0 | Some rd \<Rightarrow> region_of dt rd)"

lemma map_nth_upt: "map (\<lambda>i. xs ! i) [0..<length xs] = xs"
  by (simp add: map_nth)

lemma sort_key_map: "map f (sort_key (\<lambda>x. g (f x)) xs) = sort_key g (map f xs)"
proof -
  have ins: "map f (insort_key (\<lambda>x. g (f x)) x ys) = insort_key g (f x) (map f ys)" for x ys
    by (induction ys) auto
  show ?thesis by (induction xs) (auto simp: ins)
qed

lemma reorder_regions:
  assumes "mapE (dict_item (so_request_data out)) ids = Inr rds" and "i < length ids"
  shows "map (region_of dt) rds ! i = zone dt out (ids ! i)"
proof -
  have "dict_get (so_request_data out) (ids ! i) = Some (rds ! i)" "length rds = length ids"
    using mapE_nth [OF assms] mapE_length [OF assms(1)] by simp_all
  then show ?thesis using assms(2) by (simp add: zone_def)
qed

lemma sort_key_cong_on: "(\<And>x. x \<in> set xs \<Longrightarrow> f x = g x) \<Longrightarrow> sort_key f xs = sort_key g xs"
proof (induction xs)
  case (Cons x xs)
  have "insort_key f x ys = insort_key g x ys" if "set ys \<subseteq> set xs" for ys
    using that Cons.prems by (induction ys) auto
  then show ?case using Cons by simp
qed simp

lemma reorder_result:
  assumes "mapE (dict_item (so_request_data out)) (so_scheduled_req_ids out) = Inr rds"
    and "reorder_batch dt out = Inr (idx, out')"
  shows "so_scheduled_req_ids out' = sort_key (zone dt out) (so_scheduled_req_ids out)"
proof -
  let ?ids = "so_scheduled_req_ids out"
  let ?idx = "sort_key (\<lambda>i. map (region_of dt) rds ! i) [0..<length ?ids]"
  have sorted: "map (\<lambda>i. ?ids ! i) ?idx = sort_key (zone dt out) ?ids"
  proof -
    have "?idx = sort_key (\<lambda>i. zone dt out (?ids ! i)) [0..<length ?ids]"
      using reorder_regions [OF assms(1)] by (intro sort_key_cong_on) simp
    then show ?thesis using sort_key_map [of "(!) ?ids" "zone dt out"] by (simp add: map_nth)
  qed
  show ?thesis
  proof (cases "length ?ids \<le> 1")
    case True
    then have "sort_key (zone dt out) ?ids = ?ids" by (cases ?ids) auto
    with True assms(2) show ?thesis by (simp add: reorder_batch_def Let_def)
  next
    case False
    then have "(if ?idx = [0..<length ?ids] then Inr (None, out)
        else Inr (Some ?idx, out\<lparr>so_scheduled_req_ids := map (\<lambda>i. ?ids ! i) ?idx\<rparr>)) =
        (Inr (idx, out') :: (nat list option \<times> sched_output) res)"
      using assms by (simp add: reorder_batch_def Let_def)
    then show ?thesis using sorted by (auto simp: map_nth split: if_split_asm)
  qed
qed

text \<open>
  Reordering is a stable sort by zone. The reordered batch is a permutation of the
  scheduled one, its zones (decode, short extend, long extend, prefill) never decrease, requests
  of the same zone keep their order, and nothing else of the scheduler output changes.
\<close>

theorem reorder_batch_stable:
  assumes "mapE (dict_item (so_request_data out)) (so_scheduled_req_ids out) = Inr rds"
    and "reorder_batch dt out = Inr (idx, out')"
  shows "mset (so_scheduled_req_ids out') = mset (so_scheduled_req_ids out) \<and>
    sorted (map (zone dt out) (so_scheduled_req_ids out')) \<and>
    (\<forall>z. filter (\<lambda>i. zone dt out i = z) (so_scheduled_req_ids out') =
         filter (\<lambda>i. zone dt out i = z) (so_scheduled_req_ids out)) \<and>
    out'\<lparr>so_scheduled_req_ids := []\<rparr> = out\<lparr>so_scheduled_req_ids := []\<rparr>"
proof -
  have "out'\<lparr>so_scheduled_req_ids := []\<rparr> = out\<lparr>so_scheduled_req_ids := []\<rparr>"
    using assms by (auto simp: reorder_batch_def Let_def split: if_split_asm)
  then show ?thesis
    by (simp add: reorder_result [OF assms] sort_key_stable sorted_sort_key)
qed

definition demo_run_data :: "rid \<Rightarrow> int \<Rightarrow> int \<Rightarrow> nat \<Rightarrow> run_data" where
  "demo_run_data i computed n plen =
     \<lparr>rd_request_id = i, rd_prompt_token_ids = replicate plen 1, rd_num_computed_tokens = computed,
      rd_num_tokens = n, rd_sampling_params = sampling_defaults, rd_input_token_ids = None,
      rd_is_decode = False, rd_is_last_prefill = False, rd_slot_index = 0\<rparr>"

definition demo_batch :: sched_output where
  "demo_batch =
     \<lparr>so_scheduled_req_ids = [''p'', ''d'', ''x'', ''e''],
      so_num_scheduled_tokens = [(''p'', 3), (''d'', 1), (''x'', 2), (''e'', 1)],
      so_total_num_scheduled_tokens = 7, so_finished_req_ids = [],
      so_request_data = [(''p'', demo_run_data ''p'' 0 3 3), (''d'', demo_run_data ''d'' 4 1 4),
        (''x'', demo_run_data ''x'' 2 2 8), (''e'', demo_run_data ''e'' 9 1 4)],
      so_freed_slots = [], so_slot_indices = None\<rparr>"

theorem reorder_batch_stable_witness:
  "\<exists>idx out'. reorder_batch 1 demo_batch = Inr (idx, out') \<and>
     so_scheduled_req_ids out' = [''d'', ''e'', ''x'', ''p''] \<and>
     sorted (map (zone 1 demo_batch) (so_scheduled_req_ids out'))"
proof -
  have "\<not> isl (mapE (dict_item (so_request_data demo_batch)) (so_scheduled_req_ids demo_batch))"
    by code_simp
  then obtain rds where m: "mapE (dict_item (so_request_data demo_batch)) (so_scheduled_req_ids demo_batch) = Inr rds"
    by (cases "mapE (dict_item (so_request_data demo_batch)) (so_scheduled_req_ids demo_batch)") auto
  have v: "map_sum id (\<lambda>(_, o1). so_scheduled_req_ids o1) (reorder_batch 1 demo_batch) =
      Inr [''d'', ''e'', ''x'', ''p'']" by code_simp
  then obtain idx out' where r: "reorder_batch 1 demo_batch = Inr (idx, out')"
    by (cases "reorder_batch 1 demo_batch") auto
  from reorder_batch_stable [OF m r] v r show ?thesis by auto
qed

end
