(* ===== verification/Scheduler_Inv.thy ===== *)
theory Scheduler_Inv
  imports Scheduler
begin

text \<open>
  The invariant of the scheduler and what \<open>schedule\<close> guarantees: no request is lost or
  duplicated, the token and sequence budgets hold, every chunk is the right slice of its
  prompt, and the slots handed to the runner are the requests' own.
\<close>

section \<open>The invariant\<close>

text \<open>
  \<open>X\<close> are requests the current call holds outside the queues (popped or set aside).
\<close>

definition pending :: "vreq multiset \<Rightarrow> sched \<Rightarrow> vreq multiset" where
  "pending X s = X + rq_elems (waiting s) + rq_elems (skipped_waiting s)"

definition all_ids :: "vreq multiset \<Rightarrow> sched \<Rightarrow> rid multiset" where
  "all_ids X s = image_mset request_id (pending X s + mset (running s))"

abbreviation req_ids :: "sched \<Rightarrow> rid multiset" where
  "req_ids \<equiv> all_ids {#}"

definition slots_inv :: "vreq multiset \<Rightarrow> sched \<Rightarrow> bool" where
  "slots_inv X s \<longleftrightarrow>
     (case slot_manager_of s of None \<Rightarrow> True
      | Some sm \<Rightarrow> slot_wf sm \<and> slot_compact sm \<and> pad_slots sm = [] \<and>
          (\<forall>r \<in> set (running s). dict_get (req_to_slot sm) (request_id r) \<noteq> None) \<and>
          (\<forall>r \<in># pending X s. dict_get (req_to_slot sm) (request_id r) = None))"

definition sched_inv :: "vreq multiset \<Rightarrow> sched \<Rightarrow> bool" where
  "sched_inv X s \<longleftrightarrow>
     rq_wf (waiting s) \<and> rq_wf (skipped_waiting s) \<and>
     running_map s = map (\<lambda>r. (request_id r, r)) (running s) \<and>
     dict_keys (running_output_tokens s) = map request_id (running s) \<and>
     (\<forall>i. count (all_ids X s) i \<le> 1) \<and>
     (\<forall>r \<in># pending X s + mset (running s). 0 \<le> num_computed_tokens r) \<and>
     slots_inv X s"

abbreviation sched_wf :: "sched \<Rightarrow> bool" where
  "sched_wf \<equiv> sched_inv {#}"

lemma sched_invD:
  assumes "sched_inv X s"
  shows "rq_wf (waiting s)" "rq_wf (skipped_waiting s)"
    "running_map s = map (\<lambda>r. (request_id r, r)) (running s)"
    "dict_keys (running_output_tokens s) = map request_id (running s)"
    "count (all_ids X s) i \<le> 1"
    "r \<in># pending X s \<Longrightarrow> 0 \<le> num_computed_tokens r"
    "r \<in> set (running s) \<Longrightarrow> 0 \<le> num_computed_tokens r"
    "slots_inv X s"
  using assms by (auto simp: sched_inv_def)

lemma count_le1_distinct: "(\<And>i. count (mset xs) i \<le> 1) \<Longrightarrow> distinct xs"
proof (induction xs)
  case (Cons x xs)
  have "count (mset xs) i \<le> 1" for i
    by (rule order_trans [OF _ Cons.prems [of i]]) simp
  moreover have "x \<notin> set xs"
    using Cons.prems [of x] by (simp flip: set_mset_mset add: count_eq_zero_iff)
  ultimately show ?case using Cons.IH by simp
qed simp

lemma running_ids_distinct:
  assumes "sched_inv X s"
  shows "distinct (map request_id (running s))"
proof -
  have "count (mset (map request_id (running s))) i \<le> 1" for i
    using sched_invD(5) [OF assms, of i] by (simp add: all_ids_def)
  then show ?thesis by (rule count_le1_distinct)
qed

lemma pending_not_running:
  assumes "sched_inv X s" and "r \<in># pending X s" and "q \<in> set (running s)"
  shows "request_id q \<noteq> request_id r"
proof
  assume eq: "request_id q = request_id r"
  have "0 < count (image_mset request_id (pending X s)) (request_id r)"
    using assms(2) by (auto simp: count_greater_zero_iff)
  moreover have "0 < count (image_mset request_id (mset (running s))) (request_id r)"
    using imageI [OF assms(3), of request_id] eq by simp
  moreover have "count (image_mset request_id (pending X s)) (request_id r) +
      count (image_mset request_id (mset (running s))) (request_id r) \<le> 1"
    using sched_invD(5) [OF assms(1), of "request_id r"] by (simp only: all_ids_def image_mset_union count_union)
  ultimately show False by linarith
qed

text \<open>The invariant depends on the queues only through the requests pending.\<close>

lemma sched_inv_requeue:
  assumes "sched_inv X s" and "pending X' s' = pending X s"
    and "rq_wf (waiting s')" and "rq_wf (skipped_waiting s')"
    and "running s' = running s" "running_map s' = running_map s"
    "running_output_tokens s' = running_output_tokens s" "slot_manager_of s' = slot_manager_of s"
  shows "sched_inv X' s'" and "all_ids X' s' = all_ids X s"
  proof -
  have "slots_inv X' s' = slots_inv X s"
    using assms(2-) by (cases "slot_manager_of s") (simp_all add: slots_inv_def)
  then show "sched_inv X' s'" using assms by (simp add: sched_inv_def all_ids_def)
  show "all_ids X' s' = all_ids X s" using assms by (simp add: all_ids_def)
qed

lemma queue_wf: "sched_inv X s \<Longrightarrow> rq_wf (queue_get n s)"
  by (cases n) (auto dest: sched_invD)

lemma pop_inv [inv_intros]:
  assumes "sched_inv X s" and "rq_pop_request (queue_get n s) = Inr (r, q')"
  shows "sched_inv (add_mset r X) (queue_put n q' s)"
    and "all_ids (add_mset r X) (queue_put n q' s) = all_ids X s"
proof -
  have "pending (add_mset r X) (queue_put n q' s) = pending X s"
    using rq.elems_pop [OF assms(2)] by (cases n) (auto simp: pending_def)
  moreover have "rq_wf (waiting (queue_put n q' s))" "rq_wf (skipped_waiting (queue_put n q' s))"
    using rq.wf_pop [OF queue_wf [OF assms(1)] assms(2)] assms(1)
    by (cases n; auto dest: sched_invD)+
  ultimately show "sched_inv (add_mset r X) (queue_put n q' s)"
    "all_ids (add_mset r X) (queue_put n q' s) = all_ids X s"
    using assms(1) by (cases n; auto intro: sched_inv_requeue)+
qed

section \<open>The batch\<close>

definition run_data_ok :: "sched \<Rightarrow> run_data \<Rightarrow> bool" where
  "run_data_ok s rd \<longleftrightarrow>
     (let c = rd_num_computed_tokens rd; n = rd_num_tokens rd; p = rd_prompt_token_ids rd
      in 0 < n \<and> n \<le> chunked_prefill_threshold (sc_config s) \<and>
         (rd_is_decode rd \<longleftrightarrow> int (length p) \<le> c) \<and>
         (\<forall>l. sc_max_model_len s = Some l \<longrightarrow> c + n \<le> l - 1) \<and>
         (if rd_is_decode rd
          then n = 1 \<and> rd_input_token_ids rd = None \<and> \<not> rd_is_last_prefill rd
          else c + n \<le> int (length p) \<and>
               rd_input_token_ids rd = Some (take (nat n) (drop (nat c) p)) \<and>
               int (length (take (nat n) (drop (nat c) p))) = n \<and>
               (rd_is_last_prefill rd \<longleftrightarrow> c + n = int (length p))))"

definition rd_of_running :: "sched \<Rightarrow> run_data \<Rightarrow> bool" where
  "rd_of_running s rd \<longleftrightarrow>
     (\<exists>r \<in> set (running s). request_id r = rd_request_id rd \<and>
        prompt_token_ids r = rd_prompt_token_ids rd \<and>
        num_computed_tokens r = rd_num_computed_tokens rd \<and>
        req_sampling_params r = rd_sampling_params rd) \<and>
     slot_of s (rd_request_id rd) = Inr (rd_slot_index rd)"

lemma rd_running_id: "rd_of_running s rd \<Longrightarrow> rd_request_id rd \<in> request_id ` set (running s)"
  unfolding rd_of_running_def by (metis imageI)

definition batch_inv :: "sched \<Rightarrow> batch \<Rightarrow> bool" where
  "batch_inv s b \<longleftrightarrow>
     distinct (b_scheduled b) \<and> dict_keys (b_tokens b) = b_scheduled b \<and>
     dict_keys (b_data b) = b_scheduled b \<and>
     0 \<le> b_budget b \<and>
     sum_list (map snd (b_tokens b)) + b_budget b \<le> max_num_batched_tokens (sc_config s) \<and>
     (\<forall>(i, rd) \<in> set (b_data b). rd_request_id rd = i \<and>
        dict_get (b_tokens b) i = Some (rd_num_tokens rd) \<and>
        run_data_ok s rd \<and> rd_of_running s rd) \<and>
     distinct (b_finished b) \<and> set (b_finished b) \<subseteq> request_id ` set (running s)"

lemma batch_scheduled_running:
  assumes "batch_inv s b"
  shows "set (b_scheduled b) \<subseteq> request_id ` set (running s)"
proof
  fix i assume i: "i \<in> set (b_scheduled b)"
  have "dict_keys (b_data b) = b_scheduled b" using assms by (simp add: batch_inv_def)
  with i have "i \<in> set (dict_keys (b_data b))" by simp
  then obtain rd where "(i, rd) \<in> set (b_data b)" by auto
  then have "rd_request_id rd = i \<and> rd_of_running s rd" using assms by (auto simp: batch_inv_def)
  then show "i \<in> request_id ` set (running s)" using rd_running_id by blast
qed

lemma chunk_bounds:
  "chunk_size s r bud \<le> want_tokens r"
  "chunk_size s r bud \<le> chunked_prefill_threshold (sc_config s)"
  "chunk_size s r bud \<le> bud"
  "sc_max_model_len s = Some l \<Longrightarrow> num_computed_tokens r + chunk_size s r bud \<le> l - 1"
  by (auto simp: chunk_size_def clip_len_def split: option.splits)

lemma run_data_ok_new:
  assumes "0 < n" and "n = chunk_size s r bud" and "0 \<le> num_computed_tokens r"
  shows "run_data_ok s (new_run_data r n (is_last_chunk r n) slot)"
proof (cases "is_decode r")
  case True
  then have "n = 1" using assms chunk_bounds(1) [of s r bud] by (simp add: want_tokens_def)
  with True show ?thesis
    using assms chunk_bounds(2-) [where s = s and r = r and bud = bud]
    by (auto simp: run_data_ok_def new_run_data_def is_decode_def get_input_tokens_def is_last_chunk_def)
next
  case False
  then show ?thesis
    using assms chunk_bounds [where s = s and r = r and bud = bud]
    by (auto simp: run_data_ok_def new_run_data_def is_decode_def get_input_tokens_def
        is_last_chunk_def want_tokens_def Let_def)
qed

lemma batch_schedule_inv:
  assumes b: "batch_inv s b" and fresh: "request_id r \<notin> set (b_scheduled b)"
    and n: "0 < n" "n = chunk_size s r (b_budget b)" and c: "0 \<le> num_computed_tokens r"
    and rd: "rd_of_running s (new_run_data r n (is_last_chunk r n) slot)"
  shows "batch_inv s (batch_schedule r n (is_last_chunk r n) slot b)"
proof -
  let ?i = "request_id r"
  have keys: "dict_get (b_tokens b) ?i = None" "dict_get (b_data b) ?i = None"
    using b fresh by (simp_all add: batch_inv_def dict_get_None_keys)
  have tok: "b_tokens (batch_schedule r n (is_last_chunk r n) slot b) = b_tokens b @ [(?i, n)]"
    and dat: "b_data (batch_schedule r n (is_last_chunk r n) slot b) =
                b_data b @ [(?i, new_run_data r n (is_last_chunk r n) slot)]"
    by (simp_all add: batch_schedule_def dict_set_new keys)
  have "n \<le> b_budget b" using n(2) chunk_bounds(3) by simp
  moreover have "run_data_ok s (new_run_data r n (is_last_chunk r n) slot)"
    using run_data_ok_new [OF n c] .
  moreover have "dict_get (b_tokens b @ [(?i, n)]) i = Some m" if "dict_get (b_tokens b) i = Some m" for i m
    using that by simp
  moreover have "rd_request_id (new_run_data r n (is_last_chunk r n) slot) = ?i"
    "rd_num_tokens (new_run_data r n (is_last_chunk r n) slot) = n"
    by (simp_all add: new_run_data_def)
  moreover have "dict_get (b_tokens b @ [(?i, n)]) ?i = Some n"
    using keys(1) by (simp add: map_add_def)
  ultimately show ?thesis
    using b fresh rd unfolding batch_inv_def tok dat
    by (auto simp: batch_schedule_def)
qed

section \<open>Phase 1\<close>

lemma batch_finish_inv:
  "batch_inv s b \<Longrightarrow> i \<in> request_id ` set (running s) \<Longrightarrow> batch_inv s (batch_finish i b)"
  by (auto simp: batch_inv_def batch_finish_def)

lemma phase1_step_cases:
  assumes "phase1_step s b r = Inr b'"
  obtains (skip) "b' = b" | (finish) "b' = batch_finish (request_id r) b"
  | (scheduled) slot where "0 < chunk_size s r (b_budget b)" "slot_of s (request_id r) = Inr slot"
      "b' = batch_schedule r (chunk_size s r (b_budget b))
              (is_last_chunk r (chunk_size s r (b_budget b))) slot b"
proof -
  define done1 where "done1 \<longleftrightarrow>
    should_finish r (is_decode r) (dict_get_default (running_output_tokens s) (request_id r) [])"
  define done2 where "done2 \<longleftrightarrow> is_last_chunk r (chunk_size s r (b_budget b)) \<and>
    (case sc_max_model_len s of None \<Rightarrow> False
     | Some l \<Rightarrow> int (length (prompt_token_ids r)) + 1 \<ge> l)"
  have eq: "phase1_step s b r =
     (if want_tokens r \<le> 0 then Inr b
      else if chunk_size s r (b_budget b) \<le> 0
        then Inr (if is_decode r then batch_finish (request_id r) b else b)
      else if done1 then Inr (batch_finish (request_id r) b)
      else if done2 then Inr (batch_finish (request_id r) b)
      else bindE (slot_of s (request_id r)) (\<lambda>slot.
             Inr (batch_schedule r (chunk_size s r (b_budget b))
                    (is_last_chunk r (chunk_size s r (b_budget b))) slot b)))"
    by (simp add: phase1_step_def Let_def done1_def done2_def)
  have "b' = b \<or> b' = batch_finish (request_id r) b \<or>
     (\<exists>slot. 0 < chunk_size s r (b_budget b) \<and> slot_of s (request_id r) = Inr slot \<and>
        b' = batch_schedule r (chunk_size s r (b_budget b))
               (is_last_chunk r (chunk_size s r (b_budget b))) slot b)"
    using assms unfolding eq by (auto split: if_split_asm)
  then show thesis using skip finish scheduled by blast
qed

lemma phase1_step_inv:
  assumes inv: "sched_inv X s" and b: "batch_inv s b" and r: "r \<in> set (running s)"
    and fresh: "request_id r \<notin> set (b_scheduled b)" and step: "phase1_step s b r = Inr b'"
  shows "batch_inv s b' \<and> set (b_scheduled b') \<subseteq> insert (request_id r) (set (b_scheduled b))"
proof -
  let ?n = "chunk_size s r (b_budget b)"
  have c: "0 \<le> num_computed_tokens r" using sched_invD(7) [OF inv r] .
  have fin: "batch_inv s (batch_finish (request_id r) b)" using b r by (intro batch_finish_inv) auto
  from step show ?thesis
  proof (cases rule: phase1_step_cases)
    case (scheduled slot)
    note 3 = scheduled
    have "rd_of_running s (new_run_data r ?n (is_last_chunk r ?n) slot)"
      using r 3(2) by (auto simp: rd_of_running_def new_run_data_def)
    from batch_schedule_inv [OF b fresh 3(1) refl c this] 3(3)
    show ?thesis by (simp add: batch_schedule_def)
  qed (use b fin in \<open>auto simp: batch_finish_def\<close>)
qed

lemma sort_by_slot_perm:
  assumes "sort_by_slot s = Inr rs"
  shows "mset rs = mset (running s)"
proof -
  from assms obtain xs where m: "mapE (\<lambda>r. slot_of s (request_id r)) (running s) = Inr xs"
    and rs: "rs = map snd (sort_key fst (zip xs (running s)))"
    by (auto simp: sort_by_slot_def)
  have xs: "length xs = length (running s)" using m by (rule mapE_length)
  have "mset rs = image_mset snd (mset (zip xs (running s)))" by (simp add: rs)
  also have "\<dots> = mset (map snd (zip xs (running s)))" by (simp only: mset_map)
  finally show ?thesis using xs by simp
qed

lemma dict_filter_get: "P k \<Longrightarrow> dict_get (filter (\<lambda>(k, v). P k) d) k = dict_get d k"
  by (induction d) auto

lemma dict_filter_keys: "dict_keys (filter (\<lambda>(k, v). P k) d) = filter P (dict_keys d)"
  by (induction d) auto

lemma sum_filter_le:
  "(\<And>k v. (k, v) \<in> set d \<Longrightarrow> 0 \<le> v) \<Longrightarrow> sum_list (map snd (filter Q d)) \<le> sum_list (map snd (d :: (rid, int) dict))"
proof (induction d)
  case (Cons p d)
  have "sum_list (map snd (filter Q d)) \<le> sum_list (map snd d)"
    using Cons.prems by (intro Cons.IH) auto
  moreover have "0 \<le> snd p" using Cons.prems [of "fst p" "snd p"] by simp
  ultimately show ?case by simp
qed simp

lemma batch_token_bounds:
  assumes "batch_inv s b" and "(i, n) \<in> set (b_tokens b)"
  shows "1 \<le> n \<and> n \<le> chunked_prefill_threshold (sc_config s)"
proof -
  have "dict_get (b_tokens b) i = Some n"
    using assms by (intro dict_in_get) (auto simp: batch_inv_def)
  moreover have "dict_keys (b_data b) = dict_keys (b_tokens b)"
    using assms(1) by (simp add: batch_inv_def)
  then have "i \<in> set (dict_keys (b_data b))"
    using imageI [OF assms(2), of fst] by (metis fst_conv list.set_map)
  then obtain rd where rd: "(i, rd) \<in> set (b_data b)" by auto
  moreover have "dict_get (b_tokens b) i = Some (rd_num_tokens rd) \<and> run_data_ok s rd"
    using rd assms(1) by (auto simp: batch_inv_def)
  ultimately show ?thesis by (simp add: run_data_ok_def Let_def)
qed

lemma drop_finished_inv:
  assumes "batch_inv s b"
  shows "batch_inv s (drop_finished b) \<and>
    set (b_finished (drop_finished b)) \<inter> set (b_scheduled (drop_finished b)) = {} \<and>
    set (b_scheduled (drop_finished b)) \<subseteq> set (b_scheduled b)"
proof -
  have "sum_list (map snd (filter (\<lambda>(k, v). k \<notin> set (b_finished b)) (b_tokens b)))
          \<le> sum_list (map snd (b_tokens b))"
    using batch_token_bounds [OF assms] by (intro sum_filter_le) fastforce
  then show ?thesis
    using assms by (auto simp: batch_inv_def drop_finished_def dict_filter_get dict_filter_keys)
qed

lemma phase1_inv:
  assumes inv: "sched_inv X s" and pos: "0 \<le> max_num_batched_tokens (sc_config s)"
    and run: "phase1 s = Inr b"
  shows "batch_inv s b" and "set (b_finished b) \<inter> set (b_scheduled b) = {}"
proof -
  from run obtain rs b1 where rs: "sort_by_slot s = Inr rs"
    and fold: "foldE (phase1_step s) (batch_init (max_num_batched_tokens (sc_config s))) rs = Inr b1"
    and b: "b = drop_finished b1" by (auto simp: phase1_def)
  have perm: "mset rs = mset (running s)" using rs by (rule sort_by_slot_perm)
  then have set: "set rs = set (running s)" by (rule mset_eq_setD)
  have "mset (map request_id rs) = mset (map request_id (running s))" using perm by simp
  then have dist: "distinct (map request_id rs)"
    using running_ids_distinct [OF inv] using mset_eq_imp_distinct_iff by blast
  have "batch_inv s b1 \<and> set (b_scheduled b1) \<subseteq> request_id ` set rs"
  proof (rule foldE_prefix [OF fold, where P = "\<lambda>ys b. batch_inv s b \<and> set (b_scheduled b) \<subseteq> request_id ` set ys"])
    show "batch_inv s (batch_init (max_num_batched_tokens (sc_config s))) \<and>
        set (b_scheduled (batch_init (max_num_batched_tokens (sc_config s)))) \<subseteq> request_id ` set []"
      using pos by (simp add: batch_inv_def batch_init_def)
  next
    fix ys r zs c c'
    assume split: "rs = ys @ r # zs"
      and c: "batch_inv s c \<and> set (b_scheduled c) \<subseteq> request_id ` set ys"
      and step: "phase1_step s c r = Inr c'"
    have "request_id r \<notin> set (b_scheduled c)" using dist split c by auto
    moreover have "r \<in> set (running s)" using split set by auto
    ultimately show "batch_inv s c' \<and> set (b_scheduled c') \<subseteq> request_id ` set (ys @ [r])"
      using phase1_step_inv [OF inv _ _ _ step] c by auto
  qed
  then show "batch_inv s b" "set (b_finished b) \<inter> set (b_scheduled b) = {}"
    using drop_finished_inv b by auto
qed

section \<open>Phase 2\<close>

lemma start_running_frame:
  assumes "start_running r s = Inr s'"
  shows "running s' = running s @ [r\<lparr>status := RUNNING\<rparr>]"
    and "running_map s' = dict_set (request_id r) (r\<lparr>status := RUNNING\<rparr>) (running_map s)"
    and "running_output_tokens s' = dict_set (request_id r) [] (running_output_tokens s)"
    and "pending X s' = pending X s" and "sc_config s' = sc_config s"
    and "sc_max_model_len s' = sc_max_model_len s"
  using assms by (auto simp: start_running_def Let_def pending_def)

lemma start_running_slots:
  assumes inv: "sched_inv (add_mset r X) s" and run: "start_running r s = Inr s'"
  shows "slots_inv X s'" and "slot_of s i = Inr t \<Longrightarrow> i \<noteq> request_id r \<Longrightarrow> slot_of s' i = Inr t"
proof -
  have pend: "pending (add_mset r X) s = add_mset r (pending X s)" by (simp add: pending_def)
  have "slots_inv X s' \<and> (slot_of s i = Inr t \<longrightarrow> i \<noteq> request_id r \<longrightarrow> slot_of s' i = Inr t)"
  proof (cases "slot_manager_of s")
    case None
    with run have "slot_manager_of s' = None" by (auto simp: start_running_def Let_def)
    with None show ?thesis by (simp add: slots_inv_def slot_of_def)
  next
    case (Some sm)
    with run obtain t' sm' where al: "allocate (request_id r) sm = Inr (t', sm')"
      and sm': "slot_manager_of s' = Some sm'" by (auto simp: start_running_def Let_def)
    have sl: "slot_wf sm" "slot_compact sm" "pad_slots sm = []"
      "dict_get (req_to_slot sm) (request_id r) = None"
      using sched_invD(8) [OF inv] Some pend by (simp_all add: slots_inv_def)
    have "slot_wf sm'" "slot_compact sm'" "pad_slots sm' = []"
      using allocate_wf [OF sl(1,4) al] allocate_compact(2) [OF sl(1-3) al] allocate_result(4) [OF al] sl(3)
      by simp_all
    moreover have "request_id q \<noteq> request_id r" if "q \<in># pending X s" for q
    proof
      assume "request_id q = request_id r"
      then have "1 < count (image_mset request_id (add_mset r (pending X s))) (request_id r)"
        using imageI [OF that, of request_id] by simp
      then show False
        using sched_invD(5) [OF inv, of "request_id r"] pend
        by (simp add: all_ids_def count_eq_zero_iff)
    qed
    ultimately have "slots_inv X s'"
      using sched_invD(8) [OF inv] Some sm' pend start_running_frame(1,4) [OF run]
      by (auto simp: slots_inv_def allocate_result(5) [OF al])
    then show ?thesis using Some sm' allocate_result(2) [OF al] by (auto simp: slot_of_def)
  qed
  then show "slots_inv X s'" "slot_of s i = Inr t \<Longrightarrow> i \<noteq> request_id r \<Longrightarrow> slot_of s' i = Inr t"
    by simp_all
qed

lemma start_running_inv:
  assumes inv: "sched_inv (add_mset r X) s" and run: "start_running r s = Inr s'"
  shows "sched_inv X s'" and "all_ids X s' = all_ids (add_mset r X) s"
proof -
  note fr = start_running_frame [OF run]
  have pend: "pending (add_mset r X) s = add_mset r (pending X s)" by (simp add: pending_def)
  have new: "request_id r \<notin> request_id ` set (running s)"
    using pending_not_running [OF inv] pend by fastforce
  then have keys: "dict_get (running_map s) (request_id r) = None"
    "dict_get (running_output_tokens s) (request_id r) = None"
    using sched_invD(3,4) [OF inv] by (auto simp: dict_get_None_keys simp del: map_map)
  show ids: "all_ids X s' = all_ids (add_mset r X) s"
    by (simp add: all_ids_def fr(1) fr(4) [of X] pend)
  have "rq_wf (waiting s')" "rq_wf (skipped_waiting s')"
    using start_running_queues [OF run] sched_invD(1,2) [OF inv] by simp_all
  then show "sched_inv X s'"
    using inv start_running_slots(1) [OF inv run] keys ids
    by (auto simp: sched_inv_def fr(1-3) fr(4) [of X] pend dict_set_new)
qed

text \<open>The status of a request plays no part in the size of its chunk.\<close>

lemma status_irrelevant [simp]:
  "is_decode (r\<lparr>status := x\<rparr>) = is_decode r" "want_tokens (r\<lparr>status := x\<rparr>) = want_tokens r"
  "is_last_chunk (r\<lparr>status := x\<rparr>) n = is_last_chunk r n"
  "clip_len l (r\<lparr>status := x\<rparr>) m = clip_len l r m"
  by (simp_all add: is_decode_def want_tokens_def is_last_chunk_def clip_len_def split: option.split)

lemma chunk_size_cong:
  "sc_config s' = sc_config s \<Longrightarrow> sc_max_model_len s' = sc_max_model_len s \<Longrightarrow>
   chunk_size s' (r\<lparr>status := x\<rparr>) bud = chunk_size s r bud"
  by (simp add: chunk_size_def)

definition phase2_inv :: "phase2_state \<Rightarrow> bool" where
  "phase2_inv p \<longleftrightarrow>
     sched_inv (rq_elems (p2_step_skipped p)) (p2_sched p) \<and> rq_wf (p2_step_skipped p) \<and>
     batch_inv (p2_sched p) (p2_batch p) \<and>
     set (b_finished (p2_batch p)) \<inter> set (b_scheduled (p2_batch p)) = {}"

definition phase2_ids :: "phase2_state \<Rightarrow> rid multiset" where
  "phase2_ids p = all_ids (rq_elems (p2_step_skipped p)) (p2_sched p)"

text \<open>What the loop never touches.\<close>

definition same_config :: "sched \<Rightarrow> sched \<Rightarrow> bool" where
  "same_config s s' \<longleftrightarrow> sc_config s' = sc_config s \<and> sc_max_model_len s' = sc_max_model_len s"

lemma same_config_trans: "same_config a b \<Longrightarrow> same_config b c \<Longrightarrow> same_config a c"
  by (simp add: same_config_def)

lemma same_config_put [simp]: "same_config s (queue_put n q s)"
  by (cases n) (simp_all add: same_config_def)

lemma run_data_ok_config: "same_config s s' \<Longrightarrow> run_data_ok s' rd = run_data_ok s rd"
  by (simp add: same_config_def run_data_ok_def)

lemma batch_inv_mono:
  assumes b: "batch_inv s b" and cfg: "same_config s s'"
    and sub: "set (running s) \<subseteq> set (running s')"
    and slots: "\<And>i t. i \<in> request_id ` set (running s) \<Longrightarrow> slot_of s i = Inr t \<Longrightarrow> slot_of s' i = Inr t"
  shows "batch_inv s' b"
proof -
  have "rd_of_running s' rd" if "rd_of_running s rd" for rd
  proof -
    from that obtain r where r: "r \<in> set (running s)" "request_id r = rd_request_id rd"
      "prompt_token_ids r = rd_prompt_token_ids rd"
      "num_computed_tokens r = rd_num_computed_tokens rd"
      "req_sampling_params r = rd_sampling_params rd"
      "slot_of s (rd_request_id rd) = Inr (rd_slot_index rd)"
      unfolding rd_of_running_def by blast
    then have "rd_request_id rd \<in> request_id ` set (running s)" by (metis imageI)
    from slots [OF this r(6)] r sub show ?thesis unfolding rd_of_running_def by blast
  qed
  moreover have "set (b_finished b) \<subseteq> request_id ` set (running s')"
    using b image_mono [OF sub, of request_id] unfolding batch_inv_def by blast
  ultimately show ?thesis
    using b cfg run_data_ok_config [OF cfg] unfolding batch_inv_def
    by (auto simp: same_config_def)
qed

lemma slot_of_put [simp]: "slot_of (queue_put n q s) i = slot_of s i"
  by (cases n) (simp_all add: slot_of_def)

lemma running_put [simp]: "running (queue_put n q s) = running s"
  by (cases n) simp_all

lemma batch_inv_put: "batch_inv s b \<Longrightarrow> batch_inv (queue_put n q s) b"
  by (rule batch_inv_mono) auto

lemma phase2_admit_inv:
  assumes inv: "sched_inv (add_mset r (rq_elems (p2_step_skipped p))) (p2_sched p)"
    and wf: "rq_wf (p2_step_skipped p)" and b: "batch_inv (p2_sched p) (p2_batch p)"
    and dj: "set (b_finished (p2_batch p)) \<inter> set (b_scheduled (p2_batch p)) = {}"
    and run: "phase2_admit r p = Inr p'"
  shows "phase2_inv p'"
    and "phase2_ids p' = all_ids (add_mset r (rq_elems (p2_step_skipped p))) (p2_sched p)"
    and "same_config (p2_sched p) (p2_sched p')"
proof -
  let ?s = "p2_sched p"
  have "phase2_inv p' \<and>
     phase2_ids p' = all_ids (add_mset r (rq_elems (p2_step_skipped p))) ?s \<and>
     same_config ?s (p2_sched p')"
    using run
  proof (cases rule: phase2_admit_cases)
    case aside
    then show ?thesis
      using inv b dj by (simp add: phase2_inv_def phase2_ids_def same_config_def rq.elems_prepend rq.wf_prepend [OF wf])
  next
    case (run s' slot)
    let ?r = "r\<lparr>status := RUNNING\<rparr>"
    let ?n = "chunk_size ?s r (b_budget (p2_batch p))"
    note fr = start_running_frame [OF run(2)]
    have pend: "r \<in># pending (add_mset r (rq_elems (p2_step_skipped p))) ?s"
      by (simp add: pending_def)
    have new: "request_id r \<notin> request_id ` set (running ?s)"
      using pending_not_running [OF inv pend] by fastforce
    have cfg: "same_config ?s s'" by (simp add: same_config_def fr)
    have b': "batch_inv s' (p2_batch p)"
    proof (rule batch_inv_mono [OF b cfg])
      fix i t assume "i \<in> request_id ` set (running ?s)" and it: "slot_of ?s i = Inr t"
      then have "i \<noteq> request_id r" using new by blast
      then show "slot_of s' i = Inr t" using start_running_slots(2) [OF inv run(2) it] by simp
    qed (simp add: fr subset_insertI)
    have n: "?n = chunk_size s' ?r (b_budget (p2_batch p))"
      by (simp add: chunk_size_cong [of s' ?s] fr)
    have lst: "is_last_chunk r k = is_last_chunk ?r k" for k
      by simp
    have "rd_of_running s' (new_run_data ?r ?n (is_last_chunk ?r ?n) slot)"
      using run(3) by (auto simp: rd_of_running_def new_run_data_def fr)
    moreover have "request_id ?r \<notin> set (b_scheduled (p2_batch p))" using new batch_scheduled_running [OF b] by auto
    moreover have "0 \<le> num_computed_tokens ?r"
      using sched_invD(6) [OF inv pend] by simp
    ultimately have "batch_inv s' (p2_batch p')"
      using batch_schedule_inv [OF b', of ?r ?n slot] run(1) n
      unfolding run(6) Let_def lst by blast
    moreover have "request_id r \<notin> set (b_finished (p2_batch p))"
      using b new by (auto simp: batch_inv_def)
    moreover have "b_finished (p2_batch p') = b_finished (p2_batch p)"
      "b_scheduled (p2_batch p') = b_scheduled (p2_batch p) @ [request_id r]"
      by (simp_all add: run(6) Let_def batch_schedule_def)
    moreover note start_running_inv [OF inv run(2)]
    ultimately show ?thesis
      using wf dj cfg by (simp add: phase2_inv_def phase2_ids_def run(4,5))
  qed
  then show "phase2_inv p'"
    "phase2_ids p' = all_ids (add_mset r (rq_elems (p2_step_skipped p))) (p2_sched p)"
    "same_config (p2_sched p) (p2_sched p')" by simp_all
qed

lemma set_heads_aside_inv:
  assumes "set_heads_aside pp ns s sk = Inr (moved, s', sk')"
    and "sched_inv (rq_elems sk) s" and "rq_wf sk" and "batch_inv s b"
  shows "sched_inv (rq_elems sk') s' \<and> rq_wf sk' \<and> batch_inv s' b \<and> same_config s s' \<and>
    all_ids (rq_elems sk') s' = all_ids (rq_elems sk) s \<and> running s' = running s"
  using assms
proof (induction ns arbitrary: s sk moved s' sk')
  case (Cons n ns)
  show ?case
  proof (cases "rq_bool (queue_get n s)")
    case True
    with Cons.prems obtain h where h: "rq_peek_request (queue_get n s) = Inr h" by auto
    show ?thesis
    proof (cases "head_over_limit (sc_config s) pp h")
      case over: True
      then obtain r q' m2 where pop: "rq_pop_request (queue_get n s) = Inr (r, q')"
        and rest: "set_heads_aside pp ns (queue_put n q' s) (rq_prepend_request h sk) = Inr (m2, s', sk')"
        using Cons.prems(1) h True by auto
      have "h = r" using rq.peek_pop [OF queue_wf [OF Cons.prems(2)] pop] h by simp
      note inv = pop_inv [OF Cons.prems(2) pop]
      have el: "rq_elems (rq_prepend_request h sk) = add_mset r (rq_elems sk)"
        using \<open>h = r\<close> by (simp add: rq.elems_prepend)
      from Cons.IH [OF rest] inv Cons.prems(3,4) el
      show ?thesis
        by (auto simp: rq.wf_prepend batch_inv_put intro: same_config_trans [OF same_config_put])
    next
      case False
      with Cons h True show ?thesis by auto
    qed
  qed (use Cons in auto)
qed (auto simp: same_config_def)

lemma phase2_round_inv:
  assumes inv: "phase2_inv p" and round: "phase2_round p = Inr (Some p')"
  shows "phase2_inv p' \<and> phase2_ids p' = phase2_ids p \<and> same_config (p2_sched p) (p2_sched p')"
  using round
proof (cases rule: phase2_round_cases)
  case (aside s' sk')
  from set_heads_aside_inv [OF aside(1)] inv aside(2)
  show ?thesis by (auto simp: phase2_inv_def phase2_ids_def)
next
  case (admit n r q')
  let ?p = "p\<lparr>p2_sched := queue_put n q' (p2_sched p)\<rparr>"
  from inv have i: "sched_inv (rq_elems (p2_step_skipped p)) (p2_sched p)"
    by (simp add: phase2_inv_def)
  note pi = pop_inv [OF i admit(2)]
  have "batch_inv (p2_sched ?p) (p2_batch ?p)" "rq_wf (p2_step_skipped ?p)"
    "set (b_finished (p2_batch ?p)) \<inter> set (b_scheduled (p2_batch ?p)) = {}"
    using inv by (simp_all add: phase2_inv_def batch_inv_put)
  with phase2_admit_inv [of r ?p p'] pi admit(3)
  show ?thesis by (auto simp: phase2_ids_def intro: same_config_trans [OF same_config_put])
qed

lemma phase2_loop_inv:
  assumes "phase2_loop p = Inr p'" and "phase2_inv p"
  shows "phase2_inv p' \<and> phase2_ids p' = phase2_ids p \<and> same_config (p2_sched p) (p2_sched p')"
  using assms
proof (induction p rule: phase2_loop.induct)
  case (1 p)
  show ?case
  proof (cases "phase2_guard p")
    case True
    with 1(2) obtain step where step: "phase2_round p = Inr step"
      by (subst (asm) phase2_loop.simps) auto
    show ?thesis
    proof (cases step)
      case None
      with 1(2,3) True step show ?thesis by (subst (asm) phase2_loop.simps) (auto simp: same_config_def)
    next
      case (Some p1)
      with 1(2) True step have "phase2_loop p1 = Inr p'" by (subst (asm) phase2_loop.simps) auto
      from 1(1) [OF True step Some this] phase2_round_inv [OF 1(3), of p1] step Some
      show ?thesis by (auto intro: same_config_trans)
    qed
  next
    case False
    with 1 show ?thesis by (subst (asm) phase2_loop.simps) (auto simp: same_config_def)
  qed
qed

text \<open>The sequence budget.\<close>

lemma phase2_round_running:
  assumes "phase2_round p = Inr (Some p')"
  shows "length (running (p2_sched p')) \<le> Suc (length (running (p2_sched p))) \<and>
    sc_config (p2_sched p') = sc_config (p2_sched p)"
  using assms
proof (cases rule: phase2_round_cases)
  case (aside s' sk')
  have "running s' = running s \<and> sc_config s' = sc_config s"
    if "set_heads_aside pp ns s sk = Inr (m, s', sk')" for pp ns s sk m s' sk'
    using that
  proof (induction ns arbitrary: s sk m)
    case (Cons n ns)
    have "running (queue_put n q s) = running s" "sc_config (queue_put n q s) = sc_config s" for q
      by (cases n; simp)+
    with Cons show ?case by (auto split: if_split_asm)
  qed auto
  from this [OF aside(1)] aside(2) show ?thesis by simp
next
  case (admit n r q')
  from admit(3) show ?thesis
  proof (cases rule: phase2_admit_cases)
    case aside
    then show ?thesis by (cases n) simp_all
  next
    case (run s' slot)
    then show ?thesis using start_running_frame [OF run(2)] by (cases n) simp_all
  qed
qed

lemma phase2_loop_running:
  assumes "phase2_loop p = Inr p'"
    and "int (length (running (p2_sched p))) \<le> B" and "max_num_seqs (sc_config (p2_sched p)) \<le> B"
  shows "int (length (running (p2_sched p'))) \<le> B"
  using assms
proof (induction p rule: phase2_loop.induct)
  case (1 p)
  show ?case
  proof (cases "phase2_guard p")
    case True
    with 1(2) obtain step where step: "phase2_round p = Inr step"
      by (subst (asm) phase2_loop.simps) auto
    show ?thesis
    proof (cases step)
      case None
      with 1(2,3) True step show ?thesis by (subst (asm) phase2_loop.simps) auto
    next
      case (Some p1)
      with 1(2) True step have "phase2_loop p1 = Inr p'" by (subst (asm) phase2_loop.simps) auto
      moreover have "int (length (running (p2_sched p1))) \<le> B"
        "max_num_seqs (sc_config (p2_sched p1)) \<le> B"
        using phase2_round_running [of p p1] step Some True 1(4) by (auto simp: phase2_guard_def)
      ultimately show ?thesis using 1(1) [OF True step Some] by blast
    qed
  next
    case False
    with 1 show ?thesis by (subst (asm) phase2_loop.simps) auto
  qed
qed

section \<open>Advancing and the whole of \<open>schedule\<close>\<close>

lemma set_running_inv [inv_intros]:
  assumes inv: "sched_inv X s" and id: "\<And>q. request_id (f q) = request_id q"
    and c: "\<And>q. 0 \<le> num_computed_tokens q \<Longrightarrow> 0 \<le> num_computed_tokens (f q)"
  shows "sched_inv X (set_running r f s)" and "all_ids X (set_running r f s) = all_ids X s"
proof -
  let ?g = "\<lambda>q. if request_id q = r then f q else q"
  have gid: "request_id (?g q) = request_id q" for q by (simp add: id)
  have pend: "pending X (set_running r f s) = pending X s" by (simp add: pending_def set_running_def)
  have run: "running (set_running r f s) = map ?g (running s)" by (simp add: set_running_def)
  have ids: "map request_id (map ?g (running s)) = map request_id (running s)"
    by (simp add: id)
  show all: "all_ids X (set_running r f s) = all_ids X s"
    using arg_cong [OF ids, of mset] by (simp add: all_ids_def pend run image_mset.compositionality comp_def)
  have map: "running_map (set_running r f s) = map (\<lambda>q. (request_id q, q)) (map ?g (running s))"
    using sched_invD(3) [OF inv] by (auto simp: set_running_def id)
  have slots: "slots_inv X (set_running r f s)"
  proof (cases "slot_manager_of s")
    case None
    then show ?thesis by (simp add: slots_inv_def set_running_def)
  next
    case (Some sm)
    then show ?thesis
      using sched_invD(8) [OF inv] pend run by (auto simp: slots_inv_def set_running_def id)
  qed
  have keys: "dict_keys (running_output_tokens (set_running r f s)) = map request_id (map ?g (running s))"
    using sched_invD(4) [OF inv] ids by (simp add: set_running_def)
  have nonneg: "0 \<le> num_computed_tokens q" if "q \<in># pending X s + mset (map ?g (running s))" for q
    using that sched_invD(6,7) [OF inv] c by (auto split: if_splits)
  have q: "rq_wf (waiting (set_running r f s))" "rq_wf (skipped_waiting (set_running r f s))"
    using sched_invD(1,2) [OF inv] by (simp_all add: set_running_def)
  show "sched_inv X (set_running r f s)"
    unfolding sched_inv_def pend run all using q map keys slots nonneg sched_invD(5) [OF inv] by blast
qed

definition advanced :: "(rid, int) dict \<Rightarrow> rid set \<Rightarrow> vreq \<Rightarrow> vreq" where
  "advanced toks I q =
     (if request_id q \<in> I
      then q\<lparr>num_computed_tokens := num_computed_tokens q + dict_get_default toks (request_id q) 0\<rparr>
      else q)"

lemma advanced_none [simp]: "advanced toks {} = (\<lambda>q. q)"
  by (simp add: advanced_def fun_eq_iff)

lemma advanced_proj [simp]:
  "request_id (advanced toks I q) = request_id q"
  "prompt_token_ids (advanced toks I q) = prompt_token_ids q"
  "req_sampling_params (advanced toks I q) = req_sampling_params q"
  by (simp_all add: advanced_def)

lemma set_running_absent:
  assumes "sched_inv X s" and "\<not> dict_has (running_map s) r"
  shows "set_running r f s = s"
proof -
  have "r \<notin> request_id ` set (running s)"
    using assms(2) sched_invD(3) [OF assms(1)] by (auto simp: dict_has_def)
  then have "map (\<lambda>q. if request_id q = r then f q else q) (running s) = running s"
    by (intro map_idI) auto
  moreover have "map (\<lambda>(k, q). (k, if k = r then f q else q)) (running_map s) = running_map s"
    using assms(2) by (intro map_idI) (auto simp: dict_has_def image_iff)
  ultimately show ?thesis by (simp add: set_running_def)
qed

lemma advance_computed_inv:
  assumes inv: "sched_inv X s" and dist: "distinct ids" and keys: "set ids \<subseteq> set (dict_keys toks)"
    and pos: "\<And>i n. dict_get toks i = Some n \<Longrightarrow> 0 \<le> n"
    and run: "advance_computed toks ids s = Inr s'"
  shows "sched_inv X s'" "all_ids X s' = all_ids X s"
    "running s' = map (advanced toks (set ids)) (running s)"
    "same_config s s'" "slot_manager_of s' = slot_manager_of s"
proof -
  define step where "step s r = bindE (dict_item toks r) (\<lambda>n.
     Inr (if dict_has (running_map s) r
          then set_running r (\<lambda>q. q\<lparr>num_computed_tokens := num_computed_tokens q + n\<rparr>) s
          else s))" for s r
  have fold: "foldE step s ids = Inr s'"
    using run unfolding advance_computed_def step_def .
  have "sched_inv X s' \<and> all_ids X s' = all_ids X s \<and>
    running s' = map (advanced toks (set ids)) (running s) \<and>
    same_config s s' \<and> slot_manager_of s' = slot_manager_of s"
  proof (rule foldE_prefix [OF fold, where P = "\<lambda>ys t. sched_inv X t \<and> all_ids X t = all_ids X s \<and>
    running t = map (advanced toks (set ys)) (running s) \<and>
    same_config s t \<and> slot_manager_of t = slot_manager_of s"])
    show "sched_inv X s \<and> all_ids X s = all_ids X s \<and>
      running s = map (advanced toks (set [])) (running s) \<and>
      same_config s s \<and> slot_manager_of s = slot_manager_of s"
      using inv by (simp add: same_config_def)
  next
    fix ys r zs t t'
    assume split: "ids = ys @ r # zs" and st: "step t r = Inr t'"
      and P: "sched_inv X t \<and> all_ids X t = all_ids X s \<and>
        running t = map (advanced toks (set ys)) (running s) \<and>
        same_config s t \<and> slot_manager_of t = slot_manager_of s"
    obtain n where n: "dict_get toks r = Some n" using st by (auto simp: step_def)
    let ?f = "\<lambda>q. q\<lparr>num_computed_tokens := num_computed_tokens q + n\<rparr>"
    have t': "t' = set_running r ?f t"
      using st n P set_running_absent [of X t r ?f] by (auto simp: step_def split: if_splits)
    have "sched_inv X t'" "all_ids X t' = all_ids X t"
      unfolding t' using set_running_inv [of X t ?f r] P pos [OF n] by simp_all
    moreover have "running t' = map (advanced toks (set (ys @ [r]))) (running s)"
      using P dist split n unfolding t'
      by (auto simp: set_running_def advanced_def dict_get_default_def)
    ultimately show "sched_inv X t' \<and> all_ids X t' = all_ids X s \<and>
        running t' = map (advanced toks (set (ys @ [r]))) (running s) \<and>
        same_config s t' \<and> slot_manager_of t' = slot_manager_of s"
      using P by (simp add: t' set_running_def same_config_def)
  qed
  then show "sched_inv X s'" "all_ids X s' = all_ids X s"
    "running s' = map (advanced toks (set ids)) (running s)"
    "same_config s s'" "slot_manager_of s' = slot_manager_of s" by blast+
qed

text \<open>After the loop the requests set aside go back to the skipped queue.\<close>

definition requeue_skipped :: "phase2_state \<Rightarrow> sched" where
  "requeue_skipped p =
     (if rq_bool (p2_step_skipped p)
      then (p2_sched p)\<lparr>skipped_waiting :=
             rq_prepend_requests (p2_step_skipped p) (skipped_waiting (p2_sched p))\<rparr>
      else p2_sched p)"

lemma requeue_skipped_proj [simp]:
  "running (requeue_skipped p) = running (p2_sched p)"
  "running_map (requeue_skipped p) = running_map (p2_sched p)"
  "running_output_tokens (requeue_skipped p) = running_output_tokens (p2_sched p)"
  "slot_manager_of (requeue_skipped p) = slot_manager_of (p2_sched p)"
  "same_config s (requeue_skipped p) = same_config s (p2_sched p)"
  "waiting (requeue_skipped p) = waiting (p2_sched p)"
  by (simp_all add: requeue_skipped_def same_config_def)

lemma requeue_skipped_inv:
  assumes inv: "phase2_inv p"
  shows "sched_wf (requeue_skipped p)" "batch_inv (requeue_skipped p) (p2_batch p)"
    "req_ids (requeue_skipped p) = phase2_ids p"
    "pending {#} (requeue_skipped p) = pending (rq_elems (p2_step_skipped p)) (p2_sched p)"
proof -
  have pinv: "sched_inv (rq_elems (p2_step_skipped p)) (p2_sched p)" "batch_inv (p2_sched p) (p2_batch p)"
    using inv by (simp_all add: phase2_inv_def)
  show pend: "pending {#} (requeue_skipped p) = pending (rq_elems (p2_step_skipped p)) (p2_sched p)"
    using rq.nonempty_iff [of "p2_step_skipped p"]
    by (simp add: pending_def requeue_skipped_def rq.elems_prepend_all)
  have q: "rq_wf (waiting (requeue_skipped p))" "rq_wf (skipped_waiting (requeue_skipped p))"
    using sched_invD(1,2) [OF pinv(1)] by (auto simp: requeue_skipped_def rq.wf_prepend_all)
  note s1 = sched_inv_requeue [OF pinv(1) pend q requeue_skipped_proj(1-4)]
  show "sched_wf (requeue_skipped p)" "req_ids (requeue_skipped p) = phase2_ids p"
    using s1 by (simp_all add: phase2_ids_def)
  show "batch_inv (requeue_skipped p) (p2_batch p)"
    by (rule batch_inv_mono [OF pinv(2)])
       (auto simp: same_config_def slot_of_def requeue_skipped_def)
qed

lemma advance_step_ok:
  assumes "batch_inv s b"
  shows "distinct (b_scheduled b)" "set (b_scheduled b) \<subseteq> set (dict_keys (b_tokens b))"
    "dict_get (b_tokens b) i = Some n \<Longrightarrow> 0 \<le> n"
  using assms batch_token_bounds [OF assms, of i n]
  by (auto simp: batch_inv_def dest: dict_get_in)

lemma schedule_unfold:
  assumes "schedule s = Inr (out, s')"
  obtains b0 policy p slots where "phase1 s = Inr b0"
    "phase2_loop \<lparr>p2_sched = s, p2_batch = b0, p2_step_skipped = create_request_queue policy,
                  p2_partial = count_partial_prefills s\<rparr> = Inr p"
    "advance_computed (b_tokens (p2_batch p)) (b_scheduled (p2_batch p)) (requeue_skipped p) = Inr s'"
    "mapE (slot_of s') (b_scheduled (p2_batch p)) = Inr slots"
    "out = \<lparr>so_scheduled_req_ids = b_scheduled (p2_batch p),
       so_num_scheduled_tokens = b_tokens (p2_batch p),
       so_total_num_scheduled_tokens = sum_list (map snd (b_tokens (p2_batch p))),
       so_finished_req_ids = b_finished (p2_batch p), so_request_data = b_data (p2_batch p),
       so_freed_slots = [], so_slot_indices = Some slots\<rparr>"
  using assms unfolding schedule_def Let_def requeue_skipped_def by auto

lemma phase2_start:
  assumes "sched_wf s" and "0 \<le> max_num_batched_tokens (sc_config s)" and "phase1 s = Inr b"
  shows "phase2_inv \<lparr>p2_sched = s, p2_batch = b, p2_step_skipped = create_request_queue policy,
                     p2_partial = pp\<rparr>"
  using assms phase1_inv [OF assms] by (simp add: phase2_inv_def rq_wf_create)

text \<open>Everything the properties below need to know about a run of \<open>schedule\<close>.\<close>

lemma schedule_spec:
  assumes inv: "sched_wf s" and pos: "0 \<le> max_num_batched_tokens (sc_config s)"
    and run: "schedule s = Inr (out, s')"
  obtains b s1 where
    "batch_inv s1 b" "set (b_finished b) \<inter> set (b_scheduled b) = {}" "same_config s s1"
    "sched_wf s'" "req_ids s' = req_ids s" "same_config s s'"
    "running s' = map (advanced (b_tokens b) (set (b_scheduled b))) (running s1)"
    "slot_manager_of s' = slot_manager_of s1" "sched_wf s1"
    "\<And>B. int (length (running s)) \<le> B \<Longrightarrow> max_num_seqs (sc_config s) \<le> B \<Longrightarrow>
       int (length (running s')) \<le> B"
    "so_scheduled_req_ids out = b_scheduled b" "so_num_scheduled_tokens out = b_tokens b"
    "so_total_num_scheduled_tokens out = sum_list (map snd (b_tokens b))"
    "so_finished_req_ids out = b_finished b" "so_request_data out = b_data b"
    "so_freed_slots out = []"
    "\<exists>slots. so_slot_indices out = Some slots \<and> mapE (slot_of s') (b_scheduled b) = Inr slots"
proof -
  from run obtain b0 policy p slots where b0: "phase1 s = Inr b0"
    and p: "phase2_loop \<lparr>p2_sched = s, p2_batch = b0, p2_step_skipped = create_request_queue policy,
                         p2_partial = count_partial_prefills s\<rparr> = Inr p"
    and adv: "advance_computed (b_tokens (p2_batch p)) (b_scheduled (p2_batch p)) (requeue_skipped p)
                = Inr s'"
    and slots: "mapE (slot_of s') (b_scheduled (p2_batch p)) = Inr slots"
    and out: "out = \<lparr>so_scheduled_req_ids = b_scheduled (p2_batch p),
       so_num_scheduled_tokens = b_tokens (p2_batch p),
       so_total_num_scheduled_tokens = sum_list (map snd (b_tokens (p2_batch p))),
       so_finished_req_ids = b_finished (p2_batch p), so_request_data = b_data (p2_batch p),
       so_freed_slots = [], so_slot_indices = Some slots\<rparr>"
    by (rule schedule_unfold)
  note loop = phase2_loop_inv [OF p phase2_start [OF inv pos b0]]
  then have pinv: "phase2_inv p" by blast
  note rs = requeue_skipped_inv [OF pinv]
  have cfg: "same_config s (requeue_skipped p)" using loop by simp
  note a = advance_computed_inv [OF rs(1) advance_step_ok [OF rs(2)] adv]
  have "req_ids s' = req_ids s"
    using a(2) rs(3) loop by (simp add: phase2_ids_def)
  moreover have "int (length (running s')) \<le> B"
    if "int (length (running s)) \<le> B" "max_num_seqs (sc_config s) \<le> B" for B
    using phase2_loop_running [OF p, of B] that a(3) by simp
  moreover have "set (b_finished (p2_batch p)) \<inter> set (b_scheduled (p2_batch p)) = {}"
    using pinv by (simp add: phase2_inv_def)
  ultimately show thesis
    using that [of "requeue_skipped p" "p2_batch p"] rs cfg a out slots same_config_trans [OF cfg a(4)]
    by simp
qed

lemma mapE_slots_distinct:
  assumes inv: "sched_wf s" and sm: "slot_manager_of s \<noteq> None"
    and map: "mapE (slot_of s) ids = Inr slots" and dist: "distinct ids"
  shows "distinct slots"
proof -
  obtain m where m: "slot_manager_of s = Some m" using sm by auto
  have "slot_wf m" using sched_invD(8) [OF inv] m by (simp add: slots_inv_def)
  moreover have "mapE (\<lambda>r. get_slot r m) ids = Inr slots"
  proof -
    have "slot_of s = (\<lambda>r. get_slot r m)" using m by (auto simp: slot_of_def)
    with map show ?thesis by simp
  qed
  ultimately show ?thesis using slots.look_distinct dist by blast
qed

section \<open>A concrete scheduler\<close>

text \<open>Three requests wait; the budget of six tokens admits two of them.\<close>

definition demo_sched_config :: scheduler_config where
  "demo_sched_config = scheduler_config_defaults\<lparr>max_num_batched_tokens := 6, max_num_seqs := 2,
     chunked_prefill_threshold := 4\<rparr>"

definition demo_req :: "rid \<Rightarrow> token list \<Rightarrow> vreq" where
  "demo_req i toks =
     new_vreq 1 i (PromptTokens toks) toks (sampling_defaults\<lparr>sp_eos_token_id := Some 0\<rparr>) 0 0"

definition demo_sched :: sched where
  "demo_sched =
     \<lparr>sc_config = demo_sched_config, sc_max_model_len = Some 16,
      slot_manager_of = Some (slot_manager_init 2),
      waiting = Fcfs [demo_req ''a'' [1, 2, 3, 4, 5], demo_req ''b'' [6, 7], demo_req ''c'' [8]],
      skipped_waiting = Fcfs [], running = [], running_map = [], running_output_tokens = []\<rparr>"

definition demo_out :: sched_output where "demo_out = fst (projr (schedule demo_sched))"
definition demo_sched2 :: sched where "demo_sched2 = snd (projr (schedule demo_sched))"

lemma demo_schedule: "schedule demo_sched = Inr (demo_out, demo_sched2)"
proof -
  have "\<not> isl (schedule demo_sched)" by code_simp
  then show ?thesis by (simp add: demo_out_def demo_sched2_def)
qed

lemma demo_pending: "pending {#} demo_sched = {#demo_req ''a'' [1, 2, 3, 4, 5], demo_req ''b'' [6, 7], demo_req ''c'' [8]#}"
  by (simp add: pending_def demo_sched_def)

lemma slot_init_proj [simp]:
  "req_to_slot (slot_manager_init n) = []" "pad_slots (slot_manager_init n) = []"
  "max_slots (slot_manager_init n) = n"
  by (simp_all add: slot_manager_init_def)

lemma demo_wf: "sched_wf demo_sched"
  unfolding sched_inv_def all_ids_def slots_inv_def demo_pending
  by (auto simp: demo_sched_def demo_req_def new_vreq_def slot_init_wf slot_init_compact)

lemma demo_values:
  "so_scheduled_req_ids demo_out = [''a'', ''b''] \<and> so_total_num_scheduled_tokens demo_out = 6"
  "map request_id (running demo_sched2) = [''a'', ''b'']"
  "map_option rd_is_last_prefill (dict_get (so_request_data demo_out) ''b'') = Some True"
  "so_slot_indices demo_out = Some [0, 1]"
  by code_simp+

lemma demo_budget: "0 \<le> max_num_batched_tokens (sc_config demo_sched)"
  by (simp add: demo_sched_def demo_sched_config_def scheduler_config_defaults_def)

lemma demo2_wf: "sched_wf demo_sched2"
  using demo_wf demo_budget demo_schedule by (cases rule: schedule_spec) simp

section \<open>Properties\<close>

text \<open>
  C13: a step never exceeds its budgets. The scheduled tokens sum to the reported total, which
  is at most \<^verbatim>\<open>max_num_batched_tokens\<close>; every request gets between one token and
  \<^verbatim>\<open>chunked_prefill_threshold\<close> tokens; and no more than \<^verbatim>\<open>max_num_seqs\<close> requests run
  afterwards, if no more ran before.
\<close>

theorem schedule_within_budgets:
  assumes "sched_wf s" and "0 \<le> max_num_batched_tokens (sc_config s)"
    and "schedule s = Inr (out, s')"
  shows "so_total_num_scheduled_tokens out \<le> max_num_batched_tokens (sc_config s) \<and>
    so_total_num_scheduled_tokens out = sum_list (map snd (so_num_scheduled_tokens out)) \<and>
    (\<forall>(i, n) \<in> set (so_num_scheduled_tokens out).
       1 \<le> n \<and> n \<le> chunked_prefill_threshold (sc_config s)) \<and>
    (int (length (running s)) \<le> max_num_seqs (sc_config s) \<longrightarrow>
     int (length (running s')) \<le> max_num_seqs (sc_config s))"
  using assms
proof (cases rule: schedule_spec)
  case (1 b s1)
  have sc: "sc_config s1 = sc_config s" using 1(3) by (simp add: same_config_def)
  have "1 \<le> n \<and> n \<le> chunked_prefill_threshold (sc_config s)"
    if n: "(i, n) \<in> set (b_tokens b)" for i n
    using batch_token_bounds [OF 1(1) n] sc by simp
  moreover have "sum_list (map snd (b_tokens b)) \<le> max_num_batched_tokens (sc_config s)"
    using 1(1) sc by (simp add: batch_inv_def)
  ultimately show ?thesis using 1 by auto
qed

theorem schedule_within_budgets_witness:
  "so_total_num_scheduled_tokens demo_out = 6 \<and>
   so_total_num_scheduled_tokens demo_out \<le> max_num_batched_tokens (sc_config demo_sched) \<and>
   int (length (running demo_sched2)) \<le> max_num_seqs (sc_config demo_sched)"
  using schedule_within_budgets [OF demo_wf demo_budget demo_schedule] demo_values(1)
  by (auto simp: demo_sched_def demo_sched_config_def)

text \<open>
  C3: scheduling loses and duplicates no request. The requests waiting, set aside or running
  after the step are, with multiplicity, those before it, and the scheduler's invariant holds
  again: the two views of the running requests agree and every running request owns a slot.
\<close>

theorem schedule_conserves_requests:
  assumes "sched_wf s" and "0 \<le> max_num_batched_tokens (sc_config s)"
    and "schedule s = Inr (out, s')"
  shows "req_ids s' = req_ids s \<and> sched_wf s'"
  using assms by (cases rule: schedule_spec) simp

theorem schedule_conserves_requests_witness:
  "req_ids demo_sched2 = {#''a'', ''b'', ''c''#} \<and> sched_wf demo_sched2"
proof -
  have "req_ids demo_sched = {#''a'', ''b'', ''c''#}"
    by (simp add: all_ids_def demo_pending) (simp add: demo_sched_def demo_req_def new_vreq_def)
  with schedule_conserves_requests [OF demo_wf demo_budget demo_schedule] show ?thesis by simp
qed

text \<open>
  C14: chunked prefill computes exactly the prompt. Every scheduled request with its run data
  either decodes one token, or is handed the next slice of its own prompt, of exactly the
  scheduled length, marked as the last one if and only if it completes the prompt; no chunk
  passes \<^verbatim>\<open>max_model_len - 1\<close>; and the request's computed-token counter is advanced by
  exactly that chunk.
\<close>

theorem schedule_chunks_exact:
  assumes "sched_wf s" and "0 \<le> max_num_batched_tokens (sc_config s)"
    and "schedule s = Inr (out, s')" and "(i, rd) \<in> set (so_request_data out)"
  shows "run_data_ok s rd \<and>
    dict_get (so_num_scheduled_tokens out) i = Some (rd_num_tokens rd) \<and>
    (\<exists>r \<in> set (running s'). request_id r = i \<and> prompt_token_ids r = rd_prompt_token_ids rd \<and>
       num_computed_tokens r = rd_num_computed_tokens rd + rd_num_tokens rd)"
  using assms(1-3)
proof (cases rule: schedule_spec)
  case (1 b s1)
  have rd: "rd_request_id rd = i" "dict_get (b_tokens b) i = Some (rd_num_tokens rd)"
    "run_data_ok s1 rd" "rd_of_running s1 rd"
    using 1(1) assms(4) 1(15) by (auto simp: batch_inv_def)
  from rd(4) obtain r where r: "r \<in> set (running s1)" "request_id r = i"
    "prompt_token_ids r = rd_prompt_token_ids rd" "num_computed_tokens r = rd_num_computed_tokens rd"
    using rd(1) unfolding rd_of_running_def by blast
  have "i \<in> set (b_scheduled b)"
    using 1(1) imageI [OF assms(4), of fst] 1(15) by (metis batch_inv_def fst_conv list.set_map)
  then have "num_computed_tokens (advanced (b_tokens b) (set (b_scheduled b)) r) =
      rd_num_computed_tokens rd + rd_num_tokens rd"
    using r rd(2) by (simp add: advanced_def dict_get_default_def)
  then show ?thesis
    using rd(2,3) r run_data_ok_config [OF 1(3)] 1(7,12) by auto
qed

theorem schedule_chunks_exact_witness:
  "\<exists>rd. dict_get (so_request_data demo_out) ''b'' = Some rd \<and> run_data_ok demo_sched rd \<and>
     rd_is_last_prefill rd \<and>
     (\<exists>r \<in> set (running demo_sched2). request_id r = ''b'' \<and>
        num_computed_tokens r = rd_num_computed_tokens rd + rd_num_tokens rd)"
proof -
  from demo_values(3) obtain rd where rd: "dict_get (so_request_data demo_out) ''b'' = Some rd"
    "rd_is_last_prefill rd" by auto
  from schedule_chunks_exact [OF demo_wf demo_budget demo_schedule dict_get_in [OF rd(1)]] rd
  show ?thesis by auto
qed

text \<open>
  The runner is given every scheduled request's own state slot. The slot indices pair up
  with the scheduled requests and are pairwise distinct, each is the slot the request holds
  after the step and the one in its run data, and no request is both scheduled and finished.
\<close>

theorem schedule_slots_distinct:
  assumes "sched_wf s" and "0 \<le> max_num_batched_tokens (sc_config s)"
    and "slot_manager_of s' \<noteq> None" and "schedule s = Inr (out, s')"
  shows "\<exists>slots. so_slot_indices out = Some slots \<and> distinct slots \<and>
    length slots = length (so_scheduled_req_ids out) \<and>
    (\<forall>k < length slots. slot_of s' (so_scheduled_req_ids out ! k) = Inr (slots ! k)) \<and>
    (\<forall>(i, rd) \<in> set (so_request_data out). slot_of s' i = Inr (rd_slot_index rd)) \<and>
    set (so_finished_req_ids out) \<inter> set (so_scheduled_req_ids out) = {}"
  using assms(1,2,4)
proof (cases rule: schedule_spec)
  case (1 b s1)
  then obtain slots where slots: "so_slot_indices out = Some slots"
    "mapE (slot_of s') (b_scheduled b) = Inr slots" by auto
  have dist: "distinct (b_scheduled b)" using 1(1) by (simp add: batch_inv_def)
  have "slot_of s' = slot_of s1" using 1(8) by (auto simp: slot_of_def)
  then have "slot_of s' i = Inr (rd_slot_index rd)" if "(i, rd) \<in> set (b_data b)" for i rd
    using that 1(1) by (auto simp: batch_inv_def rd_of_running_def)
  then show ?thesis
    using slots mapE_slots_distinct [OF 1(4) assms(3) slots(2) dist] mapE_length [OF slots(2)]
      mapE_nth [OF slots(2)] 1(2,11,14,15) by auto
qed

theorem schedule_slots_distinct_witness:
  "so_slot_indices demo_out = Some [0, 1] \<and> slot_of demo_sched2 ''b'' = Inr 1"
proof -
  have "slot_manager_of demo_sched2 \<noteq> None" by code_simp
  from schedule_slots_distinct [OF demo_wf demo_budget this demo_schedule] demo_values(1,4)
  show ?thesis by (auto simp: nth_Cons split: nat.splits dest: spec [of _ 1])
qed

end
