(* ===== verification/Scheduler_Live.thy ===== *)
theory Scheduler_Live
  imports Scheduler_Inv
begin

text \<open>
  When \<open>schedule\<close> returns and makes progress: it raises no exception on a well-formed scheduler
  whose slots are owned by running requests, an idle engine schedules something whenever some
  waiting request fits the model length, and a prompt at the model length is never scheduled
  nor finished.
\<close>

section \<open>No exception\<close>

text \<open>Only running requests own slots, and there are at least as many as sequences may run.\<close>

definition slots_exact :: "sched \<Rightarrow> bool" where
  "slots_exact s \<longleftrightarrow>
     (case slot_manager_of s of None \<Rightarrow> True
      | Some sm \<Rightarrow> dom (dict_get (req_to_slot sm)) = request_id ` set (running s) \<and>
                  max_num_seqs (sc_config s) \<le> max_slots sm)"

lemma card_owners:
  assumes "slot_wf sm"
  shows "card (dom (dict_get (req_to_slot sm))) = card (occupied sm)"
proof -
  have m: "mirror (req_to_slot sm) (slot_to_req sm)" using assms by (simp add: slot_wf_def)
  have "bij_betw (\<lambda>r. the (dict_get (req_to_slot sm) r)) (dom (dict_get (req_to_slot sm))) (occupied sm)"
    using mirror_get [OF m]
    by (intro bij_betw_byWitness [where f' = "\<lambda>s. the (dict_get (slot_to_req sm) s)"])
       (auto simp: occupied_def, (metis option.sel)+)
  then show ?thesis by (rule bij_betw_same_card)
qed

lemma free_slot_left:
  assumes inv: "sched_inv X s" and ex: "slots_exact s" and sm: "slot_manager_of s = Some sm"
    and room: "int (length (running s)) < max_num_seqs (sc_config s)"
  shows "free_slots sm \<noteq> []"
proof
  assume none: "free_slots sm = []"
  have wf: "slot_wf sm" and pads: "pad_slots sm = []"
    using sched_invD(8) [OF inv] sm by (auto simp: slots_inv_def)
  then have "occupied sm = {..<nat (max_slots sm)}" using none by (simp add: slot_wf_def)
  then have "nat (max_slots sm) = card (request_id ` set (running s))"
    using card_owners [OF wf] ex sm by (simp add: slots_exact_def)
  also have "\<dots> \<le> length (running s)"
    by (metis card_image_le card_length finite_set le_trans)
  finally show False using room ex sm by (simp add: slots_exact_def nat_le_iff)
qed

lemma slot_of_running:
  assumes "sched_inv X s" and "r \<in> set (running s)"
  shows "\<exists>t. slot_of s (request_id r) = Inr t"
proof (cases "slot_manager_of s")
  case (Some sm)
  then have "dict_get (req_to_slot sm) (request_id r) \<noteq> None"
    using sched_invD(8) [OF assms(1)] assms(2) by (simp add: slots_inv_def)
  with Some show ?thesis by (auto simp: slot_of_def get_slot_def)
qed (simp add: slot_of_def)

lemma mapE_ex: "(\<And>x. x \<in> set xs \<Longrightarrow> \<exists>y. f x = Inr y) \<Longrightarrow> \<exists>ys. mapE f xs = Inr ys"
proof (induction xs)
  case (Cons x xs)
  then obtain y where "f x = Inr y" by fastforce
  moreover from Cons obtain ys where "mapE f xs = Inr ys" by fastforce
  ultimately show ?case by simp
qed simp

lemma phase1_step_total:
  "\<exists>t. slot_of s (request_id r) = Inr t \<Longrightarrow> \<exists>b'. phase1_step s b r = Inr b'"
  by (auto simp: phase1_step_def Let_def)

lemma phase1_total:
  assumes inv: "sched_inv X s"
  shows "\<exists>b. phase1 s = Inr b"
proof -
  obtain xs where "mapE (\<lambda>r. slot_of s (request_id r)) (running s) = Inr xs"
    using mapE_ex slot_of_running [OF inv] by metis
  then obtain rs where rs: "sort_by_slot s = Inr rs" by (auto simp: sort_by_slot_def)
  have "set rs = set (running s)" using sort_by_slot_perm [OF rs] by (rule mset_eq_setD)
  then have "\<exists>t. foldE (phase1_step s) (batch_init (max_num_batched_tokens (sc_config s))) rs = Inr t
      \<and> True"
    using phase1_step_total slot_of_running [OF inv] by (intro foldE_total) auto
  with rs show ?thesis by (auto simp: phase1_def)
qed

lemma start_running_total:
  assumes inv: "sched_inv (add_mset r X) s" and ex: "slots_exact s"
    and room: "int (length (running s)) < max_num_seqs (sc_config s)"
  shows "\<exists>s'. start_running r s = Inr s' \<and> slots_exact s'"
proof (cases "slot_manager_of s")
  case None
  then show ?thesis by (auto simp: start_running_def Let_def slots_exact_def)
next
  case (Some sm)
  obtain t sm' where al: "allocate (request_id r) sm = Inr (t, sm')"
    using allocate_Inr_iff [of "request_id r" sm] free_slot_left [OF inv ex Some room] by auto
  with Some obtain s' where s': "start_running r s = Inr s'" "slot_manager_of s' = Some sm'"
    by (auto simp: start_running_def Let_def)
  have "slots_exact s'"
    using ex Some s'(2) start_running_frame [OF s'(1)] allocate_result(3,5) [OF al]
    by (simp add: slots_exact_def)
  with s' show ?thesis by blast
qed

lemma slots_exact_put: "slots_exact s \<Longrightarrow> slots_exact (queue_put n q s)"
  by (cases n) (simp_all add: slots_exact_def cong: option.case_cong)

lemma phase2_admit_total:
  assumes inv: "sched_inv (add_mset r (rq_elems (p2_step_skipped p))) (p2_sched p)"
    and ex: "slots_exact (p2_sched p)"
    and room: "int (length (running (p2_sched p))) < max_num_seqs (sc_config (p2_sched p))"
  shows "\<exists>p'. phase2_admit r p = Inr p' \<and> slots_exact (p2_sched p')"
proof -
  obtain s' where s': "start_running r (p2_sched p) = Inr s'" "slots_exact s'"
    using start_running_total [OF inv ex room] by blast
  have "\<exists>t. slot_of s' (request_id (r\<lparr>status := RUNNING\<rparr>)) = Inr t"
    using start_running_inv(1) [OF inv s'(1)] start_running_frame(1) [OF s'(1)]
    by (intro slot_of_running) auto
  then obtain t where t: "slot_of s' (request_id r) = Inr t" by auto
  show ?thesis
    using s' t ex by (simp add: phase2_admit_def Let_def)
qed

lemma select_queue_total:
  assumes "sched_inv X s"
  shows "\<exists>sel. select_queue s pp ns = Inr sel"
proof (induction ns)
  case (Cons n ns)
  show ?case
    using rq.peek_ok [OF queue_wf [OF assms], of n] Cons by auto
qed simp

lemma select_queue_nonempty:
  "select_queue s pp ns = Inr (Some n) \<Longrightarrow> n \<in> set ns \<and> rq_bool (queue_get n s)"
  by (induction ns) (auto split: if_split_asm)

lemma set_heads_aside_total:
  assumes "sched_inv X s" and "slots_exact s"
  shows "\<exists>r. set_heads_aside pp ns s sk = Inr r \<and> slots_exact (fst (snd r))"
  using assms
proof (induction ns arbitrary: s sk X)
  case (Cons n ns)
  show ?case
  proof (cases "rq_bool (queue_get n s)")
    case True
    then obtain h q' where h: "rq_pop_request (queue_get n s) = Inr (h, q')"
      "rq_peek_request (queue_get n s) = Inr h"
      using rq.peek_ok [OF queue_wf [OF Cons.prems(1)]] by blast
    obtain m s1 sk1 where 1: "set_heads_aside pp ns (queue_put n q' s) (rq_prepend_request h sk) =
        Inr (m, s1, sk1)" "slots_exact s1"
      using Cons.IH [OF pop_inv(1) [OF Cons.prems(1) h(1)] slots_exact_put [OF Cons.prems(2)],
          of "rq_prepend_request h sk"] by auto
    show ?thesis
      using h 1 True Cons.IH [OF Cons.prems, of sk] by auto
  qed (use Cons in auto)
qed auto

lemma phase2_round_total:
  assumes inv: "phase2_inv p" and ex: "slots_exact (p2_sched p)" and guard: "phase2_guard p"
  shows "\<exists>st. phase2_round p = Inr st \<and> (\<forall>p'. st = Some p' \<longrightarrow> slots_exact (p2_sched p'))"
proof -
  have i: "sched_inv (rq_elems (p2_step_skipped p)) (p2_sched p)"
    using inv by (simp add: phase2_inv_def)
  obtain sel where sel: "select_queue (p2_sched p) (p2_partial p) [SkippedQ, WaitingQ] = Inr sel"
    using select_queue_total [OF i] by blast
  show ?thesis
  proof (cases sel)
    case None
    obtain m s1 sk1 where "set_heads_aside (p2_partial p) [SkippedQ, WaitingQ] (p2_sched p)
        (p2_step_skipped p) = Inr (m, s1, sk1)" "slots_exact s1"
      using set_heads_aside_total [OF i ex] by (metis prod.collapse)
    then show ?thesis unfolding phase2_round_def Let_def using sel None by auto
  next
    case (Some n)
    have "rq_bool (queue_get n (p2_sched p))" using select_queue_nonempty sel Some by blast
    then obtain r q' where pop: "rq_pop_request (queue_get n (p2_sched p)) = Inr (r, q')"
      using rq.peek_ok [OF queue_wf [OF i]] by blast
    let ?p = "p\<lparr>p2_sched := queue_put n q' (p2_sched p)\<rparr>"
    have "sc_config (p2_sched ?p) = sc_config (p2_sched p)" by (cases n) simp_all
    then have "\<exists>p'. phase2_admit r ?p = Inr p' \<and> slots_exact (p2_sched p')"
      using pop_inv(1) [OF i pop] slots_exact_put [OF ex] guard
      by (intro phase2_admit_total) (auto simp: phase2_guard_def)
    then show ?thesis unfolding phase2_round_def Let_def using sel Some pop by auto
  qed
qed

lemma phase2_loop_total:
  assumes "phase2_inv p" and "slots_exact (p2_sched p)"
  shows "\<exists>p'. phase2_loop p = Inr p' \<and> slots_exact (p2_sched p')"
  using assms
proof (induction p rule: phase2_loop.induct)
  case (1 p)
  show ?case
  proof (cases "phase2_guard p")
    case True
    then obtain st where st: "phase2_round p = Inr st" "\<forall>p'. st = Some p' \<longrightarrow> slots_exact (p2_sched p')"
      using phase2_round_total [OF 1(2,3)] by blast
    show ?thesis
    proof (cases st)
      case None
      with st True 1(3) show ?thesis by (subst phase2_loop.simps) simp
    next
      case (Some p1)
      then have "phase2_inv p1" using phase2_round_inv [OF 1(2)] st by blast
      with 1(1) [OF True st(1) Some] st Some True show ?thesis by (subst phase2_loop.simps) simp
    qed
  next
    case False
    with 1(3) show ?thesis by (subst phase2_loop.simps) simp
  qed
qed

lemma advance_computed_total:
  assumes "set ids \<subseteq> set (dict_keys toks)"
  shows "\<exists>s'. advance_computed toks ids s = Inr s'"
proof -
  have "\<exists>n. dict_item toks r = Inr n" if "r \<in> set ids" for r
    using assms that unfolding dict_keys_dom by auto
  then have "\<exists>t. foldE (\<lambda>s r. bindE (dict_item toks r) (\<lambda>n.
       Inr (if dict_has (running_map s) r
            then set_running r (\<lambda>q. q\<lparr>num_computed_tokens := num_computed_tokens q + n\<rparr>) s
            else s))) s ids = Inr t \<and> True"
    by (intro foldE_total) fastforce+
  then show ?thesis by (auto simp: advance_computed_def)
qed

lemma schedule_total:
  assumes inv: "sched_wf s" and ex: "slots_exact s"
    and pos: "0 \<le> max_num_batched_tokens (sc_config s)"
    and pol: "scheduling_policy_of (scheduling_policy_name (sc_config s)) = Inr policy"
  shows "\<exists>out s'. schedule s = Inr (out, s')"
proof -
  obtain b where b: "phase1 s = Inr b" using phase1_total [OF inv] by blast
  let ?p0 = "\<lparr>p2_sched = s, p2_batch = b, p2_step_skipped = create_request_queue policy,
              p2_partial = count_partial_prefills s\<rparr>"
  note p0 = phase2_start [OF inv pos b, of policy "count_partial_prefills s"]
  obtain p where p: "phase2_loop ?p0 = Inr p" using phase2_loop_total [OF p0] ex by auto
  then have pinv: "phase2_inv p" using phase2_loop_inv [OF p p0] by blast
  note rs = requeue_skipped_inv [OF pinv]
  obtain s2 where s2: "advance_computed (b_tokens (p2_batch p)) (b_scheduled (p2_batch p))
      (requeue_skipped p) = Inr s2"
    using advance_computed_total [OF advance_step_ok(2) [OF rs(2)]] by blast
  note adv = advance_computed_inv [OF rs(1) advance_step_ok [OF rs(2)] s2]
  have "\<exists>t. slot_of s2 i = Inr t" if i: "i \<in> set (b_scheduled (p2_batch p))" for i
  proof -
    have "i \<in> request_id ` set (running (requeue_skipped p))"
      using batch_scheduled_running [OF rs(2)] i by blast
    then obtain q where "q \<in> set (running (requeue_skipped p))" "request_id q = i" by blast
    with slot_of_running [OF rs(1)] have "\<exists>t. slot_of (requeue_skipped p) i = Inr t" by metis
    moreover have "slot_of s2 i = slot_of (requeue_skipped p) i" using adv(5) by (simp add: slot_of_def)
    ultimately show ?thesis by simp
  qed
  then obtain slots where "mapE (slot_of s2) (b_scheduled (p2_batch p)) = Inr slots"
    using mapE_ex by metis
  with b pol p s2 show ?thesis unfolding schedule_def Let_def requeue_skipped_def by auto
qed

text \<open>The owners of slots stay exactly the running requests.\<close>

lemma schedule_slots_exact:
  assumes inv: "sched_wf s" and ex: "slots_exact s"
    and pos: "0 \<le> max_num_batched_tokens (sc_config s)" and run: "schedule s = Inr (out, s')"
  shows "slots_exact s'"
proof -
  from run obtain b policy p where b: "phase1 s = Inr b"
    and p: "phase2_loop \<lparr>p2_sched = s, p2_batch = b, p2_step_skipped = create_request_queue policy,
              p2_partial = count_partial_prefills s\<rparr> = Inr p"
    and adv: "advance_computed (b_tokens (p2_batch p)) (b_scheduled (p2_batch p)) (requeue_skipped p)
                = Inr s'"
    by (rule schedule_unfold)
  note p0 = phase2_start [OF inv pos b, of policy "count_partial_prefills s"]
  have pinv: "phase2_inv p" using phase2_loop_inv [OF p p0] by blast
  have exp: "slots_exact (p2_sched p)" using phase2_loop_total [OF p0] ex p by auto
  note rs = requeue_skipped_inv [OF pinv]
  note a = advance_computed_inv [OF rs(1) advance_step_ok [OF rs(2)] adv]
  have "request_id ` set (running s') = request_id ` set (running (p2_sched p))"
    using a(3) by (simp add: image_image)
  moreover have "slot_manager_of s' = slot_manager_of (p2_sched p)" "sc_config s' = sc_config (p2_sched p)"
    using a(4,5) by (simp_all add: same_config_def requeue_skipped_def split: if_split_asm)
  ultimately show ?thesis
    using exp by (simp add: slots_exact_def cong: option.case_cong)
qed

section \<open>Progress\<close>

definition idle_inv :: "int \<Rightarrow> vreq multiset \<Rightarrow> phase2_state \<Rightarrow> bool" where
  "idle_inv B P p \<longleftrightarrow>
     b_scheduled (p2_batch p) \<noteq> [] \<or>
     (b_budget (p2_batch p) = B \<and> running (p2_sched p) = [] \<and> p2_partial p = 0 \<and>
      pending (rq_elems (p2_step_skipped p)) (p2_sched p) = P \<and>
      (\<forall>r \<in># rq_elems (p2_step_skipped p). chunk_size (p2_sched p) r B \<le> 0))"

lemma select_queue_idle:
  assumes "select_queue s 0 [SkippedQ, WaitingQ] = Inr None"
    and "\<And>n. rq_bool (queue_get n s) \<Longrightarrow> \<exists>h. rq_peek_request (queue_get n s) = Inr h"
  shows "\<not> rq_bool (waiting s) \<and> \<not> rq_bool (skipped_waiting s)"
proof -
  have adm: "head_admitted cfg 0 h" for cfg h by (auto simp: head_admitted_def)
  show ?thesis
    using assms(1) assms(2) [of SkippedQ] assms(2) [of WaitingQ] adm
    by (auto split: if_split_asm)
qed

lemma chunk_size_config: "same_config s s' \<Longrightarrow> chunk_size s' r n = chunk_size s r n"
  by (simp add: chunk_size_def same_config_def)

lemma pending_pop:
  "rq_pop_request (queue_get n s) = Inr (r, q') \<Longrightarrow>
   pending (add_mset r X) (queue_put n q' s) = pending X s"
  using rq.elems_pop by (cases n) (auto simp: pending_def)

lemma idle_round:
  assumes idle: "idle_inv B P p" and round: "phase2_round p = Inr (Some p')" and inv: "phase2_inv p"
    and guard: "phase2_guard p"
  shows "idle_inv B P p'"
  using round
proof (cases rule: phase2_round_cases)
  case (aside s' sk')
  have i: "sched_inv (rq_elems (p2_step_skipped p)) (p2_sched p)"
    using inv by (simp add: phase2_inv_def)
  show ?thesis
  proof (cases "b_scheduled (p2_batch p) = []")
    case True
    then have "p2_partial p = 0" using idle by (simp add: idle_inv_def)
    moreover note aside(3)
    ultimately have "\<not> phase2_guard p"
      using select_queue_idle [of "p2_sched p"] rq.peek_ok [OF queue_wf [OF i]]
      unfolding phase2_guard_def by metis
    with guard show ?thesis by simp
  qed (simp add: idle_inv_def aside(2))
next
  case (admit n r q')
  from admit(3) show ?thesis
  proof (cases rule: phase2_admit_cases)
    case aside
    show ?thesis
    proof (cases "b_scheduled (p2_batch p) = []")
      case True
      then have "chunk_size (p2_sched p) r B \<le> 0"
        using idle aside(2) by (auto simp: idle_inv_def chunk_size_config [OF same_config_put])
      then show ?thesis
        using idle aside True pending_pop [OF admit(2)]
        by (auto simp: idle_inv_def rq.elems_prepend chunk_size_config [OF same_config_put])
    qed (simp add: idle_inv_def aside)
  next
    case (run s' slot)
    then show ?thesis by (simp add: idle_inv_def batch_schedule_def Let_def)
  qed
qed

lemma idle_loop:
  assumes "phase2_loop p = Inr p'" and "idle_inv B P p" and "phase2_inv p"
  shows "idle_inv B P p' \<and>
    (b_scheduled (p2_batch p') \<noteq> [] \<or> \<not> phase2_guard p')"
  using assms
proof (induction p rule: phase2_loop.induct)
  case (1 p)
  show ?case
  proof (cases "phase2_guard p")
    case True
    with 1(2) obtain st where st: "phase2_round p = Inr st"
      by (subst (asm) phase2_loop.simps) auto
    show ?thesis
    proof (cases st)
      case None
      have p': "p' = p" using 1(2) True st None by (subst (asm) phase2_loop.simps) auto
      have "b_scheduled (p2_batch p) \<noteq> []"
      proof
        assume "b_scheduled (p2_batch p) = []"
        then have part: "p2_partial p = 0" using 1(3) by (simp add: idle_inv_def)
        have i: "sched_inv (rq_elems (p2_step_skipped p)) (p2_sched p)"
          using 1(4) by (simp add: phase2_inv_def)
        have "select_queue (p2_sched p) 0 [SkippedQ, WaitingQ] = Inr None"
          using st None part phase2_round_break [of p] by simp
        then have "\<not> phase2_guard p"
          using select_queue_idle [of "p2_sched p"] rq.peek_ok [OF queue_wf [OF i]]
          unfolding phase2_guard_def by metis
        with True show False by simp
      qed
      with p' 1(3) show ?thesis by simp
    next
      case (Some p1)
      with 1(2) True st have "phase2_loop p1 = Inr p'" by (subst (asm) phase2_loop.simps) auto
      moreover have "idle_inv B P p1" "phase2_inv p1"
        using idle_round [OF 1(3) _ 1(4) True] phase2_round_inv [OF 1(4)] st Some by blast+
      ultimately show ?thesis using 1(1) [OF True st Some] by blast
    qed
  next
    case False
    with 1 show ?thesis by (subst (asm) phase2_loop.simps) auto
  qed
qed

lemma want_tokens_pos: "0 < want_tokens r"
  by (simp add: want_tokens_def is_decode_def)

lemma chunk_size_pos:
  assumes "0 < chunked_prefill_threshold (sc_config s)" and "0 < B"
    and "\<And>l. sc_max_model_len s = Some l \<Longrightarrow> num_computed_tokens r < l - 1"
  shows "0 < chunk_size s r B"
  using assms want_tokens_pos [of r] by (auto simp: chunk_size_def clip_len_def split: option.split)

lemma phase1_idle:
  "running s = [] \<Longrightarrow> phase1 s = Inr (batch_init (max_num_batched_tokens (sc_config s)))"
  by (simp add: phase1_def sort_by_slot_def drop_finished_def batch_init_def)

section \<open>Requests at the model length\<close>

definition at_model_len :: "sched \<Rightarrow> vreq \<Rightarrow> bool" where
  "at_model_len s r \<longleftrightarrow>
     \<not> is_decode r \<and> (\<exists>l. sc_max_model_len s = Some l \<and> l - 1 \<le> num_computed_tokens r)"

lemma at_model_len_chunk: "at_model_len s r \<Longrightarrow> chunk_size s r n \<le> 0"
  by (auto simp: at_model_len_def chunk_size_def clip_len_def)

lemma at_model_len_phase1: "at_model_len s r \<Longrightarrow> phase1_step s b r = Inr b"
  using at_model_len_chunk [of s r "b_budget b"]
  by (simp add: phase1_step_def Let_def at_model_len_def)

definition left_alone :: "rid \<Rightarrow> batch \<Rightarrow> bool" where
  "left_alone i b \<longleftrightarrow> i \<notin> set (b_scheduled b) \<and> i \<notin> set (b_finished b)"

lemma left_alone_phase1:
  assumes inv: "sched_inv X s" and r: "r \<in> set (running s)" "at_model_len s r"
    and run: "phase1 s = Inr b"
  shows "left_alone (request_id r) b"
proof -
  from run obtain rs b1 where rs: "sort_by_slot s = Inr rs"
    and fold: "foldE (phase1_step s) (batch_init (max_num_batched_tokens (sc_config s))) rs = Inr b1"
    and b: "b = drop_finished b1" by (auto simp: phase1_def)
  have set: "set rs = set (running s)" using sort_by_slot_perm [OF rs] by (rule mset_eq_setD)
  have "left_alone (request_id r) b1"
  proof (rule foldE_invariant [OF fold, where P = "left_alone (request_id r)"])
    show "left_alone (request_id r) (batch_init (max_num_batched_tokens (sc_config s)))"
      by (simp add: left_alone_def batch_init_def)
  next
    fix c q c' assume q: "q \<in> set rs" and c: "left_alone (request_id r) c"
      and step: "phase1_step s c q = Inr c'"
    show "left_alone (request_id r) c'"
    proof (cases "q = r")
      case True
      with step at_model_len_phase1 [OF r(2)] c show ?thesis by simp
    next
      case False
      then have "request_id q \<noteq> request_id r"
        using running_ids_distinct [OF inv] q r(1) set by (auto simp: distinct_map dest: inj_onD)
      with step c show ?thesis
        by (cases rule: phase1_step_cases)
           (auto simp: left_alone_def batch_finish_def batch_schedule_def)
    qed
  qed
  then show ?thesis by (auto simp: b left_alone_def drop_finished_def)
qed

lemma left_alone_round:
  assumes inv: "phase2_inv p" and r: "r \<in> set (running (p2_sched p))"
    and la: "left_alone (request_id r) (p2_batch p)" and round: "phase2_round p = Inr (Some p')"
  shows "r \<in> set (running (p2_sched p')) \<and> left_alone (request_id r) (p2_batch p')"
  using round
proof (cases rule: phase2_round_cases)
  case (aside s' sk')
  have "running s' = running (p2_sched p)"
    using set_heads_aside_inv [OF aside(1), of "p2_batch p"] inv by (simp add: phase2_inv_def)
  with r la aside(2) show ?thesis by simp
next
  case (admit n q q')
  have i: "sched_inv (rq_elems (p2_step_skipped p)) (p2_sched p)"
    using inv by (simp add: phase2_inv_def)
  have "request_id r \<noteq> request_id q"
    using pending_not_running [OF pop_inv(1) [OF i admit(2)], of q r] r by (simp add: pending_def)
  from admit(3) this r la show ?thesis
    by (cases rule: phase2_admit_cases)
       (auto simp: left_alone_def batch_schedule_def Let_def start_running_frame(1))
qed

lemma left_alone_loop:
  assumes "phase2_loop p = Inr p'" and "phase2_inv p" and "r \<in> set (running (p2_sched p))"
    and "left_alone (request_id r) (p2_batch p)"
  shows "r \<in> set (running (p2_sched p')) \<and> left_alone (request_id r) (p2_batch p')"
  using assms
proof (induction p rule: phase2_loop.induct)
  case (1 p)
  show ?case
  proof (cases "phase2_guard p")
    case True
    with 1(2) obtain st where st: "phase2_round p = Inr st"
      by (subst (asm) phase2_loop.simps) auto
    show ?thesis
    proof (cases st)
      case None
      with 1 True st show ?thesis by (subst (asm) phase2_loop.simps) auto
    next
      case (Some p1)
      with 1(2) True st have "phase2_loop p1 = Inr p'" by (subst (asm) phase2_loop.simps) auto
      then show ?thesis
        using 1(1) [OF True st Some] left_alone_round [OF 1(3-5), of p1] phase2_round_inv [OF 1(3)] st Some
        by blast
    qed
  next
    case False
    with 1 show ?thesis by (subst (asm) phase2_loop.simps) auto
  qed
qed

lemma demo_exact: "slots_exact demo_sched"
  by (simp add: slots_exact_def demo_sched_def slot_manager_init_def demo_sched_config_def)


text \<open>A request that has computed as much of its prompt as the model length allows.\<close>

definition demo_stuck_req :: vreq where
  "demo_stuck_req = (demo_req ''a'' [1, 2, 3, 4, 5])\<lparr>num_computed_tokens := 3, status := RUNNING\<rparr>"

definition demo_stuck :: sched where
  "demo_stuck =
     \<lparr>sc_config = demo_sched_config, sc_max_model_len = Some 4, slot_manager_of = None,
      waiting = Fcfs [], skipped_waiting = Fcfs [], running = [demo_stuck_req],
      running_map = [(''a'', demo_stuck_req)], running_output_tokens = [(''a'', [])]\<rparr>"

lemma demo_stuck_wf: "sched_wf demo_stuck"
  by (auto simp: sched_inv_def all_ids_def pending_def slots_inv_def demo_stuck_def demo_stuck_req_def
      demo_req_def new_vreq_def)

section \<open>Properties\<close>

text \<open>
  C12: \<open>schedule\<close> raises no exception. On a well-formed scheduler with a known policy whose
  slots are owned by exactly the running requests, with as many slots as sequences may run, a
  step always returns, and the owners of slots are again exactly the running requests.
\<close>

theorem schedule_never_raises:
  assumes "sched_wf s" and "slots_exact s" and "0 \<le> max_num_batched_tokens (sc_config s)"
    and "scheduling_policy_of (scheduling_policy_name (sc_config s)) = Inr policy"
  shows "\<exists>out s'. schedule s = Inr (out, s') \<and> sched_wf s' \<and> slots_exact s'"
proof -
  obtain out s' where run: "schedule s = Inr (out, s')" using schedule_total [OF assms] by blast
  have "sched_wf s'" using assms(1,3) run by (cases rule: schedule_spec) simp
  with run schedule_slots_exact [OF assms(1-3) run] show ?thesis by blast
qed

theorem schedule_never_raises_witness:
  "\<exists>out s'. schedule demo_sched = Inr (out, s') \<and> slots_exact s'"
proof -
  have "scheduling_policy_of (scheduling_policy_name (sc_config demo_sched)) = Inr FCFS"
    by (simp add: demo_sched_def demo_sched_config_def scheduler_config_defaults_def scheduling_policy_of_def)
  from schedule_never_raises [OF demo_wf demo_exact demo_budget this] show ?thesis by blast
qed

text \<open>
  C19: an idle engine makes progress. If nothing runs and some waiting request still fits the
  model length, then the step schedules at least one token, whatever the order of the queues
  and however many over-long requests stand in front.
\<close>

theorem idle_engine_progresses:
  assumes "sched_wf s" and "running s = []" and "r \<in># pending {#} s"
    and "0 < max_num_batched_tokens (sc_config s)" and "0 < max_num_seqs (sc_config s)"
    and "0 < chunked_prefill_threshold (sc_config s)"
    and "\<And>l. sc_max_model_len s = Some l \<Longrightarrow> num_computed_tokens r < l - 1"
    and "schedule s = Inr (out, s')"
  shows "0 < so_total_num_scheduled_tokens out"
proof -
  let ?B = "max_num_batched_tokens (sc_config s)"
  have pos: "0 \<le> ?B" using assms(4) by simp
  from assms(8) obtain b policy p slots where b: "phase1 s = Inr b"
    and p: "phase2_loop \<lparr>p2_sched = s, p2_batch = b, p2_step_skipped = create_request_queue policy,
              p2_partial = count_partial_prefills s\<rparr> = Inr p"
    and tot: "so_total_num_scheduled_tokens out = sum_list (map snd (b_tokens (p2_batch p)))"
    by (cases rule: schedule_unfold) auto
  note p0 = phase2_start [OF assms(1) pos b, of policy "count_partial_prefills s"]
  note lp = phase2_loop_inv [OF p p0]
  have idle: "idle_inv ?B (pending {#} s) p" and stop: "b_scheduled (p2_batch p) \<noteq> [] \<or> \<not> phase2_guard p"
    using idle_loop [OF p _ p0, of ?B "pending {#} s"] b phase1_idle [OF assms(2)] assms(2)
    by (auto simp: idle_inv_def batch_init_def count_partial_prefills_def)
  have "b_scheduled (p2_batch p) \<noteq> []"
  proof
    assume none: "b_scheduled (p2_batch p) = []"
    have cfg: "same_config s (p2_sched p)" using lp by simp
    then have "\<not> rq_bool (waiting (p2_sched p))" "\<not> rq_bool (skipped_waiting (p2_sched p))"
      using stop none idle assms(4,5) by (auto simp: phase2_guard_def idle_inv_def same_config_def)
    then have "rq_elems (p2_step_skipped p) = pending {#} s"
      using idle none rq.nonempty_iff by (auto simp: idle_inv_def pending_def)
    then have "chunk_size s r ?B \<le> 0"
      using idle none assms(3) chunk_size_config [OF cfg] by (auto simp: idle_inv_def)
    then show False using chunk_size_pos [OF assms(6,4,7)] by simp
  qed
  moreover have bi: "batch_inv (p2_sched p) (p2_batch p)" using lp by (simp add: phase2_inv_def)
  ultimately obtain i n rest where "b_tokens (p2_batch p) = (i, n) # rest"
    by (cases "b_tokens (p2_batch p)") (auto simp: batch_inv_def)
  moreover have "1 \<le> m" if "(j, m) \<in> set (b_tokens (p2_batch p))" for j m
    using batch_token_bounds [OF bi that] by simp
  ultimately show ?thesis
    unfolding tot by (auto intro!: add_pos_nonneg sum_list_nonneg) (fastforce+)
qed

theorem idle_engine_progresses_witness:
  "0 < so_total_num_scheduled_tokens demo_out"
proof (rule idle_engine_progresses [OF demo_wf, where r = "demo_req ''c'' [8]" and s' = demo_sched2])
  show "demo_req ''c'' [8] \<in># pending {#} demo_sched" by (simp add: demo_pending)
qed (simp_all add: demo_schedule, simp_all add: demo_sched_def demo_sched_config_def
      scheduler_config_defaults_def demo_req_def new_vreq_def)

text \<open>
  A prompt that reaches the model length is stuck. A running request with prompt tokens
  left that has already computed \<^verbatim>\<open>max_model_len - 1\<close> tokens is neither scheduled nor finished
  by a step, and is still running, unchanged, after it; so no later step treats it differently.
\<close>

lemma overlong_left_alone:
  assumes "sched_wf s" and "0 \<le> max_num_batched_tokens (sc_config s)"
    and "r \<in> set (running s)" and "at_model_len s r" and "schedule s = Inr (out, s')"
  shows "request_id r \<notin> set (so_scheduled_req_ids out) \<and>
    request_id r \<notin> set (so_finished_req_ids out) \<and> r \<in> set (running s') \<and> at_model_len s' r"
proof -
  from assms(5) obtain b policy p slots where b: "phase1 s = Inr b"
    and p: "phase2_loop \<lparr>p2_sched = s, p2_batch = b, p2_step_skipped = create_request_queue policy,
              p2_partial = count_partial_prefills s\<rparr> = Inr p"
    and adv: "advance_computed (b_tokens (p2_batch p)) (b_scheduled (p2_batch p)) (requeue_skipped p)
                = Inr s'"
    and out: "so_scheduled_req_ids out = b_scheduled (p2_batch p)"
      "so_finished_req_ids out = b_finished (p2_batch p)"
    by (cases rule: schedule_unfold) auto
  note p0 = phase2_start [OF assms(1,2) b, of policy "count_partial_prefills s"]
  note lp = phase2_loop_inv [OF p p0]
  have la: "r \<in> set (running (p2_sched p)) \<and> left_alone (request_id r) (p2_batch p)"
    using left_alone_loop [OF p p0, of r] left_alone_phase1 [OF assms(1,3,4) b] assms(3) by simp
  have pinv: "phase2_inv p" using lp by blast
  note rs = requeue_skipped_inv [OF pinv]
  note a = advance_computed_inv [OF rs(1) advance_step_ok [OF rs(2)] adv]
  have "advanced (b_tokens (p2_batch p)) (set (b_scheduled (p2_batch p))) r = r"
    using la by (simp add: advanced_def left_alone_def)
  moreover have "same_config s s'" using lp a(4) same_config_trans [of s "requeue_skipped p" s']
    by simp
  ultimately show ?thesis
    using la a(3) out assms(4) by (force simp: left_alone_def at_model_len_def same_config_def)
qed

lemma overlong_left_alone_run:
  "\<exists>out s'. schedule demo_stuck = Inr (out, s') \<and> ''a'' \<notin> set (so_scheduled_req_ids out) \<and>
     ''a'' \<notin> set (so_finished_req_ids out) \<and> demo_stuck_req \<in> set (running s')"
proof -
  have "\<not> isl (schedule demo_stuck)" by code_simp
  then obtain out s' where run: "schedule demo_stuck = Inr (out, s')" by (cases "schedule demo_stuck") auto
  have "0 \<le> max_num_batched_tokens (sc_config demo_stuck)" "demo_stuck_req \<in> set (running demo_stuck)"
    "at_model_len demo_stuck demo_stuck_req" "request_id demo_stuck_req = ''a''"
    by (simp_all add: demo_stuck_def demo_sched_config_def scheduler_config_defaults_def at_model_len_def
        is_decode_def demo_stuck_req_def demo_req_def new_vreq_def)
  with overlong_left_alone [OF demo_stuck_wf _ _ _ run, of demo_stuck_req] run show ?thesis by auto
qed

end
