(* ===== verification/Scheduler_Update.thy ===== *)
theory Scheduler_Update
  imports Scheduler_Live
begin

text \<open>
  \<^verbatim>\<open>SimpleScheduler.finish_requests\<close>, \<^verbatim>\<open>update_from_output\<close> and
  \<^verbatim>\<open>_classify_finish_reason\<close>: how requests leave the scheduler.

  \<open>update_from_output\<close> mutates the scheduler output it is given (it adds to
  \<^verbatim>\<open>finished_req_ids\<close> and \<^verbatim>\<open>freed_slots\<close>), so its model returns that output as well.
  Its three loops are three folds. The iteration order of a Python set is unspecified; the model
  uses the order of the list that stands for it, and no property depends on that order.
\<close>

section \<open>\<open>finish_requests\<close>\<close>

text \<open>\<^verbatim>\<open>self.running.remove(req)\<close> removes the first equal request.\<close>

definition drop_running :: "vreq \<Rightarrow> sched \<Rightarrow> sched" where
  "drop_running r s =
     s\<lparr>running := remove1 r (running s),
       running_map := dict_del (request_id r) (running_map s),
       running_output_tokens := dict_del (request_id r) (running_output_tokens s)\<rparr>"

text \<open>\<^verbatim>\<open>next((r for r in q if r.request_id == req_id), None)\<close>\<close>

definition queue_find :: "rid \<Rightarrow> rqueue \<Rightarrow> vreq option" where
  "queue_find i q = find (\<lambda>r. request_id r = i) (rq_iter q)"

text \<open>
  The status is assigned before the request is removed; the removal compares with the request
  in the queue, which is that same object.
\<close>

fun finish_queued :: "rid \<Rightarrow> queue_name list \<Rightarrow> sched \<Rightarrow> (bool \<times> sched) res" where
  "finish_queued i [] s = Inr (False, s)"
| "finish_queued i (n # ns) s =
     (case queue_find i (queue_get n s) of
        None \<Rightarrow> finish_queued i ns s
      | Some r \<Rightarrow> bindE (rq_remove_request r (queue_get n s)) (\<lambda>q'. Inr (True, queue_put n q' s)))"

definition finish_one :: "rid list \<times> sched \<Rightarrow> rid \<Rightarrow> (rid list \<times> sched) res" where
  "finish_one acc i =
     (case acc of (done, s) \<Rightarrow>
        (case dict_get (running_map s) i of
           Some r \<Rightarrow> Inr (done @ [i], drop_running r s)
         | None \<Rightarrow> bindE (finish_queued i [WaitingQ, SkippedQ] s) (\<lambda>(found, s').
                     Inr (if found then done @ [i] else done, s'))))"

definition finish_these :: "rid list \<Rightarrow> sched \<Rightarrow> (rid list \<times> sched) res" where
  "finish_these ids s = foldE finish_one ([], s) ids"

text \<open>The three draining loops of the branch that finishes everything.\<close>

fun pop_running :: "vreq list \<Rightarrow> rid list \<times> sched \<Rightarrow> rid list \<times> sched" where
  "pop_running [] (done, s) = (done, s)"
| "pop_running (r # rs) (done, s) =
     pop_running rs (done @ [request_id r],
       s\<lparr>running := butlast (running s),
         running_map := dict_del (request_id r) (running_map s),
         running_output_tokens := dict_del (request_id r) (running_output_tokens s)\<rparr>)"

lemma pop_queue_shorter:
  "rq_pop_request q = Inr (r, q') \<Longrightarrow> rq_length q' < rq_length q"
  using rq_pop_length by simp

function drain_queue :: "rqueue \<Rightarrow> rid list \<Rightarrow> (rid list \<times> rqueue) res" where
  "drain_queue q done =
     (if rq_bool q
      then bindE (rq_pop_request q) (\<lambda>(r, q'). drain_queue q' (done @ [request_id r]))
      else Inr (done, q))"
  by pat_completeness auto
termination
  by (relation "measure (\<lambda>(q, _). rq_length q)") (auto dest: pop_queue_shorter)

declare drain_queue.simps [simp del]

definition finish_all :: "sched \<Rightarrow> (rid list \<times> sched) res" where
  "finish_all s =
     (case pop_running (rev (running s)) ([], s) of (done, s1) \<Rightarrow>
        bindE (drain_queue (waiting s1) done) (\<lambda>(done2, w).
        bindE (drain_queue (skipped_waiting s1) done2) (\<lambda>(done3, k).
          Inr (done3, s1\<lparr>waiting := w, skipped_waiting := k\<rparr>))))"

definition finish_requests :: "rid list option \<Rightarrow> sched \<Rightarrow> (rid list \<times> sched) res" where
  "finish_requests ids s = (case ids of Some is \<Rightarrow> finish_these is s | None \<Rightarrow> finish_all s)"

section \<open>Finish reasons\<close>

definition classify_finish_reason ::
  "vreq option \<Rightarrow> run_data option \<Rightarrow> token list \<Rightarrow> string \<times> stop_reason_val option" where
  "classify_finish_reason req rd completed =
     (case rd of
        None \<Rightarrow> (''length'', None)
      | Some d \<Rightarrow>
          if \<not> (rd_is_decode d \<or> rd_is_last_prefill d) then (''length'', None)
          else case req of
            None \<Rightarrow> (''length'', None)
          | Some r \<Rightarrow>
              let sp = req_sampling_params r in
              if completed = [] then (''length'', None)
              else if \<not> sp_ignore_eos sp \<and> sp_eos_token_id sp \<noteq> None then
                (if Some (List.last completed) = sp_eos_token_id sp
                 then (''eos'', map_option StopTok (sp_eos_token_id sp))
                 else (''length'', None))
              else case sp_stop_token_ids sp of
                None \<Rightarrow> (''length'', None)
              | Some stops \<Rightarrow>
                  (case find (\<lambda>t. t \<in> set stops) (rev completed) of
                     None \<Rightarrow> (''length'', None)
                   | Some t \<Rightarrow> (''stop'', Some (StopTok t))))"

section \<open>\<open>update_from_output\<close>\<close>

text \<open>First loop: record the sampled tokens and detect the end of a request.\<close>

definition hits_eos :: "sampling_params \<Rightarrow> token list \<Rightarrow> bool" where
  "hits_eos sp toks \<longleftrightarrow> \<not> sp_ignore_eos sp \<and> toks \<noteq> [] \<and> Some (hd toks) = sp_eos_token_id sp"

definition hits_stop :: "sampling_params \<Rightarrow> token list \<Rightarrow> bool" where
  "hits_stop sp toks \<longleftrightarrow>
     (case sp_stop_token_ids sp of None \<Rightarrow> False | Some stops \<Rightarrow> \<exists>t \<in> set toks. t \<in> set stops)"

definition record_tokens ::
  "model_runner_output \<Rightarrow> rid \<Rightarrow> sched \<times> rid list \<Rightarrow> sched \<times> rid list" where
  "record_tokens mo i acc =
     (case acc of (s, fin) \<Rightarrow>
        (case dict_get (running_output_tokens s) i of
           None \<Rightarrow> (s, fin)
         | Some old \<Rightarrow>
             let toks = dict_get_default (mro_sampled_token_ids mo) i [];
                 outs = old @ toks;
                 s1 = s\<lparr>running_output_tokens := dict_set i outs (running_output_tokens s)\<rparr>
             in if i \<in> set fin then (s1, fin)
                else case dict_get (running_map s1) i of
                  None \<Rightarrow> (s1, fin)
                | Some r \<Rightarrow>
                    (set_running i (\<lambda>q. q\<lparr>num_output_tokens := int (length outs)\<rparr>) s1,
                     if hits_eos (req_sampling_params r) toks \<or> hits_stop (req_sampling_params r) toks
                     then List.insert i fin else fin)))"

text \<open>Second loop: remove a finished request and emit its last output.\<close>

definition finish_running :: "rid \<Rightarrow> sched \<Rightarrow> sched" where
  "finish_running i s =
     s\<lparr>running_map := dict_del i (running_map s),
       running_output_tokens := dict_del i (running_output_tokens s),
       running := filter (\<lambda>r. request_id r \<noteq> i) (running s)\<rparr>"

definition freed_slot_of :: "sched_output \<Rightarrow> sched \<Rightarrow> rid \<Rightarrow> nat option" where
  "freed_slot_of out s i =
     (case slot_manager_of s of None \<Rightarrow> None
      | Some sm \<Rightarrow> (case dict_get (so_request_data out) i of
                     Some rd \<Rightarrow> Some (rd_slot_index rd)
                   | None \<Rightarrow> dict_get (req_to_slot sm) i))"

definition finished_output ::
  "sched_output \<Rightarrow> model_runner_output \<Rightarrow> sched \<Rightarrow> rid \<Rightarrow> engine_core_output" where
  "finished_output out mo s i =
     (case classify_finish_reason
             (map_option (\<lambda>r. r\<lparr>status := FINISHED_STOPPED\<rparr>) (dict_get (running_map s) i))
             (dict_get (so_request_data out) i)
             (dict_get_default (running_output_tokens s) i []) of
        (reason, stop) \<Rightarrow>
          \<lparr>eco_request_id = i, eco_new_token_ids = dict_get_default (mro_sampled_token_ids mo) i [],
           eco_new_logprobs = None, eco_finish_reason = Some reason, eco_stop_reason = stop\<rparr>)"

record update_state =
  us_sched :: sched
  us_freed :: "(rid \<times> nat) list"
  us_outputs :: "(rid, engine_core_outputs) dict"

definition retire :: "sched_output \<Rightarrow> model_runner_output \<Rightarrow> rid \<Rightarrow> update_state \<Rightarrow> update_state" where
  "retire out mo i u =
     (let s = us_sched u in
      if dict_get (running_output_tokens s) i = None \<and> dict_get (running_map s) i = None then u
      else if slot_manager_of s \<noteq> None \<and> freed_slot_of out s i = None
        then u\<lparr>us_sched := finish_running i s\<rparr>
      else u\<lparr>us_sched := finish_running i s,
             us_freed := us_freed u @ (case freed_slot_of out s i of None \<Rightarrow> [] | Some t \<Rightarrow> [(i, t)]),
             us_outputs := dict_set i (outputs_of [finished_output out mo s i]) (us_outputs u)\<rparr>)"

text \<open>Third loop: the new tokens of the requests that go on.\<close>

definition emit_tokens ::
  "model_runner_output \<Rightarrow> sched \<Rightarrow> rid \<Rightarrow> (rid, engine_core_outputs) dict
     \<Rightarrow> (rid, engine_core_outputs) dict" where
  "emit_tokens mo s i outs =
     (if dict_has outs i then outs
      else let toks = dict_get_default (mro_sampled_token_ids mo) i [] in
        if toks = [] then outs
        else if dict_get (running_output_tokens s) i = None then outs
        else dict_set i (outputs_of
               [\<lparr>eco_request_id = i, eco_new_token_ids = toks,
                 eco_new_logprobs =
                   (case mro_sampled_logprobs mo of None \<Rightarrow> None | Some l \<Rightarrow> dict_get l i),
                 eco_finish_reason = None, eco_stop_reason = None\<rparr>]) outs)"

definition update_from_output ::
  "sched_output \<Rightarrow> model_runner_output \<Rightarrow> sched
     \<Rightarrow> (rid, engine_core_outputs) dict \<times> sched_output \<times> sched" where
  "update_from_output out mo s =
     (case fold (record_tokens mo) (so_scheduled_req_ids out) (s, so_finished_req_ids out) of
        (s1, fin) \<Rightarrow>
          let u = fold (retire out mo) fin
                    \<lparr>us_sched = s1, us_freed = so_freed_slots out, us_outputs = []\<rparr>;
              outs = fold (emit_tokens mo (us_sched u)) (so_scheduled_req_ids out) (us_outputs u)
          in (outs, out\<lparr>so_finished_req_ids := fin, so_freed_slots := us_freed u\<rparr>, us_sched u))"

section \<open>Removing running requests\<close>

text \<open>The state after all requests with an id in \<open>I\<close> have left the three running views.\<close>

definition without :: "rid set \<Rightarrow> sched \<Rightarrow> sched" where
  "without I s =
     s\<lparr>running := filter (\<lambda>r. request_id r \<notin> I) (running s),
       running_map := filter (\<lambda>(k, _). k \<notin> I) (running_map s),
       running_output_tokens := filter (\<lambda>(k, _). k \<notin> I) (running_output_tokens s)\<rparr>"

lemma dict_del_filter: "dict_del i d = filter (\<lambda>(k, _). k \<notin> {i}) d"
  by (induction d) auto

lemma finish_running_without: "finish_running i s = without {i} s"
  by (simp add: finish_running_def without_def dict_del_filter)

lemma without_empty [simp]: "without {} s = s"
  by (simp add: without_def case_prod_unfold)

lemma without_without: "without I (without J s) = without (J \<union> I) s"
  by (auto simp: without_def case_prod_unfold intro!: filter_cong)

lemma filter_keys_get: "dict_get (filter (\<lambda>(k, _). k \<notin> I) d) i = (if i \<in> I then None else dict_get d i)"
  by (induction d) auto

lemma without_proj [simp]:
  "waiting (without I s) = waiting s" "skipped_waiting (without I s) = skipped_waiting s"
  "slot_manager_of (without I s) = slot_manager_of s" "sc_config (without I s) = sc_config s"
  "sc_max_model_len (without I s) = sc_max_model_len s"
  "running (without I s) = filter (\<lambda>r. request_id r \<notin> I) (running s)"
  "dict_get (running_map (without I s)) i = (if i \<in> I then None else dict_get (running_map s) i)"
  "dict_get (running_output_tokens (without I s)) i =
     (if i \<in> I then None else dict_get (running_output_tokens s) i)"
  by (simp_all add: without_def filter_keys_get)

lemma without_pending [simp]: "pending X (without I s) = pending X s"
  by (simp add: pending_def)

lemma without_inv [inv_intros]:
  assumes inv: "sched_inv X s"
  shows "sched_inv X (without I s)"
proof -
  have "running_map (without I s) = map (\<lambda>r. (request_id r, r)) (running (without I s))"
    using sched_invD(3) [OF inv] by (simp add: without_def filter_map comp_def)
  moreover have "dict_keys (running_output_tokens (without I s)) = map request_id (running (without I s))"
  proof -
    have "dict_keys (filter (\<lambda>(k, _). k \<notin> I) (running_output_tokens s)) =
        filter (\<lambda>k. k \<notin> I) (map request_id (running s))"
      using dict_filter_keys [of "\<lambda>k. k \<notin> I"] sched_invD(4) [OF inv] by metis
    then show ?thesis by (simp add: without_def filter_map comp_def)
  qed
  moreover have "count (all_ids X (without I s)) i \<le> 1" for i
  proof -
    have "all_ids X (without I s) \<subseteq># all_ids X s"
      by (auto simp: all_ids_def intro!: image_mset_subseteq_mono)
    then show ?thesis using sched_invD(5) [OF inv, of i] by (meson le_trans mset_subset_eq_count)
  qed
  moreover have "slots_inv X (without I s)"
    using sched_invD(8) [OF inv] by (cases "slot_manager_of s") (auto simp: slots_inv_def)
  ultimately show ?thesis
    using inv by (auto simp: sched_inv_def)
qed

lemma filter_keys_id: "I \<inter> set (dict_keys d) = {} \<Longrightarrow> filter (\<lambda>(k, _). k \<notin> I) d = d"
  by (induction d) auto

lemma without_absent:
  assumes "sched_inv X s" and "I \<inter> request_id ` set (running s) = {}"
  shows "without I s = s"
proof -
  have r: "filter (\<lambda>r. request_id r \<notin> I) (running s) = running s"
    using assms(2) by (auto intro!: filter_True)
  have "set (dict_keys (running_map s)) = request_id ` set (running s)"
    using sched_invD(3) [OF assms(1)] by (simp add: image_image)
  then have m: "filter (\<lambda>(k, _). k \<notin> I) (running_map s) = running_map s"
    using assms(2) by (intro filter_keys_id) simp
  have "set (dict_keys (running_output_tokens s)) = request_id ` set (running s)"
    using arg_cong [OF sched_invD(4) [OF assms(1)], of set] by simp
  then have o: "filter (\<lambda>(k, _). k \<notin> I) (running_output_tokens s) = running_output_tokens s"
    using assms(2) by (intro filter_keys_id) simp
  show ?thesis by (simp add: without_def r m o)
qed

lemma running_map_get:
  assumes "sched_inv X s"
  shows "dict_get (running_map s) i = Some r \<longleftrightarrow> r \<in> set (running s) \<and> request_id r = i"
proof -
  have d: "dict_ok (running_map s)"
    using running_ids_distinct [OF assms] sched_invD(3) [OF assms] by (simp add: comp_def)
  have "dict_get (running_map s) i = Some r \<longleftrightarrow> (i, r) \<in> set (running_map s)"
    using dict_in_get [OF d] dict_get_in by metis
  then show ?thesis using sched_invD(3) [OF assms] by auto
qed

lemma running_map_None:
  assumes "sched_inv X s"
  shows "dict_get (running_map s) i = None \<longleftrightarrow> i \<notin> request_id ` set (running s)"
  using sched_invD(3) [OF assms] by (auto simp: dict_get_None_keys)

lemma output_tokens_None:
  assumes "sched_inv X s"
  shows "dict_get (running_output_tokens s) i = None \<longleftrightarrow> i \<notin> request_id ` set (running s)"
  using arg_cong [OF sched_invD(4) [OF assms], of set] by (simp add: dict_get_None_keys)

section \<open>The first loop\<close>

lemma record_tokens_inv:
  assumes inv: "sched_inv X s" and step: "record_tokens mo i (s, fin) = (s', fin')"
  shows "sched_inv X s'" and "all_ids X s' = all_ids X s" and "same_config s s'"
    and "slot_manager_of s' = slot_manager_of s"
    and "map (\<lambda>r. r\<lparr>num_output_tokens := 0\<rparr>) (running s') =
         map (\<lambda>r. r\<lparr>num_output_tokens := 0\<rparr>) (running s)"
    and "pending X s' = pending X s"
proof -
  let ?goal = "sched_inv X s' \<and> all_ids X s' = all_ids X s \<and> same_config s s' \<and>
    slot_manager_of s' = slot_manager_of s \<and>
    map (\<lambda>r. r\<lparr>num_output_tokens := 0\<rparr>) (running s') =
      map (\<lambda>r. r\<lparr>num_output_tokens := 0\<rparr>) (running s) \<and> pending X s' = pending X s"
  have ?goal
  proof (cases "dict_get (running_output_tokens s) i")
    case None
    with step inv show ?thesis by (simp add: record_tokens_def same_config_def)
  next
    case (Some old)
    let ?outs = "old @ dict_get_default (mro_sampled_token_ids mo) i []"
    let ?s1 = "s\<lparr>running_output_tokens := dict_set i ?outs (running_output_tokens s)\<rparr>"
    let ?f = "\<lambda>q. q\<lparr>num_output_tokens := int (length ?outs)\<rparr>"
    have keys: "dict_keys (dict_set i ?outs (running_output_tokens s)) = dict_keys (running_output_tokens s)"
      using Some by (intro dict_set_keys_old) simp
    have i1: "sched_inv X ?s1"
    proof -
      have "slots_inv X ?s1 = slots_inv X s"
        by (cases "slot_manager_of s") (simp_all add: slots_inv_def pending_def)
      with inv keys show ?thesis by (simp add: sched_inv_def all_ids_def pending_def)
    qed
    have "s' = ?s1 \<or> s' = set_running i ?f ?s1"
      using step Some by (auto simp: record_tokens_def Let_def split: option.splits if_splits)
    then show ?thesis
    proof
      assume "s' = ?s1"
      with i1 show ?thesis by (simp add: all_ids_def pending_def same_config_def)
    next
      assume s': "s' = set_running i ?f ?s1"
      have "map (\<lambda>r. r\<lparr>num_output_tokens := 0\<rparr>) (running s') =
          map (\<lambda>r. r\<lparr>num_output_tokens := 0\<rparr>) (running s)"
        by (auto simp: s' set_running_def)
      moreover have "sched_inv X s'" "all_ids X s' = all_ids X ?s1"
        unfolding s' using set_running_inv [OF i1, of ?f i] by simp_all
      ultimately show ?thesis
        by (simp add: s' set_running_def same_config_def all_ids_def pending_def)
    qed
  qed
  then show "sched_inv X s'" "all_ids X s' = all_ids X s" "same_config s s'"
    "slot_manager_of s' = slot_manager_of s"
    "map (\<lambda>r. r\<lparr>num_output_tokens := 0\<rparr>) (running s') =
     map (\<lambda>r. r\<lparr>num_output_tokens := 0\<rparr>) (running s)" "pending X s' = pending X s" by blast+
qed

text \<open>A request that is over: an end or stop token was sampled for it.\<close>

definition sampled_end :: "model_runner_output \<Rightarrow> sched \<Rightarrow> rid \<Rightarrow> bool" where
  "sampled_end mo s i \<longleftrightarrow>
     (\<exists>r \<in> set (running s). request_id r = i \<and>
        (let toks = dict_get_default (mro_sampled_token_ids mo) i []
         in hits_eos (req_sampling_params r) toks \<or> hits_stop (req_sampling_params r) toks))"

lemma sampled_end_cong:
  assumes "map (\<lambda>r. r\<lparr>num_output_tokens := 0\<rparr>) (running s') =
           map (\<lambda>r. r\<lparr>num_output_tokens := 0\<rparr>) (running s)"
  shows "sampled_end mo s' i = sampled_end mo s i" 
    and "request_id ` set (running s') = request_id ` set (running s)"
proof -
  have key: "(\<lambda>r. (request_id r, req_sampling_params r)) ` set (running s') =
        (\<lambda>r. (request_id r, req_sampling_params r)) ` set (running s)"
  proof -
    have "(\<lambda>r. (request_id r, req_sampling_params r)) ` (\<lambda>r. r\<lparr>num_output_tokens := 0\<rparr>) ` set (running s') =
        (\<lambda>r. (request_id r, req_sampling_params r)) ` (\<lambda>r. r\<lparr>num_output_tokens := 0\<rparr>) ` set (running s)"
      using arg_cong [OF assms, of set] by simp
    then show ?thesis by (simp add: image_image)
  qed
  have eq: "sampled_end mo t i \<longleftrightarrow>
      (\<exists>(k, sp) \<in> (\<lambda>r. (request_id r, req_sampling_params r)) ` set (running t). k = i \<and>
        (let toks = dict_get_default (mro_sampled_token_ids mo) i []
         in hits_eos sp toks \<or> hits_stop sp toks))" for t
    by (auto simp: sampled_end_def)
  show "sampled_end mo s' i = sampled_end mo s i" unfolding eq key ..
  show "request_id ` set (running s') = request_id ` set (running s)"
    using arg_cong [OF key, of "image fst"] by (simp add: image_image)
qed

lemma record_tokens_at:
  assumes inv: "sched_inv X s" and step: "record_tokens mo i (s, fin) = (s', fin')"
  shows "dict_get (running_output_tokens s') j =
      (if j = i then map_option (\<lambda>old. old @ dict_get_default (mro_sampled_token_ids mo) i [])
                      (dict_get (running_output_tokens s) i)
       else dict_get (running_output_tokens s) j)"
    and "set fin' = set fin \<union> (if sampled_end mo s i then {i} else {})"
    and "distinct fin \<Longrightarrow> distinct fin'"
proof -
  have end_iff: "sampled_end mo s i \<longleftrightarrow> (case dict_get (running_map s) i of None \<Rightarrow> False
      | Some r \<Rightarrow> (let toks = dict_get_default (mro_sampled_token_ids mo) i []
         in hits_eos (req_sampling_params r) toks \<or> hits_stop (req_sampling_params r) toks))"
    using running_map_get [OF inv, of i] running_map_None [OF inv, of i]
    by (cases "dict_get (running_map s) i") (auto simp: sampled_end_def, metis option.inject)
  have none: "dict_get (running_output_tokens s) i = None \<longleftrightarrow> dict_get (running_map s) i = None"
    using running_map_None [OF inv] output_tokens_None [OF inv] by simp
  show "dict_get (running_output_tokens s') j =
      (if j = i then map_option (\<lambda>old. old @ dict_get_default (mro_sampled_token_ids mo) i [])
                      (dict_get (running_output_tokens s) i)
       else dict_get (running_output_tokens s) j)"
    using step by (auto simp: record_tokens_def Let_def set_running_def split: option.splits if_splits)
  show "set fin' = set fin \<union> (if sampled_end mo s i then {i} else {})"
    using step none unfolding end_iff
    by (auto simp: record_tokens_def Let_def split: option.splits if_splits)
  show "distinct fin \<Longrightarrow> distinct fin'"
    using step by (auto simp: record_tokens_def Let_def split: option.splits if_splits)
qed

lemma record_all:
  assumes "sched_inv X s" and "distinct fin"
    and "fold (record_tokens mo) ids (s, fin) = (s', fin')" and "distinct ids"
  shows "sched_inv X s' \<and> all_ids X s' = all_ids X s \<and> same_config s s' \<and>
    slot_manager_of s' = slot_manager_of s \<and> pending X s' = pending X s \<and>
    map (\<lambda>r. r\<lparr>num_output_tokens := 0\<rparr>) (running s') =
      map (\<lambda>r. r\<lparr>num_output_tokens := 0\<rparr>) (running s) \<and>
    (\<forall>j. dict_get (running_output_tokens s') j =
       (if j \<in> set ids
        then map_option (\<lambda>old. old @ dict_get_default (mro_sampled_token_ids mo) j [])
               (dict_get (running_output_tokens s) j)
        else dict_get (running_output_tokens s) j)) \<and>
    set fin' = set fin \<union> {i \<in> set ids. sampled_end mo s i} \<and> distinct fin'"
  using assms
proof (induction ids arbitrary: s fin)
  case (Cons i ids)
  obtain s1 f1 where st: "record_tokens mo i (s, fin) = (s1, f1)" by fastforce
  note inv = record_tokens_inv [OF Cons.prems(1) st]
  note at = record_tokens_at [OF Cons.prems(1) st]
  have "fold (record_tokens mo) ids (s1, f1) = (s', fin')" using Cons.prems(3) st by simp
  from Cons.IH [OF inv(1) at(3) [OF Cons.prems(2)] this] Cons.prems(4)
  have IH: "sched_inv X s'" "all_ids X s' = all_ids X s1" "same_config s1 s'"
    "slot_manager_of s' = slot_manager_of s1" "pending X s' = pending X s1"
    "map (\<lambda>r. r\<lparr>num_output_tokens := 0\<rparr>) (running s') =
      map (\<lambda>r. r\<lparr>num_output_tokens := 0\<rparr>) (running s1)"
    "\<And>j. dict_get (running_output_tokens s') j =
       (if j \<in> set ids
        then map_option (\<lambda>old. old @ dict_get_default (mro_sampled_token_ids mo) j [])
               (dict_get (running_output_tokens s1) j)
        else dict_get (running_output_tokens s1) j)"
    "set fin' = set f1 \<union> {i \<in> set ids. sampled_end mo s1 i}" "distinct fin'" by simp_all
  have "set fin' = set fin \<union> {j \<in> set (i # ids). sampled_end mo s j}"
    using IH(8) at(2) sampled_end_cong(1) [OF inv(5)] by auto
  moreover have "dict_get (running_output_tokens s') j =
       (if j \<in> set (i # ids)
        then map_option (\<lambda>old. old @ dict_get_default (mro_sampled_token_ids mo) j [])
               (dict_get (running_output_tokens s) j)
        else dict_get (running_output_tokens s) j)" for j
    using IH(7) [of j] at(1) [of j] Cons.prems(4) by auto
  moreover have "same_config s s'" using inv(3) IH(3) by (rule same_config_trans)
  ultimately show ?case using IH(1,2,4,5,6,9) inv by simp
qed (simp add: same_config_def)

section \<open>The second loop\<close>

text \<open>What retiring a running request emits.\<close>

definition retired_output ::
  "sched_output \<Rightarrow> model_runner_output \<Rightarrow> sched \<Rightarrow> rid \<Rightarrow> engine_core_outputs" where
  "retired_output out mo s i = outputs_of [finished_output out mo s i]"

lemma retire_cases:
  assumes inv: "sched_inv X (us_sched u)"
  shows "us_sched (retire out mo i u) = without {i} (us_sched u)"
    and "us_freed (retire out mo i u) = us_freed u @
      (if i \<in> request_id ` set (running (us_sched u))
       then (case freed_slot_of out (us_sched u) i of None \<Rightarrow> [] | Some t \<Rightarrow> [(i, t)]) else [])"
    and "dict_get (us_outputs (retire out mo i u)) j =
      (if j = i \<and> i \<in> request_id ` set (running (us_sched u)) \<and>
          (slot_manager_of (us_sched u) = None \<or> freed_slot_of out (us_sched u) i \<noteq> None)
       then Some (retired_output out mo (us_sched u) i) else dict_get (us_outputs u) j)"
proof -
  let ?s = "us_sched u"
  have gone: "dict_get (running_output_tokens ?s) i = None \<and> dict_get (running_map ?s) i = None \<longleftrightarrow>
      i \<notin> request_id ` set (running ?s)"
    using running_map_None [OF inv] output_tokens_None [OF inv] by simp
  have absent: "i \<notin> request_id ` set (running ?s) \<Longrightarrow> without {i} ?s = ?s"
    using without_absent [OF inv, of "{i}"] by simp
  show "us_sched (retire out mo i u) = without {i} ?s"
    using absent unfolding retire_def Let_def gone finish_running_without by auto
  show "us_freed (retire out mo i u) = us_freed u @
      (if i \<in> request_id ` set (running ?s)
       then (case freed_slot_of out ?s i of None \<Rightarrow> [] | Some t \<Rightarrow> [(i, t)]) else [])"
    unfolding retire_def Let_def gone by (auto split: option.split)
  show "dict_get (us_outputs (retire out mo i u)) j =
      (if j = i \<and> i \<in> request_id ` set (running ?s) \<and>
          (slot_manager_of ?s = None \<or> freed_slot_of out ?s i \<noteq> None)
       then Some (retired_output out mo ?s i) else dict_get (us_outputs u) j)"
    unfolding retire_def Let_def gone retired_output_def by auto
qed

lemma freed_slot_of_cong:
  "slot_manager_of s' = slot_manager_of s \<Longrightarrow> freed_slot_of out s' i = freed_slot_of out s i"
  by (simp add: freed_slot_of_def)

lemma retired_output_without:
  "j \<noteq> i \<Longrightarrow> retired_output out mo (without {i} s) j = retired_output out mo s j"
  by (simp add: retired_output_def finished_output_def dict_get_default_def)

lemma retire_all:
  assumes "sched_inv X (us_sched u)" and "distinct fin"
  shows "us_sched (fold (retire out mo) fin u) = without (set fin) (us_sched u) \<and>
    us_freed (fold (retire out mo) fin u) = us_freed u @
      concat (map (\<lambda>i. case freed_slot_of out (us_sched u) i of None \<Rightarrow> [] | Some t \<Rightarrow> [(i, t)])
        (filter (\<lambda>i. i \<in> request_id ` set (running (us_sched u))) fin)) \<and>
    (\<forall>j. dict_get (us_outputs (fold (retire out mo) fin u)) j =
      (if j \<in> set fin \<and> j \<in> request_id ` set (running (us_sched u)) \<and>
          (slot_manager_of (us_sched u) = None \<or> freed_slot_of out (us_sched u) j \<noteq> None)
       then Some (retired_output out mo (us_sched u) j) else dict_get (us_outputs u) j))"
  using assms
proof (induction fin arbitrary: u)
  case (Cons i fin)
  let ?s = "us_sched u" and ?u = "retire out mo i u"
  note rc = retire_cases [OF Cons.prems(1), of out mo i]
  have inv1: "sched_inv X (us_sched ?u)" unfolding rc(1) by (rule without_inv [OF Cons.prems(1)])
  have ni: "i \<notin> set fin" "distinct fin" using Cons.prems(2) by simp_all
  note IH = Cons.IH [OF inv1 ni(2)]
  have fs: "freed_slot_of out (us_sched ?u) j = freed_slot_of out ?s j" for j
    by (rule freed_slot_of_cong) (simp add: rc(1))
  have run: "j \<in> request_id ` set (running (us_sched ?u)) \<longleftrightarrow>
      j \<noteq> i \<and> j \<in> request_id ` set (running ?s)" for j
    by (auto simp: rc(1))
  have filt: "filter (\<lambda>j. j \<in> request_id ` set (running (us_sched ?u))) fin =
      filter (\<lambda>j. j \<in> request_id ` set (running ?s)) fin"
    using ni(1) run by (intro filter_cong) auto
  have "us_sched (fold (retire out mo) (i # fin) u) = without (set (i # fin)) ?s"
    using IH by (simp add: rc(1) without_without)
  moreover have "us_freed (fold (retire out mo) (i # fin) u) = us_freed u @
      concat (map (\<lambda>i. case freed_slot_of out ?s i of None \<Rightarrow> [] | Some t \<Rightarrow> [(i, t)])
        (filter (\<lambda>i. i \<in> request_id ` set (running ?s)) (i # fin)))"
    using IH fs filt by (simp add: rc(2))
  moreover have "dict_get (us_outputs (fold (retire out mo) (i # fin) u)) j =
      (if j \<in> set (i # fin) \<and> j \<in> request_id ` set (running ?s) \<and>
          (slot_manager_of ?s = None \<or> freed_slot_of out ?s j \<noteq> None)
       then Some (retired_output out mo ?s j) else dict_get (us_outputs u) j)" for j
  proof (cases "j = i")
    case True
    then have "dict_get (us_outputs (fold (retire out mo) (i # fin) u)) j =
        dict_get (us_outputs ?u) j" using IH ni(1) by simp
    with True show ?thesis unfolding rc(3) by auto
  next
    case False
    have "retired_output out mo (us_sched ?u) j = retired_output out mo ?s j"
      unfolding rc(1) by (rule retired_output_without [OF False])
    moreover have "slot_manager_of (us_sched ?u) = slot_manager_of ?s" by (simp add: rc(1))
    ultimately show ?thesis
      using False conjunct2 [OF conjunct2 [OF IH], THEN spec, of j] run [of j] fs [of j] rc(3) [of j]
      by (auto split: if_splits)
  qed
  ultimately show ?case by blast
qed simp

section \<open>The third loop\<close>

lemma emit_all:
  "dict_get (fold (emit_tokens mo s) ids outs) j =
     (case dict_get outs j of
        Some v \<Rightarrow> Some v
      | None \<Rightarrow>
          if j \<in> set ids \<and> dict_get_default (mro_sampled_token_ids mo) j [] \<noteq> [] \<and>
             dict_get (running_output_tokens s) j \<noteq> None
          then Some (outputs_of
               [\<lparr>eco_request_id = j, eco_new_token_ids = dict_get_default (mro_sampled_token_ids mo) j [],
                 eco_new_logprobs =
                   (case mro_sampled_logprobs mo of None \<Rightarrow> None | Some l \<Rightarrow> dict_get l j),
                 eco_finish_reason = None, eco_stop_reason = None\<rparr>])
          else None)"
proof (induction ids arbitrary: outs)
  case (Cons i ids)
  show ?case unfolding fold_simps(2) comp_def Cons.IH
    by (auto simp: emit_tokens_def Let_def dict_has_iff split: option.split)
qed (simp split: option.split)

section \<open>All of \<open>update_from_output\<close>\<close>

lemma update_spec:
  assumes inv: "sched_wf s" and dist: "distinct (so_scheduled_req_ids out)" "distinct (so_finished_req_ids out)"
    and run: "update_from_output out mo s = (outs, out', s')"
  obtains s1 fin where "sched_wf s1" "slot_manager_of s1 = slot_manager_of s" "same_config s s1"
    "map (\<lambda>r. r\<lparr>num_output_tokens := 0\<rparr>) (running s1) =
      map (\<lambda>r. r\<lparr>num_output_tokens := 0\<rparr>) (running s)"
    "pending {#} s1 = pending {#} s"
    "\<And>j. dict_get (running_output_tokens s1) j =
       (if j \<in> set (so_scheduled_req_ids out)
        then map_option (\<lambda>old. old @ dict_get_default (mro_sampled_token_ids mo) j [])
               (dict_get (running_output_tokens s) j)
        else dict_get (running_output_tokens s) j)"
    "set fin = set (so_finished_req_ids out) \<union> {i \<in> set (so_scheduled_req_ids out). sampled_end mo s i}"
    "distinct fin" "s' = without (set fin) s1"
    "out' = out\<lparr>so_finished_req_ids := fin, so_freed_slots := so_freed_slots out @
       concat (map (\<lambda>i. case freed_slot_of out s i of None \<Rightarrow> [] | Some t \<Rightarrow> [(i, t)])
        (filter (\<lambda>i. i \<in> request_id ` set (running s)) fin))\<rparr>"
    "\<And>j. dict_get outs j =
      (if j \<in> set fin \<and> j \<in> request_id ` set (running s) \<and>
          (slot_manager_of s = None \<or> freed_slot_of out s j \<noteq> None)
       then Some (retired_output out mo s1 j)
       else if j \<in> set (so_scheduled_req_ids out) \<and> dict_get_default (mro_sampled_token_ids mo) j [] \<noteq> [] \<and>
         j \<in> request_id ` set (running s) \<and> j \<notin> set fin
       then Some (outputs_of
               [\<lparr>eco_request_id = j, eco_new_token_ids = dict_get_default (mro_sampled_token_ids mo) j [],
                 eco_new_logprobs =
                   (case mro_sampled_logprobs mo of None \<Rightarrow> None | Some l \<Rightarrow> dict_get l j),
                 eco_finish_reason = None, eco_stop_reason = None\<rparr>])
       else None)"
proof -
  obtain s1 fin where rec: "fold (record_tokens mo) (so_scheduled_req_ids out) (s, so_finished_req_ids out) = (s1, fin)"
    by fastforce
  note r = record_all [OF inv dist(2) rec dist(1)]
  let ?u0 = "\<lparr>us_sched = s1, us_freed = so_freed_slots out, us_outputs = []\<rparr>"
  have s1: "sched_wf (us_sched ?u0)" "distinct fin" using r by simp_all
  note u = retire_all [OF s1, of out mo]
  have ids: "request_id ` set (running s1) = request_id ` set (running s)"
    using sampled_end_cong(2) r by blast
  have fs: "freed_slot_of out s1 j = freed_slot_of out s j" for j
    using r by (intro freed_slot_of_cong) blast
  have us: "us_sched (fold (retire out mo) fin ?u0) = without (set fin) s1" using u by simp
  have outs: "outs = fold (emit_tokens mo (without (set fin) s1)) (so_scheduled_req_ids out)
      (us_outputs (fold (retire out mo) fin ?u0))" and s': "s' = without (set fin) s1"
    and out': "out' = out\<lparr>so_finished_req_ids := fin,
      so_freed_slots := us_freed (fold (retire out mo) fin ?u0)\<rparr>"
    using run unfolding update_from_output_def rec prod.case Let_def us by auto
  have rot: "dict_get (running_output_tokens (without (set fin) s1)) j \<noteq> None \<longleftrightarrow>
      j \<notin> set fin \<and> j \<in> request_id ` set (running s)" for j
    using output_tokens_None [of "{#}" s1 j] s1(1) ids by auto
  show thesis
  proof (rule that)
    show "out' = out\<lparr>so_finished_req_ids := fin, so_freed_slots := so_freed_slots out @
       concat (map (\<lambda>i. case freed_slot_of out s i of None \<Rightarrow> [] | Some t \<Rightarrow> [(i, t)])
        (filter (\<lambda>i. i \<in> request_id ` set (running s)) fin))\<rparr>"
      using u by (simp add: out' fs ids)
    show "dict_get outs j =
      (if j \<in> set fin \<and> j \<in> request_id ` set (running s) \<and>
          (slot_manager_of s = None \<or> freed_slot_of out s j \<noteq> None)
       then Some (retired_output out mo s1 j)
       else if j \<in> set (so_scheduled_req_ids out) \<and> dict_get_default (mro_sampled_token_ids mo) j [] \<noteq> [] \<and>
         j \<in> request_id ` set (running s) \<and> j \<notin> set fin
       then Some (outputs_of
               [\<lparr>eco_request_id = j, eco_new_token_ids = dict_get_default (mro_sampled_token_ids mo) j [],
                 eco_new_logprobs =
                   (case mro_sampled_logprobs mo of None \<Rightarrow> None | Some l \<Rightarrow> dict_get l j),
                 eco_finish_reason = None, eco_stop_reason = None\<rparr>])
       else None)" for j
      unfolding outs emit_all rot using u r by (simp add: fs ids)
  qed (use r s' in auto)
qed

text \<open>The freed slots are the finished running requests' own.\<close>

lemma update_freed:
  assumes inv: "sched_wf s" and dist: "distinct (so_scheduled_req_ids out)" "distinct (so_finished_req_ids out)"
    and sm: "slot_manager_of s = Some sm" and fresh: "so_freed_slots out = []"
    and own: "\<And>i. i \<in> request_id ` set (running s) \<Longrightarrow> freed_slot_of out s i = dict_get (req_to_slot sm) i"
    and run: "update_from_output out mo s = (outs, out', s')"
  shows "slot_owner_ok (so_freed_slots out') sm"
    and "fst ` set (so_freed_slots out') = set (so_finished_req_ids out') \<inter> request_id ` set (running s)"
proof -
  obtain fin where fin: "distinct fin" "so_finished_req_ids out' = fin"
    "so_freed_slots out' = concat (map (\<lambda>i. case freed_slot_of out s i of None \<Rightarrow> [] | Some t \<Rightarrow> [(i, t)])
        (filter (\<lambda>i. i \<in> request_id ` set (running s)) fin))"
  proof (cases rule: update_spec [OF inv dist run])
    case (1 s1 fin)
    show thesis by (rule that [OF 1(8)]) (simp_all add: 1(10) fresh)
  qed
  let ?L = "filter (\<lambda>i. i \<in> request_id ` set (running s)) fin"
  have some: "\<exists>t. freed_slot_of out s i = Some t \<and> dict_get (req_to_slot sm) i = Some t" if "i \<in> set ?L" for i
    using that own [of i] sched_invD(8) [OF inv] sm by (auto simp: slots_inv_def)
  have eq: "so_freed_slots out' = map (\<lambda>i. (i, the (freed_slot_of out s i))) ?L"
    unfolding fin(3) using some
    by (induction fin) (force split: option.split)+
  then have fsts: "map fst (so_freed_slots out') = ?L" by (simp add: comp_def)
  have "dict_get (req_to_slot sm) i = Some t" if "(i, t) \<in> set (so_freed_slots out')" for i t
    using that some unfolding eq by fastforce
  then show "slot_owner_ok (so_freed_slots out') sm"
    using fin(1) by (auto simp: slot_owner_ok_def fsts)
  show "fst ` set (so_freed_slots out') = set (so_finished_req_ids out') \<inter> request_id ` set (running s)"
    using arg_cong [OF fsts, of set] fin(2) by auto
qed

lemma running_has_freed_slot:
  assumes "sched_wf s" and "i \<in> request_id ` set (running s)"
  shows "slot_manager_of s = None \<or> freed_slot_of out s i \<noteq> None"
  using sched_invD(8) [OF assms(1)] assms(2)
  by (cases "slot_manager_of s") (auto simp: slots_inv_def freed_slot_of_def split: option.splits)

section \<open>Draining\<close>

lemma drain_queue_spec:
  "\<exists>ids q'. drain_queue q done = Inr (done @ ids, q') \<and> mset ids = image_mset request_id (rq_elems q) \<and>
     \<not> rq_bool q'"
proof (induction q "done" rule: drain_queue.induct)
  case (1 q "done")
  show ?case
  proof (cases "rq_bool q")
    case True
    then obtain r q1 where pop: "rq_pop_request q = Inr (r, q1)" using rq.pop_ok by fastforce
    obtain ids q' where "drain_queue q1 (done @ [request_id r]) = Inr ((done @ [request_id r]) @ ids, q')"
      "mset ids = image_mset request_id (rq_elems q1)" "\<not> rq_bool q'"
      using 1 [OF True] pop by blast
    then show ?thesis using True pop rq.elems_pop [OF pop] by (subst drain_queue.simps) auto
  next
    case False
    then have "rq_elems q = {#}" using rq.nonempty_iff by simp
    with False show ?thesis by (subst drain_queue.simps) simp
  qed
qed

lemma pop_running_spec:
  "pop_running rs (done, s) =
     (done @ map request_id rs,
      s\<lparr>running := (butlast ^^ length rs) (running s),
        running_map := filter (\<lambda>(k, _). k \<notin> request_id ` set rs) (running_map s),
        running_output_tokens := filter (\<lambda>(k, _). k \<notin> request_id ` set rs) (running_output_tokens s)\<rparr>)"
proof (induction rs arbitrary: "done" s)
  case (Cons r rs)
  then show ?case
    by (simp add: dict_del_filter funpow_swap1 case_prod_unfold conj_commute)
qed (simp add: case_prod_unfold)

lemma butlast_all: "(butlast ^^ length xs) xs = []"
  by (induction xs rule: rev_induct) (simp_all add: funpow_swap1)

text \<open>The model's answer to the batch of the concrete scheduler: the end token for one request.\<close>

definition demo_sampled :: model_runner_output where
  "demo_sampled = \<lparr>mro_sampled_token_ids = [(''b'', [0])], mro_sampled_logprobs = None\<rparr>"

lemma demo_out_distinct: "distinct (so_scheduled_req_ids demo_out)" "distinct (so_finished_req_ids demo_out)"
  by code_simp+

section \<open>Properties\<close>

text \<open>
  C16: updating from the model's output retires exactly the finished requests. The finished set
  becomes the given one plus every scheduled running request for which an end or stop token was
  sampled; those requests leave all running views, all others stay in order, the queues are not
  touched, and the scheduler's invariant holds again.
\<close>

theorem update_retires_finished:
  assumes "sched_wf s" and "distinct (so_scheduled_req_ids out)" and "distinct (so_finished_req_ids out)"
    and "update_from_output out mo s = (outs, out', s')"
  shows "sched_wf s' \<and>
    set (so_finished_req_ids out') =
      set (so_finished_req_ids out) \<union> {i \<in> set (so_scheduled_req_ids out). sampled_end mo s i} \<and>
    map request_id (running s') =
      filter (\<lambda>i. i \<notin> set (so_finished_req_ids out')) (map request_id (running s)) \<and>
    pending {#} s' = pending {#} s"
  using assms
proof (cases rule: update_spec)
  case (1 s1 fin)
  have "map request_id (map (\<lambda>r. r\<lparr>num_output_tokens := 0\<rparr>) (running s1)) =
      map request_id (map (\<lambda>r. r\<lparr>num_output_tokens := 0\<rparr>) (running s))"
    using 1(4) by simp
  then have ids: "map request_id (running s1) = map request_id (running s)" by (simp add: comp_def)
  have "map request_id (running s') = filter (\<lambda>i. i \<notin> set fin) (map request_id (running s1))"
    by (simp add: 1(9) filter_map comp_def)
  then show ?thesis using 1 without_inv [OF 1(1)] ids by simp
qed

theorem update_retires_finished_witness:
  "case update_from_output demo_out demo_sampled demo_sched2 of (_, out', s') \<Rightarrow>
     sched_wf s' \<and> set (so_finished_req_ids out') = {''b''} \<and> map request_id (running s') = [''a'']"
proof -
  obtain outs out' s' where run: "update_from_output demo_out demo_sampled demo_sched2 = (outs, out', s')"
    by (rule prod_cases3)
  have "so_finished_req_ids (fst (snd (update_from_output demo_out demo_sampled demo_sched2))) = [''b'']"
    by code_simp
  with update_retires_finished [OF demo2_wf demo_out_distinct run] demo_values(2) run
  show ?thesis by simp
qed

text \<open>
  C15: every sampled token is delivered exactly once, and nothing is delivered for a request
  that no longer runs. The tokens sampled for a scheduled running request are appended to its
  record and are the new tokens of its one output of this step, which carries a finish reason
  if and only if the request is finished; a request not running gets no output at all, even
  when it is named in the batch (stale outputs of an earlier batch).
\<close>

theorem update_delivers_tokens:
  assumes "sched_wf s" and "distinct (so_scheduled_req_ids out)" and "distinct (so_finished_req_ids out)"
    and "update_from_output out mo s = (outs, out', s')"
    and "toks = dict_get_default (mro_sampled_token_ids mo) i []"
  shows "(i \<in> request_id ` set (running s) \<and> i \<in> set (so_scheduled_req_ids out) \<and> toks \<noteq> [] \<longrightarrow>
      (\<exists>e. dict_get outs i = Some (outputs_of [e]) \<and> eco_request_id e = i \<and>
           eco_new_token_ids e = toks \<and>
           (eco_finish_reason e \<noteq> None \<longleftrightarrow> i \<in> set (so_finished_req_ids out')) \<and>
           (i \<notin> set (so_finished_req_ids out') \<longrightarrow>
              dict_get (running_output_tokens s') i =
                map_option (\<lambda>old. old @ toks) (dict_get (running_output_tokens s) i)))) \<and>
    (i \<notin> request_id ` set (running s) \<longrightarrow> dict_get outs i = None)"
  using assms(1-4)
proof (cases rule: update_spec)
  case (1 s1 fin)
  have fin: "so_finished_req_ids out' = fin" by (simp add: 1(10))
  show ?thesis
  proof (cases "i \<in> request_id ` set (running s)")
    case True
    note slot = running_has_freed_slot [OF assms(1) True, of out]
    show ?thesis
    proof (cases "i \<in> set fin")
      case in_fin: True
      have "dict_get outs i = Some (retired_output out mo s1 i)"
        using 1(11) [of i] True in_fin slot by simp
      with True in_fin fin assms(5) show ?thesis
        by (auto simp: retired_output_def finished_output_def split: prod.split)
    next
      case False
      with True fin assms(5) 1(6) [of i] 1(11) [of i] 1(9) show ?thesis by auto
    qed
  next
    case False
    with 1(11) [of i] show ?thesis by auto
  qed
qed

theorem update_delivers_tokens_witness:
  "case update_from_output demo_out demo_sampled demo_sched2 of (outs, _, _) \<Rightarrow>
     (\<exists>e. dict_get outs ''b'' = Some (outputs_of [e]) \<and> eco_new_token_ids e = [0]) \<and>
     dict_get outs ''c'' = None"
proof -
  obtain outs out' s' where run: "update_from_output demo_out demo_sampled demo_sched2 = (outs, out', s')"
    by (rule prod_cases3)
  have ids: "request_id ` set (running demo_sched2) = {''a'', ''b''}"
    using arg_cong [OF demo_values(2), of set] by simp
  have "dict_get_default (mro_sampled_token_ids demo_sampled) ''b'' [] = [0]"
    by (simp add: demo_sampled_def dict_get_default_def)
  with update_delivers_tokens [OF demo2_wf demo_out_distinct run refl, of "''b''"]
    update_delivers_tokens [OF demo2_wf demo_out_distinct run refl, of "''c''"] demo_values(1) ids run
  show ?thesis by auto
qed

text \<open>
  A request that samples its end-of-sequence token is finished with reason \<^verbatim>\<open>eos\<close> and
  that token as the stop reason.
\<close>

theorem eos_finishes_request:
  assumes "sched_wf s" and "distinct (so_scheduled_req_ids out)" and "distinct (so_finished_req_ids out)"
    and "update_from_output out mo s = (outs, out', s')"
    and "r \<in> set (running s)" and "request_id r \<in> set (so_scheduled_req_ids out)"
    and "dict_get (so_request_data out) (request_id r) = Some rd" and "rd_is_decode rd \<or> rd_is_last_prefill rd"
    and "dict_get (mro_sampled_token_ids mo) (request_id r) = Some [e]"
    and "sp_eos_token_id (req_sampling_params r) = Some e" and "\<not> sp_ignore_eos (req_sampling_params r)"
  shows "\<exists>o1. dict_get outs (request_id r) = Some (outputs_of [o1]) \<and>
    eco_new_token_ids o1 = [e] \<and> eco_finish_reason o1 = Some ''eos'' \<and>
    eco_stop_reason o1 = Some (StopTok e) \<and> request_id r \<notin> request_id ` set (running s')"
  using assms(1-4)
proof (cases rule: update_spec)
  case (1 s1 fin)
  let ?i = "request_id r"
  have toks: "dict_get_default (mro_sampled_token_ids mo) ?i [] = [e]"
    using assms(9) by (simp add: dict_get_default_def)
  have run: "?i \<in> request_id ` set (running s)" using assms(5) by simp
  have "hits_eos (req_sampling_params r) [e]" using assms(10,11) by (simp add: hits_eos_def)
  then have "sampled_end mo s ?i" using assms(5) toks unfolding sampled_end_def Let_def by metis
  then have fin: "?i \<in> set fin" using assms(6) 1(7) by simp
  have out: "dict_get outs ?i = Some (retired_output out mo s1 ?i)"
    using 1(11) [of ?i] run fin running_has_freed_slot [OF assms(1) run, of out] by simp
  have "r\<lparr>num_output_tokens := 0\<rparr> \<in> (\<lambda>r. r\<lparr>num_output_tokens := 0\<rparr>) ` set (running s)"
    using assms(5) by simp
  also have "\<dots> = (\<lambda>r. r\<lparr>num_output_tokens := 0\<rparr>) ` set (running s1)"
    using arg_cong [OF 1(4), of set] by simp
  finally obtain r1 where r1: "r1 \<in> set (running s1)"
    "r\<lparr>num_output_tokens := 0\<rparr> = r1\<lparr>num_output_tokens := 0\<rparr>" by blast
  then have same: "request_id r1 = ?i" "req_sampling_params r1 = req_sampling_params r"
    by (metis vreq.select_convs(1,4) vreq.surjective vreq.update_convs(10))+
  have map: "dict_get (running_map s1) ?i = Some r1"
    using running_map_get [OF 1(1)] r1(1) same(1) by blast
  obtain old where "dict_get (running_output_tokens s) ?i = Some old"
    using output_tokens_None [OF assms(1)] run by blast
  then have rot: "dict_get (running_output_tokens s1) ?i = Some (old @ [e])"
    using 1(6) [of ?i] assms(6) toks by simp
  have "classify_finish_reason (Some (r1\<lparr>status := FINISHED_STOPPED\<rparr>)) (Some rd) (old @ [e]) =
      (''eos'', Some (StopTok e))"
    using assms(8,10,11) same(2) by (auto simp: classify_finish_reason_def Let_def)
  then show ?thesis
    using out map rot toks assms(7) fin 1(9)
    by (auto simp: retired_output_def finished_output_def dict_get_default_def)
qed

theorem eos_finishes_request_witness:
  "case update_from_output demo_out demo_sampled demo_sched2 of (outs, _, _) \<Rightarrow>
     \<exists>o1. dict_get outs ''b'' = Some (outputs_of [o1]) \<and> eco_finish_reason o1 = Some ''eos''"
proof -
  obtain outs out' s' where run: "update_from_output demo_out demo_sampled demo_sched2 = (outs, out', s')"
    by (rule prod_cases3)
  have "map (\<lambda>r. (request_id r, sp_eos_token_id (req_sampling_params r), sp_ignore_eos (req_sampling_params r)))
          (running demo_sched2) = [(''a'', Some 0, False), (''b'', Some 0, False)]" by code_simp
  then obtain q r where "running demo_sched2 = [q, r]" "request_id r = ''b''"
    "sp_eos_token_id (req_sampling_params r) = Some 0" "\<not> sp_ignore_eos (req_sampling_params r)"
    by (auto simp: map_eq_Cons_conv)
  then have r: "r \<in> set (running demo_sched2)" "request_id r = ''b''"
    "sp_eos_token_id (req_sampling_params r) = Some 0" "\<not> sp_ignore_eos (req_sampling_params r)"
    by simp_all
  from demo_values(3) obtain rd where rd: "dict_get (so_request_data demo_out) ''b'' = Some rd"
    "rd_is_last_prefill rd" by auto
  have "dict_get (mro_sampled_token_ids demo_sampled) (request_id r) = Some [0]"
    "request_id r \<in> set (so_scheduled_req_ids demo_out)"
    using r(2) demo_values(1) by (simp_all add: demo_sampled_def)
  with eos_finishes_request [OF demo2_wf demo_out_distinct run r(1) _ _ _ _ r(3,4), of rd] r(2) rd run
  show ?thesis by auto
qed

text \<open>
  A stop token is reported as \<^verbatim>\<open>length\<close> whenever the request also has an end-of-sequence
  token in force: the reason is looked up among the stop tokens only if the end-of-sequence test
  does not apply. Without one in force it is \<^verbatim>\<open>stop\<close> with that token.
\<close>

theorem stop_token_reason:
  assumes "rd_is_decode rd \<or> rd_is_last_prefill rd" and "sp_stop_token_ids (req_sampling_params r) = Some stops"
    and "t \<in> set stops" and "sp_eos_token_id (req_sampling_params r) \<noteq> Some t"
  shows "hits_stop (req_sampling_params r) [t] \<and>
    classify_finish_reason (Some r) (Some rd) (old @ [t]) =
      (if \<not> sp_ignore_eos (req_sampling_params r) \<and> sp_eos_token_id (req_sampling_params r) \<noteq> None
       then (''length'', None) else (''stop'', Some (StopTok t)))"
  using assms by (auto simp: hits_stop_def classify_finish_reason_def Let_def)

theorem stop_token_reason_witness:
  "classify_finish_reason
     (Some ((demo_req ''a'' [1])\<lparr>req_sampling_params :=
        sampling_defaults\<lparr>sp_eos_token_id := Some 0, sp_stop_token_ids := Some [9]\<rparr>\<rparr>))
     (Some (new_run_data (demo_req ''a'' [1]) 1 True 0)) [5, 9] = (''length'', None)"
  using stop_token_reason [of "new_run_data (demo_req ''a'' [1]) 1 True 0"
      "(demo_req ''a'' [1])\<lparr>req_sampling_params :=
        sampling_defaults\<lparr>sp_eos_token_id := Some 0, sp_stop_token_ids := Some [9]\<rparr>\<rparr>" "[9]" 9 "[5]"]
  by (simp add: new_run_data_def sampling_defaults_def)

text \<open>
  Finishing everything drains the scheduler. Without request ids \<^verbatim>\<open>finish_requests\<close> always
  returns the id of every waiting, set-aside and running request exactly once and leaves no
  request behind.
\<close>

lemma finish_all_drains:
  assumes "sched_wf s"
  shows "\<exists>ids s'. finish_requests None s = Inr (ids, s') \<and> mset ids = req_ids s \<and>
    \<not> has_requests s' \<and> running_map s' = [] \<and> running_output_tokens s' = []"
proof -
  have keys: "set (dict_keys (running_map s)) = request_id ` set (running s)"
    "set (dict_keys (running_output_tokens s)) = request_id ` set (running s)"
    using sched_invD(3) [OF assms] arg_cong [OF sched_invD(4) [OF assms], of set]
    by (simp_all add: image_image)
  have empty: "filter (\<lambda>(k, _). k \<notin> request_id ` set (running s)) d = []"
    if "set (dict_keys d) = request_id ` set (running s)" for d :: "(rid, 'b) dict"
    using that [symmetric] by (force simp: filter_empty_conv)
  let ?s1 = "s\<lparr>running := [], running_map := [], running_output_tokens := []\<rparr>"
  have pop: "pop_running (rev (running s)) ([], s) = (rev (map request_id (running s)), ?s1)"
    using empty [OF keys(1)] empty [OF keys(2)] butlast_all [of "running s"]
    by (simp add: pop_running_spec rev_map)
  obtain i1 w where 1: "drain_queue (waiting s) (rev (map request_id (running s))) =
      Inr (rev (map request_id (running s)) @ i1, w)"
    "mset i1 = image_mset request_id (rq_elems (waiting s))" "\<not> rq_bool w"
    using drain_queue_spec by blast
  obtain i2 k where 2: "drain_queue (skipped_waiting s) (rev (map request_id (running s)) @ i1) =
      Inr ((rev (map request_id (running s)) @ i1) @ i2, k)"
    "mset i2 = image_mset request_id (rq_elems (skipped_waiting s))" "\<not> rq_bool k"
    using drain_queue_spec by blast
  show ?thesis
    using pop 1 2 by (simp add: finish_requests_def finish_all_def has_requests_def all_ids_def pending_def
        rev_map [symmetric])
qed

lemma finish_all_drains_run:
  "\<exists>ids s'. finish_requests None demo_sched2 = Inr (ids, s') \<and> size (mset ids) = 3 \<and> \<not> has_requests s'"
proof -
  have "req_ids demo_sched2 = req_ids demo_sched"
    using demo_wf demo_budget demo_schedule by (cases rule: schedule_spec) simp
  moreover have "size (req_ids demo_sched) = 3"
    by (simp add: all_ids_def demo_pending) (simp add: demo_sched_def)
  ultimately show ?thesis using finish_all_drains [OF demo2_wf] by metis
qed

end
