(* ===== verification/Scheduler_Abort.thy ===== *)
theory Scheduler_Abort
  imports Scheduler_Update
begin

text \<open>
  \<^verbatim>\<open>finish_requests\<close> with a set of identifiers: an abort removes exactly the named requests,
  from wherever they are, and keeps the scheduler's invariant. It leaves the slot manager alone;
  the slots of aborted requests are the engine core's to return.
\<close>

section \<open>One request\<close>

lemma sched_inv_drop:
  assumes "sched_inv (add_mset r X) s"
  shows "sched_inv X s" and "all_ids X s = all_ids (add_mset r X) s - {#request_id r#}"
proof -
  have sub: "pending X s \<subseteq># pending (add_mset r X) s" by (simp add: pending_def)
  then have "all_ids X s \<subseteq># all_ids (add_mset r X) s"
    by (auto simp: all_ids_def intro!: image_mset_subseteq_mono)
  then have "count (all_ids X s) i \<le> 1" for i
    using sched_invD(5) [OF assms, of i] by (meson le_trans mset_subset_eq_count)
  moreover have "slots_inv X s"
    using sched_invD(8) [OF assms] mset_subset_eqD [OF sub]
    by (cases "slot_manager_of s") (auto simp: slots_inv_def)
  ultimately show "sched_inv X s"
    using assms mset_subset_eqD [OF sub] by (auto simp: sched_inv_def)
  show "all_ids X s = all_ids (add_mset r X) s - {#request_id r#}"
    by (simp add: all_ids_def pending_def)
qed

lemma remove_queued_inv:
  assumes "sched_inv X s" and "rq_remove_request r (queue_get n s) = Inr q'"
  shows "sched_inv X (queue_put n q' s)"
    and "all_ids X (queue_put n q' s) = all_ids X s - {#request_id r#}"
proof -
  note spec = rq_remove_spec [OF assms(2)]
  have p: "pending (add_mset r X) (queue_put n q' s) = pending X s"
    using spec(1) by (cases n) (auto simp: pending_def)
  have wf: "rq_wf (waiting (queue_put n q' s))" "rq_wf (skipped_waiting (queue_put n q' s))"
    using spec(2) [OF queue_wf [OF assms(1)]] assms(1) by (cases n; auto dest: sched_invD)+
  have "sched_inv (add_mset r X) (queue_put n q' s) \<and>
      all_ids (add_mset r X) (queue_put n q' s) = all_ids X s"
    by (cases n) (use sched_inv_requeue [OF assms(1) p wf] in simp_all)
  then show "sched_inv X (queue_put n q' s)"
    "all_ids X (queue_put n q' s) = all_ids X s - {#request_id r#}"
    using sched_inv_drop by metis+
qed

lemma drop_running_without:
  assumes inv: "sched_inv X s" and "dict_get (running_map s) i = Some r"
  shows "drop_running r s = without {i} s" and "request_id r = i" and "r \<in> set (running s)"
proof -
  have mem: "(i, r) \<in> set (running_map s)" by (rule dict_get_in [OF assms(2)])
  then show i: "request_id r = i" and r: "r \<in> set (running s)" using sched_invD(3) [OF inv] by auto
  have "remove1 r rs = filter (\<lambda>q. request_id q \<noteq> i) rs"
    if "distinct (map request_id rs)" "r \<in> set rs" for rs
    using that
  proof (induction rs)
    case (Cons q rs)
    show ?case
    proof (cases "q = r")
      case True
      then have "filter (\<lambda>q. request_id q \<noteq> i) rs = rs"
        using Cons.prems(1) i True unfolding filter_id_conv by (metis distinct.simps(2) image_eqI list.set_map list.simps(9))
      then show ?thesis using True i by simp
    next
      case False
      then have "request_id q \<noteq> i" using Cons.prems i by force
      then show ?thesis using Cons False by simp
    qed
  qed simp
  then have "remove1 r (running s) = filter (\<lambda>q. request_id q \<noteq> i) (running s)"
    using running_ids_distinct [OF inv] r by blast
  then show "drop_running r s = without {i} s"
    by (simp add: drop_running_def without_def i dict_del_filter)
qed

lemma image_filter_mset:
  "image_mset f (mset (filter (\<lambda>x. P (f x)) xs)) = filter_mset P (image_mset f (mset xs))"
  by (induction xs) auto

lemma filter_mset_all: "(\<And>x. x \<in># M \<Longrightarrow> P x) \<Longrightarrow> filter_mset P M = M"
  by (induction M) auto

lemma without_ids:
  assumes inv: "sched_inv X s"
  shows "all_ids X (without I s) =
    image_mset request_id (pending X s) + filter_mset (\<lambda>i. i \<notin> I) (image_mset request_id (mset (running s)))"
  using image_filter_mset [of request_id "\<lambda>i. i \<notin> I" "running s"] by (simp add: all_ids_def)

lemma unique_minus:
  assumes "\<And>j. count A j \<le> (1 :: nat)"
  shows "A - {#i#} = filter_mset (\<lambda>j. j \<noteq> i) A"
proof (rule multiset_eqI)
  fix j
  show "count (A - {#i#}) j = count (filter_mset (\<lambda>j. j \<noteq> i) A) j" using assms [of j] by auto
qed

lemma finish_queued_spec:
  assumes inv: "sched_inv X s" and out: "i \<notin> request_id ` set_mset X"
  shows "\<exists>found s'. finish_queued i ns s = Inr (found, s') \<and> sched_inv X s' \<and>
    running s' = running s \<and> slot_manager_of s' = slot_manager_of s \<and> same_config s s' \<and>
    (if found then i \<in># all_ids X s \<and> all_ids X s' = all_ids X s - {#i#}
     else s' = s \<and> (\<forall>n \<in> set ns. \<forall>r \<in># rq_elems (queue_get n s). request_id r \<noteq> i))"
proof (induction ns)
  case Nil
  show ?case using inv by (intro exI [of _ False] exI [of _ s]) (simp add: same_config_def)
next
  case (Cons n ns)
  show ?case
  proof (cases "queue_find i (queue_get n s)")
    case None
    then have "\<forall>r \<in># rq_elems (queue_get n s). request_id r \<noteq> i"
      by (auto simp: queue_find_def find_None_iff simp flip: rq_set_iter)
    moreover obtain found s' where ih: "finish_queued i ns s = Inr (found, s')" "sched_inv X s'"
      "running s' = running s" "slot_manager_of s' = slot_manager_of s" "same_config s s'"
      "if found then i \<in># all_ids X s \<and> all_ids X s' = all_ids X s - {#i#}
       else s' = s \<and> (\<forall>n \<in> set ns. \<forall>r \<in># rq_elems (queue_get n s). request_id r \<noteq> i)"
      using Cons.IH by blast
    ultimately show ?thesis using None
      by (intro exI [of _ found] exI [of _ s']) (simp split: if_splits)
  next
    case (Some r)
    then have r: "request_id r = i" "r \<in># rq_elems (queue_get n s)"
      by (auto simp: queue_find_def find_Some_iff in_set_conv_nth simp flip: rq_set_iter)
    then obtain q' where q': "rq_remove_request r (queue_get n s) = Inr q'"
      by (cases "queue_get n s") auto
    have "i \<in># all_ids X s" using r by (cases n) (auto simp: all_ids_def pending_def)
    then show ?thesis
      using Some q' remove_queued_inv [OF inv q'] r(1)
      by (cases n) (auto simp: same_config_def)
  qed
qed

section \<open>Many requests\<close>

lemma finish_one_spec:
  assumes inv: "sched_wf s"
  shows "\<exists>done' s'. finish_one (done, s) i = Inr (done', s') \<and> sched_wf s' \<and>
    running s' = filter (\<lambda>r. request_id r \<noteq> i) (running s) \<and>
    slot_manager_of s' = slot_manager_of s \<and> same_config s s' \<and>
    req_ids s' = filter_mset (\<lambda>j. j \<noteq> i) (req_ids s) \<and>
    done' = done @ (if i \<in># req_ids s then [i] else [])"
proof (cases "dict_get (running_map s) i")
  case (Some r)
  note dr = drop_running_without [OF inv Some]
  have i: "i \<in># req_ids s" using dr(2,3) by (auto simp: all_ids_def)
  have "count (image_mset request_id (pending {#} s)) i = 0"
    using pending_not_running [OF inv _ dr(3)] dr(2) by (force simp: count_eq_zero_iff)
  then have "i \<notin># image_mset request_id (pending {#} s)" by (simp add: count_eq_zero_iff)
  then have "filter_mset (\<lambda>j. j \<noteq> i) (image_mset request_id (pending {#} s)) =
      image_mset request_id (pending {#} s)"
    by (intro filter_mset_all) auto
  then have "req_ids (without {i} s) = filter_mset (\<lambda>j. j \<noteq> i) (req_ids s)"
    using without_ids [OF inv, of "{i}"] by (simp add: all_ids_def)
  then show ?thesis
    using Some without_inv [OF inv, of "{i}"] i
    by (simp add: finish_one_def dr(1) same_config_def)
next
  case None
  then have nr: "i \<notin> request_id ` set (running s)" using running_map_None [OF inv] by simp
  obtain found s' where fq: "finish_queued i [WaitingQ, SkippedQ] s = Inr (found, s')" "sched_wf s'"
    "running s' = running s" "slot_manager_of s' = slot_manager_of s" "same_config s s'"
    "if found then i \<in># req_ids s \<and> req_ids s' = req_ids s - {#i#}
     else s' = s \<and> (\<forall>n \<in> set [WaitingQ, SkippedQ]. \<forall>r \<in># rq_elems (queue_get n s). request_id r \<noteq> i)"
    using finish_queued_spec [OF inv, of i "[WaitingQ, SkippedQ]"] by auto
  have run: "filter (\<lambda>r. request_id r \<noteq> i) (running s) = running s"
    using nr by (auto simp: filter_id_conv)
  have un: "req_ids s - {#i#} = filter_mset (\<lambda>j. j \<noteq> i) (req_ids s)"
    using sched_invD(5) [OF inv] by (rule unique_minus)
  show ?thesis
  proof (cases found)
    case True
    then show ?thesis using None fq run un by (auto simp: finish_one_def)
  next
    case False
    then have "i \<notin># req_ids s" using fq(6) nr by (auto simp: all_ids_def pending_def)
    moreover from this have "req_ids s - {#i#} = req_ids s" by simp
    ultimately show ?thesis using None fq run un False by (auto simp: finish_one_def)
  qed
qed

lemma finish_these_spec:
  assumes "sched_wf s"
  shows "\<exists>done s'. finish_these ids s = Inr (done, s') \<and> sched_wf s' \<and>
    running s' = filter (\<lambda>r. request_id r \<notin> set ids) (running s) \<and>
    slot_manager_of s' = slot_manager_of s \<and> same_config s s' \<and>
    req_ids s' = filter_mset (\<lambda>j. j \<notin> set ids) (req_ids s) \<and>
    set done = set ids \<inter> set_mset (req_ids s)"
proof -
  have "\<exists>done s'. foldE finish_one (done0, s) ids = Inr (done, s') \<and> sched_wf s' \<and>
    running s' = filter (\<lambda>r. request_id r \<notin> set ids) (running s) \<and>
    slot_manager_of s' = slot_manager_of s \<and> same_config s s' \<and>
    req_ids s' = filter_mset (\<lambda>j. j \<notin> set ids) (req_ids s) \<and>
    set done = set done0 \<union> (set ids \<inter> set_mset (req_ids s))" for done0
    using assms
  proof (induction ids arbitrary: done0 s)
    case (Cons i ids)
    obtain d1 s1 where one: "finish_one (done0, s) i = Inr (d1, s1)" "sched_wf s1"
      "running s1 = filter (\<lambda>r. request_id r \<noteq> i) (running s)"
      "slot_manager_of s1 = slot_manager_of s" "same_config s s1"
      "req_ids s1 = filter_mset (\<lambda>j. j \<noteq> i) (req_ids s)"
      "d1 = done0 @ (if i \<in># req_ids s then [i] else [])"
      using finish_one_spec [OF Cons.prems] by blast
    obtain d s' where rest: "foldE finish_one (d1, s1) ids = Inr (d, s')" "sched_wf s'"
      "running s' = filter (\<lambda>r. request_id r \<notin> set ids) (running s1)"
      "slot_manager_of s' = slot_manager_of s1" "same_config s1 s'"
      "req_ids s' = filter_mset (\<lambda>j. j \<notin> set ids) (req_ids s1)"
      "set d = set d1 \<union> (set ids \<inter> set_mset (req_ids s1))"
      using Cons.IH [OF one(2)] by blast
    have "running s' = filter (\<lambda>r. request_id r \<notin> set (i # ids)) (running s)"
      "req_ids s' = filter_mset (\<lambda>j. j \<notin> set (i # ids)) (req_ids s)"
      by (auto simp: rest(3,6) one(3,6) filter_filter_mset intro!: filter_cong filter_mset_cong)
    moreover have "set d = set done0 \<union> (set (i # ids) \<inter> set_mset (req_ids s))"
      using rest(7) one(6,7) by auto
    ultimately show ?case
      using one rest same_config_trans [OF one(5) rest(5)] by auto
  qed (simp add: same_config_def)
  from this [of "[]"] show ?thesis by (simp add: finish_these_def)
qed

text \<open>
  An abort removes exactly the named requests. Finishing a set of identifiers never
  raises; afterwards the scheduler holds precisely the requests with other identifiers,
  waiting, set aside or running, its invariant holds, and the identifiers returned are those
  it knew. The slot manager is untouched, so the aborted running requests still own slots.
\<close>

theorem abort_removes_exactly:
  assumes "sched_wf s"
  shows "\<exists>done s'. finish_requests (Some ids) s = Inr (done, s') \<and> sched_wf s' \<and>
    req_ids s' = filter_mset (\<lambda>i. i \<notin> set ids) (req_ids s) \<and>
    set done = set ids \<inter> set_mset (req_ids s) \<and> slot_manager_of s' = slot_manager_of s"
  using finish_these_spec [OF assms, of ids] by (auto simp: finish_requests_def)

theorem abort_removes_exactly_witness:
  "\<exists>done s'. finish_requests (Some [''b'', ''x'']) demo_sched = Inr (done, s') \<and> set done = {''b''} \<and>
     req_ids s' = {#''a'', ''c''#} \<and> slot_manager_of s' = slot_manager_of demo_sched"
proof -
  have ids: "req_ids demo_sched = {#''a'', ''b'', ''c''#}"
    by (simp add: all_ids_def demo_pending) (simp add: demo_sched_def demo_req_def new_vreq_def)
  from abort_removes_exactly [OF demo_wf, of "[''b'', ''x'']"] show ?thesis unfolding ids by auto
qed

end
