(* ===== verification/State_Disk_Store.thy ===== *)
theory State_Disk_Store
  imports Prelude
begin

text \<open>
  \<^verbatim>\<open>vkwr/state/state_disk_store.py\<close>: the third cache level, an SQLite table written by a
  background thread.

  The table is the list of its rows in insertion order; the size of the database file, which
  SQLite computes, and \<^verbatim>\<open>pickle\<close> are parameters. The client (the engine thread) and the writer
  thread share the write queue and the dictionary of pending events, of which only the keys
  matter: an event is present while its request is pending and is set when it is removed. A
  \<^verbatim>\<open>save\<close> or \<^verbatim>\<open>clear\<close> marks its request pending and then enqueues the write, two steps between
  which the writer may run; the state \<open>ds_putting\<close> is the client between them. Errors of
  SQLite, which the code logs and swallows, are not modelled.

  The lemmas show that the writer's table refines the map of saved states, that a client
  waiting for a request is woken once the queue has been drained, and that a restore may
  nevertheless see an older state than the last one saved.
\<close>

section \<open>State\<close>

record 'b db_row =
  row_req :: rid
  row_pos :: int
  row_data :: 'b
  row_created :: real

datatype 'b disk_op =
    SaveOp rid int 'b real
  | DeleteOp rid
  | FlushOp nat
  | ShutdownOp

record 'b disk_store =
  ds_max_bytes :: int
  ds_queue :: "'b disk_op list"
  ds_pending :: "rid list"
  ds_closed :: bool
  ds_table :: "'b db_row list"
  ds_flushed :: "nat list"
  ds_writer_done :: bool
  ds_putting :: "'b disk_op option"

definition disk_store_init :: "int \<Rightarrow> 'b disk_store" where
  "disk_store_init max_size_mb =
     \<lparr>ds_max_bytes = max_size_mb * 1024 * 1024, ds_queue = [], ds_pending = [], ds_closed = False,
      ds_table = [], ds_flushed = [], ds_writer_done = False, ds_putting = None\<rparr>"

section \<open>The table\<close>

definition delete_entries :: "rid \<Rightarrow> 'b db_row list \<Rightarrow> 'b db_row list" where
  "delete_entries i t = filter (\<lambda>r. row_req r \<noteq> i) t"

definition enforce_max_size ::
  "('b db_row list \<Rightarrow> int) \<Rightarrow> int \<Rightarrow> 'b db_row list \<Rightarrow> 'b db_row list" where
  "enforce_max_size db_size max_bytes t =
     (if db_size t < max_bytes then t
      else fold delete_entries (map row_req (take 10 (sort_key row_created t))) t)"

text \<open>\<^verbatim>\<open>INSERT OR REPLACE\<close> on the primary key (request, position).\<close>

definition insert_row :: "rid \<Rightarrow> int \<Rightarrow> 'b \<Rightarrow> real \<Rightarrow> 'b db_row list \<Rightarrow> 'b db_row list" where
  "insert_row i pos d at_time t =
     filter (\<lambda>r. \<not> (row_req r = i \<and> row_pos r = pos)) t @
     [\<lparr>row_req = i, row_pos = pos, row_data = d, row_created = at_time\<rparr>]"

definition save_entry ::
  "('b db_row list \<Rightarrow> int) \<Rightarrow> int \<Rightarrow> rid \<Rightarrow> int \<Rightarrow> 'b \<Rightarrow> real \<Rightarrow> 'b db_row list \<Rightarrow> 'b db_row list" where
  "save_entry db_size max_bytes i pos d at_time t =
     insert_row i pos d at_time (enforce_max_size db_size max_bytes t)"

text \<open>\<^verbatim>\<open>SELECT data ... ORDER BY token_pos DESC LIMIT 1\<close>\<close>

definition select_latest :: "rid \<Rightarrow> 'b db_row list \<Rightarrow> 'b option" where
  "select_latest i t =
     (case sort_key (\<lambda>r. - row_pos r) (filter (\<lambda>r. row_req r = i) t) of
        [] \<Rightarrow> None | r # _ \<Rightarrow> Some (row_data r))"

section \<open>The client\<close>

definition mark_pending :: "rid \<Rightarrow> 'b disk_store \<Rightarrow> 'b disk_store" where
  "mark_pending i s = s\<lparr>ds_pending := List.insert i (ds_pending s)\<rparr>"

definition mark_done :: "rid \<Rightarrow> 'b disk_store \<Rightarrow> 'b disk_store" where
  "mark_done i s = s\<lparr>ds_pending := removeAll i (ds_pending s)\<rparr>"

definition disk_save_begin ::
  "('s \<Rightarrow> 'b) \<Rightarrow> rid \<Rightarrow> 's \<Rightarrow> int \<Rightarrow> real \<Rightarrow> 'b disk_store \<Rightarrow> 'b disk_store" where
  "disk_save_begin dumps i st pos now s =
     (if ds_closed s then s
      else (mark_pending i s)\<lparr>ds_putting := Some (SaveOp i pos (dumps st) now)\<rparr>)"

definition disk_put :: "'b disk_store \<Rightarrow> 'b disk_store" where
  "disk_put s =
     (case ds_putting s of None \<Rightarrow> s
      | Some op \<Rightarrow> s\<lparr>ds_queue := ds_queue s @ [op], ds_putting := None\<rparr>)"

text \<open>\<^verbatim>\<open>_wait_pending\<close> returns exactly when the request is not pending.\<close>

definition not_pending :: "rid \<Rightarrow> 'b disk_store \<Rightarrow> bool" where
  "not_pending i s \<longleftrightarrow> i \<notin> set (ds_pending s)"

definition disk_clear_begin :: "rid \<Rightarrow> 'b disk_store \<Rightarrow> 'b disk_store" where
  "disk_clear_begin i s =
     (if ds_closed s then s else (mark_pending i s)\<lparr>ds_putting := Some (DeleteOp i)\<rparr>)"

definition disk_restore :: "('b \<Rightarrow> 's option) \<Rightarrow> rid \<Rightarrow> 'b disk_store \<Rightarrow> 's option" where
  "disk_restore loads i s =
     (case select_latest i (ds_table s) of None \<Rightarrow> None | Some d \<Rightarrow> loads d)"

definition disk_flush :: "nat \<Rightarrow> 'b disk_store \<Rightarrow> 'b disk_store" where
  "disk_flush event s = s\<lparr>ds_queue := ds_queue s @ [FlushOp event]\<rparr>"

definition disk_close :: "'b disk_store \<Rightarrow> 'b disk_store" where
  "disk_close s = s\<lparr>ds_closed := True, ds_queue := ds_queue s @ [ShutdownOp]\<rparr>"

section \<open>The writer\<close>

text \<open>One write, as in the loop and in \<^verbatim>\<open>_flush_remaining\<close>.\<close>

fun apply_write :: "('b db_row list \<Rightarrow> int) \<Rightarrow> 'b disk_op \<Rightarrow> 'b disk_store \<Rightarrow> 'b disk_store" where
  "apply_write db_size (SaveOp i pos d at_time) s =
     mark_done i (s\<lparr>ds_table := save_entry db_size (ds_max_bytes s) i pos d at_time (ds_table s)\<rparr>)"
| "apply_write db_size (DeleteOp i) s =
     mark_done i (s\<lparr>ds_table := delete_entries i (ds_table s)\<rparr>)"
| "apply_write db_size _ s = s"

text \<open>One round of \<^verbatim>\<open>_writer_loop\<close>; an empty queue is waited on.\<close>

definition writer_step :: "('b db_row list \<Rightarrow> int) \<Rightarrow> 'b disk_store \<Rightarrow> 'b disk_store" where
  "writer_step db_size s =
     (if ds_writer_done s then s
      else case ds_queue s of
        [] \<Rightarrow> s
      | op # rest \<Rightarrow>
          let s1 = s\<lparr>ds_queue := rest\<rparr>
          in case op of
               ShutdownOp \<Rightarrow>
                 (fold (apply_write db_size) rest s1)\<lparr>ds_queue := [], ds_writer_done := True\<rparr>
             | FlushOp e \<Rightarrow> s1\<lparr>ds_flushed := ds_flushed s1 @ [e]\<rparr>
             | _ \<Rightarrow> apply_write db_size op s1)"

text \<open>All interleavings of one client thread with the writer.\<close>

inductive disk_step :: "('b db_row list \<Rightarrow> int) \<Rightarrow> 'b disk_store \<Rightarrow> 'b disk_store \<Rightarrow> bool"
  for db_size where
  save: "ds_putting s = None \<Longrightarrow> \<not> ds_closed s \<Longrightarrow>
    disk_step db_size s (disk_save_begin (\<lambda>d. d) i d pos now s)"
| clear: "ds_putting s = None \<Longrightarrow> not_pending i s \<Longrightarrow> disk_step db_size s (disk_clear_begin i s)"
| put: "disk_step db_size s (disk_put s)"
| flush: "ds_putting s = None \<Longrightarrow> disk_step db_size s (disk_flush e s)"
| close: "ds_putting s = None \<Longrightarrow> \<not> ds_closed s \<Longrightarrow> disk_step db_size s (disk_close s)"
| writer: "disk_step db_size s (writer_step db_size s)"

inductive disk_reachable :: "('b db_row list \<Rightarrow> int) \<Rightarrow> int \<Rightarrow> 'b disk_store \<Rightarrow> bool"
  for db_size mb where
  start: "disk_reachable db_size mb (disk_store_init mb)"
| step: "disk_reachable db_size mb s \<Longrightarrow> disk_step db_size s s' \<Longrightarrow> disk_reachable db_size mb s'"

inductive_cases disk_stepE: "disk_step db_size s s'"

section \<open>A pending request always has a write on its way\<close>

fun op_rid :: "'b disk_op \<Rightarrow> rid option" where
  "op_rid (SaveOp i _ _ _) = Some i"
| "op_rid (DeleteOp i) = Some i"
| "op_rid _ = None"

definition pending_inv :: "'b disk_store \<Rightarrow> bool" where
  "pending_inv s \<longleftrightarrow>
     (\<forall>i \<in> set (ds_pending s).
        (\<exists>op \<in> set (ds_queue s). op_rid op = Some i) \<or>
        (\<exists>op. ds_putting s = Some op \<and> op_rid op = Some i))"

lemma apply_write_frame [simp]:
  "ds_queue (apply_write f op s) = ds_queue s" "ds_putting (apply_write f op s) = ds_putting s"
  "ds_closed (apply_write f op s) = ds_closed s"
  by (cases op; simp add: mark_done_def)+

lemma apply_write_pending:
  "set (ds_pending (apply_write f op s)) = set (ds_pending s) - {i. op_rid op = Some i}"
  by (cases op) (auto simp: mark_done_def)

lemma apply_writes_pending:
  "set (ds_pending (fold (apply_write f) ops s)) =
     set (ds_pending s) - {i. \<exists>op \<in> set ops. op_rid op = Some i} \<and>
   ds_putting (fold (apply_write f) ops s) = ds_putting s"
  by (induction ops arbitrary: s) (auto simp: apply_write_pending)

lemma pending_inv_pop:
  assumes "pending_inv s" and "ds_queue s = op # rest" and "ds_queue s' = rest"
    and "set (ds_pending s') = set (ds_pending s) - {i. op_rid op = Some i}"
    and "ds_putting s' = ds_putting s"
  shows "pending_inv s'"
  unfolding pending_inv_def
proof
  fix i assume "i \<in> set (ds_pending s')"
  then have i: "i \<in> set (ds_pending s)" "op_rid op \<noteq> Some i" using assms(4) by auto
  with assms(1) consider op' where "op' \<in> set (ds_queue s)" "op_rid op' = Some i"
    | op' where "ds_putting s = Some op'" "op_rid op' = Some i"
    unfolding pending_inv_def by blast
  then show "(\<exists>op \<in> set (ds_queue s'). op_rid op = Some i) \<or>
      (\<exists>op. ds_putting s' = Some op \<and> op_rid op = Some i)"
    using i(2) assms(2,3,5) by cases auto
qed

lemma writer_step_pending [inv_intros]:
  assumes "pending_inv s"
  shows "pending_inv (writer_step f s)"
proof (cases "ds_writer_done s \<or> ds_queue s = []")
  case True
  then show ?thesis using assms by (auto simp: writer_step_def split: list.split)
next
  case False
  then obtain op rest where q: "ds_queue s = op # rest" by (cases "ds_queue s") auto
  show ?thesis
  proof (cases op)
    case ShutdownOp
    then show ?thesis
      using assms False q apply_writes_pending [of f rest "s\<lparr>ds_queue := rest\<rparr>"]
      by (auto simp: writer_step_def pending_inv_def)
  next
    case (FlushOp e)
    then have "writer_step f s = s\<lparr>ds_queue := rest, ds_flushed := ds_flushed s @ [e]\<rparr>"
      using False q by (simp add: writer_step_def)
    then show ?thesis using q FlushOp by (intro pending_inv_pop [OF assms q]) simp_all
  next
    case (SaveOp i pos d t)
    then have "writer_step f s = apply_write f op (s\<lparr>ds_queue := rest\<rparr>)"
      using False q by (simp add: writer_step_def)
    then show ?thesis using apply_write_pending [of f op "s\<lparr>ds_queue := rest\<rparr>"]
      by (intro pending_inv_pop [OF assms q]) simp_all
  next
    case (DeleteOp i)
    then have "writer_step f s = apply_write f op (s\<lparr>ds_queue := rest\<rparr>)"
      using False q by (simp add: writer_step_def)
    then show ?thesis using apply_write_pending [of f op "s\<lparr>ds_queue := rest\<rparr>"]
      by (intro pending_inv_pop [OF assms q]) simp_all
  qed
qed

lemma disk_step_pending:
  assumes "disk_step f s s'" and "pending_inv s"
  shows "pending_inv s'"
  using assms
  by (cases rule: disk_step.cases)
     (auto simp: pending_inv_def disk_save_begin_def disk_clear_begin_def disk_put_def disk_flush_def
       disk_close_def mark_pending_def writer_step_pending [unfolded pending_inv_def] split: option.split)

lemma reachable_pending: "disk_reachable f mb s \<Longrightarrow> pending_inv s"
proof (induction rule: disk_reachable.induct)
  case start
  show ?case by (simp add: pending_inv_def disk_store_init_def)
next
  case (step s s')
  then show ?case using disk_step_pending by blast
qed

lemma writer_step_queue:
  "\<not> ds_writer_done s \<Longrightarrow> ds_queue s = op # rest \<Longrightarrow>
   (op \<noteq> ShutdownOp \<and> ds_queue (writer_step f s) = rest \<and> \<not> ds_writer_done (writer_step f s)) \<or>
   (op = ShutdownOp \<and> ds_queue (writer_step f s) = [] \<and> ds_writer_done (writer_step f s))"
  by (cases op) (simp_all add: writer_step_def mark_done_def)

lemma writer_done_stays: "ds_writer_done s \<Longrightarrow> (writer_step f ^^ n) s = s"
  by (induction n) (simp_all add: writer_step_def)

lemma writer_drains:
  assumes "\<not> ds_writer_done s \<or> ds_queue s = []"
  shows "ds_queue ((writer_step f ^^ length (ds_queue s)) s) = []"
  using assms
proof (induction "ds_queue s" arbitrary: s)
  case (Cons op rest)
  have q: "ds_queue s = op # rest" using Cons.hyps(2) by simp
  then have nd: "\<not> ds_writer_done s" using Cons.prems by simp
  have unroll: "(writer_step f ^^ length (ds_queue s)) s = (writer_step f ^^ length rest) (writer_step f s)"
    by (simp add: q funpow_swap1)
  show ?case
  proof (cases "op = ShutdownOp")
    case True
    then have "ds_queue (writer_step f s) = []" "ds_writer_done (writer_step f s)"
      using writer_step_queue [OF nd q, of f] by auto
    then show ?thesis unfolding unroll by (simp add: writer_done_stays)
  next
    case False
    then have "rest = ds_queue (writer_step f s)" "\<not> ds_writer_done (writer_step f s)"
      using writer_step_queue [OF nd q, of f] by auto
    then show ?thesis unfolding unroll using Cons.hyps(1) by metis
  qed
qed simp

lemma writer_step_putting [simp]: "ds_putting (writer_step f s) = ds_putting s"
  using apply_writes_pending [of f "tl (ds_queue s)" "s\<lparr>ds_queue := tl (ds_queue s)\<rparr>"]
  by (cases "ds_queue s") (auto simp: writer_step_def mark_done_def Let_def split: disk_op.split)

lemma writer_steps_putting: "ds_putting ((writer_step f ^^ n) s) = ds_putting s"
  by (induction n) simp_all

lemma writer_steps_pending: "pending_inv s \<Longrightarrow> pending_inv ((writer_step f ^^ n) s)"
  by (induction n) (simp_all add: writer_step_pending)

section \<open>The table refines the map of saved states\<close>

text \<open>The specification: a map from request and position to data, cleared per request.\<close>

type_synonym 'b saved = "rid \<times> int \<Rightarrow> 'b option"

fun spec_write :: "'b disk_op \<Rightarrow> 'b saved \<Rightarrow> 'b saved" where
  "spec_write (SaveOp i pos d _) m = m((i, pos) \<mapsto> d)"
| "spec_write (DeleteOp i) m = (\<lambda>(j, pos). if j = i then None else m (j, pos))"
| "spec_write _ m = m"

definition table_map :: "'b db_row list \<Rightarrow> 'b saved" where
  "table_map t = (\<lambda>(i, pos). map_option row_data (find (\<lambda>r. row_req r = i \<and> row_pos r = pos) t))"

definition table_keys_ok :: "'b db_row list \<Rightarrow> bool" where
  "table_keys_ok t \<longleftrightarrow> distinct (map (\<lambda>r. (row_req r, row_pos r)) t)"

lemma insert_row_map: "table_map (insert_row i pos d tm t) = (table_map t)((i, pos) \<mapsto> d)"
proof
  fix p :: "rid \<times> int"
  obtain j q where p: "p = (j, q)" by fastforce
  show "table_map (insert_row i pos d tm t) p = ((table_map t)((i, pos) \<mapsto> d)) p"
  proof (cases "j = i \<and> q = pos")
    case True
    then have "find (\<lambda>r. (row_req r = j \<and> row_pos r = q) \<and> \<not> (row_req r = i \<and> row_pos r = pos)) t = None"
      by (auto simp: find_None_iff)
    with True p show ?thesis by (simp add: table_map_def insert_row_def find_append find_filter)
  next
    case False
    then have "find (\<lambda>r. (row_req r = j \<and> row_pos r = q) \<and> \<not> (row_req r = i \<and> row_pos r = pos)) t =
        find (\<lambda>r. row_req r = j \<and> row_pos r = q) t" by (intro find_cong_set) auto
    with False p show ?thesis
      by (auto simp: table_map_def insert_row_def find_append find_filter split: option.split)
  qed
qed

lemma delete_entries_map: "table_map (delete_entries i t) = (\<lambda>(j, pos). if j = i then None else table_map t (j, pos))"
proof
  fix p :: "rid \<times> int"
  obtain j q where p: "p = (j, q)" by fastforce
  show "table_map (delete_entries i t) p = (\<lambda>(j, pos). if j = i then None else table_map t (j, pos)) p"
  proof (cases "j = i")
    case True
    then have "find (\<lambda>r. (row_req r = j \<and> row_pos r = q) \<and> row_req r \<noteq> i) t = None"
      by (auto simp: find_None_iff)
    with True p show ?thesis by (simp add: table_map_def delete_entries_def find_filter)
  next
    case False
    then have "find (\<lambda>r. (row_req r = j \<and> row_pos r = q) \<and> row_req r \<noteq> i) t =
        find (\<lambda>r. row_req r = j \<and> row_pos r = q) t" by (intro find_cong_set) auto
    with False p show ?thesis by (simp add: table_map_def delete_entries_def find_filter)
  qed
qed

lemma table_keys_insert: "table_keys_ok t \<Longrightarrow> table_keys_ok (insert_row i pos d tm t)"
  by (auto simp: table_keys_ok_def insert_row_def distinct_map inj_on_def)

lemma table_keys_delete: "table_keys_ok t \<Longrightarrow> table_keys_ok (delete_entries i t)"
  by (auto simp: table_keys_ok_def delete_entries_def distinct_map inj_on_def)

text \<open>The row selected is the one with the greatest position.\<close>

lemma select_latest_some:
  assumes "table_keys_ok t" and "table_map t (i, pos) = Some d"
    and "\<And>q. table_map t (i, q) \<noteq> None \<Longrightarrow> q \<le> pos"
  shows "select_latest i t = Some d"
proof -
  let ?L = "sort_key (\<lambda>r. - row_pos r) (filter (\<lambda>r. row_req r = i) t)"
  from assms(2) obtain r where r: "r \<in> set t" "row_req r = i" "row_pos r = pos" "row_data r = d"
    by (auto simp: table_map_def find_Some_iff) (metis nth_mem)
  have present: "table_map t (i, row_pos x) \<noteq> None" if "x \<in> set t" "row_req x = i" for x
    using that by (auto simp: table_map_def find_None_iff)
  have "r \<in> set ?L" using r by simp
  then obtain y ys where y: "?L = y # ys" by (cases ?L) auto
  have yt: "y \<in> set t" "row_req y = i"
    using arg_cong [OF y, of set] by auto
  have "sorted (map (\<lambda>r. - row_pos r) ?L)" by simp
  then have "- row_pos y \<le> - row_pos r"
    using \<open>r \<in> set ?L\<close> unfolding y by auto
  moreover have "row_pos y \<le> pos" using assms(3) [OF present [OF yt]] .
  ultimately have "row_pos y = pos" using r(3) by simp
  then have "y = r"
    using assms(1) yt r by (auto simp: table_keys_ok_def distinct_map dest: inj_onD)
  with y r(4) show ?thesis by (simp add: select_latest_def)
qed

lemma select_latest_none:
  assumes "\<And>q. table_map t (i, q) = None"
  shows "select_latest i t = None"
proof -
  have "filter (\<lambda>r. row_req r = i) t = []"
    using assms by (fastforce simp: table_map_def find_None_iff filter_empty_conv)
  then show ?thesis by (simp add: select_latest_def)
qed

lemma writes_refine:
  assumes "\<And>t. f t < ds_max_bytes s" and "table_keys_ok (ds_table s)"
  shows "table_map (ds_table (fold (apply_write f) ops s)) = fold spec_write ops (table_map (ds_table s)) \<and>
    table_keys_ok (ds_table (fold (apply_write f) ops s))"
  using assms
proof (induction ops arbitrary: s)
  case (Cons op ops)
  have 1: "table_map (ds_table (apply_write f op s)) = spec_write op (table_map (ds_table s))"
    "table_keys_ok (ds_table (apply_write f op s))" "ds_max_bytes (apply_write f op s) = ds_max_bytes s"
    using Cons.prems
    by (cases op; simp add: mark_done_def save_entry_def enforce_max_size_def insert_row_map
        delete_entries_map table_keys_insert table_keys_delete)+
  from Cons.IH [of "apply_write f op s"] Cons.prems(1) 1 show ?case by simp
qed simp

section \<open>Properties\<close>

text \<open>
  The disk store is a map of saved states. When no write exceeds the size limit, running
  the writer's operations on the table refines the specification map, in which a save
  overwrites its request and position and a clear removes the request; a restore then returns
  the state saved at the greatest position of the request, unpickled, and nothing for a request
  without one.
\<close>

theorem disk_restore_latest:
  assumes "\<And>t. db_size t < ds_max_bytes s" and "ds_table s = []"
    and "m = fold spec_write ops (\<lambda>_. None)"
    and "\<And>st. loads (dumps st) = Some st"
  shows "(\<forall>pos st. m (i, pos) = Some (dumps st) \<and> (\<forall>q. m (i, q) \<noteq> None \<longrightarrow> q \<le> pos) \<longrightarrow>
      disk_restore loads i (fold (apply_write db_size) ops s) = Some st) \<and>
    ((\<forall>q. m (i, q) = None) \<longrightarrow> disk_restore loads i (fold (apply_write db_size) ops s) = None)"
proof -
  have "table_keys_ok (ds_table s)" "table_map (ds_table s) = (\<lambda>_. None)"
    using assms(2) by (auto simp: table_keys_ok_def table_map_def)
  with writes_refine [of db_size s ops] assms(1,3)
  have t: "table_map (ds_table (fold (apply_write db_size) ops s)) = m"
    "table_keys_ok (ds_table (fold (apply_write db_size) ops s))" by simp_all
  show ?thesis
    using select_latest_some [OF t(2), of i] select_latest_none [of "ds_table (fold (apply_write db_size) ops s)" i]
      assms(4) unfolding t(1) by (auto simp: disk_restore_def)
qed

theorem disk_restore_latest_witness:
  "disk_restore (\<lambda>b. Some b) ''a''
     (fold (apply_write (\<lambda>_. 0))
        [SaveOp ''a'' 5 (50 :: nat) 0, SaveOp ''b'' 9 90 1, SaveOp ''a'' 7 70 2, DeleteOp ''b'']
        (disk_store_init 1)) = Some 70"
proof -
  let ?ops = "[SaveOp ''a'' 5 (50 :: nat) 0, SaveOp ''b'' 9 90 1, SaveOp ''a'' 7 70 2, DeleteOp ''b'']"
  have m: "fold spec_write ?ops (\<lambda>_. None) (''a'', q) = (if q = 7 then Some 70 else if q = 5 then Some 50 else None)"
    for q by simp
  have "\<forall>pos st. fold spec_write ?ops (\<lambda>_. None) (''a'', pos) = Some st \<and>
      (\<forall>q. fold spec_write ?ops (\<lambda>_. None) (''a'', q) \<noteq> None \<longrightarrow> q \<le> pos) \<longrightarrow>
      disk_restore (\<lambda>b. Some b) ''a'' (fold (apply_write (\<lambda>_. 0)) ?ops
        (disk_store_init 1)) = Some st"
    using disk_restore_latest [of "\<lambda>_. 0" "disk_store_init 1" _ ?ops
        "\<lambda>b. Some b" "\<lambda>b. b" "''a''"]
    by (simp add: disk_store_init_def del: fold_simps)
  from spec [OF this, of 7] show ?thesis unfolding m by simp
qed

text \<open>
  waiting for a pending request never blocks for ever. In every reachable state with the
  client not in the middle of a save or clear and the writer not stopped, as many writer
  rounds as there are queued operations leave no request pending.
\<close>

theorem disk_wait_terminates:
  assumes "disk_reachable db_size mb s" and "ds_putting s = None" and "\<not> ds_writer_done s"
  shows "not_pending i ((writer_step db_size ^^ length (ds_queue s)) s)"
proof -
  let ?s = "(writer_step db_size ^^ length (ds_queue s)) s"
  have "pending_inv ?s" using reachable_pending [OF assms(1)] by (rule writer_steps_pending)
  moreover have "ds_queue ?s = []" using writer_drains assms(3) by blast
  moreover have "ds_putting ?s = None" using assms(2) by (simp add: writer_steps_putting)
  ultimately show ?thesis by (simp add: pending_inv_def not_pending_def)
qed

definition demo_disk :: "nat disk_store" where
  "demo_disk = disk_put (disk_save_begin (\<lambda>d. d) ''a'' 50 5 0 (disk_store_init 1))"

theorem disk_wait_terminates_witness:
  "\<not> not_pending ''a'' demo_disk \<and>
   not_pending ''a'' ((writer_step (\<lambda>_. 0) ^^ length (ds_queue demo_disk)) demo_disk)"
proof -
  have "disk_step (\<lambda>_. 0) (disk_store_init 1 :: nat disk_store)
      (disk_save_begin (\<lambda>d. d) ''a'' 50 5 0 (disk_store_init 1))"
    by (rule disk_step.save) (simp_all add: disk_store_init_def)
  then have "disk_reachable (\<lambda>_. 0) 1 (disk_save_begin (\<lambda>d. d) ''a'' 50 5 0 (disk_store_init 1) :: nat disk_store)"
    using disk_reachable.start disk_reachable.step by blast
  then have "disk_reachable (\<lambda>_. 0) 1 demo_disk"
    unfolding demo_disk_def using disk_reachable.step disk_step.put by blast
  moreover have "ds_putting demo_disk = None" "\<not> ds_writer_done demo_disk"
    by (simp_all add: demo_disk_def disk_put_def disk_save_begin_def disk_store_init_def mark_pending_def)
  ultimately have "not_pending ''a'' ((writer_step (\<lambda>_. 0) ^^ length (ds_queue demo_disk)) demo_disk)"
    by (rule disk_wait_terminates)
  then show ?thesis
    by (simp add: not_pending_def demo_disk_def disk_put_def disk_save_begin_def disk_store_init_def
        mark_pending_def)
qed

text \<open>
  A restore may return a state older than the last one saved. After two saves for one
  request the writer's first round already ends the pending state, so a restore does not
  wait for the second write and returns the first state.
\<close>

theorem disk_restore_can_be_stale:
  "let s0 = disk_store_init 1;
       s1 = disk_put (disk_save_begin (\<lambda>d. d) ''a'' (50 :: nat) 5 0 s0);
       s2 = disk_put (disk_save_begin (\<lambda>d. d) ''a'' 70 7 1 s1);
       s3 = writer_step (\<lambda>_. 0) s2
   in not_pending ''a'' s3 \<and> disk_restore Some ''a'' s3 = Some 50 \<and>
      disk_restore Some ''a'' (writer_step (\<lambda>_. 0) s3) = Some 70"
  by (simp add: Let_def disk_store_init_def disk_put_def disk_save_begin_def mark_pending_def
      writer_step_def mark_done_def not_pending_def disk_restore_def select_latest_def save_entry_def
      enforce_max_size_def insert_row_def)

end
