(* ===== verification/State_Cache.thy ===== *)
theory State_Cache
  imports State_Disk_Store
begin

text \<open>
  \<^verbatim>\<open>vkwr/state/state_cache.py\<close>: the second cache level, finished requests' states in host
  memory with least-recently-used eviction, and per-request checkpoints.

  The ordered dictionary is an association list whose head is the oldest entry. Copying a
  tensor between devices does not change its value, so a state is one abstract value; entry
  time stamps, which nothing reads, are left out. An optional disk store receives the entries
  \<^verbatim>\<open>evict_oldest\<close> removes.
\<close>

section \<open>State and operations\<close>

record 's cache_entry =
  ce_state :: 's
  ce_token_pos :: int

record 's state_cache =
  max_cpu_entries :: int
  max_checkpoints :: int
  cpu_cache :: "(rid, 's cache_entry) dict"
  checkpoints :: "(rid, (int \<times> 's) list) dict"
  cache_disk :: "'s disk_store option"

definition state_cache_init :: "int \<Rightarrow> int \<Rightarrow> 's disk_store option \<Rightarrow> 's state_cache" where
  "state_cache_init entries cps disk =
     \<lparr>max_cpu_entries = entries, max_checkpoints = cps, cpu_cache = [], checkpoints = [],
      cache_disk = disk\<rparr>"

text \<open>\<^verbatim>\<open>OrderedDict.move_to_end\<close> and \<^verbatim>\<open>popitem(last=False)\<close>\<close>

definition move_to_end :: "'k \<Rightarrow> ('k, 'v) dict \<Rightarrow> ('k, 'v) dict" where
  "move_to_end k d = (case dict_get d k of None \<Rightarrow> d | Some v \<Rightarrow> dict_del k d @ [(k, v)])"

definition pop_oldest :: "('k, 'v) dict \<Rightarrow> (('k \<times> 'v) \<times> ('k, 'v) dict) res" where
  "pop_oldest d = (case d of [] \<Rightarrow> Inl KeyError | p # rest \<Rightarrow> Inr (p, rest))"

definition cache_save :: "rid \<Rightarrow> 's \<Rightarrow> int \<Rightarrow> 's state_cache \<Rightarrow> 's state_cache res" where
  "cache_save i st pos c =
     (let entry = \<lparr>ce_state = st, ce_token_pos = pos\<rparr> in
      if dict_has (cpu_cache c) i then Inr (c\<lparr>cpu_cache := move_to_end i (cpu_cache c)\<rparr>)
      else bindE (if int (length (cpu_cache c)) \<ge> max_cpu_entries c
                  then bindE (pop_oldest (cpu_cache c)) (\<lambda>((old, _), rest).
                         Inr (c\<lparr>cpu_cache := rest, checkpoints := dict_del old (checkpoints c)\<rparr>))
                  else Inr c)
             (\<lambda>c1. Inr (c1\<lparr>cpu_cache := dict_set i entry (cpu_cache c1)\<rparr>)))"

definition cache_restore :: "rid \<Rightarrow> 's state_cache \<Rightarrow> 's option \<times> 's state_cache" where
  "cache_restore i c =
     (case dict_get (cpu_cache c) i of
        None \<Rightarrow> (None, c)
      | Some e \<Rightarrow> (Some (ce_state e), c\<lparr>cpu_cache := move_to_end i (cpu_cache c)\<rparr>))"

fun trim_front :: "int \<Rightarrow> 'a list \<Rightarrow> 'a list res" where
  "trim_front m [] = (if 0 > m then Inl IndexError else Inr [])"
| "trim_front m (x # xs) = (if int (length (x # xs)) > m then trim_front m xs else Inr (x # xs))"

definition cache_checkpoint :: "rid \<Rightarrow> int \<Rightarrow> 's \<Rightarrow> 's state_cache \<Rightarrow> 's state_cache res" where
  "cache_checkpoint i pos st c =
     bindE (trim_front (max_checkpoints c) (dict_get_default (checkpoints c) i [] @ [(pos, st)])) (\<lambda>l.
       Inr (c\<lparr>checkpoints := dict_set i l (checkpoints c)\<rparr>))"

definition cache_rollback :: "rid \<Rightarrow> int \<Rightarrow> 's state_cache \<Rightarrow> 's option" where
  "cache_rollback i target c =
     map_option snd (find (\<lambda>(pos, _). pos \<le> target) (dict_get_default (checkpoints c) i []))"

definition cache_clear :: "rid \<Rightarrow> 's state_cache \<Rightarrow> 's state_cache" where
  "cache_clear i c =
     c\<lparr>cpu_cache := dict_del i (cpu_cache c), checkpoints := dict_del i (checkpoints c)\<rparr>"

text \<open>\<open>now\<close> is the clock the disk store reads for each entry.\<close>

fun evict_loop :: "nat \<Rightarrow> real \<Rightarrow> rid list \<times> 's state_cache \<Rightarrow> (rid list \<times> 's state_cache) res" where
  "evict_loop 0 now (evicted, c) = Inr (evicted, c)"
| "evict_loop (Suc n) now (evicted, c) =
     bindE (pop_oldest (cpu_cache c)) (\<lambda>((i, e), rest).
       evict_loop n now (evicted @ [i],
         c\<lparr>cpu_cache := rest, checkpoints := dict_del i (checkpoints c),
           cache_disk := map_option
             (\<lambda>d. disk_put (disk_save_begin (\<lambda>s. s) i (ce_state e) (ce_token_pos e) now d))
             (cache_disk c)\<rparr>))"

definition evict_oldest :: "nat \<Rightarrow> real \<Rightarrow> 's state_cache \<Rightarrow> (rid list \<times> 's state_cache) res" where
  "evict_oldest n now c = evict_loop (min n (length (cpu_cache c))) now ([], c)"

definition cache_close :: "'s state_cache \<Rightarrow> 's state_cache" where
  "cache_close c = c\<lparr>cache_disk := map_option disk_close (cache_disk c)\<rparr>"

section \<open>Invariant\<close>

definition cache_inv :: "'s state_cache \<Rightarrow> bool" where
  "cache_inv c \<longleftrightarrow>
     dict_ok (cpu_cache c) \<and> dict_ok (checkpoints c) \<and>
     int (length (cpu_cache c)) \<le> max 1 (max_cpu_entries c) \<and>
     (\<forall>(i, l) \<in> set (checkpoints c). int (length l) \<le> max_checkpoints c)"

lemma move_to_end_get [simp]: "dict_get (move_to_end k d) = dict_get d"
  by (rule ext) (auto simp: move_to_end_def map_add_def split: option.splits)

lemma move_to_end_ok: "dict_ok d \<Longrightarrow> dict_ok (move_to_end k d)"
  by (auto simp: move_to_end_def dict_ok_del dict_keys_del split: option.split)
     (metis DiffE dict_keys_del fst_conv imageI insertI1 list.set_map)

lemma dict_del_length: "dict_ok d \<Longrightarrow> dict_get d k \<noteq> None \<Longrightarrow> Suc (length (dict_del k d)) = length d"
  by (induction d) (auto simp: delete_idem dict_keys_dom dom_map_of_conv_image_fst split: if_splits)

lemma move_to_end_length: "dict_ok d \<Longrightarrow> length (move_to_end k d) = length d"
  using dict_del_length [of d k] by (auto simp: move_to_end_def split: option.split)

lemma trim_front_spec:
  "0 \<le> m \<Longrightarrow> trim_front m xs = Inr (drop (length xs - nat m) xs)"
proof (induction xs)
  case (Cons x xs)
  show ?case
  proof (cases "int (length (x # xs)) > m")
    case True
    then have "Suc (length xs) - nat m = Suc (length xs - nat m)" using Cons.prems by (simp add: Suc_diff_le nat_le_iff)
    then show ?thesis using Cons True by simp
  next
    case False
    then show ?thesis using Cons.prems by simp
  qed
qed simp

lemma dict_set_in: "(i, v) \<in> set (dict_set k w d) \<Longrightarrow> (i, v) \<in> set d \<or> (i = k \<and> v = w)"
  by (induction d) (auto split: if_splits)

lemma dict_del_in: "(i, v) \<in> set (dict_del k d) \<Longrightarrow> (i, v) \<in> set d"
  by (induction d) (auto split: if_splits)

lemma cache_save_inv [inv_intros]:
  assumes "cache_inv c" and "cache_save i st pos c = Inr c'"
  shows "cache_inv c'"
proof (cases "dict_has (cpu_cache c) i")
  case True
  with assms show ?thesis
    by (auto simp: cache_save_def Let_def cache_inv_def move_to_end_ok move_to_end_length)
next
  case new: False
  then have none: "dict_get (cpu_cache c) i = None" by (simp add: dict_has_iff)
  show ?thesis
  proof (cases "int (length (cpu_cache c)) \<ge> max_cpu_entries c")
    case True
    then obtain old e rest where d: "cpu_cache c = (old, e) # rest"
      and c': "c' = c\<lparr>cpu_cache := dict_set i \<lparr>ce_state = st, ce_token_pos = pos\<rparr> rest,
                     checkpoints := dict_del old (checkpoints c)\<rparr>"
      using assms(2) new by (auto simp: cache_save_def pop_oldest_def split: list.splits)
    have "dict_set i \<lparr>ce_state = st, ce_token_pos = pos\<rparr> rest =
        rest @ [(i, \<lparr>ce_state = st, ce_token_pos = pos\<rparr>)]"
      using none d by (intro dict_set_new) (simp split: if_splits)
    moreover have "dict_ok (dict_set i \<lparr>ce_state = st, ce_token_pos = pos\<rparr> rest)"
      using assms(1) d by (intro dict_ok_set) (simp add: cache_inv_def)
    ultimately show ?thesis
      using assms(1) d c' by (auto simp: cache_inv_def dict_ok_del dest!: dict_del_in)
  next
    case False
    then have c': "c' = c\<lparr>cpu_cache := cpu_cache c @ [(i, \<lparr>ce_state = st, ce_token_pos = pos\<rparr>)]\<rparr>"
      using assms(2) new dict_set_new [OF none] by (simp add: cache_save_def)
    show ?thesis
      using assms(1) False c' none by (auto simp: cache_inv_def dict_get_None_keys)
  qed
qed

lemma cache_restore_inv [inv_intros]: "cache_inv c \<Longrightarrow> cache_inv (snd (cache_restore i c))"
  by (auto simp: cache_restore_def cache_inv_def move_to_end_ok move_to_end_length split: option.split)

lemma cache_checkpoint_inv [inv_intros]:
  assumes "cache_inv c" and "0 \<le> max_checkpoints c" and "cache_checkpoint i pos st c = Inr c'"
  shows "cache_inv c'"
  using assms
  by (auto simp: cache_checkpoint_def trim_front_spec cache_inv_def dict_ok_set dest!: dict_set_in)

lemma cache_clear_inv [inv_intros]: "cache_inv c \<Longrightarrow> cache_inv (cache_clear i c)"
proof -
  assume c: "cache_inv c"
  have "length (dict_del i (cpu_cache c)) \<le> length (cpu_cache c)" by (rule length_delete_le)
  with c show "cache_inv (cache_clear i c)"
    by (auto simp: cache_clear_def cache_inv_def dict_ok_del dest!: dict_del_in)
qed

lemma evict_loop_spec:
  assumes "n \<le> length (cpu_cache c)"
  shows "\<exists>c'. evict_loop n now (ev, c) = Inr (ev @ map fst (take n (cpu_cache c)), c') \<and>
    cpu_cache c' = drop n (cpu_cache c) \<and> (cache_inv c \<longrightarrow> cache_inv c') \<and>
    max_cpu_entries c' = max_cpu_entries c"
  using assms
proof (induction n arbitrary: c ev)
  case (Suc n)
  then obtain i e rest where d: "cpu_cache c = (i, e) # rest" by (cases "cpu_cache c") auto
  let ?c1 = "c\<lparr>cpu_cache := rest, checkpoints := dict_del i (checkpoints c),
           cache_disk := map_option
             (\<lambda>d. disk_put (disk_save_begin (\<lambda>s. s) i (ce_state e) (ce_token_pos e) now d))
             (cache_disk c)\<rparr>"
  have inv: "cache_inv c \<Longrightarrow> cache_inv ?c1"
    using d by (auto simp: cache_inv_def dict_ok_del dest!: dict_del_in)
  have "n \<le> length (cpu_cache ?c1)" using Suc.prems d by simp
  from Suc.IH [OF this, of "ev @ [i]"] inv d show ?case by (auto simp: pop_oldest_def)
qed simp

section \<open>Properties\<close>



text \<open>
  A save is only effective for a request that is not cached. Restoring right after a save
  returns the saved state for a new request, but for a request already in the cache the old
  state: the second save merely marks the entry as recently used.
\<close>

theorem cache_save_restore:
  assumes "cache_save i st pos c = Inr c'"
  shows "fst (cache_restore i c') =
    Some (case dict_get (cpu_cache c) i of None \<Rightarrow> st | Some e \<Rightarrow> ce_state e)"
  using assms
  by (auto simp: cache_save_def Let_def cache_restore_def dict_has_iff split: if_splits option.splits)

theorem cache_save_restore_witness:
  "\<exists>c1 c2. cache_save ''a'' (10 :: nat) 5 (state_cache_init 4 2 None) = Inr c1 \<and>
     cache_save ''a'' 20 9 c1 = Inr c2 \<and> fst (cache_restore ''a'' c2) = Some 10"
proof -
  let ?c = "state_cache_init 4 2 None :: nat state_cache"
  let ?c1 = "?c\<lparr>cpu_cache := [(''a'', \<lparr>ce_state = 10, ce_token_pos = 5\<rparr>)]\<rparr>"
  have 1: "cache_save ''a'' 10 5 ?c = Inr ?c1"
    by (simp add: cache_save_def state_cache_init_def dict_has_def)
  have 2: "cache_save ''a'' 20 9 ?c1 = Inr (?c1\<lparr>cpu_cache := move_to_end ''a'' (cpu_cache ?c1)\<rparr>)"
    by (simp add: cache_save_def dict_has_def)
  from cache_save_restore [OF 2] 1 2 show ?thesis by simp
qed

text \<open>
  a rollback returns the oldest retained checkpoint, not the nearest one. After one more
  checkpoint the request's list holds the last \<open>max_checkpoints\<close> ones in order; a rollback to
  any position at or after the oldest of them yields that oldest one.
\<close>

theorem rollback_returns_oldest:
  assumes "0 < max_checkpoints c" and "cache_checkpoint i pos st c = Inr c'"
    and "cps = drop (Suc (length (dict_get_default (checkpoints c) i [])) - nat (max_checkpoints c))
                 (dict_get_default (checkpoints c) i [] @ [(pos, st)])"
  shows "dict_get (checkpoints c') i = Some cps \<and> cps \<noteq> [] \<and>
    (\<forall>target. fst (hd cps) \<le> target \<longrightarrow> cache_rollback i target c' = Some (snd (hd cps)))"
proof -
  have get: "dict_get (checkpoints c') i = Some cps"
    using assms by (auto simp: cache_checkpoint_def trim_front_spec)
  have "length cps = Suc (length (dict_get_default (checkpoints c) i [])) -
      (Suc (length (dict_get_default (checkpoints c) i [])) - nat (max_checkpoints c))"
    using assms(3) by simp
  then have ne: "cps \<noteq> []" using assms(1) by auto
  then obtain p s rest where "cps = (p, s) # rest" by (cases cps) auto
  with get ne show ?thesis by (auto simp: cache_rollback_def dict_get_default_def)
qed

theorem rollback_returns_oldest_witness:
  "\<exists>c'. cache_checkpoint ''a'' 20 (2 :: nat)
      \<lparr>max_cpu_entries = 4, max_checkpoints = 8, cpu_cache = [], checkpoints = [(''a'', [(10, 1)])],
       cache_disk = None\<rparr> = Inr c' \<and> cache_rollback ''a'' 25 c' = Some 1"
proof -
  let ?c = "\<lparr>max_cpu_entries = 4, max_checkpoints = 8, cpu_cache = [],
      checkpoints = [(''a'', [(10, 1)])], cache_disk = None\<rparr> :: nat state_cache"
  have run: "cache_checkpoint ''a'' 20 2 ?c = Inr (?c\<lparr>checkpoints := [(''a'', [(10, 1), (20, 2)])]\<rparr>)"
    by (simp add: cache_checkpoint_def dict_get_default_def)
  have "0 < max_checkpoints ?c" by simp
  from rollback_returns_oldest [OF this run refl] run show ?thesis
    by (simp add: dict_get_default_def)
qed

end
