(* ===== verification/Cuda_Graph.thy ===== *)
theory Cuda_Graph
  imports Prelude
begin

text \<open>
  \<^verbatim>\<open>vkwr/worker/cuda_graph.py\<close>: which captured graph serves a decode batch.

  A capture shape is the tuple of its sequence lengths; a captured graph is an abstract value
  \<open>'g\<close> (CUDA's own object and the static output buffer). Capturing itself runs the model and is
  not modelled beyond its effect on the table of entries.
\<close>

type_synonym shape = "nat list"

record 'g graph_manager =
  capture_shapes :: "shape list"
  gm_max_batch_size :: nat
  gm_entries :: "(shape, 'g) dict"
  capture_sizes :: "nat list"
  bs_to_padded :: "(nat, nat) dict"

text \<open>The inner loop: the first capture size, in ascending order, that is large enough.\<close>

definition padded_size :: "nat list \<Rightarrow> nat \<Rightarrow> nat option" where
  "padded_size sizes bs = find (\<lambda>cs. cs \<ge> bs) sizes"

definition compute_bs_to_padded :: "nat list \<Rightarrow> nat \<Rightarrow> (nat, nat) dict" where
  "compute_bs_to_padded sizes max_bs =
     concat (map (\<lambda>bs. case padded_size sizes bs of None \<Rightarrow> [] | Some p \<Rightarrow> [(bs, p)]) [1..<Suc max_bs])"

definition decode_shape :: "nat \<Rightarrow> shape" where
  "decode_shape b = replicate b 1"

definition graph_manager_init :: "shape list option \<Rightarrow> nat \<Rightarrow> 'g graph_manager" where
  "graph_manager_init shapes max_bs =
     (let shs = (case shapes of Some (s # ss) \<Rightarrow> s # ss | _ \<Rightarrow> map decode_shape [1..<65]);
          sizes = sort (remdups (map length shs))
      in \<lparr>capture_shapes = shs, gm_max_batch_size = max_bs, gm_entries = [], capture_sizes = sizes,
          bs_to_padded = compute_bs_to_padded sizes max_bs\<rparr>)"

definition get_graph :: "shape \<Rightarrow> 'g graph_manager \<Rightarrow> 'g option" where
  "get_graph s gm = dict_get (gm_entries gm) s"

definition get_graph_with_padding :: "nat \<Rightarrow> 'g graph_manager \<Rightarrow> 'g option \<times> nat" where
  "get_graph_with_padding b gm =
     (case dict_get (bs_to_padded gm) b of
        None \<Rightarrow> (None, b)
      | Some p \<Rightarrow>
          if p > gm_max_batch_size gm then (None, b)
          else case dict_get (gm_entries gm) (decode_shape p) of
            None \<Rightarrow> (None, b)
          | Some g \<Rightarrow> (Some g, p))"

definition capture_for_shape :: "shape \<Rightarrow> 'g \<Rightarrow> 'g graph_manager \<Rightarrow> 'g graph_manager" where
  "capture_for_shape s g gm = gm\<lparr>gm_entries := dict_set s g (gm_entries gm)\<rparr>"

definition graph_replay :: "shape \<Rightarrow> 'g graph_manager \<Rightarrow> 'g res" where
  "graph_replay s gm = dict_item (gm_entries gm) s"

section \<open>The table\<close>

lemma compute_bs_to_padded_get:
  "dict_get (compute_bs_to_padded sizes m) b =
     (if 1 \<le> b \<and> b \<le> m then padded_size sizes b else None)"
proof -
  have "dict_get (concat (map (\<lambda>bs. case padded_size sizes bs of None \<Rightarrow> [] | Some p \<Rightarrow> [(bs, p)]) xs)) b =
      (if b \<in> set xs then padded_size sizes b else None)" for xs
    by (induction xs) (auto split: option.split)
  then show ?thesis by (auto simp: compute_bs_to_padded_def)
qed

lemma padded_size_least:
  assumes "sorted sizes" and "padded_size sizes b = Some p"
  shows "b \<le> p" and "p \<in> set sizes" and "\<And>c. c \<in> set sizes \<Longrightarrow> b \<le> c \<Longrightarrow> p \<le> c"
proof -
  from assms(2) obtain i where i: "i < length sizes" "sizes ! i = p" "b \<le> p"
    "\<And>j. j < i \<Longrightarrow> \<not> b \<le> sizes ! j"
    by (auto simp: padded_size_def find_Some_iff)
  show "b \<le> p" "p \<in> set sizes" using i by auto
  fix c assume "c \<in> set sizes" "b \<le> c"
  then obtain j where "j < length sizes" "sizes ! j = c" by (metis in_set_conv_nth)
  then show "p \<le> c" using i assms(1) \<open>b \<le> c\<close> sorted_nth_mono [of sizes i j]
    by (metis not_le_imp_less)
qed

text \<open>
  a decode batch is padded to the least captured size that holds it. The manager built from
  the capture shapes never returns a graph smaller than the batch or larger than the maximum
  batch size; the returned graph is the one captured for that many single-token sequences; and
  without a graph the batch keeps its own size.
\<close>

theorem padding_is_least:
  assumes "gm = (graph_manager_init shapes m)\<lparr>gm_entries := es\<rparr>"
    and "get_graph_with_padding b gm = (g, p)"
  shows "(g = None \<longrightarrow> p = b) \<and>
    (\<forall>gr. g = Some gr \<longrightarrow> b \<le> p \<and> p \<le> m \<and> dict_get es (decode_shape p) = Some gr \<and>
       p \<in> length ` set (capture_shapes gm) \<and>
       (\<forall>c \<in> length ` set (capture_shapes gm). b \<le> c \<longrightarrow> p \<le> c))"
proof (cases g)
  case None
  then show ?thesis using assms(2)
    by (auto simp: get_graph_with_padding_def split: option.splits if_splits)
next
  case (Some gr)
  let ?sizes = "capture_sizes gm"
  have sizes: "sorted ?sizes" "set ?sizes = length ` set (capture_shapes gm)"
    by (auto simp: assms(1) graph_manager_init_def Let_def)
  have tab: "bs_to_padded gm = compute_bs_to_padded ?sizes m" "gm_max_batch_size gm = m" "gm_entries gm = es"
    by (auto simp: assms(1) graph_manager_init_def Let_def)
  from assms(2) Some have pd: "dict_get (bs_to_padded gm) b = Some p" "p \<le> m"
    "dict_get es (decode_shape p) = Some gr"
    by (auto simp: get_graph_with_padding_def tab split: option.splits if_splits)
  then have "padded_size ?sizes b = Some p"
    by (auto simp: tab(1) compute_bs_to_padded_get split: if_splits)
  from padded_size_least [OF sizes(1) this] show ?thesis using pd Some sizes(2) by auto
qed

theorem padding_is_least_witness:
  "get_graph_with_padding 3
     ((graph_manager_init (Some (map decode_shape [1, 2, 4, 8])) 16)\<lparr>gm_entries := [(decode_shape 4, ''g4'')]\<rparr>)
   = (Some ''g4'', 4) \<and> (3 :: nat) \<le> 4"
proof -
  let ?gm = "(graph_manager_init (Some (map decode_shape [1, 2, 4, 8])) 16)
    \<lparr>gm_entries := [(decode_shape 4, ''g4'')]\<rparr>"
  have run: "get_graph_with_padding 3 ?gm = (Some ''g4'', 4)" by code_simp
  from padding_is_least [OF refl run] run show ?thesis by blast
qed

end
