(* ===== verification/Model_Runner.thy ===== *)
theory Model_Runner
  imports Scheduler_Inv State_Cache Cuda_Graph
begin

text \<open>
  \<^verbatim>\<open>vkwr/worker/gpu_model_runner.py\<close> and \<^verbatim>\<open>vkwr/model_executor/layers/sampler.py\<close>: from a
  scheduler output to logits and sampled tokens.

  The three state tensors are sliced by slot everywhere, so a slot's state is one abstract
  value \<open>'st\<close> and the buffer is a function from slots. The neural network, floating-point
  tensor code over CUDA kernels, is the parameter \<open>fwd\<close>: the recurrent forward pass of one
  sequence, from its tokens and its state to the new state and the logits of its last
  position. A batch is the sequence of these passes; on distinct slots their order does not
  matter. Replaying a captured graph performs the forward pass of the padded batch held in the
  static buffers. Sampling from the distribution and its random states are parameters too.
  Streams, events, copies between devices and the embedding on the CPU do not change values and
  are not modelled.
\<close>

section \<open>State\<close>

record ('st, 'g, 'r) runner =
  rn_loaded :: bool
  rn_max_num_batched_tokens :: nat
  rn_state :: "nat \<Rightarrow> 'st"
  rn_last :: "nat \<Rightarrow> token"
  rn_min_prev :: "token option"
  rn_graphs :: "'g graph_manager option"
  rn_interval :: "int option"
  rn_cache :: "'st state_cache"
  rn_sampler_states :: "(nat \<times> 'r) option"

definition runner_load ::
  "'st \<Rightarrow> nat \<Rightarrow> 'g graph_manager option \<Rightarrow> int option \<Rightarrow> 'st state_cache \<Rightarrow> ('st, 'g, 'r) runner" where
  "runner_load zero max_tokens graphs interval cache =
     \<lparr>rn_loaded = True, rn_max_num_batched_tokens = max_tokens, rn_state = (\<lambda>_. zero),
      rn_last = (\<lambda>_. -1), rn_min_prev = None, rn_graphs = graphs, rn_interval = interval,
      rn_cache = cache, rn_sampler_states = None\<rparr>"

section \<open>Forward passes\<close>

fun forward_batch ::
  "(token list \<Rightarrow> 'st \<Rightarrow> 'st \<times> 'lg) \<Rightarrow> (token list \<times> nat) list \<Rightarrow> (nat \<Rightarrow> 'st)
     \<Rightarrow> 'lg list \<times> (nat \<Rightarrow> 'st)" where
  "forward_batch fwd [] st = ([], st)"
| "forward_batch fwd ((toks, slot) # rest) st =
     (case fwd toks (st slot) of (s', lg) \<Rightarrow>
        case forward_batch fwd rest (st(slot := s')) of (lgs, st') \<Rightarrow> (lg # lgs, st'))"

text \<open>\<^verbatim>\<open>_slice_state_from_slot\<close> and \<^verbatim>\<open>_write_state_to_slot\<close>\<close>

definition slice_state_from_slot :: "nat \<Rightarrow> ('st, 'g, 'r) runner \<Rightarrow> 'st" where
  "slice_state_from_slot slot rn = rn_state rn slot"

definition write_state_to_slot :: "nat \<Rightarrow> 'st \<Rightarrow> ('st, 'g, 'r) runner \<Rightarrow> ('st, 'g, 'r) runner" where
  "write_state_to_slot slot st rn = rn\<lparr>rn_state := (rn_state rn)(slot := st)\<rparr>"

definition is_uniform_decode :: "sched_output \<Rightarrow> bool res" where
  "is_uniform_decode out =
     (if so_total_num_scheduled_tokens out = 0 then Inr False
      else if so_total_num_scheduled_tokens out \<noteq> int (length (so_scheduled_req_ids out)) then Inr False
      else bindE (mapE (dict_item (so_request_data out)) (so_scheduled_req_ids out)) (\<lambda>rds.
             Inr (\<forall>rd \<in> set rds. rd_is_decode rd)))"

subsection \<open>The eager path\<close>

fun prefix_sums :: "nat \<Rightarrow> nat list \<Rightarrow> nat list" where
  "prefix_sums acc [] = [acc]"
| "prefix_sums acc (n # ns) = acc # prefix_sums (acc + n) ns"

definition run_tokens :: "('st, 'g, 'r) runner \<Rightarrow> run_data \<Rightarrow> token list" where
  "run_tokens rn rd =
     (case rd_input_token_ids rd of Some ts \<Rightarrow> ts | None \<Rightarrow> [rn_last rn (rd_slot_index rd)])"

text \<open>The flat tokens, the offsets and the longest sequence. The host buffer is bounded.\<close>

definition prepare_input_ids ::
  "run_data list \<Rightarrow> ('st, 'g, 'r) runner \<Rightarrow> (token list \<times> nat list \<times> nat) res" where
  "prepare_input_ids rds rn =
     (let all_tokens = concat (map (run_tokens rn) rds);
          seq_lens = map (\<lambda>rd. nat (rd_num_tokens rd)) rds
      in if length all_tokens > rn_max_num_batched_tokens rn
         then Inl (RuntimeError ''size of tensor must match'')
         else Inr (all_tokens, prefix_sums 0 seq_lens, if seq_lens = [] then 1 else Max (set seq_lens)))"

text \<open>Sequence \<open>i\<close> of the flat batch is the slice between its two offsets.\<close>

definition segments :: "token list \<Rightarrow> nat list \<Rightarrow> token list list" where
  "segments toks offs =
     map (\<lambda>i. take (offs ! Suc i - offs ! i) (drop (offs ! i) toks)) [0..<length offs - 1]"

definition zero_new_states :: "'st \<Rightarrow> run_data list \<Rightarrow> (nat \<Rightarrow> 'st) \<Rightarrow> nat \<Rightarrow> 'st" where
  "zero_new_states zero rds st =
     fold (\<lambda>rd st. if \<not> rd_is_decode rd \<and> rd_num_computed_tokens rd = 0
                   then st(rd_slot_index rd := zero) else st) rds st"

definition execute_eager ::
  "(token list \<Rightarrow> 'st \<Rightarrow> 'st \<times> 'lg) \<Rightarrow> 'st \<Rightarrow> sched_output \<Rightarrow> ('st, 'g, 'r) runner
     \<Rightarrow> ('lg list \<times> ('st, 'g, 'r) runner) res" where
  "execute_eager fwd zero out rn =
     bindE (mapE (dict_item (so_request_data out)) (so_scheduled_req_ids out)) (\<lambda>rds.
       let rn1 = rn\<lparr>rn_state := zero_new_states zero rds (rn_state rn)\<rparr>
       in bindE (prepare_input_ids rds rn1) (\<lambda>(toks, offs, max_t).
            case forward_batch fwd (zip (segments toks offs) (map rd_slot_index rds)) (rn_state rn1) of
              (lgs, st') \<Rightarrow> Inr (lgs, rn1\<lparr>rn_state := st'\<rparr>)))"

subsection \<open>The uniform decode path\<close>

text \<open>
  \<^verbatim>\<open>_prepare_padding_slots\<close> and \<^verbatim>\<open>_cleanup_dummy_slots\<close> index the state and the last tokens with a tensor of
  slots. In torch that makes a new tensor of the selected rows, so \<^verbatim>\<open>zero_\<close> and \<^verbatim>\<open>fill_\<close> change this copy,
  which nobody keeps: the runner's own buffers stay as they are.
\<close>

definition select_slots :: "nat list \<Rightarrow> (nat \<Rightarrow> 'a) \<Rightarrow> 'a list" where
  "select_slots slots f = map f slots"

definition fill_rows :: "'a \<Rightarrow> 'a list \<Rightarrow> 'a list" where
  "fill_rows v rows = replicate (length rows) v"

definition prepare_padding_slots :: "'st \<Rightarrow> nat list \<Rightarrow> ('st, 'g, 'r) runner \<Rightarrow> ('st, 'g, 'r) runner" where
  "prepare_padding_slots zero pads rn =
     (let states = fill_rows zero (select_slots pads (rn_state rn));
          tokens = fill_rows 0 (select_slots pads (rn_last rn))
      in rn)"

definition cleanup_dummy_slots :: "'st \<Rightarrow> nat list \<Rightarrow> ('st, 'g, 'r) runner \<Rightarrow> ('st, 'g, 'r) runner" where
  "cleanup_dummy_slots zero pads rn =
     (let states = fill_rows zero (select_slots pads (rn_state rn));
          tokens = fill_rows 0 (select_slots pads (rn_last rn))
      in rn)"

lemma padding_simps [simp]: "prepare_padding_slots zero pads rn = rn" "cleanup_dummy_slots zero pads rn = rn"
  by (simp_all add: prepare_padding_slots_def cleanup_dummy_slots_def)

definition decode_forward ::
  "(token list \<Rightarrow> 'st \<Rightarrow> 'st \<times> 'lg) \<Rightarrow> token list \<Rightarrow> nat list \<Rightarrow> ('st, 'g, 'r) runner
     \<Rightarrow> 'lg list \<times> ('st, 'g, 'r) runner" where
  "decode_forward fwd toks slots rn =
     (case forward_batch fwd (zip (map (\<lambda>t. [t]) toks) slots) (rn_state rn) of
        (lgs, st') \<Rightarrow> (lgs, rn\<lparr>rn_state := st'\<rparr>))"

definition maybe_checkpoint ::
  "run_data list \<Rightarrow> nat list \<Rightarrow> ('st, 'g, 'r) runner \<Rightarrow> ('st, 'g, 'r) runner res" where
  "maybe_checkpoint rds slots rn =
     (case rn_interval rn of None \<Rightarrow> Inr rn
      | Some k \<Rightarrow>
          if k \<le> 0 then Inr rn
          else foldE (\<lambda>rn (rd, slot).
                 if rd_num_computed_tokens rd mod k = 0
                 then bindE (cache_checkpoint (rd_request_id rd) (rd_num_computed_tokens rd)
                               (slice_state_from_slot slot rn) (rn_cache rn)) (\<lambda>c.
                        Inr (rn\<lparr>rn_cache := c\<rparr>))
                 else Inr rn) rn (zip rds slots))"

text \<open>
  The forward pass, eager or by a graph of \<open>n_pad\<close> more sequences. The slot manager is shared
  with the engine; padding borrows slots from it.
\<close>

definition run_decode ::
  "(token list \<Rightarrow> 'st \<Rightarrow> 'st \<times> 'lg) \<Rightarrow> 'st \<Rightarrow> bool \<Rightarrow> nat \<Rightarrow> token list \<Rightarrow> nat list \<Rightarrow> slot_manager option
     \<Rightarrow> ('st, 'g, 'r) runner \<Rightarrow> ('lg list \<times> slot_manager option \<times> ('st, 'g, 'r) runner) res" where
  "run_decode fwd zero graph n_pad toks slots sm rn =
     (let can_pad = (case sm of Some m \<Rightarrow> n_pad > 0 \<longrightarrow> n_pad \<le> available_pad_count m | None \<Rightarrow> True)
      in if \<not> graph \<or> \<not> can_pad \<or> n_pad = 0
         then case decode_forward fwd toks slots rn of (lgs, rn2) \<Rightarrow> Inr (lgs, sm, rn2)
         else case sm of
           None \<Rightarrow> Inl AttributeError
         | Some m \<Rightarrow>
             bindE (reserve_pad_slots n_pad m) (\<lambda>(pads, m1).
               case decode_forward fwd (toks @ replicate n_pad 0) (slots @ pads)
                      (prepare_padding_slots zero pads rn) of
                 (lgs, rn2) \<Rightarrow>
                   Inr (take (length slots) lgs, Some (release_pad_slots m1),
                        cleanup_dummy_slots zero pads rn2)))"

definition execute_uniform_decode ::
  "(token list \<Rightarrow> 'st \<Rightarrow> 'st \<times> 'lg) \<Rightarrow> 'st \<Rightarrow> sched_output \<Rightarrow> slot_manager option
     \<Rightarrow> ('st, 'g, 'r) runner \<Rightarrow> ('lg list \<times> slot_manager option \<times> ('st, 'g, 'r) runner) res" where
  "execute_uniform_decode fwd zero out sm rn =
     bindE (mapE (dict_item (so_request_data out)) (so_scheduled_req_ids out)) (\<lambda>rds.
       let slots = map rd_slot_index rds; b = length slots; toks = map (rn_last rn) slots
       in if (case rn_min_prev rn of None \<Rightarrow> False | Some m \<Rightarrow> m < 0)
          then Inl (RuntimeError ''Some slots have no sampled token'')
          else
            let gp = (case rn_graphs rn of None \<Rightarrow> (None, b) | Some gm \<Rightarrow> get_graph_with_padding b gm);
                n_pad = (if fst gp \<noteq> None then snd gp - b else 0)
            in bindE (run_decode fwd zero (fst gp \<noteq> None) n_pad toks slots sm
                        (rn\<lparr>rn_min_prev := Some (Min (set toks))\<rparr>)) (\<lambda>(lgs, sm', rn3).
                 bindE (maybe_checkpoint rds slots rn3) (\<lambda>rn4. Inr (lgs, sm', rn4))))"

text \<open>\<open>None\<close> stands for an output without logits.\<close>

definition execute_model ::
  "(token list \<Rightarrow> 'st \<Rightarrow> 'st \<times> 'lg) \<Rightarrow> 'st \<Rightarrow> sched_output \<Rightarrow> slot_manager option
     \<Rightarrow> ('st, 'g, 'r) runner \<Rightarrow> ('lg list option \<times> slot_manager option \<times> ('st, 'g, 'r) runner) res" where
  "execute_model fwd zero out sm rn =
     (if \<not> rn_loaded rn then Inl (RuntimeError ''Model not loaded. Call load_model() first.'')
      else if so_scheduled_req_ids out = [] then Inr (None, sm, rn)
      else bindE (is_uniform_decode out) (\<lambda>uniform.
        if uniform then bindE (execute_uniform_decode fwd zero out sm rn)
                          (\<lambda>(lgs, sm', rn'). Inr (Some lgs, sm', rn'))
        else bindE (execute_eager fwd zero out rn) (\<lambda>(lgs, rn'). Inr (Some lgs, sm, rn'))))"

section \<open>Sampling\<close>

text \<open>
  The sampler reseeds its random states whenever the batch size changes, and reads the sampling
  parameters of the first request only.
\<close>

definition sampler_forward ::
  "('lg \<Rightarrow> token) \<Rightarrow> ('r \<Rightarrow> 'lg list \<Rightarrow> real \<Rightarrow> int \<Rightarrow> real \<Rightarrow> token list \<times> 'r) \<Rightarrow> (nat \<Rightarrow> 'r)
     \<Rightarrow> 'lg list \<Rightarrow> sampling_params list \<Rightarrow> (nat \<times> 'r) option \<Rightarrow> (token list \<times> (nat \<times> 'r) option) res" where
  "sampler_forward argmax draw setup_rand lgs ps st =
     (let b = length lgs;
          st1 = (case st of Some (n, r) \<Rightarrow> if n \<noteq> b then (b, setup_rand b) else (n, r)
                 | None \<Rightarrow> (b, setup_rand b))
      in case ps of
           [] \<Rightarrow> Inl IndexError
         | p # _ \<Rightarrow>
             if sp_temperature p < sampling_eps then Inr (map argmax lgs, Some st1)
             else case draw (snd st1) lgs (sp_temperature p) (sp_top_k p) (sp_top_p p) of
               (toks, r') \<Rightarrow> Inr (toks, Some (fst st1, r')))"

definition needs_sample :: "run_data \<Rightarrow> bool" where
  "needs_sample rd \<longleftrightarrow> rd_is_decode rd \<or> rd_is_last_prefill rd"

definition sample_tokens ::
  "('lg \<Rightarrow> token) \<Rightarrow> ('r \<Rightarrow> 'lg list \<Rightarrow> real \<Rightarrow> int \<Rightarrow> real \<Rightarrow> token list \<times> 'r) \<Rightarrow> (nat \<Rightarrow> 'r)
     \<Rightarrow> 'lg list option \<Rightarrow> sched_output \<Rightarrow> ('st, 'g, 'r) runner
     \<Rightarrow> (model_runner_output \<times> ('st, 'g, 'r) runner) res" where
  "sample_tokens argmax draw setup_rand logits out rn =
     (let none = \<lparr>mro_sampled_token_ids = [], mro_sampled_logprobs = None\<rparr> in
      if \<not> rn_loaded rn then Inl (RuntimeError ''Sampler not initialized. Call load_model() first.'')
      else if so_scheduled_req_ids out = [] then Inr (none, rn)
      else case logits of
        None \<Rightarrow> Inl (RuntimeError ''No logits in model_runner_output'')
      | Some lgs \<Rightarrow>
          bindE (mapE (dict_item (so_request_data out)) (so_scheduled_req_ids out)) (\<lambda>rds.
            let sel = filter (\<lambda>(rd, _). needs_sample rd) (zip rds lgs);
                ids = map (\<lambda>(rd, _). rd_request_id rd) sel;
                slots = map (\<lambda>(rd, _). rd_slot_index rd) sel
            in if sel = [] then Inr (none, rn)
               else bindE (sampler_forward argmax draw setup_rand (map snd sel)
                             (map (\<lambda>(rd, _). rd_sampling_params rd) sel) (rn_sampler_states rn))
                      (\<lambda>(toks, st').
                         Inr (\<lparr>mro_sampled_token_ids =
                                 fold (\<lambda>(i, t). dict_set i [t]) (zip ids toks) [],
                               mro_sampled_logprobs = None\<rparr>,
                              rn\<lparr>rn_last := fold (\<lambda>(s, t) f. f(s := t)) (zip slots toks) (rn_last rn),
                                 rn_sampler_states := st'\<rparr>))))"

section \<open>Lemmas\<close>

lemma forward_batch_distinct:
  assumes "distinct (map snd ps)"
  shows "fst (forward_batch fwd ps st) = map (\<lambda>(toks, slot). snd (fwd toks (st slot))) ps \<and>
    snd (forward_batch fwd ps st) =
      (\<lambda>s. case map_of (map (\<lambda>(toks, slot). (slot, toks)) ps) s of
             None \<Rightarrow> st s | Some toks \<Rightarrow> fst (fwd toks (st s)))"
  using assms
proof (induction ps arbitrary: st)
  case (Cons p ps)
  obtain toks slot where p: "p = (toks, slot)" by fastforce
  obtain s' lg where f: "fwd toks (st slot) = (s', lg)" by fastforce
  let ?st = "st(slot := s')"
  have notin: "slot \<notin> snd ` set ps" using Cons.prems p by simp
  have 1: "map (\<lambda>(toks, slot). snd (fwd toks (?st slot))) ps = map (\<lambda>(toks, slot). snd (fwd toks (st slot))) ps"
    using notin by (intro map_cong) (auto simp: image_iff)
  have none: "map_of (map (\<lambda>(toks, slot). (slot, toks)) ps) slot = None"
    using notin by (force simp: map_of_eq_None_iff)
  obtain lgs st' where fb: "forward_batch fwd ps ?st = (lgs, st')" by fastforce
  have IH: "lgs = map (\<lambda>(toks, slot). snd (fwd toks (st slot))) ps"
    "st' = (\<lambda>s. case map_of (map (\<lambda>(toks, slot). (slot, toks)) ps) s of
             None \<Rightarrow> ?st s | Some toks \<Rightarrow> fst (fwd toks (?st s)))"
    using Cons.IH [of ?st] Cons.prems unfolding fb 1 by simp_all
  have "st' = (\<lambda>s. case map_of (map (\<lambda>(toks, slot). (slot, toks)) (p # ps)) s of
             None \<Rightarrow> st s | Some toks \<Rightarrow> fst (fwd toks (st s)))"
    using none f unfolding IH(2) p by (auto split: option.split)
  with IH(1) p f fb show ?case by simp
qed simp

lemma prefix_sums_length [simp]: "length (prefix_sums a ns) = Suc (length ns)"
  by (induction ns arbitrary: a) auto

lemma segments_concat:
  assumes "length pre = a"
  shows "map (\<lambda>i. take (prefix_sums a (map length xss) ! Suc i - prefix_sums a (map length xss) ! i)
            (drop (prefix_sums a (map length xss) ! i) (pre @ concat xss))) [0..<length xss] = xss"
  using assms
proof (induction xss arbitrary: a pre)
  case (Cons xs xss)
  let ?ps = "prefix_sums (a + length xs) (map length xss)"
  have hd: "?ps ! 0 = a + length xs" by (cases xss) auto
  have "length (pre @ xs) = a + length xs" using Cons.prems by simp
  from Cons.IH [OF this]
  have IH: "map (\<lambda>i. take (?ps ! Suc i - ?ps ! i) (drop (?ps ! i) (pre @ xs @ concat xss))) [0..<length xss] = xss"
    by simp
  have "map (\<lambda>i. take ((a # ?ps) ! Suc i - (a # ?ps) ! i) (drop ((a # ?ps) ! i) (pre @ xs @ concat xss)))
      (map Suc [0..<length xss]) = xss"
    unfolding map_map comp_def nth_Cons_Suc by (rule IH)
  moreover have "[0..<length (xs # xss)] = 0 # map Suc [0..<length xss]"
    by (simp add: upt_conv_Cons map_Suc_upt del: upt_Suc)
  moreover have "take ((a # ?ps) ! Suc 0 - (a # ?ps) ! 0) (drop ((a # ?ps) ! 0) (pre @ xs @ concat xss)) = xs"
    using Cons.prems hd by simp
  ultimately show ?case by (simp del: upt_Suc)
qed simp

lemma segments_of_lengths: "segments (concat xss) (prefix_sums 0 (map length xss)) = xss"
  using segments_concat [of "[]" 0 xss] by (simp add: segments_def)

lemma zero_new_states_apply:
  "zero_new_states zero rds st s =
     (if \<exists>rd \<in> set rds. rd_slot_index rd = s \<and> \<not> rd_is_decode rd \<and> rd_num_computed_tokens rd = 0
      then zero else st s)"
proof -
  have "fold (\<lambda>rd st. if \<not> rd_is_decode rd \<and> rd_num_computed_tokens rd = 0
                   then st(rd_slot_index rd := zero) else st) rds st s =
     (if \<exists>rd \<in> set rds. rd_slot_index rd = s \<and> \<not> rd_is_decode rd \<and> rd_num_computed_tokens rd = 0
      then zero else st s)" for st
    by (induction rds arbitrary: st) auto
  then show ?thesis by (simp add: zero_new_states_def)
qed

text \<open>What the scheduler guarantees of a request's run data (see \<open>run_data_ok\<close>).\<close>

definition tokens_match :: "run_data \<Rightarrow> bool" where
  "tokens_match rd \<longleftrightarrow>
     rd_num_tokens rd = (case rd_input_token_ids rd of Some ts \<Rightarrow> int (length ts) | None \<Rightarrow> 1)"

lemma run_data_ok_tokens_match: "run_data_ok s rd \<Longrightarrow> tokens_match rd"
  by (auto simp: run_data_ok_def tokens_match_def Let_def split: if_splits)

lemma run_tokens_length: "tokens_match rd \<Longrightarrow> length (run_tokens rn rd) = nat (rd_num_tokens rd)"
  by (auto simp: tokens_match_def run_tokens_def split: option.splits)

text \<open>The state a sequence starts from.\<close>

definition start_state :: "'st \<Rightarrow> (nat \<Rightarrow> 'st) \<Rightarrow> run_data \<Rightarrow> 'st" where
  "start_state zero st rd =
     (if \<not> rd_is_decode rd \<and> rd_num_computed_tokens rd = 0 then zero else st (rd_slot_index rd))"

lemma map_of_distinct_in:
  assumes "distinct (map f xs)" and "x \<in> set xs"
  shows "map_of (map (\<lambda>x. (f x, g x)) xs) (f x) = Some (g x)"
  using assms by (induction xs) (auto simp: image_iff)

lemma execute_eager_spec:
  assumes rds: "mapE (dict_item (so_request_data out)) (so_scheduled_req_ids out) = Inr rds"
    and ok: "\<And>rd. rd \<in> set rds \<Longrightarrow> tokens_match rd"
    and slots: "distinct (map rd_slot_index rds)"
    and fits: "length (concat (map (run_tokens rn) rds)) \<le> rn_max_num_batched_tokens rn"
  shows "\<exists>rn'. execute_eager fwd zero out rn =
      Inr (map (\<lambda>rd. snd (fwd (run_tokens rn rd) (start_state zero (rn_state rn) rd))) rds, rn') \<and>
    (\<forall>rd \<in> set rds. rn_state rn' (rd_slot_index rd) =
        fst (fwd (run_tokens rn rd) (start_state zero (rn_state rn) rd))) \<and>
    (\<forall>s. s \<notin> rd_slot_index ` set rds \<longrightarrow> rn_state rn' s = rn_state rn s) \<and>
    rn_last rn' = rn_last rn"
proof -
  let ?rn1 = "rn\<lparr>rn_state := zero_new_states zero rds (rn_state rn)\<rparr>"
  have rt: "run_tokens ?rn1 = run_tokens rn" by (rule ext) (simp add: run_tokens_def split: option.split)
  have lens: "map (\<lambda>rd. nat (rd_num_tokens rd)) rds = map length (map (run_tokens rn) rds)"
    using ok by (auto simp: run_tokens_length)
  have prep: "prepare_input_ids rds ?rn1 = Inr (concat (map (run_tokens rn) rds),
      prefix_sums 0 (map length (map (run_tokens rn) rds)),
      if rds = [] then 1 else Max (set (map (\<lambda>rd. nat (rd_num_tokens rd)) rds)))"
    using fits unfolding prepare_input_ids_def Let_def rt lens by simp
  let ?ps = "map (\<lambda>rd. (run_tokens rn rd, rd_slot_index rd)) rds"
  have seg: "zip (segments (concat (map (run_tokens rn) rds))
      (prefix_sums 0 (map length (map (run_tokens rn) rds)))) (map rd_slot_index rds) = ?ps"
    unfolding segments_of_lengths by (simp add: zip_map_map zip_same_conv_map)
  obtain lgs st' where fb: "forward_batch fwd ?ps (rn_state ?rn1) = (lgs, st')" by fastforce
  have dist: "distinct (map snd ?ps)" using slots by (simp add: comp_def)
  have st0: "rn_state ?rn1 (rd_slot_index rd) = start_state zero (rn_state rn) rd" if "rd \<in> set rds" for rd
  proof -
    have "x = rd" if "x \<in> set rds" "rd_slot_index x = rd_slot_index rd" for x
      using slots that \<open>rd \<in> set rds\<close> by (auto simp: distinct_map dest: inj_onD)
    then show ?thesis using that by (auto simp: zero_new_states_apply start_state_def)
  qed
  note fbd = forward_batch_distinct [OF dist, of fwd "rn_state ?rn1", unfolded fb fst_conv snd_conv]
  have lg: "lgs = map (\<lambda>rd. snd (fwd (run_tokens rn rd) (start_state zero (rn_state rn) rd))) rds"
    using fbd st0 by (auto simp: comp_def)
  have look: "map_of (map (\<lambda>(toks, slot). (slot, toks)) ?ps) =
      map_of (map (\<lambda>rd. (rd_slot_index rd, run_tokens rn rd)) rds)" by (simp add: comp_def)
  have in1: "st' (rd_slot_index rd) = fst (fwd (run_tokens rn rd) (start_state zero (rn_state rn) rd))"
    if "rd \<in> set rds" for rd
    using fbd map_of_distinct_in [OF slots that, of "run_tokens rn"] st0 [OF that] unfolding look by simp
  have out1: "st' s = rn_state rn s" if "s \<notin> rd_slot_index ` set rds" for s
  proof -
    have "map_of (map (\<lambda>rd. (rd_slot_index rd, run_tokens rn rd)) rds) s = None"
      using that by (force simp: map_of_eq_None_iff)
    moreover have "rn_state ?rn1 s = rn_state rn s" using that by (auto simp: zero_new_states_apply)
    ultimately show ?thesis using fbd unfolding look by simp
  qed
  have "execute_eager fwd zero out rn = Inr (lgs, ?rn1\<lparr>rn_state := st'\<rparr>)"
    unfolding execute_eager_def rds bindE.simps Let_def prep prod.case seg fb by simp
  with lg in1 out1 show ?thesis by auto
qed

lemma decode_forward_spec:
  assumes "distinct slots" and "length toks = length slots" and "decode_forward fwd toks slots rn = (lgs, rn')"
  shows "lgs = map (\<lambda>(t, s). snd (fwd [t] (rn_state rn s))) (zip toks slots)"
    and "rn' = rn\<lparr>rn_state := (\<lambda>s. case map_of (zip slots toks) s of
           None \<Rightarrow> rn_state rn s | Some t \<Rightarrow> fst (fwd [t] (rn_state rn s)))\<rparr>"
proof -
  let ?ps = "zip (map (\<lambda>t. [t]) toks) slots"
  obtain l st' where fb: "forward_batch fwd ?ps (rn_state rn) = (l, st')" by fastforce
  have dist: "distinct (map snd ?ps)" using assms(1,2) by simp
  note fbd = forward_batch_distinct [OF dist, of fwd "rn_state rn", unfolded fb fst_conv snd_conv]
  have look: "map_of (map (\<lambda>(toks, slot). (slot, toks)) ?ps) s = map_option (\<lambda>t. [t]) (map_of (zip slots toks) s)" for s
    using assms(2) by (induction toks slots rule: list_induct2) auto
  have "l = map (\<lambda>(t, s). snd (fwd [t] (rn_state rn s))) (zip toks slots)"
    using fbd by (simp add: zip_map1 case_prod_unfold comp_def)
  moreover have "st' = (\<lambda>s. case map_of (zip slots toks) s of
           None \<Rightarrow> rn_state rn s | Some t \<Rightarrow> fst (fwd [t] (rn_state rn s)))"
    using fbd unfolding look by (auto split: option.split)
  ultimately show "lgs = map (\<lambda>(t, s). snd (fwd [t] (rn_state rn s))) (zip toks slots)"
    "rn' = rn\<lparr>rn_state := (\<lambda>s. case map_of (zip slots toks) s of
           None \<Rightarrow> rn_state rn s | Some t \<Rightarrow> fst (fwd [t] (rn_state rn s)))\<rparr>"
    using assms(3) by (simp_all add: decode_forward_def fb)
qed

lemma maybe_checkpoint_frame:
  assumes "maybe_checkpoint rds slots rn = Inr rn'"
  shows "rn_state rn' = rn_state rn \<and> rn_last rn' = rn_last rn"
proof (cases "rn_interval rn")
  case (Some k)
  show ?thesis
  proof (cases "k \<le> 0")
    case False
    with Some assms have fold: "foldE (\<lambda>rn (rd, slot).
                 if rd_num_computed_tokens rd mod k = 0
                 then bindE (cache_checkpoint (rd_request_id rd) (rd_num_computed_tokens rd)
                               (slice_state_from_slot slot rn) (rn_cache rn)) (\<lambda>c.
                        Inr (rn\<lparr>rn_cache := c\<rparr>))
                 else Inr rn) rn (zip rds slots) = Inr rn'" by (simp add: maybe_checkpoint_def)
    show ?thesis
      by (rule foldE_invariant [OF fold]) (auto split: if_split_asm)
  qed (use Some assms in \<open>simp add: maybe_checkpoint_def\<close>)
qed (use assms in \<open>simp add: maybe_checkpoint_def\<close>)

lemma map_of_zip_absent: "x \<notin> set xs \<Longrightarrow> map_of (zip xs ys) x = None"
  by (induction xs ys rule: list_induct2') auto

lemma map_of_zip_map: "map_of (zip xs (map f xs)) x = (if x \<in> set xs then Some (f x) else None)"
  by (induction xs) auto

text \<open>
  The unpadded and the padded forward pass agree on the slots of the batch; the padding's slots take
  one step on the token 0 each time.
\<close>

lemma padded_decode:
  assumes dist: "distinct slots" "distinct pads" "set pads \<inter> set slots = {}"
    and run: "decode_forward fwd (map (rn_last rn) slots @ replicate (length pads) 0) (slots @ pads) rn = (lgs, rn2)"
  shows "take (length slots) lgs = map (\<lambda>s. snd (fwd [rn_last rn s] (rn_state rn s))) slots"
    and "rn_state rn2 s =
      (if s \<in> set slots then fst (fwd [rn_last rn s] (rn_state rn s))
       else if s \<in> set pads then fst (fwd [0] (rn_state rn s)) else rn_state rn s)"
    and "rn_last rn2 = rn_last rn"
proof -
  have d: "distinct (slots @ pads)" "length (map (rn_last rn) slots @ replicate (length pads) 0) = length (slots @ pads)"
    using dist by auto
  note df = decode_forward_spec [OF d run]
  have "zip (map (rn_last rn) slots @ replicate (length pads) 0) (slots @ pads) =
      map (\<lambda>s. (rn_last rn s, s)) slots @ zip (replicate (length pads) 0) pads"
    by (simp add: zip_append map_zip_map zip_map1 zip_same_conv_map)
  then show "take (length slots) lgs = map (\<lambda>s. snd (fwd [rn_last rn s] (rn_state rn s))) slots"
    unfolding df(1) by (simp add: comp_def)
  have "map_of (zip pads (replicate (length pads) (0 :: token))) s = (if s \<in> set pads then Some 0 else None)"
    using map_of_zip_map [of pads "\<lambda>_. 0" s] by (simp add: map_replicate_const)
  then have "(map_of (zip pads (replicate (length pads) 0)) ++ map_of (zip slots (map (rn_last rn) slots))) s =
      (if s \<in> set slots then Some (rn_last rn s) else if s \<in> set pads then Some 0 else None)"
    by (simp add: map_add_def map_of_zip_map)
  then show "rn_state rn2 s =
      (if s \<in> set slots then fst (fwd [rn_last rn s] (rn_state rn s))
       else if s \<in> set pads then fst (fwd [0] (rn_state rn s)) else rn_state rn s)"
    unfolding df(2) by (simp del: map_add_Some_iff)
  show "rn_last rn2 = rn_last rn" unfolding df(2) by simp
qed

lemma run_decode_spec:
  assumes "distinct slots" and "slot_wf m" and "pad_slots m = []" and "set slots \<subseteq> occupied m"
    and inner: "run_decode fwd zero graph n_pad (map (rn_last rn) slots) slots (Some m)
      (rn\<lparr>rn_min_prev := mp\<rparr>) = Inr (lgs, sm', rn3)"
  shows "lgs = map (\<lambda>s. snd (fwd [rn_last rn s] (rn_state rn s))) slots \<and> sm' = Some m \<and>
    (\<forall>s \<in> occupied m. rn_last rn3 s = rn_last rn s \<and>
       rn_state rn3 s = (if s \<in> set slots then fst (fwd [rn_last rn s] (rn_state rn s)) else rn_state rn s))"
proof (cases "\<not> graph \<or> \<not> (n_pad > 0 \<longrightarrow> n_pad \<le> available_pad_count m) \<or> n_pad = 0")
  case True
  obtain l rn2 where df: "decode_forward fwd (map (rn_last rn) slots) slots (rn\<lparr>rn_min_prev := mp\<rparr>) = (l, rn2)"
    by fastforce
  with inner True have eq: "lgs = l" "sm' = Some m" "rn3 = rn2" by (auto simp: run_decode_def)
  note d = decode_forward_spec [OF assms(1) _ df]
  have "l = map (\<lambda>s. snd (fwd [rn_last rn s] (rn_state rn s))) slots"
    using d(1) by (simp add: zip_map1 zip_same_conv_map comp_def)
  then show ?thesis using eq d(2) by (auto simp: map_of_zip_map)
next
  case False
  then obtain pads m1 where rs: "reserve_pad_slots n_pad m = Inr (pads, m1)"
    using inner by (auto simp: run_decode_def)
  note rr = reserve_release [OF assms(2,3) rs]
  have pads: "pads = take n_pad (free_slots m)"
    using rs by (auto simp: reserve_pad_slots_def Let_def split: if_splits)
  have dp: "distinct pads" using assms(2) pads by (simp add: slot_wf_def)
  have disj: "set pads \<inter> set slots = {}" using rr(4) assms(4) by blast
  obtain l rn2 where df: "decode_forward fwd (map (rn_last rn) slots @ replicate n_pad 0) (slots @ pads)
      (rn\<lparr>rn_min_prev := mp\<rparr>) = (l, rn2)" by fastforce
  have eq: "lgs = take (length slots) l" "sm' = Some (release_pad_slots m1)" "rn3 = rn2"
    using inner False rs df by (auto simp: run_decode_def)
  have df': "decode_forward fwd (map (rn_last (rn\<lparr>rn_min_prev := mp\<rparr>)) slots @ replicate (length pads) 0)
      (slots @ pads) (rn\<lparr>rn_min_prev := mp\<rparr>) = (l, rn2)"
    using df rr(3) by simp
  note pd = padded_decode [OF assms(1) dp disj df']
  have "s \<notin> set pads" if "s \<in> occupied m" for s using rr(4) that by blast
  then show ?thesis using pd eq rr(2) by simp
qed

text \<open>
  What the comments of the two padding helpers rule out: after a padded decode the borrowed slots hold
  what the graph wrote to them, computed from whatever they held before. It does no harm because a slot's
  next owner zeroes it, by an index that is a number, or overwrites it.
\<close>

lemma padding_not_reset:
  assumes "distinct slots" and "slot_wf m" and "pad_slots m = []" and "set slots \<subseteq> occupied m"
    and "0 < n_pad" and "n_pad \<le> available_pad_count m" and "s \<in> set (take n_pad (free_slots m))"
    and run: "run_decode fwd zero True n_pad (map (rn_last rn) slots) slots (Some m) rn = Inr (lgs, sm', rn')"
  shows "rn_state rn' s = fst (fwd [0] (rn_state rn s))"
proof -
  obtain pads m1 where rs: "reserve_pad_slots n_pad m = Inr (pads, m1)"
    using run assms(5,6) by (auto simp: run_decode_def)
  note rr = reserve_release [OF assms(2,3) rs]
  have pads: "pads = take n_pad (free_slots m)"
    using rs by (auto simp: reserve_pad_slots_def Let_def split: if_splits)
  have dp: "distinct pads" using assms(2) pads by (simp add: slot_wf_def)
  have disj: "set pads \<inter> set slots = {}" using rr(4) assms(4) by blast
  obtain l rn2 where df: "decode_forward fwd (map (rn_last rn) slots @ replicate (length pads) 0) (slots @ pads) rn = (l, rn2)"
    by fastforce
  have "rn' = rn2" using run assms(5,6) rs df rr(3) by (auto simp: run_decode_def)
  then show ?thesis using padded_decode(2) [OF assms(1) dp disj df] assms(7) disj pads by auto
qed

section \<open>Properties\<close>

text \<open>
  The eager path runs every request on its own tokens and its own state. With distinct
  slots and run data whose token counts match their tokens (as \<open>schedule\<close> produces), the flat
  batch is cut back into exactly the requests' tokens: each slot ends in the state the forward
  pass computes from its start state (zero for a first chunk), the logits come in batch order,
  and no other slot is touched.
\<close>

theorem eager_runs_each_request:
  assumes "mapE (dict_item (so_request_data out)) (so_scheduled_req_ids out) = Inr rds"
    and "\<forall>rd \<in> set rds. tokens_match rd" and "distinct (map rd_slot_index rds)"
    and "length (concat (map (run_tokens rn) rds)) \<le> rn_max_num_batched_tokens rn"
  shows "\<exists>rn'. execute_eager fwd zero out rn =
      Inr (map (\<lambda>rd. snd (fwd (run_tokens rn rd) (start_state zero (rn_state rn) rd))) rds, rn') \<and>
    (\<forall>rd \<in> set rds. rn_state rn' (rd_slot_index rd) =
        fst (fwd (run_tokens rn rd) (start_state zero (rn_state rn) rd))) \<and>
    (\<forall>s. s \<notin> rd_slot_index ` set rds \<longrightarrow> rn_state rn' s = rn_state rn s) \<and>
    rn_last rn' = rn_last rn"
  using execute_eager_spec [OF assms(1) _ assms(3,4)] assms(2) by blast

definition demo_fwd :: "token list \<Rightarrow> token list \<Rightarrow> token list \<times> token" where
  "demo_fwd toks st = (st @ toks, sum_list (st @ toks))"

definition demo_runner :: "(token list, string, unit) runner" where
  "demo_runner = (runner_load [] 8 None None (state_cache_init 4 2 None))\<lparr>
     rn_state := (\<lambda>s. if s = 2 then [9] else []), rn_last := (\<lambda>s. if s = 2 then 5 else -1)\<rparr>"

definition demo_mixed :: sched_output where
  "demo_mixed =
     \<lparr>so_scheduled_req_ids = [''p'', ''d''], so_num_scheduled_tokens = [(''p'', 3), (''d'', 1)],
      so_total_num_scheduled_tokens = 4, so_finished_req_ids = [],
      so_request_data =
        [(''p'', \<lparr>rd_request_id = ''p'', rd_prompt_token_ids = [1, 2, 3, 4], rd_num_computed_tokens = 0,
           rd_num_tokens = 3, rd_sampling_params = sampling_defaults, rd_input_token_ids = Some [1, 2, 3],
           rd_is_decode = False, rd_is_last_prefill = False, rd_slot_index = 0\<rparr>),
         (''d'', \<lparr>rd_request_id = ''d'', rd_prompt_token_ids = [9], rd_num_computed_tokens = 1,
           rd_num_tokens = 1, rd_sampling_params = sampling_defaults, rd_input_token_ids = None,
           rd_is_decode = True, rd_is_last_prefill = False, rd_slot_index = 2\<rparr>)],
      so_freed_slots = [], so_slot_indices = Some [0, 2]\<rparr>"

theorem eager_runs_each_request_witness:
  "\<exists>rn'. execute_eager demo_fwd [] demo_mixed demo_runner = Inr ([6, 14], rn') \<and>
     rn_state rn' 0 = [1, 2, 3] \<and> rn_state rn' 2 = [9, 5]"
proof -
  let ?rds = "map snd (so_request_data demo_mixed)"
  have m: "mapE (dict_item (so_request_data demo_mixed)) (so_scheduled_req_ids demo_mixed) = Inr ?rds"
    by (simp add: demo_mixed_def dict_item_def)
  have "\<forall>rd \<in> set ?rds. tokens_match rd" "distinct (map rd_slot_index ?rds)"
    "length (concat (map (run_tokens demo_runner) ?rds)) \<le> rn_max_num_batched_tokens demo_runner"
    by (simp_all add: demo_mixed_def tokens_match_def run_tokens_def demo_runner_def runner_load_def)
  from eager_runs_each_request [OF m this, of demo_fwd "[]"] show ?thesis
    by (auto simp: demo_mixed_def run_tokens_def start_state_def demo_runner_def runner_load_def demo_fwd_def)
qed

text \<open>
  C22: padding a decode batch for a captured graph is invisible. Whether the batch runs eagerly
  or padded with borrowed free slots, every request gets the logits and the new state of one
  forward pass on its last sampled token, every other occupied slot keeps its state and its
  last token, and the slot manager comes back unchanged.
\<close>

theorem decode_padding_transparent:
  assumes "mapE (dict_item (so_request_data out)) (so_scheduled_req_ids out) = Inr rds"
    and "slots = map rd_slot_index rds" and "distinct slots"
    and "slot_wf m" and "pad_slots m = []" and "set slots \<subseteq> occupied m"
    and "execute_uniform_decode fwd zero out (Some m) rn = Inr (lgs, sm', rn')"
  shows "lgs = map (\<lambda>s. snd (fwd [rn_last rn s] (rn_state rn s))) slots \<and> sm' = Some m \<and>
    (\<forall>s \<in> occupied m. rn_last rn' s = rn_last rn s \<and>
       rn_state rn' s = (if s \<in> set slots then fst (fwd [rn_last rn s] (rn_state rn s)) else rn_state rn s))"
proof -
  let ?rn1 = "rn\<lparr>rn_min_prev := Some (Min (set (map (rn_last rn) slots)))\<rparr>"
  let ?gp = "case rn_graphs rn of None \<Rightarrow> (None, length slots) | Some gm \<Rightarrow> get_graph_with_padding (length slots) gm"
  let ?n = "if fst ?gp \<noteq> None then snd ?gp - length slots else 0"
  from assms(7) obtain rn3 where
    inner: "run_decode fwd zero (fst ?gp \<noteq> None) ?n (map (rn_last rn) slots) slots (Some m) ?rn1 =
      Inr (lgs, sm', rn3)" and cp: "maybe_checkpoint rds slots rn3 = Inr rn'"
    unfolding execute_uniform_decode_def assms(1) bindE.simps Let_def assms(2) [symmetric]
    by (auto simp del: option.case split: if_split_asm)
  note frame = maybe_checkpoint_frame [OF cp]
  from run_decode_spec [OF assms(3-6) inner] frame show ?thesis by simp
qed

definition demo_decode :: sched_output where
  "demo_decode = demo_mixed\<lparr>so_scheduled_req_ids := [''d''], so_total_num_scheduled_tokens := 1\<rparr>"

definition demo_graph_runner :: "(token list, string, unit) runner" where
  "demo_graph_runner = demo_runner\<lparr>rn_graphs := Some
     ((graph_manager_init (Some [decode_shape 2]) 4)\<lparr>gm_entries := [(decode_shape 2, ''g2'')]\<rparr>)\<rparr>"

theorem decode_padding_transparent_witness:
  "\<exists>rn'. execute_uniform_decode demo_fwd [] demo_decode (Some demo_slots) demo_graph_runner =
       Inr ([14], Some demo_slots, rn') \<and> rn_state rn' 2 = [9, 5]"
proof -
  let ?rds = "[snd (so_request_data demo_mixed ! 1)]"
  have m: "mapE (dict_item (so_request_data demo_decode)) (so_scheduled_req_ids demo_decode) = Inr ?rds"
    by (simp add: demo_decode_def demo_mixed_def dict_item_def)
  have s: "[2] = map rd_slot_index ?rds" by (simp add: demo_mixed_def)
  have h: "distinct [2 :: nat]" "pad_slots demo_slots = []" "set [2] \<subseteq> occupied demo_slots"
    by (simp_all add: demo_slots_def occupied_def)
  have "\<not> isl (execute_uniform_decode demo_fwd [] demo_decode (Some demo_slots) demo_graph_runner)"
    by code_simp
  then obtain lgs sm' rn' where run:
    "execute_uniform_decode demo_fwd [] demo_decode (Some demo_slots) demo_graph_runner = Inr (lgs, sm', rn')"
    by (cases "execute_uniform_decode demo_fwd [] demo_decode (Some demo_slots) demo_graph_runner") auto
  from decode_padding_transparent [OF m s h(1) demo_slots_wf h(2,3) run] run h(3) show ?thesis
    by (auto simp: demo_graph_runner_def demo_runner_def demo_fwd_def)
qed

section \<open>Sampling writes the right cells\<close>

lemma fold_upd_apply:
  assumes "distinct ks"
  shows "fold (\<lambda>(s, t) f. f(s := t)) (zip ks vs) f k =
    (case map_of (zip ks vs) k of None \<Rightarrow> f k | Some v \<Rightarrow> v)"
  using assms
proof (induction ks arbitrary: vs f)
  case (Cons a ks)
  show ?case
  proof (cases vs)
    case (Cons v vs')
    then show ?thesis using Cons.IH [of vs' "f(a := v)"] Cons.prems
      by (auto simp: map_of_zip_absent split: option.split)
  qed simp
qed simp

lemma fold_dict_set_new:
  assumes "distinct ks" and "length vs = length ks" and "set ks \<inter> set (dict_keys d) = {}"
  shows "fold (\<lambda>(i, t). dict_set i [t]) (zip ks vs) d = d @ zip ks (map (\<lambda>t. [t]) vs)"
  using assms
proof (induction ks arbitrary: vs d)
  case (Cons k ks)
  then obtain v vs' where vs: "vs = v # vs'" by (cases vs) auto
  have new: "dict_set k [v] d = d @ [(k, [v])]"
    using Cons.prems(3) by (intro dict_set_new) (simp add: dict_get_None_keys)
  have "set ks \<inter> set (dict_keys (d @ [(k, [v])])) = {}" using Cons.prems by auto
  from Cons.IH [OF _ _ this, of vs'] Cons.prems vs new show ?case by simp
qed simp

lemma filter_zip_map_fst:
  assumes "length ys = length xs"
  shows "map fst (filter (\<lambda>(x, _). P x) (zip xs ys)) = filter P xs"
  using assms by (induction xs ys rule: list_induct2') auto

lemma sampler_length:
  assumes "\<forall>r ls t k p. length (fst (draw r ls t k p)) = length ls"
    and "sampler_forward argmax draw setup_rand lgs ps st = Inr (toks, st')"
  shows "length toks = length lgs"
proof (cases ps)
  case (Cons p ps')
  define st1 where "st1 = (case st of
      Some (n, r) \<Rightarrow> if n \<noteq> length lgs then (length lgs, setup_rand (length lgs)) else (n, r)
    | None \<Rightarrow> (length lgs, setup_rand (length lgs)))"
  obtain ts r' where d: "draw (snd st1) lgs (sp_temperature p) (sp_top_k p) (sp_top_p p) = (ts, r')"
    by (meson surj_pair)
  then have "length ts = length lgs" using assms(1) by (metis fst_conv)
  moreover have "sampler_forward argmax draw setup_rand lgs ps st =
      (if sp_temperature p < sampling_eps then Inr (map argmax lgs, Some st1)
       else Inr (ts, Some (fst st1, r')))"
    unfolding sampler_forward_def Let_def Cons list.case st1_def [symmetric] d prod.case ..
  ultimately show ?thesis using assms(2) by (auto split: if_split_asm)
qed (use assms(2) in \<open>simp add: sampler_forward_def Let_def\<close>)

text \<open>The result of sampling, read off the tokens the sampler drew.\<close>

lemma sample_tokens_result:
  assumes "rn_loaded rn" and "so_scheduled_req_ids out \<noteq> []"
    and "mapE (dict_item (so_request_data out)) (so_scheduled_req_ids out) = Inr rds"
    and "length lgs = length rds"
    and "\<forall>r ls t k p. length (fst (draw r ls t k p)) = length ls"
    and "sel = filter needs_sample rds"
    and "sample_tokens argmax draw setup_rand (Some lgs) out rn = Inr (mo, rn')"
  shows "\<exists>toks st'. length toks = length sel \<and>
    mro_sampled_token_ids mo = fold (\<lambda>(i, t). dict_set i [t]) (zip (map rd_request_id sel) toks) [] \<and>
    rn' = rn\<lparr>rn_last := fold (\<lambda>(s, t) f. f(s := t)) (zip (map rd_slot_index sel) toks) (rn_last rn),
             rn_sampler_states := st'\<rparr>"
proof -
  let ?sel = "filter (\<lambda>(rd, _). needs_sample rd) (zip rds lgs)"
  have sel: "map fst ?sel = sel" using filter_zip_map_fst [OF assms(4)] assms(6) by simp
  have ids: "map (\<lambda>(rd, _). rd_request_id rd) ?sel = map rd_request_id sel"
    "map (\<lambda>(rd, _). rd_slot_index rd) ?sel = map rd_slot_index sel"
    "map (\<lambda>(rd, _). rd_sampling_params rd) ?sel = map rd_sampling_params sel"
    unfolding sel [symmetric] by (simp_all add: comp_def case_prod_unfold)
  have len: "length ?sel = length sel" using arg_cong [OF sel, of length] by simp
  show ?thesis
  proof (cases "?sel = []")
    case True
    then have "mro_sampled_token_ids mo = []" "rn' = rn\<lparr>rn_last := rn_last rn, rn_sampler_states := rn_sampler_states rn\<rparr>"
      using assms(1-3,7) by (auto simp: sample_tokens_def Let_def)
    moreover have "sel = []" using True len by simp
    ultimately show ?thesis by (intro exI [of _ "[]"] exI [of _ "rn_sampler_states rn"]) simp
  next
    case ne: False
    let ?sf = "sampler_forward argmax draw setup_rand (map snd ?sel) (map rd_sampling_params sel) (rn_sampler_states rn)"
    have eq: "sample_tokens argmax draw setup_rand (Some lgs) out rn = bindE ?sf (\<lambda>(toks, st').
        Inr (\<lparr>mro_sampled_token_ids = fold (\<lambda>(i, t). dict_set i [t]) (zip (map rd_request_id sel) toks) [],
               mro_sampled_logprobs = None\<rparr>,
             rn\<lparr>rn_last := fold (\<lambda>(s, t) f. f(s := t)) (zip (map rd_slot_index sel) toks) (rn_last rn),
                rn_sampler_states := st'\<rparr>))"
      unfolding sample_tokens_def Let_def assms(3) bindE.simps using assms(1,2) ne by (simp add: ids)
    obtain toks st' where sf: "?sf = Inr (toks, st')" using assms(7) eq by (cases ?sf) auto
    with assms(7) [unfolded eq] sampler_length [OF assms(5) sf] len show ?thesis by auto
  qed
qed

text \<open>
  Sampling yields one token for exactly the requests that decode or finish their prefill,
  in batch order, and records it in that request's slot as the input of its next decode;
  chunked prefills in progress get no token and no other slot's last token changes.
\<close>

theorem sample_tokens_exact:
  assumes "rn_loaded rn" and "so_scheduled_req_ids out \<noteq> []"
    and "mapE (dict_item (so_request_data out)) (so_scheduled_req_ids out) = Inr rds"
    and "length lgs = length rds"
    and "distinct (map rd_request_id rds)" and "distinct (map rd_slot_index rds)"
    and "\<forall>r ls t k p. length (fst (draw r ls t k p)) = length ls"
    and "sel = filter needs_sample rds"
    and "sample_tokens argmax draw setup_rand (Some lgs) out rn = Inr (mo, rn')"
  shows "\<exists>toks. length toks = length sel \<and>
    mro_sampled_token_ids mo = zip (map rd_request_id sel) (map (\<lambda>t. [t]) toks) \<and>
    (\<forall>k < length sel. rn_last rn' (rd_slot_index (sel ! k)) = toks ! k) \<and>
    (\<forall>s. s \<notin> rd_slot_index ` set sel \<longrightarrow> rn_last rn' s = rn_last rn s) \<and>
    rn_state rn' = rn_state rn"
proof -
  obtain toks st' where t: "length toks = length sel"
    "mro_sampled_token_ids mo = fold (\<lambda>(i, t). dict_set i [t]) (zip (map rd_request_id sel) toks) []"
    "rn' = rn\<lparr>rn_last := fold (\<lambda>(s, t) f. f(s := t)) (zip (map rd_slot_index sel) toks) (rn_last rn),
             rn_sampler_states := st'\<rparr>"
    using sample_tokens_result [OF assms(1-4,7-9)] by blast
  have dist: "distinct (map rd_request_id sel)" "distinct (map rd_slot_index sel)"
    using assms(5,6,8) by (auto simp: distinct_map inj_on_def)
  have "mro_sampled_token_ids mo = zip (map rd_request_id sel) (map (\<lambda>t. [t]) toks)"
    using fold_dict_set_new [OF dist(1), of toks "[]"] t(1,2) by simp
  moreover have "rn_last rn' (rd_slot_index (sel ! k)) = toks ! k" if "k < length sel" for k
  proof -
    have "map_of (zip (map rd_slot_index sel) toks) (map rd_slot_index sel ! k) = Some (toks ! k)"
      using that t(1) dist(2) by (intro map_of_zip_nth) auto
    then show ?thesis using that by (simp add: t(3) fold_upd_apply [OF dist(2)])
  qed
  moreover have "rn_last rn' s = rn_last rn s" if "s \<notin> rd_slot_index ` set sel" for s
    using that by (simp add: t(3) fold_upd_apply [OF dist(2)] map_of_zip_absent)
  ultimately show ?thesis using t(1,3) by auto
qed

theorem sample_tokens_exact_witness:
  "\<exists>mo rn'. sample_tokens (\<lambda>lg. lg) (\<lambda>r ls t k p. (map (\<lambda>_. 0) ls, r)) (\<lambda>_. ()) (Some [6, 14])
       demo_mixed demo_runner = Inr (mo, rn') \<and> mro_sampled_token_ids mo = [(''d'', [0])] \<and>
     rn_last rn' 2 = 0 \<and> rn_last rn' 0 = -1"
proof -
  let ?rds = "map snd (so_request_data demo_mixed)"
  let ?draw = "\<lambda>r ls t k p. (map (\<lambda>_. 0) ls, r) :: token list \<times> unit"
  let ?run = "sample_tokens (\<lambda>lg. lg) ?draw (\<lambda>_. ()) (Some [6, 14]) demo_mixed demo_runner"
  have m: "mapE (dict_item (so_request_data demo_mixed)) (so_scheduled_req_ids demo_mixed) = Inr ?rds"
    by (simp add: demo_mixed_def dict_item_def)
  have l: "rn_loaded demo_runner" "so_scheduled_req_ids demo_mixed \<noteq> []" "length [6, 14 :: token] = length ?rds"
    "distinct (map rd_request_id ?rds)" "distinct (map rd_slot_index ?rds)"
    by (simp_all add: demo_runner_def runner_load_def demo_mixed_def)
  have v: "\<exists>rn'. ?run = Inr (\<lparr>mro_sampled_token_ids = [(''d'', [0])], mro_sampled_logprobs = None\<rparr>, rn')"
    unfolding sample_tokens_def Let_def m
    by (simp add: l(1,2)) (simp add: demo_mixed_def needs_sample_def sampler_forward_def Let_def sampling_defaults_def
        sampling_eps_def demo_runner_def runner_load_def)
  then obtain rn' where run: "?run = Inr (\<lparr>mro_sampled_token_ids = [(''d'', [0])], mro_sampled_logprobs = None\<rparr>, rn')"
    by blast
  have sel: "filter needs_sample ?rds = [snd (so_request_data demo_mixed ! 1)]"
    by (simp add: demo_mixed_def needs_sample_def)
  from sample_tokens_exact [OF l(1,2) m l(3,4,5) _ refl run] obtain toks where
    t: "[(''d'', [0])] = zip (map rd_request_id (filter needs_sample ?rds)) (map (\<lambda>t. [t]) toks)"
      "length toks = length (filter needs_sample ?rds)"
      "\<forall>k < length (filter needs_sample ?rds). rn_last rn' (rd_slot_index (filter needs_sample ?rds ! k)) = toks ! k"
      "\<forall>s. s \<notin> rd_slot_index ` set (filter needs_sample ?rds) \<longrightarrow> rn_last rn' s = rn_last demo_runner s"
    by auto
  then have "rn_last rn' 2 = 0" "rn_last rn' 0 = rn_last demo_runner 0"
    unfolding sel by (auto simp: demo_mixed_def length_Suc_conv)
  with run show ?thesis by (simp add: demo_runner_def runner_load_def)
qed

end
