(* ===== verification/Utf8.thy ===== *)
theory Utf8
  imports Prelude "HOL-Library.Word"
begin

text \<open>
  Python's UTF-8 codec, which the tokenizer and the detokenizer use, in its \<^verbatim>\<open>strict\<close>,
  \<^verbatim>\<open>replace\<close> and \<^verbatim>\<open>ignore\<close> error modes.

  A \<^verbatim>\<open>bytes\<close> object is a list of \<open>8 word\<close>, a \<^verbatim>\<open>str\<close> a list of code points. \<open>utf8_step\<close> reads
  one sequence off a non-empty buffer: a code point with the bytes it took, or the number of
  bytes CPython reports as one invalid sequence (the longest well-formed beginning of a
  sequence, at least one byte). A strict decoding error is the value \<open>Inl start\<close>, where \<open>start\<close>
  is the exception's \<^verbatim>\<open>start\<close> attribute.

  The lemmas show that a code point that has been read does not depend on what follows it, that
  reading undoes encoding and encoding undoes reading; the detokenizer's proofs rest on
  \<open>utf8_prefix_append\<close>.
\<close>

type_synonym byte = "8 word"

section \<open>Encoding\<close>

definition surrogate :: "nat \<Rightarrow> bool" where
  "surrogate c \<longleftrightarrow> 0xD800 \<le> c \<and> c \<le> 0xDFFF"

text \<open>The code points of which a Python \<^verbatim>\<open>str\<close> that can be encoded consists.\<close>

definition scalar :: "nat \<Rightarrow> bool" where
  "scalar c \<longleftrightarrow> c < 0x110000 \<and> \<not> surrogate c"

definition utf8_char :: "nat \<Rightarrow> byte list" where
  "utf8_char c =
     (if c < 0x80 then [word_of_nat c]
      else if c < 0x800 then [word_of_nat (0xC0 + c div 0x40), word_of_nat (0x80 + c mod 0x40)]
      else if c < 0x10000 then
        [word_of_nat (0xE0 + c div 0x1000), word_of_nat (0x80 + c div 0x40 mod 0x40),
         word_of_nat (0x80 + c mod 0x40)]
      else
        [word_of_nat (0xF0 + c div 0x40000), word_of_nat (0x80 + c div 0x1000 mod 0x40),
         word_of_nat (0x80 + c div 0x40 mod 0x40), word_of_nat (0x80 + c mod 0x40)])"

definition utf8_encode :: "unicode_text \<Rightarrow> byte list res" where
  "utf8_encode t =
     (if list_ex surrogate t then Inl UnicodeEncodeError else Inr (concat (map utf8_char t)))"

section \<open>Decoding\<close>

text \<open>
  How many continuation bytes a lead byte asks for (\<open>None\<close>: it cannot start a sequence), and
  the range of the first of them, which excludes overlong forms, surrogates and code points
  beyond 0x10FFFF.
\<close>

definition utf8_need :: "nat \<Rightarrow> nat option" where
  "utf8_need b =
     (if b < 0x80 then Some 0 else if b < 0xC2 then None else if b < 0xE0 then Some 1
      else if b < 0xF0 then Some 2 else if b < 0xF5 then Some 3 else None)"

definition second_ok :: "nat \<Rightarrow> nat \<Rightarrow> bool" where
  "second_ok b c \<longleftrightarrow>
     (if b = 0xE0 then 0xA0 else if b = 0xF0 then 0x90 else 0x80) \<le> c \<and>
     c \<le> (if b = 0xED then 0x9F else if b = 0xF4 then 0x8F else 0xBF)"

definition continuation :: "nat \<Rightarrow> bool" where
  "continuation c \<longleftrightarrow> 0x80 \<le> c \<and> c \<le> 0xBF"

text \<open>How many of the next bytes are the continuation bytes asked for.\<close>

definition utf8_conts :: "nat \<Rightarrow> nat \<Rightarrow> byte list \<Rightarrow> nat" where
  "utf8_conts b k bs =
     (case take k bs of [] \<Rightarrow> 0
      | c # cs \<Rightarrow>
          if second_ok b (unat c) then Suc (length (takeWhile (\<lambda>c. continuation (unat c)) cs))
          else 0)"

definition cont_value :: "nat \<Rightarrow> byte list \<Rightarrow> nat" where
  "cont_value a cs = foldl (\<lambda>a c. a * 0x40 + unat c mod 0x40) a cs"

definition lead_value :: "nat \<Rightarrow> nat \<Rightarrow> nat" where
  "lead_value k b =
     (if k = 0 then b else if k = 1 then b mod 0x20 else if k = 2 then b mod 0x10 else b mod 0x08)"

datatype utf8_result = CodePoint nat nat | Invalid nat

fun utf8_step :: "byte list \<Rightarrow> utf8_result" where
  "utf8_step [] = Invalid 0"
| "utf8_step (b # bs) =
     (case utf8_need (unat b) of
        None \<Rightarrow> Invalid 1
      | Some k \<Rightarrow>
          let m = utf8_conts (unat b) k bs
          in if m = k then CodePoint (cont_value (lead_value k (unat b)) (take k bs)) (Suc k)
             else Invalid (Suc m))"

lemma utf8_conts_le: "utf8_conts b k bs \<le> k" "utf8_conts b k bs \<le> length bs"
proof -
  have *: "utf8_conts b k bs \<le> length (take k bs)"
  proof (cases "take k bs")
    case Nil
    show ?thesis unfolding utf8_conts_def Nil by simp
  qed (simp add: utf8_conts_def length_takeWhile_le)
  show "utf8_conts b k bs \<le> k" "utf8_conts b k bs \<le> length bs" using * by auto
qed

lemma utf8_step_size:
  "utf8_step bs = CodePoint c n \<Longrightarrow> 0 < n \<and> n \<le> length bs"
  "utf8_step bs = Invalid n \<Longrightarrow> bs \<noteq> [] \<Longrightarrow> 0 < n \<and> n \<le> length bs"
proof -
  show "utf8_step bs = CodePoint c n \<Longrightarrow> 0 < n \<and> n \<le> length bs"
  proof (cases bs)
    case (Cons b bs')
    assume "utf8_step bs = CodePoint c n"
    then show ?thesis using Cons utf8_conts_le [of "unat b" "n - 1" bs']
      by (auto simp: Let_def split: option.split_asm if_split_asm)
  qed auto
  show "utf8_step bs = Invalid n \<Longrightarrow> bs \<noteq> [] \<Longrightarrow> 0 < n \<and> n \<le> length bs"
  proof (cases bs)
    case (Cons b bs')
    assume "utf8_step bs = Invalid n"
    then show ?thesis using Cons utf8_conts_le(2) [of "unat b" _ bs']
      by (auto simp: Let_def split: option.split_asm if_split_asm)
  qed auto
qed

lemma utf8_step_Char: "utf8_step bs = CodePoint c n \<Longrightarrow> length bs - n < length bs"
  using utf8_step_size(1) [of bs c n] by auto

text \<open>The longest decodable beginning of a buffer, and the rest.\<close>

function utf8_prefix :: "byte list \<Rightarrow> unicode_text \<times> byte list" where
  "utf8_prefix bs =
     (case utf8_step bs of
        Invalid n \<Rightarrow> ([], bs)
      | CodePoint c n \<Rightarrow> (let (t, rest) = utf8_prefix (drop n bs) in (c # t, rest)))"
  by auto
termination by (relation "measure length") (auto dest: utf8_step_Char)

declare utf8_prefix.simps [simp del]

text \<open>\<^verbatim>\<open>bytes.decode("utf-8")\<close>\<close>

definition utf8_decode :: "byte list \<Rightarrow> nat + unicode_text" where
  "utf8_decode bs =
     (let (t, rest) = utf8_prefix bs
      in if rest = [] then Inr t else Inl (length bs - length rest))"

text \<open>\<^verbatim>\<open>bytes.decode("utf-8", errors="replace")\<close> and \<^verbatim>\<open>errors="ignore"\<close>\<close>

function utf8_decode_lossy :: "unicode_text \<Rightarrow> byte list \<Rightarrow> unicode_text" where
  "utf8_decode_lossy mark bs =
     (if bs = [] then []
      else case utf8_step bs of
        Invalid n \<Rightarrow> mark @ utf8_decode_lossy mark (drop n bs)
      | CodePoint c n \<Rightarrow> c # utf8_decode_lossy mark (drop n bs))"
  by auto
termination
  by (relation "measure (\<lambda>(_, bs). length bs)") (auto dest: utf8_step_Char utf8_step_size)

declare utf8_decode_lossy.simps [simp del]

abbreviation utf8_decode_replace :: "byte list \<Rightarrow> unicode_text" where
  "utf8_decode_replace \<equiv> utf8_decode_lossy [0xFFFD]"

abbreviation utf8_decode_ignore :: "byte list \<Rightarrow> unicode_text" where
  "utf8_decode_ignore \<equiv> utf8_decode_lossy []"

section \<open>Reading does not depend on what follows\<close>

lemma takeWhile_short: "length (takeWhile P xs) < length xs \<Longrightarrow> \<exists>x \<in> set xs. \<not> P x"
  by (metis less_irrefl takeWhile_eq_all_conv)

lemma utf8_conts_append:
  assumes "utf8_conts b k xs = k \<or> utf8_conts b k xs < length xs"
  shows "utf8_conts b k (xs @ ys) = utf8_conts b k xs"
proof (cases "k \<le> length xs")
  case False
  then obtain m where m: "k = Suc m" "length xs \<le> m" by (cases k) auto
  from assms utf8_conts_le(2) [of b k xs] False have "utf8_conts b k xs < length xs" by auto
  then have "\<exists>c \<in> set cs. \<not> continuation (unat c)"
    if "xs = a # cs" "second_ok b (unat a)" for a cs
    using that m takeWhile_short [of "\<lambda>c. continuation (unat c)" cs] by (simp add: utf8_conts_def)
  with \<open>utf8_conts b k xs < length xs\<close> m show ?thesis
    by (cases xs) (auto simp: utf8_conts_def takeWhile_append)
qed (simp add: utf8_conts_def)

lemma utf8_step_append_Char:
  assumes "utf8_step xs = CodePoint c n"
  shows "utf8_step (xs @ ys) = CodePoint c n"
proof -
  from assms obtain b bs k where b: "xs = b # bs" "utf8_need (unat b) = Some k" "utf8_conts (unat b) k bs = k"
    "c = cont_value (lead_value k (unat b)) (take k bs)" "n = Suc k"
    by (cases xs) (auto simp: Let_def split: option.split_asm if_split_asm)
  have "k \<le> length bs" using utf8_conts_le(2) [of "unat b" k bs] b(3) by simp
  with b utf8_conts_append [of "unat b" k bs ys] show ?thesis by simp
qed

lemma utf8_step_append_Bad:
  assumes "utf8_step xs = Invalid n" and "n < length xs"
  shows "utf8_step (xs @ ys) = Invalid n"
proof (cases xs)
  case (Cons b bs)
  show ?thesis
  proof (cases "utf8_need (unat b)")
    case (Some k)
    with assms Cons have "utf8_conts (unat b) k bs \<noteq> k" "utf8_conts (unat b) k bs < length bs"
      by (auto simp: Let_def split: if_split_asm)
    with assms Cons Some utf8_conts_append [of "unat b" k bs ys] show ?thesis by (simp add: Let_def)
  qed (use assms Cons in auto)
qed (use assms in auto)

lemma utf8_prefix_Nil [simp]: "utf8_prefix [] = ([], [])"
  by (subst utf8_prefix.simps) simp

lemma utf8_prefix_Char:
  "utf8_step bs = CodePoint c n \<Longrightarrow>
   utf8_prefix bs = (c # fst (utf8_prefix (drop n bs)), snd (utf8_prefix (drop n bs)))"
  by (subst utf8_prefix.simps) (simp add: case_prod_unfold Let_def)

lemma utf8_prefix_Bad: "utf8_step bs = Invalid n \<Longrightarrow> utf8_prefix bs = ([], bs)"
  by (subst utf8_prefix.simps) simp

text \<open>Decoding what was left over together with what comes next continues the text.\<close>

lemma utf8_prefix_append:
  "utf8_prefix (xs @ ys) =
     (fst (utf8_prefix xs) @ fst (utf8_prefix (snd (utf8_prefix xs) @ ys)),
      snd (utf8_prefix (snd (utf8_prefix xs) @ ys)))"
proof (induction xs rule: utf8_prefix.induct)
  case (1 xs)
  show ?case
  proof (cases "utf8_step xs")
    case (CodePoint c n)
    then have n: "n \<le> length xs" using utf8_step_size(1) by blast
    from 1 [OF CodePoint] n show ?thesis
      by (simp add: utf8_prefix_Char [OF CodePoint] utf8_prefix_Char [OF utf8_step_append_Char [OF CodePoint]])
  qed (simp add: utf8_prefix_Bad)
qed

lemma utf8_prefix_rest: "\<exists>n. utf8_step (snd (utf8_prefix xs)) = Invalid n"
proof (induction xs rule: utf8_prefix.induct)
  case (1 xs)
  then show ?case by (cases "utf8_step xs") (auto simp: utf8_prefix_Char utf8_prefix_Bad)
qed

lemma utf8_prefix_idem [simp]: "utf8_prefix (snd (utf8_prefix xs)) = ([], snd (utf8_prefix xs))"
  using utf8_prefix_rest [of xs] utf8_prefix_Bad by auto

lemma utf8_prefix_suffix: "\<exists>k \<le> length xs. snd (utf8_prefix xs) = drop k xs"
proof (induction xs rule: utf8_prefix.induct)
  case (1 xs)
  show ?case
  proof (cases "utf8_step xs")
    case (CodePoint c n)
    from 1 [OF CodePoint] obtain k where "k \<le> length (drop n xs)" "snd (utf8_prefix (drop n xs)) = drop k (drop n xs)"
      by auto
    then show ?thesis using utf8_step_size(1) [OF CodePoint]
      by (intro exI [of _ "n + k"]) (auto simp: utf8_prefix_Char [OF CodePoint] add.commute)
  qed (auto simp: utf8_prefix_Bad)
qed

section \<open>Reading and encoding are inverse\<close>

lemma unat_byte: "n < 0x100 \<Longrightarrow> unat (word_of_nat n :: byte) = n"
  by (simp add: unat_of_nat)

lemma base64_split:
  fixes c :: nat
  shows "c = c div 0x40 * 0x40 + c mod 0x40" "c mod 0x40 < 0x40"
    and "c = (c div 0x1000 * 0x40 + c div 0x40 mod 0x40) * 0x40 + c mod 0x40" "c div 0x40 mod 0x40 < 0x40"
    and "c = ((c div 0x40000 * 0x40 + c div 0x1000 mod 0x40) * 0x40 + c div 0x40 mod 0x40) * 0x40
      + c mod 0x40" "c div 0x1000 mod 0x40 < 0x40"
proof -
  have d: "c div 0x1000 = c div 0x40 div 0x40" "c div 0x40000 = c div 0x1000 div 0x40" for c :: nat
    by (simp_all add: div_mult2_eq [symmetric])
  have s: "c div 0x40 * 0x40 + c mod 0x40 = c" for c :: nat by (rule div_mult_mod_eq)
  show 1: "c = c div 0x40 * 0x40 + c mod 0x40" by (rule s [symmetric])
  show 2: "c = (c div 0x1000 * 0x40 + c div 0x40 mod 0x40) * 0x40 + c mod 0x40"
    unfolding d(1) s by (rule refl)
  show "c = ((c div 0x40000 * 0x40 + c div 0x1000 mod 0x40) * 0x40 + c div 0x40 mod 0x40) * 0x40
      + c mod 0x40" unfolding d(2) s by (rule 2)
qed simp_all

lemmas utf8_step_eval = utf8_need_def utf8_conts_def cont_value_def
  lead_value_def continuation_def Let_def

lemma cont_mod: "d < 0x40 \<Longrightarrow> (0x80 + d) mod 0x40 = (d :: nat)"
  using mod_mult_self3 [of 2 "0x40 :: nat" d] by simp

lemma utf8_step_char2:
  assumes "0x80 \<le> c" and "c < 0x800"
  shows "utf8_step (utf8_char c @ bs) = CodePoint c (length (utf8_char c))"
proof -
  define a d where ad: "a = c div 0x40" "d = c mod 0x40"
  have c: "c = a * 0x40 + d" "d < 0x40" using base64_split(1,2) by (simp_all add: ad)
  with assms have a: "a < 0x20" "2 \<le> a" by linarith+
  then have "(0xC0 + a) mod 0x20 = a" using mod_mult_self3 [of 6 "0x20 :: nat" a] by simp
  moreover have "utf8_char c = [word_of_nat (0xC0 + a), word_of_nat (0x80 + d)]"
    using assms by (simp add: utf8_char_def ad)
  moreover have "unat (word_of_nat (0xC0 + a) :: byte) = 0xC0 + a"
    "unat (word_of_nat (0x80 + d) :: byte) = 0x80 + d"
    using a c(2) unat_byte [of "0xC0 + a"] unat_byte [of "0x80 + d"] by linarith+
  moreover have "0xC0 + a \<noteq> 0xE0" "0xC0 + a \<noteq> 0xF0" using a(1) by linarith+
  ultimately show ?thesis using c a by (simp add: utf8_step_eval second_ok_def cont_mod)
qed

lemma utf8_step_char3:
  assumes "0x800 \<le> c" and "c < 0x10000" and "\<not> surrogate c"
  shows "utf8_step (utf8_char c @ bs) = CodePoint c (length (utf8_char c))"
proof -
  define a b d where ad: "a = c div 0x1000" "b = c div 0x40 mod 0x40" "d = c mod 0x40"
  have c: "c = (a * 0x40 + b) * 0x40 + d" "b < 0x40" "d < 0x40"
    using base64_split(2,3,4) by (simp_all add: ad)
  then have "c = a * 0x1000 + b * 0x40 + d" by simp
  with assms have a: "a < 0x10" by linarith
  then have "(0xE0 + a) mod 0x10 = a" using mod_mult_self3 [of 14 "0x10 :: nat" a] by simp
  moreover have "second_ok (0xE0 + a) (0x80 + b)"
    using assms c unfolding second_ok_def surrogate_def by (auto split: if_splits)
  moreover obtain u v w :: byte where "utf8_char c = [u, v, w]" "unat u = 0xE0 + a" "unat v = 0x80 + b"
    "unat w = 0x80 + d"
    using assms a c(2,3) unat_byte [of "0xE0 + a"] unat_byte [of "0x80 + b"] unat_byte [of "0x80 + d"]
    by (simp add: utf8_char_def ad del: of_nat_add)
  ultimately show ?thesis using c a by (simp add: utf8_step_eval cont_mod)
qed

lemma utf8_step_char4:
  assumes "0x10000 \<le> c" and "c < 0x110000"
  shows "utf8_step (utf8_char c @ bs) = CodePoint c (length (utf8_char c))"
proof -
  define a e b d where ad: "a = c div 0x40000" "e = c div 0x1000 mod 0x40" "b = c div 0x40 mod 0x40"
    "d = c mod 0x40"
  have c: "c = ((a * 0x40 + e) * 0x40 + b) * 0x40 + d" "e < 0x40" "b < 0x40" "d < 0x40"
    using base64_split(2,4,5,6) by (simp_all add: ad)
  then have "c = a * 0x40000 + e * 0x1000 + b * 0x40 + d" by simp
  with assms have a: "a < 5" by linarith
  then have "(0xF0 + a) mod 8 = a" using mod_mult_self3 [of 30 "8 :: nat" a] by simp
  moreover have "second_ok (0xF0 + a) (0x80 + e)"
    using assms c unfolding second_ok_def by (auto split: if_splits)
  moreover obtain t u v w :: byte where "utf8_char c = [t, u, v, w]" "unat t = 0xF0 + a"
    "unat u = 0x80 + e" "unat v = 0x80 + b" "unat w = 0x80 + d"
    using assms a c(2,3,4) unat_byte [of "0xF0 + a"] unat_byte [of "0x80 + e"] unat_byte [of "0x80 + b"]
      unat_byte [of "0x80 + d"]
    by (simp add: utf8_char_def ad del: of_nat_add)
  ultimately show ?thesis using c a by (simp add: utf8_step_eval cont_mod)
qed

lemma utf8_step_char:
  assumes "scalar c"
  shows "utf8_step (utf8_char c @ bs) = CodePoint c (length (utf8_char c))"
proof -
  consider "c < 0x80" | "0x80 \<le> c" "c < 0x800" | "0x800 \<le> c" "c < 0x10000" | "0x10000 \<le> c"
    by linarith
  then show ?thesis
  proof cases
    case 1
    then show ?thesis by (simp add: utf8_step_eval utf8_char_def unat_byte)
  qed (use assms utf8_step_char2 utf8_step_char3 utf8_step_char4 in \<open>auto simp: scalar_def\<close>)
qed

lemma utf8_char_ne: "utf8_char c \<noteq> []"
  by (simp add: utf8_char_def)

lemma utf8_prefix_encoded:
  assumes "list_all scalar t"
  shows "utf8_prefix (concat (map utf8_char t) @ bs) = (t @ fst (utf8_prefix bs), snd (utf8_prefix bs))"
  using assms
  by (induction t) (simp_all add: utf8_prefix_Char [OF utf8_step_char])

lemma utf8_lossy_encoded:
  assumes "list_all scalar t"
  shows "utf8_decode_lossy mark (concat (map utf8_char t)) = t"
  using assms
proof (induction t)
  case (Cons c t)
  then show ?case using utf8_char_ne [of c]
    by (subst utf8_decode_lossy.simps) (simp add: utf8_step_char)
qed (simp add: utf8_decode_lossy.simps)

text \<open>What is read off a buffer is the encoding of a code point.\<close>

lemma byte_of_unat: "unat (b :: byte) = n \<Longrightarrow> b = word_of_nat n"
  by auto

lemma div_digit: "d < m \<Longrightarrow> (a * m + d) div m = a" "d < m \<Longrightarrow> (a * m + d) mod m = (d :: nat)"
  by (cases "m = 0"; simp)+

lemma second_ok_cont: "second_ok b c \<Longrightarrow> continuation c"
  by (auto simp: second_ok_def continuation_def split: if_splits)

lemma continuationE:
  assumes "continuation b"
  obtains d where "b = 0x80 + d" "d < 0x40"
  using assms that [of "b - 0x80"] by (auto simp: continuation_def)

text \<open>The number of bytes that the step read, and each of them.\<close>

lemma utf8_conts_all:
  assumes "utf8_conts b k bs = k" and "0 < k"
  obtains u us where "take k bs = u # us" "length us = k - 1" "second_ok b (unat u)"
    "\<forall>c \<in> set us. continuation (unat c)"
proof (cases "take k bs")
  case Nil
  then have "utf8_conts b k bs = 0" unfolding utf8_conts_def Nil by simp
  then show ?thesis using assms by simp
next
  case (Cons u us)
  let ?t = "takeWhile (\<lambda>c. continuation (unat c)) us"
  from Cons assms have ok: "second_ok b (unat u)" "Suc (length ?t) = k"
    by (auto simp: utf8_conts_def split: if_splits)
  have "Suc (length us) \<le> k" using arg_cong [OF Cons, of length] by simp
  moreover have "length ?t \<le> length us" by (rule length_takeWhile_le)
  ultimately have "length ?t = length us" "length us = k - 1" using ok(2) by linarith+
  moreover from this(1) have "\<forall>c \<in> set us. continuation (unat c)"
    by (metis takeWhile_eq_take take_all order_refl takeWhile_eq_all_conv)
  ultimately show ?thesis using that Cons ok(1) by blast
qed

lemma utf8_read2:
  assumes "unat b = 0xC0 + a" "2 \<le> a" "a < 0x20" "unat u = 0x80 + d" "d < 0x40"
  shows "utf8_char (a * 0x40 + d) = [b, u]" "scalar (a * 0x40 + d)"
proof -
  have "0x80 \<le> a * 0x40 + d" "a * 0x40 + d < 0x800" using assms by linarith+
  then have "utf8_char (a * 0x40 + d) = [word_of_nat (0xC0 + a), word_of_nat (0x80 + d)]"
    using div_digit [of d "0x40" a] assms(5) by (simp add: utf8_char_def)
  then show "utf8_char (a * 0x40 + d) = [b, u]" by (simp only: assms(1,4) [THEN byte_of_unat])
  show "scalar (a * 0x40 + d)"
    using \<open>a * 0x40 + d < 0x800\<close> by (simp add: scalar_def surrogate_def)
qed

lemma utf8_char_long:
  "0x800 \<le> c \<Longrightarrow> c < 0x10000 \<Longrightarrow> utf8_char c =
     [word_of_nat (0xE0 + c div 0x1000), word_of_nat (0x80 + c div 0x40 mod 0x40), word_of_nat (0x80 + c mod 0x40)]"
  "0x10000 \<le> c \<Longrightarrow> utf8_char c =
     [word_of_nat (0xF0 + c div 0x40000), word_of_nat (0x80 + c div 0x1000 mod 0x40),
      word_of_nat (0x80 + c div 0x40 mod 0x40), word_of_nat (0x80 + c mod 0x40)]"
  by (simp_all add: utf8_char_def)

lemma utf8_read3:
  assumes "unat b = 0xE0 + a" "a < 0x10" "unat u = 0x80 + d" "d < 0x40" "unat v = 0x80 + e" "e < 0x40"
    and "second_ok (unat b) (unat u)"
  shows "utf8_char ((a * 0x40 + d) * 0x40 + e) = [b, u, v]" "scalar ((a * 0x40 + d) * 0x40 + e)"
proof -
  let ?c = "(a * 0x40 + d) * 0x40 + e"
  have lt: "?c < 0x10000" using assms by simp
  have ge: "0x800 \<le> ?c" "\<not> surrogate ?c"
    using assms unfolding second_ok_def surrogate_def by (auto split: if_splits)
  have d: "?c div 0x40 = a * 0x40 + d" "?c mod 0x40 = e" using assms(6) by (rule div_digit)+
  have "?c div 0x1000 = ?c div 0x40 div 0x40" by (simp only: div_mult2_eq [symmetric]) simp
  then have d': "?c div 0x1000 = a" unfolding d(1) using assms(4) by (simp only: div_digit)
  have d'': "?c div 0x40 mod 0x40 = d" unfolding d(1) using assms(4) by (rule div_digit)
  have "utf8_char ?c = [word_of_nat (0xE0 + a), word_of_nat (0x80 + d), word_of_nat (0x80 + e)]"
    using lt ge(1) utf8_char_long(1) [of ?c] unfolding d' d'' d(2) by blast
  then show "utf8_char ?c = [b, u, v]" by (simp only: assms(1,3,5) [THEN byte_of_unat])
  show "scalar ?c" using lt ge(2) by (simp add: scalar_def)
qed

lemma utf8_read4:
  assumes "unat b = 0xF0 + a" "a < 5" "unat u = 0x80 + f" "f < 0x40" "unat v = 0x80 + d" "d < 0x40"
    "unat w = 0x80 + e" "e < 0x40" and "second_ok (unat b) (unat u)"
  shows "utf8_char (((a * 0x40 + f) * 0x40 + d) * 0x40 + e) = [b, u, v, w]"
    "scalar (((a * 0x40 + f) * 0x40 + d) * 0x40 + e)"
proof -
  let ?c = "((a * 0x40 + f) * 0x40 + d) * 0x40 + e"
  have "(unat b = 0xF0 \<longrightarrow> 0x10 \<le> f) \<and> (unat b = 0xF4 \<longrightarrow> f < 0x10)"
    using assms(3,9) unfolding second_ok_def by (auto split: if_splits)
  then have "0x10 \<le> a * 0x40 + f" "a * 0x40 + f < 0x110"
    using assms(1-4) by (cases "a = 0"; cases "a = 4"; simp)+
  then have r: "0x10000 \<le> ?c" "?c < 0x110000" using assms(6,8) by simp_all
  have d: "?c div 0x40 = (a * 0x40 + f) * 0x40 + d" "?c mod 0x40 = e" using assms(8) by (rule div_digit)+
  have d': "?c div 0x40 mod 0x40 = d" unfolding d(1) using assms(6) by (rule div_digit)
  have "?c div 0x1000 = ?c div 0x40 div 0x40" by (simp only: div_mult2_eq [symmetric]) simp
  then have e: "?c div 0x1000 = a * 0x40 + f" unfolding d(1) using assms(6) by (simp only: div_digit)
  have e': "?c div 0x1000 mod 0x40 = f" unfolding e using assms(4) by (rule div_digit)
  have "?c div 0x40000 = ?c div 0x1000 div 0x40" by (simp only: div_mult2_eq [symmetric]) simp
  then have g: "?c div 0x40000 = a" unfolding e using assms(4) by (simp only: div_digit)
  have "utf8_char ?c = [word_of_nat (0xF0 + a), word_of_nat (0x80 + f), word_of_nat (0x80 + d),
    word_of_nat (0x80 + e)]"
    using r utf8_char_long(2) [of ?c] unfolding g e' d' d(2) by blast
  then show "utf8_char ?c = [b, u, v, w]" by (simp only: assms(1,3,5,7) [THEN byte_of_unat])
  show "scalar ?c" using r by (simp add: scalar_def surrogate_def)
qed

lemma utf8_step_read:
  assumes "utf8_step bs = CodePoint c n"
  shows "take n bs = utf8_char c" "scalar c"
proof -
  from assms obtain b bs' k where b: "bs = b # bs'" "utf8_need (unat b) = Some k"
    "utf8_conts (unat b) k bs' = k" "c = cont_value (lead_value k (unat b)) (take k bs')" "n = Suc k"
    by (cases bs) (auto simp: Let_def split: option.split_asm if_split_asm)
  have "take n bs = utf8_char c \<and> scalar c"
  proof (cases "k = 0")
    case True
    with b(2) have "unat b < 0x80" by (auto simp: utf8_need_def split: if_splits)
    with True b show ?thesis
      by (auto simp: cont_value_def lead_value_def utf8_char_def scalar_def surrogate_def)
  next
    case False
    then have "0 < k" by simp
    from utf8_conts_all [OF b(3) this]
    obtain u us where u: "take k bs' = u # us" "length us = k - 1" "second_ok (unat b) (unat u)"
      "\<forall>c \<in> set us. continuation (unat c)" .
    obtain d where d: "unat u = 0x80 + d" "d < 0x40" by (rule continuationE [OF second_ok_cont [OF u(3)]])
    from b(2) False consider a where "k = 1" "unat b = 0xC0 + a" "2 \<le> a" "a < 0x20"
      | a where "k = 2" "unat b = 0xE0 + a" "a < 0x10" | a where "k = 3" "unat b = 0xF0 + a" "a < 5"
      unfolding utf8_need_def
      by (auto split: if_splits dest!: le_Suc_ex simp: not_less)
    then show ?thesis
    proof cases
      case (1 a)
      with u have "take n bs = [b, u]" using b(1,5) by simp
      moreover have "c = a * 0x40 + d" using 1 b(4) u(1,2) d
        by (simp add: cont_value_def lead_value_def cont_mod mod_mult_self3 [of 6 "0x20" a, simplified])
      ultimately show ?thesis using utf8_read2 [OF 1(2-4) d] by simp
    next
      case (2 a)
      with u obtain v where v: "us = [v]" "continuation (unat v)" by (cases us) auto
      obtain e where e: "unat v = 0x80 + e" "e < 0x40" by (rule continuationE [OF v(2)])
      have "take n bs = [b, u, v]" using 2 u v b(1,5) by simp
      moreover have "c = (a * 0x40 + d) * 0x40 + e" using 2 b(4) u(1) v(1) d e
        by (simp add: cont_value_def lead_value_def cont_mod mod_mult_self3 [of 14 "0x10" a, simplified])
      ultimately show ?thesis using utf8_read3 [OF 2(2,3) d e u(3)] by simp
    next
      case (3 a)
      with u(2) obtain v w where v: "us = [v, w]"
        by (cases us; cases "tl us") auto
      with u(4) have "continuation (unat v)" "continuation (unat w)" by auto
      then obtain e f where e: "unat v = 0x80 + e" "e < 0x40" "unat w = 0x80 + f" "f < 0x40"
        by (metis continuationE)
      have "take n bs = [b, u, v, w]" using 3 u v b(1,5) by simp
      moreover have "c = ((a * 0x40 + d) * 0x40 + e) * 0x40 + f" using 3 b(4) u(1) v d e
        by (simp add: cont_value_def lead_value_def cont_mod mod_mult_self3 [of 30 "8" a, simplified])
      ultimately show ?thesis using utf8_read4 [OF 3(2,3) d e u(3)] by simp
    qed
  qed
  then show "take n bs = utf8_char c" "scalar c" by auto
qed

lemma utf8_prefix_reads:
  "concat (map utf8_char (fst (utf8_prefix bs))) @ snd (utf8_prefix bs) = bs \<and>
   list_all scalar (fst (utf8_prefix bs))"
proof (induction bs rule: utf8_prefix.induct)
  case (1 bs)
  show ?case
  proof (cases "utf8_step bs")
    case (CodePoint c n)
    from 1 [OF CodePoint] utf8_step_read [OF CodePoint] show ?thesis
      by (simp add: utf8_prefix_Char [OF CodePoint]) (metis append_take_drop_id)
  qed (simp add: utf8_prefix_Bad)
qed

lemma utf8_encode_scalars: "list_all scalar t \<Longrightarrow> utf8_encode t = Inr (concat (map utf8_char t))"
  by (induction t) (auto simp: utf8_encode_def scalar_def)

end
