(* ===== verification/Py_Strings.thy ===== *)
theory Py_Strings
  imports Utf8
begin

text \<open>
  What the program uses of Python's strings and lists: \<^verbatim>\<open>strip\<close>, \<^verbatim>\<open>split\<close>, \<^verbatim>\<open>find\<close>,
  \<^verbatim>\<open>rindex\<close>, \<^verbatim>\<open>int(text)\<close>, the parent of a path, and list items and slices, whose negative
  indices count from the end. The ASCII strings of the configuration are \<open>string\<close>, the texts
  of requests and of the vocabulary file \<open>unicode_text\<close>.
\<close>

section \<open>Strings and paths\<close>

definition py_space :: "char \<Rightarrow> bool" where
  "py_space c \<longleftrightarrow>
     (let n = of_char c :: nat in 9 \<le> n \<and> n \<le> 13 \<or> 28 \<le> n \<and> n \<le> 32 \<or> n = 133 \<or> n = 160)"

definition py_strip :: "string \<Rightarrow> string" where
  "py_strip s = rev (dropWhile py_space (rev (dropWhile py_space s)))"

fun split_on :: "('a \<Rightarrow> bool) \<Rightarrow> 'a list \<Rightarrow> 'a list list" where
  "split_on P [] = [[]]"
| "split_on P (c # cs) =
     (if P c then [] # split_on P cs
      else case split_on P cs of [] \<Rightarrow> [[c]] | w # ws \<Rightarrow> (c # w) # ws)"

text \<open>\<^verbatim>\<open>str.split()\<close> without an argument drops the empty pieces.\<close>

definition split_words :: "string \<Rightarrow> string list" where
  "split_words s = filter (\<lambda>w. w \<noteq> []) (split_on py_space s)"

definition ends_with :: "string \<Rightarrow> string \<Rightarrow> bool" where
  "ends_with s suf \<longleftrightarrow> length suf \<le> length s \<and> drop (length s - length suf) s = suf"

definition contains_str :: "string \<Rightarrow> string \<Rightarrow> bool" where
  "contains_str s sub \<longleftrightarrow> list_ex (\<lambda>i. take (length sub) (drop i s) = sub) [0..<Suc (length s)]"

text \<open>\<^verbatim>\<open>str(Path(p).parent)\<close> for POSIX paths\<close>

definition path_root :: "string \<Rightarrow> string" where
  "path_root p =
     (if take 1 p \<noteq> ''/'' then []
      else if take 2 p = ''//'' \<and> take 3 p \<noteq> ''///'' then ''//'' else ''/'')"

definition path_parts :: "string \<Rightarrow> string list" where
  "path_parts p = filter (\<lambda>w. w \<noteq> [] \<and> w \<noteq> ''.'') (split_on (\<lambda>c. c = CHR ''/'') p)"

fun join_slash :: "string list \<Rightarrow> string" where
  "join_slash [] = []"
| "join_slash [w] = w"
| "join_slash (w # ws) = w @ ''/'' @ join_slash ws"

definition path_parent :: "string \<Rightarrow> string" where
  "path_parent p =
     (let parts = butlast (path_parts p)
      in if path_root p = [] \<and> parts = [] then ''.'' else path_root p @ join_slash parts)"

text \<open>\<^verbatim>\<open>int(text)\<close>: blanks around, a sign, digits with single underscores between them.\<close>

fun digits_value :: "int \<Rightarrow> bool \<Rightarrow> string \<Rightarrow> int option" where
  "digits_value acc after_digit [] = (if after_digit then Some acc else None)"
| "digits_value acc after_digit (c # cs) =
     (let n = of_char c :: nat
      in if 48 \<le> n \<and> n \<le> 57 then digits_value (10 * acc + (int n - 48)) True cs
         else if c = CHR ''_'' \<and> after_digit then digits_value acc False cs
         else None)"

definition py_int :: "string \<Rightarrow> int res" where
  "py_int s =
     (let t = py_strip s;
          v = (case t of
                 [] \<Rightarrow> None
               | c # cs \<Rightarrow>
                   if c = CHR ''-'' then map_option uminus (digits_value 0 False cs)
                   else if c = CHR ''+'' then digits_value 0 False cs
                   else digits_value 0 False t)
      in case v of None \<Rightarrow> Inl (ValueError ''invalid literal for int() with base 10'')
         | Some n \<Rightarrow> Inr n)"

section \<open>Lists and texts\<close>

text \<open>\<open>xs[i]\<close> and \<open>xs[i] = x\<close>\<close>

definition py_pos :: "nat \<Rightarrow> int \<Rightarrow> nat res" where
  "py_pos n i =
     (if 0 \<le> i \<and> i < int n then Inr (nat i)
      else if - int n \<le> i \<and> i < 0 then Inr (nat (int n + i))
      else Inl IndexError)"

definition py_item :: "'a list \<Rightarrow> int \<Rightarrow> 'a res" where
  "py_item xs i = bindE (py_pos (length xs) i) (\<lambda>k. Inr (xs ! k))"

definition py_set_item :: "'a list \<Rightarrow> int \<Rightarrow> 'a \<Rightarrow> 'a list res" where
  "py_set_item xs i x = bindE (py_pos (length xs) i) (\<lambda>k. Inr (xs[k := x]))"

text \<open>The end of a slice \<open>xs[:i]\<close>\<close>

definition slice_end :: "nat \<Rightarrow> int \<Rightarrow> nat" where
  "slice_end n i = (if i < 0 then nat (int n + i) else min n (nat i))"

definition slice_to :: "'a list \<Rightarrow> int \<Rightarrow> 'a list" where
  "slice_to xs i = take (slice_end (length xs) i) xs"

text \<open>\<open>xs[i:j]\<close>\<close>

definition slice :: "'a list \<Rightarrow> int \<Rightarrow> int \<Rightarrow> 'a list" where
  "slice xs i j = drop (slice_end (length xs) i) (slice_to xs j)"

text \<open>\<^verbatim>\<open>str\<close> of a natural number.\<close>

fun decimal :: "nat \<Rightarrow> string" where
  "decimal n = (if n < 10 then [''0123456789'' ! n] else decimal (n div 10) @ [''0123456789'' ! (n mod 10)])"

declare decimal.simps [simp del]

text \<open>\<open>s.find(sub, start)\<close> for a start that is not negative; \<open>None\<close> is -1.\<close>

definition py_find :: "'a list \<Rightarrow> 'a list \<Rightarrow> nat \<Rightarrow> nat option" where
  "py_find s sub start =
     (if length s < start then None
      else find (\<lambda>i. take (length sub) (drop i s) = sub) [start..<Suc (length s - length sub)])"

definition py_rfind :: "'a list \<Rightarrow> 'a list \<Rightarrow> nat option" where
  "py_rfind s sub =
     find (\<lambda>i. take (length sub) (drop i s) = sub) (rev [0..<Suc (length s - length sub)])"

lemma find_SomeD: "find P xs = Some x \<Longrightarrow> x \<in> set xs \<and> P x"
  by (metis find_Some_iff nth_mem)

lemma py_find_SomeD:
  assumes "py_find s sub start = Some i"
  shows "start \<le> i" "take (length sub) (drop i s) = sub" "i + length sub \<le> length s"
proof -
  from assms have "i \<in> set [start..<Suc (length s - length sub)]" "take (length sub) (drop i s) = sub"
    by (auto simp: py_find_def simp del: upt_Suc dest: find_SomeD split: if_splits)
  moreover from this(2) have "length sub \<le> length s - i" by (metis length_drop length_take min.cobounded1)
  ultimately show "start \<le> i" "take (length sub) (drop i s) = sub" "i + length sub \<le> length s" by auto
qed

text \<open>The blanks \<^verbatim>\<open>str.strip()\<close> removes from a text\<close>

definition unicode_space :: "nat \<Rightarrow> bool" where
  "unicode_space n \<longleftrightarrow>
     9 \<le> n \<and> n \<le> 13 \<or> 28 \<le> n \<and> n \<le> 32 \<or> n = 0x85 \<or> n = 0xA0 \<or> n = 0x1680 \<or>
     0x2000 \<le> n \<and> n \<le> 0x200A \<or> n = 0x2028 \<or> n = 0x2029 \<or> n = 0x202F \<or> n = 0x205F \<or> n = 0x3000"

definition unicode_strip :: "unicode_text \<Rightarrow> unicode_text" where
  "unicode_strip s = rev (dropWhile unicode_space (rev (dropWhile unicode_space s)))"

text \<open>\<^verbatim>\<open>int(text)\<close>, for the digits of Latin-1 only\<close>

definition text_int :: "unicode_text \<Rightarrow> int res" where
  "text_int t =
     (if list_all (\<lambda>c. c < 0x100) t then py_int (map char_of t)
      else Inl (ValueError ''invalid literal for int() with base 10''))"

end
