(* ===== verification/Engine_Config.thy ===== *)
theory Engine_Config
  imports Config Cuda_Graph Py_Strings
begin

text \<open>
  \<^verbatim>\<open>vkwr/config/\<close> above the scheduler's part, and the mapping of the command line to it in
  \<^verbatim>\<open>entrypoints/__main__.py\<close>.

  Every configuration class is a record; \<^verbatim>\<open>__post_init__\<close> is a function that may raise. Paths
  and command-line strings are HOL strings, read as code points below 256. The splitting of the
  command line by \<^verbatim>\<open>argparse\<close> is the record \<open>cli_args\<close> of its results. The hashes of
  configurations are not modelled.

  The lemmas show that the default CUDA graph sizes are sorted and that padding a batch to the
  next one wastes fewer than sixteen rows, and that \<^verbatim>\<open>create_engine_config\<close> rejects exactly the
  configurations its checks name.
\<close>

section \<open>The records\<close>

record model_config =
  mc_model :: string
  mc_tokenizer :: "string option"
  mc_skip_tokenizer_init :: bool
  mc_trust_remote_code :: bool
  mc_dtype :: string
  mc_load_format :: string
  mc_seed :: int
  mc_max_model_len :: "int option"

record worker_config =
  wc_device :: string
  wc_gpu_memory_utilization :: real
  wc_enforce_eager :: bool
  wc_max_context_len_from_generator :: "int option"
  wc_shutdown_timeout :: int

record parallel_config =
  pc_dp_size :: int
  pc_tp_size :: int
  pc_pp_size :: int
  pc_distributed_executor_backend :: "string option"

record compilation_config =
  cc_cudagraph_capture_size :: "int list option"
  cc_cudagraph_mode :: string
  cc_torch_compile_mode :: "string option"

record state_config =
  stc_state_cache_max_cpu_entries :: int
  stc_max_checkpoints_per_req :: int
  stc_checkpoint_interval :: "int option"
  stc_enable_disk_cache :: bool
  stc_disk_cache_path :: "string option"
  stc_disk_cache_max_size_mb :: int

record vkwr_config =
  vc_model :: model_config
  vc_scheduler :: scheduler_config
  vc_worker :: worker_config
  vc_parallel :: parallel_config
  vc_compilation :: compilation_config
  vc_state :: state_config

definition worker_config_defaults :: worker_config where
  "worker_config_defaults =
     \<lparr>wc_device = ''cuda'', wc_gpu_memory_utilization = 92 / 100, wc_enforce_eager = False,
      wc_max_context_len_from_generator = None, wc_shutdown_timeout = 0\<rparr>"

definition parallel_config_defaults :: parallel_config where
  "parallel_config_defaults =
     \<lparr>pc_dp_size = 1, pc_tp_size = 1, pc_pp_size = 1, pc_distributed_executor_backend = None\<rparr>"

definition state_config_defaults :: state_config where
  "state_config_defaults =
     \<lparr>stc_state_cache_max_cpu_entries = 64, stc_max_checkpoints_per_req = 8,
      stc_checkpoint_interval = None, stc_enable_disk_cache = False, stc_disk_cache_path = None,
      stc_disk_cache_max_size_mb = 10240\<rparr>"

definition parallel_post_init :: "parallel_config \<Rightarrow> parallel_config res" where
  "parallel_post_init c =
     (if pc_tp_size c \<noteq> 1 then Inl (ValueError ''V3 does not support TP yet'')
      else if pc_pp_size c \<noteq> 1 then Inl (ValueError ''V3 does not support PP yet'')
      else Inr c)"

section \<open>Weights and inference paths\<close>

definition LOWRANK_WEIGHT_SUFFIXES :: "string list" where
  "LOWRANK_WEIGHT_SUFFIXES =
     [''att.w1'', ''att.w2'', ''att.a1'', ''att.a2'', ''att.g1'', ''att.g2'', ''att.v1'', ''att.v2'']"

definition ATT_C2C_WEIGHT_SUFFIXES :: "string list" where
  "ATT_C2C_WEIGHT_SUFFIXES =
     [''receptance.weight'', ''key.weight'', ''value.weight'', ''output.weight'']"

definition ORIG_LINEAR_GROUPS_DEFAULT :: "string set" where
  "ORIG_LINEAR_GROUPS_DEFAULT = {''att_c2c'', ''ffn_key'', ''head''}"

definition parse_orig_linear_groups :: "string \<Rightarrow> string set res" where
  "parse_orig_linear_groups text =
     (let groups = set (filter (\<lambda>w. w \<noteq> [])
            (map py_strip (split_words (map (\<lambda>c. if c = CHR '','' then CHR '' '' else c) text))))
      in if groups = {} \<or> groups = {''none''} then Inr {}
         else if groups - ORIG_LINEAR_GROUPS_DEFAULT \<noteq> {}
              then Inl (ValueError ''unknown orig linear groups'')
              else Inr groups)"

record weight_config =
  wt_lowrank_suffixes :: "string list"
  wt_c2c_suffixes :: "string list"
  wt_orig_linear_groups :: "string set"

definition weight_config_defaults :: weight_config where
  "weight_config_defaults =
     \<lparr>wt_lowrank_suffixes = LOWRANK_WEIGHT_SUFFIXES, wt_c2c_suffixes = ATT_C2C_WEIGHT_SUFFIXES,
      wt_orig_linear_groups = ORIG_LINEAR_GROUPS_DEFAULT\<rparr>"

definition weight_from_cli_string :: "string \<Rightarrow> weight_config res" where
  "weight_from_cli_string text =
     bindE (parse_orig_linear_groups text) (\<lambda>groups.
       Inr (if groups \<noteq> {} then weight_config_defaults\<lparr>wt_orig_linear_groups := groups\<rparr>
            else weight_config_defaults))"

definition is_lowrank_weight :: "weight_config \<Rightarrow> string \<Rightarrow> bool" where
  "is_lowrank_weight w key \<longleftrightarrow> list_ex (ends_with key) (wt_lowrank_suffixes w)"

definition is_att_c2c_weight :: "weight_config \<Rightarrow> string \<Rightarrow> bool" where
  "is_att_c2c_weight w key \<longleftrightarrow>
     contains_str key ''.att.'' \<and> list_ex (ends_with key) (wt_c2c_suffixes w)"

definition use_orig_linear :: "weight_config \<Rightarrow> string \<Rightarrow> bool" where
  "use_orig_linear w g \<longleftrightarrow> g \<in> wt_orig_linear_groups w"

definition is_orig_linear_weight :: "weight_config \<Rightarrow> string \<Rightarrow> bool" where
  "is_orig_linear_weight w key \<longleftrightarrow>
     use_orig_linear w ''att_c2c'' \<and> is_att_c2c_weight w key \<or>
     use_orig_linear w ''ffn_key'' \<and> contains_str key ''.ffn.key.weight'' \<or>
     use_orig_linear w ''head'' \<and> key = ''head.weight''"

record inference_config =
  ic_dtype :: string
  ic_wkv_mode :: string
  ic_emb_device :: string
  ic_rkv_mode :: string
  ic_cmix_sparse :: string
  ic_lowrank_weight :: string
  ic_ln1_tmix_fuse :: bool

definition inference_config_defaults :: inference_config where
  "inference_config_defaults =
     \<lparr>ic_dtype = ''float16'', ic_wkv_mode = ''fp16'', ic_emb_device = ''gpu'', ic_rkv_mode = ''off'',
      ic_cmix_sparse = ''no-fc'', ic_lowrank_weight = ''both'', ic_ln1_tmix_fuse = True\<rparr>"

definition inference_post_init :: "inference_config \<Rightarrow> inference_config res" where
  "inference_post_init c =
     (if ic_dtype c \<notin> {''float16'', ''bfloat16''} then Inl (ValueError ''invalid dtype'')
      else if ic_wkv_mode c \<notin> {''fp16'', ''fp32io16''} then Inl (ValueError ''invalid wkv_mode'')
      else if ic_emb_device c \<notin> {''cpu'', ''gpu''} then Inl (ValueError ''invalid emb_device'')
      else if ic_rkv_mode c \<notin> {''auto'', ''on'', ''off''} then Inl (ValueError ''invalid rkv_mode'')
      else if ic_cmix_sparse c \<notin> {''auto'', ''no-fc'', ''off''}
           then Inl (ValueError ''invalid cmix_sparse'')
      else if ic_lowrank_weight c \<notin> {''orig'', ''transpose'', ''both''}
           then Inl (ValueError ''invalid lowrank_weight'')
      else Inr c)"

section \<open>Engine configuration\<close>

definition default_cudagraph_capture_sizes :: "int \<Rightarrow> int \<Rightarrow> nat list" where
  "default_cudagraph_capture_sizes seqs tokens =
     (let max_size = min (min seqs 512) tokens in
      if max_size < 1 then []
      else let m = nat max_size;
               sizes = filter (\<lambda>s. s \<le> m)
                 ([1, 2, 4] @ map (\<lambda>k. 8 * k) [1..<32] @
                  map (\<lambda>k. 256 + 16 * k) [0..<(if 256 \<le> m then (m - 256) div 16 + 1 else 0)]);
               sizes2 = (if sizes = [] \<or> List.last sizes < m then sizes @ [m] else sizes)
           in sorted_list_of_set (set sizes2))"

definition vkwr_post_init :: "vkwr_config \<Rightarrow> vkwr_config res" where
  "vkwr_post_init c =
     (if mc_dtype (vc_model c) \<noteq> ''float16'' then Inl (ValueError ''RWKV7 only supports float16'')
      else if max_num_batched_tokens (vc_scheduler c) < max_num_seqs (vc_scheduler c)
           then Inl (ValueError ''max_num_batched_tokens must be >= max_num_seqs'')
      else if cc_cudagraph_capture_size (vc_compilation c) = None \<and>
              \<not> wc_enforce_eager (vc_worker c) \<and> cc_cudagraph_mode (vc_compilation c) \<noteq> ''none''
           then Inr (c\<lparr>vc_compilation := (vc_compilation c)\<lparr>cc_cudagraph_capture_size :=
                  Some (map int (default_cudagraph_capture_sizes
                    (max_num_seqs (vc_scheduler c)) (max_num_batched_tokens (vc_scheduler c))))\<rparr>\<rparr>)
           else Inr c)"

record engine_args =
  ea_model :: string
  ea_tokenizer :: "string option"
  ea_skip_tokenizer_init :: bool
  ea_trust_remote_code :: bool
  ea_dtype :: string
  ea_max_model_len :: "int option"
  ea_load_format :: string
  ea_seed :: int
  ea_max_num_batched_tokens :: int
  ea_max_num_seqs :: int
  ea_gpu_memory_utilization :: real
  ea_enforce_eager :: bool
  ea_distributed_executor_backend :: "string option"
  ea_cudagraph_capture_size :: "int list option"
  ea_cudagraph_mode :: string
  ea_default_max_tokens :: "int option"
  ea_enable_async_scheduling :: bool
  ea_batch_queue_size :: int
  ea_enable_multiprocessing :: bool

definition engine_args_defaults :: "string \<Rightarrow> engine_args" where
  "engine_args_defaults model =
     \<lparr>ea_model = model, ea_tokenizer = None, ea_skip_tokenizer_init = False,
      ea_trust_remote_code = False, ea_dtype = ''float16'', ea_max_model_len = None,
      ea_load_format = ''auto'', ea_seed = 42, ea_max_num_batched_tokens = 2048,
      ea_max_num_seqs = 64, ea_gpu_memory_utilization = 92 / 100, ea_enforce_eager = False,
      ea_distributed_executor_backend = None, ea_cudagraph_capture_size = None,
      ea_cudagraph_mode = ''full'', ea_default_max_tokens = None,
      ea_enable_async_scheduling = True, ea_batch_queue_size = 2, ea_enable_multiprocessing = True\<rparr>"

definition create_engine_config :: "engine_args \<Rightarrow> vkwr_config res" where
  "create_engine_config a =
     (let tok = (case ea_tokenizer a of None \<Rightarrow> path_parent (ea_model a) | Some t \<Rightarrow> t);
          mc = \<lparr>mc_model = ea_model a, mc_tokenizer = Some tok,
                mc_skip_tokenizer_init = ea_skip_tokenizer_init a,
                mc_trust_remote_code = ea_trust_remote_code a, mc_dtype = ea_dtype a,
                mc_load_format = ea_load_format a, mc_seed = ea_seed a,
                mc_max_model_len = ea_max_model_len a\<rparr>;
          sc = scheduler_config_defaults\<lparr>max_num_batched_tokens := ea_max_num_batched_tokens a,
                max_num_seqs := ea_max_num_seqs a, default_max_tokens := ea_default_max_tokens a,
                enable_async_scheduling := ea_enable_async_scheduling a,
                batch_queue_size := ea_batch_queue_size a\<rparr>;
          wc = worker_config_defaults\<lparr>wc_gpu_memory_utilization := ea_gpu_memory_utilization a,
                wc_enforce_eager := ea_enforce_eager a\<rparr>
      in bindE (parallel_post_init (parallel_config_defaults\<lparr>pc_distributed_executor_backend :=
                  ea_distributed_executor_backend a\<rparr>)) (\<lambda>pc.
           vkwr_post_init
             \<lparr>vc_model = mc, vc_scheduler = sc, vc_worker = wc, vc_parallel = pc,
              vc_compilation = \<lparr>cc_cudagraph_capture_size = ea_cudagraph_capture_size a,
                 cc_cudagraph_mode = ea_cudagraph_mode a, cc_torch_compile_mode = None\<rparr>,
              vc_state = state_config_defaults\<rparr>))"

text \<open>\<^verbatim>\<open>main\<close>: from the parsed command line to the engine arguments\<close>

record cli_args =
  cli_model :: string
  cli_tokenizer :: "string option"
  cli_skip_tokenizer_init :: bool
  cli_dtype :: string
  cli_load_format :: string
  cli_max_model_len :: "int option"
  cli_seed :: int
  cli_max_num_batched_tokens :: int
  cli_max_num_seqs :: int
  cli_gpu_memory_utilization :: real
  cli_enforce_eager :: bool
  cli_cudagraph_mode :: string
  cli_cudagraph_capture_size :: "string option"
  cli_max_tokens :: "int option"
  cli_disable_multiprocessing :: bool

definition parse_capture_sizes :: "string option \<Rightarrow> int list option res" where
  "parse_capture_sizes arg =
     (case arg of
        None \<Rightarrow> Inr None
      | Some [] \<Rightarrow> Inr None
      | Some text \<Rightarrow>
          bindE (mapE (\<lambda>w. py_int (py_strip w)) (split_on (\<lambda>c. c = CHR '','') text)) (\<lambda>ns. Inr (Some ns)))"

definition main_engine_args :: "cli_args \<Rightarrow> engine_args res" where
  "main_engine_args a =
     bindE (parse_capture_sizes (cli_cudagraph_capture_size a)) (\<lambda>sizes.
       Inr ((engine_args_defaults (cli_model a))
              \<lparr>ea_tokenizer := cli_tokenizer a, ea_skip_tokenizer_init := cli_skip_tokenizer_init a,
               ea_dtype := cli_dtype a, ea_load_format := cli_load_format a,
               ea_max_model_len := cli_max_model_len a, ea_seed := cli_seed a,
               ea_max_num_batched_tokens := cli_max_num_batched_tokens a,
               ea_max_num_seqs := cli_max_num_seqs a,
               ea_gpu_memory_utilization := cli_gpu_memory_utilization a,
               ea_enforce_eager := cli_enforce_eager a, ea_cudagraph_capture_size := sizes,
               ea_cudagraph_mode := cli_cudagraph_mode a,
               ea_default_max_tokens := cli_max_tokens a,
               ea_enable_multiprocessing := \<not> cli_disable_multiprocessing a\<rparr>))"

section \<open>The default capture sizes\<close>

definition capture_base :: "nat \<Rightarrow> nat list" where
  "capture_base m = filter (\<lambda>s. s \<le> m)
     ([1, 2, 4] @ map (\<lambda>k. 8 * k) [1..<32] @
      map (\<lambda>k. 256 + 16 * k) [0..<(if 256 \<le> m then (m - 256) div 16 + 1 else 0)])"

lemma default_sizes_eq:
  assumes "1 \<le> seqs" "seqs \<le> tokens" and "m = nat (min seqs 512)"
  shows "default_cudagraph_capture_sizes seqs tokens =
    sorted_list_of_set (set (if capture_base m = [] \<or> List.last (capture_base m) < m
                             then capture_base m @ [m] else capture_base m))"
  using assms unfolding default_cudagraph_capture_sizes_def capture_base_def [symmetric] Let_def
  by (simp add: min_absorb1 min.coboundedI1)

lemma default_sizes:
  assumes "1 \<le> seqs" "seqs \<le> tokens" and "m = nat (min seqs 512)"
  shows "sorted (default_cudagraph_capture_sizes seqs tokens)"
    and "m \<in> set (default_cudagraph_capture_sizes seqs tokens)"
    and "c \<in> set (capture_base m) \<Longrightarrow> c \<in> set (default_cudagraph_capture_sizes seqs tokens)"
    and "c \<in> set (default_cudagraph_capture_sizes seqs tokens) \<Longrightarrow> c \<le> m"
proof -
  note eq = default_sizes_eq [OF assms]
  show "sorted (default_cudagraph_capture_sizes seqs tokens)" by (simp add: eq)
  show "c \<in> set (capture_base m) \<Longrightarrow> c \<in> set (default_cudagraph_capture_sizes seqs tokens)"
    by (simp add: eq)
  have le: "c \<in> set (capture_base m) \<Longrightarrow> c \<le> m" for c by (simp only: capture_base_def set_filter mem_Collect_eq)
  show "c \<in> set (default_cudagraph_capture_sizes seqs tokens) \<Longrightarrow> c \<le> m"
    using le by (auto simp: eq split: if_splits)
  have "m \<in> set (capture_base m)" if "capture_base m \<noteq> []" "\<not> List.last (capture_base m) < m"
    using that le [of "List.last (capture_base m)"] last_in_set [of "capture_base m"] by simp
  then show "m \<in> set (default_cudagraph_capture_sizes seqs tokens)" by (simp add: eq)
qed

lemma capture_base_small:
  assumes "1 \<le> k" and "k < 32" and "8 * k \<le> m"
  shows "8 * k \<in> set (capture_base m)"
proof -
  have "k \<in> set [1..<32]" using assms unfolding set_upt by simp
  then have "8 * k \<in> set (map (\<lambda>k. 8 * k) [1..<32])" unfolding set_map by (rule imageI)
  with assms(3) show ?thesis
    unfolding capture_base_def set_filter set_append mem_Collect_eq Un_iff by blast
qed

lemma capture_base_near:
  assumes "1 \<le> b" and "b \<le> m" and "m \<le> 512"
  shows "m < b + (if b \<le> 256 then 8 else 16) \<or>
    (\<exists>c \<in> set (capture_base m). b \<le> c \<and> c < b + (if b \<le> 256 then 8 else 16))"
proof (cases "m < b + (if b \<le> 256 then 8 else 16)")
  case False
  show ?thesis
  proof (cases "b \<le> 248")
    case True
    let ?k = "(b + 7) div 8"
    have "b \<le> 8 * ?k" "8 * ?k < b + 8" "1 \<le> ?k" "?k < 32" using True assms(1) by linarith+
    moreover from this have "8 * ?k \<in> set (capture_base m)"
      using False True by (intro capture_base_small) auto
    ultimately show ?thesis using True by auto
  next
    case big: False
    let ?k = "(b - 256 + 15) div 16"
    have k: "b \<le> 256 + 16 * ?k" "256 + 16 * ?k < b + (if b \<le> 256 then 8 else 16)"
      using big by (cases "b \<le> 256"; simp)+
    then have le: "256 + 16 * ?k \<le> m" using False by linarith
    then have "?k \<le> (m - 256) div 16" by linarith
    then have "?k \<in> set [0..<(if 256 \<le> m then (m - 256) div 16 + 1 else 0)]"
      using le by (simp del: upt_Suc)
    then have "256 + 16 * ?k \<in> set (map (\<lambda>k. 256 + 16 * k) [0..<(if 256 \<le> m then (m - 256) div 16 + 1 else 0)])"
      unfolding set_map by (rule imageI)
    with le have "256 + 16 * ?k \<in> set (capture_base m)"
      unfolding capture_base_def set_filter set_append mem_Collect_eq Un_iff by blast
    then show ?thesis using k by blast
  qed
qed simp

text \<open>
  The default CUDA graph sizes cover every decode batch tightly. Under a validated
  configuration each batch of at most 512 requests, up to \<^verbatim>\<open>max_num_seqs\<close>, has a padded size
  among them; it never exceeds \<^verbatim>\<open>max_num_seqs\<close>, and it wastes fewer than 8 rows for batches of
  up to 256 and fewer than 16 beyond.
\<close>

theorem default_sizes_pad_tightly:
  assumes "vkwr_post_init c = Inr c'"
    and "cc_cudagraph_capture_size (vc_compilation c) = None" and "\<not> wc_enforce_eager (vc_worker c)"
    and "cc_cudagraph_mode (vc_compilation c) \<noteq> ''none''"
    and "1 \<le> b" and "b \<le> 512" and "int b \<le> max_num_seqs (vc_scheduler c)"
  shows "\<exists>sizes p. cc_cudagraph_capture_size (vc_compilation c') = Some (map int sizes) \<and>
    dict_get (compute_bs_to_padded sizes (nat (max_num_seqs (vc_scheduler c')))) b = Some p \<and>
    b \<le> p \<and> int p \<le> max_num_seqs (vc_scheduler c') \<and> p < b + (if b \<le> 256 then 8 else 16)"
proof -
  let ?seqs = "max_num_seqs (vc_scheduler c)" and ?toks = "max_num_batched_tokens (vc_scheduler c)"
  let ?sizes = "default_cudagraph_capture_sizes ?seqs ?toks"
  define m where "m = nat (min ?seqs 512)"
  from assms(1-4) have c': "c' = c\<lparr>vc_compilation := (vc_compilation c)\<lparr>cc_cudagraph_capture_size :=
      Some (map int ?sizes)\<rparr>\<rparr>" and le: "?seqs \<le> ?toks"
    by (auto simp: vkwr_post_init_def split: if_split_asm)
  have s1: "1 \<le> ?seqs" using assms(5,7) by linarith
  have bm: "b \<le> m" "m \<le> 512" "int m \<le> ?seqs" using assms(5-7) s1 by (auto simp: m_def)
  note sizes = default_sizes [OF s1 le m_def]
  have near: "\<exists>c \<in> set ?sizes. b \<le> c \<and> c < b + (if b \<le> 256 then 8 else 16)"
    using capture_base_near [OF assms(5) bm(1,2)] sizes(2,3) bm(1) by blast
  then obtain c0 where c0: "c0 \<in> set ?sizes" "b \<le> c0" "c0 < b + (if b \<le> 256 then 8 else 16)" by blast
  then obtain p where p: "padded_size ?sizes b = Some p"
    unfolding padded_size_def by (cases "find (\<lambda>cs. b \<le> cs) ?sizes") (auto simp: find_None_iff)
  note least = padded_size_least [OF sizes(1) p]
  have "dict_get (compute_bs_to_padded ?sizes (nat ?seqs)) b = Some p"
    using p assms(5,7) by (simp add: compute_bs_to_padded_get)
  moreover have "p < b + (if b \<le> 256 then 8 else 16)" using least(3) [OF c0(1,2)] c0(3) by linarith
  moreover have "int p \<le> ?seqs" using sizes(4) [OF least(2)] bm(3) by linarith
  ultimately show ?thesis using least(1) by (intro exI [of _ ?sizes] exI [of _ p]) (simp add: c')
qed

definition demo_engine_args :: engine_args where
  "demo_engine_args = (engine_args_defaults ''/models/rwkv7/g1.pth'')\<lparr>ea_max_num_seqs := 70\<rparr>"

theorem default_sizes_pad_tightly_witness:
  "\<exists>c sizes p. create_engine_config demo_engine_args = Inr c \<and>
     mc_tokenizer (vc_model c) = Some ''/models/rwkv7'' \<and>
     cc_cudagraph_capture_size (vc_compilation c) = Some (map int sizes) \<and>
     dict_get (compute_bs_to_padded sizes 70) 65 = Some p \<and> 65 \<le> p \<and> p \<le> 70"
proof -
  define c0 where "c0 = \<lparr>vc_model = \<lparr>mc_model = ''/models/rwkv7/g1.pth'', mc_tokenizer = Some ''/models/rwkv7'',
      mc_skip_tokenizer_init = False, mc_trust_remote_code = False, mc_dtype = ''float16'',
      mc_load_format = ''auto'', mc_seed = 42, mc_max_model_len = None\<rparr>,
    vc_scheduler = scheduler_config_defaults\<lparr>max_num_seqs := 70\<rparr>, vc_worker = worker_config_defaults,
    vc_parallel = parallel_config_defaults,
    vc_compilation = \<lparr>cc_cudagraph_capture_size = None, cc_cudagraph_mode = ''full'',
      cc_torch_compile_mode = None\<rparr>, vc_state = state_config_defaults\<rparr>"
  have "path_parent ''/models/rwkv7/g1.pth'' = ''/models/rwkv7''" by code_simp
  then have run: "create_engine_config demo_engine_args = vkwr_post_init c0"
    by (simp add: create_engine_config_def demo_engine_args_def engine_args_defaults_def c0_def
        parallel_post_init_def parallel_config_defaults_def scheduler_config_defaults_def
        worker_config_defaults_def)
  have tok: "mc_tokenizer (vc_model c) = Some ''/models/rwkv7'' \<and> max_num_seqs (vc_scheduler c) = 70"
    if "vkwr_post_init c0 = Inr c" for c
    using that by (auto simp: vkwr_post_init_def c0_def scheduler_config_defaults_def split: if_split_asm)
  obtain c where c: "vkwr_post_init c0 = Inr c"
    by (auto simp: vkwr_post_init_def c0_def scheduler_config_defaults_def worker_config_defaults_def)
  have h: "cc_cudagraph_capture_size (vc_compilation c0) = None" "\<not> wc_enforce_eager (vc_worker c0)"
    "cc_cudagraph_mode (vc_compilation c0) \<noteq> ''none''" "1 \<le> (65 :: nat)" "(65 :: nat) \<le> 512"
    "int 65 \<le> max_num_seqs (vc_scheduler c0)"
    by (simp_all add: c0_def worker_config_defaults_def)
  from default_sizes_pad_tightly [OF c h] tok [OF c] c run show ?thesis by auto
qed

end
