(* ===== verification/Executor.thy ===== *)
theory Executor
  imports Model_Runner Engine_Config
begin

text \<open>
  \<^verbatim>\<open>vkwr/worker/gpu_worker.py\<close> and \<^verbatim>\<open>vkwr/executor/\<close>: the layers between the engine core
  and the model runner.

  The parameters of the model runner are bundled in the record \<open>net\<close>; \<open>n_capture\<close> is the graph
  CUDA records for a shape. A worker or runner that is not there yet is \<open>None\<close>, and every call
  checks for it. The future that \<^verbatim>\<open>execute_model\<close> returns when it must not block is already
  completed, so it is its value. The Ray executor cannot even be constructed, because it leaves
  the abstract method \<^verbatim>\<open>condense\<close> undefined; the multi-process one raises in every operation.
  \<^verbatim>\<open>UniprocExecutor.condense\<close> does nothing.
\<close>

section \<open>The worker\<close>

record ('st, 'g, 'r, 'lg) net =
  n_fwd :: "token list \<Rightarrow> 'st \<Rightarrow> 'st \<times> 'lg"
  n_zero :: 'st
  n_argmax :: "'lg \<Rightarrow> token"
  n_draw :: "'r \<Rightarrow> 'lg list \<Rightarrow> real \<Rightarrow> int \<Rightarrow> real \<Rightarrow> token list \<times> 'r"
  n_setup :: "nat \<Rightarrow> 'r"
  n_capture :: "shape \<Rightarrow> 'g"

record ('st, 'g, 'r) gpu_worker =
  gw_runner :: "('st, 'g, 'r) runner option"

definition gpu_worker_init :: "('st, 'g, 'r) gpu_worker" where
  "gpu_worker_init = \<lparr>gw_runner = None\<rparr>"

text \<open>The graph manager and the state cache that \<^verbatim>\<open>load_model\<close> builds from the configuration\<close>

definition runner_graphs :: "vkwr_config \<Rightarrow> 'g graph_manager option" where
  "runner_graphs cfg =
     (if cc_cudagraph_mode (vc_compilation cfg) \<noteq> ''none''
      then Some (graph_manager_init
             (case cc_cudagraph_capture_size (vc_compilation cfg) of
                Some (b # bs) \<Rightarrow> Some (map (\<lambda>b. decode_shape (nat b)) (b # bs))
              | _ \<Rightarrow> None)
             (nat (max_num_seqs (vc_scheduler cfg))))
      else None)"

definition runner_cache :: "vkwr_config \<Rightarrow> 'st state_cache" where
  "runner_cache cfg = state_cache_init (stc_state_cache_max_cpu_entries (vc_state cfg))
     (stc_max_checkpoints_per_req (vc_state cfg)) None"

definition load_runner :: "'st \<Rightarrow> vkwr_config \<Rightarrow> ('st, 'g, 'r) runner" where
  "load_runner zero cfg =
     runner_load zero (nat (max_num_batched_tokens (vc_scheduler cfg))) (runner_graphs cfg)
       (stc_checkpoint_interval (vc_state cfg)) (runner_cache cfg)"

text \<open>A runner that is not loaded: every buffer is absent, and only \<open>rn_loaded\<close> is read.\<close>

definition new_runner :: "'st \<Rightarrow> vkwr_config \<Rightarrow> ('st, 'g, 'r) runner" where
  "new_runner zero cfg = (load_runner zero cfg)\<lparr>rn_loaded := False, rn_graphs := None\<rparr>"

definition gpu_init_device :: "'st \<Rightarrow> vkwr_config \<Rightarrow> ('st, 'g, 'r) gpu_worker" where
  "gpu_init_device zero cfg = \<lparr>gw_runner = Some (new_runner zero cfg)\<rparr>"

definition gpu_load_model ::
  "'st \<Rightarrow> vkwr_config \<Rightarrow> ('st, 'g, 'r) gpu_worker \<Rightarrow> ('st, 'g, 'r) gpu_worker res" where
  "gpu_load_model zero cfg w =
     (case gw_runner w of
        None \<Rightarrow> Inl (RuntimeError ''Device not initialized. Call init_device() first.'')
      | Some _ \<Rightarrow> Inr \<lparr>gw_runner = Some (load_runner zero cfg)\<rparr>)"

definition gpu_execute_model ::
  "('st, 'g, 'r, 'lg) net \<Rightarrow> sched_output \<Rightarrow> slot_manager option \<Rightarrow> ('st, 'g, 'r) gpu_worker
     \<Rightarrow> ('lg list option \<times> slot_manager option \<times> ('st, 'g, 'r) gpu_worker) res" where
  "gpu_execute_model net out sm w =
     (case gw_runner w of
        None \<Rightarrow> Inl (RuntimeError ''ModelRunner not initialized. Call init_device() first.'')
      | Some rn \<Rightarrow> bindE (execute_model (n_fwd net) (n_zero net) out sm rn) (\<lambda>(lgs, sm', rn').
                     Inr (lgs, sm', \<lparr>gw_runner = Some rn'\<rparr>)))"

definition gpu_sample_tokens ::
  "('st, 'g, 'r, 'lg) net \<Rightarrow> 'lg list option \<Rightarrow> sched_output \<Rightarrow> ('st, 'g, 'r) gpu_worker
     \<Rightarrow> (model_runner_output \<times> ('st, 'g, 'r) gpu_worker) res" where
  "gpu_sample_tokens net lgs out w =
     (case gw_runner w of
        None \<Rightarrow> Inl (RuntimeError ''ModelRunner not initialized. Call init_device() first.'')
      | Some rn \<Rightarrow> bindE (sample_tokens (n_argmax net) (n_draw net) (n_setup net) lgs out rn) (\<lambda>(mo, rn').
                     Inr (mo, \<lparr>gw_runner = Some rn'\<rparr>)))"

text \<open>
  Capturing a shape first runs the model once, eagerly, on the slots \<open>0 \<dots> B - 1\<close> with the token 1
  everywhere, so it leaves traces in the state buffer. The static buffers have \<^verbatim>\<open>max_num_seqs\<close>
  cells; a larger shape does not fit.
\<close>

definition capture_shape ::
  "('st, 'g, 'r, 'lg) net \<Rightarrow> int \<Rightarrow> ('st, 'g, 'r) runner \<Rightarrow> shape \<Rightarrow> ('st, 'g, 'r) runner res" where
  "capture_shape net max_seqs rn sh =
     (case rn_graphs rn of None \<Rightarrow> Inl AttributeError
      | Some gm \<Rightarrow>
          if int (length sh) > max_seqs then Inl (RuntimeError ''size of tensor must match'')
          else let segs = segments (replicate (sum_list sh) 1) (prefix_sums 0 sh)
               in case forward_batch (n_fwd net) (zip segs [0..<length sh]) (rn_state rn) of
                    (_, st') \<Rightarrow> Inr (rn\<lparr>rn_state := st',
                                       rn_graphs := Some (Cuda_Graph.capture_for_shape sh (n_capture net sh) gm)\<rparr>))"

text \<open>The warm-up proper runs on a state of its own and leaves nothing behind.\<close>

definition runner_warmup :: "('st, 'g, 'r) runner \<Rightarrow> unit res" where
  "runner_warmup rn =
     (if rn_loaded rn then Inr () else Inl (RuntimeError ''Model not loaded. Call load_model() first.''))"

definition gpu_compile_or_warm_up ::
  "('st, 'g, 'r, 'lg) net \<Rightarrow> vkwr_config \<Rightarrow> ('st, 'g, 'r) gpu_worker \<Rightarrow> ('st, 'g, 'r) gpu_worker res" where
  "gpu_compile_or_warm_up net cfg w =
     (case gw_runner w of
        None \<Rightarrow> Inl (RuntimeError ''ModelRunner not initialized. Call init_device() first.'')
      | Some rn \<Rightarrow>
          bindE (runner_warmup rn) (\<lambda>_.
            case rn_graphs rn of None \<Rightarrow> Inr w
            | Some gm \<Rightarrow>
                bindE (foldE (capture_shape net (max_num_seqs (vc_scheduler cfg))) rn
                         (rev (capture_shapes gm))) (\<lambda>rn'. Inr \<lparr>gw_runner = Some rn'\<rparr>)))"

definition gpu_shutdown :: "('st, 'g, 'r) gpu_worker \<Rightarrow> ('st, 'g, 'r) gpu_worker" where
  "gpu_shutdown w = \<lparr>gw_runner = None\<rparr>"

section \<open>The executors\<close>

datatype executor_class = RayExecutor | MultiprocExecutor | UniprocExecutor

definition executor_get_class :: "vkwr_config \<Rightarrow> executor_class" where
  "executor_get_class cfg =
     (let backend = pc_distributed_executor_backend (vc_parallel cfg)
      in if backend = Some ''ray'' then RayExecutor
         else if backend = Some ''mp'' then MultiprocExecutor
         else UniprocExecutor)"

datatype ('st, 'g, 'r) executor = MpExec | UniExec "('st, 'g, 'r) gpu_worker option"

fun executor_create :: "executor_class \<Rightarrow> ('st, 'g, 'r) executor res" where
  "executor_create RayExecutor =
     Inl (TypeError ''Can't instantiate abstract class RayExecutor with abstract method condense'')"
| "executor_create MultiprocExecutor = Inr MpExec"
| "executor_create UniprocExecutor = Inr (UniExec None)"

definition not_initialized :: "py_error" where
  "not_initialized = RuntimeError ''Executor not initialized. Call initialize() first.''"

fun executor_initialize :: "'st \<Rightarrow> vkwr_config \<Rightarrow> ('st, 'g, 'r) executor \<Rightarrow> ('st, 'g, 'r) executor res" where
  "executor_initialize zero cfg MpExec = Inl NotImplementedError"
| "executor_initialize zero cfg (UniExec w) = Inr (UniExec (Some (gpu_init_device zero cfg)))"

fun executor_load_model :: "'st \<Rightarrow> vkwr_config \<Rightarrow> ('st, 'g, 'r) executor \<Rightarrow> ('st, 'g, 'r) executor res" where
  "executor_load_model zero cfg MpExec = Inl NotImplementedError"
| "executor_load_model zero cfg (UniExec None) = Inl not_initialized"
| "executor_load_model zero cfg (UniExec (Some w)) =
     bindE (gpu_load_model zero cfg w) (\<lambda>w'. Inr (UniExec (Some w')))"

fun executor_execute_model ::
  "('st, 'g, 'r, 'lg) net \<Rightarrow> sched_output \<Rightarrow> slot_manager option \<Rightarrow> ('st, 'g, 'r) executor
     \<Rightarrow> ('lg list option \<times> slot_manager option \<times> ('st, 'g, 'r) executor) res" where
  "executor_execute_model net out sm MpExec = Inl NotImplementedError"
| "executor_execute_model net out sm (UniExec None) = Inl not_initialized"
| "executor_execute_model net out sm (UniExec (Some w)) =
     bindE (gpu_execute_model net out sm w) (\<lambda>(lgs, sm', w'). Inr (lgs, sm', UniExec (Some w')))"

fun executor_sample_tokens ::
  "('st, 'g, 'r, 'lg) net \<Rightarrow> 'lg list option \<Rightarrow> sched_output \<Rightarrow> ('st, 'g, 'r) executor
     \<Rightarrow> (model_runner_output \<times> ('st, 'g, 'r) executor) res" where
  "executor_sample_tokens net lgs out MpExec = Inl NotImplementedError"
| "executor_sample_tokens net lgs out (UniExec None) = Inl not_initialized"
| "executor_sample_tokens net lgs out (UniExec (Some w)) =
     bindE (gpu_sample_tokens net lgs out w) (\<lambda>(mo, w'). Inr (mo, UniExec (Some w')))"

fun executor_compile_or_warm_up ::
  "('st, 'g, 'r, 'lg) net \<Rightarrow> vkwr_config \<Rightarrow> ('st, 'g, 'r) executor \<Rightarrow> ('st, 'g, 'r) executor res" where
  "executor_compile_or_warm_up net cfg MpExec = Inl NotImplementedError"
| "executor_compile_or_warm_up net cfg (UniExec None) = Inl not_initialized"
| "executor_compile_or_warm_up net cfg (UniExec (Some w)) =
     bindE (gpu_compile_or_warm_up net cfg w) (\<lambda>w'. Inr (UniExec (Some w')))"

fun executor_condense :: "(nat \<times> nat) list \<Rightarrow> ('st, 'g, 'r) executor \<Rightarrow> ('st, 'g, 'r) executor res" where
  "executor_condense moves MpExec = Inl NotImplementedError"
| "executor_condense moves (UniExec w) = Inr (UniExec w)"

text \<open>The multi-process executor inherits the empty \<^verbatim>\<open>shutdown\<close>.\<close>

fun executor_shutdown :: "('st, 'g, 'r) executor \<Rightarrow> ('st, 'g, 'r) executor" where
  "executor_shutdown MpExec = MpExec"
| "executor_shutdown (UniExec w) = UniExec None"

section \<open>Starting up\<close>

definition executor_start ::
  "('st, 'g, 'r, 'lg) net \<Rightarrow> vkwr_config \<Rightarrow> ('st, 'g, 'r) executor \<Rightarrow> ('st, 'g, 'r) executor res" where
  "executor_start net cfg ex =
     bindE (executor_initialize (n_zero net) cfg ex) (\<lambda>ex1.
     bindE (executor_load_model (n_zero net) cfg ex1) (\<lambda>ex2.
       executor_compile_or_warm_up net cfg ex2))"

definition started_with :: "('st, 'g, 'r) executor \<Rightarrow> ('st, 'g, 'r) runner \<Rightarrow> bool" where
  "started_with ex rn \<longleftrightarrow> ex = UniExec (Some \<lparr>gw_runner = Some rn\<rparr>) \<and> rn_loaded rn"

lemma capture_shape_inv:
  assumes "capture_shape net m rn sh = Inr rn'"
  shows "rn_loaded rn' = rn_loaded rn \<and> rn_last rn' = rn_last rn \<and> rn_cache rn' = rn_cache rn \<and>
    int (length sh) \<le> m"
  using assms by (auto simp: capture_shape_def Let_def split: option.splits if_splits prod.splits)

lemma capture_shape_ok:
  assumes "rn_graphs rn = Some gm" and "int (length sh) \<le> m"
  shows "\<exists>rn'. capture_shape net m rn sh = Inr rn' \<and> rn_loaded rn' = rn_loaded rn \<and>
    rn_graphs rn' = Some (Cuda_Graph.capture_for_shape sh (n_capture net sh) gm)"
  using assms by (auto simp: capture_shape_def Let_def split: prod.split)

lemma capture_all_ok:
  assumes "rn_graphs rn = Some gm" and "\<forall>sh \<in> set shs. int (length sh) \<le> m"
  shows "\<exists>rn'. foldE (capture_shape net m) rn shs = Inr rn' \<and> rn_loaded rn' = rn_loaded rn \<and>
    rn_graphs rn' = Some (fold (\<lambda>sh. Cuda_Graph.capture_for_shape sh (n_capture net sh)) shs gm)"
  using assms
proof (induction shs arbitrary: rn gm)
  case (Cons sh shs)
  from capture_shape_ok [OF Cons.prems(1)] Cons.prems(2) obtain rn1 where
    one: "capture_shape net m rn sh = Inr rn1" "rn_loaded rn1 = rn_loaded rn"
      "rn_graphs rn1 = Some (Cuda_Graph.capture_for_shape sh (n_capture net sh) gm)"
    by (metis list.set_intros(1))
  from Cons.IH [OF one(3)] Cons.prems(2) one(1,2) show ?case by auto
qed simp

lemma capture_all_fails:
  assumes "sh \<in> set shs" and "int (length sh) > m" and "rn_graphs rn \<noteq> None"
  shows "foldE (capture_shape net m) rn shs = Inl (RuntimeError ''size of tensor must match'')"
  using assms
proof (induction shs arbitrary: rn)
  case (Cons a shs)
  obtain gm where gm: "rn_graphs rn = Some gm" using Cons.prems(3) by blast
  show ?case
  proof (cases "int (length a) > m")
    case True
    then show ?thesis using gm by (simp add: capture_shape_def)
  next
    case False
    then obtain rn1 where one: "capture_shape net m rn a = Inr rn1" "rn_graphs rn1 \<noteq> None"
      using capture_shape_ok [OF gm, of a m net] by auto
    have "sh \<in> set shs" using False Cons.prems(1,2) by auto
    from Cons.IH [OF this Cons.prems(2) one(2)] one(1) show ?thesis by simp
  qed
qed simp

lemma executor_start_uniproc:
  fixes net :: "('st, 'g, 'r, 'lg) net"
  shows "executor_start net cfg (UniExec w) =
     (case (runner_graphs cfg :: 'g graph_manager option) of
        None \<Rightarrow> Inr (UniExec (Some \<lparr>gw_runner = Some (load_runner (n_zero net) cfg)\<rparr>))
      | Some gm \<Rightarrow>
          bindE (foldE (capture_shape net (max_num_seqs (vc_scheduler cfg))) (load_runner (n_zero net) cfg)
                   (rev (capture_shapes gm)))
            (\<lambda>rn'. Inr (UniExec (Some \<lparr>gw_runner = Some rn'\<rparr>))))"
  by (simp add: executor_start_def gpu_init_device_def gpu_load_model_def gpu_compile_or_warm_up_def
      runner_warmup_def load_runner_def runner_load_def split: option.split)
     (simp add: bindE_assoc split: option.split)

text \<open>
  \<^verbatim>\<open>enforce_eager\<close> does not avoid CUDA graphs. When it is set and no sizes are given, the
  configuration has none, so the runner falls back to capturing the sizes 1 to 64: with fewer
  than 64 sequences that capture raises, and with at least 64 the engine starts with all 64
  graphs in place.
\<close>

theorem enforce_eager_still_captures:
  fixes net :: "('st, 'g, 'r, 'lg) net"
  assumes "wc_enforce_eager (vc_worker c)" and "cc_cudagraph_capture_size (vc_compilation c) = None"
    and "cc_cudagraph_mode (vc_compilation c) \<noteq> ''none''" and "vkwr_post_init c = Inr cfg"
  shows "if max_num_seqs (vc_scheduler cfg) < 64
    then executor_start net cfg (UniExec None) = Inl (RuntimeError ''size of tensor must match'')
    else \<exists>rn gm. executor_start net cfg (UniExec None) = Inr (UniExec (Some \<lparr>gw_runner = Some rn\<rparr>)) \<and>
      rn_graphs rn = Some gm \<and> (\<forall>b \<in> {1..64}. get_graph (decode_shape b) gm \<noteq> None)"
proof -
  have cfg: "cfg = c" using assms by (simp add: vkwr_post_init_def split: if_split_asm)
  let ?shs = "map decode_shape [1..<65]" and ?m = "max_num_seqs (vc_scheduler cfg)"
  let ?gm = "graph_manager_init None (nat ?m) :: 'g graph_manager"
    and ?rn = "load_runner (n_zero net) cfg :: ('st, 'g, 'r) runner"
  have gr: "runner_graphs cfg = Some ?gm" using assms(2,3) cfg by (simp add: runner_graphs_def)
  then have rn: "rn_graphs ?rn = Some ?gm" by (simp add: load_runner_def runner_load_def)
  have shs: "capture_shapes ?gm = ?shs" by (simp add: graph_manager_init_def Let_def)
  have start: "executor_start net cfg (UniExec None) =
      bindE (foldE (capture_shape net ?m) ?rn (rev ?shs)) (\<lambda>rn'. Inr (UniExec (Some \<lparr>gw_runner = Some rn'\<rparr>)))"
    unfolding executor_start_uniproc gr option.case shs ..
  show ?thesis
  proof (cases "?m < 64")
    case True
    have "decode_shape 64 \<in> set (rev ?shs)" by simp
    from capture_all_fails [OF this, of ?m ?rn net] True rn show ?thesis
      by (simp add: start decode_shape_def)
  next
    case False
    have "\<forall>sh \<in> set (rev ?shs). int (length sh) \<le> ?m" using False by (auto simp: decode_shape_def)
    from capture_all_ok [OF rn this, of net] obtain rn' where
      run: "foldE (capture_shape net ?m) ?rn (rev ?shs) = Inr rn'"
        "rn_graphs rn' = Some (fold (\<lambda>sh. Cuda_Graph.capture_for_shape sh (n_capture net sh)) (rev ?shs) ?gm)"
      by blast
    have "get_graph sh (fold (\<lambda>sh. Cuda_Graph.capture_for_shape sh (n_capture net sh)) ss gm) \<noteq> None"
      if "sh \<in> set ss \<or> get_graph sh gm \<noteq> None" for sh ss gm
      using that by (induction ss arbitrary: gm) (auto simp: get_graph_def Cuda_Graph.capture_for_shape_def)
    then have "\<forall>b \<in> {1..64}. get_graph (decode_shape b)
        (fold (\<lambda>sh. Cuda_Graph.capture_for_shape sh (n_capture net sh)) (rev ?shs) ?gm) \<noteq> None"
      by (simp del: upt_Suc)
    with False run show ?thesis by (auto simp: start)
  qed
qed

definition demo_net :: "(token list, string, unit, int) net" where
  "demo_net = \<lparr>n_fwd = demo_fwd, n_zero = [], n_argmax = (\<lambda>lg. lg), n_draw = (\<lambda>r ls t k p. (map (\<lambda>_. 0) ls, r)),
     n_setup = (\<lambda>_. ()), n_capture = (\<lambda>sh. ''graph'')\<rparr>"

definition demo_eager_config :: vkwr_config where
  "demo_eager_config =
     \<lparr>vc_model = \<lparr>mc_model = ''m.pth'', mc_tokenizer = None, mc_skip_tokenizer_init = False,
        mc_trust_remote_code = False, mc_dtype = ''float16'', mc_load_format = ''auto'', mc_seed = 42,
        mc_max_model_len = None\<rparr>,
      vc_scheduler = scheduler_config_defaults\<lparr>max_num_seqs := 32\<rparr>,
      vc_worker = worker_config_defaults\<lparr>wc_enforce_eager := True\<rparr>,
      vc_parallel = parallel_config_defaults,
      vc_compilation = \<lparr>cc_cudagraph_capture_size = None, cc_cudagraph_mode = ''full'',
        cc_torch_compile_mode = None\<rparr>,
      vc_state = state_config_defaults\<rparr>"

theorem enforce_eager_still_captures_witness:
  "executor_start demo_net demo_eager_config (UniExec None) =
     Inl (RuntimeError ''size of tensor must match'')"
proof -
  have h: "wc_enforce_eager (vc_worker demo_eager_config)"
    "cc_cudagraph_capture_size (vc_compilation demo_eager_config) = None"
    "cc_cudagraph_mode (vc_compilation demo_eager_config) \<noteq> ''none''"
    by (simp_all add: demo_eager_config_def)
  have v: "vkwr_post_init demo_eager_config = Inr demo_eager_config"
    by (simp add: vkwr_post_init_def demo_eager_config_def scheduler_config_defaults_def)
  from enforce_eager_still_captures [OF h v, of demo_net] show ?thesis
    by (simp add: demo_eager_config_def scheduler_config_defaults_def)
qed

end
