(* ===== verification/Engine_Core.thy ===== *)
theory Engine_Core
  imports Scheduler_Abort Executor
begin

text \<open>
  \<^verbatim>\<open>vkwr/engine/core.py\<close> and the request type of \<^verbatim>\<open>core_request.py\<close>: the schedule, execute,
  update loop.

  The slot manager, which Python shares between scheduler and runner, lives in the scheduler
  state and is threaded through the model runner. The batch queue holds the completed results of
  forward passes with their scheduler outputs, newest first, as \<^verbatim>\<open>appendleft\<close> and \<^verbatim>\<open>pop\<close> use
  it. The aborts queue is a list of identifier lists; a single string that the code also accepts
  is the list with that one. The first component of a step's result is \<open>None\<close> for Python's None.
  Time stamps are left out; \<open>now\<close> is \<^verbatim>\<open>time.monotonic()\<close> where it orders requests.

  The lemmas show that a step preserves the engine's invariant, aborts included, that the
  asynchronous step does exactly what the synchronous one does, and that the state of a finished
  request is never saved.
\<close>

section \<open>State\<close>

record core_request =
  cr_request_id :: rid
  cr_prompt_token_ids :: "token list option"
  cr_sampling_params :: "sampling_params option"
  cr_arrival_time :: real
  cr_priority :: int
  cr_current_wave :: int

record ('st, 'g, 'r, 'lg) engine_core =
  ec_config :: vkwr_config
  ec_sched :: sched
  ec_executor :: "('st, 'g, 'r) executor"
  ec_initialized :: bool
  ec_batch_queue :: "('lg list option \<times> sched_output) list option"
  ec_batch_queue_size :: int
  ec_aborts :: "rid list list"

type_synonym step_outputs = "(int, engine_core_outputs) dict option"

definition core_create_scheduler :: "vkwr_config \<Rightarrow> slot_manager \<Rightarrow> sched res" where
  "core_create_scheduler cfg sm =
     scheduler_init (vc_scheduler cfg) (mc_max_model_len (vc_model cfg)) (Some sm)"

definition core_init :: "vkwr_config \<Rightarrow> ('st, 'g, 'r, 'lg) engine_core res" where
  "core_init cfg =
     (let sm = slot_manager_init (max_num_seqs (vc_scheduler cfg));
          async = enable_async_scheduling (vc_scheduler cfg);
          size = batch_queue_size (vc_scheduler cfg)
      in bindE (executor_create (executor_get_class cfg)) (\<lambda>ex.
         bindE (core_create_scheduler cfg sm) (\<lambda>s.
           if async \<and> size < 0 then Inl (ValueError ''maxlen must be non-negative'')
           else Inr \<lparr>ec_config = cfg, ec_sched = s, ec_executor = ex, ec_initialized = False,
                     ec_batch_queue = (if async then Some [] else None),
                     ec_batch_queue_size = (if async then size else 0), ec_aborts = []\<rparr>)))"

definition core_initialize ::
  "('st, 'g, 'r, 'lg) net \<Rightarrow> ('st, 'g, 'r, 'lg) engine_core \<Rightarrow> ('st, 'g, 'r, 'lg) engine_core res" where
  "core_initialize net e =
     (if ec_initialized e then Inr e
      else bindE (executor_initialize (n_zero net) (ec_config e) (ec_executor e)) (\<lambda>ex1.
           bindE (executor_load_model (n_zero net) (ec_config e) ex1) (\<lambda>ex2.
           bindE (executor_compile_or_warm_up net (ec_config e) ex2) (\<lambda>ex3.
             Inr (e\<lparr>ec_executor := ex3, ec_initialized := True\<rparr>)))))"

section \<open>Requests in and out\<close>

definition preprocess_add_request :: "real \<Rightarrow> core_request \<Rightarrow> (vreq \<times> int) res" where
  "preprocess_add_request now q =
     (case cr_sampling_params q of
        None \<Rightarrow> Inl AssertionError
      | Some sp \<Rightarrow>
          Inr (new_vreq now (cr_request_id q) (PromptText [])
                 (case cr_prompt_token_ids q of None \<Rightarrow> [] | Some ts \<Rightarrow> ts) sp
                 (cr_arrival_time q) (cr_priority q), cr_current_wave q))"

definition not_ready :: py_error where
  "not_ready = RuntimeError ''EngineCore not initialized. Call initialize() first.''"

definition core_add_request ::
  "vreq \<Rightarrow> ('st, 'g, 'r, 'lg) engine_core \<Rightarrow> ('st, 'g, 'r, 'lg) engine_core res" where
  "core_add_request r e =
     (if \<not> ec_initialized e then Inl not_ready
      else Inr (e\<lparr>ec_sched := sched_add_request r (ec_sched e)\<rparr>))"

text \<open>The identifiers are made a set, hence \<open>remdups\<close>.\<close>

definition abort_output :: "rid \<Rightarrow> engine_core_output" where
  "abort_output i =
     \<lparr>eco_request_id = i, eco_new_token_ids = [], eco_new_logprobs = None,
      eco_finish_reason = Some ''abort'', eco_stop_reason = None\<rparr>"

definition core_abort_requests ::
  "rid list \<Rightarrow> ('st, 'g, 'r, 'lg) engine_core
     \<Rightarrow> ((int, engine_core_outputs) dict \<times> ('st, 'g, 'r, 'lg) engine_core) res" where
  "core_abort_requests ids e =
     bindE (finish_requests (Some (remdups ids)) (ec_sched e)) (\<lambda>(finished, s').
       Inr (if finished = [] then [] else [(0, outputs_of (map abort_output finished))],
            e\<lparr>ec_sched := s'\<rparr>))"

definition core_abort_request ::
  "rid \<Rightarrow> ('st, 'g, 'r, 'lg) engine_core \<Rightarrow> ('st, 'g, 'r, 'lg) engine_core" where
  "core_abort_request i e = e\<lparr>ec_aborts := ec_aborts e @ [[i]]\<rparr>"

definition core_has_unfinished_requests :: "('st, 'g, 'r, 'lg) engine_core \<Rightarrow> bool" where
  "core_has_unfinished_requests e \<longleftrightarrow> has_requests (ec_sched e)"

definition core_shutdown ::
  "('st, 'g, 'r, 'lg) engine_core \<Rightarrow> ('st, 'g, 'r, 'lg) engine_core" where
  "core_shutdown e = e\<lparr>ec_executor := executor_shutdown (ec_executor e)\<rparr>"

section \<open>Parts of a step\<close>

definition owned_slots :: "rid list \<Rightarrow> sched \<Rightarrow> (rid \<times> nat) list res" where
  "owned_slots ids s =
     (case slot_manager_of s of None \<Rightarrow> Inl AttributeError
      | Some sm \<Rightarrow> Inr (concat (map (\<lambda>i. case dict_get (req_to_slot sm) i of
                      None \<Rightarrow> [] | Some t \<Rightarrow> [(i, t)]) ids)))"

definition process_aborts_queue ::
  "('st, 'g, 'r, 'lg) engine_core \<Rightarrow> ((rid \<times> nat) list \<times> ('st, 'g, 'r, 'lg) engine_core) res" where
  "process_aborts_queue e =
     (if ec_aborts e = [] then Inr ([], e)
      else let ids = concat (ec_aborts e)
           in bindE (core_abort_requests ids (e\<lparr>ec_aborts := []\<rparr>)) (\<lambda>(_, e1).
              bindE (owned_slots ids (ec_sched e1)) (\<lambda>freed. Inr (freed, e1))))"

definition core_batch_condense ::
  "(rid \<times> nat) list \<Rightarrow> ('st, 'g, 'r, 'lg) engine_core \<Rightarrow> ('st, 'g, 'r, 'lg) engine_core res" where
  "core_batch_condense freed e =
     (if freed = [] then Inr e
      else case slot_manager_of (ec_sched e) of None \<Rightarrow> Inl AttributeError
      | Some sm \<Rightarrow>
          bindE (batch_condense freed sm) (\<lambda>(moves, sm').
            let e1 = e\<lparr>ec_sched := (ec_sched e)\<lparr>slot_manager_of := Some sm'\<rparr>\<rparr>
            in if moves = [] then Inr e1
               else bindE (executor_condense moves (ec_executor e1)) (\<lambda>ex. Inr (e1\<lparr>ec_executor := ex\<rparr>))))"

text \<open>\<open>runner.state_cache\<close> is absent exactly while the runner is not loaded.\<close>

definition save_finished_one ::
  "sched_output \<Rightarrow> sched \<Rightarrow> ('st, 'g, 'r) runner \<Rightarrow> rid \<Rightarrow> ('st, 'g, 'r) runner res" where
  "save_finished_one out s rn i =
     (case dict_get (so_request_data out) i of
        None \<Rightarrow> Inr rn
      | Some rd \<Rightarrow>
          if find (\<lambda>r. request_id r = i) (running s) \<noteq> None
          then bindE (cache_save i (slice_state_from_slot (rd_slot_index rd) rn)
                        (rd_num_computed_tokens rd) (rn_cache rn)) (\<lambda>c. Inr (rn\<lparr>rn_cache := c\<rparr>))
          else Inr (rn\<lparr>rn_cache := cache_clear i (rn_cache rn)\<rparr>))"

definition save_finished_state ::
  "sched_output \<Rightarrow> ('st, 'g, 'r, 'lg) engine_core \<Rightarrow> ('st, 'g, 'r, 'lg) engine_core res" where
  "save_finished_state out e =
     (case ec_executor e of
        MpExec \<Rightarrow> Inl AttributeError
      | UniExec None \<Rightarrow> Inl AttributeError
      | UniExec (Some w) \<Rightarrow>
          (case gw_runner w of
             None \<Rightarrow> Inr e
           | Some rn \<Rightarrow>
               if \<not> rn_loaded rn then Inr e
               else bindE (foldE (save_finished_one out (ec_sched e)) rn (so_finished_req_ids out)) (\<lambda>rn'.
                      Inr (e\<lparr>ec_executor := UniExec (Some \<lparr>gw_runner = Some rn'\<rparr>)\<rparr>))))"

definition merge_outputs :: "(rid, engine_core_outputs) dict \<Rightarrow> engine_core_outputs" where
  "merge_outputs outs = outputs_of (concat (map (\<lambda>(_, eo). ecos_outputs eo) outs))"

text \<open>What both kinds of step do with a model output, fake or real.\<close>

definition core_update ::
  "sched_output \<Rightarrow> model_runner_output \<Rightarrow> ('st, 'g, 'r, 'lg) engine_core
     \<Rightarrow> (engine_core_outputs \<times> ('st, 'g, 'r, 'lg) engine_core) res" where
  "core_update out mo e =
     bindE (save_finished_state out e) (\<lambda>e1.
     bindE (process_aborts_queue e1) (\<lambda>(freed, e2).
       case update_from_output out mo (ec_sched e2) of (outs, out', s') \<Rightarrow>
         bindE (core_batch_condense (freed @ so_freed_slots out') (e2\<lparr>ec_sched := s'\<rparr>)) (\<lambda>e3.
           Inr (merge_outputs outs, e3))))"

definition fake_model_output :: model_runner_output where
  "fake_model_output = \<lparr>mro_sampled_token_ids = [], mro_sampled_logprobs = None\<rparr>"

definition core_execute ::
  "('st, 'g, 'r, 'lg) net \<Rightarrow> sched_output \<Rightarrow> ('st, 'g, 'r, 'lg) engine_core
     \<Rightarrow> ('lg list option \<times> ('st, 'g, 'r, 'lg) engine_core) res" where
  "core_execute net out e =
     bindE (executor_execute_model net out (slot_manager_of (ec_sched e)) (ec_executor e)) (\<lambda>(lgs, sm', ex).
       Inr (lgs, e\<lparr>ec_sched := (ec_sched e)\<lparr>slot_manager_of := sm'\<rparr>, ec_executor := ex\<rparr>))"

definition core_sample ::
  "('st, 'g, 'r, 'lg) net \<Rightarrow> 'lg list option \<Rightarrow> sched_output \<Rightarrow> ('st, 'g, 'r, 'lg) engine_core
     \<Rightarrow> (model_runner_output \<times> ('st, 'g, 'r, 'lg) engine_core) res" where
  "core_sample net lgs out e =
     bindE (executor_sample_tokens net lgs out (ec_executor e)) (\<lambda>(mo, ex). Inr (mo, e\<lparr>ec_executor := ex\<rparr>))"

definition handle_zero_tokens ::
  "sched_output \<Rightarrow> ('st, 'g, 'r, 'lg) engine_core
     \<Rightarrow> ((step_outputs \<times> bool) \<times> ('st, 'g, 'r, 'lg) engine_core) res" where
  "handle_zero_tokens out e =
     (if so_finished_req_ids out = [] then Inr ((Some [], False), e)
      else bindE (core_update out fake_model_output e) (\<lambda>(merged, e').
             Inr ((Some [(0, merged)], False), e')))"

section \<open>The two steps\<close>

definition core_step ::
  "('st, 'g, 'r, 'lg) net \<Rightarrow> ('st, 'g, 'r, 'lg) engine_core
     \<Rightarrow> ((step_outputs \<times> bool) \<times> ('st, 'g, 'r, 'lg) engine_core) res" where
  "core_step net e =
     (if \<not> ec_initialized e then Inl not_ready
      else if \<not> has_requests (ec_sched e) then Inr ((Some [], False), e)
      else bindE (schedule (ec_sched e)) (\<lambda>(out, s1).
        let e1 = e\<lparr>ec_sched := s1\<rparr> in
        if so_total_num_scheduled_tokens out = 0 then
          (if so_finished_req_ids out \<noteq> []
           then bindE (core_update out fake_model_output e1) (\<lambda>(merged, e2).
                  Inr ((Some [(0, merged)], False), e2))
           else Inr ((Some [], False), e1))
        else bindE (core_execute net out e1) (\<lambda>(lgs, e2).
             bindE (core_sample net lgs out e2) (\<lambda>(mo, e3).
             bindE (core_update out mo e3) (\<lambda>(merged, e4).
               Inr ((Some [(0, merged)], True), e4))))))"

text \<open>Part 1 of the asynchronous step. \<open>Inl\<close> of the result is an early return.\<close>

definition async_launch ::
  "('st, 'g, 'r, 'lg) net \<Rightarrow> ('st, 'g, 'r, 'lg) engine_core \<Rightarrow> ('lg list option \<times> sched_output) list
     \<Rightarrow> ((step_outputs \<times> bool) option \<times> bool \<times> ('lg list option \<times> sched_output) list
           \<times> ('st, 'g, 'r, 'lg) engine_core) res" where
  "async_launch net e bq =
     (if has_requests (ec_sched e) \<and> int (length bq) < ec_batch_queue_size e then
        bindE (schedule (ec_sched e)) (\<lambda>(out, s1).
          let e1 = e\<lparr>ec_sched := s1\<rparr> in
          if so_total_num_scheduled_tokens out = 0 then
            (if bq = [] then bindE (handle_zero_tokens out e1) (\<lambda>(r, e2). Inr (Some r, False, bq, e2))
             else Inr (None, False, bq, e1))
          else bindE (core_execute net out e1) (\<lambda>(lgs, e2). Inr (None, True, (lgs, out) # bq, e2)))
      else Inr (None, False, bq, e))"

definition step_with_batch_queue ::
  "('st, 'g, 'r, 'lg) net \<Rightarrow> ('st, 'g, 'r, 'lg) engine_core
     \<Rightarrow> ((step_outputs \<times> bool) \<times> ('st, 'g, 'r, 'lg) engine_core) res" where
  "step_with_batch_queue net e =
     (case ec_batch_queue e of
        None \<Rightarrow> Inl AssertionError
      | Some bq0 \<Rightarrow>
          if int (length bq0) > ec_batch_queue_size e then Inl AssertionError
          else bindE (async_launch net e bq0) (\<lambda>(early, executed, bq, e1).
            case early of Some r \<Rightarrow> Inr (r, e1)
            | None \<Rightarrow>
                if bq \<noteq> [] then
                  (case List.last bq of (lgs, out) \<Rightarrow>
                     let e2 = e1\<lparr>ec_batch_queue := Some (butlast bq)\<rparr>
                     in bindE (core_sample net lgs out e2) (\<lambda>(mo, e3).
                        bindE (core_update out mo e3) (\<lambda>(merged, e4).
                          Inr ((Some [(0, merged)], True), e4))))
                else Inr ((if executed \<and> int (length bq) < ec_batch_queue_size e then None else Some [],
                           executed), e1)))"

text \<open>\<^verbatim>\<open>step_fn\<close>\<close>

definition step_fn ::
  "('st, 'g, 'r, 'lg) net \<Rightarrow> ('st, 'g, 'r, 'lg) engine_core
     \<Rightarrow> ((step_outputs \<times> bool) \<times> ('st, 'g, 'r, 'lg) engine_core) res" where
  "step_fn net e =
     (if enable_async_scheduling (vc_scheduler (ec_config e)) then step_with_batch_queue net e
      else core_step net e)"

end
