(* ===== verification/Engine_Inv.thy ===== *)
theory Engine_Inv
  imports Engine_Core
begin

text \<open>
  What a step of the engine core guarantees: the engine's invariant, the equivalence of the
  asynchronous step with the synchronous one, and two behaviours of the code that follow from how
  its parts are put together (the state cache is never filled, and a condense moves requests away
  from their state).
\<close>

section \<open>Outputs that come from \<open>schedule\<close>\<close>

definition out_ok :: "sched_output \<Rightarrow> sched \<Rightarrow> bool" where
  "out_ok out s \<longleftrightarrow>
     distinct (so_scheduled_req_ids out) \<and> distinct (so_finished_req_ids out) \<and>
     so_freed_slots out = [] \<and> dict_keys (so_request_data out) = so_scheduled_req_ids out \<and>
     set (so_finished_req_ids out) \<inter> set (so_scheduled_req_ids out) = {} \<and>
     (\<forall>(i, rd) \<in> set (so_request_data out). slot_of s i = Inr (rd_slot_index rd))"

lemma schedule_out_ok:
  assumes "sched_wf s" and "0 \<le> max_num_batched_tokens (sc_config s)" and "schedule s = Inr (out, s')"
  shows "out_ok out s'"
  using assms
proof (cases rule: schedule_spec)
  case (1 b s1)
  have "slot_of s' = slot_of s1" using 1(8) by (auto simp: slot_of_def)
  then have "\<forall>(i, rd) \<in> set (b_data b). slot_of s' i = Inr (rd_slot_index rd)"
    using 1(1) by (auto simp: batch_inv_def rd_of_running_def)
  then show ?thesis using 1 by (auto simp: out_ok_def batch_inv_def)
qed

lemma out_ok_no_data:
  assumes "out_ok out s" and "i \<in> set (so_finished_req_ids out)"
  shows "dict_get (so_request_data out) i = None"
  using assms by (auto simp: out_ok_def dict_get_None_keys)

lemma out_ok_own:
  assumes "out_ok out s" and "slot_manager_of s = Some sm" and "slot_manager_of s' = Some sm"
  shows "freed_slot_of out s' i = dict_get (req_to_slot sm) i"
proof (cases "dict_get (so_request_data out) i")
  case (Some rd)
  then have "slot_of s i = Inr (rd_slot_index rd)"
    using assms(1) dict_get_in [OF Some] by (auto simp: out_ok_def)
  then show ?thesis
    using Some assms(2,3) by (auto simp: freed_slot_of_def slot_of_def get_slot_def split: option.splits)
qed (simp add: freed_slot_of_def assms(3))

section \<open>Finished requests are never saved\<close>

lemma foldE_id: "(\<And>x. x \<in> set xs \<Longrightarrow> f s x = Inr s) \<Longrightarrow> foldE f s xs = Inr s"
  by (induction xs) auto

lemma save_finished_noop:
  assumes "out_ok out s" and "ec_executor e = UniExec (Some w)"
  shows "save_finished_state out e = Inr e"
proof (cases "gw_runner w")
  case (Some rn)
  have "foldE (save_finished_one out (ec_sched e)) rn (so_finished_req_ids out) = Inr rn"
    by (rule foldE_id) (simp add: save_finished_one_def out_ok_no_data [OF assms(1)])
  moreover have "w = \<lparr>gw_runner = Some rn\<rparr>" using Some by (cases w) simp
  ultimately show ?thesis using Some assms(2) by (simp add: save_finished_state_def)
qed (simp add: save_finished_state_def assms(2))

lemma save_finished_cases:
  assumes "save_finished_state out e = Inr e'"
  obtains w where "ec_executor e = UniExec (Some w)"
proof -
  consider "ec_executor e = MpExec" | "ec_executor e = UniExec None"
    | w where "ec_executor e = UniExec (Some w)"
    by (metis executor.exhaust option.exhaust)
  then show thesis using assms that by cases (simp_all add: save_finished_state_def)
qed

text \<open>
  The state cache is never filled. Before a step updates the scheduler, the only finished
  requests are those the scheduler itself retired for length, which it did not schedule and for
  which the step holds no run data; the code skips exactly those. Whatever the scheduler output,
  saving the finished requests' state leaves the engine as it was.
\<close>

theorem finished_state_never_saved:
  assumes "sched_wf s" and "0 \<le> max_num_batched_tokens (sc_config s)"
    and "schedule s = Inr (out, s')" and "ec_executor e = UniExec (Some w)"
  shows "save_finished_state out e = Inr e"
  by (rule save_finished_noop [OF schedule_out_ok [OF assms(1-3)] assms(4)])

section \<open>The asynchronous step\<close>

lemma batch_queue_frame:
  "core_execute net out e = Inr (lgs, e') \<Longrightarrow> ec_batch_queue e' = ec_batch_queue e"
  by (auto simp: core_execute_def)

lemma set_batch_queue_same: "ec_batch_queue e = Some q \<Longrightarrow> e\<lparr>ec_batch_queue := Some q\<rparr> = e"
  by (cases e) simp

lemma async_launch_empty:
  "1 \<le> ec_batch_queue_size e \<Longrightarrow> async_launch net e [] =
    (if has_requests (ec_sched e) then
        bindE (schedule (ec_sched e)) (\<lambda>(out, s1).
          let e1 = e\<lparr>ec_sched := s1\<rparr> in
          if so_total_num_scheduled_tokens out = 0
          then bindE (handle_zero_tokens out e1) (\<lambda>(r, e2). Inr (Some r, False, [], e2))
          else bindE (core_execute net out e1) (\<lambda>(lgs, e2). Inr (None, True, [(lgs, out)], e2)))
      else Inr (None, False, [], e))"
  by (simp add: async_launch_def Let_def case_prod_unfold cong: if_cong)

text \<open>Nothing to execute, and something: the two ways a scheduled step goes on.\<close>

lemma async_step_zero:
  assumes "ec_initialized e" and "has_requests (ec_sched e)" and "schedule (ec_sched e) = Inr (out, s1)"
    and "so_total_num_scheduled_tokens out = 0" and "ec_batch_queue e = Some []" and "1 \<le> ec_batch_queue_size e"
  shows "step_with_batch_queue net e = core_step net e"
  using assms async_launch_empty [OF assms(6), of net]
  by (cases "core_update out fake_model_output (e\<lparr>ec_sched := s1\<rparr>)")
     (auto simp: step_with_batch_queue_def core_step_def handle_zero_tokens_def Let_def)

lemma async_step_executes:
  assumes "ec_initialized e" and "has_requests (ec_sched e)" and "schedule (ec_sched e) = Inr (out, s1)"
    and "so_total_num_scheduled_tokens out \<noteq> 0" and "ec_batch_queue e = Some []" and "1 \<le> ec_batch_queue_size e"
  shows "step_with_batch_queue net e = core_step net e"
proof (cases "core_execute net out (e\<lparr>ec_sched := s1\<rparr>)")
  case (Inl err)
  then show ?thesis using assms async_launch_empty [OF assms(6), of net]
    by (simp add: step_with_batch_queue_def core_step_def Let_def)
next
  case (Inr p)
  obtain lgs e2 where p: "p = (lgs, e2)" by fastforce
  have "ec_batch_queue e2 = Some []" using batch_queue_frame [OF Inr [unfolded p]] assms(5) by simp
  note same = set_batch_queue_same [OF this]
  show ?thesis using assms async_launch_empty [OF assms(6), of net] Inr p same
    by (simp add: step_with_batch_queue_def core_step_def Let_def)
qed


section \<open>The engine's invariant\<close>

definition engine_inv :: "('st, 'g, 'r, 'lg) engine_core \<Rightarrow> bool" where
  "engine_inv e \<longleftrightarrow>
     sched_wf (ec_sched e) \<and> slots_exact (ec_sched e) \<and> slot_manager_of (ec_sched e) \<noteq> None \<and>
     0 \<le> max_num_batched_tokens (sc_config (ec_sched e))"

text \<open>The attributes a step leaves alone.\<close>

definition same_engine ::
  "('st, 'g, 'r, 'lg) engine_core \<Rightarrow> ('st, 'g, 'r, 'lg) engine_core \<Rightarrow> bool" where
  "same_engine e e' \<longleftrightarrow>
     ec_config e' = ec_config e \<and> ec_initialized e' = ec_initialized e \<and>
     ec_batch_queue e' = ec_batch_queue e \<and> ec_batch_queue_size e' = ec_batch_queue_size e"

lemma same_engine_refl [simp]: "same_engine e e"
  by (simp add: same_engine_def)

lemma same_engine_trans: "same_engine a b \<Longrightarrow> same_engine b c \<Longrightarrow> same_engine a c"
  by (simp add: same_engine_def)

subsection \<open>Scheduling keeps the manager\<close>

definition managed :: "sched \<Rightarrow> bool" where
  "managed s \<longleftrightarrow> slot_manager_of s \<noteq> None"

lemma managed_put [simp]: "managed (queue_put n q s) = managed s"
  by (cases n) (simp_all add: managed_def)

lemma start_running_managed: "start_running r s = Inr s' \<Longrightarrow> managed s' = managed s"
  by (auto simp: start_running_def Let_def managed_def split: option.split_asm)

lemma set_heads_managed: "set_heads_aside pp ns s sk = Inr (m, s', sk') \<Longrightarrow> managed s' = managed s"
proof (induction ns arbitrary: s sk m s' sk')
  case (Cons n ns)
  show ?case
  proof (cases "rq_bool (queue_get n s)")
    case True
    with Cons.prems obtain h where h: "rq_peek_request (queue_get n s) = Inr h" by auto
    show ?thesis
    proof (cases "head_over_limit (sc_config s) pp h")
      case over: True
      with Cons.prems True h obtain q' m2 where
        "set_heads_aside pp ns (queue_put n q' s) (rq_prepend_request h sk) = Inr (m2, s', sk')"
        by auto
      from Cons.IH [OF this] show ?thesis by simp
    next
      case False
      with Cons True h show ?thesis by auto
    qed
  qed (use Cons in auto)
qed auto

lemma phase2_round_managed:
  assumes "phase2_round p = Inr (Some p')"
  shows "managed (p2_sched p') = managed (p2_sched p)"
  using assms
proof (cases rule: phase2_round_cases)
  case (aside s' sk')
  then show ?thesis using set_heads_managed [OF aside(1)] by simp
next
  case (admit n r q')
  from admit(3) show ?thesis
    by (cases rule: phase2_admit_cases) (auto dest: start_running_managed)
qed

lemma phase2_loop_managed: "phase2_loop p = Inr p' \<Longrightarrow> managed (p2_sched p') = managed (p2_sched p)"
proof (induction p rule: phase2_loop.induct)
  case (1 p)
  show ?case
  proof (cases "phase2_guard p")
    case True
    then obtain st where st: "phase2_round p = Inr st"
      using "1.prems" by (subst (asm) phase2_loop.simps) auto
    show ?thesis
    proof (cases st)
      case None
      have "phase2_loop p = Inr p" by (subst phase2_loop.simps) (simp add: True st None)
      then show ?thesis using "1.prems" by simp
    next
      case (Some p1)
      have "phase2_loop p = phase2_loop p1" by (subst phase2_loop.simps) (simp add: True st Some)
      then have "phase2_loop p1 = Inr p'" using "1.prems" by simp
      from "1.IH" [OF True st Some this] phase2_round_managed [of p p1] st Some show ?thesis by simp
    qed
  next
    case False
    then have "phase2_loop p = Inr p" by (subst phase2_loop.simps) simp
    then show ?thesis using "1.prems" by simp
  qed
qed

lemma schedule_managed:
  assumes "sched_wf s" and "0 \<le> max_num_batched_tokens (sc_config s)" and "schedule s = Inr (out, s')"
  shows "managed s' = managed s"
proof -
  from assms(3) obtain b policy p where b: "phase1 s = Inr b"
    and p: "phase2_loop \<lparr>p2_sched = s, p2_batch = b, p2_step_skipped = create_request_queue policy,
              p2_partial = count_partial_prefills s\<rparr> = Inr p"
    and adv: "advance_computed (b_tokens (p2_batch p)) (b_scheduled (p2_batch p)) (requeue_skipped p)
                = Inr s'"
    by (rule schedule_unfold)
  have pinv: "phase2_inv p" using phase2_loop_inv [OF p phase2_start [OF assms(1,2) b]] by blast
  note rs = requeue_skipped_inv [OF pinv]
  note a = advance_computed_inv [OF rs(1) advance_step_ok [OF rs(2)] adv]
  have "managed s' = managed (p2_sched p)" using a(5) by (simp add: managed_def requeue_skipped_def split: if_splits)
  then show ?thesis using phase2_loop_managed [OF p] by simp
qed

subsection \<open>Freeing and condensing\<close>

lemma owned_list:
  "set (concat (map (\<lambda>i. case dict_get d i of None \<Rightarrow> [] | Some t \<Rightarrow> [(i, t)]) ids)) =
   {(i, t). i \<in> set ids \<and> dict_get d i = Some t}"
  by (auto split: option.splits)

lemma process_aborts_spec:
  assumes inv: "sched_wf (ec_sched e)" and sm: "slot_manager_of (ec_sched e) = Some sm"
    and run: "process_aborts_queue e = Inr (freed, e')"
  shows "sched_wf (ec_sched e')" and "slot_manager_of (ec_sched e') = Some sm"
    and "running (ec_sched e') = filter (\<lambda>r. request_id r \<notin> set (concat (ec_aborts e))) (running (ec_sched e))"
    and "same_config (ec_sched e) (ec_sched e')" and "same_engine e e'" and "ec_aborts e' = []"
    and "ec_executor e' = ec_executor e"
    and "slot_owner_ok freed sm"
    and "fst ` set freed = set (concat (ec_aborts e)) \<inter> dom (dict_get (req_to_slot sm))"
proof -
  let ?ids = "concat (ec_aborts e)"
  obtain "done" s' where fin: "finish_these (remdups ?ids) (ec_sched e) = Inr (done, s')" "sched_wf s'"
    "running s' = filter (\<lambda>r. request_id r \<notin> set (remdups ?ids)) (running (ec_sched e))"
    "slot_manager_of s' = slot_manager_of (ec_sched e)" "same_config (ec_sched e) s'"
    using finish_these_spec [OF inv, of "remdups ?ids"] by blast
  let ?f = "concat (map (\<lambda>i. case dict_get (req_to_slot sm) i of None \<Rightarrow> [] | Some t \<Rightarrow> [(i, t)]) ?ids)"
  let ?e = "e\<lparr>ec_aborts := [], ec_sched := s'\<rparr>"
  have ab: "\<exists>x. core_abort_requests ?ids (e\<lparr>ec_aborts := []\<rparr>) = Inr (x, ?e)"
    unfolding core_abort_requests_def finish_requests_def option.case
    using fin(1) by simp
  have "owned_slots ?ids s' = Inr ?f" unfolding owned_slots_def fin(4) sm option.case ..
  then have "process_aborts_queue e = (if ec_aborts e = [] then Inr ([], e) else Inr (?f, ?e))"
    unfolding process_aborts_queue_def Let_def using ab by (auto simp del: concat.simps map_concat)
  with run have res: "freed = (if ec_aborts e = [] then [] else ?f)" "e' = (if ec_aborts e = [] then e else ?e)"
    by (simp_all split: if_split_asm)
  have f: "freed = ?f" using res(1) by simp
  have e': "sched_wf (ec_sched e') \<and> slot_manager_of (ec_sched e') = Some sm \<and>
      running (ec_sched e') = filter (\<lambda>r. request_id r \<notin> set ?ids) (running (ec_sched e)) \<and>
      same_config (ec_sched e) (ec_sched e') \<and> same_engine e e' \<and> ec_aborts e' = [] \<and> ec_executor e' = ec_executor e"
    using fin inv sm by (cases "ec_aborts e = []") (simp_all add: res(2) same_engine_def same_config_def)
  show "sched_wf (ec_sched e')" "slot_manager_of (ec_sched e') = Some sm"
    "running (ec_sched e') = filter (\<lambda>r. request_id r \<notin> set ?ids) (running (ec_sched e))"
    "same_config (ec_sched e) (ec_sched e')" "same_engine e e'" "ec_aborts e' = []" "ec_executor e' = ec_executor e"
    using e' by blast+
  show "slot_owner_ok freed sm" unfolding slot_owner_ok_def f owned_list by blast
  show "fst ` set freed = set ?ids \<inter> dom (dict_get (req_to_slot sm))"
    unfolding f owned_list by force
qed

lemma batch_condense_facts:
  assumes "slot_wf sm" and "slot_compact sm" and "slot_owner_ok fs sm" and "batch_condense fs sm = Inr (ms, sm')"
  shows "slot_wf sm'" and "slot_compact sm'" and "max_slots sm' = max_slots sm" and "pad_slots sm' = pad_slots sm"
    and "dom (dict_get (req_to_slot sm')) = dom (dict_get (req_to_slot sm)) - fst ` set fs"
    and "moves_down ms (length (slot_to_req sm'))"
  by (rule batch_condense_ok [OF assms(1-3)]; use assms(4) in simp)+

lemma core_batch_condense_cases:
  assumes "core_batch_condense freed e = Inr e'" and "slot_manager_of (ec_sched e) = Some sm"
  obtains ms sm' where "batch_condense freed sm = Inr (ms, sm')"
    "ec_sched e' = (ec_sched e)\<lparr>slot_manager_of := Some sm'\<rparr>" "same_engine e e'"
    "ec_aborts e' = ec_aborts e" "ec_executor e' = ec_executor e"
proof (cases "freed = []")
  case True
  have "(ec_sched e)\<lparr>slot_manager_of := Some sm\<rparr> = ec_sched e" using assms(2) by (cases "ec_sched e") simp
  then show thesis using that [of "[]" sm] True assms by (simp add: core_batch_condense_def batch_condense_def)
next
  case False
  then obtain ms sm' where run: "batch_condense freed sm = Inr (ms, sm')"
    and rest: "(let e1 = e\<lparr>ec_sched := (ec_sched e)\<lparr>slot_manager_of := Some sm'\<rparr>\<rparr>
      in if ms = [] then Inr e1
         else bindE (executor_condense ms (ec_executor e1)) (\<lambda>ex. Inr (e1\<lparr>ec_executor := ex\<rparr>))) = Inr e'"
    using assms by (auto simp: core_batch_condense_def)
  have ex: "ex = ec_executor e" if "executor_condense ms (ec_executor e) = Inr ex" for ex
    using that by (cases "ec_executor e") auto
  show thesis
    by (rule that [OF run]) (use rest ex in \<open>auto simp: Let_def same_engine_def split: if_splits\<close>)
qed

text \<open>Giving the manager back the slots of requests that no longer run restores exactness.\<close>

lemma condensed_sched:
  assumes inv: "sched_wf s" and sm: "slot_manager_of s = Some sm"
    and bc: "slot_wf sm'" "slot_compact sm'" "max_slots sm' = max_slots sm" "pad_slots sm' = pad_slots sm"
    and dom: "dom (dict_get (req_to_slot sm')) = request_id ` set (running s)"
    and sub: "dom (dict_get (req_to_slot sm')) \<subseteq> dom (dict_get (req_to_slot sm))"
    and cap: "max_num_seqs (sc_config s) \<le> max_slots sm"
  shows "sched_wf (s\<lparr>slot_manager_of := Some sm'\<rparr>)" and "slots_exact (s\<lparr>slot_manager_of := Some sm'\<rparr>)"
proof -
  let ?s = "s\<lparr>slot_manager_of := Some sm'\<rparr>"
  have old: "pad_slots sm = []" "\<forall>r \<in># pending {#} s. dict_get (req_to_slot sm) (request_id r) = None"
    using sched_invD(8) [OF inv] sm by (simp_all add: slots_inv_def)
  have p: "pending {#} ?s = pending {#} s" "all_ids {#} ?s = all_ids {#} s"
    by (simp_all add: pending_def all_ids_def)
  have "slots_inv {#} ?s"
  proof -
    have "dict_get (req_to_slot sm') (request_id r) \<noteq> None" if "r \<in> set (running s)" for r
      using dom imageI [OF that, of request_id] by (metis domIff)
    moreover have "dict_get (req_to_slot sm') (request_id r) = None" if "r \<in># pending {#} s" for r
      using old(2) that sub by (meson domIff subsetD)
    ultimately show ?thesis using bc old(1) p(1) by (simp add: slots_inv_def)
  qed
  then show "sched_wf ?s" using inv p by (simp add: sched_inv_def)
  show "slots_exact ?s" using dom cap bc(3) by (simp add: slots_exact_def)
qed

subsection \<open>Updating\<close>

lemma image_filter_not: "f ` set (filter (\<lambda>r. f r \<notin> I) rs) = f ` set rs - I"
  by auto

lemma core_update_cases:
  assumes "core_update out mo e = Inr (merged, e')"
  obtains e1 freed e2 outs out' s' where "save_finished_state out e = Inr e1"
    "process_aborts_queue e1 = Inr (freed, e2)" "update_from_output out mo (ec_sched e2) = (outs, out', s')"
    "core_batch_condense (freed @ so_freed_slots out') (e2\<lparr>ec_sched := s'\<rparr>) = Inr e'"
    "merged = merge_outputs outs"
proof -
  from assms obtain e1 p where 1: "save_finished_state out e = Inr e1" "process_aborts_queue e1 = Inr p"
    and rest: "(case p of (freed, e2) \<Rightarrow> case update_from_output out mo (ec_sched e2) of (outs, out', s') \<Rightarrow>
         bindE (core_batch_condense (freed @ so_freed_slots out') (e2\<lparr>ec_sched := s'\<rparr>)) (\<lambda>e3.
           Inr (merge_outputs outs, e3))) = Inr (merged, e')"
    unfolding core_update_def bindE_eq_Inr by blast
  obtain freed e2 where p: "p = (freed, e2)" by fastforce
  obtain outs out' s' where u: "update_from_output out mo (ec_sched e2) = (outs, out', s')"
    by (metis prod_cases3)
  from rest show thesis unfolding p prod.case u bindE_eq_Inr
    using that [OF 1(1) 1(2) [unfolded p] u] by auto
qed

lemma core_update_inv:
  assumes inv: "sched_wf (ec_sched e)" and ex: "slots_exact (ec_sched e)"
    and sm: "slot_manager_of (ec_sched e) = Some sm" and ok: "out_ok out (ec_sched e)"
    and run: "core_update out mo e = Inr (merged, e')"
  shows "sched_wf (ec_sched e') \<and> slots_exact (ec_sched e') \<and> slot_manager_of (ec_sched e') \<noteq> None \<and>
    same_config (ec_sched e) (ec_sched e') \<and> same_engine e e' \<and> ec_aborts e' = [] \<and>
    ec_executor e' = ec_executor e"
proof -
  from run obtain e1 freed e2 outs out' s' where
    sv: "save_finished_state out e = Inr e1" and ab: "process_aborts_queue e1 = Inr (freed, e2)"
    and up: "update_from_output out mo (ec_sched e2) = (outs, out', s')"
    and bc: "core_batch_condense (freed @ so_freed_slots out') (e2\<lparr>ec_sched := s'\<rparr>) = Inr e'"
    by (rule core_update_cases)
  have e1: "e1 = e" using save_finished_cases [OF sv] save_finished_noop [OF ok] sv by (metis Inr_inject)
  note A = process_aborts_spec [OF inv sm ab [unfolded e1]]
  have own: "freed_slot_of out (ec_sched e2) i = dict_get (req_to_slot sm) i" for i
    by (rule out_ok_own [OF ok sm A(2)])
  have od: "distinct (so_scheduled_req_ids out)" "distinct (so_finished_req_ids out)" "so_freed_slots out = []"
    using ok by (simp_all add: out_ok_def)
  note F = update_freed [OF A(1) od(1,2) A(2) od(3) own up]
  obtain s1 fin where U: "sched_wf s1" "slot_manager_of s1 = Some sm" "same_config (ec_sched e2) s1"
    "map (\<lambda>r. r\<lparr>num_output_tokens := 0\<rparr>) (running s1) = map (\<lambda>r. r\<lparr>num_output_tokens := 0\<rparr>) (running (ec_sched e2))"
    "s' = without (set fin) s1" "so_finished_req_ids out' = fin"
  proof (cases rule: update_spec [OF A(1) od(1,2) up])
    case (1 s1 fin)
    show thesis by (rule that [of s1 fin]) (use 1 A(2) in simp_all)
  qed
  have s': "sched_wf s'" "slot_manager_of s' = Some sm" "same_config (ec_sched e2) s'"
    using without_inv [OF U(1)] U(2,3) by (simp_all add: U(5) same_config_def)
  have ids1: "request_id ` set (running s1) = request_id ` set (running (ec_sched e2))"
    by (rule sampled_end_cong(2) [OF U(4)])
  have ids: "request_id ` set (running s') =
      request_id ` set (running (ec_sched e)) - set (concat (ec_aborts e)) - set fin"
    unfolding U(5) without_proj image_filter_not ids1 A(3) ..
  have sm': "slot_manager_of (ec_sched (e2\<lparr>ec_sched := s'\<rparr>)) = Some sm" using s'(2) by simp
  obtain ms m' where B: "batch_condense (freed @ so_freed_slots out') sm = Inr (ms, m')"
    "ec_sched e' = s'\<lparr>slot_manager_of := Some m'\<rparr>" "same_engine (e2\<lparr>ec_sched := s'\<rparr>) e'"
    "ec_aborts e' = ec_aborts e2" "ec_executor e' = ec_executor e2"
    using core_batch_condense_cases [OF bc sm'] by auto
  have wf: "slot_wf sm" "slot_compact sm"
    using sched_invD(8) [OF inv] sm by (simp_all add: slots_inv_def)
  have owner: "slot_owner_ok (freed @ so_freed_slots out') sm"
    using A(8) F(1) by (auto simp: slot_owner_ok_def)
  note C = batch_condense_facts [OF wf owner B(1)]
  have exact: "dom (dict_get (req_to_slot sm)) = request_id ` set (running (ec_sched e))"
    "max_num_seqs (sc_config (ec_sched e)) \<le> max_slots sm"
    using ex sm by (simp_all add: slots_exact_def)
  have "request_id ` set (running (ec_sched e2)) = request_id ` set (running (ec_sched e)) - set (concat (ec_aborts e))"
    unfolding A(3) image_filter_not ..
  then have "fst ` set (freed @ so_freed_slots out') =
      (set (concat (ec_aborts e)) \<inter> request_id ` set (running (ec_sched e))) \<union>
      (set fin \<inter> (request_id ` set (running (ec_sched e)) - set (concat (ec_aborts e))))"
    using A(9) F(2) exact(1) U(6) by (simp add: image_Un)
  then have dom: "dom (dict_get (req_to_slot m')) = request_id ` set (running s')"
    unfolding C(5) exact(1) ids by blast
  have cap: "max_num_seqs (sc_config s') \<le> max_slots sm"
    using exact(2) s'(3) A(4) by (simp add: same_config_def)
  have sub: "dom (dict_get (req_to_slot m')) \<subseteq> dom (dict_get (req_to_slot sm))" unfolding C(5) by blast
  note D = condensed_sched [OF s'(1,2) C(1-4) dom sub cap]
  show ?thesis
    using D A(4-7) s'(3) B(2-5) by (simp add: same_config_def same_engine_def)
qed

subsection \<open>Executing\<close>

lemma run_decode_manager:
  assumes "slot_wf m" and "pad_slots m = []"
    and "run_decode fwd zero graph n toks slots (Some m) rn = Inr (lgs, sm', rn')"
  shows "sm' = Some m"
proof (cases "\<not> graph \<or> \<not> (n > 0 \<longrightarrow> n \<le> available_pad_count m) \<or> n = 0")
  case True
  then show ?thesis using assms(3) by (auto simp: run_decode_def split: prod.splits)
next
  case False
  then obtain pads m1 where rs: "reserve_pad_slots n m = Inr (pads, m1)" and "sm' = Some (release_pad_slots m1)"
    using assms(3) by (auto simp: run_decode_def case_prod_unfold)
  then show ?thesis using reserve_release(2) [OF assms(1,2) rs] by simp
qed

lemma execute_uniform_manager:
  assumes "slot_wf m" and "pad_slots m = []"
    and run: "execute_uniform_decode fwd zero out (Some m) rn = Inr (lgs, sm', rn')"
  shows "sm' = Some m"
proof -
  from run obtain rds where rds: "mapE (dict_item (so_request_data out)) (so_scheduled_req_ids out) = Inr rds"
    unfolding execute_uniform_decode_def bindE_eq_Inr by blast
  let ?slots = "map rd_slot_index rds"
  let ?gp = "case rn_graphs rn of None \<Rightarrow> (None, length ?slots) | Some gm \<Rightarrow> get_graph_with_padding (length ?slots) gm"
  let ?n = "if fst ?gp \<noteq> None then snd ?gp - length ?slots else 0"
  let ?toks = "map (rn_last rn) ?slots"
  from run obtain lgs1 sm1 rn1 where
    "run_decode fwd zero (fst ?gp \<noteq> None) ?n ?toks ?slots (Some m) (rn\<lparr>rn_min_prev := Some (Min (set ?toks))\<rparr>)
       = Inr (lgs1, sm1, rn1)" and "sm' = sm1"
    unfolding execute_uniform_decode_def rds bindE.simps Let_def
    by (auto simp del: option.case split: if_split_asm)
  from run_decode_manager [OF assms(1,2) this(1)] this(2) show ?thesis by simp
qed

lemma execute_model_manager:
  assumes "slot_wf m" and "pad_slots m = []"
    and run: "execute_model fwd zero out (Some m) rn = Inr (lgs, sm', rn')"
  shows "sm' = Some m"
proof (cases "so_scheduled_req_ids out = []")
  case True
  then show ?thesis using run by (simp add: execute_model_def split: if_split_asm)
next
  case False
  with run obtain u where "rn_loaded rn" and u: "is_uniform_decode out = Inr u"
    by (auto simp: execute_model_def split: if_split_asm)
  show ?thesis
  proof (cases u)
    case True
    then obtain l r where "execute_uniform_decode fwd zero out (Some m) rn = Inr (l, sm', r)"
      using run u False by (auto simp: execute_model_def split: if_split_asm)
    then show ?thesis by (rule execute_uniform_manager [OF assms(1,2)])
  qed (use run u False in \<open>auto simp: execute_model_def split: if_split_asm\<close>)
qed

lemma core_execute_sched:
  assumes inv: "sched_wf (ec_sched e)" and sm: "slot_manager_of (ec_sched e) = Some m"
    and run: "core_execute net out e = Inr (lgs, e')"
  shows "ec_sched e' = ec_sched e \<and> same_engine e e' \<and> ec_aborts e' = ec_aborts e"
proof -
  have wf: "slot_wf m" "pad_slots m = []" using sched_invD(8) [OF inv] sm by (simp_all add: slots_inv_def)
  from run sm obtain sm' ex where
    x: "executor_execute_model net out (Some m) (ec_executor e) = Inr (lgs, sm', ex)"
    and e': "e' = e\<lparr>ec_sched := (ec_sched e)\<lparr>slot_manager_of := sm'\<rparr>, ec_executor := ex\<rparr>"
    by (auto simp: core_execute_def)
  have "sm' = Some m"
    using x by (cases "(net, out, Some m, ec_executor e)" rule: executor_execute_model.cases)
      (auto simp: gpu_execute_model_def split: option.splits dest: execute_model_manager [OF wf])
  then have "(ec_sched e)\<lparr>slot_manager_of := sm'\<rparr> = ec_sched e" using sm by (cases "ec_sched e") simp
  then show ?thesis by (simp add: e' same_engine_def)
qed

lemma core_sample_sched:
  "core_sample net lgs out e = Inr (mo, e') \<Longrightarrow>
     ec_sched e' = ec_sched e \<and> same_engine e e' \<and> ec_aborts e' = ec_aborts e"
  by (auto simp: core_sample_def same_engine_def)

text \<open>The ways a step returns: nothing to do, nothing scheduled, only finished requests, a whole step.\<close>

lemma core_step_cases:
  assumes "core_step net e = Inr (r, e')"
  obtains (idle) "e' = e"
  | (empty) out s1 where "schedule (ec_sched e) = Inr (out, s1)" "e' = e\<lparr>ec_sched := s1\<rparr>"
      "so_total_num_scheduled_tokens out = 0"
  | (retired) out s1 merged where "schedule (ec_sched e) = Inr (out, s1)"
      "core_update out fake_model_output (e\<lparr>ec_sched := s1\<rparr>) = Inr (merged, e')"
      "so_total_num_scheduled_tokens out = 0"
  | (worked) out s1 lgs e2 mo e3 merged where "schedule (ec_sched e) = Inr (out, s1)"
      "core_execute net out (e\<lparr>ec_sched := s1\<rparr>) = Inr (lgs, e2)"
      "core_sample net lgs out e2 = Inr (mo, e3)" "core_update out mo e3 = Inr (merged, e')"
      "so_total_num_scheduled_tokens out \<noteq> 0" "r = (Some [(0, merged)], True)"
proof (cases "has_requests (ec_sched e)")
  case False
  then show ?thesis using assms idle by (simp add: core_step_def split: if_split_asm)
next
  case True
  then obtain out s1 where sch: "schedule (ec_sched e) = Inr (out, s1)"
    using assms by (auto simp: core_step_def split: if_splits)
  let ?e1 = "e\<lparr>ec_sched := s1\<rparr>"
  from assms sch True have rest: "(if so_total_num_scheduled_tokens out = 0 then
        (if so_finished_req_ids out \<noteq> []
         then bindE (core_update out fake_model_output ?e1) (\<lambda>(merged, e2).
                Inr ((Some [(0, merged)], False), e2))
         else Inr ((Some [], False), ?e1))
      else bindE (core_execute net out ?e1) (\<lambda>(lgs, e2).
           bindE (core_sample net lgs out e2) (\<lambda>(mo, e3).
           bindE (core_update out mo e3) (\<lambda>(merged, e4).
             Inr ((Some [(0, merged)], True), e4))))) = Inr (r, e')"
    by (simp add: core_step_def Let_def split: if_split_asm)
  then show ?thesis
    using empty [OF sch] retired [OF sch] worked [OF sch] by (auto split: if_split_asm)
qed

text \<open>What scheduling leaves for the rest of the step.\<close>

lemma scheduled_engine:
  assumes "engine_inv e" and "schedule (ec_sched e) = Inr (out, s1)"
  shows "engine_inv (e\<lparr>ec_sched := s1\<rparr>)" and "same_config (ec_sched e) s1"
    and "ec_sched e2 = s1 \<Longrightarrow> core_update out mo e2 = Inr (merged, e') \<Longrightarrow>
      engine_inv e' \<and> same_config (ec_sched e) (ec_sched e') \<and> same_engine e2 e'"
proof -
  have e: "sched_wf (ec_sched e)" "slots_exact (ec_sched e)" "slot_manager_of (ec_sched e) \<noteq> None"
    "0 \<le> max_num_batched_tokens (sc_config (ec_sched e))"
    using assms(1) by (simp_all add: engine_inv_def)
  note sch = assms(2)
  have s1: "sched_wf s1" "same_config (ec_sched e) s1" "slots_exact s1"
    using e sch schedule_slots_exact [OF e(1,2,4) sch] by (cases rule: schedule_spec [OF e(1,4) sch]; simp)+
  have "managed s1" using schedule_managed [OF e(1,4) sch] e(3) by (simp add: managed_def)
  then obtain m where m: "slot_manager_of s1 = Some m" by (auto simp: managed_def)
  show "engine_inv (e\<lparr>ec_sched := s1\<rparr>)" "same_config (ec_sched e) s1"
    using s1 m e(4) by (simp_all add: engine_inv_def same_config_def)
  assume e2: "ec_sched e2 = s1" "core_update out mo e2 = Inr (merged, e')"
  have "sched_wf (ec_sched e') \<and> slots_exact (ec_sched e') \<and> slot_manager_of (ec_sched e') \<noteq> None \<and>
    same_config s1 (ec_sched e') \<and> same_engine e2 e'"
    using core_update_inv [OF _ _ _ _ e2(2)] s1 m schedule_out_ok [OF e(1,4) sch] e2(1) by simp
  then show "engine_inv e' \<and> same_config (ec_sched e) (ec_sched e') \<and> same_engine e2 e'"
    using s1(2) e(4) by (auto simp: engine_inv_def same_config_def)
qed

lemma step_keeps_engine:
  assumes inv: "engine_inv e" and run: "core_step net e = Inr (r, e')"
  shows "engine_inv e' \<and> same_config (ec_sched e) (ec_sched e') \<and> same_engine e e'"
  using run
proof (cases rule: core_step_cases)
  case idle
  then show ?thesis using inv by (simp add: same_config_def same_engine_refl)
next
  case (empty out s1)
  then show ?thesis using scheduled_engine(1,2) [OF inv] by (simp add: same_engine_def)
next
  case (retired out s1 merged)
  then show ?thesis using scheduled_engine(3) [OF inv retired(1) _ retired(2)] by (simp add: same_engine_def)
next
  case (worked out s1 lgs e2 mo e3 merged)
  have "slot_manager_of s1 \<noteq> None" using scheduled_engine(1) [OF inv worked(1)] by (simp add: engine_inv_def)
  then have "ec_sched e2 = s1 \<and> same_engine (e\<lparr>ec_sched := s1\<rparr>) e2"
    using core_execute_sched [OF _ _ worked(2)] scheduled_engine(1) [OF inv worked(1)]
    by (auto simp: engine_inv_def)
  then have "ec_sched e3 = s1" "same_engine e e3"
    using core_sample_sched [OF worked(3)] by (auto simp: same_engine_def)
  then show ?thesis
    using scheduled_engine(3) [OF inv worked(1) _ worked(4)] by (auto intro: same_engine_trans)
qed

text \<open>
  C2: a step of the engine keeps the engine's invariant, aborts included. Whatever the network
  computes and whichever requests are being aborted, if the step returns then the scheduler's
  invariant holds again, exactly the running requests own slots, the occupied slots are an initial
  segment, and the configuration is unchanged: finishing, aborting and condensing fit together.
\<close>

theorem step_preserves_engine_inv:
  assumes inv: "engine_inv e" and run: "core_step net e = Inr (r, e')"
  shows "engine_inv e' \<and> same_config (ec_sched e) (ec_sched e') \<and> same_engine e e'"
  by (rule step_keeps_engine [OF assms])

definition demo_engine :: "(token list, string, unit, int) engine_core" where
  "demo_engine =
     \<lparr>ec_config = demo_eager_config, ec_sched = demo_sched,
      ec_executor = UniExec (Some \<lparr>gw_runner = Some demo_runner\<rparr>), ec_initialized = True,
      ec_batch_queue = Some [], ec_batch_queue_size = 2, ec_aborts = [[''a'', ''c'']]\<rparr>"

lemma demo_engine_inv: "engine_inv demo_engine"
  using demo_wf demo_exact demo_budget by (simp add: engine_inv_def demo_engine_def) (simp add: demo_sched_def)

lemma demo_engine_runs: "\<not> isl (core_step demo_net demo_engine)"
  by code_simp

theorem step_preserves_engine_inv_witness:
  "\<exists>r e'. core_step demo_net demo_engine = Inr (r, e') \<and> sched_wf (ec_sched e') \<and> slots_exact (ec_sched e')"
proof -
  obtain r e' where run: "core_step demo_net demo_engine = Inr (r, e')"
    using demo_engine_runs by (cases "core_step demo_net demo_engine") auto
  from step_preserves_engine_inv [OF demo_engine_inv run] run show ?thesis by (auto simp: engine_inv_def)
qed


theorem finished_state_never_saved_witness:
  "save_finished_state demo_out demo_engine = Inr demo_engine"
  by (rule finished_state_never_saved [OF demo_wf demo_budget demo_schedule, where w = "\<lparr>gw_runner = Some demo_runner\<rparr>"])
     (simp add: demo_engine_def)

section \<open>Condensing moves requests away from their state\<close>

text \<open>
  C24: condensing moves a request away from its state. When a request's slot changes from \<open>s\<close> to
  \<open>s'\<close>, the moves that \<open>batch_condense\<close> returns would carry the state along, but the executor
  ignores them: the model runner is unchanged, and what the request finds in \<open>s'\<close> is the state of
  the other request that owned \<open>s'\<close> before.
\<close>

theorem condense_leaves_state_behind:
  assumes "slot_manager_of (ec_sched e) = Some sm" and "slot_wf sm" and "slot_compact sm"
    and "slot_owner_ok fs sm" and "ec_executor e = UniExec (Some \<lparr>gw_runner = Some rn\<rparr>)"
    and "core_batch_condense fs e = Inr e'" and "slot_manager_of (ec_sched e') = Some sm'"
    and "get_slot i sm = Inr s" and "get_slot i sm' = Inr s'" and "s \<noteq> s'"
  shows "\<exists>ms j. batch_condense fs sm = Inr (ms, sm') \<and>
    apply_moves ms (rn_state rn) s' = rn_state rn s \<and>
    ec_executor e' = UniExec (Some \<lparr>gw_runner = Some rn\<rparr>) \<and> j \<noteq> i \<and> get_slot j sm = Inr s'"
proof -
  obtain ms where bc: "batch_condense fs sm = Inr (ms, sm')" and ex: "ec_executor e' = ec_executor e"
    using core_batch_condense_cases [OF assms(6,1)] assms(7) by (metis option.inject sched.select_convs(3)
        sched.surjective sched.update_convs(3))
  note C = batch_condense_facts [OF assms(2-4) bc]
  have slots: "dict_get (req_to_slot sm) i = Some s" "dict_get (req_to_slot sm') i = Some s'"
    using assms(8,9) by (auto simp: get_slot_def split: option.splits)
  have mv: "apply_moves ms id s' = s" by (rule batch_condense_ok [OF assms(2-4)]) (use bc slots in auto)
  have "card (occupied sm') \<le> card (occupied sm)"
    using C(5) card_owners [OF C(1)] card_owners [OF assms(2)]
    by (metis Diff_subset card_mono finite_dom_map_of)
  then have "occupied sm' \<subseteq> occupied sm"
    using assms(3) C(2) by (simp add: slot_compact_def)
  moreover have m: "mirror (req_to_slot sm') (slot_to_req sm')" "mirror (req_to_slot sm) (slot_to_req sm)"
    using C(1) assms(2) by (simp_all add: slot_wf_def)
  then have "s' \<in> occupied sm'"
    using slots(2) unfolding mirror_get [OF m(1)] occupied_def by blast
  ultimately obtain j where "dict_get (slot_to_req sm) s' = Some j" by (auto simp: occupied_def)
  then have j: "dict_get (req_to_slot sm) j = Some s'" by (simp add: mirror_get [OF m(2)])
  then have "j \<noteq> i" using slots(1) assms(10) by auto
  then show ?thesis
    using bc mv j ex assms(5) by (auto simp: get_slot_def apply_moves_source [of ms "rn_state rn"])
qed

definition demo_holes :: "(token list, string, unit, int) engine_core" where
  "demo_holes = demo_engine\<lparr>ec_sched := demo_sched\<lparr>slot_manager_of := Some demo_slots\<rparr>\<rparr>"

theorem condense_leaves_state_behind_witness:
  "\<exists>e' sm'. core_batch_condense [(''a'', 0)] demo_holes = Inr e' \<and>
     slot_manager_of (ec_sched e') = Some sm' \<and> get_slot ''c'' sm' = Inr 0 \<and>
     ec_executor e' = UniExec (Some \<lparr>gw_runner = Some demo_runner\<rparr>) \<and>
     rn_state demo_runner 2 = [9] \<and> rn_state demo_runner 0 = []"
proof -
  define sm' where "sm' = demo_slots\<lparr>req_to_slot := [(''b'', 1), (''c'', 0)],
    slot_to_req := [(1, ''b''), (0, ''c'')], free_slots := [2, 3, 4]\<rparr>"
  have bc: "batch_condense [(''a'', 0)] demo_slots = Inr ([(2, 0)], sm')" unfolding sm'_def by code_simp
  define e' where "e' = demo_holes\<lparr>ec_sched := (ec_sched demo_holes)\<lparr>slot_manager_of := Some sm'\<rparr>\<rparr>"
  have sm: "slot_manager_of (ec_sched demo_holes) = Some demo_slots" by (simp add: demo_holes_def)
  have ex: "ec_executor demo_holes = UniExec (Some \<lparr>gw_runner = Some demo_runner\<rparr>)"
    by (simp add: demo_holes_def demo_engine_def)
  have run: "core_batch_condense [(''a'', 0)] demo_holes = Inr e'"
    by (simp add: core_batch_condense_def sm bc Let_def ex e'_def)
  have sm2: "slot_manager_of (ec_sched e') = Some sm'" by (simp add: e'_def)
  have g: "get_slot ''c'' demo_slots = Inr 2" "get_slot ''c'' sm' = Inr 0"
    by (simp_all add: get_slot_def demo_slots_def sm'_def)
  from condense_leaves_state_behind [OF sm demo_slots_wf demo_slots_compact demo_slots_owner ex run sm2 g] run sm2 g
  show ?thesis by (auto simp: demo_runner_def)
qed

end
