(* ===== verification/Tokenizer.thy ===== *)
theory Tokenizer
  imports Py_Strings "HOL-Library.Sublist"
begin

text \<open>
  \<^verbatim>\<open>vkwr/tokenizers/rwkv7.py\<close>: the vocabulary, its trie, and greedy encoding.

  A trie node is \<open>TrieNode to token\<close> with 256 children; its \<^verbatim>\<open>token\<close> is the id plus one, 0 for
  no token. The vocabulary file is the list of its lines; \<^verbatim>\<open>ast.literal_eval\<close> is an argument,
  \<open>lit\<close>, that returns the Python value of a literal. The property \<^verbatim>\<open>RWKVTokenizer\<close> loads its
  vocabulary when it is constructed, so its later checks that it is loaded do nothing and are
  left out. Finding the file is \<open>find_vocab\<close>, over a file system given by three predicates.

  The lemmas show what the trie holds after its insertions, that the encoder takes the longest
  entry of the vocabulary at every position, and that decoding undoes encoding.
\<close>

section \<open>The trie\<close>

datatype trie_node = TrieNode (tn_to: "trie_node option list") (tn_token: int)

definition trie_new :: trie_node where
  "trie_new = TrieNode (replicate 256 None) 0"

fun trie_add :: "byte list \<Rightarrow> int \<Rightarrow> trie_node \<Rightarrow> trie_node" where
  "trie_add [] v (TrieNode to t) = TrieNode to (v + 1)"
| "trie_add (ch # key) v (TrieNode to t) =
     (let nxt = (case to ! unat ch of None \<Rightarrow> trie_new | Some n \<Rightarrow> n)
      in TrieNode (to[unat ch := Some (trie_add key v nxt)]) t)"

section \<open>Loading the vocabulary\<close>

datatype py_literal = LitStr unicode_text | LitBytes "byte list" | LitOther

record rwkv_tokenizer =
  tk_idx2token :: "byte list list"
  tk_token2idx :: "(byte list, int) dict"
  tk_root :: trie_node
  tk_special_ids :: "token list"

definition index_space :: "nat option \<Rightarrow> nat res" where
  "index_space i = (case i of None \<Rightarrow> Inl (ValueError ''substring not found'') | Some k \<Rightarrow> Inr k)"

text \<open>One line of the file, after the blank lines have been skipped.\<close>

definition parse_vocab_line :: "(unicode_text \<Rightarrow> py_literal res) \<Rightarrow> unicode_text \<Rightarrow> (int \<times> byte list) res" where
  "parse_vocab_line lit line =
     bindE (index_space (py_find line [32] 0)) (\<lambda>i.
     bindE (text_int (take i line)) (\<lambda>idx.
     bindE (index_space (py_rfind line [32])) (\<lambda>j.
     bindE (lit (slice line (int i) (int j))) (\<lambda>x.
     bindE (case x of
              LitStr s \<Rightarrow> utf8_encode s
            | LitBytes b \<Rightarrow> Inr b
            | LitOther \<Rightarrow> Inl AssertionError) (\<lambda>b.
     Inr (idx, b))))))"

definition load_line ::
    "(unicode_text \<Rightarrow> py_literal res) \<Rightarrow> (int, byte list) dict \<Rightarrow> unicode_text \<Rightarrow> (int, byte list) dict res" where
  "load_line lit idx2token raw =
     (let line = unicode_strip raw
      in if line = [] then Inr idx2token
         else bindE (parse_vocab_line lit line) (\<lambda>(idx, b). Inr (dict_set idx b idx2token)))"

definition invert_vocab :: "(int, byte list) dict \<Rightarrow> (byte list, int) dict" where
  "invert_vocab idx2token = foldl (\<lambda>d (k, v). dict_set v k d) [] idx2token"

definition vocab_max :: "(int, byte list) dict \<Rightarrow> int res" where
  "vocab_max idx2token =
     (case dict_keys idx2token of
        [] \<Rightarrow> Inl (ValueError ''max() arg is an empty sequence'')
      | k # ks \<Rightarrow> Inr (foldl max k ks))"

definition vocab_list :: "int \<Rightarrow> (int, byte list) dict \<Rightarrow> byte list list res" where
  "vocab_list max_id idx2token =
     foldE (\<lambda>xs (idx, tok). py_set_item xs idx tok) (replicate (nat (max_id + 1)) []) idx2token"

definition build_trie :: "(byte list, int) dict \<Rightarrow> trie_node" where
  "build_trie token2idx = foldl (\<lambda>rt (tok, i). trie_add tok i rt) trie_new token2idx"

definition load_vocab :: "(unicode_text \<Rightarrow> py_literal res) \<Rightarrow> unicode_text list \<Rightarrow> rwkv_tokenizer res" where
  "load_vocab lit file_lines =
     bindE (foldE (load_line lit) [] file_lines) (\<lambda>idx2token.
     bindE (vocab_max idx2token) (\<lambda>max_id.
     bindE (vocab_list max_id idx2token) (\<lambda>idx2token_list.
     let token2idx = invert_vocab idx2token
     in Inr \<lparr>tk_idx2token = idx2token_list, tk_token2idx = token2idx,
             tk_root = build_trie token2idx, tk_special_ids = [0]\<rparr>)))"

text \<open>
  The search for the file: the path given may be the file itself or the directory that has it.
\<close>

definition vocab_file :: unicode_text where
  "vocab_file = map of_char ''rwkv_vocab_v20230424.txt''"

definition find_vocab ::
    "('p \<Rightarrow> bool) \<Rightarrow> ('p \<Rightarrow> bool) \<Rightarrow> ('p \<Rightarrow> bool) \<Rightarrow> ('p \<Rightarrow> unicode_text \<Rightarrow> 'p) \<Rightarrow> 'p option \<Rightarrow> 'p option" where
  "find_vocab is_file is_dir path_exists join vocab_path =
     (case vocab_path of
        None \<Rightarrow> None
      | Some p \<Rightarrow>
          if is_file p then Some p
          else if is_dir p \<and> path_exists (join p vocab_file) then Some (join p vocab_file)
          else None)"

definition tokenizer_init ::
    "(unicode_text \<Rightarrow> py_literal res) \<Rightarrow> ('p \<Rightarrow> unicode_text list) \<Rightarrow> 'p option \<Rightarrow> rwkv_tokenizer res" where
  "tokenizer_init lit read_lines found =
     (case found of
        None \<Rightarrow> Inl FileNotFoundError
      | Some p \<Rightarrow> load_vocab lit (read_lines p))"

text \<open>\<^verbatim>\<open>get_tokenizer\<close> turns every exception into \<^verbatim>\<open>None\<close>.\<close>

definition get_tokenizer :: "rwkv_tokenizer res \<Rightarrow> rwkv_tokenizer option" where
  "get_tokenizer r = (case r of Inl e \<Rightarrow> None | Inr tk \<Rightarrow> Some tk)"

section \<open>Encoding and decoding\<close>

text \<open>The inner loop: \<open>bs\<close> are the bytes from position \<open>j\<close> on.\<close>

fun match_loop :: "byte list \<Rightarrow> nat \<Rightarrow> int \<Rightarrow> nat \<Rightarrow> trie_node option list \<Rightarrow> int \<times> nat" where
  "match_loop [] j token e child_to = (token, e)"
| "match_loop (b # bs) j token e child_to =
     (case child_to ! unat b of
        None \<Rightarrow> (token, e)
      | Some node \<Rightarrow>
          (let tok = tn_token node
           in if tok \<noteq> 0 then match_loop bs (j + 1) tok (j + 1) (tn_to node)
              else match_loop bs (j + 1) token e (tn_to node)))"

lemma match_loop_end: "e \<le> j \<Longrightarrow> e \<le> snd (match_loop bs j token e child_to)"
proof (induction bs j token e child_to rule: match_loop.induct)
  case (2 b bs j token e child_to)
  show ?case
  proof (cases "child_to ! unat b")
    case (Some node)
    have "j + 1 \<le> snd (match_loop bs (j + 1) (tn_token node) (j + 1) (tn_to node))"
      if "tn_token node \<noteq> 0" using 2(1) [OF Some refl that] by simp
    moreover have "e \<le> snd (match_loop bs (j + 1) token e (tn_to node))" if "tn_token node = 0"
      using 2(2) [OF Some refl] that 2(3) by simp
    ultimately show ?thesis using Some 2(3) by (auto simp: Let_def)
  qed (use 2 in simp)
qed simp

function encode_loop :: "trie_node \<Rightarrow> byte list \<Rightarrow> nat \<Rightarrow> token list res" where
  "encode_loop rt src idx =
     (if idx < length src then
        (case tn_to rt ! unat (src ! idx) of
           None \<Rightarrow> Inl AttributeError
         | Some node \<Rightarrow>
             (let (token, e) = match_loop (drop (idx + 1) src) (idx + 1) (tn_token node) (idx + 1) (tn_to node)
              in bindE (encode_loop rt src e) (\<lambda>tokens. Inr ((token - 1) # tokens))))
      else Inr [])"
  by auto
termination
proof (relation "measure (\<lambda>(rt, src, idx). length src - idx)", goal_cases)
  case (2 rt src idx node r token e)
  have "idx + 1 \<le> snd r"
    unfolding 2(3) by (rule match_loop_end) simp
  then have "idx < e" by (simp flip: 2(4))
  with 2(1) show ?case by (simp add: diff_less_mono2)
qed simp

declare encode_loop.simps [simp del]

definition tk_encode :: "rwkv_tokenizer \<Rightarrow> unicode_text \<Rightarrow> token list res" where
  "tk_encode tk t = bindE (utf8_encode t) (\<lambda>src. encode_loop (tk_root tk) src 0)"

definition decode_item :: "rwkv_tokenizer \<Rightarrow> byte list list \<Rightarrow> token \<Rightarrow> byte list list res" where
  "decode_item tk raw tid =
     (if tid < int (length (tk_idx2token tk))
      then bindE (py_item (tk_idx2token tk) tid) (\<lambda>b. Inr (raw @ [b]))
      else Inr raw)"

definition tk_decode :: "rwkv_tokenizer \<Rightarrow> token list \<Rightarrow> unicode_text res" where
  "tk_decode tk ids =
     bindE (foldE (decode_item tk) [] ids) (\<lambda>raw. Inr (utf8_decode_replace (concat raw)))"

definition tk_is_special :: "rwkv_tokenizer \<Rightarrow> token \<Rightarrow> bool" where
  "tk_is_special tk tid \<longleftrightarrow> tid \<in> set (tk_special_ids tk)"

definition tk_token_bytes :: "rwkv_tokenizer \<Rightarrow> token \<Rightarrow> byte list res" where
  "tk_token_bytes tk tid =
     (if tid < int (length (tk_idx2token tk)) then py_item (tk_idx2token tk) tid else Inr [])"

definition tk_eos_token_id :: token where
  "tk_eos_token_id = 0"

section \<open>What the trie holds\<close>

fun trie_find :: "byte list \<Rightarrow> trie_node \<Rightarrow> trie_node option" where
  "trie_find [] n = Some n"
| "trie_find (b # bs) n = (case tn_to n ! unat b of None \<Rightarrow> None | Some m \<Rightarrow> trie_find bs m)"

text \<open>Every node that can be reached has 256 children.\<close>

definition trie_wide :: "trie_node \<Rightarrow> bool" where
  "trie_wide n \<longleftrightarrow> (\<forall>k m. trie_find k n = Some m \<longrightarrow> length (tn_to m) = 256)"

lemma unat_byte_less: "unat (b :: byte) < 256"
  using unsigned_less [of b, where ?'a = nat] by simp

lemma trie_wide_top: "trie_wide n \<Longrightarrow> length (tn_to n) = 256"
  unfolding trie_wide_def using trie_find.simps(1) by blast

lemma trie_wide_child: "trie_wide n \<Longrightarrow> tn_to n ! unat (b :: byte) = Some m \<Longrightarrow> trie_wide m"
  unfolding trie_wide_def
proof (intro allI impI)
  fix k r
  assume a: "\<forall>k r. trie_find k n = Some r \<longrightarrow> length (tn_to r) = 256" "tn_to n ! unat b = Some m"
    "trie_find k m = Some r"
  then have "trie_find (b # k) n = Some r" by simp
  with a(1) show "length (tn_to r) = 256" by blast
qed

lemma trie_find_new: "trie_find k trie_new = (if k = [] then Some trie_new else None)"
  by (cases k) (auto simp: trie_new_def unat_byte_less)

lemma trie_wide_new: "trie_wide trie_new"
  by (simp add: trie_wide_def trie_find_new) (simp add: trie_new_def)

lemma trie_find_append:
  "trie_find (p @ q) n = (case trie_find p n of None \<Rightarrow> None | Some m \<Rightarrow> trie_find q m)"
  by (induction p arbitrary: n) (auto split: option.split)

lemma trie_wide_add: "trie_wide n \<Longrightarrow> trie_wide (trie_add key v n)"
proof (induction key arbitrary: n)
  case (Nil n)
  have "\<exists>k' m'. trie_find k' n = Some m' \<and> tn_to m' = tn_to m" if "trie_find k (trie_add [] v n) = Some m" for k m
  proof (cases k)
    case (Cons b bs)
    then have "trie_find k n = Some m" using that by (cases n) simp
    then show ?thesis by blast
  qed (use that in \<open>cases n; auto intro: exI [of _ "[]"]\<close>)
  with Nil show ?case unfolding trie_wide_def by metis
next
  case (Cons ch key)
  obtain to t where n: "n = TrieNode to t" by (cases n)
  define nxt where "nxt = (case to ! unat ch of None \<Rightarrow> trie_new | Some m \<Rightarrow> m)"
  have "trie_wide nxt"
    using trie_wide_child [OF Cons.prems, of ch] trie_wide_new n
    by (auto simp: nxt_def split: option.split)
  from Cons.IH [OF this] have w: "trie_wide (trie_add key v nxt)" .
  have len: "length to = 256" using trie_wide_top [OF Cons.prems] n by simp
  show ?case unfolding trie_wide_def
  proof (intro allI impI)
    fix k m
    assume f: "trie_find k (trie_add (ch # key) v n) = Some m"
    show "length (tn_to m) = 256"
    proof (cases k)
      case Nil
      with f n len show ?thesis by (auto simp: Let_def)
    next
      case (Cons b bs)
      show ?thesis
      proof (cases "b = ch")
        case True
        with f n Cons len have "trie_find bs (trie_add key v nxt) = Some m"
          by (simp add: nxt_def [symmetric] unat_byte_less)
        with w show ?thesis unfolding trie_wide_def by blast
      next
        case False
        then have "unat ch \<noteq> unat b" by (simp add: word_unat_eq_iff)
        with f n Cons have "trie_find k n = Some m" by (simp add: Let_def)
        with Cons.prems show ?thesis unfolding trie_wide_def by blast
      qed
    qed
  qed
qed

text \<open>The token at the end of a path; \<open>None\<close> where there is no node.\<close>

definition trie_token :: "trie_node \<Rightarrow> byte list \<Rightarrow> int option" where
  "trie_token n k = map_option tn_token (trie_find k n)"

lemma trie_token_simps:
  "trie_token n [] = Some (tn_token n)"
  "trie_token n (b # bs) = (case tn_to n ! unat b of None \<Rightarrow> None | Some m \<Rightarrow> trie_token m bs)"
  "trie_token trie_new k = (if k = [] then Some 0 else None)"
  "tn_token trie_new = 0"
  by (auto simp: trie_token_def trie_find_new split: option.split) (simp_all add: trie_new_def)

lemma trie_token_add:
  assumes "trie_wide n"
  shows "trie_token (trie_add key v n) k =
    (if k = key then Some (v + 1)
     else case trie_token n k of Some t \<Rightarrow> Some t | None \<Rightarrow> if prefix k key then Some 0 else None)"
  using assms
proof (induction key arbitrary: n k)
  case Nil
  then show ?case by (cases n; cases k) (auto simp: trie_token_simps split: option.split)
next
  case (Cons ch key)
  obtain to t where n: "n = TrieNode to t" by (cases n)
  define nxt where "nxt = (case to ! unat ch of None \<Rightarrow> trie_new | Some m \<Rightarrow> m)"
  have wide: "trie_wide nxt"
    using trie_wide_child [OF Cons.prems, of ch] trie_wide_new n
    by (auto simp: nxt_def split: option.split)
  have len: "length to = 256" using trie_wide_top [OF Cons.prems] n by simp
  have add: "trie_add (ch # key) v n = TrieNode (to[unat ch := Some (trie_add key v nxt)]) t"
    by (simp add: n nxt_def)
  show ?case
  proof (cases k)
    case Nil
    then show ?thesis by (simp add: add n trie_token_simps)
  next
    case k: (Cons b bs)
    show ?thesis
    proof (cases "b = ch")
      case True
      have "trie_token (trie_add (ch # key) v n) k = trie_token (trie_add key v nxt) bs"
        using k True len by (simp add: add trie_token_simps unat_byte_less)
      moreover have "trie_token nxt bs = (if to ! unat ch = None \<and> bs = [] then Some 0 else trie_token n k)"
        using k True by (auto simp: nxt_def n trie_token_simps split: option.split)
      moreover have "to ! unat ch = None \<Longrightarrow> trie_token n k = None"
        using k True by (simp add: n trie_token_simps)
      ultimately show ?thesis using Cons.IH [OF wide, of bs] k True by (auto split: option.split)
    next
      case False
      then have "unat ch \<noteq> unat b" by (simp add: word_unat_eq_iff)
      then have "trie_token (trie_add (ch # key) v n) k = trie_token n k"
        using k by (simp add: add n trie_token_simps)
      then show ?thesis using k False by (auto split: option.split)
    qed
  qed
qed

lemma build_trie_spec:
  assumes "dict_ok d"
  shows "trie_wide (build_trie d) \<and> trie_token (build_trie d) k =
    (case dict_get d k of Some i \<Rightarrow> Some (i + 1)
     | None \<Rightarrow> if k = [] \<or> list_ex (prefix k) (dict_keys d) then Some 0 else None)"
  using assms
proof (induction d arbitrary: k rule: rev_induct)
  case Nil
  show ?case by (simp add: build_trie_def trie_wide_new trie_token_simps)
next
  case (snoc p d)
  obtain tok i where p: "p = (tok, i)" by (cases p)
  from snoc.prems have ok: "dict_ok d" "dict_get d tok = None"
    by (auto simp: p map_of_eq_None_iff)
  note IH = snoc.IH [OF ok(1)]
  have b: "build_trie (d @ [p]) = trie_add tok i (build_trie d)" by (simp add: build_trie_def p)
  have wide: "trie_wide (build_trie d)" using IH by blast
  have get: "dict_get (d @ [p]) k = (if k = tok then Some i else dict_get d k)"
    using ok(2) by (auto simp: p map_add_def split: option.split)
  show ?case
    unfolding b get trie_token_add [OF wide] using trie_wide_add [OF wide] IH [of k]
    by (auto simp: p split: option.split)
qed

section \<open>The encoder takes the longest entry\<close>

text \<open>The largest \<open>n\<close> between 1 and \<open>m\<close> with \<open>P n\<close>\<close>

definition find_largest :: "(nat \<Rightarrow> bool) \<Rightarrow> nat \<Rightarrow> nat option" where
  "find_largest P m = find P (rev [1..<Suc m])"

lemma find_largest_0: "find_largest P 0 = None"
  by (simp add: find_largest_def)

lemma find_largest_Suc:
  "find_largest P (Suc m) =
     (case find_largest (P \<circ> Suc) m of Some n \<Rightarrow> Some (Suc n) | None \<Rightarrow> if P 1 then Some 1 else None)"
proof -
  have "[1..<Suc (Suc m)] = 1 # map Suc [1..<Suc m]" by (simp only: map_Suc_upt upt_conv_Cons)
  then have "rev [1..<Suc (Suc m)] = map Suc (rev [1..<Suc m]) @ [1]" by (simp only: rev.simps rev_map)
  then show ?thesis
    by (simp only: find_largest_def find_append find_map_fun) (auto split: option.split)
qed

lemma find_largest_le: "find_largest P m = Some n \<Longrightarrow> 1 \<le> n \<and> n \<le> m \<and> P n"
  unfolding find_largest_def using find_SomeD by fastforce

lemma find_largest_cong: "(\<And>n. 1 \<le> n \<Longrightarrow> n \<le> m \<Longrightarrow> P n = Q n) \<Longrightarrow> find_largest P m = find_largest Q m"
  unfolding find_largest_def by (rule find_cong_set) auto

text \<open>There is a token at \<open>k\<close>.\<close>

definition has_token :: "trie_node \<Rightarrow> byte list \<Rightarrow> bool" where
  "has_token n k \<longleftrightarrow> trie_token n k \<noteq> None \<and> trie_token n k \<noteq> Some 0"

lemma has_token_child:
  "has_token n (b # bs) = (case tn_to n ! unat b of None \<Rightarrow> False | Some m \<Rightarrow> has_token m bs)"
  "has_token n [] = (tn_token n \<noteq> 0)"
  by (auto simp: has_token_def trie_token_simps split: option.split)

lemma find_largest_False: "find_largest (\<lambda>n. False) m = None"
  by (simp add: find_largest_def find_None_iff)

lemma match_loop_longest:
  "match_loop bs j token e (tn_to node) =
     (case find_largest (\<lambda>n. has_token node (take n bs)) (length bs) of
        None \<Rightarrow> (token, e)
      | Some n \<Rightarrow> (the (trie_token node (take n bs)), j + n))"
proof (induction bs arbitrary: j token e node)
  case (Cons b bs)
  show ?case
  proof (cases "tn_to node ! unat b")
    case None
    have "find_largest (\<lambda>n. has_token node (take n (b # bs))) (length (b # bs)) = find_largest (\<lambda>n. False) (length (b # bs))"
      by (rule find_largest_cong) (auto simp: take_Cons' has_token_child None)
    then show ?thesis by (simp add: None find_largest_False)
  next
    case (Some m)
    have l: "find_largest (\<lambda>n. has_token node (take n (b # bs))) (length (b # bs)) =
      (case find_largest (\<lambda>n. has_token m (take n bs)) (length bs) of Some n \<Rightarrow> Some (Suc n)
       | None \<Rightarrow> if tn_token m \<noteq> 0 then Some 1 else None)"
      by (simp add: find_largest_Suc o_def Some has_token_child)
    show ?thesis unfolding l
      by (auto simp: Some Cons.IH trie_token_simps split: option.split)
  qed
qed (simp add: find_largest_0)

text \<open>
  The reference: greedy encoding over the vocabulary itself. Where no entry fits, a byte that
  begins some entry gives -1 and any other byte is an error.
\<close>

definition longest_entry :: "(byte list, int) dict \<Rightarrow> byte list \<Rightarrow> nat option" where
  "longest_entry d src = find_largest (\<lambda>n. dict_has d (take n src)) (length src)"

function greedy_encode :: "(byte list, int) dict \<Rightarrow> byte list \<Rightarrow> token list res" where
  "greedy_encode d src =
     (case src of
        [] \<Rightarrow> Inr []
      | b # bs \<Rightarrow>
          (case longest_entry d src of
             Some n \<Rightarrow>
               bindE (dict_item d (take n src)) (\<lambda>i.
               bindE (greedy_encode d (drop n src)) (\<lambda>ts. Inr (i # ts)))
           | None \<Rightarrow>
               if list_ex (prefix [b]) (dict_keys d)
               then bindE (greedy_encode d bs) (\<lambda>ts. Inr (-1 # ts))
               else Inl AttributeError))"
  by auto
termination
  by (relation "measure (\<lambda>(d, src). length src)")
     (auto simp: longest_entry_def dest!: find_largest_le)

declare greedy_encode.simps [simp del]

lemma encode_loop_greedy:
  assumes "dict_ok d" and "\<And>i. i \<in> snd ` set d \<Longrightarrow> 0 \<le> i"
  shows "encode_loop (build_trie d) src idx = greedy_encode d (drop idx src)"
proof -
  define rt where "rt = build_trie d"
  note spec = build_trie_spec [OF assms(1), folded rt_def]
  have pos: "0 \<le> i" if "dict_get d k = Some i" for k i
    using assms(2) dict_get_in [OF that] by force
  have has: "has_token rt k \<longleftrightarrow> dict_has d k" for k
  proof (cases "dict_get d k")
    case (Some i)
    then show ?thesis using spec [of k] pos [OF Some] by (simp add: has_token_def dict_has_iff)
  next
    case None
    then show ?thesis using spec [of k] by (simp add: has_token_def dict_has_iff)
  qed
  have tok: "trie_token rt k = Some (i + 1)" if "dict_get d k = Some i" for k i
    using spec [of k] that by simp
  have "encode_loop rt src idx = greedy_encode d (drop idx src)"
  proof (induction "length src - idx" arbitrary: idx rule: less_induct)
    case less
    show ?case
    proof (cases "idx < length src")
      case False
      then show ?thesis by (simp add: encode_loop.simps greedy_encode.simps)
    next
      case True
      define b bs where b: "b = src ! idx" "bs = drop (idx + 1) src"
      then have src: "drop idx src = b # bs" using True by (simp add: Cons_nth_drop_Suc)
      have IH: "encode_loop rt src (idx + n) = greedy_encode d (drop n (b # bs))" if "0 < n" for n
        using less [of "idx + n"] True that by (simp add: src [symmetric] add.commute)
      show ?thesis
      proof (cases "tn_to rt ! unat b")
        case None
        have "longest_entry d (b # bs) = find_largest (\<lambda>n. False) (length (b # bs))"
          unfolding longest_entry_def
          by (rule find_largest_cong) (auto simp: take_Cons' has_token_child None simp flip: has)
        moreover have "trie_token rt [b] = None" by (simp add: trie_token_simps None)
        then have "\<not> list_ex (prefix [b]) (dict_keys d)" using spec [of "[b]"] by (auto split: option.splits)
        ultimately show ?thesis using True None
          by (simp add: src encode_loop.simps [of rt src idx] greedy_encode.simps [of d "b # bs"] b(1) [symmetric]
              find_largest_False)
      next
        case (Some m)
        have l: "longest_entry d (b # bs) =
          (case find_largest (\<lambda>n. has_token m (take n bs)) (length bs) of Some n \<Rightarrow> Some (Suc n)
           | None \<Rightarrow> if tn_token m \<noteq> 0 then Some 1 else None)"
          unfolding longest_entry_def
          by (simp add: find_largest_Suc o_def Some has_token_child flip: has)
        have step: "encode_loop rt src idx =
          (let (token, e) = match_loop bs (idx + 1) (tn_token m) (idx + 1) (tn_to m)
           in bindE (encode_loop rt src e) (\<lambda>tokens. Inr ((token - 1) # tokens)))"
          using True Some by (subst encode_loop.simps) (simp add: b)
        have val: "trie_token rt (b # k) = trie_token m k" for k by (simp add: trie_token_simps Some)
        show ?thesis
        proof (cases "find_largest (\<lambda>n. has_token m (take n bs)) (length bs)")
          case (Some n)
          then have "has_token rt (b # take n bs)"
            using find_largest_le by (fastforce simp: has_token_child \<open>tn_to rt ! unat b = Some m\<close>)
          then obtain i where i: "dict_get d (b # take n bs) = Some i" by (auto simp: has dict_has_iff)
          from tok [OF i] have "the (trie_token m (take n bs)) - 1 = i" by (simp add: val)
          then show ?thesis using i IH [of "Suc n"]
            by (simp add: step match_loop_longest Some src greedy_encode.simps [of d "b # bs"] l dict_item_def)
        next
          case None
          show ?thesis
          proof (cases "tn_token m = 0")
            case True
            then have "trie_token rt [b] = Some 0" by (simp add: val trie_token_simps(1))
            then have "list_ex (prefix [b]) (dict_keys d)"
              using spec [of "[b]"] pos [of "[b]"] by (fastforce split: option.splits if_splits)
            then show ?thesis using True IH [of 1]
              by (simp add: step match_loop_longest None src greedy_encode.simps [of d "b # bs"] l)
          next
            case False
            then have "has_token rt [b]" by (simp add: has_token_child \<open>tn_to rt ! unat b = Some m\<close>)
            then obtain i where i: "dict_get d [b] = Some i" by (auto simp: has dict_has_iff)
            from tok [OF i] have "tn_token m - 1 = i" by (simp add: val trie_token_simps(1))
            then show ?thesis using i False IH [of 1]
              by (simp add: step match_loop_longest None src greedy_encode.simps [of d "b # bs"] l dict_item_def)
          qed
        qed
      qed
    qed
  qed
  then show ?thesis by (simp add: rt_def)
qed

section \<open>The loaded vocabulary\<close>

lemma load_lines_ok: "foldE (load_line lit) [] file_lines = Inr v \<Longrightarrow> dict_ok v"
  by (erule foldE_invariant) (auto simp: load_line_def Let_def split: if_splits intro: dict_ok_set)

lemma invert_vocab_snoc: "invert_vocab (v @ [(k, b)]) = dict_set b k (invert_vocab v)"
  by (simp add: invert_vocab_def)

lemma invert_vocab_ok: "dict_ok (invert_vocab v)"
proof (induction v rule: rev_induct)
  case (snoc p v)
  then show ?case by (cases p) (simp only: invert_vocab_snoc dict_ok_set)
qed (simp add: invert_vocab_def)

lemma invert_vocab_keys: "set (dict_keys (invert_vocab v)) = snd ` set v"
proof (induction v rule: rev_induct)
  case (snoc p v)
  obtain k b where "p = (k, b)" by (cases p)
  then show ?case using snoc by (simp only: invert_vocab_snoc dict_keys_set) auto
qed (simp add: invert_vocab_def)

lemma invert_vocab_get: "dict_ok v \<Longrightarrow> dict_get (invert_vocab v) tok = Some i \<Longrightarrow> dict_get v i = Some tok"
proof (induction v rule: rev_induct)
  case (snoc p v)
  obtain k b where p: "p = (k, b)" by (cases p)
  from snoc.prems(1) have ok: "dict_ok v" "dict_get v k = None" by (auto simp: p map_of_eq_None_iff)
  have get: "([k \<mapsto> b] ++ dict_get v) j = (if j = k then Some b else dict_get v j)" for j
    using ok(2) by (auto simp: map_add_def split: option.split)
  show ?case
  proof (cases "tok = b")
    case True
    then have "i = k" using snoc.prems(2) by (simp add: p invert_vocab_snoc)
    then show ?thesis by (simp add: p get True)
  next
    case False
    then have "dict_get v i = Some tok" using snoc.IH [OF ok(1)] snoc.prems(2) by (simp add: p invert_vocab_snoc)
    then show ?thesis using ok(2) by (auto simp: p get)
  qed
qed (simp add: invert_vocab_def)

lemma invert_vocab_ids:
  assumes "dict_ok v" and "i \<in> snd ` set (invert_vocab v)"
  shows "i \<in> set (dict_keys v)"
proof -
  from assms(2) obtain tok where "(tok, i) \<in> set (invert_vocab v)" by auto
  then have "dict_get v i = Some tok" by (intro invert_vocab_get [OF assms(1)] dict_in_get [OF invert_vocab_ok])
  then show ?thesis by (metis dict_get_None_keys option.distinct(1))
qed

lemma vocab_list_spec:
  assumes "dict_ok v" and "\<forall>i \<in> set (dict_keys v). 0 \<le> i" and "vocab_list m v = Inr xs"
  shows "dict_get v i = Some b \<Longrightarrow> 0 \<le> i \<and> i < int (length xs) \<and> xs ! nat i = b"
proof -
  let ?P = "\<lambda>ys s. \<forall>(k, b) \<in> set ys. 0 \<le> k \<and> k < int (length s) \<and> s ! nat k = (b :: byte list)"
  have "?P v xs"
    using assms(3) unfolding vocab_list_def
  proof (rule foldE_prefix)
    fix ys x zs and s s' :: "byte list list"
    assume v: "v = ys @ x # zs" and P: "?P ys s"
      and st: "(case x of (idx, tok) \<Rightarrow> py_set_item s idx tok) = Inr s'"
    obtain k b where x: "x = (k, b)" by (cases x)
    from v x assms(1,2) have k: "0 \<le> k" "k \<notin> fst ` set ys" by auto
    with st x have s': "s' = s[nat k := b]" "k < int (length s)"
      by (auto simp: py_set_item_def py_pos_def split: if_splits)
    have "nat k \<noteq> nat j" if "(j, c) \<in> set ys" for j c
      using that k P by (force simp: nat_eq_iff2)
    with P k s' show "?P (ys @ [x]) s'" by (fastforce simp: x)
  qed simp
  then show "dict_get v i = Some b \<Longrightarrow> 0 \<le> i \<and> i < int (length xs) \<and> xs ! nat i = b"
    using dict_get_in by fastforce
qed

text \<open>A vocabulary file whose ids are not negative, and the tokenizer it gives.\<close>

lemma load_vocab_spec:
  assumes "foldE (load_line lit) [] file_lines = Inr v" and "\<forall>i \<in> set (dict_keys v). 0 \<le> i"
    and "load_vocab lit file_lines = Inr tk"
  shows "tk_token2idx tk = invert_vocab v" "tk_root tk = build_trie (invert_vocab v)"
    and "tk_special_ids tk = [0]"
    and "dict_get v i = Some b \<Longrightarrow> 0 \<le> i \<and> i < int (length (tk_idx2token tk)) \<and> tk_idx2token tk ! nat i = b"
proof -
  from assms(1,3) obtain m xs where m: "vocab_list m v = Inr xs" "tk = \<lparr>tk_idx2token = xs,
      tk_token2idx = invert_vocab v, tk_root = build_trie (invert_vocab v), tk_special_ids = [0]\<rparr>"
    by (auto simp: load_vocab_def Let_def)
  show "dict_get v i = Some b \<Longrightarrow> 0 \<le> i \<and> i < int (length (tk_idx2token tk)) \<and> tk_idx2token tk ! nat i = b"
    using vocab_list_spec [OF load_lines_ok [OF assms(1)] assms(2) m(1)] by (simp add: m(2))
qed (use assms in \<open>auto simp: load_vocab_def Let_def\<close>)

text \<open>
  C10: the trie encoder is greedy longest-match encoding over the vocabulary, for every text and
  every vocabulary file with ids that are not negative. At a byte where no entry fits it emits
  -1 when the byte begins some entry and raises AttributeError when it does not.
\<close>

theorem encode_is_greedy:
  assumes "foldE (load_line lit) [] file_lines = Inr v" and "\<forall>i \<in> set (dict_keys v). 0 \<le> i"
    and "load_vocab lit file_lines = Inr tk"
  shows "tk_encode tk t = bindE (utf8_encode t) (greedy_encode (tk_token2idx tk))"
proof -
  note ok = load_lines_ok [OF assms(1)]
  have "0 \<le> i" if "i \<in> snd ` set (invert_vocab v)" for i
    using assms(2) invert_vocab_ids [OF ok that] by blast
  from encode_loop_greedy [OF invert_vocab_ok this, where idx = 0] show ?thesis
    by (simp add: tk_encode_def load_vocab_spec [OF assms])
qed

lemma greedy_decodes:
  assumes "dict_ok v" and "\<forall>b \<in> set src. dict_has (invert_vocab v) [b]"
  shows "\<exists>ids. greedy_encode (invert_vocab v) src = Inr ids \<and> concat (map (\<lambda>i. the (dict_get v i)) ids) = src \<and>
    (\<forall>i \<in> set ids. dict_get v i \<noteq> None)"
  using assms(2)
proof (induction "length src" arbitrary: src rule: less_induct)
  case less
  show ?case
  proof (cases src)
    case (Cons b bs)
    let ?d = "invert_vocab v"
    have "dict_has ?d (take 1 src)" using less.prems Cons by simp
    then have "longest_entry ?d src \<noteq> None"
      unfolding longest_entry_def find_largest_def find_None_iff using Cons
      by (auto simp del: upt_Suc intro!: exI [of _ 1])
    then obtain n where n: "longest_entry ?d src = Some n" by blast
    then have le: "1 \<le> n" "n \<le> length src" "dict_has ?d (take n src)"
      unfolding longest_entry_def using find_largest_le by blast+
    then obtain i where i: "dict_get ?d (take n src) = Some i" by (auto simp: dict_has_iff)
    have "\<forall>b \<in> set (drop n src). dict_has ?d [b]" using less.prems in_set_dropD by fast
    with less.hyps [of "drop n src"] le Cons obtain ids where ids: "greedy_encode ?d (drop n src) = Inr ids"
      "concat (map (\<lambda>i. the (dict_get v i)) ids) = drop n src" "\<forall>i \<in> set ids. dict_get v i \<noteq> None"
      by auto
    have "greedy_encode ?d src = Inr (i # ids)"
      by (subst greedy_encode.simps) (use n i ids(1) Cons in \<open>simp add: dict_item_def\<close>)
    moreover have "dict_get v i = Some (take n src)" by (rule invert_vocab_get [OF assms(1) i])
    ultimately show ?thesis using ids(2,3) by (intro exI [of _ "i # ids"]) simp
  qed (simp add: greedy_encode.simps)
qed

text \<open>
  C17: decoding what was encoded gives the text back, for every text whose bytes are each an entry
  of the vocabulary by themselves (the real vocabulary has all 256 of them); encoding raises no
  exception then.
\<close>

theorem decode_encode:
  assumes "foldE (load_line lit) [] file_lines = Inr v" and "\<forall>i \<in> set (dict_keys v). 0 \<le> i"
    and "load_vocab lit file_lines = Inr tk"
    and "list_all scalar t" and "\<forall>b \<in> set (concat (map utf8_char t)). dict_has (tk_token2idx tk) [b]"
  shows "\<exists>ids. tk_encode tk t = Inr ids \<and> tk_decode tk ids = Inr t"
proof -
  let ?src = "concat (map utf8_char t)"
  note ok = load_lines_ok [OF assms(1)] and tk = load_vocab_spec [OF assms(1-3)]
  obtain ids where ids:
    "greedy_encode (invert_vocab v) ?src = Inr ids" "concat (map (\<lambda>i. the (dict_get v i)) ids) = ?src"
    "\<forall>i \<in> set ids. dict_get v i \<noteq> None"
    using greedy_decodes [OF ok, of ?src] assms(5) unfolding tk(1) by blast
  have "foldE (decode_item tk) raw ids = Inr (raw @ map (\<lambda>i. the (dict_get v i)) ids)" for raw
    using ids(3)
  proof (induction ids arbitrary: raw)
    case (Cons i ids)
    from Cons.prems obtain b where "dict_get v i = Some b" by auto
    with tk(4) [OF this] have "decode_item tk raw i = Inr (raw @ [the (dict_get v i)])"
      by (simp add: decode_item_def py_item_def py_pos_def)
    with Cons.IH [of "raw @ [the (dict_get v i)]"] Cons.prems show ?case by simp
  qed simp
  then have "tk_decode tk ids = Inr (utf8_decode_replace ?src)" by (simp add: tk_decode_def ids(2))
  moreover have "utf8_decode_replace ?src = t" by (rule utf8_lossy_encoded [OF assms(4)])
  moreover have "tk_encode tk t = Inr ids"
    using ids(1) by (simp add: encode_is_greedy [OF assms(1-3)] utf8_encode_scalars [OF assms(4)] tk(1))
  ultimately show ?thesis by simp
qed

subsection \<open>A small vocabulary\<close>

text \<open>
  The entries 1 \<^verbatim>\<open>a\<close>, 2 \<^verbatim>\<open>ab\<close> and 3 \<^verbatim>\<open>b\<close>, and a literal reader for quoted ASCII
  letters.
\<close>

definition demo_lit :: "unicode_text \<Rightarrow> py_literal res" where
  "demo_lit s = Inr (LitStr (filter (\<lambda>c. 97 \<le> c \<and> c \<le> 122) s))"

definition demo_lines :: "unicode_text list" where
  "demo_lines = [[49, 32, 39, 97, 39, 32, 49, 10], [50, 32, 39, 97, 98, 39, 32, 50, 10],
     [10], [51, 32, 39, 98, 39, 32, 49, 10]]"

definition demo_vocab :: "(int, byte list) dict" where
  "demo_vocab = [(1, [97]), (2, [97, 98]), (3, [98])]"

lemma demo_ids: "text_int [49] = Inr 1" "text_int [50] = Inr 2" "text_int [51] = Inr 3"
proof -
  have "char_of (49 :: nat) = CHR ''1''" "char_of (50 :: nat) = CHR ''2''" "char_of (51 :: nat) = CHR ''3''"
    by code_simp+
  moreover have "py_int ''1'' = Inr 1" "py_int ''2'' = Inr 2" "py_int ''3'' = Inr 3" by code_simp+
  ultimately show "text_int [49] = Inr 1" "text_int [50] = Inr 2" "text_int [51] = Inr 3"
    by (simp_all add: text_int_def)
qed

lemmas load_line_eval = load_line_def parse_vocab_line_def unicode_strip_def unicode_space_def
  index_space_def py_find_def py_rfind_def slice_def slice_to_def slice_end_def

lemmas utf8_encode_eval = utf8_encode_def surrogate_def utf8_char_def

lemmas greedy_eval = greedy_encode.simps longest_entry_def find_largest_def dict_has_def dict_item_def
  invert_vocab_def upt_conv_Cons

lemma demo_lines_load: "foldE (load_line demo_lit) [] demo_lines = Inr demo_vocab"
  by (simp add: demo_lines_def demo_vocab_def load_line_eval utf8_encode_eval demo_ids demo_lit_def upt_conv_Cons)

definition demo_tokenizer :: rwkv_tokenizer where
  "demo_tokenizer =
     \<lparr>tk_idx2token = [[], [97], [97, 98], [98]], tk_token2idx = invert_vocab demo_vocab,
      tk_root = build_trie (invert_vocab demo_vocab), tk_special_ids = [0]\<rparr>"

lemma demo_load_vocab: "load_vocab demo_lit demo_lines = Inr demo_tokenizer"
proof -
  have "vocab_max demo_vocab = Inr 3" "vocab_list 3 demo_vocab = Inr [[], [97], [97, 98], [98]]"
    by (simp_all add: vocab_max_def demo_vocab_def vocab_list_def py_set_item_def py_pos_def eval_nat_numeral)
  then show ?thesis by (simp add: load_vocab_def demo_lines_load demo_tokenizer_def Let_def)
qed

lemma demo_vocab_ids: "\<forall>i \<in> set (dict_keys demo_vocab). 0 \<le> i"
  by (simp add: demo_vocab_def)

lemma demo_token2idx: "tk_token2idx demo_tokenizer = [([97], 1), ([97, 98], 2), ([98], 3)]"
  by (simp add: demo_tokenizer_def demo_vocab_def invert_vocab_def)

theorem encode_is_greedy_witness: "tk_encode demo_tokenizer [97, 98, 97] = Inr [2, 1]"
  by (simp add: encode_is_greedy [OF demo_lines_load demo_vocab_ids demo_load_vocab] demo_token2idx
      greedy_eval utf8_encode_eval)

theorem decode_encode_witness:
  "\<exists>ids. tk_encode demo_tokenizer [97, 98, 97] = Inr ids \<and> tk_decode demo_tokenizer ids = Inr [97, 98, 97]"
  by (rule decode_encode [OF demo_lines_load demo_vocab_ids demo_load_vocab])
     (simp_all add: scalar_def surrogate_def utf8_char_def demo_token2idx dict_has_def)

end
