(* ===== verification/Input_Processor.thy ===== *)
theory Input_Processor
  imports Config Request Tokenizer
begin

text \<open>
  \<^verbatim>\<open>vkwr/engine/input_processor.py\<close>, the identifiers of \<^verbatim>\<open>vkwr/utils.py\<close> and the chat
  template of \<^verbatim>\<open>vkwr/engine/prompts.py\<close>.

  \<open>process_input\<close> is given the random number \<open>u\<close> of \<^verbatim>\<open>uuid.uuid4()\<close> and the time \<open>now\<close>. The code
  writes the inferred end token and token limit into the caller's \<^verbatim>\<open>SamplingParams\<close>; the updated
  parameters are therefore a second result. A chat message is a pair of its optional role and
  content.

  The lemmas show what an accepted request satisfies and that identifiers can be told apart.
\<close>

section \<open>Identifiers\<close>

definition hex_digit :: "nat \<Rightarrow> char" where
  "hex_digit n = ''0123456789abcdef'' ! (n mod 16)"

text \<open>\<open>n\<close> in \<open>k\<close> hexadecimal digits\<close>

fun hex_digits :: "nat \<Rightarrow> nat \<Rightarrow> string" where
  "hex_digits 0 n = []"
| "hex_digits (Suc k) n = hex_digits k (n div 16) @ [hex_digit n]"

definition MASK_64_BITS :: "128 word" where
  "MASK_64_BITS = push_bit 64 1 - 1"

text \<open>A number below \<open>2 ^ 64\<close> has at most the 16 digits of the format.\<close>

definition random_uuid :: "128 word \<Rightarrow> string" where
  "random_uuid u = hex_digits 16 (unat (and u MASK_64_BITS))"

definition generate_request_id :: "128 word \<Rightarrow> string \<Rightarrow> rid" where
  "generate_request_id u pre = pre @ ''-'' @ take 8 (random_uuid u)"

definition assign_request_id :: "128 word \<Rightarrow> vreq \<Rightarrow> vreq" where
  "assign_request_id u r =
     r\<lparr>external_req_id := Some (request_id r), request_id := request_id r @ ''-'' @ take 8 (random_uuid u)\<rparr>"

lemma hex_digits_length [simp]: "length (hex_digits k n) = k"
  by (induction k arbitrary: n) auto

lemma hex_digit_inj: "hex_digit a = hex_digit b \<longleftrightarrow> a mod 16 = b mod 16"
proof
  have "distinct ''0123456789abcdef''" by simp
  moreover assume "hex_digit a = hex_digit b"
  ultimately show "a mod 16 = b mod 16" by (simp add: hex_digit_def nth_eq_iff_index_eq)
qed (simp add: hex_digit_def)

lemma hex_digits_inj: "hex_digits k a = hex_digits k b \<longleftrightarrow> a mod 16 ^ k = b mod 16 ^ k"
proof (induction k arbitrary: a b)
  case (Suc k)
  have split: "n mod 16 ^ Suc k = (n div 16 mod 16 ^ k) * 16 + n mod 16" for n :: nat
    using mod_mult2_eq [of n 16 "16 ^ k"] by (simp add: mult.commute)
  have pair: "x * 16 + p = y * 16 + q \<longleftrightarrow> x = y \<and> p = q" if "p < 16" "q < 16" for x y p q :: nat
    using div_digit [OF that(1), of x] div_digit [OF that(2), of y] by metis
  have "a mod 16 ^ Suc k = b mod 16 ^ Suc k \<longleftrightarrow>
      a div 16 mod 16 ^ k = b div 16 mod 16 ^ k \<and> a mod 16 = b mod 16"
    unfolding split by (rule pair) simp_all
  then show ?case using Suc [of "a div 16" "b div 16"] by (simp add: hex_digit_inj del: power_Suc)
qed simp

lemma hex_digits_take: "j \<le> k \<Longrightarrow> take j (hex_digits k n) = hex_digits j (n div 16 ^ (k - j))"
proof (induction k arbitrary: n)
  case (Suc k)
  show ?case
  proof (cases "j = Suc k")
    case False
    then have "j \<le> k" "Suc k - j = Suc (k - j)" using Suc.prems by auto
    then show ?thesis using Suc.IH [of "n div 16"] by (simp add: div_mult2_eq)
  qed simp
qed simp

text \<open>
  The identifier of a request keeps the user's and eight more hexadecimal digits, the upper half
  of the random 64 bits; two requests get the same one only when both parts agree.
\<close>

lemma internal_id_inj:
  "request_id (assign_request_id u r) = request_id (assign_request_id v s) \<longleftrightarrow>
     request_id r = request_id s \<and>
     unat (and u MASK_64_BITS) div 2 ^ 32 mod 2 ^ 32 = unat (and v MASK_64_BITS) div 2 ^ 32 mod 2 ^ 32"
proof -
  have "take 8 (random_uuid w) = hex_digits 8 (unat (and w MASK_64_BITS) div 2 ^ 32)" for w
    using hex_digits_take [of 8 16 "unat (and w MASK_64_BITS)"] by (simp add: random_uuid_def)
  then show ?thesis
    by (simp add: assign_request_id_def hex_digits_inj)
qed

section \<open>The input processor\<close>

record input_processor =
  ip_max_model_len :: "int option"
  ip_scheduler_config :: "scheduler_config option"
  ip_tokenizer :: "rwkv_tokenizer option"

definition get_max_prompt_len :: "input_processor \<Rightarrow> int option" where
  "get_max_prompt_len ip =
     (case ip_max_model_len ip of
        Some m \<Rightarrow> Some m
      | None \<Rightarrow> map_option max_num_batched_tokens (ip_scheduler_config ip))"

text \<open>The tokenizer's own end token is never None.\<close>

definition inject_eos_token_id :: "input_processor \<Rightarrow> sampling_params \<Rightarrow> sampling_params" where
  "inject_eos_token_id ip sp =
     (if sp_eos_token_id sp \<noteq> None then sp
      else case ip_tokenizer ip of
        Some tk \<Rightarrow> sp\<lparr>sp_eos_token_id := Some tk_eos_token_id\<rparr>
      | None \<Rightarrow>
          (case ip_scheduler_config ip of
             Some c \<Rightarrow> sp\<lparr>sp_eos_token_id := Some (sc_eos_token_id c)\<rparr>
           | None \<Rightarrow> sp\<lparr>sp_eos_token_id := Some 0\<rparr>))"

definition infer_max_tokens :: "input_processor \<Rightarrow> token list \<Rightarrow> sampling_params \<Rightarrow> sampling_params" where
  "infer_max_tokens ip toks sp =
     (if sp_max_tokens sp \<noteq> None then sp
      else case Option.bind (ip_scheduler_config ip) default_max_tokens of
        Some m \<Rightarrow> sp\<lparr>sp_max_tokens := Some m\<rparr>
      | None \<Rightarrow>
          (case get_max_prompt_len ip of
             Some m \<Rightarrow> sp\<lparr>sp_max_tokens := Some (max (m - int (length toks)) 1)\<rparr>
           | None \<Rightarrow> sp\<lparr>sp_max_tokens := Some 2048\<rparr>))"

definition tokenize_prompt :: "input_processor \<Rightarrow> prompt_input \<Rightarrow> token list res" where
  "tokenize_prompt ip p =
     (case p of
        PromptText t \<Rightarrow>
          if t = [] then Inl (ValueError ''prompt cannot be empty'')
          else (case ip_tokenizer ip of
                  None \<Rightarrow> Inl (RuntimeError ''Cannot encode text prompt'')
                | Some tk \<Rightarrow> tk_encode tk t)
      | PromptTokens ts \<Rightarrow>
          if ts = [] then Inl (ValueError ''prompt_token_ids cannot be empty'') else Inr ts)"

definition truncate_prompt :: "input_processor \<Rightarrow> token list \<Rightarrow> token list" where
  "truncate_prompt ip toks =
     (case get_max_prompt_len ip of
        None \<Rightarrow> toks
      | Some m \<Rightarrow> if int (length toks) > m then slice_to toks m else toks)"

definition process_input ::
    "128 word \<Rightarrow> real \<Rightarrow> input_processor \<Rightarrow> rid \<Rightarrow> prompt_input \<Rightarrow> sampling_params \<Rightarrow> (vreq \<times> sampling_params) res" where
  "process_input u now ip rid p sp =
     (if rid = [] then Inl (ValueError ''request_id cannot be empty'')
      else
        bindE (tokenize_prompt ip p) (\<lambda>toks0.
        let toks = truncate_prompt ip toks0;
            sp' = infer_max_tokens ip toks (inject_eos_token_id ip sp)
        in Inr (assign_request_id u (new_vreq now rid p toks sp' now 0), sp')))"

subsection \<open>What an accepted request satisfies\<close>

lemma match_loop_nonempty: "encode_loop rt src 0 = Inr ids \<Longrightarrow> src \<noteq> [] \<Longrightarrow> ids \<noteq> []"
  by (subst (asm) encode_loop.simps) (auto split: option.split_asm simp: Let_def case_prod_unfold)

lemma tk_encode_nonempty: "tk_encode tk t = Inr ids \<Longrightarrow> t \<noteq> [] \<Longrightarrow> ids \<noteq> []"
proof -
  assume t: "tk_encode tk t = Inr ids" "t \<noteq> []"
  then obtain c cs where "t = c # cs" by (cases t) auto
  then have "concat (map utf8_char t) \<noteq> []" using utf8_char_ne [of c] by simp
  moreover from t(1) have "encode_loop (tk_root tk) (concat (map utf8_char t)) 0 = Inr ids"
    by (auto simp: tk_encode_def utf8_encode_def split: if_split_asm)
  ultimately show "ids \<noteq> []" using match_loop_nonempty by blast
qed

lemma tokenize_prompt_nonempty: "tokenize_prompt ip p = Inr toks \<Longrightarrow> toks \<noteq> []"
  using tk_encode_nonempty
  by (fastforce simp: tokenize_prompt_def split: prompt_input.split_asm if_split_asm option.split_asm)

lemma process_input_cases:
  assumes "process_input u now ip i p sp = Inr (r, sp')"
  obtains toks where "i \<noteq> []" "tokenize_prompt ip p = Inr toks"
    "prompt_token_ids r = truncate_prompt ip toks" "req_sampling_params r = sp'"
    "external_req_id r = Some i" "request_id r = i @ ''-'' @ take 8 (random_uuid u)"
    "num_computed_tokens r = 0" "status r = WAITING" "prompt r = p"
    "sp' = infer_max_tokens ip (prompt_token_ids r) (inject_eos_token_id ip sp)"
  using assms
  by (auto simp: process_input_def assign_request_id_def new_vreq_def Let_def split: if_split_asm)

lemma inferred_params:
  assumes "sp' = infer_max_tokens ip toks (inject_eos_token_id ip sp)"
  shows "sp_eos_token_id sp' \<noteq> None" "sp_max_tokens sp' \<noteq> None"
    "sp_eos_token_id sp \<noteq> None \<Longrightarrow> sp_eos_token_id sp' = sp_eos_token_id sp"
    "sp_max_tokens sp \<noteq> None \<Longrightarrow> sp_max_tokens sp' = sp_max_tokens sp"
    "sp_max_tokens sp = None \<Longrightarrow> Option.bind (ip_scheduler_config ip) default_max_tokens = None \<Longrightarrow>
      get_max_prompt_len ip = Some m \<Longrightarrow> sp_max_tokens sp' = Some (max (m - int (length toks)) 1)"
  using assms
  by (auto simp: infer_max_tokens_def inject_eos_token_id_def split: option.splits if_splits)

text \<open>
  C18: what the input processor accepts. With a positive limit \<open>m\<close> on the prompt length, an
  accepted request has between 1 and \<open>m\<close> prompt tokens, the first ones of the prompt given; it
  has an end token, keeps the token limit it came with, and where the limit is inferred from the
  model length, prompt and output fit into it together, except that a prompt that fills it still
  gets one token. In particular a longer prompt is not rejected but cut to exactly \<open>m\<close> tokens.
\<close>

theorem accepted_request_bounds:
  assumes "process_input u now ip i p sp = Inr (r, sp')" and "get_max_prompt_len ip = Some m" and "1 \<le> m"
  shows "\<exists>toks. tokenize_prompt ip p = Inr toks \<and> prompt_token_ids r = take (nat m) toks \<and>
    1 \<le> length (prompt_token_ids r) \<and> int (length (prompt_token_ids r)) \<le> m \<and>
    (m \<le> int (length toks) \<longrightarrow> int (length (prompt_token_ids r)) = m) \<and>
    req_sampling_params r = sp' \<and> sp_eos_token_id sp' \<noteq> None \<and>
    (case sp_max_tokens sp of
       Some k \<Rightarrow> sp_max_tokens sp' = Some k
     | None \<Rightarrow> Option.bind (ip_scheduler_config ip) default_max_tokens = None \<longrightarrow>
         (\<exists>k \<ge> 1. sp_max_tokens sp' = Some k \<and>
            (int (length (prompt_token_ids r)) < m \<longrightarrow> int (length (prompt_token_ids r)) + k = m) \<and>
            (int (length (prompt_token_ids r)) = m \<longrightarrow> k = 1)))"
proof -
  from process_input_cases [OF assms(1)] obtain toks where t: "tokenize_prompt ip p = Inr toks"
    "prompt_token_ids r = truncate_prompt ip toks" "req_sampling_params r = sp'"
    "sp' = infer_max_tokens ip (prompt_token_ids r) (inject_eos_token_id ip sp)" by metis
  have cut: "prompt_token_ids r = take (nat m) toks"
    using assms(2,3) t(2) by (auto simp: truncate_prompt_def slice_to_def slice_end_def)
  have ne: "toks \<noteq> []" by (rule tokenize_prompt_nonempty [OF t(1)])
  have len: "1 \<le> length (prompt_token_ids r)" "int (length (prompt_token_ids r)) \<le> m"
    "m \<le> int (length toks) \<longrightarrow> int (length (prompt_token_ids r)) = m"
    using ne assms(3) by (auto simp: cut min_def Suc_le_eq)
  note p = inferred_params [OF t(4)]
  have lim: "case sp_max_tokens sp of
       Some k \<Rightarrow> sp_max_tokens sp' = Some k
     | None \<Rightarrow> Option.bind (ip_scheduler_config ip) default_max_tokens = None \<longrightarrow>
         (\<exists>k \<ge> 1. sp_max_tokens sp' = Some k \<and>
            (int (length (prompt_token_ids r)) < m \<longrightarrow> int (length (prompt_token_ids r)) + k = m) \<and>
            (int (length (prompt_token_ids r)) = m \<longrightarrow> k = 1))"
    using p(4) p(5) [OF _ _ assms(2)] len(2) by (cases "sp_max_tokens sp") auto
  show ?thesis using t(1,3) cut len p(1) lim by blast
qed

definition demo_input_processor :: input_processor where
  "demo_input_processor =
     \<lparr>ip_max_model_len = Some 2, ip_scheduler_config = Some scheduler_config_defaults,
      ip_tokenizer = Some demo_tokenizer\<rparr>"

theorem accepted_request_bounds_witness:
  "\<exists>r sp'. process_input 5 1 demo_input_processor ''a'' (PromptTokens [7, 8, 9]) sampling_defaults = Inr (r, sp') \<and>
     prompt_token_ids r = [7, 8] \<and> sp_max_tokens sp' = Some 1"
proof -
  let ?run = "process_input 5 1 demo_input_processor ''a'' (PromptTokens [7, 8, 9]) sampling_defaults"
  have "\<not> isl ?run" by (simp add: process_input_def tokenize_prompt_def Let_def)
  then obtain r sp' where run: "?run = Inr (r, sp')" by (cases ?run) auto
  have lim: "get_max_prompt_len demo_input_processor = Some 2" "(1 :: int) \<le> 2"
    by (simp_all add: get_max_prompt_len_def demo_input_processor_def)
  have t: "tokenize_prompt demo_input_processor (PromptTokens [7, 8, 9]) = Inr [7, 8, 9]"
    by (simp add: tokenize_prompt_def)
  have "sp_max_tokens sampling_defaults = None"
    "Option.bind (ip_scheduler_config demo_input_processor) default_max_tokens = None"
    by (simp_all add: sampling_defaults_def demo_input_processor_def scheduler_config_defaults_def)
  with accepted_request_bounds [OF run lim] t have "prompt_token_ids r = [7, 8]" "sp_max_tokens sp' = Some 1"
    by auto
  with run show ?thesis by blast
qed

section \<open>The chat template\<close>

record chat_template =
  ct_system_prefix :: unicode_text
  ct_user_prefix :: unicode_text
  ct_assistant_prefix :: unicode_text
  ct_separator :: unicode_text
  ct_thinking_tag :: unicode_text
  ct_think_tag :: unicode_text
  ct_stop_tokens :: "unicode_text list"

abbreviation ascii :: "string \<Rightarrow> unicode_text" where
  "ascii s \<equiv> map of_char s"

definition RWKV_CHAT_TEMPLATE :: chat_template where
  "RWKV_CHAT_TEMPLATE =
     \<lparr>ct_system_prefix = ascii ''System'', ct_user_prefix = ascii ''User'',
      ct_assistant_prefix = ascii ''Assistant'', ct_separator = [10, 10],
      ct_thinking_tag = ascii ''<think>'' @ [10] @ ascii ''</think>'' @ [10],
      ct_think_tag = ascii ''<think'', ct_stop_tokens = [[10] @ ascii ''User:'']\<rparr>"

text \<open>
  \<^verbatim>\<open>str.lower()\<close> on ASCII letters: no other character's lower case is a letter of a role name.
\<close>

definition lower_ascii :: "unicode_text \<Rightarrow> unicode_text" where
  "lower_ascii t = map (\<lambda>c. if 65 \<le> c \<and> c \<le> 90 then c + 32 else c) t"

fun text_or :: "unicode_text option \<Rightarrow> unicode_text \<Rightarrow> unicode_text" where
  "text_or (Some (c # cs)) d = c # cs"
| "text_or _ d = d"

definition chat_part :: "chat_template \<Rightarrow> unicode_text option \<times> unicode_text option \<Rightarrow> unicode_text list" where
  "chat_part tmpl m =
     (let role = lower_ascii (text_or (fst m) (ascii ''user''));
          content = text_or (snd m) []
      in if role = ascii ''system'' \<or> role = ascii ''developer''
           then [ct_system_prefix tmpl @ ascii '': '' @ content]
         else if role = ascii ''user'' then [ct_user_prefix tmpl @ ascii '': '' @ content]
         else if role = ascii ''assistant'' then [ct_assistant_prefix tmpl @ ascii '': '' @ content]
         else [])"

fun join_text :: "unicode_text \<Rightarrow> unicode_text list \<Rightarrow> unicode_text" where
  "join_text sep [] = []"
| "join_text sep [t] = t"
| "join_text sep (t # ts) = t @ sep @ join_text sep ts"

definition apply_chat_template ::
    "(unicode_text option \<times> unicode_text option) list \<Rightarrow> chat_template option \<Rightarrow> bool \<Rightarrow> bool \<Rightarrow> unicode_text" where
  "apply_chat_template messages template add_generation_prompt enable_think =
     (let tmpl = (case template of None \<Rightarrow> RWKV_CHAT_TEMPLATE | Some t \<Rightarrow> t);
          prmpt = join_text (ct_separator tmpl) (concat (map (chat_part tmpl) messages))
      in if add_generation_prompt
         then prmpt @ ct_separator tmpl @ ct_assistant_prefix tmpl @ ascii '': '' @
              (if enable_think then ct_think_tag tmpl else ct_thinking_tag tmpl)
         else prmpt)"

definition get_default_stop_tokens :: "chat_template option \<Rightarrow> unicode_text list" where
  "get_default_stop_tokens template =
     ct_stop_tokens (case template of None \<Rightarrow> RWKV_CHAT_TEMPLATE | Some t \<Rightarrow> t)"

lemma chat_example: "apply_chat_template [(Some (ascii ''user''), Some (ascii ''Hello''))] None True False =
    ascii ''User: Hello'' @ [10, 10] @ ascii ''Assistant: <think>'' @ [10] @ ascii ''</think>'' @ [10]"
  by (simp add: apply_chat_template_def chat_part_def lower_ascii_def RWKV_CHAT_TEMPLATE_def)

end
