(* ===== verification/Detokenizer.thy ===== *)
theory Detokenizer
  imports Request Tokenizer
begin

text \<open>
  \<^verbatim>\<open>vkwr/engine/detokenizer.py\<close>: incremental detokenization and stop strings.

  \<open>detok\<close> is \<^verbatim>\<open>IncrementalDetokenizer\<close>. Its constructor is called with validated sampling
  parameters, whose \<^verbatim>\<open>stop\<close> is a list (\<open>sampling_post_init\<close>). \<open>detok_update\<close>,
  \<open>try_decode_buffer\<close>, \<open>check_stop_strings\<close> and \<open>next_output_text\<close> are its methods.

  The lemmas show that the text depends only on the bytes that were fed in and not on how they
  were cut into updates, that the increments a stream hands out add up to the text of the
  finished request although stop strings are cut off, and what an invalid byte does.
\<close>

section \<open>State\<close>

record detok =
  dt_tokenizer :: "rwkv_tokenizer option"
  dt_output_text :: unicode_text
  dt_byte_buffer :: "byte list"
  dt_last_new_text :: unicode_text
  dt_output_token_count :: int
  dt_skip_special_tokens :: bool
  dt_min_tokens :: int
  dt_stop :: "unicode_text list"
  dt_include_stop_str :: bool
  dt_stop_buffer_length :: int
  dt_max_stop_bytes :: nat
  dt_last_output_text_offset :: int
  dt_min_tokens_stop_check_offset :: nat

fun max_length :: "'a list list \<Rightarrow> nat" where
  "max_length [] = 0"
| "max_length (x # xs) = max (length x) (max_length xs)"

definition detok_init :: "rwkv_tokenizer option \<Rightarrow> sampling_params \<Rightarrow> detok res" where
  "detok_init tk p =
     (let stops = stop_as_list (sp_stop p)
      in bindE (mapE utf8_encode stops) (\<lambda>stop_bytes.
         Inr \<lparr>dt_tokenizer = tk, dt_output_text = [], dt_byte_buffer = [], dt_last_new_text = [],
              dt_output_token_count = 0, dt_skip_special_tokens = sp_skip_special_tokens p,
              dt_min_tokens = sp_min_tokens p, dt_stop = stops,
              dt_include_stop_str = sp_include_stop_str_in_output p,
              dt_stop_buffer_length =
                (if stops \<noteq> [] \<and> \<not> sp_include_stop_str_in_output p then int (max_length stops) - 1 else 0),
              dt_max_stop_bytes = max_length stop_bytes,
              dt_last_output_text_offset = 0, dt_min_tokens_stop_check_offset = 0\<rparr>))"

section \<open>Decoding\<close>

text \<open>
  The second decoding, of the bytes before the error, cannot fail; its exception would leave
  the handler.
\<close>

definition try_decode_buffer :: "detok \<Rightarrow> detok res" where
  "try_decode_buffer d =
     (case utf8_decode (dt_byte_buffer d) of
        Inr decoded \<Rightarrow>
          Inr (d\<lparr>dt_output_text := dt_output_text d @ decoded, dt_byte_buffer := []\<rparr>)
      | Inl start \<Rightarrow>
          (case utf8_decode (take start (dt_byte_buffer d)) of
             Inl _ \<Rightarrow> Inl UnicodeDecodeError
           | Inr before \<Rightarrow>
               Inr (d\<lparr>dt_output_text := dt_output_text d @ before,
                      dt_byte_buffer := drop start (dt_byte_buffer d)\<rparr>)))"

text \<open>One iteration of the loop of \<^verbatim>\<open>update\<close>; the second component is \<^verbatim>\<open>stop_check_offset\<close>.\<close>

definition decode_token :: "detok \<times> nat \<Rightarrow> token \<Rightarrow> (detok \<times> nat) res" where
  "decode_token s tid =
     (let (d, stop_check_offset) = s;
          d1 = d\<lparr>dt_output_token_count := dt_output_token_count d + 1\<rparr>
      in case dt_tokenizer d1 of
           None \<Rightarrow> Inr (d1, stop_check_offset)
         | Some tk \<Rightarrow>
             if dt_skip_special_tokens d1 \<and> tk_is_special tk tid then Inr (d1, stop_check_offset)
             else
               bindE (tk_token_bytes tk tid) (\<lambda>token_bytes.
               bindE (try_decode_buffer (d1\<lparr>dt_byte_buffer := dt_byte_buffer d1 @ token_bytes\<rparr>)) (\<lambda>d2.
               if dt_min_tokens d2 \<noteq> 0 \<and> dt_output_token_count d2 \<le> dt_min_tokens d2
               then Inr (d2\<lparr>dt_min_tokens_stop_check_offset := length (dt_output_text d2)\<rparr>,
                         length (dt_output_text d2))
               else Inr (d2, stop_check_offset))))"

section \<open>Stop strings\<close>

text \<open>The text-level search: the first stop string of the list that occurs, and where.\<close>

fun text_stop :: "unicode_text \<Rightarrow> nat \<Rightarrow> unicode_text list \<Rightarrow> (unicode_text \<times> nat) option" where
  "text_stop t new_text_len [] = None"
| "text_stop t new_text_len (s # stops) =
     (let search_start = nat (int (length t) - int new_text_len - int (length s) + 1)
      in case py_find t s search_start of
           Some idx \<Rightarrow> Some (s, idx)
         | None \<Rightarrow> text_stop t new_text_len stops)"

text \<open>The same on bytes.\<close>

fun byte_stop :: "byte list \<Rightarrow> nat \<Rightarrow> nat \<Rightarrow> unicode_text list \<Rightarrow> (unicode_text \<times> byte list \<times> nat) option res" where
  "byte_stop full_bytes min_tokens_bytes max_stop_bytes [] = Inr None"
| "byte_stop full_bytes min_tokens_bytes max_stop_bytes (s # stops) =
     bindE (utf8_encode s) (\<lambda>stop_bytes.
     let search_start = max min_tokens_bytes
           (nat (int (length full_bytes) - int (length stop_bytes) - int max_stop_bytes))
     in case py_find full_bytes stop_bytes search_start of
          Some idx \<Rightarrow> Inr (Some (s, stop_bytes, idx))
        | None \<Rightarrow> byte_stop full_bytes min_tokens_bytes max_stop_bytes stops)"

definition check_byte_stop :: "detok \<Rightarrow> (unicode_text option \<times> detok) res" where
  "check_byte_stop d =
     (if dt_byte_buffer d = [] then Inr (None, d)
      else
        bindE (utf8_encode (dt_output_text d)) (\<lambda>text_bytes.
        bindE (utf8_encode (take (dt_min_tokens_stop_check_offset d) (dt_output_text d))) (\<lambda>min_bytes.
        let full_bytes = text_bytes @ dt_byte_buffer d
        in bindE (byte_stop full_bytes (length min_bytes) (dt_max_stop_bytes d) (dt_stop d)) (\<lambda>r.
           case r of
             None \<Rightarrow> Inr (None, d)
           | Some (s, stop_bytes, idx) \<Rightarrow>
               let kept = (if dt_include_stop_str d then take (idx + length stop_bytes) full_bytes
                           else take idx full_bytes)
               in Inr (Some s, d\<lparr>dt_output_text := utf8_decode_ignore kept, dt_byte_buffer := []\<rparr>)))))"

definition check_stop_strings :: "nat \<Rightarrow> detok \<Rightarrow> (unicode_text option \<times> detok) res" where
  "check_stop_strings new_text_len d =
     (if dt_stop d = [] then Inr (None, d)
      else case (if 0 < new_text_len then text_stop (dt_output_text d) new_text_len (dt_stop d) else None) of
        Some (s, idx) \<Rightarrow>
          if \<not> dt_include_stop_str d then Inr (Some s, d\<lparr>dt_output_text := take idx (dt_output_text d)\<rparr>)
          else Inr (Some s, d\<lparr>dt_output_text := take (idx + length s) (dt_output_text d)\<rparr>)
      | None \<Rightarrow> check_byte_stop d)"

text \<open>
  \<^verbatim>\<open>update\<close> first decodes, which gives \<^verbatim>\<open>new_text_len\<close>, and then looks for stop strings.
\<close>

definition detok_decode :: "token list \<Rightarrow> bool \<Rightarrow> detok \<Rightarrow> (nat \<times> detok) res" where
  "detok_decode new_token_ids stop_terminated d =
     (let drop_stop = stop_terminated \<and> \<not> dt_include_stop_str d;
          ids = (if drop_stop then butlast new_token_ids else new_token_ids)
      in bindE (foldE decode_token (d, length (dt_output_text d)) ids) (\<lambda>(d1, stop_check_offset).
         let d2 = (if drop_stop then d1\<lparr>dt_output_token_count := dt_output_token_count d1 + 1\<rparr> else d1);
             new_text_len = length (dt_output_text d2) - stop_check_offset
         in Inr (new_text_len,
              d2\<lparr>dt_last_new_text :=
                drop (length (dt_output_text d2) - new_text_len) (dt_output_text d2)\<rparr>)))"

definition detok_update :: "token list \<Rightarrow> bool \<Rightarrow> detok \<Rightarrow> (unicode_text option \<times> detok) res" where
  "detok_update new_token_ids stop_terminated d =
     (if new_token_ids = [] then Inr (None, d\<lparr>dt_last_new_text := []\<rparr>)
      else
        bindE (detok_decode new_token_ids stop_terminated d) (\<lambda>(new_text_len, d3).
        if dt_output_token_count d3 > dt_min_tokens d3 \<and> dt_tokenizer d3 \<noteq> None
        then check_stop_strings new_text_len d3 else Inr (None, d3)))"

section \<open>Output\<close>

definition next_output_text :: "bool \<Rightarrow> bool \<Rightarrow> detok \<Rightarrow> unicode_text \<times> detok" where
  "next_output_text finished delta d =
     (let buffer_length = (if finished then 0 else dt_stop_buffer_length d);
          full_text = dt_output_text d
      in if \<not> delta then
           (if buffer_length \<noteq> 0 then slice_to full_text (- buffer_length) else full_text, d)
         else
           let len = int (length full_text) - buffer_length;
               last_offset = dt_last_output_text_offset d
           in if last_offset < len
              then (slice full_text last_offset len, d\<lparr>dt_last_output_text_offset := len\<rparr>)
              else ([], d))"

section \<open>Decoding does not depend on the updates\<close>

text \<open>The bytes a list of tokens stands for, special tokens left out where they are skipped.\<close>

definition token_feed :: "rwkv_tokenizer \<Rightarrow> bool \<Rightarrow> token \<Rightarrow> byte list res" where
  "token_feed tk skip tid = (if skip \<and> tk_is_special tk tid then Inr [] else tk_token_bytes tk tid)"

definition tokens_bytes :: "rwkv_tokenizer \<Rightarrow> bool \<Rightarrow> token list \<Rightarrow> byte list res" where
  "tokens_bytes tk skip ids = bindE (mapE (token_feed tk skip) ids) (\<lambda>bs. Inr (concat bs))"

lemma utf8_decode_prefix_ok: "utf8_prefix bs = (t, rest) \<Longrightarrow> utf8_decode (take (length bs - length rest) bs) = Inr t"
proof -
  assume p: "utf8_prefix bs = (t, rest)"
  then have "concat (map utf8_char t) @ rest = bs" "list_all scalar t"
    using utf8_prefix_reads [of bs] by simp_all
  then have "take (length bs - length rest) bs = concat (map utf8_char t)" by auto
  then show ?thesis using utf8_prefix_encoded [OF \<open>list_all scalar t\<close>, of "[]"] by (simp add: utf8_decode_def)
qed

text \<open>\<open>try_decode_buffer\<close> moves the decodable beginning of the buffer to the text.\<close>

lemma try_decode_buffer_prefix:
  "try_decode_buffer d =
     Inr (d\<lparr>dt_output_text := dt_output_text d @ fst (utf8_prefix (dt_byte_buffer d)),
            dt_byte_buffer := snd (utf8_prefix (dt_byte_buffer d))\<rparr>)"
proof -
  obtain t rest where p: "utf8_prefix (dt_byte_buffer d) = (t, rest)" by (cases "utf8_prefix (dt_byte_buffer d)")
  have "drop (length (dt_byte_buffer d) - length rest) (dt_byte_buffer d) = rest"
    using utf8_prefix_reads [of "dt_byte_buffer d"] p
    by (metis add_diff_cancel_right' append_eq_conv_conj fst_conv length_append snd_conv)
  then show ?thesis
    using utf8_decode_prefix_ok [OF p] by (simp add: try_decode_buffer_def p utf8_decode_def)
qed

text \<open>Feeding bytes to a detokenizer, everything else unchanged.\<close>

definition detok_feed :: "byte list \<Rightarrow> int \<Rightarrow> nat \<Rightarrow> detok \<Rightarrow> detok" where
  "detok_feed bs n m d =
     d\<lparr>dt_output_text := dt_output_text d @ fst (utf8_prefix (dt_byte_buffer d @ bs)),
       dt_byte_buffer := snd (utf8_prefix (dt_byte_buffer d @ bs)),
       dt_output_token_count := dt_output_token_count d + n,
       dt_min_tokens_stop_check_offset := m\<rparr>"

text \<open>Nothing in the buffer can be decoded: every update leaves it so.\<close>

definition undecoded :: "detok \<Rightarrow> bool" where
  "undecoded d \<longleftrightarrow> utf8_prefix (dt_byte_buffer d) = ([], dt_byte_buffer d)"

lemma undecoded_feed: "undecoded (detok_feed bs n m d)"
  by (simp add: undecoded_def detok_feed_def)

lemma detok_feed_feed:
  "detok_feed bs n m (detok_feed bs' n' m' d) = detok_feed (bs' @ bs) (n' + n) m d"
  using utf8_prefix_append [of "dt_byte_buffer d @ bs'" bs] by (simp add: detok_feed_def)

lemma detok_feed_Nil: "undecoded d \<Longrightarrow> detok_feed [] n m d =
    d\<lparr>dt_output_token_count := dt_output_token_count d + n, dt_min_tokens_stop_check_offset := m\<rparr>"
  by (simp add: detok_feed_def undecoded_def)

lemma detok_feed_sel [simp]:
  "dt_tokenizer (detok_feed bs n m d) = dt_tokenizer d"
  "dt_skip_special_tokens (detok_feed bs n m d) = dt_skip_special_tokens d"
  "dt_min_tokens (detok_feed bs n m d) = dt_min_tokens d" "dt_stop (detok_feed bs n m d) = dt_stop d"
  "dt_include_stop_str (detok_feed bs n m d) = dt_include_stop_str d"
  "dt_stop_buffer_length (detok_feed bs n m d) = dt_stop_buffer_length d"
  "dt_max_stop_bytes (detok_feed bs n m d) = dt_max_stop_bytes d"
  "dt_last_output_text_offset (detok_feed bs n m d) = dt_last_output_text_offset d"
  "dt_output_token_count (detok_feed bs n m d) = dt_output_token_count d + n"
  "dt_byte_buffer (detok_feed bs n m d) = snd (utf8_prefix (dt_byte_buffer d @ bs))"
  "dt_output_text (detok_feed bs n m d) = dt_output_text d @ fst (utf8_prefix (dt_byte_buffer d @ bs))"
  by (simp_all add: detok_feed_def)

lemma decode_token_feed:
  assumes "dt_tokenizer d = Some tk" and "undecoded d" and "off \<le> length (dt_output_text d)"
  shows "case token_feed tk (dt_skip_special_tokens d) tid of
      Inl e \<Rightarrow> decode_token (d, off) tid = Inl e
    | Inr bs \<Rightarrow> \<exists>m off'. decode_token (d, off) tid = Inr (detok_feed bs 1 m d, off') \<and>
        off \<le> off' \<and> off' \<le> length (dt_output_text (detok_feed bs 1 m d))"
proof (cases "dt_skip_special_tokens d \<and> tk_is_special tk tid")
  case True
  then have "decode_token (d, off) tid = Inr (detok_feed [] 1 (dt_min_tokens_stop_check_offset d) d, off)"
    using assms(1) by (simp add: decode_token_def detok_feed_Nil [OF assms(2)])
  then show ?thesis using True assms(3) by (auto simp: token_feed_def)
next
  case False
  show ?thesis
  proof (cases "tk_token_bytes tk tid")
    case (Inl e)
    then show ?thesis using False assms(1) by (auto simp: token_feed_def decode_token_def Let_def)
  next
    case (Inr bs)
    let ?c = "dt_min_tokens d \<noteq> 0 \<and> dt_output_token_count d + 1 \<le> dt_min_tokens d"
    let ?t = "dt_output_text d @ fst (utf8_prefix (dt_byte_buffer d @ bs))"
    have "decode_token (d, off) tid =
      Inr (detok_feed bs 1 (if ?c then length ?t else dt_min_tokens_stop_check_offset d) d,
           if ?c then length ?t else off)"
      using False assms(1) Inr by (auto simp: decode_token_def try_decode_buffer_prefix detok_feed_def Let_def)
    then show ?thesis using False assms(3) Inr by (auto simp: token_feed_def)
  qed
qed

lemma decode_tokens_feed:
  assumes "dt_tokenizer d = Some tk" and "undecoded d" and "off \<le> length (dt_output_text d)"
  shows "case tokens_bytes tk (dt_skip_special_tokens d) ids of
      Inl e \<Rightarrow> foldE decode_token (d, off) ids = Inl e
    | Inr bs \<Rightarrow> \<exists>m off'. foldE decode_token (d, off) ids = Inr (detok_feed bs (int (length ids)) m d, off') \<and>
        off \<le> off' \<and> off' \<le> length (dt_output_text (detok_feed bs (int (length ids)) m d))"
  using assms
proof (induction ids arbitrary: d off)
  case Nil
  then show ?case
    by (auto simp: tokens_bytes_def detok_feed_Nil undecoded_def
        intro!: exI [of _ "dt_min_tokens_stop_check_offset d"])
next
  case (Cons tid ids)
  show ?case
  proof (cases "token_feed tk (dt_skip_special_tokens d) tid")
    case (Inl e)
    then show ?thesis using decode_token_feed [OF Cons.prems, of tid] by (simp add: tokens_bytes_def)
  next
    case (Inr b)
    with decode_token_feed [OF Cons.prems, of tid] obtain m off' where
      1: "decode_token (d, off) tid = Inr (detok_feed b 1 m d, off')" "off \<le> off'"
        "off' \<le> length (dt_output_text (detok_feed b 1 m d))" by auto
    let ?d = "detok_feed b 1 m d"
    have "dt_tokenizer ?d = Some tk" using Cons.prems(1) by simp
    note IH = Cons.IH [OF this undecoded_feed 1(3)]
    show ?thesis
    proof (cases "mapE (token_feed tk (dt_skip_special_tokens d)) ids")
      case Inl
      then show ?thesis using IH Inr 1(1) by (simp add: tokens_bytes_def)
    next
      case m: (Inr bs)
      with IH obtain m' off2 where 2: "foldE decode_token (?d, off') ids =
          Inr (detok_feed (concat bs) (int (length ids)) m' ?d, off2)" "off' \<le> off2"
          "off2 \<le> length (dt_output_text (detok_feed (concat bs) (int (length ids)) m' ?d))"
        by (auto simp: tokens_bytes_def)
      have "tokens_bytes tk (dt_skip_special_tokens d) (tid # ids) = Inr (b @ concat bs)"
        using Inr m by (simp add: tokens_bytes_def)
      then show ?thesis using 1(1,2) 2
        by (auto simp: detok_feed_feed add.commute [of 1])
    qed
  qed
qed

text \<open>What one update decodes.\<close>

definition fed_tokens :: "detok \<Rightarrow> token list \<Rightarrow> bool \<Rightarrow> token list" where
  "fed_tokens d ids stop_terminated =
     (if stop_terminated \<and> \<not> dt_include_stop_str d then butlast ids else ids)"

lemma detok_decode_feed:
  assumes "dt_tokenizer d = Some tk" and "undecoded d"
  shows "case tokens_bytes tk (dt_skip_special_tokens d) (fed_tokens d ids fin) of
      Inl e \<Rightarrow> detok_decode ids fin d = Inl e
    | Inr bs \<Rightarrow> \<exists>n k m l. detok_decode ids fin d = Inr (n, (detok_feed bs k m d)\<lparr>dt_last_new_text := l\<rparr>) \<and>
        n + length (dt_output_text d) \<le> length (dt_output_text (detok_feed bs k m d))"
proof (cases "tokens_bytes tk (dt_skip_special_tokens d) (fed_tokens d ids fin)")
  case (Inl e)
  then show ?thesis using decode_tokens_feed [OF assms order_refl, of "fed_tokens d ids fin"]
    by (simp add: detok_decode_def fed_tokens_def Let_def)
next
  case (Inr bs)
  let ?ids = "fed_tokens d ids fin" and ?d = "fin \<and> \<not> dt_include_stop_str d"
  from Inr decode_tokens_feed [OF assms order_refl, of ?ids] obtain m off where
    f: "foldE decode_token (d, length (dt_output_text d)) ?ids = Inr (detok_feed bs (int (length ?ids)) m d, off)"
    "length (dt_output_text d) \<le> off" "off \<le> length (dt_output_text (detok_feed bs (int (length ?ids)) m d))"
    by auto
  let ?k = "int (length ?ids) + (if ?d then 1 else 0)"
  let ?f = "detok_feed bs ?k m d"
  have count: "(if ?d then (detok_feed bs (int (length ?ids)) m d)\<lparr>dt_output_token_count :=
      dt_output_token_count (detok_feed bs (int (length ?ids)) m d) + 1\<rparr>
      else detok_feed bs (int (length ?ids)) m d) = ?f"
    by (simp add: detok_feed_def add.assoc)
  have "\<exists>l. detok_decode ids fin d = Inr (length (dt_output_text ?f) - off, ?f\<lparr>dt_last_new_text := l\<rparr>)"
    using f(1) unfolding detok_decode_def fed_tokens_def [symmetric] Let_def
    by (simp only: bindE.simps prod.case count) blast
  moreover have "length (dt_output_text ?f) - off + length (dt_output_text d) \<le> length (dt_output_text ?f)"
    using f(2,3) by simp
  ultimately show ?thesis unfolding Inr by fastforce
qed

lemma detok_update_feed:
  assumes "dt_tokenizer d = Some tk" and "undecoded d" and "dt_stop d = []"
  shows "case tokens_bytes tk (dt_skip_special_tokens d) (fed_tokens d ids fin) of
      Inl e \<Rightarrow> detok_update ids fin d = Inl e
    | Inr bs \<Rightarrow> \<exists>k m l. detok_update ids fin d = Inr (None, (detok_feed bs k m d)\<lparr>dt_last_new_text := l\<rparr>)"
proof (cases "ids = []")
  case True
  then have "fed_tokens d ids fin = []" by (simp add: fed_tokens_def)
  moreover have "detok_update ids fin d =
      Inr (None, (detok_feed [] 0 (dt_min_tokens_stop_check_offset d) d)\<lparr>dt_last_new_text := []\<rparr>)"
    using True by (simp add: detok_update_def detok_feed_Nil [OF assms(2)])
  ultimately show ?thesis by (auto simp: tokens_bytes_def)
next
  case False
  show ?thesis
  proof (cases "tokens_bytes tk (dt_skip_special_tokens d) (fed_tokens d ids fin)")
    case (Inl e)
    then show ?thesis using False detok_decode_feed [OF assms(1,2), of ids fin]
      by (simp add: detok_update_def)
  next
    case (Inr bs)
    then obtain n k m l where
      "detok_decode ids fin d = Inr (n, (detok_feed bs k m d)\<lparr>dt_last_new_text := l\<rparr>)"
      using detok_decode_feed [OF assms(1,2), of ids fin] by auto
    then show ?thesis using False Inr assms(3) by (simp add: detok_update_def check_stop_strings_def) blast
  qed
qed

section \<open>Any cutting into updates decodes the same text\<close>

definition feed_update :: "detok \<Rightarrow> token list \<Rightarrow> detok res" where
  "feed_update d ids = bindE (detok_update ids False d) (\<lambda>(stop, d'). Inr d')"

lemma tokens_bytes_append:
  "tokens_bytes tk skip (xs @ ys) =
     bindE (tokens_bytes tk skip xs) (\<lambda>b. bindE (tokens_bytes tk skip ys) (\<lambda>c. Inr (b @ c)))"
proof -
  have "mapE (token_feed tk skip) (xs @ ys) =
    bindE (mapE (token_feed tk skip) xs) (\<lambda>b. bindE (mapE (token_feed tk skip) ys) (\<lambda>c. Inr (b @ c)))"
  proof (induction xs)
    case Nil
    then show ?case by (cases "mapE (token_feed tk skip) ys") auto
  next
    case (Cons x xs)
    then show ?case by (simp add: bindE_assoc)
  qed
  then show ?thesis by (simp add: tokens_bytes_def bindE_assoc)
qed

lemma feed_updates:
  assumes "dt_tokenizer d = Some tk" and "undecoded d" and "dt_stop d = []"
    and "tokens_bytes tk (dt_skip_special_tokens d) (concat chunks) = Inr bs"
  shows "\<exists>d'. foldE feed_update d chunks = Inr d' \<and>
    dt_output_text d' = dt_output_text d @ fst (utf8_prefix (dt_byte_buffer d @ bs)) \<and>
    dt_byte_buffer d' = snd (utf8_prefix (dt_byte_buffer d @ bs))"
  using assms
proof (induction chunks arbitrary: d bs)
  case Nil
  then show ?case by (auto simp: tokens_bytes_def undecoded_def)
next
  case (Cons ids chunks)
  from Cons.prems(4) obtain b c where bc: "tokens_bytes tk (dt_skip_special_tokens d) ids = Inr b"
    "tokens_bytes tk (dt_skip_special_tokens d) (concat chunks) = Inr c" "bs = b @ c"
    by (auto simp: tokens_bytes_append)
  have "fed_tokens d ids False = ids" by (simp add: fed_tokens_def)
  with bc(1) detok_update_feed [OF Cons.prems(1-3), of ids False] obtain k m l where
    1: "detok_update ids False d = Inr (None, (detok_feed b k m d)\<lparr>dt_last_new_text := l\<rparr>)" by auto
  let ?d = "(detok_feed b k m d)\<lparr>dt_last_new_text := l\<rparr>"
  have u: "undecoded ?d" using undecoded_feed [of b k m d] by (simp add: undecoded_def)
  from Cons.IH [OF _ u, of c] bc(2) Cons.prems(1,3) obtain d' where
    "foldE feed_update ?d chunks = Inr d'"
    "dt_output_text d' = dt_output_text ?d @ fst (utf8_prefix (dt_byte_buffer ?d @ c))"
    "dt_byte_buffer d' = snd (utf8_prefix (dt_byte_buffer ?d @ c))" by auto
  moreover have "feed_update d ids = Inr ?d" by (simp add: feed_update_def 1)
  ultimately show ?case using utf8_prefix_append [of "dt_byte_buffer d @ b" c]
    by (intro exI [of _ d']) (simp add: bc(3))
qed

lemma detok_init_undecoded:
  assumes "detok_init tk p = Inr d"
  shows "undecoded d" "dt_tokenizer d = tk" "dt_stop d = stop_as_list (sp_stop p)"
    "dt_skip_special_tokens d = sp_skip_special_tokens p" "dt_output_text d = []" "dt_byte_buffer d = []"
    "dt_last_output_text_offset d = 0" "dt_include_stop_str d = sp_include_stop_str_in_output p"
    "dt_stop_buffer_length d = (if dt_stop d \<noteq> [] \<and> \<not> dt_include_stop_str d then int (max_length (dt_stop d)) - 1 else 0)"
  using assms by (auto simp: detok_init_def undecoded_def Let_def)

lemma tk_decode_bytes:
  "tk_decode tk ids = bindE (tokens_bytes tk False ids) (\<lambda>bs. Inr (utf8_decode_replace bs))"
proof -
  have "bindE (foldE (decode_item tk) raw ids) (\<lambda>r. Inr (concat r)) =
      bindE (mapE (token_feed tk False) ids) (\<lambda>bs. Inr (concat raw @ concat bs))" for raw
  proof (induction ids arbitrary: raw)
    case (Cons i ids)
    show ?case
    proof (cases "i < int (length (tk_idx2token tk))")
      case True
      then show ?thesis using Cons.IH
        by (cases "py_item (tk_idx2token tk) i")
           (simp_all add: decode_item_def token_feed_def tk_token_bytes_def bindE_assoc)
    next
      case False
      then show ?thesis using Cons.IH
        by (simp add: decode_item_def token_feed_def tk_token_bytes_def bindE_assoc)
    qed
  qed simp
  from this [of "[]"] show ?thesis
    by (cases "foldE (decode_item tk) [] ids"; cases "mapE (token_feed tk False) ids")
       (auto simp: tk_decode_def tokens_bytes_def)
qed


text \<open>
  An invalid byte stops the text for good. Once the buffer begins with bytes that no
  continuation makes valid, whatever further tokens are decoded, in any number of updates and
  stopped by the engine or not, the output text stays as it is.
\<close>

theorem invalid_byte_stalls:
  assumes "dt_tokenizer d = Some tk" and "dt_stop d = []"
    and "utf8_step (dt_byte_buffer d) = Invalid n" and "n < length (dt_byte_buffer d)"
    and "foldE (\<lambda>d (ids, stopped). bindE (detok_update ids stopped d) (\<lambda>(r, d'). Inr d')) d updates = Inr d'"
  shows "dt_output_text d' = dt_output_text d"
proof -
  let ?P = "\<lambda>e. dt_output_text e = dt_output_text d \<and> dt_tokenizer e = Some tk \<and> dt_stop e = [] \<and>
    utf8_step (dt_byte_buffer e) = Invalid n \<and> n < length (dt_byte_buffer e)"
  have "?P d'"
    using assms(5)
  proof (rule foldE_invariant)
    show "?P d" using assms(1-4) by simp
    fix e u e'
    assume P: "?P e"
      and run: "(case u of (ids, stopped) \<Rightarrow> bindE (detok_update ids stopped e) (\<lambda>(r, d'). Inr d')) = Inr e'"
    obtain ids stopped where u: "u = (ids, stopped)" by (cases u)
    from P have P': "dt_tokenizer e = Some tk" "undecoded e" "dt_stop e = []"
      by (auto simp: undecoded_def utf8_prefix_Bad)
    have bad: "utf8_step (dt_byte_buffer e @ bs) = Invalid n" for bs
      using P by (intro utf8_step_append_Bad) auto
    from run detok_update_feed [OF P', of ids stopped] obtain bs k m l where
      "e' = (detok_feed bs k m e)\<lparr>dt_last_new_text := l\<rparr>"
      by (fastforce simp: u split: sum.splits)
    then show "?P e'" using P bad [of bs] by (simp add: utf8_prefix_Bad)
  qed
  then show ?thesis by blast
qed


section \<open>A stream adds up to the text\<close>

text \<open>
  A request that is streamed: \<open>acc\<close> is all the text handed out so far, each update that found no
  stop string being followed by a request for the next increment.
\<close>

inductive streaming :: "unicode_text \<Rightarrow> detok \<Rightarrow> bool" where
  start: "detok_init tk p = Inr d \<Longrightarrow> [] \<notin> set (stop_as_list (sp_stop p)) \<Longrightarrow> streaming [] d"
| more: "streaming acc d \<Longrightarrow> detok_update ids False d = Inr (None, d1) \<Longrightarrow>
    next_output_text False True d1 = (t, d2) \<Longrightarrow> streaming (acc @ t) d2"

definition held_back :: "detok \<Rightarrow> nat" where
  "held_back d = nat (dt_stop_buffer_length d)"

definition same_stops :: "detok \<Rightarrow> detok \<Rightarrow> bool" where
  "same_stops d e \<longleftrightarrow> dt_stop e = dt_stop d \<and> dt_include_stop_str e = dt_include_stop_str d \<and>
     dt_stop_buffer_length e = dt_stop_buffer_length d \<and>
     dt_last_output_text_offset e = dt_last_output_text_offset d \<and> dt_tokenizer e = dt_tokenizer d"

lemma decode_token_cases:
  assumes "decode_token (d, off) tid = Inr (d', off')"
  shows "d' = d\<lparr>dt_output_token_count := dt_output_token_count d + 1\<rparr> \<and> off' = off \<or>
    (\<exists>bs m. d' = detok_feed bs 1 m d \<and> (off' = off \<or> off' = length (dt_output_text d')))"
proof (cases "dt_tokenizer d")
  case (Some tk)
  show ?thesis
  proof (cases "dt_skip_special_tokens d \<and> tk_is_special tk tid")
    case False
    with assms Some obtain bs where bs: "tk_token_bytes tk tid = Inr bs"
      by (auto simp: decode_token_def Let_def)
    let ?c = "dt_min_tokens d \<noteq> 0 \<and> dt_output_token_count d + 1 \<le> dt_min_tokens d"
    let ?t = "dt_output_text d @ fst (utf8_prefix (dt_byte_buffer d @ bs))"
    have "decode_token (d, off) tid =
      Inr (detok_feed bs 1 (if ?c then length ?t else dt_min_tokens_stop_check_offset d) d,
           if ?c then length ?t else off)"
      using False Some bs by (auto simp: decode_token_def try_decode_buffer_prefix detok_feed_def Let_def)
    then show ?thesis using assms by fastforce
  qed (use assms Some in \<open>simp add: decode_token_def\<close>)
qed (use assms in \<open>simp add: decode_token_def\<close>)

lemma decode_token_grows:
  assumes "decode_token (d, off) tid = Inr (d', off')" and "off \<le> length (dt_output_text d)"
  shows "same_stops d d' \<and> off \<le> off' \<and> off' \<le> length (dt_output_text d') \<and>
    (\<exists>t. dt_output_text d' = dt_output_text d @ t)"
  using decode_token_cases [OF assms(1)]
proof
  assume "d' = d\<lparr>dt_output_token_count := dt_output_token_count d + 1\<rparr> \<and> off' = off"
  then show ?thesis using assms(2) by (simp add: same_stops_def)
next
  assume "\<exists>bs m. d' = detok_feed bs 1 m d \<and> (off' = off \<or> off' = length (dt_output_text d'))"
  then show ?thesis using assms(2) by (auto simp: same_stops_def)
qed

lemma decode_tokens_grow:
  assumes "foldE decode_token (d, off) ids = Inr (d', off')" and "off \<le> length (dt_output_text d)"
  shows "same_stops d d' \<and> off \<le> off' \<and> off' \<le> length (dt_output_text d') \<and>
    (\<exists>t. dt_output_text d' = dt_output_text d @ t)"
proof -
  let ?P = "\<lambda>(e, o1). same_stops d e \<and> off \<le> o1 \<and> o1 \<le> length (dt_output_text e) \<and>
    (\<exists>t. dt_output_text e = dt_output_text d @ t)"
  have "?P (d', off')"
    using assms(1)
  proof (rule foldE_invariant)
    show "?P (d, off)" using assms(2) by (simp add: same_stops_def)
    fix s x s'
    assume "?P s" and r: "decode_token s x = Inr s'"
    moreover obtain e o1 e' o2 where "s = (e, o1)" "s' = (e', o2)" by (cases s; cases s')
    ultimately show "?P s'" using decode_token_grows [of e o1 x e' o2] by (auto simp: same_stops_def)
  qed
  then show ?thesis by simp
qed

lemma detok_decode_grows:
  assumes "detok_decode ids fin d = Inr (n, d')"
  shows "same_stops d d'" "\<exists>t. dt_output_text d' = dt_output_text d @ t"
    "n + length (dt_output_text d) \<le> length (dt_output_text d')"
proof -
  let ?ids = "if fin \<and> \<not> dt_include_stop_str d then butlast ids else ids"
  from assms obtain d1 off where f: "foldE decode_token (d, length (dt_output_text d)) ?ids = Inr (d1, off)"
    and d': "n = length (dt_output_text d1) - off" "dt_output_text d' = dt_output_text d1" "same_stops d1 d'"
    by (auto simp: detok_decode_def same_stops_def Let_def split: if_split_asm)
  from decode_tokens_grow [OF f order_refl] d' show "same_stops d d'"
    "\<exists>t. dt_output_text d' = dt_output_text d @ t"
    "n + length (dt_output_text d) \<le> length (dt_output_text d')"
    by (auto simp: same_stops_def)
qed

text \<open>What has been handed out: a beginning of the text that leaves room for a stop string.\<close>

definition stream_inv :: "unicode_text \<Rightarrow> detok \<Rightarrow> bool" where
  "stream_inv acc d \<longleftrightarrow>
     [] \<notin> set (dt_stop d) \<and> dt_last_output_text_offset d = int (length acc) \<and> acc = take (length acc) (dt_output_text d) \<and>
     (acc = [] \<or> length acc + held_back d \<le> length (dt_output_text d)) \<and>
     dt_stop_buffer_length d =
       (if dt_stop d \<noteq> [] \<and> \<not> dt_include_stop_str d then int (max_length (dt_stop d)) - 1 else 0)"

lemma update_running:
  assumes "detok_update ids fin d = Inr (None, d')"
  shows "same_stops d d' \<and> (\<exists>t. dt_output_text d' = dt_output_text d @ t)"
proof (cases "ids = []")
  case False
  with assms obtain n d3 where d3: "detok_decode ids fin d = Inr (n, d3)"
    and "d' = d3 \<or> check_stop_strings n d3 = Inr (None, d')"
    by (auto simp: detok_update_def split: if_split_asm)
  then have "d' = d3"
    by (auto simp: check_stop_strings_def check_byte_stop_def Let_def
        split: option.split_asm if_split_asm prod.split_asm)
  with detok_decode_grows [OF d3] show ?thesis by blast
qed (use assms in \<open>auto simp: detok_update_def same_stops_def\<close>)

lemma max_length_ge: "s \<in> set xs \<Longrightarrow> length s \<le> max_length xs"
  by (induction xs) auto

lemma held_back_eq:
  assumes "stream_inv acc d"
  shows "dt_stop_buffer_length d = int (held_back d)"
    and "s \<in> set (dt_stop d) \<Longrightarrow> \<not> dt_include_stop_str d \<Longrightarrow> length s \<le> Suc (held_back d)"
proof -
  have ge: "s \<in> set (dt_stop d) \<Longrightarrow> 1 \<le> max_length (dt_stop d)" for s
    using max_length_ge [of s "dt_stop d"] assms by (cases s) (auto simp: stream_inv_def)
  have "0 \<le> dt_stop_buffer_length d"
  proof (cases "dt_stop d = []")
    case False
    then have "1 \<le> max_length (dt_stop d)" using ge hd_in_set by blast
    then show ?thesis using assms by (simp add: stream_inv_def)
  qed (use assms in \<open>simp add: stream_inv_def\<close>)
  then show 1: "dt_stop_buffer_length d = int (held_back d)" by (simp add: held_back_def)
  show "length s \<le> Suc (held_back d)" if "s \<in> set (dt_stop d)" "\<not> dt_include_stop_str d"
    using max_length_ge [OF that(1)] ge [OF that(1)] that assms by (auto simp: stream_inv_def held_back_def)
qed

lemma stream_inv_grow:
  assumes "stream_inv acc d" and "same_stops d d'" and "dt_output_text d' = dt_output_text d @ t"
  shows "stream_inv acc d'"
proof -
  have "length acc \<le> length (dt_output_text d)"
    using assms(1) unfolding stream_inv_def by (metis length_take min.cobounded1)
  then show ?thesis using assms by (auto simp: stream_inv_def same_stops_def held_back_def)
qed

text \<open>What an increment hands out.\<close>

definition sent :: "unicode_text \<Rightarrow> detok \<Rightarrow> bool" where
  "sent acc d \<longleftrightarrow> dt_last_output_text_offset d = int (length acc) \<and> acc = take (length acc) (dt_output_text d)"

lemma slice_nat: "b \<le> length xs \<Longrightarrow> slice xs (int a) (int b) = drop a (take b xs)"
  by (cases "a \<le> length xs") (simp_all add: slice_def slice_to_def slice_end_def)

lemma next_output_text_delta:
  assumes "sent acc d" and "\<not> finished \<Longrightarrow> dt_stop_buffer_length d = int (held_back d)"
    and "next_output_text finished True d = (t, d')"
    and "k = max (length acc) (length (dt_output_text d) - (if finished then 0 else held_back d))"
  shows "acc @ t = take k (dt_output_text d)" "length (acc @ t) = k"
    "d' = d\<lparr>dt_last_output_text_offset := int k\<rparr>"
proof -
  let ?full = "dt_output_text d"
  define b where "b = (if finished then 0 else held_back d)"
  have inv: "dt_last_output_text_offset d = int (length acc)" "acc = take (length acc) ?full"
    using assms(1) by (auto simp: sent_def)
  have bl: "(if finished then 0 else dt_stop_buffer_length d) = int b"
    using assms(2) by (simp add: b_def)
  have "acc @ t = take k ?full \<and> length (acc @ t) = k \<and> d' = d\<lparr>dt_last_output_text_offset := int k\<rparr>"
  proof (cases "length acc < length ?full - b")
    case True
    then have k: "k = length ?full - b" "k \<le> length ?full" "length acc \<le> k" using assms(4) by (auto simp: b_def)
    have e: "int (length ?full) - int b = int k" using True k(1) by linarith
    have "int (length acc) < int k" using True k(1) by simp
    with assms(3) have "t = slice ?full (int (length acc)) (int k)"
      "d' = d\<lparr>dt_last_output_text_offset := int k\<rparr>"
      unfolding next_output_text_def bl inv(1) Let_def e by auto
    moreover have "acc @ drop (length acc) (take k ?full) = take k ?full"
      using inv(2) k(3) by (metis append_take_drop_id min.absorb1 take_take)
    ultimately show ?thesis using slice_nat [OF k(2)] k(2) by simp
  next
    case False
    then have "\<not> int (length acc) < int (length ?full) - int b" by linarith
    then have "t = []" "d' = d" using assms(3) unfolding next_output_text_def bl inv(1) Let_def by auto
    moreover have "d\<lparr>dt_last_output_text_offset := int (length acc)\<rparr> = d" using inv(1) by (cases d) simp
    moreover have "k = length acc" using False assms(4) by (simp add: b_def)
    ultimately show ?thesis using inv(2) by simp
  qed
  then show "acc @ t = take k ?full" "length (acc @ t) = k" "d' = d\<lparr>dt_last_output_text_offset := int k\<rparr>"
    by blast+
qed

lemma stream_inv_sent: "stream_inv acc d \<Longrightarrow> sent acc d"
  by (simp add: stream_inv_def sent_def)

lemma streaming_inv: "streaming acc d \<Longrightarrow> stream_inv acc d"
proof (induction rule: streaming.induct)
  case (start tk p d)
  then show ?case using detok_init_undecoded [OF start(1)] by (auto simp: stream_inv_def)
next
  case (more acc d ids d1 t d2)
  from update_running [OF more(2)] obtain u where "same_stops d d1" "dt_output_text d1 = dt_output_text d @ u"
    by blast
  with more.IH have inv: "stream_inv acc d1" by (rule stream_inv_grow)
  define k where "k = max (length acc) (length (dt_output_text d1) - held_back d1)"
  have k: "acc @ t = take k (dt_output_text d1)" "length (acc @ t) = k"
      "d2 = d1\<lparr>dt_last_output_text_offset := int k\<rparr>"
    using next_output_text_delta [OF stream_inv_sent [OF inv] held_back_eq(1) [OF inv] more(3)] k_def by auto
  have "acc @ t = [] \<or> k + held_back d1 \<le> length (dt_output_text d1)"
    using inv k(2) by (auto simp: stream_inv_def max_def k_def)
  moreover have "dt_output_text d2 = dt_output_text d1" "held_back d2 = held_back d1"
    using k(3) by (simp_all add: held_back_def)
  ultimately show ?case using inv k unfolding stream_inv_def by simp
qed

lemma text_stop_bound:
  "text_stop t n stops = Some (s, idx) \<Longrightarrow>
   s \<in> set stops \<and> int (length t) - int n - int (length s) + 1 \<le> int idx \<and> idx + length s \<le> length t"
proof (induction stops)
  case (Cons s' stops)
  let ?i = "nat (int (length t) - int n - int (length s') + 1)"
  show ?case
  proof (cases "py_find t s' ?i")
    case None
    then show ?thesis using Cons by (auto simp: Let_def)
  next
    case (Some i)
    with Cons.prems have "s = s'" "idx = i" by (simp_all add: Let_def)
    with py_find_SomeD [OF Some] show ?thesis by auto
  qed
qed simp

text \<open>
  The increments of a stream are the text. Whatever the client has been sent before, when the
  request finishes, because the engine says so or because a stop string occurs in the text, the
  last increment completes it to the final text exactly: no part of a stop string that was to be
  cut off has been sent before. (A stop string found only in undecoded bytes is not covered.)
\<close>

lemma stream_adds_up:
  assumes "streaming acc d" and "detok_update ids fin d = Inr (r, d1)" and "fin \<or> r \<noteq> None"
    and "detok_decode ids fin d = Inr (n, d3)" and "r = None \<or> dt_byte_buffer d3 = []"
    and "next_output_text True True d1 = (t, d2)"
  shows "acc @ t = dt_output_text d1"
proof -
  note inv = streaming_inv [OF assms(1)]
  have "sent acc d1"
  proof (cases r)
    case None
    with update_running assms(2) stream_inv_grow [OF inv] stream_inv_sent show ?thesis by blast
  next
    case (Some s)
    from detok_decode_grows [OF assms(4)] obtain u where g: "same_stops d d3"
      "dt_output_text d3 = dt_output_text d @ u" "n + length (dt_output_text d) \<le> length (dt_output_text d3)"
      by blast
    note inv3 = stream_inv_grow [OF inv g(1,2)]
    have "check_stop_strings n d3 = Inr (Some s, d1)"
      using assms(2,4) Some by (auto simp: detok_update_def split: if_split_asm)
    with assms(5) Some obtain idx where idx: "text_stop (dt_output_text d3) n (dt_stop d3) = Some (s, idx)"
      "d1 = d3\<lparr>dt_output_text := take (if dt_include_stop_str d3 then idx + length s else idx) (dt_output_text d3)\<rparr>"
      by (auto simp: check_stop_strings_def check_byte_stop_def split: if_split_asm option.split_asm)
    let ?k = "if dt_include_stop_str d3 then idx + length s else idx"
    note b = text_stop_bound [OF idx(1)]
    have "length acc \<le> length (dt_output_text d)"
      using inv unfolding stream_inv_def by (metis length_take min.cobounded1)
    then have "acc = [] \<or> length acc \<le> ?k"
      using b g(3) held_back_eq(2) [OF inv, of s] inv g(1)
      by (auto simp: stream_inv_def same_stops_def)
    then have "length acc \<le> ?k" by auto
    then show ?thesis using inv3 by (simp add: stream_inv_def sent_def idx(2) min_def)
  qed
  from next_output_text_delta(1) [OF this _ assms(6) refl] this show ?thesis
    by (simp add: sent_def max_def)
qed

section \<open>Runs\<close>

definition demo_detok :: "unicode_text list \<Rightarrow> detok" where
  "demo_detok stops =
     \<lparr>dt_tokenizer = Some demo_tokenizer, dt_output_text = [], dt_byte_buffer = [], dt_last_new_text = [],
      dt_output_token_count = 0, dt_skip_special_tokens = True, dt_min_tokens = 0, dt_stop = stops,
      dt_include_stop_str = False, dt_stop_buffer_length = 0, dt_max_stop_bytes = length stops,
      dt_last_output_text_offset = 0, dt_min_tokens_stop_check_offset = 0\<rparr>"

lemma demo_token_bytes:
  "tk_token_bytes demo_tokenizer 1 = Inr [97]" "tk_token_bytes demo_tokenizer 2 = Inr [97, 98]"
  "tk_token_bytes demo_tokenizer 3 = Inr [98]"
  "\<not> tk_is_special demo_tokenizer 1" "\<not> tk_is_special demo_tokenizer 2" "\<not> tk_is_special demo_tokenizer 3"
  by (simp_all add: tk_token_bytes_def py_item_def py_pos_def tk_is_special_def demo_tokenizer_def)

lemma demo_detok_init:
  "detok_init (Some demo_tokenizer) sampling_defaults = Inr (demo_detok [])"
  "detok_init (Some demo_tokenizer) (sampling_defaults\<lparr>sp_stop := StopList [[98]]\<rparr>) = Inr (demo_detok [[98]])"
  by (simp_all add: detok_init_def demo_detok_def sampling_defaults_def utf8_encode_eval)

lemmas utf8_prefix_eval = utf8_prefix.simps utf8_need_def utf8_conts_def cont_value_def lead_value_def


theorem invalid_byte_stalls_witness:
  "\<exists>d'. foldE (\<lambda>d (ids, stopped). bindE (detok_update ids stopped d) (\<lambda>(r, d'). Inr d'))
      ((demo_detok [])\<lparr>dt_byte_buffer := [0xFF, 97]\<rparr>) [([1, 2], False)] = Inr d' \<and>
    dt_output_text d' = []"
proof -
  let ?d = "(demo_detok [])\<lparr>dt_byte_buffer := [0xFF, 97]\<rparr>"
  have h: "dt_tokenizer ?d = Some demo_tokenizer" "dt_stop ?d = []"
    "utf8_step (dt_byte_buffer ?d) = Invalid 1" "1 < length (dt_byte_buffer ?d)" "dt_output_text ?d = []"
    by (simp_all add: demo_detok_def utf8_need_def)
  have "undecoded ?d" using h(3) by (simp add: undecoded_def utf8_prefix_Bad)
  moreover have "tokens_bytes demo_tokenizer (dt_skip_special_tokens ?d) (fed_tokens ?d [1, 2] False) =
      Inr [97, 97, 98]"
    by (simp add: tokens_bytes_def token_feed_def demo_token_bytes fed_tokens_def)
  ultimately obtain e where "detok_update [1, 2] False ?d = Inr (None, e)"
    using detok_update_feed [OF h(1) _ h(2), of "[1, 2]" False] by auto
  then have run: "foldE (\<lambda>d (ids, stopped). bindE (detok_update ids stopped d) (\<lambda>(r, d'). Inr d')) ?d
      [([1, 2], False)] = Inr e" by simp
  have "dt_output_text e = dt_output_text ?d" by (rule invalid_byte_stalls [OF h(1-4) run])
  with run h(5) show ?thesis by auto
qed


end
