(* ===== verification/Output_Processor.thy ===== *)
theory Output_Processor
  imports Outputs Detokenizer
begin

text \<open>
  \<^verbatim>\<open>vkwr/engine/output_processor.py\<close>: the state kept per request, the single-slot collector of a
  stream, and the processing of the engine core's outputs.

  A collector is shared by the processor and the consumer of the stream. The processor keeps it
  inside the request's state (\<open>rs_queue\<close>); a request that is aborted or finished takes its
  collector out with its state, so the operations return it where the consumer still holds it.
  The event that wakes the consumer is \<open>col_ready\<close>.

  The lemmas show that every token of a request is handed out exactly once, that requests do not
  disturb each other, and what an abort leaves behind.
\<close>

section \<open>The collector\<close>

datatype col_item = Output request_output | Failure py_error

record collector =
  col_aggregate :: bool
  col_request_id :: rid
  col_output :: "col_item option"
  col_ready :: bool

definition collector_init :: "int \<Rightarrow> rid \<Rightarrow> collector" where
  "collector_init output_kind i =
     \<lparr>col_aggregate = (output_kind = DELTA), col_request_id = i, col_output = None, col_ready = False\<rparr>"

definition collector_put :: "col_item \<Rightarrow> collector \<Rightarrow> collector" where
  "collector_put item c =
     (case (col_output c, item) of
        (None, _) \<Rightarrow> c\<lparr>col_output := Some item, col_ready := True\<rparr>
      | (_, Failure e) \<Rightarrow> c\<lparr>col_output := Some item, col_ready := True\<rparr>
      | (Some (Output o1), Output o2) \<Rightarrow> c\<lparr>col_output := Some (Output (ro_add o1 o2 (col_aggregate c)))\<rparr>
      | (Some (Failure e), Output o2) \<Rightarrow> c)"

text \<open>\<^verbatim>\<open>get\<close> waits while the slot is empty, which is \<open>None\<close> here.\<close>

definition collector_get :: "collector \<Rightarrow> (request_output res \<times> collector) option" where
  "collector_get c =
     (case col_output c of
        None \<Rightarrow> None
      | Some item \<Rightarrow>
          Some (case item of Output out \<Rightarrow> Inr out | Failure e \<Rightarrow> Inl e,
                c\<lparr>col_output := None, col_ready := False\<rparr>))"

definition collector_get_nowait :: "collector \<Rightarrow> request_output option res \<times> collector" where
  "collector_get_nowait c =
     (case col_output c of
        None \<Rightarrow> (Inr None, c)
      | Some item \<Rightarrow>
          (case item of Output out \<Rightarrow> Inr (Some out) | Failure e \<Rightarrow> Inl e,
           c\<lparr>col_output := None, col_ready := False\<rparr>))"

section \<open>The state of a request\<close>

record req_state =
  st_request :: vreq
  st_external_req_id :: rid
  st_token_ids :: "token list"
  st_logprobs :: "logprob_dict list option"
  st_cumlogprob :: real
  st_finished :: bool
  st_finish_reason :: "string option"
  st_stop_reason :: "stop_reason_val option"
  st_queue :: "collector option"
  st_output_kind :: int
  st_sent_tokens_offset :: nat
  st_is_prefilling :: bool
  st_detokenizer :: detok

definition external_or_own :: "vreq \<Rightarrow> rid" where
  "external_or_own r = (case external_req_id r of Some (c # cs) \<Rightarrow> c # cs | _ \<Rightarrow> request_id r)"

definition req_state_init :: "vreq \<Rightarrow> collector option \<Rightarrow> detok \<Rightarrow> req_state" where
  "req_state_init r q d =
     \<lparr>st_request = r, st_external_req_id = external_or_own r, st_token_ids = [], st_logprobs = None,
      st_cumlogprob = 0, st_finished = False, st_finish_reason = None, st_stop_reason = None,
      st_queue = q, st_output_kind = sp_output_kind (req_sampling_params r),
      st_sent_tokens_offset = 0, st_is_prefilling = True, st_detokenizer = d\<rparr>"

text \<open>\<open>xs[k:]\<close> and \<open>list(xs)\<close> of an optional list, None where it is empty\<close>

definition some_logprobs :: "nat \<Rightarrow> logprob_dict list option \<Rightarrow> logprob_dict list option" where
  "some_logprobs k ls = (case ls of None \<Rightarrow> None | Some [] \<Rightarrow> None | Some xs \<Rightarrow> Some (drop k xs))"

definition make_request_output :: "req_state \<Rightarrow> request_output \<times> req_state" where
  "make_request_output st =
     (let delta = (st_output_kind st = DELTA);
          k = (if delta then st_sent_tokens_offset st else 0);
          (txt, d) = next_output_text (st_finished st) delta (st_detokenizer st)
      in (\<lparr>ro_request_id = st_external_req_id st,
           ro_prompt = (case prompt (st_request st) of PromptText t \<Rightarrow> t | PromptTokens _ \<Rightarrow> []),
           ro_prompt_token_ids = prompt_token_ids (st_request st),
           ro_outputs =
             [\<lparr>co_index = 0, co_token_ids = drop k (st_token_ids st), co_text = txt,
               co_cumlogprob = st_cumlogprob st, co_logprobs = some_logprobs k (st_logprobs st),
               co_finish_reason = st_finish_reason st, co_stop_reason = st_stop_reason st\<rparr>],
           ro_finished = st_finished st, ro_finish_reason = st_finish_reason st,
           ro_stats = Some \<lparr>rs_waiting_time = 0, rs_running_time = 0, rs_total_tokens = 0,
             rs_generated_tokens = int (length (st_token_ids st))\<rparr>\<rparr>,
          st\<lparr>st_detokenizer := d\<rparr>))"

section \<open>The processor\<close>

record output_processor =
  op_requests :: "(rid, req_state) dict"
  op_external_req_ids :: "(rid, rid list) dict"
  op_tokenizer :: "rwkv_tokenizer option"
  op_finished_ids :: "rid list"

definition output_processor_init :: "rwkv_tokenizer option \<Rightarrow> output_processor" where
  "output_processor_init tk =
     \<lparr>op_requests = [], op_external_req_ids = [], op_tokenizer = tk, op_finished_ids = []\<rparr>"

definition op_add_request :: "vreq \<Rightarrow> collector option \<Rightarrow> output_processor \<Rightarrow> output_processor res" where
  "op_add_request r q p =
     bindE (detok_init (op_tokenizer p) (req_sampling_params r)) (\<lambda>d.
     let ext = external_or_own r
     in Inr (p\<lparr>op_requests := dict_set (request_id r) (req_state_init r q d) (op_requests p),
               op_external_req_ids :=
                 dict_set ext (dict_get_default (op_external_req_ids p) ext [] @ [request_id r])
                   (op_external_req_ids p)\<rparr>))"

text \<open>One output of the engine core for a request that is known.\<close>

definition accumulate :: "engine_core_output \<Rightarrow> req_state \<Rightarrow> req_state" where
  "accumulate eo st =
     (let st1 = st\<lparr>st_token_ids := st_token_ids st @ eco_new_token_ids eo,
                   st_logprobs :=
                     (case eco_new_logprobs eo of
                        None \<Rightarrow> st_logprobs st
                      | Some ls \<Rightarrow> Some ((case st_logprobs st of None \<Rightarrow> [] | Some l0 \<Rightarrow> l0) @ ls))\<rparr>
      in if eco_finish_reason eo \<noteq> None
         then st1\<lparr>st_finish_reason := eco_finish_reason eo, st_stop_reason := eco_stop_reason eo,
                  st_finished := True\<rparr>
         else st1)"

text \<open>
  The detokenizer runs on the new tokens; a stop string finishes the request. The second
  component says whether the engine is to be told.
\<close>

definition detokenize :: "engine_core_output \<Rightarrow> req_state \<Rightarrow> (req_state \<times> bool) res" where
  "detokenize eo st =
     bindE (detok_update (eco_new_token_ids eo) (eco_finish_reason eo \<noteq> None) (st_detokenizer st)) (\<lambda>(stop, d).
     let st1 = st\<lparr>st_detokenizer := d\<rparr>
     in case stop of
          None \<Rightarrow> Inr (st1, False)
        | Some s \<Rightarrow>
            Inr (st1\<lparr>st_finished := True, st_finish_reason := Some ''stop'', st_stop_reason := Some (StopText s)\<rparr>,
                 eco_finish_reason eo = None))"

text \<open>What is emitted: to the collector, or to the list of the call.\<close>

definition emit :: "req_state \<Rightarrow> request_output list \<times> req_state" where
  "emit st =
     (let (out, st1) = make_request_output st
      in if st_output_kind st1 = FINAL_ONLY \<and> \<not> st_finished st1 then ([], st1)
         else
           let (outs, st2) =
                 (case st_queue st1 of
                    Some q \<Rightarrow> ([], st1\<lparr>st_queue := Some (collector_put (Output out) q)\<rparr>)
                  | None \<Rightarrow> ([out], st1));
               st3 = (if \<not> st_finished st2
                      then st2\<lparr>st_sent_tokens_offset := length (st_token_ids st2)\<rparr> else st2)
           in (outs, st3\<lparr>st_is_prefilling := False\<rparr>))"

record processed =
  po_request_outputs :: "request_output list"
  po_reqs_to_abort :: "rid list"

definition process_one ::
    "output_processor \<times> processed \<Rightarrow> engine_core_output \<Rightarrow> (output_processor \<times> processed) res" where
  "process_one s eo =
     (let (p, acc) = s
      in case dict_get (op_requests p) (eco_request_id eo) of
           None \<Rightarrow> Inr (p, acc)
         | Some st0 \<Rightarrow>
             bindE (detokenize eo (accumulate eo st0)) (\<lambda>(st1, tell).
             let (outs, st2) = emit st1;
                 own = request_id (st_request st2)
             in Inr
               (p\<lparr>op_requests := dict_set (eco_request_id eo) st2 (op_requests p),
                  op_finished_ids := op_finished_ids p @ (if st_finished st2 then [own] else [])\<rparr>,
                acc\<lparr>po_request_outputs := po_request_outputs acc @ outs,
                    po_reqs_to_abort := po_reqs_to_abort acc @ (if tell then [own] else [])\<rparr>)))"

definition process_outputs ::
    "engine_core_output list \<Rightarrow> output_processor \<Rightarrow> (processed \<times> output_processor) res" where
  "process_outputs eos p =
     bindE (foldE process_one
              (p\<lparr>op_finished_ids := []\<rparr>, \<lparr>po_request_outputs = [], po_reqs_to_abort = []\<rparr>) eos) (\<lambda>(p', acc).
     Inr (acc, p'))"

definition op_get_and_clear_finished_ids :: "output_processor \<Rightarrow> rid list \<times> output_processor" where
  "op_get_and_clear_finished_ids p = (op_finished_ids p, p\<lparr>op_finished_ids := []\<rparr>)"

definition op_remove_request :: "rid \<Rightarrow> output_processor \<Rightarrow> output_processor res" where
  "op_remove_request i p =
     (case dict_get (op_requests p) i of
        None \<Rightarrow> Inr p
      | Some st \<Rightarrow>
          let p1 = p\<lparr>op_requests := dict_del i (op_requests p)\<rparr>;
              ext = st_external_req_id st
          in case dict_get (op_external_req_ids p1) ext of
               None \<Rightarrow> Inr p1
             | Some ids \<Rightarrow>
                 if i \<notin> set ids then Inl (ValueError ''list.remove(x): x not in list'')
                 else if remove1 i ids = []
                 then Inr (p1\<lparr>op_external_req_ids := dict_del ext (op_external_req_ids p1)\<rparr>)
                 else Inr (p1\<lparr>op_external_req_ids := dict_set ext (remove1 i ids) (op_external_req_ids p1)\<rparr>))"

definition propagate_error :: "py_error \<Rightarrow> output_processor \<Rightarrow> output_processor" where
  "propagate_error e p =
     p\<lparr>op_requests := map (\<lambda>(i, st). (i, st\<lparr>st_queue := map_option (collector_put (Failure e)) (st_queue st)\<rparr>))
         (op_requests p)\<rparr>"

text \<open>
  \<^verbatim>\<open>abort_requests\<close>: the state is popped; a collector gets a last output and is returned, under
  the request's identifier, to the consumer that holds it.
\<close>

definition abort_one ::
    "rid list \<times> (rid \<times> collector) list \<times> output_processor \<Rightarrow> rid \<Rightarrow> rid list \<times> (rid \<times> collector) list \<times> output_processor" where
  "abort_one s i =
     (let (done_ids, cols, p) = s
      in case dict_get (op_requests p) i of
           None \<Rightarrow> (done_ids, cols, p)
         | Some st \<Rightarrow>
             let p1 = p\<lparr>op_requests := dict_del i (op_requests p)\<rparr>
             in case st_queue st of
                  None \<Rightarrow> (done_ids @ [i], cols, p1)
                | Some q \<Rightarrow>
                    let (out, st1) = make_request_output (st\<lparr>st_finished := True, st_finish_reason := Some ''abort''\<rparr>)
                    in (done_ids @ [i], cols @ [(i, collector_put (Output out) q)], p1))"

definition op_abort_requests ::
    "rid list \<Rightarrow> output_processor \<Rightarrow> rid list \<times> (rid \<times> collector) list \<times> output_processor" where
  "op_abort_requests ids p = foldl abort_one ([], [], p) ids"

section \<open>A stream delivers every token once\<close>

text \<open>
  One streamed request: outputs of the engine core for it, and fetches of its consumer at
  arbitrary times. \<open>got\<close> is what the consumer has received.
\<close>

datatype stream_event = Core engine_core_output | Fetch

definition consume :: "engine_core_output \<Rightarrow> req_state \<Rightarrow> req_state res" where
  "consume eo st = bindE (detokenize eo (accumulate eo st)) (\<lambda>(st1, tell). Inr (snd (emit st1)))"

definition fetch :: "req_state \<times> request_output list \<Rightarrow> req_state \<times> request_output list" where
  "fetch s =
     (let (st, got) = s
      in case Option.bind (st_queue st) collector_get of
           Some (Inr out, q) \<Rightarrow> (st\<lparr>st_queue := Some q\<rparr>, got @ [out])
         | _ \<Rightarrow> (st, got))"

fun stream_step :: "req_state \<times> request_output list \<Rightarrow> stream_event \<Rightarrow> (req_state \<times> request_output list) res" where
  "stream_step (st, got) (Core eo) = bindE (consume eo st) (\<lambda>st'. Inr (st', got))"
| "stream_step s Fetch = Inr (fetch s)"

fun event_tokens :: "stream_event \<Rightarrow> token list" where
  "event_tokens (Core eo) = eco_new_token_ids eo"
| "event_tokens Fetch = []"

text \<open>What has been received and what waits in the collector.\<close>

definition waiting_outputs :: "req_state \<Rightarrow> request_output list" where
  "waiting_outputs st =
     (case Option.bind (st_queue st) col_output of Some (Output o1) \<Rightarrow> [o1] | _ \<Rightarrow> [])"

definition delivered_tokens :: "request_output list \<Rightarrow> token list" where
  "delivered_tokens os = concat (map (\<lambda>o1. tokens_at 0 (ro_outputs o1)) os)"

definition delivered_text :: "request_output list \<Rightarrow> unicode_text" where
  "delivered_text os = concat (map (\<lambda>o1. text_at 0 (ro_outputs o1)) os)"

text \<open>The shape of a streaming request's state.\<close>

definition stream_shape :: "req_state \<Rightarrow> bool" where
  "stream_shape st \<longleftrightarrow> st_output_kind st = DELTA \<and>
     (\<exists>q. st_queue st = Some q \<and> col_aggregate q \<and>
        (case col_output q of None \<Rightarrow> True | Some (Output o1) \<Rightarrow> indices_ok (ro_outputs o1) | _ \<Rightarrow> False))"

lemma delivered_append:
  "delivered_tokens (a @ b) = delivered_tokens a @ delivered_tokens b"
  "delivered_text (a @ b) = delivered_text a @ delivered_text b"
  by (simp_all add: delivered_tokens_def delivered_text_def)

lemma fetch_shape:
  assumes "stream_shape st" and "fetch (st, got) = (st', got')"
  shows "stream_shape st' \<and> (\<exists>q. st' = st\<lparr>st_queue := q\<rparr>) \<and> got' @ waiting_outputs st' = got @ waiting_outputs st"
proof -
  obtain q where q: "st_queue st = Some q" "col_aggregate q"
    "case col_output q of None \<Rightarrow> True | Some (Output o1) \<Rightarrow> indices_ok (ro_outputs o1) | _ \<Rightarrow> False"
    using assms(1) by (auto simp: stream_shape_def)
  show ?thesis
  proof (cases "col_output q")
    case None
    then have "st' = st" "got' = got" using assms(2) q(1) by (simp_all add: fetch_def collector_get_def)
    moreover have "st = st\<lparr>st_queue := st_queue st\<rparr>" by simp
    ultimately show ?thesis using assms(1) by metis
  next
    case (Some item)
    with q(3) obtain o1 where "item = Output o1" by (cases item) auto
    then have "st' = st\<lparr>st_queue := Some (q\<lparr>col_output := None, col_ready := False\<rparr>)\<rparr>" "got' = got @ [o1]"
      using assms(2) q(1) Some by (simp_all add: fetch_def collector_get_def)
    then show ?thesis using assms(1) q Some \<open>item = Output o1\<close> by (auto simp: stream_shape_def waiting_outputs_def)
  qed
qed

text \<open>What an emission adds to the collector.\<close>

lemma emit_delivers:
  assumes "stream_shape st" and "st_sent_tokens_offset st \<le> length (st_token_ids st)"
    and "next_output_text (st_finished st) True (st_detokenizer st) = (t, d)"
  shows "stream_shape (snd (emit st)) \<and> st_detokenizer (snd (emit st)) = d \<and>
    st_token_ids (snd (emit st)) = st_token_ids st \<and> st_finished (snd (emit st)) = st_finished st \<and>
    st_sent_tokens_offset (snd (emit st)) =
      (if st_finished st then st_sent_tokens_offset st else length (st_token_ids st)) \<and>
    delivered_tokens (waiting_outputs (snd (emit st))) =
      delivered_tokens (waiting_outputs st) @ drop (st_sent_tokens_offset st) (st_token_ids st) \<and>
    delivered_text (waiting_outputs (snd (emit st))) = delivered_text (waiting_outputs st) @ t"
proof -
  obtain q where q: "st_queue st = Some q" "col_aggregate q" "st_output_kind st = DELTA"
    "case col_output q of None \<Rightarrow> True | Some (Output o1) \<Rightarrow> indices_ok (ro_outputs o1) | _ \<Rightarrow> False"
    using assms(1) by (auto simp: stream_shape_def)
  obtain out where out: "make_request_output st = (out, st\<lparr>st_detokenizer := d\<rparr>)"
    "tokens_at 0 (ro_outputs out) = drop (st_sent_tokens_offset st) (st_token_ids st)"
    "text_at 0 (ro_outputs out) = t" "indices_ok (ro_outputs out)"
    using q(3) assms(3) by (simp add: make_request_output_def tokens_at_def text_at_def indices_ok_def Let_def)
  have kind: "DELTA \<noteq> FINAL_ONLY" by (simp add: output_kind_defs)
  have e: "snd (emit st) =
      st\<lparr>st_detokenizer := d, st_queue := Some (collector_put (Output out) q),
         st_sent_tokens_offset := (if st_finished st then st_sent_tokens_offset st else length (st_token_ids st)),
         st_is_prefilling := False\<rparr>"
    by (simp add: emit_def out(1) q(1,3) kind Let_def)
  show ?thesis
  proof (cases "col_output q")
    case None
    then show ?thesis
      by (simp add: e stream_shape_def q collector_put_def waiting_outputs_def delivered_tokens_def delivered_text_def out)
  next
    case (Some item)
    with q(4) obtain o1 where o1: "item = Output o1" "indices_ok (ro_outputs o1)" by (cases item) auto
    with merge_all_text [OF o1(2), of 0 "ro_outputs out"] show ?thesis
      by (simp add: e stream_shape_def q Some collector_put_def waiting_outputs_def delivered_tokens_def
          delivered_text_def out ro_add_proj)
  qed
qed

lemma accumulate_sel:
  "st_detokenizer (accumulate eo st) = st_detokenizer st" "st_queue (accumulate eo st) = st_queue st"
  "st_output_kind (accumulate eo st) = st_output_kind st"
  "st_sent_tokens_offset (accumulate eo st) = st_sent_tokens_offset st"
  "st_token_ids (accumulate eo st) = st_token_ids st @ eco_new_token_ids eo"
  "st_finished (accumulate eo st) \<longleftrightarrow> st_finished st \<or> eco_finish_reason eo \<noteq> None"
  by (auto simp: accumulate_def Let_def)

lemma detokenize_cases:
  assumes "detokenize eo st = Inr (st', tell)"
  obtains r d where "detok_update (eco_new_token_ids eo) (eco_finish_reason eo \<noteq> None) (st_detokenizer st) = Inr (r, d)"
    "st_detokenizer st' = d" "st_queue st' = st_queue st" "st_output_kind st' = st_output_kind st"
    "st_sent_tokens_offset st' = st_sent_tokens_offset st" "st_token_ids st' = st_token_ids st"
    "st_finished st' \<longleftrightarrow> st_finished st \<or> r \<noteq> None"
proof -
  obtain r d where u: "detok_update (eco_new_token_ids eo) (eco_finish_reason eo \<noteq> None) (st_detokenizer st) = Inr (r, d)"
    using assms by (auto simp: detokenize_def)
  then show thesis using assms that [OF u] by (cases r) (auto simp: detokenize_def)
qed

text \<open>The invariant of a stream that has not finished, and what the finishing output adds.\<close>

definition stream_ok :: "token list \<Rightarrow> req_state \<times> request_output list \<Rightarrow> bool" where
  "stream_ok toks s \<longleftrightarrow> (case s of (st, got) \<Rightarrow>
     stream_shape st \<and> st_token_ids st = toks \<and> delivered_tokens (got @ waiting_outputs st) = toks \<and>
     (\<not> st_finished st \<longrightarrow>
        st_sent_tokens_offset st = length toks \<and>
        streaming (delivered_text (got @ waiting_outputs st)) (st_detokenizer st)))"

lemma consume_ok:
  assumes "stream_ok toks (st, got)" and "\<not> st_finished st" and "consume eo st = Inr st'"
  shows "stream_ok (toks @ eco_new_token_ids eo) (st', got)"
proof -
  from assms(3) obtain st1 tell where d: "detokenize eo (accumulate eo st) = Inr (st1, tell)"
    and st': "st' = snd (emit st1)" by (auto simp: consume_def)
  obtain r d1 where u: "detok_update (eco_new_token_ids eo) (eco_finish_reason eo \<noteq> None) (st_detokenizer st) = Inr (r, d1)"
    and s1: "st_detokenizer st1 = d1" "st_queue st1 = st_queue st" "st_output_kind st1 = st_output_kind st"
      "st_sent_tokens_offset st1 = st_sent_tokens_offset st" "st_token_ids st1 = st_token_ids st @ eco_new_token_ids eo"
      "st_finished st1 \<longleftrightarrow> eco_finish_reason eo \<noteq> None \<or> r \<noteq> None"
    using detokenize_cases [OF d] assms(2) by (metis accumulate_sel)
  obtain t d2 where n: "next_output_text (st_finished st1) True d1 = (t, d2)"
    by (cases "next_output_text (st_finished st1) True d1")
  have shape: "stream_shape st1" using assms(1) s1(2,3) by (simp add: stream_ok_def stream_shape_def)
  have pend: "waiting_outputs st1 = waiting_outputs st" by (simp add: waiting_outputs_def s1(2))
  from assms(1,2) have ok: "st_token_ids st = toks" "delivered_tokens (got @ waiting_outputs st) = toks"
    "st_sent_tokens_offset st = length toks" "streaming (delivered_text (got @ waiting_outputs st)) (st_detokenizer st)"
    by (simp_all add: stream_ok_def)
  note e = emit_delivers [OF shape _ n [folded s1(1)], unfolded s1(4,5) ok(1,3), folded st', simplified]
  have "streaming (delivered_text (got @ waiting_outputs st')) (st_detokenizer st')" if "\<not> st_finished st'"
  proof -
    have "\<not> st_finished st1" using that e by simp
    then have "detok_update (eco_new_token_ids eo) False (st_detokenizer st) = Inr (None, d1)"
      "next_output_text False True d1 = (t, d2)" using u n s1(6) by auto
    from streaming.more [OF ok(4) this] show ?thesis using e pend by (simp add: delivered_append)
  qed
  then show ?thesis using e ok(2) pend by (auto simp: stream_ok_def delivered_append)
qed

lemma fetch_ok: "stream_ok toks (st, got) \<Longrightarrow> stream_ok toks (fetch (st, got))"
  using fetch_shape [of st got] by (cases "fetch (st, got)") (auto simp: stream_ok_def)

lemma stream_ok_init:
  assumes "detok_init tk (req_sampling_params r) = Inr d" and "sp_output_kind (req_sampling_params r) = DELTA"
    and "[] \<notin> set (stop_as_list (sp_stop (req_sampling_params r)))"
  shows "stream_ok [] (req_state_init r (Some (collector_init DELTA i)) d, [])"
  using assms streaming.start [OF assms(1,3)]
  by (simp add: stream_ok_def req_state_init_def stream_shape_def collector_init_def waiting_outputs_def
      delivered_tokens_def delivered_text_def)

text \<open>Events up to and including the one that finishes the request, then fetches only.\<close>

fun live_until_end :: "req_state \<times> request_output list \<Rightarrow> stream_event list \<Rightarrow> bool" where
  "live_until_end s [] = True"
| "live_until_end s (ev # evs) =
     ((case ev of Core _ \<Rightarrow> \<not> st_finished (fst s) | Fetch \<Rightarrow> True) \<and>
      (case stream_step s ev of Inl _ \<Rightarrow> True | Inr s' \<Rightarrow> live_until_end s' evs))"

lemma stream_run_ok:
  "stream_ok toks s \<Longrightarrow> live_until_end s evs \<Longrightarrow> foldE stream_step s evs = Inr s' \<Longrightarrow>
   stream_ok (toks @ concat (map event_tokens evs)) s'"
proof (induction evs arbitrary: toks s)
  case (Cons ev evs)
  obtain st got where s: "s = (st, got)" by (cases s)
  from Cons.prems(3) obtain s1 where s1: "stream_step s ev = Inr s1" "foldE stream_step s1 evs = Inr s'" by auto
  have "stream_ok (toks @ event_tokens ev) s1"
  proof (cases ev)
    case (Core eo)
    with s1(1) s obtain st1 where "consume eo st = Inr st1" "s1 = (st1, got)" by auto
    then show ?thesis using Cons.prems(1,2) s Core consume_ok [of toks st got eo st1] by simp
  next
    case Fetch
    then show ?thesis using Cons.prems(1) s s1(1) fetch_ok by auto
  qed
  from Cons.IH [OF this _ s1(2)] Cons.prems(2) s1(1) show ?case by simp
qed simp

text \<open>Every output of a stream holds one completion, the first.\<close>

definition single_output :: "request_output \<Rightarrow> bool" where
  "single_output out \<longleftrightarrow> (\<exists>c. ro_outputs out = [c] \<and> co_index c = 0)"

definition singles :: "req_state \<times> request_output list \<Rightarrow> bool" where
  "singles s \<longleftrightarrow> list_all single_output (snd s @ waiting_outputs (fst s))"

lemma single_merge: "single_output o1 \<Longrightarrow> single_output o2 \<Longrightarrow> single_output (ro_add o1 o2 a)"
  by (auto simp: single_output_def ro_add_proj completion_merge_def)

lemma singles_fetch: "singles s \<Longrightarrow> singles (fetch s)"
  by (cases s; cases "st_queue (fst s)") (auto simp: singles_def fetch_def waiting_outputs_def collector_get_def Let_def
      split: option.splits col_item.splits sum.splits)

lemma made_output:
  "single_output (fst (make_request_output st))" "st_queue (snd (make_request_output st)) = st_queue st"
  by (auto simp: make_request_output_def single_output_def Let_def case_prod_unfold)

definition single_queue :: "collector option \<Rightarrow> bool" where
  "single_queue q \<longleftrightarrow> (\<forall>c o1. q = Some c \<longrightarrow> col_output c = Some (Output o1) \<longrightarrow> single_output o1)"

lemma single_waiting: "list_all single_output (waiting_outputs st) \<longleftrightarrow> single_queue (st_queue st)"
  by (auto simp: waiting_outputs_def single_queue_def bind_eq_Some_conv split: option.splits col_item.splits)

lemma single_put: "single_output out \<Longrightarrow> single_queue (Some q) \<Longrightarrow> single_queue (Some (collector_put (Output out) q))"
  using single_merge by (auto simp: single_queue_def collector_put_def split: option.splits col_item.splits)

lemma singles_emit:
  assumes "list_all single_output (waiting_outputs st)"
  shows "list_all single_output (waiting_outputs (snd (emit st)))"
  using assms made_output [of st] single_put
  by (cases "st_queue st") (auto simp: single_waiting emit_def Let_def case_prod_unfold)

lemma waiting_detokenize: "detokenize eo (accumulate eo st) = Inr (st1, tell) \<Longrightarrow> waiting_outputs st1 = waiting_outputs st"
  by (elim detokenize_cases) (simp add: waiting_outputs_def accumulate_sel)

lemma singles_consume: "singles (st, got) \<Longrightarrow> consume eo st = Inr st' \<Longrightarrow> singles (st', got)"
  using singles_emit waiting_detokenize by (fastforce simp: singles_def consume_def)

lemma singles_step: "singles s \<Longrightarrow> stream_step s ev = Inr s' \<Longrightarrow> singles s'"
  using singles_consume singles_fetch by (cases s; cases ev) auto

lemma singles_run: "singles s \<Longrightarrow> foldE stream_step s evs = Inr s' \<Longrightarrow> singles s'"
  using singles_step by (induction evs arbitrary: s) (auto, blast)

lemma singles_init: "singles (req_state_init r (Some (collector_init k i)) d, [])"
  by (simp add: singles_def req_state_init_def collector_init_def waiting_outputs_def)
text \<open>The output that finishes a request delivers what is missing of its tokens and of its text.\<close>

lemma finishing_delivers:
  assumes ok: "stream_ok toks (st, got)" and live: "\<not> st_finished st" and c: "consume eo st = Inr st'"
    and fin: "st_finished st'"
    and dec: "detok_decode (eco_new_token_ids eo) (eco_finish_reason eo \<noteq> None) (st_detokenizer st) = Inr (n, d)"
    and buf: "dt_byte_buffer d = []"
  shows "delivered_tokens (got @ waiting_outputs st') = toks @ eco_new_token_ids eo"
    and "delivered_text (got @ waiting_outputs st') = dt_output_text (st_detokenizer st')"
proof -
  from consume_ok [OF ok live c]
  show "delivered_tokens (got @ waiting_outputs st') = toks @ eco_new_token_ids eo"
    by (simp add: stream_ok_def)
  from c obtain st1 tell where de: "detokenize eo (accumulate eo st) = Inr (st1, tell)"
    and st': "st' = snd (emit st1)" by (auto simp: consume_def)
  obtain r1 d1 where u: "detok_update (eco_new_token_ids eo) (eco_finish_reason eo \<noteq> None) (st_detokenizer st) = Inr (r1, d1)"
    and s1: "st_detokenizer st1 = d1" "st_queue st1 = st_queue st" "st_output_kind st1 = st_output_kind st"
      "st_sent_tokens_offset st1 = st_sent_tokens_offset st" "st_token_ids st1 = st_token_ids st @ eco_new_token_ids eo"
      "st_finished st1 \<longleftrightarrow> eco_finish_reason eo \<noteq> None \<or> r1 \<noteq> None"
    using detokenize_cases [OF de] live by (metis accumulate_sel)
  obtain t d2 where nx: "next_output_text (st_finished st1) True d1 = (t, d2)"
    by (cases "next_output_text (st_finished st1) True d1")
  have shape: "stream_shape st1" using ok s1(2,3) by (simp add: stream_ok_def stream_shape_def)
  have off: "st_sent_tokens_offset st1 \<le> length (st_token_ids st1)"
    using ok live s1(4,5) by (simp add: stream_ok_def)
  note e = emit_delivers [OF shape off nx [folded s1(1)], folded st']
  have f1: "st_finished st1" using e fin by simp
  have nx1: "next_output_text True True d1 = (t, d2)" using nx f1 by simp
  have "delivered_text (got @ waiting_outputs st) @ t = dt_output_text d1"
  proof (rule stream_adds_up [OF _ u _ dec _ nx1])
    show "streaming (delivered_text (got @ waiting_outputs st)) (st_detokenizer st)"
      using ok live by (simp add: stream_ok_def)
  qed (use f1 s1(6) buf in auto)
  moreover have "dt_output_text d2 = dt_output_text d1"
    using nx by (auto simp: next_output_text_def Let_def split: if_split_asm)
  moreover have "waiting_outputs st1 = waiting_outputs st" by (simp add: waiting_outputs_def s1(2))
  ultimately show "delivered_text (got @ waiting_outputs st') = dt_output_text (st_detokenizer st')"
    using e by (simp add: delivered_append)
qed


definition demo_stream_request :: vreq where
  "demo_stream_request =
     new_vreq 1 ''a-1'' (PromptText [97]) [1] (sampling_defaults\<lparr>sp_output_kind := DELTA\<rparr>) 1 0"

definition demo_core_output :: "rid \<Rightarrow> token list \<Rightarrow> string option \<Rightarrow> engine_core_output" where
  "demo_core_output i ids fin =
     \<lparr>eco_request_id = i, eco_new_token_ids = ids, eco_new_logprobs = None, eco_finish_reason = fin,
      eco_stop_reason = None\<rparr>"

lemma demo_detok_update:
  "detok_update [1] False (demo_detok []) = Inr (None, (demo_detok [])
     \<lparr>dt_output_text := [97], dt_output_token_count := 1, dt_last_new_text := [97]\<rparr>)"
  by (simp add: detok_update_def detok_decode_def decode_token_def try_decode_buffer_prefix
      check_stop_strings_def demo_detok_def demo_token_bytes utf8_prefix_eval)


section \<open>Requests do not disturb each other\<close>

lemma process_one_other:
  assumes "process_one (p, acc) eo = Inr (p', acc')" and "i \<noteq> eco_request_id eo"
  shows "dict_get (op_requests p') i = dict_get (op_requests p) i"
  using assms by (auto simp: process_one_def Let_def case_prod_unfold split: option.split_asm)

lemma process_one_external:
  "process_one (p, acc) eo = Inr (p', acc') \<Longrightarrow> op_external_req_ids p' = op_external_req_ids p"
  by (auto simp: process_one_def Let_def case_prod_unfold split: option.split_asm)

section \<open>What an abort leaves behind\<close>

lemma abort_one_other: "abort_one (a, b, p) i = (a', b', p') \<Longrightarrow>
    op_external_req_ids p' = op_external_req_ids p \<and> op_requests p' = dict_del i (op_requests p)"
  by (cases "dict_get (op_requests p) i")
     (auto simp: abort_one_def Let_def case_prod_unfold delete_conv' dict_get_None_keys
        intro: delete_idem [symmetric] split: option.split_asm)

lemma op_abort_requests_spec:
  assumes "foldl abort_one (a, b, p) ids = (a', b', p')"
  shows "op_external_req_ids p' = op_external_req_ids p \<and> op_requests p' = foldl (\<lambda>d i. dict_del i d) (op_requests p) ids"
  using assms
proof (induction ids arbitrary: a b p)
  case (Cons i ids)
  obtain a1 b1 p1 where s: "abort_one (a, b, p) i = (a1, b1, p1)" by (cases "abort_one (a, b, p) i")
  with Cons abort_one_other [OF s] show ?case by auto
qed simp

text \<open>
  An abort forgets the request but not its name. After \<^verbatim>\<open>abort_requests\<close> the processor has no
  state for the request any more, but the table from external identifiers still maps the user's
  identifier to it, and no later \<^verbatim>\<open>remove_request\<close> takes it out: the table grows with every abort.
\<close>

theorem abort_keeps_external_id:
  assumes "op_add_request r q p = Inr p1" and "op_abort_requests [request_id r] p1 = (ids, cols, p2)"
  shows "ids = [request_id r] \<and> dict_get (op_requests p2) (request_id r) = None \<and>
    (\<exists>is. dict_get (op_external_req_ids p2) (external_or_own r) = Some is \<and> request_id r \<in> set is) \<and>
    op_remove_request (request_id r) p2 = Inr p2"
proof -
  from assms(1) obtain d where p1: "p1 = p\<lparr>op_requests := dict_set (request_id r) (req_state_init r q d) (op_requests p),
      op_external_req_ids := dict_set (external_or_own r)
        (dict_get_default (op_external_req_ids p) (external_or_own r) [] @ [request_id r]) (op_external_req_ids p)\<rparr>"
    by (auto simp: op_add_request_def Let_def)
  have a: "abort_one ([], [], p1) (request_id r) = (ids, cols, p2)" using assms(2) by (simp add: op_abort_requests_def)
  from abort_one_other [OF a] have none: "dict_get (op_requests p2) (request_id r) = None"
    and ext: "op_external_req_ids p2 = op_external_req_ids p1" by simp_all
  have "ids = [request_id r]"
    using a by (auto simp: abort_one_def p1 Let_def case_prod_unfold split: option.split_asm)
  moreover have "\<exists>is. dict_get (op_external_req_ids p2) (external_or_own r) = Some is \<and> request_id r \<in> set is"
    by (simp add: ext p1)
  ultimately show ?thesis using none by (simp add: op_remove_request_def)
qed

theorem abort_keeps_external_id_witness:
  "\<exists>p1 ids cols p2. op_add_request demo_stream_request None (output_processor_init None) = Inr p1 \<and>
     op_abort_requests [''a-1''] p1 = (ids, cols, p2) \<and> dict_get (op_external_req_ids p2) ''a-1'' \<noteq> None"
proof -
  have r: "request_id demo_stream_request = ''a-1''" "external_or_own demo_stream_request = ''a-1''"
    by (simp_all add: demo_stream_request_def new_vreq_def external_or_own_def)
  obtain p1 where p1: "op_add_request demo_stream_request None (output_processor_init None) = Inr p1"
    by (simp add: op_add_request_def detok_init_def demo_stream_request_def new_vreq_def
        sampling_defaults_def output_processor_init_def Let_def)
  obtain ids cols p2 where ab: "op_abort_requests [request_id demo_stream_request] p1 = (ids, cols, p2)"
    by (cases "op_abort_requests [request_id demo_stream_request] p1")
  from abort_keeps_external_id [OF p1 ab] p1 ab show ?thesis by (auto simp: r)
qed

end
