(* ===== verification/Llm_Engine.thy ===== *)
theory Llm_Engine
  imports Engine_Inv Input_Processor Output_Processor
begin

text \<open>
  The engine in one process: \<^verbatim>\<open>InprocClient\<close> and the client factory of
  \<^verbatim>\<open>vkwr/engine/core_client.py\<close>, \<^verbatim>\<open>vkwr/engine/llm_engine.py\<close> and
  \<^verbatim>\<open>vkwr/entrypoints/llm.py\<close>.

  Loops that wait for the engine may run forever; they take \<open>fuel\<close> and return \<open>None\<close> when it is
  used up, so that not returning is a statement about every amount of fuel. The clock of a
  deadline is the argument \<open>expired\<close>. A method that walks over a list while the list shrinks under
  it (\<^verbatim>\<open>remove_request\<close> iterates over the live table entry) is modelled with the index Python's
  iterator keeps. The random number of an identifier and the time of each call are arguments.

  The lemmas show what an abort does to the engine behind the client, when waiting for an output
  never ends, and how several prompts share one set of parameters.
\<close>

section \<open>The in-process client\<close>

datatype client_kind = InprocKind | SyncMPKind | AsyncMPKind

definition make_client :: "bool \<Rightarrow> bool \<Rightarrow> client_kind res" where
  "make_client multiprocess_mode asyncio_mode =
     (if asyncio_mode \<and> \<not> multiprocess_mode then Inl NotImplementedError
      else if multiprocess_mode \<and> asyncio_mode then Inr AsyncMPKind
      else if multiprocess_mode then Inr SyncMPKind
      else Inr InprocKind)"

record ('st, 'g, 'r, 'lg) inproc =
  ic_core :: "('st, 'g, 'r, 'lg) engine_core"
  ic_outputs_queue :: "engine_core_outputs list"

definition inproc_init :: "('st, 'g, 'r, 'lg) net \<Rightarrow> vkwr_config \<Rightarrow> ('st, 'g, 'r, 'lg) inproc res" where
  "inproc_init net cfg =
     bindE (core_init cfg) (\<lambda>e.
     bindE (core_initialize net e) (\<lambda>e'. Inr \<lparr>ic_core = e', ic_outputs_queue = []\<rparr>))"

definition inproc_add_request ::
    "real \<Rightarrow> core_request \<Rightarrow> ('st, 'g, 'r, 'lg) inproc \<Rightarrow> ('st, 'g, 'r, 'lg) inproc res" where
  "inproc_add_request now q c =
     bindE (preprocess_add_request now q) (\<lambda>(r, wave).
     bindE (core_add_request r (ic_core c)) (\<lambda>e'. Inr (c\<lparr>ic_core := e'\<rparr>)))"

text \<open>\<open>outputs and outputs.get(0) or EngineCoreOutputs()\<close>\<close>

definition outputs_for_client :: "step_outputs \<Rightarrow> engine_core_outputs" where
  "outputs_for_client outs =
     (case outs of None \<Rightarrow> outputs_of []
      | Some d \<Rightarrow> (case dict_get d 0 of None \<Rightarrow> outputs_of [] | Some o1 \<Rightarrow> o1))"

fun get_output_loop ::
    "nat \<Rightarrow> (nat \<Rightarrow> bool) \<Rightarrow> ('st, 'g, 'r, 'lg) net \<Rightarrow> ('st, 'g, 'r, 'lg) inproc
       \<Rightarrow> (engine_core_outputs \<times> ('st, 'g, 'r, 'lg) inproc) res option" where
  "get_output_loop 0 expired net c = None"
| "get_output_loop (Suc fuel) expired net c =
     (case step_fn net (ic_core c) of
        Inl err \<Rightarrow> Some (Inl err)
      | Inr ((outs, executed), e') \<Rightarrow>
          (let result = outputs_for_client outs; c' = c\<lparr>ic_core := e'\<rparr>
           in if ecos_outputs result \<noteq> [] then Some (Inr (result, c'))
              else if \<not> has_requests (ec_sched e') then Some (Inr (result, c'))
              else if expired fuel then Some (Inr (result, c'))
              else get_output_loop fuel expired net c'))"

definition inproc_get_output ::
    "nat \<Rightarrow> (nat \<Rightarrow> bool) \<Rightarrow> ('st, 'g, 'r, 'lg) net \<Rightarrow> ('st, 'g, 'r, 'lg) inproc
       \<Rightarrow> (engine_core_outputs \<times> ('st, 'g, 'r, 'lg) inproc) res option" where
  "inproc_get_output fuel expired net c =
     (case ic_outputs_queue c of
        o1 # os \<Rightarrow> Some (Inr (o1, c\<lparr>ic_outputs_queue := os\<rparr>))
      | [] \<Rightarrow> get_output_loop fuel expired net c)"

definition inproc_abort_requests ::
    "rid list \<Rightarrow> ('st, 'g, 'r, 'lg) inproc \<Rightarrow> ('st, 'g, 'r, 'lg) inproc res" where
  "inproc_abort_requests ids c =
     (if ids = [] then Inr c
      else bindE (core_abort_requests ids (ic_core c)) (\<lambda>(outs, e').
        Inr (c\<lparr>ic_core := e', ic_outputs_queue := ic_outputs_queue c @ map snd outs\<rparr>)))"

definition inproc_shutdown :: "('st, 'g, 'r, 'lg) inproc \<Rightarrow> ('st, 'g, 'r, 'lg) inproc" where
  "inproc_shutdown c = c\<lparr>ic_core := core_shutdown (ic_core c)\<rparr>"

section \<open>The engine\<close>

record ('st, 'g, 'r, 'lg) llm_engine =
  le_client :: "('st, 'g, 'r, 'lg) inproc"
  le_input :: input_processor
  le_output :: output_processor

text \<open>\<open>tok\<close> is the result of \<^verbatim>\<open>get_tokenizer\<close> on the configured path.\<close>

definition llm_init ::
    "('st, 'g, 'r, 'lg) net \<Rightarrow> (string option \<Rightarrow> rwkv_tokenizer option) \<Rightarrow> vkwr_config
       \<Rightarrow> ('st, 'g, 'r, 'lg) llm_engine res" where
  "llm_init net tok cfg =
     (let tk = (if \<not> mc_skip_tokenizer_init (vc_model cfg) then tok (mc_tokenizer (vc_model cfg)) else None)
      in bindE (make_client False False) (\<lambda>kind.
         bindE (inproc_init net cfg) (\<lambda>c.
         Inr \<lparr>le_client = c,
              le_input = \<lparr>ip_max_model_len = mc_max_model_len (vc_model cfg),
                          ip_scheduler_config = Some (vc_scheduler cfg), ip_tokenizer = tk\<rparr>,
              le_output = output_processor_init tk\<rparr>)))"

definition llm_add_request ::
    "128 word \<Rightarrow> real \<Rightarrow> rid \<Rightarrow> prompt_input \<Rightarrow> sampling_params \<Rightarrow> collector option
       \<Rightarrow> ('st, 'g, 'r, 'lg) llm_engine \<Rightarrow> (rid \<times> sampling_params \<times> ('st, 'g, 'r, 'lg) llm_engine) res" where
  "llm_add_request u now i p sp q g =
     bindE (process_input u now (le_input g) i p sp) (\<lambda>(r, sp').
     bindE (op_add_request r q (le_output g)) (\<lambda>op.
     bindE (inproc_add_request now
              \<lparr>cr_request_id = request_id r, cr_prompt_token_ids = Some (prompt_token_ids r),
               cr_sampling_params = Some sp', cr_arrival_time = 0, cr_priority = 0, cr_current_wave = 0\<rparr>
              (le_client g)) (\<lambda>c.
     Inr (request_id r, sp', g\<lparr>le_client := c, le_output := op\<rparr>))))"

text \<open>What a step does with the outputs it got.\<close>

definition deliver_outputs ::
    "engine_core_outputs \<Rightarrow> ('st, 'g, 'r, 'lg) llm_engine
       \<Rightarrow> (request_output list \<times> ('st, 'g, 'r, 'lg) llm_engine) res" where
  "deliver_outputs outs g =
     (if ecos_outputs outs = [] then Inr ([], g)
      else
        bindE (process_outputs (ecos_outputs outs) (le_output g)) (\<lambda>(done_out, op).
        bindE (if po_reqs_to_abort done_out \<noteq> []
               then inproc_abort_requests (po_reqs_to_abort done_out) (le_client g)
               else Inr (le_client g)) (\<lambda>c.
        let (ids, op1) = op_get_and_clear_finished_ids op
        in bindE (foldE (\<lambda>o1 i. op_remove_request i o1) op1 ids) (\<lambda>op2.
           Inr (po_request_outputs done_out, g\<lparr>le_client := c, le_output := op2\<rparr>)))))"

definition llm_step ::
    "nat \<Rightarrow> ('st, 'g, 'r, 'lg) net \<Rightarrow> ('st, 'g, 'r, 'lg) llm_engine
       \<Rightarrow> (request_output list \<times> ('st, 'g, 'r, 'lg) llm_engine) res option" where
  "llm_step fuel net g =
     (case inproc_get_output fuel (\<lambda>_. False) net (le_client g) of
        None \<Rightarrow> None
      | Some r \<Rightarrow> Some (bindE r (\<lambda>(outs, c). deliver_outputs outs (g\<lparr>le_client := c\<rparr>))))"

definition resolve_internal_ids :: "rid \<Rightarrow> output_processor \<Rightarrow> rid list" where
  "resolve_internal_ids i op =
     (case dict_get (op_external_req_ids op) i of
        Some (j # js) \<Rightarrow> j # js
      | _ \<Rightarrow> [i])"

definition llm_abort_requests ::
    "rid list \<Rightarrow> ('st, 'g, 'r, 'lg) llm_engine \<Rightarrow> ((rid \<times> collector) list \<times> ('st, 'g, 'r, 'lg) llm_engine) res" where
  "llm_abort_requests ids g =
     (let internal = concat (map (\<lambda>i. resolve_internal_ids i (le_output g)) ids);
          (aborted, cols, op) = op_abort_requests internal (le_output g)
      in bindE (inproc_abort_requests internal (le_client g)) (\<lambda>c.
         Inr (cols, g\<lparr>le_client := c, le_output := op\<rparr>)))"

definition llm_abort_request ::
    "rid \<Rightarrow> ('st, 'g, 'r, 'lg) llm_engine \<Rightarrow> ((rid \<times> collector) list \<times> ('st, 'g, 'r, 'lg) llm_engine) res" where
  "llm_abort_request i g = llm_abort_requests [i] g"

definition llm_has_unfinished_requests :: "('st, 'g, 'r, 'lg) llm_engine \<Rightarrow> bool" where
  "llm_has_unfinished_requests g \<longleftrightarrow> 0 < length (op_requests (le_output g))"

text \<open>
  \<^verbatim>\<open>remove_request\<close> iterates over the table's own list of internal identifiers, from which each
  removal takes one out: the iterator's index \<open>k\<close> moves on all the same. The list that is not in
  the table is the one-element list the method has made itself.
\<close>

definition live_ids :: "rid \<Rightarrow> output_processor \<Rightarrow> rid list" where
  "live_ids ext op = (case dict_get (op_external_req_ids op) ext of None \<Rightarrow> [] | Some ids \<Rightarrow> ids)"

lemma op_remove_shrinks:
  "op_remove_request i op = Inr op' \<Longrightarrow> length (live_ids ext op') \<le> length (live_ids ext op)"
  by (auto simp: op_remove_request_def live_ids_def Let_def length_remove1
      split: option.split_asm if_split_asm option.split)

function remove_live :: "rid \<Rightarrow> nat \<Rightarrow> output_processor \<Rightarrow> output_processor res" where
  "remove_live ext k op =
     (if k < length (live_ids ext op)
      then bindE (op_remove_request (live_ids ext op ! k) op) (\<lambda>op'. remove_live ext (Suc k) op')
      else Inr op)"
  by auto
termination
proof (relation "measure (\<lambda>(ext, k, op). length (live_ids ext op) - k)", goal_cases)
  case (2 ext k op op')
  from op_remove_shrinks [OF 2(2), of ext] 2(1) show ?case by simp
qed simp

declare remove_live.simps [simp del]

definition llm_remove_request :: "rid \<Rightarrow> ('st, 'g, 'r, 'lg) llm_engine \<Rightarrow> ('st, 'g, 'r, 'lg) llm_engine res" where
  "llm_remove_request i g =
     bindE (case dict_get (op_external_req_ids (le_output g)) i of
              Some (j # js) \<Rightarrow> remove_live i 0 (le_output g)
            | _ \<Rightarrow> op_remove_request i (le_output g)) (\<lambda>op.
     Inr (g\<lparr>le_output := op\<rparr>))"

definition llm_shutdown :: "('st, 'g, 'r, 'lg) llm_engine \<Rightarrow> ('st, 'g, 'r, 'lg) llm_engine" where
  "llm_shutdown g = g\<lparr>le_client := inproc_shutdown (le_client g)\<rparr>"

section \<open>The programmatic interface\<close>

text \<open>\<^verbatim>\<open>prompts\<close>: a text, a list of tokens, a list of prompts, or anything else.\<close>

datatype prompts_arg =
    OneText unicode_text
  | TokenList "token list"
  | PromptList "prompt_input list"
  | OtherPrompts

definition normalize_prompts :: "prompts_arg \<Rightarrow> prompt_input list res" where
  "normalize_prompts ps =
     (case ps of
        OneText t \<Rightarrow> Inr [PromptText t]
      | OtherPrompts \<Rightarrow> Inl (TypeError ''prompts must be str or list'')
      | TokenList ts \<Rightarrow> Inr (if ts = [] then [] else [PromptTokens ts])
      | PromptList qs \<Rightarrow> Inr qs)"

text \<open>
  The loop that registers the requests: all of them share the caller's parameters object, \<open>us\<close>
  are the random numbers of the identifiers.
\<close>

fun add_prompts ::
    "real \<Rightarrow> nat \<Rightarrow> (128 word \<times> prompt_input) list \<Rightarrow> sampling_params
       \<Rightarrow> ('st, 'g, 'r, 'lg) llm_engine \<Rightarrow> (sampling_params \<times> ('st, 'g, 'r, 'lg) llm_engine) res" where
  "add_prompts now k [] sp g = Inr (sp, g)"
| "add_prompts now k ((u, p) # ps) sp g =
     bindE (llm_add_request u now (''req-'' @ decimal k) p sp None g) (\<lambda>(i, sp', g').
     add_prompts now (Suc k) ps sp' g')"

text \<open>One output in the loop of \<^verbatim>\<open>_collect_results\<close>\<close>

definition collect_one ::
    "bool \<Rightarrow> request_output list \<times> (rid, request_output) dict \<times> ('st, 'g, 'r, 'lg) llm_engine \<Rightarrow> request_output
       \<Rightarrow> (request_output list \<times> (rid, request_output) dict \<times> ('st, 'g, 'r, 'lg) llm_engine) res" where
  "collect_one acc_mode s out =
     (let (outputs, accs, g) = s;
          i = ro_request_id out;
          cur = (case dict_get accs i of
                   None \<Rightarrow> out
                 | Some o1 \<Rightarrow> if acc_mode then ro_add o1 out True else out);
          accs' = dict_set i cur accs
      in if ro_finished out
         then bindE (llm_remove_request i g) (\<lambda>g'. Inr (outputs @ [cur], dict_del i accs', g'))
         else Inr (outputs, accs', g))"

fun collect_loop ::
    "nat \<Rightarrow> nat \<Rightarrow> ('st, 'g, 'r, 'lg) net \<Rightarrow> bool
       \<Rightarrow> request_output list \<times> (rid, request_output) dict \<times> ('st, 'g, 'r, 'lg) llm_engine
       \<Rightarrow> (request_output list \<times> ('st, 'g, 'r, 'lg) llm_engine) res option" where
  "collect_loop 0 fuel net acc_mode s = None"
| "collect_loop (Suc n) fuel net acc_mode (outputs, accs, g) =
     (if \<not> llm_has_unfinished_requests g then Some (Inr (outputs, g))
      else case llm_step fuel net g of
        None \<Rightarrow> None
      | Some (Inl err) \<Rightarrow> Some (Inl err)
      | Some (Inr (outs, g1)) \<Rightarrow>
          (case foldE (collect_one acc_mode) (outputs, accs, g1) outs of
             Inl err \<Rightarrow> Some (Inl err)
           | Inr s' \<Rightarrow> collect_loop n fuel net acc_mode s'))"

text \<open>\<^verbatim>\<open>_stream_results\<close>, to its end: the outputs in the order they are yielded.\<close>

definition stream_one ::
    "request_output list \<times> ('st, 'g, 'r, 'lg) llm_engine \<Rightarrow> request_output
       \<Rightarrow> (request_output list \<times> ('st, 'g, 'r, 'lg) llm_engine) res" where
  "stream_one s out =
     (let (yielded, g) = s
      in if ro_finished out
         then bindE (llm_remove_request (ro_request_id out) g) (\<lambda>g'. Inr (yielded @ [out], g'))
         else Inr (yielded @ [out], g))"

fun stream_loop ::
    "nat \<Rightarrow> nat \<Rightarrow> ('st, 'g, 'r, 'lg) net \<Rightarrow> request_output list \<times> ('st, 'g, 'r, 'lg) llm_engine
       \<Rightarrow> (request_output list \<times> ('st, 'g, 'r, 'lg) llm_engine) res option" where
  "stream_loop 0 fuel net s = None"
| "stream_loop (Suc n) fuel net (yielded, g) =
     (if \<not> llm_has_unfinished_requests g then Some (Inr (yielded, g))
      else case llm_step fuel net g of
        None \<Rightarrow> None
      | Some (Inl err) \<Rightarrow> Some (Inl err)
      | Some (Inr (outs, g1)) \<Rightarrow>
          (case foldE stream_one (yielded, g1) outs of
             Inl err \<Rightarrow> Some (Inl err)
           | Inr s' \<Rightarrow> stream_loop n fuel net s'))"

text \<open>
  \<^verbatim>\<open>generate\<close>. Without streaming the parameters are a copy that asks for final outputs only; the
  stream is run to its end.
\<close>

definition llm_generate ::
    "nat \<Rightarrow> nat \<Rightarrow> ('st, 'g, 'r, 'lg) net \<Rightarrow> real \<Rightarrow> 128 word list \<Rightarrow> prompts_arg \<Rightarrow> sampling_params option \<Rightarrow> bool
       \<Rightarrow> ('st, 'g, 'r, 'lg) llm_engine \<Rightarrow> (request_output list \<times> ('st, 'g, 'r, 'lg) llm_engine) res option" where
  "llm_generate n fuel net now us ps sp strm g =
     (case bindE (case sp of Some q \<Rightarrow> Inr q | None \<Rightarrow> sampling_post_init sampling_defaults) (\<lambda>sp0.
           let sp1 = (if \<not> strm then sp0\<lparr>sp_output_kind := FINAL_ONLY\<rparr> else sp0)
           in bindE (normalize_prompts ps) (\<lambda>qs.
              bindE (add_prompts now 0 (zip us qs) sp1 g) (\<lambda>(sp2, g'). Inr (qs, sp2, g')))) of
        Inl err \<Rightarrow> Some (Inl err)
      | Inr (qs, sp2, g') \<Rightarrow>
          if qs = [] then Some (Inr ([], g'))
          else if strm then stream_loop n fuel net ([], g')
          else collect_loop n fuel net (sp_output_kind sp2 = DELTA) ([], [], g'))"

section \<open>What an abort does to the engine\<close>

lemma finish_these_distinct:
  assumes "sched_wf s" and "distinct ids" and "finish_these ids s = Inr (d, s')"
  shows "distinct d"
proof -
  have "distinct d" if "foldE finish_one (done0, s) ids = Inr (d, s')" "distinct (done0 @ ids)" for done0
    using that assms(1)
  proof (induction ids arbitrary: done0 s)
    case (Cons i ids)
    obtain s1 where "finish_one (done0, s) i = Inr (done0 @ (if i \<in># req_ids s then [i] else []), s1)" "sched_wf s1"
      using finish_one_spec [OF Cons.prems(3)] by blast
    with Cons.prems Cons.IH [of "done0 @ (if i \<in># req_ids s then [i] else [])" s1] show ?case by auto
  qed simp
  from this [of "[]"] show ?thesis using assms(2,3) by (simp add: finish_these_def)
qed

text \<open>
  The in-process client loses the slots of the requests it aborts. \<^verbatim>\<open>abort_requests\<close> takes
  exactly the named requests out of the scheduler and queues one abort output for each of them,
  but it neither touches the slot manager nor leaves anything in the aborts queue from which a
  later step would free the slots. A request that ends with a stop string is aborted this way.
\<close>

theorem inproc_abort_leaks_slots:
  assumes "sched_wf (ec_sched (ic_core c))" and "set ids \<inter> set_mset (req_ids (ec_sched (ic_core c))) \<noteq> {}"
  shows "\<exists>c' done_ids. inproc_abort_requests ids c = Inr c' \<and> sched_wf (ec_sched (ic_core c')) \<and>
    req_ids (ec_sched (ic_core c')) = filter_mset (\<lambda>i. i \<notin> set ids) (req_ids (ec_sched (ic_core c))) \<and>
    set done_ids = set ids \<inter> set_mset (req_ids (ec_sched (ic_core c))) \<and> distinct done_ids \<and>
    ic_outputs_queue c' = ic_outputs_queue c @ [outputs_of (map abort_output done_ids)] \<and>
    slot_manager_of (ec_sched (ic_core c')) = slot_manager_of (ec_sched (ic_core c)) \<and>
    ec_aborts (ic_core c') = ec_aborts (ic_core c)"
proof -
  have ne: "ids \<noteq> []" using assms(2) by auto
  obtain d s' where d: "finish_these (remdups ids) (ec_sched (ic_core c)) = Inr (d, s')" "sched_wf s'"
    "slot_manager_of s' = slot_manager_of (ec_sched (ic_core c))"
    "req_ids s' = filter_mset (\<lambda>i. i \<notin> set ids) (req_ids (ec_sched (ic_core c)))"
    "set d = set ids \<inter> set_mset (req_ids (ec_sched (ic_core c)))"
    using finish_these_spec [OF assms(1), of "remdups ids"] by auto
  have "d \<noteq> []" "distinct d" using d(5) assms(2) finish_these_distinct [OF assms(1) _ d(1)] by auto
  then show ?thesis using ne d
    by (simp add: inproc_abort_requests_def core_abort_requests_def finish_requests_def) blast
qed

theorem inproc_abort_leaks_slots_witness:
  "\<exists>c'. inproc_abort_requests [''b'', ''x''] \<lparr>ic_core = demo_engine, ic_outputs_queue = []\<rparr> = Inr c' \<and>
     ic_outputs_queue c' = [outputs_of [abort_output ''b'']]"
proof -
  have "req_ids demo_sched = {#''a'', ''b'', ''c''#}"
    by (simp add: demo_sched_def all_ids_def pending_def demo_req_def new_vreq_def)
  then have ids: "set [''b'', ''x''] \<inter> set_mset (req_ids demo_sched) = {''b''}" by auto
  let ?c = "\<lparr>ic_core = demo_engine, ic_outputs_queue = []\<rparr>"
  have c: "ec_sched (ic_core ?c) = demo_sched" "ic_outputs_queue ?c = []" by (simp_all add: demo_engine_def)
  have "sched_wf (ec_sched (ic_core ?c))" "set [''b'', ''x''] \<inter> set_mset (req_ids (ec_sched (ic_core ?c))) \<noteq> {}"
    unfolding c ids using demo_wf by simp_all
  from inproc_abort_leaks_slots [OF this] obtain c' d where d: "inproc_abort_requests [''b'', ''x''] ?c = Inr c'"
    "set d = {''b''}" "distinct d" "ic_outputs_queue c' = [outputs_of (map abort_output d)]"
    unfolding c ids by (metis append_Nil)
  then have "length d = 1" using distinct_card [of d] by simp
  then obtain x where "d = [x]" by (cases d) simp_all
  with d(2) have db: "d = [''b'']" by simp
  from d(1,4) show ?thesis unfolding db list.map by blast
qed

section \<open>Waiting that never ends\<close>

text \<open>Every request is a running prompt that has reached the model length.\<close>

definition all_stuck :: "sched \<Rightarrow> bool" where
  "all_stuck s \<longleftrightarrow> sched_wf s \<and> slots_exact s \<and> 0 \<le> max_num_batched_tokens (sc_config s) \<and>
     (\<exists>policy. scheduling_policy_of (scheduling_policy_name (sc_config s)) = Inr policy) \<and>
     pending {#} s = {#} \<and> running s \<noteq> [] \<and> (\<forall>r \<in> set (running s). at_model_len s r)"

lemma all_stuck_schedule:
  assumes "all_stuck s"
  shows "\<exists>out s'. schedule s = Inr (out, s') \<and> all_stuck s' \<and>
    so_total_num_scheduled_tokens out = 0 \<and> so_finished_req_ids out = []"
proof -
  have wf: "sched_wf s" and ex: "slots_exact s" and pos: "0 \<le> max_num_batched_tokens (sc_config s)"
    and pend: "pending {#} s = {#}" and ne: "running s \<noteq> []"
    and stuck: "\<And>r. r \<in> set (running s) \<Longrightarrow> at_model_len s r"
    using assms by (auto simp: all_stuck_def)
  obtain policy where pol: "scheduling_policy_of (scheduling_policy_name (sc_config s)) = Inr policy"
    using assms by (auto simp: all_stuck_def)
  obtain out s' where run: "schedule s = Inr (out, s')" using schedule_total [OF wf ex pos pol] by blast
  have left: "request_id r \<notin> set (so_scheduled_req_ids out) \<and> request_id r \<notin> set (so_finished_req_ids out) \<and>
    r \<in> set (running s') \<and> at_model_len s' r" if "r \<in> set (running s)" for r
    using overlong_left_alone [OF wf pos that stuck [OF that] run] .
  from wf pos run obtain b s1 where b: "batch_inv s1 b" "sched_wf s'" "req_ids s' = req_ids s"
    "same_config s s'" "running s' = map (advanced (b_tokens b) (set (b_scheduled b))) (running s1)"
    "so_scheduled_req_ids out = b_scheduled b" "so_total_num_scheduled_tokens out = sum_list (map snd (b_tokens b))"
    "so_finished_req_ids out = b_finished b"
    by (cases rule: schedule_spec) auto
  have sub: "set (running s) \<subseteq> set (running s')" using left by blast
  have dist: "distinct (running s)" "distinct (running s')"
    using running_ids_distinct [OF wf] running_ids_distinct [OF b(2)] by (auto simp: distinct_map)
  have "size (req_ids s') = size (req_ids s)" using b(3) by simp
  then have "size (pending {#} s') + length (running s') = length (running s)"
    using pend by (simp add: all_ids_def)
  moreover have "length (running s) \<le> length (running s')"
    using card_mono [OF _ sub] dist by (simp add: distinct_card)
  ultimately have "size (pending {#} s') = 0" and len: "length (running s') = length (running s)" by linarith+
  then have pend': "pending {#} s' = {#}" by simp
  then have same: "set (running s') = set (running s)"
    using card_subset_eq [OF _ sub] dist len by (simp add: distinct_card)
  have "request_id ` set (running s1) = request_id ` set (running s')"
    unfolding b(5) by (simp add: image_image)
  then have ids: "request_id ` set (running s1) = request_id ` set (running s)" by (simp add: same)
  have sub2: "set (b_scheduled b) \<subseteq> request_id ` set (running s)" "set (b_finished b) \<subseteq> request_id ` set (running s)"
    using batch_scheduled_running [OF b(1)] b(1) unfolding ids [symmetric] by (simp_all add: batch_inv_def)
  have "b_scheduled b = []" "b_finished b = []"
    using sub2 left unfolding b(6,8) by (metis image_iff list.set_intros(1) neq_Nil_conv subset_iff)+
  moreover from this(1) have "b_tokens b = []" using b(1) by (simp add: batch_inv_def)
  moreover have "all_stuck s'"
    unfolding all_stuck_def
    using b(2,4) schedule_slots_exact [OF wf ex pos run] pos pol pend' ne same left
    by (auto simp: same_config_def)
  ultimately show ?thesis using run b(7,8) by auto
qed

lemma all_stuck_step:
  assumes "all_stuck (ec_sched e)" and "ec_initialized e"
    and "enable_async_scheduling (vc_scheduler (ec_config e)) \<longrightarrow>
      ec_batch_queue e = Some [] \<and> 1 \<le> ec_batch_queue_size e"
  shows "\<exists>s'. step_fn net e = Inr ((Some [], False), e\<lparr>ec_sched := s'\<rparr>) \<and> all_stuck s'"
proof -
  obtain out s' where s': "schedule (ec_sched e) = Inr (out, s')" "all_stuck s'"
    "so_total_num_scheduled_tokens out = 0" "so_finished_req_ids out = []"
    using all_stuck_schedule [OF assms(1)] by blast
  have "has_requests (ec_sched e)" using assms(1) by (simp add: all_stuck_def has_requests_def)
  then show ?thesis using s' assms(2,3)
    by (auto simp: step_fn_def core_step_def step_with_batch_queue_def async_launch_def handle_zero_tokens_def)
qed

text \<open>
  C28: waiting for the output of an over-long prompt never ends. If every request of the engine is
  a running prompt that has reached the model length (which the input processor lets through:
  it cuts a longer prompt to exactly that length), \<^verbatim>\<open>get_output\<close> without a deadline does not
  return, however long it runs.
\<close>

theorem get_output_never_returns:
  assumes "all_stuck (ec_sched (ic_core c))" and "ec_initialized (ic_core c)" and "ic_outputs_queue c = []"
    and "enable_async_scheduling (vc_scheduler (ec_config (ic_core c))) \<longrightarrow>
      ec_batch_queue (ic_core c) = Some [] \<and> 1 \<le> ec_batch_queue_size (ic_core c)"
  shows "inproc_get_output fuel (\<lambda>_. False) net c = None"
proof -
  have "get_output_loop fuel (\<lambda>_. False) net c = None"
    using assms(1,2,4)
  proof (induction fuel arbitrary: c)
    case (Suc fuel)
    from all_stuck_step [OF Suc.prems] obtain s' where s': "step_fn net (ic_core c) =
        Inr ((Some [], False), (ic_core c)\<lparr>ec_sched := s'\<rparr>)" "all_stuck s'" by blast
    have "has_requests s'" using s'(2) by (simp add: all_stuck_def has_requests_def)
    with Suc.IH [of "c\<lparr>ic_core := (ic_core c)\<lparr>ec_sched := s'\<rparr>\<rparr>"] s' Suc.prems(2,3) show ?case
      by (simp add: outputs_for_client_def outputs_of_def)
  qed simp
  then show ?thesis using assms(3) by (simp add: inproc_get_output_def)
qed

lemma demo_all_stuck: "all_stuck demo_stuck"
proof -
  have "slots_exact demo_stuck" by (simp add: slots_exact_def demo_stuck_def)
  moreover have "scheduling_policy_of (scheduling_policy_name (sc_config demo_stuck)) = Inr FCFS"
    by (simp add: demo_stuck_def demo_sched_config_def scheduler_config_defaults_def scheduling_policy_of_def)
  moreover have "at_model_len demo_stuck demo_stuck_req" "pending {#} demo_stuck = {#}"
    "running demo_stuck = [demo_stuck_req]" "0 \<le> max_num_batched_tokens (sc_config demo_stuck)"
    by (simp_all add: demo_stuck_def demo_sched_config_def scheduler_config_defaults_def at_model_len_def
        is_decode_def demo_stuck_req_def demo_req_def new_vreq_def pending_def)
  ultimately show ?thesis using demo_stuck_wf by (simp add: all_stuck_def)
qed

theorem get_output_never_returns_witness:
  "\<forall>fuel. inproc_get_output fuel (\<lambda>_. False) demo_net
     \<lparr>ic_core = demo_engine\<lparr>ec_sched := demo_stuck\<rparr>, ic_outputs_queue = []\<rparr> = None"
proof
  fix fuel
  show "inproc_get_output fuel (\<lambda>_. False) demo_net
     \<lparr>ic_core = demo_engine\<lparr>ec_sched := demo_stuck\<rparr>, ic_outputs_queue = []\<rparr> = None"
    by (rule get_output_never_returns) (simp_all add: demo_all_stuck demo_engine_def)
qed

section \<open>Shared parameters and a shrinking list\<close>

lemma process_input_limit:
  assumes "process_input u now ip i p sp = Inr (r, sp')"
  shows "req_sampling_params r = sp'" "sp_max_tokens sp' \<noteq> None"
    "sp_max_tokens sp \<noteq> None \<Longrightarrow> sp_max_tokens sp' = sp_max_tokens sp"
  using process_input_cases [OF assms] inferred_params(2,4) by metis+

lemma llm_add_request_limit:
  assumes "llm_add_request u now i p sp q g = Inr (j, sp', g')"
  shows "sp_max_tokens sp' \<noteq> None" "sp_max_tokens sp \<noteq> None \<Longrightarrow> sp_max_tokens sp' = sp_max_tokens sp"
    "\<exists>r. process_input u now (le_input g) i p sp = Inr (r, sp') \<and> j = request_id r" "le_input g' = le_input g"
proof -
  from assms obtain r where r: "process_input u now (le_input g) i p sp = Inr (r, sp')" "j = request_id r"
    "le_input g' = le_input g" by (auto simp: llm_add_request_def)
  then show "sp_max_tokens sp' \<noteq> None" "sp_max_tokens sp \<noteq> None \<Longrightarrow> sp_max_tokens sp' = sp_max_tokens sp"
    "\<exists>r. process_input u now (le_input g) i p sp = Inr (r, sp') \<and> j = request_id r" "le_input g' = le_input g"
    using process_input_limit(2,3) [OF r(1)] by auto
qed

lemma add_prompts_limit:
  "add_prompts now k ps sp g = Inr (sp', g') \<Longrightarrow> sp_max_tokens sp \<noteq> None \<Longrightarrow> sp_max_tokens sp' = sp_max_tokens sp"
proof (induction ps arbitrary: k sp g)
  case (Cons a ps)
  obtain u p where a: "a = (u, p)" by (cases a)
  with Cons.prems(1) obtain i sp1 g1 where 1: "llm_add_request u now (''req-'' @ decimal k) p sp None g = Inr (i, sp1, g1)"
    "add_prompts now (Suc k) ps sp1 g1 = Inr (sp', g')" by auto
  from llm_add_request_limit(2) [OF 1(1) Cons.prems(2)] Cons.IH [OF 1(2)] Cons.prems(2) show ?case by simp
qed simp

text \<open>
  The prompts of one call share the first one's token limit. When the caller gives no limit,
  the limit inferred for the first prompt from its length is written into the shared parameters,
  and every further prompt of the call is limited to the same number, whatever its own length.
\<close>

theorem prompts_share_limit:
  assumes "add_prompts now k ((u, p) # (v, q) # ps) sp g = Inr (sp', g')" and "sp_max_tokens sp = None"
    and "Option.bind (ip_scheduler_config (le_input g)) default_max_tokens = None"
    and "get_max_prompt_len (le_input g) = Some m" and "1 \<le> m"
  shows "\<exists>toks. tokenize_prompt (le_input g) p = Inr toks \<and>
    sp_max_tokens sp' = Some (max (m - min m (int (length toks))) 1)"
proof -
  from assms(1) obtain i sp1 g1 where 1: "llm_add_request u now (''req-'' @ decimal k) p sp None g = Inr (i, sp1, g1)"
    "add_prompts now (Suc k) ((v, q) # ps) sp1 g1 = Inr (sp', g')" by auto
  from llm_add_request_limit [OF 1(1)] obtain r where r: "process_input u now (le_input g) (''req-'' @ decimal k) p sp = Inr (r, sp1)"
    "sp_max_tokens sp1 \<noteq> None" by blast
  from process_input_cases [OF r(1)] obtain toks where t: "tokenize_prompt (le_input g) p = Inr toks"
    "prompt_token_ids r = truncate_prompt (le_input g) toks"
    "sp1 = infer_max_tokens (le_input g) (prompt_token_ids r) (inject_eos_token_id (le_input g) sp)" by metis
  have "int (length (prompt_token_ids r)) = min m (int (length toks))"
    using assms(4,5) t(2) by (auto simp: truncate_prompt_def slice_to_def slice_end_def min_def)
  then have "sp_max_tokens sp1 = Some (max (m - min m (int (length toks))) 1)"
    using inferred_params(5) [OF t(3) assms(2,3,4)] by simp
  then show ?thesis using add_prompts_limit [OF 1(2) r(2)] t(1) by simp
qed

definition demo_llm :: "(token list, string, unit, int) llm_engine" where
  "demo_llm =
     \<lparr>le_client = \<lparr>ic_core = demo_engine, ic_outputs_queue = []\<rparr>,
      le_input = demo_input_processor\<lparr>ip_max_model_len := Some 8\<rparr>,
      le_output = output_processor_init (Some demo_tokenizer)\<rparr>"

definition demo_two_requests :: output_processor where
  "demo_two_requests =
     (let st = \<lambda>i. req_state_init (demo_stream_request\<lparr>request_id := i, external_req_id := Some ''a''\<rparr>) None (demo_detok [])
      in (output_processor_init None)\<lparr>op_requests := [(''a-1'', st ''a-1''), (''a-2'', st ''a-2'')],
           op_external_req_ids := [(''a'', [''a-1'', ''a-2''])]\<rparr>)"

theorem prompts_share_limit_witness:
  "\<exists>sp' g'. add_prompts 1 0 [(5, PromptTokens [1, 2, 3, 4, 5]), (6, PromptTokens [1])] sampling_defaults demo_llm
       = Inr (sp', g') \<and> sp_max_tokens sp' = Some 3"
proof -
  let ?run = "add_prompts 1 0 [(5, PromptTokens [1, 2, 3, 4, 5]), (6, PromptTokens [1])] sampling_defaults demo_llm"
  have "\<not> isl ?run" by code_simp
  then obtain sp' g' where run: "?run = Inr (sp', g')" by (cases ?run) auto
  have cfg: "sp_max_tokens sampling_defaults = None"
    "Option.bind (ip_scheduler_config (le_input demo_llm)) default_max_tokens = None"
    "get_max_prompt_len (le_input demo_llm) = Some 8"
    "tokenize_prompt (le_input demo_llm) (PromptTokens [1, 2, 3, 4, 5]) = Inr [1, 2, 3, 4, 5]"
    by (simp_all add: demo_llm_def sampling_defaults_def demo_input_processor_def scheduler_config_defaults_def
        get_max_prompt_len_def tokenize_prompt_def)
  from prompts_share_limit [OF run cfg(1-3)] cfg(4) run show ?thesis by auto
qed

text \<open>
  Removing a finished external request leaves half of it. When two requests share a user's
  identifier, \<^verbatim>\<open>remove_request\<close> with it removes the first and skips the second, because the list
  it iterates over shrinks: the second request's state stays and the engine counts it as
  unfinished.
\<close>

theorem remove_request_skips:
  assumes "dict_get (op_external_req_ids (le_output g)) ext = Some [i, j]" and "i \<noteq> j"
    and "dict_get (op_requests (le_output g)) i = Some a" and "st_external_req_id a = ext"
    and "dict_get (op_requests (le_output g)) j = Some b"
  shows "\<exists>g'. llm_remove_request ext g = Inr g' \<and> dict_get (op_requests (le_output g')) i = None \<and>
    dict_get (op_requests (le_output g')) j = Some b \<and>
    dict_get (op_external_req_ids (le_output g')) ext = Some [j] \<and> llm_has_unfinished_requests g'"
proof -
  let ?op = "le_output g"
  let ?op1 = "?op\<lparr>op_requests := dict_del i (op_requests ?op),
    op_external_req_ids := dict_set ext [j] (op_external_req_ids ?op)\<rparr>"
  have 1: "op_remove_request i ?op = Inr ?op1"
    using assms by (simp add: op_remove_request_def)
  have live: "live_ids ext ?op = [i, j]" "live_ids ext ?op1 = [j]" using assms(1) by (simp_all add: live_ids_def)
  have "remove_live ext 0 ?op = Inr ?op1"
    by (subst remove_live.simps, simp add: live(1) 1, subst remove_live.simps) (simp add: live(2))
  then have "llm_remove_request ext g = Inr (g\<lparr>le_output := ?op1\<rparr>)"
    using assms(1) by (simp add: llm_remove_request_def)
  moreover have "dict_get (op_requests ?op1) j = Some b" using assms(2,5) by simp
  moreover from this have "op_requests ?op1 \<noteq> []" by (metis map_of.simps(1) option.distinct(1))
  ultimately show ?thesis by (auto simp: llm_has_unfinished_requests_def)
qed

theorem remove_request_skips_witness:
  "\<exists>op g'. le_output g' = op \<and> llm_remove_request ''a'' (demo_llm\<lparr>le_output := demo_two_requests\<rparr>) = Inr g' \<and>
     dict_get (op_requests op) ''a-2'' \<noteq> None \<and> llm_has_unfinished_requests g'"
proof -
  let ?g = "demo_llm\<lparr>le_output := demo_two_requests\<rparr>"
  have ext: "dict_get (op_external_req_ids (le_output ?g)) ''a'' = Some [''a-1'', ''a-2'']"
    by (simp add: demo_two_requests_def Let_def)
  obtain a b where ab: "dict_get (op_requests (le_output ?g)) ''a-1'' = Some a" "st_external_req_id a = ''a''"
    "dict_get (op_requests (le_output ?g)) ''a-2'' = Some b"
    by (simp add: demo_two_requests_def Let_def req_state_init_def external_or_own_def demo_stream_request_def
        new_vreq_def)
  have "''a-1'' \<noteq> ''a-2''" by simp
  from remove_request_skips [OF ext this ab] show ?thesis by (metis option.distinct(1))
qed

end
