(* ===== verification/Json.thy ===== *)
theory Json
  imports Llm_Engine
begin

text \<open>
  What \<^verbatim>\<open>json.dumps\<close> writes with its default options, for the values the server puts into its
  event streams (no floating point numbers): ASCII only, a comma and a colon followed by a
  space. Texts are lists of code points.

  The reader is the client's side: it skips white space, reads one value and leaves the rest; it
  takes fuel, and as much fuel as there are characters is enough. The lemmas show that what is
  written contains no line break and reads back to the same value.
\<close>

section \<open>Writing\<close>

datatype json =
    JNull
  | JBool bool
  | JInt int
  | JStr unicode_text
  | JList "json list"
  | JObj "(unicode_text \<times> json) list"

definition hex_char :: "nat \<Rightarrow> nat" where
  "hex_char d = (if d < 10 then 48 + d else 87 + d)"

definition hex4 :: "nat \<Rightarrow> nat list" where
  "hex4 n = map hex_char [n div 4096 mod 16, n div 256 mod 16, n div 16 mod 16, n mod 16]"

definition escape_char :: "nat \<Rightarrow> nat list" where
  "escape_char c =
     (if c = 34 then [92, 34] else if c = 92 then [92, 92]
      else if c = 10 then [92, 110] else if c = 13 then [92, 114] else if c = 9 then [92, 116]
      else if c = 12 then [92, 102] else if c = 8 then [92, 98]
      else if 32 \<le> c \<and> c \<le> 126 then [c]
      else if c < 65536 then [92, 117] @ hex4 c
      else [92, 117] @ hex4 (55296 + (c - 65536) div 1024) @ [92, 117] @ hex4 (56320 + (c - 65536) mod 1024))"

definition json_string :: "unicode_text \<Rightarrow> nat list" where
  "json_string t = 34 # concat (map escape_char t) @ [34]"

definition json_int :: "int \<Rightarrow> nat list" where
  "json_int n = (if n < 0 then 45 # ascii (decimal (nat (- n))) else ascii (decimal (nat n)))"

definition json_field :: "unicode_text \<times> nat list \<Rightarrow> nat list" where
  "json_field f = json_string (fst f) @ [58, 32] @ snd f"

primrec json_dumps :: "json \<Rightarrow> nat list" where
  "json_dumps JNull = ascii ''null''"
| "json_dumps (JBool b) = (if b then ascii ''true'' else ascii ''false'')"
| "json_dumps (JInt n) = json_int n"
| "json_dumps (JStr t) = json_string t"
| "json_dumps (JList xs) = 91 # join_text [44, 32] (map json_dumps xs) @ [93]"
| "json_dumps (JObj fs) = 123 # join_text [44, 32] (map json_field (map (map_prod id json_dumps) fs)) @ [125]"

section \<open>Reading\<close>

definition skip_ws :: "nat list \<Rightarrow> nat list" where
  "skip_ws = dropWhile (\<lambda>c. c \<in> {9, 10, 13, 32})"

definition unhex :: "nat \<Rightarrow> nat option" where
  "unhex c = (if 48 \<le> c \<and> c \<le> 57 then Some (c - 48)
     else if 97 \<le> c \<and> c \<le> 102 then Some (c - 87) else if 65 \<le> c \<and> c \<le> 70 then Some (c - 55) else None)"

fun unhex4 :: "nat list \<Rightarrow> (nat \<times> nat list) option" where
  "unhex4 (a # b # c # d # s) =
     (case (unhex a, unhex b, unhex c, unhex d) of
        (Some w, Some x, Some y, Some z) \<Rightarrow> Some (4096 * w + 256 * x + 16 * y + z, s)
      | _ \<Rightarrow> None)"
| "unhex4 s = None"

text \<open>After the backslash; a high surrogate takes the low one that follows it.\<close>

definition unescape_u :: "nat list \<Rightarrow> (nat \<times> nat list) option" where
  "unescape_u s =
     (case unhex4 s of
        None \<Rightarrow> None
      | Some (u, s1) \<Rightarrow>
          if 55296 \<le> u \<and> u < 56320 \<and> take 2 s1 = [92, 117] then
            (case unhex4 (drop 2 s1) of
               Some (v, s2) \<Rightarrow>
                 if 56320 \<le> v \<and> v < 57344 then Some (65536 + (u - 55296) * 1024 + (v - 56320), s2) else Some (u, s1)
             | None \<Rightarrow> None)
          else Some (u, s1))"

fun unescape :: "nat list \<Rightarrow> (nat \<times> nat list) option" where
  "unescape [] = None"
| "unescape (e # s) =
     (if e = 34 \<or> e = 92 \<or> e = 47 then Some (e, s)
      else if e = 110 then Some (10, s) else if e = 114 then Some (13, s) else if e = 116 then Some (9, s)
      else if e = 102 then Some (12, s) else if e = 98 then Some (8, s)
      else if e = 117 then unescape_u s else None)"

lemma unhex4_shorter: "unhex4 s = Some (u, r) \<Longrightarrow> length r < length s"
  by (cases s rule: unhex4.cases) (auto split: option.split_asm)

lemma unescape_u_shorter:
  assumes "unescape_u s = Some (c, r)"
  shows "length r < length s"
proof -
  obtain u s1 where 1: "unhex4 s = Some (u, s1)" using assms by (auto simp: unescape_u_def split: option.split_asm)
  have "r = s1 \<or> (\<exists>v. unhex4 (drop 2 s1) = Some (v, r))"
    using assms 1 by (auto simp: unescape_u_def split: option.split_asm if_split_asm)
  then show ?thesis using unhex4_shorter [OF 1] unhex4_shorter [of "drop 2 s1"] by fastforce
qed

lemma unescape_shorter:
  assumes "unescape s = Some (c, r)"
  shows "length r < length s"
proof (cases s)
  case (Cons e s1)
  then have "r = s1 \<or> unescape_u s1 = Some (c, r)" using assms by (simp split: if_split_asm)
  then show ?thesis using Cons unescape_u_shorter by fastforce
qed (use assms in simp)

function (sequential) read_chars :: "nat list \<Rightarrow> (unicode_text \<times> nat list) option" where
  "read_chars [] = None"
| "read_chars (c # s) =
     (if c = 34 then Some ([], s)
      else if c = 92 then
        (case unescape s of
           None \<Rightarrow> None
         | Some (x, r) \<Rightarrow> map_option (\<lambda>(t, q). (x # t, q)) (read_chars r))
      else map_option (\<lambda>(t, q). (c # t, q)) (read_chars s))"
  by pat_completeness auto
termination
  by (relation "measure length") (auto dest: unescape_shorter)

definition is_digit :: "nat \<Rightarrow> bool" where
  "is_digit c \<longleftrightarrow> 48 \<le> c \<and> c \<le> 57"

definition digits_value :: "nat list \<Rightarrow> int" where
  "digits_value ds = foldl (\<lambda>a d. 10 * a + (int d - 48)) 0 ds"

definition read_int :: "nat list \<Rightarrow> (json \<times> nat list) option" where
  "read_int s =
     (let (sgn, s1) = (case s of c # r \<Rightarrow> if c = 45 then (- 1, r) else (1, s) | [] \<Rightarrow> (1, s));
          ds = takeWhile is_digit s1
      in if ds = [] then None else Some (JInt (sgn * digits_value ds), dropWhile is_digit s1))"

definition read_word :: "nat list \<Rightarrow> json \<Rightarrow> nat list \<Rightarrow> (json \<times> nat list) option" where
  "read_word w v s = (if take (length w) s = w then Some (v, drop (length w) s) else None)"

fun read_value :: "nat \<Rightarrow> nat list \<Rightarrow> (json \<times> nat list) option"
  and read_items :: "nat \<Rightarrow> nat list \<Rightarrow> json list \<Rightarrow> (json \<times> nat list) option"
  and read_fields :: "nat \<Rightarrow> nat list \<Rightarrow> (unicode_text \<times> json) list \<Rightarrow> (json \<times> nat list) option" where
  "read_value 0 s = None"
| "read_value (Suc n) s =
     (case skip_ws s of
        [] \<Rightarrow> None
      | c # r \<Rightarrow>
          if c = 34 then map_option (\<lambda>(t, q). (JStr t, q)) (read_chars r)
          else if c = 91 then
            (if take 1 (skip_ws r) = [93] then Some (JList [], drop 1 (skip_ws r)) else read_items n r [])
          else if c = 123 then
            (if take 1 (skip_ws r) = [125] then Some (JObj [], drop 1 (skip_ws r)) else read_fields n r [])
          else if c = 110 then read_word (ascii ''null'') JNull (c # r)
          else if c = 116 then read_word (ascii ''true'') (JBool True) (c # r)
          else if c = 102 then read_word (ascii ''false'') (JBool False) (c # r)
          else read_int (c # r))"
| "read_items 0 s vs = None"
| "read_items (Suc n) s vs =
     (case read_value n s of
        None \<Rightarrow> None
      | Some (v, r) \<Rightarrow>
          (case skip_ws r of
             [] \<Rightarrow> None
           | c # q \<Rightarrow>
               if c = 44 then read_items n q (vs @ [v])
               else if c = 93 then Some (JList (vs @ [v]), q) else None))"
| "read_fields 0 s fs = None"
| "read_fields (Suc n) s fs =
     (case skip_ws s of
        [] \<Rightarrow> None
      | d # s1 \<Rightarrow>
          if d \<noteq> 34 then None
          else case read_chars s1 of
            None \<Rightarrow> None
          | Some (k, s2) \<Rightarrow>
              if take 1 (skip_ws s2) \<noteq> [58] then None
              else case read_value n (drop 1 (skip_ws s2)) of
                None \<Rightarrow> None
              | Some (v, r) \<Rightarrow>
                  (case skip_ws r of
                     [] \<Rightarrow> None
                   | c # q \<Rightarrow>
                       if c = 44 then read_fields n q (fs @ [(k, v)])
                       else if c = 125 then Some (JObj (fs @ [(k, v)]), q) else None))"

definition json_loads :: "nat list \<Rightarrow> json option" where
  "json_loads s =
     (case read_value (length s) s of
        Some (v, r) \<Rightarrow> if skip_ws r = [] then Some v else None
      | None \<Rightarrow> None)"

section \<open>Strings read back\<close>

lemma unhex_hex: "d < 16 \<Longrightarrow> unhex (hex_char d) = Some d"
  by (simp add: unhex_def hex_char_def)

lemma hex_value:
  fixes n :: nat
  assumes "n < 65536"
  shows "4096 * (n div 4096 mod 16) + 256 * (n div 256 mod 16) + 16 * (n div 16 mod 16) + n mod 16 = n"
proof -
  have d: "n div 256 = n div 16 div 16" "n div 4096 = n div 16 div 16 div 16" by (simp_all add: div_mult2_eq [symmetric])
  have "n div 4096 < 16" using assms by (simp add: less_mult_imp_div_less)
  then have m: "n div 4096 mod 16 = n div 4096" by simp
  have "16 * (n div 16) + n mod 16 = n" "16 * (n div 256) + n div 16 mod 16 = n div 16"
    "16 * (n div 4096) + n div 256 mod 16 = n div 256"
    unfolding d by simp_all
  then show ?thesis unfolding m by linarith
qed

lemma unhex4_hex4: "n < 65536 \<Longrightarrow> unhex4 (hex4 n @ s) = Some (n, s)"
  using hex_value [of n] by (simp add: hex4_def unhex_hex)

lemma unescape_u_bmp:
  assumes "c < 55296 \<or> 57344 \<le> c" and "c < 65536"
  shows "unescape_u (hex4 c @ s) = Some (c, s)"
  using assms by (auto simp: unescape_u_def unhex4_hex4)

lemma unescape_u_pair:
  assumes "65536 \<le> c" and "c < 1114112"
  shows "unescape_u (hex4 (55296 + (c - 65536) div 1024) @ [92, 117] @ hex4 (56320 + (c - 65536) mod 1024) @ s) = Some (c, s)"
proof -
  let ?d = "c - 65536"
  have hi: "?d div 1024 < 1024" using assms by (simp add: less_mult_imp_div_less)
  have lo: "?d mod 1024 < 1024" by simp
  have "?d div 1024 * 1024 + ?d mod 1024 = ?d" by simp
  then have "65536 + ?d div 1024 * 1024 + ?d mod 1024 = c" using assms(1) by linarith
  moreover have "unhex4 (hex4 (55296 + ?d div 1024) @ [92, 117] @ hex4 (56320 + ?d mod 1024) @ s) =
      Some (55296 + ?d div 1024, [92, 117] @ hex4 (56320 + ?d mod 1024) @ s)"
    by (rule unhex4_hex4) (use hi in linarith)
  moreover have "unhex4 (hex4 (56320 + ?d mod 1024) @ s) = Some (56320 + ?d mod 1024, s)"
    by (rule unhex4_hex4) (use lo in linarith)
  ultimately show ?thesis using hi lo by (simp add: unescape_u_def)
qed

lemma read_escaped:
  assumes "scalar c"
  shows "read_chars (escape_char c @ s) = map_option (\<lambda>(t, q). (c # t, q)) (read_chars s)"
proof (cases "c \<in> {34, 92, 10, 13, 9, 12, 8} \<or> 32 \<le> c \<and> c \<le> 126")
  case True
  then show ?thesis by (auto simp: escape_char_def)
next
  case False
  show ?thesis
  proof (cases "c < 65536")
    case True
    with False have "escape_char c = [92, 117] @ hex4 c" by (auto simp: escape_char_def)
    then show ?thesis using unescape_u_bmp [of c s] True assms by (auto simp: scalar_def surrogate_def)
  next
    case big: False
    with False have "escape_char c = [92, 117] @ hex4 (55296 + (c - 65536) div 1024) @ [92, 117] @
        hex4 (56320 + (c - 65536) mod 1024)" by (auto simp: escape_char_def)
    then show ?thesis using unescape_u_pair [of c s] big assms by (simp add: scalar_def)
  qed
qed

lemma read_json_string: "list_all scalar t \<Longrightarrow> read_chars (concat (map escape_char t) @ 34 # rest) = Some (t, rest)"
  by (induction t) (simp_all add: read_escaped)

section \<open>What is written is one line of ASCII\<close>

definition printable :: "nat list \<Rightarrow> bool" where
  "printable s \<longleftrightarrow> (\<forall>x \<in> set s. 32 \<le> x \<and> x \<le> 126)"

lemma printable_simps [simp]:
  "printable []" "printable (x # s) \<longleftrightarrow> 32 \<le> x \<and> x \<le> 126 \<and> printable s"
  "printable (s @ t) \<longleftrightarrow> printable s \<and> printable t"
  by (auto simp: printable_def)

lemma printable_concat: "(\<And>s. s \<in> set ss \<Longrightarrow> printable s) \<Longrightarrow> printable (concat ss)"
  by (induction ss) auto

lemma printable_hex4: "printable (hex4 n)"
proof -
  have "32 \<le> hex_char d \<and> hex_char d \<le> 126" if "d < 16" for d using that by (simp add: hex_char_def)
  then show ?thesis by (simp add: hex4_def)
qed

lemma printable_escape: "printable (escape_char c)"
  using printable_hex4 by (simp add: escape_char_def)

lemma printable_string: "printable (json_string t)"
  by (auto simp: json_string_def intro!: printable_concat printable_escape)

lemma decimal_digits: "c \<in> set (decimal n) \<Longrightarrow> is_digit (of_char c)"
proof (induction n rule: decimal.induct)
  case (1 n)
  have d: "is_digit (of_char (''0123456789'' ! k))" if "k < 10" for k
  proof -
    have "k \<in> {0, 1, 2, 3, 4, 5, 6, 7, 8, 9}" using that by auto
    then show ?thesis by (auto simp: is_digit_def)
  qed
  from 1 show ?case by (subst (asm) (2) decimal.simps) (auto simp: d split: if_split_asm)
qed

lemma printable_digits: "(\<And>x. x \<in> set s \<Longrightarrow> is_digit x) \<Longrightarrow> printable s"
  by (auto simp: printable_def is_digit_def) fastforce+

lemma printable_int: "printable (json_int n)"
  using decimal_digits by (auto simp: json_int_def intro!: printable_digits)

lemma printable_join: "printable sep \<Longrightarrow> (\<And>s. s \<in> set ss \<Longrightarrow> printable s) \<Longrightarrow> printable (join_text sep ss)"
  by (induction sep ss rule: join_text.induct) auto

lemma printable_dumps: "printable (json_dumps j)"
proof (induction j)
  case (JList xs)
  then show ?case by (auto intro!: printable_join)
next
  case (JObj fs)
  have "printable (json_field (map_prod id json_dumps f))" if "f \<in> set fs" for f
    using JObj [OF that, of "snd f"] by (cases f) (simp add: json_field_def printable_string)
  then show ?case by (auto intro!: printable_join)
qed (auto simp: printable_int printable_string)

section \<open>Numbers read back\<close>

lemma digit_char: "k < 10 \<Longrightarrow> int (of_char (''0123456789'' ! k)) - 48 = int k"
proof -
  assume "k < 10"
  then have "k \<in> {0, 1, 2, 3, 4, 5, 6, 7, 8, 9}" by auto
  then show ?thesis by auto
qed

lemma digits_value_snoc: "digits_value (ds @ [d]) = 10 * digits_value ds + (int d - 48)"
  by (simp add: digits_value_def)

lemma decimal_value: "digits_value (ascii (decimal n)) = int n"
proof (induction n rule: decimal.induct)
  case (1 n)
  show ?case
  proof (cases "n < 10")
    case True
    then show ?thesis using digit_char [OF True] by (subst decimal.simps) (simp add: digits_value_def)
  next
    case False
    have "n mod 10 < 10" by simp
    note last = digit_char [OF this]
    have "10 * (n div 10) + n mod 10 = n" by simp
    then have "10 * int (n div 10) + int (n mod 10) = int n" by linarith
    then show ?thesis using False 1 last by (subst decimal.simps) (simp add: digits_value_snoc)
  qed
qed

lemma decimal_nonempty: "decimal n \<noteq> []"
  by (subst decimal.simps) simp

lemma decimal_head:
  obtains c r where "ascii (decimal n) = c # r" "is_digit c"
proof -
  obtain c r where cr: "decimal n = c # r" using decimal_nonempty by (cases "decimal n") auto
  then have "is_digit (of_char c)" using decimal_digits [of c n] by simp
  with cr that show thesis by simp
qed

lemma take_digits:
  assumes "\<And>x. x \<in> set ds \<Longrightarrow> is_digit x" and "rest = [] \<or> \<not> is_digit (hd rest)"
  shows "takeWhile is_digit (ds @ rest) = ds" "dropWhile is_digit (ds @ rest) = rest"
  using assms by (cases rest; simp)+

lemma read_json_int:
  assumes "rest = [] \<or> \<not> is_digit (hd rest)"
  shows "read_int (json_int n @ rest) = Some (JInt n, rest)"
proof -
  have t: "takeWhile is_digit (ascii (decimal k) @ rest) = ascii (decimal k)"
    "dropWhile is_digit (ascii (decimal k) @ rest) = rest" for k
    by (rule take_digits; use decimal_digits assms in auto)+
  show ?thesis
  proof (cases "n < 0")
    case True
    then show ?thesis using t [of "nat (- n)"] decimal_nonempty
      by (simp add: read_int_def json_int_def decimal_value)
  next
    case False
    obtain c r where cr: "ascii (decimal (nat n)) = c # r" "is_digit c" by (rule decimal_head)
    then have "(case ascii (decimal (nat n)) @ rest of c # r \<Rightarrow> if c = 45 then (- 1, r) else (1 :: int, ascii (decimal (nat n)) @ rest)
        | [] \<Rightarrow> (1, ascii (decimal (nat n)) @ rest)) = (1, ascii (decimal (nat n)) @ rest)"
      by (simp add: is_digit_def)
    then show ?thesis using False t [of "nat n"] decimal_nonempty
      by (simp add: read_int_def json_int_def decimal_value)
  qed
qed

section \<open>Values read back\<close>

primrec json_ok :: "json \<Rightarrow> bool" where
  "json_ok JNull = True"
| "json_ok (JBool b) = True"
| "json_ok (JInt n) = True"
| "json_ok (JStr t) = list_all scalar t"
| "json_ok (JList xs) = (\<forall>b \<in> set (map json_ok xs). b)"
| "json_ok (JObj fs) = (\<forall>f \<in> set (map (map_prod id json_ok) fs). list_all scalar (fst f) \<and> snd f)"

definition value_head :: "nat \<Rightarrow> bool" where
  "value_head c \<longleftrightarrow> c \<in> {34, 91, 123, 110, 116, 102, 45} \<or> is_digit c"

lemma dumps_head: "\<exists>c r. json_dumps j = c # r \<and> value_head c"
proof (cases j)
  case (JInt n)
  obtain c r where "ascii (decimal (nat n)) = c # r" "is_digit c" by (rule decimal_head)
  then show ?thesis by (simp add: JInt json_int_def value_head_def)
qed (auto simp: value_head_def json_string_def)

lemma value_head_not_ws: "value_head c \<Longrightarrow> skip_ws (c # s) = c # s"
  by (auto simp: value_head_def skip_ws_def is_digit_def)

lemma read_space: "read_value n (32 # s) = read_value n s" "read_items n (32 # s) vs = read_items n s vs"
  "read_fields n (32 # s) fs = read_fields n s fs"
proof -
  have "skip_ws (32 # s) = skip_ws s" by (simp add: skip_ws_def)
  then show "read_fields n (32 # s) fs = read_fields n s fs" by (cases n) simp_all
  have v: "read_value m (32 # s) = read_value m s" for m
    using \<open>skip_ws (32 # s) = skip_ws s\<close> by (cases m) simp_all
  then show "read_value n (32 # s) = read_value n s" "read_items n (32 # s) vs = read_items n s vs"
    by (cases n; simp)+
qed

definition reads_back :: "json \<Rightarrow> bool" where
  "reads_back j \<longleftrightarrow> (\<forall>n rest. length (json_dumps j) \<le> n \<longrightarrow> rest = [] \<or> \<not> is_digit (hd rest) \<longrightarrow>
     read_value n (json_dumps j @ rest) = Some (j, rest))"

lemma reads_backD:
  "reads_back j \<Longrightarrow> length (json_dumps j) \<le> n \<Longrightarrow> rest = [] \<or> \<not> is_digit (hd rest) \<Longrightarrow>
     read_value n (json_dumps j @ rest) = Some (j, rest)"
  by (auto simp: reads_back_def)

lemma skip_simps [simp]:
  "skip_ws (44 # s) = 44 # s" "skip_ws (93 # s) = 93 # s" "skip_ws (125 # s) = 125 # s" "skip_ws (58 # s) = 58 # s"
  "skip_ws (34 # s) = 34 # s" "skip_ws [] = []"
  by (simp_all add: skip_ws_def)

lemma read_items_back:
  assumes "xs \<noteq> []" and "\<forall>x \<in> set xs. reads_back x"
    and "length (join_text [44, 32] (map json_dumps xs)) < n"
  shows "read_items n (join_text [44, 32] (map json_dumps xs) @ 93 # rest) vs = Some (JList (vs @ xs), rest)"
  using assms
proof (induction xs arbitrary: n vs)
  case (Cons x xs)
  obtain m where n: "n = Suc m" using Cons.prems(3) by (cases n) auto
  show ?case
  proof (cases xs)
    case Nil
    then have "read_value m (json_dumps x @ 93 # rest) = Some (x, 93 # rest)"
      using Cons.prems n by (intro reads_backD) (auto simp: is_digit_def)
    then show ?thesis using Nil n by simp
  next
    case (Cons y ys)
    let ?more = "join_text [44, 32] (map json_dumps xs) @ 93 # rest"
    have j: "join_text [44, 32] (map json_dumps (x # xs)) = json_dumps x @ [44, 32] @ join_text [44, 32] (map json_dumps xs)"
      using Cons by simp
    have "read_value m (json_dumps x @ 44 # 32 # ?more) = Some (x, 44 # 32 # ?more)"
      using Cons.prems n j by (intro reads_backD) (auto simp: is_digit_def)
    moreover have "read_items m ?more (vs @ [x]) = Some (JList ((vs @ [x]) @ xs), rest)"
      using Cons.IH [of m "vs @ [x]"] Cons.prems n j Cons by simp
    ultimately show ?thesis unfolding j n by (simp add: read_space)
  qed
qed simp

lemma read_fields_back:
  assumes "fs \<noteq> []" and "\<forall>f \<in> set fs. list_all scalar (fst f) \<and> reads_back (snd f)"
    and "length (join_text [44, 32] (map json_field (map (map_prod id json_dumps) fs))) < n"
  shows "read_fields n (join_text [44, 32] (map json_field (map (map_prod id json_dumps) fs)) @ 125 # rest) gs =
    Some (JObj (gs @ fs), rest)"
  using assms
proof (induction fs arbitrary: n gs)
  case (Cons f fs)
  obtain m where n: "n = Suc m" using Cons.prems(3) by (cases n) auto
  obtain k x where f: "f = (k, x)" by (cases f)
  let ?tail = "\<lambda>s. concat (map escape_char k) @ 34 # 58 # 32 # json_dumps x @ s"
  have k: "read_chars (?tail s) = Some (k, 58 # 32 # json_dumps x @ s)" for s
    using Cons.prems(2) read_json_string f by simp
  have one: "json_field (map_prod id json_dumps f) @ s = 34 # ?tail s" for s
    by (simp add: f json_field_def json_string_def)
  show ?case
  proof (cases fs)
    case Nil
    then have "read_value m (json_dumps x @ 125 # rest) = Some (x, 125 # rest)"
      using Cons.prems n f by (intro reads_backD) (auto simp: is_digit_def json_field_def json_string_def)
    moreover have "join_text [44, 32] (map json_field (map (map_prod id json_dumps) (f # fs))) @ 125 # rest =
        34 # ?tail (125 # rest)"
      using Nil one [of "125 # rest"] by simp
    ultimately show ?thesis unfolding n by (simp only: read_fields.simps skip_simps list.case if_False simp_thms k
        option.case prod.case) (simp add: read_space f Nil)
  next
    case (Cons g gs')
    let ?more = "join_text [44, 32] (map json_field (map (map_prod id json_dumps) fs)) @ 125 # rest"
    have j: "join_text [44, 32] (map json_field (map (map_prod id json_dumps) (f # fs))) =
        json_field (map_prod id json_dumps f) @ [44, 32] @ join_text [44, 32] (map json_field (map (map_prod id json_dumps) fs))"
      using Cons by simp
    have len: "length (json_dumps x) \<le> m"
      "length (join_text [44, 32] (map json_field (map (map_prod id json_dumps) fs))) < m"
      using Cons.prems(3) unfolding j n by (simp_all add: f json_field_def json_string_def)
    have "read_value m (json_dumps x @ 44 # 32 # ?more) = Some (x, 44 # 32 # ?more)"
      using Cons.prems(2) len f by (intro reads_backD) (auto simp: is_digit_def)
    moreover have "read_fields m ?more (gs @ [(k, x)]) = Some (JObj ((gs @ [(k, x)]) @ fs), rest)"
      by (rule Cons.IH [OF _ _ len(2)]) (use Cons.prems(2) Cons in simp_all)
    moreover have "join_text [44, 32] (map json_field (map (map_prod id json_dumps) (f # fs))) @ 125 # rest =
        34 # ?tail (44 # 32 # ?more)"
      unfolding j using one [of "44 # 32 # ?more"] by simp
    ultimately show ?thesis unfolding n by (simp only: read_fields.simps skip_simps list.case if_False simp_thms k
        option.case prod.case) (simp add: read_space f)
  qed
qed simp

lemma not_closing: "value_head c \<Longrightarrow> take 1 (skip_ws (c # s)) \<noteq> [93]"
  by (auto simp: value_head_not_ws value_head_def is_digit_def)

lemma reads_back_words: "reads_back JNull" "reads_back (JBool b)"
proof -
  have "read_value (Suc m) (110 # 117 # 108 # 108 # rest) = Some (JNull, rest)"
    "read_value (Suc m) (116 # 114 # 117 # 101 # rest) = Some (JBool True, rest)"
    "read_value (Suc m) (102 # 97 # 108 # 115 # 101 # rest) = Some (JBool False, rest)" for m rest
    by (simp_all add: read_word_def skip_ws_def)
  note words = this
  have "read_value n (json_dumps j @ rest) = Some (j, rest)"
    if j: "j \<in> {JNull, JBool b}" and len: "length (json_dumps j) \<le> n" for n rest j
  proof -
    obtain m where "n = Suc m" using len dumps_head [of j] by (cases n) auto
    then show ?thesis using j words by auto
  qed
  then show "reads_back JNull" "reads_back (JBool b)" unfolding reads_back_def by blast+
qed

lemma json_reads_back: "json_ok j \<Longrightarrow> reads_back j"
proof (induction j)
  case (JInt x)
  show ?case
    unfolding reads_back_def
  proof (intro allI impI)
    fix n rest assume n: "length (json_dumps (JInt x)) \<le> n" and r: "rest = [] \<or> \<not> is_digit (hd rest)"
    obtain c q where c: "json_int x = c # q" "c = 45 \<or> is_digit c"
    proof (cases "x < 0")
      case False
      then show ?thesis using that decimal_head [of "nat x"] by (metis json_int_def)
    qed (use that in \<open>simp add: json_int_def\<close>)
    then have h: "skip_ws (c # q @ rest) = c # q @ rest" by (intro value_head_not_ws) (auto simp: value_head_def)
    obtain m where "n = Suc m" using n c by (cases n) auto
    then show "read_value n (json_dumps (JInt x) @ rest) = Some (JInt x, rest)"
      using c h read_json_int [OF r, of x] by (auto simp: is_digit_def)
  qed
next
  case (JStr t)
  show ?case unfolding reads_back_def
  proof (intro allI impI)
    fix n rest assume n: "length (json_dumps (JStr t)) \<le> n"
    obtain m where "n = Suc m" using n by (cases n) (auto simp: json_string_def)
    then show "read_value n (json_dumps (JStr t) @ rest) = Some (JStr t, rest)"
      using read_json_string [of t rest] JStr by (simp add: json_string_def)
  qed
next
  case (JList xs)
  have b: "\<forall>x \<in> set xs. reads_back x" using JList by auto
  show ?case unfolding reads_back_def
  proof (intro allI impI)
    fix n rest assume n: "length (json_dumps (JList xs)) \<le> n"
    obtain m where m: "n = Suc m" using n by (cases n) auto
    show "read_value n (json_dumps (JList xs) @ rest) = Some (JList xs, rest)"
    proof (cases xs)
      case Nil
      then show ?thesis by (simp add: m skip_ws_def)
    next
      case (Cons x ys)
      let ?s = "join_text [44, 32] (map json_dumps xs) @ 93 # rest"
      obtain c r where "json_dumps x = c # r" "value_head c" using dumps_head by blast
      then obtain r' where s: "?s = c # r'" using Cons by (cases ys) auto
      have "take 1 (skip_ws ?s) \<noteq> [93]" unfolding s by (rule not_closing) fact
      moreover have "read_items m ?s [] = Some (JList xs, rest)"
        using read_items_back [OF _ b, of m rest "[]"] Cons n m by simp
      ultimately show ?thesis unfolding m by (simp add: skip_ws_def)
    qed
  qed
next
  case (JObj fs)
  have b: "\<forall>f \<in> set fs. list_all scalar (fst f) \<and> reads_back (snd f)"
  proof
    fix f assume f: "f \<in> set fs"
    then have "list_all scalar (fst f)" "json_ok (snd f)" using JObj(2) by auto
    with JObj(1) [OF f, of "snd f"] show "list_all scalar (fst f) \<and> reads_back (snd f)" by (cases f) simp
  qed
  show ?case unfolding reads_back_def
  proof (intro allI impI)
    fix n rest assume n: "length (json_dumps (JObj fs)) \<le> n"
    obtain m where m: "n = Suc m" using n by (cases n) auto
    show "read_value n (json_dumps (JObj fs) @ rest) = Some (JObj fs, rest)"
    proof (cases fs)
      case Nil
      then show ?thesis by (simp add: m skip_ws_def)
    next
      case (Cons f gs)
      let ?s = "join_text [44, 32] (map json_field (map (map_prod id json_dumps) fs)) @ 125 # rest"
      obtain r' where s: "?s = 34 # r'" using Cons by (cases gs) (auto simp: json_field_def json_string_def)
      have "take 1 (skip_ws ?s) \<noteq> [125]" unfolding s by simp
      moreover have "read_fields m ?s [] = Some (JObj fs, rest)"
        using read_fields_back [OF _ b, of m rest "[]"] Cons n m by simp
      ultimately show ?thesis unfolding m by (simp add: skip_ws_def)
    qed
  qed
qed (simp_all add: reads_back_words)

lemma json_loads_dumps: "json_ok j \<Longrightarrow> json_loads (json_dumps j) = Some j"
  using reads_backD [OF json_reads_back, of j "length (json_dumps j)" "[]"]
  by (simp add: json_loads_def)

end
