(* ===== verification/Core_Proc.thy ===== *)
theory Core_Proc
  imports Engine_Inv
begin

text \<open>
  \<^verbatim>\<open>vkwr/engine/core_proc.py\<close>: the engine core behind queues, its busy loop and its shutdown.

  \<open>proc\<close> adds to the engine core the queues and the shutdown state of \<^verbatim>\<open>EngineCoreProc\<close>; its
  aborts queue is the engine core's. The reader thread's effect of one message is
  \<open>decode_input\<close>, a signal's is \<open>signal_handler\<close>; between them the main thread runs
  \<open>busy_iteration\<close>s. Where the main thread blocks on an empty queue the model stops with
  \<open>Waiting\<close> and runs the same iteration again when a message has arrived, which is what the
  source's loop does. A utility call may be any method of the engine, chosen by name, so it is an
  argument: \<open>util\<close> returns the text of its exception or its result. Sockets, serialization,
  joining of threads and the pause after an idle step are not modelled. When a step raises, the
  handler here sees the state before the step; the identifiers it aborts are the same.

  The lemmas show that a stopping process admits nothing and answers everything, that a shutdown
  without a grace period stops the loop at once, and how the abort of the last request loses its
  slot.
\<close>

section \<open>Messages and state\<close>

datatype client_request =
    AddRequest core_request
  | AbortRequest "rid list"
  | StartDpWave core_request
  | UtilityCall int int string "string list"
  | ExecutorFailed
  | Wakeup

text \<open>\<^verbatim>\<open>EngineCoreRequestType\<close>: the byte a message starts with.\<close>

fun request_type :: "client_request \<Rightarrow> nat" where
  "request_type (AddRequest q) = 0"
| "request_type (AbortRequest ids) = 1"
| "request_type (StartDpWave q) = 2"
| "request_type (UtilityCall c i m args) = 3"
| "request_type ExecutorFailed = 4"
| "request_type Wakeup = 5"

datatype engine_shutdown_state = SD_RUNNING | SD_REQUESTED | SD_SHUTTING_DOWN

datatype out_item = OutFrame int engine_core_outputs | EngineCoreDead

record ('st, 'g, 'r, 'lg) proc =
  pr_core :: "('st, 'g, 'r, 'lg) engine_core"
  pr_input_queue :: "client_request list"
  pr_output_queue :: "out_item list"
  pr_shutdown_state :: engine_shutdown_state
  pr_input_block :: bool

type_synonym ('st, 'g, 'r, 'lg) util =
  "string \<Rightarrow> string list \<Rightarrow> ('st, 'g, 'r, 'lg) engine_core
     \<Rightarrow> (string + string option) \<times> ('st, 'g, 'r, 'lg) engine_core"

definition proc_init :: "vkwr_config \<Rightarrow> ('st, 'g, 'r, 'lg) proc res" where
  "proc_init cfg =
     bindE (core_init cfg) (\<lambda>e.
       Inr \<lparr>pr_core = e, pr_input_queue = [], pr_output_queue = [], pr_shutdown_state = SD_RUNNING,
            pr_input_block = True\<rparr>)"

definition has_work :: "('st, 'g, 'r, 'lg) proc \<Rightarrow> bool" where
  "has_work p \<longleftrightarrow> has_requests (ec_sched (pr_core p)) \<or>
     (case ec_batch_queue (pr_core p) of None \<Rightarrow> False | Some q \<Rightarrow> q \<noteq> [])"

definition is_running :: "('st, 'g, 'r, 'lg) proc \<Rightarrow> bool" where
  "is_running p \<longleftrightarrow> pr_shutdown_state p = SD_RUNNING"

section \<open>The environment\<close>

text \<open>The reader thread decodes one message; an abort goes into both queues.\<close>

definition decode_input :: "client_request \<Rightarrow> ('st, 'g, 'r, 'lg) proc \<Rightarrow> ('st, 'g, 'r, 'lg) proc" where
  "decode_input m p =
     (let p1 = (case m of
                  AbortRequest ids \<Rightarrow> p\<lparr>pr_core := (pr_core p)\<lparr>ec_aborts := ec_aborts (pr_core p) @ [ids]\<rparr>\<rparr>
                | _ \<Rightarrow> p)
      in p1\<lparr>pr_input_queue := pr_input_queue p1 @ [m]\<rparr>)"

text \<open>The handler sets the state; the callback thread, which it wakes, runs once.\<close>

definition signal_handler :: "('st, 'g, 'r, 'lg) proc \<Rightarrow> ('st, 'g, 'r, 'lg) proc" where
  "signal_handler p = p\<lparr>pr_shutdown_state := SD_REQUESTED\<rparr>"

definition wakeup_engine :: "('st, 'g, 'r, 'lg) proc \<Rightarrow> ('st, 'g, 'r, 'lg) proc" where
  "wakeup_engine p = p\<lparr>pr_input_queue := pr_input_queue p @ [Wakeup]\<rparr>"

record signal_callback =
  sg_event :: bool
  sg_stopped :: bool
  sg_ran :: bool

definition signal_callback_init :: signal_callback where
  "signal_callback_init = \<lparr>sg_event = False, sg_stopped = False, sg_ran = False\<rparr>"

definition signal_trigger :: "signal_callback \<Rightarrow> signal_callback" where
  "signal_trigger c = c\<lparr>sg_event := True\<rparr>"

definition signal_stop :: "signal_callback \<Rightarrow> signal_callback" where
  "signal_stop c = c\<lparr>sg_stopped := True, sg_event := True\<rparr>"

text \<open>The thread: it waits for the event, calls back unless it was stopped, and ends.\<close>

definition signal_run :: "('p \<Rightarrow> 'p) \<Rightarrow> signal_callback \<times> 'p \<Rightarrow> signal_callback \<times> 'p" where
  "signal_run callback s =
     (let (c, p) = s
      in if sg_event c \<and> \<not> sg_ran c then (c\<lparr>sg_ran := True\<rparr>, if \<not> sg_stopped c then callback p else p)
         else s)"

section \<open>Answers\<close>

definition send :: "out_item list \<Rightarrow> ('st, 'g, 'r, 'lg) proc \<Rightarrow> ('st, 'g, 'r, 'lg) proc" where
  "send items p = p\<lparr>pr_output_queue := pr_output_queue p @ items\<rparr>"

definition abort_frame :: "rid \<Rightarrow> out_item" where
  "abort_frame i = OutFrame 0 (outputs_of [abort_output i])"

definition send_abort_outputs :: "rid list \<Rightarrow> ('st, 'g, 'r, 'lg) proc \<Rightarrow> ('st, 'g, 'r, 'lg) proc" where
  "send_abort_outputs ids p = send (map abort_frame ids) p"

definition utility_frame :: "int \<Rightarrow> int \<Rightarrow> string option \<Rightarrow> string option \<Rightarrow> out_item" where
  "utility_frame client_idx call_id failure result =
     OutFrame client_idx \<lparr>ecos_outputs = [],
       ecos_utility_output = Some \<lparr>ut_call_id = call_id, ut_failure_message = failure, ut_result = result\<rparr>\<rparr>"

definition reject_add :: "core_request \<Rightarrow> ('st, 'g, 'r, 'lg) proc \<Rightarrow> ('st, 'g, 'r, 'lg) proc res" where
  "reject_add q p =
     bindE (finish_requests (Some [cr_request_id q]) (ec_sched (pr_core p))) (\<lambda>(_, s').
       Inr (send [abort_frame (cr_request_id q)] (p\<lparr>pr_core := (pr_core p)\<lparr>ec_sched := s'\<rparr>\<rparr>)))"

text \<open>\<^verbatim>\<open>MPClient._invoke_utility_method\<close>, for a method that returns no future.\<close>

definition invoke_utility ::
    "('st, 'g, 'r, 'lg) util \<Rightarrow> int \<Rightarrow> int \<Rightarrow> string \<Rightarrow> string list \<Rightarrow> ('st, 'g, 'r, 'lg) proc \<Rightarrow> ('st, 'g, 'r, 'lg) proc" where
  "invoke_utility util client_idx call_id name args p =
     (let (r, e') = util name args (pr_core p)
      in send [case r of
                 Inl err \<Rightarrow> utility_frame client_idx call_id
                   (Some (''Call to '' @ name @ '' method failed: '' @ err)) None
               | Inr v \<Rightarrow> utility_frame client_idx call_id None v]
           (p\<lparr>pr_core := e'\<rparr>))"

definition handle_client_request ::
    "('st, 'g, 'r, 'lg) util \<Rightarrow> real \<Rightarrow> client_request \<Rightarrow> ('st, 'g, 'r, 'lg) proc \<Rightarrow> ('st, 'g, 'r, 'lg) proc res" where
  "handle_client_request util now m p =
     (case m of
        AddRequest q \<Rightarrow>
          if \<not> is_running p then reject_add q p
          else bindE (preprocess_add_request now q) (\<lambda>(r, wave).
               bindE (core_add_request r (pr_core p)) (\<lambda>e'. Inr (p\<lparr>pr_core := e'\<rparr>)))
      | AbortRequest ids \<Rightarrow>
          bindE (core_abort_requests ids (pr_core p)) (\<lambda>(outs, e').
            Inr (send (map (\<lambda>(w, o1). OutFrame w o1) outs) (p\<lparr>pr_core := e'\<rparr>)))
      | StartDpWave q \<Rightarrow> Inr p
      | UtilityCall client_idx call_id name args \<Rightarrow>
          if \<not> is_running p
          then Inr (send [utility_frame client_idx call_id (Some ''Server shutting down'') None] p)
          else Inr (invoke_utility util client_idx call_id name args p)
      | ExecutorFailed \<Rightarrow> Inl (RuntimeError ''Executor failed'')
      | Wakeup \<Rightarrow> Inr p)"

section \<open>The busy loop\<close>

text \<open>
  The first loop of \<^verbatim>\<open>_process_input_queue\<close> waits for work; the list is the input queue. The
  first component of the result says that the thread blocks.
\<close>

fun wait_input ::
    "('st, 'g, 'r, 'lg) util \<Rightarrow> real \<Rightarrow> bool \<Rightarrow> ('st, 'g, 'r, 'lg) proc \<Rightarrow> client_request list
       \<Rightarrow> (bool \<times> ('st, 'g, 'r, 'lg) proc \<times> client_request list) res" where
  "wait_input util now block p [] =
     (if \<not> has_requests (ec_sched (pr_core p)) \<and> is_running p
      then Inr (block, p\<lparr>pr_core := (pr_core p)\<lparr>ec_aborts := []\<rparr>\<rparr>, [])
      else Inr (False, p, []))"
| "wait_input util now block p (m # ms) =
     (if \<not> has_requests (ec_sched (pr_core p)) \<and> is_running p
      then bindE (handle_client_request util now m p) (\<lambda>p'.
             if \<not> block then Inr (False, p', ms) else wait_input util now block p' ms)
      else Inr (False, p, m # ms))"

definition process_input_queue ::
    "('st, 'g, 'r, 'lg) util \<Rightarrow> real \<Rightarrow> ('st, 'g, 'r, 'lg) proc \<Rightarrow> (bool \<times> ('st, 'g, 'r, 'lg) proc) res" where
  "process_input_queue util now p =
     (let pending_batches = (case ec_batch_queue (pr_core p) of None \<Rightarrow> False | Some q \<Rightarrow> q \<noteq> []);
          block = (if pending_batches then False else pr_input_block p)
      in bindE (wait_input util now block p (pr_input_queue p)) (\<lambda>(blocked, p1, ms).
         if blocked then Inr (True, p1\<lparr>pr_input_queue := ms\<rparr>)
         else bindE (foldE (\<lambda>p m. handle_client_request util now m p) p1 ms) (\<lambda>p2.
              Inr (False, p2\<lparr>pr_input_queue := []\<rparr>))))"

definition process_engine_step ::
    "('st, 'g, 'r, 'lg) net \<Rightarrow> ('st, 'g, 'r, 'lg) proc \<Rightarrow> (bool \<times> ('st, 'g, 'r, 'lg) proc) res" where
  "process_engine_step net p =
     bindE (step_fn net (pr_core p)) (\<lambda>((outs, executed), e').
       Inr (executed,
            send (map (\<lambda>(w, o1). OutFrame w o1) (case outs of None \<Rightarrow> [] | Some d \<Rightarrow> d)) (p\<lparr>pr_core := e'\<rparr>)))"

definition abort_everything :: "('st, 'g, 'r, 'lg) proc \<Rightarrow> ('st, 'g, 'r, 'lg) proc res" where
  "abort_everything p =
     bindE (finish_requests None (ec_sched (pr_core p))) (\<lambda>(ids, s').
       Inr (send_abort_outputs ids (p\<lparr>pr_core := (pr_core p)\<lparr>ec_sched := s'\<rparr>\<rparr>)))"

definition handle_shutdown :: "('st, 'g, 'r, 'lg) proc \<Rightarrow> (bool \<times> ('st, 'g, 'r, 'lg) proc) res" where
  "handle_shutdown p =
     (if pr_shutdown_state p = SD_RUNNING then Inr (True, p)
      else
        bindE (if pr_shutdown_state p = SD_REQUESTED then
                 bindE (if wc_shutdown_timeout (vc_worker (ec_config (pr_core p))) = 0 then abort_everything p
                        else Inr p) (\<lambda>p1.
                 Inr (p1\<lparr>pr_shutdown_state := SD_SHUTTING_DOWN\<rparr>))
               else Inr p) (\<lambda>p2.
        Inr (has_work p2, p2)))"

datatype loop_result = Looping | Waiting | Exited | Fatal py_error

definition send_engine_dead :: "('st, 'g, 'r, 'lg) proc \<Rightarrow> ('st, 'g, 'r, 'lg) proc" where
  "send_engine_dead p = send [EngineCoreDead] p"

text \<open>One iteration of \<^verbatim>\<open>run_busy_loop\<close>\<close>

definition busy_iteration ::
    "('st, 'g, 'r, 'lg) util \<Rightarrow> ('st, 'g, 'r, 'lg) net \<Rightarrow> real \<Rightarrow> ('st, 'g, 'r, 'lg) proc
       \<Rightarrow> loop_result \<times> ('st, 'g, 'r, 'lg) proc" where
  "busy_iteration util net now p =
     (case handle_shutdown p of
        Inl err \<Rightarrow> (Fatal err, send_engine_dead p)
      | Inr (False, p1) \<Rightarrow> (Exited, p1)
      | Inr (True, p1) \<Rightarrow>
          (case process_input_queue util now p1 of
             Inl err \<Rightarrow> (Fatal err, send_engine_dead p1)
           | Inr (True, p2) \<Rightarrow> (Waiting, p2)
           | Inr (False, p2) \<Rightarrow>
               (case process_engine_step net p2 of
                  Inr (executed, p3) \<Rightarrow> (Looping, p3)
                | Inl _ \<Rightarrow>
                    (case abort_everything p2 of
                       Inl err \<Rightarrow> (Fatal err, send_engine_dead p2)
                     | Inr p3 \<Rightarrow> (Exited, p3)))))"

section \<open>A stopping process admits nothing\<close>

abbreviation proc_sched :: "('st, 'g, 'r, 'lg) proc \<Rightarrow> sched" where
  "proc_sched p \<equiv> ec_sched (pr_core p)"

text \<open>What handling a message while stopping does to the rest of the process.\<close>

definition only_shrinks :: "('st, 'g, 'r, 'lg) proc \<Rightarrow> ('st, 'g, 'r, 'lg) proc \<Rightarrow> bool" where
  "only_shrinks p p' \<longleftrightarrow> sched_wf (proc_sched p') \<and> req_ids (proc_sched p') \<subseteq># req_ids (proc_sched p) \<and>
     pr_shutdown_state p' = pr_shutdown_state p \<and> (\<exists>xs. pr_output_queue p' = pr_output_queue p @ xs)"

fun answered :: "out_item list \<Rightarrow> client_request \<Rightarrow> bool" where
  "answered outs (AddRequest q) = (abort_frame (cr_request_id q) \<in> set outs)"
| "answered outs (UtilityCall c i m args) = (utility_frame c i (Some ''Server shutting down'') None \<in> set outs)"
| "answered outs m = True"

lemma handle_stopping:
  assumes "\<not> is_running p" and "sched_wf (proc_sched p)" and "m \<noteq> ExecutorFailed"
  shows "\<exists>p'. handle_client_request util now m p = Inr p' \<and> only_shrinks p p' \<and> answered (pr_output_queue p') m"
proof -
  have fin: "\<exists>d s'. finish_requests (Some ids) (proc_sched p) = Inr (d, s') \<and> sched_wf s' \<and>
    req_ids s' \<subseteq># req_ids (proc_sched p)" for ids
    using finish_these_spec [OF assms(2), of ids] by (auto simp: finish_requests_def)
  show ?thesis
  proof (cases m)
    case (AddRequest q)
    obtain d s' where "finish_requests (Some [cr_request_id q]) (proc_sched p) = Inr (d, s')" "sched_wf s'"
      "req_ids s' \<subseteq># req_ids (proc_sched p)" using fin by blast
    then show ?thesis using AddRequest assms(1)
      by (simp add: handle_client_request_def reject_add_def send_def only_shrinks_def)
  next
    case (AbortRequest ids)
    obtain d s' where "finish_requests (Some (remdups ids)) (proc_sched p) = Inr (d, s')" "sched_wf s'"
      "req_ids s' \<subseteq># req_ids (proc_sched p)" using fin by blast
    then show ?thesis using AbortRequest
      by (simp add: handle_client_request_def core_abort_requests_def send_def only_shrinks_def)
  qed (use assms in \<open>simp_all add: handle_client_request_def only_shrinks_def send_def\<close>)
qed

lemma answered_mono: "answered outs m \<Longrightarrow> answered (outs @ xs) m"
  by (cases m) auto

lemma drain_stopping:
  assumes "\<not> is_running p" and "sched_wf (proc_sched p)" and "ExecutorFailed \<notin> set ms"
  shows "\<exists>p'. foldE (\<lambda>p m. handle_client_request util now m p) p ms = Inr p' \<and> only_shrinks p p' \<and>
    (\<forall>m \<in> set ms. answered (pr_output_queue p') m)"
  using assms
proof (induction ms arbitrary: p)
  case (Cons m ms)
  from Cons.prems handle_stopping [of p m util now] obtain p1 where
    1: "handle_client_request util now m p = Inr p1" "only_shrinks p p1" "answered (pr_output_queue p1) m" by auto
  have "\<not> is_running p1" "sched_wf (proc_sched p1)"
    using 1(2) Cons.prems(1) by (simp_all add: only_shrinks_def is_running_def)
  from Cons.IH [OF this] Cons.prems(3) obtain p2 where
    2: "foldE (\<lambda>p m. handle_client_request util now m p) p1 ms = Inr p2" "only_shrinks p1 p2"
      "\<forall>m \<in> set ms. answered (pr_output_queue p2) m" by auto
  have "only_shrinks p p2"
    using 1(2) 2(2) by (auto simp: only_shrinks_def intro: subset_mset.order_trans)
  moreover have "answered (pr_output_queue p2) m"
    using 1(3) 2(2) by (auto simp: only_shrinks_def answered_mono)
  ultimately show ?case using 1(1) 2(1,3) by auto
qed (auto simp: only_shrinks_def)

lemma wait_input_stopping: "\<not> is_running p \<Longrightarrow> wait_input util now block p ms = Inr (False, p, ms)"
  by (cases ms) simp_all

text \<open>
  C21: a stopping process admits nothing and answers everything. Once a shutdown has been
  requested, the handling of the input queue does not block, empties the queue, adds no request
  to the scheduler and keeps its invariant; every request to add gets an abort as its answer and
  every utility call a failure.
\<close>

theorem no_admission_in_shutdown:
  assumes "pr_shutdown_state p \<noteq> SD_RUNNING" and "sched_wf (ec_sched (pr_core p))"
    and "ExecutorFailed \<notin> set (pr_input_queue p)"
  shows "\<exists>p'. process_input_queue util now p = Inr (False, p') \<and> pr_input_queue p' = [] \<and>
    sched_wf (ec_sched (pr_core p')) \<and> req_ids (ec_sched (pr_core p')) \<subseteq># req_ids (ec_sched (pr_core p)) \<and>
    pr_shutdown_state p' = pr_shutdown_state p \<and>
    (\<forall>q. AddRequest q \<in> set (pr_input_queue p) \<longrightarrow> abort_frame (cr_request_id q) \<in> set (pr_output_queue p')) \<and>
    (\<forall>c i m args. UtilityCall c i m args \<in> set (pr_input_queue p) \<longrightarrow>
       utility_frame c i (Some ''Server shutting down'') None \<in> set (pr_output_queue p'))"
proof -
  have nr: "\<not> is_running p" using assms(1) by (simp add: is_running_def)
  from drain_stopping [OF nr assms(2,3), of util now] obtain p' where
    p': "foldE (\<lambda>p m. handle_client_request util now m p) p (pr_input_queue p) = Inr p'" "only_shrinks p p'"
      "\<forall>m \<in> set (pr_input_queue p). answered (pr_output_queue p') m" by blast
  have "process_input_queue util now p = Inr (False, p'\<lparr>pr_input_queue := []\<rparr>)"
    using p'(1) by (simp add: process_input_queue_def wait_input_stopping [OF nr])
  moreover have "answered (pr_output_queue p') m" if "m \<in> set (pr_input_queue p)" for m using p'(3) that by blast
  then have "\<forall>q. AddRequest q \<in> set (pr_input_queue p) \<longrightarrow> abort_frame (cr_request_id q) \<in> set (pr_output_queue p')"
    "\<forall>c i m args. UtilityCall c i m args \<in> set (pr_input_queue p) \<longrightarrow>
       utility_frame c i (Some ''Server shutting down'') None \<in> set (pr_output_queue p')"
    by fastforce+
  ultimately show ?thesis using p'(2) by (auto simp: only_shrinks_def)
qed

section \<open>An immediate shutdown\<close>

text \<open>
  C20: without a grace period a shutdown ends the loop at once. The iteration after the signal
  aborts every request exactly once, answering each with an abort, and the loop exits, whatever
  is in the input queue; only batches that are still in flight delay it.
\<close>

theorem shutdown_aborts_all:
  assumes "pr_shutdown_state p = SD_REQUESTED" and "sched_wf (ec_sched (pr_core p))"
    and "wc_shutdown_timeout (vc_worker (ec_config (pr_core p))) = 0"
    and "ec_batch_queue (pr_core p) = None \<or> ec_batch_queue (pr_core p) = Some []"
  shows "\<exists>ids p'. busy_iteration util net now p = (Exited, p') \<and> mset ids = req_ids (ec_sched (pr_core p)) \<and>
    pr_output_queue p' = pr_output_queue p @ map abort_frame ids \<and> \<not> has_requests (ec_sched (pr_core p'))"
proof -
  from finish_all_drains [OF assms(2)] obtain ids s' where f:
    "finish_requests None (ec_sched (pr_core p)) = Inr (ids, s')" "mset ids = req_ids (ec_sched (pr_core p))"
    "\<not> has_requests s'" by blast
  let ?p = "(send_abort_outputs ids (p\<lparr>pr_core := (pr_core p)\<lparr>ec_sched := s'\<rparr>\<rparr>))\<lparr>pr_shutdown_state := SD_SHUTTING_DOWN\<rparr>"
  have "has_work ?p = False" using f(3) assms(4) by (auto simp: has_work_def send_abort_outputs_def send_def)
  then have "handle_shutdown p = Inr (False, ?p)"
    using assms(1,3) f(1) by (simp add: handle_shutdown_def abort_everything_def)
  then have "busy_iteration util net now p = (Exited, ?p)" by (simp add: busy_iteration_def)
  moreover have "pr_output_queue ?p = pr_output_queue p @ map abort_frame ids" "ec_sched (pr_core ?p) = s'"
    by (simp_all add: send_abort_outputs_def send_def)
  ultimately show ?thesis using f(2,3) by metis
qed

section \<open>Aborting the last request loses its slot\<close>

lemma has_requests_iff: "has_requests s \<longleftrightarrow> req_ids s \<noteq> {#}"
  by (auto simp: has_requests_def all_ids_def pending_def rq.nonempty_iff)

lemma abort_single:
  assumes "sched_wf s" and "i \<in># req_ids s"
  shows "\<exists>s'. finish_requests (Some [i]) s = Inr ([i], s') \<and>
    req_ids s' = filter_mset (\<lambda>j. j \<noteq> i) (req_ids s) \<and> slot_manager_of s' = slot_manager_of s"
  using finish_one_spec [OF assms(1), of "[]" i] assms(2)
  by (auto simp: finish_requests_def finish_these_def)

lemma idle_step:
  assumes "ec_initialized e" and "\<not> has_requests (ec_sched e)"
    and "enable_async_scheduling (vc_scheduler (ec_config e)) \<longrightarrow>
      ec_batch_queue e = Some [] \<and> 0 \<le> ec_batch_queue_size e"
  shows "step_fn net e = Inr ((Some [], False), e)"
  using assms by (auto simp: step_fn_def core_step_def step_with_batch_queue_def async_launch_def)

text \<open>
  Aborting the only request leaks its slot. The abort arrives in both queues. The input queue
  is handled first and takes the request out of the scheduler without freeing its slot; the step
  then has nothing to do and does not look at the aborts queue; the next iteration clears that
  queue and blocks. The slot stays assigned to a request that no longer exists.
\<close>

theorem last_abort_leaks_slot:
  fixes net :: "('st, 'g, 'r, 'lg) net"
  assumes "sched_wf (ec_sched (pr_core p))" and "req_ids (ec_sched (pr_core p)) = {#i#}"
    and "pr_shutdown_state p = SD_RUNNING" and "pr_input_block p" and "pr_input_queue p = []"
    and "ec_initialized (pr_core p)" and "ec_aborts (pr_core p) = []"
    and "enable_async_scheduling (vc_scheduler (ec_config (pr_core p))) \<longrightarrow>
      ec_batch_queue (pr_core p) = Some [] \<and> 1 \<le> ec_batch_queue_size (pr_core p)"
    and "\<not> enable_async_scheduling (vc_scheduler (ec_config (pr_core p))) \<longrightarrow> ec_batch_queue (pr_core p) = None"
  shows "\<exists>p1 p2. busy_iteration util net now (decode_input (AbortRequest [i]) p) = (Looping, p1) \<and>
    busy_iteration util net now' p1 = (Waiting, p2) \<and>
    req_ids (ec_sched (pr_core p2)) = {#} \<and> ec_aborts (pr_core p2) = [] \<and> pr_input_queue p2 = [] \<and>
    slot_manager_of (ec_sched (pr_core p2)) = slot_manager_of (ec_sched (pr_core p)) \<and>
    pr_output_queue p2 = pr_output_queue p @ [abort_frame i]"
proof -
  let ?e = "pr_core p" and ?s = "ec_sched (pr_core p)"
  obtain s' where s': "finish_requests (Some [i]) ?s = Inr ([i], s')" "req_ids s' = {#}"
    "slot_manager_of s' = slot_manager_of ?s"
    using abort_single [OF assms(1), of i] assms(2) by auto
  let ?p0 = "decode_input (AbortRequest [i]) p"
  have p0: "?p0 = p\<lparr>pr_core := ?e\<lparr>ec_aborts := [[i]]\<rparr>, pr_input_queue := [AbortRequest [i]]\<rparr>"
    using assms(5,7) by (simp add: decode_input_def)
  let ?e1 = "?e\<lparr>ec_aborts := [[i]], ec_sched := s'\<rparr>"
  let ?p1 = "p\<lparr>pr_core := ?e1, pr_input_queue := [], pr_output_queue := pr_output_queue p @ [abort_frame i]\<rparr>"
  have idle: "\<not> has_requests s'" "has_requests ?s" using s'(2) assms(2) by (simp_all add: has_requests_iff)
  have nobatch: "(case ec_batch_queue ?e of None \<Rightarrow> False | Some q \<Rightarrow> q \<noteq> []) = False"
    using assms(8,9) by (auto split: option.split)
  have "process_input_queue util now ?p0 = Inr (False, ?p1)"
    using s'(1) idle(2) by (simp add: p0 process_input_queue_def handle_client_request_def
        core_abort_requests_def send_def abort_frame_def)
  moreover have "step_fn net ?e1 = Inr ((Some [], False), ?e1)"
    by (rule idle_step) (use assms(6,8) idle(1) in auto)
  then have "process_engine_step net ?p1 = Inr (False, ?p1)"
    by (simp add: process_engine_step_def send_def)
  moreover have "handle_shutdown q = Inr (True, q)" if "pr_shutdown_state q = SD_RUNNING"
    for q :: "('st, 'g, 'r, 'lg) proc" using that by (simp add: handle_shutdown_def)
  ultimately have 1: "busy_iteration util net now ?p0 = (Looping, ?p1)"
    using assms(3) by (simp add: busy_iteration_def p0)
  let ?p2 = "?p1\<lparr>pr_core := ?e1\<lparr>ec_aborts := []\<rparr>\<rparr>"
  have "process_input_queue util now' ?p1 = Inr (True, ?p2)"
    using idle(1) assms(3,4) nobatch by (simp add: process_input_queue_def is_running_def)
  then have 2: "busy_iteration util net now' ?p1 = (Waiting, ?p2)"
    using assms(3) by (simp add: busy_iteration_def handle_shutdown_def)
  show ?thesis using 1 2 s'(2,3) by (intro exI [of _ ?p1] exI [of _ ?p2]) simp
qed

section \<open>Runs\<close>

definition demo_proc :: "sched \<Rightarrow> engine_shutdown_state \<Rightarrow> client_request list \<Rightarrow> (token list, string, unit, int) proc" where
  "demo_proc s sd q =
     \<lparr>pr_core = demo_engine\<lparr>ec_sched := s, ec_aborts := []\<rparr>, pr_input_queue = q, pr_output_queue = [],
      pr_shutdown_state = sd, pr_input_block = True\<rparr>"

definition no_util :: "(token list, string, unit, int) util" where
  "no_util name args e = (Inl ''unknown method'', e)"

definition demo_core_request :: core_request where
  "demo_core_request =
     \<lparr>cr_request_id = ''d'', cr_prompt_token_ids = Some [1], cr_sampling_params = Some sampling_defaults,
      cr_arrival_time = 1, cr_priority = 0, cr_current_wave = 0\<rparr>"

theorem no_admission_in_shutdown_witness:
  "\<exists>p'. process_input_queue no_util 1 (demo_proc demo_sched SD_REQUESTED [AddRequest demo_core_request, Wakeup]) =
       Inr (False, p') \<and> abort_frame ''d'' \<in> set (pr_output_queue p') \<and>
     req_ids (ec_sched (pr_core p')) \<subseteq># req_ids demo_sched"
proof -
  let ?p = "demo_proc demo_sched SD_REQUESTED [AddRequest demo_core_request, Wakeup]"
  have "pr_shutdown_state ?p \<noteq> SD_RUNNING" "sched_wf (ec_sched (pr_core ?p))"
    "ExecutorFailed \<notin> set (pr_input_queue ?p)" "ec_sched (pr_core ?p) = demo_sched"
    "AddRequest demo_core_request \<in> set (pr_input_queue ?p)" "cr_request_id demo_core_request = ''d''"
    using demo_wf by (simp_all add: demo_proc_def demo_core_request_def)
  with no_admission_in_shutdown [of ?p no_util 1] show ?thesis by metis
qed

theorem shutdown_aborts_all_witness:
  "\<exists>ids p'. busy_iteration no_util demo_net 1 (demo_proc demo_sched SD_REQUESTED []) = (Exited, p') \<and>
     mset ids = {#''a'', ''b'', ''c''#} \<and> pr_output_queue p' = map abort_frame ids"
proof -
  let ?p = "demo_proc demo_sched SD_REQUESTED []"
  have h: "pr_shutdown_state ?p = SD_REQUESTED" "sched_wf (ec_sched (pr_core ?p))"
    "wc_shutdown_timeout (vc_worker (ec_config (pr_core ?p))) = 0"
    "ec_batch_queue (pr_core ?p) = None \<or> ec_batch_queue (pr_core ?p) = Some []"
    using demo_wf by (simp_all add: demo_proc_def demo_engine_def demo_eager_config_def worker_config_defaults_def)
  have "req_ids (ec_sched (pr_core ?p)) = {#''a'', ''b'', ''c''#}"
    by (simp add: all_ids_def demo_proc_def demo_pending) (simp add: demo_sched_def demo_req_def new_vreq_def)
  moreover have "pr_output_queue ?p = []" by (simp add: demo_proc_def)
  ultimately show ?thesis using shutdown_aborts_all [OF h, of no_util demo_net 1] by auto
qed

text \<open>\<open>demo_sched2\<close> runs \<open>a\<close>; its other requests are taken out.\<close>

definition demo_lone_sched :: sched where
  "demo_lone_sched = snd (projr (finish_requests (Some [''b'', ''c'']) demo_sched2))"

lemma demo_lone_sched: "sched_wf demo_lone_sched" "req_ids demo_lone_sched = {#''a''#}"
proof -
  obtain d s' where f: "finish_requests (Some [''b'', ''c'']) demo_sched2 = Inr (d, s')" "sched_wf s'"
    "req_ids s' = filter_mset (\<lambda>i. i \<notin> {''b'', ''c''}) (req_ids demo_sched2)"
    using finish_these_spec [OF demo2_wf, of "[''b'', ''c'']"] by (auto simp: finish_requests_def)
  have "req_ids demo_sched2 = req_ids demo_sched"
    using demo_wf demo_budget demo_schedule by (cases rule: schedule_spec) simp
  moreover have "req_ids demo_sched = {#''a'', ''b'', ''c''#}"
    by (simp add: all_ids_def demo_pending) (simp add: demo_sched_def demo_req_def new_vreq_def)
  ultimately show "sched_wf demo_lone_sched" "req_ids demo_lone_sched = {#''a''#}"
    using f by (simp_all add: demo_lone_sched_def)
qed

lemma demo_lone_slot: "map_option (\<lambda>sm. dict_get (req_to_slot sm) ''a'') (slot_manager_of demo_lone_sched) = Some (Some 0)"
  by code_simp

theorem last_abort_leaks_slot_witness:
  "\<exists>p1 p2. busy_iteration no_util demo_net 1 (decode_input (AbortRequest [''a'']) (demo_proc demo_lone_sched SD_RUNNING [])) =
       (Looping, p1) \<and> busy_iteration no_util demo_net 2 p1 = (Waiting, p2) \<and>
     req_ids (ec_sched (pr_core p2)) = {#} \<and>
     map_option (\<lambda>sm. dict_get (req_to_slot sm) ''a'') (slot_manager_of (ec_sched (pr_core p2))) = Some (Some 0)"
proof -
  let ?p = "demo_proc demo_lone_sched SD_RUNNING []"
  have s: "ec_sched (pr_core ?p) = demo_lone_sched" by (simp add: demo_proc_def)
  have h: "sched_wf (ec_sched (pr_core ?p))" "req_ids (ec_sched (pr_core ?p)) = {#''a''#}"
    using demo_lone_sched by (simp_all add: s)
  have h2: "pr_shutdown_state ?p = SD_RUNNING" "pr_input_block ?p" "pr_input_queue ?p = []"
    "ec_initialized (pr_core ?p)" "ec_aborts (pr_core ?p) = []"
    "enable_async_scheduling (vc_scheduler (ec_config (pr_core ?p))) \<longrightarrow>
      ec_batch_queue (pr_core ?p) = Some [] \<and> 1 \<le> ec_batch_queue_size (pr_core ?p)"
    "\<not> enable_async_scheduling (vc_scheduler (ec_config (pr_core ?p))) \<longrightarrow> ec_batch_queue (pr_core ?p) = None"
    by (simp_all add: demo_proc_def demo_engine_def demo_eager_config_def scheduler_config_defaults_def)
  from last_abort_leaks_slot [OF h h2, of no_util demo_net 1 2] demo_lone_slot show ?thesis
    unfolding s by metis
qed

end
