(* ===== verification/Mp_Client.thy ===== *)
theory Mp_Client
  imports Core_Proc
begin

text \<open>
  The multi-process clients of \<^verbatim>\<open>vkwr/engine/core_client.py\<close>: \<^verbatim>\<open>MPClient\<close>, \<^verbatim>\<open>SyncMPClient\<close>,
  \<^verbatim>\<open>AsyncMPClient\<close> and the resources a finalizer releases.

  \<open>mp_client\<close> holds what the three threads of a client share. The caller's thread runs the
  operations, the reader (a thread, or a task of the event loop) runs \<open>reader_step\<close>s, the monitor
  runs \<open>monitor_fires\<close> once the process has ended. The sockets are the messages that were sent
  (\<open>mp_sent\<close>) and those that have arrived and were not yet read (\<open>mp_wire\<close>): a part that the engine's
  process put into its output queue, or one that cannot be decoded. The other process is its liveness.
  An operation that blocks returns \<open>None\<close>; one that raises returns its exception and the state
  it has already changed.

  The encoder is not modelled, and the addresses of the sockets are not either. The lemmas show
  that the reader loses and reorders nothing, how a utility call comes back, that a client whose
  engine is dead sends nothing, and who keeps waiting when the engine's process dies.
\<close>

section \<open>State\<close>

datatype wire_part = Part out_item | Undecodable py_error

datatype queue_item = QOutputs engine_core_outputs | QError py_error

datatype future = FPending | FResult "string option" | FException string

datatype reader_state = NotStarted | Reading | ReaderDone

record mp_client =
  mp_asyncio :: bool
  mp_engine_dead :: bool
  mp_proc_alive :: bool
  mp_finalizer_alive :: bool
  mp_res_engine_dead :: bool
  mp_reader :: reader_state
  mp_reader_stop :: bool
  mp_wire :: "wire_part list"
  mp_sent :: "client_request list"
  mp_outputs_queue :: "queue_item list"
  mp_utility_results :: "int list"
  mp_futures :: "(int, future) dict"

text \<open>
  \<^verbatim>\<open>utility_results\<close> maps the identifier of a call to its future; a future that has left that
  table is still held by its caller, so \<open>mp_futures\<close> keeps the futures and \<open>mp_utility_results\<close>
  the keys of the table.
\<close>

definition mp_init :: "bool \<Rightarrow> bool \<Rightarrow> mp_client res" where
  "mp_init asyncio_mode ready =
     (if \<not> ready then Inl TimeoutError
      else Inr \<lparr>mp_asyncio = asyncio_mode, mp_engine_dead = False, mp_proc_alive = True,
                mp_finalizer_alive = True, mp_res_engine_dead = False,
                mp_reader = (if asyncio_mode then NotStarted else Reading), mp_reader_stop = False,
                mp_wire = [], mp_sent = [], mp_outputs_queue = [], mp_utility_results = [], mp_futures = []\<rparr>)"

section \<open>Resources, monitor and shutdown\<close>

text \<open>
  The process is terminated, and killed where that does not end it. An asynchronous client's
  reader is cancelled, a synchronous one's is told to stop over the socket pair.
\<close>

definition resources_call :: "mp_client \<Rightarrow> mp_client" where
  "resources_call c =
     c\<lparr>mp_res_engine_dead := True, mp_proc_alive := False,
       mp_reader_stop := (mp_reader_stop c \<or> mp_reader c \<noteq> NotStarted)\<rparr>"

definition monitor_fires :: "mp_client \<Rightarrow> mp_client" where
  "monitor_fires c =
     (if mp_proc_alive c \<or> mp_engine_dead c then c
      else let c1 = c\<lparr>mp_engine_dead := True\<rparr>
           in if mp_finalizer_alive c1 then resources_call (c1\<lparr>mp_finalizer_alive := False\<rparr>) else c1)"

definition mp_shutdown :: "mp_client \<Rightarrow> mp_client" where
  "mp_shutdown c =
     (if \<not> mp_finalizer_alive c then c
      else resources_call (c\<lparr>mp_finalizer_alive := False, mp_proc_alive := False\<rparr>))"

text \<open>The subclasses stop their reader first; the synchronous one waits for its thread to end.\<close>

definition sync_shutdown :: "mp_client \<Rightarrow> mp_client" where
  "sync_shutdown c =
     mp_shutdown (if mp_reader c = Reading then c\<lparr>mp_reader_stop := True, mp_reader := ReaderDone\<rparr> else c)"

definition async_shutdown :: "mp_client \<Rightarrow> mp_client" where
  "async_shutdown c = mp_shutdown (if mp_reader c = Reading then c\<lparr>mp_reader_stop := True\<rparr> else c)"

section \<open>Sending\<close>

definition ensure_alive :: "mp_client \<Rightarrow> unit res \<times> mp_client" where
  "ensure_alive c =
     (if mp_engine_dead c \<or> \<not> mp_proc_alive c then (Inl EngineDeadError, c\<lparr>mp_engine_dead := True\<rparr>)
      else (Inr (), c))"

definition format_exception :: "py_error \<Rightarrow> mp_client \<Rightarrow> py_error" where
  "format_exception e c = (if mp_engine_dead c then EngineDeadError else e)"

definition send_input :: "client_request \<Rightarrow> mp_client \<Rightarrow> unit res \<times> mp_client" where
  "send_input m c =
     (case ensure_alive c of
        (Inl e, c1) \<Rightarrow> (Inl e, c1)
      | (Inr u, c1) \<Rightarrow> (Inr (), c1\<lparr>mp_sent := mp_sent c1 @ [m]\<rparr>))"

definition sync_add_request :: "core_request \<Rightarrow> mp_client \<Rightarrow> unit res \<times> mp_client" where
  "sync_add_request q c = send_input (AddRequest q) c"

definition mp_abort_requests :: "rid list \<Rightarrow> mp_client \<Rightarrow> unit res \<times> mp_client" where
  "mp_abort_requests ids c =
     (if ids \<noteq> [] \<and> \<not> mp_res_engine_dead c then send_input (AbortRequest ids) c else (Inr (), c))"

definition async_abort_requests :: "rid list \<Rightarrow> mp_client \<Rightarrow> unit res \<times> mp_client" where
  "async_abort_requests ids c =
     (if ids \<noteq> [] \<and> \<not> mp_res_engine_dead c then
        (case ensure_alive c of
           (Inl e, c1) \<Rightarrow> (Inl e, c1)
         | (Inr u, c1) \<Rightarrow> (Inr (), c1\<lparr>mp_sent := mp_sent c1 @ [AbortRequest ids]\<rparr>))
      else (Inr (), c))"

lemma async_abort_same: "async_abort_requests ids c = mp_abort_requests ids c"
  by (simp add: async_abort_requests_def mp_abort_requests_def send_input_def)

text \<open>The future is registered before the message is sent; the caller then waits for it.\<close>

definition register_call :: "int \<Rightarrow> mp_client \<Rightarrow> mp_client" where
  "register_call k c =
     c\<lparr>mp_utility_results := List.insert k (mp_utility_results c),
       mp_futures := dict_set k FPending (mp_futures c)\<rparr>"

definition sync_call_utility :: "int \<Rightarrow> string \<Rightarrow> string list \<Rightarrow> mp_client \<Rightarrow> unit res \<times> mp_client" where
  "sync_call_utility k name args c = send_input (UtilityCall 0 k name args) (register_call k c)"

definition future_result :: "int \<Rightarrow> mp_client \<Rightarrow> string option res option" where
  "future_result k c =
     (case dict_get (mp_futures c) k of
        Some (FResult v) \<Rightarrow> Some (Inr v)
      | Some (FException msg) \<Rightarrow> Some (Inl (PlainException msg))
      | _ \<Rightarrow> None)"

section \<open>Receiving\<close>

definition process_utility_output :: "utility_output \<Rightarrow> mp_client \<Rightarrow> mp_client" where
  "process_utility_output u c =
     (let k = ut_call_id u
      in if k \<notin> set (mp_utility_results c) then c
         else c\<lparr>mp_utility_results := removeAll k (mp_utility_results c),
                mp_futures :=
                  (if dict_get (mp_futures c) k = Some FPending
                   then dict_set k (case ut_failure_message u of
                                      Some msg \<Rightarrow> FException msg
                                    | None \<Rightarrow> FResult (ut_result u)) (mp_futures c)
                   else mp_futures c)\<rparr>)"

definition put_output :: "queue_item \<Rightarrow> mp_client \<Rightarrow> mp_client" where
  "put_output x c = c\<lparr>mp_outputs_queue := mp_outputs_queue c @ [x]\<rparr>"

text \<open>One message in the loop of \<^verbatim>\<open>process_outputs_socket\<close>\<close>

fun read_part :: "wire_part \<Rightarrow> mp_client \<Rightarrow> mp_client" where
  "read_part (Part EngineCoreDead) c = (put_output (QError EngineDeadError) c)\<lparr>mp_reader := ReaderDone\<rparr>"
| "read_part (Undecodable e) c = (put_output (QError e) c)\<lparr>mp_reader := ReaderDone\<rparr>"
| "read_part (Part (OutFrame idx outs)) c =
     (case ecos_utility_output outs of
        Some u \<Rightarrow> process_utility_output u c
      | None \<Rightarrow> put_output (QOutputs outs) c)"

definition reader_step :: "mp_client \<Rightarrow> mp_client" where
  "reader_step c =
     (if mp_reader c \<noteq> Reading then c
      else if mp_reader_stop c
        then (if mp_asyncio c then put_output (QError EngineDeadError) c else c)\<lparr>mp_reader := ReaderDone\<rparr>
      else case mp_wire c of
             [] \<Rightarrow> c
           | x # xs \<Rightarrow> read_part x (c\<lparr>mp_wire := xs\<rparr>))"

text \<open>
  \<^verbatim>\<open>SyncMPClient.get_output\<close>. With a deadline the call on an empty queue is the one whose time is
  up; without one it blocks.
\<close>

definition take_output :: "queue_item \<Rightarrow> mp_client \<Rightarrow> engine_core_outputs res" where
  "take_output x c = (case x of QOutputs outs \<Rightarrow> Inr outs | QError e \<Rightarrow> Inl (format_exception e c))"

definition queue_empty :: "bool \<Rightarrow> mp_client \<Rightarrow> (engine_core_outputs res \<times> mp_client) option" where
  "queue_empty deadline c =
     (if \<not> deadline then None
      else if mp_engine_dead c \<or> \<not> mp_proc_alive c
        then Some (Inl EngineDeadError, c\<lparr>mp_engine_dead := True\<rparr>)
      else Some (Inr (outputs_of []), c))"

definition sync_get_output :: "bool \<Rightarrow> mp_client \<Rightarrow> (engine_core_outputs res \<times> mp_client) option" where
  "sync_get_output deadline c =
     (case mp_outputs_queue c of
        [] \<Rightarrow> queue_empty deadline c
      | x # xs \<Rightarrow> Some (take_output x c, c\<lparr>mp_outputs_queue := xs\<rparr>))"

section \<open>The asynchronous client\<close>

text \<open>The queue and the reader are made by the first operation that needs them.\<close>

definition ensure_output_queue :: "mp_client \<Rightarrow> mp_client" where
  "ensure_output_queue c = (if mp_reader c \<noteq> NotStarted then c else c\<lparr>mp_outputs_queue := [], mp_reader := Reading\<rparr>)"

definition ensure_output_queue_task :: "mp_client \<Rightarrow> unit res" where
  "ensure_output_queue_task c = (if mp_reader c \<noteq> Reading then Inl EngineDeadError else Inr ())"

text \<open>A caller that waits inside \<^verbatim>\<open>get\<close> goes on here when an item arrives.\<close>

definition await_queue :: "bool \<Rightarrow> mp_client \<Rightarrow> (engine_core_outputs res \<times> mp_client) option" where
  "await_queue deadline c =
     (case mp_outputs_queue c of
        [] \<Rightarrow> queue_empty deadline c
      | x # xs \<Rightarrow> Some (take_output x c, c\<lparr>mp_outputs_queue := xs\<rparr>))"

definition async_get_output :: "bool \<Rightarrow> mp_client \<Rightarrow> (engine_core_outputs res \<times> mp_client) option" where
  "async_get_output deadline c0 =
     (let c = ensure_output_queue c0
      in case ensure_output_queue_task c of
           Inl e \<Rightarrow> Some (Inl e, c)
         | Inr u \<Rightarrow> await_queue deadline c)"

definition async_add_request :: "core_request \<Rightarrow> mp_client \<Rightarrow> unit res \<times> mp_client" where
  "async_add_request q c = send_input (AddRequest q) (ensure_output_queue c)"

definition async_call_utility :: "int \<Rightarrow> string \<Rightarrow> string list \<Rightarrow> mp_client \<Rightarrow> unit res \<times> mp_client" where
  "async_call_utility k name args c =
     (let c1 = register_call k (ensure_output_queue c)
      in case ensure_output_queue_task c1 of
           Inl e \<Rightarrow> (Inl e, c1)
         | Inr u \<Rightarrow> (Inr (), c1\<lparr>mp_sent := mp_sent c1 @ [UtilityCall 0 k name args]\<rparr>))"

section \<open>A client and its environment\<close>

text \<open>
  The parts that have arrived so far, what the caller has taken out of the queue, and the
  interleavings of the caller, the reader, the monitor and the other process.
\<close>

type_synonym client_state = "mp_client \<times> wire_part list \<times> queue_item list"

definition get_output_of :: "bool \<Rightarrow> mp_client \<Rightarrow> (engine_core_outputs res \<times> mp_client) option" where
  "get_output_of deadline c = (if mp_asyncio c then async_get_output deadline c else sync_get_output deadline c)"

text \<open>The item a call of \<open>get_output\<close> takes out of the queue, if it takes one.\<close>

definition taken :: "mp_client \<Rightarrow> queue_item list" where
  "taken c = (if mp_asyncio c \<and> mp_reader c \<noteq> Reading then [] else take 1 (mp_outputs_queue c))"

inductive client_step :: "client_state \<Rightarrow> client_state \<Rightarrow> bool" where
  arrive: "client_step (c, h, g) (c\<lparr>mp_wire := mp_wire c @ [x]\<rparr>, h @ [x], g)"
| read: "client_step (c, h, g) (reader_step c, h, g)"
| get: "get_output_of deadline c = Some (r, c') \<Longrightarrow> client_step (c, h, g) (c', h, g @ taken c)"
| resume: "mp_asyncio c \<Longrightarrow> mp_reader c \<noteq> NotStarted \<Longrightarrow> await_queue deadline c = Some (r, c') \<Longrightarrow>
    client_step (c, h, g) (c', h, g @ take 1 (mp_outputs_queue c))"
| exits: "client_step (c, h, g) (c\<lparr>mp_proc_alive := False\<rparr>, h, g)"
| monitor: "client_step (c, h, g) (monitor_fires c, h, g)"
| abort: "\<not> mp_asyncio c \<Longrightarrow> client_step (c, h, g) (snd (mp_abort_requests ids c), h, g)"
| abort_async: "mp_asyncio c \<Longrightarrow> client_step (c, h, g) (snd (async_abort_requests ids c), h, g)"
| add: "\<not> mp_asyncio c \<Longrightarrow> client_step (c, h, g) (snd (sync_add_request q c), h, g)"
| add_async: "mp_asyncio c \<Longrightarrow> client_step (c, h, g) (snd (async_add_request q c), h, g)"
| call: "\<not> mp_asyncio c \<Longrightarrow> client_step (c, h, g) (snd (sync_call_utility k name args c), h, g)"
| call_async: "mp_asyncio c \<Longrightarrow> client_step (c, h, g) (snd (async_call_utility k name args c), h, g)"
| shut: "\<not> mp_asyncio c \<Longrightarrow> client_step (c, h, g) (sync_shutdown c, h, g)"
| shut_async: "mp_asyncio c \<Longrightarrow> client_step (c, h, g) (async_shutdown c, h, g)"

text \<open>What the reader owes the caller for the parts it has read.\<close>

fun part_items :: "wire_part \<Rightarrow> queue_item list" where
  "part_items (Part EngineCoreDead) = [QError EngineDeadError]"
| "part_items (Undecodable e) = [QError e]"
| "part_items (Part (OutFrame idx outs)) =
     (if ecos_utility_output outs = None then [QOutputs outs] else [])"

fun ends_reading :: "wire_part \<Rightarrow> bool" where
  "ends_reading (Part EngineCoreDead) = True"
| "ends_reading (Undecodable e) = True"
| "ends_reading (Part (OutFrame idx outs)) = False"

text \<open>
  All parts but the last one read are frames; the items are those of the parts read, and one more
  error where an asynchronous reader was cancelled.
\<close>

definition delivered_inv :: "client_state \<Rightarrow> bool" where
  "delivered_inv s \<longleftrightarrow> (case s of (c, h, g) \<Rightarrow>
     (\<exists>seen. h = seen @ mp_wire c \<and> (\<forall>x \<in> set (butlast seen). \<not> ends_reading x) \<and>
        (mp_reader c \<noteq> ReaderDone \<longrightarrow> (\<forall>x \<in> set seen. \<not> ends_reading x)) \<and>
        (mp_reader c = NotStarted \<longrightarrow> seen = [] \<and> g = [] \<and> mp_outputs_queue c = []) \<and>
        (g @ mp_outputs_queue c = concat (map part_items seen) \<or>
         mp_asyncio c \<and> mp_reader c = ReaderDone \<and> (\<forall>x \<in> set seen. \<not> ends_reading x) \<and>
         g @ mp_outputs_queue c = concat (map part_items seen) @ [QError EngineDeadError])))"

lemma ensure_alive_frame:
  "ensure_alive c = (r, c') \<Longrightarrow> c' = c\<lparr>mp_engine_dead := mp_engine_dead c'\<rparr> \<and> (mp_engine_dead c \<longrightarrow> mp_engine_dead c')"
  by (auto simp: ensure_alive_def split: if_split_asm)

text \<open>Operations that do not touch the reader's side.\<close>

definition same_reading :: "mp_client \<Rightarrow> mp_client \<Rightarrow> bool" where
  "same_reading c c' \<longleftrightarrow> mp_wire c' = mp_wire c \<and> mp_outputs_queue c' = mp_outputs_queue c \<and>
     mp_asyncio c' = mp_asyncio c \<and> mp_reader c' = mp_reader c"

lemma same_reading_inv: "delivered_inv (c, h, g) \<Longrightarrow> same_reading c c' \<Longrightarrow> delivered_inv (c', h, g)"
  by (simp add: delivered_inv_def same_reading_def)

lemma send_input_same: "same_reading c (snd (send_input m c))"
  by (simp add: send_input_def ensure_alive_def same_reading_def)

lemma abort_same: "same_reading c (snd (mp_abort_requests ids c))"
  using send_input_same by (simp add: mp_abort_requests_def same_reading_def)

lemma register_same: "same_reading c (register_call k c)"
  by (simp add: register_call_def same_reading_def)

lemma sync_call_same: "same_reading c (snd (sync_call_utility k name args c))"
  using send_input_same [of "register_call k c"] register_same [of c k]
  by (simp add: sync_call_utility_def same_reading_def)

lemma monitor_same: "same_reading c (monitor_fires c)"
  by (simp add: monitor_fires_def resources_call_def same_reading_def Let_def)

lemma mp_shutdown_same: "same_reading c (mp_shutdown c)"
  by (simp add: mp_shutdown_def resources_call_def same_reading_def)

lemma utility_output_same: "same_reading c (process_utility_output u c)"
  by (simp add: process_utility_output_def same_reading_def Let_def)

text \<open>Starting the reader of an asynchronous client, and ending one.\<close>

lemma ensure_queue_inv: "delivered_inv (c, h, g) \<Longrightarrow> delivered_inv (ensure_output_queue c, h, g)"
  by (auto simp: delivered_inv_def ensure_output_queue_def)

lemma reader_done_inv: "delivered_inv (c, h, g) \<Longrightarrow> mp_reader c = Reading \<Longrightarrow>
    delivered_inv (c\<lparr>mp_reader := ReaderDone\<rparr>, h, g)"
  by (auto simp: delivered_inv_def)

lemma read_part_inv:
  assumes inv: "delivered_inv (c, h, g)" and r: "mp_reader c = Reading" and w: "mp_wire c = x # xs"
  shows "delivered_inv (read_part x (c\<lparr>mp_wire := xs\<rparr>), h, g)"
proof -
  obtain seen where seen: "h = seen @ x # xs" "\<forall>y \<in> set seen. \<not> ends_reading y"
    "g @ mp_outputs_queue c = concat (map part_items seen)"
    using inv r w by (auto simp: delivered_inv_def)
  show ?thesis
  proof (cases x)
    case (Undecodable e)
    then show ?thesis using seen r by (auto simp: delivered_inv_def put_output_def intro!: exI [of _ "seen @ [x]"])
  next
    case (Part o1)
    show ?thesis
    proof (cases o1)
      case EngineCoreDead
      then show ?thesis using seen r Part
        by (auto simp: delivered_inv_def put_output_def intro!: exI [of _ "seen @ [x]"])
    next
      case (OutFrame idx outs)
      show ?thesis
      proof (cases "ecos_utility_output outs")
        case None
        then show ?thesis using seen r Part OutFrame
          by (auto simp: delivered_inv_def put_output_def dest: in_set_butlastD intro!: exI [of _ "seen @ [x]"])
      next
        case (Some u)
        have "delivered_inv (c\<lparr>mp_wire := xs\<rparr>, h, g)"
          using seen r Part OutFrame Some
          by (auto simp: delivered_inv_def dest: in_set_butlastD intro!: exI [of _ "seen @ [x]"])
        then show ?thesis using Part OutFrame Some same_reading_inv utility_output_same by simp
      qed
    qed
  qed
qed

lemma reader_step_inv: "delivered_inv (c, h, g) \<Longrightarrow> delivered_inv (reader_step c, h, g)"
proof -
  assume inv: "delivered_inv (c, h, g)"
  show ?thesis
  proof (cases "mp_reader c = Reading \<and> \<not> mp_reader_stop c \<and> mp_wire c \<noteq> []")
    case True
    then obtain x xs where "mp_wire c = x # xs" by (cases "mp_wire c") auto
    with True read_part_inv [OF inv] show ?thesis by (simp add: reader_step_def)
  next
    case False
    show ?thesis
    proof (cases "mp_reader c = Reading \<and> mp_reader_stop c")
      case True
      with inv show ?thesis by (auto simp: reader_step_def delivered_inv_def put_output_def)
    qed (use False inv in \<open>auto simp: reader_step_def split: list.split\<close>)
  qed
qed

lemma await_queue_inv:
  assumes "delivered_inv (c, h, g)" and "await_queue deadline c = Some (r, c')"
  shows "delivered_inv (c', h, g @ take 1 (mp_outputs_queue c))"
proof (cases "mp_outputs_queue c")
  case Nil
  with assms show ?thesis
    by (auto simp: await_queue_def queue_empty_def delivered_inv_def split: if_split_asm)
next
  case (Cons x xs)
  with assms show ?thesis by (auto simp: await_queue_def delivered_inv_def)
qed

lemma get_output_inv:
  assumes inv: "delivered_inv (c, h, g)" and run: "get_output_of deadline c = Some (r, c')"
  shows "delivered_inv (c', h, g @ taken c)"
proof -
  let ?e = "ensure_output_queue c"
  have e: "delivered_inv (?e, h, g)" using inv by (rule ensure_queue_inv)
  show ?thesis
  proof (cases "mp_asyncio c")
    case False
    then show ?thesis using run await_queue_inv [OF inv, of deadline]
      by (simp add: get_output_of_def sync_get_output_def await_queue_def taken_def)
  next
    case as: True
    show ?thesis
    proof (cases "mp_reader ?e = Reading")
      case True
      have q: "taken c = take 1 (mp_outputs_queue ?e)"
        using as True inv by (auto simp: taken_def ensure_output_queue_def delivered_inv_def split: if_split_asm)
      show ?thesis using run as True await_queue_inv [OF e, of deadline] unfolding q
        by (simp add: get_output_of_def async_get_output_def ensure_output_queue_task_def Let_def)
    next
      case False
      then have "taken c = []" "c' = ?e"
        using run as by (auto simp: get_output_of_def async_get_output_def ensure_output_queue_task_def taken_def
            ensure_output_queue_def split: if_split_asm)
      then show ?thesis using e by simp
    qed
  qed
qed

lemma client_step_inv: "client_step s s' \<Longrightarrow> delivered_inv s \<Longrightarrow> delivered_inv s'"
proof (induction rule: client_step.induct)
  case (arrive c h g x)
  then show ?case by (auto simp: delivered_inv_def)
next
  case (read c h g)
  then show ?case by (rule reader_step_inv)
next
  case (get deadline c r c' h g)
  then show ?case using get_output_inv by blast
next
  case (resume c deadline r c' h g)
  then show ?case using await_queue_inv by blast
next
  case (exits c h g)
  then show ?case by (simp add: delivered_inv_def)
next
  case (monitor c h g)
  then show ?case using monitor_same same_reading_inv by blast
next
  case (abort c h g ids)
  then show ?case using abort_same same_reading_inv by blast
next
  case (abort_async c h g ids)
  then show ?case using abort_same same_reading_inv unfolding async_abort_same by blast
next
  case (add c h g q)
  then show ?case using send_input_same same_reading_inv unfolding sync_add_request_def by blast
next
  case (add_async c h g q)
  then show ?case using send_input_same same_reading_inv ensure_queue_inv unfolding async_add_request_def by blast
next
  case (call c h g k name args)
  then show ?case using sync_call_same same_reading_inv by blast
next
  case (call_async c h g k name args)
  have "same_reading (ensure_output_queue c) (snd (async_call_utility k name args c))"
    by (simp add: async_call_utility_def register_call_def same_reading_def Let_def split: sum.split)
  then show ?case using call_async same_reading_inv ensure_queue_inv by blast
next
  case (shut c h g)
  have "delivered_inv (c\<lparr>mp_reader_stop := True, mp_reader := ReaderDone\<rparr>, h, g)" if "mp_reader c = Reading"
    using reader_done_inv [OF shut(2) that] by (simp add: delivered_inv_def)
  then show ?case using shut(2) mp_shutdown_same same_reading_inv unfolding sync_shutdown_def by (metis (full_types))
next
  case (shut_async c h g)
  have "same_reading c (async_shutdown c)"
    using mp_shutdown_same [of c] mp_shutdown_same [of "c\<lparr>mp_reader_stop := True\<rparr>"]
    by (simp add: async_shutdown_def same_reading_def)
  then show ?case using shut_async(2) same_reading_inv by blast
qed

section \<open>Nothing is lost or reordered\<close>

text \<open>
  C31: a client hands out what the engine sent, in order. However the calls of the client, the
  reader, the monitor and the arrival of messages interleave, the outputs its caller has taken
  and those still queued are those of the messages read so far, each once and in the order they
  arrived, without the answers to utility calls; reading ends with the first dead message or
  undecodable one, and a cancelled reader of the asynchronous client adds one \<^verbatim>\<open>EngineDeadError\<close>.
\<close>

theorem outputs_in_order:
  assumes "mp_init asyncio_mode True = Inr c0" and "client_step\<^sup>*\<^sup>* (c0, [], []) (c, h, g)"
  shows "\<exists>seen. h = seen @ mp_wire c \<and> (\<forall>x \<in> set (butlast seen). \<not> ends_reading x) \<and>
    (g @ mp_outputs_queue c = concat (map part_items seen) \<or>
     mp_asyncio c \<and> mp_reader c = ReaderDone \<and> (\<forall>x \<in> set seen. \<not> ends_reading x) \<and>
     g @ mp_outputs_queue c = concat (map part_items seen) @ [QError EngineDeadError])"
proof -
  have "delivered_inv (c0, [], [])" using assms(1) by (auto simp: mp_init_def delivered_inv_def)
  with assms(2) have "delivered_inv (c, h, g)"
    by (induction rule: rtranclp_induct) (auto dest: client_step_inv)
  then show ?thesis by (auto simp: delivered_inv_def)
qed

definition demo_part :: wire_part where
  "demo_part = Part (OutFrame 0 (outputs_of [abort_output ''a'']))"

theorem outputs_in_order_witness:
  "\<exists>c0 c. mp_init False True = Inr c0 \<and> client_step\<^sup>*\<^sup>* (c0, [], []) (c, [demo_part, Part EngineCoreDead],
       [QOutputs (outputs_of [abort_output ''a''])]) \<and> mp_outputs_queue c = [] \<and> mp_wire c = [Part EngineCoreDead]"
proof -
  obtain c0 where c0: "mp_init False True = Inr c0" by (simp add: mp_init_def)
  then have e: "mp_asyncio c0 = False" "mp_reader c0 = Reading" "\<not> mp_reader_stop c0" "mp_wire c0 = []"
    "mp_outputs_queue c0 = []" by (auto simp: mp_init_def)
  let ?c1 = "c0\<lparr>mp_wire := mp_wire c0 @ [demo_part]\<rparr>"
  let ?c2 = "reader_step ?c1"
  have q: "mp_outputs_queue ?c2 = [QOutputs (outputs_of [abort_output ''a''])]" "mp_asyncio ?c2 = False" "mp_wire ?c2 = []"
    using e by (simp_all add: reader_step_def demo_part_def outputs_of_def put_output_def)
  let ?c3 = "?c2\<lparr>mp_outputs_queue := []\<rparr>"
  let ?c4 = "?c3\<lparr>mp_wire := mp_wire ?c3 @ [Part EngineCoreDead]\<rparr>"
  have 1: "client_step (c0, [], []) (?c1, [demo_part], [])" using client_step.arrive [of c0 "[]" "[]" demo_part] by simp
  have 2: "client_step (?c1, [demo_part], []) (?c2, [demo_part], [])" by (rule client_step.read)
  have "get_output_of False ?c2 = Some (Inr (outputs_of [abort_output ''a'']), ?c3)"
    by (simp only: get_output_of_def q(2) if_False sync_get_output_def q(1) list.case take_output_def queue_item.case)
  from client_step.get [OF this, of "[demo_part]" "[]"] q(1,2)
  have 3: "client_step (?c2, [demo_part], []) (?c3, [demo_part], [QOutputs (outputs_of [abort_output ''a''])])"
    by (simp add: taken_def)
  have 4: "client_step (?c3, [demo_part], [QOutputs (outputs_of [abort_output ''a''])])
      (?c4, [demo_part, Part EngineCoreDead], [QOutputs (outputs_of [abort_output ''a''])])"
    using client_step.arrive [of ?c3 "[demo_part]" "[QOutputs (outputs_of [abort_output ''a''])]" "Part EngineCoreDead"] by simp
  have run: "client_step\<^sup>*\<^sup>* (c0, [], []) (?c4, [demo_part, Part EngineCoreDead], [QOutputs (outputs_of [abort_output ''a''])])"
    using 1 2 3 4 by (meson rtranclp.rtrancl_into_rtrancl rtranclp.rtrancl_refl)
  from outputs_in_order [OF c0 run] run c0 q(3) show ?thesis by fastforce
qed

section \<open>A dead engine\<close>

definition engine_gone :: "mp_client \<Rightarrow> bool" where
  "engine_gone c \<longleftrightarrow> mp_engine_dead c \<or> \<not> mp_proc_alive c"

lemma send_input_gone: "engine_gone c \<Longrightarrow> send_input m c = (Inl EngineDeadError, c\<lparr>mp_engine_dead := True\<rparr>)"
  by (auto simp: engine_gone_def send_input_def ensure_alive_def)

lemma process_utility_output_frame:
  "mp_engine_dead (process_utility_output u c) = mp_engine_dead c"
  "mp_proc_alive (process_utility_output u c) = mp_proc_alive c"
  "mp_sent (process_utility_output u c) = mp_sent c"
  by (simp_all add: process_utility_output_def Let_def)

lemma read_part_frame:
  "mp_engine_dead (read_part x c) = mp_engine_dead c \<and> mp_proc_alive (read_part x c) = mp_proc_alive c \<and>
     mp_sent (read_part x c) = mp_sent c"
  by (cases x rule: part_items.cases)
     (simp_all add: put_output_def process_utility_output_frame split: option.split)

lemma reader_step_frame:
  "mp_engine_dead (reader_step c) = mp_engine_dead c \<and> mp_proc_alive (reader_step c) = mp_proc_alive c \<and>
     mp_sent (reader_step c) = mp_sent c"
  by (simp add: reader_step_def put_output_def read_part_frame split: list.split)

lemma queue_empty_frame:
  "queue_empty deadline c = Some (r, c') \<Longrightarrow> c' = c\<lparr>mp_engine_dead := mp_engine_dead c'\<rparr> \<and> (mp_engine_dead c \<longrightarrow> mp_engine_dead c')"
  by (auto simp: queue_empty_def split: if_split_asm)

lemma sync_get_output_frame:
  assumes "sync_get_output deadline c = Some (r, c')"
  shows "mp_sent c' = mp_sent c \<and> mp_proc_alive c' = mp_proc_alive c \<and> (mp_engine_dead c \<longrightarrow> mp_engine_dead c') \<and>
    mp_futures c' = mp_futures c \<and> mp_reader c' = mp_reader c \<and> mp_asyncio c' = mp_asyncio c"
proof (cases "mp_outputs_queue c")
  case Nil
  then have "queue_empty deadline c = Some (r, c')" using assms by (simp add: sync_get_output_def)
  then show ?thesis by (auto simp: queue_empty_def split: if_split_asm)
qed (use assms in \<open>auto simp: sync_get_output_def\<close>)

lemma client_step_gone:
  assumes "client_step s s'" and "engine_gone (fst s)" and "\<not> mp_asyncio (fst s)"
  shows "engine_gone (fst s') \<and> \<not> mp_asyncio (fst s') \<and> mp_sent (fst s') = mp_sent (fst s)"
  using assms
proof (induction rule: client_step.induct)
  case (read c h g)
  have "mp_asyncio (reader_step c) = mp_asyncio c"
    by (cases "mp_wire c"; cases "hd (mp_wire c)" rule: part_items.cases)
       (auto simp: reader_step_def put_output_def process_utility_output_def Let_def split: option.split)
  with read reader_step_frame [of c] show ?case by (simp add: engine_gone_def)
next
  case (get deadline c r c' h g)
  then have "sync_get_output deadline c = Some (r, c')" by (simp add: get_output_of_def)
  from sync_get_output_frame [OF this] get show ?case by (auto simp: engine_gone_def)
next
  case (abort c h g ids)
  then show ?case using send_input_gone [of c] by (auto simp: mp_abort_requests_def engine_gone_def)
next
  case (add c h g q)
  then show ?case using send_input_gone [of c] by (auto simp: sync_add_request_def engine_gone_def)
next
  case (call c h g k name args)
  then show ?case using send_input_gone [of "register_call k c"]
    by (auto simp: sync_call_utility_def register_call_def engine_gone_def)
qed (auto simp: engine_gone_def monitor_fires_def resources_call_def sync_shutdown_def mp_shutdown_def Let_def)

text \<open>
  A synchronous client whose engine is gone sends nothing any more. Once the client knows that
  the engine is dead, or its process has ended, no interleaving of further calls, of the reader
  and of the monitor sends a message, and the engine never counts as alive again.
\<close>

theorem dead_client_is_silent:
  assumes "engine_gone c" and "\<not> mp_asyncio c" and "client_step\<^sup>*\<^sup>* (c, h, g) (c', h', g')"
  shows "engine_gone c' \<and> mp_sent c' = mp_sent c"
proof -
  have "engine_gone (fst s) \<and> \<not> mp_asyncio (fst s) \<and> mp_sent (fst s) = mp_sent c"
    if "client_step\<^sup>*\<^sup>* (c, h, g) s" for s
    using that
  proof (induction rule: rtranclp_induct)
    case (step s t)
    with client_step_gone [OF step(2)] show ?case by simp
  qed (use assms in simp)
  from this [OF assms(3)] show ?thesis by simp
qed

text \<open>What keeps a caller of the synchronous client waiting.\<close>

definition nothing_comes :: "int \<Rightarrow> mp_client \<Rightarrow> bool" where
  "nothing_comes k c \<longleftrightarrow> \<not> mp_asyncio c \<and> mp_reader c = ReaderDone \<and> mp_outputs_queue c = [] \<and>
     dict_get (mp_futures c) k = Some FPending"

lemma nothing_comes_step: "client_step s s' \<Longrightarrow> nothing_comes k (fst s) \<Longrightarrow> nothing_comes k (fst s')"
proof (induction rule: client_step.induct)
  case (get deadline c r c' h g)
  then have "queue_empty deadline c = Some (r, c')"
    by (simp add: get_output_of_def sync_get_output_def nothing_comes_def)
  with get(2) show ?case by (auto simp: queue_empty_def nothing_comes_def split: if_split_asm)
qed (auto simp: nothing_comes_def reader_step_def monitor_fires_def resources_call_def mp_abort_requests_def
    sync_add_request_def sync_call_utility_def register_call_def send_input_def ensure_alive_def sync_shutdown_def
    mp_shutdown_def Let_def)

text \<open>
  C32: only the asynchronous client notices that the engine's process was killed. When the process
  ends without a dead message, the monitor stops the reader. An asynchronous caller, already waiting
  or calling later, then gets \<^verbatim>\<open>EngineDeadError\<close>; the synchronous reader leaves nothing in the queue, so a call of
  \<^verbatim>\<open>get_output\<close> without a deadline, and a call waiting for a utility's result, wait in every state
  the client can reach from there.
\<close>

theorem killed_engine_hangs_sync:
  assumes "\<not> mp_proc_alive c" and "\<not> mp_engine_dead c" and "mp_finalizer_alive c" and "mp_reader c = Reading"
    and "mp_outputs_queue c = []" and "dict_get (mp_futures c) k = Some FPending"
    and "c' = reader_step (monitor_fires c)"
  shows "(mp_asyncio c \<longrightarrow> async_get_output False c' = Some (Inl EngineDeadError, c') \<and>
       map_option fst (await_queue False c') = Some (Inl EngineDeadError)) \<and>
    (\<not> mp_asyncio c \<longrightarrow> (\<forall>s. client_step\<^sup>*\<^sup>* (c', h, g) s \<longrightarrow>
       sync_get_output False (fst s) = None \<and> future_result k (fst s) = None))"
proof -
  have c': "mp_reader c' = ReaderDone" "mp_asyncio c' = mp_asyncio c" "mp_futures c' = mp_futures c"
    "\<not> mp_asyncio c \<Longrightarrow> mp_outputs_queue c' = []"
    using assms by (simp_all add: reader_step_def monitor_fires_def resources_call_def put_output_def)
  have "nothing_comes k (fst s)" if "client_step\<^sup>*\<^sup>* (c', h, g) s" "\<not> mp_asyncio c" for s
    using that(1)
  proof (induction rule: rtranclp_induct)
    case base
    show ?case using c' that(2) assms(6) by (simp add: nothing_comes_def)
  next
    case (step s t)
    then show ?case using nothing_comes_step by blast
  qed
  moreover have "mp_asyncio c \<Longrightarrow> mp_outputs_queue c' = [QError EngineDeadError]" "mp_engine_dead c'"
    using assms by (simp_all add: reader_step_def monitor_fires_def resources_call_def put_output_def)
  ultimately show ?thesis
    using c' by (auto simp: nothing_comes_def sync_get_output_def await_queue_def take_output_def format_exception_def queue_empty_def future_result_def
        async_get_output_def ensure_output_queue_def ensure_output_queue_task_def)
qed

definition demo_client :: mp_client where
  "demo_client = register_call 7 (projr (mp_init False True))"

lemma demo_client_sel:
  "mp_asyncio demo_client = False" "mp_engine_dead demo_client = False" "mp_finalizer_alive demo_client"
  "mp_reader demo_client = Reading" "mp_outputs_queue demo_client = []" "mp_proc_alive demo_client"
  "dict_get (mp_futures demo_client) 7 = Some FPending" "\<not> mp_reader_stop demo_client" "mp_wire demo_client = []"
  "mp_sent demo_client = []"
  by (simp_all add: demo_client_def mp_init_def register_call_def)

theorem killed_engine_hangs_sync_witness:
  "sync_get_output False (reader_step (monitor_fires (demo_client\<lparr>mp_proc_alive := False\<rparr>))) = None"
proof -
  let ?c = "demo_client\<lparr>mp_proc_alive := False\<rparr>"
  have "(mp_asyncio ?c \<longrightarrow> async_get_output False (reader_step (monitor_fires ?c)) =
        Some (Inl EngineDeadError, reader_step (monitor_fires ?c)) \<and>
        map_option fst (await_queue False (reader_step (monitor_fires ?c))) = Some (Inl EngineDeadError)) \<and>
    (\<not> mp_asyncio ?c \<longrightarrow> (\<forall>s. client_step\<^sup>*\<^sup>* (reader_step (monitor_fires ?c), [], []) s \<longrightarrow>
       sync_get_output False (fst s) = None \<and> future_result 7 (fst s) = None))"
    by (rule killed_engine_hangs_sync) (simp_all add: demo_client_sel)
  then show ?thesis by (auto simp: demo_client_sel)
qed

theorem dead_client_is_silent_witness:
  "mp_sent (snd (sync_add_request demo_core_request (demo_client\<lparr>mp_proc_alive := False\<rparr>))) = []"
proof -
  let ?c = "demo_client\<lparr>mp_proc_alive := False\<rparr>"
  have 1: "engine_gone ?c" "\<not> mp_asyncio ?c" by (simp_all add: engine_gone_def demo_client_sel)
  have "client_step (?c, [], []) (snd (sync_add_request demo_core_request ?c), [], [])"
    by (rule client_step.add) (simp add: demo_client_sel)
  then have "client_step\<^sup>*\<^sup>* (?c, [], []) (snd (sync_add_request demo_core_request ?c), [], [])" by blast
  from dead_client_is_silent [OF 1 this] show ?thesis by (simp add: demo_client_sel)
qed

section \<open>A utility call and its answer\<close>

text \<open>
  C33: a utility call comes back to its caller. The call sends one message and its caller waits;
  when the engine process handles that message, the one message it answers with makes the
  reader hand the method's result to that caller, or its exception with its text, or the refusal
  of an engine that is shutting down. The answer never appears among the outputs, and the call is
  closed, so that a second answer is dropped.
\<close>

theorem utility_call_returns:
  assumes "sync_call_utility k name args c = (Inr (), c1)"
    and "mp_reader c = Reading" and "\<not> mp_reader_stop c"
    and "handle_client_request util now (UtilityCall 0 k name args) p = Inr p2"
    and "pr_output_queue p2 = pr_output_queue p @ answer"
    and "c2 = reader_step (c1\<lparr>mp_wire := map Part answer\<rparr>)"
  shows "mp_sent c1 = mp_sent c @ [UtilityCall 0 k name args] \<and> future_result k c1 = None \<and>
    future_result k c2 = Some
      (if \<not> is_running p then Inl (PlainException ''Server shutting down'')
       else case fst (util name args (pr_core p)) of
              Inl err \<Rightarrow> Inl (PlainException (''Call to '' @ name @ '' method failed: '' @ err))
            | Inr v \<Rightarrow> Inr v) \<and>
    mp_outputs_queue c2 = mp_outputs_queue c \<and> mp_wire c2 = [] \<and>
    (\<forall>u. ut_call_id u = k \<longrightarrow> process_utility_output u c2 = c2)"
proof -
  have c1: "c1 = (register_call k c)\<lparr>mp_sent := mp_sent c @ [UtilityCall 0 k name args]\<rparr>"
    using assms(1) by (auto simp: sync_call_utility_def send_input_def ensure_alive_def register_call_def
        split: if_split_asm)
  obtain msg v where a: "answer = [utility_frame 0 k msg v]"
    "(case msg of Some m \<Rightarrow> FException m | None \<Rightarrow> FResult v) =
       (if \<not> is_running p then FException ''Server shutting down''
        else case fst (util name args (pr_core p)) of
               Inl err \<Rightarrow> FException (''Call to '' @ name @ '' method failed: '' @ err)
             | Inr w \<Rightarrow> FResult w)"
    using assms(4,5) by (auto simp: handle_client_request_def invoke_utility_def send_def case_prod_unfold Let_def
        split: if_split_asm sum.split_asm)
  have "c2 = process_utility_output \<lparr>ut_call_id = k, ut_failure_message = msg, ut_result = v\<rparr> (c1\<lparr>mp_wire := []\<rparr>)"
    using assms(2,3,6) by (simp add: a(1) c1 reader_step_def register_call_def utility_frame_def)
  then have c2: "c2 = c1\<lparr>mp_wire := [], mp_utility_results := removeAll k (mp_utility_results c1),
      mp_futures := dict_set k (case msg of Some m \<Rightarrow> FException m | None \<Rightarrow> FResult v) (mp_futures c1)\<rparr>"
    by (cases msg) (simp_all add: process_utility_output_def c1 register_call_def)
  show ?thesis
    unfolding c2 a(2) by (auto simp: future_result_def c1 register_call_def process_utility_output_def split: sum.split)
qed

theorem utility_call_returns_witness:
  "\<exists>c1 p2. sync_call_utility 3 ''f'' [] demo_client = (Inr (), c1) \<and>
     handle_client_request (\<lambda>name args e. (Inr (Some name), e)) 1 (UtilityCall 0 3 ''f'' [])
       (demo_proc demo_sched SD_RUNNING []) = Inr p2 \<and>
     future_result 3 (reader_step (c1\<lparr>mp_wire := map Part (pr_output_queue p2)\<rparr>)) = Some (Inr (Some ''f''))"
proof -
  let ?util = "\<lambda>name args e. (Inr (Some name), e)" let ?p = "demo_proc demo_sched SD_RUNNING []"
  obtain c1 where c1: "sync_call_utility 3 ''f'' [] demo_client = (Inr (), c1)"
    by (simp add: sync_call_utility_def send_input_def ensure_alive_def register_call_def demo_client_sel)
  have p: "is_running ?p" "pr_output_queue ?p = []" by (simp_all add: is_running_def demo_proc_def)
  obtain p2 where p2: "handle_client_request ?util 1 (UtilityCall 0 3 ''f'' []) ?p = Inr p2"
    using p(1) by (simp add: handle_client_request_def)
  have "pr_output_queue p2 = pr_output_queue ?p @ pr_output_queue p2" using p(2) by simp
  from utility_call_returns [OF c1 demo_client_sel(4,8) p2 this refl] p c1 p2 show ?thesis by auto
qed

section \<open>What the engines rely on\<close>

text \<open>
  The interface an engine has to its client: an accepted request is one message, a refused one is
  none, and an abort sends at most one.
\<close>

locale engine_client =
  fixes add_request :: "core_request \<Rightarrow> 'c \<Rightarrow> unit res \<times> 'c"
    and abort_requests :: "rid list \<Rightarrow> 'c \<Rightarrow> unit res \<times> 'c"
    and sent :: "'c \<Rightarrow> client_request list"
  assumes add_accepted: "add_request q c = (Inr v, c') \<Longrightarrow> sent c' = sent c @ [AddRequest q]"
    and add_refused: "add_request q c = (Inl e, c') \<Longrightarrow> sent c' = sent c"
    and abort_sent: "abort_requests ids c = (r, c') \<Longrightarrow> sent c' \<in> {sent c, sent c @ [AbortRequest ids]}"
    and abort_refused: "abort_requests ids c = (Inl e, c') \<Longrightarrow> sent c' = sent c"
    and abort_nothing: "abort_requests [] c = (Inr (), c)"
begin

lemma add_sent: "add_request q c = (r, c') \<Longrightarrow> sent c' = sent c @ (if isl r then [] else [AddRequest q])"
  using add_accepted add_refused by (cases r) auto

lemma add_then_abort:
  assumes "add_request q c = (r, c1)" and "abort_requests ids c1 = (r', c2)"
  shows "\<exists>ms. sent c2 = sent c @ ms \<and> set ms \<subseteq> {AddRequest q, AbortRequest ids} \<and> length ms \<le> 2"
  using add_sent [OF assms(1)] abort_sent [OF assms(2)] by (auto split: if_split_asm)

end

interpretation sync_client: engine_client sync_add_request mp_abort_requests mp_sent
  by unfold_locales
    (auto simp: sync_add_request_def mp_abort_requests_def send_input_def ensure_alive_def split: if_split_asm)

interpretation async_client: engine_client async_add_request async_abort_requests mp_sent
  by unfold_locales
    (auto simp: async_add_request_def async_abort_requests_def ensure_output_queue_def send_input_def ensure_alive_def
       split: if_split_asm)

end
