(* ===== verification/Async_Llm.thy ===== *)
theory Async_Llm
  imports Llm_Engine Mp_Client
begin

text \<open>
  \<^verbatim>\<open>vkwr/engine/async_llm.py\<close>: the asynchronous engine, its background task that moves outputs
  from the client into the collectors of the streams, and the generators that consume them.

  A collector is an object that the processor's state of a request and the consumer of its stream
  share. While the request is registered it lies in that state; when the state is dropped
  (finished or aborted) the consumer still holds the collector, which then moves to \<open>al_held\<close>.
  Both are found under the request's internal identifier by \<open>collector_of\<close>. Tasks of one event
  loop switch only where they wait: an operation here runs from one wait to the next, with sending
  on the socket counted as immediate. An operation that raises returns its exception with the
  state it leaves.

  The lemmas show that adding a request is all or nothing, that the processor's two tables stay
  consistent under every interleaving, that a failing background task reaches every consumer, and
  that a shutdown does not.
\<close>

section \<open>State\<close>

text \<open>A running task is between two rounds of its loop, or waits for an output inside one.\<close>

datatype handler_state = NoHandler | HandlerRunning | HandlerWaiting | HandlerDone

record async_llm =
  al_client :: mp_client
  al_input :: input_processor
  al_output :: output_processor
  al_handler :: handler_state
  al_error_flag :: bool
  al_held :: "(rid, collector) dict"

definition al_init :: "(string option \<Rightarrow> rwkv_tokenizer option) \<Rightarrow> bool \<Rightarrow> vkwr_config \<Rightarrow> async_llm res" where
  "al_init tok ready cfg =
     (let tk = (if \<not> mc_skip_tokenizer_init (vc_model cfg) then tok (mc_tokenizer (vc_model cfg)) else None)
      in bindE (make_client True True) (\<lambda>kind.
         bindE (mp_init True ready) (\<lambda>c.
         Inr \<lparr>al_client = c,
              al_input = \<lparr>ip_max_model_len = mc_max_model_len (vc_model cfg),
                          ip_scheduler_config = Some (vc_scheduler cfg), ip_tokenizer = tk\<rparr>,
              al_output = output_processor_init tk, al_handler = NoHandler, al_error_flag = False,
              al_held = []\<rparr>)))"

definition al_is_running :: "async_llm \<Rightarrow> bool" where
  "al_is_running g \<longleftrightarrow> al_handler g = NoHandler \<or> al_handler g \<noteq> HandlerDone"

definition al_errored :: "async_llm \<Rightarrow> bool" where
  "al_errored g \<longleftrightarrow> al_error_flag g \<or> (al_handler g \<noteq> NoHandler \<and> al_handler g = HandlerDone)"

definition check_health :: "async_llm \<Rightarrow> unit res" where
  "check_health g = (if al_errored g then Inl EngineDeadError else Inr ())"

section \<open>Adding a request\<close>

definition run_output_handler :: "async_llm \<Rightarrow> async_llm" where
  "run_output_handler g = (if al_handler g \<noteq> NoHandler then g else g\<lparr>al_handler := HandlerRunning\<rparr>)"

definition core_request_of :: "vreq \<Rightarrow> sampling_params \<Rightarrow> core_request" where
  "core_request_of r sp =
     \<lparr>cr_request_id = request_id r, cr_prompt_token_ids = Some (prompt_token_ids r),
      cr_sampling_params = Some sp, cr_arrival_time = 0, cr_priority = 0, cr_current_wave = 0\<rparr>"

text \<open>The result is the internal identifier, under which the model finds the collector.\<close>

definition al_add_request ::
    "128 word \<Rightarrow> real \<Rightarrow> rid \<Rightarrow> prompt_input \<Rightarrow> sampling_params \<Rightarrow> async_llm
       \<Rightarrow> (rid \<times> sampling_params) res \<times> async_llm" where
  "al_add_request u now i p sp g =
     (if al_errored g then (Inl EngineDeadError, g)
      else
        let q = collector_init (sp_output_kind sp) i
        in case process_input u now (al_input g) i p sp of
             Inl e \<Rightarrow> (Inl e, g)
           | Inr (r, sp') \<Rightarrow>
               (case op_add_request r (Some q) (al_output g) of
                  Inl e \<Rightarrow> (Inl e, g)
                | Inr op \<Rightarrow>
                    (case async_add_request (core_request_of r sp') (al_client g) of
                       (Inl e, c) \<Rightarrow>
                         (case op_remove_request (request_id r) op of
                            Inl e2 \<Rightarrow> (Inl e2, g\<lparr>al_client := c, al_output := op\<rparr>)
                          | Inr op' \<Rightarrow> (Inl e, g\<lparr>al_client := c, al_output := op'\<rparr>))
                     | (Inr v, c) \<Rightarrow>
                         (Inr (request_id r, sp'),
                          run_output_handler (g\<lparr>al_client := c, al_output := op\<rparr>)))))"

section \<open>Aborting\<close>

definition al_resolve :: "rid list \<Rightarrow> output_processor \<Rightarrow> rid list" where
  "al_resolve ids op =
     concat (map (\<lambda>i. case dict_get (op_external_req_ids op) i of
                        Some (j # js) \<Rightarrow> j # js
                      | _ \<Rightarrow> [i]) ids)"

definition hold :: "(rid \<times> collector) list \<Rightarrow> async_llm \<Rightarrow> async_llm" where
  "hold cols g = g\<lparr>al_held := fold (\<lambda>(i, q). dict_set i q) cols (al_held g)\<rparr>"

definition al_abort :: "rid list \<Rightarrow> async_llm \<Rightarrow> unit res \<times> async_llm" where
  "al_abort ids g =
     (let internal = al_resolve ids (al_output g);
          (aborted, cols, op) = op_abort_requests internal (al_output g);
          (r, c) = async_abort_requests internal (al_client g)
      in (r, hold cols (g\<lparr>al_client := c, al_output := op\<rparr>)))"

section \<open>The background task\<close>

text \<open>The state of a finished request goes, its consumer keeps the collector.\<close>

definition al_remove_finished :: "rid \<Rightarrow> async_llm \<Rightarrow> async_llm res" where
  "al_remove_finished i g =
     bindE (op_remove_request i (al_output g)) (\<lambda>op.
     Inr (hold (case Option.bind (dict_get (op_requests (al_output g)) i) st_queue of
                  None \<Rightarrow> [] | Some q \<Rightarrow> [(i, q)]) (g\<lparr>al_output := op\<rparr>)))"

definition handler_fails :: "py_error \<Rightarrow> async_llm \<Rightarrow> async_llm" where
  "handler_fails e g =
     g\<lparr>al_error_flag := True, al_output := propagate_error e (al_output g), al_handler := HandlerDone\<rparr>"

text \<open>
  What a round does with the outputs it got. An exception inside \<^verbatim>\<open>process_outputs\<close> ends the task with
  the processor as it was before the call.
\<close>

definition handle_outputs :: "engine_core_outputs \<Rightarrow> async_llm \<Rightarrow> async_llm" where
  "handle_outputs outs g =
     (if ecos_outputs outs = [] then g
      else case process_outputs (ecos_outputs outs) (al_output g) of
        Inl e \<Rightarrow> handler_fails e g
      | Inr (pr, op) \<Rightarrow>
          (case (if po_reqs_to_abort pr \<noteq> [] then async_abort_requests (po_reqs_to_abort pr) (al_client g)
                 else (Inr (), al_client g)) of
             (Inl e, c1) \<Rightarrow> handler_fails e (g\<lparr>al_client := c1, al_output := op\<rparr>)
           | (Inr v, c1) \<Rightarrow>
               let (ids, op1) = op_get_and_clear_finished_ids op;
                   g1 = g\<lparr>al_client := c1, al_output := op1\<rparr>
               in case foldE (\<lambda>g i. al_remove_finished i g) g1 ids of
                    Inl e \<Rightarrow> handler_fails e g1
                  | Inr g2 \<Rightarrow> g2))"

text \<open>One round of the loop.\<close>

definition handler_round :: "async_llm \<Rightarrow> async_llm" where
  "handler_round g =
     (if al_handler g \<noteq> HandlerRunning \<and> al_handler g \<noteq> HandlerWaiting then g
      else case (if al_handler g = HandlerWaiting then await_queue False (al_client g)
                 else async_get_output False (al_client g)) of
        None \<Rightarrow> g\<lparr>al_client := ensure_output_queue (al_client g), al_handler := HandlerWaiting\<rparr>
      | Some (Inl e, c) \<Rightarrow> handler_fails e (g\<lparr>al_client := c\<rparr>)
      | Some (Inr outs, c) \<Rightarrow> handle_outputs outs (g\<lparr>al_client := c, al_handler := HandlerRunning\<rparr>))"

section \<open>Consuming a stream\<close>

definition collector_of :: "rid \<Rightarrow> async_llm \<Rightarrow> collector option" where
  "collector_of i g =
     (case dict_get (op_requests (al_output g)) i of
        Some st \<Rightarrow> st_queue st
      | None \<Rightarrow> dict_get (al_held g) i)"

definition set_collector :: "rid \<Rightarrow> collector \<Rightarrow> async_llm \<Rightarrow> async_llm" where
  "set_collector i q g =
     (case dict_get (op_requests (al_output g)) i of
        Some st \<Rightarrow> g\<lparr>al_output := (al_output g)\<lparr>op_requests :=
                      dict_set i (st\<lparr>st_queue := Some q\<rparr>) (op_requests (al_output g))\<rparr>\<rparr>
      | None \<Rightarrow> g\<lparr>al_held := dict_set i q (al_held g)\<rparr>)"

fun is_value_error :: "py_error \<Rightarrow> bool" where
  "is_value_error (ValueError m) = True"
| "is_value_error UnicodeDecodeError = True"
| "is_value_error UnicodeEncodeError = True"
| "is_value_error e = False"

datatype gen_result = GWaits | GYields request_output | GRaises py_error

text \<open>
  One round of \<^verbatim>\<open>generate\<close> for the request with internal identifier \<open>i\<close>:
  \<^verbatim>\<open>q.get_nowait() or await q.get()\<close>. \<open>EngineDeadError\<close> and a \<open>ValueError\<close> (the Unicode errors are ones) are passed on, any other
  exception aborts the request and becomes \<open>EngineGenerateError\<close>. The generator goes on after
  an output that is not the last one.
\<close>

definition generate_round :: "rid \<Rightarrow> async_llm \<Rightarrow> gen_result \<times> async_llm" where
  "generate_round i g =
     (case collector_of i g of
        None \<Rightarrow> (GWaits, g)
      | Some q \<Rightarrow>
          (case collector_get_nowait q of
             (Inr (Some out), q') \<Rightarrow> (GYields out, set_collector i q' g)
           | (Inr None, q') \<Rightarrow>
               (case collector_get q' of
                  None \<Rightarrow> (GWaits, g)
                | Some (Inr out, q2) \<Rightarrow> (GYields out, set_collector i q2 g)
                | Some (Inl e, q2) \<Rightarrow> (GRaises e, set_collector i q2 g))
           | (Inl e, q') \<Rightarrow>
               let g' = set_collector i q' g
               in if e = EngineDeadError \<or> is_value_error e then (GRaises e, g')
                  else (case al_abort [col_request_id q] g' of
                          (Inl e2, g2) \<Rightarrow> (GRaises e2, g2)
                        | (Inr v, g2) \<Rightarrow> (GRaises EngineGenerateError, g2))))"

text \<open>A cancelled generator aborts its request.\<close>

definition generate_cancelled :: "rid \<Rightarrow> async_llm \<Rightarrow> async_llm" where
  "generate_cancelled i g =
     (case collector_of i g of None \<Rightarrow> g | Some q \<Rightarrow> snd (al_abort [col_request_id q] g))"

section \<open>Shutdown\<close>

text \<open>The task's cancellation is not an \<^verbatim>\<open>Exception\<close>: neither of its handlers runs.\<close>

definition al_shutdown :: "async_llm \<Rightarrow> async_llm" where
  "al_shutdown g =
     (let g1 = (if al_handler g \<noteq> NoHandler \<and> al_handler g \<noteq> HandlerDone then g\<lparr>al_handler := NoHandler\<rparr> else g)
      in g1\<lparr>al_client := async_shutdown (al_client g1)\<rparr>)"

section \<open>The processor's tables\<close>

text \<open>
  Every registered request is found under its identifier and listed under its external one, and no
  external identifier is kept for nothing.
\<close>

definition registry_ok :: "output_processor \<Rightarrow> bool" where
  "registry_ok p \<longleftrightarrow> dict_ok (op_requests p) \<and> dict_ok (op_external_req_ids p) \<and>
     (\<forall>i st. dict_get (op_requests p) i = Some st \<longrightarrow> request_id (st_request st) = i \<and>
        (\<exists>ids. dict_get (op_external_req_ids p) (st_external_req_id st) = Some ids \<and> i \<in> set ids)) \<and>
     (\<forall>x ids. dict_get (op_external_req_ids p) x = Some ids \<longrightarrow> ids \<noteq> [])"

named_theorems registry

declare map_of_eq_Some_iff [simp del]

lemma registry_listed:
  "registry_ok p \<Longrightarrow> dict_get (op_requests p) i = Some st \<Longrightarrow>
     \<exists>ids. dict_get (op_external_req_ids p) (st_external_req_id st) = Some ids \<and> i \<in> set ids"
  by (simp add: registry_ok_def)

lemma registry_init [registry]: "registry_ok (output_processor_init tk)"
  by (simp add: registry_ok_def output_processor_init_def)

lemma registry_add [registry]:
  assumes "registry_ok p" and "op_add_request r q p = Inr p'"
  shows "registry_ok p'"
proof -
  obtain d where p': "p' = p\<lparr>op_requests := dict_set (request_id r) (req_state_init r q d) (op_requests p),
      op_external_req_ids := dict_set (external_or_own r)
        (dict_get_default (op_external_req_ids p) (external_or_own r) [] @ [request_id r]) (op_external_req_ids p)\<rparr>"
    using assms(2) by (auto simp: op_add_request_def Let_def)
  have "\<exists>ids. dict_get (op_external_req_ids p') (st_external_req_id st) = Some ids \<and> i \<in> set ids"
    if "dict_get (op_requests p) i = Some st" for i st
    using registry_listed [OF assms(1) that] by (auto simp: p' dict_get_default_def)
  then show ?thesis using assms(1)
    by (auto simp: registry_ok_def p' req_state_init_def dict_ok_set split: if_split_asm)
qed

lemma registry_remove:
  assumes "registry_ok p"
  shows "\<exists>p'. op_remove_request i p = Inr p' \<and> registry_ok p' \<and>
    (\<forall>j. dict_get (op_requests p') j = (if j = i then None else dict_get (op_requests p) j))"
proof (cases "dict_get (op_requests p) i")
  case None
  then show ?thesis using assms by (auto simp: op_remove_request_def)
next
  case (Some st)
  then obtain ids where ids: "dict_get (op_external_req_ids p) (st_external_req_id st) = Some ids" "i \<in> set ids"
    using assms by (auto simp: registry_ok_def)
  have keep: "j \<in> set (remove1 i js)" if "j \<in> set js" "j \<noteq> i" for j js using that by simp
  let ?p1 = "p\<lparr>op_requests := dict_del i (op_requests p)\<rparr>"
  let ?ext = "op_external_req_ids p"
  let ?x = "st_external_req_id st"
  let ?p' = "?p1\<lparr>op_external_req_ids := (if remove1 i ids = [] then dict_del ?x ?ext else dict_set ?x (remove1 i ids) ?ext)\<rparr>"
  have "op_remove_request i p = Inr ?p'" using Some ids by (simp add: op_remove_request_def)
  moreover have "registry_ok ?p'"
  proof (cases "remove1 i ids = []")
    case True
    have "st_external_req_id s \<noteq> ?x" if "dict_get (op_requests p) j = Some s" "j \<noteq> i" for j s
    proof
      assume "st_external_req_id s = ?x"
      then have "j \<in> set ids" using registry_listed [OF assms that(1)] ids(1) by auto
      with keep [OF this that(2)] True show False by simp
    qed
    with True assms show ?thesis by (auto simp: registry_ok_def dict_ok_del)
  next
    case False
    with assms ids keep show ?thesis by (auto simp: registry_ok_def dict_ok_set dict_ok_del) (metis option.inject)+
  qed
  ultimately show ?thesis by auto
qed

lemma registry_abort_one [registry]:
  "registry_ok p \<Longrightarrow> abort_one (a, b, p) i = (a', b', p') \<Longrightarrow> registry_ok p'"
  using abort_one_other [of a b p i a' b' p'] by (auto simp: registry_ok_def dict_ok_del)

lemma registry_abort [registry]:
  "registry_ok p \<Longrightarrow> op_abort_requests ids p = (a, b, p') \<Longrightarrow> registry_ok p'"
proof -
  have "registry_ok p \<Longrightarrow> foldl abort_one (a0, b0, p) ids = (a, b, p') \<Longrightarrow> registry_ok p'" for a0 b0
  proof (induction ids arbitrary: a0 b0 p)
    case (Cons i ids)
    obtain a1 b1 p1 where "abort_one (a0, b0, p) i = (a1, b1, p1)" by (cases "abort_one (a0, b0, p) i")
    with Cons.prems registry_abort_one Cons.IH [of p1 a1 b1] show ?case by simp
  qed simp
  then show "registry_ok p \<Longrightarrow> op_abort_requests ids p = (a, b, p') \<Longrightarrow> registry_ok p'"
    by (simp add: op_abort_requests_def)
qed

text \<open>A change of the registered states that keeps their names.\<close>

lemma registry_same_names:
  assumes "registry_ok p" and "dict_ok (op_requests p')" and "op_external_req_ids p' = op_external_req_ids p"
    and "\<And>i st'. dict_get (op_requests p') i = Some st' \<Longrightarrow>
      \<exists>st. dict_get (op_requests p) i = Some st \<and> st_external_req_id st' = st_external_req_id st \<and>
        st_request st' = st_request st"
  shows "registry_ok p'"
  using assms(1-3) by (auto simp: registry_ok_def dest!: assms(4))

lemma get_map_values: "dict_get (map (\<lambda>(i, st). (i, f st)) d) j = map_option f (dict_get d j)"
  by (induction d) auto

lemma propagate_get:
  "dict_get (op_requests (propagate_error e p)) i =
     map_option (\<lambda>st. st\<lparr>st_queue := map_option (collector_put (Failure e)) (st_queue st)\<rparr>)
       (dict_get (op_requests p) i)"
  by (simp add: propagate_error_def get_map_values del: case_prod_conv cong: map_cong)

lemma registry_propagate [registry]: "registry_ok p \<Longrightarrow> registry_ok (propagate_error e p)"
  by (rule registry_same_names [of p])
     (auto simp: propagate_get, simp_all add: registry_ok_def propagate_error_def comp_def case_prod_unfold)

lemma detokenize_names:
  "detokenize eo st = Inr (st', tell) \<Longrightarrow> st_request st' = st_request st \<and> st_external_req_id st' = st_external_req_id st"
  by (auto simp: detokenize_def Let_def split: option.split_asm)

lemma accumulate_names [simp]:
  "st_request (accumulate eo st) = st_request st" "st_external_req_id (accumulate eo st) = st_external_req_id st"
  by (simp_all add: accumulate_def Let_def)

lemma emit_names [simp]:
  "st_request (snd (emit st)) = st_request st" "st_external_req_id (snd (emit st)) = st_external_req_id st"
  by (auto simp: emit_def make_request_output_def Let_def case_prod_unfold split: option.split)

lemma registry_process_one [registry]:
  assumes "registry_ok p" and "process_one (p, acc) eo = Inr (p', acc')"
  shows "registry_ok p'"
proof (cases "dict_get (op_requests p) (eco_request_id eo)")
  case None
  then show ?thesis using assms by (simp add: process_one_def)
next
  case (Some st0)
  then obtain st1 tell where d: "detokenize eo (accumulate eo st0) = Inr (st1, tell)"
    and req: "op_requests p' = dict_set (eco_request_id eo) (snd (emit st1)) (op_requests p)"
    using assms(2) by (auto simp: process_one_def Let_def case_prod_unfold)
  have ext: "op_external_req_ids p' = op_external_req_ids p" by (rule process_one_external [OF assms(2)])
  show ?thesis
    using assms(1) Some detokenize_names [OF d]
    by (intro registry_same_names [OF assms(1) _ ext]) (auto simp: req registry_ok_def split: if_split_asm)
qed

lemma registry_process [registry]:
  assumes "registry_ok p" and "process_outputs eos p = Inr (pr, p')"
  shows "registry_ok p'"
proof -
  have "registry_ok q \<Longrightarrow> foldE process_one (q, acc) eos = Inr (p', pr) \<Longrightarrow> registry_ok p'" for q acc
  proof (induction eos arbitrary: q acc)
    case (Cons eo eos)
    then obtain q1 acc1 where "process_one (q, acc) eo = Inr (q1, acc1)" "foldE process_one (q1, acc1) eos = Inr (p', pr)"
      by auto
    with Cons registry_process_one show ?case by blast
  qed simp
  moreover have "registry_ok (p\<lparr>op_finished_ids := []\<rparr>)" using assms(1) by (simp add: registry_ok_def)
  ultimately show ?thesis using assms(2) by (auto simp: process_outputs_def)
qed

section \<open>Interleavings\<close>

text \<open>
  What happens to an asynchronous engine, one wait to the next: calls of its users, rounds of the
  background task and of the streams, and the client's environment.
\<close>

datatype async_event =
    AddEv "128 word" real rid prompt_input sampling_params
  | AbortEv "rid list"
  | RoundEv
  | ConsumeEv rid
  | CancelEv rid
  | ShutdownEv
  | ArriveEv wire_part
  | ReadEv
  | ExitEv
  | MonitorEv

fun async_do :: "async_event \<Rightarrow> async_llm \<Rightarrow> async_llm" where
  "async_do (AddEv u now i p sp) g = snd (al_add_request u now i p sp g)"
| "async_do (AbortEv ids) g = snd (al_abort ids g)"
| "async_do RoundEv g = handler_round g"
| "async_do (ConsumeEv i) g = snd (generate_round i g)"
| "async_do (CancelEv i) g = generate_cancelled i g"
| "async_do ShutdownEv g = al_shutdown g"
| "async_do (ArriveEv x) g = g\<lparr>al_client := (al_client g)\<lparr>mp_wire := mp_wire (al_client g) @ [x]\<rparr>\<rparr>"
| "async_do ReadEv g = g\<lparr>al_client := reader_step (al_client g)\<rparr>"
| "async_do ExitEv g = g\<lparr>al_client := (al_client g)\<lparr>mp_proc_alive := False\<rparr>\<rparr>"
| "async_do MonitorEv g = g\<lparr>al_client := monitor_fires (al_client g)\<rparr>"

subsection \<open>The tables stay consistent\<close>

lemma hold_output [simp]: "al_output (hold cols g) = al_output g"
  by (simp add: hold_def)

lemma registry_al_abort: "registry_ok (al_output g) \<Longrightarrow> registry_ok (al_output (snd (al_abort ids g)))"
  by (simp add: al_abort_def Let_def case_prod_unfold) (metis prod.collapse registry_abort)

lemma registry_set_collector:
  "registry_ok (al_output g) \<Longrightarrow> registry_ok (al_output (set_collector i q g))"
proof (cases "dict_get (op_requests (al_output g)) i")
  case (Some st)
  assume r: "registry_ok (al_output g)"
  show ?thesis
    by (rule registry_same_names [OF r])
       (use r Some in \<open>auto simp: set_collector_def registry_ok_def split: if_split_asm\<close>)
qed (simp add: set_collector_def)

lemma registry_al_add: "registry_ok (al_output g) \<Longrightarrow> registry_ok (al_output (snd (al_add_request u now i p sp g)))"
proof -
  assume r: "registry_ok (al_output g)"
  show ?thesis
  proof (cases "\<not> al_errored g \<and> \<not> isl (process_input u now (al_input g) i p sp)")
    case True
    then obtain rq sp' where p: "process_input u now (al_input g) i p sp = Inr (rq, sp')"
      by (cases "process_input u now (al_input g) i p sp") auto
    show ?thesis
    proof (cases "op_add_request rq (Some (collector_init (sp_output_kind sp) i)) (al_output g)")
      case (Inr op)
      note op = registry_add [OF r Inr]
      obtain op' where rem: "op_remove_request (request_id rq) op = Inr op'" "registry_ok op'"
        using registry_remove [OF op] by blast
      show ?thesis
        using True p Inr op rem
        by (auto simp: al_add_request_def run_output_handler_def Let_def split: prod.split sum.split)
    qed (use True p r in \<open>simp add: al_add_request_def Let_def\<close>)
  next
    case False
    with r show ?thesis
      by (cases "process_input u now (al_input g) i p sp") (auto simp: al_add_request_def Let_def)
  qed
qed

lemma remove_finished_total:
  "registry_ok (al_output g) \<Longrightarrow>
     \<exists>g'. foldE (\<lambda>g i. al_remove_finished i g) g ids = Inr g' \<and> registry_ok (al_output g')"
proof (induction ids arbitrary: g)
  case (Cons i ids)
  obtain op where op: "op_remove_request i (al_output g) = Inr op" "registry_ok op"
    using registry_remove [OF Cons.prems] by blast
  then obtain g1 where "al_remove_finished i g = Inr g1" "al_output g1 = op"
    by (simp add: al_remove_finished_def)
  with Cons.IH [of g1] op show ?case by simp
qed simp

lemma registry_handle: "registry_ok (al_output g) \<Longrightarrow> registry_ok (al_output (handle_outputs outs g))"
proof -
  assume r: "registry_ok (al_output g)"
  show ?thesis
  proof (cases "ecos_outputs outs = [] \<or> isl (process_outputs (ecos_outputs outs) (al_output g))")
    case True
    then show ?thesis using r registry_propagate
      by (cases "process_outputs (ecos_outputs outs) (al_output g)") (auto simp: handle_outputs_def handler_fails_def)
  next
    case False
    then obtain pr op where run: "process_outputs (ecos_outputs outs) (al_output g) = Inr (pr, op)"
      by (cases "process_outputs (ecos_outputs outs) (al_output g)") auto
    note op = registry_process [OF r run]
    then have op1: "registry_ok (op\<lparr>op_finished_ids := []\<rparr>)" by (simp add: registry_ok_def)
    obtain x c1 where ab: "(if po_reqs_to_abort pr \<noteq> [] then async_abort_requests (po_reqs_to_abort pr) (al_client g)
                 else (Inr (), al_client g)) = (x, c1)" by fastforce
    have "registry_ok (al_output (g\<lparr>al_client := c1, al_output := op\<lparr>op_finished_ids := []\<rparr>\<rparr>))" using op1 by simp
    from remove_finished_total [OF this, of "op_finished_ids op"] show ?thesis
      using False run ab op registry_propagate
      by (cases x) (auto simp: handle_outputs_def op_get_and_clear_finished_ids_def handler_fails_def Let_def)
  qed
qed

lemma registry_round: "registry_ok (al_output g) \<Longrightarrow> registry_ok (al_output (handler_round g))"
  using registry_handle registry_propagate
  by (auto simp: handler_round_def handler_fails_def split: option.split sum.split prod.split)

lemma registry_generate: "registry_ok (al_output g) \<Longrightarrow> registry_ok (al_output (snd (generate_round i g)))"
  by (auto simp: generate_round_def Let_def registry_set_collector split: option.split sum.split prod.split)
     (metis registry_al_abort registry_set_collector snd_conv)+

lemma registry_do: "registry_ok (al_output g) \<Longrightarrow> registry_ok (al_output (async_do ev g))"
  by (cases ev)
     (simp_all add: registry_al_add registry_al_abort registry_round registry_generate generate_cancelled_def
        al_shutdown_def Let_def split: option.split)

lemma registry_run: "registry_ok (al_output g) \<Longrightarrow> registry_ok (al_output (fold async_do evs g))"
  by (induction evs arbitrary: g) (simp_all add: registry_do)

lemma handle_outputs_done:
  assumes "registry_ok (al_output g)" and "al_handler g \<noteq> HandlerDone" and "al_handler (handle_outputs outs g) = HandlerDone"
  shows "\<exists>e op. al_output (handle_outputs outs g) = propagate_error e op \<and> al_error_flag (handle_outputs outs g) \<and>
    (process_outputs (ecos_outputs outs) (al_output g) = Inl e \<and> op = al_output g \<or>
     (\<exists>pr. process_outputs (ecos_outputs outs) (al_output g) = Inr (pr, op)) \<and> engine_gone (al_client g))"
proof (cases "process_outputs (ecos_outputs outs) (al_output g)")
  case (Inl e)
  then show ?thesis using assms(2,3) by (auto simp: handle_outputs_def handler_fails_def split: if_split_asm)
next
  case (Inr z)
  obtain pr op where z: "z = (pr, op)" by fastforce
  obtain x c1 where ab: "(if po_reqs_to_abort pr \<noteq> [] then async_abort_requests (po_reqs_to_abort pr) (al_client g)
               else (Inr (), al_client g)) = (x, c1)" by fastforce
  let ?g1 = "g\<lparr>al_client := c1, al_output := op\<lparr>op_finished_ids := []\<rparr>\<rparr>"
  have "registry_ok (al_output ?g1)" using registry_process [OF assms(1) Inr [unfolded z]] by (simp add: registry_ok_def)
  from remove_finished_total [OF this, of "op_finished_ids op"] obtain g2 where
    g2: "foldE (\<lambda>g i. al_remove_finished i g) ?g1 (op_finished_ids op) = Inr g2" by blast
  have kept: "foldE (\<lambda>g i. al_remove_finished i g) h ids = Inr h' \<Longrightarrow> al_handler h' = al_handler h" for h h' ids
    by (induction ids arbitrary: h) (auto simp: al_remove_finished_def hold_def)
  show ?thesis
  proof (cases x)
    case (Inl e)
    then have "async_abort_requests (po_reqs_to_abort pr) (al_client g) = (Inl e, c1)" using ab by (auto split: if_split_asm)
    then have "engine_gone (al_client g)"
      by (auto simp: async_abort_requests_def ensure_alive_def engine_gone_def split: if_split_asm)
    then show ?thesis using Inl z \<open>process_outputs _ _ = Inr z\<close> ab assms(2,3)
      by (auto simp: handle_outputs_def handler_fails_def split: if_split_asm)
  next
    case (Inr v)
    then have "handle_outputs outs g = (if ecos_outputs outs = [] then g else g2)"
      using z \<open>process_outputs _ _ = Inr z\<close> ab g2 by (simp add: handle_outputs_def op_get_and_clear_finished_ids_def)
    then show ?thesis using assms(2,3) kept [OF g2] by (auto split: if_split_asm)
  qed
qed

text \<open>
  C34: the asynchronous engine's tables never contradict each other. However additions, aborts,
  cancellations, streams, rounds of the background task, messages, the end of the engine's
  process and a shutdown interleave, every registered request stays listed under its external
  identifier, so that removing a finished one never raises; the background task ends in
  handling outputs only where processing them raises or the engine is gone.
\<close>

theorem async_tables_consistent:
  assumes "al_init tok True cfg = Inr g0" and "g = fold async_do evs g0"
  shows "registry_ok (al_output g) \<and> (\<exists>op. op_remove_request i (al_output g) = Inr op) \<and>
    (al_handler g \<noteq> HandlerDone \<and> al_handler (handle_outputs outs g) = HandlerDone \<longrightarrow>
       (\<exists>e. process_outputs (ecos_outputs outs) (al_output g) = Inl e) \<or> engine_gone (al_client g))"
proof -
  have "registry_ok (al_output g0)" using assms(1) by (auto simp: al_init_def registry_init Let_def)
  then have r: "registry_ok (al_output g)" unfolding assms(2) by (rule registry_run)
  then show ?thesis using registry_remove [OF r] handle_outputs_done [OF r] by blast
qed

section \<open>Adding a request is all or nothing\<close>

definition unused :: "rid \<Rightarrow> output_processor \<Rightarrow> bool" where
  "unused j p \<longleftrightarrow> dict_get (op_requests p) j = None \<and>
     (\<forall>x ids. dict_get (op_external_req_ids p) x = Some ids \<longrightarrow> j \<notin> set ids)"

lemma dict_del_set_new: "dict_get d k = None \<Longrightarrow> dict_del k (dict_set k v d) = d"
  by (simp add: dict_set_new delete_conv' dict_get_None_keys) (force simp: AList.delete_eq filter_id_conv)

lemma remove_after_add:
  assumes "registry_ok p" and "unused (request_id r) p" and "op_add_request r q p = Inr p'"
  shows "op_remove_request (request_id r) p' = Inr p"
proof -
  let ?i = "request_id r" and ?x = "external_or_own r" and ?ext = "op_external_req_ids p"
  let ?ids = "dict_get_default ?ext ?x []"
  obtain d where p': "p' = p\<lparr>op_requests := dict_set ?i (req_state_init r q d) (op_requests p),
      op_external_req_ids := dict_set ?x (?ids @ [?i]) ?ext\<rparr>"
    using assms(3) by (auto simp: op_add_request_def Let_def)
  have new: "?i \<notin> set ?ids" "dict_get (op_requests p) ?i = None"
    using assms(2) by (auto simp: unused_def dict_get_default_def split: option.split)
  have ids: "remove1 ?i (?ids @ [?i]) = ?ids" using new(1) by (simp add: remove1_append)
  have undo: "(if ?ids = [] then dict_del ?x (dict_set ?x (?ids @ [?i]) ?ext)
      else dict_set ?x ?ids (dict_set ?x (?ids @ [?i]) ?ext)) = ?ext"
  proof (cases "dict_get ?ext ?x")
    case None
    then show ?thesis by (simp add: dict_get_default_def dict_del_set_new)
  next
    case (Some js)
    then have "js \<noteq> []" using assms(1) by (auto simp: registry_ok_def)
    with Some show ?thesis by (simp add: dict_get_default_def update_triv)
  qed
  have "st_external_req_id (req_state_init r q d) = ?x" by (simp add: req_state_init_def)
  then have "op_remove_request ?i p' = Inr (p\<lparr>op_requests := dict_del ?i (dict_set ?i (req_state_init r q d) (op_requests p)),
      op_external_req_ids := (if ?ids = [] then dict_del ?x (dict_set ?x (?ids @ [?i]) ?ext)
        else dict_set ?x ?ids (dict_set ?x (?ids @ [?i]) ?ext))\<rparr>)"
    using ids by (simp add: op_remove_request_def p' Let_def)
  then show ?thesis unfolding undo dict_del_set_new [OF new(2)] by simp
qed

text \<open>The ways a call of \<^verbatim>\<open>add_request\<close> ends.\<close>

lemma al_add_cases:
  assumes "registry_ok (al_output g)" and "al_add_request u now i p sp g = (r, g')"
    and "\<forall>rq sp'. process_input u now (al_input g) i p sp = Inr (rq, sp') \<longrightarrow> unused (request_id rq) (al_output g)"
  obtains (refused) e where "r = Inl e" "g' = g"
  | (unsent) e q c where "r = Inl e" "g' = g\<lparr>al_client := c\<rparr>" "async_add_request q (al_client g) = (Inl e, c)"
  | (accepted) rq sp' op c where "r = Inr (request_id rq, sp')" "external_or_own rq = i"
      "op_add_request rq (Some (collector_init (sp_output_kind sp) i)) (al_output g) = Inr op"
      "async_add_request (core_request_of rq sp') (al_client g) = (Inr (), c)"
      "g' = run_output_handler (g\<lparr>al_client := c, al_output := op\<rparr>)" "\<not> al_errored g"
proof (cases "al_errored g \<or> isl (process_input u now (al_input g) i p sp)")
  case True
  then have "g' = g" "isl r" using assms(2)
    by (cases "process_input u now (al_input g) i p sp"; auto simp: al_add_request_def Let_def split: if_split_asm)+
  with refused show thesis by (cases r) auto
next
  case up: False
  then obtain rq sp' where inp: "process_input u now (al_input g) i p sp = Inr (rq, sp')"
    by (cases "process_input u now (al_input g) i p sp") auto
  then have ext: "external_or_own rq = i"
    by (auto simp: process_input_def assign_request_id_def new_vreq_def external_or_own_def Let_def
        split: if_split_asm list.split)
  let ?q = "collector_init (sp_output_kind sp) i"
  obtain x c where x: "async_add_request (core_request_of rq sp') (al_client g) = (x, c)" by fastforce
  show thesis
  proof (cases "op_add_request rq (Some ?q) (al_output g)")
    case (Inl e)
    then have "r = Inl e" "g' = g" using up inp assms(2) by (simp_all add: al_add_request_def Let_def)
    with refused show thesis by blast
  next
    case op: (Inr op)
    note run = assms(2) [unfolded al_add_request_def Let_def, unfolded inp sum.case prod.case op x]
    show thesis
    proof (cases x)
      case (Inl e)
      then have "r = Inl e" "g' = g\<lparr>al_client := c\<rparr>"
        using up run remove_after_add [OF assms(1) assms(3) [rule_format, OF inp] op] by simp_all
      with unsent x Inl show thesis by blast
    next
      case (Inr v)
      with up run have "r = Inr (request_id rq, sp')" "g' = run_output_handler (g\<lparr>al_client := c, al_output := op\<rparr>)"
        by simp_all
      with accepted ext op x Inr up show thesis by simp
    qed
  qed
qed

lemma added_is_found:
  assumes "op_add_request rq (Some q) p = Inr op" and "external_or_own rq = i"
  shows "dict_get (op_requests op) (request_id rq) \<noteq> None"
    and "Option.bind (dict_get (op_requests op) (request_id rq)) st_queue = Some q"
    and "request_id rq \<in> set (al_resolve [i] op)"
proof -
  obtain d where op: "op = p\<lparr>op_requests := dict_set (request_id rq) (req_state_init rq (Some q) d) (op_requests p),
      op_external_req_ids := dict_set i (dict_get_default (op_external_req_ids p) i [] @ [request_id rq])
        (op_external_req_ids p)\<rparr>"
    using assms by (auto simp: op_add_request_def Let_def)
  obtain y ys where yys: "dict_get_default (op_external_req_ids p) i [] @ [request_id rq] = y # ys"
    by (cases "dict_get_default (op_external_req_ids p) i []") auto
  then have "request_id rq \<in> set (y # ys)" by (metis in_set_conv_decomp)
  then show "dict_get (op_requests op) (request_id rq) \<noteq> None"
    "Option.bind (dict_get (op_requests op) (request_id rq)) st_queue = Some q"
    "request_id rq \<in> set (al_resolve [i] op)"
    by (simp_all add: op req_state_init_def al_resolve_def yys)
qed

text \<open>
  C35: adding a request is all or nothing. Either the call returns an identifier: then exactly one
  message asks the engine for that request, its state is registered under the external
  identifier with an empty collector, and the background task runs. Or it raises: then nothing
  was sent, the processor's tables are exactly what they were, and the task has not been started.
\<close>

theorem add_all_or_nothing:
  assumes "registry_ok (al_output g)" and "al_add_request u now i p sp g = (r, g')"
    and "\<forall>rq sp'. process_input u now (al_input g) i p sp = Inr (rq, sp') \<longrightarrow> unused (request_id rq) (al_output g)"
  shows "case r of
      Inl e \<Rightarrow> al_output g' = al_output g \<and> mp_sent (al_client g') = mp_sent (al_client g) \<and>
        al_handler g' = al_handler g
    | Inr (j, sp') \<Rightarrow> (\<exists>q. mp_sent (al_client g') = mp_sent (al_client g) @ [AddRequest q] \<and> cr_request_id q = j) \<and>
        collector_of j g' = Some (collector_init (sp_output_kind sp) i) \<and>
        j \<in> set (al_resolve [i] (al_output g')) \<and> al_handler g' \<noteq> NoHandler \<and> \<not> al_errored g'"
  using assms
proof (cases rule: al_add_cases)
  case (refused e)
  then show ?thesis by simp
next
  case (unsent e q c)
  then show ?thesis using async_client.add_refused [OF unsent(3)] by simp
next
  case (accepted rq sp' op c)
  note found = added_is_found [OF accepted(3,2)]
  have out: "al_output g' = op" "al_client g' = c" by (simp_all add: accepted(5) run_output_handler_def)
  have "al_handler g' \<noteq> NoHandler \<and> \<not> al_errored g'"
    using accepted(6) by (auto simp: accepted(5) run_output_handler_def al_errored_def)
  moreover have "mp_sent (al_client g') = mp_sent (al_client g) @ [AddRequest (core_request_of rq sp')]"
    using async_client.add_accepted [OF accepted(4)] by (simp add: out(2))
  ultimately show ?thesis using found
    by (auto simp: accepted(1) core_request_of_def collector_of_def out(1))
qed

section \<open>The end of the background task\<close>

text \<open>Processing outputs unregisters nothing and takes no collector away.\<close>

definition streams_kept :: "output_processor \<Rightarrow> output_processor \<Rightarrow> bool" where
  "streams_kept p p' \<longleftrightarrow> (\<forall>i st. dict_get (op_requests p) i = Some st \<and> st_queue st \<noteq> None \<longrightarrow>
     (\<exists>st'. dict_get (op_requests p') i = Some st' \<and> st_queue st' \<noteq> None))"

lemma emit_keeps_queue: "st_queue st \<noteq> None \<Longrightarrow> st_queue (snd (emit st)) \<noteq> None"
  by (auto simp: emit_def make_request_output_def Let_def case_prod_unfold split: option.split)

lemma streams_kept_one:
  assumes "process_one (p, acc) eo = Inr (p', acc')"
  shows "streams_kept p p'"
proof (cases "dict_get (op_requests p) (eco_request_id eo)")
  case None
  then show ?thesis using assms by (simp add: process_one_def streams_kept_def)
next
  case (Some st0)
  then obtain st1 tell where d: "detokenize eo (accumulate eo st0) = Inr (st1, tell)"
    and req: "op_requests p' = dict_set (eco_request_id eo) (snd (emit st1)) (op_requests p)"
    using assms by (auto simp: process_one_def Let_def case_prod_unfold)
  have "st_queue st1 = st_queue st0" using d by (auto elim!: detokenize_cases simp: accumulate_sel)
  with Some emit_keeps_queue [of st1] show ?thesis by (auto simp: streams_kept_def req)
qed

lemma streams_kept_process:
  assumes "process_outputs eos p = Inr (pr, p')"
  shows "streams_kept p p'"
proof -
  have "foldE process_one (q, acc) eos = Inr (p', pr) \<Longrightarrow> streams_kept q p'" for q acc
  proof (induction eos arbitrary: q acc)
    case (Cons eo eos)
    then obtain q1 acc1 where 1: "process_one (q, acc) eo = Inr (q1, acc1)" "foldE process_one (q1, acc1) eos = Inr (p', pr)"
      by auto
    from streams_kept_one [OF 1(1)] Cons.IH [OF 1(2)] show ?case unfolding streams_kept_def by meson
  qed (simp add: streams_kept_def)
  from this [of "p\<lparr>op_finished_ids := []\<rparr>"] show ?thesis
    using assms by (auto simp: process_outputs_def streams_kept_def)
qed

lemma failed_collector_raises:
  assumes "collector_of i g = Some q" and "col_output q = Some (Failure e)"
  shows "\<exists>x g2. generate_round i g = (GRaises x, g2)"
  using assms by (auto simp: generate_round_def collector_get_nowait_def Let_def split: prod.split sum.split)

text \<open>
  C36: the end of the background task reaches every consumer. When a round of the task ends in an
  exception, whatever it was, every stream that was registered finds it in its collector and its
  generator raises instead of waiting; from then on the engine is unhealthy and refuses every
  request without sending anything.
\<close>

theorem handler_failure_reaches_all:
  assumes "registry_ok (al_output g)" and "al_handler g \<in> {HandlerRunning, HandlerWaiting}"
    and "g' = handler_round g" and "al_handler g' = HandlerDone"
  shows "(dict_get (op_requests (al_output g)) i = Some st \<and> st_queue st \<noteq> None \<longrightarrow>
      (\<exists>x g2. generate_round i g' = (GRaises x, g2))) \<and>
    check_health g' = Inl EngineDeadError \<and> al_add_request u now k p sp g' = (Inl EngineDeadError, g')"
proof -
  let ?get = "if al_handler g = HandlerWaiting then await_queue False (al_client g) else async_get_output False (al_client g)"
  have "\<exists>e op. al_output g' = propagate_error e op \<and> streams_kept (al_output g) op \<and> al_error_flag g'"
  proof (cases ?get)
    case None
    then show ?thesis using assms(2-4) by (auto simp: handler_round_def split: if_split_asm)
  next
    case (Some z)
    obtain y c where z: "z = (y, c)" by fastforce
    show ?thesis
    proof (cases y)
      case (Inl e)
      then have "g' = handler_fails e (g\<lparr>al_client := c\<rparr>)" using assms(2,3) Some z by (auto simp: handler_round_def)
      then show ?thesis by (auto simp: handler_fails_def streams_kept_def)
    next
      case (Inr outs)
      let ?h = "g\<lparr>al_client := c, al_handler := HandlerRunning\<rparr>"
      have g': "g' = handle_outputs outs ?h" using assms(2,3) Some z Inr by (auto simp: handler_round_def)
      from handle_outputs_done [of ?h outs] assms(1,4) obtain e op where
        "al_output g' = propagate_error e op" "al_error_flag g'"
        "op = al_output g \<or> (\<exists>pr. process_outputs (ecos_outputs outs) (al_output g) = Inr (pr, op))"
        unfolding g' by auto
      moreover from this(3) have "streams_kept (al_output g) op"
        using streams_kept_process by (auto simp: streams_kept_def [of "al_output g" "al_output g"])
      ultimately show ?thesis by blast
    qed
  qed
  then obtain e op where f: "al_output g' = propagate_error e op" "streams_kept (al_output g) op" "al_error_flag g'" by blast
  have "\<exists>x g2. generate_round i g' = (GRaises x, g2)"
    if st: "dict_get (op_requests (al_output g)) i = Some st" "st_queue st \<noteq> None"
  proof -
    obtain st' q where st': "dict_get (op_requests op) i = Some st'" "st_queue st' = Some q"
      using f(2) st unfolding streams_kept_def by fastforce
    have "collector_of i g' = Some (collector_put (Failure e) q)"
      by (simp add: collector_of_def f(1) propagate_get st')
    moreover have "col_output (collector_put (Failure e) q) = Some (Failure e)"
      by (auto simp: collector_put_def split: option.split col_item.split)
    ultimately show ?thesis by (rule failed_collector_raises)
  qed
  then show ?thesis using f(3) by (simp add: check_health_def al_errored_def al_add_request_def)
qed

section \<open>Aborting a stream\<close>

text \<open>The collector an aborted request's consumer is left with.\<close>

definition last_words :: "req_state \<Rightarrow> collector \<Rightarrow> collector" where
  "last_words st q =
     collector_put (Output (fst (make_request_output (st\<lparr>st_finished := True, st_finish_reason := Some ''abort''\<rparr>)))) q"

definition left_collectors :: "rid \<Rightarrow> output_processor \<Rightarrow> (rid \<times> collector) list" where
  "left_collectors j p =
     (case dict_get (op_requests p) j of
        None \<Rightarrow> []
      | Some st \<Rightarrow> (case st_queue st of None \<Rightarrow> [] | Some q \<Rightarrow> [(j, last_words st q)]))"

lemma abort_one_left:
  "abort_one (a, b, p) j = (a1, b1, p1) \<Longrightarrow> b1 = b @ left_collectors j p"
  unfolding abort_one_def left_collectors_def last_words_def
  by (auto simp only: Let_def case_prod_unfold prod.inject fst_conv snd_conv append_Nil2 split: option.splits)

lemma left_collectors_own: "(i, q) \<in> set (left_collectors j p) \<Longrightarrow> i = j"
  by (auto simp: left_collectors_def split: option.splits)

lemma abort_absent:
  "dict_get (op_requests p) i = None \<Longrightarrow> foldl abort_one (a, b, p) ids = (a', b', p') \<Longrightarrow>
     (i, q) \<in> set b' \<longleftrightarrow> (i, q) \<in> set b"
proof (induction ids arbitrary: a b p)
  case (Cons j ids)
  obtain a1 b1 p1 where s: "abort_one (a, b, p) j = (a1, b1, p1)" by (cases "abort_one (a, b, p) j")
  have "dict_get (op_requests p1) i = None" using abort_one_other [OF s] Cons.prems(1) by simp
  moreover have "(i, q) \<notin> set (left_collectors j p)"
    using Cons.prems(1) by (auto simp: left_collectors_def split: option.split)
  ultimately show ?case using Cons.IH [of p1 a1 b1] Cons.prems(2) s abort_one_left [OF s] by simp
qed simp

lemma dels_absent: "dict_get d i = None \<Longrightarrow> dict_get (foldl (\<lambda>d i. dict_del i d) d ids) i = None"
  by (induction ids arbitrary: d) auto

lemma abort_collects:
  assumes "dict_get (op_requests p) i = Some st" and "st_queue st = Some q" and "i \<in> set ids"
    and "foldl abort_one (a, b, p) ids = (a', b', p')"
  shows "dict_get (op_requests p') i = None \<and> ((i, q') \<in> set b' \<longleftrightarrow> (i, q') \<in> set b \<or> q' = last_words st q)"
  using assms
proof (induction ids arbitrary: a b p)
  case (Cons j ids)
  obtain a1 b1 p1 where s: "abort_one (a, b, p) j = (a1, b1, p1)" by (cases "abort_one (a, b, p) j")
  note o1 = abort_one_other [OF s] and left = abort_one_left [OF s]
  have rest: "foldl abort_one (a1, b1, p1) ids = (a', b', p')" using Cons.prems(4) s by simp
  show ?case
  proof (cases "j = i")
    case True
    then have gone: "dict_get (op_requests p1) i = None" using o1 by simp
    then have "dict_get (op_requests p') i = None"
      using op_abort_requests_spec [OF rest] dels_absent [OF gone] by simp
    moreover have "left_collectors j p = [(i, last_words st q)]"
      using True Cons.prems(1,2) by (simp add: left_collectors_def)
    ultimately show ?thesis using abort_absent [OF gone rest] left by auto
  next
    case False
    then have "dict_get (op_requests p1) i = Some st" using o1 Cons.prems(1) by simp
    moreover have "i \<in> set ids" using False Cons.prems(3) by simp
    moreover have "(i, q') \<in> set b1 \<longleftrightarrow> (i, q') \<in> set b" using left left_collectors_own [of i q' j p] False by auto
    ultimately show ?thesis using Cons.IH [of p1 a1 b1] Cons.prems(2) rest by simp
  qed
qed simp

lemma fold_set_get:
  "(i, v) \<in> set cols \<Longrightarrow> \<forall>x. (i, x) \<in> set cols \<longrightarrow> x = v \<Longrightarrow>
     dict_get (fold (\<lambda>(i, q). dict_set i q) cols d) i = Some v"
proof (induction cols rule: rev_induct)
  case (snoc c cols)
  obtain k w where c: "c = (k, w)" by fastforce
  show ?case
  proof (cases "k = i")
    case True
    moreover from this have "w = v" using snoc.prems(2) c by simp
    ultimately show ?thesis by (simp add: c)
  next
    case False
    have "(i, v) \<in> set cols" using snoc.prems(1) c False by simp
    moreover have "\<forall>x. (i, x) \<in> set cols \<longrightarrow> x = v" using snoc.prems(2) by simp
    ultimately have "dict_get (fold (\<lambda>(i, q). dict_set i q) cols d) i = Some v" by (rule snoc.IH)
    with False show ?thesis by (simp add: c)
  qed
qed simp

text \<open>
  C37: an abort ends the stream and loses nothing. When a streaming request is aborted under any
  identifier that resolves to it, its generator's next round does not wait: it yields one last
  output, marked finished with reason \<^verbatim>\<open>abort\<close>, whose tokens are those the consumer had not
  fetched yet followed by all that had not been handed out, and the processor forgets the
  request. That the engine can no longer be told does not change this.
\<close>

theorem abort_ends_stream:
  assumes "dict_get (op_requests (al_output g)) i = Some st" and "stream_shape st"
    and "i \<in> set (al_resolve ids (al_output g))" and "al_abort ids g = (r, g')"
  shows "\<exists>out g2. generate_round i g' = (GYields out, g2) \<and> ro_finished out \<and>
    ro_finish_reason out = Some ''abort'' \<and> dict_get (op_requests (al_output g')) i = None \<and>
    delivered_tokens [out] =
      delivered_tokens (waiting_outputs st) @ drop (st_sent_tokens_offset st) (st_token_ids st)"
proof -
  obtain q where q: "st_queue st = Some q" "col_aggregate q" "st_output_kind st = DELTA"
    "case col_output q of None \<Rightarrow> True | Some (Output o1) \<Rightarrow> indices_ok (ro_outputs o1) | _ \<Rightarrow> False"
    using assms(2) by (auto simp: stream_shape_def)
  define fin where "fin = fst (make_request_output (st\<lparr>st_finished := True, st_finish_reason := Some ''abort''\<rparr>))"
  have f: "ro_finished fin" "ro_finish_reason fin = Some ''abort''" "indices_ok (ro_outputs fin)"
    "tokens_at 0 (ro_outputs fin) = drop (st_sent_tokens_offset st) (st_token_ids st)"
    by (simp_all add: fin_def make_request_output_def tokens_at_def indices_ok_def q(3) Let_def case_prod_unfold)
  obtain ab cols op where a: "op_abort_requests (al_resolve ids (al_output g)) (al_output g) = (ab, cols, op)"
    by (cases "op_abort_requests (al_resolve ids (al_output g)) (al_output g)")
  then have run: "foldl abort_one ([], [], al_output g) (al_resolve ids (al_output g)) = (ab, cols, op)"
    by (simp add: op_abort_requests_def)
  have lw: "last_words st q = collector_put (Output fin) q" by (simp add: last_words_def fin_def)
  note c = abort_collects [OF assms(1) q(1) assms(3) run, unfolded lw]
  have g': "al_output g' = op" "al_held g' = fold (\<lambda>(i, q). dict_set i q) cols (al_held g)"
    using arg_cong [OF assms(4), of "\<lambda>z. al_output (snd z)"] arg_cong [OF assms(4), of "\<lambda>z. al_held (snd z)"] a
    by (simp_all add: al_abort_def hold_def Let_def case_prod_unfold)
  have gone: "dict_get (op_requests (al_output g')) i = None" using c g'(1) by simp
  have "collector_of i g' = Some (collector_put (Output fin) q)"
  proof -
    have "dict_get (al_held g') i = Some (collector_put (Output fin) q)"
      unfolding g'(2) by (rule fold_set_get) (simp_all add: c)
    then show ?thesis using gone by (simp add: collector_of_def)
  qed
  moreover obtain out where out: "col_output (collector_put (Output fin) q) = Some (Output out)" "ro_finished out"
    "ro_finish_reason out = Some ''abort''" "delivered_tokens [out] =
      delivered_tokens (waiting_outputs st) @ drop (st_sent_tokens_offset st) (st_token_ids st)"
  proof (cases "col_output q")
    case None
    then show ?thesis using that [of fin] f q(1) by (simp add: collector_put_def waiting_outputs_def delivered_tokens_def)
  next
    case (Some item)
    with q(4) obtain o1 where o1: "item = Output o1" "indices_ok (ro_outputs o1)" by (cases item) auto
    with merge_all_text [OF o1(2), of 0 "ro_outputs fin"] that [of "ro_add o1 fin True"] f q(1,2) Some
    show ?thesis by (simp add: collector_put_def waiting_outputs_def delivered_tokens_def ro_add_def)
  qed
  ultimately show ?thesis using gone by (auto simp: generate_round_def collector_get_nowait_def)
qed

section \<open>What a shutdown leaves behind\<close>

text \<open>The engine's side: nothing of it wakes a stream whose collector is empty.\<close>

fun engine_event :: "rid \<Rightarrow> async_event \<Rightarrow> bool" where
  "engine_event i (ConsumeEv j) = (j = i)"
| "engine_event i (AddEv u now k p sp) = False"
| "engine_event i (AbortEv ids) = False"
| "engine_event i (CancelEv j) = False"
| "engine_event i ev = True"

lemma shutdown_leaves_streams_waiting:
  assumes "dict_get (op_requests (al_output g)) i = Some st" and "st_queue st = Some q" and "col_output q = None"
    and "al_handler g \<in> {HandlerRunning, HandlerWaiting}" and "\<forall>ev \<in> set evs. engine_event i ev"
  shows "fst (generate_round i (fold async_do evs (al_shutdown g))) = GWaits"
proof -
  have waits: "generate_round i h = (GWaits, h)" if "al_output h = al_output g" for h
    using that assms(1-3) by (simp add: generate_round_def collector_of_def collector_get_nowait_def collector_get_def)
  have stay: "al_output (async_do ev h) = al_output g \<and> al_handler (async_do ev h) = NoHandler"
    if "al_output h = al_output g" "al_handler h = NoHandler" "engine_event i ev" for h ev
    using that waits [OF that(1)] by (cases ev) (auto simp: handler_round_def al_shutdown_def Let_def)
  have "al_output (fold async_do evs h) = al_output g"
    if "al_output h = al_output g" "al_handler h = NoHandler" for h
    using that assms(5)
  proof (induction evs arbitrary: h)
    case (Cons ev evs)
    with stay [of h ev] show ?case by simp
  qed simp
  moreover have "al_output (al_shutdown g) = al_output g" "al_handler (al_shutdown g) = NoHandler"
    using assms(4) by (auto simp: al_shutdown_def Let_def)
  ultimately show ?thesis using waits by simp
qed

section \<open>Concrete engines\<close>

definition demo_async :: async_llm where
  "demo_async =
     \<lparr>al_client = projr (mp_init True True), al_input = demo_input_processor,
      al_output = output_processor_init (Some demo_tokenizer), al_handler = NoHandler, al_error_flag = False,
      al_held = []\<rparr>"

definition demo_stream_state :: req_state where
  "demo_stream_state = (req_state_init demo_stream_request (Some (collector_init DELTA ''a-1'')) (demo_detok []))\<lparr>st_token_ids := [1]\<rparr>"

definition demo_streaming :: async_llm where
  "demo_streaming = demo_async\<lparr>al_handler := HandlerRunning,
     al_output := (al_output demo_async)\<lparr>op_requests := [(''a-1'', demo_stream_state)],
       op_external_req_ids := [(''a-1'', [''a-1''])]\<rparr>\<rparr>"

lemma demo_streaming_sel:
  "op_requests (al_output demo_streaming) = [(''a-1'', demo_stream_state)]"
  "op_external_req_ids (al_output demo_streaming) = [(''a-1'', [''a-1''])]"
  "st_external_req_id demo_stream_state = ''a-1''" "request_id (st_request demo_stream_state) = ''a-1''"
  "st_queue demo_stream_state = Some (collector_init DELTA ''a-1'')" "st_output_kind demo_stream_state = DELTA"
  by (simp_all add: demo_streaming_def demo_stream_state_def req_state_init_def external_or_own_def
      demo_stream_request_def new_vreq_def)

lemma demo_streaming_ok: "registry_ok (al_output demo_streaming)"
  by (simp add: registry_ok_def demo_streaming_sel)

theorem async_tables_consistent_witness:
  "\<exists>g0. al_init (\<lambda>_. Some demo_tokenizer) True demo_eager_config = Inr g0 \<and>
     registry_ok (al_output (fold async_do [ExitEv, MonitorEv, ReadEv, RoundEv, AbortEv [''x'']] g0))"
proof -
  obtain g0 where g0: "al_init (\<lambda>_. Some demo_tokenizer) True demo_eager_config = Inr g0"
    by (simp add: al_init_def make_client_def mp_init_def Let_def)
  from async_tables_consistent [OF g0 refl] g0 show ?thesis by blast
qed

theorem add_all_or_nothing_witness:
  "\<exists>j sp' g' q. al_add_request 5 1 ''a'' (PromptTokens [7]) sampling_defaults demo_async = (Inr (j, sp'), g') \<and>
     mp_sent (al_client g') = [AddRequest q] \<and> cr_request_id q = j"
proof -
  let ?run = "al_add_request 5 1 ''a'' (PromptTokens [7]) sampling_defaults demo_async"
  obtain r g' where run: "?run = (r, g')" by fastforce
  have ok: "registry_ok (al_output demo_async)" "\<And>j. unused j (al_output demo_async)" "mp_sent (al_client demo_async) = []"
    using registry_init [of "Some demo_tokenizer"]
    by (simp_all add: demo_async_def unused_def output_processor_init_def mp_init_def)
  have "\<not> isl (fst ?run)" by code_simp
  then obtain j sp' where r: "r = Inr (j, sp')" using run by (cases r) auto
  have "case r of
      Inl e \<Rightarrow> al_output g' = al_output demo_async \<and> mp_sent (al_client g') = mp_sent (al_client demo_async) \<and>
        al_handler g' = al_handler demo_async
    | Inr (j, sp') \<Rightarrow> (\<exists>q. mp_sent (al_client g') = mp_sent (al_client demo_async) @ [AddRequest q] \<and> cr_request_id q = j) \<and>
        collector_of j g' = Some (collector_init (sp_output_kind sampling_defaults) ''a'') \<and>
        j \<in> set (al_resolve [''a''] (al_output g')) \<and> al_handler g' \<noteq> NoHandler \<and> \<not> al_errored g'"
    by (rule add_all_or_nothing [OF ok(1) run]) (simp add: ok(2))
  then show ?thesis unfolding run r using ok(3) by auto
qed

theorem handler_failure_reaches_all_witness:
  "\<exists>x g2. generate_round ''a-1'' (handler_round
     (demo_streaming\<lparr>al_client := (al_client demo_streaming)\<lparr>mp_reader := ReaderDone\<rparr>\<rparr>)) = (GRaises x, g2)"
proof -
  let ?g = "demo_streaming\<lparr>al_client := (al_client demo_streaming)\<lparr>mp_reader := ReaderDone\<rparr>\<rparr>"
  have g: "registry_ok (al_output ?g)" "al_handler ?g \<in> {HandlerRunning, HandlerWaiting}"
    "dict_get (op_requests (al_output ?g)) ''a-1'' = Some demo_stream_state" "st_queue demo_stream_state \<noteq> None"
    using demo_streaming_ok by (simp_all add: demo_streaming_sel) (simp add: demo_streaming_def)
  have "al_handler (handler_round ?g) = HandlerDone"
    using g(2) by (simp add: handler_round_def async_get_output_def ensure_output_queue_def ensure_output_queue_task_def
        handler_fails_def demo_streaming_def)
  from handler_failure_reaches_all [OF g(1,2) refl this, of "''a-1''" demo_stream_state] g(3,4) show ?thesis by blast
qed

theorem abort_ends_stream_witness:
  "\<exists>out g2. generate_round ''a-1'' (snd (al_abort [''a-1''] demo_streaming)) = (GYields out, g2) \<and>
     delivered_tokens [out] = [1]"
proof -
  obtain r g' where run: "al_abort [''a-1''] demo_streaming = (r, g')" by fastforce
  have st: "dict_get (op_requests (al_output demo_streaming)) ''a-1'' = Some demo_stream_state"
    "stream_shape demo_stream_state" "''a-1'' \<in> set (al_resolve [''a-1''] (al_output demo_streaming))"
    by (simp_all add: demo_streaming_sel stream_shape_def collector_init_def al_resolve_def)
  have w: "waiting_outputs demo_stream_state = []" "st_sent_tokens_offset demo_stream_state = 0"
    "st_token_ids demo_stream_state = [1]"
    by (simp_all add: waiting_outputs_def demo_streaming_sel collector_init_def)
       (simp_all add: demo_stream_state_def req_state_init_def)
  from abort_ends_stream [OF st run] obtain out g2 where "generate_round ''a-1'' g' = (GYields out, g2)"
    "delivered_tokens [out] = delivered_tokens (waiting_outputs demo_stream_state) @
       drop (st_sent_tokens_offset demo_stream_state) (st_token_ids demo_stream_state)" by blast
  then show ?thesis by (simp add: run w delivered_tokens_def)
qed

end
