(* ===== verification/Api.thy ===== *)
theory Api
  imports Json Async_Llm
begin

text \<open>
  \<^verbatim>\<open>vkwr/entrypoints/api.py\<close>: the bodies of the HTTP requests, the responses and the event
  streams of the completion and chat endpoints. Validation of a body and the encoding of a
  non-streamed response are the web framework's. A call of \<^verbatim>\<open>generate\<close> is an argument \<open>run\<close>, from
  the prompt, the parameters and the request's identifier to the outputs it yields and the
  exception it ends with, if any (\<open>Async_Llm\<close> models it); the time is an argument too.

  The lemmas show that a client that splits the stream at blank lines and parses the events gets
  back exactly what was streamed, and what the streamed token count says.
\<close>

section \<open>Requests\<close>

record completion_request =
  crq_model :: unicode_text
  crq_prompt :: prompt_input
  crq_temperature :: real
  crq_top_p :: real
  crq_top_k :: int
  crq_min_p :: real
  crq_max_tokens :: "int option"
  crq_stop :: "unicode_text list option"
  crq_stop_token_ids :: "token list option"
  crq_stream :: bool
  crq_seed :: "int option"

record chat_message =
  cm_role :: unicode_text
  cm_content :: unicode_text

record chat_completion_request =
  ccr_model :: unicode_text
  ccr_messages :: "chat_message list"
  ccr_temperature :: real
  ccr_top_p :: real
  ccr_top_k :: int
  ccr_min_p :: real
  ccr_max_tokens :: "int option"
  ccr_stop :: "unicode_text list option"
  ccr_stop_token_ids :: "token list option"
  ccr_stream :: bool
  ccr_seed :: "int option"

definition make_sampling_params ::
    "real \<Rightarrow> real \<Rightarrow> int \<Rightarrow> real \<Rightarrow> int option \<Rightarrow> unicode_text list option \<Rightarrow> token list option \<Rightarrow> int option \<Rightarrow> bool
       \<Rightarrow> sampling_params res" where
  "make_sampling_params temperature top_p top_k min_p max_tokens stop stop_token_ids seed stream =
     sampling_post_init (sampling_defaults\<lparr>sp_temperature := temperature, sp_top_p := top_p, sp_top_k := top_k,
       sp_min_p := min_p, sp_max_tokens := max_tokens,
       sp_stop := (case stop of None \<Rightarrow> StopNone | Some ss \<Rightarrow> StopList ss),
       sp_stop_token_ids := stop_token_ids, sp_seed := seed,
       sp_output_kind := (if stream then DELTA else FINAL_ONLY)\<rparr>)"

section \<open>Responses\<close>

definition json_opt :: "string option \<Rightarrow> json" where
  "json_opt x = (case x of None \<Rightarrow> JNull | Some s \<Rightarrow> JStr (ascii s))"

definition json_usage :: "nat \<Rightarrow> nat \<Rightarrow> json" where
  "json_usage prompt_tokens completion_tokens =
     JObj [(ascii ''prompt_tokens'', JInt (int prompt_tokens)),
           (ascii ''completion_tokens'', JInt (int completion_tokens)),
           (ascii ''total_tokens'', JInt (int (prompt_tokens + completion_tokens)))]"

definition make_completion_response ::
    "rid \<Rightarrow> unicode_text \<Rightarrow> string option \<Rightarrow> unicode_text \<Rightarrow> nat \<Rightarrow> nat \<Rightarrow> int \<Rightarrow> json" where
  "make_completion_response i text finish_reason model prompt_tokens completion_tokens created =
     JObj [(ascii ''id'', JStr (ascii (''cmpl-'' @ i))), (ascii ''object'', JStr (ascii ''text_completion'')),
           (ascii ''created'', JInt created), (ascii ''model'', JStr model),
           (ascii ''choices'', JList [JObj [(ascii ''index'', JInt 0), (ascii ''text'', JStr text),
              (ascii ''logprobs'', JNull), (ascii ''finish_reason'', json_opt finish_reason)]]),
           (ascii ''usage'', json_usage prompt_tokens completion_tokens)]"

definition make_chat_completion_response ::
    "rid \<Rightarrow> unicode_text \<Rightarrow> string option \<Rightarrow> unicode_text \<Rightarrow> nat \<Rightarrow> nat \<Rightarrow> int \<Rightarrow> json" where
  "make_chat_completion_response i text finish_reason model prompt_tokens completion_tokens created =
     JObj [(ascii ''id'', JStr (ascii (''chatcmpl-'' @ i))), (ascii ''object'', JStr (ascii ''chat.completion'')),
           (ascii ''created'', JInt created), (ascii ''model'', JStr model),
           (ascii ''choices'', JList [JObj [(ascii ''index'', JInt 0),
              (ascii ''message'', JObj [(ascii ''role'', JStr (ascii ''assistant'')), (ascii ''content'', JStr text)]),
              (ascii ''logprobs'', JNull), (ascii ''finish_reason'', json_opt finish_reason)]]),
           (ascii ''usage'', json_usage prompt_tokens completion_tokens)]"

section \<open>Chunks of a stream\<close>

definition sse :: "json \<Rightarrow> nat list" where
  "sse j = ascii ''data: '' @ json_dumps j @ [10, 10]"

definition sse_done :: "nat list" where
  "sse_done = ascii ''data: [DONE]'' @ [10, 10]"

definition completion_chunk :: "rid \<Rightarrow> unicode_text \<Rightarrow> string option \<Rightarrow> unicode_text \<Rightarrow> int \<Rightarrow> json" where
  "completion_chunk i text finish_reason model created =
     JObj [(ascii ''id'', JStr (ascii (''cmpl-'' @ i))), (ascii ''object'', JStr (ascii ''text_completion'')),
           (ascii ''created'', JInt created), (ascii ''model'', JStr model),
           (ascii ''choices'', JList [JObj [(ascii ''index'', JInt 0), (ascii ''text'', JStr text),
              (ascii ''logprobs'', JNull), (ascii ''finish_reason'', json_opt finish_reason)]])]"

definition make_completion_chunk :: "rid \<Rightarrow> unicode_text \<Rightarrow> string option \<Rightarrow> unicode_text \<Rightarrow> int \<Rightarrow> nat list" where
  "make_completion_chunk i text finish_reason model created = sse (completion_chunk i text finish_reason model created)"

definition chat_completion_chunk ::
    "rid \<Rightarrow> unicode_text \<Rightarrow> string option \<Rightarrow> unicode_text \<Rightarrow> int \<Rightarrow> bool \<Rightarrow> json option \<Rightarrow> json" where
  "chat_completion_chunk i text finish_reason model created is_first usage =
     JObj ([(ascii ''id'', JStr (ascii (''chatcmpl-'' @ i))), (ascii ''object'', JStr (ascii ''chat.completion.chunk'')),
           (ascii ''created'', JInt created), (ascii ''model'', JStr model),
           (ascii ''choices'', JList [JObj [(ascii ''index'', JInt 0),
              (ascii ''delta'', JObj [(ascii ''role'', if is_first then JStr (ascii ''assistant'') else JNull),
                 (ascii ''content'', JStr text)]),
              (ascii ''finish_reason'', json_opt finish_reason)]])] @
          (case usage of None \<Rightarrow> [] | Some u \<Rightarrow> [(ascii ''usage'', u)]))"

definition make_chat_completion_chunk ::
    "rid \<Rightarrow> unicode_text \<Rightarrow> string option \<Rightarrow> unicode_text \<Rightarrow> int \<Rightarrow> bool \<Rightarrow> json option \<Rightarrow> nat list" where
  "make_chat_completion_chunk i text finish_reason model created is_first usage =
     sse (chat_completion_chunk i text finish_reason model created is_first usage)"

section \<open>Streams\<close>

text \<open>The outputs a generator yields and the exception it ends with.\<close>

type_synonym gen_trace = "request_output list \<times> py_error option"

definition out_text :: "request_output \<Rightarrow> unicode_text" where
  "out_text out = (case ro_outputs out of [] \<Rightarrow> [] | c # cs \<Rightarrow> co_text c)"

definition out_tokens :: "request_output \<Rightarrow> nat" where
  "out_tokens out = (case ro_outputs out of [] \<Rightarrow> 0 | c # cs \<Rightarrow> length (co_token_ids c))"

definition completion_usage_chunk :: "rid \<Rightarrow> request_output \<Rightarrow> json" where
  "completion_usage_chunk i out =
     JObj [(ascii ''id'', JStr (ascii (''cmpl-'' @ i))), (ascii ''object'', JStr (ascii ''text_completion'')),
           (ascii ''usage'', json_usage (length (ro_prompt_token_ids out)) (out_tokens out))]"

text \<open>What is sent, and the exception that breaks the response off.\<close>

definition stream_completion :: "rid \<Rightarrow> unicode_text \<Rightarrow> int \<Rightarrow> gen_trace \<Rightarrow> nat list list \<times> py_error option" where
  "stream_completion i model created tr =
     (let (outs, err) = tr;
          sent = map (\<lambda>out. make_completion_chunk i (out_text out) (ro_finish_reason out) model created) outs
      in case err of
           Some e \<Rightarrow>
             if e = EngineDeadError \<or> e = EngineGenerateError
             then (sent @ [make_completion_chunk i [] (Some ''error'') model created], None)
             else (sent, Some e)
         | None \<Rightarrow>
             (sent @ (if outs = [] then [] else [sse (completion_usage_chunk i (last outs))]) @ [sse_done], None))"

definition stream_chat_completion :: "rid \<Rightarrow> unicode_text \<Rightarrow> int \<Rightarrow> gen_trace \<Rightarrow> nat list list \<times> py_error option" where
  "stream_chat_completion i model created tr =
     (let (outs, err) = tr;
          sent = make_chat_completion_chunk i [] None model created True None #
            map (\<lambda>out. make_chat_completion_chunk i (out_text out) (ro_finish_reason out) model created False None) outs
      in case err of
           Some e \<Rightarrow>
             if e = EngineDeadError \<or> e = EngineGenerateError
             then (sent @ [make_chat_completion_chunk i [] (Some ''error'') model created False None], None)
             else (sent, Some e)
         | None \<Rightarrow>
             (sent @ (if outs = [] then []
                      else [make_chat_completion_chunk i [] None model created False
                              (Some (json_usage (length (ro_prompt_token_ids (last outs))) (out_tokens (last outs))))]) @
              [sse_done], None))"

definition collect_completion :: "gen_trace \<Rightarrow> request_output option res" where
  "collect_completion tr =
     (case snd tr of
        Some e \<Rightarrow> Inl e
      | None \<Rightarrow> Inr (if fst tr = [] then None else Some (last (fst tr))))"

section \<open>Endpoints\<close>

datatype http_result = HttpJson json | HttpStream "nat list list" "py_error option"

definition list_models :: "unicode_text \<Rightarrow> http_result" where
  "list_models model =
     HttpJson (JObj [(ascii ''data'', JList [JObj [(ascii ''id'', JStr model), (ascii ''object'', JStr (ascii ''model''))]])])"

text \<open>How the collected output becomes a response; \<open>str\<close> of the generation error is empty.\<close>

definition respond :: "(request_output \<Rightarrow> json) \<Rightarrow> gen_trace \<Rightarrow> http_result res" where
  "respond f tr =
     (case collect_completion tr of
        Inl e \<Rightarrow>
          if e = EngineDeadError then Inl (HTTPException 503 ''Engine is down'')
          else if e = EngineGenerateError then Inl (HTTPException 500 [])
          else Inl e
      | Inr None \<Rightarrow> Inl (HTTPException 500 ''No output generated'')
      | Inr (Some out) \<Rightarrow> Inr (HttpJson (f out)))"

definition completions ::
    "128 word \<Rightarrow> int \<Rightarrow> (prompt_input \<Rightarrow> sampling_params \<Rightarrow> rid \<Rightarrow> gen_trace) \<Rightarrow> completion_request \<Rightarrow> http_result res" where
  "completions u created run req =
     bindE (make_sampling_params (crq_temperature req) (crq_top_p req) (crq_top_k req) (crq_min_p req)
              (crq_max_tokens req) (crq_stop req) (crq_stop_token_ids req) (crq_seed req) (crq_stream req)) (\<lambda>sp.
     if crq_stream req then
       let i = generate_request_id u ''stream''
       in Inr (case stream_completion i (crq_model req) created (run (crq_prompt req) sp i) of
                 (chunks, err) \<Rightarrow> HttpStream chunks err)
     else
       respond (\<lambda>out. make_completion_response (ro_request_id out) (out_text out) (ro_finish_reason out) (crq_model req)
                  (length (ro_prompt_token_ids out)) (out_tokens out) created)
         (run (crq_prompt req) sp (generate_request_id u ''req'')))"

definition chat_prompt :: "chat_message list \<Rightarrow> prompt_input" where
  "chat_prompt ms =
     PromptText (apply_chat_template (map (\<lambda>m. (Some (cm_role m), Some (cm_content m))) ms) None True False)"

definition chat_completions ::
    "128 word \<Rightarrow> int \<Rightarrow> (prompt_input \<Rightarrow> sampling_params \<Rightarrow> rid \<Rightarrow> gen_trace) \<Rightarrow> chat_completion_request
       \<Rightarrow> http_result res" where
  "chat_completions u created run req =
     (if ccr_messages req = [] then Inl (HTTPException 400 ''messages cannot be empty'')
      else
        let p = chat_prompt (ccr_messages req);
            stop = (case ccr_stop req of None \<Rightarrow> get_default_stop_tokens None | Some ss \<Rightarrow> ss)
        in bindE (make_sampling_params (ccr_temperature req) (ccr_top_p req) (ccr_top_k req) (ccr_min_p req)
                    (ccr_max_tokens req) (Some stop) (ccr_stop_token_ids req) (ccr_seed req) (ccr_stream req)) (\<lambda>sp.
           if ccr_stream req then
             let i = generate_request_id u ''stream-chat''
             in Inr (case stream_chat_completion i (ccr_model req) created (run p sp i) of
                       (chunks, err) \<Rightarrow> HttpStream chunks err)
           else
             respond (\<lambda>out. make_chat_completion_response (ro_request_id out) (out_text out) (ro_finish_reason out)
                        (ccr_model req) (length (ro_prompt_token_ids out)) (out_tokens out) created)
               (run p sp (generate_request_id u ''req''))))"

section \<open>The client's side\<close>

text \<open>A client cuts the stream at blank lines and parses what follows \<^verbatim>\<open>data: \<close>.\<close>

fun events_of :: "nat list \<Rightarrow> nat list \<Rightarrow> nat list list" where
  "events_of cur [] = []"
| "events_of cur (c # s) =
     (if c = 10 \<and> take 1 s = [10] then cur # events_of [] (drop 1 s) else events_of (cur @ [c]) s)"

datatype sse_event = Chunk json | Done | Unreadable

definition read_event :: "nat list \<Rightarrow> sse_event" where
  "read_event e =
     (if e = ascii ''data: [DONE]'' then Done
      else if take 6 e \<noteq> ascii ''data: '' then Unreadable
      else case json_loads (drop 6 e) of None \<Rightarrow> Unreadable | Some j \<Rightarrow> Chunk j)"

definition read_stream :: "nat list list \<Rightarrow> sse_event list" where
  "read_stream chunks = map read_event (events_of [] (concat chunks))"

primrec json_field_of :: "unicode_text \<Rightarrow> json \<Rightarrow> json" where
  "json_field_of k JNull = JNull"
| "json_field_of k (JBool b) = JNull"
| "json_field_of k (JInt n) = JNull"
| "json_field_of k (JStr t) = JNull"
| "json_field_of k (JList xs) = JNull"
| "json_field_of k (JObj fs) = (case map_of fs k of None \<Rightarrow> JNull | Some j \<Rightarrow> j)"

definition event_text :: "sse_event \<Rightarrow> unicode_text" where
  "event_text e =
     (case e of
        Chunk j \<Rightarrow>
          (case json_field_of (ascii ''choices'') j of
             JList (c # cs) \<Rightarrow> (case json_field_of (ascii ''text'') c of JStr t \<Rightarrow> t | _ \<Rightarrow> [])
           | _ \<Rightarrow> [])
      | _ \<Rightarrow> [])"

lemma printable_no_break: "printable s \<Longrightarrow> 10 \<notin> set s"
  by (auto simp: printable_def)

lemma events_of_cut: "10 \<notin> set s \<Longrightarrow> events_of cur (s @ 10 # 10 # rest) = (cur @ s) # events_of [] rest"
  by (induction s arbitrary: cur) auto

lemma events_of_sse: "events_of [] (sse j @ rest) = (ascii ''data: '' @ json_dumps j) # events_of [] rest"
proof -
  have "10 \<notin> set (ascii ''data: '' @ json_dumps j)" using printable_no_break [OF printable_dumps] by auto
  from events_of_cut [OF this, of "[]" rest] show ?thesis by (simp add: sse_def)
qed

lemma events_of_done: "events_of [] (sse_done @ rest) = ascii ''data: [DONE]'' # events_of [] rest"
proof -
  have "10 \<notin> set (ascii ''data: [DONE]'')" by simp
  from events_of_cut [OF this, of "[]" rest] show ?thesis by (simp add: sse_done_def)
qed

lemma read_event_sse: "json_ok (JObj fs) \<Longrightarrow> read_event (ascii ''data: '' @ json_dumps (JObj fs)) = Chunk (JObj fs)"
  using json_loads_dumps [of "JObj fs"] by (simp add: read_event_def)

lemma read_stream_Nil [simp]: "read_stream [] = []"
  by (simp add: read_stream_def)

lemma read_stream_sse: "json_ok (JObj fs) \<Longrightarrow> read_stream (sse (JObj fs) # cs) = Chunk (JObj fs) # read_stream cs"
  by (simp only: read_stream_def concat.simps events_of_sse list.map(2) [of read_event] read_event_sse)

lemma read_stream_done: "read_stream (sse_done # cs) = Done # read_stream cs"
proof -
  have "read_event (ascii ''data: [DONE]'') = Done" by (simp add: read_event_def)
  then show ?thesis by (simp only: read_stream_def concat.simps events_of_done list.map(2) [of read_event])
qed

section \<open>What a client reads\<close>

definition error_events :: "rid \<Rightarrow> unicode_text \<Rightarrow> int \<Rightarrow> py_error \<Rightarrow> sse_event list" where
  "error_events i model created e =
     (if e = EngineDeadError \<or> e = EngineGenerateError
      then [Chunk (completion_chunk i [] (Some ''error'') model created)] else [])"

lemma scalar_of_char [simp]: "scalar (of_char c)"
proof -
  have "of_char c mod 256 = (of_char c :: nat)" by (rule of_char_mod_256)
  then have "of_char c < (256 :: nat)" by (metis mod_less_divisor zero_less_numeral)
  then have "of_char c < (0xD800 :: nat)" by linarith
  then show ?thesis unfolding scalar_def surrogate_def by linarith
qed

lemma scalar_ascii [simp]: "list_all scalar (ascii s)"
  by (simp add: list_all_iff)

lemma json_ok_opt [simp]: "json_ok (json_opt x)"
  by (cases x) (simp_all add: json_opt_def del: list.map)

lemma completion_chunk_obj: "\<exists>fs. completion_chunk i t r model created = JObj fs"
  by (simp add: completion_chunk_def)

lemma json_ok_chunk: "list_all scalar t \<Longrightarrow> list_all scalar model \<Longrightarrow> json_ok (completion_chunk i t r model created)"
  using scalar_of_char by (simp add: completion_chunk_def list_all_iff ball_Un scalar_def surrogate_def)

lemma json_ok_usage_chunk: "json_ok (completion_usage_chunk i out)"
  using scalar_of_char by (simp add: completion_usage_chunk_def json_usage_def list_all_iff ball_Un scalar_def surrogate_def)

lemma read_completion_chunk:
  assumes "list_all scalar t" and "list_all scalar model"
  shows "read_stream (make_completion_chunk i t r model created # cs) =
    Chunk (completion_chunk i t r model created) # read_stream cs"
  using read_stream_sse json_ok_chunk [OF assms] completion_chunk_obj by (metis make_completion_chunk_def)

lemma read_usage_chunk:
  "read_stream (sse (completion_usage_chunk i out) # cs) = Chunk (completion_usage_chunk i out) # read_stream cs"
  using read_stream_sse json_ok_usage_chunk completion_usage_chunk_def by metis

lemma read_completion_chunks:
  assumes "\<forall>out \<in> set outs. list_all scalar (out_text out)" and "list_all scalar model"
  shows "read_stream (map (\<lambda>out. make_completion_chunk i (out_text out) (ro_finish_reason out) model created) outs @ cs) =
    map (\<lambda>out. Chunk (completion_chunk i (out_text out) (ro_finish_reason out) model created)) outs @ read_stream cs"
  using assms by (induction outs) (simp_all add: read_completion_chunk)

lemma event_text_chunk [simp]: "event_text (Chunk (completion_chunk i t r model created)) = t"
  by (simp add: event_text_def completion_chunk_def)

lemma event_text_usage [simp]: "event_text (Chunk (completion_usage_chunk i out)) = []" "event_text Done = []"
  by (simp_all add: event_text_def completion_usage_chunk_def)

lemma read_completion_stream:
  assumes "list_all scalar model" and "\<forall>out \<in> set outs. list_all scalar (out_text out)"
  shows "read_stream (fst (stream_completion i model created (outs, err))) =
    map (\<lambda>out. Chunk (completion_chunk i (out_text out) (ro_finish_reason out) model created)) outs @
    (case err of
       None \<Rightarrow> (if outs = [] then [] else [Chunk (completion_usage_chunk i (last outs))]) @ [Done]
     | Some e \<Rightarrow> error_events i model created e)"
proof (cases err)
  case None
  have "read_stream ((if outs = [] then [] else [sse (completion_usage_chunk i (last outs))]) @ [sse_done]) =
      (if outs = [] then [] else [Chunk (completion_usage_chunk i (last outs))]) @ [Done]"
    using read_usage_chunk read_stream_done by simp
  then show ?thesis
    using None by (simp only: stream_completion_def Let_def prod.case option.case fst_conv read_completion_chunks [OF assms(2,1)])
next
  case (Some e)
  have "read_stream [make_completion_chunk i [] (Some ''error'') model created] =
      [Chunk (completion_chunk i [] (Some ''error'') model created)]"
    using read_completion_chunk [of "[]" model] assms(1) by simp
  then show ?thesis
    using Some read_completion_chunks [OF assms(2,1), of i created "[]"]
    by (auto simp: stream_completion_def error_events_def read_completion_chunks [OF assms(2,1)])
qed

lemma stream_texts:
  assumes "list_all scalar model" and "\<forall>out \<in> set outs. list_all scalar (out_text out)"
  shows "concat (map event_text (read_stream (fst (stream_completion i model created (outs, err))))) =
    concat (map out_text outs)"
proof -
  have "map event_text (map (\<lambda>out. Chunk (completion_chunk i (out_text out) (ro_finish_reason out) model created)) outs) =
      map out_text outs" by simp
  moreover have "concat (map event_text (case err of
       None \<Rightarrow> (if outs = [] then [] else [Chunk (completion_usage_chunk i (last outs))]) @ [Done]
     | Some e \<Rightarrow> error_events i model created e)) = []" by (simp add: error_events_def split: option.split)
  ultimately show ?thesis by (simp only: read_completion_stream [OF assms] map_append concat_append append_Nil2)
qed

text \<open>
  C38: a client of the streaming endpoint that cuts the stream at blank lines and parses the events
  gets one chunk per output with that output's text, then the usage and the end mark; or, when the
  engine fails, one chunk with finish reason \<^verbatim>\<open>error\<close> and no end mark. The texts of its events
  joined are the texts of the outputs joined, whatever they contain, quotes, line breaks and
  characters outside the basic plane included.
\<close>

theorem sse_stream_reads_back:
  assumes "list_all scalar model" and "\<forall>out \<in> set outs. list_all scalar (out_text out)"
    and "wire = fst (stream_completion i model created (outs, err))"
  shows "read_stream wire =
      map (\<lambda>out. Chunk (completion_chunk i (out_text out) (ro_finish_reason out) model created)) outs @
      (case err of
         None \<Rightarrow> (if outs = [] then [] else [Chunk (completion_usage_chunk i (last outs))]) @ [Done]
       | Some e \<Rightarrow> error_events i model created e) \<and>
    concat (map event_text (read_stream wire)) = concat (map out_text outs)"
  unfolding assms(3) using stream_texts [OF assms(1,2)] read_completion_stream [OF assms(1,2)] by blast

theorem sse_stream_reads_back_witness:
  "concat (map event_text (read_stream (fst (stream_completion ''stream-7'' [109] 1700000000
     ([demo_delta [34, 10] [5] False, demo_delta [0x1F600] [6] True], None))))) = [34, 10, 0x1F600]"
proof -
  let ?outs = "[demo_delta [34, 10] [5] False, demo_delta [0x1F600] [6] True]"
  have h: "list_all scalar [109]" "\<forall>out \<in> set ?outs. list_all scalar (out_text out)"
    by (simp_all add: scalar_def surrogate_def out_text_def demo_delta_def)
  from conjunct2 [OF sse_stream_reads_back [OF h refl]] show ?thesis by (simp add: out_text_def demo_delta_def)
qed

lemma out_text_single: "single_output out \<Longrightarrow> out_text out = text_at 0 (ro_outputs out)"
  by (auto simp: single_output_def out_text_def text_at_def)

lemma single_texts: "list_all single_output outs \<Longrightarrow> concat (map out_text outs) = delivered_text outs"
  by (induction outs) (auto simp: out_text_single delivered_text_def)


text \<open>
  The usage of a streamed completion counts the tokens of the last output only, so it is right
  exactly when no earlier output carried a token.
\<close>

lemma usage_counts_last:
  assumes "list_all single_output outs" and "outs \<noteq> []"
  shows "json_field_of (ascii ''completion_tokens'')
      (json_field_of (ascii ''usage'') (completion_usage_chunk i (last outs))) = JInt (int (length (delivered_tokens outs))) \<longleftrightarrow>
    delivered_tokens (butlast outs) = []"
proof -
  have "list_all single_output (butlast outs @ [last outs])" using assms by simp
  then have s: "single_output (last outs)" unfolding list_all_append by simp
  have "length (delivered_tokens outs) = length (delivered_tokens (butlast outs)) + length (tokens_at 0 (ro_outputs (last outs)))"
    by (subst append_butlast_last_id [OF assms(2), symmetric], subst delivered_append(1)) (simp add: delivered_tokens_def)
  moreover have "out_tokens (last outs) = length (tokens_at 0 (ro_outputs (last outs)))"
    using s by (auto simp: single_output_def out_tokens_def tokens_at_def)
  moreover have "json_field_of (ascii ''completion_tokens'')
      (json_field_of (ascii ''usage'') (completion_usage_chunk i (last outs))) = JInt (int (out_tokens (last outs)))"
    by (simp add: completion_usage_chunk_def json_usage_def)
  ultimately show ?thesis by simp
qed

lemma demo_finishing_update:
  "detok_decode [1, 3] True (demo_detok []) = Inr (1, (demo_detok [])
     \<lparr>dt_output_text := [97], dt_output_token_count := 2, dt_last_new_text := [97]\<rparr>)"
  by (simp add: detok_decode_def decode_token_def try_decode_buffer_prefix demo_detok_def demo_token_bytes utf8_prefix_eval)


end
