(* ===== verification/Path_Selector.thy ===== *)
theory Path_Selector
  imports Engine_Config
begin

text \<open>
  \<^verbatim>\<open>vkwr/model_executor/layers/path_dispatcher_config.py\<close> and
  \<^verbatim>\<open>path_dispatcher_config_varlen.py\<close>: which kernels a batch runs on. The two files declare the
  same constants; the definitions here serve both, and only \<open>select\<close> differs. The lemmas show
  that the two selectors agree on dense channel mixing and where the sparse kernels are used.
\<close>

record path_config =
  path_rows :: int
  path_use_batched_rkv :: bool
  path_cmix_mode :: string

definition CMIX_DENSE :: string where "CMIX_DENSE = ''dense''"
definition CMIX_B1T1_SPARSE :: string where "CMIX_B1T1_SPARSE = ''b1t1_sparse''"
definition CMIX_ROWS2_SPARSE :: string where "CMIX_ROWS2_SPARSE = ''rows2_sparse''"
definition CMIX_B1T1_NOFC :: string where "CMIX_B1T1_NOFC = ''b1t1_nofc''"
definition CMIX_ROWS2_NOFC :: string where "CMIX_ROWS2_NOFC = ''rows2_nofc''"

record cmix_thresholds =
  nofc_max_rows :: int
  nofc_row20_max_t :: int
  nofc_t512_min_rows :: int

definition cmix_thresholds_defaults :: cmix_thresholds where
  "cmix_thresholds_defaults =
     \<lparr>nofc_max_rows = 19, nofc_row20_max_t = 5, nofc_t512_min_rows = 8\<rparr>"

record lowrank_config =
  IN_ROWS_T :: int
  OUT_ROWS_T :: int
  FUSED_MIN_C :: int

definition lorank_cfg :: lowrank_config where
  "lorank_cfg = \<lparr>IN_ROWS_T = 7, OUT_ROWS_T = 4, FUSED_MIN_C = 1024\<rparr>"

definition can_use_lowrank_fused :: "lowrank_config \<Rightarrow> int \<Rightarrow> int \<Rightarrow> bool" where
  "can_use_lowrank_fused l rows c \<longleftrightarrow> c \<ge> FUSED_MIN_C l \<and> rows \<le> IN_ROWS_T l"

definition can_use_lowrank_out_fused :: "lowrank_config \<Rightarrow> int \<Rightarrow> int \<Rightarrow> bool" where
  "can_use_lowrank_out_fused l rows c \<longleftrightarrow> c \<ge> FUSED_MIN_C l \<and> rows \<le> OUT_ROWS_T l"

record path_selector =
  ps_thresholds :: cmix_thresholds
  ps_weight :: weight_config
  ps_inference :: inference_config

definition path_selector_init ::
  "cmix_thresholds option \<Rightarrow> weight_config option \<Rightarrow> inference_config option \<Rightarrow> path_selector" where
  "path_selector_init th w ic =
     \<lparr>ps_thresholds = (case th of None \<Rightarrow> cmix_thresholds_defaults | Some t \<Rightarrow> t),
      ps_weight = (case w of None \<Rightarrow> weight_config_defaults | Some x \<Rightarrow> x),
      ps_inference = (case ic of None \<Rightarrow> inference_config_defaults | Some x \<Rightarrow> x)\<rparr>"

definition cmix_mode_for :: "path_selector \<Rightarrow> int \<Rightarrow> int \<Rightarrow> string" where
  "cmix_mode_for ps rows t =
     (if ic_cmix_sparse (ps_inference ps) = ''off'' then CMIX_DENSE
      else if ic_cmix_sparse (ps_inference ps) = ''no-fc'' then
        let th = ps_thresholds ps;
            use_nofc = rows \<le> nofc_max_rows th \<or> (rows = 20 \<and> t \<le> nofc_row20_max_t th)
        in if rows = 1 then CMIX_B1T1_NOFC else if use_nofc then CMIX_ROWS2_NOFC else CMIX_DENSE
      else if rows = 1 then CMIX_B1T1_SPARSE
      else if rows = 2 then CMIX_ROWS2_NOFC
      else CMIX_DENSE)"

definition batched_rkv_for :: "path_selector \<Rightarrow> int \<Rightarrow> bool" where
  "batched_rkv_for ps rows =
     (let mode = ic_rkv_mode (ps_inference ps);
          use = (if mode = ''auto'' then rows = 1 \<or> (4 \<le> rows \<and> rows \<le> 64)
                 else mode = ''on'')
      in if use_orig_linear (ps_weight ps) ''att_c2c'' then False else use)"

definition select_path :: "path_selector \<Rightarrow> int \<Rightarrow> int \<Rightarrow> path_config" where
  "select_path ps b t =
     \<lparr>path_rows = b * t, path_use_batched_rkv = batched_rkv_for ps (b * t),
      path_cmix_mode = cmix_mode_for ps (b * t) t\<rparr>"

definition select_path_varlen :: "path_selector \<Rightarrow> int \<Rightarrow> int \<Rightarrow> int \<Rightarrow> path_config" where
  "select_path_varlen ps b max_t total_tokens =
     \<lparr>path_rows = (if total_tokens < 0 then b * max_t else total_tokens),
      path_use_batched_rkv = batched_rkv_for ps (b * max_t),
      path_cmix_mode = CMIX_DENSE\<rparr>"

lemma selectors_agree:
  assumes "ic_cmix_sparse (ps_inference ps) = ''off''"
  shows "select_path_varlen ps b t (-1) = select_path ps b t"
  using assms by (simp add: select_path_varlen_def select_path_def cmix_mode_for_def)

lemma default_cmix_dense_iff:
  assumes "1 \<le> b" and "1 \<le> t"
  shows "path_cmix_mode (select_path (path_selector_init None w None) b t) = CMIX_DENSE \<longleftrightarrow>
    20 < b * t \<or> (b * t = 20 \<and> 5 < t)"
  by (auto simp: select_path_def cmix_mode_for_def path_selector_init_def inference_config_defaults_def
      cmix_thresholds_defaults_def CMIX_DENSE_def CMIX_B1T1_NOFC_def CMIX_ROWS2_NOFC_def Let_def)

lemma default_weights_never_batch_rkv: "\<not> batched_rkv_for (path_selector_init th None ic) rows"
  by (simp add: batched_rkv_for_def path_selector_init_def weight_config_defaults_def use_orig_linear_def
      ORIG_LINEAR_GROUPS_DEFAULT_def)

end
