(* ===== verification/Kernels.thy ===== *)
theory Kernels
  imports Path_Selector "HOL-Library.Word"
begin

text \<open>
  The tensors of the network and the kernels it is made of, \<^verbatim>\<open>vkwr/_ops/\<close>.

  An activation is a list of rows of type \<open>'v\<close>, one vector per token, with the shape of its
  leading dimensions; a weight has type \<open>'p\<close>, a head's state matrices have type \<open>'w\<close>. What a
  kernel computes on one row is a field of \<open>kernels\<close>, a parameter of everything: half-precision
  arithmetic is not modelled. What a kernel does with the batch is written out after the kernels
  the wrappers call (\<^verbatim>\<open>csrc/v2\<close>, \<^verbatim>\<open>csrc/v2_5\<close>): which earlier row or which slot a row is mixed
  with, which slot is updated with which row, and in which order a sequence's rows update the
  state matrices. A state is kept per slot: its shift rows by layer and place (0 for time mixing, 1
  for channel mixing), its matrices by layer and its count of tokens.

  A mixing kernel reads the slots' rows and writes them; here all reads come first. The uniform
  kernels do both in one launch; what other orders of their threads do is the subject of
  \<^verbatim>\<open>Mix_Threads\<close>.
\<close>

section \<open>Activations\<close>

datatype 'v act = Act (act_shape: "nat list") (act_rows: "'v list")

definition amap :: "('a \<Rightarrow> 'b) \<Rightarrow> 'a act \<Rightarrow> 'b act" where
  "amap f a = Act (act_shape a) (map f (act_rows a))"

text \<open>\<^verbatim>\<open>view\<close> and \<^verbatim>\<open>reshape\<close>; the number of rows must fit.\<close>

definition view3 :: "nat \<Rightarrow> nat \<Rightarrow> 'v act \<Rightarrow> 'v act res" where
  "view3 b t a =
     (if b * t = length (act_rows a) then Inr (Act [b, t] (act_rows a)) else Inl (RuntimeError ''shape is invalid''))"

definition view2 :: "nat \<Rightarrow> 'v act \<Rightarrow> 'v act res" where
  "view2 n a =
     (if n = length (act_rows a) then Inr (Act [n] (act_rows a)) else Inl (RuntimeError ''shape is invalid''))"

definition flat :: "'v act \<Rightarrow> 'v act" where
  "flat a = Act [length (act_rows a)] (act_rows a)"

text \<open>A kernel of several activations checks that their shapes agree.\<close>

definition azip :: "'a act \<Rightarrow> 'b act \<Rightarrow> ('a \<times> 'b) act res" where
  "azip a b =
     (if act_shape a = act_shape b then Inr (Act (act_shape a) (zip (act_rows a) (act_rows b)))
      else Inl (RuntimeError ''shape mismatch''))"

section \<open>What kernels compute on a row\<close>

text \<open>The kernels for a product of rows with a weight matrix, with their launch parameters.\<close>

datatype linear_kernel =
    LinearF16
  | M1SplitK
  | LinearF16Orig
  | OrigLtCfg int int
  | OrigRows int int
  | OrigRowsCfg int int int
  | OrigRowsExact int int bool
  | LinearT

datatype sparse_kernel = DownReluOne | DownReluRows | DownReluRowsT512

type_synonym 'v wkv_in = "'v \<times> 'v \<times> 'v \<times> 'v \<times> 'v \<times> 'v"
type_synonym 'v mixes = "'v \<times> 'v \<times> 'v \<times> 'v \<times> 'v \<times> 'v"

record ('v, 'w, 'p) kernels =
  k_size0 :: "'p \<Rightarrow> nat"
  k_size1 :: "'p \<Rightarrow> nat"
  k_mix :: "'p \<Rightarrow> 'v \<Rightarrow> 'v \<Rightarrow> 'v"
  k_lin :: "linear_kernel \<Rightarrow> 'p \<Rightarrow> 'v \<Rightarrow> 'v"
  k_lin_act :: "nat \<Rightarrow> 'p \<Rightarrow> 'v \<Rightarrow> 'v"
  k_act :: "nat \<Rightarrow> 'v \<Rightarrow> 'v"
  k_bmm :: "'p \<Rightarrow> 'v \<times> 'v \<times> 'v \<Rightarrow> 'v \<times> 'v \<times> 'v"
  k_wag_in :: "'p \<times> 'p \<times> 'p \<Rightarrow> 'v \<times> 'v \<times> 'v \<Rightarrow> 'v \<times> 'v \<times> 'v"
  k_wagv_in :: "'p \<times> 'p \<times> 'p \<times> 'p \<Rightarrow> 'v \<times> 'v \<times> 'v \<times> 'v \<Rightarrow> 'v \<times> 'v \<times> 'v \<times> 'v"
  k_wag_out :: "'p \<times> 'p \<times> 'p \<Rightarrow> 'v \<times> 'v \<times> 'v \<Rightarrow> 'v \<times> 'v \<times> 'v"
  k_wagv_out :: "'p \<times> 'p \<times> 'p \<times> 'p \<times> 'p \<Rightarrow> ('v \<times> 'v \<times> 'v \<times> 'v) \<times> 'v \<times> 'v \<Rightarrow> 'v \<times> 'v \<times> 'v \<times> 'v"
  k_kk_a :: "'p \<times> 'p \<times> 'p \<Rightarrow> 'v \<times> 'v \<Rightarrow> 'v \<times> 'v \<times> 'v"
  k_vres :: "'p \<Rightarrow> 'v \<times> 'v \<times> 'v \<Rightarrow> 'v"
  k_add_vec :: "'p \<Rightarrow> 'v \<Rightarrow> 'v"
  k_wkv16 :: "'w \<Rightarrow> 32 word \<Rightarrow> 'v wkv_in \<Rightarrow> 'w \<times> 'v"
  k_wkv16_w0 :: "'p \<Rightarrow> 'w \<Rightarrow> 32 word \<Rightarrow> 'v wkv_in \<Rightarrow> 'w \<times> 'v"
  k_wkv32 :: "'w \<Rightarrow> 'v wkv_in \<Rightarrow> 'w \<times> 'v"
  k_lnx :: "'p \<times> 'p \<times> 'p \<Rightarrow> 'v \<times> 'v \<times> 'v \<times> 'v \<times> 'v \<Rightarrow> 'v"
  k_ln :: "'p \<Rightarrow> 'p \<Rightarrow> 'v \<Rightarrow> 'v"
  k_add :: "'v \<Rightarrow> 'v \<Rightarrow> 'v"
  k_add_ln :: "'p \<Rightarrow> 'p \<Rightarrow> 'v \<Rightarrow> 'v \<Rightarrow> 'v \<times> 'v"
  k_add_ln_mix6 :: "'p \<Rightarrow> 'p \<Rightarrow> 'p mixes \<Rightarrow> 'v \<Rightarrow> 'v \<Rightarrow> 'v \<Rightarrow> 'v \<times> 'v mixes \<times> 'v"
  k_add_last_ln :: "'p \<Rightarrow> 'p \<Rightarrow> 'v \<Rightarrow> 'v \<Rightarrow> 'v"
  k_relu_sq :: "'v \<Rightarrow> 'v"
  k_down_relu :: "sparse_kernel \<Rightarrow> 'p \<Rightarrow> 'v \<Rightarrow> 'v"
  k_cmix_sparse :: "'p \<times> 'p \<times> 'p \<Rightarrow> 'v \<Rightarrow> 'v \<Rightarrow> 'v"
  k_t :: "'p \<Rightarrow> 'p"
  k_stack :: "'p \<Rightarrow> 'p \<Rightarrow> 'p \<Rightarrow> 'p"

section \<open>Token shift\<close>

record ('v, 'w) slot_state =
  ss_shift :: "nat \<Rightarrow> nat \<Rightarrow> 'v"
  ss_wkv :: "nat \<Rightarrow> 'w"
  ss_elapsed :: "32 word"

type_synonym ('v, 'w) states = "nat \<Rightarrow> ('v, 'w) slot_state"

text \<open>
  The row before each row of its own sequence; for the first row, the one kept in the sequence's
  slot. In the uniform kernels every sequence has \<open>t\<close> rows, in the others offsets and the
  sequence of each row are given.
\<close>

definition prev_uniform :: "nat \<Rightarrow> nat list \<Rightarrow> (nat \<Rightarrow> 'v) \<Rightarrow> 'v list \<Rightarrow> 'v list" where
  "prev_uniform t slots sh xs =
     map (\<lambda>i. if i mod t = 0 then sh (slots ! (i div t)) else xs ! (i - 1)) [0..<length xs]"

definition prev_varlen :: "nat list \<Rightarrow> nat list \<Rightarrow> nat list \<Rightarrow> (nat \<Rightarrow> 'v) \<Rightarrow> 'v list \<Rightarrow> 'v list" where
  "prev_varlen offs req slots sh xs =
     map (\<lambda>i. if i = offs ! (req ! i) then sh (slots ! (req ! i)) else xs ! (i - 1)) [0..<length xs]"

definition last_uniform :: "nat \<Rightarrow> nat \<Rightarrow> 'v list \<Rightarrow> 'v list" where
  "last_uniform b t xs = map (\<lambda>i. xs ! (i * t + t - 1)) [0..<b]"

definition last_varlen :: "nat \<Rightarrow> nat list \<Rightarrow> 'v list \<Rightarrow> 'v list" where
  "last_varlen b offs xs = map (\<lambda>i. xs ! (offs ! Suc i - 1)) [0..<b]"

definition set_shift :: "nat \<Rightarrow> nat \<Rightarrow> nat list \<Rightarrow> 'v list \<Rightarrow> ('v, 'w) states \<Rightarrow> ('v, 'w) states" where
  "set_shift l j slots vs st =
     fold (\<lambda>(s, v) st. st(s := (st s)\<lparr>ss_shift := (ss_shift (st s))(l := (ss_shift (st s) l)(j := v))\<rparr>)) (zip slots vs) st"

text \<open>\<^verbatim>\<open>tmix_mix6\<close> and \<^verbatim>\<open>cmix_mix\<close>: mix every row with the one before, then keep the last rows.\<close>

definition mix6 :: "('v, 'w, 'p) kernels \<Rightarrow> 'p mixes \<Rightarrow> 'v \<Rightarrow> 'v \<Rightarrow> 'v mixes" where
  "mix6 K ws prev cur =
     (case ws of (w_r, w_w, w_k, w_v, w_a, w_g) \<Rightarrow>
        (k_mix K w_r prev cur, k_mix K w_w prev cur, k_mix K w_k prev cur,
         k_mix K w_v prev cur, k_mix K w_a prev cur, k_mix K w_g prev cur))"

definition tmix_mix6 ::
    "('v, 'w, 'p) kernels \<Rightarrow> nat \<Rightarrow> nat \<Rightarrow> nat list \<Rightarrow> nat \<Rightarrow> 'p mixes \<Rightarrow> 'v act \<Rightarrow> ('v, 'w) states
       \<Rightarrow> 'v mixes act \<times> ('v, 'w) states" where
  "tmix_mix6 K b t slots l ws x st =
     (Act (act_shape x) (map2 (mix6 K ws) (prev_uniform t slots (\<lambda>s. ss_shift (st s) l 0) (act_rows x)) (act_rows x)),
      set_shift l 0 slots (last_uniform b t (act_rows x)) st)"

definition tmix_mix6_varlen ::
    "('v, 'w, 'p) kernels \<Rightarrow> nat \<Rightarrow> nat list \<Rightarrow> nat list \<Rightarrow> nat list \<Rightarrow> nat \<Rightarrow> 'p mixes \<Rightarrow> 'v act \<Rightarrow> ('v, 'w) states
       \<Rightarrow> 'v mixes act \<times> ('v, 'w) states" where
  "tmix_mix6_varlen K b offs req slots l ws x st =
     (Act (act_shape x) (map2 (mix6 K ws) (prev_varlen offs req slots (\<lambda>s. ss_shift (st s) l 0) (act_rows x)) (act_rows x)),
      set_shift l 0 slots (last_varlen b offs (act_rows x)) st)"

definition cmix_mix ::
    "('v, 'w, 'p) kernels \<Rightarrow> nat \<Rightarrow> nat \<Rightarrow> nat list \<Rightarrow> nat \<Rightarrow> 'p \<Rightarrow> 'v act \<Rightarrow> ('v, 'w) states
       \<Rightarrow> 'v act \<times> ('v, 'w) states" where
  "cmix_mix K b t slots l w x st =
     (Act (act_shape x) (map2 (k_mix K w) (prev_uniform t slots (\<lambda>s. ss_shift (st s) l 1) (act_rows x)) (act_rows x)),
      set_shift l 1 slots (last_uniform b t (act_rows x)) st)"

definition cmix_mix_varlen ::
    "('v, 'w, 'p) kernels \<Rightarrow> nat \<Rightarrow> nat list \<Rightarrow> nat list \<Rightarrow> nat list \<Rightarrow> nat \<Rightarrow> 'p \<Rightarrow> 'v act \<Rightarrow> ('v, 'w) states
       \<Rightarrow> 'v act \<times> ('v, 'w) states" where
  "cmix_mix_varlen K b offs req slots l w x st =
     (Act (act_shape x) (map2 (k_mix K w) (prev_varlen offs req slots (\<lambda>s. ss_shift (st s) l 1) (act_rows x)) (act_rows x)),
      set_shift l 1 slots (last_varlen b offs (act_rows x)) st)"

text \<open>\<^verbatim>\<open>cmix_sparse_one\<close> and \<^verbatim>\<open>cmix_sparse_rows\<close>: mixing and both products in one kernel.\<close>

definition cmix_sparse ::
    "('v, 'w, 'p) kernels \<Rightarrow> nat \<Rightarrow> nat \<Rightarrow> nat list \<Rightarrow> nat \<Rightarrow> 'p \<times> 'p \<times> 'p \<Rightarrow> 'v act \<Rightarrow> ('v, 'w) states
       \<Rightarrow> 'v act \<times> ('v, 'w) states" where
  "cmix_sparse K b t slots l ws x st =
     (Act [b, t] (map2 (k_cmix_sparse K ws) (prev_uniform t slots (\<lambda>s. ss_shift (st s) l 1) (act_rows x)) (act_rows x)),
      set_shift l 1 slots (last_uniform b t (act_rows x)) st)"

section \<open>The recurrence\<close>

text \<open>One sequence: its rows in order, the step knowing how many tokens came before.\<close>

fun wkv_run :: "('w \<Rightarrow> 32 word \<Rightarrow> 'x \<Rightarrow> 'w \<times> 'v) \<Rightarrow> 32 word \<Rightarrow> 'w \<Rightarrow> 'x list \<Rightarrow> 'w \<times> 'v list" where
  "wkv_run f e s [] = (s, [])"
| "wkv_run f e s (x # xs) =
     (case f s e x of (s', y) \<Rightarrow> case wkv_run f (e + 1) s' xs of (s2, ys) \<Rightarrow> (s2, y # ys))"

definition slices :: "nat list \<Rightarrow> 'a list \<Rightarrow> 'a list list" where
  "slices offs xs = map (\<lambda>i. take (offs ! Suc i - offs ! i) (drop (offs ! i) xs)) [0..<length offs - 1]"

text \<open>The batch: every sequence on the matrices of its slot.\<close>

definition wkv_batch ::
    "('w \<Rightarrow> 32 word \<Rightarrow> 'x \<Rightarrow> 'w \<times> 'v) \<Rightarrow> nat \<Rightarrow> nat list \<Rightarrow> nat list \<Rightarrow> 'x list \<Rightarrow> ('v, 'w) states
       \<Rightarrow> 'v list \<times> ('v, 'w) states" where
  "wkv_batch f l offs slots xs st =
     (let rs = map2 (\<lambda>seq s. wkv_run f (ss_elapsed (st s)) (ss_wkv (st s) l) seq) (slices offs xs) slots
      in (concat (map snd rs),
          fold (\<lambda>(s, w) st. st(s := (st s)\<lparr>ss_wkv := (ss_wkv (st s))(l := w)\<rparr>)) (zip slots (map fst rs)) st))"

text \<open>In the uniform kernels sequence \<open>i\<close> starts at \<open>i * t\<close>.\<close>

definition uniform_offs :: "nat \<Rightarrow> nat \<Rightarrow> nat list" where
  "uniform_offs b t = map (\<lambda>i. i * t) [0..<Suc b]"

definition advance_varlen :: "nat list \<Rightarrow> nat list \<Rightarrow> ('v, 'w) states \<Rightarrow> ('v, 'w) states" where
  "advance_varlen offs slots st =
     fold (\<lambda>(s, n) st. st(s := (st s)\<lparr>ss_elapsed := ss_elapsed (st s) + of_nat n\<rparr>))
       (zip slots (map (\<lambda>i. offs ! Suc i - offs ! i) [0..<length offs - 1])) st"

section \<open>Weights\<close>

type_synonym 'p weights = "string \<Rightarrow> 'p option"

definition weight :: "'p weights \<Rightarrow> string \<Rightarrow> 'p res" where
  "weight z k = (case z k of None \<Rightarrow> Inl KeyError | Some p \<Rightarrow> Inr p)"

lemma weight_Some [simp]: "z k = Some p \<Longrightarrow> weight z k = Inr p"
  by (simp add: weight_def)

lemma amap_sel [simp]: "act_shape (amap f a) = act_shape a" "act_rows (amap f a) = map f (act_rows a)"
  "amap f (Act sh xs) = Act sh (map f xs)"
  by (simp_all add: amap_def)

end
