(* ===== verification/Linear_Dispatch.thy ===== *)
theory Linear_Dispatch
  imports Kernels
begin

text \<open>
  \<^verbatim>\<open>vkwr/model_executor/layers/linear.py\<close>: which kernel computes a product, by weight layout,
  group of weights, width of the model and number of rows. The long sequence of tests is a list
  of conditions in the order of the code; the first that holds decides.

  A launch that the kernel's host code refuses (\<^verbatim>\<open>csrc/v1/linear\<close>) is a \<open>RuntimeError\<close>. The lemmas
  show that no launch is refused and that every choice computes the product of the rows with
  the weight.
\<close>

section \<open>Launching\<close>

text \<open>For a weight of \<open>n\<close> times \<open>k\<close> entries and \<open>m\<close> rows.\<close>

definition launch_ok :: "linear_kernel \<Rightarrow> nat \<Rightarrow> nat \<Rightarrow> nat \<Rightarrow> bool" where
  "launch_ok kn n k m \<longleftrightarrow>
     (case kn of
        LinearF16 \<Rightarrow> True
      | M1SplitK \<Rightarrow> m = 1 \<and> k mod 64 = 0
      | LinearF16Orig \<Rightarrow> True
      | OrigLtCfg workspace_mb algo_index \<Rightarrow>
          0 \<le> workspace_mb \<and> workspace_mb \<le> 1024 \<and> 0 \<le> algo_index \<and> algo_index < 64
      | OrigRows row_tile out_tile \<Rightarrow>
          (row_tile, out_tile) \<in> {(1, 2), (1, 4), (1, 8), (1, 16), (2, 2), (2, 4), (2, 8), (3, 2), (3, 4), (3, 8),
             (4, 2), (4, 4), (4, 8), (8, 2), (8, 4), (16, 1), (16, 2), (16, 4)}
      | OrigRowsCfg threads row_tile out_tile \<Rightarrow>
          (threads, row_tile, out_tile) \<in> {(64, 1, 4), (64, 1, 8), (128, 1, 8), (256, 1, 1), (32, 4, 4), (64, 4, 4),
             (96, 4, 4), (32, 4, 8), (64, 4, 8), (32, 8, 4), (64, 8, 4), (32, 2, 4), (64, 2, 2), (64, 2, 4),
             (32, 3, 4), (64, 3, 4), (96, 3, 4), (32, 3, 8), (64, 3, 8)}
      | OrigRowsExact threads out_tile use4 \<Rightarrow>
          (m = 1 \<and> threads = 128 \<and> out_tile = 2 \<or>
           m = 2 \<and> (use4, threads, out_tile) \<in> {(True, 64, 2), (True, 256, 1), (False, 128, 2)}) \<and>
          int n mod out_tile = 0 \<and> k mod (if use4 then 4 else 2) = 0
      | LinearT \<Rightarrow> True)"

definition run_linear :: "('v, 'w, 'p) kernels \<Rightarrow> linear_kernel \<Rightarrow> 'v act \<Rightarrow> 'p \<Rightarrow> 'v act res" where
  "run_linear K kn x w =
     (if launch_ok kn (k_size0 K w) (k_size1 K w) (length (act_rows x)) then Inr (amap (k_lin K kn w) x)
      else Inl (RuntimeError ''unsupported kernel launch''))"

definition run_linear_t_act :: "('v, 'w, 'p) kernels \<Rightarrow> nat \<Rightarrow> 'v act \<Rightarrow> 'p \<Rightarrow> 'v act res" where
  "run_linear_t_act K act x w_t =
     (if k_size1 K w_t \<le> 512 \<and> k_size0 K w_t \<ge> 1024 \<and> length (act_rows x) \<le> 4
      then Inr (amap (k_lin_act K act w_t) x) else Inl (RuntimeError ''unsupported kernel launch''))"

section \<open>Choosing\<close>

fun first_of :: "(bool \<times> 'a) list \<Rightarrow> 'a \<Rightarrow> 'a" where
  "first_of [] d = d"
| "first_of ((b, x) # bs) d = (if b then x else first_of bs d)"

definition small_rows_kernels :: "int \<Rightarrow> string \<Rightarrow> int \<Rightarrow> (bool \<times> linear_kernel) list" where
  "small_rows_kernels c grp rows =
     [(rows = 1 \<and> grp = ''ffn_key'' \<and> c = 2560, OrigRowsExact 128 2 True),
      (rows = 1 \<and> grp = ''ffn_key'', OrigRowsExact 128 2 (c \<le> 1024)),
      (rows = 1, OrigRowsExact 128 2 (grp \<noteq> ''att_c2c'' \<or> c < 2048)),
      (rows = 2 \<and> grp = ''att_c2c'', OrigRowsExact 64 2 True),
      (rows = 2 \<and> grp = ''ffn_key'' \<and> c = 2560, OrigRowsExact 128 2 False),
      (rows = 2 \<and> grp = ''ffn_key'' \<and> c < 4096, OrigRowsExact 64 2 True),
      (rows = 2 \<and> grp = ''ffn_key'', OrigRowsExact 128 2 False),
      (rows = 2 \<and> grp = ''head'' \<and> c = 2560, OrigRowsExact 128 2 False),
      (rows = 2, OrigRowsExact 64 2 True),
      (rows = 3 \<and> grp = ''head'' \<and> c \<le> 2048, LinearF16Orig),
      (rows = 3 \<and> grp = ''head'' \<and> c = 2560, LinearF16Orig),
      (rows = 3 \<and> grp = ''head'', OrigRows 3 2),
      (rows = 3 \<and> grp = ''ffn_key'' \<and> c \<le> 1024, OrigRowsCfg 64 3 4),
      (rows = 3 \<and> grp = ''ffn_key'' \<and> c = 2048, LinearF16Orig),
      (rows = 3 \<and> grp = ''ffn_key'' \<and> c = 2560, LinearF16Orig),
      (rows = 3 \<and> grp = ''ffn_key'', OrigLtCfg 0 0),
      (rows = 3 \<and> grp = ''att_c2c'' \<and> c = 768, OrigRows 1 2),
      (rows = 3 \<and> grp = ''att_c2c'' \<and> c = 1024, OrigRows 2 2),
      (rows = 3 \<and> grp = ''att_c2c'' \<and> c = 2048, OrigRows 3 4),
      (rows = 3 \<and> grp = ''att_c2c'' \<and> c = 2560, OrigRows 3 2),
      (rows = 3 \<and> grp = ''att_c2c'', OrigLtCfg 0 2),
      (rows = 3, OrigRowsCfg 64 3 4),
      (rows = 4 \<and> grp = ''ffn_key'' \<and> c \<le> 1024, OrigRowsCfg 64 2 4),
      (rows = 4 \<and> grp = ''ffn_key'' \<and> c = 2048, LinearF16Orig),
      (rows = 4 \<and> grp = ''ffn_key'' \<and> c = 2560, LinearF16Orig),
      (rows = 4 \<and> grp = ''ffn_key'', OrigLtCfg 0 0),
      (rows = 4 \<and> grp = ''att_c2c'' \<and> c \<le> 1024, OrigRows 2 2),
      (rows = 4 \<and> grp = ''att_c2c'' \<and> c = 2048, OrigRows 4 2),
      (rows = 4 \<and> grp = ''att_c2c'' \<and> c = 2560, OrigRows 4 2),
      (rows = 4 \<and> grp = ''att_c2c'', OrigLtCfg 0 2)]"

definition head_kernels :: "int \<Rightarrow> int \<Rightarrow> (bool \<times> linear_kernel) list" where
  "head_kernels c rows =
     [(c = 768 \<and> 192 \<le> rows \<and> rows < 256, OrigLtCfg 128 3),
      (c = 768 \<and> 96 \<le> rows \<and> rows < 160, OrigLtCfg 0 1),
      (c = 1024 \<and> 256 \<le> rows \<and> rows < 384, LinearF16Orig),
      (c = 1024 \<and> 192 \<le> rows \<and> rows < 256, OrigLtCfg 0 2),
      (c = 1024 \<and> 96 \<le> rows \<and> rows < 160, OrigLtCfg 32 1),
      (c = 2048 \<and> 256 \<le> rows \<and> rows < 384, OrigLtCfg 32 0),
      (c = 2048 \<and> 192 \<le> rows \<and> rows < 256, OrigLtCfg 32 6),
      (c = 2048 \<and> 128 \<le> rows \<and> rows < 160, OrigLtCfg 0 1),
      (c = 2048 \<and> 96 \<le> rows \<and> rows < 112, OrigLtCfg 0 0),
      (c = 2560 \<and> rows \<ge> 256, OrigLtCfg 32 0),
      (c = 2560 \<and> rows \<ge> 192, OrigLtCfg 0 5),
      (c = 2560 \<and> rows \<ge> 160, OrigLtCfg 32 5),
      (c = 2560 \<and> rows \<ge> 128, OrigLtCfg 0 1),
      (c = 2560 \<and> rows \<ge> 96, OrigLtCfg 32 0),
      (c = 2560 \<and> rows \<ge> 80, OrigLtCfg 0 0),
      (c = 2560 \<and> rows \<ge> 72, OrigLtCfg 32 1),
      (rows \<ge> 1024, OrigLtCfg 128 0),
      (rows \<ge> 512, OrigLtCfg 0 2),
      (rows \<ge> 384, OrigLtCfg 128 2),
      (rows \<ge> 256, OrigLtCfg 0 1),
      (rows \<ge> 192, OrigLtCfg 128 0),
      (rows \<ge> 160, OrigLtCfg 32 0),
      (rows \<ge> 128, OrigLtCfg 128 0),
      (rows \<ge> 112, OrigLtCfg 32 0),
      (rows \<ge> 96, OrigLtCfg 32 1),
      (rows \<ge> 80, OrigLtCfg 32 2),
      (rows \<ge> 72, OrigLtCfg 128 2)]"

definition att_kernels :: "int \<Rightarrow> int \<Rightarrow> (bool \<times> linear_kernel) list" where
  "att_kernels c rows =
     [(c = 2560 \<and> 17 \<le> rows \<and> rows \<le> 20, OrigLtCfg 0 0),
      (c = 768 \<and> 256 \<le> rows \<and> rows < 384, OrigLtCfg 128 1),
      (c = 768 \<and> 96 \<le> rows \<and> rows < 112, OrigLtCfg 32 3),
      (c = 1024 \<and> 256 \<le> rows \<and> rows < 384, OrigLtCfg 128 0),
      (c = 1024 \<and> 96 \<le> rows \<and> rows < 112, OrigLtCfg 32 6),
      (c = 2048 \<and> 256 \<le> rows \<and> rows < 384, OrigLtCfg 32 3),
      (c = 2048 \<and> 192 \<le> rows \<and> rows < 256, OrigLtCfg 128 0),
      (c = 2048 \<and> 96 \<le> rows \<and> rows < 112, OrigLtCfg 32 4),
      (c = 2560 \<and> rows \<ge> 256, OrigLtCfg 0 1),
      (c = 2560 \<and> rows \<ge> 160, OrigLtCfg 0 2),
      (c = 2560 \<and> rows \<ge> 128, OrigLtCfg 128 2),
      (c = 2560 \<and> rows \<ge> 112, OrigLtCfg 128 3),
      (c = 2560 \<and> rows \<ge> 96, OrigLtCfg 32 2),
      (c = 2560 \<and> rows \<ge> 72, OrigLtCfg 128 2),
      (c = 2560 \<and> rows \<ge> 5, LinearF16Orig),
      (rows \<ge> 1024, OrigLtCfg 32 4),
      (rows \<ge> 768, OrigLtCfg 32 0),
      (rows \<ge> 512, OrigLtCfg 32 1),
      (rows \<ge> 384, OrigLtCfg 128 2),
      (rows \<ge> 256, OrigLtCfg 32 4),
      (rows \<ge> 192, OrigLtCfg 0 0),
      (rows \<ge> 160, OrigLtCfg 128 1),
      (rows \<ge> 112, LinearF16Orig),
      (rows \<ge> 96, OrigLtCfg 0 5),
      (rows \<ge> 72, OrigLtCfg 32 0),
      (rows \<ge> 48, OrigLtCfg 32 6),
      (rows \<ge> 32, OrigLtCfg 0 0),
      (rows \<ge> 24, OrigLtCfg 0 6),
      (rows \<ge> 12, OrigLtCfg 0 0),
      (rows \<ge> 5, OrigLtCfg 0 2)]"

definition ffn_kernels :: "int \<Rightarrow> int \<Rightarrow> (bool \<times> linear_kernel) list" where
  "ffn_kernels c rows =
     [(c = 2560 \<and> 17 \<le> rows \<and> rows \<le> 20, OrigLtCfg 0 0),
      (c = 768 \<and> 256 \<le> rows \<and> rows < 384, LinearF16Orig),
      (c = 768 \<and> 96 \<le> rows \<and> rows < 112, LinearF16Orig),
      (c = 1024 \<and> 256 \<le> rows \<and> rows < 384, OrigLtCfg 32 2),
      (c = 1024 \<and> 192 \<le> rows \<and> rows < 256, OrigLtCfg 0 0),
      (c = 1024 \<and> 96 \<le> rows \<and> rows < 160, OrigLtCfg 32 2),
      (c = 2048 \<and> 128 \<le> rows \<and> rows < 160, OrigLtCfg 0 3),
      (c = 2560 \<and> rows \<ge> 192, OrigLtCfg 32 5),
      (c = 2560 \<and> rows \<ge> 160, OrigLtCfg 0 4),
      (c = 2560 \<and> rows \<ge> 128, OrigLtCfg 32 5),
      (c = 2560 \<and> rows \<ge> 112, OrigLtCfg 128 4),
      (c = 2560 \<and> rows \<ge> 96, OrigLtCfg 128 4),
      (c = 2560 \<and> rows \<ge> 80, OrigLtCfg 0 3),
      (c = 2560 \<and> rows \<ge> 72, OrigLtCfg 32 4),
      (c = 2560 \<and> rows \<ge> 3, LinearF16Orig),
      (rows \<ge> 1024, OrigLtCfg 0 0),
      (rows \<ge> 768, OrigLtCfg 32 1),
      (rows \<ge> 512, OrigLtCfg 128 3),
      (rows \<ge> 384, OrigLtCfg 32 0),
      (rows \<ge> 256, OrigLtCfg 128 4),
      (rows \<ge> 192, OrigLtCfg 0 1),
      (rows \<ge> 160, OrigLtCfg 0 2),
      (rows \<ge> 128, OrigLtCfg 32 0),
      (rows \<ge> 112, OrigLtCfg 32 3),
      (rows \<ge> 96, OrigLtCfg 32 1),
      (rows \<ge> 72, OrigLtCfg 128 1),
      (rows \<ge> 48, OrigLtCfg 0 1),
      (rows \<ge> 12, OrigLtCfg 0 0),
      ((rows = 5 \<or> rows = 6), OrigLtCfg 0 1)]"

definition orig_kernel :: "int \<Rightarrow> string \<Rightarrow> int \<Rightarrow> linear_kernel" where
  "orig_kernel c grp rows =
     first_of (small_rows_kernels c grp rows @
       (if grp = ''head'' then head_kernels c rows else []) @
       (if grp = ''att_c2c'' then att_kernels c rows else []) @
       (if grp = ''ffn_key'' then ffn_kernels c rows else [])) LinearF16Orig"

definition linear_disp :: "('v, 'w, 'p) kernels \<Rightarrow> 'v act \<Rightarrow> 'p \<Rightarrow> 'v act res" where
  "linear_disp K x w =
     (if length (act_rows x) = 1 \<and> k_size1 K w mod 64 = 0 then run_linear K M1SplitK x w
      else run_linear K LinearF16 x w)"

definition linear_orig_layout ::
    "('v, 'w, 'p) kernels \<Rightarrow> weight_config \<Rightarrow> int \<Rightarrow> 'v act \<Rightarrow> 'p \<Rightarrow> int \<Rightarrow> string \<Rightarrow> 'v act res" where
  "linear_orig_layout K wc c x w rows grp =
     (if \<not> use_orig_linear wc grp then linear_disp K x w
      else run_linear K (orig_kernel c grp rows) x w)"

text \<open>The low-rank products take the weight in the one or the other layout, or both.\<close>

definition linear_either :: "('v, 'w, 'p) kernels \<Rightarrow> 'v act \<Rightarrow> 'p option \<Rightarrow> 'p option \<Rightarrow> 'v act res" where
  "linear_either K x w w_t =
     (case w of Some p \<Rightarrow> run_linear K LinearF16 x p
      | None \<Rightarrow> (case w_t of Some q \<Rightarrow> run_linear K LinearF16Orig x q | None \<Rightarrow> Inl (TypeError ''weight'')))"

definition linear_rank_in ::
    "('v, 'w, 'p) kernels \<Rightarrow> 'v act \<Rightarrow> 'p option \<Rightarrow> 'p option \<Rightarrow> int \<Rightarrow> 'v act res" where
  "linear_rank_in K x w w_t rows =
     (case w_t of
        Some q \<Rightarrow> if rows \<le> IN_ROWS_T lorank_cfg then run_linear K LinearT x q else linear_either K x w w_t
      | None \<Rightarrow> linear_either K x w w_t)"

definition linear_rank_out ::
    "('v, 'w, 'p) kernels \<Rightarrow> int \<Rightarrow> 'v act \<Rightarrow> 'p option \<Rightarrow> 'p option \<Rightarrow> int \<Rightarrow> 'v act res" where
  "linear_rank_out K c x w w_t rows =
     (case w_t of
        Some q \<Rightarrow> if can_use_lowrank_out_fused lorank_cfg rows c then run_linear K LinearT x q
                  else linear_either K x w w_t
      | None \<Rightarrow> linear_either K x w w_t)"

definition linear_rank_out_act ::
    "('v, 'w, 'p) kernels \<Rightarrow> int \<Rightarrow> 'v act \<Rightarrow> 'p option \<Rightarrow> 'p option \<Rightarrow> int \<Rightarrow> nat \<Rightarrow> 'v act res" where
  "linear_rank_out_act K c x w w_t rows act =
     (case w_t of
        Some q \<Rightarrow> if can_use_lowrank_out_fused lorank_cfg rows c then run_linear_t_act K act x q
                  else linear_either K (amap (k_act K act) x) w w_t
      | None \<Rightarrow> linear_either K (amap (k_act K act) x) w w_t)"

section \<open>Every choice is allowed and computes the product\<close>

text \<open>
  What is taken from the kernels: those for one layout compute the same product, and the product
  in the plain layout with the transposed weight is that in the other layout.
\<close>

definition products_agree :: "('v, 'w, 'p) kernels \<Rightarrow> bool" where
  "products_agree K \<longleftrightarrow>
     (\<forall>kn w. kn \<notin> {LinearF16, M1SplitK} \<longrightarrow> k_lin K kn w = k_lin K LinearF16Orig w) \<and>
     (\<forall>w. k_lin K M1SplitK w = k_lin K LinearF16 w) \<and>
     (\<forall>w. k_lin K LinearF16 (k_t K w) = k_lin K LinearF16Orig w) \<and>
     (\<forall>w. k_lin K LinearF16Orig (k_t K w) = k_lin K LinearF16 w) \<and>
     (\<forall>act w x. k_lin_act K act w x = k_lin K LinearF16Orig w (k_act K act x)) \<and>
     (\<forall>w. k_size0 K (k_t K w) = k_size1 K w \<and> k_size1 K (k_t K w) = k_size0 K w)"

text \<open>The table asks for kernels for weights in the original layout that fit the number of rows.\<close>

definition choice_ok :: "int \<Rightarrow> linear_kernel \<Rightarrow> bool" where
  "choice_ok rows kn \<longleftrightarrow> kn \<notin> {LinearF16, M1SplitK} \<and>
     (\<forall>n k. even n \<longrightarrow> 4 dvd k \<longrightarrow> launch_ok kn n k (nat rows))"

lemma first_of_ok: "(\<forall>(b, x) \<in> set bs. b \<longrightarrow> P x) \<Longrightarrow> P d \<Longrightarrow> P (first_of bs d)"
  by (induction bs) auto

lemma four_dvd_even: "4 dvd (k :: nat) \<Longrightarrow> k mod 2 = 0 \<and> k mod 4 = 0"
  by presburger

lemma choice_simps [simp]:
  "choice_ok rows LinearF16Orig"
  "choice_ok rows (OrigLtCfg a b) \<longleftrightarrow> 0 \<le> a \<and> a \<le> 1024 \<and> 0 \<le> b \<and> b < 64"
  by (auto simp: choice_ok_def launch_ok_def)

lemma choice_exact:
  "choice_ok 1 (OrigRowsExact 128 2 u)" "choice_ok 2 (OrigRowsExact 64 2 True)" "choice_ok 2 (OrigRowsExact 128 2 False)"
proof -
  have "int n mod 2 = 0" if "even n" for n using that by presburger
  then show "choice_ok 1 (OrigRowsExact 128 2 u)" "choice_ok 2 (OrigRowsExact 64 2 True)"
    "choice_ok 2 (OrigRowsExact 128 2 False)"
    unfolding choice_ok_def launch_ok_def by (simp_all add: four_dvd_even)
qed

lemma choice_tiles:
  "choice_ok rows (OrigRows 3 2)" "choice_ok rows (OrigRows 1 2)" "choice_ok rows (OrigRows 2 2)"
  "choice_ok rows (OrigRows 3 4)" "choice_ok rows (OrigRows 4 2)" "choice_ok rows (OrigRowsCfg 64 3 4)"
  "choice_ok rows (OrigRowsCfg 64 2 4)"
  by (simp_all add: choice_ok_def launch_ok_def)

lemma small_rows_ok: "\<forall>(b, kn) \<in> set (small_rows_kernels c grp rows). b \<longrightarrow> choice_ok rows kn"
  using choice_exact choice_tiles unfolding small_rows_kernels_def by simp

lemma head_ok: "\<forall>(b, kn) \<in> set (head_kernels c rows). b \<longrightarrow> choice_ok rows kn"
  by (simp add: head_kernels_def)

lemma att_ok: "\<forall>(b, kn) \<in> set (att_kernels c rows). b \<longrightarrow> choice_ok rows kn"
  by (simp add: att_kernels_def)

lemma ffn_ok: "\<forall>(b, kn) \<in> set (ffn_kernels c rows). b \<longrightarrow> choice_ok rows kn"
  by (simp add: ffn_kernels_def)

lemma ball_set_if: "(\<forall>x \<in> set xs. Q x) \<Longrightarrow> \<forall>x \<in> set (if b then xs else []). Q x"
  by simp

lemma orig_kernel_ok: "choice_ok rows (orig_kernel c grp rows)"
  unfolding orig_kernel_def
proof (rule first_of_ok)
  show "\<forall>(b, kn) \<in> set (small_rows_kernels c grp rows @ (if grp = ''head'' then head_kernels c rows else []) @
      (if grp = ''att_c2c'' then att_kernels c rows else []) @ (if grp = ''ffn_key'' then ffn_kernels c rows else [])).
      b \<longrightarrow> choice_ok rows kn"
    unfolding set_append ball_Un by (intro conjI ball_set_if small_rows_ok head_ok att_ok ffn_ok)
qed simp

lemma agreeD:
  assumes "products_agree K"
  shows "kn \<notin> {LinearF16, M1SplitK} \<Longrightarrow> k_lin K kn w = k_lin K LinearF16Orig w"
    and "k_lin K LinearT w = k_lin K LinearF16Orig w" and "k_lin K M1SplitK w = k_lin K LinearF16 w"
    and "k_lin K LinearF16 (k_t K w) = k_lin K LinearF16Orig w" and "k_lin K LinearF16Orig (k_t K w) = k_lin K LinearF16 w"
    and "k_lin_act K act w x = k_lin K LinearF16Orig w (k_act K act x)"
    and "k_size0 K (k_t K w) = k_size1 K w" and "k_size1 K (k_t K w) = k_size0 K w"
proof -
  note all = assms [unfolded products_agree_def]
  show "kn \<notin> {LinearF16, M1SplitK} \<Longrightarrow> k_lin K kn w = k_lin K LinearF16Orig w" using all by blast
  show "k_lin K LinearT w = k_lin K LinearF16Orig w" using all by blast
  show "k_lin K M1SplitK w = k_lin K LinearF16 w" using all by blast
  show "k_lin K LinearF16 (k_t K w) = k_lin K LinearF16Orig w" using all by blast
  show "k_lin K LinearF16Orig (k_t K w) = k_lin K LinearF16 w" using all by blast
  show "k_lin_act K act w x = k_lin K LinearF16Orig w (k_act K act x)" using all by blast
  show "k_size0 K (k_t K w) = k_size1 K w" "k_size1 K (k_t K w) = k_size0 K w" using all by blast+
qed

lemma run_orig_product:
  assumes "products_agree K" and "kn \<notin> {LinearF16, M1SplitK}"
    and "launch_ok kn (k_size0 K w) (k_size1 K w) (length (act_rows x))"
  shows "run_linear K kn x w = Inr (amap (k_lin K LinearF16Orig w) x)"
  using assms(3) agreeD(1) [OF assms(1,2), of w] by (simp add: run_linear_def)

lemma linear_disp_product:
  assumes "products_agree K"
  shows "linear_disp K x (k_t K w) = Inr (amap (k_lin K LinearF16Orig w) x)"
  by (simp add: linear_disp_def run_linear_def launch_ok_def agreeD(3,4) [OF assms])

lemma layout_product:
  assumes "products_agree K" and "even (k_size0 K w)" and "4 dvd k_size1 K w"
    and "rows = int (length (act_rows x))" and "w' = (if use_orig_linear wc grp then w else k_t K w)"
  shows "linear_orig_layout K wc c x w' rows grp = Inr (amap (k_lin K LinearF16Orig w) x)"
proof (cases "use_orig_linear wc grp")
  case True
  have "choice_ok rows (orig_kernel c grp rows)" by (rule orig_kernel_ok)
  then have "run_linear K (orig_kernel c grp rows) x w = Inr (amap (k_lin K LinearF16Orig w) x)"
    using assms(2-4) by (intro run_orig_product [OF assms(1)]) (auto simp: choice_ok_def)
  then show ?thesis using True assms(5) by (simp add: linear_orig_layout_def)
next
  case False
  then show ?thesis using linear_disp_product [OF assms(1)] assms(5) by (simp add: linear_orig_layout_def)
qed

text \<open>
  For every width of the model, group of weights and number of rows, the kernel chosen is
  one whose launch is accepted, and it computes the product with the checkpoint's weight, in
  whichever layout the weight was stored.
\<close>

theorem orig_layout_product:
  assumes "products_agree K" and "even (k_size0 K w)" and "4 dvd k_size1 K w"
    and "rows = int (length (act_rows x))" and "w' = (if use_orig_linear wc grp then w else k_t K w)"
  shows "linear_orig_layout K wc c x w' rows grp = Inr (amap (k_lin K LinearF16Orig w) x)"
  by (rule layout_product [OF assms])

text \<open>Low-rank weights are stored as they are, transposed, or both ways.\<close>

definition lowrank_plain :: "string \<Rightarrow> 'p \<Rightarrow> 'p option" where
  "lowrank_plain mode w = (if mode \<in> {''orig'', ''both''} then Some w else None)"

definition lowrank_t :: "('v, 'w, 'p) kernels \<Rightarrow> string \<Rightarrow> 'p \<Rightarrow> 'p option" where
  "lowrank_t K mode w = (if mode \<in> {''transpose'', ''both''} then Some (k_t K w) else None)"

definition lowrank_modes :: "string set" where
  "lowrank_modes = {''orig'', ''transpose'', ''both''}"

lemma linear_either_product:
  assumes "products_agree K" and "mode \<in> lowrank_modes"
  shows "linear_either K x (lowrank_plain mode w) (lowrank_t K mode w) = Inr (amap (k_lin K LinearF16 w) x)"
  using assms(2) by (auto simp: linear_either_def lowrank_plain_def lowrank_t_def lowrank_modes_def run_linear_def
      launch_ok_def agreeD(5) [OF assms(1)])

lemma linear_t_product:
  assumes "products_agree K"
  shows "run_linear K LinearT x (k_t K w) = Inr (amap (k_lin K LinearF16 w) x)"
  by (simp add: run_linear_def launch_ok_def agreeD(2,5) [OF assms])

lemma rank_products:
  assumes "products_agree K" and "mode \<in> lowrank_modes"
  shows "linear_rank_in K x (lowrank_plain mode w) (lowrank_t K mode w) rows = Inr (amap (k_lin K LinearF16 w) x)"
    and "linear_rank_out K c x (lowrank_plain mode w) (lowrank_t K mode w) rows = Inr (amap (k_lin K LinearF16 w) x)"
  using linear_either_product [OF assms, of x w] linear_t_product [OF assms(1), of x w]
  by (auto simp: linear_rank_in_def linear_rank_out_def lowrank_t_def)

lemma rank_act_product:
  assumes "products_agree K" and "mode \<in> lowrank_modes" and "k_size0 K w \<le> 512" and "int (k_size1 K w) = c"
    and "rows = int (length (act_rows x))"
  shows "linear_rank_out_act K c x (lowrank_plain mode w) (lowrank_t K mode w) rows act =
    Inr (amap (\<lambda>v. k_lin K LinearF16 w (k_act K act v)) x)"
proof -
  have act: "amap (k_lin K LinearF16 w) (amap (k_act K act) x) = amap (\<lambda>v. k_lin K LinearF16 w (k_act K act v)) x"
    by (simp add: amap_def)
  have "run_linear_t_act K act x (k_t K w) = Inr (amap (\<lambda>v. k_lin K LinearF16 w (k_act K act v)) x)"
    if "can_use_lowrank_out_fused lorank_cfg rows c"
    using that assms(3-5)
    by (simp add: run_linear_t_act_def can_use_lowrank_out_fused_def lorank_cfg_def amap_def agreeD(5-8) [OF assms(1)])
  then show ?thesis
    using linear_either_product [OF assms(1,2), of "amap (k_act K act) x" w]
    by (auto simp: linear_rank_out_act_def lowrank_t_def act)
qed

end
