(* ===== verification/Time_Mix.thy ===== *)
theory Time_Mix
  imports Linear_Dispatch
begin

text \<open>
  \<^verbatim>\<open>vkwr/model_executor/layers/time_mix_varlen_v2x.py\<close>: the time mixing of a layer over a packed
  batch. The parts of \<^verbatim>\<open>forward\<close> are definitions in the order of the code: the six mixes, the
  projections, the low-rank inner and outer products, the key's gate, the value's residual, the
  recurrence and the output. A weight that is not there is a \<open>KeyError\<close>, a view that does not fit
  and a launch that is refused are \<open>RuntimeError\<close>s; what a failed call has written to the states
  is not modelled.
\<close>

record model_env =
  me_C :: nat
  me_wc :: weight_config
  me_ic :: inference_config

text \<open>The batch: number of sequences, longest one, offsets, the sequence of every row, slots.\<close>

record packed =
  ba_B :: nat
  ba_max_t :: nat
  ba_offs :: "nat list"
  ba_req :: "nat list"
  ba_slots :: "nat list"
  ba_uniform :: bool

section \<open>Mixes and projections\<close>

definition mx_r :: "'v mixes \<Rightarrow> 'v" where "mx_r m = (case m of (r, w, k, v, a, g) \<Rightarrow> r)"
definition mx_w :: "'v mixes \<Rightarrow> 'v" where "mx_w m = (case m of (r, w, k, v, a, g) \<Rightarrow> w)"
definition mx_k :: "'v mixes \<Rightarrow> 'v" where "mx_k m = (case m of (r, w, k, v, a, g) \<Rightarrow> k)"
definition mx_v :: "'v mixes \<Rightarrow> 'v" where "mx_v m = (case m of (r, w, k, v, a, g) \<Rightarrow> v)"
definition mx_a :: "'v mixes \<Rightarrow> 'v" where "mx_a m = (case m of (r, w, k, v, a, g) \<Rightarrow> a)"
definition mx_g :: "'v mixes \<Rightarrow> 'v" where "mx_g m = (case m of (r, w, k, v, a, g) \<Rightarrow> g)"

definition mix_weights :: "'p weights \<Rightarrow> string \<Rightarrow> 'p mixes res" where
  "mix_weights z p =
     bindE (weight z (p @ ''x_r'')) (\<lambda>w_r. bindE (weight z (p @ ''x_w'')) (\<lambda>w_w.
     bindE (weight z (p @ ''x_k'')) (\<lambda>w_k. bindE (weight z (p @ ''x_v'')) (\<lambda>w_v.
     bindE (weight z (p @ ''x_a'')) (\<lambda>w_a. bindE (weight z (p @ ''x_g'')) (\<lambda>w_g.
     Inr (w_r, w_w, w_k, w_v, w_a, w_g)))))))"

definition tmix_inputs ::
    "('v, 'w, 'p) kernels \<Rightarrow> 'p weights \<Rightarrow> string \<Rightarrow> nat \<Rightarrow> packed \<Rightarrow> 'v mixes act option \<Rightarrow> 'v act \<Rightarrow> ('v, 'w) states
       \<Rightarrow> ('v mixes act \<times> ('v, 'w) states) res" where
  "tmix_inputs K z p l ba pre_mix x st =
     (case pre_mix of
        Some m \<Rightarrow> Inr (m, st)
      | None \<Rightarrow>
          bindE (mix_weights z p) (\<lambda>ws.
          if ba_uniform ba
          then bindE (view3 (ba_B ba) (ba_max_t ba) x) (\<lambda>x3.
                 Inr (tmix_mix6 K (ba_B ba) (ba_max_t ba) (ba_slots ba) l ws x3 st))
          else Inr (tmix_mix6_varlen K (ba_B ba) (ba_offs ba) (ba_req ba) (ba_slots ba) l ws x st)))"

text \<open>\<^verbatim>\<open>t.view(b, -1, C)\<close>\<close>

definition view_b :: "nat \<Rightarrow> 'v act \<Rightarrow> 'v act res" where
  "view_b b a =
     (if b \<noteq> 0 \<and> length (act_rows a) mod b = 0 then Inr (Act [b, length (act_rows a) div b] (act_rows a))
      else Inl (RuntimeError ''shape is invalid''))"

text \<open>
  \<^verbatim>\<open>torch.bmm(torch.stack((x, y, z)), weight)\<close>: the stack has one dimension more than its parts,
  and \<^verbatim>\<open>bmm\<close> takes tensors of three dimensions, that of the row included, only.
\<close>

definition stack_bmm :: "('v, 'w, 'p) kernels \<Rightarrow> 'p \<Rightarrow> 'v act \<Rightarrow> 'v act \<Rightarrow> 'v act \<Rightarrow> ('v \<times> 'v \<times> 'v) act res" where
  "stack_bmm K w x y z =
     bindE (azip y z) (\<lambda>yz. bindE (azip x yz) (\<lambda>xyz.
     if length (act_shape xyz) = 1 then Inr (amap (k_bmm K w) xyz)
     else Inl (RuntimeError ''batch1 must be a 3D tensor'')))"

definition tmix_rkv ::
    "('v, 'w, 'p) kernels \<Rightarrow> model_env \<Rightarrow> 'p weights \<Rightarrow> string \<Rightarrow> path_config \<Rightarrow> packed \<Rightarrow> nat \<Rightarrow> 'v mixes act
       \<Rightarrow> ('v act \<times> 'v act \<times> 'v act) res" where
  "tmix_rkv K me z p path ba n_tok m =
     (let xr = amap mx_r m; xk = amap mx_k m; xv = amap mx_v m;
          lin = (\<lambda>x key. bindE (weight z (p @ key)) (\<lambda>w.
                   linear_orig_layout K (me_wc me) (int (me_C me)) x w (path_rows path) ''att_c2c''))
      in if path_use_batched_rkv path then
           if ba_uniform ba then
             bindE (view_b (ba_B ba) xr) (\<lambda>r. bindE (view_b (ba_B ba) xk) (\<lambda>k. bindE (view_b (ba_B ba) xv) (\<lambda>v.
             bindE (weight z (p @ ''rkv.weight'')) (\<lambda>w.
             bindE (stack_bmm K w r k v) (\<lambda>rkv.
             bindE (view3 (ba_B ba) (ba_max_t ba) (amap fst rkv)) (\<lambda>r.
             bindE (view3 (ba_B ba) (ba_max_t ba) (amap (fst \<circ> snd) rkv)) (\<lambda>k.
             bindE (view3 (ba_B ba) (ba_max_t ba) (amap (snd \<circ> snd) rkv)) (\<lambda>v.
             Inr (r, k, v)))))))))
           else
             bindE (weight z (p @ ''rkv.weight'')) (\<lambda>w.
             bindE (stack_bmm K w (flat xr) (flat xk) (flat xv)) (\<lambda>rkv.
             bindE (view2 n_tok (amap fst rkv)) (\<lambda>r.
             bindE (view2 n_tok (amap (fst \<circ> snd) rkv)) (\<lambda>k.
             bindE (view2 n_tok (amap (snd \<circ> snd) rkv)) (\<lambda>v.
             Inr (r, k, v))))))
         else if ba_uniform ba then
           bindE (view3 (ba_B ba) (ba_max_t ba) xr) (\<lambda>xr. bindE (lin xr ''receptance.weight'') (\<lambda>r.
           bindE (view3 (ba_B ba) (ba_max_t ba) xk) (\<lambda>xk. bindE (lin xk ''key.weight'') (\<lambda>k.
           bindE (view3 (ba_B ba) (ba_max_t ba) xv) (\<lambda>xv. bindE (lin xv ''value.weight'') (\<lambda>v.
           Inr (r, k, v)))))))
         else
           bindE (lin xr ''receptance.weight'') (\<lambda>r. bindE (lin xk ''key.weight'') (\<lambda>k.
           bindE (lin xv ''value.weight'') (\<lambda>v. Inr (r, k, v)))))"

section \<open>Low-rank products\<close>

definition rank_fused :: "model_env \<Rightarrow> path_config \<Rightarrow> bool" where
  "rank_fused me path \<longleftrightarrow> ic_lowrank_weight (me_ic me) \<noteq> ''orig'' \<and>
     can_use_lowrank_fused lorank_cfg (path_rows path) (int (me_C me))"

definition rank_out_fused :: "model_env \<Rightarrow> path_config \<Rightarrow> bool" where
  "rank_out_fused me path \<longleftrightarrow> ic_lowrank_weight (me_ic me) \<noteq> ''orig'' \<and>
     can_use_lowrank_out_fused lorank_cfg (path_rows path) (int (me_C me))"

text \<open>\<^verbatim>\<open>w1\<close>, \<^verbatim>\<open>a1\<close>, \<^verbatim>\<open>g1\<close> and, from the widest kernel only, \<^verbatim>\<open>v1\<close>.\<close>

definition tmix_rank_in ::
    "('v, 'w, 'p) kernels \<Rightarrow> model_env \<Rightarrow> 'p weights \<Rightarrow> string \<Rightarrow> nat \<Rightarrow> path_config \<Rightarrow> 'v mixes act
       \<Rightarrow> ('v act \<times> 'v act \<times> 'v act \<times> 'v act option) res" where
  "tmix_rank_in K me z p l path m =
     (let lin = (\<lambda>x key. linear_rank_in K x (z (p @ key)) (z (p @ key @ ''.t'')) (path_rows path))
      in if rank_fused me path \<and> rank_out_fused me path \<and> l \<noteq> 0 then
           bindE (weight z (p @ ''w1.t'')) (\<lambda>w1. bindE (weight z (p @ ''a1.t'')) (\<lambda>a1.
           bindE (weight z (p @ ''g1.t'')) (\<lambda>g1. bindE (weight z (p @ ''v1.t'')) (\<lambda>v1.
           let o1 = amap (\<lambda>x. k_wagv_in K (w1, a1, g1, v1) (mx_w x, mx_a x, mx_g x, mx_v x)) m
           in Inr (amap fst o1, amap (fst \<circ> snd) o1, amap (fst \<circ> snd \<circ> snd) o1, Some (amap (snd \<circ> snd \<circ> snd) o1))))))
         else if rank_fused me path then
           bindE (weight z (p @ ''w1.t'')) (\<lambda>w1. bindE (weight z (p @ ''a1.t'')) (\<lambda>a1.
           bindE (weight z (p @ ''g1.t'')) (\<lambda>g1.
           let o1 = amap (\<lambda>x. k_wag_in K (w1, a1, g1) (mx_w x, mx_a x, mx_g x)) m
           in Inr (amap fst o1, amap (fst \<circ> snd) o1, amap (snd \<circ> snd) o1, None))))
         else
           bindE (lin (amap mx_w m) ''w1'') (\<lambda>w1. bindE (lin (amap mx_a m) ''a1'') (\<lambda>a1.
           bindE (lin (amap mx_g m) ''g1'') (\<lambda>g1. Inr (w1, a1, g1, None)))))"

text \<open>\<^verbatim>\<open>w\<close>, \<^verbatim>\<open>a\<close>, \<^verbatim>\<open>g\<close> and, from the widest kernel only, the value with its residual.\<close>

definition tmix_rank_out ::
    "('v, 'w, 'p) kernels \<Rightarrow> model_env \<Rightarrow> 'p weights \<Rightarrow> string \<Rightarrow> nat \<Rightarrow> path_config \<Rightarrow> 'v act \<Rightarrow> 'v act
       \<Rightarrow> 'v act \<times> 'v act \<times> 'v act \<times> 'v act option \<Rightarrow> ('v act \<times> 'v act \<times> 'v act \<times> 'v act option) res" where
  "tmix_rank_out K me z p l path v v_first ins =
     (case ins of (w1, a1, g1, v1) \<Rightarrow>
        let c = int (me_C me)
        in if rank_out_fused me path \<and> l \<noteq> 0 \<and> v1 \<noteq> None then
             bindE (weight z (p @ ''w2.t'')) (\<lambda>w2. bindE (weight z (p @ ''a2.t'')) (\<lambda>a2.
             bindE (weight z (p @ ''g2.t'')) (\<lambda>g2. bindE (weight z (p @ ''v2.t'')) (\<lambda>v2.
             bindE (weight z (p @ ''v0'')) (\<lambda>v0.
             bindE (azip g1 (the v1)) (\<lambda>gv. bindE (azip a1 gv) (\<lambda>agv. bindE (azip w1 agv) (\<lambda>wagv.
             bindE (azip v v_first) (\<lambda>vv. bindE (azip wagv vv) (\<lambda>all.
             let o1 = amap (k_wagv_out K (w2, a2, g2, v2, v0)) all
             in Inr (amap fst o1, amap (fst \<circ> snd) o1, amap (fst \<circ> snd \<circ> snd) o1,
                     Some (amap (snd \<circ> snd \<circ> snd) o1))))))))))))
           else if rank_out_fused me path then
             bindE (weight z (p @ ''w2.t'')) (\<lambda>w2. bindE (weight z (p @ ''a2.t'')) (\<lambda>a2.
             bindE (weight z (p @ ''g2.t'')) (\<lambda>g2.
             bindE (azip a1 g1) (\<lambda>ag. bindE (azip w1 ag) (\<lambda>wag.
             let o1 = amap (k_wag_out K (w2, a2, g2)) wag
             in Inr (amap fst o1, amap (fst \<circ> snd) o1, amap (snd \<circ> snd) o1, None))))))
           else
             bindE (linear_rank_out_act K c w1 (z (p @ ''w2'')) (z (p @ ''w2.t'')) (path_rows path) 1) (\<lambda>w.
             bindE (linear_rank_out K c a1 (z (p @ ''a2'')) (z (p @ ''a2.t'')) (path_rows path)) (\<lambda>a.
             bindE (linear_rank_out_act K c g1 (z (p @ ''g2'')) (z (p @ ''g2.t'')) (path_rows path) 2) (\<lambda>g.
             Inr (w, a, g, None)))))"

section \<open>Gate and residual\<close>

text \<open>The three-dimensional view the row-wise kernels are given.\<close>

definition rows_view :: "packed \<Rightarrow> nat \<Rightarrow> 'v act \<Rightarrow> 'v act res" where
  "rows_view ba n_tok a = (if ba_uniform ba then view3 (ba_B ba) (ba_max_t ba) a else view3 n_tok 1 a)"

definition tmix_gate ::
    "('v, 'w, 'p) kernels \<Rightarrow> 'p weights \<Rightarrow> string \<Rightarrow> packed \<Rightarrow> nat \<Rightarrow> 'v act \<Rightarrow> 'v act
       \<Rightarrow> ('v act \<times> 'v act \<times> 'v act) res" where
  "tmix_gate K z p ba n_tok k a =
     bindE (rows_view ba n_tok k) (\<lambda>k3. bindE (rows_view ba n_tok a) (\<lambda>a3.
     bindE (weight z (p @ ''k_k'')) (\<lambda>k_k. bindE (weight z (p @ ''a0'')) (\<lambda>a0.
     bindE (weight z (p @ ''k_a'')) (\<lambda>k_a.
     bindE (azip k3 a3) (\<lambda>ka.
     let o1 = amap (k_kk_a K (k_k, a0, k_a)) ka
     in bindE (view2 n_tok (amap fst o1)) (\<lambda>k. bindE (view2 n_tok (amap (fst \<circ> snd) o1)) (\<lambda>neg_kk.
        bindE (view2 n_tok (amap (snd \<circ> snd) o1)) (\<lambda>kka. Inr (k, neg_kk, kka))))))))))"

text \<open>The value and the first layer's value for the layers to come.\<close>

definition tmix_value ::
    "('v, 'w, 'p) kernels \<Rightarrow> model_env \<Rightarrow> 'p weights \<Rightarrow> string \<Rightarrow> nat \<Rightarrow> path_config \<Rightarrow> packed \<Rightarrow> nat \<Rightarrow> 'v act
       \<Rightarrow> 'v act \<Rightarrow> 'v act \<Rightarrow> 'v act option \<Rightarrow> ('v act \<times> 'v act) res" where
  "tmix_value K me z p l path ba n_tok xv v v_first v_done =
     (case v_done of
        Some v' \<Rightarrow> if l = 0 then Inr (v', v') else Inr (v', v_first)
      | None \<Rightarrow>
          if l = 0 then Inr (v, v)
          else if rank_out_fused me path then Inr (v, v_first)
          else
            bindE (linear_rank_in K xv (z (p @ ''v1'')) (z (p @ ''v1.t'')) (path_rows path)) (\<lambda>v1.
            bindE (linear_rank_out K (int (me_C me)) v1 (z (p @ ''v2'')) (z (p @ ''v2.t'')) (path_rows path)) (\<lambda>v12.
            bindE (rows_view ba n_tok v) (\<lambda>v3. bindE (rows_view ba n_tok v_first) (\<lambda>vf3.
            bindE (weight z (p @ ''v0'')) (\<lambda>v0. bindE (rows_view ba n_tok v12) (\<lambda>v123.
            bindE (azip vf3 v123) (\<lambda>b. bindE (azip v3 b) (\<lambda>all.
            bindE (view2 n_tok (amap (k_vres K v0) all)) (\<lambda>v'. Inr (v', v_first)))))))))))"

section \<open>The recurrence\<close>

definition zip6 :: "'v act \<Rightarrow> 'v act \<Rightarrow> 'v act \<Rightarrow> 'v act \<Rightarrow> 'v act \<Rightarrow> 'v act \<Rightarrow> 'v wkv_in list" where
  "zip6 r w k v a b =
     zip (act_rows r) (zip (act_rows w) (zip (act_rows k) (zip (act_rows v) (zip (act_rows a) (act_rows b)))))"

text \<open>The six inputs in the view a kernel takes.\<close>

definition wkv_inputs ::
    "('v act \<Rightarrow> 'v act res) \<Rightarrow> 'v act \<Rightarrow> 'v act \<Rightarrow> 'v act \<Rightarrow> 'v act \<Rightarrow> 'v act \<Rightarrow> 'v act \<Rightarrow> 'v wkv_in list res" where
  "wkv_inputs vw r w k v a b =
     bindE (vw r) (\<lambda>r. bindE (vw w) (\<lambda>w. bindE (vw k) (\<lambda>k. bindE (vw v) (\<lambda>v. bindE (vw a) (\<lambda>a. bindE (vw b) (\<lambda>b.
     Inr (zip6 r w k v a b)))))))"

definition view_row :: "nat \<Rightarrow> 'v act \<Rightarrow> 'v act res" where
  "view_row b a = (if length (act_shape a) = 2 then view2 b a else Inr a)"

definition tmix_wkv ::
    "('v, 'w, 'p) kernels \<Rightarrow> model_env \<Rightarrow> 'p weights \<Rightarrow> string \<Rightarrow> nat \<Rightarrow> packed
       \<Rightarrow> 'v act \<Rightarrow> 'v act \<Rightarrow> 'v act \<Rightarrow> 'v act \<Rightarrow> 'v act \<Rightarrow> 'v act \<Rightarrow> ('v, 'w) states \<Rightarrow> ('v act \<times> ('v, 'w) states) res" where
  "tmix_wkv K me z p l ba r w k v neg_kk kka st =
     bindE (weight z (p @ ''w0'')) (\<lambda>w0.
     let fp32 = (ic_wkv_mode (me_ic me) = ''fp32io16'');
         w_raw = amap (k_add_vec K w0) w;
         one = uniform_offs (ba_B ba) 1;
         uni = uniform_offs (ba_B ba) (ba_max_t ba);
         run = (\<lambda>f offs ins. case wkv_batch f l offs (ba_slots ba) ins st of (ys, st') \<Rightarrow> Inr (Act (act_shape r) ys, st'))
     in if ba_max_t ba = 1 then
          if fp32 then bindE (wkv_inputs (view3 (ba_B ba) 1) r w_raw k v neg_kk kka) (run (\<lambda>s e. k_wkv32 K s) one)
          else bindE (wkv_inputs (view_row (ba_B ba)) r w k v neg_kk kka) (run (k_wkv16_w0 K w0) one)
        else if ba_uniform ba then
          if fp32 then
            bindE (wkv_inputs (view3 (ba_B ba) (ba_max_t ba)) r w_raw k v neg_kk kka) (run (\<lambda>s e. k_wkv32 K s) uni)
          else if ba_max_t ba \<le> 16 then
            bindE (wkv_inputs (view3 (ba_B ba) (ba_max_t ba)) r w k v neg_kk kka) (run (k_wkv16_w0 K w0) uni)
          else
            bindE (wkv_inputs (view3 (ba_B ba) (ba_max_t ba)) r w_raw k v neg_kk kka) (run (k_wkv16 K) uni)
        else if fp32 then bindE (wkv_inputs Inr r w_raw k v neg_kk kka) (run (\<lambda>s e. k_wkv32 K s) (ba_offs ba))
        else if ba_max_t ba \<le> 16 then
          bindE (wkv_inputs Inr r w k v neg_kk kka) (run (k_wkv16_w0 K w0) (ba_offs ba))
        else bindE (wkv_inputs Inr r w_raw k v neg_kk kka) (run (k_wkv16 K) (ba_offs ba)))"

section \<open>The layer's time mixing\<close>

definition tmix_out ::
    "('v, 'w, 'p) kernels \<Rightarrow> model_env \<Rightarrow> 'p weights \<Rightarrow> string \<Rightarrow> path_config \<Rightarrow> packed \<Rightarrow> nat
       \<Rightarrow> 'v act \<Rightarrow> 'v act \<Rightarrow> 'v act \<Rightarrow> 'v act \<Rightarrow> 'v act \<Rightarrow> 'v act res" where
  "tmix_out K me z p path ba n_tok y r k v g =
     bindE (rows_view ba n_tok y) (\<lambda>y. bindE (rows_view ba n_tok r) (\<lambda>r. bindE (rows_view ba n_tok k) (\<lambda>k.
     bindE (rows_view ba n_tok v) (\<lambda>v.
     bindE (weight z (p @ ''r_k'')) (\<lambda>r_k. bindE (weight z (p @ ''ln_x.weight'')) (\<lambda>lw.
     bindE (weight z (p @ ''ln_x.bias'')) (\<lambda>lb.
     bindE (rows_view ba n_tok g) (\<lambda>g.
     bindE (azip v g) (\<lambda>vg. bindE (azip k vg) (\<lambda>kvg. bindE (azip r kvg) (\<lambda>rkvg. bindE (azip y rkvg) (\<lambda>all.
     bindE (view2 n_tok (amap (k_lnx K (r_k, lw, lb)) all)) (\<lambda>y.
     bindE (weight z (p @ ''output.weight'')) (\<lambda>ow.
     linear_orig_layout K (me_wc me) (int (me_C me)) y ow (path_rows path) ''att_c2c''))))))))))))))"

definition tmix_forward ::
    "('v, 'w, 'p) kernels \<Rightarrow> model_env \<Rightarrow> 'p weights \<Rightarrow> string \<Rightarrow> nat \<Rightarrow> path_config \<Rightarrow> packed \<Rightarrow> 'v mixes act option
       \<Rightarrow> 'v act \<Rightarrow> 'v act \<Rightarrow> ('v, 'w) states \<Rightarrow> ('v act \<times> 'v act \<times> ('v, 'w) states) res" where
  "tmix_forward K me z p l path ba pre_mix x v_first st =
     (let n_tok = hd (act_shape x)
      in bindE (tmix_inputs K z p l ba pre_mix x st) (\<lambda>(m, st).
         bindE (tmix_rkv K me z p path ba n_tok m) (\<lambda>(r, k, v).
         bindE (tmix_rank_in K me z p l path m) (\<lambda>ins.
         bindE (tmix_rank_out K me z p l path v v_first ins) (\<lambda>(w, a, g, v_done).
         bindE (tmix_gate K z p ba n_tok k a) (\<lambda>(k, neg_kk, kka).
         bindE (tmix_value K me z p l path ba n_tok (amap mx_v m) v v_first v_done) (\<lambda>(v, v_first).
         bindE (tmix_wkv K me z p l ba r w k v neg_kk kka st) (\<lambda>(y, st).
         bindE (tmix_out K me z p path ba n_tok y r k v g) (\<lambda>out.
         Inr (out, v_first, st))))))))))"

end
