(* ===== verification/Channel_Mix.thy ===== *)
theory Channel_Mix
  imports Time_Mix
begin

text \<open>
  \<^verbatim>\<open>vkwr/model_executor/layers/channel_mix_varlen_v2x.py\<close>: the channel mixing of a layer. On a uniform
  batch the kernel is chosen by \<^verbatim>\<open>_compute_cmix_mode\<close>, on any other by the path. The host code of
  the sparse kernels (\<^verbatim>\<open>csrc/v2/mix\<close>) checks the widths.
\<close>

definition compute_cmix_mode :: "inference_config \<Rightarrow> int \<Rightarrow> int \<Rightarrow> string" where
  "compute_cmix_mode ic b t =
     (let rows = b * t; th = cmix_thresholds_defaults;
          use_nofc = rows \<le> nofc_max_rows th \<or> (rows = 20 \<and> t \<le> nofc_row20_max_t th)
      in if ic_cmix_sparse ic = ''off'' then CMIX_DENSE
         else if ic_cmix_sparse ic = ''no-fc'' then
           (if rows = 1 then CMIX_B1T1_NOFC else if use_nofc then CMIX_ROWS2_NOFC else CMIX_DENSE)
         else if rows = 1 then CMIX_B1T1_SPARSE
         else if rows = 2 then CMIX_ROWS2_NOFC
         else if use_nofc then CMIX_ROWS2_NOFC
         else CMIX_DENSE)"

text \<open>The launch of a sparse kernel on width \<open>c\<close> and inner width \<open>f\<close>.\<close>

definition sparse_widths :: "nat \<Rightarrow> nat \<Rightarrow> bool" where
  "sparse_widths c f \<longleftrightarrow> c mod 256 = 0 \<and> f mod 128 = 0"

definition run_down_relu ::
    "('v, 'w, 'p) kernels \<Rightarrow> sparse_kernel \<Rightarrow> nat \<Rightarrow> nat \<Rightarrow> 'v act \<Rightarrow> 'p \<Rightarrow> 'v act res" where
  "run_down_relu K kn c f x w =
     (if (case kn of DownReluOne \<Rightarrow> sparse_widths c f \<and> length (act_rows x) = 1
            | DownReluRows \<Rightarrow> sparse_widths c f
            | DownReluRowsT512 \<Rightarrow> c mod 512 = 0 \<and> f mod 512 = 0)
      then Inr (amap (k_down_relu K kn w) x) else Inl (RuntimeError ''unsupported kernel launch''))"

definition cmix_from_mixed ::
    "('v, 'w, 'p) kernels \<Rightarrow> model_env \<Rightarrow> 'p weights \<Rightarrow> string \<Rightarrow> path_config \<Rightarrow> string option \<Rightarrow> 'v act \<Rightarrow> 'v act res" where
  "cmix_from_mixed K me z p path cmix_mode mixed =
     (let mode = (case cmix_mode of None \<Rightarrow> path_cmix_mode path | Some md \<Rightarrow> md);
          hid = bindE (weight z (p @ ''ffn.key.weight'')) (\<lambda>w.
                  linear_orig_layout K (me_wc me) (int (me_C me)) mixed w (path_rows path) ''ffn_key'');
          dims = (if length (act_shape mixed) = 2 then Inr () else Inl (ValueError ''not enough values to unpack''))
      in if mode = CMIX_B1T1_NOFC then
           bindE dims (\<lambda>_. bindE hid (\<lambda>h.
           bindE (weight z (p @ ''ffn.value.weight'')) (\<lambda>w.
           run_down_relu K DownReluOne (me_C me) (k_size0 K w) (Act [1, 1] (act_rows h)) w)))
         else if mode = CMIX_ROWS2_NOFC then
           bindE dims (\<lambda>_. bindE hid (\<lambda>h.
           bindE (weight z (p @ ''ffn.value.weight'')) (\<lambda>w.
           run_down_relu K
             (if path_rows path \<ge> 8 \<and> me_C me mod 512 = 0 \<and> k_size0 K w mod 512 = 0 then DownReluRowsT512
              else DownReluRows) (me_C me) (k_size0 K w) h w)))
         else
           bindE hid (\<lambda>h. bindE (weight z (p @ ''ffn.value.weight'')) (\<lambda>w.
           linear_disp K (amap (k_relu_sq K) h) w)))"

definition cmix_forward ::
    "('v, 'w, 'p) kernels \<Rightarrow> model_env \<Rightarrow> 'p weights \<Rightarrow> string \<Rightarrow> nat \<Rightarrow> path_config \<Rightarrow> packed \<Rightarrow> 'v act
       \<Rightarrow> ('v, 'w) states \<Rightarrow> ('v act \<times> ('v, 'w) states) res" where
  "cmix_forward K me z p l path ba x st =
     (if ba_uniform ba then
        bindE (view3 (ba_B ba) (ba_max_t ba) x) (\<lambda>x3.
        let mode = compute_cmix_mode (me_ic me) (int (ba_B ba)) (int (ba_max_t ba))
        in if mode = CMIX_B1T1_SPARSE \<or> mode = CMIX_ROWS2_SPARSE then
             bindE (weight z (p @ ''ffn.key.weight.fc'')) (\<lambda>fc. bindE (weight z (p @ ''ffn.x_k'')) (\<lambda>x_k.
             bindE (weight z (p @ ''ffn.value.weight'')) (\<lambda>vw.
             if sparse_widths (me_C me) (k_size0 K fc)
             then case cmix_sparse K (ba_B ba) (ba_max_t ba) (ba_slots ba) l (x_k, fc, vw) x3 st of
                    (y, st') \<Rightarrow> Inr (flat y, st')
             else Inl (RuntimeError ''unsupported kernel launch''))))
           else
             bindE (weight z (p @ ''ffn.x_k'')) (\<lambda>x_k.
             case cmix_mix K (ba_B ba) (ba_max_t ba) (ba_slots ba) l x_k x3 st of
               (mixed, st') \<Rightarrow> bindE (cmix_from_mixed K me z p path (Some mode) mixed) (\<lambda>y. Inr (flat y, st'))))
      else
        bindE (weight z (p @ ''ffn.x_k'')) (\<lambda>x_k.
        case cmix_mix_varlen K (ba_B ba) (ba_offs ba) (ba_req ba) (ba_slots ba) l x_k x st of
          (mixed, st') \<Rightarrow> bindE (cmix_from_mixed K me z p path None mixed) (\<lambda>y. Inr (y, st'))))"

end
