(* ===== verification/Rwkv_Model.thy ===== *)
theory Rwkv_Model
  imports Channel_Mix
begin

text \<open>
  \<^verbatim>\<open>vkwr/model_executor/models/rwkv7_varlen_v2x.py\<close>: the forward pass of the network over a packed
  batch, from the tokens of all sequences to the logits of each one's last token, the states of
  their slots updated. Moving tensors between devices changes no values and is left out.
\<close>

section \<open>The model\<close>

record ('v, 'w, 'p) rwkv =
  rm_K :: "('v, 'w, 'p) kernels"
  rm_L :: nat
  rm_me :: model_env
  rm_sel :: path_selector
  rm_z :: "'p weights"
  rm_emb :: "'v list"

text \<open>
  \<^verbatim>\<open>embed\<close>. On the GPU negative indices count from the end and others out of range end in a
  failed assertion of the device; on the CPU \<^verbatim>\<open>index_select\<close> takes indices in range only.
\<close>

definition emb_row :: "('v, 'w, 'p) rwkv \<Rightarrow> token \<Rightarrow> 'v res" where
  "emb_row M t =
     (let n = int (length (rm_emb M))
      in if ic_emb_device (me_ic (rm_me M)) \<noteq> ''cpu'' then
           if 0 \<le> t \<and> t < n then Inr (rm_emb M ! nat t)
           else if - n \<le> t \<and> t < 0 then Inr (rm_emb M ! nat (n + t))
           else Inl (RuntimeError ''device-side assert triggered'')
         else if 0 \<le> t \<and> t < n then Inr (rm_emb M ! nat t) else Inl IndexError)"

definition embed :: "('v, 'w, 'p) rwkv \<Rightarrow> token list \<Rightarrow> 'v act res" where
  "embed M tokens = bindE (mapE (emb_row M) tokens) (\<lambda>xs. Inr (Act [length xs] xs))"

text \<open>\<^verbatim>\<open>_build_req_id\<close>: which sequence a row belongs to. The entries start out undefined.\<close>

definition build_req_id :: "nat \<Rightarrow> nat list \<Rightarrow> nat list" where
  "build_req_id n offs =
     fold (\<lambda>i req. map (\<lambda>j. if offs ! i \<le> j \<and> j < offs ! Suc i then i else req ! j) [0..<n])
       [0..<length offs - 1] (replicate n 0)"

section \<open>A layer\<close>

definition layer_prefix :: "nat \<Rightarrow> string" where
  "layer_prefix l = ''blocks.'' @ decimal l @ ''.''"

definition add_ln :: "('v, 'w, 'p) kernels \<Rightarrow> 'v act \<Rightarrow> 'v act \<Rightarrow> 'p \<Rightarrow> 'p \<Rightarrow> ('v act \<times> 'v act) res" where
  "add_ln K x residual w b =
     bindE (azip x residual) (\<lambda>both.
     let outs = amap (\<lambda>(x, r). k_add_ln K w b x r) both in Inr (amap fst outs, amap snd outs))"

definition layer_body ::
    "('v, 'w, 'p) rwkv \<Rightarrow> path_config \<Rightarrow> packed \<Rightarrow> nat \<Rightarrow> 'v act \<Rightarrow> 'v act \<Rightarrow> 'v act \<Rightarrow> 'v mixes act option
       \<Rightarrow> ('v, 'w) states \<Rightarrow> ('v act \<times> 'v act \<times> 'v act \<times> ('v, 'w) states) res" where
  "layer_body M path ba l x xx v_first pre_mix st =
     (let K = rm_K M; me = rm_me M; z = rm_z M; p = layer_prefix l
      in bindE (tmix_forward K me z (p @ ''att.'') l path ba pre_mix xx v_first st) (\<lambda>(xx, v_first, st).
         bindE (weight z (p @ ''ln2.weight'')) (\<lambda>w. bindE (weight z (p @ ''ln2.bias'')) (\<lambda>b.
         bindE (add_ln K x xx w b) (\<lambda>(x, xx_ln).
         bindE (cmix_forward K me z p l path ba xx_ln st) (\<lambda>(xx, st).
         Inr (x, xx, v_first, st)))))))"

text \<open>
  \<^verbatim>\<open>_compute_next_layer_pre_mix\<close>: the norm before the next layer, for a single token fused with
  that layer's mixes, which also keeps the layer's shift row.
\<close>

definition next_pre_mix ::
    "('v, 'w, 'p) rwkv \<Rightarrow> packed \<Rightarrow> nat \<Rightarrow> 'v act \<Rightarrow> 'v act \<Rightarrow> ('v, 'w) states
       \<Rightarrow> ('v act \<times> 'v act \<times> 'v mixes act option \<times> ('v, 'w) states) res" where
  "next_pre_mix M ba l x xx st =
     (let K = rm_K M; z = rm_z M; p = layer_prefix (Suc l)
      in if ic_ln1_tmix_fuse (me_ic (rm_me M)) \<and> ba_uniform ba \<and> ba_max_t ba = 1 \<and> ba_B ba = 1 then
           bindE (view3 1 1 x) (\<lambda>x3. bindE (view3 1 1 xx) (\<lambda>xx3.
           bindE (weight z (p @ ''ln1.weight'')) (\<lambda>w. bindE (weight z (p @ ''ln1.bias'')) (\<lambda>b.
           bindE (mix_weights z (p @ ''att.'')) (\<lambda>ws.
           let s = hd (ba_slots ba)
           in case k_add_ln_mix6 K w b ws (hd (act_rows x3)) (hd (act_rows xx3)) (ss_shift (st s) (Suc l) 0) of
                (x_out, mixes, shift) \<Rightarrow>
                  Inr (Act [1] [x_out], Act [1] [x_out], Some (Act [1, 1] [mixes]), set_shift (Suc l) 0 [s] [shift] st))))))
         else
           bindE (weight z (p @ ''ln1.weight'')) (\<lambda>w. bindE (weight z (p @ ''ln1.bias'')) (\<lambda>b.
           bindE (add_ln K x xx w b) (\<lambda>(x, xx). Inr (x, xx, None, st)))))"

section \<open>The head\<close>

definition linear_head :: "('v, 'w, 'p) rwkv \<Rightarrow> 'v act \<Rightarrow> 'v act res" where
  "linear_head M x =
     bindE (weight (rm_z M) ''head.weight'') (\<lambda>w.
     if \<not> use_orig_linear (me_wc (rm_me M)) ''head'' then linear_disp (rm_K M) x w
     else linear_orig_layout (rm_K M) (me_wc (rm_me M)) (int (me_C (rm_me M))) x w
            (int (length (act_rows x))) ''head'')"

text \<open>The last row of every sequence goes through the last norm and the head.\<close>

definition finalize ::
    "('v, 'w, 'p) rwkv \<Rightarrow> packed \<Rightarrow> 'v act \<Rightarrow> 'v act \<Rightarrow> ('v, 'w) states \<Rightarrow> ('v act \<times> ('v, 'w) states) res" where
  "finalize M ba x xx st =
     (let K = rm_K M; z = rm_z M; b = ba_B ba
      in bindE (if ba_uniform ba then bindE (view3 b (ba_max_t ba) x) (\<lambda>x. bindE (view3 b (ba_max_t ba) xx) (\<lambda>xx.
                  Inr (last_uniform b (ba_max_t ba) (act_rows x), last_uniform b (ba_max_t ba) (act_rows xx))))
                else bindE (azip x xx) (\<lambda>both.
                  Inr (last_varlen b (ba_offs ba) (act_rows x), last_varlen b (ba_offs ba) (act_rows xx)))) (\<lambda>(xs, rs).
         bindE (weight z ''ln_out.weight'') (\<lambda>w. bindE (weight z ''ln_out.bias'') (\<lambda>bi.
         let x_out = Act [b] (map2 (k_add_last_ln K w bi) xs rs);
             st' = advance_varlen (ba_offs ba) (ba_slots ba) st
         in bindE (linear_head M x_out) (\<lambda>lg. Inr (lg, st'))))))"

section \<open>The forward pass\<close>

text \<open>
  The loop over the layers from \<open>l\<close> on, \<open>n\<close> of them. What follows the loop is reached with
  \<^verbatim>\<open>all_logits\<close> only; there a tuple is passed to the head, which fails on its first attribute.
\<close>

fun layer_loop ::
    "('v, 'w, 'p) rwkv \<Rightarrow> path_config \<Rightarrow> packed \<Rightarrow> bool \<Rightarrow> nat \<Rightarrow> nat \<Rightarrow> 'v act \<Rightarrow> 'v act \<Rightarrow> 'v act
       \<Rightarrow> 'v mixes act option \<Rightarrow> ('v, 'w) states \<Rightarrow> ('v act \<times> ('v, 'w) states) res" where
  "layer_loop M path ba all_logits 0 l x xx v_first pre_mix st =
     bindE (weight (rm_z M) ''ln_out.weight'') (\<lambda>_. bindE (weight (rm_z M) ''ln_out.bias'') (\<lambda>_. Inl AttributeError))"
| "layer_loop M path ba all_logits (Suc n) l x xx v_first pre_mix st =
     bindE (layer_body M path ba l x xx v_first pre_mix st) (\<lambda>(x, xx, v_first, st).
     if Suc l < rm_L M then
       bindE (next_pre_mix M ba l x xx st) (\<lambda>(x, xx, pre_mix, st).
       layer_loop M path ba all_logits n (Suc l) x xx v_first pre_mix st)
     else if \<not> all_logits then finalize M ba x xx st
     else bindE (azip x xx) (\<lambda>both.
       layer_loop M path ba all_logits n (Suc l) (amap (\<lambda>(x, y). k_add (rm_K M) x y) both) xx v_first None st))"

definition forward_from_x ::
    "('v, 'w, 'p) rwkv \<Rightarrow> 'v act \<Rightarrow> ('v, 'w) states \<Rightarrow> path_config \<Rightarrow> nat list \<Rightarrow> nat list \<Rightarrow> nat \<Rightarrow> nat
       \<Rightarrow> nat list \<Rightarrow> bool \<Rightarrow> ('v act \<times> ('v, 'w) states) res" where
  "forward_from_x M x st path offs req max_t b slots all_logits =
     (let ba = \<lparr>ba_B = b, ba_max_t = max_t, ba_offs = offs, ba_req = req, ba_slots = slots,
                ba_uniform = (hd (act_shape x) = b * max_t)\<rparr>
      in bindE (weight (rm_z M) ''blocks.0.ln1.weight'') (\<lambda>w. bindE (weight (rm_z M) ''blocks.0.ln1.bias'') (\<lambda>bi.
         layer_loop M path ba all_logits (rm_L M) 0 x (amap (k_ln (rm_K M) w bi) x) x None st)))"

definition forward ::
    "('v, 'w, 'p) rwkv \<Rightarrow> token list \<Rightarrow> ('v, 'w) states \<Rightarrow> nat list \<Rightarrow> nat \<Rightarrow> nat list
       \<Rightarrow> ('v act \<times> ('v, 'w) states) res" where
  "forward M tokens st offs max_t slots =
     (let b = length offs - 1;
          path = select_path_varlen (rm_sel M) (int b) (int max_t) (int (length tokens))
      in bindE (embed M tokens) (\<lambda>x.
         forward_from_x M x st path offs (build_req_id (length tokens) offs) max_t b slots False))"

end
