(* ===== verification/Rwkv_Reference.thy ===== *)
theory Rwkv_Reference
  imports Rwkv_Model
begin

text \<open>
  The network as a recurrence over one sequence: what the layers compute when they are given one
  request's tokens and its state, with the weights of the checkpoint. \<^verbatim>\<open>forward\<close> is compared with
  it: the packing of requests into a batch, the choice of kernels, the layouts weights are stored
  in and the fusions must not change what a request gets.

  \<open>P\<close> gives the checkpoint's weights by their names, \<open>fp32\<close> is the state's precision.
\<close>

section \<open>Rows\<close>

definition lin :: "('v, 'w, 'p) kernels \<Rightarrow> 'p \<Rightarrow> 'v \<Rightarrow> 'v" where
  "lin K w x = k_lin K LinearF16Orig w x"

definition low :: "('v, 'w, 'p) kernels \<Rightarrow> 'p \<Rightarrow> 'v \<Rightarrow> 'v" where
  "low K w x = k_lin K LinearF16 w x"

text \<open>Every row's predecessor, the first one's is the row the state keeps.\<close>

fun prevs :: "'v \<Rightarrow> 'v list \<Rightarrow> 'v list" where
  "prevs v [] = []"
| "prevs v (x # xs) = v # prevs x xs"

definition ref_mixes :: "('v, 'w, 'p) kernels \<Rightarrow> (string \<Rightarrow> 'p) \<Rightarrow> string \<Rightarrow> 'v \<Rightarrow> 'v \<Rightarrow> 'v mixes" where
  "ref_mixes K P p prev cur =
     mix6 K (P (p @ ''x_r''), P (p @ ''x_w''), P (p @ ''x_k''), P (p @ ''x_v''), P (p @ ''x_a''), P (p @ ''x_g'')) prev cur"

definition ref_r :: "('v, 'w, 'p) kernels \<Rightarrow> (string \<Rightarrow> 'p) \<Rightarrow> string \<Rightarrow> 'v mixes \<Rightarrow> 'v" where
  "ref_r K P p m = lin K (P (p @ ''receptance.weight'')) (mx_r m)"

definition ref_w :: "('v, 'w, 'p) kernels \<Rightarrow> (string \<Rightarrow> 'p) \<Rightarrow> string \<Rightarrow> 'v mixes \<Rightarrow> 'v" where
  "ref_w K P p m = low K (P (p @ ''w2'')) (k_act K 1 (low K (P (p @ ''w1'')) (mx_w m)))"

definition ref_a :: "('v, 'w, 'p) kernels \<Rightarrow> (string \<Rightarrow> 'p) \<Rightarrow> string \<Rightarrow> 'v mixes \<Rightarrow> 'v" where
  "ref_a K P p m = low K (P (p @ ''a2'')) (low K (P (p @ ''a1'')) (mx_a m))"

definition ref_g :: "('v, 'w, 'p) kernels \<Rightarrow> (string \<Rightarrow> 'p) \<Rightarrow> string \<Rightarrow> 'v mixes \<Rightarrow> 'v" where
  "ref_g K P p m = low K (P (p @ ''g2'')) (k_act K 2 (low K (P (p @ ''g1'')) (mx_g m)))"

definition ref_k :: "('v, 'w, 'p) kernels \<Rightarrow> (string \<Rightarrow> 'p) \<Rightarrow> string \<Rightarrow> 'v mixes \<Rightarrow> 'v \<times> 'v \<times> 'v" where
  "ref_k K P p m =
     k_kk_a K (P (p @ ''k_k''), P (p @ ''a0''), P (p @ ''k_a'')) (lin K (P (p @ ''key.weight'')) (mx_k m), ref_a K P p m)"

definition ref_v0 :: "('v, 'w, 'p) kernels \<Rightarrow> (string \<Rightarrow> 'p) \<Rightarrow> string \<Rightarrow> 'v mixes \<Rightarrow> 'v" where
  "ref_v0 K P p m = lin K (P (p @ ''value.weight'')) (mx_v m)"

text \<open>From the second layer on the value gets a part of the first layer's value \<open>vf\<close>.\<close>

definition ref_v :: "('v, 'w, 'p) kernels \<Rightarrow> (string \<Rightarrow> 'p) \<Rightarrow> string \<Rightarrow> nat \<Rightarrow> 'v mixes \<Rightarrow> 'v \<Rightarrow> 'v" where
  "ref_v K P p l m vf =
     (if l = 0 then ref_v0 K P p m
      else k_vres K (P (p @ ''v0'')) (ref_v0 K P p m, vf, low K (P (p @ ''v2'')) (low K (P (p @ ''v1'')) (mx_v m))))"

definition ref_vf :: "('v, 'w, 'p) kernels \<Rightarrow> (string \<Rightarrow> 'p) \<Rightarrow> string \<Rightarrow> nat \<Rightarrow> 'v mixes \<Rightarrow> 'v \<Rightarrow> 'v" where
  "ref_vf K P p l m vf = (if l = 0 then ref_v0 K P p m else vf)"

definition ref_in :: "('v, 'w, 'p) kernels \<Rightarrow> (string \<Rightarrow> 'p) \<Rightarrow> string \<Rightarrow> nat \<Rightarrow> 'v mixes \<times> 'v \<Rightarrow> 'v wkv_in" where
  "ref_in K P p l z =
     (case z of (m, vf) \<Rightarrow>
        case ref_k K P p m of (k, neg_kk, kka) \<Rightarrow>
          (ref_r K P p m, k_add_vec K (P (p @ ''w0'')) (ref_w K P p m), k, ref_v K P p l m vf, neg_kk, kka))"

definition ref_step :: "('v, 'w, 'p) kernels \<Rightarrow> bool \<Rightarrow> 'w \<Rightarrow> 32 word \<Rightarrow> 'v wkv_in \<Rightarrow> 'w \<times> 'v" where
  "ref_step K fp32 = (if fp32 then (\<lambda>s e. k_wkv32 K s) else k_wkv16 K)"

definition ref_out :: "('v, 'w, 'p) kernels \<Rightarrow> (string \<Rightarrow> 'p) \<Rightarrow> string \<Rightarrow> nat \<Rightarrow> 'v mixes \<times> 'v \<Rightarrow> 'v \<Rightarrow> 'v" where
  "ref_out K P p l z y =
     (case z of (m, vf) \<Rightarrow>
        lin K (P (p @ ''output.weight''))
          (k_lnx K (P (p @ ''r_k''), P (p @ ''ln_x.weight''), P (p @ ''ln_x.bias''))
             (y, ref_r K P p m, fst (ref_k K P p m), ref_v K P p l m vf, ref_g K P p m)))"

definition ref_cmix :: "('v, 'w, 'p) kernels \<Rightarrow> (string \<Rightarrow> 'p) \<Rightarrow> string \<Rightarrow> 'v \<Rightarrow> 'v \<Rightarrow> 'v" where
  "ref_cmix K P p prev cur =
     lin K (P (p @ ''ffn.value.weight''))
       (k_relu_sq K (lin K (P (p @ ''ffn.key.weight'')) (k_mix K (P (p @ ''ffn.x_k'')) prev cur)))"

section \<open>Layers\<close>

text \<open>The residual stream and the first layer's values of one sequence, and its state.\<close>

type_synonym ('v, 'w) seq = "('v \<times> 'v) list \<times> ('v, 'w) slot_state"

definition ref_core ::
    "('v, 'w, 'p) kernels \<Rightarrow> (string \<Rightarrow> 'p) \<Rightarrow> bool \<Rightarrow> nat \<Rightarrow> ('v \<times> 'v) list \<Rightarrow> 32 word \<Rightarrow> (nat \<Rightarrow> 'v) \<Rightarrow> 'w
       \<Rightarrow> ('v \<times> 'v) list \<times> (nat \<Rightarrow> 'v) \<times> 'w" where
  "ref_core K P fp32 l rows e sh s =
     (let p = layer_prefix l; a = p @ ''att.'';
          xs = map fst rows;
          xx = map (k_ln K (P (p @ ''ln1.weight'')) (P (p @ ''ln1.bias''))) xs;
          zs = zip (map2 (ref_mixes K P a) (prevs (sh 0) xx) xx) (map snd rows);
          (w, ys) = wkv_run (ref_step K fp32) e s (map (ref_in K P a l) zs);
          x1 = map2 (k_add K) xs (map2 (ref_out K P a l) zs ys);
          h = map (k_ln K (P (p @ ''ln2.weight'')) (P (p @ ''ln2.bias''))) x1;
          x2 = map2 (k_add K) x1 (map2 (ref_cmix K P p) (prevs (sh 1) h) h)
      in (zip x2 (map (\<lambda>(m, vf). ref_vf K P a l m vf) zs), sh(0 := last xx, 1 := last h), w))"

definition set_layer :: "nat \<Rightarrow> (nat \<Rightarrow> 'v) \<times> 'w \<Rightarrow> ('v, 'w) slot_state \<Rightarrow> ('v, 'w) slot_state" where
  "set_layer l c s = s\<lparr>ss_shift := (ss_shift s)(l := fst c), ss_wkv := (ss_wkv s)(l := snd c)\<rparr>"

definition ref_layer :: "('v, 'w, 'p) kernels \<Rightarrow> (string \<Rightarrow> 'p) \<Rightarrow> bool \<Rightarrow> nat \<Rightarrow> ('v, 'w) seq \<Rightarrow> ('v, 'w) seq" where
  "ref_layer K P fp32 l q =
     (case q of (rows, s) \<Rightarrow>
        case ref_core K P fp32 l rows (ss_elapsed s) (ss_shift s l) (ss_wkv s l) of
          (rows', c) \<Rightarrow> (rows', set_layer l c s))"

definition ref_layers :: "('v, 'w, 'p) kernels \<Rightarrow> (string \<Rightarrow> 'p) \<Rightarrow> bool \<Rightarrow> nat list \<Rightarrow> ('v, 'w) seq \<Rightarrow> ('v, 'w) seq" where
  "ref_layers K P fp32 ls q = fold (ref_layer K P fp32) ls q"

definition ref_forward ::
    "('v, 'w, 'p) kernels \<Rightarrow> (string \<Rightarrow> 'p) \<Rightarrow> bool \<Rightarrow> nat \<Rightarrow> 'v list \<Rightarrow> ('v, 'w) slot_state
       \<Rightarrow> ('v, 'w) slot_state \<times> 'v" where
  "ref_forward K P fp32 n_layers xs s =
     (let (rows, s') = ref_layers K P fp32 [0..<n_layers] (map (\<lambda>x. (x, x)) xs, s)
      in (s'\<lparr>ss_elapsed := ss_elapsed s' + of_nat (length xs)\<rparr>,
          lin K (P ''head.weight'')
            (k_ln K (P ''ln_out.weight'') (P ''ln_out.bias'') (last (map fst rows)))))"

section \<open>A sequence in chunks\<close>

lemma prevs_length [simp]: "length (prevs v xs) = length xs"
  by (induction v xs rule: prevs.induct) auto

lemma prevs_append: "xs \<noteq> [] \<Longrightarrow> prevs v (xs @ ys) = prevs v xs @ prevs (last xs) ys"
  by (induction v xs rule: prevs.induct) auto

lemma wkv_run_length: "wkv_run f e s xs = (s', ys) \<Longrightarrow> length ys = length xs"
  by (induction xs arbitrary: e s s' ys) (auto split: prod.split_asm)

lemma wkv_run_append:
  assumes "wkv_run f e s xs = (s1, ys)" and "wkv_run f (e + of_nat (length xs)) s1 xs' = (s2, ys')"
  shows "wkv_run f e s (xs @ xs') = (s2, ys @ ys')"
  using assms
proof (induction xs arbitrary: e s ys)
  case (Cons x xs)
  obtain s' y where f: "f s e x = (s', y)" by fastforce
  obtain sa ya where r: "wkv_run f (e + 1) s' xs = (sa, ya)" by fastforce
  have "wkv_run f (e + 1) s' (xs @ xs') = (s2, ya @ ys')"
    using Cons.prems f r by (intro Cons.IH) (auto simp: algebra_simps)
  then show ?case using Cons.prems(1) f r by auto
qed simp

lemma ref_core_append:
  assumes "r1 \<noteq> []" and "r2 \<noteq> []" and "ref_core K P fp32 l r1 e sh s = (q1, sh1, s1)"
    and "ref_core K P fp32 l r2 (e + of_nat (length r1)) sh1 s1 = (q2, sh2, s2)"
  shows "ref_core K P fp32 l (r1 @ r2) e sh s = (q1 @ q2, sh2, s2)"
proof -
  let ?p = "layer_prefix l" let ?a = "?p @ ''att.''"
  let ?ln1 = "map (k_ln K (P (?p @ ''ln1.weight'')) (P (?p @ ''ln1.bias'')))"
  let ?ln2 = "map (k_ln K (P (?p @ ''ln2.weight'')) (P (?p @ ''ln2.bias'')))"
  let ?xx = "\<lambda>r. ?ln1 (map fst r)"
  let ?zs = "\<lambda>sh r. zip (map2 (ref_mixes K P ?a) (prevs (sh 0) (?xx r)) (?xx r)) (map snd r)"
  let ?x1 = "\<lambda>r zs ys. map2 (k_add K) (map fst r) (map2 (ref_out K P ?a l) zs ys)"
  let ?x2 = "\<lambda>sh x1. map2 (k_add K) x1 (map2 (ref_cmix K P ?p) (prevs (sh 1) (?ln2 x1)) (?ln2 x1))"
  obtain w1 y1 where 1: "wkv_run (ref_step K fp32) e s (map (ref_in K P ?a l) (?zs sh r1)) = (w1, y1)" by fastforce
  obtain w2 y2 where 2: "wkv_run (ref_step K fp32) (e + of_nat (length r1)) s1 (map (ref_in K P ?a l) (?zs sh1 r2)) = (w2, y2)"
    by fastforce
  let ?A = "?x1 r1 (?zs sh r1) y1" let ?B = "?x1 r2 (?zs sh1 r2) y2"
  have len: "length y1 = length r1" "length y2 = length r2" using wkv_run_length [OF 1] wkv_run_length [OF 2] by simp_all
  have c1: "q1 = zip (?x2 sh ?A) (map (\<lambda>(m, vf). ref_vf K P ?a l m vf) (?zs sh r1))"
    "sh1 = sh(0 := last (?xx r1), 1 := last (?ln2 ?A))" "s1 = w1"
    using assms(3) [unfolded ref_core_def Let_def 1 prod.case] unfolding prod.inject by blast+
  have c2: "q2 = zip (?x2 sh1 ?B) (map (\<lambda>(m, vf). ref_vf K P ?a l m vf) (?zs sh1 r2))"
    "sh2 = sh1(0 := last (?xx r2), 1 := last (?ln2 ?B))" "s2 = w2"
    using assms(4) [unfolded ref_core_def Let_def 2 prod.case] unfolding prod.inject by blast+
  have zs: "?zs sh (r1 @ r2) = ?zs sh r1 @ ?zs sh1 r2"
    using assms(1) by (simp add: prevs_append c1(2) last_map)
  have run: "wkv_run (ref_step K fp32) e s (map (ref_in K P ?a l) (?zs sh (r1 @ r2))) = (w2, y1 @ y2)"
    unfolding zs map_append [of "ref_in K P ?a l"] by (rule wkv_run_append [OF 1]) (use 2 c1(3) in \<open>simp add: len\<close>)
  have x1: "?x1 (r1 @ r2) (?zs sh (r1 @ r2)) (y1 @ y2) = ?A @ ?B" unfolding zs by (simp add: len)
  have ne: "?A \<noteq> []" "?B \<noteq> []" using assms(1,2) len by (auto simp flip: length_greater_0_conv)
  have x2: "?x2 sh (?A @ ?B) = ?x2 sh ?A @ ?x2 sh1 ?B"
    using ne(1) by (simp add: prevs_append c1(2) last_map)
  have "ref_core K P fp32 l (r1 @ r2) e sh s =
      (zip (?x2 sh (?A @ ?B)) (map (\<lambda>(m, vf). ref_vf K P ?a l m vf) (?zs sh (r1 @ r2))),
       sh(0 := last (?xx (r1 @ r2)), 1 := last (?ln2 (?A @ ?B))), w2)"
    unfolding ref_core_def Let_def run prod.case x1 by simp
  also have "\<dots> = (q1 @ q2, sh2, s2)"
    unfolding x2 zs c1(1) c2 using ne assms(2) len by (simp add: c1(2) last_map)
  finally show ?thesis .
qed

lemma ref_core_length: "ref_core K P fp32 l rows e sh s = (rows', c) \<Longrightarrow> length rows' = length rows"
  by (auto simp: ref_core_def Let_def split: prod.split_asm dest!: wkv_run_length)

lemma set_layer_sel [simp]:
  "ss_elapsed (set_layer l c s) = ss_elapsed s" "ss_shift (set_layer l c s) l = fst c" "ss_wkv (set_layer l c s) l = snd c"
  "k \<noteq> l \<Longrightarrow> ss_shift (set_layer l c s) k = ss_shift s k" "k \<noteq> l \<Longrightarrow> ss_wkv (set_layer l c s) k = ss_wkv s k"
  by (simp_all add: set_layer_def)

lemma set_layer_twice [simp]: "set_layer l c (set_layer l d s) = set_layer l c s"
  by (simp add: set_layer_def)

lemma set_layer_swap: "k \<noteq> l \<Longrightarrow> set_layer k c (set_layer l d s) = set_layer l d (set_layer k c s)"
  by (simp add: set_layer_def fun_upd_twist)

lemma set_layer_elapsed: "(set_layer l c s)\<lparr>ss_elapsed := e\<rparr> = set_layer l c (s\<lparr>ss_elapsed := e\<rparr>)"
  by (simp add: set_layer_def)

text \<open>A layer reads and writes its own part of the state only.\<close>

lemma ref_layer_frame:
  assumes "k \<noteq> l" and "ref_layer K P fp32 k (rows, s) = (rows', s')"
  shows "ref_layer K P fp32 k (rows, set_layer l c s) = (rows', set_layer l c s') \<and>
    ss_shift s' l = ss_shift s l \<and> ss_wkv s' l = ss_wkv s l \<and> ss_elapsed s' = ss_elapsed s"
  using assms by (auto simp: ref_layer_def set_layer_swap split: prod.split_asm)

lemma ref_layers_frame:
  assumes "l \<notin> set ks" and "ref_layers K P fp32 ks (rows, s) = (rows', s')"
  shows "ref_layers K P fp32 ks (rows, set_layer l c s) = (rows', set_layer l c s') \<and>
    ss_shift s' l = ss_shift s l \<and> ss_wkv s' l = ss_wkv s l \<and> ss_elapsed s' = ss_elapsed s"
  using assms
proof (induction ks arbitrary: rows s)
  case (Cons k ks)
  obtain r1 s1 where 1: "ref_layer K P fp32 k (rows, s) = (r1, s1)" by fastforce
  with Cons.prems have "ref_layers K P fp32 ks (r1, s1) = (rows', s')" by (simp add: ref_layers_def)
  with Cons.IH [OF _ this] Cons.prems(1) ref_layer_frame [OF _ 1, of l c] show ?case by (simp add: ref_layers_def)
qed (simp add: ref_layers_def)

lemma ref_layers_Cons: "ref_layers K P fp32 (k # ks) q = ref_layers K P fp32 ks (ref_layer K P fp32 k q)"
  by (simp add: ref_layers_def)

lemma ref_layers_append:
  assumes "distinct ls" and "r1 \<noteq> []" and "r2 \<noteq> []" and "ref_layers K P fp32 ls (r1, s) = (q1, s1)"
    and "ref_layers K P fp32 ls (r2, s1\<lparr>ss_elapsed := ss_elapsed s + of_nat (length r1)\<rparr>) = (q2, s2)"
  shows "ref_layers K P fp32 ls (r1 @ r2, s) = (q1 @ q2, s2\<lparr>ss_elapsed := ss_elapsed s\<rparr>)"
  using assms
proof (induction ls arbitrary: r1 r2 s s1 s2)
  case Nil
  then show ?case by (auto simp: ref_layers_def)
next
  case (Cons l ls)
  let ?e = "ss_elapsed s + of_nat (length r1)"
  obtain ra ca where a: "ref_core K P fp32 l r1 (ss_elapsed s) (ss_shift s l) (ss_wkv s l) = (ra, ca)" by (metis surj_pair)
  then have 1: "ref_layers K P fp32 ls (ra, set_layer l ca s) = (q1, s1)"
    using Cons.prems(4) by (simp add: ref_layers_Cons ref_layer_def)
  have l: "l \<notin> set ls" using Cons.prems(1) by simp
  note f1 = ref_layers_frame [OF l 1]
  obtain rb cb where b: "ref_core K P fp32 l r2 ?e (fst ca) (snd ca) = (rb, cb)" by (metis surj_pair)
  have 2: "ref_layers K P fp32 ls (rb, set_layer l cb (s1\<lparr>ss_elapsed := ?e\<rparr>)) = (q2, s2)"
    using Cons.prems(5) b f1 by (simp add: ref_layers_Cons ref_layer_def)
  have ab: "ref_core K P fp32 l (r1 @ r2) (ss_elapsed s) (ss_shift s l) (ss_wkv s l) = (ra @ rb, cb)"
    using ref_core_append [OF Cons.prems(2,3), of K P fp32 l _ _ _ ra "fst ca" "snd ca" rb "fst cb" "snd cb"] a b by simp
  have len: "length ra = length r1" "length rb = length r2" using ref_core_length [OF a] ref_core_length [OF b] by simp_all
  have "ref_layers K P fp32 ls (ra, set_layer l cb s) = (q1, set_layer l cb s1)" using f1 [of cb] by simp
  moreover have "ref_layers K P fp32 ls (rb, (set_layer l cb s1)\<lparr>ss_elapsed := ?e\<rparr>) = (q2, s2)"
    using 2 by (simp add: set_layer_elapsed)
  ultimately have "ref_layers K P fp32 ls (ra @ rb, set_layer l cb s) = (q1 @ q2, s2\<lparr>ss_elapsed := ss_elapsed s\<rparr>)"
    using Cons.IH [of ra rb "set_layer l cb s" "set_layer l cb s1" s2] Cons.prems(1-3) len by (auto simp flip: length_greater_0_conv)
  then show ?case using ab by (simp add: ref_layers_Cons ref_layer_def)
qed

lemma ref_layers_length: "ref_layers K P fp32 ls (rows, s) = (rows', s') \<Longrightarrow> length rows' = length rows"
proof (induction ls arbitrary: rows s)
  case (Cons l ls)
  obtain r1 s1 where 1: "ref_layer K P fp32 l (rows, s) = (r1, s1)" by fastforce
  then have "length r1 = length rows" by (auto simp: ref_layer_def split: prod.split_asm dest: ref_core_length)
  with Cons 1 show ?case by (simp add: ref_layers_Cons)
qed (simp add: ref_layers_def)

lemma ref_forward_append:
  assumes "xs \<noteq> []" and "ys \<noteq> []"
  shows "ref_forward K P fp32 n (xs @ ys) s = ref_forward K P fp32 n ys (fst (ref_forward K P fp32 n xs s))"
proof -
  let ?r = "map (\<lambda>x. (x, x))"
  obtain q1 s1 where 1: "ref_layers K P fp32 [0..<n] (?r xs, s) = (q1, s1)" by fastforce
  have e1: "ss_elapsed s1 = ss_elapsed s"
  proof -
    have "n \<notin> set [0..<n]" by simp
    from ref_layers_frame [OF this 1] show ?thesis by blast
  qed
  let ?s1 = "s1\<lparr>ss_elapsed := ss_elapsed s + of_nat (length xs)\<rparr>"
  obtain q2 s2 where 2: "ref_layers K P fp32 [0..<n] (?r ys, ?s1) = (q2, s2)" by fastforce
  have e2: "ss_elapsed s2 = ss_elapsed s + of_nat (length xs)"
  proof -
    have "n \<notin> set [0..<n]" by simp
    from ref_layers_frame [OF this 2] show ?thesis by simp
  qed
  have "ref_layers K P fp32 [0..<n] (?r (xs @ ys), s) = (q1 @ q2, s2\<lparr>ss_elapsed := ss_elapsed s\<rparr>)"
    using ref_layers_append [of "[0..<n]" "?r xs" "?r ys" K P fp32 s q1 s1 q2 s2] assms 1 2 by simp
  moreover have "q2 \<noteq> []" using ref_layers_length [OF 2] assms(2) by auto
  ultimately show ?thesis using 1 2 e1 e2 by (simp add: ref_forward_def algebra_simps)
qed

end
