(* ===== verification/Packing.thy ===== *)
theory Packing
  imports Rwkv_Reference Model_Runner
begin

text \<open>
  Sequences packed one after the other: the kernels that look at the row before a row, at a
  sequence's last row or at a sequence's state see what they would see in the sequence alone.
\<close>

section \<open>States of the batch's slots\<close>

text \<open>The states \<open>cs\<close> in the slots of the batch, all others as in \<open>st\<close>.\<close>

definition place :: "nat list \<Rightarrow> 'c list \<Rightarrow> (nat \<Rightarrow> 'c) \<Rightarrow> nat \<Rightarrow> 'c" where
  "place slots cs st = (\<lambda>s. case map_of (zip slots cs) s of None \<Rightarrow> st s | Some c \<Rightarrow> c)"

lemma place_simps [simp]:
  "place [] cs st = st" "place (s # ss) (c # cs) st = (place ss cs st)(s := c)"
  by (auto simp: place_def)

lemma place_nth:
  "distinct slots \<Longrightarrow> length cs = length slots \<Longrightarrow> i < length slots \<Longrightarrow> place slots cs st (slots ! i) = cs ! i"
  by (simp add: place_def map_of_zip_nth)

lemma place_map: "distinct slots \<Longrightarrow> length cs = length slots \<Longrightarrow> map (place slots cs st) slots = cs"
  by (rule nth_equalityI) (simp_all add: place_nth)

lemma place_self: "distinct slots \<Longrightarrow> place slots (map st slots) st = st"
  by (induction slots) (simp_all add: fun_upd_idem)

lemma fold_upd_other:
  "s \<notin> set ss \<Longrightarrow> length vs = length ss \<Longrightarrow>
     fold (\<lambda>(s, v) st. st(s := g v (st s))) (zip ss vs) (st(s := x)) =
     (fold (\<lambda>(s, v) st. st(s := g v (st s))) (zip ss vs) st)(s := x)"
proof (induction ss arbitrary: vs st)
  case (Cons t ss)
  then obtain v vs' where vs: "vs = v # vs'" by (cases vs) auto
  have "t \<noteq> s" using Cons.prems(1) by auto
  then have "(st(s := x))(t := g v (st t)) = (st(t := g v (st t)))(s := x)" by (rule fun_upd_twist [symmetric])
  moreover have "(st(s := x)) t = st t" using \<open>t \<noteq> s\<close> by simp
  ultimately show ?case
    using Cons.IH [of vs' "st(t := g v (st t))"] Cons.prems unfolding vs zip_Cons_Cons fold_simps prod.case
    by (simp del: fun_upd_apply)
qed simp

lemma fold_place:
  assumes "distinct slots" and "length vs = length slots" and "length cs = length slots"
  shows "fold (\<lambda>(s, v) st. st(s := g v (st s))) (zip slots vs) (place slots cs st) = place slots (map2 g vs cs) st"
  using assms
proof (induction slots arbitrary: vs cs)
  case (Cons s ss)
  then obtain v vs' c cs' where v: "vs = v # vs'" "cs = c # cs'" by (cases vs; cases cs) auto
  have "fold (\<lambda>(s, v) st. st(s := g v (st s))) (zip ss vs') ((place ss cs' st)(s := g v c)) =
      (place ss (map2 g vs' cs') st)(s := g v c)"
    using Cons v by (simp add: fold_upd_other del: fun_upd_apply)
  moreover have "((place ss cs' st)(s := c))(s := g v c) = (place ss cs' st)(s := g v c)" by simp
  ultimately show ?case unfolding v place_simps zip_Cons_Cons fold_simps prod.case list.map
    by (simp del: fun_upd_apply) (simp only: fun_upd_same)
qed simp

lemma set_shift_place:
  assumes "distinct slots" and "length vs = length slots" and "length cs = length slots"
  shows "set_shift l j slots vs (place slots cs st) =
    place slots (map2 (\<lambda>v c. c\<lparr>ss_shift := (ss_shift c)(l := (ss_shift c l)(j := v))\<rparr>) vs cs) st"
  using fold_place [OF assms, of "\<lambda>v c. c\<lparr>ss_shift := (ss_shift c)(l := (ss_shift c l)(j := v))\<rparr>"]
  by (simp add: set_shift_def)

section \<open>Offsets\<close>

lemma prefix_sums_nth: "i \<le> length ns \<Longrightarrow> prefix_sums a ns ! i = a + sum_list (take i ns)"
  by (induction a ns arbitrary: i rule: prefix_sums.induct) (auto simp: nth_Cons split: nat.split)

lemma slices_concat: "slices (prefix_sums 0 (map length xss)) (concat xss) = xss"
  using segments_concat [of "[]" 0 xss] by (simp add: slices_def)

lemma offs_width: "i < length ns \<Longrightarrow> prefix_sums 0 ns ! Suc i - prefix_sums 0 ns ! i = ns ! i"
  by (simp add: prefix_sums_nth take_Suc_conv_app_nth)

lemma uniform_offs_sums:
  assumes "\<forall>n \<in> set ns. n = t"
  shows "prefix_sums 0 ns = uniform_offs (length ns) t"
proof (rule nth_equalityI)
  fix i assume "i < length (prefix_sums 0 ns)"
  then have i: "i \<le> length ns" by simp
  have "take i ns = replicate i t" using assms i by (intro nth_equalityI) auto
  then show "prefix_sums 0 ns ! i = uniform_offs (length ns) t ! i"
    using i by (simp add: prefix_sums_nth uniform_offs_def sum_list_replicate del: upt_Suc)
qed (simp add: uniform_offs_def)

lemma uniform_lengths:
  assumes "\<forall>n \<in> set ns. n \<le> t" and "sum_list ns = length ns * t"
  shows "\<forall>n \<in> set ns. n = t"
  using assms
proof (induction ns)
  case (Cons n ns)
  have "sum_list ns \<le> length ns * t" using Cons.prems(1) by (induction ns) auto
  then have "n = t" "sum_list ns = length ns * t" using Cons.prems by auto
  then show ?case using Cons by simp
qed simp

lemma concat_nth_offs:
  "i < length xss \<Longrightarrow> j < length (xss ! i) \<Longrightarrow> concat xss ! (prefix_sums 0 (map length xss) ! i + j) = xss ! i ! j"
proof (induction xss arbitrary: i)
  case (Cons xs xss)
  show ?case
  proof (cases i)
    case (Suc k)
    then have "prefix_sums 0 (map length (xs # xss)) ! i = length xs + prefix_sums 0 (map length xss) ! k"
      using Cons.prems by (simp add: prefix_sums_nth)
    then show ?thesis using Cons Suc by (simp add: nth_append)
  qed (use Cons.prems in \<open>simp add: nth_append prefix_sums_nth\<close>)
qed simp

lemma last_varlen_concat:
  assumes "\<forall>xs \<in> set xss. xs \<noteq> []"
  shows "last_varlen (length xss) (prefix_sums 0 (map length xss)) (concat xss) = map last xss"
proof (rule nth_equalityI)
  fix i assume "i < length (last_varlen (length xss) (prefix_sums 0 (map length xss)) (concat xss))"
  then have i: "i < length xss" by (simp add: last_varlen_def)
  let ?o = "prefix_sums 0 (map length xss)"
  have pos: "0 < length (xss ! i)" using assms i by simp
  have "?o ! Suc i = ?o ! i + length (xss ! i)"
    using i by (simp add: prefix_sums_nth take_Suc_conv_app_nth)
  then have "?o ! Suc i - 1 = ?o ! i + (length (xss ! i) - 1)" using pos by linarith
  then show "last_varlen (length xss) ?o (concat xss) ! i = map last xss ! i"
    using concat_nth_offs [OF i, of "length (xss ! i) - 1"] pos i by (simp add: last_varlen_def last_conv_nth)
qed (simp add: last_varlen_def)

lemma last_uniform_concat:
  assumes "\<forall>xs \<in> set xss. length xs = t" and "0 < t"
  shows "last_uniform (length xss) t (concat xss) = map last xss"
proof -
  have "prefix_sums 0 (map length xss) = uniform_offs (length xss) t"
    using uniform_offs_sums [of "map length xss" t] assms(1) by simp
  moreover have "last_uniform (length xss) t xs = last_varlen (length xss) (uniform_offs (length xss) t) xs" for xs :: "'a list"
    using assms(2) by (simp add: last_uniform_def last_varlen_def uniform_offs_def add.commute del: upt_Suc)
  moreover have "\<forall>xs \<in> set xss. xs \<noteq> []" using assms by auto
  ultimately show ?thesis using last_varlen_concat by metis
qed

section \<open>The row before\<close>

text \<open>The rows whose predecessor is taken from a slot are the first rows, in order.\<close>

fun firsts :: "(nat \<Rightarrow> bool) \<Rightarrow> (nat \<Rightarrow> 'v) \<Rightarrow> nat \<Rightarrow> nat list \<Rightarrow> 'v list \<Rightarrow> bool" where
  "firsts b f k [] vs = True"
| "firsts b f k (n # ns) vs =
     (b k \<and> f k = hd vs \<and> (\<forall>j. k < j \<and> j < k + n \<longrightarrow> \<not> b j) \<and> firsts b f (k + n) ns (tl vs))"

lemma prev_row_run:
  assumes "xs \<noteq> []" and "b k" and "\<And>j. k < j \<Longrightarrow> j < k + length xs \<Longrightarrow> \<not> b j"
    and "\<And>j. j < length xs \<Longrightarrow> ys ! (k + j) = xs ! j"
  shows "map (\<lambda>i. if b i then f i else ys ! (i - 1)) [k..<k + length xs] = prevs (f k) xs"
proof (rule nth_equalityI)
  fix i assume "i < length (map (\<lambda>i. if b i then f i else ys ! (i - 1)) [k..<k + length xs])"
  then have i: "i < length xs" by simp
  have nth: "prevs v xs ! i = (if i = 0 then v else xs ! (i - 1))" if "i < length xs" for v i and xs :: "'a list"
    using that by (induction v xs arbitrary: i rule: prevs.induct) (auto simp: nth_Cons split: nat.split)
  show "map (\<lambda>i. if b i then f i else ys ! (i - 1)) [k..<k + length xs] ! i = prevs (f k) xs ! i"
  proof (cases i)
    case (Suc j)
    then have "ys ! (k + j) = xs ! j" using assms(4) i by simp
    then show ?thesis using assms(3) [of "k + i"] i Suc by (simp add: nth)
  qed (use assms(2) i in \<open>simp add: nth\<close>)
qed simp

lemma prev_rows_concat:
  assumes "firsts b f (length pre) (map length xss) vs" and "\<forall>xs \<in> set xss. xs \<noteq> []" and "length vs = length xss"
  shows "map (\<lambda>i. if b i then f i else (pre @ concat xss) ! (i - 1)) [length pre..<length pre + length (concat xss)] =
    concat (map2 prevs vs xss)"
  using assms
proof (induction xss arbitrary: pre vs)
  case (Cons xs xss)
  obtain v vs' where vs: "vs = v # vs'" using Cons.prems(3) by (cases vs) auto
  let ?ys = "pre @ concat (xs # xss)" let ?g = "\<lambda>i. if b i then f i else ?ys ! (i - 1)"
  have "map ?g [length pre..<length pre + length xs] = prevs (f (length pre)) xs"
    using Cons.prems by (intro prev_row_run) (auto simp: nth_append)
  moreover have "f (length pre) = v" using Cons.prems(1) vs by simp
  moreover have "map ?g [length pre + length xs..<length pre + length xs + length (concat xss)] = concat (map2 prevs vs' xss)"
  proof -
    have "firsts b f (length (pre @ xs)) (map length xss) vs'" using Cons.prems(1) vs by simp
    moreover have "\<forall>xs \<in> set xss. xs \<noteq> []" "length vs' = length xss" using Cons.prems(2,3) vs by simp_all
    moreover have "(pre @ xs) @ concat xss = ?ys" by simp
    ultimately show ?thesis using Cons.IH [of "pre @ xs" vs'] by (simp only: length_append)
  qed
  moreover have "[length pre..<length pre + length (concat (xs # xss))] =
      [length pre..<length pre + length xs] @ [length pre + length xs..<length pre + length xs + length (concat xss)]"
    using upt_add_eq_append [of "length pre" "length pre + length xs" "length (concat xss)"] by (simp add: add.assoc)
  ultimately show ?case by (simp add: vs)
qed simp

lemma firsts_uniform:
  assumes "\<forall>n \<in> set ns. n = t" and "0 < t" and "b + length ns = length slots"
  shows "firsts (\<lambda>i. i mod t = 0) (\<lambda>i. sh (slots ! (i div t))) (b * t) ns (map sh (drop b slots))"
  using assms
proof (induction ns arbitrary: b)
  case (Cons n ns)
  have n: "n = t" using Cons.prems(1) by simp
  have "\<not> j mod t = 0" if "b * t < j" "j < b * t + t" for j
  proof
    assume "j mod t = 0"
    then obtain q where q: "j = q * t" by (metis mod_eq_0_iff_dvd dvd_def mult.commute)
    have "q * t < Suc b * t" using that(2) q by simp
    moreover have "b * t < q * t" using that(1) q by simp
    ultimately have "q < Suc b" "b < q" by (simp_all only: mult_less_cancel2)
    then show False by simp
  qed
  moreover have "firsts (\<lambda>i. i mod t = 0) (\<lambda>i. sh (slots ! (i div t))) (Suc b * t) ns (map sh (drop (Suc b) slots))"
    using Cons.IH [of "Suc b"] Cons.prems by simp
  moreover have "drop b slots = slots ! b # drop (Suc b) slots" using Cons.prems(3) by (simp add: Cons_nth_drop_Suc)
  ultimately show ?case using assms(2) by (simp add: n add.commute)
qed simp

lemma prev_uniform_concat:
  assumes "\<forall>xs \<in> set xss. length xs = t" and "0 < t" and "length slots = length xss"
  shows "prev_uniform t slots sh (concat xss) = concat (map2 prevs (map sh slots) xss)"
proof -
  have "firsts (\<lambda>i. i mod t = 0) (\<lambda>i. sh (slots ! (i div t))) (length ([] :: 'a list)) (map length xss) (map sh slots)"
    using firsts_uniform [of "map length xss" t 0 slots sh] assms by simp
  moreover have "\<forall>xs \<in> set xss. xs \<noteq> []" using assms(1,2) by auto
  moreover have "length (map sh slots) = length xss" using assms(3) by simp
  ultimately show ?thesis
    using prev_rows_concat [of _ _ "[]" xss "map sh slots"] by (simp only: prev_uniform_def append_Nil list.size add_0)
qed

subsection \<open>The sequence of a row\<close>

lemma req_id_nth:
  assumes "j < n" and "i < length ns" and "prefix_sums 0 ns ! i \<le> j" and "j < prefix_sums 0 ns ! Suc i"
  shows "build_req_id n (prefix_sums 0 ns) ! j = i"
proof -
  let ?o = "prefix_sums 0 ns"
  let ?f = "\<lambda>i req. map (\<lambda>j. if ?o ! i \<le> j \<and> j < ?o ! Suc i then i else req ! j) [0..<n]"
  have mono: "?o ! a \<le> ?o ! c" if "a \<le> c" "c \<le> length ns" for a c
    using that sum_list_append [of "take a ns" "drop a (take c ns)"]
    by (simp add: prefix_sums_nth) (metis append_take_drop_id le_add1 min.absorb1 sum_list_append take_take)
  have other: "\<not> (?o ! k \<le> j \<and> j < ?o ! Suc k)" if "k \<noteq> i" "k < length ns" for k
  proof (cases "k < i")
    case True
    then show ?thesis using mono [of "Suc k" i] assms(2,3) by auto
  next
    case False
    then show ?thesis using mono [of "Suc i" k] assms(4) that by auto
  qed
  have later: "fold ?f ks req ! j = req ! j" if "\<forall>k \<in> set ks. k \<noteq> i \<and> k < length ns" for ks req
    using that
  proof (induction ks arbitrary: req)
    case (Cons k ks)
    then have "?f k req ! j = req ! j" using other [of k] assms(1) by auto
    then show ?case using Cons by simp
  qed simp
  have "[0..<length ns] = [0..<i] @ i # [Suc i..<length ns]"
    using assms(2) by (metis less_imp_add_positive less_or_eq_imp_le upt_add_eq_append upt_conv_Cons zero_le add_0)
  then have "build_req_id n ?o = fold ?f [Suc i..<length ns] (?f i (fold ?f [0..<i] (replicate n 0)))"
    by (simp add: build_req_id_def)
  then show ?thesis using later [of "[Suc i..<length ns]"] assms(1,3,4) by simp
qed

lemma firsts_varlen:
  assumes "\<forall>n \<in> set ns. 0 < n" and "length slots = length ns" and "c \<le> length ns"
    and "offs = prefix_sums 0 ns" and "req = build_req_id (sum_list ns) offs"
  shows "firsts (\<lambda>i. i = offs ! (req ! i)) (\<lambda>i. sh (slots ! (req ! i))) (offs ! c) (drop c ns) (map sh (drop c slots))"
  using assms(3)
proof (induction "length ns - c" arbitrary: c)
  case (Suc d)
  then have c: "c < length ns" by simp
  have next_off: "offs ! Suc c = offs ! c + ns ! c"
    using c by (simp add: assms(4) prefix_sums_nth take_Suc_conv_app_nth)
  have le: "offs ! Suc c \<le> sum_list ns"
    using sum_list_append [of "take (Suc c) ns" "drop (Suc c) ns"] c
    by (simp add: assms(4) prefix_sums_nth del: sum_list_append)
  have req: "req ! j = c" if "offs ! c \<le> j" "j < offs ! c + ns ! c" for j
    using req_id_nth [of j "sum_list ns" c ns] that next_off le c assms(4,5) by simp
  have pos: "0 < ns ! c" using assms(1) c by simp
  have "firsts (\<lambda>i. i = offs ! (req ! i)) (\<lambda>i. sh (slots ! (req ! i))) (offs ! Suc c) (drop (Suc c) ns)
      (map sh (drop (Suc c) slots))"
    using Suc by (intro Suc.hyps) auto
  moreover have "drop c ns = ns ! c # drop (Suc c) ns" "drop c slots = slots ! c # drop (Suc c) slots"
    using c assms(2) by (simp_all add: Cons_nth_drop_Suc)
  ultimately show ?case using req pos next_off by simp
qed simp

lemma prev_varlen_concat:
  assumes "\<forall>xs \<in> set xss. xs \<noteq> []" and "length slots = length xss" and "offs = prefix_sums 0 (map length xss)"
  shows "prev_varlen offs (build_req_id (length (concat xss)) offs) slots sh (concat xss) =
    concat (map2 prevs (map sh slots) xss)"
proof -
  let ?req = "build_req_id (length (concat xss)) offs"
  have "firsts (\<lambda>i. i = offs ! (?req ! i)) (\<lambda>i. sh (slots ! (?req ! i))) (length ([] :: 'a list)) (map length xss) (map sh slots)"
    using firsts_varlen [of "map length xss" slots 0 offs ?req sh] assms
    by (simp add: length_concat prefix_sums_nth del: prefix_sums.simps)
  moreover have "length (map sh slots) = length xss" using assms(2) by simp
  ultimately show ?thesis
    using prev_rows_concat [of _ _ "[]" xss "map sh slots"] assms(1)
    by (simp only: prev_varlen_def append_Nil list.size add_0)
qed

section \<open>The batch one request at a time\<close>

lemma place_upd_other:
  "s \<notin> set ss \<Longrightarrow> length cs = length ss \<Longrightarrow> place ss cs (st(s := x)) = (place ss cs st)(s := x)"
  by (rule ext) (auto simp: place_def split: option.split dest!: map_of_SomeD set_zip_leftD)

lemma forward_batch_place:
  assumes "distinct slots" and "length tokss = length slots"
  shows "forward_batch fwd (zip tokss slots) st =
    (let rs = map2 (\<lambda>toks s. fwd toks (st s)) tokss slots in (map snd rs, place slots (map fst rs) st))"
  using assms
proof (induction slots arbitrary: tokss st)
  case (Cons s ss)
  then obtain t ts where t: "tokss = t # ts" by (cases tokss) auto
  obtain s' lg where f: "fwd t (st s) = (s', lg)" by fastforce
  let ?rs = "map2 (\<lambda>toks r. fwd toks (st r)) ts ss"
  have "map2 (\<lambda>toks r. fwd toks ((st(s := s')) r)) ts ss = ?rs"
    using Cons.prems(1) by (auto dest: set_zip_rightD)
  moreover have "distinct ss" "length ts = length ss" using Cons.prems t by simp_all
  ultimately have "forward_batch fwd (zip ts ss) (st(s := s')) = (map snd ?rs, place ss (map fst ?rs) (st(s := s')))"
    using Cons.IH [of ts "st(s := s')"] by (simp only: Let_def)
  moreover have "place ss (map fst ?rs) (st(s := s')) = (place ss (map fst ?rs) st)(s := s')"
    using Cons.prems t by (intro place_upd_other) simp_all
  ultimately show ?case using t f by (simp add: Let_def del: fun_upd_apply map_map)
qed (simp add: Let_def)

lemma map2_place:
  assumes "distinct slots" and "length cs = length slots"
  shows "map2 (\<lambda>x s. g x (place slots cs st s)) xs slots = map2 g xs cs"
  using assms by (intro nth_equalityI) (auto simp: place_nth)

lemma wkv_batch_place:
  assumes "distinct slots" and "length cs = length slots" and "length xss = length slots"
    and "offs = prefix_sums 0 (map length xss)"
    and "rs = map2 (\<lambda>xs c. wkv_run f (ss_elapsed c) (ss_wkv c l) xs) xss cs"
  shows "wkv_batch f l offs slots (concat xss) (place slots cs st) =
    (concat (map snd rs), place slots (map2 (\<lambda>w c. c\<lparr>ss_wkv := (ss_wkv c)(l := w)\<rparr>) (map fst rs) cs) st)"
proof -
  have "map2 (\<lambda>xs s. wkv_run f (ss_elapsed (place slots cs st s)) (ss_wkv (place slots cs st s) l) xs) xss slots = rs"
    using map2_place [OF assms(1,2), of "\<lambda>xs c. wkv_run f (ss_elapsed c) (ss_wkv c l) xs"] assms(5) by simp
  moreover have "length (map fst rs) = length slots" using assms(2,3,5) by simp
  ultimately show ?thesis
    using fold_place [OF assms(1), of "map fst rs" cs "\<lambda>w c. c\<lparr>ss_wkv := (ss_wkv c)(l := w)\<rparr>" st] assms(2,4)
    by (simp add: wkv_batch_def slices_concat Let_def)
qed

lemma advance_place:
  assumes "distinct slots" and "length cs = length slots" and "length ns = length slots"
  shows "advance_varlen (prefix_sums 0 ns) slots (place slots cs st) =
    place slots (map2 (\<lambda>n c. c\<lparr>ss_elapsed := ss_elapsed c + of_nat n\<rparr>) ns cs) st"
proof -
  have "map (\<lambda>i. prefix_sums 0 ns ! Suc i - prefix_sums 0 ns ! i) [0..<length ns] = ns"
    by (intro nth_equalityI) (simp_all add: offs_width)
  then show ?thesis
    using fold_place [OF assms(1) assms(3) assms(2), of "\<lambda>n c. c\<lparr>ss_elapsed := ss_elapsed c + of_nat n\<rparr>" st]
    by (simp add: advance_varlen_def)
qed

end
