(* ===== verification/Row_State.thy ===== *)
theory Row_State
  imports Packing
begin

text \<open>
  The kernels of \<^verbatim>\<open>vkwr/_ops/v1/\<close> and \<^verbatim>\<open>vkwr/_ops/v1_5/\<close> that keep a state: the state tensors have
  one row per sequence of the batch, and sequence \<open>i\<close> reads and writes row \<open>i\<close>; no slots. The host
  code refuses a state with another number of rows than the batch has sequences. On the rows they
  do what the kernels of \<^verbatim>\<open>v2\<close> and \<^verbatim>\<open>v2_5\<close> do in the slots \<open>0..<B\<close> (the lemmas of the last section).
\<close>

section \<open>States\<close>

type_synonym ('v, 'w) row_states = "('v, 'w) slot_state list"

definition zero_state :: "'v \<Rightarrow> 'w \<Rightarrow> nat \<Rightarrow> ('v, 'w) row_states" where
  "zero_state zv zw b = replicate b \<lparr>ss_shift = \<lambda>l j. zv, ss_wkv = \<lambda>l. zw, ss_elapsed = 0\<rparr>"

definition rows_checked :: "nat \<Rightarrow> ('v, 'w) row_states \<Rightarrow> 'a res \<Rightarrow> 'a res" where
  "rows_checked b ds r = (if length ds = b then r else Inl (RuntimeError ''shift_state must have shape [B,C]''))"

definition shift_rows :: "nat \<Rightarrow> nat \<Rightarrow> ('v, 'w) row_states \<Rightarrow> 'v list" where
  "shift_rows l j ds = map (\<lambda>s. ss_shift s l j) ds"

definition put_shift_rows :: "nat \<Rightarrow> nat \<Rightarrow> 'v list \<Rightarrow> ('v, 'w) row_states \<Rightarrow> ('v, 'w) row_states" where
  "put_shift_rows l j vs ds = map2 (\<lambda>v s. s\<lparr>ss_shift := (ss_shift s)(l := (ss_shift s l)(j := v))\<rparr>) vs ds"

section \<open>Token shift\<close>

text \<open>The row before each row; a sequence's first row is given its row \<open>sh\<close> of the state.\<close>

definition prev_uniform_v1 :: "nat \<Rightarrow> 'v list \<Rightarrow> 'v list \<Rightarrow> 'v list" where
  "prev_uniform_v1 t sh xs = map (\<lambda>i. if i mod t = 0 then sh ! (i div t) else xs ! (i - 1)) [0..<length xs]"

definition prev_varlen_v15 :: "nat list \<Rightarrow> nat list \<Rightarrow> 'v list \<Rightarrow> 'v list \<Rightarrow> 'v list" where
  "prev_varlen_v15 offs req sh xs =
     map (\<lambda>i. if i = offs ! (req ! i) then sh ! (req ! i) else xs ! (i - 1)) [0..<length xs]"

definition tmix_mix6_v1 ::
    "('v, 'w, 'p) kernels \<Rightarrow> nat \<Rightarrow> nat \<Rightarrow> nat \<Rightarrow> 'p mixes \<Rightarrow> 'v act \<Rightarrow> ('v, 'w) row_states
       \<Rightarrow> ('v mixes act \<times> ('v, 'w) row_states) res" where
  "tmix_mix6_v1 K b t l ws x ds =
     rows_checked b ds (Inr
       (Act (act_shape x) (map2 (mix6 K ws) (prev_uniform_v1 t (shift_rows l 0 ds) (act_rows x)) (act_rows x)),
        put_shift_rows l 0 (last_uniform b t (act_rows x)) ds))"

definition tmix_mix6_varlen_v15 ::
    "('v, 'w, 'p) kernels \<Rightarrow> nat \<Rightarrow> nat list \<Rightarrow> nat list \<Rightarrow> nat \<Rightarrow> 'p mixes \<Rightarrow> 'v act \<Rightarrow> ('v, 'w) row_states
       \<Rightarrow> ('v mixes act \<times> ('v, 'w) row_states) res" where
  "tmix_mix6_varlen_v15 K b offs req l ws x ds =
     rows_checked b ds (Inr
       (Act (act_shape x) (map2 (mix6 K ws) (prev_varlen_v15 offs req (shift_rows l 0 ds) (act_rows x)) (act_rows x)),
        put_shift_rows l 0 (last_varlen b offs (act_rows x)) ds))"

definition cmix_mix_v1 ::
    "('v, 'w, 'p) kernels \<Rightarrow> nat \<Rightarrow> nat \<Rightarrow> nat \<Rightarrow> 'p \<Rightarrow> 'v act \<Rightarrow> ('v, 'w) row_states
       \<Rightarrow> ('v act \<times> ('v, 'w) row_states) res" where
  "cmix_mix_v1 K b t l w x ds =
     rows_checked b ds (Inr
       (Act (act_shape x) (map2 (k_mix K w) (prev_uniform_v1 t (shift_rows l 1 ds) (act_rows x)) (act_rows x)),
        put_shift_rows l 1 (last_uniform b t (act_rows x)) ds))"

definition cmix_mix_varlen_v15 ::
    "('v, 'w, 'p) kernels \<Rightarrow> nat \<Rightarrow> nat list \<Rightarrow> nat list \<Rightarrow> nat \<Rightarrow> 'p \<Rightarrow> 'v act \<Rightarrow> ('v, 'w) row_states
       \<Rightarrow> ('v act \<times> ('v, 'w) row_states) res" where
  "cmix_mix_varlen_v15 K b offs req l w x ds =
     rows_checked b ds (Inr
       (Act (act_shape x) (map2 (k_mix K w) (prev_varlen_v15 offs req (shift_rows l 1 ds) (act_rows x)) (act_rows x)),
        put_shift_rows l 1 (last_varlen b offs (act_rows x)) ds))"

definition cmix_sparse_v1 ::
    "('v, 'w, 'p) kernels \<Rightarrow> nat \<Rightarrow> nat \<Rightarrow> nat \<Rightarrow> 'p \<times> 'p \<times> 'p \<Rightarrow> 'v act \<Rightarrow> ('v, 'w) row_states
       \<Rightarrow> ('v act \<times> ('v, 'w) row_states) res" where
  "cmix_sparse_v1 K b t l ws x ds =
     rows_checked b ds (Inr
       (Act [b, t] (map2 (k_cmix_sparse K ws) (prev_uniform_v1 t (shift_rows l 1 ds) (act_rows x)) (act_rows x)),
        put_shift_rows l 1 (last_uniform b t (act_rows x)) ds))"

section \<open>The recurrence\<close>

definition wkv_rows ::
    "('w \<Rightarrow> 32 word \<Rightarrow> 'x \<Rightarrow> 'w \<times> 'v) \<Rightarrow> nat \<Rightarrow> nat list \<Rightarrow> 'x list \<Rightarrow> ('v, 'w) row_states
       \<Rightarrow> 'v list \<times> ('v, 'w) row_states" where
  "wkv_rows f l offs xs ds =
     (let rs = map2 (\<lambda>seq s. wkv_run f (ss_elapsed s) (ss_wkv s l) seq) (slices offs xs) ds
      in (concat (map snd rs), map2 (\<lambda>w s. s\<lparr>ss_wkv := (ss_wkv s)(l := w)\<rparr>) (map fst rs) ds))"

text \<open>\<^verbatim>\<open>advance_i32\<close> adds one amount to every row, \<^verbatim>\<open>advance_i32_varlen\<close> every sequence's length.\<close>

definition advance_i32 :: "('v, 'w) row_states \<Rightarrow> nat \<Rightarrow> ('v, 'w) row_states" where
  "advance_i32 ds t = map (\<lambda>s. s\<lparr>ss_elapsed := ss_elapsed s + of_nat t\<rparr>) ds"

definition advance_i32_varlen :: "nat list \<Rightarrow> ('v, 'w) row_states \<Rightarrow> ('v, 'w) row_states" where
  "advance_i32_varlen offs ds =
     map2 (\<lambda>n s. s\<lparr>ss_elapsed := ss_elapsed s + of_nat n\<rparr>) (map (\<lambda>i. offs ! Suc i - offs ! i) [0..<length offs - 1]) ds"

section \<open>Rows as slots\<close>

definition rows_of :: "nat \<Rightarrow> ('v, 'w) states \<Rightarrow> ('v, 'w) row_states" where
  "rows_of b st = map st [0..<b]"

text \<open>A result on slots, seen on rows.\<close>

definition on_rows :: "nat \<Rightarrow> ('a \<times> ('v, 'w) states) res \<Rightarrow> ('a \<times> ('v, 'w) row_states) res" where
  "on_rows b r = bindE r (\<lambda>(y, st). Inr (y, rows_of b st))"

lemma length_rows_of [simp]: "length (rows_of b st) = b"
  by (simp add: rows_of_def)

lemma on_rows_simps [simp]:
  "on_rows b (Inl e) = Inl e" "on_rows b (Inr (y, st)) = Inr (y, rows_of b st)"
  by (simp_all add: on_rows_def)

lemma rows_checked_of [simp]: "rows_checked b (rows_of b st) r = r"
  by (simp add: rows_checked_def)

lemma on_rows_bind: "on_rows b (bindE m f) = bindE m (\<lambda>x. on_rows b (f x))"
  by (cases m) simp_all

lemma rows_of_place: "length cs = b \<Longrightarrow> rows_of b (place [0..<b] cs st) = cs"
  by (simp add: rows_of_def place_map)

lemma rows_placed: "st = place [0..<b] (rows_of b st) st"
  by (simp add: rows_of_def place_self)

lemma put_shift_rows_of:
  assumes "length vs = b"
  shows "put_shift_rows l j vs (rows_of b st) = rows_of b (set_shift l j [0..<b] vs st)"
proof -
  let ?g = "\<lambda>v c. c\<lparr>ss_shift := (ss_shift c)(l := (ss_shift c l)(j := v))\<rparr>"
  have "set_shift l j [0..<b] vs (place [0..<b] (rows_of b st) st) = place [0..<b] (map2 ?g vs (rows_of b st)) st"
    using assms by (intro set_shift_place) simp_all
  then have "set_shift l j [0..<b] vs st = place [0..<b] (map2 ?g vs (rows_of b st)) st"
    by (simp flip: rows_placed)
  then show ?thesis using assms by (simp add: put_shift_rows_def rows_of_place)
qed

lemma prev_uniform_rows:
  assumes "length xs = b * t"
  shows "prev_uniform_v1 t (shift_rows l j (rows_of b st)) xs = prev_uniform t [0..<b] (\<lambda>s. ss_shift (st s) l j) xs"
proof -
  have "i div t < b" if "i < length xs" for i using that assms by (simp add: less_mult_imp_div_less)
  then show ?thesis by (simp add: prev_uniform_v1_def prev_uniform_def shift_rows_def rows_of_def)
qed

lemma prev_varlen_rows:
  assumes "\<And>i. i < length xs \<Longrightarrow> req ! i < b"
  shows "prev_varlen_v15 offs req (shift_rows l j (rows_of b st)) xs = prev_varlen offs req [0..<b] (\<lambda>s. ss_shift (st s) l j) xs"
  using assms by (simp add: prev_varlen_v15_def prev_varlen_def shift_rows_def rows_of_def)

lemma lasts_length [simp]: "length (last_uniform b t xs) = b" "length (last_varlen b offs xs) = b"
  by (simp_all add: last_uniform_def last_varlen_def)

lemma uniform_kernels_rows:
  assumes "length (act_rows x) = b * t"
  shows "tmix_mix6_v1 K b t l ws x (rows_of b st) = on_rows b (Inr (tmix_mix6 K b t [0..<b] l ws x st))"
    and "cmix_mix_v1 K b t l w x (rows_of b st) = on_rows b (Inr (cmix_mix K b t [0..<b] l w x st))"
    and "cmix_sparse_v1 K b t l cs x (rows_of b st) = on_rows b (Inr (cmix_sparse K b t [0..<b] l cs x st))"
  using assms
  by (simp_all add: tmix_mix6_v1_def tmix_mix6_def cmix_mix_v1_def cmix_mix_def cmix_sparse_v1_def cmix_sparse_def
      prev_uniform_rows put_shift_rows_of)

lemma varlen_kernels_rows:
  assumes "\<And>i. i < length (act_rows x) \<Longrightarrow> req ! i < b"
  shows "tmix_mix6_varlen_v15 K b offs req l ws x (rows_of b st) = on_rows b (Inr (tmix_mix6_varlen K b offs req [0..<b] l ws x st))"
    and "cmix_mix_varlen_v15 K b offs req l w x (rows_of b st) = on_rows b (Inr (cmix_mix_varlen K b offs req [0..<b] l w x st))"
  using assms
  by (simp_all add: tmix_mix6_varlen_v15_def tmix_mix6_varlen_def cmix_mix_varlen_v15_def cmix_mix_varlen_def
      prev_varlen_rows put_shift_rows_of)

lemma wkv_rows_of:
  assumes "length offs = Suc b"
  shows "Inr (wkv_rows f l offs xs (rows_of b st)) = on_rows b (Inr (wkv_batch f l offs [0..<b] xs st))"
proof -
  define rs where "rs = map2 (\<lambda>seq s. wkv_run f (ss_elapsed (st s)) (ss_wkv (st s) l) seq) (slices offs xs) [0..<b]"
  have len: "length (map fst rs) = b" using assms by (simp add: rs_def slices_def)
  have rs: "map2 (\<lambda>seq s. wkv_run f (ss_elapsed s) (ss_wkv s l) seq) (slices offs xs) (rows_of b st) = rs"
    by (simp add: rs_def rows_of_def zip_map2 comp_def case_prod_unfold)
  let ?g = "\<lambda>w s. s\<lparr>ss_wkv := (ss_wkv s)(l := w)\<rparr>"
  have "fold (\<lambda>(s, w) st. st(s := ?g w (st s))) (zip [0..<b] (map fst rs)) (place [0..<b] (rows_of b st) st) =
      place [0..<b] (map2 ?g (map fst rs) (rows_of b st)) st"
    by (rule fold_place) (simp_all only: len length_upt length_rows_of diff_zero distinct_upt)
  then have "fold (\<lambda>(s, w) st. st(s := ?g w (st s))) (zip [0..<b] (map fst rs)) st =
      place [0..<b] (map2 ?g (map fst rs) (rows_of b st)) st"
    by (simp only: rows_placed [symmetric])
  then show ?thesis using len
    by (simp add: wkv_rows_def wkv_batch_def rs rows_of_place flip: rs_def)
qed

lemma advance_varlen_rows:
  assumes "length offs = Suc b"
  shows "advance_i32_varlen offs (rows_of b st) = rows_of b (advance_varlen offs [0..<b] st)"
proof -
  define ns where "ns = map (\<lambda>i. offs ! Suc i - offs ! i) [0..<length offs - 1]"
  have len: "length ns = b" by (simp add: ns_def assms)
  let ?g = "\<lambda>n s. s\<lparr>ss_elapsed := ss_elapsed s + of_nat n\<rparr>"
  have "fold (\<lambda>(s, n) st. st(s := ?g n (st s))) (zip [0..<b] ns) (place [0..<b] (rows_of b st) st) =
      place [0..<b] (map2 ?g ns (rows_of b st)) st"
    by (rule fold_place) (simp_all add: len)
  then have "fold (\<lambda>(s, n) st. st(s := ?g n (st s))) (zip [0..<b] ns) st = place [0..<b] (map2 ?g ns (rows_of b st)) st"
    by (simp only: rows_placed [symmetric])
  then show ?thesis unfolding advance_i32_varlen_def advance_varlen_def ns_def [symmetric]
    by (simp add: len rows_of_place)
qed

end
