(* ===== verification/Rwkv_Uniform.thy ===== *)
theory Rwkv_Uniform
  imports Row_State
begin

text \<open>
  \<^verbatim>\<open>vkwr/model_executor/models/rwkv7.py\<close> with its layers \<^verbatim>\<open>layers/time_mix.py\<close> and
  \<^verbatim>\<open>layers/channel_mix.py\<close>: the network over a rectangular batch of \<open>b\<close> sequences of \<open>t\<close> tokens,
  activations of shape \<open>[b, t]\<close>, one row of the state per sequence, on the kernels of \<^verbatim>\<open>v1\<close>. It can
  return the logits of every position or those of one chosen position per sequence. The low-rank
  products and the head are word for word those of the later networks and are taken from there, as
  are the weights: the loader is the same.
\<close>

section \<open>The model\<close>

text \<open>
  One kernel is this network's own: the sum, the norm and the channel mix of a batch of single
  tokens in one launch. From the norm's weight and bias, the mix vector, the row, its residual and
  the state's row it gives the sum, the mixed row and the state's new row.
\<close>

record ('v, 'w, 'p) rwkv_v1 =
  um_M :: "('v, 'w, 'p) rwkv"
  um_add_ln_cmix :: "'p \<Rightarrow> 'p \<Rightarrow> 'p \<Rightarrow> 'v \<Rightarrow> 'v \<Rightarrow> 'v \<Rightarrow> 'v \<times> 'v \<times> 'v"

definition dims3 :: "'v act \<Rightarrow> (nat \<times> nat) res" where
  "dims3 x = (case act_shape x of [b, t] \<Rightarrow> Inr (b, t) | _ \<Rightarrow> Inl (ValueError ''not enough values to unpack''))"

definition of_shape :: "nat \<Rightarrow> nat \<Rightarrow> 'v act \<Rightarrow> 'v act res" where
  "of_shape b t a = (if act_shape a = [b, t] then Inr a else Inl (RuntimeError ''must have shape [B,T,C]''))"

section \<open>Time mixing\<close>

definition tmix_inputs_v1 ::
    "('v, 'w, 'p) kernels \<Rightarrow> 'p weights \<Rightarrow> string \<Rightarrow> nat \<Rightarrow> nat \<Rightarrow> nat \<Rightarrow> 'v mixes act option \<Rightarrow> 'v act
       \<Rightarrow> ('v, 'w) row_states \<Rightarrow> ('v mixes act \<times> ('v, 'w) row_states) res" where
  "tmix_inputs_v1 K z p l b t pre_mix x ds =
     (case pre_mix of
        Some m \<Rightarrow> Inr (m, ds)
      | None \<Rightarrow> bindE (mix_weights z p) (\<lambda>ws. tmix_mix6_v1 K b t l ws x ds))"

definition tmix_rkv_v1 ::
    "('v, 'w, 'p) kernels \<Rightarrow> model_env \<Rightarrow> 'p weights \<Rightarrow> string \<Rightarrow> path_config \<Rightarrow> nat \<Rightarrow> nat \<Rightarrow> 'v mixes act
       \<Rightarrow> ('v act \<times> 'v act \<times> 'v act) res" where
  "tmix_rkv_v1 K me z p path b t m =
     (let xr = amap mx_r m; xk = amap mx_k m; xv = amap mx_v m;
          lin = (\<lambda>x key. bindE (weight z (p @ key)) (\<lambda>w.
                   linear_orig_layout K (me_wc me) (int (me_C me)) x w (path_rows path) ''att_c2c''))
      in if path_use_batched_rkv path then
           bindE (weight z (p @ ''rkv.weight'')) (\<lambda>w.
           bindE (stack_bmm K w (flat xr) (flat xk) (flat xv)) (\<lambda>rkv.
           bindE (view3 b t (amap fst rkv)) (\<lambda>r.
           bindE (view3 b t (amap (fst \<circ> snd) rkv)) (\<lambda>k.
           bindE (view3 b t (amap (snd \<circ> snd) rkv)) (\<lambda>v.
           Inr (r, k, v))))))
         else
           bindE (lin xr ''receptance.weight'') (\<lambda>r. bindE (lin xk ''key.weight'') (\<lambda>k.
           bindE (lin xv ''value.weight'') (\<lambda>v. Inr (r, k, v)))))"

definition tmix_gate_v1 ::
    "('v, 'w, 'p) kernels \<Rightarrow> 'p weights \<Rightarrow> string \<Rightarrow> nat \<Rightarrow> nat \<Rightarrow> 'v act \<Rightarrow> 'v act \<Rightarrow> ('v act \<times> 'v act \<times> 'v act) res" where
  "tmix_gate_v1 K z p b t k a =
     bindE (weight z (p @ ''k_k'')) (\<lambda>k_k. bindE (weight z (p @ ''a0'')) (\<lambda>a0.
     bindE (weight z (p @ ''k_a'')) (\<lambda>k_a.
     bindE (of_shape b t k) (\<lambda>k. bindE (azip k a) (\<lambda>ka.
     let o1 = amap (k_kk_a K (k_k, a0, k_a)) ka
     in Inr (amap fst o1, amap (fst \<circ> snd) o1, amap (snd \<circ> snd) o1))))))"

definition tmix_value_v1 ::
    "('v, 'w, 'p) kernels \<Rightarrow> model_env \<Rightarrow> 'p weights \<Rightarrow> string \<Rightarrow> nat \<Rightarrow> path_config \<Rightarrow> nat \<Rightarrow> nat \<Rightarrow> 'v act
       \<Rightarrow> 'v act \<Rightarrow> 'v act \<Rightarrow> 'v act option \<Rightarrow> ('v act \<times> 'v act) res" where
  "tmix_value_v1 K me z p l path b t xv v v_first v_done =
     (let v = (case v_done of None \<Rightarrow> v | Some v' \<Rightarrow> v')
      in if l = 0 then Inr (v, v)
         else if v_done \<noteq> None \<or> rank_out_fused me path then Inr (v, v_first)
         else
           bindE (linear_rank_in K xv (z (p @ ''v1'')) (z (p @ ''v1.t'')) (path_rows path)) (\<lambda>v1.
           bindE (linear_rank_out K (int (me_C me)) v1 (z (p @ ''v2'')) (z (p @ ''v2.t'')) (path_rows path)) (\<lambda>v12.
           bindE (weight z (p @ ''v0'')) (\<lambda>v0.
           bindE (of_shape b t v) (\<lambda>v. bindE (azip v_first v12) (\<lambda>vv. bindE (azip v vv) (\<lambda>all.
           Inr (amap (k_vres K v0) all, v_first))))))))"

definition tmix_wkv_v1 ::
    "('v, 'w, 'p) kernels \<Rightarrow> model_env \<Rightarrow> 'p weights \<Rightarrow> string \<Rightarrow> nat \<Rightarrow> nat \<Rightarrow> nat
       \<Rightarrow> 'v act \<Rightarrow> 'v act \<Rightarrow> 'v act \<Rightarrow> 'v act \<Rightarrow> 'v act \<Rightarrow> 'v act \<Rightarrow> ('v, 'w) row_states \<Rightarrow> ('v act \<times> ('v, 'w) row_states) res" where
  "tmix_wkv_v1 K me z p l b t r w k v neg_kk kka ds =
     bindE (weight z (p @ ''w0'')) (\<lambda>w0.
     let w_raw = amap (k_add_vec K w0) w;
         run = (\<lambda>f ins. rows_checked b ds
                  (case wkv_rows f l (uniform_offs b t) ins ds of (ys, ds') \<Rightarrow> Inr (Act (act_shape r) ys, ds')))
     in if ic_wkv_mode (me_ic me) = ''fp32io16'' then
          bindE (wkv_inputs (of_shape b t) r w_raw k v neg_kk kka) (run (\<lambda>s e. k_wkv32 K s))
        else if t \<le> 16 then bindE (wkv_inputs (of_shape b t) r w k v neg_kk kka) (run (k_wkv16_w0 K w0))
        else bindE (wkv_inputs (of_shape b t) r w_raw k v neg_kk kka) (run (k_wkv16 K)))"

definition tmix_out_v1 ::
    "('v, 'w, 'p) kernels \<Rightarrow> model_env \<Rightarrow> 'p weights \<Rightarrow> string \<Rightarrow> path_config \<Rightarrow> nat \<Rightarrow> nat
       \<Rightarrow> 'v act \<Rightarrow> 'v act \<Rightarrow> 'v act \<Rightarrow> 'v act \<Rightarrow> 'v act \<Rightarrow> 'v act res" where
  "tmix_out_v1 K me z p path b t y r k v g =
     bindE (weight z (p @ ''r_k'')) (\<lambda>r_k. bindE (weight z (p @ ''ln_x.weight'')) (\<lambda>lw.
     bindE (weight z (p @ ''ln_x.bias'')) (\<lambda>lb.
     bindE (of_shape b t y) (\<lambda>y.
     bindE (azip v g) (\<lambda>vg. bindE (azip k vg) (\<lambda>kvg. bindE (azip r kvg) (\<lambda>rkvg. bindE (azip y rkvg) (\<lambda>all.
     bindE (weight z (p @ ''output.weight'')) (\<lambda>ow.
     linear_orig_layout K (me_wc me) (int (me_C me)) (amap (k_lnx K (r_k, lw, lb)) all) ow (path_rows path) ''att_c2c'')))))))))"

definition tmix_forward_v1 ::
    "('v, 'w, 'p) kernels \<Rightarrow> model_env \<Rightarrow> 'p weights \<Rightarrow> string \<Rightarrow> nat \<Rightarrow> path_config \<Rightarrow> 'v mixes act option
       \<Rightarrow> 'v act \<Rightarrow> 'v act \<Rightarrow> ('v, 'w) row_states \<Rightarrow> ('v act \<times> 'v act \<times> ('v, 'w) row_states) res" where
  "tmix_forward_v1 K me z p l path pre_mix x v_first ds =
     bindE (dims3 x) (\<lambda>(b, t).
     bindE (tmix_inputs_v1 K z p l b t pre_mix x ds) (\<lambda>(m, ds).
     bindE (tmix_rkv_v1 K me z p path b t m) (\<lambda>(r, k, v).
     bindE (tmix_rank_in K me z p l path m) (\<lambda>ins.
     bindE (tmix_rank_out K me z p l path v v_first ins) (\<lambda>(w, a, g, v_done).
     bindE (tmix_gate_v1 K z p b t k a) (\<lambda>(k, neg_kk, kka).
     bindE (tmix_value_v1 K me z p l path b t (amap mx_v m) v v_first v_done) (\<lambda>(v, v_first).
     bindE (tmix_wkv_v1 K me z p l b t r w k v neg_kk kka ds) (\<lambda>(y, ds).
     bindE (tmix_out_v1 K me z p path b t y r k v g) (\<lambda>out.
     Inr (out, v_first, ds))))))))))"

section \<open>Channel mixing\<close>

definition cmix_from_mixed_v1 ::
    "('v, 'w, 'p) kernels \<Rightarrow> model_env \<Rightarrow> 'p weights \<Rightarrow> string \<Rightarrow> path_config \<Rightarrow> 'v act \<Rightarrow> 'v act res" where
  "cmix_from_mixed_v1 K me z p path mixed =
     bindE (dims3 mixed) (\<lambda>(b, t).
     bindE (weight z (p @ ''ffn.key.weight'')) (\<lambda>kw.
     bindE (linear_orig_layout K (me_wc me) (int (me_C me)) mixed kw (path_rows path) ''ffn_key'') (\<lambda>hid.
     bindE (weight z (p @ ''ffn.value.weight'')) (\<lambda>vw.
     if path_cmix_mode path = CMIX_B1T1_NOFC then
       run_down_relu K DownReluOne (me_C me) (k_size0 K vw) (Act [1, 1] (act_rows hid)) vw
     else if path_cmix_mode path = CMIX_ROWS2_NOFC then
       run_down_relu K
         (if path_rows path \<ge> 8 \<and> me_C me mod 512 = 0 \<and> k_size0 K vw mod 512 = 0 then DownReluRowsT512
          else DownReluRows) (me_C me) (k_size0 K vw) hid vw
     else linear_disp K (amap (k_relu_sq K) hid) vw))))"

definition cmix_forward_v1 ::
    "('v, 'w, 'p) kernels \<Rightarrow> model_env \<Rightarrow> 'p weights \<Rightarrow> string \<Rightarrow> nat \<Rightarrow> path_config \<Rightarrow> 'v act
       \<Rightarrow> ('v, 'w) row_states \<Rightarrow> ('v act \<times> ('v, 'w) row_states) res" where
  "cmix_forward_v1 K me z p l path x ds =
     bindE (dims3 x) (\<lambda>(b, t).
     if path_cmix_mode path = CMIX_B1T1_SPARSE \<or> path_cmix_mode path = CMIX_ROWS2_SPARSE then
       bindE (weight z (p @ ''ffn.key.weight.fc'')) (\<lambda>fc. bindE (weight z (p @ ''ffn.x_k'')) (\<lambda>x_k.
       bindE (weight z (p @ ''ffn.value.weight'')) (\<lambda>vw.
       if sparse_widths (me_C me) (k_size0 K fc) \<and> (path_cmix_mode path = CMIX_B1T1_SPARSE \<longrightarrow> b = 1 \<and> t = 1)
       then cmix_sparse_v1 K b t l (x_k, fc, vw) x ds
       else Inl (RuntimeError ''unsupported kernel launch''))))
     else
       bindE (weight z (p @ ''ffn.x_k'')) (\<lambda>x_k.
       bindE (cmix_mix_v1 K b t l x_k x ds) (\<lambda>(mixed, ds').
       bindE (cmix_from_mixed_v1 K me z p path mixed) (\<lambda>y. Inr (y, ds')))))"

section \<open>A layer\<close>

text \<open>\<^verbatim>\<open>add_layer_norm_cmix_mix_f16\<close>: a batch of single tokens, each with its row of the state.\<close>

definition add_ln_cmix ::
    "('v, 'w, 'p) rwkv_v1 \<Rightarrow> nat \<Rightarrow> nat \<Rightarrow> 'p \<Rightarrow> 'p \<Rightarrow> 'p \<Rightarrow> 'v act \<Rightarrow> 'v act \<Rightarrow> ('v, 'w) row_states
       \<Rightarrow> ('v act \<times> 'v act \<times> ('v, 'w) row_states) res" where
  "add_ln_cmix U b l w bi x_k x xx ds =
     bindE (azip x xx) (\<lambda>both.
     rows_checked b ds
       (let outs = map2 (\<lambda>(x, r) prev. um_add_ln_cmix U w bi x_k x r prev) (act_rows both) (shift_rows l 1 ds)
        in Inr (Act (act_shape x) (map fst outs), Act (act_shape x) (map (fst \<circ> snd) outs),
                put_shift_rows l 1 (map (snd \<circ> snd) outs) ds)))"

definition layer_body_v1 ::
    "('v, 'w, 'p) rwkv_v1 \<Rightarrow> path_config \<Rightarrow> nat \<Rightarrow> 'v act \<Rightarrow> 'v act \<Rightarrow> 'v act \<Rightarrow> 'v mixes act option
       \<Rightarrow> ('v, 'w) row_states \<Rightarrow> ('v act \<times> 'v act \<times> 'v act \<times> ('v, 'w) row_states) res" where
  "layer_body_v1 U path l x xx v_first pre_mix ds =
     (let K = rm_K (um_M U); me = rm_me (um_M U); z = rm_z (um_M U); p = layer_prefix l
      in bindE (dims3 x) (\<lambda>(b, t).
         bindE (tmix_forward_v1 K me z (p @ ''att.'') l path pre_mix xx v_first ds) (\<lambda>(xx, v_first, ds).
         if t = 1 \<and> path_cmix_mode path \<notin> {CMIX_B1T1_SPARSE, CMIX_ROWS2_SPARSE} then
           bindE (weight z (p @ ''ln2.weight'')) (\<lambda>w. bindE (weight z (p @ ''ln2.bias'')) (\<lambda>bi.
           bindE (weight z (p @ ''ffn.x_k'')) (\<lambda>x_k.
           bindE (add_ln_cmix U b l w bi x_k x xx ds) (\<lambda>(x, mixed, ds).
           bindE (cmix_from_mixed_v1 K me z p path mixed) (\<lambda>xx.
           Inr (x, xx, v_first, ds))))))
         else
           bindE (weight z (p @ ''ln2.weight'')) (\<lambda>w. bindE (weight z (p @ ''ln2.bias'')) (\<lambda>bi.
           bindE (add_ln K x xx w bi) (\<lambda>(x, xx).
           bindE (cmix_forward_v1 K me z p l path xx ds) (\<lambda>(xx, ds).
           Inr (x, xx, v_first, ds))))))))"

definition next_pre_mix_v1 ::
    "('v, 'w, 'p) rwkv_v1 \<Rightarrow> nat \<Rightarrow> nat \<Rightarrow> nat \<Rightarrow> 'v act \<Rightarrow> 'v act \<Rightarrow> ('v, 'w) row_states
       \<Rightarrow> ('v act \<times> 'v act \<times> 'v mixes act option \<times> ('v, 'w) row_states) res" where
  "next_pre_mix_v1 U b t l x xx ds =
     (let M = um_M U; K = rm_K M; z = rm_z M; p = layer_prefix (Suc l)
      in if ic_ln1_tmix_fuse (me_ic (rm_me M)) \<and> b = 1 \<and> t = 1 then
           bindE (weight z (p @ ''ln1.weight'')) (\<lambda>w. bindE (weight z (p @ ''ln1.bias'')) (\<lambda>bi.
           bindE (mix_weights z (p @ ''att.'')) (\<lambda>ws.
           bindE (azip x xx) (\<lambda>both.
           rows_checked 1 ds
             (case k_add_ln_mix6 K w bi ws (fst (hd (act_rows both))) (snd (hd (act_rows both))) (hd (shift_rows (Suc l) 0 ds)) of
                (x_out, mixes, shift) \<Rightarrow>
                  Inr (Act [1, 1] [x_out], Act [1, 1] [x_out], Some (Act [1, 1] [mixes]),
                       put_shift_rows (Suc l) 0 [shift] ds))))))
         else
           bindE (weight z (p @ ''ln1.weight'')) (\<lambda>w. bindE (weight z (p @ ''ln1.bias'')) (\<lambda>bi.
           bindE (add_ln K x xx w bi) (\<lambda>(x, xx). Inr (x, xx, None, ds)))))"

section \<open>The last layer\<close>

text \<open>
  The positions \<^verbatim>\<open>x[arange(B), last_indices]\<close>: the two index vectors are broadcast against each
  other, and a negative index counts from the end.
\<close>

definition index_pairs :: "nat \<Rightarrow> int list \<Rightarrow> (nat \<times> int) list res" where
  "index_pairs b idx =
     (if length idx = b then Inr (zip [0..<b] idx)
      else if length idx = 1 then Inr (map (\<lambda>i. (i, hd idx)) [0..<b])
      else if b = 1 then Inr (map (\<lambda>j. (0, j)) idx)
      else Inl IndexError)"

definition row_at :: "nat \<Rightarrow> 'v list \<Rightarrow> nat \<times> int \<Rightarrow> 'v res" where
  "row_at t xs ij =
     (case ij of (i, j) \<Rightarrow>
        if 0 \<le> j \<and> j < int t then Inr (xs ! (i * t + nat j))
        else if - int t \<le> j \<and> j < 0 then Inr (xs ! (i * t + nat (int t + j)))
        else Inl (RuntimeError ''device-side assert triggered''))"

definition finalize_v1 ::
    "('v, 'w, 'p) rwkv_v1 \<Rightarrow> 'v act \<Rightarrow> 'v act \<Rightarrow> ('v, 'w) row_states \<Rightarrow> nat \<Rightarrow> int list option
       \<Rightarrow> ('v act \<times> ('v, 'w) row_states) res" where
  "finalize_v1 U x xx ds t last_indices =
     (let M = um_M U; K = rm_K M; z = rm_z M
      in bindE (azip x xx) (\<lambda>both.
         bindE (weight z ''ln_out.weight'') (\<lambda>w. bindE (weight z ''ln_out.bias'') (\<lambda>bi.
         bindE (dims3 x) (\<lambda>(b, t').
         bindE (case last_indices of
                  Some idx \<Rightarrow>
                    bindE (index_pairs b idx) (\<lambda>ijs.
                    bindE (mapE (row_at t' (map (\<lambda>(x, r). k_ln K w bi (k_add K x r)) (act_rows both))) ijs) (\<lambda>rows.
                    Inr (Act [length rows] rows)))
                | None \<Rightarrow>
                    Inr (Act [b] (map (\<lambda>(x, r). k_add_last_ln K w bi x r) (last_uniform b t' (act_rows both))))) (\<lambda>x_out.
         bindE (linear_head M x_out) (\<lambda>lg. Inr (lg, advance_i32 ds t))))))))"

section \<open>The forward pass\<close>

text \<open>What follows the loop is reached with \<^verbatim>\<open>all_logits\<close> only: the norm and the head on every row.\<close>

fun layer_loop_v1 ::
    "('v, 'w, 'p) rwkv_v1 \<Rightarrow> path_config \<Rightarrow> nat \<Rightarrow> nat \<Rightarrow> bool \<Rightarrow> int list option \<Rightarrow> nat \<Rightarrow> nat \<Rightarrow> 'v act \<Rightarrow> 'v act \<Rightarrow> 'v act
       \<Rightarrow> 'v mixes act option \<Rightarrow> ('v, 'w) row_states \<Rightarrow> ('v act \<times> ('v, 'w) row_states) res" where
  "layer_loop_v1 U path b t al idx 0 l x xx v_first pre_mix ds =
     (let M = um_M U
      in bindE (weight (rm_z M) ''ln_out.weight'') (\<lambda>w. bindE (weight (rm_z M) ''ln_out.bias'') (\<lambda>bi.
         bindE (linear_head M (amap (k_ln (rm_K M) w bi) x)) (\<lambda>lg. Inr (lg, advance_i32 ds t)))))"
| "layer_loop_v1 U path b t al idx (Suc n) l x xx v_first pre_mix ds =
     bindE (layer_body_v1 U path l x xx v_first pre_mix ds) (\<lambda>(x, xx, v_first, ds).
     if Suc l < rm_L (um_M U) then
       bindE (next_pre_mix_v1 U b t l x xx ds) (\<lambda>(x, xx, pre_mix, ds).
       layer_loop_v1 U path b t al idx n (Suc l) x xx v_first pre_mix ds)
     else if \<not> al then finalize_v1 U x xx ds t idx
     else bindE (azip x xx) (\<lambda>both.
       layer_loop_v1 U path b t al idx n (Suc l) (amap (\<lambda>(x, y). k_add (rm_K (um_M U)) x y) both) xx v_first None ds))"

definition forward_from_x_v1 ::
    "('v, 'w, 'p) rwkv_v1 \<Rightarrow> 'v act \<Rightarrow> ('v, 'w) row_states \<Rightarrow> path_config \<Rightarrow> bool \<Rightarrow> int list option
       \<Rightarrow> ('v act \<times> ('v, 'w) row_states) res" where
  "forward_from_x_v1 U x ds path al idx =
     (let M = um_M U
      in bindE (dims3 x) (\<lambda>(b, t).
         bindE (weight (rm_z M) ''blocks.0.ln1.weight'') (\<lambda>w. bindE (weight (rm_z M) ''blocks.0.ln1.bias'') (\<lambda>bi.
         layer_loop_v1 U path b t al idx (rm_L M) 0 x (amap (k_ln (rm_K M) w bi) x) x None ds))))"

text \<open>Tokens in a vector are one sequence; a matrix is given by its shape and its rows in order.\<close>

datatype token_tensor = Vec "token list" | Mat nat nat "token list"

fun unsqueeze_tokens :: "token_tensor \<Rightarrow> nat \<times> nat \<times> token list" where
  "unsqueeze_tokens (Vec ts) = (1, length ts, ts)"
| "unsqueeze_tokens (Mat b t ts) = (b, t, ts)"

definition embed_v1 :: "('v, 'w, 'p) rwkv_v1 \<Rightarrow> nat \<Rightarrow> nat \<Rightarrow> token list \<Rightarrow> 'v act res" where
  "embed_v1 U b t toks = bindE (mapE (emb_row (um_M U)) toks) (\<lambda>xs. Inr (Act [b, t] xs))"

definition forward_v1 ::
    "('v, 'w, 'p) rwkv_v1 \<Rightarrow> token_tensor \<Rightarrow> ('v, 'w) row_states \<Rightarrow> ('v act \<times> ('v, 'w) row_states) res" where
  "forward_v1 U tokens ds =
     (case unsqueeze_tokens tokens of (b, t, toks) \<Rightarrow>
        let path = select_path (rm_sel (um_M U)) (int b) (int t)
        in bindE (embed_v1 U b t toks) (\<lambda>x. forward_from_x_v1 U x ds path False None))"

definition forward_all_logits ::
    "('v, 'w, 'p) rwkv_v1 \<Rightarrow> token_tensor \<Rightarrow> ('v, 'w) row_states \<Rightarrow> ('v act \<times> ('v, 'w) row_states) res" where
  "forward_all_logits U tokens ds =
     (case unsqueeze_tokens tokens of (b, t, toks) \<Rightarrow>
        let path = select_path (rm_sel (um_M U)) (int b) (int t)
        in bindE (embed_v1 U b t toks) (\<lambda>x. forward_from_x_v1 U x ds path True None))"

end
