(* ===== verification/Rwkv_Varlen.thy ===== *)
theory Rwkv_Varlen
  imports Row_State
begin

text \<open>
  \<^verbatim>\<open>vkwr/model_executor/models/rwkv7_varlen.py\<close> with its layers \<^verbatim>\<open>layers/time_mix_varlen.py\<close> and
  \<^verbatim>\<open>layers/channel_mix_varlen.py\<close>: the network over a packed batch whose state tensors have one row
  per sequence, on the kernels of \<^verbatim>\<open>v1\<close> and \<^verbatim>\<open>v1_5\<close>. What these files have in common with their
  successors (\<^verbatim>\<open>rwkv7_varlen_v2x.py\<close> and its layers) word by word, the projections, the low-rank
  products, the gate, the value and the output, are the definitions of \<^verbatim>\<open>Time_Mix\<close> and
  \<^verbatim>\<open>Channel_Mix\<close>; what touches the state is defined here. The field \<open>ba_slots\<close> of a batch is not
  used. The theorem at the end: on the rows this network does what its successor does in the slots
  \<open>0..<B\<close>, errors included.
\<close>

section \<open>Time mixing\<close>

definition tmix_inputs_v15 ::
    "('v, 'w, 'p) kernels \<Rightarrow> 'p weights \<Rightarrow> string \<Rightarrow> nat \<Rightarrow> packed \<Rightarrow> 'v mixes act option \<Rightarrow> 'v act \<Rightarrow> ('v, 'w) row_states
       \<Rightarrow> ('v mixes act \<times> ('v, 'w) row_states) res" where
  "tmix_inputs_v15 K z p l ba pre_mix x ds =
     (case pre_mix of
        Some m \<Rightarrow> Inr (m, ds)
      | None \<Rightarrow>
          bindE (mix_weights z p) (\<lambda>ws.
          if ba_uniform ba
          then bindE (view3 (ba_B ba) (ba_max_t ba) x) (\<lambda>x3. tmix_mix6_v1 K (ba_B ba) (ba_max_t ba) l ws x3 ds)
          else tmix_mix6_varlen_v15 K (ba_B ba) (ba_offs ba) (ba_req ba) l ws x ds))"

definition tmix_wkv_v15 ::
    "('v, 'w, 'p) kernels \<Rightarrow> model_env \<Rightarrow> 'p weights \<Rightarrow> string \<Rightarrow> nat \<Rightarrow> packed
       \<Rightarrow> 'v act \<Rightarrow> 'v act \<Rightarrow> 'v act \<Rightarrow> 'v act \<Rightarrow> 'v act \<Rightarrow> 'v act \<Rightarrow> ('v, 'w) row_states \<Rightarrow> ('v act \<times> ('v, 'w) row_states) res" where
  "tmix_wkv_v15 K me z p l ba r w k v neg_kk kka ds =
     bindE (weight z (p @ ''w0'')) (\<lambda>w0.
     let fp32 = (ic_wkv_mode (me_ic me) = ''fp32io16'');
         w_raw = amap (k_add_vec K w0) w;
         one = uniform_offs (ba_B ba) 1;
         uni = uniform_offs (ba_B ba) (ba_max_t ba);
         run = (\<lambda>f offs ins. rows_checked (ba_B ba) ds
                  (case wkv_rows f l offs ins ds of (ys, ds') \<Rightarrow> Inr (Act (act_shape r) ys, ds')))
     in if ba_max_t ba = 1 then
          if fp32 then bindE (wkv_inputs (view3 (ba_B ba) 1) r w_raw k v neg_kk kka) (run (\<lambda>s e. k_wkv32 K s) one)
          else bindE (wkv_inputs (view_row (ba_B ba)) r w k v neg_kk kka) (run (k_wkv16_w0 K w0) one)
        else if ba_uniform ba then
          if fp32 then
            bindE (wkv_inputs (view3 (ba_B ba) (ba_max_t ba)) r w_raw k v neg_kk kka) (run (\<lambda>s e. k_wkv32 K s) uni)
          else if ba_max_t ba \<le> 16 then
            bindE (wkv_inputs (view3 (ba_B ba) (ba_max_t ba)) r w k v neg_kk kka) (run (k_wkv16_w0 K w0) uni)
          else
            bindE (wkv_inputs (view3 (ba_B ba) (ba_max_t ba)) r w_raw k v neg_kk kka) (run (k_wkv16 K) uni)
        else if fp32 then bindE (wkv_inputs Inr r w_raw k v neg_kk kka) (run (\<lambda>s e. k_wkv32 K s) (ba_offs ba))
        else if ba_max_t ba \<le> 16 then
          bindE (wkv_inputs Inr r w k v neg_kk kka) (run (k_wkv16_w0 K w0) (ba_offs ba))
        else bindE (wkv_inputs Inr r w_raw k v neg_kk kka) (run (k_wkv16 K) (ba_offs ba)))"

definition tmix_forward_v15 ::
    "('v, 'w, 'p) kernels \<Rightarrow> model_env \<Rightarrow> 'p weights \<Rightarrow> string \<Rightarrow> nat \<Rightarrow> path_config \<Rightarrow> packed \<Rightarrow> 'v mixes act option
       \<Rightarrow> 'v act \<Rightarrow> 'v act \<Rightarrow> ('v, 'w) row_states \<Rightarrow> ('v act \<times> 'v act \<times> ('v, 'w) row_states) res" where
  "tmix_forward_v15 K me z p l path ba pre_mix x v_first ds =
     (let n_tok = hd (act_shape x)
      in bindE (tmix_inputs_v15 K z p l ba pre_mix x ds) (\<lambda>(m, ds).
         bindE (tmix_rkv K me z p path ba n_tok m) (\<lambda>(r, k, v).
         bindE (tmix_rank_in K me z p l path m) (\<lambda>ins.
         bindE (tmix_rank_out K me z p l path v v_first ins) (\<lambda>(w, a, g, v_done).
         bindE (tmix_gate K z p ba n_tok k a) (\<lambda>(k, neg_kk, kka).
         bindE (tmix_value K me z p l path ba n_tok (amap mx_v m) v v_first v_done) (\<lambda>(v, v_first).
         bindE (tmix_wkv_v15 K me z p l ba r w k v neg_kk kka ds) (\<lambda>(y, ds).
         bindE (tmix_out K me z p path ba n_tok y r k v g) (\<lambda>out.
         Inr (out, v_first, ds))))))))))"

section \<open>Channel mixing\<close>

definition cmix_forward_v15 ::
    "('v, 'w, 'p) kernels \<Rightarrow> model_env \<Rightarrow> 'p weights \<Rightarrow> string \<Rightarrow> nat \<Rightarrow> path_config \<Rightarrow> packed \<Rightarrow> 'v act
       \<Rightarrow> ('v, 'w) row_states \<Rightarrow> ('v act \<times> ('v, 'w) row_states) res" where
  "cmix_forward_v15 K me z p l path ba x ds =
     (if ba_uniform ba then
        bindE (view3 (ba_B ba) (ba_max_t ba) x) (\<lambda>x3.
        let mode = compute_cmix_mode (me_ic me) (int (ba_B ba)) (int (ba_max_t ba))
        in if mode = CMIX_B1T1_SPARSE \<or> mode = CMIX_ROWS2_SPARSE then
             bindE (weight z (p @ ''ffn.key.weight.fc'')) (\<lambda>fc. bindE (weight z (p @ ''ffn.x_k'')) (\<lambda>x_k.
             bindE (weight z (p @ ''ffn.value.weight'')) (\<lambda>vw.
             if sparse_widths (me_C me) (k_size0 K fc)
             then bindE (cmix_sparse_v1 K (ba_B ba) (ba_max_t ba) l (x_k, fc, vw) x3 ds) (\<lambda>(y, ds'). Inr (flat y, ds'))
             else Inl (RuntimeError ''unsupported kernel launch''))))
           else
             bindE (weight z (p @ ''ffn.x_k'')) (\<lambda>x_k.
             bindE (cmix_mix_v1 K (ba_B ba) (ba_max_t ba) l x_k x3 ds) (\<lambda>(mixed, ds').
             bindE (cmix_from_mixed K me z p path (Some mode) mixed) (\<lambda>y. Inr (flat y, ds')))))
      else
        bindE (weight z (p @ ''ffn.x_k'')) (\<lambda>x_k.
        bindE (cmix_mix_varlen_v15 K (ba_B ba) (ba_offs ba) (ba_req ba) l x_k x ds) (\<lambda>(mixed, ds').
        bindE (cmix_from_mixed K me z p path None mixed) (\<lambda>y. Inr (y, ds')))))"

section \<open>The network\<close>

definition layer_body_v15 ::
    "('v, 'w, 'p) rwkv \<Rightarrow> path_config \<Rightarrow> packed \<Rightarrow> nat \<Rightarrow> 'v act \<Rightarrow> 'v act \<Rightarrow> 'v act \<Rightarrow> 'v mixes act option
       \<Rightarrow> ('v, 'w) row_states \<Rightarrow> ('v act \<times> 'v act \<times> 'v act \<times> ('v, 'w) row_states) res" where
  "layer_body_v15 M path ba l x xx v_first pre_mix ds =
     (let K = rm_K M; me = rm_me M; z = rm_z M; p = layer_prefix l
      in bindE (tmix_forward_v15 K me z (p @ ''att.'') l path ba pre_mix xx v_first ds) (\<lambda>(xx, v_first, ds).
         bindE (weight z (p @ ''ln2.weight'')) (\<lambda>w. bindE (weight z (p @ ''ln2.bias'')) (\<lambda>b.
         bindE (add_ln K x xx w b) (\<lambda>(x, xx_ln).
         bindE (cmix_forward_v15 K me z p l path ba xx_ln ds) (\<lambda>(xx, ds).
         Inr (x, xx, v_first, ds)))))))"

definition next_pre_mix_v15 ::
    "('v, 'w, 'p) rwkv \<Rightarrow> packed \<Rightarrow> nat \<Rightarrow> 'v act \<Rightarrow> 'v act \<Rightarrow> ('v, 'w) row_states
       \<Rightarrow> ('v act \<times> 'v act \<times> 'v mixes act option \<times> ('v, 'w) row_states) res" where
  "next_pre_mix_v15 M ba l x xx ds =
     (let K = rm_K M; z = rm_z M; p = layer_prefix (Suc l)
      in if ic_ln1_tmix_fuse (me_ic (rm_me M)) \<and> ba_uniform ba \<and> ba_max_t ba = 1 \<and> ba_B ba = 1 then
           bindE (view3 1 1 x) (\<lambda>x3. bindE (view3 1 1 xx) (\<lambda>xx3.
           bindE (weight z (p @ ''ln1.weight'')) (\<lambda>w. bindE (weight z (p @ ''ln1.bias'')) (\<lambda>b.
           bindE (mix_weights z (p @ ''att.'')) (\<lambda>ws.
           rows_checked 1 ds
             (case k_add_ln_mix6 K w b ws (hd (act_rows x3)) (hd (act_rows xx3)) (hd (shift_rows (Suc l) 0 ds)) of
                (x_out, mixes, shift) \<Rightarrow>
                  Inr (Act [1] [x_out], Act [1] [x_out], Some (Act [1, 1] [mixes]), put_shift_rows (Suc l) 0 [shift] ds)))))))
         else
           bindE (weight z (p @ ''ln1.weight'')) (\<lambda>w. bindE (weight z (p @ ''ln1.bias'')) (\<lambda>b.
           bindE (add_ln K x xx w b) (\<lambda>(x, xx). Inr (x, xx, None, ds)))))"

definition finalize_v15 ::
    "('v, 'w, 'p) rwkv \<Rightarrow> packed \<Rightarrow> 'v act \<Rightarrow> 'v act \<Rightarrow> ('v, 'w) row_states \<Rightarrow> ('v act \<times> ('v, 'w) row_states) res" where
  "finalize_v15 M ba x xx ds =
     (let K = rm_K M; z = rm_z M; b = ba_B ba
      in bindE (if ba_uniform ba then bindE (view3 b (ba_max_t ba) x) (\<lambda>x. bindE (view3 b (ba_max_t ba) xx) (\<lambda>xx.
                  Inr (last_uniform b (ba_max_t ba) (act_rows x), last_uniform b (ba_max_t ba) (act_rows xx))))
                else bindE (azip x xx) (\<lambda>both.
                  Inr (last_varlen b (ba_offs ba) (act_rows x), last_varlen b (ba_offs ba) (act_rows xx)))) (\<lambda>(xs, rs).
         bindE (weight z ''ln_out.weight'') (\<lambda>w. bindE (weight z ''ln_out.bias'') (\<lambda>bi.
         let x_out = Act [b] (map2 (k_add_last_ln K w bi) xs rs);
             ds' = advance_i32_varlen (ba_offs ba) ds
         in bindE (linear_head M x_out) (\<lambda>lg. Inr (lg, ds'))))))"

text \<open>As in the successor, \<^verbatim>\<open>all_logits\<close> ends with a tuple where a tensor is expected.\<close>

fun layer_loop_v15 ::
    "('v, 'w, 'p) rwkv \<Rightarrow> path_config \<Rightarrow> packed \<Rightarrow> bool \<Rightarrow> nat \<Rightarrow> nat \<Rightarrow> 'v act \<Rightarrow> 'v act \<Rightarrow> 'v act
       \<Rightarrow> 'v mixes act option \<Rightarrow> ('v, 'w) row_states \<Rightarrow> ('v act \<times> ('v, 'w) row_states) res" where
  "layer_loop_v15 M path ba all_logits 0 l x xx v_first pre_mix ds =
     bindE (weight (rm_z M) ''ln_out.weight'') (\<lambda>_. bindE (weight (rm_z M) ''ln_out.bias'') (\<lambda>_. Inl AttributeError))"
| "layer_loop_v15 M path ba all_logits (Suc n) l x xx v_first pre_mix ds =
     bindE (layer_body_v15 M path ba l x xx v_first pre_mix ds) (\<lambda>(x, xx, v_first, ds).
     if Suc l < rm_L M then
       bindE (next_pre_mix_v15 M ba l x xx ds) (\<lambda>(x, xx, pre_mix, ds).
       layer_loop_v15 M path ba all_logits n (Suc l) x xx v_first pre_mix ds)
     else if \<not> all_logits then finalize_v15 M ba x xx ds
     else bindE (azip x xx) (\<lambda>both.
       layer_loop_v15 M path ba all_logits n (Suc l) (amap (\<lambda>(x, y). k_add (rm_K M) x y) both) xx v_first None ds))"

definition forward_from_x_v15 ::
    "('v, 'w, 'p) rwkv \<Rightarrow> 'v act \<Rightarrow> ('v, 'w) row_states \<Rightarrow> path_config \<Rightarrow> nat list \<Rightarrow> nat list \<Rightarrow> nat \<Rightarrow> nat
       \<Rightarrow> bool \<Rightarrow> ('v act \<times> ('v, 'w) row_states) res" where
  "forward_from_x_v15 M x ds path offs req max_t b all_logits =
     (let ba = \<lparr>ba_B = b, ba_max_t = max_t, ba_offs = offs, ba_req = req, ba_slots = [],
                ba_uniform = (hd (act_shape x) = b * max_t)\<rparr>
      in bindE (weight (rm_z M) ''blocks.0.ln1.weight'') (\<lambda>w. bindE (weight (rm_z M) ''blocks.0.ln1.bias'') (\<lambda>bi.
         layer_loop_v15 M path ba all_logits (rm_L M) 0 x (amap (k_ln (rm_K M) w bi) x) x None ds)))"

definition forward_v15 ::
    "('v, 'w, 'p) rwkv \<Rightarrow> token list \<Rightarrow> ('v, 'w) row_states \<Rightarrow> nat list \<Rightarrow> nat \<Rightarrow> ('v act \<times> ('v, 'w) row_states) res" where
  "forward_v15 M tokens ds offs max_t =
     (let b = length offs - 1;
          path = select_path_varlen (rm_sel M) (int b) (int max_t) (int (length tokens))
      in bindE (embed M tokens) (\<lambda>x.
         forward_from_x_v15 M x ds path offs (build_req_id (length tokens) offs) max_t b False))"

section \<open>Equivalence with the slots\<close>

text \<open>The batch as the slots see it: sequence \<open>i\<close> has slot \<open>i\<close>.\<close>

definition slotted :: "packed \<Rightarrow> packed" where
  "slotted ba = ba\<lparr>ba_slots := [0..<ba_B ba]\<rparr>"

lemma slotted_sel [simp]:
  "ba_B (slotted ba) = ba_B ba" "ba_max_t (slotted ba) = ba_max_t ba" "ba_offs (slotted ba) = ba_offs ba"
  "ba_req (slotted ba) = ba_req ba" "ba_uniform (slotted ba) = ba_uniform ba" "ba_slots (slotted ba) = [0..<ba_B ba]"
  by (simp_all add: slotted_def)

lemma slotted_parts [simp]:
  "rows_view (slotted ba) n a = rows_view ba n a"
  "tmix_rkv K me z p path (slotted ba) n m = tmix_rkv K me z p path ba n m"
  "tmix_gate K z p (slotted ba) n k' a = tmix_gate K z p ba n k' a"
  "tmix_value K me z p l path (slotted ba) n xv v v_first v_done = tmix_value K me z p l path ba n xv v v_first v_done"
  "tmix_out K me z p path (slotted ba) n y r k' v g = tmix_out K me z p path ba n y r k' v g"
  unfolding rows_view_def tmix_rkv_def tmix_gate_def tmix_value_def tmix_out_def slotted_sel by (rule refl)+

text \<open>A batch in order: one offset more than sequences, and every row belongs to a sequence.\<close>

definition in_order :: "packed \<Rightarrow> nat \<Rightarrow> bool" where
  "in_order ba n \<longleftrightarrow> length (ba_offs ba) = Suc (ba_B ba) \<and> (\<forall>i < n. ba_req ba ! i < ba_B ba)"

lemma in_orderD:
  "in_order ba n \<Longrightarrow> length (ba_offs ba) = Suc (ba_B ba)" "in_order ba n \<Longrightarrow> i < n \<Longrightarrow> ba_req ba ! i < ba_B ba"
  by (simp_all add: in_order_def)

lemma view3_rows: "view3 b t a = Inr c \<Longrightarrow> length (act_rows c) = b * t"
  by (auto simp: view3_def split: if_split_asm)

lemma length_uniform_offs: "length (uniform_offs b t) = Suc b"
  by (simp add: uniform_offs_def)

lemma tmix_inputs_on_rows:
  assumes "in_order ba n" and "length (act_rows x) \<le> n"
  shows "tmix_inputs_v15 K z p l ba pre_mix x (rows_of (ba_B ba) st) =
    on_rows (ba_B ba) (tmix_inputs K z p l (slotted ba) pre_mix x st)"
  using assms
  by (cases pre_mix)
    (auto simp: tmix_inputs_v15_def tmix_inputs_def on_rows_bind uniform_kernels_rows view3_rows
      intro!: bindE_cong varlen_kernels_rows(1) in_orderD(2))

lemma tmix_wkv_on_rows:
  assumes "in_order ba n"
  shows "tmix_wkv_v15 K me z p l ba r w k v neg_kk kka (rows_of (ba_B ba) st) =
    on_rows (ba_B ba) (tmix_wkv K me z p l (slotted ba) r w k v neg_kk kka st)"
proof -
  have run: "(case wkv_rows f l offs ins (rows_of (ba_B ba) st) of (ys, ds') \<Rightarrow> Inr (Act sh ys, ds')) =
      on_rows (ba_B ba) (case wkv_batch f l offs [0..<ba_B ba] ins st of (ys, st') \<Rightarrow> Inr (Act sh ys, st'))"
    if "length offs = Suc (ba_B ba)" for f offs ins sh
    using wkv_rows_of [OF that, of f l ins st] by (auto split: prod.splits)
  show ?thesis
    using in_orderD(1) [OF assms]
    by (simp add: tmix_wkv_v15_def tmix_wkv_def Let_def on_rows_bind run length_uniform_offs if_distrib [of "on_rows (ba_B ba)"]
        cong: if_cong)
qed

text \<open>A step on rows followed by another one.\<close>

lemma on_rows_then:
  "X = on_rows b Y \<Longrightarrow> bindE X F = bindE Y (\<lambda>r. F (fst r, rows_of b (snd r)))"
  by (simp add: on_rows_def bindE_assoc case_prod_unfold)

lemma tmix_forward_on_rows:
  assumes "in_order ba n" and "length (act_rows x) \<le> n"
  shows "tmix_forward_v15 K me z p l path ba pre_mix x v_first (rows_of (ba_B ba) st) =
    bindE (tmix_forward K me z p l path (slotted ba) pre_mix x v_first st) (\<lambda>(y, vf, st). Inr (y, vf, rows_of (ba_B ba) st))"
  by (simp add: tmix_forward_v15_def tmix_forward_def Let_def bindE_assoc case_prod_unfold
      on_rows_then [OF tmix_inputs_on_rows [OF assms]] on_rows_then [OF tmix_wkv_on_rows [OF assms(1)]])

lemma run_linear_rows: "run_linear K kn x w = Inr y \<Longrightarrow> length (act_rows y) = length (act_rows x)"
  by (auto simp: run_linear_def split: if_split_asm)

lemma layout_rows:
  "linear_disp K x w = Inr y \<Longrightarrow> length (act_rows y) = length (act_rows x)"
  "linear_orig_layout K wc c x w rows grp = Inr y \<Longrightarrow> length (act_rows y) = length (act_rows x)"
  by (auto simp: linear_disp_def linear_orig_layout_def split: if_split_asm dest: run_linear_rows)

lemma cmix_from_mixed_length:
  "cmix_from_mixed K me z p path md x = Inr y \<Longrightarrow> length (act_rows y) = length (act_rows x)"
  by (auto simp: cmix_from_mixed_def Let_def run_down_relu_def split: if_split_asm dest!: layout_rows)

lemma cmix_forward_on_rows:
  assumes "in_order ba n" and "length (act_rows x) \<le> n"
  shows "cmix_forward_v15 K me z p l path ba x (rows_of (ba_B ba) st) =
    on_rows (ba_B ba) (cmix_forward K me z p l path (slotted ba) x st)"
proof -
  have varlen: "cmix_mix_varlen_v15 K (ba_B ba) (ba_offs ba) (ba_req ba) l x_k x (rows_of (ba_B ba) st) =
      on_rows (ba_B ba) (Inr (cmix_mix_varlen K (ba_B ba) (ba_offs ba) (ba_req ba) [0..<ba_B ba] l x_k x st))" for x_k
    using assms by (intro varlen_kernels_rows(2) in_orderD(2) [OF assms(1)]) auto
  show ?thesis
  proof (cases "ba_uniform ba")
    case True
    then show ?thesis
      by (auto simp: cmix_forward_v15_def cmix_forward_def Let_def on_rows_bind uniform_kernels_rows view3_rows
          split: prod.split intro!: bindE_cong)
  next
    case False
    then show ?thesis
      by (simp add: cmix_forward_v15_def cmix_forward_def varlen on_rows_def bindE_assoc case_prod_unfold)
  qed
qed

lemma prev_lengths:
  "length (prev_uniform t slots f xs) = length xs" "length (prev_varlen offs req slots f xs) = length xs"
  by (simp_all add: prev_uniform_def prev_varlen_def)

lemma cmix_forward_length:
  "cmix_forward K me z p l path ba x st = Inr (y, st') \<Longrightarrow> length (act_rows y) = length (act_rows x)"
  by (auto simp: cmix_forward_def Let_def cmix_mix_def cmix_mix_varlen_def cmix_sparse_def flat_def view3_def prev_lengths
      split: if_split_asm dest!: cmix_from_mixed_length)

lemma add_ln_length:
  "add_ln K x r w b = Inr (y, z) \<Longrightarrow> length (act_rows y) \<le> length (act_rows x) \<and> length (act_rows z) \<le> length (act_rows x)"
  by (auto simp: add_ln_def azip_def Let_def split: if_split_asm)

lemma layer_body_on_rows:
  assumes "in_order ba n" and "length (act_rows x) \<le> n" and "length (act_rows xx) \<le> n"
  shows "layer_body_v15 M path ba l x xx v_first pre_mix (rows_of (ba_B ba) st) =
    bindE (layer_body M path (slotted ba) l x xx v_first pre_mix st)
      (\<lambda>(x, xx, vf, st). Inr (x, xx, vf, rows_of (ba_B ba) st))"
proof -
  have cmix: "bindE (cmix_forward_v15 (rm_K M) (rm_me M) (rm_z M) (layer_prefix l) l path ba (snd r) (rows_of (ba_B ba) s)) F =
      bindE (cmix_forward (rm_K M) (rm_me M) (rm_z M) (layer_prefix l) l path (slotted ba) (snd r) s)
        (\<lambda>r. F (fst r, rows_of (ba_B ba) (snd r)))"
    if "add_ln (rm_K M) x y w b = Inr r" for y w b r s and F :: "_ \<Rightarrow> ('a act \<times> 'a act \<times> 'a act \<times> ('a, 'b) row_states) res"
  proof (rule on_rows_then, rule cmix_forward_on_rows [OF assms(1)])
    show "length (act_rows (snd r)) \<le> n" using add_ln_length [of "rm_K M" x y w b "fst r" "snd r"] that assms(2) by simp
  qed
  show ?thesis
    unfolding layer_body_v15_def layer_body_def Let_def tmix_forward_on_rows [OF assms(1,3)]
    by (simp add: bindE_assoc case_prod_unfold cmix cong: bindE_cong)
qed

lemma layer_body_length:
  assumes "layer_body M path ba l x xx v_first pre_mix st = Inr (x', xx', vf, st')"
  shows "length (act_rows x') \<le> length (act_rows x)" and "length (act_rows xx') \<le> length (act_rows x)"
  using assms by (auto simp: layer_body_def Let_def dest!: cmix_forward_length dest: add_ln_length)

lemma next_pre_mix_on_rows:
  "next_pre_mix_v15 M ba l x xx (rows_of (ba_B ba) st) =
     bindE (next_pre_mix M (slotted ba) l x xx st) (\<lambda>(x, xx, pm, st). Inr (x, xx, pm, rows_of (ba_B ba) st))"
proof (cases "ic_ln1_tmix_fuse (me_ic (rm_me M)) \<and> ba_uniform ba \<and> ba_max_t ba = 1 \<and> ba_B ba = 1")
  case True
  then have b: "ba_B ba = 1" by simp
  have "shift_rows l' 0 (rows_of 1 st) = [ss_shift (st 0) l' 0]" for l' by (simp add: shift_rows_def rows_of_def)
  moreover have "put_shift_rows l' 0 [v] (rows_of 1 st) = rows_of 1 (set_shift l' 0 [0] [v] st)" for l' v
    using put_shift_rows_of [of "[v]" 1 l' 0 st] by simp
  ultimately show ?thesis using True
    unfolding next_pre_mix_v15_def next_pre_mix_def Let_def slotted_sel b
    by (simp add: bindE_assoc case_prod_unfold)
next
  case False
  then show ?thesis unfolding next_pre_mix_v15_def next_pre_mix_def Let_def slotted_sel
    by (simp only: if_False bindE_assoc) (simp add: bindE_assoc case_prod_unfold)
qed

lemma next_pre_mix_length:
  assumes "next_pre_mix M ba l x xx st = Inr (x', xx', pm, st')"
  shows "length (act_rows x') \<le> length (act_rows x)" and "length (act_rows xx') \<le> length (act_rows x)"
  using assms
  by (auto simp: next_pre_mix_def Let_def view3_def case_prod_unfold split: if_split_asm dest: add_ln_length)

lemma finalize_on_rows:
  assumes "in_order ba n"
  shows "finalize_v15 M ba x xx (rows_of (ba_B ba) st) = on_rows (ba_B ba) (finalize M (slotted ba) x xx st)"
  unfolding finalize_v15_def finalize_def Let_def slotted_sel advance_varlen_rows [OF in_orderD(1) [OF assms]]
  by (simp add: on_rows_bind case_prod_unfold)

lemma layer_loop_on_rows:
  assumes "in_order ba n" and "length (act_rows x) \<le> n" and "length (act_rows xx) \<le> n"
  shows "layer_loop_v15 M path ba al k l x xx v_first pre_mix (rows_of (ba_B ba) st) =
    on_rows (ba_B ba) (layer_loop M path (slotted ba) al k l x xx v_first pre_mix st)"
  using assms(2,3)
proof (induction k arbitrary: l x xx v_first pre_mix st)
  case 0
  show ?case by (simp add: on_rows_bind)
next
  case (Suc k)
  note body = layer_body_on_rows [OF assms(1) Suc.prems, of M path l v_first pre_mix st]
  show ?case
  proof (cases "layer_body M path (slotted ba) l x xx v_first pre_mix st")
    case (Inl e)
    then show ?thesis by (simp add: body)
  next
    case (Inr c)
    obtain x1 xx1 vf1 s1 where c: "c = (x1, xx1, vf1, s1)" by (cases c)
    have le: "length (act_rows x1) \<le> n" "length (act_rows xx1) \<le> n"
      using layer_body_length [OF Inr [unfolded c]] Suc.prems(1) by linarith+
    consider "Suc l < rm_L M" | "\<not> Suc l < rm_L M" "\<not> al" | "\<not> Suc l < rm_L M" "al" by blast
    then show ?thesis
    proof cases
      case 1
      show ?thesis
      proof (cases "next_pre_mix M (slotted ba) l x1 xx1 s1")
        case (Inl e)
        then show ?thesis using 1 by (simp add: body Inr c next_pre_mix_on_rows)
      next
        case inr: (Inr d)
        obtain x2 xx2 pm2 s2 where d: "d = (x2, xx2, pm2, s2)" by (cases d)
        have "length (act_rows x2) \<le> n" "length (act_rows xx2) \<le> n"
          using next_pre_mix_length [OF inr [unfolded d]] le(1) by linarith+
        then show ?thesis using 1 by (simp add: body Inr c next_pre_mix_on_rows inr d Suc.IH)
      qed
    next
      case 2
      then show ?thesis by (simp add: body Inr c finalize_on_rows [OF assms(1)])
    next
      case 3
      have "length (act_rows (amap f both)) \<le> n" if "azip x1 xx1 = Inr both" for f :: "'a \<times> 'a \<Rightarrow> 'a" and both
        using that le(1) by (auto simp: azip_def split: if_split_asm)
      then have "bindE (azip x1 xx1) (\<lambda>both. layer_loop_v15 M path ba al k (Suc l)
            (amap (\<lambda>(x, y). k_add (rm_K M) x y) both) xx1 vf1 None (rows_of (ba_B ba) s1)) =
          bindE (azip x1 xx1) (\<lambda>both. on_rows (ba_B ba) (layer_loop M path (slotted ba) al k (Suc l)
            (amap (\<lambda>(x, y). k_add (rm_K M) x y) both) xx1 vf1 None s1))"
        using le(2) by (intro bindE_cong refl Suc.IH) simp_all
      then show ?thesis using 3 by (simp add: body Inr c on_rows_bind)
    qed
  qed
qed

lemma build_req_id_bound:
  assumes "i < n" and "1 < length offs"
  shows "build_req_id n offs ! i < length offs - 1"
proof -
  let ?f = "\<lambda>k req. map (\<lambda>j. if offs ! k \<le> j \<and> j < offs ! Suc k then k else req ! j) [0..<n]"
  have "fold ?f ks req ! i < length offs - 1" if "\<forall>k \<in> set ks. k < length offs - 1" "req ! i < length offs - 1" for ks req
    using that
  proof (induction ks arbitrary: req)
    case (Cons k ks)
    have "?f k req ! i < length offs - 1" using Cons.prems assms(1) by simp
    with Cons show ?case by simp
  qed simp
  then show ?thesis using assms by (simp add: build_req_id_def)
qed

lemma embed_length: "embed M toks = Inr x \<Longrightarrow> length (act_rows x) = length toks"
  by (auto simp: embed_def dest: mapE_length)

lemma forward_on_rows:
  assumes "length offs = Suc b" and "0 < b"
  shows "forward_v15 M tokens (rows_of b st) offs max_t = on_rows b (forward M tokens st offs max_t [0..<b])"
proof (cases "embed M tokens")
  case (Inr x)
  let ?ba = "\<lparr>ba_B = b, ba_max_t = max_t, ba_offs = offs, ba_req = build_req_id (length tokens) offs, ba_slots = [],
    ba_uniform = (hd (act_shape x) = b * max_t)\<rparr>"
  have "in_order ?ba (length tokens)"
    using build_req_id_bound [of _ "length tokens" offs] assms by (simp add: in_order_def)
  note loop = layer_loop_on_rows [OF this, simplified, unfolded slotted_def packed.select_convs packed.update_convs]
  show ?thesis using assms(1)
    by (simp add: forward_v15_def forward_def Let_def Inr forward_from_x_v15_def forward_from_x_def on_rows_bind loop
        embed_length [OF Inr])
qed (simp add: forward_v15_def forward_def Let_def)


text \<open>A state with another number of rows is refused by the first kernel, whatever the batch.\<close>

lemma wrong_rows_refused:
  assumes "length ds \<noteq> length offs - 1" and "0 < rm_L M"
  shows "\<exists>e. forward_v15 M tokens ds offs max_t = Inl e"
proof -
  have inputs: "tmix_inputs_v15 K z p l ba None x ds \<noteq> Inr c" if "ba_B ba = length offs - 1" for K z p l ba x c
    using assms(1) that by (auto simp: tmix_inputs_v15_def tmix_mix6_v1_def tmix_mix6_varlen_v15_def rows_checked_def)
  obtain k where k: "rm_L M = Suc k" using assms(2) by (cases "rm_L M") auto
  have "forward_v15 M tokens ds offs max_t \<noteq> Inr c" for c
    by (auto simp: forward_v15_def Let_def forward_from_x_v15_def k layer_body_v15_def tmix_forward_v15_def inputs)
  then show ?thesis by (cases "forward_v15 M tokens ds offs max_t") auto
qed

end
