(* ===== verification/Rwkv_Loaded.thy ===== *)
theory Rwkv_Loaded
  imports Rwkv_Reference
begin

text \<open>
  What the network is built on: what is assumed of kernels that have several versions or fuse
  several steps (\<open>kernels_agree\<close>), and what the loader has stored of the checkpoint (\<open>loaded\<close>).
  The products of a layer are then those with the checkpoint's weights, on every path.
\<close>

section \<open>Kernels and weights\<close>

definition kernels_agree :: "('v, 'w, 'p) kernels \<Rightarrow> bool" where
  "kernels_agree K \<longleftrightarrow> products_agree K \<and>
     (\<forall>a b c x. k_bmm K (k_stack K (k_t K a) (k_t K b) (k_t K c)) x = map_prod (lin K a) (map_prod (lin K b) (lin K c)) x) \<and>
     (\<forall>a b c x. k_wag_in K (k_t K a, k_t K b, k_t K c) x = map_prod (low K a) (map_prod (low K b) (low K c)) x) \<and>
     (\<forall>a b c d x. k_wagv_in K (k_t K a, k_t K b, k_t K c, k_t K d) x =
        map_prod (low K a) (map_prod (low K b) (map_prod (low K c) (low K d))) x) \<and>
     (\<forall>a b c x. k_wag_out K (k_t K a, k_t K b, k_t K c) x =
        map_prod (low K a \<circ> k_act K 1) (map_prod (low K b) (low K c \<circ> k_act K 2)) x) \<and>
     (\<forall>a b c d v0 x y z q v vf. k_wagv_out K (k_t K a, k_t K b, k_t K c, k_t K d, v0) ((x, y, z, q), v, vf) =
        (low K a (k_act K 1 x), low K b y, low K c (k_act K 2 z), k_vres K v0 (v, vf, low K d q))) \<and>
     (\<forall>w0 s e r w k v a b. k_wkv16_w0 K w0 s e (r, w, k, v, a, b) = k_wkv16 K s e (r, k_add_vec K w0 w, k, v, a, b)) \<and>
     (\<forall>w b x r. k_add_ln K w b x r = (k_add K x r, k_ln K w b (k_add K x r))) \<and>
     (\<forall>w b x r. k_add_last_ln K w b x r = k_ln K w b (k_add K x r)) \<and>
     (\<forall>w b ws x r prev. k_add_ln_mix6 K w b ws x r prev =
        (k_add K x r, mix6 K ws prev (k_ln K w b (k_add K x r)), k_ln K w b (k_add K x r))) \<and>
     (\<forall>kn w x. k_down_relu K kn (k_t K w) x = lin K w (k_relu_sq K x)) \<and>
     (\<forall>m key val prev cur. k_cmix_sparse K (m, key, k_t K val) prev cur =
        lin K val (k_relu_sq K (lin K key (k_mix K m prev cur))))"

lemma kernels_agreeD:
  assumes "kernels_agree K"
  shows "products_agree K"
    and "k_bmm K (k_stack K (k_t K a) (k_t K b) (k_t K c)) x = map_prod (lin K a) (map_prod (lin K b) (lin K c)) x"
    and "k_wag_in K (k_t K a, k_t K b, k_t K c) x = map_prod (low K a) (map_prod (low K b) (low K c)) x"
    and "k_wagv_in K (k_t K a, k_t K b, k_t K c, k_t K d) y =
        map_prod (low K a) (map_prod (low K b) (map_prod (low K c) (low K d))) y"
    and "k_wag_out K (k_t K a, k_t K b, k_t K c) x =
        map_prod (low K a \<circ> k_act K 1) (map_prod (low K b) (low K c \<circ> k_act K 2)) x"
    and "k_wagv_out K (k_t K a, k_t K b, k_t K c, k_t K d, v0) ((p1, p2, p3, p4), v, vf) =
        (low K a (k_act K 1 p1), low K b p2, low K c (k_act K 2 p3), k_vres K v0 (v, vf, low K d p4))"
    and "k_wkv16_w0 K w0 s e (r, w, kk, v, aa, bb) = k_wkv16 K s e (r, k_add_vec K w0 w, kk, v, aa, bb)"
    and "k_add_ln K wt bi v1 v2 = (k_add K v1 v2, k_ln K wt bi (k_add K v1 v2))"
    and "k_add_last_ln K wt bi v1 v2 = k_ln K wt bi (k_add K v1 v2)"
    and "k_add_ln_mix6 K wt bi ws v1 v2 prev =
        (k_add K v1 v2, mix6 K ws prev (k_ln K wt bi (k_add K v1 v2)), k_ln K wt bi (k_add K v1 v2))"
    and "k_down_relu K kn (k_t K wt) v1 = lin K wt (k_relu_sq K v1)"
    and "k_cmix_sparse K (m, wt, k_t K bi) prev v1 = lin K bi (k_relu_sq K (lin K wt (k_mix K m prev v1)))"
  by (insert assms [unfolded kernels_agree_def], (elim conjE allE, assumption)+)

definition lowrank_suffixes :: "string list" where
  "lowrank_suffixes = [''w1'', ''w2'', ''a1'', ''a2'', ''g1'', ''g2'', ''v1'', ''v2'']"

text \<open>
  What \<^verbatim>\<open>z\<close> holds for layer \<open>l\<close>. The first layer has no weights for the value's residual. The
  sizes are those of the checkpoint: products with weights kept in their own layout need an even
  number of rows and a width divisible by four, the sparse kernels need wide layers, the
  low-rank kernels small ranks.
\<close>

definition plain_keys :: "nat \<Rightarrow> string list" where
  "plain_keys l = map (\<lambda>k. layer_prefix l @ k)
     ([''ln1.weight'', ''ln1.bias'', ''ln2.weight'', ''ln2.bias'', ''ffn.x_k'', ''att.x_r'', ''att.x_w'', ''att.x_k'',
       ''att.x_v'', ''att.x_a'', ''att.x_g'', ''att.k_k'', ''att.a0'', ''att.k_a'', ''att.w0'', ''att.r_k'',
       ''att.ln_x.weight'', ''att.ln_x.bias''] @ (if l = 0 then [] else [''att.v0'']))"

definition att_proj_keys :: "nat \<Rightarrow> string list" where
  "att_proj_keys l = map (\<lambda>k. layer_prefix l @ ''att.'' @ k)
     [''receptance.weight'', ''key.weight'', ''value.weight'', ''output.weight'']"

definition lowrank_keys :: "nat \<Rightarrow> string list" where
  "lowrank_keys l = map (\<lambda>k. layer_prefix l @ ''att.'' @ k)
     ([''w1'', ''w2'', ''a1'', ''a2'', ''g1'', ''g2''] @ (if l = 0 then [] else [''v1'', ''v2'']))"

definition stored :: "('v, 'w, 'p) kernels \<Rightarrow> weight_config \<Rightarrow> string \<Rightarrow> 'p \<Rightarrow> 'p" where
  "stored K wc grp w = (if use_orig_linear wc grp then w else k_t K w)"

definition layer_loaded :: "('v, 'w, 'p) kernels \<Rightarrow> model_env \<Rightarrow> (string \<Rightarrow> 'p) \<Rightarrow> 'p weights \<Rightarrow> nat \<Rightarrow> bool" where
  "layer_loaded K me P z l \<longleftrightarrow>
     (let p = layer_prefix l; ic = me_ic me; wc = me_wc me; mode = ic_lowrank_weight ic
      in (\<forall>k \<in> set (plain_keys l). z k = Some (P k)) \<and>
         (\<forall>k \<in> set (att_proj_keys l). z k = Some (stored K wc ''att_c2c'' (P k))) \<and>
         z (p @ ''ffn.key.weight'') = Some (stored K wc ''ffn_key'' (P (p @ ''ffn.key.weight''))) \<and>
         z (p @ ''ffn.value.weight'') = Some (k_t K (P (p @ ''ffn.value.weight''))) \<and>
         (ic_cmix_sparse ic = ''auto'' \<longrightarrow> z (p @ ''ffn.key.weight.fc'') = Some (P (p @ ''ffn.key.weight''))) \<and>
         (\<forall>k \<in> set (lowrank_keys l). z k = lowrank_plain mode (P k) \<and> z (k @ ''.t'') = lowrank_t K mode (P k)) \<and>
         (ic_rkv_mode ic \<noteq> ''off'' \<and> \<not> use_orig_linear wc ''att_c2c'' \<longrightarrow>
            z (p @ ''att.rkv.weight'') =
              Some (k_stack K (k_t K (P (p @ ''att.receptance.weight''))) (k_t K (P (p @ ''att.key.weight'')))
                      (k_t K (P (p @ ''att.value.weight''))))))"

definition layer_sizes :: "('v, 'w, 'p) kernels \<Rightarrow> model_env \<Rightarrow> (string \<Rightarrow> 'p) \<Rightarrow> nat \<Rightarrow> bool" where
  "layer_sizes K me P l \<longleftrightarrow>
     (let p = layer_prefix l
      in (\<forall>k \<in> set (att_proj_keys l). even (k_size0 K (P k)) \<and> 4 dvd k_size1 K (P k)) \<and>
         4 dvd k_size1 K (P (p @ ''ffn.key.weight'')) \<and>
         k_size0 K (P (p @ ''ffn.key.weight'')) mod 128 = 0 \<and> k_size1 K (P (p @ ''ffn.value.weight'')) mod 128 = 0 \<and>
         me_C me mod 256 = 0 \<and>
         (\<forall>k \<in> {''att.w2'', ''att.g2''}. k_size0 K (P (p @ k)) \<le> 512 \<and> k_size1 K (P (p @ k)) = me_C me))"

definition config_ok :: "inference_config \<Rightarrow> bool" where
  "config_ok ic \<longleftrightarrow> ic_lowrank_weight ic \<in> lowrank_modes \<and> ic_cmix_sparse ic \<in> {''auto'', ''no-fc'', ''off''}"

definition loaded :: "('v, 'w, 'p) rwkv \<Rightarrow> (string \<Rightarrow> 'p) \<Rightarrow> bool" where
  "loaded M P \<longleftrightarrow>
     (let K = rm_K M; me = rm_me M; z = rm_z M
      in config_ok (me_ic me) \<and> rm_sel M = path_selector_init None (Some (me_wc me)) (Some (me_ic me)) \<and>
         (\<forall>l < rm_L M. layer_loaded K me P z l \<and> layer_sizes K me P l) \<and>
         z ''ln_out.weight'' = Some (P ''ln_out.weight'') \<and> z ''ln_out.bias'' = Some (P ''ln_out.bias'') \<and>
         z ''head.weight'' = Some (stored K (me_wc me) ''head'' (P ''head.weight'')) \<and>
         even (k_size0 K (P ''head.weight'')) \<and> 4 dvd k_size1 K (P ''head.weight''))"

text \<open>The lookups one by one.\<close>

lemma layer_loadedD:
  assumes "layer_loaded K me P z l" and "a = layer_prefix l @ ''att.''"
  shows "z (a @ ''x_r'') = Some (P (a @ ''x_r''))" "z (a @ ''x_w'') = Some (P (a @ ''x_w''))"
    "z (a @ ''x_k'') = Some (P (a @ ''x_k''))" "z (a @ ''x_v'') = Some (P (a @ ''x_v''))"
    "z (a @ ''x_a'') = Some (P (a @ ''x_a''))" "z (a @ ''x_g'') = Some (P (a @ ''x_g''))"
    "z (a @ ''k_k'') = Some (P (a @ ''k_k''))" "z (a @ ''a0'') = Some (P (a @ ''a0''))"
    "z (a @ ''k_a'') = Some (P (a @ ''k_a''))" "z (a @ ''w0'') = Some (P (a @ ''w0''))"
    "z (a @ ''r_k'') = Some (P (a @ ''r_k''))" "z (a @ ''ln_x.weight'') = Some (P (a @ ''ln_x.weight''))"
    "z (a @ ''ln_x.bias'') = Some (P (a @ ''ln_x.bias''))"
    "l \<noteq> 0 \<Longrightarrow> z (a @ ''v0'') = Some (P (a @ ''v0''))"
    "z (layer_prefix l @ ''ln1.weight'') = Some (P (layer_prefix l @ ''ln1.weight''))"
    "z (layer_prefix l @ ''ln1.bias'') = Some (P (layer_prefix l @ ''ln1.bias''))"
    "z (layer_prefix l @ ''ln2.weight'') = Some (P (layer_prefix l @ ''ln2.weight''))"
    "z (layer_prefix l @ ''ln2.bias'') = Some (P (layer_prefix l @ ''ln2.bias''))"
    "z (layer_prefix l @ ''ffn.x_k'') = Some (P (layer_prefix l @ ''ffn.x_k''))"
    "z (a @ ''receptance.weight'') = Some (stored K (me_wc me) ''att_c2c'' (P (a @ ''receptance.weight'')))"
    "z (a @ ''key.weight'') = Some (stored K (me_wc me) ''att_c2c'' (P (a @ ''key.weight'')))"
    "z (a @ ''value.weight'') = Some (stored K (me_wc me) ''att_c2c'' (P (a @ ''value.weight'')))"
    "z (a @ ''output.weight'') = Some (stored K (me_wc me) ''att_c2c'' (P (a @ ''output.weight'')))"
proof -
  have plain: "z k = Some (P k)" if "k \<in> set (plain_keys l)" for k
    using assms(1) that by (simp add: layer_loaded_def Let_def)
  have proj: "z k = Some (stored K (me_wc me) ''att_c2c'' (P k))" if "k \<in> set (att_proj_keys l)" for k
    using assms(1) that by (simp add: layer_loaded_def Let_def)
  show "z (a @ ''x_r'') = Some (P (a @ ''x_r''))" "z (a @ ''x_w'') = Some (P (a @ ''x_w''))"
    "z (a @ ''x_k'') = Some (P (a @ ''x_k''))" "z (a @ ''x_v'') = Some (P (a @ ''x_v''))"
    "z (a @ ''x_a'') = Some (P (a @ ''x_a''))" "z (a @ ''x_g'') = Some (P (a @ ''x_g''))"
    "z (a @ ''k_k'') = Some (P (a @ ''k_k''))" "z (a @ ''a0'') = Some (P (a @ ''a0''))"
    "z (a @ ''k_a'') = Some (P (a @ ''k_a''))" "z (a @ ''w0'') = Some (P (a @ ''w0''))"
    "z (a @ ''r_k'') = Some (P (a @ ''r_k''))" "z (a @ ''ln_x.weight'') = Some (P (a @ ''ln_x.weight''))"
    "z (a @ ''ln_x.bias'') = Some (P (a @ ''ln_x.bias''))"
    "l \<noteq> 0 \<Longrightarrow> z (a @ ''v0'') = Some (P (a @ ''v0''))"
    "z (layer_prefix l @ ''ln1.weight'') = Some (P (layer_prefix l @ ''ln1.weight''))"
    "z (layer_prefix l @ ''ln1.bias'') = Some (P (layer_prefix l @ ''ln1.bias''))"
    "z (layer_prefix l @ ''ln2.weight'') = Some (P (layer_prefix l @ ''ln2.weight''))"
    "z (layer_prefix l @ ''ln2.bias'') = Some (P (layer_prefix l @ ''ln2.bias''))"
    "z (layer_prefix l @ ''ffn.x_k'') = Some (P (layer_prefix l @ ''ffn.x_k''))"
    by (rule plain, simp add: plain_keys_def assms(2))+
  show "z (a @ ''receptance.weight'') = Some (stored K (me_wc me) ''att_c2c'' (P (a @ ''receptance.weight'')))"
    "z (a @ ''key.weight'') = Some (stored K (me_wc me) ''att_c2c'' (P (a @ ''key.weight'')))"
    "z (a @ ''value.weight'') = Some (stored K (me_wc me) ''att_c2c'' (P (a @ ''value.weight'')))"
    "z (a @ ''output.weight'') = Some (stored K (me_wc me) ''att_c2c'' (P (a @ ''output.weight'')))"
    by (rule proj, simp add: att_proj_keys_def assms(2))+
qed

lemma lin_eq: "lin K w = k_lin K LinearF16Orig w"
  by (simp add: lin_def fun_eq_iff)

lemma low_eq: "low K w = k_lin K LinearF16 w"
  by (simp add: low_def fun_eq_iff)

lemma stored_product:
  assumes "products_agree K" and "even (k_size0 K w) \<and> 4 dvd k_size1 K w" and "rows = int (length (act_rows x))"
  shows "linear_orig_layout K wc c x (stored K wc grp w) rows grp = Inr (amap (lin K w) x)"
  unfolding lin_eq stored_def using assms by (intro layout_product) simp_all

end
