(* ===== verification/Time_Mix_Refine.thy ===== *)
theory Time_Mix_Refine
  imports Rwkv_Loaded
begin

text \<open>
  Time mixing on every path: whatever kernels the batch's size selects and however the weights
  are stored, a row gets what the recurrence's definitions give it (\<open>tmix_forward_rows\<close>).
\<close>

section \<open>Shapes\<close>

definition fits :: "packed \<Rightarrow> nat \<Rightarrow> bool" where
  "fits ba n \<longleftrightarrow> (ba_uniform ba \<longrightarrow> ba_B ba * ba_max_t ba = n) \<and> (ba_max_t ba = 1 \<longrightarrow> ba_uniform ba)"

definition bshape :: "packed \<Rightarrow> nat \<Rightarrow> nat list" where
  "bshape ba n = (if ba_uniform ba then [ba_B ba, ba_max_t ba] else [n])"

lemma view_Act [simp]:
  "b * t = length xs \<Longrightarrow> view3 b t (Act sh xs) = Inr (Act [b, t] xs)"
  "n = length xs \<Longrightarrow> view2 n (Act sh xs) = Inr (Act [n] xs)"
  by (simp_all add: view3_def view2_def)

lemma azip_Act [simp]: "azip (Act sh xs) (Act sh ys) = Inr (Act sh (zip xs ys))"
  by (simp add: azip_def)

lemma rows_view_Act:
  assumes "fits ba n" and "length xs = n"
  shows "rows_view ba n (Act sh xs) = Inr (Act (if ba_uniform ba then [ba_B ba, ba_max_t ba] else [n, 1]) xs)"
  using assms by (simp add: rows_view_def fits_def)

section \<open>A layer's setting\<close>

text \<open>The batch of \<open>n\<close> rows on a path, the layer's weights in place.\<close>

definition setting ::
    "('v, 'w, 'p) kernels \<Rightarrow> model_env \<Rightarrow> (string \<Rightarrow> 'p) \<Rightarrow> 'p weights \<Rightarrow> nat \<Rightarrow> path_config \<Rightarrow> packed \<Rightarrow> nat \<Rightarrow> bool" where
  "setting K me P z l path ba n \<longleftrightarrow>
     kernels_agree K \<and> config_ok (me_ic me) \<and> layer_loaded K me P z l \<and> layer_sizes K me P l \<and>
     path_rows path = int n \<and> fits ba n \<and> path_cmix_mode path = CMIX_DENSE \<and>
     (path_use_batched_rkv path \<longrightarrow> \<not> ba_uniform ba \<and> ic_rkv_mode (me_ic me) \<noteq> ''off'' \<and>
        \<not> use_orig_linear (me_wc me) ''att_c2c'')"

lemma settingD:
  assumes "setting K me P z l path ba n"
  shows "kernels_agree K" "config_ok (me_ic me)" "layer_loaded K me P z l" "layer_sizes K me P l"
    "path_rows path = int n" "fits ba n" "path_cmix_mode path = CMIX_DENSE"
    "path_use_batched_rkv path \<Longrightarrow> \<not> ba_uniform ba \<and> ic_rkv_mode (me_ic me) \<noteq> ''off'' \<and>
       \<not> use_orig_linear (me_wc me) ''att_c2c''"
  using assms unfolding setting_def by blast+

lemma setting_products: "setting K me P z l path ba n \<Longrightarrow> products_agree K"
  by (rule kernels_agreeD(1)) (rule settingD(1))

text \<open>A product with one of the four square weights.\<close>

lemma proj_product:
  assumes "setting K me P z l path ba n" and "k \<in> {''receptance.weight'', ''key.weight'', ''value.weight'', ''output.weight''}"
    and "a = layer_prefix l @ ''att.''"
  shows "weight z (a @ k) = Inr (stored K (me_wc me) ''att_c2c'' (P (a @ k)))"
    and "length (act_rows x) = n \<Longrightarrow>
      linear_orig_layout K (me_wc me) (int (me_C me)) x (stored K (me_wc me) ''att_c2c'' (P (a @ k))) (path_rows path) ''att_c2c'' =
      Inr (amap (lin K (P (a @ k))) x)"
proof -
  have key: "a @ k \<in> set (att_proj_keys l)" using assms(2,3) by (auto simp: att_proj_keys_def)
  have "z (a @ k) = Some (stored K (me_wc me) ''att_c2c'' (P (a @ k)))"
    using settingD(3) [OF assms(1)] key unfolding layer_loaded_def Let_def by blast
  then show "weight z (a @ k) = Inr (stored K (me_wc me) ''att_c2c'' (P (a @ k)))" by simp
  have "even (k_size0 K (P (a @ k))) \<and> 4 dvd k_size1 K (P (a @ k))"
    using settingD(4) [OF assms(1)] key unfolding layer_sizes_def Let_def by blast
  then show "length (act_rows x) = n \<Longrightarrow>
      linear_orig_layout K (me_wc me) (int (me_C me)) x (stored K (me_wc me) ''att_c2c'' (P (a @ k))) (path_rows path) ''att_c2c'' =
      Inr (amap (lin K (P (a @ k))) x)"
    using settingD(5) [OF assms(1)] by (intro stored_product setting_products [OF assms(1)]) simp_all
qed

lemma tmix_rkv_rows:
  assumes "setting K me P z l path ba n" and "length ms = n" and "a = layer_prefix l @ ''att.''"
  shows "tmix_rkv K me z a path ba n (Act (bshape ba n) ms) =
    Inr (Act (bshape ba n) (map (ref_r K P a) ms), Act (bshape ba n) (map (\<lambda>m. lin K (P (a @ ''key.weight'')) (mx_k m)) ms),
         Act (bshape ba n) (map (ref_v0 K P a) ms))"
proof (cases "path_use_batched_rkv path")
  case True
  note cfg = settingD(8) [OF assms(1) True]
  have w: "z (a @ ''rkv.weight'') =
      Some (k_stack K (k_t K (P (a @ ''receptance.weight''))) (k_t K (P (a @ ''key.weight''))) (k_t K (P (a @ ''value.weight''))))"
    using settingD(3) [OF assms(1)] cfg by (simp add: layer_loaded_def Let_def assms(3))
  show ?thesis
    using True cfg assms(2)
    by (simp add: tmix_rkv_def Let_def w bshape_def flat_def stack_bmm_def kernels_agreeD(2) [OF settingD(1) [OF assms(1)]]
        zip_map_map zip_same_conv_map comp_def ref_r_def ref_v0_def)
next
  case False
  have fits: "ba_uniform ba \<Longrightarrow> ba_B ba * ba_max_t ba = length ms" using settingD(6) [OF assms(1)] assms(2) by (simp add: fits_def)
  show ?thesis
    using False assms(2) fits proj_product [OF assms(1) _ assms(3)]
    by (simp add: tmix_rkv_def Let_def bshape_def comp_def ref_r_def ref_v0_def)
qed

section \<open>Low-rank products\<close>

lemma rank_weights:
  assumes "setting K me P z l path ba n" and "a = layer_prefix l @ ''att.''"
    and "k \<in> {''w1'', ''w2'', ''a1'', ''a2'', ''g1'', ''g2''} \<or> l \<noteq> 0 \<and> k \<in> {''v1'', ''v2''}"
  shows "z (a @ k) = lowrank_plain (ic_lowrank_weight (me_ic me)) (P (a @ k))"
    and "z (a @ k @ ''.t'') = lowrank_t K (ic_lowrank_weight (me_ic me)) (P (a @ k))"
proof -
  have key: "a @ k \<in> set (lowrank_keys l)" using assms(2,3) by (auto simp: lowrank_keys_def)
  have "\<forall>k \<in> set (lowrank_keys l). z k = lowrank_plain (ic_lowrank_weight (me_ic me)) (P k) \<and>
      z (k @ ''.t'') = lowrank_t K (ic_lowrank_weight (me_ic me)) (P k)"
    using settingD(3) [OF assms(1)] unfolding layer_loaded_def Let_def by blast
  from bspec [OF this key] show "z (a @ k) = lowrank_plain (ic_lowrank_weight (me_ic me)) (P (a @ k))"
    "z (a @ k @ ''.t'') = lowrank_t K (ic_lowrank_weight (me_ic me)) (P (a @ k))" by simp_all
qed

lemma rank_weight_t:
  assumes "setting K me P z l path ba n" and "a = layer_prefix l @ ''att.''" and "ic_lowrank_weight (me_ic me) \<noteq> ''orig''"
  shows "weight z (a @ ''w1.t'') = Inr (k_t K (P (a @ ''w1'')))" "weight z (a @ ''w2.t'') = Inr (k_t K (P (a @ ''w2'')))"
    "weight z (a @ ''a1.t'') = Inr (k_t K (P (a @ ''a1'')))" "weight z (a @ ''a2.t'') = Inr (k_t K (P (a @ ''a2'')))"
    "weight z (a @ ''g1.t'') = Inr (k_t K (P (a @ ''g1'')))" "weight z (a @ ''g2.t'') = Inr (k_t K (P (a @ ''g2'')))"
    "l \<noteq> 0 \<Longrightarrow> weight z (a @ ''v1.t'') = Inr (k_t K (P (a @ ''v1'')))"
    "l \<noteq> 0 \<Longrightarrow> weight z (a @ ''v2.t'') = Inr (k_t K (P (a @ ''v2'')))"
proof -
  have "lowrank_t K (ic_lowrank_weight (me_ic me)) w = Some (k_t K w)" for w
    using settingD(2) [OF assms(1)] assms(3) by (auto simp: config_ok_def lowrank_modes_def lowrank_t_def)
  note rw = rank_weights(2) [OF assms(1,2), unfolded this]
  show "weight z (a @ ''w1.t'') = Inr (k_t K (P (a @ ''w1'')))" "weight z (a @ ''w2.t'') = Inr (k_t K (P (a @ ''w2'')))"
    "weight z (a @ ''a1.t'') = Inr (k_t K (P (a @ ''a1'')))" "weight z (a @ ''a2.t'') = Inr (k_t K (P (a @ ''a2'')))"
    "weight z (a @ ''g1.t'') = Inr (k_t K (P (a @ ''g1'')))" "weight z (a @ ''g2.t'') = Inr (k_t K (P (a @ ''g2'')))"
    "l \<noteq> 0 \<Longrightarrow> weight z (a @ ''v1.t'') = Inr (k_t K (P (a @ ''v1'')))"
    "l \<noteq> 0 \<Longrightarrow> weight z (a @ ''v2.t'') = Inr (k_t K (P (a @ ''v2'')))"
    using rw [of "''w1''"] rw [of "''w2''"] rw [of "''a1''"] rw [of "''a2''"] rw [of "''g1''"] rw [of "''g2''"]
      rw [of "''v1''"] rw [of "''v2''"] by simp_all
qed

lemma tmix_rank_in_rows:
  assumes "setting K me P z l path ba n" and "a = layer_prefix l @ ''att.''"
  shows "tmix_rank_in K me z a l path (Act sh ms) =
    Inr (Act sh (map (\<lambda>m. low K (P (a @ ''w1'')) (mx_w m)) ms), Act sh (map (\<lambda>m. low K (P (a @ ''a1'')) (mx_a m)) ms),
         Act sh (map (\<lambda>m. low K (P (a @ ''g1'')) (mx_g m)) ms),
         if rank_fused me path \<and> rank_out_fused me path \<and> l \<noteq> 0
         then Some (Act sh (map (\<lambda>m. low K (P (a @ ''v1'')) (mx_v m)) ms)) else None)"
proof -
  note K = kernels_agreeD [OF settingD(1) [OF assms(1)]]
  show ?thesis
  proof (cases "rank_fused me path")
    case True
    then have "ic_lowrank_weight (me_ic me) \<noteq> ''orig''" by (simp add: rank_fused_def)
    note w = rank_weight_t [OF assms(1,2) this]
    show ?thesis using True by (simp add: tmix_rank_in_def Let_def w K(3,4) comp_def)
  next
    case False
    note rw = rank_weights [OF assms(1,2)]
    note prod = rank_products(1) [OF K(1), of "ic_lowrank_weight (me_ic me)"]
    have mode: "ic_lowrank_weight (me_ic me) \<in> lowrank_modes" using settingD(2) [OF assms(1)] by (simp add: config_ok_def)
    show ?thesis using False rw [of "''w1''"] rw [of "''a1''"] rw [of "''g1''"]
      by (simp add: tmix_rank_in_def Let_def prod [OF mode] low_eq comp_def)
  qed
qed

lemma zip_maps: "zip (map f xs) (map g xs) = map (\<lambda>x. (f x, g x)) xs"
  by (induction xs) auto

text \<open>From here on a row is a pair of its mixes and the first layer's value.\<close>

lemma tmix_rank_out_rows:
  assumes "setting K me P z l path ba n" and "a = layer_prefix l @ ''att.''" and "length zs = n"
    and "l \<noteq> 0 \<Longrightarrow> v_first = Act sh (map snd zs)"
    and "v1 = (if rank_fused me path \<and> rank_out_fused me path \<and> l \<noteq> 0
               then Some (Act sh (map (\<lambda>z. low K (P (a @ ''v1'')) (mx_v (fst z))) zs)) else None)"
  shows "tmix_rank_out K me z a l path (Act sh (map (ref_v0 K P a \<circ> fst) zs)) v_first
      (Act sh (map (\<lambda>z. low K (P (a @ ''w1'')) (mx_w (fst z))) zs), Act sh (map (\<lambda>z. low K (P (a @ ''a1'')) (mx_a (fst z))) zs),
       Act sh (map (\<lambda>z. low K (P (a @ ''g1'')) (mx_g (fst z))) zs), v1) =
    Inr (Act sh (map (ref_w K P a \<circ> fst) zs), Act sh (map (ref_a K P a \<circ> fst) zs), Act sh (map (ref_g K P a \<circ> fst) zs),
         if rank_fused me path \<and> rank_out_fused me path \<and> l \<noteq> 0
         then Some (Act sh (map (\<lambda>z. ref_v K P a l (fst z) (snd z)) zs)) else None)"
proof -
  note K = kernels_agreeD [OF settingD(1) [OF assms(1)]]
  note refs = ref_w_def ref_a_def ref_g_def ref_v_def comp_def
  show ?thesis
  proof (cases "rank_out_fused me path")
    case True
    then have "ic_lowrank_weight (me_ic me) \<noteq> ''orig''" by (simp add: rank_out_fused_def)
    note w = rank_weight_t [OF assms(1,2) this]
    have v0: "l \<noteq> 0 \<Longrightarrow> weight z (a @ ''v0'') = Inr (P (a @ ''v0''))"
      using layer_loadedD(14) [OF settingD(3) [OF assms(1)] assms(2)] by simp
    show ?thesis
    proof (cases "rank_fused me path \<and> l \<noteq> 0")
      case fused: True
      then show ?thesis using True assms(4,5)
        by (simp add: tmix_rank_out_def Let_def w v0 zip_maps K(6) refs)
    next
      case False
      then show ?thesis using True assms(5) by (auto simp: tmix_rank_out_def Let_def w zip_maps K(5) refs)
    qed
  next
    case False
    note rw = rank_weights [OF assms(1,2)]
    have mode: "ic_lowrank_weight (me_ic me) \<in> lowrank_modes" using settingD(2) [OF assms(1)] by (simp add: config_ok_def)
    have size: "k_size0 K (P (a @ k)) \<le> 512 \<and> int (k_size1 K (P (a @ k))) = int (me_C me)" if "k \<in> {''w2'', ''g2''}" for k
      using settingD(4) [OF assms(1)] that by (auto simp: layer_sizes_def Let_def assms(2))
    note prod = rank_products(2) [OF K(1) mode] rank_act_product [OF K(1) mode]
    show ?thesis
      using False rw [of "''w2''"] rw [of "''a2''"] rw [of "''g2''"] size settingD(5) [OF assms(1)] assms(3,5)
      by (simp add: tmix_rank_out_def Let_def prod refs low_eq)
  qed
qed

section \<open>Gate and residual\<close>

lemma tmix_gate_rows:
  assumes "setting K me P z l path ba n" and "a = layer_prefix l @ ''att.''" and "length ms = n"
  shows "tmix_gate K z a ba n (Act sh1 (map (\<lambda>m. lin K (P (a @ ''key.weight'')) (mx_k m)) ms)) (Act sh2 (map (ref_a K P a) ms)) =
    Inr (Act [n] (map (\<lambda>m. fst (ref_k K P a m)) ms), Act [n] (map (\<lambda>m. fst (snd (ref_k K P a m))) ms),
         Act [n] (map (\<lambda>m. snd (snd (ref_k K P a m))) ms))"
  using layer_loadedD(7-9) [OF settingD(3) [OF assms(1)] assms(2)] assms(3)
  by (simp add: tmix_gate_def rows_view_Act [OF settingD(6) [OF assms(1)]] zip_maps Let_def ref_k_def comp_def)

lemma tmix_value_rows:
  assumes "setting K me P z l path ba n" and "a = layer_prefix l @ ''att.''" and "length zs = n"
    and "l \<noteq> 0 \<Longrightarrow> v_first = Act (bshape ba n) (map snd zs)"
    and "v_done = (if rank_fused me path \<and> rank_out_fused me path \<and> l \<noteq> 0
         then Some (Act (bshape ba n) (map (\<lambda>z. ref_v K P a l (fst z) (snd z)) zs)) else None)"
    and "rank_out_fused me path \<Longrightarrow> rank_fused me path"
  shows "\<exists>sh. tmix_value K me z a l path ba n (Act (bshape ba n) (map (mx_v \<circ> fst) zs))
      (Act (bshape ba n) (map (ref_v0 K P a \<circ> fst) zs)) v_first v_done =
    Inr (Act sh (map (\<lambda>z. ref_v K P a l (fst z) (snd z)) zs), Act (bshape ba n) (map (\<lambda>z. ref_vf K P a l (fst z) (snd z)) zs))"
proof (cases "l = 0")
  case True
  then show ?thesis using assms(5) by (auto simp: tmix_value_def ref_v_def ref_vf_def comp_def)
next
  case False
  have vf: "Act sh (map snd zs) = Act sh (map (\<lambda>z. ref_vf K P a l (fst z) (snd z)) zs)" for sh
    using False by (simp add: ref_vf_def)
  show ?thesis
  proof (cases "rank_out_fused me path")
    case True
    then show ?thesis using False assms(4-6) by (auto simp: tmix_value_def vf)
  next
    case off: False
    note K = kernels_agreeD [OF settingD(1) [OF assms(1)]]
    note rw = rank_weights [OF assms(1,2)]
    have mode: "ic_lowrank_weight (me_ic me) \<in> lowrank_modes" using settingD(2) [OF assms(1)] by (simp add: config_ok_def)
    have v0: "weight z (a @ ''v0'') = Inr (P (a @ ''v0''))"
      using layer_loadedD(14) [OF settingD(3) [OF assms(1)] assms(2)] False by simp
    show ?thesis
      using False off assms(3-5) rw [of "''v1''"] rw [of "''v2''"]
      by (simp add: tmix_value_def rank_products [OF K(1) mode] v0 rows_view_Act [OF settingD(6) [OF assms(1)]] zip_maps
          ref_v_def ref_vf_def low_eq comp_def)
  qed
qed

section \<open>The recurrence and the output\<close>

lemma wkv_run_map: "wkv_run f e s (map h xs) = wkv_run (\<lambda>s e x. f s e (h x)) e s xs"
  by (induction xs arbitrary: e s) (auto split: prod.split)

lemma slices_map: "slices offs (map h xs) = map (map h) (slices offs xs)"
  by (simp add: slices_def take_map drop_map)

lemma wkv_batch_map: "wkv_batch f l offs slots (map h xs) st = wkv_batch (\<lambda>s e x. f s e (h x)) l offs slots xs st"
  by (simp add: wkv_batch_def slices_map wkv_run_map zip_map1 comp_def case_prod_unfold)

text \<open>The step of the recurrence on a row.\<close>

definition row_step ::
    "('v, 'w, 'p) kernels \<Rightarrow> (string \<Rightarrow> 'p) \<Rightarrow> bool \<Rightarrow> nat \<Rightarrow> 'w \<Rightarrow> 32 word \<Rightarrow> 'v mixes \<times> 'v \<Rightarrow> 'w \<times> 'v" where
  "row_step K P fp32 l s e z = ref_step K fp32 s e (ref_in K P (layer_prefix l @ ''att.'') l z)"

definition fp32_of :: "model_env \<Rightarrow> bool" where
  "fp32_of me \<longleftrightarrow> ic_wkv_mode (me_ic me) = ''fp32io16''"

lemma tmix_wkv_rows:
  assumes "setting K me P z l path ba n" and "a = layer_prefix l @ ''att.''" and "length zs = n"
    and "ba_uniform ba \<Longrightarrow> ba_offs ba = uniform_offs (ba_B ba) (ba_max_t ba)"
  shows "tmix_wkv K me z a l ba (Act sh1 (map (ref_r K P a \<circ> fst) zs)) (Act sh2 (map (ref_w K P a \<circ> fst) zs))
      (Act sh3 (map (\<lambda>z. fst (ref_k K P a (fst z))) zs)) (Act sh4 (map (\<lambda>z. ref_v K P a l (fst z) (snd z)) zs))
      (Act sh5 (map (\<lambda>z. fst (snd (ref_k K P a (fst z)))) zs)) (Act sh6 (map (\<lambda>z. snd (snd (ref_k K P a (fst z)))) zs)) st =
    (case wkv_batch (row_step K P (fp32_of me) l) l (ba_offs ba) (ba_slots ba) zs st of (ys, st') \<Rightarrow> Inr (Act sh1 ys, st'))"
proof -
  note K = kernels_agreeD [OF settingD(1) [OF assms(1)]]
  have fits: "ba_uniform ba \<Longrightarrow> ba_B ba * ba_max_t ba = n" "ba_max_t ba = 1 \<Longrightarrow> ba_uniform ba"
    using settingD(6) [OF assms(1)] by (auto simp: fits_def)
  have w0: "weight z (a @ ''w0'') = Inr (P (a @ ''w0''))"
    using layer_loadedD(10) [OF settingD(3) [OF assms(1)] assms(2)] by simp
  have in_eq: "ref_in K P a l z = (ref_r K P a (fst z), k_add_vec K (P (a @ ''w0'')) (ref_w K P a (fst z)), fst (ref_k K P a (fst z)),
      ref_v K P a l (fst z) (snd z), fst (snd (ref_k K P a (fst z))), snd (snd (ref_k K P a (fst z))))" for z
    by (simp add: ref_in_def split: prod.split)
  let ?raw = "\<lambda>z. (ref_r K P a (fst z), ref_w K P a (fst z), fst (ref_k K P a (fst z)),
      ref_v K P a l (fst z) (snd z), fst (snd (ref_k K P a (fst z))), snd (snd (ref_k K P a (fst z))))"
  have views: "\<And>sh g. ba_uniform ba \<Longrightarrow> view3 (ba_B ba) (ba_max_t ba) (Act sh (map g zs)) = Inr (Act [ba_B ba, ba_max_t ba] (map g zs))"
    "\<And>sh g. ba_max_t ba = 1 \<Longrightarrow> \<exists>sh'. view_row (ba_B ba) (Act sh (map g zs)) = Inr (Act sh' (map g zs))"
    using fits assms(3) by (auto simp: view_row_def)
  have ins: "wkv_inputs vw (Act sh1 (map (ref_r K P a \<circ> fst) zs)) (Act sh2 (map (f \<circ> (ref_w K P a \<circ> fst)) zs))
      (Act sh3 (map (\<lambda>z. fst (ref_k K P a (fst z))) zs)) (Act sh4 (map (\<lambda>z. ref_v K P a l (fst z) (snd z)) zs))
      (Act sh5 (map (\<lambda>z. fst (snd (ref_k K P a (fst z)))) zs)) (Act sh6 (map (\<lambda>z. snd (snd (ref_k K P a (fst z)))) zs)) =
      Inr (map (\<lambda>z. (ref_r K P a (fst z), f (ref_w K P a (fst z)), fst (ref_k K P a (fst z)),
        ref_v K P a l (fst z) (snd z), fst (snd (ref_k K P a (fst z))), snd (snd (ref_k K P a (fst z))))) zs)"
    if "\<And>sh g. \<exists>sh'. vw (Act sh (map g zs)) = Inr (Act sh' (map g zs))" for vw f
  proof -
    have "\<exists>S. \<forall>sh g. vw (Act sh (map g zs)) = Inr (Act (S sh g) (map g zs))"
      using that by metis
    then obtain S where "\<And>sh g. vw (Act sh (map g zs)) = Inr (Act (S sh g) (map g zs))" by blast
    then show ?thesis by (simp add: wkv_inputs_def zip6_def zip_maps comp_def)
  qed
  have fused: "k_wkv16_w0 K (P (a @ ''w0'')) s e (?raw z) = row_step K P False l s e z" for s e z
    unfolding K(7) row_step_def ref_step_def assms(2) [symmetric] in_eq by simp
  have run: "wkv_batch (k_wkv16_w0 K (P (a @ ''w0''))) l offs slots (map ?raw zs) st =
      wkv_batch (row_step K P False l) l offs slots zs st"
    "wkv_batch (k_wkv16 K) l offs slots (map (ref_in K P a l) zs) st = wkv_batch (row_step K P False l) l offs slots zs st"
    "wkv_batch (\<lambda>s e. k_wkv32 K s) l offs slots (map (ref_in K P a l) zs) st = wkv_batch (row_step K P True l) l offs slots zs st"
    for offs slots
    unfolding wkv_batch_map fused by (simp_all add: row_step_def [abs_def] ref_step_def flip: assms(2))
  note added = ins [of _ "k_add_vec K (P (a @ ''w0''))", folded in_eq]
  note raw = ins [of _ id, unfolded id_comp id_apply]
  have one: "ba_max_t ba = 1 \<Longrightarrow> ba_offs ba = uniform_offs (ba_B ba) 1" using assms(4) fits(2) by simp
  have v1: "ba_max_t ba = 1 \<Longrightarrow> \<exists>sh'. view3 (ba_B ba) 1 (Act sh (map g zs)) = Inr (Act sh' (map g zs))" for sh g
    using views(1) fits(2) by metis
  have v3: "ba_uniform ba \<Longrightarrow> \<exists>sh'. view3 (ba_B ba) (ba_max_t ba) (Act sh (map g zs)) = Inr (Act sh' (map g zs))" for sh g
    using views(1) by metis
  show ?thesis
  proof (cases "ba_max_t ba = 1")
    case True
    then show ?thesis
      by (simp add: tmix_wkv_def w0 Let_def fp32_of_def added [OF v1] raw [OF views(2)] run one
          del: One_nat_def prod.collapse)
  next
    case many: False
    show ?thesis
    proof (cases "ba_uniform ba")
      case True
      then show ?thesis using many
        by (simp add: tmix_wkv_def w0 Let_def fp32_of_def added [OF v3] raw [OF v3] run assms(4) del: prod.collapse)
    next
      case False
      then show ?thesis using many
        by (simp add: tmix_wkv_def w0 Let_def fp32_of_def added raw run del: prod.collapse)
    qed
  qed
qed

lemma zip_map2: "length ys = length zs \<Longrightarrow> zip ys (map g zs) = map (\<lambda>(z, y). (y, g z)) (zip zs ys)"
  by (intro nth_equalityI) auto

lemma tmix_out_rows:
  assumes "setting K me P z l path ba n" and "a = layer_prefix l @ ''att.''" and "length zs = n" and "length ys = n"
  shows "tmix_out K me z a path ba n (Act sh0 ys) (Act sh1 (map (ref_r K P a \<circ> fst) zs))
      (Act sh2 (map (\<lambda>z. fst (ref_k K P a (fst z))) zs)) (Act sh3 (map (\<lambda>z. ref_v K P a l (fst z) (snd z)) zs))
      (Act sh4 (map (ref_g K P a \<circ> fst) zs)) =
    Inr (Act [n] (map2 (ref_out K P a l) zs ys))"
proof -
  note w = layer_loadedD(11-13) [OF settingD(3) [OF assms(1)] assms(2)]
  note out = proj_product [OF assms(1) _ assms(2), of "''output.weight''"]
  let ?lnx = "k_lnx K (P (a @ ''r_k''), P (a @ ''ln_x.weight''), P (a @ ''ln_x.bias''))"
  have rows: "map (\<lambda>p. lin K (P (a @ ''output.weight'')) (?lnx p))
      (zip ys (map (\<lambda>z. (ref_r K P a (fst z), fst (ref_k K P a (fst z)), ref_v K P a l (fst z) (snd z), ref_g K P a (fst z))) zs)) =
      map2 (ref_out K P a l) zs ys"
    using assms(3,4) by (simp add: zip_map2 ref_out_def case_prod_unfold comp_def)
  show ?thesis
    using assms(3,4) out
    by (simp add: tmix_out_def rows_view_Act [OF settingD(6) [OF assms(1)]] zip_maps w comp_def rows)
qed

lemma wkv_run_len: "length (snd (wkv_run f e s xs)) = length xs"
  by (cases "wkv_run f e s xs") (simp add: wkv_run_length)

section \<open>Time mixing\<close>

lemma fused_order: "rank_out_fused me path \<Longrightarrow> rank_fused me path"
  by (simp add: rank_out_fused_def rank_fused_def can_use_lowrank_out_fused_def can_use_lowrank_fused_def lorank_cfg_def)

lemma tmix_forward_rows:
  assumes "setting K me P z l path ba n" and "a = layer_prefix l @ ''att.''" and "length zs = n"
    and "ba_uniform ba \<Longrightarrow> ba_offs ba = uniform_offs (ba_B ba) (ba_max_t ba)"
    and "l \<noteq> 0 \<Longrightarrow> v_first = Act (bshape ba n) (map snd zs)"
    and "tmix_inputs K z a l ba pre_mix x st = Inr (Act (bshape ba n) (map fst zs), st1)" and "hd (act_shape x) = n"
    and "wkv_batch (row_step K P (fp32_of me) l) l (ba_offs ba) (ba_slots ba) zs st1 = (ys, st2)" and "length ys = n"
  shows "tmix_forward K me z a l path ba pre_mix x v_first st =
    Inr (Act [n] (map2 (ref_out K P a l) zs ys), Act (bshape ba n) (map (\<lambda>z. ref_vf K P a l (fst z) (snd z)) zs), st2)"
proof -
  let ?sh = "bshape ba n"
  obtain v_done where vd: "v_done = (if rank_fused me path \<and> rank_out_fused me path \<and> l \<noteq> 0
      then Some (Act ?sh (map (\<lambda>z. ref_v K P a l (fst z) (snd z)) zs)) else None)" by simp
  obtain sh where vl: "tmix_value K me z a l path ba n (Act ?sh (map (mx_v \<circ> fst) zs))
      (Act ?sh (map (ref_v0 K P a \<circ> fst) zs)) v_first v_done =
      Inr (Act sh (map (\<lambda>z. ref_v K P a l (fst z) (snd z)) zs), Act ?sh (map (\<lambda>z. ref_vf K P a l (fst z) (snd z)) zs))"
    using tmix_value_rows [OF assms(1-3,5) vd fused_order] by blast
  have rkv: "tmix_rkv K me z a path ba n (Act ?sh (map fst zs)) =
      Inr (Act ?sh (map (ref_r K P a \<circ> fst) zs), Act ?sh (map (\<lambda>m. lin K (P (a @ ''key.weight'')) (mx_k m)) (map fst zs)),
           Act ?sh (map (ref_v0 K P a \<circ> fst) zs))"
    using tmix_rkv_rows [OF assms(1) _ assms(2), of "map fst zs"] assms(3) by simp
  obtain v1 where v1: "v1 = (if rank_fused me path \<and> rank_out_fused me path \<and> l \<noteq> 0
      then Some (Act ?sh (map (\<lambda>z. low K (P (a @ ''v1'')) (mx_v (fst z))) zs)) else None)" by simp
  have rank_in: "tmix_rank_in K me z a l path (Act ?sh (map fst zs)) =
      Inr (Act ?sh (map (\<lambda>z. low K (P (a @ ''w1'')) (mx_w (fst z))) zs), Act ?sh (map (\<lambda>z. low K (P (a @ ''a1'')) (mx_a (fst z))) zs),
           Act ?sh (map (\<lambda>z. low K (P (a @ ''g1'')) (mx_g (fst z))) zs), v1)"
    unfolding tmix_rank_in_rows [OF assms(1,2)] v1 map_map comp_def by (rule refl)
  note rank_out = tmix_rank_out_rows [OF assms(1-3,5) v1, folded vd]
  note gate = tmix_gate_rows [OF assms(1,2), of "map fst zs" ?sh ?sh, unfolded map_map comp_def length_map, OF assms(3)]
  note wkv = tmix_wkv_rows [OF assms(1-4)]
  note out = tmix_out_rows [OF assms(1-3,9)]
  show ?thesis
    by (simp add: tmix_forward_def assms(6-8) Let_def rkv [unfolded comp_def] rank_in rank_out [unfolded comp_def] gate
        vl [unfolded comp_def] comp_def wkv [unfolded comp_def] out [unfolded comp_def] del: prod.collapse bindE_eq_Inr)
qed

end
