(* ===== verification/Channel_Mix_Refine.thy ===== *)
theory Channel_Mix_Refine
  imports Time_Mix_Refine
begin

text \<open>
  Channel mixing on every path: dense, with the sparse kernels, fused into one; a row gets the
  recurrence's value. The same for the mixes of time mixing.
\<close>

definition prevs_of :: "packed \<Rightarrow> nat \<Rightarrow> nat \<Rightarrow> ('v, 'w) states \<Rightarrow> 'v list \<Rightarrow> 'v list" where
  "prevs_of ba l j st xs =
     (if ba_uniform ba then prev_uniform (ba_max_t ba) (ba_slots ba) (\<lambda>s. ss_shift (st s) l j) xs
      else prev_varlen (ba_offs ba) (ba_req ba) (ba_slots ba) (\<lambda>s. ss_shift (st s) l j) xs)"

definition lasts_of :: "packed \<Rightarrow> 'v list \<Rightarrow> 'v list" where
  "lasts_of ba xs =
     (if ba_uniform ba then last_uniform (ba_B ba) (ba_max_t ba) xs else last_varlen (ba_B ba) (ba_offs ba) xs)"

lemma prevs_of_length [simp]: "length (prevs_of ba l j st xs) = length xs"
  by (simp add: prevs_of_def prev_uniform_def prev_varlen_def)

lemma prev_uniform_length [simp]: "length (prev_uniform t slots f xs) = length xs"
  by (simp add: prev_uniform_def)

lemma tmix_inputs_rows:
  assumes "setting K me P z l path ba n" and "a = layer_prefix l @ ''att.''" and "length xs = n"
  shows "tmix_inputs K z a l ba None (Act [n] xs) st =
    Inr (Act (bshape ba n) (map2 (ref_mixes K P a) (prevs_of ba l 0 st xs) xs), set_shift l 0 (ba_slots ba) (lasts_of ba xs) st)"
proof -
  have fits: "ba_uniform ba \<Longrightarrow> ba_B ba * ba_max_t ba = n" using settingD(6) [OF assms(1)] by (simp add: fits_def)
  note w = layer_loadedD(1-6) [OF settingD(3) [OF assms(1)] assms(2)]
  have ws: "mix_weights z a =
      Inr (P (a @ ''x_r''), P (a @ ''x_w''), P (a @ ''x_k''), P (a @ ''x_v''), P (a @ ''x_a''), P (a @ ''x_g''))"
    by (simp add: mix_weights_def w)
  show ?thesis
    using fits assms(3)
    by (simp add: tmix_inputs_def ws tmix_mix6_def tmix_mix6_varlen_def bshape_def prevs_of_def lasts_of_def ref_mixes_def [abs_def])
qed

section \<open>Channel mixing\<close>

definition ref_down :: "('v, 'w, 'p) kernels \<Rightarrow> (string \<Rightarrow> 'p) \<Rightarrow> string \<Rightarrow> 'v \<Rightarrow> 'v" where
  "ref_down K P p m = lin K (P (p @ ''ffn.value.weight'')) (k_relu_sq K (lin K (P (p @ ''ffn.key.weight'')) m))"

text \<open>What the batch's size and the configuration let the mode be.\<close>

definition mode_fits :: "model_env \<Rightarrow> nat list \<Rightarrow> nat \<Rightarrow> string \<Rightarrow> bool" where
  "mode_fits me sh n mode \<longleftrightarrow> mode = CMIX_DENSE \<or> length sh = 2 \<and> (mode = CMIX_ROWS2_NOFC \<or> mode = CMIX_B1T1_NOFC \<and> n = 1)"

lemma cmix_from_mixed_rows:
  assumes "setting K me P z l path ba n" and "length ms = n"
    and "mode = (case md of None \<Rightarrow> path_cmix_mode path | Some m \<Rightarrow> m)" and "mode_fits me sh n mode"
  shows "\<exists>sh'. cmix_from_mixed K me z (layer_prefix l) path md (Act sh ms) = Inr (Act sh' (map (ref_down K P (layer_prefix l)) ms)) \<and>
    (mode = CMIX_DENSE \<longrightarrow> sh' = sh)"
proof -
  let ?p = "layer_prefix l"
  note K = kernels_agreeD [OF settingD(1) [OF assms(1)]]
  have w: "z (?p @ ''ffn.key.weight'') = Some (stored K (me_wc me) ''ffn_key'' (P (?p @ ''ffn.key.weight'')))"
    "z (?p @ ''ffn.value.weight'') = Some (k_t K (P (?p @ ''ffn.value.weight'')))"
    using settingD(3) [OF assms(1)] by (simp_all add: layer_loaded_def Let_def)
  have sizes: "even (k_size0 K (P (?p @ ''ffn.key.weight''))) \<and> 4 dvd k_size1 K (P (?p @ ''ffn.key.weight''))"
    "k_size1 K (P (?p @ ''ffn.value.weight'')) mod 128 = 0" "me_C me mod 256 = 0"
    using settingD(4) [OF assms(1)] by (auto simp: layer_sizes_def Let_def)
  have hid: "linear_orig_layout K (me_wc me) (int (me_C me)) (Act sh ms) (stored K (me_wc me) ''ffn_key'' (P (?p @ ''ffn.key.weight'')))
      (int n) ''ffn_key'' = Inr (Act sh (map (lin K (P (?p @ ''ffn.key.weight''))) ms))"
    by (subst stored_product [OF K(1) sizes(1)]) (simp_all add: assms(2))
  have down: "linear_disp K x (k_t K (P (?p @ ''ffn.value.weight''))) = Inr (amap (lin K (P (?p @ ''ffn.value.weight''))) x)" for x
    by (simp add: linear_disp_product [OF K(1)] lin_eq)
  have size_t: "k_size0 K (k_t K v) = k_size1 K v" for v by (rule agreeD(7) [OF K(1)])
  have modes: "CMIX_DENSE \<noteq> CMIX_B1T1_NOFC" "CMIX_DENSE \<noteq> CMIX_ROWS2_NOFC" "CMIX_ROWS2_NOFC \<noteq> CMIX_B1T1_NOFC"
    by (simp_all add: CMIX_DENSE_def CMIX_B1T1_NOFC_def CMIX_ROWS2_NOFC_def)
  consider "mode = CMIX_DENSE" | "mode = CMIX_ROWS2_NOFC" "length sh = 2" | "mode = CMIX_B1T1_NOFC" "length sh = 2" "n = 1"
    using assms(4) by (auto simp: mode_fits_def)
  then show ?thesis
  proof cases
    case 1
    then show ?thesis using modes settingD(5) [OF assms(1)]
      by (simp add: cmix_from_mixed_def Let_def w hid down comp_def ref_down_def flip: assms(3) del: bindE_eq_Inr)
  next
    case 2
    then show ?thesis using modes settingD(5) [OF assms(1)] sizes
      by (auto simp: cmix_from_mixed_def Let_def w hid run_down_relu_def sparse_widths_def size_t comp_def ref_down_def K(11)
          simp flip: assms(3) simp del: bindE_eq_Inr)
  next
    case 3
    then show ?thesis using modes settingD(5) [OF assms(1)] sizes assms(2) hid
      by (auto simp: cmix_from_mixed_def Let_def w run_down_relu_def sparse_widths_def size_t comp_def ref_down_def K(11)
          simp flip: assms(3) simp del: bindE_eq_Inr)
  qed
qed

lemma mode_fits_uniform:
  assumes "config_ok ic" and "b * t = n" and "mode = compute_cmix_mode ic (int b) (int t)" and "ic = me_ic me"
    and "mode \<noteq> CMIX_B1T1_SPARSE"
  shows "mode_fits me [b, t] n mode"
proof -
  have "int b * int t = 1 \<longleftrightarrow> n = 1" using assms(2) by (metis of_nat_1 of_nat_eq_iff of_nat_mult)
  then show ?thesis using assms(3,5) by (auto simp: mode_fits_def compute_cmix_mode_def Let_def)
qed

lemma sparse_only_auto:
  assumes "config_ok ic" and "compute_cmix_mode ic b t \<in> {CMIX_B1T1_SPARSE, CMIX_ROWS2_SPARSE}"
  shows "ic_cmix_sparse ic = ''auto''" and "compute_cmix_mode ic b t = CMIX_B1T1_SPARSE"
  using assms by (auto simp: config_ok_def compute_cmix_mode_def Let_def CMIX_DENSE_def CMIX_B1T1_SPARSE_def
      CMIX_ROWS2_SPARSE_def CMIX_B1T1_NOFC_def CMIX_ROWS2_NOFC_def split: if_split_asm)

lemma ref_cmix_eq: "ref_cmix K P p prev cur = ref_down K P p (k_mix K (P (p @ ''ffn.x_k'')) prev cur)"
  by (simp add: ref_cmix_def ref_down_def)

lemma cmix_forward_rows:
  assumes "setting K me P z l path ba n" and "length hs = n"
  shows "cmix_forward K me z (layer_prefix l) l path ba (Act [n] hs) st =
    Inr (Act [n] (map2 (ref_cmix K P (layer_prefix l)) (prevs_of ba l 1 st hs) hs),
         set_shift l 1 (ba_slots ba) (lasts_of ba hs) st)"
proof -
  let ?p = "layer_prefix l" let ?x_k = "P (layer_prefix l @ ''ffn.x_k'')"
  note K = kernels_agreeD [OF settingD(1) [OF assms(1)]]
  have x_k: "weight z (?p @ ''ffn.x_k'') = Inr ?x_k"
    using layer_loadedD(19) [OF settingD(3) [OF assms(1)] refl] by simp
  let ?ms = "map2 (k_mix K ?x_k) (prevs_of ba l 1 st hs) hs"
  have len: "length ?ms = n" using assms(2) by simp
  show ?thesis
  proof (cases "ba_uniform ba")
    case False
    then have "mode_fits me [n] n (path_cmix_mode path)" using settingD(7) [OF assms(1)] by (simp add: mode_fits_def)
    then have "cmix_from_mixed K me z ?p path None (Act [n] ?ms) = Inr (Act [n] (map (ref_down K P ?p) ?ms))"
      using cmix_from_mixed_rows [OF assms(1) len, of "path_cmix_mode path" None "[n]"] settingD(7) [OF assms(1)] by auto
    then show ?thesis using False
      by (simp add: cmix_forward_def x_k cmix_mix_varlen_def prevs_of_def lasts_of_def ref_cmix_eq case_prod_unfold del: bindE_eq_Inr)
  next
    case True
    then have fits: "ba_B ba * ba_max_t ba = n" using settingD(6) [OF assms(1)] by (simp add: fits_def)
    let ?mode = "compute_cmix_mode (me_ic me) (int (ba_B ba)) (int (ba_max_t ba))"
    have cfg: "config_ok (me_ic me)" by (rule settingD(2) [OF assms(1)])
    show ?thesis
    proof (cases "?mode \<in> {CMIX_B1T1_SPARSE, CMIX_ROWS2_SPARSE}")
      case sparse: True
      have auto: "ic_cmix_sparse (me_ic me) = ''auto''" by (rule sparse_only_auto(1) [OF cfg sparse])
      have w: "z (?p @ ''ffn.key.weight.fc'') = Some (P (?p @ ''ffn.key.weight''))"
        "z (?p @ ''ffn.value.weight'') = Some (k_t K (P (?p @ ''ffn.value.weight'')))"
        using settingD(3) [OF assms(1)] auto by (simp_all add: layer_loaded_def Let_def)
      have sizes: "sparse_widths (me_C me) (k_size0 K (P (?p @ ''ffn.key.weight'')))"
        using settingD(4) [OF assms(1)] by (simp add: layer_sizes_def Let_def sparse_widths_def)
      have fused: "k_cmix_sparse K (?x_k, P (?p @ ''ffn.key.weight''), k_t K (P (?p @ ''ffn.value.weight''))) = ref_cmix K P ?p"
        by (simp add: K(12) ref_cmix_def fun_eq_iff)
      show ?thesis using True sparse fits assms(2)
        by (simp add: cmix_forward_def Let_def w x_k sizes cmix_sparse_def fused flat_def prevs_of_def lasts_of_def
            del: bindE_eq_Inr)
    next
      case dense: False
      have "mode_fits me [ba_B ba, ba_max_t ba] n ?mode" using mode_fits_uniform [OF cfg fits refl refl] dense by simp
      then obtain sh' where "cmix_from_mixed K me z ?p path (Some ?mode) (Act [ba_B ba, ba_max_t ba] ?ms) =
          Inr (Act sh' (map (ref_down K P ?p) ?ms))"
        using cmix_from_mixed_rows [OF assms(1) len, of ?mode "Some ?mode"] by auto
      then show ?thesis using True dense fits assms(2)
        by (simp add: cmix_forward_def Let_def x_k cmix_mix_def flat_def prevs_of_def lasts_of_def ref_cmix_eq case_prod_unfold
            del: bindE_eq_Inr)
    qed
  qed
qed

end
