(* ===== verification/Rwkv_Refine.thy ===== *)
theory Rwkv_Refine
  imports Channel_Mix_Refine Packing
begin

text \<open>
  The forward pass over a packed batch gives every request what the recurrence gives it alone
  (\<open>forward_is_batch\<close>): the parts of a layer, a layer, the norm between layers with its fused
  version, the loop and the head, over the requests \<open>qs\<close>, each with its rows and its state.
\<close>

section \<open>A packed batch\<close>

definition packs :: "packed \<Rightarrow> nat list \<Rightarrow> bool" where
  "packs ba lens \<longleftrightarrow> lens \<noteq> [] \<and> (\<forall>n \<in> set lens. 0 < n) \<and> ba_B ba = length lens \<and> ba_offs ba = prefix_sums 0 lens \<and>
     ba_req ba = build_req_id (sum_list lens) (ba_offs ba) \<and> length (ba_slots ba) = length lens \<and> distinct (ba_slots ba) \<and>
     ba_max_t ba = Max (set lens) \<and> ba_uniform ba = (sum_list lens = ba_B ba * ba_max_t ba)"

lemma packsD:
  assumes "packs ba lens"
  shows "lens \<noteq> []" "\<forall>n \<in> set lens. 0 < n" "ba_B ba = length lens" "ba_offs ba = prefix_sums 0 lens"
    "ba_req ba = build_req_id (sum_list lens) (ba_offs ba)" "length (ba_slots ba) = length lens" "distinct (ba_slots ba)"
    "ba_max_t ba = Max (set lens)" "ba_uniform ba = (sum_list lens = ba_B ba * ba_max_t ba)"
  using assms unfolding packs_def by blast+

lemma packs_uniform:
  assumes "packs ba lens" and "ba_uniform ba"
  shows "\<forall>n \<in> set lens. n = ba_max_t ba" and "0 < ba_max_t ba" and "ba_offs ba = uniform_offs (ba_B ba) (ba_max_t ba)"
proof -
  note p = packsD [OF assms(1)]
  have "\<forall>n \<in> set lens. n \<le> ba_max_t ba" by (simp add: p(8))
  moreover have "sum_list lens = length lens * ba_max_t ba" using p(3,9) assms(2) by simp
  ultimately show all: "\<forall>n \<in> set lens. n = ba_max_t ba" by (rule uniform_lengths)
  show "0 < ba_max_t ba" using all p(1,2) by (metis list.set_sel(1))
  show "ba_offs ba = uniform_offs (ba_B ba) (ba_max_t ba)" using uniform_offs_sums [OF all] p(3,4) by simp
qed

lemma packs_fits:
  assumes "packs ba lens"
  shows "fits ba (sum_list lens)"
proof -
  note p = packsD [OF assms]
  have "ba_uniform ba" if "ba_max_t ba = 1"
  proof -
    have "\<forall>n \<in> set lens. n \<le> 1" using p(8) that Max_ge [of "set lens"] by (metis List.finite_set)
    then have "\<forall>n \<in> set lens. n = 1" using p(2) by (auto intro: order_antisym simp: Suc_le_eq)
    then have "sum_list lens = length lens" by (induction lens) auto
    then show ?thesis using p(3,9) that by simp
  qed
  then show ?thesis using p(9) by (auto simp: fits_def)
qed

lemma packs_prevs:
  assumes "packs ba (map length xss)"
  shows "prevs_of ba l j st (concat xss) = concat (map2 prevs (map (\<lambda>s. ss_shift (st s) l j) (ba_slots ba)) xss)"
proof (cases "ba_uniform ba")
  case True
  then show ?thesis
    using packs_uniform [OF assms True] packsD(6) [OF assms] by (simp add: prevs_of_def prev_uniform_concat)
next
  case False
  note p = packsD [OF assms]
  have "\<forall>xs \<in> set xss. xs \<noteq> []" using p(2) by auto
  then show ?thesis using False p(4-6) by (simp add: prevs_of_def length_concat prev_varlen_concat flip: length_concat)
qed

lemma packs_lasts:
  assumes "packs ba (map length xss)"
  shows "lasts_of ba (concat xss) = map last xss"
proof (cases "ba_uniform ba")
  case True
  then show ?thesis
    using packs_uniform [OF assms True] packsD(3) [OF assms] by (simp add: lasts_of_def last_uniform_concat)
next
  case False
  have "\<forall>xs \<in> set xss. xs \<noteq> []" using packsD(2) [OF assms] by auto
  then show ?thesis using False packsD(3,4) [OF assms] by (simp add: lasts_of_def last_varlen_concat)
qed

lemma packs_prevs_place:
  assumes "packs ba (map length xss)" and "length cs = length xss"
  shows "prevs_of ba l j (place (ba_slots ba) cs st) (concat xss) = concat (map2 (\<lambda>c. prevs (ss_shift c l j)) cs xss)"
proof -
  have "map (place (ba_slots ba) cs st) (ba_slots ba) = cs"
    using packsD(6,7) [OF assms(1)] assms(2) by (intro place_map) simp_all
  moreover have "map (\<lambda>s. ss_shift (place (ba_slots ba) cs st s) l j) (ba_slots ba) =
      map (\<lambda>c. ss_shift c l j) (map (place (ba_slots ba) cs st) (ba_slots ba))" by simp
  ultimately have "map (\<lambda>s. ss_shift (place (ba_slots ba) cs st s) l j) (ba_slots ba) = map (\<lambda>c. ss_shift c l j) cs"
    by simp
  then have "prevs_of ba l j (place (ba_slots ba) cs st) (concat xss) = concat (map2 prevs (map (\<lambda>c. ss_shift c l j) cs) xss)"
    by (simp only: packs_prevs [OF assms(1)])
  then show ?thesis by (simp add: zip_map1 comp_def case_prod_unfold)
qed

lemma map2_concat:
  assumes "\<forall>q \<in> set qs. length (F q) = length (G q)"
  shows "map2 f (concat (map F qs)) (concat (map G qs)) = concat (map (\<lambda>q. map2 f (F q) (G q)) qs)"
  using assms by (induction qs) simp_all

lemma zip_concat:
  assumes "\<forall>q \<in> set qs. length (F q) = length (G q)"
  shows "zip (concat (map F qs)) (concat (map G qs)) = concat (map (\<lambda>q. zip (F q) (G q)) qs)"
  using assms by (induction qs) simp_all

section \<open>A request in a layer\<close>

text \<open>The stages of a layer on one request's rows and state.\<close>

definition seq_x :: "('v, 'w) seq \<Rightarrow> 'v list" where
  "seq_x q = map fst (fst q)"

definition seq_xx :: "('v, 'w, 'p) kernels \<Rightarrow> (string \<Rightarrow> 'p) \<Rightarrow> nat \<Rightarrow> ('v, 'w) seq \<Rightarrow> 'v list" where
  "seq_xx K P l q = map (k_ln K (P (layer_prefix l @ ''ln1.weight'')) (P (layer_prefix l @ ''ln1.bias''))) (seq_x q)"

definition seq_mix :: "('v, 'w, 'p) kernels \<Rightarrow> (string \<Rightarrow> 'p) \<Rightarrow> nat \<Rightarrow> ('v, 'w) seq \<Rightarrow> 'v mixes list" where
  "seq_mix K P l q =
     map2 (ref_mixes K P (layer_prefix l @ ''att.'')) (prevs (ss_shift (snd q) l 0) (seq_xx K P l q)) (seq_xx K P l q)"

definition seq_zs :: "('v, 'w, 'p) kernels \<Rightarrow> (string \<Rightarrow> 'p) \<Rightarrow> nat \<Rightarrow> ('v, 'w) seq \<Rightarrow> ('v mixes \<times> 'v) list" where
  "seq_zs K P l q = zip (seq_mix K P l q) (map snd (fst q))"

definition seq_run :: "('v, 'w, 'p) kernels \<Rightarrow> (string \<Rightarrow> 'p) \<Rightarrow> bool \<Rightarrow> nat \<Rightarrow> ('v, 'w) seq \<Rightarrow> 'w \<times> 'v list" where
  "seq_run K P fp32 l q = wkv_run (row_step K P fp32 l) (ss_elapsed (snd q)) (ss_wkv (snd q) l) (seq_zs K P l q)"

definition seq_x1 :: "('v, 'w, 'p) kernels \<Rightarrow> (string \<Rightarrow> 'p) \<Rightarrow> bool \<Rightarrow> nat \<Rightarrow> ('v, 'w) seq \<Rightarrow> 'v list" where
  "seq_x1 K P fp32 l q =
     map2 (k_add K) (seq_x q) (map2 (ref_out K P (layer_prefix l @ ''att.'') l) (seq_zs K P l q) (snd (seq_run K P fp32 l q)))"

definition seq_h :: "('v, 'w, 'p) kernels \<Rightarrow> (string \<Rightarrow> 'p) \<Rightarrow> bool \<Rightarrow> nat \<Rightarrow> ('v, 'w) seq \<Rightarrow> 'v list" where
  "seq_h K P fp32 l q =
     map (k_ln K (P (layer_prefix l @ ''ln2.weight'')) (P (layer_prefix l @ ''ln2.bias''))) (seq_x1 K P fp32 l q)"

definition seq_y :: "('v, 'w, 'p) kernels \<Rightarrow> (string \<Rightarrow> 'p) \<Rightarrow> bool \<Rightarrow> nat \<Rightarrow> ('v, 'w) seq \<Rightarrow> 'v list" where
  "seq_y K P fp32 l q =
     map2 (ref_cmix K P (layer_prefix l)) (prevs (ss_shift (snd q) l 1) (seq_h K P fp32 l q)) (seq_h K P fp32 l q)"

definition seq_vf :: "('v, 'w, 'p) kernels \<Rightarrow> (string \<Rightarrow> 'p) \<Rightarrow> nat \<Rightarrow> ('v, 'w) seq \<Rightarrow> 'v list" where
  "seq_vf K P l q = map (\<lambda>z. ref_vf K P (layer_prefix l @ ''att.'') l (fst z) (snd z)) (seq_zs K P l q)"

text \<open>The state after the mixes, after the recurrence, after channel mixing.\<close>

definition put_shift :: "nat \<Rightarrow> nat \<Rightarrow> 'v \<Rightarrow> ('v, 'w) slot_state \<Rightarrow> ('v, 'w) slot_state" where
  "put_shift l j v c = c\<lparr>ss_shift := (ss_shift c)(l := (ss_shift c l)(j := v))\<rparr>"

definition put_wkv :: "nat \<Rightarrow> 'w \<Rightarrow> ('v, 'w) slot_state \<Rightarrow> ('v, 'w) slot_state" where
  "put_wkv l w c = c\<lparr>ss_wkv := (ss_wkv c)(l := w)\<rparr>"

definition seq_mixed :: "('v, 'w, 'p) kernels \<Rightarrow> (string \<Rightarrow> 'p) \<Rightarrow> nat \<Rightarrow> ('v, 'w) seq \<Rightarrow> ('v, 'w) slot_state" where
  "seq_mixed K P l q = put_shift l 0 (last (seq_xx K P l q)) (snd q)"

lemma put_sel [simp]:
  "ss_elapsed (put_shift l j v c) = ss_elapsed c" "ss_wkv (put_shift l j v c) = ss_wkv c"
  "ss_elapsed (put_wkv l w c) = ss_elapsed c" "ss_shift (put_wkv l w c) = ss_shift c"
  "i \<noteq> j \<Longrightarrow> ss_shift (put_shift l j v c) l i = ss_shift c l i"
  "k \<noteq> l \<Longrightarrow> ss_shift (put_shift l j v c) k = ss_shift c k"
  by (simp_all add: put_shift_def put_wkv_def)

lemma seq_lengths [simp]:
  "length (seq_x q) = length (fst q)" "length (seq_xx K P l q) = length (fst q)" "length (seq_mix K P l q) = length (fst q)"
  "length (seq_zs K P l q) = length (fst q)" "length (snd (seq_run K P fp32 l q)) = length (fst q)"
  "length (seq_x1 K P fp32 l q) = length (fst q)" "length (seq_h K P fp32 l q) = length (fst q)"
  "length (seq_y K P fp32 l q) = length (fst q)" "length (seq_vf K P l q) = length (fst q)"
  by (simp_all add: seq_x_def seq_xx_def seq_mix_def seq_zs_def seq_run_def seq_x1_def seq_h_def seq_y_def seq_vf_def wkv_run_len)

lemma ref_layer_seq:
  "ref_layer K P fp32 l q =
     (zip (map2 (k_add K) (seq_x1 K P fp32 l q) (seq_y K P fp32 l q)) (seq_vf K P l q),
      put_shift l 1 (last (seq_h K P fp32 l q)) (put_wkv l (fst (seq_run K P fp32 l q)) (seq_mixed K P l q)))"
proof -
  have run: "wkv_run (ref_step K fp32) (ss_elapsed (snd q)) (ss_wkv (snd q) l)
      (map (ref_in K P (layer_prefix l @ ''att.'') l) (seq_zs K P l q)) = seq_run K P fp32 l q"
    by (simp add: seq_run_def wkv_run_map row_step_def [abs_def])
  have "ref_core K P fp32 l (fst q) (ss_elapsed (snd q)) (ss_shift (snd q) l) (ss_wkv (snd q) l) =
      (zip (map2 (k_add K) (seq_x1 K P fp32 l q) (seq_y K P fp32 l q)) (seq_vf K P l q),
       (ss_shift (snd q) l)(0 := last (seq_xx K P l q), 1 := last (seq_h K P fp32 l q)), fst (seq_run K P fp32 l q))"
    unfolding ref_core_def Let_def seq_x_def [symmetric] seq_xx_def [symmetric] seq_mix_def [symmetric]
      seq_zs_def [symmetric] run
    by (simp add: case_prod_unfold seq_vf_def seq_y_def seq_h_def seq_x1_def)
  then show ?thesis
    by (simp add: ref_layer_def case_prod_unfold set_layer_def put_shift_def put_wkv_def seq_mixed_def)
qed

section \<open>A layer over the batch\<close>

abbreviation rows_in :: "('v, 'w) seq list \<Rightarrow> nat list" where
  "rows_in qs \<equiv> map (\<lambda>q. length (fst q)) qs"

lemma packs_map:
  assumes "packs ba (rows_in qs)" and "\<And>q. length (F q) = length (fst q)"
  shows "packs ba (map length (map F qs))" and "length (concat (map F qs)) = sum_list (rows_in qs)"
  using assms by (simp_all add: comp_def length_concat)

lemma set_shift_seqs:
  assumes "packs ba (rows_in qs)"
  shows "set_shift l j (ba_slots ba) (map F qs) (place (ba_slots ba) (map C qs) st) =
    place (ba_slots ba) (map (\<lambda>q. put_shift l j (F q) (C q)) qs) st"
  using packsD(6,7) [OF assms] by (subst set_shift_place) (simp_all add: zip_maps comp_def put_shift_def)

lemma prevs_seqs:
  assumes "packs ba (rows_in qs)" and "\<And>q. length (F q) = length (fst q)"
  shows "prevs_of ba l j (place (ba_slots ba) (map C qs) st) (concat (map F qs)) =
    concat (map (\<lambda>q. prevs (ss_shift (C q) l j) (F q)) qs)"
  using packs_prevs_place [OF packs_map(1) [OF assms], of "map C qs" l j st] by (simp add: zip_maps comp_def)

lemma lasts_seqs:
  assumes "packs ba (rows_in qs)" and "\<And>q. length (F q) = length (fst q)"
  shows "lasts_of ba (concat (map F qs)) = map (\<lambda>q. last (F q)) qs"
  using packs_lasts [OF packs_map(1) [OF assms]] by (simp add: comp_def)

lemma wkv_seqs:
  assumes "packs ba (rows_in qs)"
  shows "wkv_batch (row_step K P fp32 l) l (ba_offs ba) (ba_slots ba) (concat (map (seq_zs K P l) qs))
      (place (ba_slots ba) (map (seq_mixed K P l) qs) st) =
    (concat (map (\<lambda>q. snd (seq_run K P fp32 l q)) qs),
     place (ba_slots ba) (map (\<lambda>q. put_wkv l (fst (seq_run K P fp32 l q)) (seq_mixed K P l q)) qs) st)"
proof -
  note p = packsD [OF assms]
  have "map (seq_run K P fp32 l) qs = map2 (\<lambda>xs c. wkv_run (row_step K P fp32 l) (ss_elapsed c) (ss_wkv c l) xs)
      (map (seq_zs K P l) qs) (map (seq_mixed K P l) qs)"
    by (simp add: zip_maps seq_run_def seq_mixed_def)
  moreover have "ba_offs ba = prefix_sums 0 (map length (map (seq_zs K P l) qs))" using p(4) by (simp add: comp_def)
  ultimately have "wkv_batch (row_step K P fp32 l) l (ba_offs ba) (ba_slots ba) (concat (map (seq_zs K P l) qs))
      (place (ba_slots ba) (map (seq_mixed K P l) qs) st) =
      (concat (map snd (map (seq_run K P fp32 l) qs)),
       place (ba_slots ba) (map2 (\<lambda>w c. c\<lparr>ss_wkv := (ss_wkv c)(l := w)\<rparr>)
         (map fst (map (seq_run K P fp32 l) qs)) (map (seq_mixed K P l) qs)) st)"
    using p(6,7) by (intro wkv_batch_place) simp_all
  then show ?thesis by (simp add: zip_maps comp_def put_wkv_def)
qed

lemma layer_body_seqs:
  assumes "setting (rm_K M) (rm_me M) P (rm_z M) l path ba n" and "packs ba (rows_in qs)" and "n = sum_list (rows_in qs)"
    and "tmix_inputs (rm_K M) (rm_z M) (layer_prefix l @ ''att.'') l ba pre xx st1 =
      Inr (Act (bshape ba n) (concat (map (seq_mix (rm_K M) P l) qs)), place (ba_slots ba) (map (seq_mixed (rm_K M) P l) qs) st)"
    and "hd (act_shape xx) = n" and "fp32 = fp32_of (rm_me M)"
    and "l \<noteq> 0 \<Longrightarrow> v_first = Act (bshape ba n) (concat (map (\<lambda>q. map snd (fst q)) qs))"
  shows "layer_body M path ba l (Act [n] (concat (map seq_x qs))) xx v_first pre st1 =
    Inr (Act [n] (concat (map (seq_x1 (rm_K M) P fp32 l) qs)), Act [n] (concat (map (seq_y (rm_K M) P fp32 l) qs)),
         Act (bshape ba n) (concat (map (seq_vf (rm_K M) P l) qs)),
         place (ba_slots ba) (map (\<lambda>q. snd (ref_layer (rm_K M) P fp32 l q)) qs) st)"
proof -
  let ?K = "rm_K M" let ?p = "layer_prefix l" let ?a = "layer_prefix l @ ''att.''" let ?sl = "ba_slots ba"
  let ?zs = "concat (map (seq_zs ?K P l) qs)"
  let ?ys = "concat (map (\<lambda>q. snd (seq_run ?K P fp32 l q)) qs)"
  let ?C = "\<lambda>q. put_wkv l (fst (seq_run ?K P fp32 l q)) (seq_mixed ?K P l q)"
  note len = packs_map(2) [OF assms(2)]
  have zs: "map fst ?zs = concat (map (seq_mix ?K P l) qs)" "map snd ?zs = concat (map (\<lambda>q. map snd (fst q)) qs)"
    by (simp_all add: map_concat comp_def seq_zs_def)
  have "tmix_forward ?K (rm_me M) (rm_z M) ?a l path ba pre xx v_first st1 =
      Inr (Act [n] (map2 (ref_out ?K P ?a l) ?zs ?ys), Act (bshape ba n) (map (\<lambda>z. ref_vf ?K P ?a l (fst z) (snd z)) ?zs),
           place ?sl (map ?C qs) st)"
  proof (rule tmix_forward_rows [OF assms(1) refl _ _ _ _ assms(5)])
    show "length ?zs = n" "length ?ys = n" unfolding assms(3) by (rule len, simp)+
    show "ba_uniform ba \<Longrightarrow> ba_offs ba = uniform_offs (ba_B ba) (ba_max_t ba)" by (rule packs_uniform(3) [OF assms(2)])
    show "l \<noteq> 0 \<Longrightarrow> v_first = Act (bshape ba n) (map snd ?zs)" unfolding zs by (rule assms(7))
    show "tmix_inputs ?K (rm_z M) ?a l ba pre xx st1 =
        Inr (Act (bshape ba n) (map fst ?zs), place ?sl (map (seq_mixed ?K P l) qs) st)" unfolding zs by (rule assms(4))
    show "wkv_batch (row_step ?K P (fp32_of (rm_me M)) l) l (ba_offs ba) ?sl ?zs (place ?sl (map (seq_mixed ?K P l) qs) st) =
        (?ys, place ?sl (map ?C qs) st)" using wkv_seqs [OF assms(2)] assms(6) by simp
  qed
  moreover have "map2 (ref_out ?K P ?a l) ?zs ?ys =
      concat (map (\<lambda>q. map2 (ref_out ?K P ?a l) (seq_zs ?K P l q) (snd (seq_run ?K P fp32 l q))) qs)"
    by (rule map2_concat) simp
  moreover have "map (\<lambda>z. ref_vf ?K P ?a l (fst z) (snd z)) ?zs = concat (map (seq_vf ?K P l) qs)"
    by (simp add: map_concat comp_def seq_vf_def [abs_def])
  ultimately have tm: "tmix_forward ?K (rm_me M) (rm_z M) ?a l path ba pre xx v_first st1 =
      Inr (Act [n] (concat (map (\<lambda>q. map2 (ref_out ?K P ?a l) (seq_zs ?K P l q) (snd (seq_run ?K P fp32 l q))) qs)),
           Act (bshape ba n) (concat (map (seq_vf ?K P l) qs)), place ?sl (map ?C qs) st)" by simp
  note w = layer_loadedD(17,18) [OF settingD(3) [OF assms(1)] refl]
  have x1: "map2 (k_add ?K) (concat (map seq_x qs))
      (concat (map (\<lambda>q. map2 (ref_out ?K P ?a l) (seq_zs ?K P l q) (snd (seq_run ?K P fp32 l q))) qs)) =
      concat (map (seq_x1 ?K P fp32 l) qs)"
    by (subst map2_concat) (simp_all add: seq_x1_def [abs_def])
  have add: "add_ln ?K (Act [n] xs) (Act [n] ys) (P (?p @ ''ln2.weight'')) (P (?p @ ''ln2.bias'')) =
      Inr (Act [n] (map2 (k_add ?K) xs ys),
           Act [n] (map (k_ln ?K (P (?p @ ''ln2.weight'')) (P (?p @ ''ln2.bias''))) (map2 (k_add ?K) xs ys)))" for xs ys
    by (simp add: add_ln_def Let_def kernels_agreeD(8) [OF settingD(1) [OF assms(1)]] comp_def case_prod_unfold)
  have h: "map (k_ln ?K (P (?p @ ''ln2.weight'')) (P (?p @ ''ln2.bias''))) (concat (map (seq_x1 ?K P fp32 l) qs)) =
      concat (map (seq_h ?K P fp32 l) qs)"
    by (simp add: map_concat comp_def seq_h_def [abs_def])
  have y: "map2 (ref_cmix ?K P ?p) (prevs_of ba l 1 (place ?sl (map ?C qs) st) (concat (map (seq_h ?K P fp32 l) qs)))
      (concat (map (seq_h ?K P fp32 l) qs)) = concat (map (seq_y ?K P fp32 l) qs)"
    by (subst prevs_seqs [OF assms(2)], simp)
      (subst map2_concat, simp_all add: seq_y_def [abs_def] seq_mixed_def)
  have "cmix_forward ?K (rm_me M) (rm_z M) ?p l path ba (Act [n] (concat (map (seq_h ?K P fp32 l) qs))) (place ?sl (map ?C qs) st) =
      Inr (Act [n] (concat (map (seq_y ?K P fp32 l) qs)), place ?sl (map (\<lambda>q. snd (ref_layer ?K P fp32 l q)) qs) st)"
    using cmix_forward_rows [OF assms(1), of "concat (map (seq_h ?K P fp32 l) qs)"] len [of "seq_h ?K P fp32 l"] assms(3)
    by (simp add: y [simplified] lasts_seqs [OF assms(2)] set_shift_seqs [OF assms(2)] ref_layer_seq)
  then show ?thesis
    by (simp add: layer_body_def Let_def tm w add x1 h del: bindE_eq_Inr map_map)
qed

section \<open>Between layers\<close>

text \<open>What a layer is given: the rows of all requests and, one way or the other, their mixes.\<close>

definition ready ::
    "('v, 'w, 'p) rwkv \<Rightarrow> (string \<Rightarrow> 'p) \<Rightarrow> packed \<Rightarrow> nat \<Rightarrow> nat \<Rightarrow> ('v, 'w) seq list \<Rightarrow> ('v, 'w) states
       \<Rightarrow> 'v act \<times> 'v act \<times> 'v mixes act option \<times> ('v, 'w) states \<Rightarrow> bool" where
  "ready M P ba n l qs st c \<longleftrightarrow>
     (case c of (x, xx, pre, st1) \<Rightarrow>
        x = Act [n] (concat (map seq_x qs)) \<and> hd (act_shape xx) = n \<and>
        tmix_inputs (rm_K M) (rm_z M) (layer_prefix l @ ''att.'') l ba pre xx st1 =
          Inr (Act (bshape ba n) (concat (map (seq_mix (rm_K M) P l) qs)),
               place (ba_slots ba) (map (seq_mixed (rm_K M) P l) qs) st))"

lemma inputs_unfused:
  assumes "setting K me P z l path ba n" and "packs ba (rows_in qs)" and "n = sum_list (rows_in qs)"
  shows "tmix_inputs K z (layer_prefix l @ ''att.'') l ba None (Act [n] (concat (map (seq_xx K P l) qs))) (place (ba_slots ba) (map snd qs) st) =
    Inr (Act (bshape ba n) (concat (map (seq_mix K P l) qs)), place (ba_slots ba) (map (seq_mixed K P l) qs) st)"
proof -
  have "length (concat (map (seq_xx K P l) qs)) = n" unfolding assms(3) by (rule packs_map(2) [OF assms(2)]) simp
  moreover have "map2 (ref_mixes K P (layer_prefix l @ ''att.'')) (concat (map (\<lambda>q. prevs (ss_shift (snd q) l 0) (seq_xx K P l q)) qs))
      (concat (map (seq_xx K P l) qs)) = concat (map (seq_mix K P l) qs)"
    by (subst map2_concat) (simp_all add: seq_mix_def [abs_def])
  ultimately show ?thesis
    by (simp add: tmix_inputs_rows [OF assms(1) refl] prevs_seqs [OF assms(2)] lasts_seqs [OF assms(2)]
        set_shift_seqs [OF assms(2)] seq_mixed_def [abs_def])
qed

lemma next_pre_mix_ready:
  assumes "setting (rm_K M) (rm_me M) P (rm_z M) (Suc l) path ba n" and "packs ba (rows_in qs)" and "n = sum_list (rows_in qs)"
    and "map2 (k_add (rm_K M)) xs ys = concat (map seq_x qs)" and "length xs = n" and "length ys = n"
  shows "\<exists>c. next_pre_mix M ba l (Act [n] xs) (Act [n] ys) (place (ba_slots ba) (map snd qs) st) = Inr c \<and>
    ready M P ba n (Suc l) qs st c"
proof -
  let ?K = "rm_K M" let ?p = "layer_prefix (Suc l)"
  note K = kernels_agreeD [OF settingD(1) [OF assms(1)]]
  note ld = layer_loadedD [OF settingD(3) [OF assms(1)] refl]
  let ?w = "P (?p @ ''ln1.weight'')" let ?b = "P (?p @ ''ln1.bias'')"
  have xx: "map (k_ln ?K ?w ?b) (map2 (k_add ?K) xs ys) = concat (map (seq_xx ?K P (Suc l)) qs)"
    by (simp add: assms(4) map_concat comp_def seq_xx_def [abs_def])
  show ?thesis
  proof (cases "ic_ln1_tmix_fuse (me_ic (rm_me M)) \<and> ba_uniform ba \<and> ba_max_t ba = 1 \<and> ba_B ba = 1")
    case False
    have "add_ln ?K (Act [n] xs) (Act [n] ys) ?w ?b = Inr (Act [n] (concat (map seq_x qs)), Act [n] (concat (map (seq_xx ?K P (Suc l)) qs)))"
      unfolding assms(4) [symmetric] xx [symmetric] by (simp add: add_ln_def Let_def K(8) comp_def case_prod_unfold)
    then have "next_pre_mix M ba l (Act [n] xs) (Act [n] ys) (place (ba_slots ba) (map snd qs) st) =
        Inr (Act [n] (concat (map seq_x qs)), Act [n] (concat (map (seq_xx ?K P (Suc l)) qs)), None, place (ba_slots ba) (map snd qs) st)"
      by (simp only: next_pre_mix_def Let_def if_not_P [OF False]) (simp add: ld del: bindE_eq_Inr)
    moreover have "ready M P ba n (Suc l) qs st
        (Act [n] (concat (map seq_x qs)), Act [n] (concat (map (seq_xx ?K P (Suc l)) qs)), None, place (ba_slots ba) (map snd qs) st)"
      using inputs_unfused [OF assms(1-3)] by (simp add: ready_def)
    ultimately show ?thesis by blast
  next
    case True
    note p = packsD [OF assms(2)]
    have "length qs = 1" using p(3) True by simp
    then obtain q where q: "qs = [q]" by (cases qs) auto
    have one: "length (fst q) = 1" "n = 1" using packs_uniform(1) [OF assms(2)] True assms(3) q by auto
    then obtain u v where uv: "xs = [u]" "ys = [v]" using assms(5,6) by (auto simp: length_Suc_conv)
    obtain s where s: "ba_slots ba = [s]" using p(6) q by (auto simp: length_Suc_conv)
    have x: "seq_x q = [k_add ?K u v]" "seq_xx ?K P (Suc l) q = [k_ln ?K ?w ?b (k_add ?K u v)]"
      using assms(4) [symmetric] xx [symmetric] by (simp_all add: q uv)
    have ws: "mix_weights (rm_z M) (?p @ ''att.'') = Inr (P (?p @ ''att.x_r''), P (?p @ ''att.x_w''), P (?p @ ''att.x_k''),
        P (?p @ ''att.x_v''), P (?p @ ''att.x_a''), P (?p @ ''att.x_g''))"
      using ld(1-6) by (simp add: mix_weights_def)
    let ?m = "ref_mixes ?K P (?p @ ''att.'') (ss_shift (snd q) (Suc l) 0) (k_ln ?K ?w ?b (k_add ?K u v))"
    have "next_pre_mix M ba l (Act [n] xs) (Act [n] ys) (place (ba_slots ba) (map snd qs) st) =
        Inr (Act [1] [k_add ?K u v], Act [1] [k_add ?K u v], Some (Act [1, 1] [?m]),
             place (ba_slots ba) (map (seq_mixed ?K P (Suc l)) qs) st)"
      using True set_shift_seqs [OF assms(2), of "Suc l" 0 "\<lambda>q. last (seq_xx ?K P (Suc l) q)" snd st]
      by (simp add: next_pre_mix_def Let_def ld ws K(10) q uv s x ref_mixes_def seq_mixed_def del: bindE_eq_Inr)
    moreover have "ready M P ba n (Suc l) qs st (Act [1] [k_add ?K u v], Act [1] [k_add ?K u v], Some (Act [1, 1] [?m]),
        place (ba_slots ba) (map (seq_mixed ?K P (Suc l)) qs) st)"
      using True by (simp add: ready_def one q x tmix_inputs_def bshape_def seq_mix_def)
    ultimately show ?thesis by blast
  qed
qed

section \<open>The head\<close>

lemma last_map2: "xs \<noteq> [] \<Longrightarrow> length xs = length ys \<Longrightarrow> last (map2 f xs ys) = f (last xs) (last ys)"
  by (cases xs rule: rev_cases; cases ys rule: rev_cases) auto

definition ref_logits :: "('v, 'w, 'p) kernels \<Rightarrow> (string \<Rightarrow> 'p) \<Rightarrow> 'v list \<Rightarrow> 'v" where
  "ref_logits K P xs = lin K (P ''head.weight'') (k_ln K (P ''ln_out.weight'') (P ''ln_out.bias'') (last xs))"

lemma linear_head_rows:
  assumes "kernels_agree (rm_K M)" and "loaded M P"
  shows "linear_head M x = Inr (amap (lin (rm_K M) (P ''head.weight'')) x)"
proof -
  let ?K = "rm_K M"
  have w: "rm_z M ''head.weight'' = Some (stored ?K (me_wc (rm_me M)) ''head'' (P ''head.weight''))"
    "even (k_size0 ?K (P ''head.weight'')) \<and> 4 dvd k_size1 ?K (P ''head.weight'')"
    using assms(2) by (simp_all add: loaded_def Let_def)
  have "linear_head M x = linear_orig_layout ?K (me_wc (rm_me M)) (int (me_C (rm_me M))) x
      (stored ?K (me_wc (rm_me M)) ''head'' (P ''head.weight'')) (int (length (act_rows x))) ''head''"
    by (simp add: linear_head_def w(1) linear_orig_layout_def)
  then show ?thesis using stored_product [OF kernels_agreeD(1) [OF assms(1)] w(2)] by simp
qed

lemma finalize_seqs:
  assumes "kernels_agree (rm_K M)" and "loaded M P" and "packs ba (rows_in qs)" and "n = sum_list (rows_in qs)"
    and "\<And>q. length (F q) = length (fst q)" and "\<And>q. length (G q) = length (fst q)"
  shows "finalize M ba (Act [n] (concat (map F qs))) (Act [n] (concat (map G qs))) (place (ba_slots ba) (map C qs) st) =
    Inr (Act [ba_B ba] (map (\<lambda>q. ref_logits (rm_K M) P (map2 (k_add (rm_K M)) (F q) (G q))) qs),
         place (ba_slots ba) (map (\<lambda>q. (C q)\<lparr>ss_elapsed := ss_elapsed (C q) + of_nat (length (fst q))\<rparr>) qs) st)"
proof -
  let ?K = "rm_K M"
  note K = kernels_agreeD [OF assms(1)]
  note p = packsD [OF assms(3)]
  have w: "rm_z M ''ln_out.weight'' = Some (P ''ln_out.weight'')" "rm_z M ''ln_out.bias'' = Some (P ''ln_out.bias'')"
    using assms(2) by (simp_all add: loaded_def Let_def)
  note head = linear_head_rows [OF assms(1,2)]
  have ne: "\<forall>q \<in> set qs. fst q \<noteq> []" using p(2) by auto
  have lasts: "lasts_of ba (concat (map F qs)) = map (\<lambda>q. last (F q)) qs" "lasts_of ba (concat (map G qs)) = map (\<lambda>q. last (G q)) qs"
    by (rule lasts_seqs [OF assms(3)], rule assms(5), rule lasts_seqs [OF assms(3)], rule assms(6))
  have row: "k_add_last_ln ?K (P ''ln_out.weight'') (P ''ln_out.bias'') (last (F q)) (last (G q)) =
      k_ln ?K (P ''ln_out.weight'') (P ''ln_out.bias'') (last (map2 (k_add ?K) (F q) (G q)))" if "q \<in> set qs" for q
  proof -
    have "F q \<noteq> []" "length (F q) = length (G q)" using ne that assms(5,6) by (metis length_0_conv, simp)
    then show ?thesis by (simp add: K(9) last_map2)
  qed
  have st: "advance_varlen (ba_offs ba) (ba_slots ba) (place (ba_slots ba) (map C qs) st) =
      place (ba_slots ba) (map (\<lambda>q. (C q)\<lparr>ss_elapsed := ss_elapsed (C q) + of_nat (length (fst q))\<rparr>) qs) st"
    using advance_place [OF p(7), of "map C qs" "rows_in qs"] p(4,6) by (simp add: zip_maps comp_def)
  have len: "length (concat (map F qs)) = n" "length (concat (map G qs)) = n"
    unfolding assms(4) by (rule packs_map(2) [OF assms(3)], rule assms(5), rule packs_map(2) [OF assms(3)], rule assms(6))
  have "finalize M ba (Act [n] (concat (map F qs))) (Act [n] (concat (map G qs))) (place (ba_slots ba) (map C qs) st) =
      Inr (Act [ba_B ba] (map (lin ?K (P ''head.weight'')) (map2 (k_add_last_ln ?K (P ''ln_out.weight'') (P ''ln_out.bias''))
             (lasts_of ba (concat (map F qs))) (lasts_of ba (concat (map G qs))))),
           advance_varlen (ba_offs ba) (ba_slots ba) (place (ba_slots ba) (map C qs) st))"
    using len packs_fits [OF assms(3), folded assms(4)]
    by (cases "ba_uniform ba")
      (simp_all add: finalize_def Let_def w head lasts_of_def fits_def del: bindE_eq_Inr length_concat)
  then show ?thesis unfolding lasts st by (simp add: zip_maps comp_def row ref_logits_def)
qed

section \<open>The loop over the layers\<close>

lemma seq_x_layer: "seq_x (ref_layer K P fp32 l q) = map2 (k_add K) (seq_x1 K P fp32 l q) (seq_y K P fp32 l q)"
  by (simp add: seq_x_def ref_layer_seq)

lemma rows_layer [simp]: "length (fst (ref_layer K P fp32 l q)) = length (fst q)"
  by (simp add: ref_layer_seq)

definition seq_final :: "('v, 'w) seq \<Rightarrow> ('v, 'w) slot_state" where
  "seq_final q = (snd q)\<lparr>ss_elapsed := ss_elapsed (snd q) + of_nat (length (fst q))\<rparr>"

lemma layer_loop_seqs:
  assumes "kernels_agree (rm_K M)" and "loaded M P" and "fp32 = fp32_of (rm_me M)"
    and "\<And>j. j < rm_L M \<Longrightarrow> setting (rm_K M) (rm_me M) P (rm_z M) j path ba n"
    and "packs ba (rows_in qs)" and "n = sum_list (rows_in qs)" and "rm_L M = l + Suc k"
    and "ready M P ba n l qs st (x, xx, pre, st1)"
    and "l \<noteq> 0 \<Longrightarrow> v_first = Act (bshape ba n) (concat (map (\<lambda>q. map snd (fst q)) qs))"
  shows "layer_loop M path ba False (Suc k) l x xx v_first pre st1 =
    Inr (Act [ba_B ba] (map (\<lambda>q. ref_logits (rm_K M) P (seq_x (ref_layers (rm_K M) P fp32 [l..<rm_L M] q))) qs),
         place (ba_slots ba) (map (\<lambda>q. seq_final (ref_layers (rm_K M) P fp32 [l..<rm_L M] q)) qs) st)"
  using assms(5-9)
proof (induction k arbitrary: l qs x xx v_first pre st1)
  case 0
  let ?K = "rm_K M"
  have l: "l < rm_L M" "[l..<rm_L M] = [l]" using "0.prems"(3) by simp_all
  have inputs: "x = Act [n] (concat (map seq_x qs))" "hd (act_shape xx) = n"
    "tmix_inputs ?K (rm_z M) (layer_prefix l @ ''att.'') l ba pre xx st1 =
      Inr (Act (bshape ba n) (concat (map (seq_mix ?K P l) qs)), place (ba_slots ba) (map (seq_mixed ?K P l) qs) st)"
    using "0.prems"(4) by (simp_all add: ready_def)
  note body = layer_body_seqs [OF assms(4) [OF l(1)] "0.prems"(1,2) inputs(3,2) assms(3) "0.prems"(5)]
  have "layer_loop M path ba False (Suc 0) l x xx v_first pre st1 =
      finalize M ba (Act [n] (concat (map (seq_x1 ?K P fp32 l) qs))) (Act [n] (concat (map (seq_y ?K P fp32 l) qs)))
        (place (ba_slots ba) (map (\<lambda>q. snd (ref_layer ?K P fp32 l q)) qs) st)"
    using "0.prems"(3) by (simp add: inputs(1) body del: bindE_eq_Inr)
  also have "\<dots> = Inr (Act [ba_B ba] (map (\<lambda>q. ref_logits ?K P (map2 (k_add ?K) (seq_x1 ?K P fp32 l q) (seq_y ?K P fp32 l q))) qs),
      place (ba_slots ba) (map (\<lambda>q. (snd (ref_layer ?K P fp32 l q))
        \<lparr>ss_elapsed := ss_elapsed (snd (ref_layer ?K P fp32 l q)) + of_nat (length (fst q))\<rparr>) qs) st)"
    by (rule finalize_seqs [OF assms(1,2) "0.prems"(1,2)]) simp_all
  finally show ?case by (simp add: l(2) ref_layers_def seq_x_layer seq_final_def)
next
  case (Suc k)
  let ?K = "rm_K M" let ?qs = "map (ref_layer (rm_K M) P fp32 l) qs"
  have l: "l < rm_L M" "Suc l < rm_L M" "rm_L M = Suc l + Suc k" using Suc.prems(3) by simp_all
  have inputs: "x = Act [n] (concat (map seq_x qs))" "hd (act_shape xx) = n"
    "tmix_inputs ?K (rm_z M) (layer_prefix l @ ''att.'') l ba pre xx st1 =
      Inr (Act (bshape ba n) (concat (map (seq_mix ?K P l) qs)), place (ba_slots ba) (map (seq_mixed ?K P l) qs) st)"
    using Suc.prems(4) by (simp_all add: ready_def)
  note body = layer_body_seqs [OF assms(4) [OF l(1)] Suc.prems(1,2) inputs(3,2) assms(3) Suc.prems(5)]
  have rows: "rows_in ?qs = rows_in qs" by simp
  have packs: "packs ba (rows_in ?qs)" and n: "n = sum_list (rows_in ?qs)" unfolding rows by (fact Suc.prems(1), fact Suc.prems(2))
  have sum: "map2 (k_add ?K) (concat (map (seq_x1 ?K P fp32 l) qs)) (concat (map (seq_y ?K P fp32 l) qs)) = concat (map seq_x ?qs)"
    by (subst map2_concat) (simp_all add: seq_x_layer comp_def)
  have len: "length (concat (map (seq_x1 ?K P fp32 l) qs)) = n" "length (concat (map (seq_y ?K P fp32 l) qs)) = n"
    unfolding Suc.prems(2) by (rule packs_map(2) [OF Suc.prems(1)], simp)+
  obtain c where c: "next_pre_mix M ba l (Act [n] (concat (map (seq_x1 ?K P fp32 l) qs))) (Act [n] (concat (map (seq_y ?K P fp32 l) qs)))
      (place (ba_slots ba) (map snd ?qs) st) = Inr c" and ready: "ready M P ba n (Suc l) ?qs st c"
    using next_pre_mix_ready [OF assms(4) [OF l(2)] packs n sum len] by blast
  obtain x2 xx2 pre2 st2 where c2: "c = (x2, xx2, pre2, st2)" by (cases c)
  have vf: "concat (map (seq_vf ?K P l) qs) = concat (map (\<lambda>q. map snd (fst q)) ?qs)"
    by (simp add: ref_layer_seq comp_def)
  have "layer_loop M path ba False (Suc (Suc k)) l x xx v_first pre st1 =
      layer_loop M path ba False (Suc k) (Suc l) x2 xx2 (Act (bshape ba n) (concat (map (seq_vf ?K P l) qs))) pre2 st2"
    using l(2) c c2 by (subst layer_loop.simps) (simp add: inputs(1) body comp_def del: bindE_eq_Inr layer_loop.simps)
  also have "\<dots> = Inr (Act [ba_B ba] (map (\<lambda>q. ref_logits ?K P (seq_x (ref_layers ?K P fp32 [Suc l..<rm_L M] q))) ?qs),
      place (ba_slots ba) (map (\<lambda>q. seq_final (ref_layers ?K P fp32 [Suc l..<rm_L M] q)) ?qs) st)"
    by (rule Suc.IH [OF packs n l(3) ready [unfolded c2]]) (simp only: vf)
  finally show ?case using l(1) by (simp add: upt_conv_Cons ref_layers_Cons comp_def)
qed

section \<open>The forward pass\<close>

lemma settings:
  assumes "kernels_agree (rm_K M)" and "loaded M P" and "packs ba lens" and "n = sum_list lens"
    and "path = select_path_varlen (rm_sel M) (int (ba_B ba)) (int (ba_max_t ba)) (int n)"
    and "batched_rkv_for (rm_sel M) (int (ba_B ba * ba_max_t ba)) \<Longrightarrow> \<not> ba_uniform ba" and "j < rm_L M"
  shows "setting (rm_K M) (rm_me M) P (rm_z M) j path ba n"
proof -
  have sel: "rm_sel M = path_selector_init None (Some (me_wc (rm_me M))) (Some (me_ic (rm_me M)))" and cfg: "config_ok (me_ic (rm_me M))"
    and lay: "layer_loaded (rm_K M) (rm_me M) P (rm_z M) j" "layer_sizes (rm_K M) (rm_me M) P j"
    using assms(2,7) by (simp_all add: loaded_def Let_def)
  have "\<not> ba_uniform ba \<and> ic_rkv_mode (me_ic (rm_me M)) \<noteq> ''off'' \<and> \<not> use_orig_linear (me_wc (rm_me M)) ''att_c2c''"
    if "path_use_batched_rkv path"
    using that assms(6) unfolding assms(5)
    by (auto simp: select_path_varlen_def batched_rkv_for_def sel path_selector_init_def Let_def split: if_split_asm)
  then show ?thesis
    using assms(1,4) cfg lay packs_fits [OF assms(3)] by (simp add: setting_def assms(5) select_path_varlen_def)
qed

definition seq_forward ::
    "('v, 'w, 'p) rwkv \<Rightarrow> (string \<Rightarrow> 'p) \<Rightarrow> token list \<Rightarrow> ('v, 'w) slot_state \<Rightarrow> ('v, 'w) slot_state \<times> 'v" where
  "seq_forward M P toks s =
     ref_forward (rm_K M) P (fp32_of (rm_me M)) (rm_L M) (map (\<lambda>t. rm_emb M ! nat t) toks) s"

lemma emb_rows:
  "\<forall>t \<in> set toks. 0 \<le> t \<and> t < int (length (rm_emb M)) \<Longrightarrow>
     mapE (emb_row M) toks = Inr (map (\<lambda>t. rm_emb M ! nat t) toks)"
  by (induction toks) (simp_all add: emb_row_def Let_def)

lemma embed_rows:
  "\<forall>t \<in> set toks. 0 \<le> t \<and> t < int (length (rm_emb M)) \<Longrightarrow>
     embed M toks = Inr (Act [length toks] (map (\<lambda>t. rm_emb M ! nat t) toks))"
  by (simp add: embed_def emb_rows)

lemma first_layer_key: "layer_prefix 0 @ k = ''blocks.0.'' @ k"
  by (simp add: layer_prefix_def decimal.simps)

text \<open>
  A batch as the model runner makes it: no request without a token, slots of their own, tokens of
  the vocabulary. With batched projections switched on it must not be a uniform one.
\<close>

definition batch_ok :: "('v, 'w, 'p) rwkv \<Rightarrow> token list list \<Rightarrow> nat list \<Rightarrow> bool" where
  "batch_ok M tokss slots \<longleftrightarrow>
     tokss \<noteq> [] \<and> (\<forall>toks \<in> set tokss. toks \<noteq> [] \<and> (\<forall>t \<in> set toks. 0 \<le> t \<and> t < int (length (rm_emb M)))) \<and>
     distinct slots \<and> length slots = length tokss \<and>
     (let max_t = Max (set (map length tokss))
      in batched_rkv_for (rm_sel M) (int (length tokss * max_t)) \<longrightarrow> length (concat tokss) \<noteq> length tokss * max_t)"

text \<open>The call as the runner makes it.\<close>

definition run_forward ::
    "('v, 'w, 'p) rwkv \<Rightarrow> token list list \<Rightarrow> nat list \<Rightarrow> ('v, 'w) states \<Rightarrow> ('v act \<times> ('v, 'w) states) res" where
  "run_forward M tokss slots st =
     forward M (concat tokss) st (prefix_sums 0 (map length tokss)) (Max (set (map length tokss))) slots"

lemma forward_packed:
  assumes "kernels_agree (rm_K M)" and "loaded M P" and "0 < rm_L M" and "batch_ok M tokss slots"
  shows "run_forward M tokss slots st =
    (let rs = map2 (\<lambda>toks s. seq_forward M P toks (st s)) tokss slots
     in Inr (Act [length tokss] (map snd rs), place slots (map fst rs) st))"
proof -
  define max_t where "max_t = Max (set (map length tokss))"
  have ok: "tokss \<noteq> []" "\<forall>toks \<in> set tokss. toks \<noteq> [] \<and> (\<forall>t \<in> set toks. 0 \<le> t \<and> t < int (length (rm_emb M)))"
    "distinct slots" "length slots = length tokss"
    "batched_rkv_for (rm_sel M) (int (length tokss * max_t)) \<Longrightarrow> length (concat tokss) \<noteq> length tokss * max_t"
    using assms(4) unfolding batch_ok_def Let_def max_t_def by blast+
  let ?K = "rm_K M" let ?e = "\<lambda>t. rm_emb M ! nat t" let ?lens = "map length tokss" let ?n = "length (concat tokss)"
  let ?offs = "prefix_sums 0 ?lens"
  define ba where "ba = \<lparr>ba_B = length tokss, ba_max_t = max_t, ba_offs = ?offs, ba_req = build_req_id ?n ?offs, ba_slots = slots,
      ba_uniform = (?n = length tokss * max_t)\<rparr>"
  define qs where "qs = map2 (\<lambda>toks s. (map (\<lambda>t. (?e t, ?e t)) toks, st s)) tokss slots"
  define path where "path = select_path_varlen (rm_sel M) (int (ba_B ba)) (int (ba_max_t ba)) (int ?n)"
  have ns: "?n = sum_list ?lens" by (simp add: length_concat)
  have rows: "rows_in qs = ?lens"
    unfolding qs_def using ok(4) by (intro nth_equalityI) simp_all
  have packs: "packs ba ?lens" using ok(1-4) by (auto simp: packs_def ba_def ns max_t_def)
  have set: "setting ?K (rm_me M) P (rm_z M) j path ba ?n" if "j < rm_L M" for j
    by (rule settings [OF assms(1,2) packs ns path_def _ that]) (use ok(5) in \<open>simp add: ba_def\<close>)
  have snds: "map snd qs = map st slots" using ok(4) by (intro nth_equalityI) (simp_all add: qs_def)
  have st: "place (ba_slots ba) (map snd qs) st = st" by (simp add: snds ba_def place_self ok(3))
  have xs: "concat (map seq_x qs) = map ?e (concat tokss)"
  proof -
    have "map seq_x qs = map (map ?e) tokss"
      using ok(4) by (intro nth_equalityI) (simp_all add: qs_def seq_x_def)
    then show ?thesis by (simp add: map_concat)
  qed
  have ln: "rm_z M ''blocks.0.ln1.weight'' = Some (P ''blocks.0.ln1.weight'')" "rm_z M ''blocks.0.ln1.bias'' = Some (P ''blocks.0.ln1.bias'')"
    using layer_loadedD(15,16) [OF settingD(3) [OF set [OF assms(3)]] refl] by (simp_all add: first_layer_key)
  have xx: "map (k_ln ?K (P ''blocks.0.ln1.weight'') (P ''blocks.0.ln1.bias'')) (map ?e (concat tokss)) = concat (map (seq_xx ?K P 0) qs)"
    unfolding xs [symmetric] by (simp add: map_concat seq_xx_def [abs_def] first_layer_key comp_def)
  have ready: "ready M P ba ?n 0 qs st
      (Act [?n] (map ?e (concat tokss)), Act [?n] (concat (map (seq_xx ?K P 0) qs)), None, st)"
    using inputs_unfused [OF set [OF assms(3)], of qs st] packs ns by (simp add: ready_def xs rows st)
  obtain k where k: "rm_L M = 0 + Suc k" using assms(3) by (metis add_0 gr0_implies_Suc)
  have "embed M (concat tokss) = Inr (Act [?n] (map ?e (concat tokss)))" using ok(2) by (intro embed_rows) auto
  then have "run_forward M tokss slots st =
      layer_loop M path ba False (Suc k) 0 (Act [?n] (map ?e (concat tokss))) (Act [?n] (concat (map (seq_xx ?K P 0) qs)))
        (Act [?n] (map ?e (concat tokss))) None st"
    unfolding run_forward_def max_t_def [symmetric]
    using k by (simp add: forward_def Let_def forward_from_x_def ln xx [simplified] ba_def path_def
        del: bindE_eq_Inr layer_loop.simps)
  also have "\<dots> = Inr (Act [ba_B ba] (map (\<lambda>q. ref_logits ?K P (seq_x (ref_layers ?K P (fp32_of (rm_me M)) [0..<rm_L M] q))) qs),
      place (ba_slots ba) (map (\<lambda>q. seq_final (ref_layers ?K P (fp32_of (rm_me M)) [0..<rm_L M] q)) qs) st)"
    by (rule layer_loop_seqs [OF assms(1,2) refl set _ _ k ready]) (use packs ns rows in simp_all)
  also have "\<dots> = (let rs = map2 (\<lambda>toks s. seq_forward M P toks (st s)) tokss slots
     in Inr (Act [length tokss] (map snd rs), place slots (map fst rs) st))"
  proof -
    have "ref_logits ?K P (seq_x (ref_layers ?K P fp [0..<rm_L M] (map (\<lambda>t. (?e t, ?e t)) toks, s))) =
        snd (ref_forward ?K P fp (rm_L M) (map ?e toks) s) \<and>
        seq_final (ref_layers ?K P fp [0..<rm_L M] (map (\<lambda>t. (?e t, ?e t)) toks, s)) =
        fst (ref_forward ?K P fp (rm_L M) (map ?e toks) s)" for fp toks s
    proof -
      obtain rows' s' where r: "ref_layers ?K P fp [0..<rm_L M] (map (\<lambda>t. (?e t, ?e t)) toks, s) = (rows', s')" by fastforce
      have "length rows' = length toks" using ref_layers_length [OF r] by simp
      then show ?thesis by (simp add: ref_forward_def comp_def r ref_logits_def seq_x_def seq_final_def)
    qed
    then show ?thesis by (simp add: qs_def ba_def Let_def seq_forward_def comp_def case_prod_unfold)
  qed
  finally show ?thesis .
qed

lemma forward_slot:
  assumes "kernels_agree (rm_K M)" and "loaded M P" and "0 < rm_L M" and "batch_ok M tokss slots"
    and "run_forward M tokss slots st = Inr (lgs, st')" and "i < length tokss"
  shows "(st' (slots ! i), act_rows lgs ! i) = seq_forward M P (tokss ! i) (st (slots ! i))"
proof -
  have ok: "distinct slots" "length slots = length tokss" using assms(4) by (simp_all add: batch_ok_def)
  then show ?thesis
    using forward_packed [OF assms(1-4), of st] assms(5,6) by (auto simp: Let_def place_nth)
qed

section \<open>Correctness of the forward pass\<close>



section \<open>Batched projections on a uniform batch\<close>

lemma stack_of_views: "bindE (view_b b x) (\<lambda>r. bindE (view_b b y) (\<lambda>k. bindE (view_b b v) (\<lambda>v.
    bindE (weight z key) (\<lambda>w. bindE (stack_bmm K w r k v) (f w r k v))))) \<noteq> Inr c"
  by (auto simp: view_b_def stack_bmm_def azip_def split: if_split_asm)

lemma rkv_uniform_fails:
  assumes "path_use_batched_rkv path" and "ba_uniform ba"
  shows "tmix_rkv K me z p path ba n m \<noteq> Inr c"
  using assms unfolding tmix_rkv_def Let_def by (simp only: if_True) (rule stack_of_views)

text \<open>
  With batched projections switched on, no forward pass over a uniform batch succeeds: the
  three views are of the batch's shape, and their stack has a dimension too many for \<^verbatim>\<open>bmm\<close>.
\<close>

theorem batched_projections_need_ragged:
  assumes "batched_rkv_for (rm_sel M) (int ((length offs - 1) * max_t))" and "length tokens = (length offs - 1) * max_t"
    and "0 < rm_L M"
  shows "\<exists>e. forward M tokens st offs max_t slots = Inl e"
proof -
  define path where "path = select_path_varlen (rm_sel M) (int (length offs - 1)) (int max_t) (int (length tokens))"
  have path: "path_use_batched_rkv path" using assms(1) by (simp add: path_def select_path_varlen_def)
  have body: "layer_body M path ba l x xx v_first pre_mix s \<noteq> Inr c" if "ba_uniform ba" for ba l x xx v_first pre_mix s c
    by (auto simp: layer_body_def Let_def tmix_forward_def rkv_uniform_fails [OF path that])
  obtain k where k: "rm_L M = Suc k" using assms(3) by (cases "rm_L M") auto
  have "forward M tokens st offs max_t slots \<noteq> Inr c" for c
  proof
    assume "forward M tokens st offs max_t slots = Inr c"
    then obtain x where x: "embed M tokens = Inr x"
      and run: "forward_from_x M x st path offs (build_req_id (length tokens) offs) max_t (length offs - 1) slots False = Inr c"
      by (auto simp: forward_def Let_def path_def)
    have "hd (act_shape x) = length tokens"
      using x mapE_length by (fastforce simp: embed_def)
    then show False using run body by (auto simp: forward_from_x_def Let_def k assms(2))
  qed
  then show ?thesis by (cases "forward M tokens st offs max_t slots") auto
qed

end
