(* ===== verification/Rwkv_Uniform_Refine.thy ===== *)
theory Rwkv_Uniform_Refine
  imports Rwkv_Uniform Rwkv_Varlen Rwkv_Refine
begin

text \<open>
  The network over a rectangular batch gives every sequence what the recurrence gives it alone
  (\<open>networks_agree\<close>), with all logits those of every prefix (\<open>all_logits_are_prefix_logits\<close>).
  The stages of a layer are those of \<^verbatim>\<open>Rwkv_Refine\<close>; the products are those of \<^verbatim>\<open>Time_Mix_Refine\<close>.
\<close>

section \<open>A layer's setting\<close>

definition plain_path :: "path_config \<Rightarrow> path_config" where
  "plain_path path = path\<lparr>path_use_batched_rkv := False, path_cmix_mode := CMIX_DENSE\<rparr>"

definition rect :: "nat \<Rightarrow> nat \<Rightarrow> packed" where
  "rect b t = \<lparr>ba_B = b, ba_max_t = t, ba_offs = uniform_offs b t, ba_req = [], ba_slots = [], ba_uniform = True\<rparr>"

definition path_fits :: "('v, 'w, 'p) rwkv \<Rightarrow> path_config \<Rightarrow> nat \<Rightarrow> nat \<Rightarrow> bool" where
  "path_fits M path b t \<longleftrightarrow>
     (let me = rm_me M
      in path_rows path = int (b * t) \<and>
         (path_use_batched_rkv path \<longrightarrow> ic_rkv_mode (me_ic me) \<noteq> ''off'' \<and> \<not> use_orig_linear (me_wc me) ''att_c2c'') \<and>
         (path_cmix_mode path = CMIX_DENSE \<or> path_cmix_mode path = CMIX_ROWS2_NOFC \<or>
          b = 1 \<and> t = 1 \<and> (path_cmix_mode path = CMIX_B1T1_NOFC \<or>
            path_cmix_mode path = CMIX_B1T1_SPARSE \<and> ic_cmix_sparse (me_ic me) = ''auto'')))"

definition rect_setting :: "('v, 'w, 'p) rwkv \<Rightarrow> (string \<Rightarrow> 'p) \<Rightarrow> nat \<Rightarrow> path_config \<Rightarrow> nat \<Rightarrow> nat \<Rightarrow> bool" where
  "rect_setting M P l path b t \<longleftrightarrow>
     setting (rm_K M) (rm_me M) P (rm_z M) l (plain_path path) (rect b t) (b * t) \<and> path_fits M path b t"

lemma plain_path_rows [simp]: "path_rows (plain_path path) = path_rows path"
  by (simp add: plain_path_def)

lemma rank_plain [simp]:
  "rank_fused me (plain_path path) = rank_fused me path" "rank_out_fused me (plain_path path) = rank_out_fused me path"
  by (simp_all add: rank_fused_def rank_out_fused_def)

lemma tmix_rank_plain [simp]:
  "tmix_rank_in K me z a l (plain_path path) m = tmix_rank_in K me z a l path m"
  "tmix_rank_out K me z a l (plain_path path) v vf ins = tmix_rank_out K me z a l path v vf ins"
  unfolding tmix_rank_in_def tmix_rank_out_def rank_plain plain_path_rows by (rule refl)+

lemma rect_settingD:
  assumes "rect_setting M P l path b t"
  shows "setting (rm_K M) (rm_me M) P (rm_z M) l (plain_path path) (rect b t) (b * t)" and "path_fits M path b t"
    and "kernels_agree (rm_K M)" and "layer_loaded (rm_K M) (rm_me M) P (rm_z M) l"
    and "layer_sizes (rm_K M) (rm_me M) P l" and "path_rows path = int (b * t)"
  using assms settingD [of "rm_K M" "rm_me M" P "rm_z M" l "plain_path path" "rect b t" "b * t"]
  by (auto simp: rect_setting_def)

lemma bshape_rect [simp]: "bshape (rect b t) n = [b, t]"
  by (simp add: bshape_def rect_def)

lemma of_shape_Act [simp]: "of_shape b t (Act [b, t] xs) = Inr (Act [b, t] xs)"
  by (simp add: of_shape_def)

section \<open>Time mixing\<close>

lemma tmix_rkv_v1_rows:
  assumes "rect_setting M P l path b t" and "length ms = b * t" and "a = layer_prefix l @ ''att.''"
  shows "tmix_rkv_v1 (rm_K M) (rm_me M) (rm_z M) a path b t (Act [b, t] ms) =
    Inr (Act [b, t] (map (ref_r (rm_K M) P a) ms), Act [b, t] (map (\<lambda>m. lin (rm_K M) (P (a @ ''key.weight'')) (mx_k m)) ms),
         Act [b, t] (map (ref_v0 (rm_K M) P a) ms))"
proof (cases "path_use_batched_rkv path")
  case True
  let ?K = "rm_K M"
  have w: "rm_z M (a @ ''rkv.weight'') =
      Some (k_stack ?K (k_t ?K (P (a @ ''receptance.weight''))) (k_t ?K (P (a @ ''key.weight''))) (k_t ?K (P (a @ ''value.weight''))))"
    using rect_settingD(2,4) [OF assms(1)] True by (simp add: layer_loaded_def path_fits_def Let_def assms(3))
  show ?thesis
    using True assms(2)
    by (simp add: tmix_rkv_v1_def Let_def w flat_def stack_bmm_def kernels_agreeD(2) [OF rect_settingD(3) [OF assms(1)]]
        zip_map_map zip_same_conv_map comp_def ref_r_def ref_v0_def)
next
  case False
  show ?thesis
    using False assms(2) proj_product [OF rect_settingD(1) [OF assms(1)] _ assms(3)]
    by (simp add: tmix_rkv_v1_def Let_def comp_def ref_r_def ref_v0_def)
qed

lemma tmix_gate_v1_rows:
  assumes "rect_setting M P l path b t" and "a = layer_prefix l @ ''att.''"
  shows "tmix_gate_v1 (rm_K M) (rm_z M) a b t (Act [b, t] (map (\<lambda>m. lin (rm_K M) (P (a @ ''key.weight'')) (mx_k m)) ms))
      (Act [b, t] (map (ref_a (rm_K M) P a) ms)) =
    Inr (Act [b, t] (map (\<lambda>m. fst (ref_k (rm_K M) P a m)) ms), Act [b, t] (map (\<lambda>m. fst (snd (ref_k (rm_K M) P a m))) ms),
         Act [b, t] (map (\<lambda>m. snd (snd (ref_k (rm_K M) P a m))) ms))"
  using layer_loadedD(7-9) [OF rect_settingD(4) [OF assms(1)] assms(2)]
  by (simp add: tmix_gate_v1_def zip_maps Let_def ref_k_def comp_def)

lemma tmix_value_v1_rows:
  assumes "rect_setting M P l path b t" and "a = layer_prefix l @ ''att.''" and "length zs = b * t"
    and "l \<noteq> 0 \<Longrightarrow> v_first = Act [b, t] (map snd zs)"
    and "v_done = (if rank_fused (rm_me M) path \<and> rank_out_fused (rm_me M) path \<and> l \<noteq> 0
         then Some (Act [b, t] (map (\<lambda>z. ref_v (rm_K M) P a l (fst z) (snd z)) zs)) else None)"
  shows "tmix_value_v1 (rm_K M) (rm_me M) (rm_z M) a l path b t (Act [b, t] (map (mx_v \<circ> fst) zs))
      (Act [b, t] (map (ref_v0 (rm_K M) P a \<circ> fst) zs)) v_first v_done =
    Inr (Act [b, t] (map (\<lambda>z. ref_v (rm_K M) P a l (fst z) (snd z)) zs),
         Act [b, t] (map (\<lambda>z. ref_vf (rm_K M) P a l (fst z) (snd z)) zs))"
proof (cases "l = 0")
  case True
  then show ?thesis using assms(5) by (simp add: tmix_value_v1_def Let_def ref_v_def ref_vf_def comp_def)
next
  case False
  have vf: "map snd zs = map (\<lambda>z. ref_vf (rm_K M) P a l (fst z) (snd z)) zs" using False by (simp add: ref_vf_def)
  show ?thesis
  proof (cases "rank_out_fused (rm_me M) path")
    case True
    then show ?thesis using False assms(4,5) fused_order [OF True] by (simp add: tmix_value_v1_def vf)
  next
    case off: False
    note set = rect_settingD(1) [OF assms(1)]
    note K = kernels_agreeD [OF rect_settingD(3) [OF assms(1)]]
    note rw = rank_weights [OF set assms(2)]
    have mode: "ic_lowrank_weight (me_ic (rm_me M)) \<in> lowrank_modes" using settingD(2) [OF set] by (simp add: config_ok_def)
    have v0: "weight (rm_z M) (a @ ''v0'') = Inr (P (a @ ''v0''))"
      using layer_loadedD(14) [OF settingD(3) [OF set] assms(2)] False by simp
    show ?thesis
      using False off assms(4,5) rw [of "''v1''"] rw [of "''v2''"]
      by (simp add: tmix_value_v1_def rank_products [OF K(1) mode] v0 zip_maps ref_v_def ref_vf_def low_eq comp_def)
  qed
qed

lemma wkv_rows_map: "wkv_rows f l offs (map h xs) ds = wkv_rows (\<lambda>s e x. f s e (h x)) l offs xs ds"
  by (simp add: wkv_rows_def slices_map wkv_run_map zip_map1 comp_def case_prod_unfold)

lemma tmix_wkv_v1_rows:
  assumes "rect_setting M P l path b t" and "a = layer_prefix l @ ''att.''" and "length ds = b"
  shows "tmix_wkv_v1 (rm_K M) (rm_me M) (rm_z M) a l b t (Act [b, t] (map (ref_r (rm_K M) P a \<circ> fst) zs))
      (Act [b, t] (map (ref_w (rm_K M) P a \<circ> fst) zs)) (Act [b, t] (map (\<lambda>z. fst (ref_k (rm_K M) P a (fst z))) zs))
      (Act [b, t] (map (\<lambda>z. ref_v (rm_K M) P a l (fst z) (snd z)) zs))
      (Act [b, t] (map (\<lambda>z. fst (snd (ref_k (rm_K M) P a (fst z)))) zs))
      (Act [b, t] (map (\<lambda>z. snd (snd (ref_k (rm_K M) P a (fst z)))) zs)) ds =
    (case wkv_rows (row_step (rm_K M) P (fp32_of (rm_me M)) l) l (uniform_offs b t) zs ds of (ys, ds') \<Rightarrow> Inr (Act [b, t] ys, ds'))"
proof -
  let ?K = "rm_K M"
  note K = kernels_agreeD [OF rect_settingD(3) [OF assms(1)]]
  have w0: "weight (rm_z M) (a @ ''w0'') = Inr (P (a @ ''w0''))"
    using layer_loadedD(10) [OF rect_settingD(4) [OF assms(1)] assms(2)] by simp
  have in_eq: "ref_in ?K P a l z = (ref_r ?K P a (fst z), k_add_vec ?K (P (a @ ''w0'')) (ref_w ?K P a (fst z)),
      fst (ref_k ?K P a (fst z)), ref_v ?K P a l (fst z) (snd z), fst (snd (ref_k ?K P a (fst z))), snd (snd (ref_k ?K P a (fst z))))" for z
    by (simp add: ref_in_def split: prod.split)
  let ?raw = "\<lambda>z. (ref_r ?K P a (fst z), ref_w ?K P a (fst z), fst (ref_k ?K P a (fst z)),
      ref_v ?K P a l (fst z) (snd z), fst (snd (ref_k ?K P a (fst z))), snd (snd (ref_k ?K P a (fst z))))"
  have fused: "k_wkv16_w0 ?K (P (a @ ''w0'')) s e (?raw z) = row_step ?K P False l s e z" for s e z
    unfolding K(7) row_step_def ref_step_def assms(2) [symmetric] in_eq by simp
  have run: "wkv_rows (k_wkv16_w0 ?K (P (a @ ''w0''))) l offs (map ?raw zs) ds = wkv_rows (row_step ?K P False l) l offs zs ds"
    "wkv_rows (k_wkv16 ?K) l offs (map (ref_in ?K P a l) zs) ds = wkv_rows (row_step ?K P False l) l offs zs ds"
    "wkv_rows (\<lambda>s e. k_wkv32 ?K s) l offs (map (ref_in ?K P a l) zs) ds = wkv_rows (row_step ?K P True l) l offs zs ds" for offs
    unfolding wkv_rows_map fused by (simp_all add: row_step_def [abs_def] ref_step_def flip: assms(2))
  have "zip6 (Act [b, t] (map (ref_r ?K P a \<circ> fst) zs)) (Act [b, t] (map (k_add_vec ?K (P (a @ ''w0'')) \<circ> (ref_w ?K P a \<circ> fst)) zs))
      (Act [b, t] (map (\<lambda>z. fst (ref_k ?K P a (fst z))) zs)) (Act [b, t] (map (\<lambda>z. ref_v ?K P a l (fst z) (snd z)) zs))
      (Act [b, t] (map (\<lambda>z. fst (snd (ref_k ?K P a (fst z)))) zs)) (Act [b, t] (map (\<lambda>z. snd (snd (ref_k ?K P a (fst z)))) zs)) =
      map (ref_in ?K P a l) zs"
    by (simp add: zip6_def zip_maps in_eq comp_def)
  moreover have "zip6 (Act [b, t] (map (ref_r ?K P a \<circ> fst) zs)) (Act [b, t] (map (ref_w ?K P a \<circ> fst) zs))
      (Act [b, t] (map (\<lambda>z. fst (ref_k ?K P a (fst z))) zs)) (Act [b, t] (map (\<lambda>z. ref_v ?K P a l (fst z) (snd z)) zs))
      (Act [b, t] (map (\<lambda>z. fst (snd (ref_k ?K P a (fst z)))) zs)) (Act [b, t] (map (\<lambda>z. snd (snd (ref_k ?K P a (fst z)))) zs)) =
      map ?raw zs"
    by (simp add: zip6_def zip_maps comp_def)
  ultimately show ?thesis
    by (simp add: tmix_wkv_v1_def w0 Let_def fp32_of_def wkv_inputs_def rows_checked_def assms(3) run del: prod.collapse)
qed

lemma tmix_out_v1_rows:
  assumes "rect_setting M P l path b t" and "a = layer_prefix l @ ''att.''" and "length zs = b * t" and "length ys = b * t"
  shows "tmix_out_v1 (rm_K M) (rm_me M) (rm_z M) a path b t (Act [b, t] ys) (Act [b, t] (map (ref_r (rm_K M) P a \<circ> fst) zs))
      (Act [b, t] (map (\<lambda>z. fst (ref_k (rm_K M) P a (fst z))) zs)) (Act [b, t] (map (\<lambda>z. ref_v (rm_K M) P a l (fst z) (snd z)) zs))
      (Act [b, t] (map (ref_g (rm_K M) P a \<circ> fst) zs)) =
    Inr (Act [b, t] (map2 (ref_out (rm_K M) P a l) zs ys))"
proof -
  let ?K = "rm_K M"
  note w = layer_loadedD(11-13) [OF rect_settingD(4) [OF assms(1)] assms(2)]
  note out = proj_product [OF rect_settingD(1) [OF assms(1)] _ assms(2), of "''output.weight''"]
  let ?lnx = "k_lnx ?K (P (a @ ''r_k''), P (a @ ''ln_x.weight''), P (a @ ''ln_x.bias''))"
  have rows: "map (\<lambda>p. lin ?K (P (a @ ''output.weight'')) (?lnx p))
      (zip ys (map (\<lambda>z. (ref_r ?K P a (fst z), fst (ref_k ?K P a (fst z)), ref_v ?K P a l (fst z) (snd z), ref_g ?K P a (fst z))) zs)) =
      map2 (ref_out ?K P a l) zs ys"
    using assms(3,4) by (simp add: zip_map2 ref_out_def case_prod_unfold comp_def)
  show ?thesis
    using assms(3,4) out by (simp add: tmix_out_v1_def zip_maps w comp_def rows)
qed

lemma tmix_forward_v1_rows:
  assumes "rect_setting M P l path b t" and "a = layer_prefix l @ ''att.''" and "length zs = b * t"
    and "l \<noteq> 0 \<Longrightarrow> v_first = Act [b, t] (map snd zs)"
    and "tmix_inputs_v1 (rm_K M) (rm_z M) a l b t pre_mix x ds = Inr (Act [b, t] (map fst zs), ds1)" and "act_shape x = [b, t]"
    and "wkv_rows (row_step (rm_K M) P (fp32_of (rm_me M)) l) l (uniform_offs b t) zs ds1 = (ys, ds2)"
    and "length ys = b * t" and "length ds1 = b"
  shows "tmix_forward_v1 (rm_K M) (rm_me M) (rm_z M) a l path pre_mix x v_first ds =
    Inr (Act [b, t] (map2 (ref_out (rm_K M) P a l) zs ys), Act [b, t] (map (\<lambda>z. ref_vf (rm_K M) P a l (fst z) (snd z)) zs), ds2)"
proof -
  let ?K = "rm_K M" let ?sh = "[b, t]" let ?me = "rm_me M"
  note set = rect_settingD(1) [OF assms(1)]
  obtain v_done where vd: "v_done = (if rank_fused ?me path \<and> rank_out_fused ?me path \<and> l \<noteq> 0
      then Some (Act ?sh (map (\<lambda>z. ref_v ?K P a l (fst z) (snd z)) zs)) else None)" by simp
  note vl = tmix_value_v1_rows [OF assms(1-4) vd]
  have rkv: "tmix_rkv_v1 ?K ?me (rm_z M) a path b t (Act ?sh (map fst zs)) =
      Inr (Act ?sh (map (ref_r ?K P a \<circ> fst) zs), Act ?sh (map (\<lambda>m. lin ?K (P (a @ ''key.weight'')) (mx_k m)) (map fst zs)),
           Act ?sh (map (ref_v0 ?K P a \<circ> fst) zs))"
    using tmix_rkv_v1_rows [OF assms(1) _ assms(2), of "map fst zs"] assms(3) by simp
  obtain v1 where v1: "v1 = (if rank_fused ?me path \<and> rank_out_fused ?me path \<and> l \<noteq> 0
      then Some (Act ?sh (map (\<lambda>z. low ?K (P (a @ ''v1'')) (mx_v (fst z))) zs)) else None)" by simp
  have rank_in: "tmix_rank_in ?K ?me (rm_z M) a l path (Act ?sh (map fst zs)) =
      Inr (Act ?sh (map (\<lambda>z. low ?K (P (a @ ''w1'')) (mx_w (fst z))) zs), Act ?sh (map (\<lambda>z. low ?K (P (a @ ''a1'')) (mx_a (fst z))) zs),
           Act ?sh (map (\<lambda>z. low ?K (P (a @ ''g1'')) (mx_g (fst z))) zs), v1)"
    using tmix_rank_in_rows [OF set assms(2), of ?sh "map fst zs"] unfolding tmix_rank_plain rank_plain v1 map_map comp_def .
  note rank_out = tmix_rank_out_rows [OF set assms(2,3), of v_first ?sh v1, unfolded tmix_rank_plain rank_plain,
      OF assms(4) v1, folded vd]
  note gate = tmix_gate_v1_rows [OF assms(1,2), of "map fst zs", unfolded map_map comp_def]
  note wkv = tmix_wkv_v1_rows [OF assms(1,2,9)]
  note out = tmix_out_v1_rows [OF assms(1-3,8)]
  show ?thesis
    by (simp add: tmix_forward_v1_def dims3_def assms(5-7) rkv [unfolded comp_def] rank_in rank_out [unfolded comp_def] gate
        vl [unfolded comp_def] comp_def wkv [unfolded comp_def] out [unfolded comp_def] del: prod.collapse bindE_eq_Inr)
qed

section \<open>Channel mixing\<close>

lemma cmix_from_mixed_v1_rows:
  assumes "rect_setting M P l path b t" and "length ms = b * t"
    and "path_cmix_mode path \<noteq> CMIX_B1T1_SPARSE"
  shows "cmix_from_mixed_v1 (rm_K M) (rm_me M) (rm_z M) (layer_prefix l) path (Act [b, t] ms) =
    Inr (Act [b, t] (map (ref_down (rm_K M) P (layer_prefix l)) ms))"
proof -
  let ?p = "layer_prefix l" let ?K = "rm_K M" let ?me = "rm_me M"
  note K = kernels_agreeD [OF rect_settingD(3) [OF assms(1)]]
  have w: "rm_z M (?p @ ''ffn.key.weight'') = Some (stored ?K (me_wc ?me) ''ffn_key'' (P (?p @ ''ffn.key.weight'')))"
    "rm_z M (?p @ ''ffn.value.weight'') = Some (k_t ?K (P (?p @ ''ffn.value.weight'')))"
    using rect_settingD(4) [OF assms(1)] by (simp_all add: layer_loaded_def Let_def)
  have sizes: "even (k_size0 ?K (P (?p @ ''ffn.key.weight''))) \<and> 4 dvd k_size1 ?K (P (?p @ ''ffn.key.weight''))"
    "k_size1 ?K (P (?p @ ''ffn.value.weight'')) mod 128 = 0" "me_C ?me mod 256 = 0"
    using rect_settingD(5) [OF assms(1)] by (auto simp: layer_sizes_def Let_def)
  have hid: "linear_orig_layout ?K (me_wc ?me) (int (me_C ?me)) (Act [b, t] ms) (stored ?K (me_wc ?me) ''ffn_key'' (P (?p @ ''ffn.key.weight'')))
      (path_rows path) ''ffn_key'' = Inr (Act [b, t] (map (lin ?K (P (?p @ ''ffn.key.weight''))) ms))"
    by (subst stored_product [OF K(1) sizes(1)]) (simp_all add: assms(2) rect_settingD(6) [OF assms(1)])
  have down: "linear_disp ?K x (k_t ?K (P (?p @ ''ffn.value.weight''))) = Inr (amap (lin ?K (P (?p @ ''ffn.value.weight''))) x)" for x
    by (simp add: linear_disp_product [OF K(1)] lin_eq)
  have size_t: "k_size0 ?K (k_t ?K v) = k_size1 ?K v" for v by (rule agreeD(7) [OF K(1)])
  have modes: "CMIX_DENSE \<noteq> CMIX_B1T1_NOFC" "CMIX_DENSE \<noteq> CMIX_ROWS2_NOFC" "CMIX_ROWS2_NOFC \<noteq> CMIX_B1T1_NOFC"
    by (simp_all add: CMIX_DENSE_def CMIX_B1T1_NOFC_def CMIX_ROWS2_NOFC_def)
  consider "path_cmix_mode path = CMIX_DENSE" | "path_cmix_mode path = CMIX_ROWS2_NOFC"
    | "path_cmix_mode path = CMIX_B1T1_NOFC" "b = 1" "t = 1"
    using rect_settingD(2) [OF assms(1)] assms(3) by (auto simp: path_fits_def Let_def)
  then show ?thesis
  proof cases
    case 1
    then show ?thesis using modes
      by (simp add: cmix_from_mixed_v1_def dims3_def Let_def w hid down comp_def ref_down_def del: bindE_eq_Inr)
  next
    case 2
    then show ?thesis using modes sizes
      by (auto simp: cmix_from_mixed_v1_def dims3_def Let_def w hid run_down_relu_def sparse_widths_def size_t comp_def ref_down_def K(11)
          simp del: bindE_eq_Inr)
  next
    case 3
    then show ?thesis using modes sizes assms(2) hid
      by (auto simp: cmix_from_mixed_v1_def dims3_def Let_def w run_down_relu_def sparse_widths_def size_t comp_def ref_down_def K(11)
          simp del: bindE_eq_Inr)
  qed
qed

section \<open>Rows of the state\<close>

lemma shift_rows_map: "shift_rows l j (map C qs) = map (\<lambda>q. ss_shift (C q) l j) qs"
  by (simp add: shift_rows_def comp_def)

lemma put_shift_rows_map: "put_shift_rows l j (map F qs) (map C qs) = map (\<lambda>q. put_shift l j (F q) (C q)) qs"
  by (simp add: put_shift_rows_def zip_maps put_shift_def)

lemma concat_rect_length: "\<forall>xs \<in> set xss. length xs = t \<Longrightarrow> length (concat xss) = length xss * t"
  by (induction xss) simp_all

lemma prev_uniform_v1_concat:
  assumes "\<forall>xs \<in> set xss. length xs = t" and "0 < t" and "length sh = length xss"
  shows "prev_uniform_v1 t sh (concat xss) = concat (map2 prevs sh xss)"
proof -
  note len = concat_rect_length [OF assms(1)]
  have "i div t < length sh" if "i < length (concat xss)" for i using that len assms(3) by (simp add: less_mult_imp_div_less)
  then have "prev_uniform_v1 t sh (concat xss) = prev_uniform t [0..<length sh] (\<lambda>i. sh ! i) (concat xss)"
    by (simp add: prev_uniform_v1_def prev_uniform_def)
  also have "\<dots> = concat (map2 prevs sh xss)"
    using prev_uniform_concat [OF assms(1,2), of "[0..<length sh]" "\<lambda>i. sh ! i"] assms(3) unfolding map_nth by simp
  finally show ?thesis .
qed

text \<open>A rectangular batch: every sequence has \<open>t\<close> rows.\<close>

definition rectangular :: "nat \<Rightarrow> nat \<Rightarrow> ('v, 'w) seq list \<Rightarrow> bool" where
  "rectangular b t qs \<longleftrightarrow> length qs = b \<and> 0 < t \<and> (\<forall>q \<in> set qs. length (fst q) = t)"

lemma rect_concat:
  assumes "rectangular b t qs" and "\<And>q. length (F q) = length (fst q)"
  shows "length (concat (map F qs)) = b * t"
proof -
  have "\<forall>q \<in> set qs. length (fst q) = t" "length qs = b" using assms(1) by (auto simp: rectangular_def)
  then show ?thesis using assms(2) by (induction qs arbitrary: b) auto
qed

lemma rect_prevs:
  assumes "rectangular b t qs" and "\<And>q. length (F q) = length (fst q)"
  shows "prev_uniform_v1 t (shift_rows l j (map C qs)) (concat (map F qs)) =
    concat (map (\<lambda>q. prevs (ss_shift (C q) l j) (F q)) qs)"
proof -
  have "\<forall>xs \<in> set (map F qs). length xs = t" "0 < t" using assms by (auto simp: rectangular_def)
  then show ?thesis by (subst prev_uniform_v1_concat) (simp_all add: shift_rows_map zip_maps comp_def)
qed

lemma rect_lasts:
  assumes "rectangular b t qs" and "\<And>q. length (F q) = length (fst q)"
  shows "last_uniform b t (concat (map F qs)) = map (\<lambda>q. last (F q)) qs"
proof -
  have "\<forall>xs \<in> set (map F qs). length xs = t" "0 < t" "b = length (map F qs)" using assms by (auto simp: rectangular_def)
  then show ?thesis using last_uniform_concat [of "map F qs" t] by (simp add: comp_def)
qed

lemma rect_wkv:
  assumes "rectangular b t qs"
  shows "wkv_rows (row_step K P fp32 l) l (uniform_offs b t) (concat (map (seq_zs K P l) qs)) (map (seq_mixed K P l) qs) =
    (concat (map (\<lambda>q. snd (seq_run K P fp32 l q)) qs),
     map (\<lambda>q. put_wkv l (fst (seq_run K P fp32 l q)) (seq_mixed K P l q)) qs)"
proof -
  have "uniform_offs b t = prefix_sums 0 (map length (map (seq_zs K P l) qs))"
    using uniform_offs_sums [of "rows_in qs" t] assms by (simp add: rectangular_def comp_def)
  then have "slices (uniform_offs b t) (concat (map (seq_zs K P l) qs)) = map (seq_zs K P l) qs"
    by (simp only: slices_concat)
  then show ?thesis
    by (simp add: wkv_rows_def zip_maps comp_def seq_run_def seq_mixed_def put_wkv_def)
qed

section \<open>A layer\<close>

lemma cmix_forward_v1_rows:
  assumes "rect_setting M P l path b t" and "rectangular b t qs" and "\<And>q. length (H q) = length (fst q)"
  shows "cmix_forward_v1 (rm_K M) (rm_me M) (rm_z M) (layer_prefix l) l path (Act [b, t] (concat (map H qs))) (map C qs) =
    Inr (Act [b, t] (concat (map (\<lambda>q. map2 (ref_cmix (rm_K M) P (layer_prefix l)) (prevs (ss_shift (C q) l 1) (H q)) (H q)) qs)),
         map (\<lambda>q. put_shift l 1 (last (H q)) (C q)) qs)"
proof -
  let ?p = "layer_prefix l" let ?K = "rm_K M" let ?x_k = "P (layer_prefix l @ ''ffn.x_k'')"
  note K = kernels_agreeD [OF rect_settingD(3) [OF assms(1)]]
  have x_k: "weight (rm_z M) (?p @ ''ffn.x_k'') = Inr ?x_k"
    using layer_loadedD(19) [OF rect_settingD(4) [OF assms(1)] refl] by simp
  have lenq: "length qs = b" using assms(2) by (simp add: rectangular_def)
  let ?hs = "concat (map H qs)" let ?pv = "concat (map (\<lambda>q. prevs (ss_shift (C q) l 1) (H q)) qs)"
  have len: "length ?hs = b * t" "length ?pv = b * t" by (rule rect_concat [OF assms(2)], simp add: assms(3))+
  have shift: "put_shift_rows l 1 (last_uniform b t ?hs) (map C qs) = map (\<lambda>q. put_shift l 1 (last (H q)) (C q)) qs"
    by (simp only: rect_lasts [OF assms(2,3)] put_shift_rows_map)
  have y: "map2 (ref_cmix ?K P ?p) ?pv ?hs =
      concat (map (\<lambda>q. map2 (ref_cmix ?K P ?p) (prevs (ss_shift (C q) l 1) (H q)) (H q)) qs)"
    by (rule map2_concat) simp
  show ?thesis
  proof (cases "path_cmix_mode path = CMIX_B1T1_SPARSE")
    case True
    have distinct: "CMIX_DENSE \<noteq> CMIX_B1T1_SPARSE" "CMIX_ROWS2_NOFC \<noteq> CMIX_B1T1_SPARSE" "CMIX_B1T1_NOFC \<noteq> CMIX_B1T1_SPARSE"
      by (simp_all add: CMIX_DENSE_def CMIX_B1T1_SPARSE_def CMIX_ROWS2_NOFC_def CMIX_B1T1_NOFC_def)
    have one: "b = 1" "t = 1" and auto: "ic_cmix_sparse (me_ic (rm_me M)) = ''auto''"
      using rect_settingD(2) [OF assms(1)] True distinct by (auto simp: path_fits_def Let_def)
    have w: "rm_z M (?p @ ''ffn.key.weight.fc'') = Some (P (?p @ ''ffn.key.weight''))"
      "rm_z M (?p @ ''ffn.value.weight'') = Some (k_t ?K (P (?p @ ''ffn.value.weight'')))"
      using rect_settingD(4) [OF assms(1)] auto by (simp_all add: layer_loaded_def Let_def)
    have sizes: "sparse_widths (me_C (rm_me M)) (k_size0 ?K (P (?p @ ''ffn.key.weight'')))"
      using rect_settingD(5) [OF assms(1)] by (simp add: layer_sizes_def Let_def sparse_widths_def)
    have fused: "k_cmix_sparse ?K (?x_k, P (?p @ ''ffn.key.weight''), k_t ?K (P (?p @ ''ffn.value.weight''))) = ref_cmix ?K P ?p"
      by (simp add: K(12) ref_cmix_def fun_eq_iff)
    have "cmix_sparse_v1 ?K b t l (?x_k, P (?p @ ''ffn.key.weight''), k_t ?K (P (?p @ ''ffn.value.weight''))) (Act [b, t] ?hs) (map C qs) =
        Inr (Act [b, t] (map2 (ref_cmix ?K P ?p) ?pv ?hs), map (\<lambda>q. put_shift l 1 (last (H q)) (C q)) qs)"
      unfolding cmix_sparse_v1_def act.sel fused shift rect_prevs [OF assms(2,3)] by (simp add: rows_checked_def lenq)
    then show ?thesis using True one
      by (simp add: cmix_forward_v1_def dims3_def w x_k sizes y del: bindE_eq_Inr One_nat_def)
  next
    case False
    have "path_cmix_mode path \<noteq> CMIX_ROWS2_SPARSE"
      using rect_settingD(2) [OF assms(1)] False
      by (auto simp: path_fits_def Let_def CMIX_DENSE_def CMIX_ROWS2_SPARSE_def CMIX_ROWS2_NOFC_def CMIX_B1T1_NOFC_def)
    moreover have "cmix_mix_v1 ?K b t l ?x_k (Act [b, t] ?hs) (map C qs) =
        Inr (Act [b, t] (map2 (k_mix ?K ?x_k) ?pv ?hs), map (\<lambda>q. put_shift l 1 (last (H q)) (C q)) qs)"
      unfolding cmix_mix_v1_def act.sel shift rect_prevs [OF assms(2,3)] by (simp add: rows_checked_def lenq)
    moreover have "cmix_from_mixed_v1 ?K (rm_me M) (rm_z M) ?p path (Act [b, t] (map2 (k_mix ?K ?x_k) ?pv ?hs)) =
        Inr (Act [b, t] (map2 (ref_cmix ?K P ?p) ?pv ?hs))"
      using cmix_from_mixed_v1_rows [OF assms(1) _ False, of "map2 (k_mix ?K ?x_k) ?pv ?hs"] len
      by (simp add: ref_cmix_eq case_prod_unfold)
    ultimately show ?thesis using False
      by (simp add: cmix_forward_v1_def dims3_def x_k y del: bindE_eq_Inr One_nat_def)
  qed
qed

definition fused_agrees :: "('v, 'w, 'p) rwkv_v1 \<Rightarrow> bool" where
  "fused_agrees U \<longleftrightarrow>
     (let K = rm_K (um_M U)
      in \<forall>w bi x_k x r prev. um_add_ln_cmix U w bi x_k x r prev =
           (k_add K x r, k_mix K x_k prev (k_ln K w bi (k_add K x r)), k_ln K w bi (k_add K x r)))"

lemma single_rows:
  assumes "rectangular b 1 qs" and "\<And>q. length (F q) = length (fst q)"
  shows "concat (map F qs) = map (\<lambda>q. hd (F q)) qs" and "\<forall>q \<in> set qs. F q = [hd (F q)] \<and> last (F q) = hd (F q)"
proof -
  have one: "F q = [hd (F q)]" if "q \<in> set qs" for q
  proof -
    have "length (F q) = 1" using assms that by (simp add: rectangular_def)
    then show ?thesis by (cases "F q") simp_all
  qed
  then show "\<forall>q \<in> set qs. F q = [hd (F q)] \<and> last (F q) = hd (F q)" by (metis last.simps)
  have "map F qs = map (\<lambda>q. [hd (F q)]) qs" using one by (rule map_cong [OF refl])
  then show "concat (map F qs) = map (\<lambda>q. hd (F q)) qs" by (simp only: concat_map_singleton)
qed

lemma add_ln_rows:
  assumes "kernels_agree K"
  shows "add_ln K (Act sh xs) (Act sh ys) w bi =
    Inr (Act sh (map2 (k_add K) xs ys), Act sh (map (k_ln K w bi) (map2 (k_add K) xs ys)))"
  by (simp add: add_ln_def Let_def kernels_agreeD(8) [OF assms] comp_def case_prod_unfold)

text \<open>The fused kernel on a batch of single tokens does what norm and mix do one after the other.\<close>

lemma add_ln_cmix_rows:
  assumes "fused_agrees U" and "rectangular b 1 qs" and "\<And>q. length (F q) = length (fst q)" and "\<And>q. length (G q) = length (fst q)"
    and "K = rm_K (um_M U)"
    and "\<And>q. X q = map2 (k_add K) (F q) (G q)" and "\<And>q. H q = map (k_ln K w bi) (X q)"
  shows "add_ln_cmix U b l w bi x_k (Act [b, 1] (concat (map F qs))) (Act [b, 1] (concat (map G qs))) (map C qs) =
    Inr (Act [b, 1] (concat (map X qs)),
         Act [b, 1] (concat (map (\<lambda>q. map2 (k_mix K x_k) (prevs (ss_shift (C q) l 1) (H q)) (H q)) qs)),
         map (\<lambda>q. put_shift l 1 (last (H q)) (C q)) qs)"
proof -
  have len: "length (X q) = length (fst q)" "length (H q) = length (fst q)"
    "length (map2 (k_mix K x_k) (prevs (ss_shift (C q) l 1) (H q)) (H q)) = length (fst q)" for q
    by (simp_all add: assms(3,4,6,7))
  note s1 = single_rows [OF assms(2)]
  have row: "um_add_ln_cmix U w bi x_k (hd (F q)) (hd (G q)) prev = (hd (X q), k_mix K x_k prev (hd (H q)), last (H q))"
    if q: "q \<in> set qs" for q prev
  proof -
    obtain f where f: "F q = [f]" using s1(2) [of F, OF assms(3)] q by blast
    obtain g where g: "G q = [g]" using s1(2) [of G, OF assms(4)] q by blast
    show ?thesis using assms(1) by (simp add: fused_agrees_def Let_def assms(5-7) f g)
  qed
  have mixed: "hd (map2 (k_mix K x_k) (prevs (ss_shift (C q) l 1) (H q)) (H q)) = k_mix K x_k (ss_shift (C q) l 1) (hd (H q))"
    if q: "q \<in> set qs" for q
  proof -
    obtain h where h: "H q = [h]" using s1(2) [of H, OF len(2)] q by blast
    show ?thesis by (simp add: h)
  qed
  have "length qs = b" using assms(2) by (simp add: rectangular_def)
  then show ?thesis
    unfolding add_ln_cmix_def s1(1) [of F, OF assms(3)] s1(1) [of G, OF assms(4)] s1(1) [of X, OF len(1)]
      s1(1) [OF len(3)] azip_Act
    by (simp add: rows_checked_def Let_def shift_rows_map zip_maps comp_def row mixed put_shift_rows_map cong: map_cong
        del: One_nat_def)
qed

lemma layer_body_v1_seqs:
  assumes "rect_setting (um_M U) P l path b t" and "fused_agrees U" and "rectangular b t qs" and "K = rm_K (um_M U)"
    and "tmix_inputs_v1 K (rm_z (um_M U)) (layer_prefix l @ ''att.'') l b t pre xx ds =
      Inr (Act [b, t] (concat (map (seq_mix K P l) qs)), map (seq_mixed K P l) qs)"
    and "act_shape xx = [b, t]" and "fp32 = fp32_of (rm_me (um_M U))"
    and "l \<noteq> 0 \<Longrightarrow> v_first = Act [b, t] (concat (map (\<lambda>q. map snd (fst q)) qs))"
  shows "layer_body_v1 U path l (Act [b, t] (concat (map seq_x qs))) xx v_first pre ds =
    Inr (Act [b, t] (concat (map (seq_x1 K P fp32 l) qs)), Act [b, t] (concat (map (seq_y K P fp32 l) qs)),
         Act [b, t] (concat (map (seq_vf K P l) qs)), map (\<lambda>q. snd (ref_layer K P fp32 l q)) qs)"
proof -
  let ?M = "um_M U" let ?p = "layer_prefix l" let ?a = "layer_prefix l @ ''att.''"
  let ?zs = "concat (map (seq_zs K P l) qs)" let ?ys = "concat (map (\<lambda>q. snd (seq_run K P fp32 l q)) qs)"
  let ?C = "\<lambda>q. put_wkv l (fst (seq_run K P fp32 l q)) (seq_mixed K P l q)"
  let ?G = "\<lambda>q. map2 (ref_out K P ?a l) (seq_zs K P l q) (snd (seq_run K P fp32 l q))"
  let ?w = "P (?p @ ''ln2.weight'')" let ?b = "P (?p @ ''ln2.bias'')"
  note len = rect_concat [OF assms(3)]
  have lenq: "length qs = b" using assms(3) by (simp add: rectangular_def)
  have zs: "map fst ?zs = concat (map (seq_mix K P l) qs)" "map snd ?zs = concat (map (\<lambda>q. map snd (fst q)) qs)"
    by (simp_all add: map_concat comp_def seq_zs_def)
  have "tmix_forward_v1 (rm_K ?M) (rm_me ?M) (rm_z ?M) ?a l path pre xx v_first ds =
      Inr (Act [b, t] (map2 (ref_out (rm_K ?M) P ?a l) ?zs ?ys),
           Act [b, t] (map (\<lambda>z. ref_vf (rm_K ?M) P ?a l (fst z) (snd z)) ?zs), map ?C qs)"
  proof (rule tmix_forward_v1_rows [OF assms(1) refl _ _ _ assms(6)])
    show "length ?zs = b * t" "length ?ys = b * t" by (rule len, simp)+
    show "l \<noteq> 0 \<Longrightarrow> v_first = Act [b, t] (map snd ?zs)" unfolding zs by (rule assms(8))
    show "tmix_inputs_v1 (rm_K ?M) (rm_z ?M) ?a l b t pre xx ds = Inr (Act [b, t] (map fst ?zs), map (seq_mixed K P l) qs)"
      unfolding zs assms(4) [symmetric] by (rule assms(5))
    show "wkv_rows (row_step (rm_K ?M) P (fp32_of (rm_me ?M)) l) l (uniform_offs b t) ?zs (map (seq_mixed K P l) qs) =
        (?ys, map ?C qs)" using rect_wkv [OF assms(3)] assms(4,7) by simp
  qed (simp add: lenq)
  moreover have "map2 (ref_out K P ?a l) ?zs ?ys = concat (map ?G qs)" by (rule map2_concat) simp
  moreover have "map (\<lambda>z. ref_vf K P ?a l (fst z) (snd z)) ?zs = concat (map (seq_vf K P l) qs)"
    by (simp add: map_concat comp_def seq_vf_def [abs_def])
  ultimately have tm: "tmix_forward_v1 K (rm_me ?M) (rm_z ?M) ?a l path pre xx v_first ds =
      Inr (Act [b, t] (concat (map ?G qs)), Act [b, t] (concat (map (seq_vf K P l) qs)), map ?C qs)"
    by (simp add: assms(4))
  have w: "weight (rm_z ?M) (?p @ ''ln2.weight'') = Inr ?w" "weight (rm_z ?M) (?p @ ''ln2.bias'') = Inr ?b"
    "weight (rm_z ?M) (?p @ ''ffn.x_k'') = Inr (P (?p @ ''ffn.x_k''))"
    using layer_loadedD(17-19) [OF rect_settingD(4) [OF assms(1)] refl] by simp_all
  have x1: "seq_x1 K P fp32 l q = map2 (k_add K) (seq_x q) (?G q)" for q by (simp add: seq_x1_def)
  have h: "seq_h K P fp32 l q = map (k_ln K ?w ?b) (seq_x1 K P fp32 l q)" for q by (simp add: seq_h_def)
  have y: "seq_y K P fp32 l q = map2 (ref_cmix K P ?p) (prevs (ss_shift (?C q) l 1) (seq_h K P fp32 l q)) (seq_h K P fp32 l q)" for q
    by (simp add: seq_y_def seq_mixed_def)
  have final: "put_shift l 1 (last (seq_h K P fp32 l q)) (?C q) = snd (ref_layer K P fp32 l q)" for q by (simp add: ref_layer_seq)
  have dims: "dims3 (Act [b, t] xs) = Inr (b, t)" for xs :: "'a list" by (simp add: dims3_def)
  show ?thesis
  proof (cases "t = 1 \<and> path_cmix_mode path \<notin> {CMIX_B1T1_SPARSE, CMIX_ROWS2_SPARSE}")
    case True
    then have t: "t = 1" and mode: "path_cmix_mode path \<noteq> CMIX_B1T1_SPARSE" by simp_all
    let ?x_k = "P (?p @ ''ffn.x_k'')"
    let ?m = "\<lambda>q. map2 (k_mix K ?x_k) (prevs (ss_shift (?C q) l 1) (seq_h K P fp32 l q)) (seq_h K P fp32 l q)"
    have add: "add_ln_cmix U b l ?w ?b ?x_k (Act [b, t] (concat (map seq_x qs))) (Act [b, t] (concat (map ?G qs))) (map ?C qs) =
        Inr (Act [b, t] (concat (map (seq_x1 K P fp32 l) qs)), Act [b, t] (concat (map ?m qs)),
             map (\<lambda>q. snd (ref_layer K P fp32 l q)) qs)"
      unfolding final [symmetric] t
      by (rule add_ln_cmix_rows [OF assms(2) assms(3) [unfolded t] _ _ assms(4) x1 h]) simp_all
    have down: "map (ref_down K P ?p) (?m q) = seq_y K P fp32 l q" for q
      unfolding y by (simp add: ref_cmix_eq case_prod_unfold)
    have "cmix_from_mixed_v1 K (rm_me ?M) (rm_z ?M) ?p path (Act [b, t] (concat (map ?m qs))) =
        Inr (Act [b, t] (map (ref_down K P ?p) (concat (map ?m qs))))"
      unfolding assms(4) by (rule cmix_from_mixed_v1_rows [OF assms(1) _ mode]) (rule len, simp)
    also have "map (ref_down K P ?p) (concat (map ?m qs)) = concat (map (\<lambda>q. map (ref_down K P ?p) (?m q)) qs)"
      by (simp only: map_concat map_map comp_def)
    also have "\<dots> = concat (map (seq_y K P fp32 l) qs)" unfolding down by (rule refl)
    finally have mixed: "cmix_from_mixed_v1 K (rm_me ?M) (rm_z ?M) ?p path (Act [b, t] (concat (map ?m qs))) =
        Inr (Act [b, t] (concat (map (seq_y K P fp32 l) qs)))" .
    show ?thesis
      unfolding layer_body_v1_def Let_def assms(4) [symmetric] dims bindE.simps prod.case tm if_P [OF True] w add mixed
      by (rule refl)
  next
    case False
    have x1c: "map2 (k_add K) (concat (map seq_x qs)) (concat (map ?G qs)) = concat (map (seq_x1 K P fp32 l) qs)"
      unfolding x1 by (rule map2_concat) simp
    have hc: "map (k_ln K ?w ?b) (concat (map (seq_x1 K P fp32 l) qs)) = concat (map (seq_h K P fp32 l) qs)"
      unfolding h map_concat map_map comp_def by (rule refl)
    have add: "add_ln K (Act [b, t] (concat (map seq_x qs))) (Act [b, t] (concat (map ?G qs))) ?w ?b =
        Inr (Act [b, t] (concat (map (seq_x1 K P fp32 l) qs)), Act [b, t] (concat (map (seq_h K P fp32 l) qs)))"
      using rect_settingD(3) [OF assms(1)] unfolding assms(4) [symmetric] by (simp only: add_ln_rows x1c hc)
    have "cmix_forward_v1 K (rm_me ?M) (rm_z ?M) ?p l path (Act [b, t] (concat (map (seq_h K P fp32 l) qs))) (map ?C qs) =
        Inr (Act [b, t] (concat (map (seq_y K P fp32 l) qs)), map (\<lambda>q. snd (ref_layer K P fp32 l q)) qs)"
      using cmix_forward_v1_rows [OF assms(1,3), of "seq_h K P fp32 l" ?C]
      unfolding y final assms(4) [symmetric] by (simp only: seq_lengths)
    then show ?thesis
      unfolding layer_body_v1_def Let_def assms(4) [symmetric] dims bindE.simps prod.case tm if_not_P [OF False] w add
      by simp
  qed
qed

section \<open>Between layers\<close>

definition ready_v1 ::
    "('v, 'w, 'p) rwkv_v1 \<Rightarrow> (string \<Rightarrow> 'p) \<Rightarrow> nat \<Rightarrow> nat \<Rightarrow> nat \<Rightarrow> ('v, 'w) seq list
       \<Rightarrow> 'v act \<times> 'v act \<times> 'v mixes act option \<times> ('v, 'w) row_states \<Rightarrow> bool" where
  "ready_v1 U P b t l qs c \<longleftrightarrow>
     (case c of (x, xx, pre, ds) \<Rightarrow>
        x = Act [b, t] (concat (map seq_x qs)) \<and> act_shape xx = [b, t] \<and>
        tmix_inputs_v1 (rm_K (um_M U)) (rm_z (um_M U)) (layer_prefix l @ ''att.'') l b t pre xx ds =
          Inr (Act [b, t] (concat (map (seq_mix (rm_K (um_M U)) P l) qs)), map (seq_mixed (rm_K (um_M U)) P l) qs))"

lemma mix_weights_loaded:
  assumes "layer_loaded K me P z l" and "a = layer_prefix l @ ''att.''"
  shows "mix_weights z a =
    Inr (P (a @ ''x_r''), P (a @ ''x_w''), P (a @ ''x_k''), P (a @ ''x_v''), P (a @ ''x_a''), P (a @ ''x_g''))"
  using layer_loadedD(1-6) [OF assms] by (simp add: mix_weights_def)

lemma inputs_unfused_v1:
  assumes "rect_setting M P l path b t" and "rectangular b t qs"
  shows "tmix_inputs_v1 (rm_K M) (rm_z M) (layer_prefix l @ ''att.'') l b t None (Act [b, t] (concat (map (seq_xx (rm_K M) P l) qs)))
      (map snd qs) =
    Inr (Act [b, t] (concat (map (seq_mix (rm_K M) P l) qs)), map (seq_mixed (rm_K M) P l) qs)"
proof -
  let ?K = "rm_K M" let ?a = "layer_prefix l @ ''att.''"
  have "map2 (ref_mixes ?K P ?a) (concat (map (\<lambda>q. prevs (ss_shift (snd q) l 0) (seq_xx ?K P l q)) qs))
      (concat (map (seq_xx ?K P l) qs)) = concat (map (seq_mix ?K P l) qs)"
    by (subst map2_concat) (simp_all add: seq_mix_def [abs_def])
  moreover have "length qs = b" using assms(2) by (simp add: rectangular_def)
  ultimately show ?thesis
    by (simp add: tmix_inputs_v1_def mix_weights_loaded [OF rect_settingD(4) [OF assms(1)] refl] tmix_mix6_v1_def rows_checked_def
        rect_prevs [OF assms(2)] rect_lasts [OF assms(2)] put_shift_rows_map seq_mixed_def [abs_def] ref_mixes_def [abs_def])
qed

lemma next_pre_mix_v1_ready:
  assumes "rect_setting (um_M U) P (Suc l) path b t" and "rectangular b t qs"
    and "map2 (k_add (rm_K (um_M U))) xs ys = concat (map seq_x qs)" and "length xs = b * t" and "length ys = b * t"
  shows "\<exists>c. next_pre_mix_v1 U b t l (Act [b, t] xs) (Act [b, t] ys) (map snd qs) = Inr c \<and> ready_v1 U P b t (Suc l) qs c"
proof -
  let ?M = "um_M U" let ?K = "rm_K ?M" let ?p = "layer_prefix (Suc l)"
  note K = kernels_agreeD [OF rect_settingD(3) [OF assms(1)]]
  note ld = layer_loadedD [OF rect_settingD(4) [OF assms(1)] refl]
  let ?w = "P (?p @ ''ln1.weight'')" let ?b = "P (?p @ ''ln1.bias'')"
  have w: "weight (rm_z ?M) (?p @ ''ln1.weight'') = Inr ?w" "weight (rm_z ?M) (?p @ ''ln1.bias'') = Inr ?b"
    using ld(15,16) by simp_all
  have xx: "map (k_ln ?K ?w ?b) (map2 (k_add ?K) xs ys) = concat (map (seq_xx ?K P (Suc l)) qs)"
    by (simp add: assms(3) map_concat comp_def seq_xx_def [abs_def])
  show ?thesis
  proof (cases "ic_ln1_tmix_fuse (me_ic (rm_me ?M)) \<and> b = 1 \<and> t = 1")
    case False
    have "add_ln ?K (Act [b, t] xs) (Act [b, t] ys) ?w ?b =
        Inr (Act [b, t] (concat (map seq_x qs)), Act [b, t] (concat (map (seq_xx ?K P (Suc l)) qs)))"
      using rect_settingD(3) [OF assms(1)] by (simp only: add_ln_rows assms(3) xx [unfolded assms(3)])
    then have "next_pre_mix_v1 U b t l (Act [b, t] xs) (Act [b, t] ys) (map snd qs) =
        Inr (Act [b, t] (concat (map seq_x qs)), Act [b, t] (concat (map (seq_xx ?K P (Suc l)) qs)), None, map snd qs)"
      unfolding next_pre_mix_v1_def Let_def if_not_P [OF False] w bindE.simps by simp
    moreover have "ready_v1 U P b t (Suc l) qs
        (Act [b, t] (concat (map seq_x qs)), Act [b, t] (concat (map (seq_xx ?K P (Suc l)) qs)), None, map snd qs)"
      using inputs_unfused_v1 [OF assms(1,2)] by (simp add: ready_v1_def)
    ultimately show ?thesis by blast
  next
    case True
    then have "length qs = 1" using assms(2) by (simp add: rectangular_def)
    then obtain q where q: "qs = [q]" by (cases qs) auto
    obtain u v where uv: "xs = [u]" "ys = [v]" using assms(4,5) True by (auto simp: length_Suc_conv)
    have x: "seq_x q = [k_add ?K u v]" "seq_xx ?K P (Suc l) q = [k_ln ?K ?w ?b (k_add ?K u v)]"
      using assms(3) [symmetric] xx [symmetric] by (simp_all add: q uv)
    let ?m = "ref_mixes ?K P (?p @ ''att.'') (ss_shift (snd q) (Suc l) 0) (k_ln ?K ?w ?b (k_add ?K u v))"
    have "next_pre_mix_v1 U b t l (Act [b, t] xs) (Act [b, t] ys) (map snd qs) =
        Inr (Act [1, 1] [k_add ?K u v], Act [1, 1] [k_add ?K u v], Some (Act [1, 1] [?m]), map (seq_mixed ?K P (Suc l)) qs)"
      using True put_shift_rows_map [of "Suc l" 0 "\<lambda>q. last (seq_xx ?K P (Suc l) q)" qs snd]
      by (simp add: next_pre_mix_v1_def Let_def w mix_weights_loaded [OF rect_settingD(4) [OF assms(1)] refl] K(10) q uv
          rows_checked_def shift_rows_def x ref_mixes_def seq_mixed_def del: bindE_eq_Inr)
    moreover have "ready_v1 U P b t (Suc l) qs
        (Act [1, 1] [k_add ?K u v], Act [1, 1] [k_add ?K u v], Some (Act [1, 1] [?m]), map (seq_mixed ?K P (Suc l)) qs)"
      using True by (simp add: ready_v1_def q x tmix_inputs_v1_def seq_mix_def)
    ultimately show ?thesis by blast
  qed
qed

section \<open>The last layer\<close>

definition row_logits :: "('v, 'w, 'p) kernels \<Rightarrow> (string \<Rightarrow> 'p) \<Rightarrow> 'v \<Rightarrow> 'v" where
  "row_logits K P x = lin K (P ''head.weight'') (k_ln K (P ''ln_out.weight'') (P ''ln_out.bias'') x)"

lemma ref_logits_last: "ref_logits K P xs = row_logits K P (last xs)"
  by (simp add: ref_logits_def row_logits_def)

text \<open>What the network returns, given the sequences after the last layer.\<close>

definition ending ::
    "('v, 'w, 'p) kernels \<Rightarrow> (string \<Rightarrow> 'p) \<Rightarrow> nat \<Rightarrow> nat \<Rightarrow> bool \<Rightarrow> int list option \<Rightarrow> ('v, 'w) seq list
       \<Rightarrow> ('v act \<times> ('v, 'w) row_states) res" where
  "ending K P b t al idx qs =
     (if al then Inr (Act [b, t] (map (row_logits K P) (concat (map seq_x qs))), map seq_final qs)
      else case idx of
        None \<Rightarrow> Inr (Act [b] (map (\<lambda>q. ref_logits K P (seq_x q)) qs), map seq_final qs)
      | Some js \<Rightarrow>
          bindE (index_pairs b js) (\<lambda>ijs. bindE (mapE (row_at t (concat (map seq_x qs))) ijs) (\<lambda>xs.
          Inr (Act [length xs] (map (row_logits K P) xs), map seq_final qs))))"

lemma advance_i32_rows:
  "rectangular b t qs \<Longrightarrow> advance_i32 (map snd qs) t = map seq_final qs"
  by (simp add: advance_i32_def rectangular_def seq_final_def)

lemma last_uniform_map:
  assumes "length xs = b * t" and "0 < t"
  shows "last_uniform b t (map f xs) = map f (last_uniform b t xs)"
proof -
  have "i * t + t - 1 < length xs" if "i < b" for i
  proof -
    have "Suc i * t \<le> b * t" using that by (intro mult_le_mono1) simp
    then show ?thesis using assms by simp
  qed
  then show ?thesis by (simp add: last_uniform_def)
qed

lemma index_pairs_bound: "index_pairs b js = Inr ijs \<Longrightarrow> ij \<in> set ijs \<Longrightarrow> fst ij < b"
  by (cases ij) (auto simp: index_pairs_def dest!: set_zip_leftD split: if_split_asm)

lemma row_at_map:
  assumes "length xs = b * t" and "fst ij < b"
  shows "row_at t (map f xs) ij = bindE (row_at t xs ij) (\<lambda>x. Inr (f x))"
proof -
  obtain i j where ij: "ij = (i, j)" by (cases ij)
  have "i * t + k < length xs" if "k < t" for k
  proof -
    have "Suc i * t \<le> b * t" using assms(2) ij by (intro mult_le_mono1) simp
    then show ?thesis using that assms(1) by simp
  qed
  then show ?thesis by (auto simp: row_at_def ij)
qed

lemma mapE_row_at_map:
  assumes "length xs = b * t" and "\<forall>ij \<in> set ijs. fst ij < b"
  shows "mapE (row_at t (map f xs)) ijs = bindE (mapE (row_at t xs) ijs) (\<lambda>ys. Inr (map f ys))"
  using assms(2)
proof (induction ijs)
  case (Cons ij ijs)
  then have "row_at t (map f xs) ij = bindE (row_at t xs ij) (\<lambda>x. Inr (f x))" by (intro row_at_map [OF assms(1)]) simp
  with Cons show ?case by (cases "row_at t xs ij"; cases "mapE (row_at t xs) ijs") simp_all
qed simp

lemma finalize_v1_rows:
  assumes "kernels_agree (rm_K (um_M U))" and "loaded (um_M U) P" and "rectangular b t qs"
    and "map2 (k_add (rm_K (um_M U))) xs ys = concat (map seq_x qs)" and "length xs = b * t" and "length ys = b * t"
  shows "finalize_v1 U (Act [b, t] xs) (Act [b, t] ys) (map snd qs) t idx = ending (rm_K (um_M U)) P b t False idx qs"
proof -
  let ?M = "um_M U" let ?K = "rm_K ?M" let ?lo = "k_ln ?K (P ''ln_out.weight'') (P ''ln_out.bias'')"
  note K = kernels_agreeD [OF assms(1)] and head = linear_head_rows [OF assms(1,2)]
  have w: "weight (rm_z ?M) ''ln_out.weight'' = Inr (P ''ln_out.weight'')" "weight (rm_z ?M) ''ln_out.bias'' = Inr (P ''ln_out.bias'')"
    using assms(2) by (simp_all add: loaded_def Let_def)
  have t: "0 < t" using assms(3) by (simp add: rectangular_def)
  let ?zs = "concat (map seq_x qs)"
  have len: "length ?zs = b * t" by (rule rect_concat [OF assms(3)]) simp
  have normed: "map (\<lambda>(x, r). ?lo (k_add ?K x r)) (zip xs ys) = map ?lo ?zs"
    unfolding assms(4) [symmetric] by (simp add: comp_def case_prod_unfold)
  have dims: "dims3 (Act [b, t] xs) = Inr (b, t)" by (simp add: dims3_def)
  show ?thesis
  proof (cases idx)
    case None
    have "map (\<lambda>(x, r). k_add_last_ln ?K (P ''ln_out.weight'') (P ''ln_out.bias'') x r) (last_uniform b t (zip xs ys)) =
        last_uniform b t (map (\<lambda>(x, r). ?lo (k_add ?K x r)) (zip xs ys))"
      using assms(5,6) t by (simp add: last_uniform_map K(9))
    also have "\<dots> = map ?lo (map (\<lambda>q. last (seq_x q)) qs)"
      unfolding normed last_uniform_map [OF len t] by (subst rect_lasts [OF assms(3)]) simp_all
    finally have rows: "map (\<lambda>(x, r). k_add_last_ln ?K (P ''ln_out.weight'') (P ''ln_out.bias'') x r) (last_uniform b t (zip xs ys)) =
        map (\<lambda>q. ?lo (last (seq_x q))) qs" by (simp add: comp_def)
    show ?thesis using arg_cong [OF rows, of "map (lin ?K (P ''head.weight''))"]
      by (simp add: finalize_v1_def Let_def w dims None head ending_def advance_i32_rows [OF assms(3)] ref_logits_def comp_def
          del: bindE_eq_Inr)
  next
    case (Some js)
    show ?thesis
    proof (cases "index_pairs b js")
      case (Inl e)
      then show ?thesis by (simp add: finalize_v1_def Let_def w dims Some ending_def del: bindE_eq_Inr bindE_eq_Inl)
    next
      case (Inr ijs)
      have "mapE (row_at t (map ?lo ?zs)) ijs = bindE (mapE (row_at t ?zs) ijs) (\<lambda>ys. Inr (map ?lo ys))"
        using index_pairs_bound [OF Inr] by (intro mapE_row_at_map [OF len]) blast
      then show ?thesis using Inr
        by (simp add: finalize_v1_def Let_def w dims Some head ending_def advance_i32_rows [OF assms(3)] normed bindE_assoc
            row_logits_def [abs_def] comp_def del: bindE_eq_Inr bindE_eq_Inl)
    qed
  qed
qed

section \<open>The loop over the layers\<close>

lemma rectangular_layer: "rectangular b t qs \<Longrightarrow> rectangular b t (map (ref_layer K P fp32 l) qs)"
  by (simp add: rectangular_def)

lemma layer_loop_v1_seqs:
  assumes "loaded (um_M U) P" and "fused_agrees U" and "K = rm_K (um_M U)" and "fp32 = fp32_of (rm_me (um_M U))"
    and "\<And>j. j < rm_L (um_M U) \<Longrightarrow> rect_setting (um_M U) P j path b t"
    and "rectangular b t qs" and "rm_L (um_M U) = l + Suc k" and "ready_v1 U P b t l qs (x, xx, pre, ds)"
    and "l \<noteq> 0 \<Longrightarrow> v_first = Act [b, t] (concat (map (\<lambda>q. map snd (fst q)) qs))"
  shows "layer_loop_v1 U path b t al idx (Suc k) l x xx v_first pre ds =
    ending K P b t al idx (map (ref_layers K P fp32 [l..<rm_L (um_M U)]) qs)"
  using assms(6-9)
proof (induction k arbitrary: l qs x xx pre ds v_first)
  case 0
  let ?qs = "map (ref_layer K P fp32 l) qs"
  have l: "l < rm_L (um_M U)" "\<not> Suc l < rm_L (um_M U)" "[l..<rm_L (um_M U)] = [l]" using "0.prems"(2) by simp_all
  have inputs: "x = Act [b, t] (concat (map seq_x qs))" "act_shape xx = [b, t]"
    "tmix_inputs_v1 K (rm_z (um_M U)) (layer_prefix l @ ''att.'') l b t pre xx ds =
      Inr (Act [b, t] (concat (map (seq_mix K P l) qs)), map (seq_mixed K P l) qs)"
    using "0.prems"(3) by (simp_all add: ready_v1_def assms(3))
  have body: "layer_body_v1 U path l (Act [b, t] (concat (map seq_x qs))) xx v_first pre ds =
      Inr (Act [b, t] (concat (map (seq_x1 K P fp32 l) qs)), Act [b, t] (concat (map (seq_y K P fp32 l) qs)),
           Act [b, t] (concat (map (seq_vf K P l) qs)), map (\<lambda>q. snd (ref_layer K P fp32 l q)) qs)"
    by (rule layer_body_v1_seqs [OF assms(5) [OF l(1)] assms(2) "0.prems"(1) assms(3) inputs(3,2) assms(4)])
      (rule "0.prems"(4))
  note rect = rectangular_layer [OF "0.prems"(1), of K P fp32 l]
  have agree: "kernels_agree (rm_K (um_M U))" by (rule rect_settingD(3) [OF assms(5) [OF l(1)]])
  have sum: "map2 (k_add (rm_K (um_M U))) (concat (map (seq_x1 K P fp32 l) qs)) (concat (map (seq_y K P fp32 l) qs)) = concat (map seq_x ?qs)"
    by (subst map2_concat) (simp_all add: seq_x_layer comp_def assms(3))
  have len: "length (concat (map (seq_x1 K P fp32 l) qs)) = b * t" "length (concat (map (seq_y K P fp32 l) qs)) = b * t"
    by (rule rect_concat [OF "0.prems"(1)], simp)+
  have st: "map (\<lambda>q. snd (ref_layer K P fp32 l q)) qs = map snd ?qs" by simp
  have final: "map (ref_layers K P fp32 [l]) qs = ?qs" by (simp add: ref_layers_def)
  show ?case
  proof (cases al)
    case False
    note fin = finalize_v1_rows [OF agree assms(1) rect sum len]
    have "layer_loop_v1 U path b t al idx (Suc 0) l x xx v_first pre ds =
        finalize_v1 U (Act [b, t] (concat (map (seq_x1 K P fp32 l) qs))) (Act [b, t] (concat (map (seq_y K P fp32 l) qs))) (map snd ?qs) t idx"
      unfolding layer_loop_v1.simps(2) inputs(1) body st bindE.simps prod.case if_not_P [OF l(2)] using False by simp
    then show ?thesis using False unfolding fin l(3) final by (simp add: assms(3))
  next
    case True
    have w: "weight (rm_z (um_M U)) ''ln_out.weight'' = Inr (P ''ln_out.weight'')" "weight (rm_z (um_M U)) ''ln_out.bias'' = Inr (P ''ln_out.bias'')"
      using assms(1) by (simp_all add: loaded_def Let_def)
    have rows: "amap (\<lambda>(x, y). k_add (rm_K (um_M U)) x y) (Act [b, t] (zip (concat (map (seq_x1 K P fp32 l) qs)) (concat (map (seq_y K P fp32 l) qs)))) =
        Act [b, t] (concat (map seq_x ?qs))"
      unfolding amap_sel sum by (rule refl)
    have logits: "map (row_logits K P) zs =
        map (lin K (P ''head.weight'')) (map (k_ln K (P ''ln_out.weight'') (P ''ln_out.bias'')) zs)" for zs
      by (simp add: row_logits_def)
    show ?thesis using True
      unfolding layer_loop_v1.simps inputs(1) body st bindE.simps prod.case if_not_P [OF l(2)] azip_Act rows l(3) final
      by (simp add: w linear_head_rows [OF agree assms(1)] ending_def Let_def advance_i32_rows [OF rect, unfolded assms(3)] logits [unfolded assms(3)] assms(3)
          del: map_map)
  qed
next
  case (Suc k)
  let ?qs = "map (ref_layer K P fp32 l) qs"
  have l: "l < rm_L (um_M U)" "Suc l < rm_L (um_M U)" "rm_L (um_M U) = Suc l + Suc k" using Suc.prems(2) by simp_all
  have inputs: "x = Act [b, t] (concat (map seq_x qs))" "act_shape xx = [b, t]"
    "tmix_inputs_v1 K (rm_z (um_M U)) (layer_prefix l @ ''att.'') l b t pre xx ds =
      Inr (Act [b, t] (concat (map (seq_mix K P l) qs)), map (seq_mixed K P l) qs)"
    using Suc.prems(3) by (simp_all add: ready_v1_def assms(3))
  have body: "layer_body_v1 U path l (Act [b, t] (concat (map seq_x qs))) xx v_first pre ds =
      Inr (Act [b, t] (concat (map (seq_x1 K P fp32 l) qs)), Act [b, t] (concat (map (seq_y K P fp32 l) qs)),
           Act [b, t] (concat (map (seq_vf K P l) qs)), map (\<lambda>q. snd (ref_layer K P fp32 l q)) qs)"
    by (rule layer_body_v1_seqs [OF assms(5) [OF l(1)] assms(2) Suc.prems(1) assms(3) inputs(3,2) assms(4)])
      (rule Suc.prems(4))
  note rect = rectangular_layer [OF Suc.prems(1), of K P fp32 l]
  have sum: "map2 (k_add (rm_K (um_M U))) (concat (map (seq_x1 K P fp32 l) qs)) (concat (map (seq_y K P fp32 l) qs)) = concat (map seq_x ?qs)"
    by (subst map2_concat) (simp_all add: seq_x_layer comp_def assms(3))
  have len: "length (concat (map (seq_x1 K P fp32 l) qs)) = b * t" "length (concat (map (seq_y K P fp32 l) qs)) = b * t"
    by (rule rect_concat [OF Suc.prems(1)], simp)+
  have st: "map (\<lambda>q. snd (ref_layer K P fp32 l q)) qs = map snd ?qs" by simp
  obtain c where c: "next_pre_mix_v1 U b t l (Act [b, t] (concat (map (seq_x1 K P fp32 l) qs)))
      (Act [b, t] (concat (map (seq_y K P fp32 l) qs))) (map snd ?qs) = Inr c" and ready: "ready_v1 U P b t (Suc l) ?qs c"
    using next_pre_mix_v1_ready [OF assms(5) [OF l(2)] rect sum len] by blast
  obtain x2 xx2 pre2 ds2 where c2: "c = (x2, xx2, pre2, ds2)" by (cases c)
  have vf: "concat (map (seq_vf K P l) qs) = concat (map (\<lambda>q. map snd (fst q)) ?qs)"
    by (simp add: ref_layer_seq comp_def)
  have "layer_loop_v1 U path b t al idx (Suc (Suc k)) l x xx v_first pre ds =
      layer_loop_v1 U path b t al idx (Suc k) (Suc l) x2 xx2 (Act [b, t] (concat (map (seq_vf K P l) qs))) pre2 ds2"
    unfolding layer_loop_v1.simps(2) [of _ _ _ _ _ _ "Suc k"] inputs(1) body st bindE.simps prod.case if_P [OF l(2)] c c2
    by (rule refl)
  also have "\<dots> = ending K P b t al idx (map (ref_layers K P fp32 [Suc l..<rm_L (um_M U)]) ?qs)"
    by (rule Suc.IH [OF rect l(3) ready [unfolded c2]]) (simp only: vf)
  finally show ?case using l(1) by (simp add: upt_conv_Cons ref_layers_Cons comp_def)
qed

section \<open>The forward pass\<close>

text \<open>
  A batch of \<open>b\<close> sequences of \<open>t\<close> tokens each, tokens of the vocabulary, one row of the state for
  each sequence.
\<close>

definition rect_batch :: "('v, 'w, 'p) rwkv_v1 \<Rightarrow> nat \<Rightarrow> token list list \<Rightarrow> ('v, 'w) row_states \<Rightarrow> bool" where
  "rect_batch U t tokss ds \<longleftrightarrow>
     tokss \<noteq> [] \<and> 0 < t \<and> length ds = length tokss \<and>
     (\<forall>toks \<in> set tokss. length toks = t \<and> (\<forall>tk \<in> set toks. 0 \<le> tk \<and> tk < int (length (rm_emb (um_M U)))))"

text \<open>The path the selector chooses for the shape fits it.\<close>

lemma select_path_fits:
  assumes "loaded M P" and "0 < b" and "0 < t"
  shows "path_fits M (select_path (rm_sel M) (int b) (int t)) b t"
proof -
  have sel: "rm_sel M = path_selector_init None (Some (me_wc (rm_me M))) (Some (me_ic (rm_me M)))"
    and cfg: "ic_cmix_sparse (me_ic (rm_me M)) \<in> {''auto'', ''no-fc'', ''off''}"
    using assms(1) by (simp_all add: loaded_def config_ok_def Let_def)
  have one: "int b * int t = 1 \<longleftrightarrow> b = 1 \<and> t = 1"
    by (metis nat_mult_eq_1_iff of_nat_1 of_nat_eq_iff of_nat_mult)
  have "path_use_batched_rkv (select_path (rm_sel M) (int b) (int t)) \<longrightarrow>
      ic_rkv_mode (me_ic (rm_me M)) \<noteq> ''off'' \<and> \<not> use_orig_linear (me_wc (rm_me M)) ''att_c2c''"
    by (simp add: select_path_def batched_rkv_for_def sel path_selector_init_def Let_def)
  moreover have "path_cmix_mode (select_path (rm_sel M) (int b) (int t)) \<in> {CMIX_DENSE, CMIX_ROWS2_NOFC} \<or>
      b = 1 \<and> t = 1 \<and> (path_cmix_mode (select_path (rm_sel M) (int b) (int t)) = CMIX_B1T1_NOFC \<or>
        path_cmix_mode (select_path (rm_sel M) (int b) (int t)) = CMIX_B1T1_SPARSE \<and> ic_cmix_sparse (me_ic (rm_me M)) = ''auto'')"
    using cfg by (auto simp: select_path_def cmix_mode_for_def sel path_selector_init_def Let_def one split: if_split)
  ultimately show ?thesis by (auto simp: path_fits_def Let_def select_path_def)
qed

lemma rect_settings:
  assumes "kernels_agree (rm_K M)" and "loaded M P" and "path_fits M path b t" and "j < rm_L M"
  shows "rect_setting M P j path b t"
  using assms by (auto simp: rect_setting_def setting_def loaded_def Let_def fits_def rect_def plain_path_def path_fits_def)

definition seqs_of :: "('v, 'w, 'p) rwkv_v1 \<Rightarrow> token list list \<Rightarrow> ('v, 'w) row_states \<Rightarrow> ('v, 'w) seq list" where
  "seqs_of U tokss ds = map2 (\<lambda>toks s. (map (\<lambda>tk. (rm_emb (um_M U) ! nat tk, rm_emb (um_M U) ! nat tk)) toks, s)) tokss ds"

lemma forward_from_x_v1_rows:
  assumes "kernels_agree (rm_K (um_M U))" and "loaded (um_M U) P" and "fused_agrees U" and "0 < rm_L (um_M U)"
    and "rect_batch U t tokss ds" and "b = length tokss" and "path_fits (um_M U) path b t"
  shows "forward_from_x_v1 U (Act [b, t] (map (\<lambda>tk. rm_emb (um_M U) ! nat tk) (concat tokss))) ds path al idx =
    ending (rm_K (um_M U)) P b t al idx
      (map (ref_layers (rm_K (um_M U)) P (fp32_of (rm_me (um_M U))) [0..<rm_L (um_M U)]) (seqs_of U tokss ds))"
proof -
  let ?M = "um_M U" let ?K = "rm_K ?M" let ?e = "\<lambda>tk. rm_emb ?M ! nat tk" let ?qs = "seqs_of U tokss ds"
  have ok: "tokss \<noteq> []" "0 < t" "length ds = length tokss" "\<forall>toks \<in> set tokss. length toks = t"
    using assms(5) by (auto simp: rect_batch_def)
  have rect: "rectangular b t ?qs"
    using ok assms(6) by (auto simp: rectangular_def seqs_of_def dest!: set_zip_leftD)
  have set: "rect_setting ?M P j path b t" if "j < rm_L ?M" for j by (rule rect_settings [OF assms(1,2,7) that])
  have snds: "map snd ?qs = ds" using ok(3) by (intro nth_equalityI) (simp_all add: seqs_of_def)
  have xs: "concat (map seq_x ?qs) = map ?e (concat tokss)"
  proof -
    have "map seq_x ?qs = map (map ?e) tokss" using ok(3) by (intro nth_equalityI) (simp_all add: seqs_of_def seq_x_def)
    then show ?thesis by (simp add: map_concat)
  qed
  have ln: "rm_z ?M ''blocks.0.ln1.weight'' = Some (P ''blocks.0.ln1.weight'')" "rm_z ?M ''blocks.0.ln1.bias'' = Some (P ''blocks.0.ln1.bias'')"
    using layer_loadedD(15,16) [OF rect_settingD(4) [OF set [OF assms(4)]] refl] by (simp_all add: first_layer_key)
  have xx: "map (k_ln ?K (P ''blocks.0.ln1.weight'') (P ''blocks.0.ln1.bias'')) (map ?e (concat tokss)) = concat (map (seq_xx ?K P 0) ?qs)"
    unfolding xs [symmetric] by (simp add: map_concat seq_xx_def [abs_def] first_layer_key comp_def)
  have ready: "ready_v1 U P b t 0 ?qs (Act [b, t] (map ?e (concat tokss)), Act [b, t] (concat (map (seq_xx ?K P 0) ?qs)), None, ds)"
    using inputs_unfused_v1 [OF set [OF assms(4)] rect] by (simp add: ready_v1_def xs snds)
  obtain k where k: "rm_L ?M = 0 + Suc k" using assms(4) by (metis add_0 gr0_implies_Suc)
  have "forward_from_x_v1 U (Act [b, t] (map ?e (concat tokss))) ds path al idx =
      layer_loop_v1 U path b t al idx (Suc k) 0 (Act [b, t] (map ?e (concat tokss))) (Act [b, t] (concat (map (seq_xx ?K P 0) ?qs)))
        (Act [b, t] (map ?e (concat tokss))) None ds"
    using k by (simp add: forward_from_x_v1_def Let_def dims3_def ln xx [simplified] del: bindE_eq_Inr layer_loop_v1.simps)
  also have "\<dots> = ending ?K P b t al idx (map (ref_layers ?K P (fp32_of (rm_me ?M)) [0..<rm_L ?M]) ?qs)"
    by (rule layer_loop_v1_seqs [OF assms(2,3) refl refl set rect k ready]) simp_all
  finally show ?thesis .
qed

text \<open>The sequences after the last layer are those of the recurrence.\<close>

lemma last_layer_seqs:
  assumes "q = ref_layers K P fp32 [0..<n] (map (\<lambda>x. (x, x)) xs, s)"
  shows "ref_forward K P fp32 n xs s = (seq_final q, ref_logits K P (seq_x q))" and "length (fst q) = length xs"
proof -
  obtain rows s' where q: "q = (rows, s')" by (cases q)
  have "ref_layers K P fp32 [0..<n] (map (\<lambda>x. (x, x)) xs, s) = (rows, s')" using assms q by simp
  from ref_layers_length [OF this] show len: "length (fst q) = length xs" by (simp add: q)
  show "ref_forward K P fp32 n xs s = (seq_final q, ref_logits K P (seq_x q))"
    using len unfolding ref_forward_def assms [symmetric] q by (simp add: ref_logits_def seq_x_def seq_final_def)
qed

lemma forward_v1_starts:
  assumes "rect_batch U t tokss ds"
  shows "forward_v1 U (Mat (length tokss) t (concat tokss)) ds =
      forward_from_x_v1 U (Act [length tokss, t] (map (\<lambda>tk. rm_emb (um_M U) ! nat tk) (concat tokss))) ds
        (select_path (rm_sel (um_M U)) (int (length tokss)) (int t)) False None"
    and "forward_all_logits U (Mat (length tokss) t (concat tokss)) ds =
      forward_from_x_v1 U (Act [length tokss, t] (map (\<lambda>tk. rm_emb (um_M U) ! nat tk) (concat tokss))) ds
        (select_path (rm_sel (um_M U)) (int (length tokss)) (int t)) True None"
proof -
  have "\<forall>tk \<in> set (concat tokss). 0 \<le> tk \<and> tk < int (length (rm_emb (um_M U)))" using assms by (auto simp: rect_batch_def)
  note emb_rows [OF this]
  then show "forward_v1 U (Mat (length tokss) t (concat tokss)) ds =
      forward_from_x_v1 U (Act [length tokss, t] (map (\<lambda>tk. rm_emb (um_M U) ! nat tk) (concat tokss))) ds
        (select_path (rm_sel (um_M U)) (int (length tokss)) (int t)) False None"
    "forward_all_logits U (Mat (length tokss) t (concat tokss)) ds =
      forward_from_x_v1 U (Act [length tokss, t] (map (\<lambda>tk. rm_emb (um_M U) ! nat tk) (concat tokss))) ds
        (select_path (rm_sel (um_M U)) (int (length tokss)) (int t)) True None"
    by (simp_all add: forward_v1_def forward_all_logits_def embed_v1_def)
qed

lemma rect_batch_path:
  assumes "loaded (um_M U) P" and "rect_batch U t tokss ds"
  shows "path_fits (um_M U) (select_path (rm_sel (um_M U)) (int (length tokss)) (int t)) (length tokss) t"
  using assms by (intro select_path_fits) (auto simp: rect_batch_def)

lemma forward_v1_batch:
  assumes "kernels_agree (rm_K (um_M U))" and "loaded (um_M U) P" and "fused_agrees U" and "0 < rm_L (um_M U)"
    and "rect_batch U t tokss ds"
  shows "forward_v1 U (Mat (length tokss) t (concat tokss)) ds =
    (let rs = map2 (\<lambda>toks s. seq_forward (um_M U) P toks s) tokss ds in Inr (Act [length tokss] (map snd rs), map fst rs))"
proof -
  have row: "seq_forward (um_M U) P toks s =
      (seq_final (ref_layers (rm_K (um_M U)) P (fp32_of (rm_me (um_M U))) [0..<rm_L (um_M U)]
        (map (\<lambda>tk. (rm_emb (um_M U) ! nat tk, rm_emb (um_M U) ! nat tk)) toks, s)),
       ref_logits (rm_K (um_M U)) P (seq_x (ref_layers (rm_K (um_M U)) P (fp32_of (rm_me (um_M U))) [0..<rm_L (um_M U)]
        (map (\<lambda>tk. (rm_emb (um_M U) ! nat tk, rm_emb (um_M U) ! nat tk)) toks, s))))" for toks s
    unfolding seq_forward_def by (subst last_layer_seqs(1) [OF refl]) (simp add: comp_def)
  show ?thesis
    unfolding forward_v1_starts(1) [OF assms(5)] forward_from_x_v1_rows [OF assms refl rect_batch_path [OF assms(2,5)]]
    by (simp add: ending_def seqs_of_def Let_def row comp_def case_prod_unfold)
qed


section \<open>All logits\<close>

lemma ref_layers_prefix:
  assumes "distinct ls" and "j < length rows"
  shows "seq_x (ref_layers K P fp32 ls (rows, s)) ! j = last (seq_x (ref_layers K P fp32 ls (take (Suc j) rows, s)))"
proof -
  let ?r1 = "take (Suc j) rows" let ?r2 = "drop (Suc j) rows"
  obtain q1 s1 where 1: "ref_layers K P fp32 ls (?r1, s) = (q1, s1)" by fastforce
  have len: "length q1 = Suc j" using ref_layers_length [OF 1] assms(2) by simp
  then have last1: "last (map fst q1) = map fst q1 ! j" by (metis diff_Suc_1 last_conv_nth length_0_conv length_map nat.distinct(1))
  show ?thesis
  proof (cases "?r2 = []")
    case True
    then have "?r1 = rows" by simp
    then show ?thesis using 1 last1 by (simp add: seq_x_def)
  next
    case False
    obtain q2 s2 where 2: "ref_layers K P fp32 ls (?r2, s1\<lparr>ss_elapsed := ss_elapsed s + of_nat (length ?r1)\<rparr>) = (q2, s2)" by fastforce
    have "?r1 \<noteq> []" using assms(2) by auto
    from ref_layers_append [OF assms(1) this False 1 2] have "fst (ref_layers K P fp32 ls (rows, s)) = q1 @ q2" by simp
    then show ?thesis using 1 len last1 by (simp add: seq_x_def nth_append)
  qed
qed

lemma concat_nth_rect:
  assumes "\<forall>xs \<in> set xss. length xs = t" and "i < length xss" and "j < t"
  shows "concat xss ! (i * t + j) = xss ! i ! j"
proof -
  have "prefix_sums 0 (map length xss) = uniform_offs (length xss) t"
    using uniform_offs_sums [of "map length xss" t] assms(1) by simp
  moreover have "uniform_offs (length xss) t ! i = i * t" using assms(2) by (simp add: uniform_offs_def del: upt_Suc)
  ultimately show ?thesis using concat_nth_offs [OF assms(2), of j] assms by simp
qed


end
