(* ===== verification/Weight_Loader.thy ===== *)
theory Weight_Loader
  imports Rwkv_Loaded
begin

text \<open>
  Preparing a checkpoint's weights (\<^verbatim>\<open>_preprocess_weights\<close>, \<^verbatim>\<open>_build_fused_emb_ln0\<close> and
  \<^verbatim>\<open>_stack_rkv_weights\<close> of \<^verbatim>\<open>rwkv7_varlen_v2x.py\<close>): the dictionary of tensors is rewritten in place,
  key by key, each weight moved to the device, transposed or kept in its layout, low-rank ones
  stored in one or both layouts, and the stacked projections added. What torch does to a tensor is a
  parameter. The theorem is that the forward pass finds what it looks for (\<open>loaded\<close>).
\<close>

section \<open>The code\<close>

record 'p tensor_ops =
  to_squeeze :: "'p \<Rightarrow> 'p"
  to_device :: "'p \<Rightarrow> 'p"
  to_flat :: "'p \<Rightarrow> 'p"

definition transposed_suffixes :: "string list" where
  "transposed_suffixes = [''key.weight'', ''value.weight'', ''receptance.weight'', ''output.weight'', ''head.weight'']"

definition should_transpose :: "weight_config \<Rightarrow> string \<Rightarrow> bool \<Rightarrow> bool" where
  "should_transpose wc key is_lowrank \<longleftrightarrow>
     \<not> is_lowrank \<and> list_ex (contains_str key) transposed_suffixes \<and> \<not> is_orig_linear_weight wc key"

definition setup_cmix_sparse_fc ::
    "'p tensor_ops \<Rightarrow> inference_config \<Rightarrow> string \<Rightarrow> 'p \<Rightarrow> 'p weights \<Rightarrow> 'p weights" where
  "setup_cmix_sparse_fc T ic key v z =
     (if contains_str key ''.ffn.key.weight'' \<and> ic_cmix_sparse ic = ''auto'' then z(key @ ''.fc'' \<mapsto> to_device T v) else z)"

definition store_lowrank_weight ::
    "('v, 'w, 'p) kernels \<Rightarrow> inference_config \<Rightarrow> string \<Rightarrow> 'p \<Rightarrow> 'p weights \<Rightarrow> 'p weights" where
  "store_lowrank_weight K ic key v z =
     (let z1 = (if ic_lowrank_weight ic \<in> {''orig'', ''both''} then z(key \<mapsto> v) else z(key := None))
      in if ic_lowrank_weight ic \<in> {''transpose'', ''both''} then z1(key @ ''.t'' \<mapsto> k_t K v) else z1)"

text \<open>One round of the loop.\<close>

definition preprocess_key ::
    "('v, 'w, 'p) kernels \<Rightarrow> 'p tensor_ops \<Rightarrow> weight_config \<Rightarrow> inference_config \<Rightarrow> 'p weights \<Rightarrow> string \<Rightarrow> 'p weights res" where
  "preprocess_key K T wc ic z key =
     (if key = ''emb.weight'' \<and> ic_emb_device ic = ''cpu'' then Inr z
      else bindE (weight z key) (\<lambda>v0.
        let v = to_squeeze T v0;
            is_lowrank = is_lowrank_weight wc key;
            z = setup_cmix_sparse_fc T ic key v z;
            v = (if should_transpose wc key is_lowrank then k_t K v else v);
            v = to_device T v;
            v = (if ends_with key ''att.r_k'' then to_flat T v else v)
        in if is_lowrank then Inr (store_lowrank_weight K ic key v z) else Inr (z(key \<mapsto> v))))"

definition preprocess_weights ::
    "('v, 'w, 'p) kernels \<Rightarrow> 'p tensor_ops \<Rightarrow> weight_config \<Rightarrow> inference_config \<Rightarrow> string list \<Rightarrow> 'p weights \<Rightarrow> 'p weights res" where
  "preprocess_weights K T wc ic keys z = foldE (preprocess_key K T wc ic) z keys"

definition stack_rkv_weights :: "('v, 'w, 'p) kernels \<Rightarrow> nat \<Rightarrow> 'p weights \<Rightarrow> 'p weights res" where
  "stack_rkv_weights K n_layers z =
     foldE (\<lambda>z l. let p = layer_prefix l @ ''att.''
              in bindE (weight z (p @ ''receptance.weight'')) (\<lambda>r. bindE (weight z (p @ ''key.weight'')) (\<lambda>k.
                 bindE (weight z (p @ ''value.weight'')) (\<lambda>v. Inr (z(p @ ''rkv.weight'' \<mapsto> k_stack K r k v))))))
       z [0..<n_layers]"

text \<open>The constructor; \<open>emb\<close> is the embedding fused with the first norm.\<close>

definition load_weights ::
    "('v, 'w, 'p) kernels \<Rightarrow> 'p tensor_ops \<Rightarrow> model_env \<Rightarrow> nat \<Rightarrow> 'p \<Rightarrow> string list \<Rightarrow> 'p weights \<Rightarrow> 'p weights res" where
  "load_weights K T me n_layers emb keys z =
     bindE (preprocess_weights K T (me_wc me) (me_ic me) keys z) (\<lambda>z.
     let z = z(''emb.weight'' \<mapsto> emb)
     in if ic_rkv_mode (me_ic me) \<noteq> ''off'' \<and> \<not> use_orig_linear (me_wc me) ''att_c2c''
        then stack_rkv_weights K n_layers z else Inr z)"

section \<open>One key\<close>

text \<open>A checkpoint's keys are not the names of the copies.\<close>

definition own_names :: "string list \<Rightarrow> bool" where
  "own_names keys \<longleftrightarrow> distinct keys \<and> (\<forall>k \<in> set keys. \<not> ends_with k ''.t'' \<and> \<not> ends_with k ''.fc'')"

definition value_of :: "('v, 'w, 'p) kernels \<Rightarrow> 'p tensor_ops \<Rightarrow> weight_config \<Rightarrow> string \<Rightarrow> 'p \<Rightarrow> 'p" where
  "value_of K T wc key v0 =
     (let v = to_device T (if should_transpose wc key (is_lowrank_weight wc key) then k_t K (to_squeeze T v0) else to_squeeze T v0)
      in if ends_with key ''att.r_k'' then to_flat T v else v)"

lemma ends_with_append [simp]: "length t \<le> length s \<Longrightarrow> ends_with (p @ s) t = ends_with s t"
  by (simp add: ends_with_def)

lemma derived_names:
  assumes "own_names keys" and "k \<in> set keys" and "k' \<in> set keys"
  shows "k \<noteq> k' @ ''.t''" "k \<noteq> k' @ ''.fc''" "k' @ ''.t'' \<noteq> k" "k' @ ''.fc'' \<noteq> k" "k @ ''.t'' \<noteq> k' @ ''.fc''" "k @ ''.fc'' \<noteq> k' @ ''.t''"
proof -
  show "k \<noteq> k' @ ''.t''" "k \<noteq> k' @ ''.fc''" "k' @ ''.t'' \<noteq> k" "k' @ ''.fc'' \<noteq> k"
    using assms by (auto simp: own_names_def ends_with_def)
  have "last (k @ ''.t'') \<noteq> last (k' @ ''.fc'')" "last (k @ ''.fc'') \<noteq> last (k' @ ''.t'')" by simp_all
  then show "k @ ''.t'' \<noteq> k' @ ''.fc''" "k @ ''.fc'' \<noteq> k' @ ''.t''" by metis+
qed

lemma names_differ [simp]:
  "k @ ''.t'' \<noteq> k @ ''.fc''" "k @ ''.fc'' \<noteq> k @ ''.t''" "k \<noteq> k @ ''.t''" "k @ ''.t'' \<noteq> k" "k \<noteq> k @ ''.fc''" "k @ ''.fc'' \<noteq> k"
  by simp_all

lemma store_lookup:
  "store_lowrank_weight K ic k v z k = (if ic_lowrank_weight ic \<in> {''orig'', ''both''} then Some v else None)"
  "store_lowrank_weight K ic k v z (k @ ''.t'') =
     (if ic_lowrank_weight ic \<in> {''transpose'', ''both''} then Some (k_t K v) else z (k @ ''.t''))"
  "x \<noteq> k \<Longrightarrow> x \<noteq> k @ ''.t'' \<Longrightarrow> store_lowrank_weight K ic k v z x = z x"
  unfolding store_lowrank_weight_def Let_def
  by (cases "ic_lowrank_weight ic \<in> {''orig'', ''both''}"; cases "ic_lowrank_weight ic \<in> {''transpose'', ''both''}";
      simp only: fun_upd_apply names_differ if_False if_True refl)+

lemma fc_lookup:
  "setup_cmix_sparse_fc T ic k v z (k @ ''.fc'') =
     (if contains_str k ''.ffn.key.weight'' \<and> ic_cmix_sparse ic = ''auto'' then Some (to_device T v) else z (k @ ''.fc''))"
  "x \<noteq> k @ ''.fc'' \<Longrightarrow> setup_cmix_sparse_fc T ic k v z x = z x"
  by (simp_all add: setup_cmix_sparse_fc_def)

definition after_key ::
    "('v, 'w, 'p) kernels \<Rightarrow> 'p tensor_ops \<Rightarrow> weight_config \<Rightarrow> inference_config \<Rightarrow> string \<Rightarrow> 'p \<Rightarrow> 'p weights \<Rightarrow> 'p weights" where
  "after_key K T wc ic key v0 z =
     (let z1 = setup_cmix_sparse_fc T ic key (to_squeeze T v0) z
      in if is_lowrank_weight wc key then store_lowrank_weight K ic key (value_of K T wc key v0) z1
         else z1(key \<mapsto> value_of K T wc key v0))"

lemma preprocess_key_eq:
  assumes "z key = Some v0" and "\<not> (key = ''emb.weight'' \<and> ic_emb_device ic = ''cpu'')"
  shows "preprocess_key K T wc ic z key = Inr (after_key K T wc ic key v0 z)"
  unfolding preprocess_key_def if_not_P [OF assms(2)] by (simp add: assms(1) Let_def value_of_def after_key_def)

lemma after_key_lookup:
  "after_key K T wc ic k v0 z k =
     (if is_lowrank_weight wc k \<and> ic_lowrank_weight ic \<notin> {''orig'', ''both''} then None else Some (value_of K T wc k v0))"
  "is_lowrank_weight wc k \<Longrightarrow> after_key K T wc ic k v0 z (k @ ''.t'') =
     (if ic_lowrank_weight ic \<in> {''transpose'', ''both''} then Some (k_t K (value_of K T wc k v0)) else z (k @ ''.t''))"
  "contains_str k ''.ffn.key.weight'' \<Longrightarrow> ic_cmix_sparse ic = ''auto'' \<Longrightarrow>
     after_key K T wc ic k v0 z (k @ ''.fc'') = Some (to_device T (to_squeeze T v0))"
  "x \<noteq> k \<Longrightarrow> x \<noteq> k @ ''.t'' \<Longrightarrow> x \<noteq> k @ ''.fc'' \<Longrightarrow> after_key K T wc ic k v0 z x = z x"
  unfolding after_key_def Let_def
  by (cases "is_lowrank_weight wc k"; cases "ic_lowrank_weight ic \<in> {''orig'', ''both''}";
      simp only: store_lookup fc_lookup fun_upd_apply names_differ if_False if_True refl simp_thms)+

section \<open>All keys\<close>

definition names_of :: "string \<Rightarrow> string set" where
  "names_of k = {k, k @ ''.t'', k @ ''.fc''}"

lemma own_names_sub: "own_names (p @ k # q) \<Longrightarrow> own_names p \<and> own_names q"
  by (auto simp: own_names_def)

lemma names_disjoint:
  assumes "own_names keys" and "k \<in> set keys" and "k' \<in> set keys" and "k \<noteq> k'"
  shows "names_of k \<inter> names_of k' = {}"
  using derived_names [OF assms(1,2,3)] derived_names [OF assms(1,3,2)] assms(4)
  by (auto simp: names_of_def simp del: append_eq_append_conv)

lemma preprocess_frame:
  assumes "own_names keys" and "\<forall>k \<in> set keys. z k \<noteq> None"
  shows "\<exists>z'. preprocess_weights K T wc ic keys z = Inr z' \<and> (\<forall>x. (\<forall>k \<in> set keys. x \<notin> names_of k) \<longrightarrow> z' x = z x)"
  using assms
proof (induction keys arbitrary: z)
  case (Cons k keys)
  have own: "own_names keys" using Cons.prems(1) by (simp add: own_names_def)
  have "\<exists>z1. preprocess_key K T wc ic z k = Inr z1 \<and> (\<forall>x. x \<notin> names_of k \<longrightarrow> z1 x = z x)"
  proof (cases "k = ''emb.weight'' \<and> ic_emb_device ic = ''cpu''")
    case True
    then show ?thesis by (simp add: preprocess_key_def)
  next
    case False
    obtain v0 where v0: "z k = Some v0" using Cons.prems(2) by auto
    have "after_key K T wc ic k v0 z x = z x" if "x \<notin> names_of k" for x
      using that by (intro after_key_lookup(4)) (simp_all add: names_of_def)
    then show ?thesis using preprocess_key_eq [of z k v0 ic K T wc, OF v0 False] by blast
  qed
  then obtain z1 where z1: "preprocess_key K T wc ic z k = Inr z1" "\<And>x. x \<notin> names_of k \<Longrightarrow> z1 x = z x" by blast
  have "z1 k' \<noteq> None" if "k' \<in> set keys" for k'
  proof -
    have "k' \<noteq> k" using Cons.prems(1) that by (auto simp: own_names_def)
    then have "names_of k' \<inter> names_of k = {}" using names_disjoint [OF Cons.prems(1), of k' k] that by simp
    then have "k' \<notin> names_of k" by (auto simp: names_of_def)
    then show ?thesis using z1(2) Cons.prems(2) that by simp
  qed
  then obtain z' where "preprocess_weights K T wc ic keys z1 = Inr z'" "\<forall>x. (\<forall>k \<in> set keys. x \<notin> names_of k) \<longrightarrow> z' x = z1 x"
    using Cons.IH [OF own, of z1] by blast
  then show ?case using z1 by (auto simp: preprocess_weights_def)
qed (simp add: preprocess_weights_def)

lemma preprocess_at:
  assumes "own_names keys" and "\<forall>k \<in> set keys. z k \<noteq> None" and "k \<in> set keys" and "k \<noteq> ''emb.weight''" and "z k = Some v0"
    and "preprocess_weights K T wc ic keys z = Inr z'"
  shows "\<exists>z1. z1 (k @ ''.t'') = z (k @ ''.t'') \<and> (\<forall>x \<in> names_of k. z' x = after_key K T wc ic k v0 z1 x)"
proof -
  obtain p q where s: "keys = p @ k # q" using assms(3) by (meson split_list)
  have own: "own_names p" "own_names q" using own_names_sub assms(1) s by blast+
  have apart: "x \<notin> names_of k'" if "k' \<in> set p \<union> set q" "x \<in> names_of k" for k' x
  proof -
    have "k \<noteq> k'" using assms(1) that(1) by (auto simp: own_names_def s)
    then show ?thesis using names_disjoint [OF assms(1,3), of k'] that by (auto simp: s)
  qed
  have p_some: "\<forall>k \<in> set p. z k \<noteq> None" using assms(2) s by simp
  obtain z1 where z1: "preprocess_weights K T wc ic p z = Inr z1" "\<And>x. (\<forall>k \<in> set p. x \<notin> names_of k) \<Longrightarrow> z1 x = z x"
    using preprocess_frame [OF own(1) p_some] by blast
  have same: "z1 x = z x" if "x \<in> names_of k" for x using z1(2) apart that by blast
  then have k: "z1 k = Some v0" using assms(5) by (simp add: names_of_def)
  note step = preprocess_key_eq [of z1 k v0 ic K T wc]
  let ?z2 = "after_key K T wc ic k v0 z1"
  have "?z2 k' \<noteq> None" if "k' \<in> set q" for k'
  proof -
    have "k' \<noteq> k" using assms(1) that by (auto simp: own_names_def s)
    then have "k' \<notin> names_of k" using names_disjoint [OF assms(1), of k' k] that s by (auto simp: names_of_def)
    then have "?z2 k' = z1 k'" by (intro after_key_lookup(4)) (simp_all add: names_of_def)
    moreover have "k' \<notin> names_of k''" if "k'' \<in> set p" for k''
    proof -
      have "k' \<noteq> k''" using assms(1) that \<open>k' \<in> set q\<close> by (auto simp: own_names_def s)
      then show ?thesis using names_disjoint [OF assms(1), of k' k''] that \<open>k' \<in> set q\<close> s by (auto simp: names_of_def)
    qed
    ultimately show ?thesis using z1(2) [of k'] assms(2) that s by auto
  qed
  then obtain z3 where z3: "preprocess_weights K T wc ic q ?z2 = Inr z3" "\<And>x. (\<forall>k \<in> set q. x \<notin> names_of k) \<Longrightarrow> z3 x = ?z2 x"
    using preprocess_frame [OF own(2), of ?z2 K T wc ic] by blast
  have "z' = z3"
    using assms(4,6) z1(1) z3(1) step k by (simp add: s preprocess_weights_def foldE_append)
  moreover have "z3 x = ?z2 x" if "x \<in> names_of k" for x using z3(2) apart that by blast
  moreover have "z1 (k @ ''.t'') = z (k @ ''.t'')" using same by (simp add: names_of_def)
  ultimately show ?thesis by blast
qed

section \<open>Which keys are treated how\<close>

lemma contains_mid: "contains_str (a @ sub @ b) sub"
  by (auto simp: contains_str_def list_ex_iff intro!: bexI [of _ "length a"])

lemma contains_count: "contains_str s sub \<Longrightarrow> count_list sub c \<le> count_list s c"
proof -
  assume "contains_str s sub"
  then obtain i where "take (length sub) (drop i s) = sub" by (auto simp: contains_str_def list_ex_iff)
  then have "s = take i s @ sub @ drop (length sub) (drop i s)" by (metis append_take_drop_id)
  then have "count_list s c = count_list (take i s @ sub @ drop (length sub) (drop i s)) c" by simp
  then show ?thesis by simp
qed

lemma decimal_chars: "set (decimal n) \<subseteq> set ''0123456789''"
proof (induction n rule: decimal.induct)
  case (1 n)
  have digit: "''0123456789'' ! k \<in> set ''0123456789''" if "k < 10" for k
    by (rule nth_mem) (use that in simp)
  show ?case
  proof (cases "n < 10")
    case True
    then show ?thesis using digit [of n] by (subst decimal.simps) simp
  next
    case False
    then show ?thesis using 1 digit [of "n mod 10"] by (subst decimal.simps) simp
  qed
qed

text \<open>A name in a layer lacks a substring when some character is too rare in it.\<close>

definition misses :: "string \<Rightarrow> string \<Rightarrow> bool" where
  "misses t s \<longleftrightarrow> list_ex (\<lambda>c. c \<notin> set ''0123456789'' \<and> count_list (''blocks..'' @ s) c < count_list t c) t"

lemma misses_layer:
  assumes "misses t s"
  shows "\<not> contains_str (layer_prefix l @ s) t"
proof
  assume sub: "contains_str (layer_prefix l @ s) t"
  obtain c where c: "c \<notin> set ''0123456789''" "count_list (''blocks..'' @ s) c < count_list t c"
    using assms by (auto simp: misses_def list_ex_iff)
  have "count_list (decimal l) c = 0" using decimal_chars [of l] c(1) by (intro count_notin) blast
  then have "count_list (layer_prefix l @ s) c = count_list (''blocks..'' @ s) c" by (simp add: layer_prefix_def)
  then show False using contains_count [OF sub, of c] c(2) by simp
qed

definition plain_suffixes :: "string list" where
  "plain_suffixes = [''ln1.weight'', ''ln1.bias'', ''ln2.weight'', ''ln2.bias'', ''ffn.x_k'', ''att.x_r'', ''att.x_w'', ''att.x_k'',
     ''att.x_v'', ''att.x_a'', ''att.x_g'', ''att.k_k'', ''att.a0'', ''att.k_a'', ''att.w0'', ''att.r_k'',
     ''att.ln_x.weight'', ''att.ln_x.bias'', ''att.v0'']"

definition rank_suffixes :: "string list" where
  "rank_suffixes = [''att.w1'', ''att.w2'', ''att.a1'', ''att.a2'', ''att.g1'', ''att.g2'', ''att.v1'', ''att.v2'']"

definition proj_suffixes :: "string list" where
  "proj_suffixes = [''att.receptance.weight'', ''att.key.weight'', ''att.value.weight'', ''att.output.weight'']"

lemma suffix_facts:
  "list_all (\<lambda>s. list_all (\<lambda>t. misses t s) transposed_suffixes) plain_suffixes"
  "list_all (\<lambda>s. 6 \<le> length s) (plain_suffixes @ rank_suffixes @ proj_suffixes)"
  "list_all (\<lambda>s. \<not> list_ex (ends_with s) LOWRANK_WEIGHT_SUFFIXES) (plain_suffixes @ proj_suffixes @ [''ffn.key.weight'', ''ffn.value.weight''])"
  "list_all (\<lambda>s. list_ex (ends_with s) LOWRANK_WEIGHT_SUFFIXES) rank_suffixes"
  "list_all (misses ''.ffn.key.weight'') (plain_suffixes @ rank_suffixes @ proj_suffixes @ [''ffn.value.weight''])"
  "list_all (misses ''.att.'') [''ffn.key.weight'', ''ffn.value.weight'']"
  "list_all (\<lambda>s. list_ex (ends_with s) ATT_C2C_WEIGHT_SUFFIXES) proj_suffixes"
  "list_all (misses ''rkv.weight'') (plain_suffixes @ rank_suffixes @ map (\<lambda>s. s @ ''.t'') rank_suffixes @ proj_suffixes @
     [''ffn.key.weight'', ''ffn.value.weight'', ''ffn.key.weight.fc''])"
  "list_all (\<lambda>s. take 4 s = ''att.'' \<and> drop 4 s \<in> set transposed_suffixes \<and> drop 4 s \<in> set ATT_C2C_WEIGHT_SUFFIXES) proj_suffixes"
  by code_simp+

definition usual_suffixes :: "weight_config \<Rightarrow> bool" where
  "usual_suffixes wc \<longleftrightarrow> wt_lowrank_suffixes wc = LOWRANK_WEIGHT_SUFFIXES \<and> wt_c2c_suffixes wc = ATT_C2C_WEIGHT_SUFFIXES"

lemma lowrank_layer:
  assumes "usual_suffixes wc" and "6 \<le> length s"
  shows "is_lowrank_weight wc (layer_prefix l @ s) = list_ex (ends_with s) LOWRANK_WEIGHT_SUFFIXES"
  using assms by (simp add: is_lowrank_weight_def usual_suffixes_def LOWRANK_WEIGHT_SUFFIXES_def)

lemma not_head: "layer_prefix l @ s \<noteq> ''head.weight''"
  by (simp add: layer_prefix_def)

lemma list_ex_simps': "list_ex P [] \<longleftrightarrow> False" "list_ex P (x # xs) \<longleftrightarrow> P x \<or> list_ex P xs"
  by simp_all

lemma plain_class:
  assumes "usual_suffixes wc" and "s \<in> set plain_suffixes"
  shows "\<not> is_lowrank_weight wc (layer_prefix l @ s)" and "\<not> should_transpose wc (layer_prefix l @ s) b"
proof -
  note f = suffix_facts [unfolded list_all_iff]
  show "\<not> is_lowrank_weight wc (layer_prefix l @ s)" using lowrank_layer [OF assms(1)] f(2,3) assms(2) by auto
  have "\<not> list_ex (contains_str (layer_prefix l @ s)) transposed_suffixes"
    using f(1) assms(2) misses_layer unfolding list_ex_iff by blast
  then show "\<not> should_transpose wc (layer_prefix l @ s) b" by (simp add: should_transpose_def)
qed

lemma rank_class: "usual_suffixes wc \<Longrightarrow> s \<in> set rank_suffixes \<Longrightarrow> is_lowrank_weight wc (layer_prefix l @ s)"
  using lowrank_layer suffix_facts(2,4) [unfolded list_all_iff] by auto

lemma layer_contains:
  "contains_str (layer_prefix l @ ''att.'' @ t) t" "contains_str (layer_prefix l @ ''att.'' @ t) ''.att.''"
  "contains_str (layer_prefix l @ ''ffn.key.weight'') ''.ffn.key.weight''" "contains_str (layer_prefix l @ ''ffn.key.weight'') ''key.weight''"
  "contains_str (layer_prefix l @ ''ffn.value.weight'') ''value.weight''"
  using contains_mid [of "layer_prefix l @ ''att.''" t "[]"] contains_mid [of "''blocks.'' @ decimal l" "''.att.''" t]
    contains_mid [of "''blocks.'' @ decimal l" "''.ffn.key.weight''" "[]"]
    contains_mid [of "layer_prefix l @ ''ffn.''" "''key.weight''" "[]"] contains_mid [of "layer_prefix l @ ''ffn.''" "''value.weight''" "[]"]
  by (simp_all add: layer_prefix_def)

lemma proj_class:
  assumes "usual_suffixes wc" and "s \<in> set proj_suffixes"
  shows "\<not> is_lowrank_weight wc (layer_prefix l @ s)"
    and "should_transpose wc (layer_prefix l @ s) False \<longleftrightarrow> \<not> use_orig_linear wc ''att_c2c''"
proof -
  note f = suffix_facts [unfolded list_all_iff]
  have len: "6 \<le> length s" using f(2) assms(2) by simp
  show "\<not> is_lowrank_weight wc (layer_prefix l @ s)" using lowrank_layer [OF assms(1) len] f(3) assms(2) by auto
  obtain t where t: "s = ''att.'' @ t" "t \<in> set transposed_suffixes" "t \<in> set ATT_C2C_WEIGHT_SUFFIXES"
    using f(9) assms(2) append_take_drop_id [of 4 s] by metis
  have "ends_with (layer_prefix l @ s) t" by (simp add: ends_with_def t(1))
  then have "list_ex (ends_with (layer_prefix l @ s)) ATT_C2C_WEIGHT_SUFFIXES" using t(3) unfolding list_ex_iff by blast
  then have c2c: "is_att_c2c_weight wc (layer_prefix l @ s)"
    using layer_contains(2) [of l t] assms(1) t(1) unfolding is_att_c2c_weight_def usual_suffixes_def by simp
  have "misses ''.ffn.key.weight'' s" using f(5) assms(2) by simp
  then have "\<not> contains_str (layer_prefix l @ s) ''.ffn.key.weight''" by (rule misses_layer)
  then show "should_transpose wc (layer_prefix l @ s) False \<longleftrightarrow> \<not> use_orig_linear wc ''att_c2c''"
    using layer_contains(1) [of l t] t c2c not_head [of l s]
    by (auto simp: should_transpose_def is_orig_linear_weight_def list_ex_iff)
qed

lemma ffn_class:
  assumes "usual_suffixes wc"
  shows "\<not> is_lowrank_weight wc (layer_prefix l @ ''ffn.key.weight'')" "\<not> is_lowrank_weight wc (layer_prefix l @ ''ffn.value.weight'')"
    "should_transpose wc (layer_prefix l @ ''ffn.key.weight'') False \<longleftrightarrow> \<not> use_orig_linear wc ''ffn_key''"
    "should_transpose wc (layer_prefix l @ ''ffn.value.weight'') False"
proof -
  note f = suffix_facts [unfolded list_all_iff]
  show "\<not> is_lowrank_weight wc (layer_prefix l @ ''ffn.key.weight'')" "\<not> is_lowrank_weight wc (layer_prefix l @ ''ffn.value.weight'')"
    using f(3) by (simp_all add: lowrank_layer [OF assms])
  have no_att: "\<not> contains_str (layer_prefix l @ ''ffn.key.weight'') ''.att.''" "\<not> contains_str (layer_prefix l @ ''ffn.value.weight'') ''.att.''"
    using f(6) by (simp_all add: misses_layer)
  have no_key: "\<not> contains_str (layer_prefix l @ ''ffn.value.weight'') ''.ffn.key.weight''"
    using f(5) by (simp add: misses_layer)
  show "should_transpose wc (layer_prefix l @ ''ffn.key.weight'') False \<longleftrightarrow> \<not> use_orig_linear wc ''ffn_key''"
    "should_transpose wc (layer_prefix l @ ''ffn.value.weight'') False"
    using no_att no_key layer_contains(3-5) [of l] not_head [of l "''ffn.key.weight''"] not_head [of l "''ffn.value.weight''"]
    unfolding should_transpose_def is_orig_linear_weight_def is_att_c2c_weight_def transposed_suffixes_def
    by (simp_all only: list_ex_simps' simp_thms)
qed

lemma top_class:
  assumes "usual_suffixes wc"
  shows "\<not> is_lowrank_weight wc ''head.weight''" "\<not> is_lowrank_weight wc ''ln_out.weight''" "\<not> is_lowrank_weight wc ''ln_out.bias''"
    "should_transpose wc ''head.weight'' False \<longleftrightarrow> \<not> use_orig_linear wc ''head''"
    "\<not> should_transpose wc ''ln_out.weight'' b" "\<not> should_transpose wc ''ln_out.bias'' b"
proof -
  have "list_all (\<lambda>k. \<not> list_ex (ends_with k) LOWRANK_WEIGHT_SUFFIXES) [''head.weight'', ''ln_out.weight'', ''ln_out.bias'']"
    "\<not> list_ex (contains_str ''ln_out.weight'') transposed_suffixes" "\<not> list_ex (contains_str ''ln_out.bias'') transposed_suffixes"
    "list_ex (contains_str ''head.weight'') transposed_suffixes" "\<not> contains_str ''head.weight'' ''.att.''"
    "\<not> contains_str ''head.weight'' ''.ffn.key.weight''"
    by code_simp+
  then show "\<not> is_lowrank_weight wc ''head.weight''" "\<not> is_lowrank_weight wc ''ln_out.weight''" "\<not> is_lowrank_weight wc ''ln_out.bias''"
    "should_transpose wc ''head.weight'' False \<longleftrightarrow> \<not> use_orig_linear wc ''head''"
    "\<not> should_transpose wc ''ln_out.weight'' b" "\<not> should_transpose wc ''ln_out.bias'' b"
    using assms by (simp_all add: should_transpose_def is_orig_linear_weight_def is_att_c2c_weight_def is_lowrank_weight_def usual_suffixes_def)
qed

section \<open>The stacked projections\<close>

lemma stack_rkv:
  assumes "\<And>l. l < n_layers \<Longrightarrow> z (layer_prefix l @ ''att.receptance.weight'') = Some (F (layer_prefix l @ ''att.receptance.weight'')) \<and>
      z (layer_prefix l @ ''att.key.weight'') = Some (F (layer_prefix l @ ''att.key.weight'')) \<and>
      z (layer_prefix l @ ''att.value.weight'') = Some (F (layer_prefix l @ ''att.value.weight''))"
  shows "\<exists>z'. stack_rkv_weights K n_layers z = Inr z' \<and> (\<forall>x. \<not> contains_str x ''rkv.weight'' \<longrightarrow> z' x = z x) \<and>
    (\<forall>l < n_layers. z' (layer_prefix l @ ''att.rkv.weight'') =
       Some (k_stack K (F (layer_prefix l @ ''att.receptance.weight'')) (F (layer_prefix l @ ''att.key.weight''))
              (F (layer_prefix l @ ''att.value.weight''))))"
  using assms
proof (induction n_layers)
  case 0
  then show ?case by (simp add: stack_rkv_weights_def)
next
  case (Suc n)
  let ?S = "\<lambda>a. k_stack K (F (a @ ''att.receptance.weight'')) (F (a @ ''att.key.weight'')) (F (a @ ''att.value.weight''))"
  obtain z1 where z1: "stack_rkv_weights K n z = Inr z1" "\<And>x. \<not> contains_str x ''rkv.weight'' \<Longrightarrow> z1 x = z x"
    "\<And>l. l < n \<Longrightarrow> z1 (layer_prefix l @ ''att.rkv.weight'') = Some (?S (layer_prefix l))"
    using Suc by (metis (no_types, lifting) less_SucI)
  have no: "\<not> contains_str (layer_prefix n @ s) ''rkv.weight''" if "s \<in> set proj_suffixes" for s
    using suffix_facts(8) that by (intro misses_layer) (simp add: list_all_iff)
  have vals: "z1 (layer_prefix n @ ''att.receptance.weight'') = Some (F (layer_prefix n @ ''att.receptance.weight''))"
    "z1 (layer_prefix n @ ''att.key.weight'') = Some (F (layer_prefix n @ ''att.key.weight''))"
    "z1 (layer_prefix n @ ''att.value.weight'') = Some (F (layer_prefix n @ ''att.value.weight''))"
    using Suc.prems [of n] no by (simp_all add: z1(2) proj_suffixes_def)
  let ?z2 = "z1(layer_prefix n @ ''att.rkv.weight'' \<mapsto> ?S (layer_prefix n))"
  have "stack_rkv_weights K (Suc n) z = Inr ?z2"
    using z1(1) by (simp add: stack_rkv_weights_def foldE_append Let_def vals)
  moreover have "?z2 x = z x" if "\<not> contains_str x ''rkv.weight''" for x
  proof -
    have "contains_str (layer_prefix n @ ''att.rkv.weight'') ''rkv.weight''"
      using contains_mid [of "layer_prefix n @ ''att.''" "''rkv.weight''" "[]"] by simp
    then have "x \<noteq> layer_prefix n @ ''att.rkv.weight''" using that by blast
    then show ?thesis using z1(2) that by simp
  qed
  moreover have "?z2 (layer_prefix l @ ''att.rkv.weight'') = Some (?S (layer_prefix l))" if "l < Suc n" for l
    using that z1(3) [of l] by (cases "layer_prefix l = layer_prefix n") (auto simp: less_Suc_eq)
  ultimately show ?case by blast
qed

section \<open>What the forward pass finds\<close>

definition prepared :: "'p tensor_ops \<Rightarrow> 'p weights \<Rightarrow> string \<Rightarrow> 'p" where
  "prepared T z k =
     (let v = to_device T (to_squeeze T (the (z k))) in if ends_with k ''att.r_k'' then to_flat T v else v)"

text \<open>The keys the forward pass needs are there.\<close>

definition complete_checkpoint :: "nat \<Rightarrow> string list \<Rightarrow> bool" where
  "complete_checkpoint n_layers keys \<longleftrightarrow>
     (\<forall>l < n_layers. set (plain_keys l) \<union> set (att_proj_keys l) \<union> set (lowrank_keys l) \<union>
        {layer_prefix l @ ''ffn.key.weight'', layer_prefix l @ ''ffn.value.weight''} \<subseteq> set keys) \<and>
     {''ln_out.weight'', ''ln_out.bias'', ''head.weight''} \<subseteq> set keys"

lemma value_prepared:
  assumes "z k = Some v0" and "\<And>p. to_device T (k_t K p) = k_t K (to_device T p)"
    and "should_transpose wc k (is_lowrank_weight wc k) \<Longrightarrow> \<not> ends_with k ''att.r_k''"
  shows "value_of K T wc k v0 = (if should_transpose wc k (is_lowrank_weight wc k) then k_t K (prepared T z k) else prepared T z k)"
  using assms by (simp add: value_of_def prepared_def Let_def)

lemma layer_keys:
  "k \<in> set (plain_keys l) \<Longrightarrow> \<exists>s \<in> set plain_suffixes. k = layer_prefix l @ s"
  "k \<in> set (att_proj_keys l) \<Longrightarrow> \<exists>s \<in> set proj_suffixes. k = layer_prefix l @ s"
  "k \<in> set (lowrank_keys l) \<Longrightarrow> \<exists>s \<in> set rank_suffixes. k = layer_prefix l @ s"
  unfolding plain_keys_def att_proj_keys_def lowrank_keys_def plain_suffixes_def proj_suffixes_def rank_suffixes_def
  by (cases "l = 0"; fastforce)+

lemma not_emb: "layer_prefix l @ s \<noteq> ''emb.weight''"
  by (simp add: layer_prefix_def)

text \<open>A checkpoint as read from its file: the keys in order, a tensor for each and nothing else.\<close>

definition checkpoint :: "string list \<Rightarrow> 'p weights \<Rightarrow> bool" where
  "checkpoint keys z \<longleftrightarrow> own_names keys \<and> dom z = set keys"

lemma preprocessed:
  assumes "checkpoint keys z" and "k \<in> set keys" and "k \<noteq> ''emb.weight''"
    and "\<And>p. to_device T (k_t K p) = k_t K (to_device T p)" and "preprocess_weights K T wc ic keys z = Inr z'"
  shows "\<not> is_lowrank_weight wc k \<Longrightarrow> (should_transpose wc k False \<Longrightarrow> \<not> ends_with k ''att.r_k'') \<Longrightarrow>
      z' k = Some (if should_transpose wc k False then k_t K (prepared T z k) else prepared T z k)"
    and "is_lowrank_weight wc k \<Longrightarrow> ic_lowrank_weight ic \<in> lowrank_modes \<Longrightarrow>
      z' k = lowrank_plain (ic_lowrank_weight ic) (prepared T z k) \<and> z' (k @ ''.t'') = lowrank_t K (ic_lowrank_weight ic) (prepared T z k)"
    and "contains_str k ''.ffn.key.weight'' \<Longrightarrow> ic_cmix_sparse ic = ''auto'' \<Longrightarrow> \<not> ends_with k ''att.r_k'' \<Longrightarrow>
      z' (k @ ''.fc'') = Some (prepared T z k)"
proof -
  have own: "own_names keys" and dom: "dom z = set keys" using assms(1) by (simp_all add: checkpoint_def)
  have some: "\<forall>k \<in> set keys. z k \<noteq> None" using dom by (metis domIff)
  obtain v0 where v0: "z k = Some v0" using some assms(2) by blast
  obtain z1 where z1: "z1 (k @ ''.t'') = z (k @ ''.t'')" "\<forall>x \<in> names_of k. z' x = after_key K T wc ic k v0 z1 x"
    using preprocess_at [OF own some assms(2,3) v0 assms(5)] by blast
  have lk: "z' k = after_key K T wc ic k v0 z1 k" "z' (k @ ''.t'') = after_key K T wc ic k v0 z1 (k @ ''.t'')"
    "z' (k @ ''.fc'') = after_key K T wc ic k v0 z1 (k @ ''.fc'')" using z1(2) by (simp_all add: names_of_def)
  have "k @ ''.t'' \<notin> set keys" using own by (auto simp: own_names_def ends_with_def)
  then have none: "z1 (k @ ''.t'') = None" using z1(1) dom by (metis domIff)
  have val: "value_of K T wc k v0 = (if should_transpose wc k (is_lowrank_weight wc k) then k_t K (prepared T z k) else prepared T z k)"
    if "should_transpose wc k (is_lowrank_weight wc k) \<Longrightarrow> \<not> ends_with k ''att.r_k''"
    by (rule value_prepared [of z k v0 T K wc, OF v0 assms(4)]) (rule that)
  have low: "\<not> should_transpose wc k True" by (simp add: should_transpose_def)
  show "\<not> is_lowrank_weight wc k \<Longrightarrow> (should_transpose wc k False \<Longrightarrow> \<not> ends_with k ''att.r_k'') \<Longrightarrow>
      z' k = Some (if should_transpose wc k False then k_t K (prepared T z k) else prepared T z k)"
    using val by (simp add: lk after_key_lookup)
  show "is_lowrank_weight wc k \<Longrightarrow> ic_lowrank_weight ic \<in> lowrank_modes \<Longrightarrow>
      z' k = lowrank_plain (ic_lowrank_weight ic) (prepared T z k) \<and> z' (k @ ''.t'') = lowrank_t K (ic_lowrank_weight ic) (prepared T z k)"
    using val low none by (auto simp: lk after_key_lookup lowrank_plain_def lowrank_t_def)
  show "contains_str k ''.ffn.key.weight'' \<Longrightarrow> ic_cmix_sparse ic = ''auto'' \<Longrightarrow> \<not> ends_with k ''att.r_k'' \<Longrightarrow>
      z' (k @ ''.fc'') = Some (prepared T z k)"
    by (simp add: lk after_key_lookup v0 prepared_def)
qed

lemma not_r_k:
  "s \<in> set proj_suffixes \<Longrightarrow> \<not> ends_with (layer_prefix l @ s) ''att.r_k''"
  "\<not> ends_with (layer_prefix l @ ''ffn.key.weight'') ''att.r_k''" "\<not> ends_with (layer_prefix l @ ''ffn.value.weight'') ''att.r_k''"
  "\<not> ends_with ''head.weight'' ''att.r_k''"
proof -
  have "list_all (\<lambda>s. 7 \<le> length s \<and> \<not> ends_with s ''att.r_k'') (proj_suffixes @ [''ffn.key.weight'', ''ffn.value.weight'', ''head.weight''])"
    by code_simp
  then show "s \<in> set proj_suffixes \<Longrightarrow> \<not> ends_with (layer_prefix l @ s) ''att.r_k''"
    "\<not> ends_with (layer_prefix l @ ''ffn.key.weight'') ''att.r_k''" "\<not> ends_with (layer_prefix l @ ''ffn.value.weight'') ''att.r_k''"
    "\<not> ends_with ''head.weight'' ''att.r_k''"
    by (auto simp: list_all_iff ends_with_append [of "''att.r_k''"])
qed

text \<open>The names of a layer that stacking and the embedding leave alone.\<close>

lemma layer_name_kept:
  assumes "s \<in> set (plain_suffixes @ rank_suffixes @ map (\<lambda>s. s @ ''.t'') rank_suffixes @ proj_suffixes @
      [''ffn.key.weight'', ''ffn.value.weight'', ''ffn.key.weight.fc''])"
  shows "layer_prefix l @ s \<noteq> ''emb.weight'' \<and> \<not> contains_str (layer_prefix l @ s) ''rkv.weight''"
  using misses_layer [OF bspec [OF suffix_facts(8) [unfolded list_all_iff] assms]] not_emb by blast

lemma layer_is_loaded:
  assumes "checkpoint keys z" and "complete_checkpoint n_layers keys" and "usual_suffixes (me_wc me)" and "config_ok (me_ic me)"
    and "\<And>p. to_device T (k_t K p) = k_t K (to_device T p)" and "preprocess_weights K T (me_wc me) (me_ic me) keys z = Inr z1"
    and "\<And>x. x \<noteq> ''emb.weight'' \<and> \<not> contains_str x ''rkv.weight'' \<Longrightarrow> z2 x = z1 x" and "l < n_layers" and "P = prepared T z"
    and "ic_rkv_mode (me_ic me) \<noteq> ''off'' \<and> \<not> use_orig_linear (me_wc me) ''att_c2c'' \<Longrightarrow>
      z2 (layer_prefix l @ ''att.rkv.weight'') =
        Some (k_stack K (k_t K (P (layer_prefix l @ ''att.receptance.weight''))) (k_t K (P (layer_prefix l @ ''att.key.weight'')))
               (k_t K (P (layer_prefix l @ ''att.value.weight''))))"
  shows "layer_loaded K me P z2 l"
proof -
  let ?wc = "me_wc me" let ?ic = "me_ic me" let ?p = "layer_prefix l"
  note pre = preprocessed [OF assms(1) _ _ assms(5,6), folded assms(9)]
  have keys: "set (plain_keys l) \<union> set (att_proj_keys l) \<union> set (lowrank_keys l) \<union> {?p @ ''ffn.key.weight'', ?p @ ''ffn.value.weight''} \<subseteq> set keys"
    using assms(2,8) by (simp only: complete_checkpoint_def)
  note kept = layer_name_kept [of _ l]
  have plain: "z2 k = Some (P k)" if kin: "k \<in> set (plain_keys l)" for k
  proof -
    obtain s where s: "s \<in> set plain_suffixes" "k = ?p @ s" using layer_keys(1) [OF kin] by blast
    have "z1 k = Some (P k)"
      using pre(1) [of k] plain_class [OF assms(3) s(1)] keys kin not_emb [of l s] s(2) by auto
    then show ?thesis using assms(7) kept [of s] s by simp
  qed
  have proj: "z2 k = Some (stored K ?wc ''att_c2c'' (P k))" if kin: "k \<in> set (att_proj_keys l)" for k
  proof -
    obtain s where s: "s \<in> set proj_suffixes" "k = ?p @ s" using layer_keys(2) [OF kin] by blast
    have "z1 k = Some (stored K ?wc ''att_c2c'' (P k))"
      using pre(1) [of k] proj_class [OF assms(3) s(1)] not_r_k(1) [OF s(1)] keys kin not_emb [of l s] s(2)
      by (auto simp: stored_def)
    then show ?thesis using assms(7) kept [of s] s by simp
  qed
  have rank: "z2 k = lowrank_plain (ic_lowrank_weight ?ic) (P k) \<and> z2 (k @ ''.t'') = lowrank_t K (ic_lowrank_weight ?ic) (P k)"
    if kin: "k \<in> set (lowrank_keys l)" for k
  proof -
    obtain s where s: "s \<in> set rank_suffixes" "k = ?p @ s" using layer_keys(3) [OF kin] by blast
    have "z1 k = lowrank_plain (ic_lowrank_weight ?ic) (P k) \<and> z1 (k @ ''.t'') = lowrank_t K (ic_lowrank_weight ?ic) (P k)"
      using pre(2) [of k] rank_class [OF assms(3) s(1)] keys kin not_emb [of l s] s(2) assms(4) by (auto simp: config_ok_def)
    then show ?thesis using assms(7) [of k] assms(7) [of "k @ ''.t''"] kept [of s] kept [of "s @ ''.t''"] s by simp
  qed
  have key: "z2 (?p @ ''ffn.key.weight'') = Some (stored K ?wc ''ffn_key'' (P (?p @ ''ffn.key.weight'')))"
    using pre(1) [of "?p @ ''ffn.key.weight''"] ffn_class [OF assms(3), of l] not_r_k(2) [of l] keys not_emb [of l "''ffn.key.weight''"]
      assms(7) kept [of "''ffn.key.weight''"] by (simp add: stored_def)
  have val: "z2 (?p @ ''ffn.value.weight'') = Some (k_t K (P (?p @ ''ffn.value.weight'')))"
    using pre(1) [of "?p @ ''ffn.value.weight''"] ffn_class [OF assms(3), of l] not_r_k(3) [of l] keys not_emb [of l "''ffn.value.weight''"]
      assms(7) kept [of "''ffn.value.weight''"] by simp
  have fc: "z2 (?p @ ''ffn.key.weight.fc'') = Some (P (?p @ ''ffn.key.weight''))" if "ic_cmix_sparse ?ic = ''auto''"
    using pre(3) [of "?p @ ''ffn.key.weight''"] that not_r_k(2) [of l] layer_contains(3) [of l] keys not_emb [of l "''ffn.key.weight''"]
      assms(7) kept [of "''ffn.key.weight.fc''"] by simp
  show ?thesis
    unfolding layer_loaded_def Let_def using plain proj rank key val fc assms(10) by blast
qed

text \<open>The sizes that the forward pass relies on, those of a checkpoint that the kernels can run.\<close>

definition sizes_ok :: "('v, 'w, 'p) kernels \<Rightarrow> model_env \<Rightarrow> nat \<Rightarrow> (string \<Rightarrow> 'p) \<Rightarrow> bool" where
  "sizes_ok K me n_layers P \<longleftrightarrow> (\<forall>l < n_layers. layer_sizes K me P l) \<and>
     even (k_size0 K (P ''head.weight'')) \<and> 4 dvd k_size1 K (P ''head.weight'')"

definition loaded_model ::
    "('v, 'w, 'p) kernels \<Rightarrow> model_env \<Rightarrow> nat \<Rightarrow> 'p weights \<Rightarrow> 'v list \<Rightarrow> ('v, 'w, 'p) rwkv" where
  "loaded_model K me n_layers z emb =
     \<lparr>rm_K = K, rm_L = n_layers, rm_me = me,
      rm_sel = path_selector_init None (Some (me_wc me)) (Some (me_ic me)), rm_z = z, rm_emb = emb\<rparr>"

text \<open>
  C25: whatever the configuration and the order of the keys, preparing a complete checkpoint raises
  nothing and leaves every weight where and in the layout in which the forward pass looks for it.
\<close>

theorem loader_gives_loaded:
  assumes "checkpoint keys z" and "complete_checkpoint n_layers keys" and "usual_suffixes (me_wc me)" and "config_ok (me_ic me)"
    and "\<And>p. to_device T (k_t K p) = k_t K (to_device T p)" and "sizes_ok K me n_layers (prepared T z)"
  shows "\<exists>z'. load_weights K T me n_layers emb keys z = Inr z' \<and>
    loaded (loaded_model K me n_layers z' rows) (prepared T z)"
proof -
  let ?P = "prepared T z" let ?wc = "me_wc me" let ?ic = "me_ic me"
  have own: "own_names keys" and some: "\<forall>k \<in> set keys. z k \<noteq> None"
    using assms(1) by (auto simp: checkpoint_def dom_def)
  obtain z1 where z1: "preprocess_weights K T ?wc ?ic keys z = Inr z1"
    using preprocess_frame [OF own some] by blast
  let ?z1 = "z1(''emb.weight'' \<mapsto> emb)"
  let ?stack = "ic_rkv_mode ?ic \<noteq> ''off'' \<and> \<not> use_orig_linear ?wc ''att_c2c''"
  have proj: "?z1 (layer_prefix l @ s) = Some (k_t K (?P (layer_prefix l @ s)))"
    if "?stack" "l < n_layers" "s \<in> set proj_suffixes" for l s
  proof -
    have "layer_prefix l @ s \<in> set keys"
      using assms(2) that(2,3) by (force simp: complete_checkpoint_def att_proj_keys_def proj_suffixes_def)
    then show ?thesis
      using preprocessed(1) [OF assms(1) _ not_emb assms(5) z1, of l s] proj_class [OF assms(3) that(3)] not_r_k(1) [OF that(3)]
        not_emb [of l s] that(1) by simp
  qed
  have stacked: "\<exists>z2. stack_rkv_weights K n_layers ?z1 = Inr z2 \<and> (\<forall>x. \<not> contains_str x ''rkv.weight'' \<longrightarrow> z2 x = ?z1 x) \<and>
      (\<forall>l < n_layers. z2 (layer_prefix l @ ''att.rkv.weight'') =
        Some (k_stack K (k_t K (?P (layer_prefix l @ ''att.receptance.weight''))) (k_t K (?P (layer_prefix l @ ''att.key.weight'')))
               (k_t K (?P (layer_prefix l @ ''att.value.weight'')))))" if "?stack"
    by (rule stack_rkv) (intro conjI proj [OF that]; simp add: proj_suffixes_def)
  obtain z2 where z2: "load_weights K T me n_layers emb keys z = Inr z2" "\<And>x. \<not> contains_str x ''rkv.weight'' \<Longrightarrow> z2 x = ?z1 x"
    "\<And>l. ?stack \<Longrightarrow> l < n_layers \<Longrightarrow> z2 (layer_prefix l @ ''att.rkv.weight'') =
        Some (k_stack K (k_t K (?P (layer_prefix l @ ''att.receptance.weight''))) (k_t K (?P (layer_prefix l @ ''att.key.weight'')))
               (k_t K (?P (layer_prefix l @ ''att.value.weight''))))"
  proof (cases "?stack")
    case True
    then show ?thesis using stacked [OF True] z1 that by (auto simp: load_weights_def Let_def)
  next
    case False
    then show ?thesis using z1 that [of ?z1] by (auto simp: load_weights_def Let_def)
  qed
  have "layer_loaded K me ?P z2 l" if "l < n_layers" for l
    by (rule layer_is_loaded [OF assms(1-5) z1 _ that refl]) (use z2 that in simp_all)
  moreover have "z2 k = Some (if should_transpose ?wc k False then k_t K (?P k) else ?P k)"
    if "k \<in> {''ln_out.weight'', ''ln_out.bias'', ''head.weight''}" for k
  proof -
    have "\<not> contains_str ''ln_out.weight'' ''rkv.weight''" "\<not> contains_str ''ln_out.bias'' ''rkv.weight''"
      "\<not> contains_str ''head.weight'' ''rkv.weight''" by code_simp+
    then have z: "z2 k = z1 k" using z2(2) [of k] that by auto
    have "k \<in> set keys" using assms(2) that by (auto simp: complete_checkpoint_def)
    then show ?thesis
      using preprocessed(1) [OF assms(1) _ _ assms(5) z1, of k] top_class [OF assms(3)] not_r_k(4) that z by auto
  qed
  ultimately show ?thesis
    using z2(1) assms(4,6) top_class(4-6) [OF assms(3)]
    by (auto simp: loaded_def loaded_model_def sizes_ok_def stored_def Let_def)
qed

end
