(* ===== verification/Rwkv_Example.thy ===== *)
theory Rwkv_Example
  imports Rwkv_Uniform_Refine Weight_Loader
begin

text \<open>
  A network over integers whose kernels agree and whose weights are loaded: the hypotheses of the
  theorems on the forward pass hold together, and its logits are computed.
\<close>

definition toy_wkv :: "int \<Rightarrow> 32 word \<Rightarrow> int wkv_in \<Rightarrow> int \<times> int" where
  "toy_wkv s e x = (case x of (r, w, k, v, a, b) \<Rightarrow> (s + w + k * v + uint e, r * s + a - b))"

definition toy_kernels :: "(int, int, int list) kernels" where
  "toy_kernels =
     \<lparr>k_size0 = \<lambda>_. 512, k_size1 = \<lambda>_. 512,
      k_mix = \<lambda>w p x. hd w * p + x,
      k_lin = \<lambda>_ w x. hd w * x,
      k_lin_act = \<lambda>act w x. hd w * (x + int act),
      k_act = \<lambda>act x. x + int act,
      k_bmm = \<lambda>p (x, y, z). (p ! 0 * x, p ! 1 * y, p ! 2 * z),
      k_wag_in = \<lambda>(a, b, c) (x, y, z). (hd a * x, hd b * y, hd c * z),
      k_wagv_in = \<lambda>(a, b, c, d) (x, y, z, q). (hd a * x, hd b * y, hd c * z, hd d * q),
      k_wag_out = \<lambda>(a, b, c) (x, y, z). (hd a * (x + 1), hd b * y, hd c * (z + 2)),
      k_wagv_out = \<lambda>(a, b, c, d, v0) ((x, y, z, q), v, vf). (hd a * (x + 1), hd b * y, hd c * (z + 2), hd v0 + v + vf * (hd d * q)),
      k_kk_a = \<lambda>(k_k, a0, k_a) (k, a). (k + hd a0 * a, - k, hd k_k * k - hd k_a * a),
      k_vres = \<lambda>v0 (v, vf, g). hd v0 + v + vf * g,
      k_add_vec = \<lambda>w x. hd w + x,
      k_wkv16 = toy_wkv,
      k_wkv16_w0 = \<lambda>w0 s e (r, w, rest). toy_wkv s e (r, hd w0 + w, rest),
      k_wkv32 = \<lambda>s. toy_wkv s 0,
      k_lnx = \<lambda>(r_k, w, b) (y, r, k, v, g). hd w * y + hd b + hd r_k * r * k - v + g,
      k_ln = \<lambda>w b x. hd w * x + hd b,
      k_add = \<lambda>x y. x + y,
      k_add_ln = \<lambda>w b x r. (x + r, hd w * (x + r) + hd b),
      k_add_ln_mix6 = \<lambda>w b (w1, w2, w3, w4, w5, w6) x r p.
        (x + r,
         (hd w1 * p + (hd w * (x + r) + hd b), hd w2 * p + (hd w * (x + r) + hd b), hd w3 * p + (hd w * (x + r) + hd b),
          hd w4 * p + (hd w * (x + r) + hd b), hd w5 * p + (hd w * (x + r) + hd b), hd w6 * p + (hd w * (x + r) + hd b)),
         hd w * (x + r) + hd b),
      k_add_last_ln = \<lambda>w b x r. hd w * (x + r) + hd b,
      k_relu_sq = \<lambda>x. x * x,
      k_down_relu = \<lambda>_ w x. hd w * (x * x),
      k_cmix_sparse = \<lambda>(m, key, val) p x. hd val * (hd key * (hd m * p + x) * (hd key * (hd m * p + x))),
      k_t = \<lambda>p. p, k_stack = \<lambda>a b c. [hd a, hd b, hd c]\<rparr>"

definition toy_weights :: "string \<Rightarrow> int list" where
  "toy_weights k = [1]"

definition toy_env :: model_env where
  "toy_env = \<lparr>me_C = 512, me_wc = weight_config_defaults, me_ic = inference_config_defaults\<rparr>"

definition toy_model :: "(int, int, int list) rwkv" where
  "toy_model = \<lparr>rm_K = toy_kernels, rm_L = 2, rm_me = toy_env,
     rm_sel = path_selector_init None (Some (me_wc toy_env)) (Some (me_ic toy_env)),
     rm_z = (\<lambda>k. Some (toy_weights k)), rm_emb = [1, 0, -1]\<rparr>"

definition toy_states :: "(int, int) states" where
  "toy_states = (\<lambda>_. \<lparr>ss_shift = \<lambda>_ _. 0, ss_wkv = \<lambda>_. 0, ss_elapsed = 0\<rparr>)"

lemma toy_agree: "kernels_agree toy_kernels"
  by (simp add: kernels_agree_def products_agree_def toy_kernels_def lin_def low_def toy_wkv_def mix6_def)

lemma toy_loaded: "loaded toy_model toy_weights"
  by (simp add: loaded_def Let_def toy_model_def toy_env_def config_ok_def layer_loaded_def layer_sizes_def stored_def
      lowrank_plain_def lowrank_t_def lowrank_modes_def inference_config_defaults_def toy_kernels_def toy_weights_def)

lemma toy_batch: "batch_ok toy_model [[0, 2], [1]] [3, 1]" "batch_ok toy_model [[1], [2, 2, 1]] [5, 3]"
  by (simp_all add: batch_ok_def toy_model_def batched_rkv_for_def path_selector_init_def toy_env_def inference_config_defaults_def)

lemma orig_layout_product_witness:
  "linear_orig_layout toy_kernels weight_config_defaults 2560 (Act [2] [3, 4]) [5] 2 ''ffn_key'' = Inr (Act [2] [15, 20])"
proof -
  have "linear_orig_layout toy_kernels weight_config_defaults 2560 (Act [2] [3, 4]) [5] 2 ''ffn_key'' =
      Inr (amap (k_lin toy_kernels LinearF16Orig [5]) (Act [2] [3, 4]))"
    by (rule orig_layout_product [OF kernels_agreeD(1) [OF toy_agree]]) (simp_all add: toy_kernels_def)
  then show ?thesis by (simp add: toy_kernels_def)
qed



section \<open>The other networks\<close>

definition toy_uniform :: "(int, int, int list) rwkv_v1" where
  "toy_uniform = \<lparr>um_M = toy_model,
     um_add_ln_cmix = \<lambda>w b m x r p. (x + r, hd m * p + (hd w * (x + r) + hd b), hd w * (x + r) + hd b)\<rparr>"

lemma toy_uniform_ok:
  "kernels_agree (rm_K (um_M toy_uniform))" "loaded (um_M toy_uniform) toy_weights" "fused_agrees toy_uniform"
  "0 < rm_L (um_M toy_uniform)" "rect_batch toy_uniform 2 [[0, 2], [1, 1]] (rows_of 2 toy_states)"
  using toy_agree toy_loaded by (simp_all add: toy_uniform_def toy_model_def fused_agrees_def toy_kernels_def rect_batch_def)




section \<open>Batched projections\<close>

definition toy_batched :: "(int, int, int list) rwkv" where
  "toy_batched = toy_model\<lparr>rm_sel := path_selector_init None (Some (weight_config_defaults\<lparr>wt_orig_linear_groups := {}\<rparr>))
     (Some (inference_config_defaults\<lparr>ic_rkv_mode := ''on''\<rparr>))\<rparr>"

lemma batched_projections_need_ragged_witness:
  "\<exists>e. forward toy_batched [0, 1] toy_states [0, 1, 2] 1 [3, 1] = Inl e"
  by (rule batched_projections_need_ragged)
    (simp_all add: toy_batched_def toy_model_def batched_rkv_for_def path_selector_init_def use_orig_linear_def)

text \<open>A checkpoint of two layers.\<close>

definition toy_keys :: "string list" where
  "toy_keys = ''emb.weight'' # concat (map (\<lambda>l. plain_keys l @ att_proj_keys l @ lowrank_keys l @
     [layer_prefix l @ ''ffn.key.weight'', layer_prefix l @ ''ffn.value.weight'']) [0..<2]) @
     [''ln_out.weight'', ''ln_out.bias'', ''head.weight'']"

definition toy_checkpoint :: "int list weights" where
  "toy_checkpoint k = (if k \<in> set toy_keys then Some [int (length k)] else None)"

definition toy_ops :: "int list tensor_ops" where
  "toy_ops = \<lparr>to_squeeze = \<lambda>p. p, to_device = map (\<lambda>x. x mod 7), to_flat = rev\<rparr>"

lemma toy_names: "own_names toy_keys"
  by code_simp

lemma loader_gives_loaded_witness:
  "\<exists>z'. load_weights toy_kernels toy_ops toy_env 2 [0] toy_keys toy_checkpoint = Inr z' \<and>
     loaded (loaded_model toy_kernels toy_env 2 z' [1, 0, -1]) (prepared toy_ops toy_checkpoint)"
proof (rule loader_gives_loaded)
  show "checkpoint toy_keys toy_checkpoint" using toy_names by (auto simp: checkpoint_def toy_checkpoint_def dom_def)
  show "complete_checkpoint 2 toy_keys" by (auto simp: complete_checkpoint_def toy_keys_def)
  show "usual_suffixes (me_wc toy_env)" by (simp add: usual_suffixes_def toy_env_def weight_config_defaults_def)
  show "config_ok (me_ic toy_env)" by (simp add: config_ok_def toy_env_def inference_config_defaults_def lowrank_modes_def)
  show "to_device toy_ops (k_t toy_kernels p) = k_t toy_kernels (to_device toy_ops p)" for p by (simp add: toy_kernels_def)
  show "sizes_ok toy_kernels toy_env 2 (prepared toy_ops toy_checkpoint)"
    by (simp add: sizes_ok_def layer_sizes_def toy_kernels_def toy_env_def Let_def)
qed

end
