(* ===== verification/Generation.thy ===== *)
theory Generation
  imports Engine_Inv
begin

text \<open>
  Generation across steps: what the engine computes for a request over its whole life. The
  network is any that satisfies the law of the locale \<open>recurrent\<close> (the RWKV network does, theory
  \<^verbatim>\<open>Rwkv_Generation\<close>). In every engine that is reached from start-up by adding requests, asking for
  aborts and stepping, as long as condensing moves no survivor (see \<open>condense_leaves_state_behind\<close>),
  a running request's slot holds the state after the tokens counted as computed, and with greedy
  sampling its tokens so far are the greedy continuation of its prompt, whatever chunks the prompt
  was cut into and whatever else was in the batches.
\<close>

section \<open>Networks with a state\<close>

locale recurrent =
  fixes fwd :: "token list \<Rightarrow> 'st \<Rightarrow> 'st \<times> 'lg"
  assumes chunks: "xs \<noteq> [] \<Longrightarrow> ys \<noteq> [] \<Longrightarrow> fwd (xs @ ys) st = fwd ys (fst (fwd xs st))"

text \<open>The state after some tokens, and the greedy continuation of a prompt.\<close>

definition consumed :: "(token list \<Rightarrow> 'st \<Rightarrow> 'st \<times> 'lg) \<Rightarrow> 'st \<Rightarrow> token list \<Rightarrow> 'st" where
  "consumed fwd zero toks = (if toks = [] then zero else fst (fwd toks zero))"

primrec greedy_tokens ::
  "(token list \<Rightarrow> 'st \<Rightarrow> 'st \<times> 'lg) \<Rightarrow> 'st \<Rightarrow> ('lg \<Rightarrow> token) \<Rightarrow> token list \<Rightarrow> nat \<Rightarrow> token list" where
  "greedy_tokens fwd zero argmax p 0 = []"
| "greedy_tokens fwd zero argmax p (Suc k) =
     (let ts = greedy_tokens fwd zero argmax p k in ts @ [argmax (snd (fwd (p @ ts) zero))])"

context recurrent
begin

lemma fwd_consumed: "ys \<noteq> [] \<Longrightarrow> fwd ys (consumed fwd zero xs) = fwd (xs @ ys) zero"
  by (simp add: consumed_def chunks)

lemma consumed_append: "ys \<noteq> [] \<Longrightarrow> fst (fwd ys (consumed fwd zero xs)) = consumed fwd zero (xs @ ys)"
  by (simp add: fwd_consumed) (simp add: consumed_def)

text \<open>Computing the next \<open>m\<close> tokens of a history on the state after its first \<open>n\<close>.\<close>

lemma fwd_next:
  assumes "0 < m" and "n + m \<le> length h"
  shows "fwd (take m (drop n h)) (consumed fwd zero (take n h)) = fwd (take (n + m) h) zero"
    and "fst (fwd (take m (drop n h)) (consumed fwd zero (take n h))) = consumed fwd zero (take (n + m) h)"
proof -
  have "take m (drop n h) \<noteq> []" using assms by auto
  then show "fwd (take m (drop n h)) (consumed fwd zero (take n h)) = fwd (take (n + m) h) zero"
    "fst (fwd (take m (drop n h)) (consumed fwd zero (take n h))) = consumed fwd zero (take (n + m) h)"
    by (metis fwd_consumed take_add, metis consumed_append take_add)
qed

end

section \<open>What scheduling does to the running requests\<close>

definition outputs_of_req :: "sched \<Rightarrow> rid \<Rightarrow> token list" where
  "outputs_of_req s i = dict_get_default (running_output_tokens s) i []"

text \<open>Every request running afterwards ran before, or waited and starts without tokens.\<close>

definition grown :: "sched \<Rightarrow> vreq multiset \<Rightarrow> sched \<Rightarrow> rid list \<Rightarrow> bool" where
  "grown s X s' ids \<longleftrightarrow>
     pending X s' \<subseteq># pending {#} s \<and> set (running s) \<subseteq> set (running s') \<and>
     (\<forall>i \<in> request_id ` set (running s).
        dict_get (running_output_tokens s') i = dict_get (running_output_tokens s) i \<and> slot_of s' i = slot_of s i) \<and>
     (\<forall>r \<in> set (running s'). r \<in> set (running s) \<or>
        (\<exists>q \<in># pending {#} s. r = q\<lparr>status := RUNNING\<rparr> \<and>
           dict_get (running_output_tokens s') (request_id r) = Some [] \<and> request_id r \<in> set ids))"

lemma pop_pending:
  "rq_pop_request (queue_get n s) = Inr (r, q') \<Longrightarrow> pending (add_mset r X) (queue_put n q' s) = pending X s"
  using rq.elems_pop by (cases n) (auto simp: pending_def)

lemma put_proj [simp]:
  "running_output_tokens (queue_put n q s) = running_output_tokens s"
  by (cases n) simp_all

lemma set_heads_aside_grown:
  assumes "set_heads_aside pp ns s sk = Inr (moved, s', sk')" and "sched_inv (rq_elems sk) s" and "rq_wf sk"
  shows "pending (rq_elems sk') s' = pending (rq_elems sk) s \<and> running s' = running s \<and>
    running_output_tokens s' = running_output_tokens s \<and> slot_of s' = slot_of s"
  using assms
proof (induction ns arbitrary: s sk moved s' sk')
  case (Cons n ns)
  show ?case
  proof (cases "rq_bool (queue_get n s)")
    case True
    with Cons.prems obtain h where h: "rq_peek_request (queue_get n s) = Inr h" by auto
    show ?thesis
    proof (cases "head_over_limit (sc_config s) pp h")
      case over: True
      then obtain r q' m2 where pop: "rq_pop_request (queue_get n s) = Inr (r, q')"
        and rest: "set_heads_aside pp ns (queue_put n q' s) (rq_prepend_request h sk) = Inr (m2, s', sk')"
        using Cons.prems(1) h True by auto
      have "h = r" using rq.peek_pop [OF queue_wf [OF Cons.prems(2)] pop] h by simp
      then have el: "rq_elems (rq_prepend_request h sk) = add_mset r (rq_elems sk)" by (simp add: rq.elems_prepend)
      have "slot_of (queue_put n q' s) = slot_of s" by (rule ext) simp
      with Cons.IH [OF rest] pop_inv(1) [OF Cons.prems(2) pop] Cons.prems(3) el pop_pending [OF pop]
      show ?thesis by (simp add: rq.wf_prepend)
    qed (use Cons h True in auto)
  qed (use Cons in auto)
qed auto

lemma start_running_grown:
  assumes inv: "sched_inv (add_mset r X) s" and g: "grown s0 (add_mset r X) s ids"
    and run: "start_running r s = Inr s'" and sub: "set (request_id r # ids) \<subseteq> set ids'"
    and slots: "\<And>i. i \<in> request_id ` set (running s0) \<Longrightarrow> \<exists>t. slot_of s0 i = Inr t"
  shows "grown s0 X s' ids'"
proof -
  have pend: "pending (add_mset r X) s = add_mset r (pending X s)" by (simp add: pending_def)
  note fr = start_running_frame [OF run]
  have r0: "r \<in># pending {#} s0" using g pend by (auto simp: grown_def dest: mset_subset_eqD)
  have new: "request_id r \<notin> request_id ` set (running s)"
    using pending_not_running [OF inv] pend by fastforce
  have old: "set (running s0) \<subseteq> set (running s)" using g by (simp add: grown_def)
  have tok: "dict_get (running_output_tokens s') i =
      (if i = request_id r then Some [] else dict_get (running_output_tokens s) i)" for i
    by (simp add: fr(3))
  have "pending X s' \<subseteq># pending {#} s0"
    using g pend fr(4) [of X] by (auto simp: grown_def dest: mset_subset_eq_insertD intro: subset_mset.less_imp_le)
  moreover have "dict_get (running_output_tokens s') i = dict_get (running_output_tokens s0) i \<and> slot_of s' i = slot_of s0 i"
    if i: "i \<in> request_id ` set (running s0)" for i
  proof -
    have ne: "i \<noteq> request_id r" using new old i by blast
    obtain t where "slot_of s0 i = Inr t" using slots [OF i] by blast
    moreover have "slot_of s i = slot_of s0 i" "dict_get (running_output_tokens s) i = dict_get (running_output_tokens s0) i"
      using g i unfolding grown_def by blast+
    ultimately show ?thesis using start_running_slots(2) [OF inv run _ ne, of t] ne by (simp add: tok)
  qed
  moreover have "q \<in> set (running s0) \<or> (\<exists>p \<in># pending {#} s0. q = p\<lparr>status := RUNNING\<rparr> \<and>
      dict_get (running_output_tokens s') (request_id q) = Some [] \<and> request_id q \<in> set ids')"
    if "q \<in> set (running s')" for q
  proof (cases "q \<in> set (running s)")
    case True
    then have "request_id q \<noteq> request_id r" using new by (metis imageI)
    then show ?thesis using g True sub by (auto simp: grown_def tok)
  next
    case False
    then have "q = r\<lparr>status := RUNNING\<rparr>" using that fr(1) by simp
    then show ?thesis using r0 sub by (auto simp: tok)
  qed
  ultimately show ?thesis using old fr(1) unfolding grown_def by auto
qed

abbreviation round_grown :: "sched \<Rightarrow> phase2_state \<Rightarrow> bool" where
  "round_grown s p \<equiv> grown s (rq_elems (p2_step_skipped p)) (p2_sched p) (b_scheduled (p2_batch p))"

lemma grown_same:
  assumes "grown s X s1 ids" and "pending X' s2 = pending X s1" and "running s2 = running s1"
    and "running_output_tokens s2 = running_output_tokens s1" and "slot_of s2 = slot_of s1"
  shows "grown s X' s2 ids"
  using assms by (simp add: grown_def)

lemma slots_known:
  assumes "sched_inv X s" and "i \<in> request_id ` set (running s)"
  shows "\<exists>t. slot_of s i = Inr t"
  using sched_invD(8) [OF assms(1)] assms(2)
  by (auto simp: slots_inv_def slot_of_def get_slot_def split: option.split_asm option.split)

lemma phase2_round_grown:
  assumes wf: "sched_wf s" and inv: "phase2_inv p" and g: "round_grown s p" and run: "phase2_round p = Inr (Some p')"
  shows "round_grown s p'"
  using run
proof (cases rule: phase2_round_cases)
  case (aside s' sk')
  from inv have "sched_inv (rq_elems (p2_step_skipped p)) (p2_sched p)" "rq_wf (p2_step_skipped p)"
    by (simp_all add: phase2_inv_def)
  from set_heads_aside_grown [OF aside(1) this] g show ?thesis
    unfolding aside(2) by (auto intro: grown_same)
next
  case (admit n r q')
  let ?s1 = "queue_put n q' (p2_sched p)" and ?X = "rq_elems (p2_step_skipped p)"
  have i: "sched_inv ?X (p2_sched p)" using inv by (simp add: phase2_inv_def)
  have "slot_of ?s1 = slot_of (p2_sched p)" by (rule ext) simp
  then have g1: "grown s (add_mset r ?X) ?s1 (b_scheduled (p2_batch p))"
    by (intro grown_same [OF g]) (simp_all add: pop_pending [OF admit(2)])
  from admit(3) show ?thesis
  proof (cases rule: phase2_admit_cases)
    case aside
    with g1 show ?thesis by (simp add: rq.elems_prepend)
  next
    case (run s' slot)
    have "start_running r ?s1 = Inr s'" using run(2) by simp
    note * = start_running_grown [OF pop_inv(1) [OF i admit(2)] g1 this _ slots_known [OF wf]]
    have "b_scheduled (p2_batch p') = b_scheduled (p2_batch p) @ [request_id r]"
      using run(6) by (simp add: Let_def batch_schedule_def)
    then show ?thesis using * [of "b_scheduled (p2_batch p')"] run(4,5) by simp
  qed
qed

lemma phase2_loop_grown:
  assumes wf: "sched_wf s" and "phase2_loop p = Inr p'" and "phase2_inv p" and "round_grown s p"
  shows "round_grown s p'"
  using assms(2-)
proof (induction p rule: phase2_loop.induct)
  case (1 p)
  show ?case
  proof (cases "phase2_guard p")
    case True
    then obtain st where st: "phase2_round p = Inr st"
      using "1.prems"(1) by (subst (asm) phase2_loop.simps) auto
    show ?thesis
    proof (cases st)
      case None
      have "phase2_loop p = Inr p" by (subst phase2_loop.simps) (simp add: True st None)
      then show ?thesis using "1.prems" by simp
    next
      case (Some p1)
      have "phase2_loop p = phase2_loop p1" by (subst phase2_loop.simps) (simp add: True st Some)
      then have "phase2_loop p1 = Inr p'" using "1.prems"(1) by simp
      from "1.IH" [OF True st Some this] phase2_round_inv [OF "1.prems"(2), of p1]
        phase2_round_grown [OF wf "1.prems"(2,3), of p1] st Some show ?thesis by simp
    qed
  next
    case False
    then have "phase2_loop p = Inr p" by (subst phase2_loop.simps) simp
    then show ?thesis using "1.prems" by simp
  qed
qed

lemma advance_frame:
  assumes "advance_computed toks ids s = Inr s'"
  shows "pending X s' = pending X s \<and> running_output_tokens s' = running_output_tokens s"
  by (rule foldE_invariant [OF assms [unfolded advance_computed_def]]) (auto simp: set_running_def pending_def)

text \<open>
  A step of the scheduler: every request running afterwards is the advance of one that ran before,
  or of one that waited.
\<close>

lemma schedule_grown:
  assumes inv: "sched_wf s" and pos: "0 \<le> max_num_batched_tokens (sc_config s)" and run: "schedule s = Inr (out, s')"
  obtains b s1 where "batch_inv s1 b" "sched_wf s1" "grown s {#} s1 (b_scheduled b)"
    "running s' = map (advanced (b_tokens b) (set (b_scheduled b))) (running s1)"
    "running_output_tokens s' = running_output_tokens s1" "slot_of s' = slot_of s1"
    "pending {#} s' = pending {#} s1" "so_scheduled_req_ids out = b_scheduled b" "so_request_data out = b_data b"
    "so_total_num_scheduled_tokens out = sum_list (map snd (b_tokens b))" "slot_manager_of s' = slot_manager_of s1"
proof -
  from run obtain b0 policy p slots where b0: "phase1 s = Inr b0"
    and p: "phase2_loop \<lparr>p2_sched = s, p2_batch = b0, p2_step_skipped = create_request_queue policy,
                         p2_partial = count_partial_prefills s\<rparr> = Inr p"
    and adv: "advance_computed (b_tokens (p2_batch p)) (b_scheduled (p2_batch p)) (requeue_skipped p) = Inr s'"
    and out: "out = \<lparr>so_scheduled_req_ids = b_scheduled (p2_batch p),
       so_num_scheduled_tokens = b_tokens (p2_batch p),
       so_total_num_scheduled_tokens = sum_list (map snd (b_tokens (p2_batch p))),
       so_finished_req_ids = b_finished (p2_batch p), so_request_data = b_data (p2_batch p),
       so_freed_slots = [], so_slot_indices = Some slots\<rparr>"
    by (rule schedule_unfold)
  note start = phase2_start [OF inv pos b0, of policy "count_partial_prefills s"]
  have pinv: "phase2_inv p" using phase2_loop_inv [OF p start] by blast
  note rs = requeue_skipped_inv [OF pinv]
  note a = advance_computed_inv [OF rs(1) advance_step_ok [OF rs(2)] adv] and fr = advance_frame [OF adv, of "{#}"]
  have "round_grown s p"
    by (rule phase2_loop_grown [OF inv p start]) (simp add: grown_def)
  then have "grown s {#} (requeue_skipped p) (b_scheduled (p2_batch p))"
    by (rule grown_same) (simp_all add: rs(4) slot_of_def fun_eq_iff)
  moreover have "slot_of s' = slot_of (requeue_skipped p)" using a(5) by (simp add: slot_of_def fun_eq_iff)
  ultimately show thesis using that [OF rs(2,1)] a(3,5) fr by (simp add: out)
qed

section \<open>A forward pass and sampling, on either path\<close>

lemma eager_fits:
  assumes "mapE (dict_item (so_request_data out)) (so_scheduled_req_ids out) = Inr rds"
    and "execute_eager fwd zero out rn = Inr (lgs, rn')"
  shows "length (concat (map (run_tokens rn) rds)) \<le> rn_max_num_batched_tokens rn"
proof -
  let ?rn1 = "rn\<lparr>rn_state := zero_new_states zero rds (rn_state rn)\<rparr>"
  have "run_tokens ?rn1 = run_tokens rn" by (rule ext) (simp add: run_tokens_def split: option.split)
  then show ?thesis
    using assms by (auto simp: execute_eager_def prepare_input_ids_def Let_def split: if_split_asm)
qed

lemma execute_model_runs:
  assumes rds: "mapE (dict_item (so_request_data out)) (so_scheduled_req_ids out) = Inr rds"
    and ok: "\<forall>rd \<in> set rds. tokens_match rd \<and> (rd_is_decode rd \<longrightarrow> rd_input_token_ids rd = None)"
    and slots: "distinct (map rd_slot_index rds)" "rd_slot_index ` set rds \<subseteq> occupied m"
    and m: "slot_wf m" "pad_slots m = []" and ne: "so_scheduled_req_ids out \<noteq> []"
    and run: "execute_model fwd zero out (Some m) rn = Inr (lgs, sm', rn')"
  shows "lgs = Some (map (\<lambda>rd. snd (fwd (run_tokens rn rd) (start_state zero (rn_state rn) rd))) rds) \<and> sm' = Some m \<and>
    (\<forall>rd \<in> set rds. rn_state rn' (rd_slot_index rd) = fst (fwd (run_tokens rn rd) (start_state zero (rn_state rn) rd))) \<and>
    (\<forall>s \<in> occupied m. (s \<notin> rd_slot_index ` set rds \<longrightarrow> rn_state rn' s = rn_state rn s) \<and> rn_last rn' s = rn_last rn s)"
proof -
  from run ne obtain u where ld: "rn_loaded rn" and u: "is_uniform_decode out = Inr u"
    by (auto simp: execute_model_def split: if_split_asm)
  show ?thesis
  proof (cases u)
    case True
    then obtain l where x: "execute_uniform_decode fwd zero out (Some m) rn = Inr (l, sm', rn')" and l: "lgs = Some l"
      using run u ne ld by (auto simp: execute_model_def)
    have dec: "rd_is_decode rd" if "rd \<in> set rds" for rd
      using u True that by (auto simp: is_uniform_decode_def rds split: if_split_asm)
    have t: "run_tokens rn rd = [rn_last rn (rd_slot_index rd)]"
      "start_state zero (rn_state rn) rd = rn_state rn (rd_slot_index rd)" if "rd \<in> set rds" for rd
      using ok dec [OF that] that by (simp_all add: run_tokens_def start_state_def)
    let ?slots = "map rd_slot_index rds"
    let ?gp = "case rn_graphs rn of None \<Rightarrow> (None, length ?slots) | Some gm \<Rightarrow> get_graph_with_padding (length ?slots) gm"
    let ?n = "if fst ?gp \<noteq> None then snd ?gp - length ?slots else 0"
    from x obtain rn3 where
      inner: "run_decode fwd zero (fst ?gp \<noteq> None) ?n (map (rn_last rn) ?slots) ?slots (Some m)
          (rn\<lparr>rn_min_prev := Some (Min (set (map (rn_last rn) ?slots)))\<rparr>) = Inr (l, sm', rn3)"
      and cp: "maybe_checkpoint rds ?slots rn3 = Inr rn'"
      unfolding execute_uniform_decode_def rds bindE.simps Let_def
      by (auto simp del: option.case split: if_split_asm)
    have "set ?slots \<subseteq> occupied m" using slots(2) by simp
    from run_decode_spec [OF slots(1) m this inner] maybe_checkpoint_frame [OF cp] slots(2) t show ?thesis
      by (auto simp: l)
  next
    case False
    then obtain l where x: "execute_eager fwd zero out rn = Inr (l, rn')" and l: "lgs = Some l" "sm' = Some m"
      using run u ne ld by (auto simp: execute_model_def)
    from execute_eager_spec [OF rds _ slots(1) eager_fits [OF rds x], of fwd zero] ok x show ?thesis
      by (auto simp: l)
  qed
qed

text \<open>Greedy sampling: every request that decodes or completes its prompt gets the best token of its logits.\<close>

lemma sample_greedy:
  assumes ld: "so_scheduled_req_ids out \<noteq> []"
    and rds: "mapE (dict_item (so_request_data out)) (so_scheduled_req_ids out) = Inr rds"
    and ids: "distinct (map rd_request_id rds)" "distinct (map rd_slot_index rds)"
    and cold: "\<forall>rd \<in> set rds. sp_temperature (rd_sampling_params rd) < sampling_eps"
    and run: "sample_tokens argmax draw setup_rand (Some (map g rds)) out rn = Inr (mo, rn')"
  shows "rn_state rn' = rn_state rn \<and>
    (\<forall>rd \<in> set rds. dict_get_default (mro_sampled_token_ids mo) (rd_request_id rd) [] =
        (if needs_sample rd then [argmax (g rd)] else []) \<and>
      rn_last rn' (rd_slot_index rd) = (if needs_sample rd then argmax (g rd) else rn_last rn (rd_slot_index rd))) \<and>
    (\<forall>s. s \<notin> rd_slot_index ` set rds \<longrightarrow> rn_last rn' s = rn_last rn s) \<and>
    (\<forall>i. i \<notin> rd_request_id ` set rds \<longrightarrow> dict_get_default (mro_sampled_token_ids mo) i [] = [])"
proof -
  let ?sel = "filter needs_sample rds"
  have sel: "filter (\<lambda>(rd, _). needs_sample rd) (zip rds (map g rds)) = map (\<lambda>rd. (rd, g rd)) ?sel"
    by (simp add: zip_map2 zip_same_conv_map filter_map comp_def)
  let ?mo = "\<lparr>mro_sampled_token_ids = fold (\<lambda>(i, t). dict_set i [t]) (zip (map rd_request_id ?sel) (map (\<lambda>rd. argmax (g rd)) ?sel)) [],
    mro_sampled_logprobs = None\<rparr>"
  have res: "mo = ?mo \<and> (\<exists>st. rn' = rn\<lparr>rn_last := fold (\<lambda>(s, t) f. f(s := t))
      (zip (map rd_slot_index ?sel) (map (\<lambda>rd. argmax (g rd)) ?sel)) (rn_last rn), rn_sampler_states := st\<rparr>)"
  proof (cases "?sel = []")
    case True
    then have "mo = ?mo" "rn' = rn\<lparr>rn_last := rn_last rn, rn_sampler_states := rn_sampler_states rn\<rparr>"
      using run ld rds sel by (auto simp: sample_tokens_def Let_def split: if_split_asm)
    then show ?thesis using True by (auto intro: exI [of _ "rn_sampler_states rn"])
  next
    case False
    then obtain rd rest where c: "?sel = rd # rest" by (cases ?sel) auto
    have "rd \<in> set ?sel" unfolding c by simp
    then have "sp_temperature (rd_sampling_params rd) < sampling_eps" using cold by simp
    then have "\<exists>st. sampler_forward argmax draw setup_rand (map g ?sel) (map rd_sampling_params ?sel) rs =
        Inr (map (\<lambda>rd. argmax (g rd)) ?sel, st)" for rs
      by (simp add: c sampler_forward_def Let_def comp_def)
    then obtain st where "sampler_forward argmax draw setup_rand (map g ?sel) (map rd_sampling_params ?sel) (rn_sampler_states rn) =
        Inr (map (\<lambda>rd. argmax (g rd)) ?sel, st)" by blast
    then show ?thesis
      using run ld False unfolding sample_tokens_def Let_def rds bindE.simps option.case sel
      by (auto simp: comp_def case_prod_unfold split: if_split_asm)
  qed
  then obtain st where mo: "mo = ?mo" and rn': "rn' = rn\<lparr>rn_last := fold (\<lambda>(s, t) f. f(s := t))
      (zip (map rd_slot_index ?sel) (map (\<lambda>rd. argmax (g rd)) ?sel)) (rn_last rn), rn_sampler_states := st\<rparr>" by blast
  have d: "distinct (map rd_request_id ?sel)" "distinct (map rd_slot_index ?sel)"
    using ids by (auto simp: distinct_map inj_on_def)
  have look: "map_of (zip (map f ?sel) (map h ?sel)) (f rd) = (if needs_sample rd then Some (h rd) else None)"
    if "rd \<in> set rds" "distinct (map f rds)" for f :: "run_data \<Rightarrow> 'k" and h :: "run_data \<Rightarrow> 'v" and rd
  proof (cases "needs_sample rd")
    case True
    have "distinct (map f ?sel)" using that(2) by (auto simp: distinct_map inj_on_def)
    then show ?thesis using map_of_distinct_in [of f ?sel rd h] that(1) True
      by (simp add: zip_map_map zip_same_conv_map comp_def)
  next
    case False
    have "f rd \<notin> f ` set ?sel" using that False by (auto simp: distinct_map dest: inj_onD)
    then show ?thesis using False by (simp add: map_of_zip_absent)
  qed
  have tok: "mro_sampled_token_ids mo = zip (map rd_request_id ?sel) (map (\<lambda>rd. [argmax (g rd)]) ?sel)"
    using fold_dict_set_new [OF d(1), of "map (\<lambda>rd. argmax (g rd)) ?sel" "[]"] by (simp add: mo comp_def)
  have "rn_last rn' s = rn_last rn s" if "s \<notin> rd_slot_index ` set rds" for s
  proof -
    have "s \<notin> set (map rd_slot_index ?sel)" using that by auto
    then show ?thesis by (simp add: rn' fold_upd_apply [OF d(2)] map_of_zip_absent)
  qed
  moreover have "rn_last rn' (rd_slot_index rd) = (if needs_sample rd then argmax (g rd) else rn_last rn (rd_slot_index rd))"
    if "rd \<in> set rds" for rd
    using look [OF that ids(2), of "\<lambda>rd. argmax (g rd)"] by (simp add: rn' fold_upd_apply [OF d(2)])
  moreover have "dict_get_default (mro_sampled_token_ids mo) (rd_request_id rd) [] = (if needs_sample rd then [argmax (g rd)] else [])"
    if "rd \<in> set rds" for rd
    using look [OF that ids(1), of "\<lambda>rd. [argmax (g rd)]"] by (simp add: tok dict_get_default_def)
  moreover have "dict_get_default (mro_sampled_token_ids mo) i [] = []" if "i \<notin> rd_request_id ` set rds" for i
  proof -
    have "i \<notin> set (map rd_request_id ?sel)" using that by auto
    then show ?thesis by (simp add: tok dict_get_default_def map_of_zip_absent)
  qed
  ultimately show ?thesis by (simp add: rn')
qed

section \<open>One request, one chunk\<close>

text \<open>
  A request with the tokens generated for it so far: they are the greedy ones, none before the
  prompt is computed, and from then on one more than was computed beyond the prompt.
\<close>

definition greedy_so_far :: "('st, 'g, 'r, 'lg) net \<Rightarrow> vreq \<Rightarrow> token list \<Rightarrow> bool" where
  "greedy_so_far net r outs \<longleftrightarrow>
     (let p = prompt_token_ids r; n = num_computed_tokens r
      in p \<noteq> [] \<and> sp_temperature (req_sampling_params r) < sampling_eps \<and> 0 \<le> n \<and>
         (if n < int (length p) then outs = [] else n + 1 = int (length p + length outs)) \<and>
         outs = greedy_tokens (n_fwd net) (n_zero net) (n_argmax net) p (length outs))"

text \<open>Slot \<open>t\<close> of the runner holds the state after the tokens computed, and the next input.\<close>

definition slot_holds ::
  "('st, 'g, 'r, 'lg) net \<Rightarrow> ('st, 'g, 'r) runner \<Rightarrow> nat \<Rightarrow> vreq \<Rightarrow> token list \<Rightarrow> bool" where
  "slot_holds net rn t r outs \<longleftrightarrow>
     rn_state rn t = consumed (n_fwd net) (n_zero net)
       (take (nat (num_computed_tokens r)) (prompt_token_ids r @ outs)) \<and>
     (is_decode r \<longrightarrow> rn_last rn t = List.last outs)"

definition ready ::
  "('st, 'g, 'r, 'lg) net \<Rightarrow> ('st, 'g, 'r) runner \<Rightarrow> nat \<Rightarrow> vreq \<Rightarrow> token list \<Rightarrow> bool" where
  "ready net rn t r outs \<longleftrightarrow>
     greedy_so_far net r outs \<and> (num_computed_tokens r \<noteq> 0 \<longrightarrow> slot_holds net rn t r outs)"

definition data_of :: "vreq \<Rightarrow> nat \<Rightarrow> run_data \<Rightarrow> bool" where
  "data_of r t rd \<longleftrightarrow> prompt_token_ids r = rd_prompt_token_ids rd \<and>
     num_computed_tokens r = rd_num_computed_tokens rd \<and> rd_slot_index rd = t"

lemma chunk_of_history:
  assumes ready: "ready net rn t r outs" and ok: "run_data_ok s rd" and rd: "data_of r t rd"
    and h: "h = prompt_token_ids r @ outs" and n: "n = nat (num_computed_tokens r)" and k: "k = nat (rd_num_tokens rd)"
  shows "run_tokens rn rd = take k (drop n h)" and "0 < k" and "n + k \<le> length h"
    and "start_state (n_zero net) (rn_state rn) rd = consumed (n_fwd net) (n_zero net) (take n h)"
    and "needs_sample rd \<longleftrightarrow> n + k = length h"
proof -
  let ?p = "prompt_token_ids r" and ?c = "num_computed_tokens r" and ?m = "rd_num_tokens rd"
  have g: "?p \<noteq> []" "0 \<le> ?c" "if ?c < int (length ?p) then outs = [] else ?c + 1 = int (length ?p + length outs)"
    using ready by (simp_all add: ready_def greedy_so_far_def Let_def)
  have d: "0 < ?m" "rd_is_decode rd \<longleftrightarrow> int (length ?p) \<le> ?c" "is_decode r \<longleftrightarrow> rd_is_decode rd"
    using ok rd by (auto simp: run_data_ok_def data_of_def is_decode_def Let_def)
  have holds: "?c \<noteq> 0 \<Longrightarrow> rn_state rn t = consumed (n_fwd net) (n_zero net) (take n h) \<and>
      (is_decode r \<longrightarrow> rn_last rn t = List.last outs)"
    using ready by (simp add: ready_def slot_holds_def h n)
  have "run_tokens rn rd = take k (drop n h) \<and> 0 < k \<and> n + k \<le> length h \<and>
    start_state (n_zero net) (rn_state rn) rd = consumed (n_fwd net) (n_zero net) (take n h) \<and>
    (needs_sample rd \<longleftrightarrow> n + k = length h)"
  proof (cases "rd_is_decode rd")
    case True
    then have m: "?m = 1" "rd_input_token_ids rd = None"
      using ok by (auto simp: run_data_ok_def Let_def)
    have c: "int (length ?p) \<le> ?c" "?c + 1 = int (length ?p + length outs)" using g(3) True d(2) by simp_all
    have len: "length h = n + 1" and c0: "?c \<noteq> 0" and o: "outs \<noteq> []" using g(1,2) c by (auto simp: h n)
    have hd: "h = butlast h @ [List.last h]" "length (butlast h) = n" using len by (cases h rule: rev_cases; simp)+
    have "drop n h = [List.last h]" by (subst hd(1)) (simp add: hd(2) del: length_butlast)
    moreover have "List.last h = List.last outs" using o by (simp add: h)
    moreover have "start_state (n_zero net) (rn_state rn) rd = rn_state rn t" "needs_sample rd"
      "run_tokens rn rd = [rn_last rn t]" "k = 1"
      using True rd m by (simp_all add: start_state_def data_of_def needs_sample_def run_tokens_def k)
    ultimately show ?thesis using len holds [OF c0] True d(3) by simp
  next
    case False
    then have o: "outs = []" "h = ?p" "?c < int (length ?p)" using g(3) d(2) by (auto simp: h)
    have i: "?c + ?m \<le> int (length ?p)" "rd_input_token_ids rd = Some (take k (drop n ?p))"
      "rd_is_last_prefill rd \<longleftrightarrow> ?c + ?m = int (length ?p)"
      using ok rd False by (simp_all add: run_data_ok_def data_of_def Let_def n k)
    have "start_state (n_zero net) (rn_state rn) rd = consumed (n_fwd net) (n_zero net) (take n h)"
    proof (cases "?c = 0")
      case True
      then show ?thesis using False rd by (simp add: start_state_def data_of_def n consumed_def)
    next
      case c0: False
      then show ?thesis using holds [OF c0] rd by (simp add: start_state_def data_of_def)
    qed
    moreover have "needs_sample rd \<longleftrightarrow> ?c + ?m = int (length ?p)" using False i(3) by (simp add: needs_sample_def)
    moreover have "run_tokens rn rd = take k (drop n h)" using i(2) o(2) by (simp add: run_tokens_def)
    ultimately show ?thesis using i(1) d(1) g(2) o(2) by (auto simp: n k)
  qed
  then show "run_tokens rn rd = take k (drop n h)" "0 < k" "n + k \<le> length h"
    "start_state (n_zero net) (rn_state rn) rd = consumed (n_fwd net) (n_zero net) (take n h)"
    "needs_sample rd \<longleftrightarrow> n + k = length h" by blast+
qed

text \<open>What the pass and the sampling leave is right for the request with its counter advanced.\<close>

lemma chunk_computed:
  assumes net: "recurrent (n_fwd net)" and ready: "ready net rn t r outs" and ok: "run_data_ok s rd" and rd: "data_of r t rd"
    and st: "rn_state rn' t = fst (n_fwd net (run_tokens rn rd) (start_state (n_zero net) (rn_state rn) rd))"
    and best: "best = n_argmax net (snd (n_fwd net (run_tokens rn rd) (start_state (n_zero net) (rn_state rn) rd)))"
    and lst: "rn_last rn' t = (if needs_sample rd then best else rn_last rn t)"
    and r': "r' = r\<lparr>num_computed_tokens := num_computed_tokens r + rd_num_tokens rd\<rparr>"
    and outs': "outs' = outs @ (if needs_sample rd then [best] else [])"
  shows "greedy_so_far net r' outs'" and "slot_holds net rn' t r' outs'" and "0 < num_computed_tokens r'"
    and "needs_sample rd \<Longrightarrow> best = n_argmax net (snd (n_fwd net (prompt_token_ids r @ outs) (n_zero net)))"
proof -
  define h where "h = prompt_token_ids r @ outs"
  define n where "n = nat (num_computed_tokens r)"
  define k where "k = nat (rd_num_tokens rd)"
  note C = chunk_of_history [OF ready ok rd h_def n_def k_def]
  note F = recurrent.fwd_next [OF net C(2,3)]
  have m: "0 < rd_num_tokens rd" using ok by (simp add: run_data_ok_def Let_def)
  have g: "prompt_token_ids r \<noteq> []" "sp_temperature (req_sampling_params r) < sampling_eps" "0 \<le> num_computed_tokens r"
    "if num_computed_tokens r < int (length (prompt_token_ids r)) then outs = []
     else num_computed_tokens r + 1 = int (length (prompt_token_ids r) + length outs)"
    "outs = greedy_tokens (n_fwd net) (n_zero net) (n_argmax net) (prompt_token_ids r) (length outs)"
    using ready by (simp_all add: ready_def greedy_so_far_def Let_def)
  have num: "nat (num_computed_tokens r') = n + k" "num_computed_tokens r' = int (n + k)"
    using g(3) m by (simp_all add: r' n_def k_def)
  show "0 < num_computed_tokens r'" using num(2) C(2) by simp
  have len: "length h = length (prompt_token_ids r) + length outs" by (simp add: h_def)
  have whole: "best = n_argmax net (snd (n_fwd net h (n_zero net)))" if "needs_sample rd"
    using F(1) C(5) that by (simp add: best C(1,4))
  then show "needs_sample rd \<Longrightarrow> best = n_argmax net (snd (n_fwd net (prompt_token_ids r @ outs) (n_zero net)))"
    by (simp add: h_def)
  have dec: "needs_sample rd \<longleftrightarrow> int (length (prompt_token_ids r)) \<le> num_computed_tokens r'"
    using C(2,3,5) g(3,4) by (auto simp: num(2) n_def len split: if_split_asm)
  have "outs' = greedy_tokens (n_fwd net) (n_zero net) (n_argmax net) (prompt_token_ids r) (length outs')"
    using g(5) whole by (simp add: outs' Let_def h_def)
  moreover have f: "prompt_token_ids r' = prompt_token_ids r" "req_sampling_params r' = req_sampling_params r"
    by (simp_all add: r')
  moreover have "if num_computed_tokens r' < int (length (prompt_token_ids r)) then outs' = []
    else num_computed_tokens r' + 1 = int (length (prompt_token_ids r) + length outs')"
  proof (cases "needs_sample rd")
    case False
    then have "num_computed_tokens r < int (length (prompt_token_ids r))" using dec C(2) num(2) g(3) by (simp add: n_def)
    then show ?thesis using False dec g(4) by (simp add: outs')
  qed (use dec C(5) num(2) len in \<open>simp add: outs'\<close>)
  ultimately show "greedy_so_far net r' outs'"
    using g(1,2) num(2) f by (simp add: greedy_so_far_def Let_def split: if_split_asm)
  have "take (n + k) (prompt_token_ids r' @ outs') = take (n + k) h"
    using C(3) by (simp add: r' outs' h_def)
  then show "slot_holds net rn' t r' outs'"
    using F(2) dec lst by (simp add: slot_holds_def num(1) st C(1,4) is_decode_def outs') (simp add: r')
qed

section \<open>One pass over a batch\<close>

lemma mapE_dict_items:
  assumes "distinct (dict_keys d)"
  shows "mapE (dict_item d) (dict_keys d) = Inr (map snd d)"
proof -
  have "mapE (dict_item d) (map fst xs) = Inr (map snd xs)" if "set xs \<subseteq> set d" for xs
    using that by (induction xs) (auto simp: dict_item_def dict_in_get [OF assms])
  from this [of d] show ?thesis by simp
qed

lemma slot_owner:
  assumes "sched_inv X s" and "slot_manager_of s = Some m" and "slot_of s i = Inr t"
  shows "t \<in> occupied m" and "slot_of s j = Inr t \<Longrightarrow> j = i"
proof -
  have "mirror (req_to_slot m) (slot_to_req m)"
    using sched_invD(8) [OF assms(1)] assms(2) by (simp add: slots_inv_def slot_wf_def)
  note g = mirror_get [OF this]
  have "dict_get (slot_to_req m) t = Some k" if "slot_of s k = Inr t" for k
    using that assms(2) g by (auto simp: slot_of_def get_slot_def split: option.split_asm)
  note own = this
  show "t \<in> occupied m" using own [OF assms(3)] by (auto simp: occupied_def)
  show "slot_of s j = Inr t \<Longrightarrow> j = i" using own own [OF assms(3)] by fastforce
qed

text \<open>
  The batch of a schedule: for every request running afterwards, before its counter was advanced,
  \<open>q\<close>; the run data of the scheduled ones.
\<close>

lemma batch_rds:
  assumes b: "batch_inv s1 b" and wf: "sched_wf s1"
  shows "mapE (dict_item (b_data b)) (b_scheduled b) = Inr (map snd (b_data b))"
    and "map rd_request_id (map snd (b_data b)) = b_scheduled b"
    and "rd \<in> set (map snd (b_data b)) \<Longrightarrow> run_data_ok s1 rd \<and> tokens_match rd \<and> (rd_is_decode rd \<longrightarrow> rd_input_token_ids rd = None) \<and>
      slot_of s1 (rd_request_id rd) = Inr (rd_slot_index rd) \<and>
      (\<exists>q \<in> set (running s1). request_id q = rd_request_id rd \<and> req_sampling_params q = rd_sampling_params rd)"
    and "q \<in> set (running s1) \<Longrightarrow> slot_of s1 (request_id q) = Inr t \<Longrightarrow> request_id q \<in> set (b_scheduled b) \<Longrightarrow>
      \<exists>rd \<in> set (map snd (b_data b)). rd_request_id rd = request_id q \<and> run_data_ok s1 rd \<and> data_of q t rd \<and>
        dict_get_default (b_tokens b) (request_id q) 0 = rd_num_tokens rd"
proof -
  have k: "dict_keys (b_data b) = b_scheduled b" "distinct (b_scheduled b)" using b by (simp_all add: batch_inv_def)
  show "mapE (dict_item (b_data b)) (b_scheduled b) = Inr (map snd (b_data b))"
    using mapE_dict_items [of "b_data b"] k by simp
  have all: "rd_request_id rd = i \<and> dict_get (b_tokens b) i = Some (rd_num_tokens rd) \<and> run_data_ok s1 rd \<and> rd_of_running s1 rd"
    if "(i, rd) \<in> set (b_data b)" for i rd
    using b that by (auto simp: batch_inv_def)
  have "map (\<lambda>x. rd_request_id (snd x)) (b_data b) = map fst (b_data b)" using all by auto
  then show "map rd_request_id (map snd (b_data b)) = b_scheduled b" using k(1) by (simp add: comp_def)
  show "run_data_ok s1 rd \<and> tokens_match rd \<and> (rd_is_decode rd \<longrightarrow> rd_input_token_ids rd = None) \<and>
      slot_of s1 (rd_request_id rd) = Inr (rd_slot_index rd) \<and>
      (\<exists>q \<in> set (running s1). request_id q = rd_request_id rd \<and> req_sampling_params q = rd_sampling_params rd)"
    if rd: "rd \<in> set (map snd (b_data b))"
  proof -
    obtain i where "(i, rd) \<in> set (b_data b)" using rd by auto
    from all [OF this] have ok: "run_data_ok s1 rd" "rd_of_running s1 rd" by simp_all
    then have "rd_is_decode rd \<longrightarrow> rd_input_token_ids rd = None" by (simp add: run_data_ok_def Let_def)
    then show ?thesis using ok run_data_ok_tokens_match [OF ok(1)] by (auto simp: rd_of_running_def)
  qed
  show "\<exists>rd \<in> set (map snd (b_data b)). rd_request_id rd = request_id q \<and> run_data_ok s1 rd \<and> data_of q t rd \<and>
      dict_get_default (b_tokens b) (request_id q) 0 = rd_num_tokens rd"
    if q: "q \<in> set (running s1)" "slot_of s1 (request_id q) = Inr t" "request_id q \<in> set (b_scheduled b)"
  proof -
    obtain rd where rd: "(request_id q, rd) \<in> set (b_data b)" using q(3) unfolding k(1) [symmetric] by auto
    note a = all [OF rd]
    then obtain r where r: "r \<in> set (running s1)" "request_id r = request_id q"
      "prompt_token_ids r = rd_prompt_token_ids rd" "num_computed_tokens r = rd_num_computed_tokens rd"
      "slot_of s1 (request_id q) = Inr (rd_slot_index rd)"
      unfolding rd_of_running_def by auto
    have "r = q" using running_ids_distinct [OF wf] r(1,2) q(1) by (auto simp: distinct_map dest: inj_onD)
    then have "data_of q t rd" using r q(2) by (simp add: data_of_def)
    then show ?thesis using a imageI [OF rd, of snd] by (auto simp: dict_get_default_def)
  qed
qed

definition started :: "('st, 'g, 'r, 'lg) engine_core \<Rightarrow> ('st, 'g, 'r) runner \<Rightarrow> bool" where
  "started e rn \<longleftrightarrow> ec_executor e = UniExec (Some \<lparr>gw_runner = Some rn\<rparr>)"

lemma core_execute_started:
  assumes "core_execute net out e = Inr (lgs, e')" and "started e rn"
  obtains sm' rn' where "execute_model (n_fwd net) (n_zero net) out (slot_manager_of (ec_sched e)) rn = Inr (lgs, sm', rn')"
    "started e' rn'"
  using assms by (auto simp: core_execute_def started_def gpu_execute_model_def)

lemma core_sample_started:
  assumes "core_sample net lgs out e = Inr (mo, e')" and "started e rn"
  obtains rn' where "sample_tokens (n_argmax net) (n_draw net) (n_setup net) lgs out rn = Inr (mo, rn')" "started e' rn'"
  using assms by (auto simp: core_sample_def started_def gpu_sample_tokens_def)

text \<open>
  \<open>after net rn s mo b q t\<close>: request \<open>q\<close> in slot \<open>t\<close> once its counter is advanced and the tokens
  sampled for it are appended.
\<close>

definition sampled_for :: "model_runner_output \<Rightarrow> rid list \<Rightarrow> rid \<Rightarrow> token list" where
  "sampled_for mo ids i = (if i \<in> set ids then dict_get_default (mro_sampled_token_ids mo) i [] else [])"

lemma pass_computes:
  assumes net: "recurrent (n_fwd net)" and b: "batch_inv s1 b" and wf: "sched_wf s1"
    and m: "slot_manager_of s1 = Some m" and st: "started e1 rn" and sm: "slot_manager_of (ec_sched e1) = Some m"
    and out: "so_scheduled_req_ids out = b_scheduled b" "so_request_data out = b_data b" "b_scheduled b \<noteq> []"
    and ready: "\<And>q t. q \<in> set (running s1) \<Longrightarrow> slot_of s1 (request_id q) = Inr t \<Longrightarrow>
      ready net rn t q (outputs_of_req s1 (request_id q)) \<and> (request_id q \<notin> set (b_scheduled b) \<longrightarrow> 0 < num_computed_tokens q)"
    and ex: "core_execute net out e1 = Inr (lgs, e2)" and sa: "core_sample net lgs out e2 = Inr (mo, e3)"
  obtains rn3 where "started e3 rn3"
    "\<And>i. i \<notin> set (b_scheduled b) \<Longrightarrow> dict_get_default (mro_sampled_token_ids mo) i [] = []"
    "\<And>q t. q \<in> set (running s1) \<Longrightarrow> slot_of s1 (request_id q) = Inr t \<Longrightarrow>
      (let q' = advanced (b_tokens b) (set (b_scheduled b)) q; old = outputs_of_req s1 (request_id q);
           new = sampled_for mo (b_scheduled b) (request_id q)
       in greedy_so_far net q' (old @ new) \<and> slot_holds net rn3 t q' (old @ new) \<and> 0 < num_computed_tokens q' \<and>
          (new = [] \<or> new = [n_argmax net (snd (n_fwd net (prompt_token_ids q @ old) (n_zero net)))]))"
proof -
  obtain sm' rn2 where x: "execute_model (n_fwd net) (n_zero net) out (Some m) rn = Inr (lgs, sm', rn2)"
    and st2: "started e2 rn2" by (rule core_execute_started [OF ex st]) (simp add: sm)
  obtain rn3 where y: "sample_tokens (n_argmax net) (n_draw net) (n_setup net) lgs out rn2 = Inr (mo, rn3)"
    and st3: "started e3 rn3" by (rule core_sample_started [OF sa st2])
  let ?rds = "map snd (b_data b)"
  note B = batch_rds [OF b wf]
  let ?g = "\<lambda>rd. n_fwd net (run_tokens rn rd) (start_state (n_zero net) (rn_state rn) rd)"
  have rds: "mapE (dict_item (so_request_data out)) (so_scheduled_req_ids out) = Inr ?rds" using B(1) out by simp
  have ne: "so_scheduled_req_ids out \<noteq> []" using out by simp
  have slots: "mapE (slot_of s1) (map rd_request_id rs) = Inr (map rd_slot_index rs)" if "set rs \<subseteq> set ?rds" for rs
    using that B(3) by (induction rs) auto
  have dist: "distinct (map rd_request_id ?rds)" using B(2) b by (simp add: batch_inv_def)
  have d: "distinct (map rd_slot_index ?rds)"
    by (rule mapE_slots_distinct [OF wf _ slots [OF subset_refl] dist]) (simp add: m)
  have occ: "rd_slot_index ` set ?rds \<subseteq> occupied m" using B(3) slot_owner(1) [OF wf m] by blast
  have mm: "slot_wf m" "pad_slots m = []" using sched_invD(8) [OF wf] m by (simp_all add: slots_inv_def)
  have "\<forall>rd \<in> set ?rds. tokens_match rd \<and> (rd_is_decode rd \<longrightarrow> rd_input_token_ids rd = None)" using B(3) by blast
  note E = execute_model_runs [OF rds this d occ mm ne x]
  have "sp_temperature (rd_sampling_params rd) < sampling_eps" if rd: "rd \<in> set ?rds" for rd
  proof -
    obtain q where "q \<in> set (running s1)" "request_id q = rd_request_id rd" "req_sampling_params q = rd_sampling_params rd"
      "slot_of s1 (request_id q) = Inr (rd_slot_index rd)" using B(3) [OF rd] by auto
    then show ?thesis using ready [of q] by (auto simp: ready_def greedy_so_far_def Let_def)
  qed
  then have cold: "\<forall>rd \<in> set ?rds. sp_temperature (rd_sampling_params rd) < sampling_eps" by blast
  have "sample_tokens (n_argmax net) (n_draw net) (n_setup net) (Some (map (\<lambda>rd. snd (?g rd)) ?rds)) out rn2 = Inr (mo, rn3)"
    using y E by simp
  note S = sample_greedy [OF ne rds dist d cold this]
  have "greedy_so_far net q' (old @ new) \<and> slot_holds net rn3 t q' (old @ new) \<and> 0 < num_computed_tokens q' \<and>
      (new = [] \<or> new = [n_argmax net (snd (n_fwd net (prompt_token_ids q @ old) (n_zero net)))])"
    if q: "q \<in> set (running s1)" "slot_of s1 (request_id q) = Inr t"
      and q': "q' = advanced (b_tokens b) (set (b_scheduled b)) q" and old: "old = outputs_of_req s1 (request_id q)"
      and new: "new = sampled_for mo (b_scheduled b) (request_id q)" for q t q' old new
  proof (cases "request_id q \<in> set (b_scheduled b)")
    case True
    from B(4) [OF q True] obtain rd where rd: "rd \<in> set ?rds" "rd_request_id rd = request_id q" "run_data_ok s1 rd"
      "data_of q t rd" "dict_get_default (b_tokens b) (request_id q) 0 = rd_num_tokens rd" by blast
    have t: "rd_slot_index rd = t" using rd(4) by (simp add: data_of_def)
    define best where "best = n_argmax net (snd (?g rd))"
    have t2: "t \<in> occupied m" using slot_owner(1) [OF wf m q(2)] .
    have "rn_state rn3 t = fst (?g rd)" using S E rd(1) t by auto
    moreover have "rn_last rn3 t = (if needs_sample rd then best else rn_last rn t)"
      using S E rd(1) t t2 by (auto simp: best_def)
    moreover have "q' = q\<lparr>num_computed_tokens := num_computed_tokens q + rd_num_tokens rd\<rparr>"
      using True by (simp add: q' advanced_def rd(5))
    moreover have "new = (if needs_sample rd then [best] else [])"
      using S rd(1,2) True unfolding new sampled_for_def best_def by auto
    moreover have "ready net rn t q old" using ready [OF q] old by simp
    ultimately show ?thesis
      using chunk_computed [OF net _ rd(3,4), of rn old rn3 best q' "old @ new"] best_def by auto
  next
    case False
    have "t \<notin> rd_slot_index ` set ?rds"
    proof
      assume "t \<in> rd_slot_index ` set ?rds"
      then obtain rd where rd: "rd \<in> set ?rds" "rd_slot_index rd = t" by blast
      then have "slot_of s1 (rd_request_id rd) = Inr t" using B(3) by blast
      then have "rd_request_id rd = request_id q" using slot_owner(2) [OF wf m q(2)] by simp
      then show False using False rd(1) unfolding B(2) [symmetric] by (metis imageI list.set_map)
    qed
    then have "rn_state rn3 t = rn_state rn t" "rn_last rn3 t = rn_last rn t"
      using S E slot_owner(1) [OF wf m q(2)] by auto
    then show ?thesis
      using ready [OF q] False by (auto simp: q' old new sampled_for_def advanced_def ready_def slot_holds_def)
  qed
  moreover have "dict_get_default (mro_sampled_token_ids mo) i [] = []" if "i \<notin> set (b_scheduled b)" for i
    using S that unfolding B(2) [symmetric] by (simp del: map_map)
  ultimately show thesis using that [OF st3] by (simp add: Let_def)
qed

end
