(* ===== verification/Generation_Run.thy ===== *)
theory Generation_Run
  imports Generation
begin

text \<open>
  A whole step of the engine keeps \<open>gen_inv\<close>, and the runs of an engine: start-up, added requests,
  aborts and steps in any order.
\<close>

section \<open>Aborting and updating\<close>

definition shrunk :: "sched \<Rightarrow> sched \<Rightarrow> bool" where
  "shrunk s s' \<longleftrightarrow> pending {#} s' \<subseteq># pending {#} s \<and>
     (\<forall>i \<in> request_id ` set (running s'). outputs_of_req s' i = outputs_of_req s i)"

lemma finish_queued_shrunk:
  assumes "finish_queued i ns s = Inr (found, s')"
  shows "pending X s' \<subseteq># pending X s \<and> running_output_tokens s' = running_output_tokens s"
  using assms
proof (induction ns)
  case (Cons n ns)
  show ?case
  proof (cases "queue_find i (queue_get n s)")
    case (Some r)
    with Cons.prems obtain q' where q: "rq_remove_request r (queue_get n s) = Inr q'" and s': "s' = queue_put n q' s"
      by auto
    have "pending X s = add_mset r (pending X s')"
      using rq_remove_spec(1) [OF q] by (cases n) (auto simp: pending_def s')
    then show ?thesis by (simp add: s')
  qed (use Cons in auto)
qed auto

lemma finish_one_shrunk:
  assumes wf: "sched_wf s" and run: "finish_one (done, s) i = Inr (done', s')"
  shows "shrunk s s'"
proof (cases "dict_get (running_map s) i")
  case (Some r)
  then have s': "s' = without {i} s" using run drop_running_without(1) [OF wf Some] by (simp add: finish_one_def)
  show ?thesis unfolding s' by (auto simp: shrunk_def outputs_of_req_def dict_get_default_def)
next
  case None
  then obtain f where "finish_queued i [WaitingQ, SkippedQ] s = Inr (f, s')"
    using run unfolding finish_one_def by (auto simp del: finish_queued.simps)
  from finish_queued_shrunk [OF this] show ?thesis by (simp add: shrunk_def outputs_of_req_def)
qed

lemma finish_these_shrunk:
  assumes wf: "sched_wf s" and run: "finish_these ids s = Inr (done, s')"
  shows "shrunk s s'"
proof -
  have "sched_wf (snd (done, s')) \<and> shrunk s (snd (done, s'))"
  proof (rule foldE_invariant [OF run [unfolded finish_these_def], where P = "\<lambda>a. sched_wf (snd a) \<and> shrunk s (snd a)"])
    show "sched_wf (snd ([], s)) \<and> shrunk s (snd ([], s))" using wf by (simp add: shrunk_def)
  next
    fix i a a'
    assume P: "sched_wf (snd a) \<and> shrunk s (snd a)" and st: "finish_one a i = Inr a'"
    obtain d t where a: "a = (d, t)" by fastforce
    obtain d' t' where a': "a' = (d', t')" by fastforce
    have w: "sched_wf t" using P a by simp
    have "sched_wf t'" "running t' = filter (\<lambda>r. request_id r \<noteq> i) (running t)"
      using finish_one_spec [OF w, of d i] st a a' by auto
    then show "sched_wf (snd a') \<and> shrunk s (snd a')"
      using finish_one_shrunk [OF w st [unfolded a a']] P by (auto simp: shrunk_def a a' intro: subset_mset.trans)
  qed
  then show ?thesis by simp
qed

lemma process_aborts_shrunk:
  assumes "sched_wf (ec_sched e)" and "process_aborts_queue e = Inr (freed, e')"
  shows "shrunk (ec_sched e) (ec_sched e')"
  using assms finish_these_shrunk
  by (auto simp: process_aborts_queue_def core_abort_requests_def finish_requests_def shrunk_def Let_def
      split: if_split_asm)

text \<open>What the update leaves running is what ran, with the tokens sampled for it.\<close>

definition sans_count :: "vreq \<Rightarrow> vreq" where
  "sans_count r = r\<lparr>num_output_tokens := 0\<rparr>"

lemma update_leaves:
  assumes wf: "sched_wf (ec_sched e)" and sm: "slot_manager_of (ec_sched e) = Some sm" and ok: "out_ok out (ec_sched e)"
    and run: "core_update out mo e = Inr (merged, e')"
  shows "pending {#} (ec_sched e') \<subseteq># pending {#} (ec_sched e) \<and>
    (\<forall>r' \<in> set (running (ec_sched e')). \<exists>r \<in> set (running (ec_sched e)). sans_count r' = sans_count r \<and>
       outputs_of_req (ec_sched e') (request_id r') =
         outputs_of_req (ec_sched e) (request_id r) @ sampled_for mo (so_scheduled_req_ids out) (request_id r))"
proof -
  from run obtain e1 freed e2 outs out' s' where
    sv: "save_finished_state out e = Inr e1" and ab: "process_aborts_queue e1 = Inr (freed, e2)"
    and up: "update_from_output out mo (ec_sched e2) = (outs, out', s')"
    and bc: "core_batch_condense (freed @ so_freed_slots out') (e2\<lparr>ec_sched := s'\<rparr>) = Inr e'"
    by (rule core_update_cases)
  have e1: "e1 = e" using save_finished_cases [OF sv] save_finished_noop [OF ok] sv by (metis Inr_inject)
  note A = process_aborts_spec [OF wf sm ab [unfolded e1]]
  note sh = process_aborts_shrunk [OF wf ab [unfolded e1]]
  have od: "distinct (so_scheduled_req_ids out)" "distinct (so_finished_req_ids out)"
    using ok by (simp_all add: out_ok_def)
  obtain s1 fin where U: "sched_wf s1" "s' = without (set fin) s1"
    "slot_manager_of s1 = Some sm"
    "map sans_count (running s1) = map sans_count (running (ec_sched e2))" "pending {#} s1 = pending {#} (ec_sched e2)"
    "\<And>j. dict_get (running_output_tokens s1) j =
       (if j \<in> set (so_scheduled_req_ids out)
        then map_option (\<lambda>old. old @ dict_get_default (mro_sampled_token_ids mo) j [])
               (dict_get (running_output_tokens (ec_sched e2)) j)
        else dict_get (running_output_tokens (ec_sched e2)) j)"
  proof (cases rule: update_spec [OF A(1) od up])
    case (1 s1 fin)
    show thesis by (rule that [of s1 fin]) (use 1 A(2) in \<open>simp_all add: sans_count_def [abs_def]\<close>)
  qed
  have sm': "slot_manager_of (ec_sched (e2\<lparr>ec_sched := s'\<rparr>)) = Some sm" using U(2,3) by simp
  obtain m' where e': "ec_sched e' = s'\<lparr>slot_manager_of := Some m'\<rparr>"
    using core_batch_condense_cases [OF bc sm'] by auto
  have pend: "pending {#} (ec_sched e') = pending {#} (ec_sched e2)" unfolding e' U(5) [symmetric] U(2)
    by (simp add: pending_def)
  have "\<exists>r \<in> set (running (ec_sched e)). sans_count r' = sans_count r \<and>
       outputs_of_req (ec_sched e') (request_id r') =
         outputs_of_req (ec_sched e) (request_id r) @ sampled_for mo (so_scheduled_req_ids out) (request_id r)"
    if r': "r' \<in> set (running (ec_sched e'))" for r'
  proof -
    have r1: "r' \<in> set (running s1)" "request_id r' \<notin> set fin" using r' by (simp_all add: e' U(2))
    have "sans_count r' \<in> set (map sans_count (running s1))" using r1(1) by simp
    then obtain r where r: "r \<in> set (running (ec_sched e2))" "sans_count r' = sans_count r"
      unfolding U(4) by auto
    have id: "request_id r' = request_id r" using arg_cong [OF r(2), of request_id] by (simp add: sans_count_def)
    have "dict_get (running_output_tokens (ec_sched e2)) (request_id r) \<noteq> None"
      using output_tokens_None [OF A(1)] r(1) by blast
    then have "outputs_of_req (ec_sched e') (request_id r') = outputs_of_req (ec_sched e2) (request_id r) @
        sampled_for mo (so_scheduled_req_ids out) (request_id r)"
      using r1(2) id by (auto simp: e' U(2,6) outputs_of_req_def dict_get_default_def sampled_for_def split: option.split)
    moreover have "outputs_of_req (ec_sched e2) (request_id r) = outputs_of_req (ec_sched e) (request_id r)"
      using sh r(1) by (simp add: shrunk_def)
    moreover have "r \<in> set (running (ec_sched e))" using r(1) unfolding A(3) by simp
    ultimately show ?thesis using r(2) by auto
  qed
  then show ?thesis using sh pend by (simp add: shrunk_def)
qed

section \<open>A whole step\<close>

definition fresh_request :: "vreq \<Rightarrow> bool" where
  "fresh_request r \<longleftrightarrow> num_computed_tokens r = 0 \<and> prompt_token_ids r \<noteq> [] \<and>
     sp_temperature (req_sampling_params r) < sampling_eps"

definition serves :: "('st, 'g, 'r, 'lg) net \<Rightarrow> ('st, 'g, 'r) runner \<Rightarrow> sched \<Rightarrow> vreq \<Rightarrow> bool" where
  "serves net rn s r \<longleftrightarrow>
     (let outs = outputs_of_req s (request_id r)
      in 0 < num_computed_tokens r \<and> greedy_so_far net r outs \<and>
         (\<forall>t. slot_of s (request_id r) = Inr t \<longrightarrow> slot_holds net rn t r outs))"

definition gen_inv :: "('st, 'g, 'r, 'lg) net \<Rightarrow> ('st, 'g, 'r, 'lg) engine_core \<Rightarrow> bool" where
  "gen_inv net e \<longleftrightarrow>
     engine_inv e \<and> (\<forall>r \<in># pending {#} (ec_sched e). fresh_request r) \<and>
     (\<exists>rn. started e rn \<and> (\<forall>r \<in> set (running (ec_sched e)). serves net rn (ec_sched e) r))"

text \<open>Condensing at the end of the step has left every survivor in the slot it had when it ran.\<close>

definition keeps_slots :: "('st, 'g, 'r, 'lg) engine_core \<Rightarrow> ('st, 'g, 'r, 'lg) engine_core \<Rightarrow> bool" where
  "keeps_slots e e' \<longleftrightarrow>
     (case schedule (ec_sched e) of
        Inl _ \<Rightarrow> True
      | Inr (_, s1) \<Rightarrow>
          list_all (\<lambda>r. slot_of (ec_sched e') (request_id r) = slot_of s1 (request_id r)) (running (ec_sched e')))"

lemma ready_after_schedule:
  assumes wf: "sched_wf s" and g: "grown s {#} s1 ids"
    and pend: "\<forall>r \<in># pending {#} s. fresh_request r" and run: "\<forall>r \<in> set (running s). serves net rn s r"
    and q: "q \<in> set (running s1)" "slot_of s1 (request_id q) = Inr t"
  shows "ready net rn t q (outputs_of_req s1 (request_id q)) \<and> (request_id q \<notin> set ids \<longrightarrow> 0 < num_computed_tokens q)"
proof (cases "q \<in> set (running s)")
  case True
  then have i: "request_id q \<in> request_id ` set (running s)" by simp
  have "dict_get (running_output_tokens s1) (request_id q) = dict_get (running_output_tokens s) (request_id q)"
    and sl: "slot_of s1 (request_id q) = slot_of s (request_id q)" using g i unfolding grown_def by blast+
  then have "outputs_of_req s1 (request_id q) = outputs_of_req s (request_id q)"
    by (simp add: outputs_of_req_def dict_get_default_def)
  then show ?thesis using run True q(2) sl by (simp add: serves_def ready_def Let_def)
next
  case False
  then obtain p where p: "p \<in># pending {#} s" "q = p\<lparr>status := RUNNING\<rparr>"
    "dict_get (running_output_tokens s1) (request_id q) = Some []" "request_id q \<in> set ids"
    using g q(1) unfolding grown_def by blast
  have "outputs_of_req s1 (request_id q) = []" using p(3) by (simp add: outputs_of_req_def dict_get_default_def)
  then show ?thesis using pend p by (auto simp: ready_def greedy_so_far_def fresh_request_def)
qed

lemma sans_count_same:
  assumes "sans_count r' = sans_count r"
  shows "greedy_so_far net r' outs = greedy_so_far net r outs" "slot_holds net rn t r' outs = slot_holds net rn t r outs"
    "num_computed_tokens r' = num_computed_tokens r" "request_id r' = request_id r"
proof -
  have f: "prompt_token_ids r' = prompt_token_ids r" "num_computed_tokens r' = num_computed_tokens r"
    "req_sampling_params r' = req_sampling_params r" "request_id r' = request_id r"
    using arg_cong [OF assms, of prompt_token_ids] arg_cong [OF assms, of num_computed_tokens]
      arg_cong [OF assms, of req_sampling_params] arg_cong [OF assms, of request_id]
    by (simp_all add: sans_count_def)
  then show "greedy_so_far net r' outs = greedy_so_far net r outs" "slot_holds net rn t r' outs = slot_holds net rn t r outs"
    "num_computed_tokens r' = num_computed_tokens r" "request_id r' = request_id r"
    by (simp_all add: greedy_so_far_def slot_holds_def is_decode_def)
qed

lemma update_serves:
  assumes inv: "sched_wf (ec_sched e)" "slots_exact (ec_sched e)" and sm: "slot_manager_of (ec_sched e) = Some sm"
    and ok: "out_ok out (ec_sched e)" and st: "started e rn"
    and right: "\<And>r t. r \<in> set (running (ec_sched e)) \<Longrightarrow> slot_of (ec_sched e) (request_id r) = Inr t \<Longrightarrow>
      (let outs = outputs_of_req (ec_sched e) (request_id r) @ sampled_for mo (so_scheduled_req_ids out) (request_id r)
       in greedy_so_far net r outs \<and> slot_holds net rn t r outs \<and> 0 < num_computed_tokens r)"
    and run: "core_update out mo e = Inr (merged, e')"
    and keep: "\<And>r. r \<in> set (running (ec_sched e')) \<Longrightarrow> slot_of (ec_sched e') (request_id r) = slot_of (ec_sched e) (request_id r)"
  shows "started e' rn \<and> (\<forall>r \<in> set (running (ec_sched e')). serves net rn (ec_sched e') r)"
proof -
  note L = update_leaves [OF inv(1) sm ok run] and I = core_update_inv [OF inv sm ok run]
  have "serves net rn (ec_sched e') r'" if r': "r' \<in> set (running (ec_sched e'))" for r'
  proof -
    obtain r where r: "r \<in> set (running (ec_sched e))" "sans_count r' = sans_count r"
      "outputs_of_req (ec_sched e') (request_id r') =
         outputs_of_req (ec_sched e) (request_id r) @ sampled_for mo (so_scheduled_req_ids out) (request_id r)"
      using L r' by blast
    note same = sans_count_same [OF r(2)]
    obtain t where t: "slot_of (ec_sched e) (request_id r) = Inr t" using slots_known [OF inv(1)] r(1) by blast
    show ?thesis using right [OF r(1) t] keep [OF r'] t r(3) by (simp add: serves_def Let_def same)
  qed
  then show ?thesis using I st by (simp add: started_def)
qed

text \<open>The step up to the update, when something is scheduled and when nothing is.\<close>

lemma idle_schedule:
  assumes "gen_inv net e" and "schedule (ec_sched e) = Inr (out, s1)" and "so_total_num_scheduled_tokens out = 0"
  obtains rn where "started e rn" "so_scheduled_req_ids out = []" "\<forall>r \<in> set (running s1). serves net rn s1 r"
    "pending {#} s1 \<subseteq># pending {#} (ec_sched e)"
proof -
  have e: "sched_wf (ec_sched e)" "0 \<le> max_num_batched_tokens (sc_config (ec_sched e))"
    using assms(1) by (simp_all add: gen_inv_def engine_inv_def)
  obtain rn where rn: "started e rn" "\<forall>r \<in> set (running (ec_sched e)). serves net rn (ec_sched e) r"
    and pend: "\<forall>r \<in># pending {#} (ec_sched e). fresh_request r" using assms(1) by (auto simp: gen_inv_def)
  from schedule_grown [OF e assms(2)] obtain b s0 where b: "batch_inv s0 b" "grown (ec_sched e) {#} s0 (b_scheduled b)"
    "running s1 = map (advanced (b_tokens b) (set (b_scheduled b))) (running s0)"
    "running_output_tokens s1 = running_output_tokens s0" "slot_of s1 = slot_of s0" "pending {#} s1 = pending {#} s0"
    "so_scheduled_req_ids out = b_scheduled b" "so_total_num_scheduled_tokens out = sum_list (map snd (b_tokens b))"
    "sched_wf s0"
    by metis
  have "b_tokens b = []"
  proof (rule ccontr)
    assume ne: "b_tokens b \<noteq> []"
    have pos: "1 \<le> n" if "(i, n) \<in> set (b_tokens b)" for i n using batch_token_bounds [OF b(1) that] by simp
    then have "\<forall>x \<in> set (map snd (b_tokens b)). 0 \<le> x" by fastforce
    then have "\<forall>x \<in> set (map snd (b_tokens b)). x = 0"
      using sum_list_nonneg_eq_0_iff [of "map snd (b_tokens b)"] assms(3) b(8) by auto
    then show False using ne pos by (cases "b_tokens b") force+
  qed
  then have none: "b_scheduled b = []" using b(1) by (simp add: batch_inv_def)
  have "serves net rn s1 r" if "r \<in> set (running s1)" for r
  proof -
    have r: "r \<in> set (running s0)" using that b(3) none by simp
    then obtain t where t: "slot_of s0 (request_id r) = Inr t" using slots_known [OF b(9)] by blast
    from ready_after_schedule [OF e(1) b(2) pend rn(2) r t] t none show ?thesis
      by (simp add: serves_def ready_def Let_def b(5) outputs_of_req_def b(4))
  qed
  then show thesis using that [OF rn(1)] none b(2,6,7) by (simp add: grown_def)
qed

lemma schedule_keeps:
  assumes "engine_inv e" and "schedule (ec_sched e) = Inr (out, s1)"
  shows "sched_wf s1" and "slots_exact s1" and "\<exists>m. slot_manager_of s1 = Some m" and "out_ok out s1"
  using scheduled_engine(1) [OF assms] schedule_out_ok assms by (auto simp: engine_inv_def)

lemma grown_origin:
  assumes wf: "sched_wf s" and g: "grown s {#} s1 ids" and r: "r \<in> set (running s1)"
  shows "\<exists>q \<in># pending {#} s + mset (running s). request_id q = request_id r \<and> prompt_token_ids q = prompt_token_ids r \<and>
    outputs_of_req s (request_id r) = outputs_of_req s1 (request_id r)"
proof (cases "r \<in> set (running s)")
  case True
  have "request_id r \<in> request_id ` set (running s)" using True by (rule imageI)
  then have "dict_get (running_output_tokens s1) (request_id r) = dict_get (running_output_tokens s) (request_id r)"
    using g unfolding grown_def by blast
  then show ?thesis using True by (auto simp: outputs_of_req_def dict_get_default_def)
next
  case False
  then obtain p where p: "p \<in># pending {#} s" "r = p\<lparr>status := RUNNING\<rparr>"
    "dict_get (running_output_tokens s1) (request_id r) = Some []" using g r unfolding grown_def by blast
  have "request_id r \<notin> request_id ` set (running s)" using pending_not_running [OF wf p(1)] p(2) by force
  then have "dict_get (running_output_tokens s) (request_id r) = None" using output_tokens_None [OF wf] by blast
  then show ?thesis using p by (auto simp: outputs_of_req_def dict_get_default_def)
qed

lemma busy_schedule:
  assumes net: "recurrent (n_fwd net)" and inv: "gen_inv net e" and sch: "schedule (ec_sched e) = Inr (out, s1)"
    and total: "so_total_num_scheduled_tokens out \<noteq> 0"
    and ex: "core_execute net out (e\<lparr>ec_sched := s1\<rparr>) = Inr (lgs, e2)" and sa: "core_sample net lgs out e2 = Inr (mo, e3)"
  obtains rn where "started e3 rn" "pending {#} s1 \<subseteq># pending {#} (ec_sched e)"
    "\<And>r t. r \<in> set (running s1) \<Longrightarrow> slot_of s1 (request_id r) = Inr t \<Longrightarrow>
      (let outs = outputs_of_req s1 (request_id r) @ sampled_for mo (so_scheduled_req_ids out) (request_id r)
       in greedy_so_far net r outs \<and> slot_holds net rn t r outs \<and> 0 < num_computed_tokens r)"
    "\<And>r. r \<in> set (running s1) \<Longrightarrow> length (dict_get_default (mro_sampled_token_ids mo) (request_id r) []) \<le> 1 \<and>
      dict_get_default (mro_sampled_token_ids mo) (request_id r) [] = sampled_for mo (so_scheduled_req_ids out) (request_id r)"
    "\<And>r. r \<in> set (running s1) \<Longrightarrow> \<exists>q \<in># pending {#} (ec_sched e) + mset (running (ec_sched e)).
      request_id q = request_id r \<and> prompt_token_ids q = prompt_token_ids r \<and>
      outputs_of_req (ec_sched e) (request_id r) = outputs_of_req s1 (request_id r)"
proof -
  have e: "sched_wf (ec_sched e)" "0 \<le> max_num_batched_tokens (sc_config (ec_sched e))" "managed (ec_sched e)"
    using inv by (simp_all add: gen_inv_def engine_inv_def managed_def)
  obtain rn where rn: "started e rn" "\<forall>r \<in> set (running (ec_sched e)). serves net rn (ec_sched e) r"
    and pend: "\<forall>r \<in># pending {#} (ec_sched e). fresh_request r" using inv by (auto simp: gen_inv_def)
  from schedule_grown [OF e(1,2) sch] obtain b s0 where b: "batch_inv s0 b" "grown (ec_sched e) {#} s0 (b_scheduled b)"
    "running s1 = map (advanced (b_tokens b) (set (b_scheduled b))) (running s0)"
    "running_output_tokens s1 = running_output_tokens s0" "slot_of s1 = slot_of s0" "pending {#} s1 = pending {#} s0"
    "so_scheduled_req_ids out = b_scheduled b" "so_request_data out = b_data b"
    "so_total_num_scheduled_tokens out = sum_list (map snd (b_tokens b))"
    "sched_wf s0" "slot_manager_of s1 = slot_manager_of s0"
    by metis
  have outs: "outputs_of_req s1 i = outputs_of_req s0 i" for i by (simp add: outputs_of_req_def b(4))
  obtain m where m: "slot_manager_of s1 = Some m"
    using schedule_managed [OF e(1,2) sch] e(3) by (auto simp: managed_def)
  have ne: "b_scheduled b \<noteq> []"
  proof
    assume "b_scheduled b = []"
    then have "b_tokens b = []" using b(1) by (simp add: batch_inv_def)
    then show False using total b(9) by simp
  qed
  have st: "started (e\<lparr>ec_sched := s1\<rparr>) rn" using rn(1) by (simp add: started_def)
  note ready = ready_after_schedule [OF e(1) b(2) pend rn(2)]
  obtain rn3 where rn3: "started e3 rn3"
    and N: "\<And>i. i \<notin> set (b_scheduled b) \<Longrightarrow> dict_get_default (mro_sampled_token_ids mo) i [] = []" and P: "\<And>q t. q \<in> set (running s0) \<Longrightarrow> slot_of s0 (request_id q) = Inr t \<Longrightarrow>
      (let q' = advanced (b_tokens b) (set (b_scheduled b)) q; old = outputs_of_req s0 (request_id q);
           new = sampled_for mo (b_scheduled b) (request_id q)
       in greedy_so_far net q' (old @ new) \<and> slot_holds net rn3 t q' (old @ new) \<and> 0 < num_computed_tokens q' \<and>
          (new = [] \<or> new = [n_argmax net (snd (n_fwd net (prompt_token_ids q @ old) (n_zero net)))]))"
    by (rule pass_computes [OF net b(1,10) m [unfolded b(11)] st _ b(7,8) ne ready ex sa]) (simp_all add: m)
  have "(let outs = outputs_of_req s1 (request_id r) @ sampled_for mo (so_scheduled_req_ids out) (request_id r)
      in greedy_so_far net r outs \<and> slot_holds net rn3 t r outs \<and> 0 < num_computed_tokens r) \<and>
    sampled_for mo (so_scheduled_req_ids out) (request_id r) \<in>
      {[], [n_argmax net (snd (n_fwd net (prompt_token_ids r @ outputs_of_req s1 (request_id r)) (n_zero net)))]}"
    if r: "r \<in> set (running s1)" "slot_of s1 (request_id r) = Inr t" for r t
  proof -
    obtain q where q: "q \<in> set (running s0)" "r = advanced (b_tokens b) (set (b_scheduled b)) q" using r(1) b(3) by auto
    from P [OF q(1), of t] r(2) show ?thesis by (simp add: q(2) b(5,7) outs Let_def)
  qed
  note all = this
  have w1: "sched_wf s1" using schedule_keeps(1) [OF _ sch] inv by (simp add: gen_inv_def)
  have "length (dict_get_default (mro_sampled_token_ids mo) (request_id r) []) \<le> 1 \<and>
      dict_get_default (mro_sampled_token_ids mo) (request_id r) [] = sampled_for mo (so_scheduled_req_ids out) (request_id r)"
    if r: "r \<in> set (running s1)" for r
  proof -
    obtain t where t: "slot_of s1 (request_id r) = Inr t" using slots_known [OF w1] r by blast
    have "length (sampled_for mo (so_scheduled_req_ids out) (request_id r)) \<le> 1" using all [OF r t] by auto
    then show ?thesis using N by (simp add: sampled_for_def b(7) split: if_split_asm)
  qed
  moreover have "\<exists>q \<in># pending {#} (ec_sched e) + mset (running (ec_sched e)). request_id q = request_id r \<and>
      prompt_token_ids q = prompt_token_ids r \<and> outputs_of_req (ec_sched e) (request_id r) = outputs_of_req s1 (request_id r)"
    if r: "r \<in> set (running s1)" for r
    using grown_origin [OF e(1) b(2)] r by (auto simp: b(3) outs)
  moreover have "pending {#} s1 \<subseteq># pending {#} (ec_sched e)" using b(2,6) by (simp add: grown_def)
  ultimately show thesis using that [OF rn3] all by blast
qed

lemma step_serves:
  assumes net: "recurrent (n_fwd net)" and inv: "gen_inv net e" and run: "core_step net e = Inr (res, e')"
    and keep: "keeps_slots e e'"
  shows "gen_inv net e'"
proof -
  have einv: "engine_inv e" and fresh: "\<forall>r \<in># pending {#} (ec_sched e). fresh_request r"
    using inv by (simp_all add: gen_inv_def)
  have einv': "engine_inv e'" using step_keeps_engine [OF einv run] by blast
  have slots: "slot_of (ec_sched e') (request_id r) = slot_of s1 (request_id r)"
    if "schedule (ec_sched e) = Inr (out, s1)" "r \<in> set (running (ec_sched e'))" for out s1 r
    using keep that by (simp add: keeps_slots_def list_all_iff)
  from run show ?thesis
  proof (cases rule: core_step_cases)
    case idle
    then show ?thesis using inv by simp
  next
    case (empty out s1)
    from idle_schedule [OF inv empty(1,3)] obtain rn where rn: "started e rn" "\<forall>r \<in> set (running s1). serves net rn s1 r"
      "pending {#} s1 \<subseteq># pending {#} (ec_sched e)" by metis
    then show ?thesis using einv' fresh by (auto simp: empty(2) gen_inv_def started_def dest: mset_subset_eqD)
  next
    case (retired out s1 merged)
    from idle_schedule [OF inv retired(1,3)] obtain rn where rn: "started e rn" "so_scheduled_req_ids out = []"
      "\<forall>r \<in> set (running s1). serves net rn s1 r" "pending {#} s1 \<subseteq># pending {#} (ec_sched e)" by metis
    note k = schedule_keeps [OF einv retired(1)]
    obtain m where m: "slot_manager_of s1 = Some m" using k(3) by blast
    let ?e1 = "e\<lparr>ec_sched := s1\<rparr>"
    have "started e' rn \<and> (\<forall>r \<in> set (running (ec_sched e')). serves net rn (ec_sched e') r)"
      by (rule update_serves [where e = ?e1, OF _ _ _ _ _ _ retired(2)])
         (use k m rn slots [OF retired(1)] in \<open>simp_all add: started_def serves_def sampled_for_def Let_def\<close>)
    moreover have "pending {#} (ec_sched e') \<subseteq># pending {#} s1"
      using update_leaves [where e = ?e1, OF _ _ _ retired(2)] k m by simp
    then have "pending {#} (ec_sched e') \<subseteq># pending {#} (ec_sched e)" using rn(4) by (rule subset_mset.trans)
    then have "\<forall>r \<in># pending {#} (ec_sched e'). fresh_request r" using fresh by (auto dest: mset_subset_eqD)
    ultimately show ?thesis using einv' by (auto simp: gen_inv_def)
  next
    case (worked out s1 lgs e2 mo e3 merged)
    from busy_schedule [OF net inv worked(1,5,2,3)] obtain rn where rn: "started e3 rn"
      "pending {#} s1 \<subseteq># pending {#} (ec_sched e)"
      "\<And>r t. r \<in> set (running s1) \<Longrightarrow> slot_of s1 (request_id r) = Inr t \<Longrightarrow>
        (let outs = outputs_of_req s1 (request_id r) @ sampled_for mo (so_scheduled_req_ids out) (request_id r)
         in greedy_so_far net r outs \<and> slot_holds net rn t r outs \<and> 0 < num_computed_tokens r)" by metis
    note k = schedule_keeps [OF einv worked(1)]
    obtain m where m: "slot_manager_of s1 = Some m" using k(3) by blast
    have "ec_sched e2 = s1" using core_execute_sched [OF _ _ worked(2), of m] k m by simp
    then have e3: "ec_sched e3 = s1" using core_sample_sched [OF worked(3)] by simp
    have "started e' rn \<and> (\<forall>r \<in> set (running (ec_sched e')). serves net rn (ec_sched e') r)"
      by (rule update_serves [where e = e3, OF _ _ _ _ rn(1) _ worked(4)])
         (use k m rn(3) slots [OF worked(1)] in \<open>simp_all add: e3\<close>)
    moreover have "pending {#} (ec_sched e') \<subseteq># pending {#} s1"
      using update_leaves [where e = e3, OF _ _ _ worked(4)] k m by (simp add: e3)
    then have "pending {#} (ec_sched e') \<subseteq># pending {#} (ec_sched e)" using rn(2) by (rule subset_mset.trans)
    then have "\<forall>r \<in># pending {#} (ec_sched e'). fresh_request r" using fresh by (auto dest: mset_subset_eqD)
    ultimately show ?thesis using einv' by (auto simp: gen_inv_def)
  qed
qed

section \<open>Runs of an engine\<close>

text \<open>
  A run starts an engine and then adds requests, asks for aborts and steps. The requests have a
  prompt, as the input processor sees to, and sample greedily; their identifiers are not in use.
\<close>

definition greedy_request :: "core_request \<Rightarrow> bool" where
  "greedy_request q \<longleftrightarrow> cr_prompt_token_ids q \<noteq> None \<and> cr_prompt_token_ids q \<noteq> Some [] \<and>
     (case cr_sampling_params q of None \<Rightarrow> False | Some sp \<Rightarrow> sp_temperature sp < sampling_eps)"

inductive engine_run :: "('st, 'g, 'r, 'lg) net \<Rightarrow> ('st, 'g, 'r, 'lg) engine_core \<Rightarrow> bool"
  for net :: "('st, 'g, 'r, 'lg) net" where
  start: "core_init cfg = Inr e0 \<Longrightarrow> 0 \<le> max_num_batched_tokens (vc_scheduler cfg) \<Longrightarrow>
    core_initialize net e0 = Inr e \<Longrightarrow> engine_run net e"
| added: "engine_run net e \<Longrightarrow> greedy_request q \<Longrightarrow> cr_request_id q \<notin># req_ids (ec_sched e) \<Longrightarrow>
    preprocess_add_request now q = Inr (r, wave) \<Longrightarrow> core_add_request r e = Inr e' \<Longrightarrow> engine_run net e'"
| abort: "engine_run net e \<Longrightarrow> engine_run net (core_abort_request i e)"
| steps: "engine_run net e \<Longrightarrow> core_step net e = Inr (res, e') \<Longrightarrow> keeps_slots e e' \<Longrightarrow> engine_run net e'"

lemma start_gen_inv:
  assumes "core_init cfg = Inr e0" and "0 \<le> max_num_batched_tokens (vc_scheduler cfg)" and "core_initialize net e0 = Inr e"
  shows "gen_inv net e"
proof -
  let ?sm = "slot_manager_init (max_num_seqs (vc_scheduler cfg))"
  from assms(1) obtain ex s where ex: "executor_create (executor_get_class cfg) = Inr ex"
    and s: "scheduler_init (vc_scheduler cfg) (mc_max_model_len (vc_model cfg)) (Some ?sm) = Inr s"
    and e0: "ec_sched e0 = s" "ec_executor e0 = ex" "\<not> ec_initialized e0" "ec_config e0 = cfg"
    by (auto simp: core_init_def core_create_scheduler_def Let_def split: if_split_asm)
  from s obtain policy where pol: "s = \<lparr>sc_config = vc_scheduler cfg, sc_max_model_len = mc_max_model_len (vc_model cfg),
      slot_manager_of = Some ?sm, waiting = create_request_queue policy, skipped_waiting = create_request_queue policy,
      running = [], running_map = [], running_output_tokens = []\<rparr>"
    by (auto simp: scheduler_init_def)
  have p: "pending {#} s = {#}" by (simp add: pending_def pol)
  have "sched_wf s"
    unfolding sched_inv_def all_ids_def slots_inv_def p by (simp add: pol rq_wf_create slot_init_wf slot_init_compact)
  moreover have "slots_exact s" by (simp add: slots_exact_def pol)
  ultimately have inv: "engine_inv (e\<lparr>ec_sched := s\<rparr>)"
    using assms(2) by (simp add: engine_inv_def) (simp add: pol)
  from assms(3) e0 obtain ex' where st: "executor_start net cfg ex = Inr ex'" and e: "e = e0\<lparr>ec_executor := ex', ec_initialized := True\<rparr>"
    by (auto simp: core_initialize_def executor_start_def)
  have "ex \<noteq> MpExec" using st by (auto simp: executor_start_def)
  then obtain w where w: "ex = UniExec w" by (cases ex) auto
  have "\<exists>rn. ex' = UniExec (Some \<lparr>gw_runner = Some rn\<rparr>)"
    using st unfolding w executor_start_uniproc by (auto split: option.split_asm)
  then have "\<exists>rn. started e rn" by (auto simp: started_def e)
  moreover have "ec_sched e = s" using e0(1) by (simp add: e)
  ultimately show ?thesis using inv p by (auto simp: gen_inv_def pol engine_inv_def)
qed

lemma add_gen_inv:
  assumes inv: "gen_inv net e" and q: "greedy_request q" and new: "cr_request_id q \<notin># req_ids (ec_sched e)"
    and r: "preprocess_add_request now q = Inr (r, wave)" and add: "core_add_request r e = Inr e'"
  shows "gen_inv net e'"
proof -
  let ?s = "ec_sched e"
  have e': "e' = e\<lparr>ec_sched := sched_add_request r ?s\<rparr>" using add by (simp add: core_add_request_def split: if_split_asm)
  have rr: "request_id r = cr_request_id q" "num_computed_tokens r = 0" "fresh_request (r\<lparr>status := WAITING\<rparr>)"
    using r q by (auto simp: preprocess_add_request_def new_vreq_def fresh_request_def greedy_request_def split: option.split_asm)
  let ?t = "sched_add_request r ?s"
  have fr: "running ?t = running ?s" "running_output_tokens ?t = running_output_tokens ?s" "running_map ?t = running_map ?s"
    "slot_manager_of ?t = slot_manager_of ?s" "sc_config ?t = sc_config ?s" "skipped_waiting ?t = skipped_waiting ?s"
    "waiting ?t = rq_add_request (r\<lparr>status := WAITING\<rparr>) (waiting ?s)"
    by (simp_all add: sched_add_request_def)
  have pend: "pending {#} ?t = add_mset (r\<lparr>status := WAITING\<rparr>) (pending {#} ?s)"
    by (simp add: pending_def fr rq.elems_add)
  have ids: "req_ids ?t = add_mset (request_id r) (req_ids ?s)" by (simp add: all_ids_def pend fr)
  have wf: "sched_wf ?s" and ex: "slots_exact ?s" using inv by (simp_all add: gen_inv_def engine_inv_def)
  have out: "request_id r \<notin># req_ids ?s" using new rr(1) by simp
  have "count (req_ids ?t) i \<le> 1" for i
    using sched_invD(5) [OF wf, of i] out by (auto simp: ids count_eq_zero_iff)
  moreover have "slots_inv {#} ?t"
  proof (cases "slot_manager_of ?s")
    case (Some sm)
    have "dict_get (req_to_slot sm) (request_id r) = None"
      using ex Some out by (auto simp: slots_exact_def all_ids_def)
    then show ?thesis using sched_invD(8) [OF wf] by (simp add: slots_inv_def fr pend Some)
  qed (simp add: slots_inv_def fr)
  ultimately have "sched_wf ?t"
    using wf rr(2) by (simp add: sched_inv_def fr pend rq.wf_add)
  moreover have "slots_exact ?t" using ex by (cases "slot_manager_of ?s") (simp_all add: slots_exact_def fr)
  ultimately have "engine_inv e'"
    using inv by (simp add: gen_inv_def engine_inv_def e' fr(4,5))
  moreover have "serves net rn ?t = serves net rn ?s" for rn
    by (simp add: serves_def fun_eq_iff outputs_of_req_def slot_of_def fr)
  ultimately show ?thesis
    using inv rr(3) by (auto simp: gen_inv_def e' pend fr started_def)
qed

lemma abort_gen_inv: "gen_inv net e \<Longrightarrow> gen_inv net (core_abort_request i e)"
  by (simp add: gen_inv_def engine_inv_def core_abort_request_def started_def)

lemma run_gen_inv:
  assumes "recurrent (n_fwd net)" and "engine_run net e"
  shows "gen_inv net e"
  using assms(2)
proof (induction rule: engine_run.induct)
  case (start cfg e0 e)
  then show ?case by (rule start_gen_inv)
next
  case (added e q now r wave e')
  from added.IH added.hyps(2-5) show ?case by (rule add_gen_inv)
next
  case (abort e i)
  from abort.IH show ?case by (rule abort_gen_inv)
next
  case (steps e res e')
  from step_serves [OF assms(1) steps.IH steps.hyps(2,3)] show ?case .
qed

lemma greedy_length [simp]: "length (greedy_tokens fwd zero argmax p k) = k"
  by (induction k) (simp_all add: Let_def)

section \<open>What a step delivers\<close>

lemma update_outputs_ok:
  assumes "update_from_output out mo s = (outs, out', s')"
  shows "dict_ok outs"
proof -
  have "dict_ok (us_outputs u) \<Longrightarrow> dict_ok (us_outputs (retire out mo i u))" for i u
    by (auto simp: retire_def Let_def intro: dict_ok_set)
  then have r: "dict_ok (us_outputs u) \<Longrightarrow> dict_ok (us_outputs (fold (retire out mo) ids u))" for ids u
    by (induction ids arbitrary: u) simp_all
  have "dict_ok os \<Longrightarrow> dict_ok (emit_tokens mo t i os)" for i os t
    by (auto simp: emit_tokens_def Let_def intro: dict_ok_set)
  then have em: "dict_ok os \<Longrightarrow> dict_ok (fold (emit_tokens mo t) ids os)" for ids os t
    by (induction ids arbitrary: os) simp_all
  show ?thesis using assms by (auto simp: update_from_output_def Let_def split: prod.splits intro!: em r)
qed

lemma update_delivers:
  assumes wf: "sched_wf (ec_sched e)" and sm: "slot_manager_of (ec_sched e) = Some sm" and ok: "out_ok out (ec_sched e)"
    and run: "core_update out mo e = Inr (merged, e')" and x: "x \<in> set (ecos_outputs merged)"
  shows "eco_request_id x \<in> request_id ` set (running (ec_sched e)) \<and>
    eco_new_token_ids x = dict_get_default (mro_sampled_token_ids mo) (eco_request_id x) []"
proof -
  from run obtain e1 freed e2 outs out' s' where
    sv: "save_finished_state out e = Inr e1" and ab: "process_aborts_queue e1 = Inr (freed, e2)"
    and up: "update_from_output out mo (ec_sched e2) = (outs, out', s')" and mg: "merged = merge_outputs outs"
    by (rule core_update_cases)
  have e1: "e1 = e" using save_finished_cases [OF sv] save_finished_noop [OF ok] sv by (metis Inr_inject)
  note A = process_aborts_spec [OF wf sm ab [unfolded e1]]
  have od: "distinct (so_scheduled_req_ids out)" "distinct (so_finished_req_ids out)"
    using ok by (simp_all add: out_ok_def)
  obtain j eo where j: "(j, eo) \<in> set outs" "x \<in> set (ecos_outputs eo)"
    using x by (auto simp: mg merge_outputs_def outputs_of_def)
  have get: "dict_get outs j = Some eo" by (rule dict_in_get [OF update_outputs_ok [OF up] j(1)])
  have "j \<in> request_id ` set (running (ec_sched e2)) \<and> eco_request_id x = j \<and>
      eco_new_token_ids x = dict_get_default (mro_sampled_token_ids mo) j []"
  proof (cases rule: update_spec [OF A(1) od up])
    case (1 s1 fin)
    show ?thesis using get j(2) unfolding 1(11)
      by (auto simp: retired_output_def finished_output_def outputs_of_def case_prod_unfold split: if_split_asm)
  qed
  then show ?thesis unfolding A(3) by auto
qed

lemma one_more:
  assumes "greedy_so_far net r (outs @ new)" and "length new \<le> 1"
  shows "new = [] \<or> new = [greedy_tokens (n_fwd net) (n_zero net) (n_argmax net) (prompt_token_ids r) (Suc (length outs)) ! length outs]"
proof (cases new)
  case (Cons x xs)
  then have new: "new = [x]" using assms(2) by simp
  let ?g = "greedy_tokens (n_fwd net) (n_zero net) (n_argmax net) (prompt_token_ids r)"
  have "outs @ new = ?g (length (outs @ new))" using assms(1) unfolding greedy_so_far_def Let_def by blast
  then have "outs @ [x] = ?g (Suc (length outs))" by (simp add: new del: greedy_tokens.simps)
  then have "?g (Suc (length outs)) ! length outs = x" by (metis nth_append_length)
  then show ?thesis using new by simp
qed simp

lemma core_step_delivers:
  assumes "core_step net e = Inr ((Some [(0, merged)], w), e')"
  obtains (retired) out s1 where "schedule (ec_sched e) = Inr (out, s1)"
      "core_update out fake_model_output (e\<lparr>ec_sched := s1\<rparr>) = Inr (merged, e')"
      "so_total_num_scheduled_tokens out = 0"
  | (worked) out s1 lgs e2 mo e3 where "schedule (ec_sched e) = Inr (out, s1)"
      "core_execute net out (e\<lparr>ec_sched := s1\<rparr>) = Inr (lgs, e2)"
      "core_sample net lgs out e2 = Inr (mo, e3)" "core_update out mo e3 = Inr (merged, e')"
      "so_total_num_scheduled_tokens out \<noteq> 0"
  using assms by (auto simp: core_step_def Let_def split: if_split_asm)

lemma core_step_shape:
  assumes "core_step net e = Inr (res, e')"
  obtains w where "res = (Some [], w)" | w m where "res = (Some [(0, m)], w)"
  using assms by (auto simp: core_step_def Let_def split: if_split_asm)

lemma deliveries:
  assumes net: "recurrent (n_fwd net)" and run: "engine_run net e"
    and step: "core_step net e = Inr ((Some [(0, merged)], w), e')" and x: "x \<in> set (ecos_outputs merged)"
  shows "\<exists>q \<in># pending {#} (ec_sched e) + mset (running (ec_sched e)). request_id q = eco_request_id x \<and>
    (let k = length (outputs_of_req (ec_sched e) (eco_request_id x))
     in eco_new_token_ids x \<in>
          {[], [greedy_tokens (n_fwd net) (n_zero net) (n_argmax net) (prompt_token_ids q) (Suc k) ! k]})"
proof -
  have inv: "gen_inv net e" by (rule run_gen_inv [OF net run])
  then have einv: "engine_inv e" by (simp add: gen_inv_def)
  have wf: "sched_wf (ec_sched e)" "0 \<le> max_num_batched_tokens (sc_config (ec_sched e))"
    using einv by (simp_all add: engine_inv_def)
  from step show ?thesis
  proof (cases rule: core_step_delivers)
    case (retired out s1)
    note k = schedule_keeps [OF einv retired(1)]
    obtain m where m: "slot_manager_of s1 = Some m" using k(3) by blast
    let ?e1 = "e\<lparr>ec_sched := s1\<rparr>"
    have "eco_request_id x \<in> request_id ` set (running s1) \<and> eco_new_token_ids x = []"
      using update_delivers [where e = ?e1, OF _ _ _ retired(2) x] k m
      by (simp add: fake_model_output_def dict_get_default_def)
    then obtain r where r: "r \<in> set (running s1)" "request_id r = eco_request_id x" "eco_new_token_ids x = []" by auto
    obtain b :: batch and s0 where g: "grown (ec_sched e) {#} s0 (b_scheduled b)"
      and run1: "running s1 = map (advanced (b_tokens b) (set (b_scheduled b))) (running s0)"
      by (rule schedule_grown [OF wf retired(1)]) blast
    obtain r0 where "r0 \<in> set (running s0)" "request_id r0 = eco_request_id x" using r run1 by auto
    with grown_origin [OF wf(1) g, of r0] r(3) show ?thesis by (auto simp: Let_def simp del: greedy_tokens.simps)
  next
    case (worked out s1 lgs e2 mo e3)
    note k = schedule_keeps [OF einv worked(1)]
    obtain m where m: "slot_manager_of s1 = Some m" using k(3) by blast
    have "ec_sched e2 = s1" using core_execute_sched [OF _ _ worked(2), of m] k m by simp
    then have e3: "ec_sched e3 = s1" using core_sample_sched [OF worked(3)] by simp
    let ?new = "dict_get_default (mro_sampled_token_ids mo) (eco_request_id x) []"
    have "eco_request_id x \<in> request_id ` set (running s1) \<and> eco_new_token_ids x = ?new"
      using update_delivers [where e = e3, OF _ _ _ worked(4) x] k m by (simp add: e3)
    then obtain r where r: "r \<in> set (running s1)" "request_id r = eco_request_id x" "eco_new_token_ids x = ?new" by auto
    obtain t where t: "slot_of s1 (request_id r) = Inr t" using slots_known [OF k(1)] r(1) by blast
    from busy_schedule [OF net inv worked(1,5,2,3)] obtain
      one: "length ?new \<le> 1" "greedy_so_far net r (outputs_of_req s1 (request_id r) @ ?new)"
      and origin: "\<exists>q \<in># pending {#} (ec_sched e) + mset (running (ec_sched e)). request_id q = request_id r \<and>
        prompt_token_ids q = prompt_token_ids r \<and> outputs_of_req (ec_sched e) (request_id r) = outputs_of_req s1 (request_id r)"
      using r(1,2) t by (metis (no_types, lifting))
    from one_more [OF one(2,1)] origin r(2,3) show ?thesis by (auto simp: Let_def simp del: greedy_tokens.simps)
  qed
qed

section \<open>Properties\<close>


text \<open>A run of two greedy requests whose prompts need two steps and one.\<close>

definition gen_config :: vkwr_config where
  "gen_config = demo_eager_config\<lparr>vc_scheduler := demo_sched_config,
     vc_compilation := (vc_compilation demo_eager_config)\<lparr>cc_cudagraph_mode := ''none''\<rparr>\<rparr>"

definition gen_request :: "rid \<Rightarrow> token list \<Rightarrow> core_request" where
  "gen_request i toks = \<lparr>cr_request_id = i, cr_prompt_token_ids = Some toks,
     cr_sampling_params = Some (sampling_defaults\<lparr>sp_temperature := 0\<rparr>), cr_arrival_time = 0, cr_priority = 0,
     cr_current_wave = 0\<rparr>"

definition gen_add ::
  "core_request \<Rightarrow> (token list, string, unit, int) engine_core \<Rightarrow> (token list, string, unit, int) engine_core" where
  "gen_add q e = projr (core_add_request (fst (projr (preprocess_add_request 1 q))) e)"

definition gen_start :: "(token list, string, unit, int) engine_core" where
  "gen_start = projr (core_initialize demo_net (projr (core_init gen_config)))"

definition gen_added :: "(token list, string, unit, int) engine_core" where
  "gen_added = gen_add (gen_request ''b'' [6, 7]) (gen_add (gen_request ''a'' [1, 2, 3, 4, 5]) gen_start)"

definition gen_once :: "(token list, string, unit, int) engine_core" where
  "gen_once = snd (projr (core_step demo_net gen_added))"

definition gen_twice :: "(token list, string, unit, int) engine_core" where
  "gen_twice = snd (projr (core_step demo_net gen_once))"

lemma demo_recurrent: "recurrent (n_fwd demo_net)"
  by unfold_locales (simp add: demo_net_def demo_fwd_def)

lemma gen_added_run:
  assumes "engine_run demo_net e" "greedy_request q" "cr_request_id q \<notin># req_ids (ec_sched e)" "ec_initialized e"
  shows "engine_run demo_net (gen_add q e)"
proof -
  obtain r w where r: "preprocess_add_request 1 q = Inr (r, w)"
    using assms(2) by (auto simp: preprocess_add_request_def greedy_request_def split: option.splits)
  have "core_add_request r e = Inr (gen_add q e)" using assms(4) by (simp add: gen_add_def r core_add_request_def)
  from engine_run.added [OF assms(1-3) r this] show ?thesis .
qed

lemma gen_step_run:
  assumes "engine_run demo_net e" "\<not> isl (core_step demo_net e)" "keeps_slots e (snd (projr (core_step demo_net e)))"
  shows "engine_run demo_net (snd (projr (core_step demo_net e)))"
  using engine_run.steps [OF assms(1), of "fst (projr (core_step demo_net e))" "snd (projr (core_step demo_net e))"] assms(2,3)
  by (cases "core_step demo_net e") auto

lemma gen_values:
  "\<not> isl (core_init gen_config :: (token list, string, unit, int) engine_core res)" "\<not> isl (core_initialize demo_net (projr (core_init gen_config)))"
  "ec_initialized gen_start" "req_ids (ec_sched gen_start) = {#}"
  by code_simp+

lemma gen_values2:
  "ec_initialized (gen_add (gen_request ''a'' [1, 2, 3, 4, 5]) gen_start)"
  "''b'' \<notin># req_ids (ec_sched (gen_add (gen_request ''a'' [1, 2, 3, 4, 5]) gen_start))"
  by code_simp+

lemma gen_values3:
  "\<not> isl (core_step demo_net gen_added)" "keeps_slots gen_added (snd (projr (core_step demo_net gen_added)))"
  by code_simp+

lemma gen_values4:
  "\<not> isl (core_step demo_net gen_once)" "keeps_slots gen_once (snd (projr (core_step demo_net gen_once)))"
  by code_simp+

lemma gen_values5:
  "map request_id (running (ec_sched gen_twice)) = [''a'', ''b'']"
  "outputs_of_req (ec_sched gen_twice) ''a'' = [15]" "outputs_of_req (ec_sched gen_twice) ''b'' = [13, 26]"
  by code_simp+

lemma gen_runs: "engine_run demo_net gen_once" "engine_run demo_net gen_twice"
proof -
  let ?a = "gen_request ''a'' [1, 2, 3, 4, 5]" and ?b = "gen_request ''b'' [6, 7]"
  have q: "greedy_request (gen_request i (t # ts))" for i t ts
    by (simp add: greedy_request_def gen_request_def sampling_eps_def)
  obtain e0 :: "(token list, string, unit, int) engine_core" where e0: "core_init gen_config = Inr e0"
    using gen_values(1) by (cases "core_init gen_config :: (token list, string, unit, int) engine_core res") auto
  have "core_initialize demo_net e0 = Inr gen_start"
    using gen_values(2) by (cases "core_initialize demo_net e0") (auto simp: gen_start_def e0)
  moreover have "0 \<le> max_num_batched_tokens (vc_scheduler gen_config)"
    by (simp add: gen_config_def demo_sched_config_def)
  ultimately have "engine_run demo_net gen_start" using engine_run.start [OF e0] by blast
  then have "engine_run demo_net (gen_add ?a gen_start)"
    by (rule gen_added_run [OF _ q]) (simp_all add: gen_values(3,4))
  then have "engine_run demo_net gen_added" unfolding gen_added_def
    by (rule gen_added_run [OF _ q]) (use gen_values2 in \<open>simp_all add: gen_request_def\<close>)
  then show once: "engine_run demo_net gen_once" unfolding gen_once_def by (rule gen_step_run [OF _ gen_values3])
  show "engine_run demo_net gen_twice" unfolding gen_twice_def by (rule gen_step_run [OF once gen_values4])
qed



lemma gen_delivered:
  "map (\<lambda>x. (eco_request_id x, eco_new_token_ids x))
     (case core_step demo_net gen_once of Inr ((Some [(_, m)], _), _) \<Rightarrow> ecos_outputs m | _ \<Rightarrow> []) = [(''a'', [15]), (''b'', [26])]"
  "outputs_of_req (ec_sched gen_once) ''b'' = [13]"
  by code_simp+

lemma gen_delivery:
  obtains m w e' x where "core_step demo_net gen_once = Inr ((Some [(0, m)], w), e')" "x \<in> set (ecos_outputs m)"
    "eco_request_id x = ''b''" "eco_new_token_ids x = [26]"
proof -
  obtain res e' where st: "core_step demo_net gen_once = Inr (res, e')"
    using gen_values4(1) by (metis isl_def obj_sumE surj_pair)
  note out = gen_delivered(1) [unfolded st sum.case prod.case]
  from st show thesis
  proof (cases rule: core_step_shape)
    case (1 w)
    then show ?thesis using out by simp
  next
    case (2 w m)
    from out [unfolded 2] have "map (\<lambda>x. (eco_request_id x, eco_new_token_ids x)) (ecos_outputs m) = [(''a'', [15]), (''b'', [26])]"
      by simp
    then have "(''b'', [26]) \<in> set (map (\<lambda>x. (eco_request_id x, eco_new_token_ids x)) (ecos_outputs m))" by simp
    then obtain x where "x \<in> set (ecos_outputs m)" "eco_request_id x = ''b''" "eco_new_token_ids x = [26]" by auto
    then show ?thesis using that st 2 by blast
  qed
qed


end
