(* ===== verification/Rwkv_Generation.thy ===== *)
theory Rwkv_Generation
  imports Generation_Run Rwkv_Refine
begin

text \<open>
  The RWKV network is recurrent in the sense of \<open>recurrent\<close>, so an engine that runs it generates, for
  every request, the greedy continuation that the recurrence over the request's own tokens gives.
\<close>

interpretation rwkv: recurrent "seq_forward M P" for M P
  by unfold_locales (simp add: seq_forward_def ref_forward_append)

lemma rwkv_engine_generates:
  assumes "n_fwd net = seq_forward M P" and "engine_run net e" and "r \<in> set (running (ec_sched e))"
    and "outs = outputs_of_req (ec_sched e) (request_id r)"
  shows "outs = greedy_tokens (seq_forward M P) (n_zero net) (n_argmax net) (prompt_token_ids r) (length outs)"
proof -
  have "recurrent (n_fwd net)" unfolding assms(1) by (rule rwkv.recurrent_axioms)
  from run_gen_inv [OF this assms(2)] assms(1,3,4) show ?thesis
    by (auto simp: gen_inv_def serves_def greedy_so_far_def Let_def)
qed

text \<open>
  The greedy continuation in terms of the recurrence: one pass over the prompt, then one token at a
  time on the state the pass before has left.
\<close>

lemma rwkv_next_token:
  assumes "ts = greedy_tokens (seq_forward M P) zero argmax p (Suc k)" and "p \<noteq> []"
  shows "greedy_tokens (seq_forward M P) zero argmax p (Suc (Suc k)) =
    ts @ [argmax (snd (seq_forward M P [List.last ts] (consumed (seq_forward M P) zero (p @ butlast ts))))]"
proof -
  have ne: "ts \<noteq> []" using assms(1) by (simp add: Let_def)
  then have "p @ ts = (p @ butlast ts) @ [List.last ts]" by simp
  then have "seq_forward M P [List.last ts] (consumed (seq_forward M P) zero (p @ butlast ts)) = seq_forward M P (p @ ts) zero"
    using rwkv.fwd_consumed [of "[List.last ts]" M P zero "p @ butlast ts"] by simp
  then show ?thesis using assms(1) by (simp add: Let_def)
qed

end
