(* ===== verification/Mix_Threads.thy ===== *)
theory Mix_Threads
  imports Kernels
begin

text \<open>
  The uniform mixing kernels (\<^verbatim>\<open>tmix_mix6_kernel\<close> and \<^verbatim>\<open>cmix_mix_kernel\<close> of \<^verbatim>\<open>csrc/v2/mix\<close>) thread by
  thread. There is a thread for every row and pair of channels; the pairs do not interact, so one
  pair is modelled and \<open>'v\<close> is its value. A thread reads the row before its own, the first row of a
  sequence reads the slot's, and the last row's thread writes the slot. Nothing orders the threads
  of one launch.

  The definitions \<open>tmix_mix6\<close> and \<open>cmix_mix\<close> are the order in which all reads come first, which the
  variable-length kernels enforce with a second launch for the writes.
\<close>

record 'v mix_mem =
  mm_shift :: "nat \<Rightarrow> 'v"
  mm_prev :: "nat \<Rightarrow> 'v"

definition mix_thread :: "nat \<Rightarrow> nat list \<Rightarrow> 'v list \<Rightarrow> nat \<Rightarrow> 'v mix_mem \<Rightarrow> 'v mix_mem" where
  "mix_thread t slots xs i m =
     (let s = slots ! (i div t)
      in m\<lparr>mm_prev := (mm_prev m)(i := if i mod t = 0 then mm_shift m s else xs ! (i - 1)),
           mm_shift := (if i mod t = t - 1 then (mm_shift m)(s := xs ! i) else mm_shift m)\<rparr>)"

definition run_threads :: "nat \<Rightarrow> nat list \<Rightarrow> 'v list \<Rightarrow> nat list \<Rightarrow> 'v mix_mem \<Rightarrow> 'v mix_mem" where
  "run_threads t slots xs order m = fold (mix_thread t slots xs) order m"

lemma run_append: "run_threads t slots xs (p @ q) m = run_threads t slots xs q (run_threads t slots xs p m)"
  by (simp add: run_threads_def)

lemma last_row:
  assumes "0 < (t :: nat)"
  shows "i mod t = t - 1 \<and> i div t = j \<longleftrightarrow> i = j * t + t - 1"
proof
  assume "i mod t = t - 1 \<and> i div t = j"
  then show "i = j * t + t - 1" using div_mult_mod_eq [of i t] assms by auto
next
  assume "i = j * t + t - 1"
  then have i: "i = t - 1 + j * t" using assms by simp
  have "(t - 1 + j * t) mod t = (t - 1) mod t" "(t - 1 + j * t) div t = j + (t - 1) div t"
    by (rule mod_mult_self1, rule div_mult_self1, use assms in simp)
  then show "i mod t = t - 1 \<and> i div t = j" unfolding i using assms by simp
qed

text \<open>The slot of a sequence changes when its last row's thread runs.\<close>

lemma run_shift:
  assumes "distinct slots" and "0 < t" and "\<forall>i \<in> set order. i < length slots * t" and "j < length slots"
  shows "mm_shift (run_threads t slots xs order m) (slots ! j) =
    (if j * t + t - 1 \<in> set order then xs ! (j * t + t - 1) else mm_shift m (slots ! j))"
  using assms(3)
proof (induction order rule: rev_induct)
  case (snoc i ks)
  have "i div t < length slots" using snoc.prems assms(2) by (simp add: less_mult_imp_div_less)
  then have "slots ! (i div t) = slots ! j \<longleftrightarrow> i div t = j" using assms(1,4) by (simp add: nth_eq_iff_index_eq)
  then show ?case using snoc last_row [OF assms(2), of i j] by (auto simp: run_append) (auto simp: run_threads_def mix_thread_def Let_def)
qed (simp add: run_threads_def)

text \<open>What a row is mixed with is settled when its thread runs.\<close>

lemma run_prev_other: "i \<notin> set order \<Longrightarrow> mm_prev (run_threads t slots xs order m) i = mm_prev m i"
  by (induction order arbitrary: m) (auto simp: run_threads_def mix_thread_def Let_def)

lemma run_prev:
  assumes "i \<notin> set q"
  shows "mm_prev (run_threads t slots xs (p @ i # q) m) i =
    (if i mod t = 0 then mm_shift (run_threads t slots xs p m) (slots ! (i div t)) else xs ! (i - 1))"
proof -
  let ?m = "run_threads t slots xs p m"
  have "run_threads t slots xs (p @ i # q) m = run_threads t slots xs q (mix_thread t slots xs i ?m)"
    by (simp add: run_threads_def)
  moreover have "mm_prev (mix_thread t slots xs i ?m) i = (if i mod t = 0 then mm_shift ?m (slots ! (i div t)) else xs ! (i - 1))"
    by (simp add: mix_thread_def Let_def)
  ultimately show ?thesis by (simp add: run_prev_other [OF assms])
qed

text \<open>
  C40: in whatever order the threads of a uniform mixing kernel run, every row but the first of a
  sequence is mixed with the row before it and the slot ends up with the last row; the first row
  is mixed with the row kept in the slot unless the last row's thread ran before its own: then it
  is mixed with the last row of its own sequence.
\<close>

theorem uniform_mix_race:
  assumes "distinct slots" and "0 < t" and "distinct order" and "set order = {..<length slots * t}" and "j < length slots"
    and "order = p @ j * t # q"
  shows "mm_prev (run_threads t slots xs order m) (j * t) =
      (if j * t + t - 1 \<in> set p then xs ! (j * t + t - 1) else mm_shift m (slots ! j)) \<and>
    (\<forall>k. 0 < k \<and> k < t \<longrightarrow> mm_prev (run_threads t slots xs order m) (j * t + k) = xs ! (j * t + k - 1)) \<and>
    mm_shift (run_threads t slots xs order m) (slots ! j) = xs ! (j * t + t - 1)"
proof (intro conjI allI impI)
  have inside: "j * t + k < length slots * t" if "k < t" for k
  proof -
    have "j * t + k < Suc j * t" using that by simp
    also have "\<dots> \<le> length slots * t" using assms(5) by (intro mult_le_mono1) simp
    finally show ?thesis .
  qed
  have notin: "j * t \<notin> set q" using assms(3,6) by simp
  have "\<forall>i \<in> set p. i < length slots * t" using assms(4,6) by auto
  from run_prev [OF notin, of t slots xs p m] run_shift [OF assms(1,2) this assms(5), of xs m]
  show "mm_prev (run_threads t slots xs order m) (j * t) =
      (if j * t + t - 1 \<in> set p then xs ! (j * t + t - 1) else mm_shift m (slots ! j))"
    using assms(2) by (simp add: assms(6))
  fix k assume k: "0 < k \<and> k < t"
  then have "j * t + k \<in> set order" using inside assms(4) by simp
  then obtain p' q' where s: "order = p' @ (j * t + k) # q'" by (meson split_list)
  then have "j * t + k \<notin> set q'" using assms(3) by simp
  with k show "mm_prev (run_threads t slots xs order m) (j * t + k) = xs ! (j * t + k - 1)"
    unfolding s by (simp add: run_prev)
next
  have "j * t + t - 1 < length slots * t"
  proof -
    have "Suc j * t \<le> length slots * t" using assms(5) by (intro mult_le_mono1) simp
    then show ?thesis using assms(2) by simp
  qed
  then have "j * t + t - 1 \<in> set order" using assms(4) by simp
  then show "mm_shift (run_threads t slots xs order m) (slots ! j) = xs ! (j * t + t - 1)"
    using run_shift [OF assms(1,2) _ assms(5), of order xs m] assms(4) by simp
qed

text \<open>Two sequences of two rows; the second one's last row runs first.\<close>

lemma uniform_mix_race_witness:
  "mm_prev (run_threads 2 [4, 7] [10, 11, 20, 21 :: int] [0, 3, 1, 2] \<lparr>mm_shift = \<lambda>s. - int s, mm_prev = \<lambda>_. 0\<rparr>) 2 = 21 \<and>
   mm_prev (run_threads 2 [4, 7] [10, 11, 20, 21 :: int] [0, 3, 1, 2] \<lparr>mm_shift = \<lambda>s. - int s, mm_prev = \<lambda>_. 0\<rparr>) 0 = -4"
proof
  have set: "set [0, 3, 1, 2 :: nat] = {..<length [4, 7 :: nat] * 2}" by auto
  show "mm_prev (run_threads 2 [4, 7] [10, 11, 20, 21 :: int] [0, 3, 1, 2] \<lparr>mm_shift = \<lambda>s. - int s, mm_prev = \<lambda>_. 0\<rparr>) 2 = 21"
    using uniform_mix_race [OF _ _ _ set, of 1 "[0, 3, 1]" "[]" "[10, 11, 20, 21]" "\<lparr>mm_shift = \<lambda>s. - int s, mm_prev = \<lambda>_. 0\<rparr>"]
    by simp
  show "mm_prev (run_threads 2 [4, 7] [10, 11, 20, 21 :: int] [0, 3, 1, 2] \<lparr>mm_shift = \<lambda>s. - int s, mm_prev = \<lambda>_. 0\<rparr>) 0 = -4"
    using uniform_mix_race [OF _ _ _ set, of 0 "[]" "[3, 1, 2]" "[10, 11, 20, 21]" "\<lparr>mm_shift = \<lambda>s. - int s, mm_prev = \<lambda>_. 0\<rparr>"]
    by simp
qed

end
