(* ===== verification/State_Buffer.thy ===== *)
theory State_Buffer
  imports Row_State Py_Strings Generation
begin

text \<open>
  Three ways of handing a batch its recurrent state that the engine's runner does not take: the buffer
  of \<^verbatim>\<open>vkwr/worker/gpu/buffer_utils.py\<close>, the batches of \<^verbatim>\<open>vkwr/worker/gpu/input_batch.py\<close> and the copies
  of \<^verbatim>\<open>vkwr/_ops/common_ops.py\<close> between slots and a temporary buffer. The three state tensors are
  allocated, sliced and reset together; row \<open>i\<close> of all three is one element of a list. The last section has
  the buffers through which the runner embeds tokens when the table is in the host's memory.
\<close>

section \<open>StateBufferManager\<close>

record ('v, 'w) state_buffer =
  sb_max_bsz :: nat
  sb_zero :: "'v \<times> 'w"
  sb_rows :: "('v, 'w) row_states option"

definition state_buffer_init :: "nat \<Rightarrow> 'v \<times> 'w \<Rightarrow> ('v, 'w) state_buffer" where
  "state_buffer_init b z = \<lparr>sb_max_bsz = b, sb_zero = z, sb_rows = None\<rparr>"

definition sb_allocate :: "('v, 'w) state_buffer \<Rightarrow> ('v, 'w) state_buffer" where
  "sb_allocate m = m\<lparr>sb_rows := Some (zero_state (fst (sb_zero m)) (snd (sb_zero m)) (sb_max_bsz m))\<rparr>"

definition is_allocated :: "('v, 'w) state_buffer \<Rightarrow> bool" where
  "is_allocated m = (sb_rows m \<noteq> None)"

text \<open>A slice is a view: the number of rows it shows. What is written through it stays in the buffer.\<close>

definition sb_slice :: "('v, 'w) state_buffer \<Rightarrow> int \<Rightarrow> nat res" where
  "sb_slice m bsz =
     (case sb_rows m of
        None \<Rightarrow> Inl (RuntimeError ''State buffers not allocated'')
      | Some ds \<Rightarrow>
          if int (sb_max_bsz m) < bsz then Inl (ValueError ''batch_size exceeds max_bsz'')
          else Inr (slice_end (length ds) bsz))"

definition view_rows :: "('v, 'w) state_buffer \<Rightarrow> nat \<Rightarrow> ('v, 'w) row_states" where
  "view_rows m n = (case sb_rows m of None \<Rightarrow> [] | Some ds \<Rightarrow> take n ds)"

definition view_write :: "nat \<Rightarrow> ('v, 'w) row_states \<Rightarrow> ('v, 'w) state_buffer \<Rightarrow> ('v, 'w) state_buffer" where
  "view_write n rs m = m\<lparr>sb_rows := map_option (\<lambda>ds. rs @ drop n ds) (sb_rows m)\<rparr>"

definition sb_reset :: "int option \<Rightarrow> ('v, 'w) state_buffer \<Rightarrow> ('v, 'w) state_buffer" where
  "sb_reset bsz m =
     (case sb_rows m of
        None \<Rightarrow> m
      | Some ds \<Rightarrow>
          let n = (case bsz of Some b \<Rightarrow> slice_end (length ds) b | None \<Rightarrow> length ds)
          in view_write n (zero_state (fst (sb_zero m)) (snd (sb_zero m)) n) m)"

definition sb_wf :: "('v, 'w) state_buffer \<Rightarrow> bool" where
  "sb_wf m = (case sb_rows m of None \<Rightarrow> True | Some ds \<Rightarrow> length ds = sb_max_bsz m)"

lemma slice_end_le [simp]: "slice_end n i \<le> n"
  by (auto simp: slice_end_def)

lemma length_zero_state [simp]: "length (zero_state zv zw n) = n"
  by (simp add: zero_state_def)

lemma sb_wf_operations [inv_intros]:
  "sb_wf (state_buffer_init b z)" "sb_wf (sb_allocate m)"
  "sb_wf m \<Longrightarrow> length rs = n \<Longrightarrow> n \<le> sb_max_bsz m \<Longrightarrow> sb_wf (view_write n rs m)"
  by (auto simp: sb_wf_def state_buffer_init_def sb_allocate_def view_write_def split: option.splits)

lemma sb_wf_reset [inv_intros]: "sb_wf m \<Longrightarrow> sb_wf (sb_reset bsz m)"
  by (auto simp: sb_wf_def sb_reset_def view_write_def Let_def split: option.splits)

lemma sb_slice_raises_iff:
  "(\<exists>e. sb_slice m bsz = Inl e) \<longleftrightarrow> \<not> is_allocated m \<or> int (sb_max_bsz m) < bsz"
  by (auto simp: sb_slice_def is_allocated_def split: option.splits)

text \<open>
  The size is only checked from above: a negative one leaves out rows at the end, as everywhere in Python.
\<close>

lemma sb_slice_rows:
  assumes "sb_wf m" and "is_allocated m" and "bsz \<le> int (sb_max_bsz m)"
  shows "sb_slice m bsz = Inr (nat (if bsz < 0 then int (sb_max_bsz m) + bsz else bsz))"
  using assms by (auto simp: sb_slice_def sb_wf_def is_allocated_def slice_end_def)

lemma view_after_write:
  assumes "is_allocated m" and "length rs = n"
  shows "view_rows (view_write n rs m) n = rs"
  using assms by (auto simp: view_rows_def view_write_def is_allocated_def)

lemma view_write_beyond:
  assumes "sb_rows m = Some ds" and "length rs = n" and "n \<le> i" and "i < length ds"
  shows "\<exists>ds'. sb_rows (view_write n rs m) = Some ds' \<and> ds' ! i = ds ! i"
  using assms by (auto simp: view_write_def nth_append)

lemma sb_reset_rows:
  assumes "sb_rows m = Some ds" and "i < length ds"
  shows "\<exists>ds'. sb_rows (sb_reset bsz m) = Some ds' \<and>
    ds' ! i = (if i < (case bsz of Some b \<Rightarrow> slice_end (length ds) b | None \<Rightarrow> length ds)
               then \<lparr>ss_shift = \<lambda>l j. fst (sb_zero m), ss_wkv = \<lambda>l. snd (sb_zero m), ss_elapsed = 0\<rparr> else ds ! i)"
  using assms by (auto simp: sb_reset_def Let_def view_write_def nth_append zero_state_def split: option.splits)

lemma sb_reset_all: "is_allocated m \<Longrightarrow> sb_wf m \<Longrightarrow> sb_reset None m = sb_allocate m"
  by (auto simp: sb_reset_def sb_allocate_def view_write_def is_allocated_def sb_wf_def Let_def)

section \<open>InputBatch\<close>

record ('v, 'w) input_batch =
  ib_input_ids :: "token list list"
  ib_state :: "('v, 'w) row_states"
  ib_request_ids :: "rid list"
  ib_sampling_params :: "sampling_params list"
  ib_is_decode :: bool
  ib_is_last_prefill :: bool

text \<open>The sizes of the tensor of tokens; an empty list gives a tensor with one dimension.\<close>

definition ib_batch_size :: "('v, 'w) input_batch \<Rightarrow> nat" where
  "ib_batch_size b = length (ib_input_ids b)"

definition ib_seq_len :: "('v, 'w) input_batch \<Rightarrow> nat" where
  "ib_seq_len b = (case ib_input_ids b of [] \<Rightarrow> 1 | ts # _ \<Rightarrow> length ts)"

fun py_len :: "'a list option \<Rightarrow> nat res" where
  "py_len None = Inl (TypeError ''object of type NoneType has no len()'')"
| "py_len (Some xs) = Inr (length xs)"

fun check_lengths :: "'a list option list \<Rightarrow> unit res" where
  "check_lengths (l # k # ls) =
     bindE (py_len l) (\<lambda>n. foldE (\<lambda>u x. bindE (py_len x) (\<lambda>m.
       assertE (m = n) (ValueError ''Prefill and decode requests cannot be batched together''))) () (k # ls))"
| "check_lengths ls = Inr ()"

text \<open>\<^verbatim>\<open>torch.tensor\<close> is the argument \<open>tensor\<close>.\<close>

definition from_scheduler_output ::
    "(token list option list \<Rightarrow> token list list res) \<Rightarrow> sched_output \<Rightarrow> ('v, 'w) row_states
       \<Rightarrow> ('v, 'w) input_batch res" where
  "from_scheduler_output tensor so ds =
     (let ids = so_scheduled_req_ids so
      in bindE (mapE (dict_item (so_request_data so)) ids) (\<lambda>rds.
         bindE (check_lengths (map rd_input_token_ids rds)) (\<lambda>u.
         bindE (tensor (map rd_input_token_ids rds)) (\<lambda>ts.
           Inr \<lparr>ib_input_ids = ts, ib_state = take (length ids) ds, ib_request_ids = ids,
                ib_sampling_params = map rd_sampling_params rds,
                ib_is_decode = list_ex rd_is_decode rds,
                ib_is_last_prefill = list_ex rd_is_last_prefill rds\<rparr>))))"

text \<open>What torch documents: a tensor is made of rows of one length, and of nothing else.\<close>

definition rectangular :: "'a list option list \<Rightarrow> bool" where
  "rectangular ls \<longleftrightarrow> (\<exists>n. \<forall>l \<in> set ls. \<exists>ts. l = Some ts \<and> length ts = n)"

definition torch_tensor :: "(token list option list \<Rightarrow> token list list res) \<Rightarrow> bool" where
  "torch_tensor tensor \<longleftrightarrow>
     (\<forall>ls. if rectangular ls then tensor ls = Inr (map the ls) else \<exists>e. tensor ls = Inl e)"

lemma rectangular_None: "None \<in> set ls \<Longrightarrow> \<not> rectangular ls"
  by (auto simp: rectangular_def)

lemma check_lengths_rectangular: "rectangular ls \<Longrightarrow> check_lengths ls = Inr ()"
proof (induction ls rule: check_lengths.induct)
  case (1 l k ls)
  then obtain n where n: "\<forall>x \<in> set (l # k # ls). \<exists>ts. x = Some ts \<and> length ts = n"
    unfolding rectangular_def by blast
  have "foldE (\<lambda>u x. bindE (py_len x) (\<lambda>m. assertE (m = n) e)) () xs = Inr ()"
    if "set xs \<subseteq> set (l # k # ls)" for xs and e :: py_error
    using that n by (induction xs) (auto simp: assertE_def)
  moreover obtain ts where "l = Some ts" "length ts = n" using n by auto
  ultimately show ?case using set_subset_Cons [of "k # ls" l] by (simp del: foldE.simps)
qed simp_all

theorem input_batch_returns_iff:
  assumes "torch_tensor tensor"
  shows "(\<exists>b. from_scheduler_output tensor so ds = Inr b) \<longleftrightarrow>
    (\<exists>rds. mapE (dict_item (so_request_data so)) (so_scheduled_req_ids so) = Inr rds \<and>
       rectangular (map rd_input_token_ids rds))"
proof -
  have "(\<exists>ts. tensor ls = Inr ts) \<longleftrightarrow> rectangular ls" for ls
    using assms unfolding torch_tensor_def by (metis Inl_Inr_False)
  then show ?thesis
    by (auto simp: from_scheduler_output_def Let_def dest: check_lengths_rectangular)
qed

text \<open>
  The scheduler gives a decoding request no tokens, so no batch with one can be built: the runner
  keeps the last sampled token itself.
\<close>

theorem decode_has_no_input_batch:
  assumes "torch_tensor tensor" and "sched_wf s" and "0 \<le> max_num_batched_tokens (sc_config s)"
    and "schedule s = Inr (out, s')" and "(i, rd) \<in> set (so_request_data out)" and "rd_is_decode rd"
  shows "\<exists>e. from_scheduler_output tensor out ds = Inl e"
  using assms(2-4)
proof (cases rule: schedule_spec)
  case (1 b s1)
  have d: "so_request_data out = b_data b" "so_scheduled_req_ids out = b_scheduled b" using 1(11,15) by simp_all
  have m: "mapE (dict_item (b_data b)) (b_scheduled b) = Inr (map snd (b_data b))"
    using 1(1) mapE_dict_items [of "b_data b"] by (simp add: batch_inv_def)
  have "run_data_ok s1 rd" using 1(1) assms(5) unfolding d by (auto simp: batch_inv_def)
  then have "rd_input_token_ids rd = None" using assms(6) by (simp add: run_data_ok_def Let_def)
  then have "None \<in> set (map rd_input_token_ids (map snd (b_data b)))"
    using assms(5) unfolding d by force
  from rectangular_None [OF this] have "\<not> (\<exists>b'. from_scheduler_output tensor out ds = Inr b')"
    unfolding input_batch_returns_iff [OF assms(1)] d m by simp
  then show ?thesis by (cases "from_scheduler_output tensor out ds") auto
qed

text \<open>
  A batch takes the first rows of the state, whatever slots its requests hold: these are the
  requests' own rows exactly when the slots are \<open>0, 1, ...\<close> in the order of the batch.
\<close>

theorem input_batch_rows:
  assumes "from_scheduler_output tensor so ds = Inr b" and "distinct ds"
    and "length slots = length (so_scheduled_req_ids so)" and "\<forall>k \<in> set slots. k < length ds"
  shows "ib_state b = map ((!) ds) slots \<longleftrightarrow> slots = [0..<length slots]"
proof -
  have st: "ib_state b = take (length slots) ds"
    using assms(1,3) by (auto simp: from_scheduler_output_def Let_def)
  have le: "length slots \<le> length ds" if "take (length slots) ds = map ((!) ds) slots"
    using arg_cong [OF that, of length] by simp
  show ?thesis
  proof
    assume eq: "ib_state b = map ((!) ds) slots"
    show "slots = [0..<length slots]"
    proof (rule nth_equalityI)
      fix k assume k: "k < length slots"
      then have "ds ! k = ds ! (slots ! k)" using arg_cong [OF eq [unfolded st], of "\<lambda>xs. xs ! k"] by simp
      moreover have "slots ! k < length ds" using k assms(4) by simp
      ultimately show "slots ! k = [0..<length slots] ! k"
        using k le [OF eq [unfolded st]] assms(2) by (simp add: nth_eq_iff_index_eq)
    qed simp
  next
    assume eq: "slots = [0..<length slots]"
    have "length slots \<le> length ds"
    proof (cases "length slots")
      case (Suc n)
      then have "n \<in> set slots" using eq by (metis atLeastLessThan_iff lessI less_eq_nat.simps(1) set_upt)
      then show ?thesis using Suc assms(4) by fastforce
    qed simp
    then have "map ((!) ds) [0..<length slots] = take (length slots) ds"
      by (intro nth_equalityI) simp_all
    then show "ib_state b = map ((!) ds) slots" using eq st by metis
  qed
qed

section \<open>Gathering and scattering\<close>

text \<open>
  Position \<open>i\<close> of the temporary buffer is copied from or to slot \<open>slots ! i\<close>; rows from \<open>b\<close> on are left
  alone. The blocks of a scatter run in no order; in the model they run in that of the positions, which
  makes no difference for distinct slots.
\<close>

definition gather_decode_state ::
    "nat \<Rightarrow> ('v, 'w) states \<Rightarrow> nat list \<Rightarrow> ('v, 'w) row_states \<Rightarrow> ('v, 'w) row_states" where
  "gather_decode_state b st slots ds = map (\<lambda>i. if i < b then st (slots ! i) else ds ! i) [0..<length ds]"

definition scatter_block :: "nat list \<Rightarrow> ('v, 'w) row_states \<Rightarrow> nat \<Rightarrow> ('v, 'w) states \<Rightarrow> ('v, 'w) states" where
  "scatter_block slots ds i st = st(slots ! i := ds ! i)"

definition scatter_decode_state ::
    "nat \<Rightarrow> ('v, 'w) states \<Rightarrow> nat list \<Rightarrow> ('v, 'w) row_states \<Rightarrow> ('v, 'w) states" where
  "scatter_decode_state b st slots ds = fold (scatter_block slots ds) [0..<b] st"

lemma scatter_blocks:
  assumes "distinct js" and "\<forall>i \<in> set js. i < length slots" and "distinct slots" and "i < length slots"
  shows "fold (scatter_block slots ds) js st (slots ! i) = (if i \<in> set js then ds ! i else st (slots ! i))"
  using assms
  by (induction js arbitrary: st) (auto simp: scatter_block_def nth_eq_iff_index_eq)

lemma scatter_blocks_outside:
  assumes "s \<notin> set slots" and "\<forall>i \<in> set js. i < length slots"
  shows "fold (scatter_block slots ds) js st s = st s"
  using assms by (induction js arbitrary: st) (auto simp: scatter_block_def)

text \<open>The order in which the blocks run does not matter.\<close>

theorem scatter_in_any_order:
  assumes "distinct slots" and "length slots = b" and "distinct js" and "set js = {0..<b}"
  shows "fold (scatter_block slots ds) js st = scatter_decode_state b st slots ds"
proof
  fix s
  show "fold (scatter_block slots ds) js st s = scatter_decode_state b st slots ds s"
  proof (cases "s \<in> set slots")
    case True
    then obtain i where "i < length slots" "s = slots ! i" by (metis in_set_conv_nth)
    then show ?thesis using assms by (simp add: scatter_decode_state_def scatter_blocks)
  qed (use assms in \<open>simp add: scatter_decode_state_def scatter_blocks_outside\<close>)
qed

theorem gather_after_scatter:
  assumes "distinct slots" and "length slots = b" and "b \<le> length ds"
  shows "gather_decode_state b (scatter_decode_state b st slots ds) slots ds = ds"
  using assms by (intro nth_equalityI) (simp_all add: gather_decode_state_def scatter_decode_state_def scatter_blocks)

theorem scatter_after_gather:
  assumes "distinct slots" and "length slots = b" and "b \<le> length ds"
  shows "scatter_decode_state b st slots (gather_decode_state b st slots ds) = st"
proof
  fix s
  show "scatter_decode_state b st slots (gather_decode_state b st slots ds) s = st s"
  proof (cases "s \<in> set slots")
    case True
    then obtain i where "i < length slots" "s = slots ! i" by (metis in_set_conv_nth)
    then show ?thesis using assms
      by (simp add: scatter_decode_state_def scatter_blocks gather_decode_state_def)
  qed (use assms in \<open>simp add: scatter_decode_state_def scatter_blocks_outside\<close>)
qed

text \<open>A step on the temporary buffer followed by a scatter is the step in the slots.\<close>

theorem scatter_is_place:
  assumes "distinct slots" and "length slots = b" and "length ds = b"
  shows "scatter_decode_state b st slots ds = place slots ds st"
proof
  fix s
  show "scatter_decode_state b st slots ds s = place slots ds st s"
  proof (cases "s \<in> set slots")
    case True
    then obtain i where "i < length slots" "s = slots ! i" by (metis in_set_conv_nth)
    then show ?thesis using assms by (simp add: scatter_decode_state_def scatter_blocks place_nth)
  next
    case False
    then have none: "map_of (zip slots ds) s = None" using assms by (simp add: map_of_zip_is_None)
    have "place slots ds st s = st s" unfolding place_def none by simp
    then show ?thesis using False assms by (simp add: scatter_decode_state_def scatter_blocks_outside)
  qed
qed

section \<open>Embedding on the host\<close>

text \<open>
  With the embedding table in the host's memory the runner looks the tokens up outside the captured
  graph (\<^verbatim>\<open>GPUModelRunner._prepare_uniform_decode_cpu_emb\<close>): into one of two pinned buffers in turn, and from
  there into the graph's input. Every step ends with a synchronisation, and the second copy of a step reads
  other rows than the first, so the copies are immediate here. \<open>emb\<close> is the table.
\<close>

record 'v emb_buffers =
  eb_host :: "'v list list"
  eb_idx :: nat
  eb_x :: "'v list"

definition copy_rows :: "nat \<Rightarrow> 'v list \<Rightarrow> 'v list \<Rightarrow> 'v list" where
  "copy_rows i rows xs = take i xs @ rows @ drop (i + length rows) xs"

definition prepare_cpu_emb :: "(token \<Rightarrow> 'v) \<Rightarrow> nat \<Rightarrow> token list \<Rightarrow> nat \<Rightarrow> 'v emb_buffers \<Rightarrow> 'v emb_buffers" where
  "prepare_cpu_emb emb b toks padded e =
     (let i = eb_idx e mod 2;
          buf = copy_rows 0 (map emb (take b toks)) (eb_host e ! i);
          x = copy_rows 0 (take b buf) (eb_x e);
          (buf2, x2) =
            (if b < padded
             then let buf2 = copy_rows b (map emb (replicate (padded - b) 0)) buf
                  in (buf2, copy_rows b (take (padded - b) (drop b buf2)) x)
             else (buf, x))
      in \<lparr>eb_host = (eb_host e)[i := buf2], eb_idx = 1 - i, eb_x = x2\<rparr>)"

lemma length_copy_rows [simp]: "i + length rows \<le> length xs \<Longrightarrow> length (copy_rows i rows xs) = length xs"
  by (simp add: copy_rows_def)

lemma take_copy_rows [simp]: "i \<le> length xs \<Longrightarrow> take i (copy_rows i rows xs) = take i xs"
  by (simp add: copy_rows_def)

lemma copied_rows [simp]:
  "i \<le> length xs \<Longrightarrow> n = length rows \<Longrightarrow> take n (drop i (copy_rows i rows xs)) = rows"
  by (simp add: copy_rows_def)

definition emb_buffers_ok :: "nat \<Rightarrow> 'v emb_buffers \<Rightarrow> bool" where
  "emb_buffers_ok n e \<longleftrightarrow>
     length (eb_host e) = 2 \<and> (\<forall>buf \<in> set (eb_host e). length buf = n) \<and> eb_idx e < 2 \<and> length (eb_x e) = n"

text \<open>
  The graph's input is the embedding of the tokens and of the padding's token 0, the input that the graph
  would compute itself; the other buffer is left alone and used next.
\<close>

theorem prepare_cpu_emb_rows:
  assumes "emb_buffers_ok n e" and "length toks = b" and "b \<le> n" and "padded \<le> n"
  shows "take (max b padded) (eb_x (prepare_cpu_emb emb b toks padded e)) =
      map emb (toks @ replicate (padded - b) 0)"
    and "emb_buffers_ok n (prepare_cpu_emb emb b toks padded e)"
    and "eb_idx (prepare_cpu_emb emb b toks padded e) = 1 - eb_idx e"
    and "eb_host (prepare_cpu_emb emb b toks padded e) ! (1 - eb_idx e) = eb_host e ! (1 - eb_idx e)"
proof -
  let ?i = "eb_idx e" and ?e = "prepare_cpu_emb emb b toks padded e"
  define buf where "buf = copy_rows 0 (map emb toks) (eb_host e ! ?i)"
  define x where "x = copy_rows 0 (map emb toks) (eb_x e)"
  define pad where "pad = map emb (replicate (padded - b) 0)"
  have i: "?i mod 2 = ?i" "?i < 2" "length (eb_host e) = 2" "length (eb_x e) = n" using assms(1) by (simp_all add: emb_buffers_ok_def)
  then have h: "length (eb_host e ! ?i) = n" using assms(1) by (simp add: emb_buffers_ok_def)
  have len: "length buf = n" "length x = n" "length pad = padded - b"
    using assms h i by (simp_all add: buf_def x_def pad_def)
  have first: "take b buf = map emb toks" "take b x = map emb toks"
    using assms(2) copied_rows [of 0 _ b "map emb toks"] by (simp_all add: buf_def x_def)
  have e: "?e = \<lparr>eb_host = (eb_host e)[?i := if b < padded then copy_rows b pad buf else buf], eb_idx = 1 - ?i,
      eb_x = if b < padded then copy_rows b pad x else x\<rparr>"
    using assms(2,3) len first(1)
    by (simp add: prepare_cpu_emb_def Let_def i(1) flip: buf_def x_def pad_def) (simp add: buf_def x_def pad_def)
  have "take padded (copy_rows b pad x) = take b x @ pad" if "b < padded"
    using that len assms(3) by (simp add: copy_rows_def)
  then show "take (max b padded) (eb_x ?e) = map emb (toks @ replicate (padded - b) 0)"
    using first(2) assms(2) by (simp add: e pad_def max_def)
  show "eb_idx ?e = 1 - ?i" by (simp add: e)
  show "eb_host ?e ! (1 - ?i) = eb_host e ! (1 - ?i)"
  proof -
    have "?i \<noteq> 1 - ?i" using i(2) by (cases ?i) simp_all
    from nth_list_update_neq [OF this] show ?thesis by (simp only: e emb_buffers.select_convs)
  qed
  have "length (if b < padded then copy_rows b pad buf else buf) = n" "length (if b < padded then copy_rows b pad x else x) = n"
    using len assms(3,4) by simp_all
  then show "emb_buffers_ok n ?e"
    using assms(1) i(2) unfolding e emb_buffers_ok_def by (auto dest: set_update_subset_insert [THEN subsetD])
qed

end
