(* ===== verification/Serial.thy ===== *)
theory Serial
  imports Prelude
begin

text \<open>
  The hooks of \<^verbatim>\<open>vkwr/engine/serial_utils.py\<close> that msgspec calls for objects it cannot encode or decode
  itself. Pickling, the message format and the constructors of message types are arguments. A field's
  default is what msgspec reports of it: a value or one of the two sentinels \<^verbatim>\<open>UNSET\<close> and \<^verbatim>\<open>NODEFAULT\<close>.
\<close>

section \<open>Extensions\<close>

datatype ('o, 'b) encoded = Enc_Int int | Enc_Ext int 'b

definition custom_type_cloudpickle :: int where
  "custom_type_cloudpickle = -2"

text \<open>\<open>enum_value\<close> is the value of a member of an \<^verbatim>\<open>IntEnum\<close>, \<open>None\<close> for another object.\<close>

definition enc_hook :: "('o \<Rightarrow> int option) \<Rightarrow> ('o \<Rightarrow> 'b) \<Rightarrow> 'o \<Rightarrow> ('o, 'b) encoded" where
  "enc_hook enum_value dumps x =
     (case enum_value x of Some n \<Rightarrow> Enc_Int n | None \<Rightarrow> Enc_Ext custom_type_cloudpickle (dumps x))"

definition ext_hook :: "('b \<Rightarrow> 'o res) \<Rightarrow> int \<Rightarrow> 'b \<Rightarrow> 'o res" where
  "ext_hook loads code d =
     (if code = custom_type_cloudpickle then loads d else Inl (ValueError ''Unknown ext type''))"

lemma ext_hook_enc_hook:
  assumes "loads (dumps x) = Inr x" and "enum_value x = None"
  shows "\<exists>c d. enc_hook enum_value dumps x = Enc_Ext c d \<and> ext_hook loads c d = Inr x"
  using assms by (simp add: enc_hook_def ext_hook_def)

section \<open>Frames\<close>

definition msg_encode :: "('o \<Rightarrow> 'b) \<Rightarrow> 'o \<Rightarrow> 'b list" where
  "msg_encode encoder x = [encoder x]"

text \<open>\<open>decoder t\<close> decodes as type \<open>t\<close>; with none given the type is the one of the constructor.\<close>

definition msg_decode :: "('t option \<Rightarrow> 'b \<Rightarrow> 'o res) \<Rightarrow> 't option \<Rightarrow> 'b list \<Rightarrow> 't option \<Rightarrow> 'o res" where
  "msg_decode decoder t0 bufs t =
     (case bufs of
        [] \<Rightarrow> Inl IndexError
      | buf # _ \<Rightarrow> (case t of Some t' \<Rightarrow> decoder (Some t') buf | None \<Rightarrow> decoder t0 buf))"

lemma msg_decode_encode:
  assumes "decoder (Some t) (encoder x) = Inr x"
  shows "msg_decode decoder t0 (msg_encode encoder x) (Some t) = Inr x"
    and "msg_decode decoder (Some t) (msg_encode encoder x) None = Inr x"
  using assms by (simp_all add: msg_decode_def msg_encode_def)

section \<open>Rebuilding a message\<close>

datatype 'o field_value = Py_None | Py_Unset | Py_Nodefault | Py_Val 'o

datatype 'o factory = Factory_Unset | Factory_Nodefault | Factory 'o

record 'o field_info =
  fi_default :: "'o field_value"
  fi_factory :: "'o factory"

record 'o struct_type =
  st_fields :: "'o field_info list"
  st_array_like :: bool
  st_positional :: "'o field_value list \<Rightarrow> 'o res"
  st_keywords :: "'o \<Rightarrow> 'o res"

datatype 'o py_type = Any_Type | Object_Type | Struct_Type "'o struct_type" | Other_Type

text \<open>The comprehension over the fields calls every factory, also those of fields that were sent.\<close>

definition field_default :: "'o field_info \<Rightarrow> 'o field_value res" where
  "field_default f =
     (if fi_default f \<noteq> Py_Unset then Inr (fi_default f)
      else case fi_factory f of
             Factory_Unset \<Rightarrow> Inr Py_None
           | Factory_Nodefault \<Rightarrow> Inl (TypeError ''NODEFAULT is not callable'')
           | Factory x \<Rightarrow> Inr (Py_Val x))"

text \<open>\<open>as_list\<close> is \<^verbatim>\<open>list(obj)\<close>.\<close>

definition rebuild_struct :: "('o \<Rightarrow> 'o list res) \<Rightarrow> 'o struct_type \<Rightarrow> 'o \<Rightarrow> 'o res" where
  "rebuild_struct as_list t x =
     (if st_array_like t then
        bindE (as_list x) (\<lambda>xs.
        bindE (mapE field_default (st_fields t)) (\<lambda>ds.
          st_positional t (map Py_Val xs @ drop (length xs) ds)))
      else st_keywords t x)"

definition dec_hook :: "('o \<Rightarrow> 'o list res) \<Rightarrow> 'o py_type \<Rightarrow> 'o \<Rightarrow> 'o res" where
  "dec_hook as_list t x =
     (case t of
        Any_Type \<Rightarrow> Inr x
      | Object_Type \<Rightarrow> Inr x
      | Struct_Type s \<Rightarrow> rebuild_struct as_list s x
      | Other_Type \<Rightarrow> Inl NotImplementedError)"

text \<open>A message that was sent in full is rebuilt from its own fields.\<close>

lemma rebuild_full:
  assumes "st_array_like t" and "as_list x = Inr xs" and "mapE field_default (st_fields t) = Inr ds"
    and "length (st_fields t) \<le> length xs"
  shows "rebuild_struct as_list t x = st_positional t (map Py_Val xs)"
  using assms mapE_length [OF assms(3)] by (simp add: rebuild_struct_def)

text \<open>
  msgspec says \<^verbatim>\<open>NODEFAULT\<close>, never \<^verbatim>\<open>UNSET\<close>, of a field that has no default or no factory. The test
  against \<^verbatim>\<open>UNSET\<close> then always succeeds, so that no factory is called and a missing field of a type
  with a factory is given the sentinel.
\<close>

definition msgspec_field :: "'o field_info \<Rightarrow> bool" where
  "msgspec_field f \<longleftrightarrow> fi_default f \<noteq> Py_Unset \<and> fi_factory f \<noteq> Factory_Unset"

theorem missing_field_gets_sentinel:
  assumes "st_array_like t" and "as_list x = Inr xs" and "\<forall>f \<in> set (st_fields t). msgspec_field f"
  shows "rebuild_struct as_list t x =
    st_positional t (map Py_Val xs @ map fi_default (drop (length xs) (st_fields t)))"
proof -
  have "mapE field_default (st_fields t) = Inr (map fi_default (st_fields t))"
    using assms(3) by (intro mapE_all_Inr) (simp add: field_default_def msgspec_field_def)
  then show ?thesis using assms by (simp add: rebuild_struct_def drop_map)
qed

end
